(* ===== verification/Prelude.thy ===== *)
theory Prelude
  imports Main "HOL-Library.Word"
begin

text \<open>
  Shared vocabulary of the development: the names of the model's basic types, the theorem
  collections the component proofs are driven by, and the generic facts on lists and words
  that more than one component uses.

  Durations and time points of \<^verbatim>\<open>dmq::Clock\<close> (nanoseconds of a monotonic clock in a
  64-bit signed counter) are unbounded integers here: the counter does not wrap within 292
  years, so no component's arithmetic on them depends on the width. Wherever the code narrows
  a time stamp (the rate limiter, sequence numbers) the narrow word is kept.
\<close>

type_synonym byte = "8 word"
type_synonym u16 = "16 word"
type_synonym u32 = "32 word"
type_synonym duration = int
type_synonym time_point = int

text \<open>
  Collections: \<open>inv_defs\<close> holds the unfolding of the invariants, \<open>step_defs\<close> the
  unfolding of the operations, \<open>frame\<close> the facts that say which part of a state an operation
  leaves alone.
\<close>

named_theorems inv_defs "definitions of invariants"
named_theorems step_defs "definitions of operations"
named_theorems frame "what an operation does not change"

subsection \<open>Lists\<close>

lemma nth_middle [simp]: "(xs @ y # ys) ! length xs = y"
  by simp

lemma take_drop_middle: "take (length ys) (drop (length xs) (xs @ ys @ zs)) = ys"
  by simp

lemma filter_eq_self: "(\<And>x. x \<in> set xs \<Longrightarrow> P x) \<Longrightarrow> filter P xs = xs"
  by (induction xs) auto

section \<open>Configuration\<close>

text \<open>How many expired items one pass over a timer list or a table of pending messages handles.\<close>

definition MAX_TIMER_EXPIRED :: nat where "MAX_TIMER_EXPIRED = 16"

text \<open>The message id under which acknowledgements travel, which no remote delegate may have.\<close>

definition ACK_REMOTE_ID :: u16 where "ACK_REMOTE_ID = 0"

end
