(* ===== verification/Checksum.thy ===== *)
theory Checksum
  imports Prelude
begin

unbundle bit_operations_syntax

text \<open>
  \<^verbatim>\<open>extras/util/crc16.h\<close>: the CRC-CCITT checksum of the stream transports, in both of its
  compile-time variants. The table variant (the default, \<^verbatim>\<open>USE_CRC_TABLE\<close>) is proved
  equal to the bit loop, and the checksum is proved to detect every change of one byte.
  A buffer of \<^verbatim>\<open>len\<close> bytes is the list of its bytes.
\<close>

section \<open>The two variants\<close>

definition crcccitt_table :: "u16 list" where
  "crcccitt_table = [
    0x0000, 0x1021, 0x2042, 0x3063, 0x4084, 0x50a5, 0x60c6, 0x70e7, 0x8108, 0x9129,
    0xa14a, 0xb16b, 0xc18c, 0xd1ad, 0xe1ce, 0xf1ef, 0x1231, 0x0210, 0x3273, 0x2252,
    0x52b5, 0x4294, 0x72f7, 0x62d6, 0x9339, 0x8318, 0xb37b, 0xa35a, 0xd3bd, 0xc39c,
    0xf3ff, 0xe3de, 0x2462, 0x3443, 0x0420, 0x1401, 0x64e6, 0x74c7, 0x44a4, 0x5485,
    0xa56a, 0xb54b, 0x8528, 0x9509, 0xe5ee, 0xf5cf, 0xc5ac, 0xd58d, 0x3653, 0x2672,
    0x1611, 0x0630, 0x76d7, 0x66f6, 0x5695, 0x46b4, 0xb75b, 0xa77a, 0x9719, 0x8738,
    0xf7df, 0xe7fe, 0xd79d, 0xc7bc, 0x48c4, 0x58e5, 0x6886, 0x78a7, 0x0840, 0x1861,
    0x2802, 0x3823, 0xc9cc, 0xd9ed, 0xe98e, 0xf9af, 0x8948, 0x9969, 0xa90a, 0xb92b,
    0x5af5, 0x4ad4, 0x7ab7, 0x6a96, 0x1a71, 0x0a50, 0x3a33, 0x2a12, 0xdbfd, 0xcbdc,
    0xfbbf, 0xeb9e, 0x9b79, 0x8b58, 0xbb3b, 0xab1a, 0x6ca6, 0x7c87, 0x4ce4, 0x5cc5,
    0x2c22, 0x3c03, 0x0c60, 0x1c41, 0xedae, 0xfd8f, 0xcdec, 0xddcd, 0xad2a, 0xbd0b,
    0x8d68, 0x9d49, 0x7e97, 0x6eb6, 0x5ed5, 0x4ef4, 0x3e13, 0x2e32, 0x1e51, 0x0e70,
    0xff9f, 0xefbe, 0xdfdd, 0xcffc, 0xbf1b, 0xaf3a, 0x9f59, 0x8f78, 0x9188, 0x81a9,
    0xb1ca, 0xa1eb, 0xd10c, 0xc12d, 0xf14e, 0xe16f, 0x1080, 0x00a1, 0x30c2, 0x20e3,
    0x5004, 0x4025, 0x7046, 0x6067, 0x83b9, 0x9398, 0xa3fb, 0xb3da, 0xc33d, 0xd31c,
    0xe37f, 0xf35e, 0x02b1, 0x1290, 0x22f3, 0x32d2, 0x4235, 0x5214, 0x6277, 0x7256,
    0xb5ea, 0xa5cb, 0x95a8, 0x8589, 0xf56e, 0xe54f, 0xd52c, 0xc50d, 0x34e2, 0x24c3,
    0x14a0, 0x0481, 0x7466, 0x6447, 0x5424, 0x4405, 0xa7db, 0xb7fa, 0x8799, 0x97b8,
    0xe75f, 0xf77e, 0xc71d, 0xd73c, 0x26d3, 0x36f2, 0x0691, 0x16b0, 0x6657, 0x7676,
    0x4615, 0x5634, 0xd94c, 0xc96d, 0xf90e, 0xe92f, 0x99c8, 0x89e9, 0xb98a, 0xa9ab,
    0x5844, 0x4865, 0x7806, 0x6827, 0x18c0, 0x08e1, 0x3882, 0x28a3, 0xcb7d, 0xdb5c,
    0xeb3f, 0xfb1e, 0x8bf9, 0x9bd8, 0xabbb, 0xbb9a, 0x4a75, 0x5a54, 0x6a37, 0x7a16,
    0x0af1, 0x1ad0, 0x2ab3, 0x3a92, 0xfd2e, 0xed0f, 0xdd6c, 0xcd4d, 0xbdaa, 0xad8b,
    0x9de8, 0x8dc9, 0x7c26, 0x6c07, 0x5c64, 0x4c45, 0x3ca2, 0x2c83, 0x1ce0, 0x0cc1,
    0xef1f, 0xff3e, 0xcf5d, 0xdf7c, 0xaf9b, 0xbfba, 0x8fd9, 0x9ff8, 0x6e17, 0x7e36,
    0x4e55, 0x5e74, 0x2e93, 0x3eb2, 0x0ed1, 0x1ef0]"

text \<open>\<^verbatim>\<open>Crc16CalcBlock\<close>, table variant: one byte of the \<^verbatim>\<open>while (len--)\<close> loop, and the loop.\<close>

definition crc16_table_step :: "u16 \<Rightarrow> byte \<Rightarrow> u16" where
  "crc16_table_step crc b =
     push_bit 8 crc XOR crcccitt_table ! unat (drop_bit 8 crc XOR ucast b)"

fun Crc16CalcBlock :: "byte list \<Rightarrow> u16 \<Rightarrow> u16" where
  "Crc16CalcBlock [] crc = crc"
| "Crc16CalcBlock (b # bs) crc = Crc16CalcBlock bs (crc16_table_step crc b)"

text \<open>\<^verbatim>\<open>Crc16CalcBlock\<close>, loop variant: the inner loop over the eight bits of a byte
  (\<open>n\<close> iterations left), one byte, and the outer loop.\<close>

fun crc16_bits :: "nat \<Rightarrow> u16 \<Rightarrow> u16 \<Rightarrow> u16" where
  "crc16_bits 0 data crc = crc"
| "crc16_bits (Suc n) data crc =
     crc16_bits n (push_bit 1 data)
       (if (data XOR crc) AND 0x8000 \<noteq> 0 then push_bit 1 crc XOR 0x1021 else push_bit 1 crc)"

definition crc16_loop_step :: "u16 \<Rightarrow> byte \<Rightarrow> u16" where
  "crc16_loop_step crc b = crc16_bits 8 (push_bit 8 (ucast b)) crc"

fun Crc16CalcBlock_loop :: "byte list \<Rightarrow> u16 \<Rightarrow> u16" where
  "Crc16CalcBlock_loop [] crc = crc"
| "Crc16CalcBlock_loop (b # bs) crc = Crc16CalcBlock_loop bs (crc16_loop_step crc b)"

section \<open>The shift register\<close>

text \<open>
  Both variants are the same linear shift register: \<open>lfsr\<close> is one shift, and it
  distributes over exclusive or.
\<close>

definition lfsr :: "u16 \<Rightarrow> u16" where
  "lfsr x = (if bit x 15 then push_bit 1 x XOR 0x1021 else push_bit 1 x)"

lemma and_top_bit: "(x::u16) AND 0x8000 \<noteq> 0 \<longleftrightarrow> bit x 15"
proof -
  have "(0x8000::u16) = push_bit 15 1" by simp
  then have "x AND 0x8000 = x AND push_bit 15 1" by (simp only:)
  also have "\<dots> \<noteq> 0 \<longleftrightarrow> bit x 15"
    by (simp add: bit_iff_and_push_bit_not_eq_0)
  finally show ?thesis .
qed

lemma lfsr_xor: "lfsr (x XOR y) = lfsr x XOR lfsr y"
  by (simp add: lfsr_def bit_xor_iff push_bit_xor xor.assoc xor.left_commute xor.commute)

lemma lfsr_pow_xor: "(lfsr ^^ n) (x XOR y) = (lfsr ^^ n) x XOR (lfsr ^^ n) y"
  by (induction n) (simp_all add: lfsr_xor)

lemma crc16_bits_lfsr:
  "crc16_bits n data crc = (lfsr ^^ n) (crc XOR data) XOR push_bit n data"
proof (induction n arbitrary: data crc)
  case 0
  show ?case by (simp add: xor.assoc)
next
  case (Suc n)
  have shift: "(if (data XOR crc) AND 0x8000 \<noteq> 0 then push_bit 1 crc XOR 0x1021 else push_bit 1 crc)
      XOR push_bit 1 data = lfsr (crc XOR data)"
    unfolding and_top_bit
    by (simp add: lfsr_def bit_xor_iff push_bit_xor xor.assoc xor.left_commute xor.commute
        del: push_bit_Suc)
  show ?case
    unfolding crc16_bits.simps Suc shift
    by (simp add: funpow_Suc_right push_bit_push_bit del: funpow.simps)
qed

lemma bits_below:
  assumes "unat (x::u16) < 2 ^ k" and "k \<le> n"
  shows "\<not> bit x n"
proof -
  have "unat x < 2 ^ n"
    using assms by (meson less_le_trans one_le_numeral power_increasing)
  then have "\<not> bit (unat x) n"
    by (simp add: bit_iff_odd)
  then show ?thesis
    by (simp add: bit_unsigned_iff bit_imp_le_length)
qed

lemma lfsr_pow_low:
  assumes "unat (x::u16) < 256" and "n \<le> 8"
  shows "(lfsr ^^ n) x = push_bit n x"
  using assms(2)
proof (induction n)
  case 0
  show ?case by simp
next
  case (Suc n)
  have "\<not> bit x (15 - n)"
    using assms(1) Suc.prems by (intro bits_below [where k = 8]) auto
  then have "\<not> bit (push_bit n x) 15"
    using Suc.prems by (simp add: bit_push_bit_iff)
  with Suc show ?case
    by (simp add: lfsr_def push_bit_push_bit)
qed

text \<open>
  The table is checked entry by entry with one shift or one exclusive or each: the entry at
  an even index is the shift of the entry at half the index, and the next one differs from it
  by the polynomial.
\<close>

fun evens :: "'a list \<Rightarrow> 'a list" where
  "evens (a # b # xs) = a # evens xs"
| "evens xs = xs"

fun odds :: "'a list \<Rightarrow> 'a list" where
  "odds (a # b # xs) = b # odds xs"
| "odds xs = []"

lemma length_table: "length crcccitt_table = 256"
  by (simp add: crcccitt_table_def)

lemma table_evens: "evens crcccitt_table = map lfsr (take 128 crcccitt_table)"
  by (simp add: crcccitt_table_def lfsr_def)

lemma table_odds: "odds crcccitt_table = map (\<lambda>x. x XOR 0x1021) (evens crcccitt_table)"
  by (simp add: crcccitt_table_def)

lemma evens_nth: "Suc (2 * i) < length xs \<Longrightarrow> evens xs ! i = xs ! (2 * i)"
  by (induction xs arbitrary: i rule: evens.induct) (auto simp: nth_Cons split: nat.split)

lemma odds_nth: "Suc (2 * i) < length xs \<Longrightarrow> odds xs ! i = xs ! Suc (2 * i)"
  by (induction xs arbitrary: i rule: odds.induct) (auto simp: nth_Cons split: nat.split)

lemma length_evens: "length xs div 2 \<le> length (evens xs)"
  by (induction xs rule: evens.induct) auto

lemma table_even: "i < 128 \<Longrightarrow> crcccitt_table ! (2 * i) = lfsr (crcccitt_table ! i)"
  using evens_nth [of i crcccitt_table] by (simp add: length_table table_evens)

lemma table_odd: "i < 128 \<Longrightarrow> crcccitt_table ! Suc (2 * i) = crcccitt_table ! (2 * i) XOR 0x1021"
  using odds_nth [of i crcccitt_table] evens_nth [of i crcccitt_table]
    length_evens [of crcccitt_table]
  by (simp add: length_table table_odds)

lemma unat_push_bit_8: "i < 256 \<Longrightarrow> unat (push_bit 8 (of_nat i) :: u16) = 256 * i"
  by (simp add: push_bit_eq_mult unat_word_ariths unat_of_nat)

lemma lfsr_below: "unat x < 2 ^ 15 \<Longrightarrow> lfsr x = push_bit 1 x"
  using bits_below [of x 15 15] by (simp add: lfsr_def)

lemma funpow_8: "(f ^^ 8) x = f (f (f (f (f (f (f (f x)))))))"
  by (simp add: numeral_eq_Suc)

lemma lfsr_pow_top: "(lfsr ^^ 8) 0x100 = 0x1021" and lfsr_pow_zero: "(lfsr ^^ 8) 0 = 0"
  by (simp_all add: funpow_8 lfsr_def)

lemma lfsr_pow_comm: "lfsr ((lfsr ^^ n) x) = (lfsr ^^ n) (lfsr x)"
  by (simp add: funpow_swap1)

lemma table_entry: "i < 256 \<Longrightarrow> crcccitt_table ! i = (lfsr ^^ 8) (push_bit 8 (of_nat i))"
proof (induction i rule: less_induct)
  case (less i)
  have even: "crcccitt_table ! (2 * j) = (lfsr ^^ 8) (push_bit 8 (of_nat (2 * j)))"
    if "0 < j" "2 * j \<le> i" for j
  proof -
    have j: "j < 128" "j < i" using that less.prems by simp_all
    have "lfsr (push_bit 8 (of_nat j)) = push_bit 8 (of_nat (2 * j))"
      using lfsr_below [of "push_bit 8 (of_nat j)"] j unat_push_bit_8 [of j]
      by (simp add: push_bit_eq_mult)
    with table_even [OF j(1)] less.IH [OF j(2)] j(1) show ?thesis
      by (simp add: lfsr_pow_comm)
  qed
  have "i = 0 \<or> i = 1 \<or> 0 < i div 2 \<and> i = 2 * (i div 2) \<or> 0 < i div 2 \<and> i = Suc (2 * (i div 2))"
    by arith
  then consider "i = 0" | "i = 1" | j where "0 < j" "i = 2 * j" | j where "0 < j" "i = Suc (2 * j)"
    by blast
  then show ?case
  proof cases
    case 1
    then show ?thesis by (simp add: crcccitt_table_def lfsr_pow_zero)
  next
    case 2
    then show ?thesis by (simp add: crcccitt_table_def lfsr_pow_top)
  next
    case 3
    then show ?thesis using even by simp
  next
    case (4 j)
    have "push_bit 8 (of_nat (Suc (2 * j))) = (push_bit 8 (of_nat (2 * j)) XOR 0x100 :: u16)"
    proof -
      have "(of_nat (Suc (2 * j)) :: u16) = of_nat (2 * j) XOR 1"
        by (simp add: xor_one_eq)
      then have "push_bit 8 (of_nat (Suc (2 * j)) :: u16) = push_bit 8 (of_nat (2 * j)) XOR push_bit 8 1"
        by (simp only: push_bit_xor)
      then show ?thesis by simp
    qed
    then show ?thesis
      using 4 even [OF 4(1)] table_odd [of j] less.prems
      by (simp only: lfsr_pow_xor lfsr_pow_top)
  qed
qed

section \<open>The variants agree\<close>

lemma loop_step_lfsr: "crc16_loop_step crc b = (lfsr ^^ 8) (crc XOR push_bit 8 (ucast b))"
  by (simp add: crc16_loop_step_def crc16_bits_lfsr)

lemma unat_u16: "unat (y::u16) < 65536" and unat_byte: "unat (b::byte) < 256"
  using unsigned_less [of y, where 'a = nat] unsigned_less [of b, where 'a = nat] by simp_all

lemma table_step_lfsr: "crc16_table_step crc b = (lfsr ^^ 8) (crc XOR push_bit 8 (ucast b))"
proof -
  define y where "y = crc XOR push_bit 8 (ucast b)"
  have hi: "drop_bit 8 crc XOR ucast b = drop_bit 8 y"
    by (rule bit_word_eqI) (auto simp: y_def bit_simps dest: bit_imp_le_length)
  have lo: "push_bit 8 (take_bit 8 y) = push_bit 8 crc"
    by (rule bit_word_eqI) (auto simp: y_def bit_simps)
  have split: "y = push_bit 8 (drop_bit 8 y) XOR take_bit 8 y"
    by (rule bit_word_eqI) (auto simp: bit_simps)
  have "unat (drop_bit 8 y) < 256"
    using unat_u16 [of y]
    by (simp add: drop_bit_eq_div unat_div less_mult_imp_div_less)
  then have "crcccitt_table ! unat (drop_bit 8 y) = (lfsr ^^ 8) (push_bit 8 (drop_bit 8 y))"
    using table_entry by simp
  moreover have "(lfsr ^^ 8) (take_bit 8 y) = push_bit 8 (take_bit 8 y)"
    by (rule lfsr_pow_low) (simp_all add: unsigned_take_bit_eq take_bit_nat_less_exp [of 8, simplified])
  ultimately have "crc16_table_step crc b = (lfsr ^^ 8) (push_bit 8 (drop_bit 8 y) XOR take_bit 8 y)"
    unfolding crc16_table_step_def hi lo lfsr_pow_xor by (simp add: xor.commute)
  then show ?thesis
    unfolding y_def [symmetric] using split by simp
qed

lemma table_step_loop: "crc16_table_step = crc16_loop_step"
  by (intro ext) (simp add: table_step_lfsr loop_step_lfsr)

lemma calc_append: "Crc16CalcBlock (xs @ ys) crc = Crc16CalcBlock ys (Crc16CalcBlock xs crc)"
  by (induction xs arbitrary: crc) auto

section \<open>What the checksum detects\<close>

lemma lfsr_eq_0: "lfsr x = 0 \<longleftrightarrow> x = 0"
proof
  assume zero: "lfsr x = 0"
  have b: "\<not> bit x 15"
  proof
    assume "bit x 15"
    then have "\<not> bit (lfsr x) 0 \<Longrightarrow> False" by (simp add: lfsr_def bit_0 even_xor_iff)
    with zero show False by simp
  qed
  show "x = 0"
  proof (rule bit_word_eqI)
    fix n assume n: "n < LENGTH(16)"
    have "bit (lfsr x) (Suc n) = bit (0::u16) (Suc n)" using zero by simp
    moreover have "bit (lfsr x) (Suc n) \<longleftrightarrow> n < 15 \<and> bit x n"
      unfolding lfsr_def bit_push_bit_iff if_not_P [OF b] by auto
    ultimately show "bit x n = bit 0 n"
      using b n by (cases "n = 15") auto
  qed
qed (simp add: lfsr_def)

lemma lfsr_pow_eq_0: "(lfsr ^^ n) x = 0 \<longleftrightarrow> x = 0"
  by (induction n) (simp_all add: lfsr_eq_0)

lemma xor_eq_0: "(x :: 'a :: len word) XOR y = 0 \<longleftrightarrow> x = y"
  by (metis xor.right_neutral xor.left_commute xor_self_eq)

lemma lfsr_pow_inj: "(lfsr ^^ n) x = (lfsr ^^ n) y \<longleftrightarrow> x = y"
  using lfsr_pow_eq_0 [of n "x XOR y"] by (simp add: lfsr_pow_xor xor_eq_0)

lemma push_bit_ucast_inj: "push_bit 8 (ucast (a::byte)) = (push_bit 8 (ucast b) :: u16) \<longleftrightarrow> a = b"
proof
  assume eq: "push_bit 8 (ucast a) = (push_bit 8 (ucast b) :: u16)"
  show "a = b"
  proof (rule bit_word_eqI)
    fix n assume n: "n < LENGTH(8)"
    have "bit (push_bit 8 (ucast a) :: u16) (n + 8) = bit (push_bit 8 (ucast b) :: u16) (n + 8)"
      using eq by simp
    with n show "bit a n = bit b n" by (simp add: bit_simps)
  qed
qed simp

lemma xor_cancel: "(x :: 'a :: len word) XOR z = y XOR z \<longleftrightarrow> x = y"
proof
  assume "x XOR z = y XOR z"
  then have "(x XOR z) XOR z = (y XOR z) XOR z" by simp
  then show "x = y" by (simp add: xor.assoc)
qed simp

lemma xor_swap:
  assumes "(p :: 'a :: len word) XOR q = r XOR s"
  shows "p XOR r = q XOR s"
proof (rule bit_word_eqI)
  fix n
  have "bit (p XOR q) n = bit (r XOR s) n" using assms by simp
  then show "bit (p XOR r) n = bit (q XOR s) n" by (auto simp: bit_xor_iff)
qed

lemma loop_step_inj: "crc16_loop_step c b = crc16_loop_step c' b \<longleftrightarrow> c = c'"
  by (simp add: loop_step_lfsr lfsr_pow_inj xor_cancel)

lemma calc_inj: "Crc16CalcBlock xs c = Crc16CalcBlock xs c' \<longleftrightarrow> c = c'"
  by (induction xs arbitrary: c c') (auto simp: table_step_loop loop_step_inj)

lemma push_ucast_lfsr: "push_bit 8 (ucast (b::byte)) = (lfsr ^^ 8) (ucast b)"
proof (rule lfsr_pow_low [symmetric])
  show "unat (ucast b :: u16) < 256"
    using unat_byte [of b] by (simp add: unsigned_ucast_eq take_bit_nat_eq_self)
qed simp

lemma high_low_disjoint:
  assumes "push_bit 8 (ucast (d::byte)) = (ucast (e::byte) :: u16)"
  shows "d = 0" and "e = 0"
proof -
  have low: "(ucast e :: u16) = 0"
  proof (rule bit_word_eqI)
    fix n assume "n < LENGTH(16)"
    have "bit (ucast e :: u16) n = bit (push_bit 8 (ucast d) :: u16) n" using assms by simp
    then show "bit (ucast e :: u16) n = bit 0 n"
      by (auto simp: bit_simps dest: bit_imp_le_length)
  qed
  then show "e = 0"
    by (metis push_bit_ucast_inj ucast_0 push_bit_of_0)
  show "d = 0"
    using assms low push_bit_ucast_inj [of d 0] by simp
qed

lemma two_steps_inj:
  assumes "crc16_loop_step (crc16_loop_step c a) b = crc16_loop_step (crc16_loop_step c a') b'"
  shows "a = a'" and "b = b'"
proof -
  have "(lfsr ^^ 8) (push_bit 8 (ucast a) XOR push_bit 8 (ucast a'))
      = push_bit 8 (ucast b) XOR push_bit 8 (ucast b')"
  proof -
    have "(lfsr ^^ 8) (c XOR push_bit 8 (ucast a)) XOR push_bit 8 (ucast b)
        = (lfsr ^^ 8) (c XOR push_bit 8 (ucast a')) XOR push_bit 8 (ucast b')"
      using assms by (simp add: loop_step_lfsr lfsr_pow_inj)
    from xor_swap [OF this] show ?thesis
      unfolding lfsr_pow_xor [symmetric] xor.assoc by (simp add: xor.left_commute)
  qed
  then have "(lfsr ^^ 8) (push_bit 8 (ucast (a XOR a'))) = (lfsr ^^ 8) (ucast (b XOR b'))"
    by (simp only: lfsr_pow_xor unsigned_xor_eq push_bit_xor flip: push_ucast_lfsr)
  then have "push_bit 8 (ucast (a XOR a')) = (ucast (b XOR b') :: u16)"
    by (simp only: lfsr_pow_inj)
  then have "a XOR a' = 0" "b XOR b' = 0" by (rule high_low_disjoint)+
  then show "a = a'" "b = b'" by (simp_all add: xor_eq_0)
qed

section \<open>Properties\<close>

text \<open>
  C36: the default table-driven checksum and the compact bit loop selected by undefining
  \<^verbatim>\<open>USE_CRC_TABLE\<close> return the same value for every block and every start value, so
  two peers built with different variants agree.
\<close>

theorem crc_table_eq_loop: "Crc16CalcBlock bs crc = Crc16CalcBlock_loop bs crc"
  by (induction bs arbitrary: crc) (simp_all add: table_step_loop)

text \<open>
  Corrupting two neighbouring bytes of a message in any way (in particular one byte, or
  any burst of errors inside sixteen aligned bits) changes its checksum.
\<close>

theorem crc_detects_two_bytes:
  assumes "(a, b) \<noteq> (a', b')"
  shows "Crc16CalcBlock (xs @ a # b # ys) crc \<noteq> Crc16CalcBlock (xs @ a' # b' # ys) crc"
  using assms two_steps_inj [of "Crc16CalcBlock xs crc" a b a' b']
  by (auto simp: calc_append calc_inj table_step_loop)

lemma crc_detects_two_bytes_witness:
  "Crc16CalcBlock ([1] @ 2 # 3 # [4]) 0xFFFF \<noteq> Crc16CalcBlock ([1] @ 2 # 7 # [4]) 0xFFFF"
  by (rule crc_detects_two_bytes) simp

end
