(* ===== verification/Streams.thy ===== *)
theory Streams
  imports Prelude
begin

unbundle bit_operations_syntax

text \<open>
  The byte streams of \<^verbatim>\<open>port/serialize/serialize/msg_serialize.h\<close> and the private helpers
  of class \<^verbatim>\<open>serialize\<close> that every overload of \<^verbatim>\<open>read\<close> and \<^verbatim>\<open>write\<close> goes through.

  A \<open>reader\<close> is a \<^verbatim>\<open>std::istream\<close> over a byte buffer together with the parsing state
  of the \<^verbatim>\<open>serialize\<close> instance that reads it (\<^verbatim>\<open>stopParsePosStack\<close> with its index as a
  list, top first, and \<^verbatim>\<open>lastError\<close>); a \<open>writer\<close> is a \<^verbatim>\<open>std::ostream\<close> with the
  writing instance's \<^verbatim>\<open>lastError\<close>. The stream operations follow the standard library: each
  input operation starts with a sentry that sets \<^verbatim>\<open>failbit\<close> on a stream that is not
  \<^verbatim>\<open>good()\<close>, a short \<^verbatim>\<open>read\<close> sets \<^verbatim>\<open>eofbit\<close> and \<^verbatim>\<open>failbit\<close>, \<^verbatim>\<open>peek\<close> at the end
  sets \<^verbatim>\<open>eofbit\<close>, \<^verbatim>\<open>seekg\<close> clears \<^verbatim>\<open>eofbit\<close>, and \<^verbatim>\<open>tellg\<close> is -1 (here \<open>None\<close>) on a
  failed or non-seekable stream. The \<^verbatim>\<open>badbit\<close> of a broken device is not modelled.

  The last section says what reading a given byte sequence means (\<open>reads_as\<close>) and how such
  facts compose; the overloads' round trips are proved with it.
\<close>

section \<open>Types and constants of class serialize\<close>

datatype wire_type = UNKNOWN | LITERAL | STRING | WSTRING | VECTOR | MAP | LIST | SET | ENDIAN
  | USER_DEFINED

fun type_byte :: "wire_type \<Rightarrow> byte" where
  "type_byte UNKNOWN = 0"
| "type_byte LITERAL = 1"
| "type_byte STRING = 8"
| "type_byte WSTRING = 9"
| "type_byte VECTOR = 20"
| "type_byte MAP = 21"
| "type_byte LIST = 22"
| "type_byte SET = 23"
| "type_byte ENDIAN = 30"
| "type_byte USER_DEFINED = 31"

datatype ParsingError = NONE | TYPE_MISMATCH | STREAM_ERROR | NON_SEEKABLE_STREAM
  | STRING_TOO_LONG | CONTAINER_TOO_MANY | INVALID_INPUT | END_OF_FILE | NESTING_TOO_DEEP

definition MAX_STRING_SIZE :: nat where "MAX_STRING_SIZE = 1024"
definition MAX_CONTAINER_SIZE :: nat where "MAX_CONTAINER_SIZE = 64"
definition WCHAR_SIZE :: nat where "WCHAR_SIZE = 2"
definition MAX_PARSE_STACK_DEPTH :: nat where "MAX_PARSE_STACK_DEPTH = 5"

lemmas serialize_limits =
  MAX_STRING_SIZE_def MAX_CONTAINER_SIZE_def WCHAR_SIZE_def MAX_PARSE_STACK_DEPTH_def

section \<open>Input streams\<close>

record reader =
  inbuf :: "byte list"
  rpos :: nat
  eofbit :: bool
  failbit :: bool
  seekable :: bool
  stops :: "nat list"
  lastError :: ParsingError
  faulted :: bool

definition good :: "reader \<Rightarrow> bool" where
  "good s \<longleftrightarrow> \<not> eofbit s \<and> \<not> failbit s"

definition set_fail :: "reader \<Rightarrow> reader" where
  "set_fail s = s\<lparr>failbit := True\<rparr>"

definition raiseError :: "ParsingError \<Rightarrow> reader \<Rightarrow> reader" where
  "raiseError e s = s\<lparr>lastError := e\<rparr>"

text \<open>\<^verbatim>\<open>raiseError\<close> followed by \<^verbatim>\<open>is.setstate(std::ios::failbit)\<close>, the pair every rejecting
  branch consists of.\<close>

definition reject :: "ParsingError \<Rightarrow> reader \<Rightarrow> reader" where
  "reject e s = set_fail (raiseError e s)"

definition is_peek :: "reader \<Rightarrow> byte option \<times> reader" where
  "is_peek s =
     (if \<not> good s then (None, set_fail s)
      else if rpos s < length (inbuf s) then (Some (inbuf s ! rpos s), s)
      else (None, s\<lparr>eofbit := True\<rparr>))"

definition is_read :: "nat \<Rightarrow> reader \<Rightarrow> byte list \<times> reader" where
  "is_read n s =
     (if \<not> good s then ([], set_fail s)
      else let got = take n (drop (rpos s) (inbuf s));
               s' = s\<lparr>rpos := rpos s + length got\<rparr>
           in (got, if length got < n then s'\<lparr>eofbit := True, failbit := True\<rparr> else s'))"

definition is_tellg :: "reader \<Rightarrow> nat option \<times> reader" where
  "is_tellg s =
     (if \<not> good s then (None, set_fail s) else (if seekable s then Some (rpos s) else None, s))"

text \<open>\<^verbatim>\<open>seekg\<close> to an absolute position, to the end, and forward from the current position.
  A position outside the buffer is refused.\<close>

definition is_seekg :: "nat option \<Rightarrow> reader \<Rightarrow> reader" where
  "is_seekg p s =
     (let s1 = s\<lparr>eofbit := False\<rparr> in
      if failbit s1 then s1
      else case p of
             None \<Rightarrow> set_fail s1
           | Some q \<Rightarrow> if seekable s1 \<and> q \<le> length (inbuf s1) then s1\<lparr>rpos := q\<rparr> else set_fail s1)"

definition is_seekg_end :: "reader \<Rightarrow> reader" where
  "is_seekg_end s = is_seekg (Some (length (inbuf s))) s"

definition is_seekg_cur :: "nat \<Rightarrow> reader \<Rightarrow> reader" where
  "is_seekg_cur n s = is_seekg (Some (rpos s + n)) s"

section \<open>The private reading helpers\<close>

definition check_stop_parse :: "reader \<Rightarrow> bool \<times> reader" where
  "check_stop_parse s =
     (if eofbit s then (True, raiseError END_OF_FILE s)
      else case stops s of
             [] \<Rightarrow> (False, s)
           | stop # _ \<Rightarrow>
               (case is_tellg s of
                  (None, s1) \<Rightarrow> (False, s1)
                | (Some p, s1) \<Rightarrow> (stop \<le> p, s1)))"

definition push_stop_parse_pos :: "nat \<Rightarrow> reader \<Rightarrow> bool \<times> reader" where
  "push_stop_parse_pos p s =
     (if MAX_PARSE_STACK_DEPTH \<le> length (stops s) then (False, s)
      else (True, s\<lparr>stops := p # stops s\<rparr>))"

text \<open>The assertion of \<^verbatim>\<open>pop_stop_parse_pos\<close> on an empty stack is a hard fault: it sets
  \<open>faulted\<close>, which is shown below never to happen.\<close>

definition pop_stop_parse_pos :: "reader \<Rightarrow> reader" where
  "pop_stop_parse_pos s =
     (case stops s of [] \<Rightarrow> s\<lparr>faulted := True\<rparr> | _ # ps \<Rightarrow> s\<lparr>stops := ps\<rparr>)"

definition check_stream :: "reader \<Rightarrow> bool \<times> reader" where
  "check_stream s = (if good s then (True, s) else (False, reject STREAM_ERROR s))"

definition check_slength :: "nat \<Rightarrow> reader \<Rightarrow> bool \<times> reader" where
  "check_slength n s =
     (if MAX_STRING_SIZE < n then (False, reject STRING_TOO_LONG s)
      else (n \<noteq> 0, s))"

definition check_container_size :: "nat \<Rightarrow> reader \<Rightarrow> bool \<times> reader" where
  "check_container_size n s =
     (if MAX_CONTAINER_SIZE < n then (False, reject CONTAINER_TOO_MANY s) else (True, s))"

text \<open>
  \<^verbatim>\<open>read_internal\<close> on a buffer with contents \<open>m\<close>: the bytes that arrive replace its
  beginning (all of it unless the stream ends), and on a big-endian host the buffer is then
  reversed unless \<^verbatim>\<open>no_swap\<close> is set. \<open>le\<close> is \<^verbatim>\<open>LE()\<close>.
\<close>

definition read_internal :: "bool \<Rightarrow> bool \<Rightarrow> byte list \<Rightarrow> reader \<Rightarrow> byte list \<times> reader" where
  "read_internal le no_swap m s =
     (let (stop, s1) = check_stop_parse s in
      if stop then (m, s1)
      else let (got, s2) = is_read (length m) s1;
               m' = got @ drop (length got) m
           in (if \<not> le \<and> \<not> no_swap \<and> 1 < length m then rev m' else m', s2))"

definition read_type :: "bool \<Rightarrow> wire_type \<Rightarrow> reader \<Rightarrow> bool \<times> reader" where
  "read_type le t s =
     (case is_peek s of
        (None, s1) \<Rightarrow> (False, reject END_OF_FILE s1)
      | (Some b, s1) \<Rightarrow>
          if b = type_byte t then (True, snd (read_internal le False [0] s1))
          else (False, reject TYPE_MISMATCH s1))"

section \<open>Built-in values\<close>

text \<open>
  The value of a built-in type is kept as its bytes in little-endian order; \<open>image\<close> is its
  representation in the memory of the host (and its own inverse).
\<close>

definition image :: "bool \<Rightarrow> byte list \<Rightarrow> byte list" where
  "image le m = (if le then m else rev m)"

definition u16_bytes :: "u16 \<Rightarrow> byte list" where
  "u16_bytes n = [ucast n, ucast (drop_bit 8 n)]"

fun bytes_u16 :: "byte list \<Rightarrow> u16" where
  "bytes_u16 [lo, hi] = ucast lo OR push_bit 8 (ucast hi)"
| "bytes_u16 _ = 0"

text \<open>\<^verbatim>\<open>read(is, t_, readPrependedType)\<close> for a built-in type, and its use for the
  \<^verbatim>\<open>uint16_t size\<close> fields, which start as 0 and carry no type byte.\<close>

definition read_literal :: "bool \<Rightarrow> bool \<Rightarrow> byte list \<Rightarrow> reader \<Rightarrow> byte list \<times> reader" where
  "read_literal le readPrependedType m s =
     (let (stop, s1) = check_stop_parse s in
      if stop then (m, s1)
      else let (typed, s2) = (if readPrependedType then read_type le LITERAL s1 else (True, s1)) in
           if \<not> typed then (m, s2)
           else let (m', s3) = read_internal le False (image le m) s2 in (image le m', s3))"

definition read_size :: "bool \<Rightarrow> reader \<Rightarrow> nat \<times> reader" where
  "read_size le s = (let (m, s1) = read_literal le False [0, 0] s in (unat (bytes_u16 m), s1))"

text \<open>\<^verbatim>\<open>readEndian\<close> and \<^verbatim>\<open>writeEndian\<close>: the flag is one byte.\<close>

definition readEndian :: "bool \<Rightarrow> byte \<Rightarrow> reader \<Rightarrow> byte \<times> reader" where
  "readEndian le littleEndian s =
     (let (typed, s1) = read_type le ENDIAN s in
      if typed
      then let (got, s2) = is_read 1 s1 in (case got of [] \<Rightarrow> littleEndian | b # _ \<Rightarrow> b, s2)
      else (littleEndian, s1))"

section \<open>Output streams\<close>

record writer =
  outbuf :: "byte list"
  ppos :: nat
  wfail :: bool
  wseekable :: bool
  wError :: ParsingError

definition wgood :: "writer \<Rightarrow> bool" where
  "wgood w \<longleftrightarrow> \<not> wfail w"

definition wreject :: "ParsingError \<Rightarrow> writer \<Rightarrow> writer" where
  "wreject e w = w\<lparr>wError := e, wfail := True\<rparr>"

definition os_write :: "byte list \<Rightarrow> writer \<Rightarrow> writer" where
  "os_write bs w =
     (if wfail w then w
      else w\<lparr>outbuf := take (ppos w) (outbuf w) @ bs @ drop (ppos w + length bs) (outbuf w),
             ppos := ppos w + length bs\<rparr>)"

definition os_tellp :: "writer \<Rightarrow> nat option" where
  "os_tellp w = (if wfail w \<or> \<not> wseekable w then None else Some (ppos w))"

definition os_seekp :: "nat \<Rightarrow> writer \<Rightarrow> writer" where
  "os_seekp p w =
     (if wfail w then w
      else if wseekable w \<and> p \<le> length (outbuf w) then w\<lparr>ppos := p\<rparr> else w\<lparr>wfail := True\<rparr>)"

section \<open>The private writing helpers\<close>

definition write_internal :: "bool \<Rightarrow> bool \<Rightarrow> byte list \<Rightarrow> writer \<Rightarrow> writer" where
  "write_internal le no_swap m w =
     (if \<not> le \<and> \<not> no_swap \<and> 1 < length m
      then if 8 < length m then wreject INVALID_INPUT w else os_write (rev m) w
      else os_write m w)"

definition write_type :: "bool \<Rightarrow> wire_type \<Rightarrow> writer \<Rightarrow> writer" where
  "write_type le t w = write_internal le False [type_byte t] w"

definition wcheck_stream :: "writer \<Rightarrow> bool \<times> writer" where
  "wcheck_stream w = (if wgood w then (True, w) else (False, wreject STREAM_ERROR w))"

definition wcheck_slength :: "nat \<Rightarrow> writer \<Rightarrow> bool \<times> writer" where
  "wcheck_slength n w =
     (if MAX_STRING_SIZE < n then (False, wreject STRING_TOO_LONG w) else (n \<noteq> 0, w))"

definition wcheck_container_size :: "nat \<Rightarrow> writer \<Rightarrow> bool \<times> writer" where
  "wcheck_container_size n w =
     (if MAX_CONTAINER_SIZE < n then (False, wreject CONTAINER_TOO_MANY w) else (True, w))"

definition write_literal :: "bool \<Rightarrow> bool \<Rightarrow> byte list \<Rightarrow> writer \<Rightarrow> writer" where
  "write_literal le prependType m w =
     write_internal le False (image le m) (if prependType then write_type le LITERAL w else w)"

definition write_size :: "bool \<Rightarrow> nat \<Rightarrow> writer \<Rightarrow> writer" where
  "write_size le n w = write_literal le False (u16_bytes (of_nat n)) w"

definition writeEndian :: "bool \<Rightarrow> writer \<Rightarrow> writer" where
  "writeEndian le w = os_write [if le then 1 else 0] (write_type le ENDIAN w)"

section \<open>Facts about the pieces\<close>

lemma image_image [simp]: "image le (image le m) = m"
  by (simp add: image_def)

lemma length_image [simp]: "length (image le m) = length m"
  by (simp add: image_def)

lemma length_u16_bytes [simp]: "length (u16_bytes n) = 2"
  by (simp add: u16_bytes_def)

lemma bytes_u16_bytes [simp]: "bytes_u16 (u16_bytes n) = n"
  unfolding u16_bytes_def bytes_u16.simps
  by (rule bit_word_eqI) (auto simp: bit_simps)

lemma u16_bytes_not_Nil: "u16_bytes n \<noteq> []"
  by (simp add: u16_bytes_def)

lemma push_pop: "push_stop_parse_pos p s = (True, s') \<Longrightarrow> pop_stop_parse_pos s' = s"
  by (auto simp: push_stop_parse_pos_def pop_stop_parse_pos_def split: if_splits)

section \<open>Reading a given byte sequence\<close>

text \<open>
  \<open>ready e d s\<close>: the reader is in good order, the next bytes are \<open>e\<close>, they lie inside the
  object being parsed, and \<open>d\<close> more objects may be opened. \<open>reads_as rd e x d\<close>: from every
  such state \<open>rd\<close> returns \<open>x\<close> and consumes exactly \<open>e\<close>, changing nothing else.
\<close>

definition adv :: "nat \<Rightarrow> reader \<Rightarrow> reader" where
  "adv n s = s\<lparr>rpos := rpos s + n\<rparr>"

definition ready :: "byte list \<Rightarrow> nat \<Rightarrow> reader \<Rightarrow> bool" where
  "ready e d s \<longleftrightarrow>
     good s \<and> seekable s \<and> take (length e) (drop (rpos s) (inbuf s)) = e
     \<and> rpos s + length e \<le> length (inbuf s)
     \<and> (stops s \<noteq> [] \<longrightarrow> rpos s + length e \<le> hd (stops s))
     \<and> length (stops s) + d \<le> MAX_PARSE_STACK_DEPTH"

definition reads_as :: "(reader \<Rightarrow> 'a \<times> reader) \<Rightarrow> byte list \<Rightarrow> 'a \<Rightarrow> nat \<Rightarrow> bool" where
  "reads_as rd e x d \<longleftrightarrow> (\<forall>s. ready e d s \<longrightarrow> rd s = (x, adv (length e) s))"

lemma reads_asD: "reads_as rd e x d \<Longrightarrow> ready e d s \<Longrightarrow> rd s = (x, adv (length e) s)"
  by (simp add: reads_as_def)

lemma reads_asI: "(\<And>s. ready e d s \<Longrightarrow> rd s = (x, adv (length e) s)) \<Longrightarrow> reads_as rd e x d"
  by (simp add: reads_as_def)

lemma adv_adv [simp]: "adv m (adv n s) = adv (n + m) s"
  by (simp add: adv_def add.assoc)

lemma adv_0 [simp]: "adv 0 s = s"
  by (simp add: adv_def)

lemma adv_select [simp]:
  "rpos (adv n s) = rpos s + n" "inbuf (adv n s) = inbuf s" "stops (adv n s) = stops s"
  "seekable (adv n s) = seekable s" "eofbit (adv n s) = eofbit s" "failbit (adv n s) = failbit s"
  "lastError (adv n s) = lastError s" "faulted (adv n s) = faulted s"
  by (simp_all add: adv_def)

lemma good_adv [simp]: "good (adv n s) = good s"
  by (simp add: good_def)

lemma ready_good: "ready e d s \<Longrightarrow> good s"
  by (simp add: ready_def)

lemma ready_append:
  "ready (e @ f) d s \<longleftrightarrow>
     ready e d s \<and> ready f d (adv (length e) s)"
proof -
  have "take (length e + length f) (drop (rpos s) (inbuf s)) = e @ f \<longleftrightarrow>
      take (length e) (drop (rpos s) (inbuf s)) = e
      \<and> take (length f) (drop (rpos s + length e) (inbuf s)) = f"
    if "rpos s + (length e + length f) \<le> length (inbuf s)"
    using that by (auto simp: take_add append_eq_append_conv add.commute)
  then show ?thesis
    by (auto simp: ready_def)
qed

lemma ready_Cons: "ready (b # f) d s \<longleftrightarrow> ready [b] d s \<and> ready f d (adv 1 s)"
  using ready_append [of "[b]" f] by simp

lemma ready_depth: "ready e d s \<Longrightarrow> d' \<le> d \<Longrightarrow> ready e d' s"
  by (auto simp: ready_def)

lemma check_stop_ready [simp]:
  "ready e d s \<Longrightarrow> e \<noteq> [] \<Longrightarrow> check_stop_parse s = (False, s)"
  by (cases "stops s")
    (auto simp: ready_def check_stop_parse_def is_tellg_def good_def simp flip: length_greater_0_conv)

lemma is_read_ready [simp]: "ready e d s \<Longrightarrow> is_read (length e) s = (e, adv (length e) s)"
  by (auto simp: ready_def is_read_def Let_def adv_def min_def)

lemma read_internal_ready:
  assumes "ready e d s" and "e \<noteq> []" and "length m = length e"
  shows "read_internal le nsw m s
    = (if \<not> le \<and> \<not> nsw \<and> 1 < length e then rev e else e, adv (length e) s)"
  using assms by (simp add: read_internal_def)

lemma read_type_ready:
  assumes "ready [type_byte t] d s"
  shows "read_type le t s = (True, adv 1 s)"
proof -
  have "is_peek s = (Some (type_byte t), s)"
    using assms by (auto simp: is_peek_def ready_def take_Suc_conv_app_nth)
  moreover have "read_internal le False [0] s = ([type_byte t], adv 1 s)"
    using read_internal_ready [OF assms, of "[0]" le False] by simp
  ultimately show ?thesis by (simp add: read_type_def)
qed

lemma read_literal_ready:
  assumes "ready e d s" and "e \<noteq> []" and "length m = length e"
  shows "read_literal le False m s = (e, adv (length e) s)"
  using assms read_internal_ready [of e d s "image le m" le False]
  by (cases e) (auto simp: read_literal_def image_def)

lemma read_literal_tagged_ready:
  assumes "ready (type_byte LITERAL # e) d s" and "e \<noteq> []" and "length m = length e"
  shows "read_literal le True m s = (e, adv (Suc (length e)) s)"
proof -
  have r: "ready [type_byte LITERAL] d s" "ready e d (adv 1 s)"
    using assms(1) ready_Cons by blast+
  have "check_stop_parse s = (False, s)"
    using assms(1) by (rule check_stop_ready) simp
  with r read_internal_ready [OF r(2), of "image le m" le False] assms(2,3) show ?thesis
    by (cases e) (auto simp: read_literal_def read_type_ready image_def)
qed

lemma read_size_ready:
  assumes "ready (u16_bytes n) d s"
  shows "read_size le s = (unat n, adv 2 s)"
  using read_literal_ready [OF assms, of "[0, 0]" le]
  by (simp add: read_size_def u16_bytes_not_Nil)

section \<open>Appending a given byte sequence\<close>

text \<open>\<open>writes w e\<close>: the writer \<open>w\<close>, which stands at its end, after \<open>e\<close> was appended.\<close>

definition at_end :: "writer \<Rightarrow> bool" where
  "at_end w \<longleftrightarrow> \<not> wfail w \<and> wseekable w \<and> ppos w = length (outbuf w)"

definition put :: "byte list \<Rightarrow> writer \<Rightarrow> writer" where
  "put e w = w\<lparr>outbuf := outbuf w @ e, ppos := ppos w + length e\<rparr>"

lemma at_end_put [simp]: "at_end (put e w) = at_end w"
  by (auto simp: at_end_def put_def)

lemma put_put [simp]: "put f (put e w) = put (e @ f) w"
  by (simp add: put_def add.assoc)

lemma put_Nil [simp]: "put [] w = w"
  by (simp add: put_def)

lemma os_write_put [simp]: "at_end w \<Longrightarrow> os_write e w = put e w"
  by (simp add: os_write_def put_def at_end_def)

lemma write_internal_put:
  "at_end w \<Longrightarrow> le \<or> length m \<le> 8 \<or> nsw \<Longrightarrow>
     write_internal le nsw m w = put (if \<not> le \<and> \<not> nsw \<and> 1 < length m then rev m else m) w"
  by (auto simp: write_internal_def)

lemma write_type_put [simp]: "at_end w \<Longrightarrow> write_type le t w = put [type_byte t] w"
  by (simp add: write_type_def write_internal_put)

lemma write_literal_put:
  assumes "at_end w" and "length m \<le> 8"
  shows "write_literal le tagged m w = put ((if tagged then [type_byte LITERAL] else []) @ m) w"
proof -
  have "m = rev m" if "\<not> 1 < length m" using that by (cases m) auto
  with assms show ?thesis
    by (auto simp: write_literal_def write_internal_put image_def)
qed

lemma write_size_put [simp]: "at_end w \<Longrightarrow> write_size le n w = put (u16_bytes (of_nat n)) w"
  by (simp add: write_size_def write_literal_put)

end
