(* ===== verification/Serialize.thy ===== *)
theory Serialize
  imports Streams
begin

text \<open>
  The public overloads of \<^verbatim>\<open>serialize::read\<close> and \<^verbatim>\<open>serialize::write\<close>, one definition
  each. An overload for a container takes the reader or writer of its elements as an argument,
  as the template does; the theory \<open>SerializeValues\<close> ties the recursion for whole values.
  A value that is read into comes as an argument and goes back as the first component of the
  result, so a branch that returns early visibly leaves it alone.
\<close>

section \<open>Strings\<close>

definition read_string :: "bool \<Rightarrow> byte list \<Rightarrow> reader \<Rightarrow> byte list \<times> reader" where
  "read_string le str s =
     (let (stop, s1) = check_stop_parse s in
      if stop then (str, s1)
      else let (typed, s2) = read_type le STRING s1 in
      if \<not> typed then (str, s2)
      else let (size, s3) = read_size le s2; (ok, s4) = check_stream s3 in
      if \<not> ok then ([], s4)
      else let (len_ok, s5) = check_slength size s4 in
      if \<not> len_ok then ([], s5)
      else read_internal le True (replicate size 0) s5)"

text \<open>The \<open>n\<close> times repeated body of a reading loop.\<close>

fun read_n :: "nat \<Rightarrow> (reader \<Rightarrow> 'a \<times> reader) \<Rightarrow> reader \<Rightarrow> 'a list \<times> reader" where
  "read_n 0 rd s = ([], s)"
| "read_n (Suc n) rd s =
     (let (x, s1) = rd s; (xs, s2) = read_n n rd s1 in (x # xs, s2))"

text \<open>One \<^verbatim>\<open>wchar_t\<close>: the two low-order bytes of a zeroed variable are read into, wherever
  the host keeps them.\<close>

definition read_wchar :: "bool \<Rightarrow> reader \<Rightarrow> u32 \<times> reader" where
  "read_wchar le s =
     (let (m, s1) = read_internal le False (image le (replicate WCHAR_SIZE 0)) s
      in (ucast (bytes_u16 (image le m)), s1))"

definition read_wstring :: "bool \<Rightarrow> u32 list \<Rightarrow> reader \<Rightarrow> u32 list \<times> reader" where
  "read_wstring le str s =
     (let (stop, s1) = check_stop_parse s in
      if stop then (str, s1)
      else let (typed, s2) = read_type le WSTRING s1 in
      if \<not> typed then (str, s2)
      else let (size, s3) = read_size le s2; (ok, s4) = check_stream s3 in
      if \<not> ok then ([], s4)
      else let (len_ok, s5) = check_slength size s4 in
      if \<not> len_ok then ([], s5)
      else read_n size (read_wchar le) s5)"

text \<open>\<^verbatim>\<open>read(is, char* str, maxLen)\<close>: \<open>str\<close> is the caller's array, of capacity
  \<^verbatim>\<open>maxLen\<close>, or no array for a null pointer. Only its first \<^verbatim>\<open>size\<close> bytes are written.\<close>

definition read_cstring :: "bool \<Rightarrow> byte list option \<Rightarrow> reader \<Rightarrow> byte list option \<times> reader" where
  "read_cstring le str s =
     (let (stop, s1) = check_stop_parse s in
      if stop then (str, s1)
      else let (typed, s2) = read_type le STRING s1 in
      if \<not> typed then (str, s2)
      else let (size, s3) = read_size le s2; (ok, s4) = check_stream s3 in
      if \<not> ok then (str, s4)
      else let (len_ok, s5) = check_slength size s4 in
      if \<not> len_ok then (str, s5)
      else (case str of
              None \<Rightarrow> (None, reject INVALID_INPUT s5)
            | Some buf \<Rightarrow>
                if length buf < size then (str, reject STRING_TOO_LONG s5)
                else let (m, s6) = read_internal le True (take size buf) s5
                     in (Some (m @ drop size buf), s6)))"

definition write_string :: "bool \<Rightarrow> byte list \<Rightarrow> writer \<Rightarrow> writer" where
  "write_string le str w =
     (if MAX_STRING_SIZE < length str then wreject STRING_TOO_LONG w
      else let size = length str;
               w1 = write_size le size (write_type le STRING w);
               (ok, w2) = wcheck_stream w1 in
           if \<not> ok then w2
           else let (len_ok, w3) = wcheck_slength size w2 in
           if len_ok then write_internal le True str w3 else w3)"

definition write_wchar :: "bool \<Rightarrow> u32 \<Rightarrow> writer \<Rightarrow> writer" where
  "write_wchar le c w = write_internal le False (image le (u16_bytes (ucast c))) w"

definition write_wstring :: "bool \<Rightarrow> u32 list \<Rightarrow> writer \<Rightarrow> writer" where
  "write_wstring le str w =
     (if MAX_STRING_SIZE < length str then wreject STRING_TOO_LONG w
      else let size = length str;
               w1 = write_size le size (write_type le WSTRING w);
               (ok, w2) = wcheck_stream w1 in
           if \<not> ok then w2
           else let (len_ok, w3) = wcheck_slength size w2 in
           if len_ok then fold (write_wchar le) str w3 else w3)"

text \<open>\<^verbatim>\<open>write(os, const char* str)\<close>: \<open>str\<close> is the array the pointer points to, or no
  array; \<^verbatim>\<open>strlen\<close> finds the first zero. The size is computed in \<^verbatim>\<open>uint16_t\<close>.\<close>

definition strlen :: "byte list \<Rightarrow> nat" where
  "strlen str = length (takeWhile (\<lambda>b. b \<noteq> 0) str)"

definition write_cstring :: "bool \<Rightarrow> byte list option \<Rightarrow> writer \<Rightarrow> writer" where
  "write_cstring le str w =
     (case str of
        None \<Rightarrow> wreject INVALID_INPUT w
      | Some buf \<Rightarrow>
          let size = unat (of_nat (strlen buf) + 1 :: u16);
              w1 = write_size le size (write_type le STRING w);
              (ok, w2) = wcheck_stream w1 in
          if \<not> ok then w2
          else let (len_ok, w3) = wcheck_slength size w2 in
          if len_ok then write_internal le True (take size buf) w3 else w3)"

section \<open>User-defined objects\<close>

text \<open>
  \<^verbatim>\<open>read(is, I* t_)\<close> with \<open>body\<close> the virtual \<^verbatim>\<open>t_->read(*this, is)\<close>. The stream position
  after the size field is looked up, the end of the stream is found and the position restored
  before the two bounds are checked.
\<close>

definition read_object ::
  "bool \<Rightarrow> ('a \<Rightarrow> reader \<Rightarrow> 'a \<times> reader) \<Rightarrow> 'a option \<Rightarrow> reader \<Rightarrow> 'a option \<times> reader" where
  "read_object le body obj s =
     (let (stop, s1) = check_stop_parse s in
      if stop then (obj, s1)
      else case obj of
        None \<Rightarrow> (None, reject INVALID_INPUT s1)
      | Some t \<Rightarrow>
          let (typed, s2) = read_type le USER_DEFINED s1 in
          if \<not> typed then (obj, s2)
          else (case is_tellg s2 of
            (None, s3) \<Rightarrow> (obj, reject NON_SEEKABLE_STREAM s3)
          | (Some startPos, s3) \<Rightarrow>
              let (size, s4) = read_size le s3;
                  targetStopPos = startPos + size;
                  (dataPos, s5) = is_tellg s4;
                  (endPosStream, s6) = is_tellg (is_seekg_end s5);
                  s7 = is_seekg dataPos s6 in
              if (case endPosStream of None \<Rightarrow> True | Some e \<Rightarrow> e < targetStopPos)
              then (obj, reject INVALID_INPUT s7)
              else if stops s7 \<noteq> [] \<and> hd (stops s7) < targetStopPos
              then (obj, reject INVALID_INPUT s7)
              else let (pushed, s8) = push_stop_parse_pos targetStopPos s7 in
              if \<not> pushed then (obj, reject NESTING_TOO_DEEP s8)
              else let (t', s9) = body t s8; s10 = pop_stop_parse_pos s9 in
              if \<not> good s10 then (Some t', s10)
              else (case is_tellg s10 of
                (None, s11) \<Rightarrow> (Some t', s11)
              | (Some endPos, s11) \<Rightarrow>
                  let rcvdSize = (of_int (int endPos - int startPos) :: u16);
                      sz = (of_nat size :: u16) in
                  (Some t', if rcvdSize < sz then is_seekg_cur (unat (sz - rcvdSize)) s11
                            else s11))))"

text \<open>\<^verbatim>\<open>write(os, I* t_)\<close> with \<open>body\<close> the virtual \<^verbatim>\<open>t_->write(*this, os)\<close>: a placeholder
  for the size, the object, and the size written back over the placeholder. The size counts
  its own two bytes.\<close>

definition write_object :: "bool \<Rightarrow> (writer \<Rightarrow> writer) option \<Rightarrow> writer \<Rightarrow> writer" where
  "write_object le obj w =
     (case obj of
        None \<Rightarrow> wreject INVALID_INPUT w
      | Some body \<Rightarrow>
          let w1 = write_type le USER_DEFINED w in
          (case os_tellp w1 of
             None \<Rightarrow> wreject NON_SEEKABLE_STREAM w1
           | Some elementSizePos \<Rightarrow>
               let w2 = body (write_size le 0 w1) in
               if \<not> wgood w2 then w2
               else (case os_tellp w2 of
                 None \<Rightarrow> w2
               | Some currentPos \<Rightarrow>
                   let w3 = os_seekp elementSizePos w2 in
                   if 65535 < int currentPos - int elementSizePos then wreject INVALID_INPUT w3
                   else os_seekp currentPos
                          (write_size le (currentPos - elementSizePos) w3))))"

section \<open>Containers\<close>

text \<open>
  Every container overload has the same frame: clear, type byte, size, the checks, then the
  loop over the elements. \<open>read_container\<close> and \<open>write_container\<close> are that frame with the
  loop as an argument.
\<close>

definition read_container ::
  "bool \<Rightarrow> wire_type \<Rightarrow> (nat \<Rightarrow> reader \<Rightarrow> 'c list \<times> reader) \<Rightarrow> 'c list \<Rightarrow> reader \<Rightarrow> 'c list \<times> reader" where
  "read_container le tag loop container s =
     (let (stop, s1) = check_stop_parse s in
      if stop then (container, s1)
      else let (typed, s2) = read_type le tag s1 in
      if \<not> typed then ([], s2)
      else let (size, s3) = read_size le s2; (ok, s4) = check_stream s3 in
      if \<not> ok then ([], s4)
      else let (size_ok, s5) = check_container_size size s4 in
      if size_ok then loop size s5 else ([], s5))"

definition write_container ::
  "bool \<Rightarrow> wire_type \<Rightarrow> ('c \<Rightarrow> writer \<Rightarrow> writer) \<Rightarrow> 'c list \<Rightarrow> writer \<Rightarrow> writer" where
  "write_container le tag item container w =
     (if MAX_CONTAINER_SIZE < length container then wreject CONTAINER_TOO_MANY w
      else let size = length container;
               w1 = write_size le size (write_type le tag w);
               (ok, w2) = wcheck_stream w1 in
           if \<not> ok then w2
           else let (size_ok, w3) = wcheck_container_size size w2 in
           if size_ok then fold item container w3 else w3)"

text \<open>\<^verbatim>\<open>std::set::insert\<close> and \<^verbatim>\<open>std::map::operator[]\<close> on a container kept in the order
  \<open>lt\<close>: an equivalent element stays, an equivalent key gets the new value.\<close>

fun set_insert :: "('a \<Rightarrow> 'a \<Rightarrow> bool) \<Rightarrow> 'a \<Rightarrow> 'a list \<Rightarrow> 'a list" where
  "set_insert lt x [] = [x]"
| "set_insert lt x (y # ys) =
     (if lt x y then x # y # ys else if lt y x then y # set_insert lt x ys else y # ys)"

fun map_put :: "('k \<Rightarrow> 'k \<Rightarrow> bool) \<Rightarrow> 'k \<times> 'v \<Rightarrow> ('k \<times> 'v) list \<Rightarrow> ('k \<times> 'v) list" where
  "map_put lt (k, v) [] = [(k, v)]"
| "map_put lt (k, v) ((k', v') # kvs) =
     (if lt k k' then (k, v) # (k', v') # kvs
      else if lt k' k then (k', v') # map_put lt (k, v) kvs
      else (k', v) # kvs)"

text \<open>By value. \<open>rd\<close> declares a fresh element and reads into it.\<close>

definition read_vector where
  "read_vector le rd = read_container le VECTOR (\<lambda>n. read_n n rd)"

definition read_list where
  "read_list le rd = read_container le LIST (\<lambda>n. read_n n rd)"

definition read_set where
  "read_set le lt rd = read_container le SET
     (\<lambda>n s. let (xs, s') = read_n n rd s in (fold (set_insert lt) xs [], s'))"

definition read_map where
  "read_map le lt rdk rdv = read_container le MAP
     (\<lambda>n s. let (kvs, s') = read_n n (\<lambda>s. let (k, s1) = rdk s; (v, s2) = rdv s1 in ((k, v), s2)) s
            in (fold (map_put lt) kvs [], s'))"

text \<open>\<^verbatim>\<open>vector<bool>\<close>: every element is a tagged built-in value; \<open>t0\<close> is the indeterminate
  content of the loop's local \<^verbatim>\<open>bool t\<close>, which is stored as a bit.\<close>

definition read_vector_bool :: "bool \<Rightarrow> byte \<Rightarrow> bool list \<Rightarrow> reader \<Rightarrow> bool list \<times> reader" where
  "read_vector_bool le t0 = read_container le VECTOR
     (\<lambda>n. read_n n (\<lambda>s. let (m, s1) = read_literal le True [t0] s in (m \<noteq> [0], s1)))"

definition write_vector where "write_vector le item = write_container le VECTOR item"
definition write_list where "write_list le item = write_container le LIST item"
definition write_set where "write_set le item = write_container le SET item"

definition write_map where
  "write_map le itemk itemv =
     write_container le MAP (\<lambda>(k, v) w. itemv v (itemk k w))"

definition write_vector_bool :: "bool \<Rightarrow> bool list \<Rightarrow> writer \<Rightarrow> writer" where
  "write_vector_bool le = write_container le VECTOR
     (\<lambda>c. write_literal le True [if c then 1 else 0])"

text \<open>By pointer: a flag byte, then the object if the pointer is not null. \<open>t0\<close> is a new
  object, \<open>flag0\<close> what the flag variable holds before it is read.\<close>

definition read_pointer ::
  "bool \<Rightarrow> ('a \<Rightarrow> reader \<Rightarrow> 'a \<times> reader) \<Rightarrow> 'a \<Rightarrow> byte \<Rightarrow> reader \<Rightarrow> 'a option \<times> reader" where
  "read_pointer le body t0 flag0 s =
     (let (m, s1) = read_literal le False [flag0] s in
      if m \<noteq> [0] then read_object le body (Some t0) s1 else (None, s1))"

definition write_pointer :: "bool \<Rightarrow> ('a \<Rightarrow> writer \<Rightarrow> writer) \<Rightarrow> 'a option \<Rightarrow> writer \<Rightarrow> writer" where
  "write_pointer le body ptr w =
     (case ptr of
        Some t \<Rightarrow> write_object le (Some (body t)) (write_literal le False [1] w)
      | None \<Rightarrow> write_literal le False [0] w)"

definition read_vector_ptr where
  "read_vector_ptr le body t0 = read_container le VECTOR (\<lambda>n. read_n n (read_pointer le body t0 0))"

definition read_list_ptr where
  "read_list_ptr le body t0 = read_container le LIST (\<lambda>n. read_n n (read_pointer le body t0 0))"

definition read_map_ptr where
  "read_map_ptr le lt rdk body t0 flag0 = read_container le MAP
     (\<lambda>n s. let (kvs, s') = read_n n (\<lambda>s. let (k, s1) = rdk s;
                                            (v, s2) = read_pointer le body t0 flag0 s1
                                        in ((k, v), s2)) s
            in (fold (map_put lt) kvs [], s'))"

definition write_vector_ptr where
  "write_vector_ptr le body = write_container le VECTOR (write_pointer le body)"

definition write_list_ptr where
  "write_list_ptr le body = write_container le LIST (write_pointer le body)"

definition write_map_ptr where
  "write_map_ptr le itemk body =
     write_container le MAP (\<lambda>(k, v) w. write_pointer le body v (itemk k w))"

end
