(* ===== verification/SerializeLaws.thy ===== *)
theory SerializeLaws
  imports Serialize
begin

text \<open>
  What each overload of \<^verbatim>\<open>read\<close> makes of the bytes its counterpart of \<^verbatim>\<open>write\<close> emits. The
  interface an element type has to offer a container is the locale \<open>element_codec\<close>; the
  containers' laws are proved once inside it.
\<close>

section \<open>The wire format\<close>

definition enc_sized :: "wire_type \<Rightarrow> nat \<Rightarrow> byte list \<Rightarrow> byte list" where
  "enc_sized tag n body = type_byte tag # u16_bytes (of_nat n) @ body"

lemma length_enc_sized [simp]: "length (enc_sized tag n body) = 3 + length body"
  by (simp add: enc_sized_def)

lemma enc_sized_not_Nil [simp]: "enc_sized tag n body \<noteq> []"
  by (simp add: enc_sized_def)

lemma ready_sized:
  "ready (enc_sized tag n body) d s \<longleftrightarrow>
     ready [type_byte tag] d s \<and> ready (u16_bytes (of_nat n)) d (adv 1 s) \<and> ready body d (adv 3 s)"
  using ready_Cons [of "type_byte tag" "u16_bytes (of_nat n) @ body" d s]
  by (simp add: enc_sized_def ready_append numeral_3_eq_3)

lemma unat_size: "n \<le> 65535 \<Longrightarrow> unat (of_nat n :: u16) = n"
  by (simp add: unat_of_nat)

text \<open>The common start of every sized overload: type byte, size, stream check.\<close>

lemma sized_start:
  assumes "ready (enc_sized tag n body) d s" and "n \<le> 65535"
  shows "check_stop_parse s = (False, s)" "read_type le tag s = (True, adv 1 s)"
    "read_size le (adv 1 s) = (n, adv 3 s)" "check_stream (adv 3 s) = (True, adv 3 s)"
    "ready body d (adv 3 s)"
proof -
  note r = assms(1) [unfolded ready_sized]
  show "check_stop_parse s = (False, s)"
    using assms(1) by (rule check_stop_ready) simp
  show "read_type le tag s = (True, adv 1 s)"
    using r by (blast intro: read_type_ready)
  show "read_size le (adv 1 s) = (n, adv 3 s)"
    using read_size_ready [of "of_nat n" d "adv 1 s" le] r assms(2) by (simp add: unat_size)
  show "check_stream (adv 3 s) = (True, adv 3 s)"
    using assms(1) by (simp add: check_stream_def ready_good)
  show "ready body d (adv 3 s)" using r by blast
qed

section \<open>Strings\<close>

lemma check_slength_ok:
  "n \<le> MAX_STRING_SIZE \<Longrightarrow> check_slength n s = (n \<noteq> 0, s)"
  "n \<le> MAX_STRING_SIZE \<Longrightarrow> wcheck_slength n w = (n \<noteq> 0, w)"
  by (simp_all add: check_slength_def wcheck_slength_def)

lemma string_size: "n \<le> MAX_STRING_SIZE \<Longrightarrow> n \<le> 65535"
  by (simp add: MAX_STRING_SIZE_def)

lemma read_string_enc:
  assumes "length str \<le> MAX_STRING_SIZE"
  shows "reads_as (read_string le str0) (enc_sized STRING (length str) str) str d"
proof (rule reads_asI)
  fix s assume r: "ready (enc_sized STRING (length str) str) d s"
  note st = sized_start [OF r string_size [OF assms]]
  show "read_string le str0 s = (str, adv (length (enc_sized STRING (length str) str)) s)"
    using st(1-4) read_internal_ready [OF st(5), of "replicate (length str) 0" le True] assms
    by (cases "str = []") (simp_all add: read_string_def check_slength_ok)
qed

lemma read_wchar_enc: "reads_as (read_wchar le) (u16_bytes c) (ucast c) d"
proof (rule reads_asI)
  fix s assume r: "ready (u16_bytes c) d s"
  show "read_wchar le s = (ucast c, adv (length (u16_bytes c)) s)"
    using read_internal_ready [OF r, of "image le (replicate WCHAR_SIZE 0)" le False]
      bytes_u16_bytes [of c]
    by (cases le)
      (simp_all add: read_wchar_def image_def u16_bytes_not_Nil WCHAR_SIZE_def del: bytes_u16_bytes)
qed

lemma read_n_enc:
  assumes "\<And>x. x \<in> set xs \<Longrightarrow> reads_as rd (en x) x d"
  shows "reads_as (read_n (length xs) rd) (concat (map en xs)) xs d"
  using assms
proof (induction xs)
  case Nil
  show ?case by (simp add: reads_as_def)
next
  case (Cons x xs)
  then have IH: "reads_as (read_n (length xs) rd) (concat (map en xs)) xs d"
    and hd: "reads_as rd (en x) x d" by simp_all
  show ?case
    by (rule reads_asI) (simp add: ready_append reads_asD [OF hd] reads_asD [OF IH])
qed

lemma read_wstring_enc:
  assumes "length str \<le> MAX_STRING_SIZE" and "\<And>c. c \<in> set str \<Longrightarrow> ucast (ucast c :: u16) = c"
  shows "reads_as (read_wstring le str0)
    (enc_sized WSTRING (length str) (concat (map (\<lambda>c. u16_bytes (ucast c)) str))) str d"
proof (rule reads_asI)
  let ?body = "concat (map (\<lambda>c. u16_bytes (ucast c)) str)"
  fix s assume r: "ready (enc_sized WSTRING (length str) ?body) d s"
  note st = sized_start [OF r string_size [OF assms(1)]]
  have "reads_as (read_wchar le) (u16_bytes (ucast c)) c d" if "c \<in> set str" for c
    using read_wchar_enc [of le "ucast c" d] assms(2) [OF that] by simp
  then have "reads_as (read_n (length str) (read_wchar le)) ?body str d"
    by (rule read_n_enc)
  from reads_asD [OF this st(5)] st(1-4) assms(1)
  show "read_wstring le str0 s = (str, adv (length (enc_sized WSTRING (length str) ?body)) s)"
    by (cases "str = []") (simp_all add: read_wstring_def check_slength_ok)
qed

text \<open>A C string is written with its terminating zero and read back into an array at least as
  long; the rest of the array keeps its old contents.\<close>

lemma read_cstring_enc:
  assumes "length str < MAX_STRING_SIZE" and "length str < length buf"
  shows "reads_as (read_cstring le (Some buf)) (enc_sized STRING (Suc (length str)) (str @ [0]))
    (Some (str @ 0 # drop (Suc (length str)) buf)) d"
proof (rule reads_asI)
  fix s assume r: "ready (enc_sized STRING (Suc (length str)) (str @ [0])) d s"
  note st = sized_start [OF r] string_size [of "Suc (length str)"]
  show "read_cstring le (Some buf) s = (Some (str @ 0 # drop (Suc (length str)) buf),
      adv (length (enc_sized STRING (Suc (length str)) (str @ [0]))) s)"
    using st assms read_internal_ready [OF st(5), of "take (Suc (length str)) buf" le True]
    by (simp add: read_cstring_def check_slength_ok)
qed

section \<open>Objects\<close>

text \<open>The content of an object whose declared size is \<open>n\<close>: \<open>body\<close> reads \<open>e\<close>, the part it
  knows; \<open>extra\<close> is what a newer sender appended.\<close>

lemma seek_end_and_back:
  assumes "good s" and "seekable s" and "rpos s \<le> length (inbuf s)"
  shows "is_tellg (is_seekg_end s) = (Some (length (inbuf s)), is_seekg_end s)"
    and "is_seekg (Some (rpos s)) (is_seekg_end s) = s"
  using assms by (auto simp: is_seekg_end_def is_seekg_def is_tellg_def good_def)

lemma read_object_enc:
  assumes r: "ready (enc_sized USER_DEFINED n (e @ extra)) (Suc d) s"
    and n: "n = 2 + length e + length extra" "n \<le> 65535"
    and body: "\<And>s. ready e d s \<Longrightarrow> stops s \<noteq> [] \<Longrightarrow>
      hd (stops s) = rpos s + length e + length extra \<Longrightarrow> body t0 s = (t', adv (length e) s)"
  shows "read_object le body (Some t0) s = (Some t', adv (1 + n) s)"
proof -
  note st = sized_start [OF r n(2)]
  let ?s = "adv 3 s" and ?target = "rpos s + 1 + n"
  have g: "good s" "seekable s" "length (stops s) < MAX_PARSE_STACK_DEPTH"
    and fits: "?target \<le> length (inbuf s)" "stops s \<noteq> [] \<Longrightarrow> ?target \<le> hd (stops s)"
    using r n by (auto simp: ready_def)
  have tell: "is_tellg (adv k s) = (Some (rpos s + k), adv k s)" for k
    using g by (simp add: is_tellg_def)
  have seek: "is_tellg (is_seekg_end ?s) = (Some (length (inbuf s)), is_seekg_end ?s)"
    "is_seekg (Some (rpos s + 3)) (is_seekg_end ?s) = ?s"
    using seek_end_and_back [of ?s] g fits n by simp_all
  define u where "u = ?s\<lparr>stops := ?target # stops s\<rparr>"
  have push: "push_stop_parse_pos ?target ?s = (True, u)"
    using g by (simp add: push_stop_parse_pos_def u_def)
  have "ready e (Suc d) ?s" using st(5) by (simp only: ready_append)
  then have "ready e d u"
    using n by (auto simp: u_def ready_def good_def)
  then have b: "body t0 u = (t', adv (length e) u)"
    by (rule body) (simp_all add: u_def n)
  have pop: "pop_stop_parse_pos (adv (length e) u) = adv (3 + length e) s"
    by (simp add: pop_stop_parse_pos_def u_def adv_def)
  define rcvd where "rcvd = (of_int (int (rpos s + (3 + length e)) - int (rpos s + 1)) :: u16)"
  define sz where "sz = (of_nat n :: u16)"
  have rcvd: "rcvd = of_nat (2 + length e)"
    by (simp add: rcvd_def)
  have less: "rcvd < sz \<longleftrightarrow> extra \<noteq> []" and diff: "unat (sz - rcvd) = length extra"
  proof -
    have "unat rcvd = 2 + length e" "unat sz = n"
      using n unat_size [of "2 + length e"] unat_size [of n] by (simp_all only: rcvd sz_def)
    then show "rcvd < sz \<longleftrightarrow> extra \<noteq> []"
      using n by (auto simp: word_less_nat_alt)
    have "sz - rcvd = of_nat (length extra)"
      using n by (simp add: rcvd sz_def)
    then show "unat (sz - rcvd) = length extra"
      using n unat_size [of "length extra"] by simp
  qed
  have skip: "is_seekg_cur (length extra) (adv (3 + length e) s) = adv (1 + n) s"
    using g fits n by (auto simp: is_seekg_cur_def is_seekg_def good_def adv_def)
  have bounds: "\<not> length (inbuf s) < ?target" "\<not> (stops s \<noteq> [] \<and> hd (stops s) < ?target)"
    using fits by auto
  have after: "good (adv (3 + length e) s)"
    "(of_int (int (rpos s + (3 + length e)) - int (rpos s + 1)) :: u16) = rcvd"
    using g by (simp_all add: rcvd_def)
  have last: "(if rcvd < sz then is_seekg_cur (unat (sz - rcvd)) (adv (3 + length e) s)
      else adv (3 + length e) s) = adv (1 + n) s"
    using skip n unfolding less diff by auto
  have "read_object le body (Some t0) s
    = (Some t', if rcvd < sz then is_seekg_cur (unat (sz - rcvd)) (adv (3 + length e) s)
                else adv (3 + length e) s)"
    unfolding read_object_def
    by (simp only: st(1-3) tell seek push b pop after bounds sz_def [symmetric] adv_select Let_def
        prod.case option.case if_False if_True simp_thms)
  then show ?thesis unfolding last .
qed

section \<open>Containers\<close>

lemma check_container_size_ok:
  "n \<le> MAX_CONTAINER_SIZE \<Longrightarrow> check_container_size n s = (True, s)"
  "n \<le> MAX_CONTAINER_SIZE \<Longrightarrow> wcheck_container_size n w = (True, w)"
  by (simp_all add: check_container_size_def wcheck_container_size_def)

lemma read_container_enc:
  assumes "n \<le> MAX_CONTAINER_SIZE" and "reads_as (loop n) body xs d"
  shows "reads_as (read_container le tag loop c) (enc_sized tag n body) xs d"
proof (rule reads_asI)
  fix s assume r: "ready (enc_sized tag n body) d s"
  have "n \<le> 65535" using assms(1) by (simp add: MAX_CONTAINER_SIZE_def)
  note st = sized_start [OF r this]
  show "read_container le tag loop c s = (xs, adv (length (enc_sized tag n body)) s)"
    using st(1-4) reads_asD [OF assms(2) st(5)] check_container_size_ok [OF assms(1)]
    by (simp add: read_container_def)
qed

lemma fold_put:
  assumes "\<And>x w. x \<in> set xs \<Longrightarrow> at_end w \<Longrightarrow> item x w = put (en x) w" and "at_end w"
  shows "fold item xs w = put (concat (map en xs)) w"
  using assms
proof (induction xs arbitrary: w)
  case (Cons x xs)
  then show ?case by (simp add: Cons.IH [of "put (en x) w"])
qed simp

lemma write_container_put:
  assumes "length xs \<le> MAX_CONTAINER_SIZE" and "at_end w"
    and "\<And>x w. x \<in> set xs \<Longrightarrow> at_end w \<Longrightarrow> item x w = put (en x) w"
  shows "write_container le tag item xs w = put (enc_sized tag (length xs) (concat (map en xs))) w"
proof -
  have "wcheck_stream (put f w) = (True, put f w)" for f
    using assms(2) by (simp add: wcheck_stream_def wgood_def put_def at_end_def)
  with assms fold_put [of xs item en] show ?thesis
    by (simp add: write_container_def check_container_size_ok enc_sized_def)
qed

text \<open>
  The interface of an element type: how it is written, how a fresh one is read, and the bytes
  in between. \<open>ok\<close> says which values can be represented and \<open>d\<close> how deep they nest.
\<close>

locale element_codec =
  fixes wr :: "'a \<Rightarrow> writer \<Rightarrow> writer"
    and rd :: "reader \<Rightarrow> 'a \<times> reader"
    and en :: "'a \<Rightarrow> byte list"
    and ok :: "'a \<Rightarrow> bool"
    and d :: nat
  assumes writes: "ok x \<Longrightarrow> at_end w \<Longrightarrow> wr x w = put (en x) w"
    and reads: "ok x \<Longrightarrow> reads_as rd (en x) x d"
begin

definition fits :: "'a list \<Rightarrow> bool" where
  "fits xs \<longleftrightarrow> length xs \<le> MAX_CONTAINER_SIZE \<and> list_all ok xs"

definition enc_elements :: "wire_type \<Rightarrow> 'a list \<Rightarrow> byte list" where
  "enc_elements tag xs = enc_sized tag (length xs) (concat (map en xs))"

lemma elements_written:
  "fits xs \<Longrightarrow> at_end w \<Longrightarrow> write_container le tag wr xs w = put (enc_elements tag xs) w"
  unfolding enc_elements_def by (rule write_container_put) (auto simp: fits_def list_all_iff writes)

lemma elements_read:
  assumes "fits xs"
  shows "reads_as (read_n (length xs) rd) (concat (map en xs)) xs d"
  using assms by (intro read_n_enc) (auto simp: fits_def list_all_iff reads)

lemma vector_read: "fits xs \<Longrightarrow> reads_as (read_vector le rd xs0) (enc_elements VECTOR xs) xs d"
  unfolding read_vector_def enc_elements_def
  by (rule read_container_enc) (simp_all add: elements_read, simp add: fits_def)

lemma list_read: "fits xs \<Longrightarrow> reads_as (read_list le rd xs0) (enc_elements LIST xs) xs d"
  unfolding read_list_def enc_elements_def
  by (rule read_container_enc) (simp_all add: elements_read, simp add: fits_def)

end

section \<open>Writing strings and objects\<close>

lemma wcheck_stream_put [simp]: "at_end w \<Longrightarrow> wcheck_stream (put e w) = (True, put e w)"
  by (simp add: wcheck_stream_def wgood_def put_def at_end_def)

lemma write_string_put:
  assumes "at_end w" and "length str \<le> MAX_STRING_SIZE"
  shows "write_string le str w = put (enc_sized STRING (length str) str) w"
  using assms by (auto simp: write_string_def Let_def check_slength_ok write_internal_put enc_sized_def)

lemma write_wchar_put: "at_end w \<Longrightarrow> write_wchar le c w = put (u16_bytes (ucast c)) w"
  by (auto simp: write_wchar_def write_internal_put image_def)

lemma write_wstring_put:
  assumes "at_end w" and "length str \<le> MAX_STRING_SIZE"
  shows "write_wstring le str w
    = put (enc_sized WSTRING (length str) (concat (map (\<lambda>c. u16_bytes (ucast c)) str))) w"
proof -
  have "fold (write_wchar le) str (put f w)
      = put (concat (map (\<lambda>c. u16_bytes (ucast c)) str)) (put f w)" for f
    by (rule fold_put) (simp_all add: write_wchar_put assms)
  with assms show ?thesis
    by (auto simp: write_wstring_def Let_def check_slength_ok enc_sized_def)
qed

lemma strlen_terminated: "0 \<notin> set str \<Longrightarrow> strlen (str @ 0 # rest) = length str"
proof -
  assume "0 \<notin> set str"
  then have "\<And>b. b \<in> set str \<Longrightarrow> b \<noteq> 0" by metis
  then show ?thesis by (simp add: strlen_def takeWhile_append2)
qed

lemma write_cstring_put:
  assumes "at_end w" and "length str < MAX_STRING_SIZE" and "0 \<notin> set str"
  shows "write_cstring le (Some (str @ 0 # rest)) w
    = put (enc_sized STRING (Suc (length str)) (str @ [0])) w"
proof -
  have "unat (of_nat (strlen (str @ 0 # rest)) + 1 :: u16) = Suc (length str)"
    using assms(2) unat_size [of "Suc (length str)"]
    by (simp add: strlen_terminated [OF assms(3)] MAX_STRING_SIZE_def add.commute)
  with assms show ?thesis
    by (simp add: write_cstring_def check_slength_ok write_internal_put enc_sized_def)
qed

lemma write_object_put:
  assumes w: "at_end w" and body: "\<And>w. at_end w \<Longrightarrow> body w = put e w"
    and n: "n = 2 + length e" "n \<le> 65535"
  shows "write_object le (Some body) w = put (enc_sized USER_DEFINED n e) w"
proof -
  let ?p = "Suc (length (outbuf w))"
  have w1: "write_type le USER_DEFINED w = put [31] w" "os_tellp (put [31] w) = Some ?p"
    using w by (simp_all add: os_tellp_def put_def at_end_def)
  define w2 where "w2 = put (31 # u16_bytes 0 @ e) w"
  have b: "body (write_size le 0 (put [31] w)) = w2"
    using w by (simp add: body w2_def)
  have w2: "wgood w2" "os_tellp w2 = Some (?p + n)"
    using w n by (simp_all add: w2_def wgood_def os_tellp_def put_def at_end_def)
  define w3 where "w3 = w2\<lparr>ppos := ?p\<rparr>"
  have seek: "os_seekp ?p w2 = w3"
    using w n by (simp add: os_seekp_def w3_def w2_def put_def at_end_def)
  have sz: "write_size le n w3 = w3\<lparr>outbuf := outbuf w @ 31 # u16_bytes (of_nat n) @ e, ppos := ?p + 2\<rparr>"
    using w unfolding w3_def w2_def
    by (auto simp: write_size_def write_literal_def write_internal_def os_write_def image_def
        put_def at_end_def u16_bytes_def)
  have "write_object le (Some body) w = os_seekp (?p + n) (write_size le n w3)"
    using n by (simp add: write_object_def w1 b w2 seek)
  also have "\<dots> = put (enc_sized USER_DEFINED n e) w"
    using w n unfolding sz
    by (simp add: os_seekp_def w3_def w2_def put_def at_end_def enc_sized_def)
  finally show ?thesis .
qed

section \<open>Pointers, sets and maps\<close>

lemma read_pointer_null: "reads_as (read_pointer le body t0 flag0) [0] None d"
  by (rule reads_asI) (auto simp: read_pointer_def read_literal_ready)

lemma read_pointer_some:
  assumes "reads_as (\<lambda>s. read_object le body (Some t0) s) e (Some t) d"
  shows "reads_as (read_pointer le body t0 flag0) (1 # e) (Some t) d"
proof (rule reads_asI)
  fix s assume r: "ready (1 # e) d s"
  have "ready [1] d s" "ready e d (adv 1 s)" using r ready_Cons by blast+
  with reads_asD [OF assms] show "read_pointer le body t0 flag0 s = (Some t, adv (length (1 # e)) s)"
    using read_literal_ready [of "[1]" d s "[flag0]" le] by (simp add: read_pointer_def)
qed

lemma write_pointer_put:
  assumes "at_end w"
    and "\<And>t w. ptr = Some t \<Longrightarrow> at_end w \<Longrightarrow> write_object le (Some (body t)) w = put (en t) w"
  shows "write_pointer le body ptr w = put (case ptr of None \<Rightarrow> [0] | Some t \<Rightarrow> 1 # en t) w"
  using assms by (cases ptr) (auto simp: write_pointer_def write_literal_put)

text \<open>Reading back the elements of a set in their order inserts each one at the end.\<close>

lemma set_insert_last:
  assumes "\<And>x y. lt x y \<Longrightarrow> \<not> lt y x"
  shows "\<forall>y \<in> set ys. lt y x \<Longrightarrow> set_insert lt x ys = ys @ [x]"
  by (induction ys) (auto dest: assms)

lemma fold_set_insert:
  assumes "\<And>x y. lt x y \<Longrightarrow> \<not> lt y x"
  shows "sorted_wrt lt (ys @ xs) \<Longrightarrow> fold (set_insert lt) xs ys = ys @ xs"
proof (induction xs arbitrary: ys)
  case (Cons x xs)
  have "set_insert lt x ys = ys @ [x]"
    using Cons.prems by (intro set_insert_last assms) (auto simp: sorted_wrt_append)
  with Cons.IH [of "ys @ [x]"] Cons.prems show ?case by simp
qed simp

lemma map_put_last:
  assumes "\<And>x y. lt x y \<Longrightarrow> \<not> lt y x"
  shows "\<forall>y \<in> fst ` set kvs. lt y k \<Longrightarrow> map_put lt (k, v) kvs = kvs @ [(k, v)]"
  by (induction kvs) (auto dest: assms)

lemma fold_map_put:
  assumes "\<And>x y. lt x y \<Longrightarrow> \<not> lt y x"
  shows "sorted_wrt lt (map fst (ys @ xs)) \<Longrightarrow> fold (map_put lt) xs ys = ys @ xs"
proof (induction xs arbitrary: ys)
  case (Cons x xs)
  obtain k v where x: "x = (k, v)" by fastforce
  have "map_put lt (k, v) ys = ys @ [(k, v)]"
    using Cons.prems by (intro map_put_last assms) (auto simp: sorted_wrt_append x)
  with Cons.IH [of "ys @ [x]"] Cons.prems show ?case by (simp add: x)
qed simp

lemma read_pair_enc:
  assumes "reads_as rdk ek k d" and "reads_as rdv ev v d"
  shows "reads_as (\<lambda>s. let (k, s1) = rdk s; (v, s2) = rdv s1 in ((k, v), s2)) (ek @ ev) (k, v) d"
  by (rule reads_asI) (simp add: ready_append reads_asD [OF assms(1)] reads_asD [OF assms(2)])

lemma read_container_via:
  assumes "n \<le> MAX_CONTAINER_SIZE" and "reads_as (read_n n rd) body xs d" and "f xs = ys"
  shows "reads_as (read_container le tag (\<lambda>n s. let (xs, s') = read_n n rd s in (f xs, s')) c)
    (enc_sized tag n body) ys d"
  by (rule read_container_enc) (use assms in \<open>auto intro!: reads_asI dest: reads_asD\<close>)

context element_codec begin

lemma set_read:
  assumes "\<And>x y. lt x y \<Longrightarrow> \<not> lt y x" and "fits xs" and "sorted_wrt lt xs"
  shows "reads_as (read_set le lt rd xs0) (enc_elements SET xs) xs d"
  unfolding read_set_def enc_elements_def
  by (rule read_container_via [OF _ elements_read])
    (use assms fold_set_insert [of lt "[]" xs] in \<open>auto simp: fits_def\<close>)

end

text \<open>The entries of a map are elements too: a key followed by its value.\<close>

lemma entry_codec:
  assumes "element_codec wrk rdk enk okk d" and "element_codec wrv rdv env okv d"
  shows "element_codec (\<lambda>(k, v) w. wrv v (wrk k w))
    (\<lambda>s. let (k, s1) = rdk s; (v, s2) = rdv s1 in ((k, v), s2))
    (\<lambda>(k, v). enk k @ env v) (\<lambda>(k, v). okk k \<and> okv v) d"
proof
  fix x w assume "case x of (k, v) \<Rightarrow> okk k \<and> okv v" "at_end w"
  then show "(case x of (k, v) \<Rightarrow> \<lambda>w. wrv v (wrk k w)) w = put (case x of (k, v) \<Rightarrow> enk k @ env v) w"
    by (cases x) (simp add: element_codec.writes [OF assms(1)] element_codec.writes [OF assms(2)])
next
  fix x assume "case x of (k, v) \<Rightarrow> okk k \<and> okv v"
  then show "reads_as (\<lambda>s. let (k, s1) = rdk s; (v, s2) = rdv s1 in ((k, v), s2))
      (case x of (k, v) \<Rightarrow> enk k @ env v) x d"
    using read_pair_enc [OF element_codec.reads [OF assms(1)] element_codec.reads [OF assms(2)]]
    by (cases x) simp
qed

lemma map_read:
  assumes "element_codec wr (\<lambda>s. let (k, s1) = rdk s; (v, s2) = rdv s1 in ((k, v), s2)) en okkv d"
    and "\<And>x y. lt x y \<Longrightarrow> \<not> lt y x" and "element_codec.fits okkv kvs" and "sorted_wrt lt (map fst kvs)"
  shows "reads_as (read_map le lt rdk rdv kvs0) (element_codec.enc_elements en MAP kvs) kvs d"
  unfolding read_map_def element_codec.enc_elements_def [OF assms(1)]
  by (rule read_container_via [OF _ element_codec.elements_read [OF assms(1)]])
    (use assms fold_map_put [of lt "[]" kvs] in \<open>auto simp: element_codec.fits_def [OF assms(1)]\<close>)

end
