(* ===== verification/SerializeValues.thy ===== *)
theory SerializeValues
  imports SerializeLaws
begin

text \<open>
  Whole values: what the overloads of \<^verbatim>\<open>msg_serialize.h\<close> do together. A class derived from
  \<^verbatim>\<open>serialize::I\<close> reads and writes its members in their order, so an object is the list of
  its members. A container carries its element prototype, the value of a freshly declared
  element, and a container of pointers the members of a freshly allocated object.

  Not represented: containers of pointers in a \<^verbatim>\<open>std::set\<close>, whose order is that of
  addresses.
\<close>

datatype val =
    Lit "byte list"                               \<comment> \<open>built-in type, value bytes in little-endian order\<close>
  | Str "byte list"                               \<comment> \<open>\<^verbatim>\<open>std::string\<close>\<close>
  | WStr "u32 list"                               \<comment> \<open>\<^verbatim>\<open>std::wstring\<close>\<close>
  | CStr "byte list option"                       \<comment> \<open>\<^verbatim>\<open>char*\<close>: the array, or a null pointer\<close>
  | Bools "bool list"                             \<comment> \<open>\<^verbatim>\<open>std::vector<bool>\<close>\<close>
  | Vec val "val list"                            \<comment> \<open>\<^verbatim>\<open>std::vector<T>\<close>\<close>
  | Lst val "val list"                            \<comment> \<open>\<^verbatim>\<open>std::list<T>\<close>\<close>
  | Set val "val list"                            \<comment> \<open>\<^verbatim>\<open>std::set<T>\<close>, in its order\<close>
  | Map val val "(val \<times> val) list"               \<comment> \<open>\<^verbatim>\<open>std::map<K, V>\<close>, in the order of its keys\<close>
  | VecPtr "val list" "val list option list"      \<comment> \<open>\<^verbatim>\<open>std::vector<T*>\<close>\<close>
  | LstPtr "val list" "val list option list"      \<comment> \<open>\<^verbatim>\<open>std::list<T*>\<close>\<close>
  | MapPtr val "val list" "(val \<times> val list option) list"  \<comment> \<open>\<^verbatim>\<open>std::map<K, V*>\<close>\<close>
  | Obj "val list"                                \<comment> \<open>class derived from \<^verbatim>\<open>serialize::I\<close>\<close>

text \<open>An element inside a container is passed with \<^verbatim>\<open>readPrependedType\<close> false: a built-in
  value without its type byte, an object as always.\<close>

definition read_item :: "bool \<Rightarrow> val \<Rightarrow> (reader \<Rightarrow> val \<times> reader) \<Rightarrow> reader \<Rightarrow> val \<times> reader" where
  "read_item le proto rd s =
     (case proto of
        Lit m \<Rightarrow> (let (m', s') = read_literal le False m s in (Lit m', s'))
      | _ \<Rightarrow> rd s)"

definition write_item :: "bool \<Rightarrow> val \<Rightarrow> (writer \<Rightarrow> writer) \<Rightarrow> writer \<Rightarrow> writer" where
  "write_item le v wr w = (case v of Lit m \<Rightarrow> write_literal le False m w | _ \<Rightarrow> wr w)"

definition enc_item :: "val \<Rightarrow> byte list \<Rightarrow> byte list" where
  "enc_item v e = (case v of Lit m \<Rightarrow> m | _ \<Rightarrow> e)"

text \<open>\<^verbatim>\<open>read(is, T& t_)\<close> for a class: the template's own stop check, then the overload for
  \<^verbatim>\<open>I*\<close>.\<close>

definition read_class ::
  "bool \<Rightarrow> ('a \<Rightarrow> reader \<Rightarrow> 'a \<times> reader) \<Rightarrow> 'a \<Rightarrow> reader \<Rightarrow> 'a \<times> reader" where
  "read_class le body t s =
     (let (stop, s1) = check_stop_parse s in
      if stop then (t, s1)
      else case read_object le body (Some t) s1 of
             (Some t', s2) \<Rightarrow> (t', s2) | (None, s2) \<Rightarrow> (t, s2))"

text \<open>
  Reading into a value \<open>v0\<close>; the result has its type. \<open>lt\<close> is the order of the keys of sets
  and maps, \<open>t0\<close> the indeterminate content of the uninitialised flag variables.
\<close>

fun read_val :: "bool \<Rightarrow> (val \<Rightarrow> val \<Rightarrow> bool) \<Rightarrow> byte \<Rightarrow> val \<Rightarrow> reader \<Rightarrow> val \<times> reader"
  and read_members :: "bool \<Rightarrow> (val \<Rightarrow> val \<Rightarrow> bool) \<Rightarrow> byte \<Rightarrow> val list \<Rightarrow> reader \<Rightarrow> val list \<times> reader"
where
  "read_val le lt t0 (Lit m) s = (let (m', s') = read_literal le True m s in (Lit m', s'))"
| "read_val le lt t0 (Str x) s = (let (x', s') = read_string le x s in (Str x', s'))"
| "read_val le lt t0 (WStr x) s = (let (x', s') = read_wstring le x s in (WStr x', s'))"
| "read_val le lt t0 (CStr x) s = (let (x', s') = read_cstring le x s in (CStr x', s'))"
| "read_val le lt t0 (Bools x) s = (let (x', s') = read_vector_bool le t0 x s in (Bools x', s'))"
| "read_val le lt t0 (Vec p xs) s =
     (let (xs', s') = read_vector le (read_item le p (read_val le lt t0 p)) xs s in (Vec p xs', s'))"
| "read_val le lt t0 (Lst p xs) s =
     (let (xs', s') = read_list le (read_item le p (read_val le lt t0 p)) xs s in (Lst p xs', s'))"
| "read_val le lt t0 (Set p xs) s =
     (let (xs', s') = read_set le lt (read_item le p (read_val le lt t0 p)) xs s in (Set p xs', s'))"
| "read_val le lt t0 (Map pk pv xs) s =
     (let (xs', s') = read_map le lt (read_item le pk (read_val le lt t0 pk))
                        (read_item le pv (read_val le lt t0 pv)) xs s
      in (Map pk pv xs', s'))"
| "read_val le lt t0 (VecPtr fs xs) s =
     (let (xs', s') = read_vector_ptr le (\<lambda>_. read_members le lt t0 fs) fs xs s in (VecPtr fs xs', s'))"
| "read_val le lt t0 (LstPtr fs xs) s =
     (let (xs', s') = read_list_ptr le (\<lambda>_. read_members le lt t0 fs) fs xs s in (LstPtr fs xs', s'))"
| "read_val le lt t0 (MapPtr pk fs xs) s =
     (let (xs', s') = read_map_ptr le lt (read_item le pk (read_val le lt t0 pk))
                        (\<lambda>_. read_members le lt t0 fs) fs t0 xs s
      in (MapPtr pk fs xs', s'))"
| "read_val le lt t0 (Obj fs) s =
     (let (fs', s') = read_class le (\<lambda>_. read_members le lt t0 fs) fs s in (Obj fs', s'))"
| "read_members le lt t0 [] s = ([], s)"
| "read_members le lt t0 (f # fs) s =
     (let (f', s1) = read_val le lt t0 f s; (fs', s2) = read_members le lt t0 fs s1
      in (f' # fs', s2))"

text \<open>The writing loops look at the elements of the container only; the recursion below needs
  to know it.\<close>

lemma write_container_cong:
  "xs = ys \<Longrightarrow> (\<And>x. x \<in> set ys \<Longrightarrow> item x = item' x) \<Longrightarrow>
     write_container le tag item xs w = write_container le tag item' ys w"
  using fold_cong [of w w xs ys item item'] fold_cong [OF refl, of xs ys item item']
  by (auto simp: write_container_def Let_def split: prod.split)

lemma write_value_cong [fundef_cong]:
  "xs = ys \<Longrightarrow> (\<And>x. x \<in> set ys \<Longrightarrow> item x = item' x) \<Longrightarrow>
     write_vector le item xs = write_vector le item' ys"
  "xs = ys \<Longrightarrow> (\<And>x. x \<in> set ys \<Longrightarrow> item x = item' x) \<Longrightarrow>
     write_list le item xs = write_list le item' ys"
  "xs = ys \<Longrightarrow> (\<And>x. x \<in> set ys \<Longrightarrow> item x = item' x) \<Longrightarrow>
     write_set le item xs = write_set le item' ys"
  unfolding write_vector_def write_list_def write_set_def
  by (intro ext write_container_cong; simp)+

lemma write_map_cong [fundef_cong]:
  "kvs = lvs \<Longrightarrow> (\<And>k v. (k, v) \<in> set lvs \<Longrightarrow> itemk k = itemk' k) \<Longrightarrow>
     (\<And>k v. (k, v) \<in> set lvs \<Longrightarrow> itemv v = itemv' v) \<Longrightarrow>
     write_map le itemk itemv kvs = write_map le itemk' itemv' lvs"
  unfolding write_map_def by (intro ext write_container_cong) auto

lemma write_pointer_cong:
  "(\<And>t. x = Some t \<Longrightarrow> body t = body' t) \<Longrightarrow> write_pointer le body x = write_pointer le body' x"
  by (cases x) (auto simp: write_pointer_def intro!: ext)

lemma write_pointers_cong [fundef_cong]:
  "xs = ys \<Longrightarrow> (\<And>t. Some t \<in> set ys \<Longrightarrow> body t = body' t) \<Longrightarrow>
     write_vector_ptr le body xs = write_vector_ptr le body' ys"
  "xs = ys \<Longrightarrow> (\<And>t. Some t \<in> set ys \<Longrightarrow> body t = body' t) \<Longrightarrow>
     write_list_ptr le body xs = write_list_ptr le body' ys"
  unfolding write_vector_ptr_def write_list_ptr_def
  by (intro ext write_container_cong write_pointer_cong; simp)+

lemma write_map_ptr_cong [fundef_cong]:
  "kvs = lvs \<Longrightarrow> (\<And>k v. (k, v) \<in> set lvs \<Longrightarrow> itemk k = itemk' k) \<Longrightarrow>
     (\<And>k t. (k, Some t) \<in> set lvs \<Longrightarrow> body t = body' t) \<Longrightarrow>
     write_map_ptr le itemk body kvs = write_map_ptr le itemk' body' lvs"
proof -
  assume eq: "kvs = lvs" and k: "\<And>k v. (k, v) \<in> set lvs \<Longrightarrow> itemk k = itemk' k"
    and b: "\<And>k t. (k, Some t) \<in> set lvs \<Longrightarrow> body t = body' t"
  have "write_pointer le body v = write_pointer le body' v" if "(k, v) \<in> set lvs" for k v
    using that b by (intro write_pointer_cong) auto
  with k show ?thesis
    unfolding write_map_ptr_def eq by (intro ext write_container_cong) auto
qed

text \<open>Members of a container are smaller than the container.\<close>

lemma size_pair_mem [termination_simp]:
  "(k, v) \<in> set xs \<Longrightarrow> size k < Suc (n + size_list (size_prod size g) xs)"
  "(k, v) \<in> set xs \<Longrightarrow> g v < Suc (n + size_list (size_prod f g) xs)"
  by (induction xs) auto

lemma size_option_mem [termination_simp]:
  "Some t \<in> set xs \<Longrightarrow> size_list size t < Suc (n + size_list (size_option (size_list size)) xs)"
  by (induction xs) auto

fun write_val :: "bool \<Rightarrow> val \<Rightarrow> writer \<Rightarrow> writer"
  and write_members :: "bool \<Rightarrow> val list \<Rightarrow> writer \<Rightarrow> writer"
where
  "write_val le (Lit m) = write_literal le True m"
| "write_val le (Str x) = write_string le x"
| "write_val le (WStr x) = write_wstring le x"
| "write_val le (CStr x) = write_cstring le x"
| "write_val le (Bools x) = write_vector_bool le x"
| "write_val le (Vec p xs) = write_vector le (\<lambda>x. write_item le x (write_val le x)) xs"
| "write_val le (Lst p xs) = write_list le (\<lambda>x. write_item le x (write_val le x)) xs"
| "write_val le (Set p xs) = write_set le (\<lambda>x. write_item le x (write_val le x)) xs"
| "write_val le (Map pk pv xs) =
     write_map le (\<lambda>x. write_item le x (write_val le x)) (\<lambda>x. write_item le x (write_val le x)) xs"
| "write_val le (VecPtr p xs) = write_vector_ptr le (write_members le) xs"
| "write_val le (LstPtr p xs) = write_list_ptr le (write_members le) xs"
| "write_val le (MapPtr pk p xs) =
     write_map_ptr le (\<lambda>x. write_item le x (write_val le x)) (write_members le) xs"
| "write_val le (Obj fs) = write_object le (Some (write_members le fs))"
| "write_members le [] = (\<lambda>w. w)"
| "write_members le (f # fs) = (\<lambda>w. write_members le fs (write_val le f w))"

section \<open>The wire format of a value\<close>

text \<open>The specification: the bytes of a value, without streams, hosts or errors.\<close>

fun enc :: "val \<Rightarrow> byte list" where
  "enc (Lit m) = type_byte LITERAL # m"
| "enc (Str x) = enc_sized STRING (length x) x"
| "enc (WStr x) = enc_sized WSTRING (length x) (concat (map (\<lambda>c. u16_bytes (ucast c)) x))"
| "enc (CStr x) = (case x of None \<Rightarrow> [] | Some b \<Rightarrow> enc_sized STRING (length b) b)"
| "enc (Bools x) =
     enc_sized VECTOR (length x) (concat (map (\<lambda>c. [type_byte LITERAL, if c then 1 else 0]) x))"
| "enc (Vec p xs) = enc_sized VECTOR (length xs) (concat (map (\<lambda>x. enc_item x (enc x)) xs))"
| "enc (Lst p xs) = enc_sized LIST (length xs) (concat (map (\<lambda>x. enc_item x (enc x)) xs))"
| "enc (Set p xs) = enc_sized SET (length xs) (concat (map (\<lambda>x. enc_item x (enc x)) xs))"
| "enc (Map pk pv xs) = enc_sized MAP (length xs)
     (concat (map (\<lambda>(k, v). enc_item k (enc k) @ enc_item v (enc v)) xs))"
| "enc (VecPtr p xs) = enc_sized VECTOR (length xs)
     (concat (map (\<lambda>x. case x of None \<Rightarrow> [0] | Some fs \<Rightarrow>
        let e = concat (map enc fs) in 1 # enc_sized USER_DEFINED (2 + length e) e) xs))"
| "enc (LstPtr p xs) = enc_sized LIST (length xs)
     (concat (map (\<lambda>x. case x of None \<Rightarrow> [0] | Some fs \<Rightarrow>
        let e = concat (map enc fs) in 1 # enc_sized USER_DEFINED (2 + length e) e) xs))"
| "enc (MapPtr pk p xs) = enc_sized MAP (length xs)
     (concat (map (\<lambda>(k, x). enc_item k (enc k) @ (case x of None \<Rightarrow> [0] | Some fs \<Rightarrow>
        let e = concat (map enc fs) in 1 # enc_sized USER_DEFINED (2 + length e) e)) xs))"
| "enc (Obj fs) = (let e = concat (map enc fs) in enc_sized USER_DEFINED (2 + length e) e)"

definition enc_members :: "val list \<Rightarrow> byte list" where
  "enc_members fs = concat (map enc fs)"

definition enc_object :: "byte list \<Rightarrow> byte list" where
  "enc_object e = enc_sized USER_DEFINED (2 + length e) e"

definition enc_ptr :: "val list option \<Rightarrow> byte list" where
  "enc_ptr x = (case x of None \<Rightarrow> [0] | Some fs \<Rightarrow> 1 # enc_object (enc_members fs))"

text \<open>\<open>shape v0 v\<close>: both are values of one C++ type.\<close>

fun shape :: "val \<Rightarrow> val \<Rightarrow> bool" where
  "shape (Lit m) v \<longleftrightarrow> (case v of Lit m' \<Rightarrow> length m = length m' | _ \<Rightarrow> False)"
| "shape (Str _) v \<longleftrightarrow> (case v of Str _ \<Rightarrow> True | _ \<Rightarrow> False)"
| "shape (WStr _) v \<longleftrightarrow> (case v of WStr _ \<Rightarrow> True | _ \<Rightarrow> False)"
| "shape (CStr b) v \<longleftrightarrow> (case v of CStr b' \<Rightarrow> map_option length b = map_option length b' | _ \<Rightarrow> False)"
| "shape (Bools _) v \<longleftrightarrow> (case v of Bools _ \<Rightarrow> True | _ \<Rightarrow> False)"
| "shape (Vec p _) v \<longleftrightarrow> (case v of Vec p' _ \<Rightarrow> p = p' | _ \<Rightarrow> False)"
| "shape (Lst p _) v \<longleftrightarrow> (case v of Lst p' _ \<Rightarrow> p = p' | _ \<Rightarrow> False)"
| "shape (Set p _) v \<longleftrightarrow> (case v of Set p' _ \<Rightarrow> p = p' | _ \<Rightarrow> False)"
| "shape (Map pk pv _) v \<longleftrightarrow> (case v of Map pk' pv' _ \<Rightarrow> pk = pk' \<and> pv = pv' | _ \<Rightarrow> False)"
| "shape (VecPtr p _) v \<longleftrightarrow> (case v of VecPtr p' _ \<Rightarrow> p = p' | _ \<Rightarrow> False)"
| "shape (LstPtr p _) v \<longleftrightarrow> (case v of LstPtr p' _ \<Rightarrow> p = p' | _ \<Rightarrow> False)"
| "shape (MapPtr pk p _) v \<longleftrightarrow> (case v of MapPtr pk' p' _ \<Rightarrow> pk = pk' \<and> p = p' | _ \<Rightarrow> False)"
| "shape (Obj fs) v \<longleftrightarrow> (case v of Obj gs \<Rightarrow> list_all2 shape fs gs | _ \<Rightarrow> False)"

text \<open>Element types a container accepts: built-in types and classes.\<close>

fun is_item :: "val \<Rightarrow> bool" where
  "is_item (Lit m) \<longleftrightarrow> m \<noteq> [] \<and> length m \<le> 8"
| "is_item (Obj fs) \<longleftrightarrow> True"
| "is_item _ \<longleftrightarrow> False"

text \<open>
  \<open>encodable lt d v\<close>: the value can be represented on the wire with at most \<open>d\<close> levels of objects:
  the limits of the parser hold, a wide character fits into two bytes, a C string fills its
  array, a set or a map is in order.
\<close>

fun encodable :: "(val \<Rightarrow> val \<Rightarrow> bool) \<Rightarrow> nat \<Rightarrow> val \<Rightarrow> bool" where
  "encodable lt d (Lit m) \<longleftrightarrow> m \<noteq> [] \<and> length m \<le> 8"
| "encodable lt d (Str x) \<longleftrightarrow> length x \<le> MAX_STRING_SIZE"
| "encodable lt d (WStr x) \<longleftrightarrow> length x \<le> MAX_STRING_SIZE \<and> (\<forall>c \<in> set x. c < 0x10000)"
| "encodable lt d (CStr x) \<longleftrightarrow> (case x of None \<Rightarrow> False
     | Some b \<Rightarrow> b \<noteq> [] \<and> length b \<le> MAX_STRING_SIZE \<and> last b = 0 \<and> 0 \<notin> set (butlast b))"
| "encodable lt d (Bools x) \<longleftrightarrow> length x \<le> MAX_CONTAINER_SIZE"
| "encodable lt d (Vec p xs) \<longleftrightarrow> length xs \<le> MAX_CONTAINER_SIZE \<and> is_item p
     \<and> (\<forall>x \<in> set xs. shape p x \<and> encodable lt d x)"
| "encodable lt d (Lst p xs) \<longleftrightarrow> length xs \<le> MAX_CONTAINER_SIZE \<and> is_item p
     \<and> (\<forall>x \<in> set xs. shape p x \<and> encodable lt d x)"
| "encodable lt d (Set p xs) \<longleftrightarrow> length xs \<le> MAX_CONTAINER_SIZE \<and> is_item p
     \<and> (\<forall>x \<in> set xs. shape p x \<and> encodable lt d x) \<and> sorted_wrt lt xs"
| "encodable lt d (Map pk pv xs) \<longleftrightarrow> length xs \<le> MAX_CONTAINER_SIZE \<and> is_item pk \<and> is_item pv
     \<and> (\<forall>(k, v) \<in> set xs. shape pk k \<and> encodable lt d k \<and> shape pv v \<and> encodable lt d v)
     \<and> sorted_wrt lt (map fst xs)"
| "encodable lt d (VecPtr p xs) \<longleftrightarrow> length xs \<le> MAX_CONTAINER_SIZE
     \<and> (\<forall>x \<in> set xs. case x of None \<Rightarrow> True | Some fs \<Rightarrow> 0 < d \<and> list_all2 shape p fs
          \<and> (\<forall>f \<in> set fs. encodable lt (d - 1) f) \<and> length (enc_members fs) \<le> 65533)"
| "encodable lt d (LstPtr p xs) \<longleftrightarrow> length xs \<le> MAX_CONTAINER_SIZE
     \<and> (\<forall>x \<in> set xs. case x of None \<Rightarrow> True | Some fs \<Rightarrow> 0 < d \<and> list_all2 shape p fs
          \<and> (\<forall>f \<in> set fs. encodable lt (d - 1) f) \<and> length (enc_members fs) \<le> 65533)"
| "encodable lt d (MapPtr pk p xs) \<longleftrightarrow> length xs \<le> MAX_CONTAINER_SIZE \<and> is_item pk
     \<and> (\<forall>(k, x) \<in> set xs. shape pk k \<and> encodable lt d k \<and> (case x of None \<Rightarrow> True | Some fs \<Rightarrow>
          0 < d \<and> list_all2 shape p fs
          \<and> (\<forall>f \<in> set fs. encodable lt (d - 1) f) \<and> length (enc_members fs) \<le> 65533))
     \<and> sorted_wrt lt (map fst xs)"
| "encodable lt d (Obj fs) \<longleftrightarrow> 0 < d \<and> (\<forall>f \<in> set fs. encodable lt (d - 1) f)
     \<and> length (enc_members fs) \<le> 65533"

lemma enc_pointers [simp]:
  "enc (VecPtr p xs) = enc_sized VECTOR (length xs) (concat (map enc_ptr xs))"
  "enc (LstPtr p xs) = enc_sized LIST (length xs) (concat (map enc_ptr xs))"
  "enc (MapPtr pk p ys) = enc_sized MAP (length ys)
     (concat (map (\<lambda>(k, x). enc_item k (enc k) @ enc_ptr x) ys))"
  "enc (Obj fs) = enc_object (enc_members fs)"
proof -
  have ptr: "(case x of None \<Rightarrow> [0] | Some fs \<Rightarrow>
      let e = concat (map enc fs) in 1 # enc_sized USER_DEFINED (2 + length e) e) = enc_ptr x" for x
    by (simp add: enc_ptr_def enc_object_def enc_members_def Let_def split: option.split)
  show "enc (VecPtr p xs) = enc_sized VECTOR (length xs) (concat (map enc_ptr xs))"
    "enc (LstPtr p xs) = enc_sized LIST (length xs) (concat (map enc_ptr xs))"
    "enc (MapPtr pk p ys) = enc_sized MAP (length ys)
       (concat (map (\<lambda>(k, x). enc_item k (enc k) @ enc_ptr x) ys))"
    unfolding enc.simps ptr by (rule refl)+
  show "enc (Obj fs) = enc_object (enc_members fs)"
    by (simp add: enc_object_def enc_members_def Let_def)
qed

declare enc.simps(10-13) [simp del]

lemma enc_members_simps [simp]:
  "enc_members [] = []" "enc_members (f # fs) = enc f @ enc_members fs"
  "enc_members (fs @ gs) = enc_members fs @ enc_members gs"
  by (simp_all add: enc_members_def)

lemma length_enc_object [simp]: "length (enc_object e) = 3 + (2 + length e) - 2"
  by (simp add: enc_object_def)

lemma enc_object_not_Nil [simp]: "enc_object e \<noteq> []"
  by (simp add: enc_object_def)

section \<open>Writing a value\<close>

lemma write_members_put:
  assumes "\<And>f w. f \<in> set fs \<Longrightarrow> at_end w \<Longrightarrow> write_val le f w = put (enc f) w" and "at_end w"
  shows "write_members le fs w = put (enc_members fs) w"
  using assms by (induction fs arbitrary: w) simp_all

lemma write_obj_put:
  assumes "\<And>f w. f \<in> set fs \<Longrightarrow> at_end w \<Longrightarrow> write_val le f w = put (enc f) w" and "at_end w"
    and "length (enc_members fs) \<le> 65533"
  shows "write_object le (Some (write_members le fs)) w = put (enc_object (enc_members fs)) w"
  unfolding enc_object_def
  by (rule write_object_put) (use assms in \<open>simp_all add: write_members_put\<close>)

lemma write_item_put:
  assumes "shape p x" and "is_item p" and "at_end w" and "write_val le x w = put (enc x) w"
  shows "write_item le x (write_val le x) w = put (enc_item x (enc x)) w"
  using assms
  by (cases p; cases x) (simp_all add: write_item_def enc_item_def write_literal_put)

lemma write_ptr_put:
  assumes "\<And>fs f w. x = Some fs \<Longrightarrow> f \<in> set fs \<Longrightarrow> at_end w \<Longrightarrow> write_val le f w = put (enc f) w"
    and "\<And>fs. x = Some fs \<Longrightarrow> length (enc_members fs) \<le> 65533" and "at_end w"
  shows "write_pointer le (write_members le) x w = put (enc_ptr x) w"
  using write_pointer_put [of w x le "write_members le" "\<lambda>fs. enc_object (enc_members fs)"] assms
  by (simp add: enc_ptr_def write_obj_put)

text \<open>What \<open>encodable\<close> asks of one pointer to an object with the members \<open>p\<close>.\<close>

abbreviation pointee :: "(val \<Rightarrow> val \<Rightarrow> bool) \<Rightarrow> nat \<Rightarrow> val list \<Rightarrow> val list option \<Rightarrow> bool" where
  "pointee lt d p x \<equiv> (case x of None \<Rightarrow> True | Some fs \<Rightarrow> 0 < d \<and> list_all2 shape p fs
     \<and> (\<forall>f \<in> set fs. encodable lt (d - 1) f) \<and> length (enc_members fs) \<le> 65533)"

lemma write_pointee_put:
  assumes "pointee lt d p x" and "at_end w"
    and "\<And>fs f w. x = Some fs \<Longrightarrow> f \<in> set fs \<Longrightarrow> encodable lt (d - 1) f \<Longrightarrow> at_end w
      \<Longrightarrow> write_val le f w = put (enc f) w"
  shows "write_pointer le (write_members le) x w = put (enc_ptr x) w"
  by (rule write_ptr_put) (use assms in auto)

lemma write_pointers_put:
  assumes "\<And>x fs f w. x \<in> set xs \<Longrightarrow> x = Some fs \<Longrightarrow> f \<in> set fs \<Longrightarrow> encodable lt (d - 1) f \<Longrightarrow> at_end w
      \<Longrightarrow> write_val le f w = put (enc f) w" and "at_end w"
  shows "encodable lt d (VecPtr p xs) \<Longrightarrow> write_val le (VecPtr p xs) w = put (enc (VecPtr p xs)) w"
    and "encodable lt d (LstPtr p xs) \<Longrightarrow> write_val le (LstPtr p xs) w = put (enc (LstPtr p xs)) w"
  unfolding write_val.simps write_vector_ptr_def write_list_ptr_def enc_pointers
  by (intro write_container_put write_pointee_put [where d = d and p = p and lt = lt]; use assms in simp)+

lemma write_entry_put:
  assumes "at_end w" and "\<And>w. at_end w \<Longrightarrow> wk w = put ek w" and "\<And>w. at_end w \<Longrightarrow> wv w = put ev w"
  shows "wv (wk w) = put (ek @ ev) w"
  using assms by simp

lemma write_map_put:
  assumes "\<And>k v w. (k, v) \<in> set xs \<Longrightarrow> at_end w \<Longrightarrow> write_item le k (write_val le k) w = put (enc_item k (enc k)) w"
    and "\<And>k v w. (k, v) \<in> set xs \<Longrightarrow> at_end w \<Longrightarrow> wv v w = put (ev v) w"
    and "x \<in> set xs" and "at_end w"
  shows "(case x of (k, v) \<Rightarrow> \<lambda>w. wv v (write_item le k (write_val le k) w)) w
    = put (case x of (k, v) \<Rightarrow> enc_item k (enc k) @ ev v) w"
  using assms by (cases x) (simp add: write_entry_put)

lemma write_val_put: "encodable lt d v \<Longrightarrow> at_end w \<Longrightarrow> write_val le v w = put (enc v) w"
proof (induction v arbitrary: d w)
  case (CStr x)
  then obtain b where x: "x = Some b" and b: "b \<noteq> []" "length b \<le> MAX_STRING_SIZE" "last b = 0"
    "0 \<notin> set (butlast b)" by (auto split: option.splits)
  then have "b = butlast b @ 0 # []" "Suc (length (butlast b)) = length b"
    using append_butlast_last_id [of b] by simp_all
  moreover from this(2) b have "length (butlast b) < MAX_STRING_SIZE" by linarith
  ultimately show ?case
    using b CStr(2) x write_cstring_put [of w "butlast b" le "[]"] by simp
next
  case (Bools x)
  show ?case
    unfolding write_val.simps write_vector_bool_def enc.simps
    by (rule write_container_put) (use Bools in \<open>simp_all add: write_literal_put\<close>)
next
  case (Vec p xs)
  show ?case
    unfolding write_val.simps write_vector_def enc.simps
    by (rule write_container_put)
      (use Vec in \<open>auto intro!: write_item_put [where p = p] Vec.IH(2)\<close>)
next
  case (Lst p xs)
  show ?case
    unfolding write_val.simps write_list_def enc.simps
    by (rule write_container_put)
      (use Lst in \<open>auto intro!: write_item_put [where p = p] Lst.IH(2)\<close>)
next
  case (Set p xs)
  show ?case
    unfolding write_val.simps write_set_def enc.simps
    by (rule write_container_put)
      (use Set in \<open>auto intro!: write_item_put [where p = p] Set.IH(2)\<close>)
next
  case (Map pk pv xs)
  have k: "write_item le k (write_val le k) w = put (enc_item k (enc k)) w"
    if "(k, v) \<in> set xs" "at_end w" for k v w
    using that Map.prems(1) by (intro write_item_put [where p = pk] Map.IH(3)) (fastforce simp: fsts.simps)+
  have v: "write_item le v (write_val le v) w = put (enc_item v (enc v)) w"
    if "(k, v) \<in> set xs" "at_end w" for k v w
    using that Map.prems(1) by (intro write_item_put [where p = pv] Map.IH(4)) (fastforce simp: snds.simps)+
  show ?case
    unfolding write_val.simps write_map_def enc.simps
    by (intro write_container_put write_map_put [OF k v]) (use Map.prems in auto)
next
  case (VecPtr p xs)
  show ?case by (rule write_pointers_put(1) [OF _ VecPtr.prems(2,1)]) (use VecPtr.IH(2) in simp)
next
  case (LstPtr p xs)
  show ?case by (rule write_pointers_put(2) [OF _ LstPtr.prems(2,1)]) (use LstPtr.IH(2) in simp)
next
  case (MapPtr pk p xs)
  have k: "write_item le k (write_val le k) w = put (enc_item k (enc k)) w"
    if "(k, v) \<in> set xs" "at_end w" for k v w
    using that MapPtr.prems(1) by (intro write_item_put [where p = pk] MapPtr.IH(3)) (fastforce simp: fsts.simps)+
  have v: "write_pointer le (write_members le) v w = put (enc_ptr v) w"
    if kv: "(k, v) \<in> set xs" and w: "at_end w" for k v w
    by (rule write_pointee_put [OF _ w])
      (use kv MapPtr.prems(1) MapPtr.IH(4) in \<open>force simp: snds.simps\<close>)+
  show ?case
    unfolding write_val.simps write_map_ptr_def enc_pointers
    by (intro write_container_put write_map_put [OF k v]) (use MapPtr.prems in auto)
next
  case (Obj fs)
  then show ?case
    by (auto intro!: write_obj_put)
qed (simp_all add: write_literal_put write_string_put write_wstring_put)

section \<open>Reading a value\<close>

lemma read_members_enc:
  assumes "list_all2 (\<lambda>f0 f. reads_as (read_val le lt t0 f0) (enc f) f d) fs0 fs"
  shows "reads_as (read_members le lt t0 fs0) (enc_members fs) fs d"
  using assms
proof (induction fs0 fs rule: list_all2_induct)
  case Nil
  show ?case by (simp add: reads_as_def)
next
  case (Cons f0 fs0 f fs)
  show ?case
    by (rule reads_asI) (simp add: ready_append reads_asD [OF Cons.hyps(1)] reads_asD [OF Cons.IH])
qed

lemma read_obj_enc:
  assumes "reads_as (rd :: reader \<Rightarrow> 'a \<times> reader) e t d" and "length e \<le> 65533"
  shows "reads_as (read_object le (\<lambda>_. rd) (Some t0)) (enc_object e) (Some t) (Suc d)"
proof (rule reads_asI)
  fix s assume r: "ready (enc_object e) (Suc d) s"
  have "read_object le (\<lambda>_. rd) (Some t0) s = (Some t, adv (1 + (2 + length e)) s)"
    by (rule read_object_enc [of _ e "[]" d])
      (use r assms in \<open>simp_all add: enc_object_def reads_asD\<close>)
  then show "read_object le (\<lambda>_. rd) (Some t0) s = (Some t, adv (length (enc_object e)) s)"
    by simp
qed

lemma read_class_enc:
  assumes "reads_as (read_object le body (Some t0)) e (Some t) d" and "e \<noteq> []"
  shows "reads_as (read_class le body t0) e t d"
proof (rule reads_asI)
  fix s assume r: "ready e d s"
  show "read_class le body t0 s = (t, adv (length e) s)"
    using check_stop_ready [OF r assms(2)] reads_asD [OF assms(1) r] by (simp add: read_class_def)
qed

lemma reads_as_map:
  "reads_as rd e x d \<Longrightarrow> reads_as (\<lambda>s. let (y, s') = rd s in (f y, s')) e (f x) d"
  by (simp add: reads_as_def)

lemma reads_as_cong: "reads_as rd e x d \<Longrightarrow> e = e' \<Longrightarrow> x = x' \<Longrightarrow> reads_as rd e' x' d"
  by simp

lemma read_literal_enc:
  "m \<noteq> [] \<Longrightarrow> length m0 = length m \<Longrightarrow> reads_as (read_literal le False m0) m m d"
  "m \<noteq> [] \<Longrightarrow> length m0 = length m \<Longrightarrow>
     reads_as (read_literal le True m0) (type_byte LITERAL # m) m d"
  using read_literal_ready [of m _ _ m0 le] read_literal_tagged_ready [of m _ _ m0 le]
  by (simp_all add: reads_as_def)

text \<open>Built-in values of \<open>n\<close> bytes offer the interface of an element type.\<close>

interpretation builtin: element_codec "\<lambda>m. write_literal le False m"
  "read_literal le False (replicate n 0)" "\<lambda>m. m" "\<lambda>m. length m = n \<and> 0 < n \<and> n \<le> 8" d
  by unfold_locales (auto simp: write_literal_put intro!: read_literal_enc(1))

text \<open>A \<^verbatim>\<open>std::vector\<close> of built-in values travels as its bytes in one piece.\<close>

lemma builtin_vector_bytes:
  "builtin.fits n xs \<Longrightarrow>
     reads_as (read_vector le (read_literal le False (replicate n 0)) xs0)
       (enc_sized VECTOR (length xs) (concat xs)) xs d"
  using builtin.vector_read [of n xs le le xs0 d] by (simp add: builtin.enc_elements_def)

lemma read_item_enc:
  assumes "shape p x" and "is_item p" and "reads_as (read_val le lt t0 p) (enc x) x d"
  shows "reads_as (read_item le p (read_val le lt t0 p)) (enc_item x (enc x)) x d"
proof (cases p)
  case (Lit m0)
  then obtain m where m: "x = Lit m" "length m0 = length m"
    using assms by (cases x) auto
  with Lit assms(2) have x: "x = Lit m" "length m0 = length m" "m \<noteq> []" by auto
  show ?thesis
    using reads_as_map [OF read_literal_enc(1) [OF x(3,2), of le d], where f = Lit]
    by (simp add: Lit x read_item_def [abs_def] enc_item_def)
next
  case (Obj fs)
  with assms show ?thesis by (cases x) (simp_all add: read_item_def [abs_def] enc_item_def)
qed (use assms in auto)

text \<open>Pointers to objects.\<close>

lemma read_ptr_enc:
  assumes "\<And>fs. x = Some fs \<Longrightarrow> 0 < d \<and> reads_as (read_members le lt t0 p) (enc_members fs) fs (d - 1)
      \<and> length (enc_members fs) \<le> 65533"
  shows "reads_as (read_pointer le (\<lambda>_. read_members le lt t0 p) p flag0) (enc_ptr x) x d"
proof (cases x)
  case None
  then show ?thesis by (simp add: read_pointer_null enc_ptr_def)
next
  case (Some fs)
  with assms have a: "0 < d" "reads_as (read_members le lt t0 p) (enc_members fs) fs (d - 1)"
    "length (enc_members fs) \<le> 65533" by auto
  have "reads_as (read_object le (\<lambda>_. read_members le lt t0 p) (Some p))
      (enc_object (enc_members fs)) (Some fs) d"
    using read_obj_enc [OF a(2,3), of le p] a(1) by simp
  then show ?thesis
    unfolding Some by (simp add: enc_ptr_def read_pointer_some)
qed

text \<open>The interface of the element types, on the model's own readers and writers.\<close>

lemma item_codec:
  assumes "is_item p"
    and "\<And>x. okp x \<Longrightarrow> shape p x \<and> encodable lt d x \<and> reads_as (read_val le lt t0 p) (enc x) x d"
  shows "element_codec (\<lambda>x. write_item le x (write_val le x)) (read_item le p (read_val le lt t0 p))
    (\<lambda>x. enc_item x (enc x)) okp d"
proof
  fix x w assume "okp x" "at_end w"
  with assms show "write_item le x (write_val le x) w = put (enc_item x (enc x)) w"
    using assms(2) [of x] by (intro write_item_put [of p]) (auto intro: write_val_put)
next
  fix x assume "okp x"
  with assms show "reads_as (read_item le p (read_val le lt t0 p)) (enc_item x (enc x)) x d"
    using assms(2) [of x] by (auto intro: read_item_enc)
qed

lemma pointer_codec:
  assumes "\<And>x. okp x \<Longrightarrow> (case x of None \<Rightarrow> True | Some fs \<Rightarrow> 0 < d
      \<and> (\<forall>f \<in> set fs. encodable lt (d - 1) f) \<and> length (enc_members fs) \<le> 65533
      \<and> reads_as (read_members le lt t0 p) (enc_members fs) fs (d - 1))"
  shows "element_codec (write_pointer le (write_members le))
    (read_pointer le (\<lambda>_. read_members le lt t0 p) p flag0) enc_ptr okp d"
proof
  fix x w assume x: "okp x" "at_end w"
  show "write_pointer le (write_members le) x w = put (enc_ptr x) w"
    by (rule write_ptr_put) (use x assms [OF x(1)] in \<open>auto intro: write_val_put\<close>)
next
  fix x assume "okp x"
  then show "reads_as (read_pointer le (\<lambda>_. read_members le lt t0 p) p flag0) (enc_ptr x) x d"
    using assms [of x] by (intro read_ptr_enc) auto
qed

lemma pointee_reads:
  assumes "case x of None \<Rightarrow> True | Some fs \<Rightarrow> 0 < d \<and> list_all2 shape p fs
      \<and> (\<forall>f \<in> set fs. encodable lt (d - 1) f) \<and> length (enc_members fs) \<le> 65533"
    and "\<And>fs f v0. x = Some fs \<Longrightarrow> f \<in> set fs \<Longrightarrow> encodable lt (d - 1) f \<Longrightarrow> shape v0 f \<Longrightarrow>
      reads_as (read_val le lt t0 v0) (enc f) f (d - 1)"
  shows "case x of None \<Rightarrow> True | Some fs \<Rightarrow> 0 < d
      \<and> (\<forall>f \<in> set fs. encodable lt (d - 1) f) \<and> length (enc_members fs) \<le> 65533
      \<and> reads_as (read_members le lt t0 p) (enc_members fs) fs (d - 1)"
proof (cases x)
  case (Some fs)
  then have "list_all2 (\<lambda>f0 f. reads_as (read_val le lt t0 f0) (enc f) f (d - 1)) p fs"
    using assms by (auto elim!: list.rel_mono_strong)
  with Some assms(1) show ?thesis by (simp add: read_members_enc)
qed simp

lemma read_container_n_id:
  assumes "length xs \<le> MAX_CONTAINER_SIZE"
    and "\<And>x. x \<in> set xs \<Longrightarrow> reads_as rd (en x) x d"
  shows "reads_as (read_container le tag (\<lambda>n. read_n n rd) c)
    (enc_sized tag (length xs) (concat (map en xs))) xs d"
  using assms by (intro read_container_enc read_n_enc) auto

lemmas read_val_fun = read_val.simps [abs_def]

text \<open>Values without elements: nothing is read recursively.\<close>

lemma read_literal_val_enc:
  assumes "encodable lt d (Lit m)" and "shape v0 (Lit m)"
  shows "reads_as (read_val le lt t0 v0) (enc (Lit m)) (Lit m) d"
proof -
  from assms obtain m0 where v0: "v0 = Lit m0" "length m0 = length m" by (cases v0) auto
  with assms reads_as_map [OF read_literal_enc(2) [of m m0 le d], where f = Lit] show ?thesis
    by (simp add: read_val_fun)
qed

lemma read_string_val_enc:
  assumes "encodable lt d (Str x)" and "shape v0 (Str x)"
  shows "reads_as (read_val le lt t0 v0) (enc (Str x)) (Str x) d"
proof -
  from assms obtain x0 where v0: "v0 = Str x0" by (cases v0) auto
  with assms reads_as_map [OF read_string_enc [of x le x0 d], where f = Str] show ?thesis
    by (simp add: read_val_fun)
qed

lemma read_wstring_val_enc:
  assumes "encodable lt d (WStr x)" and "shape v0 (WStr x)"
  shows "reads_as (read_val le lt t0 v0) (enc (WStr x)) (WStr x) d"
proof -
  from assms obtain x0 where v0: "v0 = WStr x0" by (cases v0) auto
  have "ucast (ucast c :: u16) = c" if "c \<in> set x" for c
  proof -
    have "c < 0x10000" using assms that by simp
    then have "take_bit 16 c = c"
      by (simp add: take_bit_eq_mod word_mod_def word_less_def)
    then show ?thesis by (simp add: unsigned_ucast_eq)
  qed
  with assms v0 reads_as_map [OF read_wstring_enc [of x le x0 d], where f = WStr] show ?thesis
    by (simp add: read_val_fun)
qed

lemma read_cstring_val_enc:
  assumes "encodable lt d (CStr x)" and "shape v0 (CStr x)"
  shows "reads_as (read_val le lt t0 v0) (enc (CStr x)) (CStr x) d"
proof -
  from assms obtain b b0 where x: "x = Some b" "v0 = CStr (Some b0)" "length b0 = length b"
    by (cases v0) (auto split: option.splits)
  from assms x have "b \<noteq> []" "last b = 0" "length b \<le> MAX_STRING_SIZE" by simp_all
  then have "b = butlast b @ [0] \<and> length (butlast b @ [0]) \<le> MAX_STRING_SIZE"
    using append_butlast_last_id [of b] by simp
  then obtain c where c: "b = c @ [0]" "length (c @ [0]) \<le> MAX_STRING_SIZE" by blast
  then have "length c < MAX_STRING_SIZE" "length c < length b0" using x by simp_all
  from reads_as_map [OF read_cstring_enc [OF this, of le d], where f = CStr] show ?thesis
    using x c by (simp add: read_val_fun)
qed

lemma read_bools_val_enc:
  assumes "encodable lt d (Bools x)" and "shape v0 (Bools x)"
  shows "reads_as (read_val le lt t0 v0) (enc (Bools x)) (Bools x) d"
proof -
  from assms obtain x0 where v0: "v0 = Bools x0" by (cases v0) auto
  have "reads_as (\<lambda>s. let (m, s1) = read_literal le True [t0] s in (m \<noteq> [0], s1))
      [1, if c then 1 else 0] c d" for c
    using reads_as_map [OF read_literal_enc(2) [of "[if c then 1 else 0]" "[t0]" le d], where f = "\<lambda>m. m \<noteq> [0]"]
    by (cases c) simp_all
  then have "reads_as (read_vector_bool le t0 x0) (enc (Bools x)) x d"
    unfolding read_vector_bool_def enc.simps
    by (intro read_container_n_id) (use assms in auto)
  from reads_as_map [OF this, where f = Bools] show ?thesis by (simp add: v0 read_val_fun)
qed

lemmas read_leaf_enc = read_literal_val_enc read_string_val_enc read_wstring_val_enc read_cstring_val_enc
  read_bools_val_enc

text \<open>Containers whose elements are read by \<open>read_val\<close>.\<close>

lemma elements_fit:
  "element_codec wr rd en (\<lambda>x. x \<in> set xs) d \<Longrightarrow> length xs \<le> MAX_CONTAINER_SIZE
    \<Longrightarrow> element_codec.fits (\<lambda>x. x \<in> set xs) xs"
  by (simp add: element_codec.fits_def list_all_iff)

lemma read_elements_enc:
  assumes "\<And>x. x \<in> set xs \<Longrightarrow> shape p x \<Longrightarrow> encodable lt d x \<Longrightarrow> reads_as (read_val le lt t0 p) (enc x) x d"
  shows "encodable lt d (Vec p xs) \<Longrightarrow> shape v0 (Vec p xs)
      \<Longrightarrow> reads_as (read_val le lt t0 v0) (enc (Vec p xs)) (Vec p xs) d"
    and "encodable lt d (Lst p xs) \<Longrightarrow> shape v0 (Lst p xs)
      \<Longrightarrow> reads_as (read_val le lt t0 v0) (enc (Lst p xs)) (Lst p xs) d"
    and "(\<And>x y. lt x y \<Longrightarrow> \<not> lt y x) \<Longrightarrow> encodable lt d (Set p xs) \<Longrightarrow> shape v0 (Set p xs)
      \<Longrightarrow> reads_as (read_val le lt t0 v0) (enc (Set p xs)) (Set p xs) d"
proof -
  have c: "element_codec (\<lambda>x. write_item le x (write_val le x)) (read_item le p (read_val le lt t0 p))
      (\<lambda>x. enc_item x (enc x)) (\<lambda>x. x \<in> set xs) d"
    if "is_item p" "\<forall>x \<in> set xs. shape p x \<and> encodable lt d x"
    by (rule item_codec) (use that assms in auto)
  show "reads_as (read_val le lt t0 v0) (enc (Vec p xs)) (Vec p xs) d"
    if "encodable lt d (Vec p xs)" "shape v0 (Vec p xs)"
    using that reads_as_map [OF element_codec.vector_read [OF c elements_fit [OF c]], where f = "Vec p"]
    by (cases v0) (auto simp: read_val_fun element_codec.enc_elements_def [OF c])
  show "reads_as (read_val le lt t0 v0) (enc (Lst p xs)) (Lst p xs) d"
    if "encodable lt d (Lst p xs)" "shape v0 (Lst p xs)"
    using that reads_as_map [OF element_codec.list_read [OF c elements_fit [OF c]], where f = "Lst p"]
    by (cases v0) (auto simp: read_val_fun element_codec.enc_elements_def [OF c])
  show "reads_as (read_val le lt t0 v0) (enc (Set p xs)) (Set p xs) d"
    if "\<And>x y. lt x y \<Longrightarrow> \<not> lt y x" "encodable lt d (Set p xs)" "shape v0 (Set p xs)"
    using that(2,3) reads_as_map [OF element_codec.set_read [OF c that(1) elements_fit [OF c]], where f = "Set p"]
    by (cases v0) (auto simp: read_val_fun element_codec.enc_elements_def [OF c])
qed

text \<open>Containers of pointers to objects.\<close>

lemma pointers_codec:
  assumes "\<And>x. okp x \<Longrightarrow> pointee lt d p x"
    and "\<And>x fs f v0. okp x \<Longrightarrow> x = Some fs \<Longrightarrow> f \<in> set fs \<Longrightarrow> encodable lt (d - 1) f \<Longrightarrow> shape v0 f
      \<Longrightarrow> reads_as (read_val le lt t0 v0) (enc f) f (d - 1)"
  shows "element_codec (write_pointer le (write_members le))
    (read_pointer le (\<lambda>_. read_members le lt t0 p) p flag0) enc_ptr okp d"
  by (rule pointer_codec, rule pointee_reads) (use assms in auto)

lemma read_pointers_enc:
  assumes reads: "\<And>x fs f v0. x \<in> set xs \<Longrightarrow> x = Some fs \<Longrightarrow> f \<in> set fs \<Longrightarrow> encodable lt (d - 1) f \<Longrightarrow> shape v0 f
      \<Longrightarrow> reads_as (read_val le lt t0 v0) (enc f) f (d - 1)"
  shows "encodable lt d (VecPtr p xs) \<Longrightarrow> shape v0 (VecPtr p xs)
      \<Longrightarrow> reads_as (read_val le lt t0 v0) (enc (VecPtr p xs)) (VecPtr p xs) d"
    and "encodable lt d (LstPtr p xs) \<Longrightarrow> shape v0 (LstPtr p xs)
      \<Longrightarrow> reads_as (read_val le lt t0 v0) (enc (LstPtr p xs)) (LstPtr p xs) d"
proof -
  have c: "element_codec (write_pointer le (write_members le))
      (read_pointer le (\<lambda>_. read_members le lt t0 p) p 0) enc_ptr (\<lambda>x. x \<in> set xs) d"
    if "\<forall>x \<in> set xs. pointee lt d p x"
    by (rule pointers_codec) (use that reads in auto)
  show "reads_as (read_val le lt t0 v0) (enc (VecPtr p xs)) (VecPtr p xs) d"
    if "encodable lt d (VecPtr p xs)" "shape v0 (VecPtr p xs)"
    using that reads_as_map [OF element_codec.vector_read [OF c elements_fit [OF c]], where f = "VecPtr p"]
    by (cases v0) (auto simp: read_val_fun element_codec.enc_elements_def [OF c] read_vector_ptr_def read_vector_def)
  show "reads_as (read_val le lt t0 v0) (enc (LstPtr p xs)) (LstPtr p xs) d"
    if "encodable lt d (LstPtr p xs)" "shape v0 (LstPtr p xs)"
    using that reads_as_map [OF element_codec.list_read [OF c elements_fit [OF c]], where f = "LstPtr p"]
    by (cases v0) (auto simp: read_val_fun element_codec.enc_elements_def [OF c] read_list_ptr_def read_list_def)
qed

theorem read_val_enc:
  assumes "\<And>x y. lt x y \<Longrightarrow> \<not> lt y x"
  shows "encodable lt d v \<Longrightarrow> shape v0 v \<Longrightarrow> reads_as (read_val le lt t0 v0) (enc v) v d"
proof (induction v arbitrary: v0 d)
  case (Vec p xs)
  show ?case by (rule read_elements_enc(1) [OF Vec.IH(2) Vec.prems])
next
  case (Lst p xs)
  show ?case by (rule read_elements_enc(2) [OF Lst.IH(2) Lst.prems])
next
  case (Set p xs)
  show ?case by (rule read_elements_enc(3) [OF Set.IH(2) assms Set.prems])
next
  case (VecPtr p xs)
  show ?case by (rule read_pointers_enc(1) [OF _ VecPtr.prems]) (use VecPtr.IH(2) in simp)
next
  case (LstPtr p xs)
  show ?case by (rule read_pointers_enc(2) [OF _ LstPtr.prems]) (use LstPtr.IH(2) in simp)
next
  case (Map pk pv xs)
  then obtain xs0 where v0: "v0 = Map pk pv xs0" by (cases v0) auto
  have k: "element_codec (\<lambda>x. write_item le x (write_val le x)) (read_item le pk (read_val le lt t0 pk))
    (\<lambda>x. enc_item x (enc x)) (\<lambda>x. x \<in> fst ` set xs) d"
    by (rule item_codec) (use Map in \<open>fastforce simp: fsts.simps\<close>)+
  have v: "element_codec (\<lambda>x. write_item le x (write_val le x)) (read_item le pv (read_val le lt t0 pv))
    (\<lambda>x. enc_item x (enc x)) (\<lambda>x. x \<in> snd ` set xs) d"
    by (rule item_codec) (use Map in \<open>fastforce simp: snds.simps\<close>)+
  note c = entry_codec [OF k v]
  from Map.prems(1) have "element_codec.fits (\<lambda>(k, v). k \<in> fst ` set xs \<and> v \<in> snd ` set xs) xs"
    "sorted_wrt lt (map fst xs)"
    by (force simp: element_codec.fits_def [OF c] list_all_iff)+
  from reads_as_map [OF map_read [OF c assms this], where f = "Map pk pv"]
  show ?case by (simp add: v0 element_codec.enc_elements_def [OF c])
next
  case (MapPtr pk p xs)
  then obtain xs0 where v0: "v0 = MapPtr pk p xs0" by (cases v0) auto
  have k: "element_codec (\<lambda>x. write_item le x (write_val le x)) (read_item le pk (read_val le lt t0 pk))
    (\<lambda>x. enc_item x (enc x)) (\<lambda>x. x \<in> fst ` set xs) d"
    by (rule item_codec) (use MapPtr in \<open>fastforce simp: fsts.simps\<close>)+
  have v: "element_codec (write_pointer le (write_members le))
    (read_pointer le (\<lambda>_. read_members le lt t0 p) p t0) enc_ptr (\<lambda>x. x \<in> snd ` set xs) d"
    by (rule pointers_codec) (use MapPtr.prems(1) MapPtr.IH(4) in \<open>force simp: snds.simps\<close>)+
  note c = entry_codec [OF k v]
  from MapPtr.prems(1) have "element_codec.fits (\<lambda>(k, v). k \<in> fst ` set xs \<and> v \<in> snd ` set xs) xs"
    "sorted_wrt lt (map fst xs)"
    by (force simp: element_codec.fits_def [OF c] list_all_iff)+
  from reads_as_map [OF map_read [OF c assms this], where f = "MapPtr pk p"]
  show ?case
    by (simp add: v0 element_codec.enc_elements_def [OF c] read_map_def read_map_ptr_def)
next
  case (Obj fs)
  then obtain fs0 where v0: "v0 = Obj fs0" "list_all2 shape fs0 fs" by (cases v0) auto
  then have m: "reads_as (read_members le lt t0 fs0) (enc_members fs) fs (d - 1)"
    using Obj by (intro read_members_enc) (auto elim!: list.rel_mono_strong)
  from Obj.prems(1) have "0 < d" "length (enc_members fs) \<le> 65533" by auto
  with read_obj_enc [OF m this(2), of le fs0]
  have "reads_as (read_class le (\<lambda>_. read_members le lt t0 fs0) fs0) (enc_object (enc_members fs)) fs d"
    by (intro read_class_enc) simp_all
  from reads_as_map [OF this, where f = Obj] show ?case by (simp add: v0)
qed (rule read_leaf_enc; assumption)+

end
