(* ===== verification/SerializeProps.thy ===== *)
theory SerializeProps
  imports SerializeValues
begin

text \<open>
  What class \<^verbatim>\<open>serialize\<close> promises: round trips between hosts of any byte order, the protocol
  evolution its documentation describes, and what it does on input it cannot trust.
\<close>

section \<open>Fresh streams\<close>

definition new_writer :: writer where
  "new_writer = \<lparr>outbuf = [], ppos = 0, wfail = False, wseekable = True, wError = NONE\<rparr>"

definition open_reader :: "byte list \<Rightarrow> reader" where
  "open_reader bs = \<lparr>inbuf = bs, rpos = 0, eofbit = False, failbit = False, seekable = True,
     stops = [], lastError = NONE, faulted = False\<rparr>"

lemma at_end_new: "at_end new_writer"
  by (simp add: at_end_def new_writer_def)

lemma put_new: "outbuf (put e new_writer) = e" "wgood (put e new_writer)"
  by (simp_all add: put_def new_writer_def wgood_def)

lemma ready_open: "d \<le> MAX_PARSE_STACK_DEPTH \<Longrightarrow> ready e d (open_reader (e @ rest))"
  by (simp add: ready_def open_reader_def good_def)

lemma open_reader_state [simp]:
  "rpos (open_reader bs) = 0" "inbuf (open_reader bs) = bs" "good (open_reader bs)"
  "lastError (open_reader bs) = NONE" "stops (open_reader bs) = []"
  by (simp_all add: open_reader_def good_def)

section \<open>Members the sender did not know\<close>

text \<open>Once the end of the current object is reached, every overload leaves its value alone.\<close>

definition at_stop :: "reader \<Rightarrow> bool" where
  "at_stop s \<longleftrightarrow> good s \<and> seekable s \<and> stops s \<noteq> [] \<and> hd (stops s) \<le> rpos s"

lemma check_stop_at_stop [simp]: "at_stop s \<Longrightarrow> check_stop_parse s = (True, s)"
  by (cases "stops s") (auto simp: at_stop_def check_stop_parse_def is_tellg_def good_def)

lemma read_val_at_stop: "at_stop s \<Longrightarrow> read_val le lt t0 v s = (v, s)"
  by (cases v) (simp_all add: read_literal_def read_string_def read_wstring_def read_cstring_def
      read_container_def read_vector_def read_list_def read_set_def read_map_def read_vector_bool_def
      read_vector_ptr_def read_list_ptr_def read_map_ptr_def read_class_def)

lemma read_members_at_stop: "at_stop s \<Longrightarrow> read_members le lt t0 vs s = (vs, s)"
  by (induction vs) (simp_all add: read_val_at_stop)

lemma read_members_append:
  "read_members le lt t0 (fs @ gs) s
   = (let (fs', s1) = read_members le lt t0 fs s; (gs', s2) = read_members le lt t0 gs s1
      in (fs' @ gs', s2))"
  by (induction fs arbitrary: s) (simp_all split: prod.split)

lemma read_evolved_object:
  assumes "\<And>x y. lt x y \<Longrightarrow> \<not> lt y x"
    and ok: "\<forall>f \<in> set fs. encodable lt d f" and sh: "list_all2 shape fs0 fs"
    and len: "length (enc_members fs) + length extra \<le> 65533"
    and miss: "missing = [] \<or> extra = []"
    and r: "ready (enc_object (enc_members fs @ extra)) (Suc d) s"
  shows "read_val le lt t0 (Obj (fs0 @ missing)) s
    = (Obj (fs @ missing), adv (length (enc_object (enc_members fs @ extra))) s)"
proof -
  let ?body = "\<lambda>_. read_members le lt t0 (fs0 @ missing)"
  have rd: "reads_as (read_members le lt t0 fs0) (enc_members fs) fs d"
    by (rule read_members_enc) (use ok sh in \<open>auto elim!: list.rel_mono_strong intro: read_val_enc [OF assms(1)]\<close>)
  have "read_object le ?body (Some (fs0 @ missing)) s
    = (Some (fs @ missing), adv (1 + (2 + length (enc_members fs) + length extra)) s)"
  proof (rule read_object_enc [of _ "enc_members fs" extra d])
    fix u assume u: "ready (enc_members fs) d u" "stops u \<noteq> []"
      "hd (stops u) = rpos u + length (enc_members fs) + length extra"
    have "at_stop (adv (length (enc_members fs)) u)" if "extra = []"
      using u that by (auto simp: at_stop_def ready_def)
    with miss show "?body (fs0 @ missing) u = (fs @ missing, adv (length (enc_members fs)) u)"
      by (auto simp: read_members_append reads_asD [OF rd u(1)] read_members_at_stop)
  qed (use r len in \<open>simp_all add: enc_object_def add.assoc\<close>)
  moreover have "check_stop_parse s = (False, s)"
    using r by (rule check_stop_ready) simp
  ultimately show ?thesis
    by (simp add: read_class_def add.assoc)
qed

section \<open>A message used below to show that the hypotheses can hold\<close>

text \<open>An order on the keys used there, and an object with a string, a map and pointers.\<close>

fun byte_lt :: "val \<Rightarrow> val \<Rightarrow> bool" where
  "byte_lt (Lit [a]) (Lit [b]) \<longleftrightarrow> a < b"
| "byte_lt _ _ \<longleftrightarrow> False"

lemma byte_lt_asym: "byte_lt x y \<Longrightarrow> \<not> byte_lt y x"
  by (induction x y rule: byte_lt.induct) auto

definition sample_members :: "val list" where
  "sample_members = [Lit [1, 2], Str [104, 105],
     Map (Lit [0]) (Lit [0, 0]) [(Lit [1], Lit [7, 8]), (Lit [2], Lit [9, 9])],
     VecPtr [Lit [0]] [None, Some [Lit [5]]], Obj [Bools [True]]]"

definition sample_fresh :: "val list" where
  "sample_fresh = [Lit [0, 0], Str [], Map (Lit [0]) (Lit [0, 0]) [],
     VecPtr [Lit [0]] [], Obj [Bools []]]"

lemma sample_ok: "\<forall>f \<in> set sample_members. encodable byte_lt (MAX_PARSE_STACK_DEPTH - 1) f"
    "length (enc_members sample_members) \<le> 100" "list_all2 shape sample_fresh sample_members"
  by (simp_all add: sample_members_def sample_fresh_def serialize_limits enc_ptr_def enc_item_def)

section \<open>Properties\<close>

text \<open>
  C1: a value written by \<^verbatim>\<open>serialize::write\<close> on one host is read back by
  \<^verbatim>\<open>serialize::read\<close> on any other, whatever the byte orders \<open>le1\<close> and \<open>le2\<close> of the two,
  the old contents \<open>v0\<close> of the receiving variable and the bytes after it. This covers every
  supported type and any nesting of objects up to the parser's five levels. The reader stops
  exactly behind the value with the stream in order and no error.
\<close>

theorem serialize_round_trip:
  fixes v :: val and le1 :: bool
  assumes "\<And>x y. lt x y \<Longrightarrow> \<not> lt y x" and "encodable lt MAX_PARSE_STACK_DEPTH v" and "shape v0 v"
  defines "w \<equiv> write_val le1 v new_writer"
  shows "wgood w \<and> read_val le2 lt t0 v0 (open_reader (outbuf w @ rest))
    = (v, (open_reader (outbuf w @ rest))\<lparr>rpos := length (outbuf w)\<rparr>)"
proof -
  have w: "w = put (enc v) new_writer"
    unfolding w_def by (rule write_val_put [OF assms(2) at_end_new])
  have "read_val le2 lt t0 v0 (open_reader (enc v @ rest))
      = (v, adv (length (enc v)) (open_reader (enc v @ rest)))"
    by (rule reads_asD [OF read_val_enc [OF assms(1-3)] ready_open]) simp_all
  then show ?thesis
    by (simp add: w put_new adv_def)
qed

lemma serialize_round_trip_witness:
  "wgood (write_val False (Obj sample_members) new_writer)
   \<and> read_val True byte_lt 7 (Obj sample_fresh)
       (open_reader (outbuf (write_val False (Obj sample_members) new_writer) @ [99]))
     = (Obj sample_members,
        (open_reader (outbuf (write_val False (Obj sample_members) new_writer) @ [99]))
          \<lparr>rpos := length (outbuf (write_val False (Obj sample_members) new_writer))\<rparr>)"
  by (rule serialize_round_trip [OF byte_lt_asym])
    (use sample_ok in \<open>simp_all add: MAX_PARSE_STACK_DEPTH_def\<close>)

text \<open>
  An object sent by a newer version, with additional members \<open>gs\<close> the receiver does not
  know, is read correctly and the extra data is skipped.
\<close>

theorem newer_sender_skipped:
  fixes fs gs :: "val list" and le1 :: bool
  assumes "\<And>x y. lt x y \<Longrightarrow> \<not> lt y x" and "encodable lt MAX_PARSE_STACK_DEPTH (Obj (fs @ gs))"
    and "list_all2 shape fs0 fs"
  defines "w \<equiv> write_val le1 (Obj (fs @ gs)) new_writer"
  shows "read_val le2 lt t0 (Obj fs0) (open_reader (outbuf w @ rest))
    = (Obj fs, (open_reader (outbuf w @ rest))\<lparr>rpos := length (outbuf w)\<rparr>)"
proof -
  let ?e = "enc_object (enc_members fs @ enc_members gs)"
  have w: "w = put ?e new_writer"
    unfolding w_def using write_val_put [OF assms(2) at_end_new, of le1] by simp
  have "ready ?e (Suc (MAX_PARSE_STACK_DEPTH - 1)) (open_reader (?e @ rest))"
    by (rule ready_open) (simp add: MAX_PARSE_STACK_DEPTH_def)
  from read_evolved_object [OF assms(1) _ assms(3) _ _ this, where missing = "[]" and le = le2] assms(2)
  show ?thesis by (simp add: w put_new adv_def add.assoc)
qed

lemma newer_sender_skipped_witness:
  "read_val True byte_lt 0 (Obj sample_fresh)
     (open_reader (outbuf (write_val False (Obj (sample_members @ [Str [1]])) new_writer) @ [99]))
   = (Obj sample_members,
      (open_reader (outbuf (write_val False (Obj (sample_members @ [Str [1]])) new_writer) @ [99]))
        \<lparr>rpos := length (outbuf (write_val False (Obj (sample_members @ [Str [1]])) new_writer))\<rparr>)"
  by (rule newer_sender_skipped [OF byte_lt_asym])
    (use sample_ok in \<open>auto simp: serialize_limits\<close>)

text \<open>
  An object sent by an older version, without the receiver's trailing members, is read
  correctly and those members keep the values they had.
\<close>

theorem older_sender_defaults:
  fixes fs :: "val list" and le1 :: bool
  assumes "\<And>x y. lt x y \<Longrightarrow> \<not> lt y x" and "encodable lt MAX_PARSE_STACK_DEPTH (Obj fs)"
    and "list_all2 shape fs0 fs"
  defines "w \<equiv> write_val le1 (Obj fs) new_writer"
  shows "read_val le2 lt t0 (Obj (fs0 @ missing)) (open_reader (outbuf w @ rest))
    = (Obj (fs @ missing), (open_reader (outbuf w @ rest))\<lparr>rpos := length (outbuf w)\<rparr>)"
proof -
  let ?e = "enc_object (enc_members fs @ [])"
  have w: "w = put ?e new_writer"
    unfolding w_def using write_val_put [OF assms(2) at_end_new, of le1] by simp
  have "ready ?e (Suc (MAX_PARSE_STACK_DEPTH - 1)) (open_reader (?e @ rest))"
    by (rule ready_open) (simp add: MAX_PARSE_STACK_DEPTH_def)
  from read_evolved_object [OF assms(1) _ assms(3) _ _ this, where missing = missing and le = le2] assms(2)
  show ?thesis by (simp add: w put_new adv_def)
qed

lemma older_sender_defaults_witness:
  "read_val True byte_lt 0 (Obj (sample_fresh @ [Str [42]]))
     (open_reader (outbuf (write_val False (Obj sample_members) new_writer) @ [99]))
   = (Obj (sample_members @ [Str [42]]),
      (open_reader (outbuf (write_val False (Obj sample_members) new_writer) @ [99]))
        \<lparr>rpos := length (outbuf (write_val False (Obj sample_members) new_writer))\<rparr>)"
  by (rule older_sender_defaults [OF byte_lt_asym])
    (use sample_ok in \<open>auto simp: serialize_limits\<close>)

text \<open>
  The end of an object is looked at only where a read starts. A built-in member that
  straddles the declared end of its object is read to its own length: the receiver takes the
  last three bytes of its four-byte value from behind the object, stands behind the object's end
  afterwards, and no error is reported.
\<close>

theorem object_end_overrun:
  assumes "bs = [31, 4, 0, 1, a, b, c, d] @ rest" and "length m0 = 4"
  shows "read_val le lt t0 (Obj [Lit m0]) (open_reader bs)
    = (Obj [Lit [a, b, c, d]], (open_reader bs)\<lparr>rpos := 8\<rparr>)"
proof -
  obtain p q r t where m0: "m0 = [p, q, r, t]"
    using assms(2) by (auto simp: numeral_eq_Suc length_Suc_conv)
  show ?thesis
    unfolding assms(1) m0
    by (cases le)
      (simp_all add: read_class_def read_object_def read_literal_def read_size_def read_internal_def
        read_type_def check_stop_parse_def is_read_def is_peek_def is_tellg_def is_seekg_def
        is_seekg_end_def push_stop_parse_pos_def pop_stop_parse_pos_def open_reader_def good_def
        image_def serialize_limits)
qed

lemma object_end_overrun_witness:
  "read_val True byte_lt 0 (Obj [Lit [0, 0, 0, 0]]) (open_reader ([31, 4, 0, 1, 10, 11, 12, 13] @ []))
   = (Obj [Lit [10, 11, 12, 13]], (open_reader ([31, 4, 0, 1, 10, 11, 12, 13] @ []))\<lparr>rpos := 8\<rparr>)"
  by (rule object_end_overrun) simp_all

text \<open>
  \<^verbatim>\<open>write(os, const char*)\<close> computes the size in sixteen bits. A C string whose length
  plus one is at most 1024 modulo 65536 is accepted whatever its length, and silently cut to
  that many bytes; a string of 65535 characters is sent as an empty one.
\<close>

theorem cstring_size_wraps:
  assumes "0 \<notin> set str" and "n = (length str + 1) mod 65536" and "n \<le> MAX_STRING_SIZE"
    and "at_end w"
  shows "write_cstring le (Some (str @ [0])) w
    = put (enc_sized STRING n (take n (str @ [0]))) w"
proof -
  have sz: "unat (of_nat (strlen (str @ [0])) + 1 :: u16) = n"
  proof -
    have "(of_nat (length str) + 1 :: u16) = of_nat (length str + 1)" by simp
    then have "unat (of_nat (length str) + 1 :: u16) = (length str + 1) mod 2 ^ 16"
      by (simp only: unat_of_nat) simp
    then show ?thesis
      using assms(2) by (simp add: strlen_terminated [OF assms(1)])
  qed
  show ?thesis
    using assms(3,4)
    by (auto simp: write_cstring_def sz Let_def check_slength_ok write_internal_put enc_sized_def)
qed

lemma cstring_size_wraps_witness:
  "write_cstring True (Some (replicate 65535 65 @ [0])) new_writer
   = put (enc_sized STRING 0 (take 0 (replicate 65535 65 @ [0]))) new_writer"
  by (rule cstring_size_wraps) (simp_all add: at_end_new)

end
