(* ===== verification/SerializeSafety.thy ===== *)
theory SerializeSafety
  imports SerializeValues
begin

text \<open>
  Reading bytes nobody vouches for. Whatever the input, reading into a variable keeps its type
  and the limits of the parser, pairs every push on \<^verbatim>\<open>stopParsePosStack\<close> with its pop, never
  moves behind the end of the buffer or backwards, and never clears \<^verbatim>\<open>failbit\<close>.
\<close>

section \<open>What a read may do to the reader\<close>

definition intact :: "reader \<Rightarrow> reader \<Rightarrow> bool" where
  "intact s s' \<longleftrightarrow> (rpos s \<le> length (inbuf s) \<longrightarrow>
     inbuf s' = inbuf s \<and> seekable s' = seekable s \<and> stops s' = stops s \<and> faulted s' = faulted s
     \<and> rpos s \<le> rpos s' \<and> rpos s' \<le> length (inbuf s) \<and> (failbit s \<longrightarrow> failbit s'))"

definition safe :: "(reader \<Rightarrow> 'a \<times> reader) \<Rightarrow> ('a \<Rightarrow> bool) \<Rightarrow> bool" where
  "safe rd P \<longleftrightarrow> (\<forall>s. intact s (snd (rd s)) \<and> P (fst (rd s)))"

lemma intact_refl [simp]: "intact s s"
  by (simp add: intact_def)

lemma intact_trans [trans]: "intact s t \<Longrightarrow> intact t u \<Longrightarrow> intact s u"
  by (auto simp: intact_def)

lemma safeI: "(\<And>s. intact s (snd (rd s))) \<Longrightarrow> (\<And>s. P (fst (rd s))) \<Longrightarrow> safe rd P"
  by (simp add: safe_def)

lemma safeD: "safe rd P \<Longrightarrow> rd s = (x, s') \<Longrightarrow> intact s s' \<and> P x"
  unfolding safe_def by (metis fst_conv snd_conv)

lemma safe_mono: "safe rd P \<Longrightarrow> (\<And>x. P x \<Longrightarrow> Q x) \<Longrightarrow> safe rd Q"
  by (simp add: safe_def)

lemma safe_map: "safe rd P \<Longrightarrow> (\<And>x. P x \<Longrightarrow> Q (f x)) \<Longrightarrow> safe (\<lambda>s. let (y, s') = rd s in (f y, s')) Q"
  by (simp add: safe_def split: prod.split) (metis fst_conv snd_conv)

lemma intact_reject [simp]: "intact s (reject e s)" "intact s (set_fail s)" "intact s (raiseError e s)"
  by (simp_all add: intact_def reject_def set_fail_def raiseError_def)

lemma intact_rejectI: "intact s u \<Longrightarrow> intact s (reject e u)"
  using intact_trans [OF _ intact_reject(1)] .

lemma intact_peek: "intact s (snd (is_peek s))"
  by (simp add: intact_def is_peek_def set_fail_def)

lemma intact_read: "intact s (snd (is_read n s))"
  by (auto simp: intact_def is_read_def set_fail_def Let_def min_def)

lemma length_is_read: "length (fst (is_read n s)) \<le> n"
  by (simp add: is_read_def Let_def)

lemma intact_tellg: "intact s (snd (is_tellg s))"
  by (simp add: intact_def is_tellg_def set_fail_def)

lemma intact_check_stop: "intact s (snd (check_stop_parse s))"
  using intact_tellg [of s]
  by (auto simp: check_stop_parse_def split: list.split prod.splits option.splits)

lemma intact_check_stream: "intact s (snd (check_stream s))"
  and intact_check_slength: "intact s (snd (check_slength n s))"
  and intact_check_container: "intact s (snd (check_container_size n s))"
  by (simp_all add: check_stream_def check_slength_def check_container_size_def)

lemma safe_read_internal: "safe (read_internal le nsw m) (\<lambda>m'. length m' = length m)"
proof (rule safeI)
  fix s
  obtain b s1 where c: "check_stop_parse s = (b, s1)" by fastforce
  obtain got s2 where r: "is_read (length m) s1 = (got, s2)" by fastforce
  have i: "intact s s1" "intact s1 s2" "length got \<le> length m"
    using intact_check_stop [of s] intact_read [of s1 "length m"] length_is_read [of "length m" s1] c r
    by simp_all
  then show "intact s (snd (read_internal le nsw m s))"
    by (auto simp: read_internal_def c r Let_def intro: intact_trans)
  show "length (fst (read_internal le nsw m s)) = length m"
    using i(3) by (simp add: read_internal_def c r Let_def)
qed

lemma intact_read_type: "intact s (snd (read_type le t s))"
proof -
  obtain b s1 where p: "is_peek s = (b, s1)" by fastforce
  then have i: "intact s s1" using intact_peek [of s] by simp
  show ?thesis
    using i safe_read_internal [of le False "[0]"] p
    by (auto simp: read_type_def safe_def split: option.split intro: intact_trans)
qed

lemma safe_read_literal: "safe (read_literal le tagged m) (\<lambda>m'. length m' = length m)"
proof -
  have "intact s (snd (read_literal le tagged m s)) \<and> length (fst (read_literal le tagged m s)) = length m" for s
  proof -
    obtain b s1 where c: "check_stop_parse s = (b, s1)" by fastforce
    obtain t s2 where t: "(if tagged then read_type le LITERAL s1 else (True, s1)) = (t, s2)" by fastforce
    obtain m' s3 where r: "read_internal le False (image le m) s2 = (m', s3)" by fastforce
    have "intact s s1" "intact s1 s2"
      using intact_check_stop [of s] intact_read_type [of s1 le LITERAL] c t by (auto split: if_splits)
    moreover have "intact s2 s3" "length m' = length m"
      using safeD [OF safe_read_internal r] by simp_all
    ultimately show ?thesis
      by (auto simp: read_literal_def c t r intro: intact_trans)
  qed
  then show ?thesis by (simp add: safe_def)
qed

lemma intact_read_size: "intact s (snd (read_size le s))"
  using safe_read_literal [of le False "[0, 0]"]
  by (auto simp: read_size_def safe_def split: prod.split) (metis snd_conv)

lemma sized_intact:
  assumes "check_stop_parse s = (b0, s1)"
  shows "intact s s1"
    and "read_type le tag s1 = (b1, s2) \<Longrightarrow> intact s s2"
    and "read_type le tag s1 = (b1, s2) \<Longrightarrow> read_size le s2 = (n, s3) \<Longrightarrow> intact s s3"
    and "read_type le tag s1 = (b1, s2) \<Longrightarrow> read_size le s2 = (n, s3) \<Longrightarrow>
      check_stream s3 = (b2, s4) \<Longrightarrow> intact s s4"
  using assms intact_check_stop [of s] intact_read_type [of s1 le tag] intact_read_size [of s2 le]
    intact_check_stream [of s3]
  by (auto intro: intact_trans)

section \<open>Strings and containers\<close>

text \<open>The frame of the sized overloads, and its two checks.\<close>

lemma safe_sized:
  assumes "P a" and "P b" and "P c" and "\<And>n. safe (rest n) P"
  shows "safe (\<lambda>s. let (stop, s1) = check_stop_parse s in
      if stop then (a, s1)
      else let (typed, s2) = read_type le tag s1 in
      if \<not> typed then (b, s2)
      else let (size, s3) = read_size le s2; (ok, s4) = check_stream s3 in
      if \<not> ok then (c, s4) else rest size s4) P"
  (is "safe ?rd P")
proof -
  have "intact s (snd (?rd s)) \<and> P (fst (?rd s))" for s
  proof -
    obtain b0 s1 where 1: "check_stop_parse s = (b0, s1)" by fastforce
    obtain b1 s2 where 2: "read_type le tag s1 = (b1, s2)" by fastforce
    obtain n s3 where 3: "read_size le s2 = (n, s3)" by fastforce
    obtain b2 s4 where 4: "check_stream s3 = (b2, s4)" by fastforce
    have "intact s4 (snd (rest n s4))" "P (fst (rest n s4))" using assms(4) by (auto simp: safe_def)
    with assms sized_intact(1) [OF 1] sized_intact(2) [OF 1 2] sized_intact(4) [OF 1 2 3 4]
    show ?thesis by (auto simp: 1 2 3 4 intro: intact_trans)
  qed
  then show ?thesis by (simp add: safe_def)
qed

lemma safe_check:
  assumes "\<And>s. intact s (snd (g s))" and "P a" and "\<And>s s1. g s = (True, s1) \<Longrightarrow> safe rd P"
  shows "safe (\<lambda>s. let (x, s1) = g s in if \<not> x then (a, s1) else rd s1) P"
    and "safe (\<lambda>s. let (x, s1) = g s in if x then rd s1 else (a, s1)) P"
proof -
  have "intact s (snd (let (x, s1) = g s in if \<not> x then (a, s1) else rd s1))
    \<and> P (fst (let (x, s1) = g s in if \<not> x then (a, s1) else rd s1))" for s
  proof -
    obtain x s1 where g: "g s = (x, s1)" by fastforce
    with assms(1) [of s] assms(2,3) show ?thesis
      by (cases x) (auto simp: safe_def intro: intact_trans)
  qed
  then show neg: "safe (\<lambda>s. let (x, s1) = g s in if \<not> x then (a, s1) else rd s1) P"
    by (simp add: safe_def)
  have "(\<lambda>s. let (x, s1) = g s in if x then rd s1 else (a, s1))
      = (\<lambda>s. let (x, s1) = g s in if \<not> x then (a, s1) else rd s1)"
    by (auto simp: fun_eq_iff split: prod.split)
  with neg show "safe (\<lambda>s. let (x, s1) = g s in if x then rd s1 else (a, s1)) P" by simp
qed

lemma slength_bound: "check_slength n s = (True, s1) \<Longrightarrow> n \<le> MAX_STRING_SIZE"
  and container_bound: "check_container_size n s = (True, s1) \<Longrightarrow> n \<le> MAX_CONTAINER_SIZE"
  by (auto simp: check_slength_def check_container_size_def split: if_splits)

lemma safe_read_n: "safe rd P \<Longrightarrow> safe (read_n n rd) (\<lambda>xs. length xs = n \<and> list_all P xs)"
proof (induction n)
  case (Suc n)
  have "intact s (snd (read_n (Suc n) rd s)) \<and> length (fst (read_n (Suc n) rd s)) = Suc n
    \<and> list_all P (fst (read_n (Suc n) rd s))" for s
  proof -
    obtain x s1 where x: "rd s = (x, s1)" by fastforce
    obtain xs s2 where xs: "read_n n rd s1 = (xs, s2)" by fastforce
    show ?thesis
      using safeD [OF Suc.prems x] safeD [OF Suc.IH [OF Suc.prems] xs]
      by (auto simp: x xs intro: intact_trans)
  qed
  then show ?case by (simp add: safe_def)
qed (simp add: safe_def)

lemma safe_read_string:
  assumes "length str \<le> MAX_STRING_SIZE"
  shows "safe (read_string le str) (\<lambda>x. length x \<le> MAX_STRING_SIZE)"
  unfolding read_string_def
  by (intro safe_sized safe_check(1) intact_check_slength)
    (use assms in \<open>auto intro!: safe_mono [OF safe_read_internal] dest: slength_bound\<close>)

lemma safe_read_wchar: "safe (read_wchar le) (\<lambda>_. True)"
  using safe_read_internal [of le False "image le (replicate WCHAR_SIZE 0)"]
  by (auto simp: safe_def read_wchar_def split: prod.split) (metis snd_conv)

lemma safe_read_wstring:
  assumes "length str \<le> MAX_STRING_SIZE"
  shows "safe (read_wstring le str) (\<lambda>x. length x \<le> MAX_STRING_SIZE)"
  unfolding read_wstring_def
  by (intro safe_sized safe_check(1) intact_check_slength)
    (use assms in \<open>auto intro!: safe_mono [OF safe_read_n [OF safe_read_wchar]] dest: slength_bound\<close>)

text \<open>A \<^verbatim>\<open>char\<close> array is never written past its capacity.\<close>

lemma safe_read_cstring: "safe (read_cstring le str) (\<lambda>x. map_option length x = map_option length str)"
  unfolding read_cstring_def
proof (intro safe_sized safe_check(1) intact_check_slength)
  fix n
  show "safe (\<lambda>s5. case str of None \<Rightarrow> (None, reject INVALID_INPUT s5)
      | Some buf \<Rightarrow> if length buf < n then (str, reject STRING_TOO_LONG s5)
        else let (m, s6) = read_internal le True (take n buf) s5 in (Some (m @ drop n buf), s6))
      (\<lambda>x. map_option length x = map_option length str)"
  proof (cases str)
    case (Some buf)
    show ?thesis
    proof (cases "length buf < n")
      case False
      then have "safe (\<lambda>s5. let (m, s6) = read_internal le True (take n buf) s5 in (Some (m @ drop n buf), s6))
        (\<lambda>x. map_option length x = map_option length str)"
        using Some by (intro safe_map [OF safe_read_internal]) auto
      with False Some show ?thesis by simp
    qed (simp add: safe_def Some)
  qed (simp add: safe_def)
qed simp_all

lemma safe_read_container:
  assumes "P c" and "P []" and "\<And>n. n \<le> MAX_CONTAINER_SIZE \<Longrightarrow> safe (loop n) P"
  shows "safe (read_container le tag loop c) P"
  unfolding read_container_def
  by (intro safe_sized safe_check(2) intact_check_container) (use assms container_bound in auto)

section \<open>Objects\<close>

lemma intact_lookup:
  assumes "is_tellg s = (dataPos, s1)" and "is_tellg (is_seekg_end s1) = (e, s2)"
  shows "intact s (is_seekg dataPos s2)"
  using assms
  by (auto simp: intact_def is_tellg_def is_seekg_end_def is_seekg_def set_fail_def good_def Let_def
      split: if_splits option.splits)

lemma intact_seekg_cur: "intact s (is_seekg_cur n s)"
  by (auto simp: intact_def is_seekg_cur_def is_seekg_def set_fail_def Let_def)

lemma intact_push_pop:
  assumes "push_stop_parse_pos p s = (True, u)" and "intact u u'"
  shows "intact s (pop_stop_parse_pos u')"
  using assms
  by (auto simp: intact_def push_stop_parse_pos_def pop_stop_parse_pos_def split: if_splits)

lemma intact_push_failed: "push_stop_parse_pos p s = (False, u) \<Longrightarrow> u = s"
  by (simp add: push_stop_parse_pos_def split: if_splits)

lemma safe_read_object:
  assumes body: "safe (body t0) P" and "P t0"
  shows "safe (read_object le body (Some t0)) (\<lambda>x. \<exists>t. x = Some t \<and> P t)"
proof -
  have "intact s (snd (read_object le body (Some t0) s))
    \<and> (\<exists>t. fst (read_object le body (Some t0) s) = Some t \<and> P t)" for s
  proof -
    obtain b0 s1 where 1: "check_stop_parse s = (b0, s1)" by fastforce
    obtain b1 s2 where 2: "read_type le USER_DEFINED s1 = (b1, s2)" by fastforce
    obtain st s3 where 3: "is_tellg s2 = (st, s3)" by fastforce
    obtain n s4 where 4: "read_size le s3 = (n, s4)" by fastforce
    obtain dp s5 where 5: "is_tellg s4 = (dp, s5)" by fastforce
    obtain en s6 where 6: "is_tellg (is_seekg_end s5) = (en, s6)" by fastforce
    define s7 where "s7 = is_seekg dp s6"
    have i1: "intact s s1" "intact s s2" using sized_intact(1) [OF 1] sized_intact(2) [OF 1 2] .
    have i3: "intact s s3" using i1(2) intact_tellg [of s2] 3 by (auto intro: intact_trans)
    have i4: "intact s s4" using i3 intact_read_size [of s3 le] 4 by (auto intro: intact_trans)
    have i7: "intact s s7"
      unfolding s7_def using i4 intact_lookup [OF 5 6] by (rule intact_trans)
    show ?thesis
    proof (cases st)
      case None
      with i1 i3 show ?thesis
        using assms(2) by (auto simp: read_object_def 1 2 3 intro: intact_trans)
    next
      case (Some start)
      obtain b8 s8 where 8: "push_stop_parse_pos (start + n) s7 = (b8, s8)" by fastforce
      obtain t' s9 where 9: "body t0 s8 = (t', s9)" by fastforce
      have b: "intact s8 s9" "P t'" using safeD [OF body 9] by simp_all
      have i10: "intact s (pop_stop_parse_pos s9)" if b8
        using intact_push_pop [OF _ b(1)] 8 that i7 by (auto intro: intact_trans)
      have tell: "intact s (snd (is_tellg (pop_stop_parse_pos s9)))"
        "intact s (is_seekg_cur k (snd (is_tellg (pop_stop_parse_pos s9))))" if b8 for k
        using intact_trans [OF i10 [OF that] intact_tellg]
          intact_trans [OF intact_trans [OF i10 [OF that] intact_tellg] intact_seekg_cur] by simp_all
      have "intact s (snd (read_object le body (Some t0) s))
        \<and> (fst (read_object le body (Some t0) s) = Some t' \<or> fst (read_object le body (Some t0) s) = Some t0)"
        using i1 i3 i7 i10 tell 8 intact_push_failed [of "start + n" s7 s8]
        unfolding read_object_def 1 2 3 4 5 6 Some Let_def prod.case option.case s7_def [symmetric]
        by (cases b8) (auto simp: 9 intact_rejectI split: prod.split option.split)
      with b(2) assms(2) show ?thesis by auto
    qed
  qed
  then show ?thesis by (simp add: safe_def)
qed

lemma safe_read_class:
  assumes "safe (body t0) P" and "P t0"
  shows "safe (read_class le body t0) P"
proof -
  have "intact s (snd (read_class le body t0 s)) \<and> P (fst (read_class le body t0 s))" for s
  proof -
    obtain b0 s1 where 1: "check_stop_parse s = (b0, s1)" by fastforce
    obtain x s2 where 2: "read_object le body (Some t0) s1 = (x, s2)" by fastforce
    have "intact s s1" using intact_check_stop [of s] 1 by simp
    with safeD [OF safe_read_object [of body t0 P, OF assms] 2] assms(2) show ?thesis
      by (auto simp: read_class_def 1 2 intro: intact_trans)
  qed
  then show ?thesis by (simp add: safe_def)
qed

lemma safe_read_pointer:
  assumes "safe (body t0) P" and "P t0"
  shows "safe (read_pointer le body t0 flag0) (\<lambda>x. \<forall>t. x = Some t \<longrightarrow> P t)"
proof -
  have "intact s (snd (read_pointer le body t0 flag0 s))
    \<and> (\<forall>t. fst (read_pointer le body t0 flag0 s) = Some t \<longrightarrow> P t)" for s
  proof -
    obtain m s1 where 1: "read_literal le False [flag0] s = (m, s1)" by fastforce
    obtain x s2 where 2: "read_object le body (Some t0) s1 = (x, s2)" by fastforce
    have "intact s s1" using safeD [OF safe_read_literal 1] by simp
    with safeD [OF safe_read_object [of body t0 P, OF assms] 2] show ?thesis
      by (auto simp: read_pointer_def 1 2 intro: intact_trans)
  qed
  then show ?thesis by (simp add: safe_def)
qed

section \<open>Values\<close>

text \<open>What a variable of a receiver can hold: the limits of the parser, element by element.\<close>

fun limits :: "val \<Rightarrow> bool" where
  "limits (Lit m) \<longleftrightarrow> True"
| "limits (Str x) \<longleftrightarrow> length x \<le> MAX_STRING_SIZE"
| "limits (WStr x) \<longleftrightarrow> length x \<le> MAX_STRING_SIZE"
| "limits (CStr x) \<longleftrightarrow> True"
| "limits (Bools x) \<longleftrightarrow> length x \<le> MAX_CONTAINER_SIZE"
| "limits (Vec p xs) \<longleftrightarrow> length xs \<le> MAX_CONTAINER_SIZE \<and> limits p
     \<and> (\<forall>x \<in> set xs. shape p x \<and> limits x)"
| "limits (Lst p xs) \<longleftrightarrow> length xs \<le> MAX_CONTAINER_SIZE \<and> limits p
     \<and> (\<forall>x \<in> set xs. shape p x \<and> limits x)"
| "limits (Set p xs) \<longleftrightarrow> length xs \<le> MAX_CONTAINER_SIZE \<and> limits p
     \<and> (\<forall>x \<in> set xs. shape p x \<and> limits x)"
| "limits (Map pk pv xs) \<longleftrightarrow> length xs \<le> MAX_CONTAINER_SIZE \<and> limits pk \<and> limits pv
     \<and> (\<forall>(k, v) \<in> set xs. shape pk k \<and> limits k \<and> shape pv v \<and> limits v)"
| "limits (VecPtr fs xs) \<longleftrightarrow> length xs \<le> MAX_CONTAINER_SIZE \<and> (\<forall>f \<in> set fs. limits f)
     \<and> (\<forall>gs. Some gs \<in> set xs \<longrightarrow> list_all2 shape fs gs \<and> (\<forall>g \<in> set gs. limits g))"
| "limits (LstPtr fs xs) \<longleftrightarrow> length xs \<le> MAX_CONTAINER_SIZE \<and> (\<forall>f \<in> set fs. limits f)
     \<and> (\<forall>gs. Some gs \<in> set xs \<longrightarrow> list_all2 shape fs gs \<and> (\<forall>g \<in> set gs. limits g))"
| "limits (MapPtr pk fs xs) \<longleftrightarrow> length xs \<le> MAX_CONTAINER_SIZE \<and> limits pk \<and> (\<forall>f \<in> set fs. limits f)
     \<and> (\<forall>(k, x) \<in> set xs. shape pk k \<and> limits k)
     \<and> (\<forall>k gs. (k, Some gs) \<in> set xs \<longrightarrow> list_all2 shape fs gs \<and> (\<forall>g \<in> set gs. limits g))"
| "limits (Obj fs) \<longleftrightarrow> (\<forall>f \<in> set fs. limits f)"

definition fits_type :: "val \<Rightarrow> val \<Rightarrow> bool" where
  "fits_type v0 v \<longleftrightarrow> shape v0 v \<and> limits v"

definition fits_members :: "val list \<Rightarrow> val list \<Rightarrow> bool" where
  "fits_members fs gs \<longleftrightarrow> list_all2 shape fs gs \<and> (\<forall>g \<in> set gs. limits g)"

lemma shape_refl [simp]: "shape v v"
  by (induction v) (auto simp: list_all2_same)

lemma fits_members_refl: "\<forall>f \<in> set fs. limits f \<Longrightarrow> fits_members fs fs"
  by (simp add: fits_members_def list_all2_same)

lemma set_insert_elements: "set (set_insert lt x ys) \<subseteq> insert x (set ys)"
  and length_set_insert: "length (set_insert lt x ys) \<le> Suc (length ys)"
  by (induction ys) auto

lemma length_map_put: "length (map_put lt (k, v) ys) \<le> Suc (length ys)"
  by (induction ys) auto

lemma fold_set_insert_bound:
  "set (fold (set_insert lt) xs ys) \<subseteq> set xs \<union> set ys
   \<and> length (fold (set_insert lt) xs ys) \<le> length xs + length ys"
proof (induction xs arbitrary: ys)
  case (Cons x xs)
  show ?case
    using Cons [of "set_insert lt x ys"] set_insert_elements [of lt x ys] length_set_insert [of lt x ys]
    by auto
qed simp

lemma map_put_parts:
  "fst ` set (map_put lt (k, v) ys) \<subseteq> insert k (fst ` set ys)"
  "snd ` set (map_put lt (k, v) ys) \<subseteq> insert v (snd ` set ys)"
  by (induction ys) (force split: if_splits)+

lemma fold_map_put_bound:
  "fst ` set (fold (map_put lt) xs ys) \<subseteq> fst ` set xs \<union> fst ` set ys
   \<and> snd ` set (fold (map_put lt) xs ys) \<subseteq> snd ` set xs \<union> snd ` set ys
   \<and> length (fold (map_put lt) xs ys) \<le> length xs + length ys"
proof (induction xs arbitrary: ys)
  case (Cons x xs)
  obtain k v where x: "x = (k, v)" by fastforce
  show ?case
  proof (intro conjI)
    have parts: "fst ` set (fold (map_put lt) (x # xs) ys) \<subseteq> fst ` set xs \<union> insert k (fst ` set ys)"
      "snd ` set (fold (map_put lt) (x # xs) ys) \<subseteq> snd ` set xs \<union> insert v (snd ` set ys)"
      using Cons [of "map_put lt (k, v) ys"] map_put_parts [of lt k v ys]
      unfolding x fold.simps o_apply by blast+
    then show "fst ` set (fold (map_put lt) (x # xs) ys) \<subseteq> fst ` set (x # xs) \<union> fst ` set ys"
      "snd ` set (fold (map_put lt) (x # xs) ys) \<subseteq> snd ` set (x # xs) \<union> snd ` set ys"
      unfolding x list.set image_insert fst_conv snd_conv by blast+
    show "length (fold (map_put lt) (x # xs) ys) \<le> length (x # xs) + length ys"
      using Cons [of "map_put lt (k, v) ys"] length_map_put [of lt k v ys] by (simp add: x)
  qed
qed simp

lemma safe_pair:
  assumes "safe rdk P" and "safe rdv Q"
  shows "safe (\<lambda>s. let (k, s1) = rdk s; (v, s2) = rdv s1 in ((k, v), s2)) (\<lambda>(k, v). P k \<and> Q v)"
proof -
  have "intact s (snd (let (k, s1) = rdk s; (v, s2) = rdv s1 in ((k, v), s2)))
    \<and> (case fst (let (k, s1) = rdk s; (v, s2) = rdv s1 in ((k, v), s2)) of (k, v) \<Rightarrow> P k \<and> Q v)" for s
  proof -
    obtain k s1 where 1: "rdk s = (k, s1)" by fastforce
    obtain v s2 where 2: "rdv s1 = (v, s2)" by fastforce
    show ?thesis
      using safeD [OF assms(1) 1] safeD [OF assms(2) 2] by (auto simp: 1 2 intro: intact_trans)
  qed
  then show ?thesis by (simp add: safe_def)
qed

lemma safe_read_item:
  "safe (read_val le lt t0 p) (fits_type p) \<Longrightarrow> safe (read_item le p (read_val le lt t0 p)) (fits_type p)"
proof (cases p)
  case (Lit m)
  show ?thesis
    unfolding Lit read_item_def val.case
    by (rule safe_map [OF safe_read_literal]) (simp add: fits_type_def)
qed (simp_all add: read_item_def [abs_def])

lemma safe_read_members:
  assumes "\<And>f. f \<in> set fs \<Longrightarrow> safe (read_val le lt t0 f) (fits_type f)"
  shows "safe (read_members le lt t0 fs) (fits_members fs)"
  using assms
proof (induction fs)
  case (Cons f fs)
  have "intact s (snd (read_members le lt t0 (f # fs) s))
    \<and> fits_members (f # fs) (fst (read_members le lt t0 (f # fs) s))" for s
  proof -
    obtain f' s1 where 1: "read_val le lt t0 f s = (f', s1)" by fastforce
    obtain fs' s2 where 2: "read_members le lt t0 fs s1 = (fs', s2)" by fastforce
    have "safe (read_val le lt t0 f) (fits_type f)" "safe (read_members le lt t0 fs) (fits_members fs)"
      using Cons by simp_all
    from safeD [OF this(1) 1] safeD [OF this(2) 2] show ?thesis
      by (auto simp: 1 2 fits_type_def fits_members_def intro: intact_trans)
  qed
  then show ?case by (simp add: safe_def)
qed (simp add: safe_def fits_members_def)

text \<open>The readers of containers keep what holds of every element.\<close>

lemma safe_elements:
  assumes "safe rd P" and "list_all P c" and "length c \<le> MAX_CONTAINER_SIZE"
  shows "safe (read_vector le rd c) (\<lambda>xs. length xs \<le> MAX_CONTAINER_SIZE \<and> list_all P xs)"
    and "safe (read_list le rd c) (\<lambda>xs. length xs \<le> MAX_CONTAINER_SIZE \<and> list_all P xs)"
    and "safe (read_set le lt rd c) (\<lambda>xs. length xs \<le> MAX_CONTAINER_SIZE \<and> list_all P xs)"
proof -
  have n: "safe (read_n n rd) (\<lambda>xs. length xs \<le> MAX_CONTAINER_SIZE \<and> list_all P xs)"
    if "n \<le> MAX_CONTAINER_SIZE" for n
    by (rule safe_mono [OF safe_read_n [OF assms(1)]]) (use that in simp)
  show "safe (read_vector le rd c) (\<lambda>xs. length xs \<le> MAX_CONTAINER_SIZE \<and> list_all P xs)"
    "safe (read_list le rd c) (\<lambda>xs. length xs \<le> MAX_CONTAINER_SIZE \<and> list_all P xs)"
    unfolding read_vector_def read_list_def
    by (rule safe_read_container; use assms n in simp)+
  show "safe (read_set le lt rd c) (\<lambda>xs. length xs \<le> MAX_CONTAINER_SIZE \<and> list_all P xs)"
    unfolding read_set_def
  proof (rule safe_read_container)
    fix n assume "n \<le> MAX_CONTAINER_SIZE"
    show "safe (\<lambda>s. let (xs, s') = read_n n rd s in (fold (set_insert lt) xs [], s'))
      (\<lambda>xs. length xs \<le> MAX_CONTAINER_SIZE \<and> list_all P xs)"
    proof (rule safe_map [OF n [OF \<open>n \<le> MAX_CONTAINER_SIZE\<close>]])
      fix xs assume "length xs \<le> MAX_CONTAINER_SIZE \<and> list_all P xs"
      with fold_set_insert_bound [of lt xs "[]"]
      show "length (fold (set_insert lt) xs []) \<le> MAX_CONTAINER_SIZE
        \<and> list_all P (fold (set_insert lt) xs [])"
        by (auto simp: list_all_iff)
    qed
  qed (use assms in simp_all)
qed

lemma safe_entries:
  assumes "safe rdk P" and "safe rdv Q" and "\<forall>(k, v) \<in> set c. P k \<and> Q v" and "length c \<le> MAX_CONTAINER_SIZE"
  shows "safe (read_map le lt rdk rdv c) (\<lambda>kvs. length kvs \<le> MAX_CONTAINER_SIZE \<and> (\<forall>(k, v) \<in> set kvs. P k \<and> Q v))"
  unfolding read_map_def
proof (rule safe_read_container)
  fix n assume n: "n \<le> MAX_CONTAINER_SIZE"
  show "safe (\<lambda>s. let (kvs, s') = read_n n (\<lambda>s. let (k, s1) = rdk s; (v, s2) = rdv s1 in ((k, v), s2)) s
        in (fold (map_put lt) kvs [], s'))
      (\<lambda>kvs. length kvs \<le> MAX_CONTAINER_SIZE \<and> (\<forall>(k, v) \<in> set kvs. P k \<and> Q v))"
  proof (rule safe_map [OF safe_read_n [OF safe_pair [OF assms(1,2)]]])
    fix kvs assume "length kvs = n \<and> list_all (\<lambda>(k, v). P k \<and> Q v) kvs"
    moreover then have "\<forall>k \<in> fst ` set kvs. P k" "\<forall>v \<in> snd ` set kvs. Q v"
      by (auto simp: list_all_iff)
    ultimately show "length (fold (map_put lt) kvs []) \<le> MAX_CONTAINER_SIZE
      \<and> (\<forall>(k, v) \<in> set (fold (map_put lt) kvs []). P k \<and> Q v)"
      using fold_map_put_bound [of lt kvs "[]"] n by force
  qed
qed (use assms in simp_all)

lemma read_vector_ptr_eq:
  "read_vector_ptr le body t0 = read_vector le (read_pointer le body t0 0)"
  "read_list_ptr le body t0 = read_list le (read_pointer le body t0 0)"
  "read_map_ptr le lt rdk body t0 flag0 = read_map le lt rdk (read_pointer le body t0 flag0)"
  by (simp_all add: read_vector_ptr_def read_vector_def read_list_ptr_def read_list_def
      read_map_ptr_def read_map_def)

lemma safe_read_pointee:
  assumes "\<And>f. f \<in> set fs \<Longrightarrow> safe (read_val le lt t0 f) (fits_type f)" and "\<forall>f \<in> set fs. limits f"
  shows "safe (read_pointer le (\<lambda>_. read_members le lt t0 fs) fs flag0)
    (\<lambda>x. \<forall>gs. x = Some gs \<longrightarrow> fits_members fs gs)"
  by (rule safe_read_pointer) (use assms in \<open>simp_all add: safe_read_members fits_members_refl\<close>)

lemma safe_read_val: "limits v0 \<Longrightarrow> safe (read_val le lt t0 v0) (fits_type v0)"
proof (induction v0)
  case (Lit m)
  show ?case
    unfolding read_val.simps by (rule safe_map [OF safe_read_literal]) (simp add: fits_type_def)
next
  case (Str x)
  then show ?case
    unfolding read_val.simps by (intro safe_map [OF safe_read_string]) (simp_all add: fits_type_def)
next
  case (WStr x)
  then show ?case
    unfolding read_val.simps by (intro safe_map [OF safe_read_wstring]) (simp_all add: fits_type_def)
next
  case (CStr x)
  show ?case
    unfolding read_val.simps by (intro safe_map [OF safe_read_cstring]) (simp add: fits_type_def)
next
  case (Bools x)
  have "safe (\<lambda>s. let (m, s1) = read_literal le True [t0] s in (m \<noteq> [0], s1)) (\<lambda>_. True)"
    by (rule safe_map [OF safe_read_literal]) simp
  then have "safe (read_vector_bool le t0 x) (\<lambda>xs. length xs \<le> MAX_CONTAINER_SIZE)"
    unfolding read_vector_bool_def
    by (intro safe_read_container safe_mono [OF safe_read_n]) (use Bools in auto)
  then show ?case
    unfolding read_val.simps by (rule safe_map) (simp add: fits_type_def)
next
  case (Vec p xs)
  then have "safe (read_item le p (read_val le lt t0 p)) (fits_type p)" "list_all (fits_type p) xs"
    by (simp_all add: safe_read_item) (auto simp: list_all_iff fits_type_def)
  note safe_map [OF safe_elements(1) [OF this]]
  then show ?case
    unfolding read_val.simps
    by this (use Vec.prems in \<open>auto simp: list_all_iff fits_type_def\<close>)
next
  case (Lst p xs)
  then have "safe (read_item le p (read_val le lt t0 p)) (fits_type p)" "list_all (fits_type p) xs"
    by (simp_all add: safe_read_item) (auto simp: list_all_iff fits_type_def)
  note safe_map [OF safe_elements(2) [OF this]]
  then show ?case
    unfolding read_val.simps
    by this (use Lst.prems in \<open>auto simp: list_all_iff fits_type_def\<close>)
next
  case (Set p xs)
  then have "safe (read_item le p (read_val le lt t0 p)) (fits_type p)" "list_all (fits_type p) xs"
    by (simp_all add: safe_read_item) (auto simp: list_all_iff fits_type_def)
  note safe_map [OF safe_elements(3) [OF this]]
  then show ?case
    unfolding read_val.simps
    by this (use Set.prems in \<open>auto simp: list_all_iff fits_type_def\<close>)
next
  case (Map pk pv xs)
  then have "safe (read_item le pk (read_val le lt t0 pk)) (fits_type pk)"
    "safe (read_item le pv (read_val le lt t0 pv)) (fits_type pv)"
    "\<forall>(k, v) \<in> set xs. fits_type pk k \<and> fits_type pv v"
    by (simp_all add: safe_read_item) (auto simp: fits_type_def)
  note safe_map [OF safe_entries [OF this]]
  then show ?case
    unfolding read_val.simps
    by this (use Map.prems in \<open>auto simp: fits_type_def\<close>)
next
  case (VecPtr fs xs)
  then have "safe (read_pointer le (\<lambda>_. read_members le lt t0 fs) fs 0)
      (\<lambda>x. \<forall>gs. x = Some gs \<longrightarrow> fits_members fs gs)"
    "list_all (\<lambda>x. \<forall>gs. x = Some gs \<longrightarrow> fits_members fs gs) xs"
    by (simp_all add: safe_read_pointee) (auto simp: list_all_iff fits_members_def)
  note safe_map [OF safe_elements(1) [OF this]]
  then show ?case
    unfolding read_val.simps read_vector_ptr_eq
    by this (use VecPtr.prems in \<open>auto simp: list_all_iff fits_type_def fits_members_def\<close>)
next
  case (LstPtr fs xs)
  then have "safe (read_pointer le (\<lambda>_. read_members le lt t0 fs) fs 0)
      (\<lambda>x. \<forall>gs. x = Some gs \<longrightarrow> fits_members fs gs)"
    "list_all (\<lambda>x. \<forall>gs. x = Some gs \<longrightarrow> fits_members fs gs) xs"
    by (simp_all add: safe_read_pointee) (auto simp: list_all_iff fits_members_def)
  note safe_map [OF safe_elements(2) [OF this]]
  then show ?case
    unfolding read_val.simps read_vector_ptr_eq
    by this (use LstPtr.prems in \<open>auto simp: list_all_iff fits_type_def fits_members_def\<close>)
next
  case (MapPtr pk fs xs)
  then have "safe (read_item le pk (read_val le lt t0 pk)) (fits_type pk)"
    "safe (read_pointer le (\<lambda>_. read_members le lt t0 fs) fs t0)
      (\<lambda>x. \<forall>gs. x = Some gs \<longrightarrow> fits_members fs gs)"
    "\<forall>(k, x) \<in> set xs. fits_type pk k \<and> (\<forall>gs. x = Some gs \<longrightarrow> fits_members fs gs)"
    by (simp_all add: safe_read_pointee safe_read_item) (auto simp: fits_type_def fits_members_def)
  note safe_map [OF safe_entries [OF this]]
  then show ?case
    unfolding read_val.simps read_vector_ptr_eq
    by this (use MapPtr.prems in \<open>auto simp: fits_type_def fits_members_def\<close>)
next
  case (Obj fs)
  then have "safe (read_class le (\<lambda>_. read_members le lt t0 fs) fs) (fits_members fs)"
    by (intro safe_read_class) (simp_all add: safe_read_members fits_members_refl)
  then show ?case
    unfolding read_val.simps by (rule safe_map) (simp add: fits_type_def fits_members_def)
qed

section \<open>Properties\<close>

text \<open>
  C35: whatever bytes arrive, reading into a variable of any type keeps its type and the
  parser's limits (no array is overrun, no string or container grows past its bound), leaves
  the nesting stack as it was, so the hard fault of \<^verbatim>\<open>pop_stop_parse_pos\<close> is not reached,
  moves only forward and inside the buffer, and does not clear \<^verbatim>\<open>failbit\<close>.
\<close>

theorem untrusted_input_safe:
  assumes "limits v0" and "rpos s \<le> length (inbuf s)" and "read_val le lt t0 v0 s = (v, s')"
  shows "shape v0 v \<and> limits v \<and> stops s' = stops s \<and> faulted s' = faulted s
    \<and> inbuf s' = inbuf s \<and> rpos s \<le> rpos s' \<and> rpos s' \<le> length (inbuf s)
    \<and> (failbit s \<longrightarrow> failbit s')"
  using safeD [OF safe_read_val [OF assms(1)] assms(3)] assms(2)
  by (auto simp: intact_def fits_type_def)

lemma untrusted_input_safe_witness:
  "limits (Obj [Str [], Lit [0]]) \<and> (\<exists>v s'.
     read_val True (\<lambda>_ _. False) 0 (Obj [Str [], Lit [0]])
       \<lparr>inbuf = [31, 255, 255, 8], rpos = 0, eofbit = False, failbit = False, seekable = True,
        stops = [], lastError = NONE, faulted = False\<rparr> = (v, s')
     \<and> shape (Obj [Str [], Lit [0]]) v \<and> \<not> faulted s')"
proof -
  let ?s = "\<lparr>inbuf = [31, 255, 255, 8], rpos = 0, eofbit = False, failbit = False, seekable = True,
        stops = [], lastError = NONE, faulted = False\<rparr>"
  obtain v s' where r: "read_val True (\<lambda>_ _. False) 0 (Obj [Str [], Lit [0]]) ?s = (v, s')"
    by fastforce
  have l: "limits (Obj [Str [], Lit [0]])" by simp
  from untrusted_input_safe [OF l _ r] r l show ?thesis by auto
qed

end
