(* ===== verification/LaneQueue.thy ===== *)
theory LaneQueue
  imports Prelude "HOL-Library.Sublist"
begin

text \<open>
  The message queue of a worker thread. \<^verbatim>\<open>delegate/DelegateMsg.h\<close> states the contract every
  thread port has to uphold: a HIGH message goes ahead of every waiting NORMAL message, and
  messages of one priority keep their order. That contract is the locale \<open>lane_queue\<close>; the
  two deques of \<^verbatim>\<open>port/os/stdlib/StdlibThread.cpp\<close> are interpreted as an instance of it.
\<close>

section \<open>Messages\<close>

datatype Priority = NORMAL | HIGH

datatype 'a DelegateMsg = DelegateMsg (payload: 'a) (msg_priority: Priority)

text \<open>\<^verbatim>\<open>ThreadMsg\<close>: \<^verbatim>\<open>MSG_DISPATCH_DELEGATE\<close> with its data, or \<^verbatim>\<open>MSG_EXIT_THREAD\<close>, which has
  none and counts as NORMAL.\<close>

datatype 'a ThreadMsg = MSG_DISPATCH_DELEGATE "'a DelegateMsg" | MSG_EXIT_THREAD

fun GetPriority :: "'a ThreadMsg \<Rightarrow> Priority" where
  "GetPriority (MSG_DISPATCH_DELEGATE m) = msg_priority m"
| "GetPriority MSG_EXIT_THREAD = NORMAL"

text \<open>The delegate messages among queued thread messages, and \<^verbatim>\<open>CancelAll\<close>: the messages whose
  senders are released.\<close>

fun delegates :: "'a ThreadMsg list \<Rightarrow> 'a DelegateMsg list" where
  "delegates [] = []"
| "delegates (MSG_DISPATCH_DELEGATE m # xs) = m # delegates xs"
| "delegates (MSG_EXIT_THREAD # xs) = delegates xs"

definition CancelAll :: "'a ThreadMsg list \<Rightarrow> 'a DelegateMsg list" where
  "CancelAll queue = delegates queue"

lemma delegates_append [simp]: "delegates (xs @ ys) = delegates xs @ delegates ys"
  by (induction xs rule: delegates.induct) auto

section \<open>The contract\<close>

locale lane_queue =
  fixes emp :: 'q
    and enq :: "'m \<Rightarrow> 'q \<Rightarrow> 'q"
    and deq :: "'q \<Rightarrow> ('m \<times> 'q) option"
    and lane :: "Priority \<Rightarrow> 'q \<Rightarrow> 'm list"
    and prio :: "'m \<Rightarrow> Priority"
  assumes lane_emp: "lane p emp = []"
    and lane_enq: "lane p (enq m q) = lane p q @ (if prio m = p then [m] else [])"
    and deq_none: "deq q = None \<longleftrightarrow> lane HIGH q = [] \<and> lane NORMAL q = []"
    and deq_high: "lane HIGH q = m # ms \<Longrightarrow>
      \<exists>q'. deq q = Some (m, q') \<and> lane HIGH q' = ms \<and> lane NORMAL q' = lane NORMAL q"
    and deq_normal: "lane HIGH q = [] \<Longrightarrow> lane NORMAL q = m # ms \<Longrightarrow>
      \<exists>q'. deq q = Some (m, q') \<and> lane HIGH q' = [] \<and> lane NORMAL q' = ms"
begin

definition waiting :: "'q \<Rightarrow> 'm list" where
  "waiting q = lane HIGH q @ lane NORMAL q"

lemma waiting_emp [simp]: "waiting emp = []"
  by (simp add: waiting_def lane_emp)

lemma length_enq: "length (waiting (enq m q)) = Suc (length (waiting q))"
  by (cases "prio m") (simp_all add: waiting_def lane_enq)

lemma set_enq: "set (waiting (enq m q)) = insert m (set (waiting q))"
  by (cases "prio m") (auto simp: waiting_def lane_enq)

text \<open>The queue hands its messages out in the order of \<open>waiting\<close>.\<close>

lemma deq_waiting:
  "deq q = (case waiting q of [] \<Rightarrow> None | m # ms \<Rightarrow> Some (m, snd (the (deq q))))
   \<and> (\<forall>m ms. waiting q = m # ms \<longrightarrow> waiting (snd (the (deq q))) = ms)"
proof (cases "lane HIGH q")
  case (Cons m ms)
  then show ?thesis using deq_high [OF Cons] by (auto simp: waiting_def)
next
  case Nil
  show ?thesis
  proof (cases "lane NORMAL q")
    case Nil
    with \<open>lane HIGH q = []\<close> show ?thesis using deq_none [of q] by (simp add: waiting_def)
  next
    case (Cons m ms)
    with deq_normal [OF Nil Cons] Nil show ?thesis by (auto simp: waiting_def)
  qed
qed

lemma deq_some: "deq q = Some (m, q') \<longleftrightarrow> waiting q = m # waiting q' \<and> q' = snd (the (deq q))"
  using deq_waiting [of q] by (auto split: list.splits)

lemma deq_None: "deq q = None \<longleftrightarrow> waiting q = []"
  using deq_none [of q] by (simp add: waiting_def)

text \<open>A NORMAL message is handed out only when no HIGH message waits.\<close>

lemma high_first:
  assumes "deq q = Some (m, q')" and "\<And>x. x \<in> set (lane HIGH q) \<Longrightarrow> prio x = HIGH" and "prio m = NORMAL"
  shows "lane HIGH q = []"
proof (cases "lane HIGH q")
  case (Cons x xs)
  then show ?thesis using deq_high [OF Cons] assms by fastforce
qed

lemma deq_lane:
  assumes "deq q = Some (m, q')" and "\<And>p x. x \<in> set (lane p q) \<Longrightarrow> prio x = p"
  shows "lane p q = (if prio m = p then [m] else []) @ lane p q'"
proof (cases "lane HIGH q")
  case (Cons x xs)
  then have "m = x" "lane HIGH q' = xs" "lane NORMAL q' = lane NORMAL q"
    using deq_high [OF Cons] assms(1) by auto
  moreover have "prio x = HIGH" using assms(2) [of x HIGH] Cons by simp
  ultimately show ?thesis using Cons by (cases p) auto
next
  case Nil
  then obtain x xs where x: "lane NORMAL q = x # xs"
    using assms(1) deq_none [of q] by (cases "lane NORMAL q") auto
  then have "m = x" "lane HIGH q' = []" "lane NORMAL q' = xs"
    using deq_normal [OF Nil x] assms(1) by auto
  moreover have "prio x = NORMAL" using assms(2) [of x NORMAL] x by simp
  ultimately show ?thesis using Nil x by (cases p) auto
qed

end

section \<open>Two deques\<close>

record 'a lanes =
  m_highQueue :: "'a ThreadMsg list"
  m_normalQueue :: "'a ThreadMsg list"

definition no_messages :: "'a lanes" where
  "no_messages = \<lparr>m_highQueue = [], m_normalQueue = []\<rparr>"

definition push_back :: "'a ThreadMsg \<Rightarrow> 'a lanes \<Rightarrow> 'a lanes" where
  "push_back m q =
     (if GetPriority m = HIGH then q\<lparr>m_highQueue := m_highQueue q @ [m]\<rparr>
      else q\<lparr>m_normalQueue := m_normalQueue q @ [m]\<rparr>)"

definition pop_front :: "'a lanes \<Rightarrow> ('a ThreadMsg \<times> 'a lanes) option" where
  "pop_front q =
     (case m_highQueue q of
        m # ms \<Rightarrow> Some (m, q\<lparr>m_highQueue := ms\<rparr>)
      | [] \<Rightarrow> (case m_normalQueue q of
                [] \<Rightarrow> None | m # ms \<Rightarrow> Some (m, q\<lparr>m_normalQueue := ms\<rparr>)))"

definition lane_of :: "Priority \<Rightarrow> 'a lanes \<Rightarrow> 'a ThreadMsg list" where
  "lane_of p q = (case p of HIGH \<Rightarrow> m_highQueue q | NORMAL \<Rightarrow> m_normalQueue q)"

definition queue_size :: "'a lanes \<Rightarrow> nat" where
  "queue_size q = length (m_highQueue q) + length (m_normalQueue q)"

lemma priority_cases: "p \<noteq> HIGH \<longleftrightarrow> p = NORMAL"
  by (cases p) auto

interpretation tq: lane_queue no_messages push_back pop_front lane_of GetPriority
proof
  show "lane_of p (push_back m q) = lane_of p q @ (if GetPriority m = p then [m] else [])" for p m and q :: "'a lanes"
    by (cases p; cases "GetPriority m") (simp_all add: lane_of_def push_back_def)
qed (auto simp: lane_of_def no_messages_def pop_front_def split: list.splits Priority.splits)

lemma waiting_eq: "tq.waiting q = m_highQueue q @ m_normalQueue q"
  by (simp add: tq.waiting_def lane_of_def)

lemma size_waiting: "queue_size q = length (tq.waiting q)"
  by (simp add: waiting_eq queue_size_def)

end
