(* ===== verification/WorkerThread.thy ===== *)
theory WorkerThread
  imports LaneQueue "HOL-Library.Multiset"
begin

text \<open>
  \<^verbatim>\<open>port/os/stdlib/StdlibThread.cpp\<close>: a worker thread that invokes the delegate messages
  dispatched to it. Each critical section of the code (what happens under \<^verbatim>\<open>m_mutex\<close>) is one
  function on the state; \<open>thread_step\<close> interleaves those of any number of dispatching threads,
  of the thread that calls \<^verbatim>\<open>ExitThread\<close> and of the worker itself.

  \<open>entered\<close> are the \<^verbatim>\<open>DispatchDelegate\<close> calls between their unlocked early check and the
  mutex, \<open>blocked\<close> those in \<^verbatim>\<open>m_cvNotFull.wait_for\<close>; \<open>joining\<close> holds while \<^verbatim>\<open>ExitThread\<close> is
  between its two critical sections. \<open>accepted\<close>, \<open>invoked\<close>, \<open>cancelled\<close> and \<open>dropped\<close> record
  what has happened: the messages \<^verbatim>\<open>DispatchDelegate\<close> returned true for, those whose invoker
  was called, those released by \<^verbatim>\<open>Cancel\<close>, and the depths given to the dropped handler.
\<close>

section \<open>State\<close>

datatype FullPolicy = DROP | FAULT | TIMEOUT
datatype ExitPolicy = DRAIN | DISCARD

text \<open>Where \<^verbatim>\<open>Process\<close> stands: not running, at the top of its loop, or inside
  \<^verbatim>\<open>invoker->Invoke\<close>.\<close>

datatype 'a process_pc = Returned | Waiting | Invoking "'a DelegateMsg"

record 'a thread_state =
  m_thread :: bool
  m_exit :: bool
  queue :: "'a lanes"
  MAX_QUEUE_SIZE :: nat
  FULL_POLICY :: FullPolicy
  process :: "'a process_pc"
  selfExit :: bool
  joining :: bool
  entered :: "'a DelegateMsg list"
  blocked :: "'a DelegateMsg list"
  accepted :: "'a DelegateMsg list"
  invoked :: "'a DelegateMsg list"
  cancelled :: "'a DelegateMsg list"
  dropped :: "nat list"
  faulted :: bool

definition THREAD_DESKTOP_QUEUE_SIZE :: nat where
  "THREAD_DESKTOP_QUEUE_SIZE = 1000"

definition StdlibThread :: "nat \<Rightarrow> FullPolicy \<Rightarrow> 'a thread_state" where
  "StdlibThread maxQueueSize fullPolicy =
     \<lparr>m_thread = False, m_exit = False, queue = no_messages,
      MAX_QUEUE_SIZE = (if maxQueueSize = 0 then THREAD_DESKTOP_QUEUE_SIZE else maxQueueSize),
      FULL_POLICY = fullPolicy, process = Returned, selfExit = False, joining = False,
      entered = [], blocked = [], accepted = [], invoked = [], cancelled = [], dropped = [],
      faulted = False\<rparr>"

definition CreateThread :: "'a thread_state \<Rightarrow> 'a thread_state" where
  "CreateThread s =
     (if m_thread s then s
      else s\<lparr>m_exit := False, m_thread := True, process := Waiting, selfExit := False\<rparr>)"

definition GetQueueSize :: "'a thread_state \<Rightarrow> nat" where
  "GetQueueSize s = queue_size (queue s)"

section \<open>DispatchDelegate\<close>

text \<open>The outcome of a call so far: it returned true or false, threw \<^verbatim>\<open>invalid_argument\<close>, or
  has not returned yet.\<close>

datatype dispatch_result = Accepted | Refused | Invalid_argument | Pending

definition dispatch_enter :: "'a DelegateMsg \<Rightarrow> 'a thread_state \<Rightarrow> dispatch_result \<times> 'a thread_state" where
  "dispatch_enter m s =
     (if m_exit s then (Refused, s)
      else if \<not> m_thread s then (Invalid_argument, s)
      else (Pending, s\<lparr>entered := m # entered s\<rparr>))"

definition queue_full :: "'a thread_state \<Rightarrow> bool" where
  "queue_full s \<longleftrightarrow> 0 < MAX_QUEUE_SIZE s \<and> MAX_QUEUE_SIZE s \<le> GetQueueSize s"

text \<open>The end of the function, after the full-queue handling.\<close>

definition dispatch_push :: "'a DelegateMsg \<Rightarrow> 'a thread_state \<Rightarrow> dispatch_result \<times> 'a thread_state" where
  "dispatch_push m s =
     (if m_exit s then (Refused, s)
      else (Accepted, s\<lparr>queue := push_back (MSG_DISPATCH_DELEGATE m) (queue s),
                       accepted := accepted s @ [m]\<rparr>))"

definition drop_message :: "'a thread_state \<Rightarrow> dispatch_result \<times> 'a thread_state" where
  "drop_message s = (Refused, s\<lparr>dropped := dropped s @ [GetQueueSize s]\<rparr>)"

definition dispatch_locked :: "'a DelegateMsg \<Rightarrow> 'a thread_state \<Rightarrow> dispatch_result \<times> 'a thread_state" where
  "dispatch_locked m s =
     (let s1 = s\<lparr>entered := remove1 m (entered s)\<rparr> in
      if queue_full s1 then
        (case FULL_POLICY s1 of
           DROP \<Rightarrow> drop_message s1
         | FAULT \<Rightarrow> (Refused, s1\<lparr>faulted := True\<rparr>)
         | TIMEOUT \<Rightarrow>
             if m_exit s1 then dispatch_push m s1
             else (Pending, s1\<lparr>blocked := m # blocked s1\<rparr>))
      else dispatch_push m s1)"

text \<open>Leaving \<^verbatim>\<open>wait_for\<close>: with its predicate true, or when the time is up.\<close>

definition has_space :: "'a thread_state \<Rightarrow> bool" where
  "has_space s \<longleftrightarrow> GetQueueSize s < MAX_QUEUE_SIZE s \<or> m_exit s"

definition dispatch_woken :: "'a DelegateMsg \<Rightarrow> 'a thread_state \<Rightarrow> dispatch_result \<times> 'a thread_state" where
  "dispatch_woken m s = dispatch_push m (s\<lparr>blocked := remove1 m (blocked s)\<rparr>)"

definition dispatch_timed_out :: "'a DelegateMsg \<Rightarrow> 'a thread_state \<Rightarrow> dispatch_result \<times> 'a thread_state" where
  "dispatch_timed_out m s = drop_message (s\<lparr>blocked := remove1 m (blocked s)\<rparr>)"

section \<open>ExitThread\<close>

text \<open>The first critical section with the cancellation of what it took off the queues, and the
  last one. Called on the thread itself the function detaches instead of joining and sets
  \<^verbatim>\<open>selfExit\<close> through \<^verbatim>\<open>t_self_exit\<close>.\<close>

definition cancel_queue :: "'a thread_state \<Rightarrow> 'a thread_state" where
  "cancel_queue s =
     s\<lparr>queue := no_messages,
       cancelled := cancelled s @ CancelAll (m_highQueue (queue s)) @ CancelAll (m_normalQueue (queue s))\<rparr>"

definition ExitThread_begin :: "ExitPolicy \<Rightarrow> 'a thread_state \<Rightarrow> 'a thread_state" where
  "ExitThread_begin policy s =
     (if \<not> m_thread s then s
      else let s1 = (if policy = DISCARD then cancel_queue s else s) in
           s1\<lparr>m_exit := True, queue := push_back MSG_EXIT_THREAD (queue s1), joining := True\<rparr>)"

definition ExitThread_self :: "ExitPolicy \<Rightarrow> 'a thread_state \<Rightarrow> 'a thread_state" where
  "ExitThread_self policy s = (ExitThread_begin policy s)\<lparr>selfExit := True\<rparr>"

definition ExitThread_finish :: "'a thread_state \<Rightarrow> 'a thread_state" where
  "ExitThread_finish s = (cancel_queue s)\<lparr>m_thread := False, joining := False\<rparr>"

section \<open>Process\<close>

text \<open>One pass of the loop up to the invocation, and its rest once \<^verbatim>\<open>Invoke\<close> has returned
  \<open>success\<close>. A pass that finds nothing to do (a wake-up of \<^verbatim>\<open>wait_for\<close>, an idle handler) leaves
  the state alone.\<close>

definition process_take :: "'a thread_state \<Rightarrow> 'a thread_state" where
  "process_take s =
     (case pop_front (queue s) of
        None \<Rightarrow> if m_exit s then s\<lparr>process := Returned\<rparr> else s
      | Some (MSG_DISPATCH_DELEGATE m, q) \<Rightarrow>
          s\<lparr>queue := q, process := Invoking m, invoked := invoked s @ [m]\<rparr>
      | Some (MSG_EXIT_THREAD, q) \<Rightarrow> s\<lparr>queue := q, process := Returned\<rparr>)"

definition process_done :: "bool \<Rightarrow> 'a thread_state \<Rightarrow> 'a thread_state" where
  "process_done success s =
     (if selfExit s then s\<lparr>process := Returned\<rparr>
      else if \<not> success then s\<lparr>faulted := True\<rparr>
      else s\<lparr>process := Waiting\<rparr>)"

section \<open>Interleaving\<close>

text \<open>
  Two limits of use are assumed, as the class does: \<^verbatim>\<open>ExitThread\<close> is not called by two threads
  at once, and a thread that exited itself has left \<^verbatim>\<open>Process\<close> before \<^verbatim>\<open>CreateThread\<close> is called
  again.
\<close>

inductive thread_step :: "'a thread_state \<Rightarrow> 'a thread_state \<Rightarrow> bool" where
  create: "\<not> faulted s \<Longrightarrow> process s = Returned \<Longrightarrow> \<not> joining s \<Longrightarrow> thread_step s (CreateThread s)"
| enter: "\<not> faulted s \<Longrightarrow> thread_step s (snd (dispatch_enter m s))"
| locked: "\<not> faulted s \<Longrightarrow> m \<in> set (entered s) \<Longrightarrow> thread_step s (snd (dispatch_locked m s))"
| woken: "\<not> faulted s \<Longrightarrow> m \<in> set (blocked s) \<Longrightarrow> has_space s \<Longrightarrow> thread_step s (snd (dispatch_woken m s))"
| timed_out: "\<not> faulted s \<Longrightarrow> m \<in> set (blocked s) \<Longrightarrow> \<not> has_space s \<Longrightarrow>
    thread_step s (snd (dispatch_timed_out m s))"
| exit_begin: "\<not> faulted s \<Longrightarrow> \<not> joining s \<Longrightarrow> thread_step s (ExitThread_begin policy s)"
| exit_self: "\<not> faulted s \<Longrightarrow> \<not> joining s \<Longrightarrow> m_thread s \<Longrightarrow> process s = Invoking m \<Longrightarrow>
    thread_step s (ExitThread_self policy s)"
| exit_finish: "\<not> faulted s \<Longrightarrow> joining s \<Longrightarrow> selfExit s \<or> process s = Returned \<Longrightarrow>
    thread_step s (ExitThread_finish s)"
| take: "\<not> faulted s \<Longrightarrow> process s = Waiting \<Longrightarrow> thread_step s (process_take s)"
| invoke_returned: "\<not> faulted s \<Longrightarrow> process s = Invoking m \<Longrightarrow> selfExit s \<longrightarrow> \<not> joining s \<Longrightarrow>
    thread_step s (process_done success s)"

inductive reachable :: "'a thread_state \<Rightarrow> bool" where
  start: "reachable (StdlibThread maxQueueSize fullPolicy)"
| step: "reachable s \<Longrightarrow> thread_step s s' \<Longrightarrow> reachable s'"

lemmas thread_defs = CreateThread_def dispatch_enter_def dispatch_locked_def dispatch_push_def
  drop_message_def dispatch_woken_def dispatch_timed_out_def ExitThread_begin_def
  ExitThread_self_def ExitThread_finish_def cancel_queue_def process_take_def process_done_def

section \<open>Invariant\<close>

definition of_priority :: "Priority \<Rightarrow> 'a DelegateMsg list \<Rightarrow> 'a DelegateMsg list" where
  "of_priority p = filter (\<lambda>m. msg_priority m = p)"

definition queued :: "'a thread_state \<Rightarrow> 'a DelegateMsg list" where
  "queued s = delegates (tq.waiting (queue s))"

definition lanes_ok :: "'a lanes \<Rightarrow> bool" where
  "lanes_ok q \<longleftrightarrow> (\<forall>p. \<forall>x \<in> set (lane_of p q). GetPriority x = p)"

text \<open>The exit message, if there is one, is the last of the NORMAL lane.\<close>

definition exit_last :: "'a lanes \<Rightarrow> bool" where
  "exit_last q \<longleftrightarrow> MSG_EXIT_THREAD \<notin> set (butlast (m_normalQueue q))"

definition shape_inv :: "'a thread_state \<Rightarrow> bool" where
  "shape_inv s \<longleftrightarrow> lanes_ok (queue s) \<and> exit_last (queue s)
     \<and> (MSG_EXIT_THREAD \<in> set (m_normalQueue (queue s)) \<longrightarrow> m_exit s)"

definition size_inv :: "'a thread_state \<Rightarrow> bool" where
  "size_inv s \<longleftrightarrow> 0 < MAX_QUEUE_SIZE s \<and> length (queued s) \<le> MAX_QUEUE_SIZE s
     \<and> queue_size (queue s) \<le> MAX_QUEUE_SIZE s + (if m_exit s then 1 else 0)"

definition history_inv :: "'a thread_state \<Rightarrow> bool" where
  "history_inv s \<longleftrightarrow>
     (\<forall>p. subseq (of_priority p (invoked s) @ of_priority p (queued s)) (of_priority p (accepted s)))
     \<and> mset (accepted s) = mset (invoked s) + mset (cancelled s) + mset (queued s)"

text \<open>The three phases of the object: not running, running, and between the critical sections
  of \<^verbatim>\<open>ExitThread\<close>.\<close>

definition control_inv :: "'a thread_state \<Rightarrow> bool" where
  "control_inv s \<longleftrightarrow>
     \<not> m_thread s \<and> \<not> joining s \<and> tq.waiting (queue s) = [] \<and> (m_exit s \<or> entered s = [] \<and> blocked s = [])
     \<or> m_thread s \<and> \<not> m_exit s \<and> \<not> joining s \<and> \<not> selfExit s \<and> process s \<noteq> Returned
     \<or> m_thread s \<and> m_exit s \<and> joining s \<and> (process s = Returned \<longrightarrow> tq.waiting (queue s) = [])"

definition thread_inv :: "'a thread_state \<Rightarrow> bool" where
  "thread_inv s \<longleftrightarrow> shape_inv s \<and> size_inv s \<and> history_inv s \<and> control_inv s"

lemmas inv_parts = shape_inv_def size_inv_def history_inv_def control_inv_def queued_def

lemma inv_frame [frame]:
  "shape_inv (s\<lparr>dropped := d\<rparr>) = shape_inv s" "size_inv (s\<lparr>dropped := d\<rparr>) = size_inv s"
  "history_inv (s\<lparr>dropped := d\<rparr>) = history_inv s"
  "shape_inv (s\<lparr>faulted := f\<rparr>) = shape_inv s" "size_inv (s\<lparr>faulted := f\<rparr>) = size_inv s"
  "history_inv (s\<lparr>faulted := f\<rparr>) = history_inv s"
  "shape_inv (s\<lparr>entered := es\<rparr>) = shape_inv s" "size_inv (s\<lparr>entered := es\<rparr>) = size_inv s"
  "history_inv (s\<lparr>entered := es\<rparr>) = history_inv s"
  "shape_inv (s\<lparr>blocked := es\<rparr>) = shape_inv s" "size_inv (s\<lparr>blocked := es\<rparr>) = size_inv s"
  "history_inv (s\<lparr>blocked := es\<rparr>) = history_inv s"
  "shape_inv (s\<lparr>selfExit := b\<rparr>) = shape_inv s" "size_inv (s\<lparr>selfExit := b\<rparr>) = size_inv s"
  "history_inv (s\<lparr>selfExit := b\<rparr>) = history_inv s"
  "shape_inv (s\<lparr>process := pc\<rparr>) = shape_inv s" "size_inv (s\<lparr>process := pc\<rparr>) = size_inv s"
  "history_inv (s\<lparr>process := pc\<rparr>) = history_inv s"
  "shape_inv (s\<lparr>m_thread := b, joining := c\<rparr>) = shape_inv s"
  "size_inv (s\<lparr>m_thread := b, joining := c\<rparr>) = size_inv s"
  "history_inv (s\<lparr>m_thread := b, joining := c\<rparr>) = history_inv s"
  by (simp_all add: inv_parts)

lemma MSG_EXIT_NORMAL: "lanes_ok q \<Longrightarrow> MSG_EXIT_THREAD \<in> set (tq.waiting q) \<longleftrightarrow> MSG_EXIT_THREAD \<in> set (m_normalQueue q)"
  by (fastforce simp: lanes_ok_def waiting_eq lane_of_def split: Priority.splits)

lemma push_lanes_ok:
  assumes "lanes_ok q"
  shows "lanes_ok (push_back x q)"
proof -
  have "GetPriority y = p" if y: "y \<in> set (lane_of p (push_back x q))" for p y
  proof (cases "GetPriority x = p")
    case True
    then have "y = x \<or> y \<in> set (lane_of p q)" using y tq.lane_enq [of p x q] by simp
    then show ?thesis
    proof
      assume "y = x"
      with True show ?thesis by simp
    next
      assume "y \<in> set (lane_of p q)"
      then show ?thesis using assms unfolding lanes_ok_def by blast
    qed
  next
    case False
    then have "y \<in> set (lane_of p q)" using y tq.lane_enq [of p x q] by simp
    then show ?thesis using assms unfolding lanes_ok_def by blast
  qed
  then show ?thesis unfolding lanes_ok_def by blast
qed

lemma push_facts:
  "exit_last q \<Longrightarrow> MSG_EXIT_THREAD \<notin> set (m_normalQueue q) \<Longrightarrow> exit_last (push_back x q)"
  "x \<noteq> MSG_EXIT_THREAD \<Longrightarrow>
    MSG_EXIT_THREAD \<in> set (m_normalQueue (push_back x q)) \<longleftrightarrow> MSG_EXIT_THREAD \<in> set (m_normalQueue q)"
  "queue_size (push_back x q) = Suc (queue_size q)"
  "tq.waiting (push_back x q) \<noteq> []"
  by (auto simp: exit_last_def push_back_def queue_size_def waiting_eq butlast_append)

lemma of_priority_append [simp]: "of_priority p (xs @ ys) = of_priority p xs @ of_priority p ys"
  by (simp add: of_priority_def)

lemma of_priority_lanes:
  assumes "lanes_ok q"
  shows "of_priority p (delegates (tq.waiting q)) = delegates (lane_of p q)"
proof -
  have all: "of_priority p (delegates xs) = (if p = p' then delegates xs else [])"
    if "\<forall>x \<in> set xs. GetPriority x = p'" for xs :: "'a ThreadMsg list" and p'
    using that by (induction xs rule: delegates.induct) (auto simp: of_priority_def)
  have "\<forall>x \<in> set (m_highQueue q). GetPriority x = HIGH" "\<forall>x \<in> set (m_normalQueue q). GetPriority x = NORMAL"
    using assms by (auto simp: lanes_ok_def lane_of_def split: Priority.splits)
  from all [OF this(1)] all [OF this(2)] show ?thesis
    by (cases p) (simp_all add: waiting_eq lane_of_def)
qed

text \<open>What the two queue operations do to the delegate messages of each priority.\<close>

lemma queued_push:
  assumes "lanes_ok q"
  shows "of_priority p (delegates (tq.waiting (push_back x q)))
      = of_priority p (delegates (tq.waiting q)) @ of_priority p (delegates [x])"
    and "mset (delegates (tq.waiting (push_back x q))) = mset (delegates (tq.waiting q)) + mset (delegates [x])"
proof -
  show "of_priority p (delegates (tq.waiting (push_back x q)))
      = of_priority p (delegates (tq.waiting q)) @ of_priority p (delegates [x])"
    unfolding of_priority_lanes [OF push_lanes_ok [OF assms]] of_priority_lanes [OF assms] tq.lane_enq
    by (cases x) (auto simp: of_priority_def)
  show "mset (delegates (tq.waiting (push_back x q))) = mset (delegates (tq.waiting q)) + mset (delegates [x])"
    by (cases x) (simp_all add: waiting_eq push_back_def)
qed

lemma pop_facts:
  assumes "pop_front q = Some (x, q')" and "lanes_ok q" and "exit_last q"
  shows "tq.waiting q = x # tq.waiting q'" and "lanes_ok q'" and "exit_last q'"
    and "set (m_normalQueue q') \<subseteq> set (m_normalQueue q)"
    and "queue_size q = Suc (queue_size q')"
    and "x = MSG_EXIT_THREAD \<Longrightarrow> tq.waiting q' = []"
proof -
  show w: "tq.waiting q = x # tq.waiting q'"
    using assms(1) tq.deq_some by blast
  show "lanes_ok q'" "exit_last q'" "set (m_normalQueue q') \<subseteq> set (m_normalQueue q)"
    using assms by (auto simp: pop_front_def lanes_ok_def exit_last_def lane_of_def
        split: list.splits Priority.splits if_splits)
  show "queue_size q = Suc (queue_size q')"
    using w by (simp add: size_waiting)
  assume x: "x = MSG_EXIT_THREAD"
  have high: "\<forall>y \<in> set (m_highQueue q). GetPriority y = HIGH"
    using assms(2) by (auto simp: lanes_ok_def lane_of_def split: Priority.splits)
  then have "m_highQueue q = []"
    using w x by (cases "m_highQueue q") (auto simp: waiting_eq)
  with w x assms(3) show "tq.waiting q' = []"
    by (auto simp: waiting_eq exit_last_def split: if_splits)
qed

lemma length_delegates: "length (delegates xs) \<le> length xs"
  by (induction xs rule: delegates.induct) auto

lemma inv_push:
  assumes "thread_inv s" and "m_thread s" and "\<not> m_exit s" and "queue_size (queue s) < MAX_QUEUE_SIZE s"
  shows "thread_inv (s\<lparr>queue := push_back (MSG_DISPATCH_DELEGATE m) (queue s), accepted := accepted s @ [m]\<rparr>)"
    (is "thread_inv ?s")
proof -
  have l: "lanes_ok (queue s)" and parts: "shape_inv s" "size_inv s" "history_inv s" "control_inv s"
    using assms(1) by (simp_all add: thread_inv_def shape_inv_def)
  have "shape_inv ?s"
    using parts(1) assms(3) by (simp add: shape_inv_def push_lanes_ok push_facts)
  moreover have "size_inv ?s"
    using parts(2) assms(3,4) length_delegates [of "tq.waiting (push_back (MSG_DISPATCH_DELEGATE m) (queue s))"]
    by (simp add: size_inv_def queued_def push_facts flip: size_waiting)
  moreover have "history_inv ?s"
    using parts(3) subseq_append [of _ "of_priority p [m]" _ for p]
    by (auto simp: history_inv_def queued_def queued_push [OF l] simp flip: append_assoc)
  moreover have "control_inv ?s"
    using parts(4) assms(2,3) by (auto simp: control_inv_def)
  ultimately show ?thesis by (simp add: thread_inv_def)
qed

lemma inv_take:
  assumes "thread_inv s" and "process s = Waiting"
  shows "thread_inv (process_take s)"
proof (cases "pop_front (queue s)")
  case None
  then have "tq.waiting (queue s) = []" by (simp add: tq.deq_None)
  with None assms show ?thesis
    by (cases "m_exit s") (auto simp: process_take_def thread_inv_def inv_frame control_inv_def)
next
  case (Some xq)
  then obtain x q where xq: "pop_front (queue s) = Some (x, q)" by (cases xq) auto
  have parts: "shape_inv s" "size_inv s" "history_inv s" "control_inv s"
    using assms(1) by (simp_all add: thread_inv_def)
  have l: "lanes_ok (queue s)" "exit_last (queue s)" using parts(1) by (simp_all add: shape_inv_def)
  note pop = pop_facts [OF xq l]
  have m_thread: "m_thread s" using parts(4) pop(1) by (auto simp: control_inv_def)
  show ?thesis
  proof (cases x)
    case (MSG_DISPATCH_DELEGATE m)
    let ?s = "s\<lparr>queue := q, process := Invoking m, invoked := invoked s @ [m]\<rparr>"
    have q: "delegates (tq.waiting (queue s)) = m # delegates (tq.waiting q)"
      using pop(1) MSG_DISPATCH_DELEGATE by simp
    have "shape_inv ?s" using parts(1) pop(2,3,4) by (auto simp: shape_inv_def)
    moreover have "size_inv ?s" using parts(2) pop(5) q by (auto simp: size_inv_def queued_def split: if_splits)
    moreover have "history_inv ?s"
    proof -
      have "of_priority p (invoked s @ [m]) @ of_priority p (delegates (tq.waiting q))
          = of_priority p (invoked s) @ of_priority p (queued s)" for p
        using of_priority_append [of p "[m]" "delegates (tq.waiting q)"] by (simp add: queued_def q)
      then show ?thesis using parts(3) by (simp add: history_inv_def queued_def q)
    qed
    moreover have "control_inv ?s" using parts(4) m_thread assms(2) by (auto simp: control_inv_def)
    ultimately show ?thesis
      using MSG_DISPATCH_DELEGATE by (simp add: process_take_def xq thread_inv_def)
  next
    case MSG_EXIT_THREAD
    let ?s = "s\<lparr>queue := q, process := Returned\<rparr>"
    have e: "m_exit s"
      using pop(1) MSG_EXIT_THREAD MSG_EXIT_NORMAL [OF l(1)] parts(1) by (simp add: shape_inv_def)
    have q: "delegates (tq.waiting (queue s)) = []" "tq.waiting q = []"
      using pop(1) pop(6) MSG_EXIT_THREAD by simp_all
    have "shape_inv ?s" using parts(1) pop(2,3,4) by (auto simp: shape_inv_def)
    moreover have "size_inv ?s" using parts(2) pop(5) q by (auto simp: size_inv_def queued_def split: if_splits)
    moreover have "history_inv ?s" using parts(3) q by (simp add: history_inv_def queued_def)
    moreover have "control_inv ?s" using parts(4) m_thread e q by (auto simp: control_inv_def)
    ultimately show ?thesis
      using MSG_EXIT_THREAD by (simp add: process_take_def xq thread_inv_def)
  qed
qed

text \<open>The operations that leave the queue alone, and those that empty it.\<close>

lemma empty_queue [simp]:
  "lanes_ok no_messages" "exit_last no_messages" "queue_size no_messages = 0"
  "m_normalQueue no_messages = []" "m_highQueue no_messages = []"
  by (simp_all add: lanes_ok_def lane_of_def no_messages_def exit_last_def queue_size_def
      split: Priority.split)

lemma subseq_left: "subseq xs (xs @ ys)"
  by (induction xs) auto

lemma inv_cancel:
  assumes "shape_inv s" and "size_inv s" and "history_inv s"
  shows "shape_inv (cancel_queue s)" "size_inv (cancel_queue s)" "history_inv (cancel_queue s)"
proof -
  show "shape_inv (cancel_queue s)" "size_inv (cancel_queue s)"
    using assms(1,2) by (simp_all add: shape_inv_def size_inv_def cancel_queue_def queued_def)
  have "subseq (of_priority p (invoked s)) (of_priority p (accepted s))" for p
    using assms(3) subseq_order.trans [OF subseq_left]
    unfolding history_inv_def by blast
  then show "history_inv (cancel_queue s)"
    using assms(3)
    by (simp add: history_inv_def cancel_queue_def queued_def CancelAll_def of_priority_def waiting_eq)
qed

lemma inv_push_exit:
  assumes "shape_inv s" and "size_inv s" and "history_inv s" and "\<not> m_exit s"
  defines "s' \<equiv> s\<lparr>m_exit := True, queue := push_back MSG_EXIT_THREAD (queue s), joining := True\<rparr>"
  shows "shape_inv s'" "size_inv s'" "history_inv s'"
proof -
  have l: "lanes_ok (queue s)" using assms(1) by (simp add: shape_inv_def)
  have d: "delegates (tq.waiting (push_back MSG_EXIT_THREAD (queue s))) = delegates (tq.waiting (queue s))"
    by (simp add: waiting_eq push_back_def)
  show "shape_inv s'" using assms(1,4) by (simp add: s'_def shape_inv_def push_lanes_ok push_facts)
  show "size_inv s'" using assms(2,4) by (simp add: s'_def size_inv_def queued_def d push_facts)
  show "history_inv s'" using assms(3) by (simp add: s'_def history_inv_def queued_def d)
qed

lemma inv_exit_begin:
  assumes "thread_inv s" and "\<not> joining s"
  shows "thread_inv (ExitThread_begin policy s)"
proof (cases "m_thread s")
  case True
  let ?s1 = "if policy = DISCARD then cancel_queue s else s"
  have e: "\<not> m_exit s" and c: "control_inv s" and p: "process s \<noteq> Returned"
    using assms True by (auto simp: thread_inv_def control_inv_def)
  have parts: "shape_inv ?s1" "size_inv ?s1" "history_inv ?s1" "\<not> m_exit ?s1"
    using assms(1) inv_cancel [of s] e by (auto simp: thread_inv_def cancel_queue_def)
  have "control_inv (?s1\<lparr>m_exit := True, queue := push_back MSG_EXIT_THREAD (queue ?s1), joining := True\<rparr>)"
    using c p True by (auto simp: control_inv_def cancel_queue_def)
  with inv_push_exit [OF parts] True show ?thesis
    by (simp add: ExitThread_begin_def thread_inv_def Let_def)
qed (use assms in \<open>simp add: ExitThread_begin_def\<close>)

lemma inv_exit_finish:
  assumes "thread_inv s" and "joining s"
  shows "thread_inv (ExitThread_finish s)"
  using assms inv_cancel [of s]
  by (simp add: ExitThread_finish_def thread_inv_def inv_frame)
    (simp add: control_inv_def cancel_queue_def)

lemma inv_dispatch_push:
  assumes "thread_inv s" and "m_thread s \<or> m_exit s" and "m_exit s \<or> queue_size (queue s) < MAX_QUEUE_SIZE s"
  shows "thread_inv (snd (dispatch_push m s))"
  using assms inv_push [of s m] by (auto simp: dispatch_push_def)

lemma control_unqueued:
  assumes "control_inv s"
  shows "control_inv (s\<lparr>dropped := d\<rparr>)" and "control_inv (s\<lparr>faulted := f\<rparr>)"
    and "m_thread s \<or> m_exit s \<Longrightarrow> control_inv (s\<lparr>entered := es\<rparr>)"
    and "m_thread s \<or> m_exit s \<Longrightarrow> control_inv (s\<lparr>blocked := bs\<rparr>)"
    and "joining s \<or> \<not> m_thread s \<Longrightarrow> control_inv (s\<lparr>selfExit := b\<rparr>)"
proof -
  show "control_inv (s\<lparr>dropped := d\<rparr>)" "control_inv (s\<lparr>faulted := f\<rparr>)"
    using assms by (simp_all add: control_inv_def)
  show "m_thread s \<or> m_exit s \<Longrightarrow> control_inv (s\<lparr>entered := es\<rparr>)"
    "m_thread s \<or> m_exit s \<Longrightarrow> control_inv (s\<lparr>blocked := bs\<rparr>)"
    "joining s \<or> \<not> m_thread s \<Longrightarrow> control_inv (s\<lparr>selfExit := b\<rparr>)"
    using assms by (auto simp: control_inv_def)
qed

lemma inv_unqueued:
  assumes "thread_inv s"
  shows "thread_inv (s\<lparr>dropped := d\<rparr>)" "thread_inv (s\<lparr>faulted := f\<rparr>)"
    "m_thread s \<or> m_exit s \<Longrightarrow> thread_inv (s\<lparr>entered := es\<rparr>)"
    "m_thread s \<or> m_exit s \<Longrightarrow> thread_inv (s\<lparr>blocked := bs\<rparr>)"
    "joining s \<or> \<not> m_thread s \<Longrightarrow> thread_inv (s\<lparr>selfExit := b\<rparr>)"
  using assms by (simp_all add: thread_inv_def inv_frame control_unqueued)

lemma inv_step: "thread_step s s' \<Longrightarrow> thread_inv s \<Longrightarrow> thread_inv s'"
proof (induction rule: thread_step.induct)
  case (create s)
  then have q: "m_highQueue (queue s) = []" "m_normalQueue (queue s) = []"
    by (auto simp: thread_inv_def control_inv_def waiting_eq)
  have parts: "shape_inv s" "size_inv s" "history_inv s" "control_inv s"
    using create.prems by (simp_all add: thread_inv_def)
  show ?case
  proof (cases "m_thread s")
    case False
    let ?s = "s\<lparr>m_exit := False, m_thread := True, process := Waiting, selfExit := False\<rparr>"
    have "shape_inv ?s" "size_inv ?s" "history_inv ?s"
      using parts(1-3) q by (simp_all add: inv_parts waiting_eq queue_size_def)
    moreover have "control_inv ?s" using parts(4) create.hyps(3) by (simp add: control_inv_def)
    ultimately show ?thesis using False by (simp add: CreateThread_def thread_inv_def)
  qed (use create.prems in \<open>simp add: CreateThread_def\<close>)
next
  case (enter s m)
  then show ?case by (auto simp: dispatch_enter_def intro: inv_unqueued)
next
  case (locked s m)
  then have t: "m_thread s \<or> m_exit s" by (auto simp: thread_inv_def control_inv_def)
  let ?s = "s\<lparr>entered := remove1 m (entered s)\<rparr>"
  have i: "thread_inv ?s" using locked t by (intro inv_unqueued)
  have pos: "0 < MAX_QUEUE_SIZE s" using locked.prems by (simp add: thread_inv_def size_inv_def)
  have "thread_inv (snd (dispatch_push m ?s))" if "m_exit ?s \<or> \<not> queue_full ?s"
    using that t i pos by (intro inv_dispatch_push) (auto simp: queue_full_def GetQueueSize_def)
  moreover have "thread_inv (?s\<lparr>blocked := m # blocked ?s\<rparr>)"
    using i t by (intro inv_unqueued(4)) simp_all
  moreover have "thread_inv (?s\<lparr>dropped := d\<rparr>)" "thread_inv (?s\<lparr>faulted := True\<rparr>)" for d
    using i by (rule inv_unqueued)+
  ultimately show ?case
    by (cases "FULL_POLICY s") (simp_all add: dispatch_locked_def drop_message_def Let_def)
next
  case (woken s m)
  then have t: "m_thread s \<or> m_exit s" by (auto simp: thread_inv_def control_inv_def)
  have "thread_inv (s\<lparr>blocked := remove1 m (blocked s)\<rparr>)" using woken t by (intro inv_unqueued)
  with woken t show ?case
    unfolding dispatch_woken_def
    by (intro inv_dispatch_push) (auto simp: has_space_def GetQueueSize_def)
next
  case (timed_out s m)
  then have t: "m_thread s \<or> m_exit s" by (auto simp: thread_inv_def control_inv_def)
  have "thread_inv (s\<lparr>blocked := remove1 m (blocked s)\<rparr>)" using timed_out t by (intro inv_unqueued)
  from inv_unqueued(1) [OF this] show ?case
    by (simp add: dispatch_timed_out_def drop_message_def)
next
  case (exit_self s m policy)
  then have "thread_inv ((ExitThread_begin policy s)\<lparr>selfExit := True\<rparr>)"
    by (intro inv_unqueued(5) inv_exit_begin) (simp_all add: ExitThread_begin_def Let_def)
  then show ?case by (simp add: ExitThread_self_def)
next
  case (invoke_returned s m success)
  then show ?case
    by (cases "selfExit s") (auto simp: process_done_def thread_inv_def inv_frame control_inv_def)
qed (simp_all add: inv_exit_begin inv_exit_finish inv_take)

lemma inv_start: "thread_inv (StdlibThread n policy)"
  by (simp add: StdlibThread_def thread_inv_def inv_parts of_priority_def THREAD_DESKTOP_QUEUE_SIZE_def)

lemma reachable_inv: "reachable s \<Longrightarrow> thread_inv s"
  by (induction rule: reachable.induct) (blast intro: inv_start inv_step)+

section \<open>Running the worker to its end\<close>

text \<open>\<open>Process\<close> alone: each unit of fuel is one pass of the loop whose invocation succeeds.\<close>

fun process_run :: "nat \<Rightarrow> 'a thread_state \<Rightarrow> 'a thread_state" where
  "process_run 0 s = s"
| "process_run (Suc n) s =
     (case process s of
        Returned \<Rightarrow> s
      | Waiting \<Rightarrow> process_run n (process_take s)
      | Invoking m \<Rightarrow> process_run n (process_done True s))"

lemma run_returned [simp]: "process s = Returned \<Longrightarrow> process_run n s = s"
  by (cases n) simp_all

lemma run_drains:
  assumes "tq.waiting (queue s) = map MSG_DISPATCH_DELEGATE ms @ MSG_EXIT_THREAD # rest"
    and "process s = Waiting" and "\<not> selfExit s" and "2 * length ms + 1 \<le> n"
  shows "process (process_run n s) = Returned \<and> invoked (process_run n s) = invoked s @ ms
    \<and> cancelled (process_run n s) = cancelled s \<and> faulted (process_run n s) = faulted s"
  using assms
proof (induction ms arbitrary: s n)
  case Nil
  then obtain k where n: "n = Suc k" by (cases n) auto
  obtain q where "pop_front (queue s) = Some (MSG_EXIT_THREAD, q)"
    using tq.deq_waiting [of "queue s"] Nil.prems(1) by auto
  then have "process_take s = s\<lparr>queue := q, process := Returned\<rparr>"
    by (simp add: process_take_def)
  then show ?case using Nil.prems n by simp
next
  case (Cons m ms)
  then obtain k where n: "n = Suc (Suc k)" "2 * length ms + 1 \<le> k"
    by (cases n; cases "n - 1") auto
  obtain q where q: "pop_front (queue s) = Some (MSG_DISPATCH_DELEGATE m, q)"
    using tq.deq_waiting [of "queue s"] Cons.prems(1) by auto
  then have w: "tq.waiting q = map MSG_DISPATCH_DELEGATE ms @ MSG_EXIT_THREAD # rest"
    using tq.deq_some [of "queue s" _ q] Cons.prems(1) by auto
  define s1 where "s1 = s\<lparr>queue := q, invoked := invoked s @ [m], process := Waiting\<rparr>"
  have "process_run n s = process_run k s1"
    using Cons.prems(2,3) q n by (simp add: process_take_def process_done_def s1_def)
  moreover have "process (process_run k s1) = Returned \<and> invoked (process_run k s1) = invoked s1 @ ms
    \<and> cancelled (process_run k s1) = cancelled s1 \<and> faulted (process_run k s1) = faulted s1"
    using Cons.prems(3) w n(2) by (intro Cons.IH) (simp_all add: s1_def)
  ultimately show ?case by (simp add: s1_def)
qed

lemma waiting_delegates:
  assumes "MSG_EXIT_THREAD \<notin> set xs"
  shows "xs = map MSG_DISPATCH_DELEGATE (delegates xs)"
  using assms by (induction xs rule: delegates.induct) auto

lemma reachable_run:
  "reachable s \<Longrightarrow> \<not> faulted s \<Longrightarrow> \<not> selfExit s \<Longrightarrow> reachable (process_run n s)"
proof (induction n arbitrary: s)
  case (Suc n)
  show ?case
  proof (cases "process s")
    case Waiting
    have "reachable (process_take s)"
      using Suc.prems(1) thread_step.take [OF Suc.prems(2) Waiting] by (rule reachable.step)
    moreover have "\<not> faulted (process_take s) \<and> \<not> selfExit (process_take s)"
      using Suc.prems by (simp add: process_take_def split: option.split ThreadMsg.split)
    ultimately show ?thesis using Waiting Suc.IH by simp
  next
    case (Invoking m)
    have "reachable (process_done True s)"
      using Suc.prems(1) thread_step.invoke_returned [OF Suc.prems(2) Invoking] Suc.prems(3)
      by (blast intro: reachable.step)
    with Suc Invoking show ?thesis by (simp add: process_done_def)
  qed (use Suc.prems in simp)
qed simp

text \<open>As long as no exit message is queued, the worker takes messages from the front of
  \<open>queued\<close> to the end of \<open>invoked\<close> and stays in its loop.\<close>

definition busy :: "'a thread_state \<Rightarrow> bool" where
  "busy s \<longleftrightarrow> MSG_EXIT_THREAD \<notin> set (tq.waiting (queue s)) \<and> \<not> m_exit s \<and> \<not> selfExit s
     \<and> process s \<noteq> Returned \<and> m_thread s"

lemma take_order:
  assumes "busy s"
  shows "busy (process_take s)" and "invoked (process_take s) @ queued (process_take s) = invoked s @ queued s"
proof -
  have "busy (process_take s) \<and> invoked (process_take s) @ queued (process_take s) = invoked s @ queued s"
  proof (cases "pop_front (queue s)")
    case None
    then show ?thesis using assms by (simp add: process_take_def busy_def)
  next
    case (Some a)
    obtain x q where x: "pop_front (queue s) = Some (x, q)" using Some by (cases a) simp
    then have w: "tq.waiting (queue s) = x # tq.waiting q"
      using tq.deq_some [of "queue s" x q] by simp
    with assms obtain m where "x = MSG_DISPATCH_DELEGATE m" by (cases x) (auto simp: busy_def)
    with x w assms show ?thesis by (simp add: process_take_def busy_def queued_def)
  qed
  then show "busy (process_take s)" "invoked (process_take s) @ queued (process_take s) = invoked s @ queued s"
    by simp_all
qed

lemma done_order:
  assumes "busy s"
  shows "busy (process_done True s)" "invoked (process_done True s) = invoked s" "queued (process_done True s) = queued s"
  using assms by (simp_all add: process_done_def busy_def queued_def)

lemma run_order:
  "busy s \<Longrightarrow> busy (process_run n s) \<and> invoked (process_run n s) @ queued (process_run n s) = invoked s @ queued s"
proof (induction n arbitrary: s)
  case (Suc n)
  then show ?case
    using Suc.IH [OF take_order(1) [OF Suc.prems]] take_order(2) [OF Suc.prems]
      Suc.IH [OF done_order(1) [OF Suc.prems]] done_order(2,3) [OF Suc.prems]
    by (cases "process s") simp_all
qed simp

lemma run_size: "MAX_QUEUE_SIZE (process_run n s) = MAX_QUEUE_SIZE s" "faulted (process_run n s) = faulted s"
proof (induction n arbitrary: s)
  case (Suc n)
  { case 1 from Suc show ?case
      by (cases "process s") (simp_all add: process_take_def process_done_def split: option.splits ThreadMsg.splits) }
  { case 2 from Suc show ?case
      by (cases "process s") (simp_all add: process_take_def process_done_def split: option.splits ThreadMsg.splits) }
qed simp_all

section \<open>A run used below to show that the hypotheses can hold\<close>

definition dispatch :: "'a DelegateMsg \<Rightarrow> 'a thread_state \<Rightarrow> 'a thread_state" where
  "dispatch m s = snd (dispatch_locked m (snd (dispatch_enter m s)))"

lemma reachable_dispatch:
  assumes "reachable s" and "\<not> faulted s" and "\<not> m_exit s" and "m_thread s"
  shows "reachable (dispatch m s)"
proof -
  let ?s = "snd (dispatch_enter m s)"
  have "reachable ?s" using assms(1) thread_step.enter [OF assms(2)] by (rule reachable.step)
  moreover have "thread_step ?s (dispatch m s)"
    unfolding dispatch_def by (rule thread_step.locked) (use assms in \<open>auto simp: dispatch_enter_def\<close>)
  ultimately show ?thesis by (rule reachable.step)
qed

lemma dispatch_normal:
  assumes "busy s" and "\<not> queue_full s"
  shows "dispatch (DelegateMsg x NORMAL) s = s\<lparr>queue := push_back (MSG_DISPATCH_DELEGATE (DelegateMsg x NORMAL)) (queue s),
      accepted := accepted s @ [DelegateMsg x NORMAL]\<rparr>"
    and "busy (dispatch (DelegateMsg x NORMAL) s)"
    and "queued (dispatch (DelegateMsg x NORMAL) s) = queued s @ [DelegateMsg x NORMAL]"
proof -
  show eq: "dispatch (DelegateMsg x NORMAL) s = s\<lparr>queue := push_back (MSG_DISPATCH_DELEGATE (DelegateMsg x NORMAL)) (queue s),
      accepted := accepted s @ [DelegateMsg x NORMAL]\<rparr>"
    using assms by (auto simp: dispatch_def dispatch_enter_def dispatch_locked_def dispatch_push_def
        queue_full_def GetQueueSize_def busy_def Let_def)
  show "busy (dispatch (DelegateMsg x NORMAL) s)"
    using assms by (simp add: eq busy_def waiting_eq push_back_def)
  show "queued (dispatch (DelegateMsg x NORMAL) s) = queued s @ [DelegateMsg x NORMAL]"
    by (simp add: eq queued_def waiting_eq push_back_def)
qed

text \<open>A NORMAL and then a HIGH message are waiting on a started thread.\<close>

definition started :: "nat thread_state" where
  "started = CreateThread (StdlibThread 2 FAULT)"

definition two_waiting :: "nat thread_state" where
  "two_waiting = dispatch (DelegateMsg 20 HIGH) (dispatch (DelegateMsg 10 NORMAL) started)"

lemma started_reachable: "reachable started"
  unfolding started_def
  by (rule reachable.step [OF reachable.start]) (rule thread_step.create; simp add: StdlibThread_def)

lemma two_waiting_eq:
  "two_waiting = started\<lparr>queue := \<lparr>m_highQueue = [MSG_DISPATCH_DELEGATE (DelegateMsg 20 HIGH)],
     m_normalQueue = [MSG_DISPATCH_DELEGATE (DelegateMsg 10 NORMAL)]\<rparr>,
     accepted := [DelegateMsg 10 NORMAL, DelegateMsg 20 HIGH]\<rparr>"
  by (simp add: two_waiting_def dispatch_def started_def StdlibThread_def thread_defs queue_full_def
      GetQueueSize_def queue_size_def no_messages_def push_back_def)

lemma started_state: "\<not> faulted started" "\<not> m_exit started" "m_thread started" "process started = Waiting"
  by (simp_all add: started_def StdlibThread_def CreateThread_def)

lemma two_waiting_reachable: "reachable two_waiting"
  unfolding two_waiting_def
  by (intro reachable_dispatch started_reachable started_state)
    (simp_all add: dispatch_def started_def StdlibThread_def thread_defs queue_full_def
      GetQueueSize_def queue_size_def no_messages_def)

lemma two_waiting_state:
  "\<not> m_exit two_waiting" "m_thread two_waiting" "process two_waiting = Waiting"
  "GetQueueSize two_waiting = 2"
  by (simp_all add: two_waiting_eq started_state GetQueueSize_def queue_size_def)

section \<open>Properties\<close>

text \<open>
  C2: under any interleaving of dispatching threads, the worker and \<^verbatim>\<open>ExitThread\<close>, every
  message \<^verbatim>\<open>DispatchDelegate\<close> accepted is at each moment exactly one of invoked, cancelled or
  still queued, and messages of one priority are invoked in the order they were accepted.
\<close>

theorem dispatch_exactly_once_in_order:
  assumes "reachable s"
  shows "mset (accepted s) = mset (invoked s) + mset (cancelled s) + mset (queued s)
    \<and> subseq (of_priority p (invoked s @ queued s)) (of_priority p (accepted s))"
  using reachable_inv [OF assms] by (simp_all add: thread_inv_def history_inv_def)

lemma dispatch_exactly_once_in_order_witness:
  "mset (accepted two_waiting) = mset (invoked two_waiting) + mset (cancelled two_waiting) + mset (queued two_waiting)
   \<and> subseq (of_priority HIGH (invoked two_waiting @ queued two_waiting)) (of_priority HIGH (accepted two_waiting))"
  by (rule dispatch_exactly_once_in_order [OF two_waiting_reachable])

text \<open>
  The number of queued delegate messages never exceeds the queue limit, whatever the
  policy; only the exit message may come on top of it.
\<close>

theorem queue_never_overfull:
  assumes "reachable s"
  shows "length (queued s) \<le> MAX_QUEUE_SIZE s
    \<and> GetQueueSize s \<le> MAX_QUEUE_SIZE s + (if m_exit s then 1 else 0)"
  using reachable_inv [OF assms] by (simp add: thread_inv_def size_inv_def GetQueueSize_def)

lemma queue_never_overfull_witness:
  "length (queued two_waiting) \<le> MAX_QUEUE_SIZE two_waiting
    \<and> GetQueueSize two_waiting \<le> MAX_QUEUE_SIZE two_waiting + (if m_exit two_waiting then 1 else 0)"
  by (rule queue_never_overfull [OF two_waiting_reachable])

text \<open>
  A NORMAL message is invoked only when no HIGH message waits, and what is invoked is
  always the message of its priority that has waited longest.
\<close>

theorem high_before_normal:
  assumes "reachable s" and "process s = Waiting" and "process (process_take s) = Invoking m"
  shows "(msg_priority m = NORMAL \<longrightarrow> of_priority HIGH (queued s) = [])
    \<and> of_priority (msg_priority m) (queued s) = m # of_priority (msg_priority m) (queued (process_take s))"
proof (intro conjI)
  have inv: "lanes_ok (queue s)" "exit_last (queue s)"
    using reachable_inv [OF assms(1)] by (simp_all add: thread_inv_def shape_inv_def)
  obtain q where q: "pop_front (queue s) = Some (MSG_DISPATCH_DELEGATE m, q)"
    and take: "queue (process_take s) = q"
    using assms(2,3) by (auto simp: process_take_def split: option.splits ThreadMsg.splits if_splits)
  have "m_highQueue (queue s) = []" if "msg_priority m = NORMAL"
    using tq.high_first [OF q] inv(1) that by (auto simp: lanes_ok_def lane_of_def)
  then show "msg_priority m = NORMAL \<longrightarrow> of_priority HIGH (queued s) = []"
    by (simp add: queued_def of_priority_lanes [OF inv(1)] lane_of_def)
  have "lane_of (msg_priority m) (queue s) = MSG_DISPATCH_DELEGATE m # lane_of (msg_priority m) q"
    using tq.deq_lane [OF q, of "msg_priority m"] inv(1) by (simp add: lanes_ok_def)
  then show "of_priority (msg_priority m) (queued s) = m # of_priority (msg_priority m) (queued (process_take s))"
    using pop_facts(2) [OF q inv]
    by (simp add: queued_def take of_priority_lanes inv(1))
qed

lemma high_before_normal_witness:
  "of_priority HIGH (queued two_waiting)
      = DelegateMsg 20 HIGH # of_priority HIGH (queued (process_take two_waiting))"
  using high_before_normal [OF two_waiting_reachable two_waiting_state(3), of "DelegateMsg 20 HIGH"]
  by (simp add: two_waiting_eq process_take_def pop_front_def)

text \<open>
  Once \<^verbatim>\<open>m_exit\<close> is set no message is accepted any more until \<^verbatim>\<open>CreateThread\<close>
  clears it, also by the calls that had passed the early check or were waiting for space.
\<close>

theorem no_dispatch_after_exit:
  assumes "thread_step s s'" and "m_exit s" and "m_exit s'"
  shows "accepted s' = accepted s"
  using assms
  by (induction rule: thread_step.induct)
    (auto simp: thread_defs Let_def split: option.splits ThreadMsg.splits FullPolicy.splits)

lemma no_dispatch_after_exit_witness:
  "accepted (snd (dispatch_enter (DelegateMsg 30 HIGH) (ExitThread_begin DRAIN two_waiting)))
   = accepted (ExitThread_begin DRAIN two_waiting)"
  by (rule no_dispatch_after_exit [OF thread_step.enter])
    (simp_all add: ExitThread_begin_def dispatch_enter_def two_waiting_eq started_state)

lemma running_facts:
  assumes "thread_inv s" and "m_thread s" and "\<not> m_exit s"
  shows "MSG_EXIT_THREAD \<notin> set (tq.waiting (queue s))" and "\<not> selfExit s" and "process s \<noteq> Returned"
  using assms MSG_EXIT_NORMAL by (auto simp: thread_inv_def shape_inv_def control_inv_def)

lemma run_exit:
  assumes "tq.waiting (queue s) = map MSG_DISPATCH_DELEGATE ms @ [MSG_EXIT_THREAD]"
    and "process s \<noteq> Returned" and "\<not> selfExit s" and "2 * length ms + 2 \<le> n"
  shows "process (process_run n s) = Returned \<and> invoked (process_run n s) = invoked s @ ms
    \<and> cancelled (process_run n s) = cancelled s"
proof (cases "process s")
  case Waiting
  then show ?thesis using run_drains [OF assms(1), of n] assms(3,4) by simp
next
  case (Invoking m)
  then obtain k where k: "n = Suc k" "2 * length ms + 1 \<le> k" using assms(4) by (cases n) auto
  have "process_run n s = process_run k (s\<lparr>process := Waiting\<rparr>)"
    using Invoking assms(3) by (simp add: k process_done_def)
  with run_drains [of "s\<lparr>process := Waiting\<rparr>" ms "[]" k] k(2) assms(1,3) show ?thesis by simp
qed (use assms(2) in simp)

lemma queued_lanes:
  "lanes_ok (queue s) \<Longrightarrow> queued s = of_priority HIGH (queued s) @ of_priority NORMAL (queued s)"
  by (simp add: queued_def of_priority_lanes) (simp add: waiting_eq lane_of_def)

lemma drain_run:
  fixes s :: "'a thread_state"
  assumes "reachable s" and "m_thread s" and "\<not> m_exit s" and "2 * GetQueueSize s + 2 \<le> n"
  shows "process (process_run n (ExitThread_begin DRAIN s)) = Returned
    \<and> cancelled (process_run n (ExitThread_begin DRAIN s)) = cancelled s
    \<and> invoked (process_run n (ExitThread_begin DRAIN s))
      = invoked s @ of_priority HIGH (queued s) @ of_priority NORMAL (queued s)"
proof -
  note inv = reachable_inv [OF assms(1)]
  note run = running_facts [OF inv assms(2,3)]
  have l: "lanes_ok (queue s)" using inv by (simp add: thread_inv_def shape_inv_def)
  define u where "u = ExitThread_begin DRAIN s"
  have u: "u = s\<lparr>m_exit := True, queue := push_back MSG_EXIT_THREAD (queue s), joining := True\<rparr>"
    using assms(2) by (simp add: u_def ExitThread_begin_def)
  have w: "tq.waiting (queue u) = map MSG_DISPATCH_DELEGATE (queued s) @ [MSG_EXIT_THREAD]"
  proof -
    have "tq.waiting (queue u) = tq.waiting (queue s) @ [MSG_EXIT_THREAD]"
      by (simp add: u waiting_eq push_back_def)
    also have "tq.waiting (queue s) = map MSG_DISPATCH_DELEGATE (queued s)"
      unfolding queued_def by (rule waiting_delegates [OF run(1)])
    finally show ?thesis .
  qed
  have n: "2 * length (queued s) + 2 \<le> n"
    using assms(4) length_delegates [of "tq.waiting (queue s)"]
    by (simp add: queued_def GetQueueSize_def size_waiting)
  from run_exit [OF w _ _ n] run(2,3) queued_lanes [OF l] show ?thesis
    unfolding u_def [symmetric] by (simp add: u)
qed

lemma drain_order:
  assumes "reachable s" and "busy s" and "2 * MAX_QUEUE_SIZE s + 2 \<le> n"
  shows "process (process_run n (ExitThread_begin DRAIN s)) = Returned
    \<and> invoked (process_run n (ExitThread_begin DRAIN s)) = invoked s @ queued s"
proof -
  have inv: "lanes_ok (queue s)" "GetQueueSize s \<le> MAX_QUEUE_SIZE s"
    using reachable_inv [OF assms(1)] assms(2)
    by (simp_all add: thread_inv_def shape_inv_def size_inv_def GetQueueSize_def busy_def)
  then have "2 * GetQueueSize s + 2 \<le> n" using assms(3) by simp
  then show ?thesis
    using drain_run [OF assms(1), of n] assms(2) queued_lanes [OF inv(1)] by (simp add: busy_def)
qed

text \<open>
  \<^verbatim>\<open>ExitThread(DRAIN)\<close> on a running thread whose handlers succeed invokes every
  queued message, HIGH ones first and each priority in order, cancels none, and the worker
  leaves its loop after a bounded number of passes.
\<close>

theorem exit_drain_invokes_all:
  fixes s :: "'a thread_state"
  assumes "reachable s" and "m_thread s" and "\<not> m_exit s" and "2 * GetQueueSize s + 2 \<le> n"
  defines "s' \<equiv> process_run n (ExitThread_begin DRAIN s)"
  shows "process s' = Returned \<and> cancelled s' = cancelled s
    \<and> invoked s' = invoked s @ of_priority HIGH (queued s) @ of_priority NORMAL (queued s)"
  unfolding s'_def by (rule drain_run [OF assms(1-4)])

lemma exit_drain_invokes_all_witness:
  "process (process_run 6 (ExitThread_begin DRAIN two_waiting)) = Returned
    \<and> cancelled (process_run 6 (ExitThread_begin DRAIN two_waiting)) = cancelled two_waiting
    \<and> invoked (process_run 6 (ExitThread_begin DRAIN two_waiting))
      = invoked two_waiting @ of_priority HIGH (queued two_waiting) @ of_priority NORMAL (queued two_waiting)"
  by (rule exit_drain_invokes_all [OF two_waiting_reachable]) (simp_all add: two_waiting_state)

text \<open>
  \<^verbatim>\<open>ExitThread(DISCARD)\<close> cancels every queued message and lets the worker invoke none
  of them.
\<close>

theorem exit_discard_cancels_all:
  fixes s :: "'a thread_state"
  assumes "reachable s" and "m_thread s" and "\<not> m_exit s" and "2 \<le> n"
  defines "s' \<equiv> process_run n (ExitThread_begin DISCARD s)"
  shows "process s' = Returned \<and> invoked s' = invoked s
    \<and> cancelled s' = cancelled s @ of_priority HIGH (queued s) @ of_priority NORMAL (queued s)"
proof -
  note inv = reachable_inv [OF assms(1)]
  note run = running_facts [OF inv assms(2,3)]
  have l: "lanes_ok (queue s)" using inv by (simp add: thread_inv_def shape_inv_def)
  define u where "u = ExitThread_begin DISCARD s"
  have u: "process u = process s" "selfExit u = selfExit s" "invoked u = invoked s"
    "cancelled u = cancelled s @ queued s" "tq.waiting (queue u) = map MSG_DISPATCH_DELEGATE [] @ [MSG_EXIT_THREAD]"
    using assms(2) by (simp_all add: u_def ExitThread_begin_def cancel_queue_def CancelAll_def
        queued_def waiting_eq push_back_def no_messages_def)
  from run_exit [OF u(5), of n] u(1-4) run(2,3) queued_lanes [OF l] assms(4) show ?thesis
    unfolding s'_def u_def [symmetric] by simp
qed

lemma exit_discard_cancels_all_witness:
  "process (process_run 2 (ExitThread_begin DISCARD two_waiting)) = Returned
    \<and> invoked (process_run 2 (ExitThread_begin DISCARD two_waiting)) = invoked two_waiting
    \<and> cancelled (process_run 2 (ExitThread_begin DISCARD two_waiting))
      = cancelled two_waiting @ of_priority HIGH (queued two_waiting) @ of_priority NORMAL (queued two_waiting)"
  by (rule exit_discard_cancels_all [OF two_waiting_reachable]) (simp_all add: two_waiting_state)

text \<open>
  C3: when the worker has left its loop and nothing was cancelled (every exit so far was a
  \<^verbatim>\<open>DRAIN\<close> by another thread), each priority's invocations are exactly its accepted messages:
  no message is lost, whatever raced with the exit.
\<close>

theorem drained_nothing_lost:
  assumes "reachable s" and "process s = Returned" and "cancelled s = []"
  shows "of_priority p (invoked s) = of_priority p (accepted s)"
proof -
  have inv: "history_inv s" "control_inv s" using reachable_inv [OF assms(1)] by (simp_all add: thread_inv_def)
  then have "queued s = []" using assms(2) by (auto simp: control_inv_def queued_def)
  with inv(1) assms(3) have "subseq (of_priority p (invoked s)) (of_priority p (accepted s))"
    "mset (accepted s) = mset (invoked s)"
    by (simp_all add: history_inv_def of_priority_def)
  moreover from this(2) have "length (of_priority p (invoked s)) = length (of_priority p (accepted s))"
    unfolding of_priority_def by (metis mset_filter size_mset)
  ultimately show ?thesis by (simp add: subseq_same_length)
qed

lemma drained_nothing_lost_witness:
  "of_priority HIGH (invoked (process_run 6 (ExitThread_begin DRAIN two_waiting)))
   = of_priority HIGH (accepted (process_run 6 (ExitThread_begin DRAIN two_waiting)))"
proof (rule drained_nothing_lost)
  have "reachable (ExitThread_begin DRAIN two_waiting)"
    by (rule reachable.step [OF two_waiting_reachable])
      (rule thread_step.exit_begin; simp add: two_waiting_eq started_def StdlibThread_def thread_defs)
  then show "reachable (process_run 6 (ExitThread_begin DRAIN two_waiting))"
    by (rule reachable_run)
      (simp_all add: two_waiting_eq started_def StdlibThread_def thread_defs)
qed (simp_all add: two_waiting_eq started_def StdlibThread_def thread_defs numeral_eq_Suc
      push_back_def pop_front_def no_messages_def)

end
