(* ===== verification/IntrusiveList.thy ===== *)
theory IntrusiveList
  imports Prelude
begin

text \<open>
  Singly linked lists whose links are members of the objects in them, as the thread watchdog and
  the timers keep: a head pointer and the next pointer of every object. The operations work on
  the pointers as the code does; \<open>linked\<close> relates the pointers to the list they form. A walk is
  bounded by the number \<open>n\<close> of objects, which a list without repetition cannot exceed.
\<close>

type_synonym 'a links = "'a option \<times> ('a \<Rightarrow> 'a option)"

fun walk :: "('a \<Rightarrow> 'a option) \<Rightarrow> 'a option \<Rightarrow> nat \<Rightarrow> 'a list" where
  "walk next None n = []"
| "walk next (Some t) 0 = []"
| "walk next (Some t) (Suc n) = t # walk next (next t) n"

text \<open>Adding an object in front unless a walk finds it.\<close>

definition link_front :: "nat \<Rightarrow> 'a \<Rightarrow> 'a links \<Rightarrow> 'a links" where
  "link_front n t l = (if t \<in> set (walk (snd l) (fst l) n) then l else (Some t, (snd l)(t := fst l)))"

text \<open>The walk with a pointer to the pointer that leads to each object: \<open>prev\<close> is the object
  whose next pointer is looked at, or none for the head. \<open>unlink\<close> takes one object out, \<open>sweep\<close>
  all that are not to be kept.\<close>

definition get_link :: "'a option \<Rightarrow> 'a links \<Rightarrow> 'a option" where
  "get_link prev l = (case prev of None \<Rightarrow> fst l | Some p \<Rightarrow> snd l p)"

definition set_link :: "'a option \<Rightarrow> 'a option \<Rightarrow> 'a links \<Rightarrow> 'a links" where
  "set_link prev x l = (case prev of None \<Rightarrow> (x, snd l) | Some p \<Rightarrow> (fst l, (snd l)(p := x)))"

definition clear_link :: "'a \<Rightarrow> 'a links \<Rightarrow> 'a links" where
  "clear_link t l = (fst l, (snd l)(t := None))"

fun unlink :: "nat \<Rightarrow> 'a option \<Rightarrow> 'a \<Rightarrow> 'a links \<Rightarrow> 'a links" where
  "unlink 0 prev t l = l"
| "unlink (Suc n) prev t l =
     (case get_link prev l of
        None \<Rightarrow> l
      | Some q \<Rightarrow>
          if q = t then clear_link t (set_link prev (snd l t) l)
          else unlink n (Some q) t l)"

fun sweep :: "nat \<Rightarrow> 'a option \<Rightarrow> ('a \<Rightarrow> bool) \<Rightarrow> 'a links \<Rightarrow> 'a links" where
  "sweep 0 prev keep l = l"
| "sweep (Suc n) prev keep l =
     (case get_link prev l of
        None \<Rightarrow> l
      | Some q \<Rightarrow>
          if keep q then sweep n (Some q) keep l
          else sweep n prev keep (set_link prev (snd l q) (clear_link q l)))"

section \<open>The list behind the pointers\<close>

fun chain :: "('a \<Rightarrow> 'a option) \<Rightarrow> 'a option \<Rightarrow> 'a list \<Rightarrow> bool" where
  "chain next p [] \<longleftrightarrow> p = None"
| "chain next p (t # ts) \<longleftrightarrow> p = Some t \<and> chain next (next t) ts"

definition linked :: "'a links \<Rightarrow> 'a list \<Rightarrow> bool" where
  "linked l ts \<longleftrightarrow> chain (snd l) (fst l) ts \<and> distinct ts"

lemma walk_chain: "chain next p ts \<Longrightarrow> length ts \<le> n \<Longrightarrow> walk next p n = ts"
  by (induction ts arbitrary: p n) (auto simp: Suc_le_eq elim!: less_natE)

lemma walk_linked: "linked l ts \<Longrightarrow> length ts \<le> n \<Longrightarrow> walk (snd l) (fst l) n = ts"
  by (simp add: linked_def walk_chain)

lemma chain_upd: "t \<notin> set ts \<Longrightarrow> chain (next(t := x)) p ts = chain next p ts"
  by (induction ts arbitrary: p) auto

lemma linked_front:
  assumes "linked l ts" and "length ts \<le> n"
  shows "linked (link_front n t l) (if t \<in> set ts then ts else t # ts)"
  using assms by (auto simp: link_front_def walk_linked linked_def chain_upd)

lemma chain_cong: "(\<And>x. x \<in> set ts \<Longrightarrow> f x = g x) \<Longrightarrow> chain f p ts = chain g p ts"
  by (induction ts arbitrary: p) auto

text \<open>The part of a list behind \<open>prev\<close>: \<open>vs\<close> is what the walk has left behind, in order.\<close>

definition split_at :: "'a option \<Rightarrow> 'a list \<Rightarrow> 'a list \<Rightarrow> 'a links \<Rightarrow> bool" where
  "split_at prev vs ts l \<longleftrightarrow> linked l (vs @ ts) \<and> prev = (if vs = [] then None else Some (last vs))"

lemma get_link_chain:
  "chain next h (vs @ ts) \<Longrightarrow> get_link (if vs = [] then None else Some (last vs)) (h, next) = (case ts of [] \<Rightarrow> None | t # _ \<Rightarrow> Some t)"
  by (induction vs arbitrary: h) (auto simp: get_link_def split: list.splits if_splits)

lemma split_at_get: "split_at prev vs ts l \<Longrightarrow> get_link prev l = (case ts of [] \<Rightarrow> None | t # _ \<Rightarrow> Some t)"
  using get_link_chain [of "snd l" "fst l" vs ts] by (simp add: split_at_def linked_def)

lemma split_at_step: "split_at prev vs (t # ts) l \<Longrightarrow> split_at (Some t) (vs @ [t]) ts l"
  by (simp add: split_at_def)

lemma chain_drop:
  assumes "chain next h (vs @ t # ts)" and "distinct (vs @ t # ts)"
  shows "chain ((snd (set_link (if vs = [] then None else Some (last vs)) (next t) (h, next)))(t := None))
      (fst (set_link (if vs = [] then None else Some (last vs)) (next t) (h, next))) (vs @ ts)"
  using assms
proof (induction vs arbitrary: h)
  case Nil
  then show ?case using chain_upd [of t ts "next" None "next t"] by (simp add: set_link_def fun_upd_def)
next
  case (Cons v vs)
  show ?case
  proof (cases "vs = []")
    case True
    have "chain ((next(v := next t))(t := None)) (next t) ts = chain next (next t) ts"
      using Cons.prems(2) by (intro chain_cong) auto
    with True Cons.prems show ?thesis by (simp add: set_link_def fun_upd_def)
  next
    case False
    then have "last vs \<noteq> v" using Cons.prems(2) by auto
    with False Cons.IH [of "next v"] Cons.prems show ?thesis by (auto simp: set_link_def)
  qed
qed

lemma split_at_drop:
  assumes "split_at prev vs (t # ts) l"
  shows "split_at prev vs ts (clear_link t (set_link prev (snd l t) l))"
    and "clear_link t (set_link prev (snd l t) l) = set_link prev (snd l t) (clear_link t l)"
proof -
  have p: "prev = (if vs = [] then None else Some (last vs))" and l: "chain (snd l) (fst l) (vs @ t # ts)" "distinct (vs @ t # ts)"
    using assms by (simp_all add: split_at_def linked_def)
  show "split_at prev vs ts (clear_link t (set_link prev (snd l t) l))"
    using chain_drop [OF l] l(2) by (simp add: split_at_def linked_def clear_link_def p)
  have "prev \<noteq> Some t" using p l(2) by (auto split: if_splits)
  then show "clear_link t (set_link prev (snd l t) l) = set_link prev (snd l t) (clear_link t l)"
    by (auto simp: set_link_def clear_link_def fun_upd_twist split: option.split)
qed

lemma unlink_split:
  "split_at prev vs ts l \<Longrightarrow> t \<notin> set vs \<Longrightarrow> length ts \<le> n \<Longrightarrow> linked (unlink n prev t l) (vs @ remove1 t ts)"
proof (induction n arbitrary: prev vs ts)
  case 0
  then show ?case by (simp add: split_at_def)
next
  case (Suc n)
  show ?case
  proof (cases ts)
    case Nil
    then show ?thesis using Suc.prems(1) split_at_get [OF Suc.prems(1)] by (simp add: split_at_def)
  next
    case (Cons q qs)
    show ?thesis
    proof (cases "q = t")
      case True
      then show ?thesis
        using Cons split_at_get [OF Suc.prems(1)] split_at_drop(1) [of prev vs t qs l] Suc.prems(1)
        by (simp add: split_at_def)
    next
      case False
      then show ?thesis
        using Cons split_at_get [OF Suc.prems(1)] Suc.IH [of "Some q" "vs @ [q]" qs]
          split_at_step [of prev vs q qs l] Suc.prems
        by simp
    qed
  qed
qed

lemma linked_unlink: "linked l ts \<Longrightarrow> length ts \<le> n \<Longrightarrow> linked (unlink n None t l) (remove1 t ts)"
  using unlink_split [of None "[]" ts l t n] by (simp add: split_at_def)

lemma sweep_split:
  "split_at prev vs ts l \<Longrightarrow> length ts \<le> n \<Longrightarrow> linked (sweep n prev keep l) (vs @ filter keep ts)"
proof (induction n arbitrary: prev vs ts l)
  case 0
  then show ?case by (simp add: split_at_def)
next
  case (Suc n)
  show ?case
  proof (cases ts)
    case Nil
    then show ?thesis using Suc.prems(1) split_at_get [OF Suc.prems(1)] by (simp add: split_at_def)
  next
    case (Cons q qs)
    show ?thesis
    proof (cases "keep q")
      case True
      then show ?thesis
        using Cons split_at_get [OF Suc.prems(1)] Suc.IH [of "Some q" "vs @ [q]" qs l]
          split_at_step [of prev vs q qs l] Suc.prems
        by simp
    next
      case False
      then show ?thesis
        using Cons split_at_get [OF Suc.prems(1)] split_at_drop [of prev vs q qs l]
          Suc.IH [of prev vs qs "set_link prev (snd l q) (clear_link q l)"] Suc.prems
        by simp
    qed
  qed
qed

lemma linked_sweep: "linked l ts \<Longrightarrow> length ts \<le> n \<Longrightarrow> linked (sweep n None keep l) (filter keep ts)"
  using sweep_split [of None "[]" ts l n keep] by (simp add: split_at_def)

end
