(* ===== verification/Watchdog.thy ===== *)
theory Watchdog
  imports IntrusiveList
begin

text \<open>
  The timing side of a worker thread: the watchdog of \<^verbatim>\<open>port/os/stdlib/StdlibThread.cpp\<close>, a
  registry of the threads as an intrusive singly linked list, and the exit and idle hooks of
  \<^verbatim>\<open>port/os/common/ThreadHooks.h\<close>. Time points and durations are integers; a thread object is
  identified by a number. The list is modelled with its pointers: \<open>watchdogHead\<close> is the static
  head, \<open>watchdogNext\<close> the member \<^verbatim>\<open>m_watchdogNext\<close> of each thread object.
\<close>

section \<open>Registry\<close>

type_synonym thread_id = nat

record watchdogs =
  watchdogHead :: "thread_id option"
  watchdogNext :: "thread_id \<Rightarrow> thread_id option"
  lastAliveTime :: "thread_id \<Rightarrow> time_point"
  watchdogTimeout :: "thread_id \<Rightarrow> duration"

text \<open>The pointers as an intrusive list; \<open>n\<close> bounds its walks by the number of thread
  objects.\<close>

definition watchdog_links :: "watchdogs \<Rightarrow> thread_id links" where
  "watchdog_links w = (watchdogHead w, watchdogNext w)"

definition set_watchdog_links :: "thread_id links \<Rightarrow> watchdogs \<Rightarrow> watchdogs" where
  "set_watchdog_links l w = w\<lparr>watchdogHead := fst l, watchdogNext := snd l\<rparr>"

text \<open>\<^verbatim>\<open>WatchdogCheck\<close>: whether the handler is called for a thread, and \<^verbatim>\<open>WatchdogCheckAll\<close>:
  the threads it is called for.\<close>

definition WatchdogCheck :: "time_point \<Rightarrow> watchdogs \<Rightarrow> thread_id \<Rightarrow> bool" where
  "WatchdogCheck now w t \<longleftrightarrow>
     0 < watchdogTimeout w t \<and> watchdogTimeout w t < now - lastAliveTime w t"

definition WatchdogCheckAll :: "nat \<Rightarrow> time_point \<Rightarrow> watchdogs \<Rightarrow> thread_id list" where
  "WatchdogCheckAll n now w = filter (WatchdogCheck now w) (walk (watchdogNext w) (watchdogHead w) n)"

definition ThreadCheck :: "time_point \<Rightarrow> thread_id \<Rightarrow> watchdogs \<Rightarrow> watchdogs" where
  "ThreadCheck now t w = w\<lparr>lastAliveTime := (lastAliveTime w)(t := now)\<rparr>"

text \<open>The last part of \<^verbatim>\<open>CreateThread\<close>: the thread is put in front unless a walk finds it.\<close>

definition watchdog_create ::
  "nat \<Rightarrow> time_point \<Rightarrow> duration option \<Rightarrow> thread_id \<Rightarrow> watchdogs \<Rightarrow> watchdogs" where
  "watchdog_create n now timeout t w =
     (let w1 = w\<lparr>lastAliveTime := (lastAliveTime w)(t := now)\<rparr> in
      case timeout of
        None \<Rightarrow> w1
      | Some d \<Rightarrow>
          let w2 = w1\<lparr>watchdogTimeout := (watchdogTimeout w1)(t := d)\<rparr> in
          set_watchdog_links (link_front n t (watchdog_links w2)) w2)"

text \<open>The destructor.\<close>

definition watchdog_destroy :: "nat \<Rightarrow> thread_id \<Rightarrow> watchdogs \<Rightarrow> watchdogs" where
  "watchdog_destroy n t w = set_watchdog_links (unlink n None t (watchdog_links w)) w"

section \<open>The list behind the pointers\<close>

definition registry :: "watchdogs \<Rightarrow> thread_id list \<Rightarrow> bool" where
  "registry w ts \<longleftrightarrow> linked (watchdog_links w) ts"

lemma links_set [simp]: "watchdog_links (set_watchdog_links l w) = l"
  by (simp add: watchdog_links_def set_watchdog_links_def)

lemma registry_create:
  assumes "registry w ts" and "length ts \<le> n"
  shows "registry (watchdog_create n now timeout t w) (if timeout = None \<or> t \<in> set ts then ts else t # ts)"
proof -
  have l: "watchdog_links (w\<lparr>lastAliveTime := x\<rparr>) = watchdog_links w"
    "watchdog_links (w\<lparr>lastAliveTime := x, watchdogTimeout := y\<rparr>) = watchdog_links w" for x y
    by (simp_all add: watchdog_links_def)
  show ?thesis
    using assms linked_front [of "watchdog_links w" ts n t]
    by (simp add: registry_def watchdog_create_def l Let_def split: option.split if_splits)
qed

lemma registry_destroy:
  "registry w ts \<Longrightarrow> length ts \<le> n \<Longrightarrow> registry (watchdog_destroy n t w) (remove1 t ts)"
  by (simp add: registry_def watchdog_destroy_def linked_unlink)

section \<open>Exit and idle hooks\<close>

text \<open>\<^verbatim>\<open>ThreadExitGuard\<close>: \<open>Fire\<close> tells whether the handler runs now; the destructor fires
  too.\<close>

record exit_guard =
  guard_handler :: bool
  m_fired :: bool

definition Fire :: "exit_guard \<Rightarrow> bool \<times> exit_guard" where
  "Fire g = (\<not> m_fired g \<and> guard_handler g, g\<lparr>m_fired := True\<rparr>)"

record idle_timer =
  idle_handler :: bool
  m_interval :: duration
  m_due :: time_point

definition ThreadIdleTimer :: "bool \<Rightarrow> duration \<Rightarrow> time_point \<Rightarrow> idle_timer" where
  "ThreadIdleTimer handler interval now =
     \<lparr>idle_handler = handler, m_interval = interval, m_due = now + interval\<rparr>"

definition WaitTime :: "time_point \<Rightarrow> duration \<Rightarrow> idle_timer \<Rightarrow> duration" where
  "WaitTime now wait i =
     (if \<not> idle_handler i then wait
      else let untilIdle = (if m_due i - now < 0 then 0 else m_due i - now) in
           if wait < 0 \<or> untilIdle < wait then untilIdle else wait)"

definition IsDue :: "time_point \<Rightarrow> idle_timer \<Rightarrow> bool" where
  "IsDue now i \<longleftrightarrow> idle_handler i \<and> m_due i \<le> now"

definition Restart :: "time_point \<Rightarrow> idle_timer \<Rightarrow> idle_timer" where
  "Restart now i = (if idle_handler i then i\<lparr>m_due := now + m_interval i\<rparr> else i)"

text \<open>\<^verbatim>\<open>Run\<close>: the handler runs (it takes until \<open>finished\<close>) and the countdown restarts.\<close>

definition Run :: "time_point \<Rightarrow> idle_timer \<Rightarrow> idle_timer" where
  "Run finished i = Restart finished i"

text \<open>The worker loop as the idle timer sees it: at each time it wakes up either with a message,
  processed by then, or with an empty queue. The result lists the times the handler ran.\<close>

datatype wakeup = Message time_point | Empty time_point

fun wake_time :: "wakeup \<Rightarrow> time_point" where
  "wake_time (Message t) = t"
| "wake_time (Empty t) = t"

fun idle_loop :: "wakeup list \<Rightarrow> idle_timer \<Rightarrow> time_point list" where
  "idle_loop [] i = []"
| "idle_loop (Message t # ws) i = idle_loop ws (Restart t i)"
| "idle_loop (Empty t # ws) i =
     (if IsDue t i then t # idle_loop ws (Run t i) else idle_loop ws i)"

lemma idle_loop_after_due:
  assumes "idle_handler i" and "0 < m_interval i" and "sorted (map wake_time ws)"
    and "\<forall>x \<in> set ws. m_due i \<le> wake_time x + m_interval i"
  shows "\<forall>t \<in> set (idle_loop ws i). m_due i \<le> t"
  using assms
proof (induction ws i rule: idle_loop.induct)
  case (2 u ws i)
  then have "\<forall>t \<in> set (idle_loop ws (Restart u i)). m_due (Restart u i) \<le> t"
    by (intro 2) (auto simp: Restart_def)
  then show ?case using 2 by (auto simp: Restart_def)
next
  case (3 u ws i)
  show ?case
  proof (cases "IsDue u i")
    case True
    have "\<forall>t \<in> set (idle_loop ws (Run u i)). m_due (Run u i) \<le> t"
      using 3 True by (intro 3) (auto simp: Restart_def Run_def)
    then have "\<forall>t \<in> set (idle_loop ws (Run u i)). u + m_interval i \<le> t"
      using 3 by (simp add: Run_def Restart_def)
    moreover have "m_due i \<le> u" using True by (simp add: IsDue_def)
    ultimately show ?thesis using True 3 by force
  next
    case False
    then have "\<forall>t \<in> set (idle_loop ws i). m_due i \<le> t" using 3 by (intro 3) auto
    with False show ?thesis by simp
  qed
qed simp

section \<open>Properties\<close>

text \<open>
  The intrusive list of watched threads, manipulated through its pointers, is a duplicate-free
  list: creating a thread with a watchdog puts it in front unless it is registered, destroying a
  thread removes exactly that thread, and the periodic check calls the handler for exactly the
  registered threads that have been silent for longer than their own timeout.
\<close>

theorem watchdog_list_refines:
  assumes "registry w ts" and "length ts \<le> n"
  shows "registry (watchdog_create n now timeout t w) (if timeout = None \<or> t \<in> set ts then ts else t # ts)
    \<and> registry (watchdog_destroy n t w) (remove1 t ts)
    \<and> WatchdogCheckAll n now w =
        filter (\<lambda>u. 0 < watchdogTimeout w u \<and> watchdogTimeout w u < now - lastAliveTime w u) ts"
proof -
  have "walk (watchdogNext w) (watchdogHead w) n = ts"
    using walk_linked [of "watchdog_links w" ts n] assms by (simp add: registry_def watchdog_links_def)
  then show ?thesis
    using registry_create [OF assms] registry_destroy [OF assms]
    by (simp add: WatchdogCheckAll_def WatchdogCheck_def [abs_def])
qed

definition no_threads :: watchdogs where
  "no_threads = \<lparr>watchdogHead = None, watchdogNext = (\<lambda>_. None), lastAliveTime = (\<lambda>_. 0),
     watchdogTimeout = (\<lambda>_. 0)\<rparr>"

lemma watchdog_list_refines_witness:
  "registry (watchdog_create 3 10 (Some 5) 7 no_threads) [7]
   \<and> registry (watchdog_destroy 3 7 (watchdog_create 3 10 (Some 5) 7 no_threads)) []
   \<and> WatchdogCheckAll 3 16 (watchdog_create 3 10 (Some 5) 7 no_threads) = [7]"
proof -
  have "registry no_threads []"
    by (simp add: registry_def no_threads_def watchdog_links_def linked_def)
  then have r: "registry (watchdog_create 3 10 (Some 5) 7 no_threads) [7]"
    using watchdog_list_refines [of no_threads "[]" 3 10 "Some 5" 7] by simp
  then show ?thesis
    using watchdog_list_refines [OF r, of 3 16 None 7]
    by (simp add: watchdog_create_def no_threads_def Let_def set_watchdog_links_def)
qed

text \<open>
  The idle handler is invoked at most once per interval: between two invocations, and
  between a processed message and the next invocation, at least the interval passes.
\<close>

theorem idle_handler_spacing:
  assumes "idle_handler i" and "0 < m_interval i" and "sorted (map wake_time ws)"
    and "\<forall>x \<in> set ws. m_due i \<le> wake_time x + m_interval i"
  shows "sorted_wrt (\<lambda>a b. a + m_interval i \<le> b) (idle_loop ws i)
    \<and> (\<forall>vs u us. ws = vs @ Message u # us \<longrightarrow>
         (\<forall>t \<in> set (idle_loop us (Restart u i)). u + m_interval i \<le> t))"
proof
  show "sorted_wrt (\<lambda>a b. a + m_interval i \<le> b) (idle_loop ws i)"
    using assms
  proof (induction ws i rule: idle_loop.induct)
    case (2 u ws i)
    then have "sorted_wrt (\<lambda>a b. a + m_interval (Restart u i) \<le> b) (idle_loop ws (Restart u i))"
      by (intro 2) (auto simp: Restart_def)
    then show ?case using 2 by (simp add: Restart_def)
  next
    case (3 u ws i)
    have "sorted_wrt (\<lambda>a b. a + m_interval (Run u i) \<le> b) (idle_loop ws (Run u i))" if "IsDue u i"
      using 3 that by (intro 3) (auto simp: Restart_def Run_def)
    moreover have "\<forall>t \<in> set (idle_loop ws (Run u i)). m_due (Run u i) \<le> t"
      by (rule idle_loop_after_due) (use 3 in \<open>auto simp: Restart_def Run_def\<close>)
    ultimately show ?case
      using 3 by (auto simp: Run_def Restart_def)
  qed simp
  show "\<forall>vs u us. ws = vs @ Message u # us \<longrightarrow>
      (\<forall>t \<in> set (idle_loop us (Restart u i)). u + m_interval i \<le> t)"
  proof (intro allI impI)
    fix vs u us assume ws: "ws = vs @ Message u # us"
    have "\<forall>t \<in> set (idle_loop us (Restart u i)). m_due (Restart u i) \<le> t"
      by (rule idle_loop_after_due)
        (use assms ws in \<open>auto simp: Restart_def sorted_append\<close>)
    then show "\<forall>t \<in> set (idle_loop us (Restart u i)). u + m_interval i \<le> t"
      using assms(1) by (simp add: Restart_def)
  qed
qed

lemma idle_handler_spacing_witness:
  "idle_loop [Empty 3, Empty 5, Message 7, Empty 11, Empty 12, Empty 17] (ThreadIdleTimer True 5 0) = [5, 12, 17]
   \<and> sorted_wrt (\<lambda>a b. a + 5 \<le> b)
       (idle_loop [Empty 3, Empty 5, Message 7, Empty 11, Empty 12, Empty 17] (ThreadIdleTimer True 5 0))"
  using idle_handler_spacing [of "ThreadIdleTimer True 5 0"
      "[Empty 3, Empty 5, Message 7, Empty 11, Empty 12, Empty 17]"]
  by (simp add: ThreadIdleTimer_def IsDue_def Run_def Restart_def)

text \<open>
  Waiting for \<^verbatim>\<open>WaitTime\<close> the loop never oversleeps: the bound is not negative, not
  longer than the loop's own bound if it has one, and ends no later than the handler is due.
\<close>

theorem wait_time_bound:
  assumes "idle_handler i"
  shows "0 \<le> WaitTime now wait i \<and> (0 \<le> wait \<longrightarrow> WaitTime now wait i \<le> wait)
    \<and> now + WaitTime now wait i \<le> max now (m_due i)
    \<and> (wait < 0 \<and> now \<le> m_due i \<longrightarrow> IsDue (now + WaitTime now wait i) i)"
  using assms by (auto simp: WaitTime_def IsDue_def Let_def)

lemma wait_time_bound_witness:
  "0 \<le> WaitTime 3 (- 1) (ThreadIdleTimer True 5 0)
    \<and> IsDue (3 + WaitTime 3 (- 1) (ThreadIdleTimer True 5 0)) (ThreadIdleTimer True 5 0)"
  using wait_time_bound [of "ThreadIdleTimer True 5 0" 3 "- 1"] by (simp add: ThreadIdleTimer_def)

end
