(* ===== verification/AsyncCalls.thy ===== *)
theory AsyncCalls
  imports WorkerThread
begin

text \<open>
  \<^verbatim>\<open>delegate/DelegateAsyncWait.h\<close> with \<^verbatim>\<open>delegate/Semaphore.h\<close>: a call that is carried out
  on another thread while the caller blocks. Caller and worker share one message; its lock, its
  semaphore and its two flags decide who of them gets to the call first. One call is one
  \<open>message\<close> record, holding what both sides see, the places both stand at, and the clone
  of the delegate the worker invokes. The steps of the two sides are interleaved freely; a
  timeout may strike whenever the semaphore has not been signalled.
\<close>

section \<open>Semaphore\<close>

record Semaphore =
  m_signaled :: bool

definition Signal :: "Semaphore \<Rightarrow> Semaphore" where
  "Signal s = s\<lparr>m_signaled := True\<rparr>"

text \<open>\<^verbatim>\<open>Wait\<close>: \<open>None\<close> while it blocks, with the result once its predicate holds or, if the
  timeout is not \<^verbatim>\<open>Duration::max()\<close>, once the time is up.\<close>

definition Wait :: "bool \<Rightarrow> bool \<Rightarrow> Semaphore \<Rightarrow> (bool \<times> Semaphore) option" where
  "Wait forever time_is_up s =
     (if m_signaled s then Some (True, s\<lparr>m_signaled := False\<rparr>)
      else if time_is_up \<and> \<not> forever then Some (False, s)
      else None)"

section \<open>Dispatch state of a delegate\<close>

record 'r AsyncWaitDispatchState =
  dest_thread :: "nat option"
  dest_priority :: Priority
  call_timeout :: duration
  m_success :: bool
  m_retVal :: "'r option"

definition ResetResult :: "'r AsyncWaitDispatchState \<Rightarrow> 'r AsyncWaitDispatchState" where
  "ResetResult st = st\<lparr>m_retVal := None, m_success := False\<rparr>"

definition SetResult :: "bool \<Rightarrow> 'r option \<Rightarrow> 'r AsyncWaitDispatchState \<Rightarrow> 'r AsyncWaitDispatchState" where
  "SetResult success retVal st = st\<lparr>m_success := success, m_retVal := retVal\<rparr>"

definition dispatch_state_Equal :: "'r AsyncWaitDispatchState \<Rightarrow> 'r AsyncWaitDispatchState \<Rightarrow> bool" where
  "dispatch_state_Equal a b \<longleftrightarrow> dest_thread a = dest_thread b \<and> dest_priority a = dest_priority b
     \<and> call_timeout a = call_timeout b"

section \<open>The message\<close>

text \<open>What the target function does when it is called: it returns a value or throws.\<close>

datatype 'r target_result = Returns 'r | Throws

datatype caller_pc = Calling | In_Wait | Locking bool | Call_returned bool | Call_raised
datatype worker_pc = Not_queued | In_queue | In_target | Unlocking | Worker_done

record 'r message =
  m_sema :: Semaphore
  lock_held :: bool
  m_invokerWaiting :: bool
  m_invokeSucceeded :: bool
  clone :: "'r AsyncWaitDispatchState"
  wait_forever :: bool
  target :: "'r target_result"
  caller :: caller_pc
  worker :: worker_pc
  runs :: nat

definition DelegateAsyncWaitMsg ::
  "'r AsyncWaitDispatchState \<Rightarrow> bool \<Rightarrow> 'r target_result \<Rightarrow> 'r message" where
  "DelegateAsyncWaitMsg st forever f =
     \<lparr>m_sema = \<lparr>m_signaled = False\<rparr>, lock_held = False, m_invokerWaiting = False,
      m_invokeSucceeded = False, clone = st, wait_forever = forever, target = f,
      caller = Calling, worker = Not_queued, runs = 0\<rparr>"

section \<open>Calling the delegate\<close>

text \<open>
  \<^verbatim>\<open>operator()\<close> up to the dispatch, and from the result of \<^verbatim>\<open>DispatchAsyncWait\<close> to its
  return. With \<^verbatim>\<open>m_sync\<close> set, as on the clone the worker invokes, it calls the target itself.
\<close>

datatype 'r operator_start = Answered 'r | Raised | Dispatching "'r message"

definition async_wait_start ::
  "bool \<Rightarrow> bool \<Rightarrow> bool \<Rightarrow> 'r target_result \<Rightarrow> 'r \<Rightarrow> 'r AsyncWaitDispatchState
   \<Rightarrow> 'r operator_start \<times> 'r AsyncWaitDispatchState" where
  "async_wait_start is_empty m_sync forever f dflt st =
     (let st1 = ResetResult st in
      if is_empty then (Answered dflt, st1)
      else if m_sync then
        (case f of Returns r \<Rightarrow> (Answered r, st1) | Throws \<Rightarrow> (Raised, st1))
      else (Dispatching (DelegateAsyncWaitMsg st1 forever f), st1))"

definition async_wait_finish ::
  "bool \<Rightarrow> 'r message \<Rightarrow> 'r \<Rightarrow> 'r AsyncWaitDispatchState \<Rightarrow> 'r \<times> 'r AsyncWaitDispatchState" where
  "async_wait_finish success c dflt st =
     (let st1 = (if success then SetResult True (m_retVal (clone c)) st else st) in
      (case m_retVal st1 of Some r \<Rightarrow> r | None \<Rightarrow> dflt, st1))"

definition AsyncInvoke :: "'r \<times> 'r AsyncWaitDispatchState \<Rightarrow> 'r option" where
  "AsyncInvoke result = (if m_success (snd result) then Some (fst result) else None)"

section \<open>Steps of the caller\<close>

text \<open>\<^verbatim>\<open>DispatchAsyncWait\<close>: the dispatch, the wait, and the last section under the lock. The
  result of \<^verbatim>\<open>DispatchDelegate\<close> is that of the worker thread; an exception of it leaves the
  function.\<close>

definition send :: "dispatch_result \<Rightarrow> 'r message \<Rightarrow> 'r message" where
  "send result c =
     (let c1 = c\<lparr>m_invokerWaiting := True\<rparr> in
      if dest_thread (clone c) = None then c1\<lparr>caller := Locking False\<rparr>
      else (case result of
              Accepted \<Rightarrow> c1\<lparr>caller := In_Wait, worker := In_queue\<rparr>
            | Refused \<Rightarrow> c1\<lparr>caller := Locking False\<rparr>
            | Invalid_argument \<Rightarrow> c1\<lparr>caller := Call_raised\<rparr>
            | Pending \<Rightarrow> c))"

definition caller_wait :: "bool \<Rightarrow> 'r message \<Rightarrow> 'r message option" where
  "caller_wait time_is_up c =
     (case Wait (wait_forever c) time_is_up (m_sema c) of
        None \<Rightarrow> None
      | Some (waited, s) \<Rightarrow> Some (c\<lparr>m_sema := s, caller := Locking waited\<rparr>))"

definition caller_finish :: "bool \<Rightarrow> 'r message \<Rightarrow> 'r message" where
  "caller_finish waited c =
     (let success = (waited \<and> m_invokeSucceeded c) in
      c\<lparr>m_invokerWaiting := False, caller := Call_returned success\<rparr>)"

section \<open>Steps of the worker\<close>

text \<open>\<^verbatim>\<open>Invoke\<close>: taking the lock and looking whether the caller still waits, the end of the
  target function with the signal of the scope guard, and the release of the lock.
  \<^verbatim>\<open>Cancel\<close> is called instead when the thread discards the message.\<close>

definition Invoke_enter :: "'r message \<Rightarrow> 'r message" where
  "Invoke_enter c =
     (if m_invokerWaiting c then c\<lparr>lock_held := True, worker := In_target, runs := Suc (runs c)\<rparr>
      else c\<lparr>lock_held := True, worker := Unlocking\<rparr>)"

definition Invoke_target :: "'r \<Rightarrow> 'r message \<Rightarrow> 'r message" where
  "Invoke_target dflt c =
     (case async_wait_start False True (wait_forever c) (target c) dflt (clone c) of
        (Answered r, st) \<Rightarrow>
          c\<lparr>clone := st\<lparr>m_retVal := Some r\<rparr>, m_invokeSucceeded := True,
            m_sema := Signal (m_sema c), worker := Unlocking\<rparr>
      | (_, st) \<Rightarrow> c\<lparr>clone := st, m_sema := Signal (m_sema c), worker := Unlocking\<rparr>)"

definition Invoke_leave :: "'r message \<Rightarrow> 'r message" where
  "Invoke_leave c = c\<lparr>lock_held := False, worker := Worker_done\<rparr>"

definition Cancel :: "'r message \<Rightarrow> 'r message" where
  "Cancel c = c\<lparr>m_sema := Signal (m_sema c), worker := Worker_done\<rparr>"

section \<open>Interleaving\<close>

inductive call_step :: "'r message \<Rightarrow> 'r message \<Rightarrow> bool" where
  send: "caller c = Calling \<Longrightarrow> result \<noteq> Pending \<Longrightarrow> call_step c (send result c)"
| wait: "caller c = In_Wait \<Longrightarrow> caller_wait time_is_up c = Some c' \<Longrightarrow> call_step c c'"
| return: "caller c = Locking waited \<Longrightarrow> \<not> lock_held c \<Longrightarrow> call_step c (caller_finish waited c)"
| enter: "worker c = In_queue \<Longrightarrow> \<not> lock_held c \<Longrightarrow> call_step c (Invoke_enter c)"
| run: "worker c = In_target \<Longrightarrow> call_step c (Invoke_target dflt c)"
| leave: "worker c = Unlocking \<Longrightarrow> call_step c (Invoke_leave c)"
| cancel: "worker c = In_queue \<Longrightarrow> call_step c (Cancel c)"

text \<open>The states of a call: those reached from its fresh message by \<open>n\<close> steps.\<close>

definition call_after :: "nat \<Rightarrow> 'r message \<Rightarrow> 'r message \<Rightarrow> bool" where
  "call_after n c c' \<longleftrightarrow> (call_step ^^ n) c c'"

definition fresh_message :: "'r AsyncWaitDispatchState \<Rightarrow> bool \<Rightarrow> 'r target_result \<Rightarrow> 'r message" where
  "fresh_message st forever f = DelegateAsyncWaitMsg (ResetResult st) forever f"

lemmas call_defs = send_def caller_wait_def Wait_def caller_finish_def Invoke_enter_def
  Invoke_target_def Invoke_leave_def Cancel_def Signal_def async_wait_start_def ResetResult_def Let_def

section \<open>Invariant\<close>

text \<open>One phase per place of the worker, and the flag that tells it whether the caller waits.\<close>

definition answered :: "'r message \<Rightarrow> bool" where
  "answered c \<longleftrightarrow> m_invokeSucceeded c \<and> runs c = 1 \<and> (\<exists>r. target c = Returns r \<and> m_retVal (clone c) = Some r)"

definition unanswered :: "'r message \<Rightarrow> bool" where
  "unanswered c \<longleftrightarrow> \<not> m_invokeSucceeded c \<and> runs c \<le> 1 \<and> (runs c = 1 \<longrightarrow> target c = Throws)"

definition waiting_flag_ok :: "'r message \<Rightarrow> bool" where
  "waiting_flag_ok c \<longleftrightarrow> m_invokerWaiting c = (caller c \<in> {In_Wait, Locking True, Locking False, Call_raised})"

definition phase_ok :: "'r message \<Rightarrow> bool" where
  "phase_ok c = (case worker c of
     Not_queued \<Rightarrow> \<not> lock_held c \<and> \<not> m_signaled (m_sema c) \<and> \<not> m_invokeSucceeded c \<and> runs c = 0
       \<and> caller c \<in> {Calling, Locking False, Call_returned False, Call_raised}
   | In_queue \<Rightarrow> \<not> lock_held c \<and> \<not> m_signaled (m_sema c) \<and> \<not> m_invokeSucceeded c \<and> runs c = 0
       \<and> caller c \<in> {In_Wait, Locking False, Call_returned False}
   | In_target \<Rightarrow> lock_held c \<and> \<not> m_signaled (m_sema c) \<and> \<not> m_invokeSucceeded c \<and> runs c = 1
       \<and> caller c \<in> {In_Wait, Locking False}
   | _ \<Rightarrow> lock_held c = (worker c = Unlocking) \<and> caller c \<notin> {Calling, Call_raised}
       \<and> (caller c = In_Wait \<longrightarrow> m_signaled (m_sema c))
       \<and> (answered c \<or> unanswered c \<and> caller c \<noteq> Call_returned True))"

definition call_inv :: "'r message \<Rightarrow> bool" where
  "call_inv c \<longleftrightarrow> waiting_flag_ok c \<and> phase_ok c"

lemmas call_inv_defs = call_inv_def waiting_flag_ok_def phase_ok_def answered_def unanswered_def

lemma fresh_inv: "call_inv (fresh_message st forever f)"
  by (simp add: fresh_message_def DelegateAsyncWaitMsg_def call_inv_defs)

lemma step_inv:
  assumes "call_step c c'" and "call_inv c"
  shows "call_inv c'"
  using assms
proof (induction rule: call_step.induct)
  case (send c result)
  then show ?case
    by (cases "worker c"; cases result; cases "dest_thread (clone c)") (auto simp: call_inv_defs send_def Let_def)
next
  case (wait c time_is_up c')
  then show ?case
    by (cases "worker c") (auto simp: call_inv_defs caller_wait_def Wait_def split: if_splits)
next
  case (return c waited)
  then show ?case
    by (cases "worker c"; cases waited) (auto simp: call_inv_defs caller_finish_def Let_def)
next
  case (enter c)
  then show ?case by (cases "caller c") (auto simp: call_inv_defs Invoke_enter_def)
next
  case (run c dflt)
  then show ?case
    by (cases "caller c"; cases "target c")
      (auto simp: call_inv_defs Invoke_target_def async_wait_start_def Signal_def Let_def)
next
  case (leave c)
  then show ?case by (cases "caller c") (auto simp: call_inv_defs Invoke_leave_def)
next
  case (cancel c)
  then show ?case by (cases "caller c") (auto simp: call_inv_defs Cancel_def Signal_def)
qed

lemma after_inv: "call_after n c c' \<Longrightarrow> call_inv c \<Longrightarrow> call_inv c'"
  unfolding call_after_def by (induction n arbitrary: c') (auto intro: step_inv)

lemma step_const: "call_step c c' \<Longrightarrow> target c' = target c \<and> wait_forever c' = wait_forever c
    \<and> dest_thread (clone c') = dest_thread (clone c)"
  by (induction rule: call_step.induct)
    (auto simp: call_defs split: dispatch_result.splits option.splits target_result.splits if_splits)

section \<open>Progress\<close>

text \<open>Each step takes one of the two sides further.\<close>

fun caller_left :: "caller_pc \<Rightarrow> nat" where
  "caller_left Calling = 6"
| "caller_left In_Wait = 2"
| "caller_left (Locking w) = 1"
| "caller_left _ = 0"

fun worker_left :: "worker_pc \<Rightarrow> nat" where
  "worker_left Not_queued = 0"
| "worker_left In_queue = 3"
| "worker_left In_target = 2"
| "worker_left Unlocking = 1"
| "worker_left Worker_done = 0"

definition work_left :: "'r message \<Rightarrow> nat" where
  "work_left c = caller_left (caller c) + worker_left (worker c)"

lemma step_decreases: "call_step c c' \<Longrightarrow> call_inv c \<Longrightarrow> work_left c' < work_left c"
  by (induction rule: call_step.induct)
    (auto simp: work_left_def call_defs call_inv_defs split: dispatch_result.splits option.splits
      target_result.splits if_splits)

lemma after_decreases: "call_after n c c' \<Longrightarrow> call_inv c \<Longrightarrow> work_left c' + n \<le> work_left c"
  unfolding call_after_def
proof (induction n arbitrary: c')
  case (Suc n)
  then obtain d where d: "(call_step ^^ n) c d" "call_step d c'" by auto
  then have "call_inv d" using after_inv [of n c d] Suc.prems by (simp add: call_after_def)
  with Suc d step_decreases [OF d(2)] show ?case by fastforce
qed simp

lemma not_finished_step:
  assumes "call_inv c" and "0 < work_left c"
  shows "\<exists>c'. call_step c c'"
proof (cases "worker c")
  case In_queue
  then show ?thesis using call_step.enter [of c] assms(1) by (auto simp: call_inv_defs)
next
  case In_target
  then show ?thesis using call_step.run [of c undefined] by blast
next
  case Unlocking
  then show ?thesis using call_step.leave by blast
next
  case Not_queued
  with assms consider "caller c = Calling" | "caller c = Locking False"
    by (auto simp: call_inv_defs work_left_def)
  then show ?thesis
  proof cases
    case 1
    then show ?thesis using call_step.send [of c Refused] by auto
  next
    case 2
    then show ?thesis using call_step.return [of c False] assms(1) Not_queued by (auto simp: call_inv_defs)
  qed
next
  case Worker_done
  with assms consider "caller c = In_Wait" "m_signaled (m_sema c)" | w where "caller c = Locking w"
    by (cases "caller c") (auto simp: call_inv_defs work_left_def)
  then show ?thesis
  proof cases
    case 1
    then show ?thesis using call_step.wait [of c False] by (auto simp: caller_wait_def Wait_def)
  next
    case 2
    then show ?thesis using call_step.return [of c w] assms(1) Worker_done by (auto simp: call_inv_defs)
  qed
qed

lemma after_const: "call_after n c c' \<Longrightarrow> target c' = target c \<and> wait_forever c' = wait_forever c"
  unfolding call_after_def by (induction n arbitrary: c') (auto dest: step_const)

lemma fresh_target: "target (fresh_message st forever f) = f"
  by (simp add: fresh_message_def DelegateAsyncWaitMsg_def)

lemma fresh_reached:
  assumes "call_after n (fresh_message st forever f) c"
  shows "call_inv c" and "target c = f"
  using after_inv [OF assms fresh_inv] after_const [OF assms] by (simp_all add: fresh_target)

text \<open>Facts that stay true from some state on.\<close>

lemma after_stable:
  assumes "call_after n c c'" and "P c" and "call_inv c"
    and "\<And>d d'. call_step d d' \<Longrightarrow> call_inv d \<Longrightarrow> P d \<Longrightarrow> P d'"
  shows "P c'"
  using assms(1)
proof (induction n arbitrary: c')
  case 0
  then show ?case using assms(2) by (simp add: call_after_def)
next
  case (Suc n)
  then obtain d where d: "call_after n c d" "call_step d c'" by (auto simp: call_after_def)
  with Suc.IH [OF d(1)] assms(4) [OF d(2)] after_inv [OF d(1) assms(3)] show ?case by blast
qed

lemma returned_stable:
  assumes "call_step d d'" and "call_inv d" and "caller d = Call_returned b \<and> runs d = k"
  shows "caller d' = Call_returned b \<and> runs d' = k"
  using assms
  by (induction rule: call_step.induct)
    (auto simp: call_defs call_inv_defs split: target_result.splits)

lemma timed_out_stable:
  assumes "call_step d d'" and "call_inv d"
    and "caller d \<in> {Locking False, Call_returned False} \<and> runs d = 1"
  shows "caller d' \<in> {Locking False, Call_returned False} \<and> runs d' = 1"
  using assms
  by (induction rule: call_step.induct)
    (auto simp: call_defs call_inv_defs split: target_result.splits)

lemma done_stable:
  assumes "call_step d d'" and "call_inv d" and "worker d = Worker_done \<and> runs d = 0"
  shows "worker d' = Worker_done \<and> runs d' = 0"
  using assms
  by (induction rule: call_step.induct)
    (auto simp: call_defs call_inv_defs split: target_result.splits option.splits if_splits)

text \<open>The value of a call that has returned.\<close>

lemma call_value:
  assumes "call_after n (fresh_message st forever (Returns v)) c" and "caller c = Call_returned success"
  shows "AsyncInvoke (async_wait_finish success c dflt (ResetResult st)) = (if success then Some v else None)"
proof (cases success)
  case True
  with fresh_reached [OF assms(1)] assms(2) have "answered c" "target c = Returns v"
    by (cases "worker c"; simp add: call_inv_def phase_ok_def)+
  with True show ?thesis
    by (auto simp: answered_def AsyncInvoke_def async_wait_finish_def SetResult_def Let_def)
qed (simp add: AsyncInvoke_def async_wait_finish_def ResetResult_def Let_def)

section \<open>A call in detail\<close>

text \<open>A call of a function that returns 7, up to the dispatch, into the target, out of it, and the
  return of a caller that waited long enough.\<close>

definition caller_state :: "nat AsyncWaitDispatchState" where
  "caller_state = \<lparr>dest_thread = Some 1, dest_priority = NORMAL, call_timeout = 5,
     m_success = True, m_retVal = Some 3\<rparr>"

definition seven :: "nat message" where
  "seven = fresh_message caller_state False (Returns 7)"

definition seven_queued :: "nat message" where "seven_queued = send Accepted seven"
definition seven_running :: "nat message" where "seven_running = Invoke_enter seven_queued"
definition seven_late :: "nat message" where "seven_late = the (caller_wait True seven_running)"
definition seven_signalled :: "nat message" where "seven_signalled = Invoke_target 0 seven_running"
definition seven_done :: "nat message" where
  "seven_done = caller_finish True (the (caller_wait False (Invoke_leave seven_signalled)))"

lemmas seven_defs = seven_def caller_state_def seven_queued_def seven_running_def seven_late_def seven_signalled_def
  seven_done_def fresh_message_def DelegateAsyncWaitMsg_def call_defs

lemma after_0: "call_after 0 c c"
  by (simp add: call_after_def)

lemma after_Suc: "call_after n c d \<Longrightarrow> call_step d c' \<Longrightarrow> call_after (Suc n) c c'"
  by (auto simp: call_after_def)

lemma seven_after:
  "call_after 1 seven seven_queued" "call_after 2 seven seven_running" "call_after 3 seven seven_late"
  "call_after 3 seven seven_signalled" "call_after 6 seven seven_done"
proof -
  have q: "call_after (Suc 0) seven seven_queued"
    unfolding seven_queued_def by (rule after_Suc [OF after_0]) (rule call_step.send; simp add: seven_defs)
  have r: "call_after (Suc (Suc 0)) seven seven_running"
    unfolding seven_running_def by (rule after_Suc [OF q]) (rule call_step.enter; simp add: seven_defs)
  have l: "call_after (Suc (Suc (Suc 0))) seven seven_late"
    by (rule after_Suc [OF r]) (rule call_step.wait [where time_is_up = True]; simp add: seven_defs)
  have g: "call_after (Suc (Suc (Suc 0))) seven seven_signalled"
    unfolding seven_signalled_def by (rule after_Suc [OF r]) (rule call_step.run; simp add: seven_defs)
  have "call_after (Suc (Suc (Suc (Suc 0)))) seven (Invoke_leave seven_signalled)"
    by (rule after_Suc [OF g]) (rule call_step.leave; simp add: seven_defs)
  then have "call_after (Suc (Suc (Suc (Suc (Suc 0))))) seven (the (caller_wait False (Invoke_leave seven_signalled)))"
    by (rule after_Suc) (rule call_step.wait [where time_is_up = False]; simp add: seven_defs)
  then have d: "call_after (Suc (Suc (Suc (Suc (Suc (Suc 0)))))) seven seven_done"
    unfolding seven_done_def by (rule after_Suc) (rule call_step.return; simp add: seven_defs)
  show "call_after 1 seven seven_queued" "call_after 2 seven seven_running" "call_after 3 seven seven_late"
    "call_after 3 seven seven_signalled" "call_after 6 seven seven_done"
    using q r l g d by (simp_all add: numeral_eq_Suc)
qed

lemmas seven_reached = seven_after [unfolded seven_def]

lemma seven_places:
  "caller seven_done = Call_returned True" "caller seven_late = Locking False"
  "worker seven_late = In_target" "caller seven_queued = In_Wait" "worker seven_queued = In_queue"
  by (simp_all add: seven_defs)

section \<open>Properties\<close>

text \<open>
  C4: when the caller returns with success, \<^verbatim>\<open>AsyncInvoke\<close> gives the value the target
  function returned in its one execution; without success it gives nothing and
  \<^verbatim>\<open>operator()\<close> the default value, never a result of an earlier call.
\<close>

theorem async_call_result:
  assumes "call_after n (fresh_message st forever f) c" and "caller c = Call_returned success"
  shows "case AsyncInvoke (async_wait_finish success c dflt (ResetResult st)) of
      Some r \<Rightarrow> success \<and> f = Returns r \<and> runs c = 1
    | None \<Rightarrow> \<not> success \<and> fst (async_wait_finish success c dflt (ResetResult st)) = dflt"
proof (cases success)
  case True
  with fresh_reached [OF assms(1)] assms(2) have "answered c" "target c = f"
    by (cases "worker c"; simp add: call_inv_def phase_ok_def)+
  with True show ?thesis
    by (auto simp: answered_def AsyncInvoke_def async_wait_finish_def SetResult_def Let_def)
qed (simp add: AsyncInvoke_def async_wait_finish_def ResetResult_def Let_def)

lemma async_call_result_witness:
  "case AsyncInvoke (async_wait_finish True seven_done 0 (ResetResult caller_state)) of
      Some r \<Rightarrow> True \<and> Returns 7 = Returns r \<and> runs seven_done = 1
    | None \<Rightarrow> \<not> True \<and> fst (async_wait_finish True seven_done 0 (ResetResult caller_state)) = 0"
  by (rule async_call_result [OF seven_reached(5) seven_places(1)])

text \<open>
  C5: the target function runs at most once, and it neither runs nor starts to run once the
  caller has returned, so arguments that live on the caller's stack are never used too late.
\<close>

theorem target_never_late:
  assumes "call_after n (fresh_message st forever f) c" and "caller c = Call_returned success"
    and "call_after k c c'"
  shows "runs c \<le> 1 \<and> worker c' \<noteq> In_target \<and> runs c' = runs c"
proof -
  have inv: "call_inv c" using fresh_reached [OF assms(1)] by simp
  have "worker d \<noteq> In_target \<and> runs d \<le> 1" if "call_inv d" "caller d = Call_returned success" for d :: "'a message"
    using that by (cases "worker d") (auto simp: call_inv_defs)
  moreover have "caller c' = Call_returned success \<and> runs c' = runs c"
    by (rule after_stable [OF assms(3) _ inv])
      (use assms(2) returned_stable [where b = success and k = "runs c"] in auto)
  ultimately show ?thesis using inv assms(2) after_inv [OF assms(3) inv] by metis
qed

lemma target_never_late_witness:
  "runs seven_done \<le> 1 \<and> worker seven_done \<noteq> In_target \<and> runs seven_done = runs seven_done"
  by (rule target_never_late [OF seven_reached(5) seven_places(1) after_0])

text \<open>
  C6: the protocol neither deadlocks nor loses a wake-up: caller and worker take at most six
  steps together, and when no step is left the caller has returned and the worker is through
  with the message, even with an infinite timeout.
\<close>

theorem async_call_completes:
  assumes "call_after n (fresh_message st forever f) c"
  shows "n \<le> 6 \<and> ((\<exists>c'. call_step c c') \<or>
    caller c \<in> {Call_returned True, Call_returned False, Call_raised} \<and> worker c \<in> {Not_queued, Worker_done})"
proof (intro conjI)
  show "n \<le> 6"
    using after_decreases [OF assms fresh_inv]
    by (simp add: work_left_def fresh_message_def DelegateAsyncWaitMsg_def)
  have "caller c \<in> {Call_returned True, Call_returned False, Call_raised} \<and> worker c \<in> {Not_queued, Worker_done}"
    if "work_left c = 0"
    using that by (cases "caller c"; cases "worker c") (auto simp: work_left_def)
  then show "(\<exists>c'. call_step c c') \<or>
    caller c \<in> {Call_returned True, Call_returned False, Call_raised} \<and> worker c \<in> {Not_queued, Worker_done}"
    using not_finished_step [OF fresh_reached(1) [OF assms]] by blast
qed

lemma async_call_completes_witness:
  "(6::nat) \<le> 6 \<and> ((\<exists>c'. call_step seven_done c') \<or>
    caller seven_done \<in> {Call_returned True, Call_returned False, Call_raised}
    \<and> worker seven_done \<in> {Not_queued, Worker_done})"
  by (rule async_call_completes [OF seven_reached(5)])

text \<open>
  A call whose message the thread discards (\<^verbatim>\<open>DelegateMsg::Cancel\<close>) is released without
  waiting out its timeout, its target is never run, and it can only return failure.
\<close>

theorem discarded_call_released:
  assumes "call_after n (fresh_message st forever f) c" and "worker c = In_queue" and "caller c = In_Wait"
    and "call_after k (Cancel c) c'"
  shows "caller_wait False (Cancel c) \<noteq> None \<and> runs c' = 0 \<and> caller c' \<noteq> Call_returned True"
proof -
  have inv: "call_inv c" using fresh_reached(1) [OF assms(1)] .
  have inv': "call_inv (Cancel c)" using step_inv [OF call_step.cancel [OF assms(2)] inv] .
  have start: "worker (Cancel c) = Worker_done \<and> runs (Cancel c) = 0"
    using inv assms(2) by (simp add: Cancel_def call_inv_def phase_ok_def)
  have "worker c' = Worker_done \<and> runs c' = 0"
    by (rule after_stable [where P = "\<lambda>d. worker d = Worker_done \<and> runs d = 0", OF assms(4) start inv' done_stable])
  then show ?thesis
    using after_inv [OF assms(4) inv'] by (auto simp: call_inv_defs Cancel_def caller_wait_def Wait_def Signal_def)
qed

lemma discarded_call_released_witness:
  "caller_wait False (Cancel seven_queued) \<noteq> None \<and> runs (Cancel seven_queued) = 0
   \<and> caller (Cancel seven_queued) \<noteq> Call_returned True"
  by (rule discarded_call_released [OF seven_reached(1) seven_places(5,4) after_0])

text \<open>
  A timeout that strikes while the target function runs does not end the call: the only next
  step is the function's own, the caller staying blocked on the lock, and when the caller returns
  it reports failure although the function was executed.
\<close>

theorem timeout_during_target:
  assumes "call_after n (fresh_message st forever f) c" and "caller c = Locking False" and "worker c = In_target"
    and "call_step c c'" and "call_after k c d" and "caller d = Call_returned success"
  shows "caller c' = Locking False \<and> worker c' = Unlocking \<and> \<not> success \<and> runs d = 1"
proof -
  have inv: "call_inv c" using fresh_reached(1) [OF assms(1)] .
  then have held: "lock_held c" and runs: "caller c \<in> {Locking False, Call_returned False} \<and> runs c = 1"
    using assms(2,3) by (simp_all add: call_inv_def phase_ok_def)
  have "caller c' = Locking False \<and> worker c' = Unlocking"
    using assms(4) held assms(2,3)
    by (induction rule: call_step.induct)
      (auto simp: Invoke_target_def async_wait_start_def Let_def split: target_result.splits)
  moreover have "caller d \<in> {Locking False, Call_returned False} \<and> runs d = 1"
    by (rule after_stable [where P = "\<lambda>d. caller d \<in> {Locking False, Call_returned False} \<and> runs d = 1",
          OF assms(5) runs inv timed_out_stable])
  ultimately show ?thesis using assms(6) by auto
qed

lemma timeout_during_target_witness:
  "caller (Invoke_target 0 seven_late) = Locking False \<and> worker (Invoke_target 0 seven_late) = Unlocking
   \<and> \<not> False \<and> runs (caller_finish False (Invoke_leave (Invoke_target 0 seven_late))) = 1"
proof (rule timeout_during_target [OF seven_reached(3) seven_places(2,3) call_step.run [OF seven_places(3)]])
  have "call_after (Suc (Suc (Suc 0))) seven_late (caller_finish False (Invoke_leave (Invoke_target 0 seven_late)))"
    by (rule after_Suc [OF after_Suc [OF after_Suc [OF after_0 call_step.run] call_step.leave] call_step.return])
      (simp_all add: seven_defs)
  then show "call_after 3 seven_late (caller_finish False (Invoke_leave (Invoke_target 0 seven_late)))"
    by (simp add: numeral_eq_Suc)
qed (simp add: caller_finish_def)

end
