(* ===== verification/AsyncHttp.thy ===== *)
theory AsyncHttp
  imports AsyncCalls
begin

text \<open>
  \<^verbatim>\<open>src/HTTP/async_http.{h,cpp}\<close>: the HTTP client. Each instance owns a worker thread (that of
  \<open>WorkerThread\<close>, with \<open>http_task\<close>s as payloads) and a libcurl handle only the worker
  touches. libcurl is a parameter: a \<open>curl_api\<close> holds the functions the code calls, on handles
  of an unspecified type \<open>'h\<close>; \<open>curl_laws\<close> states what its documentation promises of
  \<^verbatim>\<open>curl_easy_reset\<close> and \<^verbatim>\<open>curl_easy_setopt\<close>.
\<close>

section \<open>libcurl\<close>

datatype curl_option =
    CURLOPT_URL string
  | CURLOPT_HTTPGET
  | CURLOPT_POST
  | CURLOPT_POSTFIELDS string
  | CURLOPT_POSTFIELDSIZE int
  | CURLOPT_HTTPHEADER "string list"
  | CURLOPT_WRITEFUNCTION
  | CURLOPT_WRITEDATA
  | CURLOPT_FOLLOWLOCATION
  | CURLOPT_TIMEOUT nat

text \<open>A transfer ends with a result code (0 is \<^verbatim>\<open>CURLE_OK\<close>), after handing the body to the write
  callback in chunks; \<open>response_code\<close> is what \<^verbatim>\<open>curl_easy_getinfo\<close> tells afterwards.\<close>

record transfer =
  result_code :: int
  chunks :: "string list"
  response_code :: int

record 'h curl_api =
  easy_reset :: "'h \<Rightarrow> 'h"
  easy_setopt :: "curl_option \<Rightarrow> 'h \<Rightarrow> 'h"
  easy_perform :: "'h \<Rightarrow> transfer \<times> 'h"
  easy_strerror :: "int \<Rightarrow> string"

text \<open>\<open>options h\<close>: the options set on a handle since it was last reset, in order.\<close>

definition curl_laws :: "'h curl_api \<Rightarrow> ('h \<Rightarrow> curl_option list) \<Rightarrow> bool" where
  "curl_laws curl options \<longleftrightarrow>
     (\<forall>h. options (easy_reset curl h) = []) \<and>
     (\<forall>opt h. options (easy_setopt curl opt h) = options h @ [opt])"

section \<open>Requests on the worker\<close>

record HttpResponse =
  statusCode :: int
  body :: string
  error :: string

definition empty_response :: HttpResponse where
  "empty_response = \<lparr>statusCode = 0, body = '''', error = ''''\<rparr>"

definition ok :: "HttpResponse \<Rightarrow> bool" where
  "ok r \<longleftrightarrow> 200 \<le> statusCode r \<and> statusCode r < 300"

text \<open>The write callback gets \<open>sz * nmemb\<close> bytes at \<open>ptr\<close> and returns how many it took.
  A transfer calls it once per chunk.\<close>

definition WriteCallback :: "string \<Rightarrow> nat \<Rightarrow> nat \<Rightarrow> string \<Rightarrow> nat \<times> string" where
  "WriteCallback ptr sz nmemb userdata = (sz * nmemb, userdata @ take (sz * nmemb) ptr)"

definition receive :: "string list \<Rightarrow> string" where
  "receive cs = foldl (\<lambda>b c. snd (WriteCallback c 1 (length c) b)) '''' cs"

text \<open>A \<^verbatim>\<open>std::string\<close> handed over as a C string ends at its first zero byte.\<close>

definition c_str :: "string \<Rightarrow> string" where
  "c_str s = takeWhile (\<lambda>c. c \<noteq> CHR 0x00) s"

text \<open>What both request functions make of the transfer; \<^verbatim>\<open>static_cast<int>\<close> narrows the code.\<close>

definition respond :: "'h curl_api \<Rightarrow> transfer \<Rightarrow> HttpResponse" where
  "respond curl t =
     (if result_code t \<noteq> 0 then empty_response\<lparr>error := easy_strerror curl (result_code t)\<rparr>
      else empty_response\<lparr>statusCode := sint (word_of_int (response_code t) :: u32),
                          body := receive (chunks t)\<rparr>)"

definition HttpGet :: "'h curl_api \<Rightarrow> string \<Rightarrow> 'h option \<Rightarrow> HttpResponse \<times> 'h option" where
  "HttpGet curl url m_curl =
     (case m_curl of
        None \<Rightarrow> (empty_response\<lparr>error := ''Not initialized''\<rparr>, None)
      | Some h \<Rightarrow>
          let h0 = easy_reset curl h;
              h1 = easy_setopt curl (CURLOPT_URL (c_str url)) h0;
              h2 = easy_setopt curl CURLOPT_HTTPGET h1;
              h3 = easy_setopt curl CURLOPT_WRITEFUNCTION h2;
              h4 = easy_setopt curl CURLOPT_WRITEDATA h3;
              h5 = easy_setopt curl CURLOPT_FOLLOWLOCATION h4;
              h6 = easy_setopt curl (CURLOPT_TIMEOUT 10) h5;
              (t, h7) = easy_perform curl h6
          in (respond curl t, Some h7))"

definition HttpPost ::
  "'h curl_api \<Rightarrow> string \<Rightarrow> string \<Rightarrow> string \<Rightarrow> 'h option \<Rightarrow> HttpResponse \<times> 'h option" where
  "HttpPost curl url post_body contentType m_curl =
     (case m_curl of
        None \<Rightarrow> (empty_response\<lparr>error := ''Not initialized''\<rparr>, None)
      | Some h \<Rightarrow>
          let headers = [c_str (''Content-Type: '' @ contentType)];
              h0 = easy_reset curl h;
              h1 = easy_setopt curl (CURLOPT_URL (c_str url)) h0;
              h2 = easy_setopt curl CURLOPT_POST h1;
              h3 = easy_setopt curl (CURLOPT_POSTFIELDS post_body) h2;
              h4 = easy_setopt curl (CURLOPT_POSTFIELDSIZE (int (length post_body))) h3;
              h5 = easy_setopt curl (CURLOPT_HTTPHEADER headers) h4;
              h6 = easy_setopt curl CURLOPT_WRITEFUNCTION h5;
              h7 = easy_setopt curl CURLOPT_WRITEDATA h6;
              h8 = easy_setopt curl CURLOPT_FOLLOWLOCATION h7;
              h9 = easy_setopt curl (CURLOPT_TIMEOUT 10) h8;
              (t, h10) = easy_perform curl h9
          in (respond curl t, Some h10))"

datatype http_request = GET string | POST string string string

fun HttpCall :: "'h curl_api \<Rightarrow> http_request \<Rightarrow> 'h option \<Rightarrow> HttpResponse \<times> 'h option" where
  "HttpCall curl (GET url) h = HttpGet curl url h"
| "HttpCall curl (POST url b ct) h = HttpPost curl url b ct h"

section \<open>The client object\<close>

text \<open>Who gets the response of a request: a callback, the promise behind a future, or a blocked
  caller. Each is known by a number; the log \<open>delivered\<close> says who got what.\<close>

datatype receiver = Callback nat | Promise nat | Blocked nat
datatype http_task = Request http_request "receiver option" | Cleanup nat

record 'h AsyncHttp =
  http_thread :: "http_task thread_state"
  m_curl :: "'h option"
  m_running :: bool
  delivered :: "(receiver \<times> HttpResponse) list"

definition AsyncHttp :: "'h AsyncHttp" where
  "AsyncHttp = \<lparr>http_thread = StdlibThread 0 FAULT, m_curl = None, m_running = False, delivered = []\<rparr>"

definition HttpCleanup :: "'h AsyncHttp \<Rightarrow> 'h AsyncHttp" where
  "HttpCleanup c = c\<lparr>m_curl := None\<rparr>"

text \<open>\<^verbatim>\<open>DoGetCallback\<close> and \<^verbatim>\<open>DoPostCallback\<close> (an unset callback is not called), the task of a
  future, and that of a blocked caller.\<close>

definition perform_request :: "'h curl_api \<Rightarrow> http_request \<Rightarrow> receiver option \<Rightarrow> 'h AsyncHttp \<Rightarrow> 'h AsyncHttp" where
  "perform_request curl r rc c =
     (let (resp, h) = HttpCall curl r (m_curl c) in
      c\<lparr>m_curl := h, delivered := delivered c @ (case rc of None \<Rightarrow> [] | Some x \<Rightarrow> [(x, resp)])\<rparr>)"

text \<open>A task of a blocking call is skipped when its caller has stopped waiting, see
  \<open>Invoke_enter\<close>.\<close>

fun still_wanted :: "(nat \<Rightarrow> bool) \<Rightarrow> http_task \<Rightarrow> bool" where
  "still_wanted waiting (Request r (Some (Blocked k))) = waiting k"
| "still_wanted waiting (Cleanup k) = waiting k"
| "still_wanted waiting (Request r rc) = True"

fun run_task :: "'h curl_api \<Rightarrow> http_task \<Rightarrow> 'h AsyncHttp \<Rightarrow> 'h AsyncHttp" where
  "run_task curl (Request r rc) c = perform_request curl r rc c"
| "run_task curl (Cleanup k) c = HttpCleanup c"

definition serve :: "'h curl_api \<Rightarrow> (nat \<Rightarrow> bool) \<Rightarrow> http_task \<Rightarrow> 'h AsyncHttp \<Rightarrow> 'h AsyncHttp" where
  "serve curl waiting task c = (if still_wanted waiting task then run_task curl task c else c)"

text \<open>The worker at work on the client: passes of \<open>process_run\<close>, each invocation carrying out
  its task.\<close>

definition client_pass :: "'h curl_api \<Rightarrow> (nat \<Rightarrow> bool) \<Rightarrow> 'h AsyncHttp \<Rightarrow> 'h AsyncHttp" where
  "client_pass curl waiting c =
     (case process (http_thread c) of
        Returned \<Rightarrow> c
      | Waiting \<Rightarrow> c\<lparr>http_thread := process_take (http_thread c)\<rparr>
      | Invoking m \<Rightarrow>
          (serve curl waiting (payload m) c)\<lparr>http_thread := process_done True (http_thread c)\<rparr>)"

fun client_run :: "'h curl_api \<Rightarrow> (nat \<Rightarrow> bool) \<Rightarrow> nat \<Rightarrow> 'h AsyncHttp \<Rightarrow> 'h AsyncHttp" where
  "client_run curl waiting 0 c = c"
| "client_run curl waiting (Suc n) c = client_run curl waiting n (client_pass curl waiting c)"

section \<open>The interface\<close>

text \<open>\<^verbatim>\<open>GetThreadId\<close> throws unless the thread object exists; \<open>tid\<close> is what
  \<^verbatim>\<open>m_thread->get_id()\<close> gives, 0 standing for the default \<^verbatim>\<open>std::thread::id()\<close>.\<close>

datatype http_exception = Thread_pointer_is_null

definition GetThreadId :: "'a thread_state \<Rightarrow> nat \<Rightarrow> http_exception + nat" where
  "GetThreadId t tid = (if \<not> m_thread t then Inl Thread_pointer_is_null else Inr tid)"

text \<open>The blocking calls. \<open>retVal\<close> is what the asynchronous call to the worker gives
  (\<open>AsyncInvoke\<close>), \<open>current\<close> the id of the calling thread.\<close>

definition timed_out_response :: HttpResponse where
  "timed_out_response = empty_response\<lparr>error := ''Request timed out''\<rparr>"

definition GetWait ::
  "'h curl_api \<Rightarrow> string \<Rightarrow> nat \<Rightarrow> nat \<Rightarrow> HttpResponse option \<Rightarrow> 'h AsyncHttp \<Rightarrow> http_exception + HttpResponse" where
  "GetWait curl url tid current retVal c =
     (case GetThreadId (http_thread c) tid of
        Inl e \<Rightarrow> Inl e
      | Inr i \<Rightarrow>
          if i \<noteq> current
          then (case retVal of Some r \<Rightarrow> Inr r | None \<Rightarrow> Inr timed_out_response)
          else Inr (fst (HttpGet curl url (m_curl c))))"

definition PostWait ::
  "'h curl_api \<Rightarrow> string \<Rightarrow> string \<Rightarrow> string \<Rightarrow> nat \<Rightarrow> nat \<Rightarrow> HttpResponse option \<Rightarrow> 'h AsyncHttp
   \<Rightarrow> http_exception + HttpResponse" where
  "PostWait curl url b ct tid current retVal c =
     (case GetThreadId (http_thread c) tid of
        Inl e \<Rightarrow> Inl e
      | Inr i \<Rightarrow>
          if i \<noteq> current
          then (case retVal of Some r \<Rightarrow> Inr r | None \<Rightarrow> Inr timed_out_response)
          else Inr (fst (HttpPost curl url b ct (m_curl c))))"

text \<open>Dispatching a task, without another thread in between.\<close>

definition post_task :: "http_task \<Rightarrow> 'h AsyncHttp \<Rightarrow> dispatch_result \<times> 'h AsyncHttp" where
  "post_task task c =
     (let m = DelegateMsg task NORMAL;
          (r, t) = dispatch_enter m (http_thread c);
          (r', t') = (if r = Pending then dispatch_locked m t else (r, t))
      in (r', c\<lparr>http_thread := t'\<rparr>))"

definition Get :: "string \<Rightarrow> nat option \<Rightarrow> 'h AsyncHttp \<Rightarrow> dispatch_result \<times> 'h AsyncHttp" where
  "Get url cb c = post_task (Request (GET url) (map_option Callback cb)) c"

definition Post ::
  "string \<Rightarrow> string \<Rightarrow> string \<Rightarrow> nat option \<Rightarrow> 'h AsyncHttp \<Rightarrow> dispatch_result \<times> 'h AsyncHttp" where
  "Post url b ct cb c = post_task (Request (POST url b ct) (map_option Callback cb)) c"

text \<open>A future: waiting for its promise, failed from the start, or with a promise that was
  destroyed together with the refused message.\<close>

datatype http_future = Waits_for nat | Failed string | Broken_promise

definition AsyncInvokeFuture ::
  "nat \<Rightarrow> nat \<Rightarrow> http_request \<Rightarrow> 'h AsyncHttp \<Rightarrow> (http_exception + http_future) \<times> 'h AsyncHttp" where
  "AsyncInvokeFuture tid k r c =
     (case GetThreadId (http_thread c) tid of
        Inl e \<Rightarrow> (Inl e, c)
      | Inr i \<Rightarrow>
          if i = 0 then (Inr (Failed ''HTTP Thread is not running. Call init() first.''), c)
          else let (res, c') = post_task (Request r (Some (Promise k))) c in
               (case res of
                  Invalid_argument \<Rightarrow> Inl Thread_pointer_is_null
                | Refused \<Rightarrow> Inr Broken_promise
                | _ \<Rightarrow> Inr (Waits_for k), c'))"

definition Get_future ::
  "nat \<Rightarrow> nat \<Rightarrow> string \<Rightarrow> 'h AsyncHttp \<Rightarrow> (http_exception + http_future) \<times> 'h AsyncHttp" where
  "Get_future tid k url c = AsyncInvokeFuture tid k (GET url) c"

definition Post_future ::
  "nat \<Rightarrow> nat \<Rightarrow> string \<Rightarrow> string \<Rightarrow> string \<Rightarrow> 'h AsyncHttp
   \<Rightarrow> (http_exception + http_future) \<times> 'h AsyncHttp" where
  "Post_future tid k url b ct c = AsyncInvokeFuture tid k (POST url b ct) c"

section \<open>Start and stop\<close>

text \<open>The process-wide reference count; \<open>res\<close> is the result of \<^verbatim>\<open>curl_global_init\<close>.\<close>

record curl_global =
  g_curlRefCount :: int
  global_ready :: bool

definition curl_global_addref :: "int \<Rightarrow> curl_global \<Rightarrow> int \<times> curl_global" where
  "curl_global_addref res g =
     (if g_curlRefCount g = 0 then
        (if res \<noteq> 0 then (res, g) else (0, \<lparr>g_curlRefCount = 1, global_ready = True\<rparr>))
      else (0, g\<lparr>g_curlRefCount := g_curlRefCount g + 1\<rparr>))"

definition curl_global_release :: "curl_global \<Rightarrow> curl_global" where
  "curl_global_release g =
     (if g_curlRefCount g > 0 then
        (let g' = g\<lparr>g_curlRefCount := g_curlRefCount g - 1\<rparr> in
         if g_curlRefCount g' = 0 then g'\<lparr>global_ready := False\<rparr> else g')
      else g)"

definition init :: "int \<Rightarrow> 'h option \<Rightarrow> curl_global \<times> 'h AsyncHttp \<Rightarrow> int \<times> curl_global \<times> 'h AsyncHttp" where
  "init global_res easy p =
     (let (g, c) = p in
      if m_running c then (0, g, c)
      else let (res, g1) = curl_global_addref global_res g in
           if res \<noteq> 0 then (res, g1, c)
           else (case easy of
                   None \<Rightarrow> (-1, g1, c\<lparr>m_curl := None\<rparr>)
                 | Some h \<Rightarrow> (0, g1, c\<lparr>m_curl := Some h, http_thread := CreateThread (http_thread c),
                                     m_running := True\<rparr>)))"

text \<open>\<^verbatim>\<open>shutdown\<close>: the cleanup is dispatched as a blocking call with number \<open>k\<close>; the worker
  makes \<open>n1\<close> passes until that call is over and \<open>n2\<close> more until the thread can be joined.
  The call timed out before it was served if \<open>waiting k\<close> is false.\<close>

definition stop_client ::
  "'h curl_api \<Rightarrow> (nat \<Rightarrow> bool) \<Rightarrow> nat \<Rightarrow> nat \<Rightarrow> nat \<Rightarrow> 'h AsyncHttp \<Rightarrow> 'h AsyncHttp" where
  "stop_client curl waiting k n1 n2 c =
     (let c1 = snd (post_task (Cleanup k) c);
          c2 = client_run curl waiting n1 c1;
          c3 = client_run curl waiting n2 (c2\<lparr>http_thread := ExitThread_begin DRAIN (http_thread c2)\<rparr>)
      in c3\<lparr>http_thread := ExitThread_finish (http_thread c3), m_running := False\<rparr>)"

definition shutdown ::
  "'h curl_api \<Rightarrow> (nat \<Rightarrow> bool) \<Rightarrow> nat \<Rightarrow> nat \<Rightarrow> nat \<Rightarrow> curl_global \<times> 'h AsyncHttp
   \<Rightarrow> int \<times> curl_global \<times> 'h AsyncHttp" where
  "shutdown curl waiting k n1 n2 p =
     (let (g, c) = p in
      (0, curl_global_release g, if m_running c then stop_client curl waiting k n1 n2 c else c))"

definition destroy_client ::
  "'h curl_api \<Rightarrow> (nat \<Rightarrow> bool) \<Rightarrow> nat \<Rightarrow> nat \<Rightarrow> nat \<Rightarrow> curl_global \<times> 'h AsyncHttp
   \<Rightarrow> curl_global \<times> 'h AsyncHttp" where
  "destroy_client curl waiting k n1 n2 p =
     (if m_running (snd p) then snd (shutdown curl waiting k n1 n2 p) else p)"

section \<open>Effect of the worker's passes\<close>

definition in_service :: "'a thread_state \<Rightarrow> 'a DelegateMsg list" where
  "in_service t = (case process t of Invoking m \<Rightarrow> [m] | _ \<Rightarrow> [])"

definition serve_all :: "'h curl_api \<Rightarrow> (nat \<Rightarrow> bool) \<Rightarrow> http_task DelegateMsg list \<Rightarrow> 'h AsyncHttp \<Rightarrow> 'h AsyncHttp" where
  "serve_all curl waiting ms c = fold (serve curl waiting) (map payload ms) c"

lemma serve_all_append: "serve_all curl waiting (xs @ ys) c = serve_all curl waiting ys (serve_all curl waiting xs c)"
  by (simp add: serve_all_def)

lemma run_task_thread [simp]:
  "http_thread (run_task curl task c) = http_thread c"
  "run_task curl task (c\<lparr>http_thread := t\<rparr>) = (run_task curl task c)\<lparr>http_thread := t\<rparr>"
  by (cases task; simp add: perform_request_def HttpCleanup_def split: prod.split)+

lemma serve_thread [simp]:
  "http_thread (serve curl waiting task c) = http_thread c"
  "serve curl waiting task (c\<lparr>http_thread := t\<rparr>) = (serve curl waiting task c)\<lparr>http_thread := t\<rparr>"
  by (simp_all add: serve_def)

lemma client_thread: "http_thread (client_run curl waiting n c) = process_run n (http_thread c)"
  by (induction n arbitrary: c) (simp_all add: client_pass_def split: process_pc.split)

text \<open>\<open>detach t c\<close>: the client apart from its thread.\<close>

definition detach :: "'h AsyncHttp \<Rightarrow> 'h AsyncHttp" where
  "detach c = c\<lparr>http_thread := StdlibThread 0 FAULT\<rparr>"

lemma serve_all_detach: "serve_all curl waiting ms (detach c) = detach (serve_all curl waiting ms c)"
  by (induction ms arbitrary: c) (simp_all add: serve_all_def detach_def)

lemma pass_effect:
  assumes "c' = client_pass curl waiting c"
  shows "\<exists>ms. invoked (http_thread c') = invoked (http_thread c) @ ms \<and>
    serve_all curl waiting (in_service (http_thread c')) (detach c')
    = serve_all curl waiting (in_service (http_thread c) @ ms) (detach c)"
proof (cases "process (http_thread c)")
  case Returned
  then show ?thesis using assms by (intro exI [of _ "[]"]) (simp add: client_pass_def)
next
  case (Invoking m)
  then show ?thesis using assms
    by (intro exI [of _ "[]"])
      (simp add: client_pass_def in_service_def process_done_def serve_all_def detach_def)
next
  case Waiting
  then have c': "c' = c\<lparr>http_thread := process_take (http_thread c)\<rparr>"
    using assms by (simp add: client_pass_def)
  consider m q where "pop_front (queue (http_thread c)) = Some (MSG_DISPATCH_DELEGATE m, q)"
    | q where "pop_front (queue (http_thread c)) = Some (MSG_EXIT_THREAD, q)"
    | "pop_front (queue (http_thread c)) = None"
    by (cases "pop_front (queue (http_thread c))") (auto, metis ThreadMsg.exhaust)
  then show ?thesis
  proof cases
    case 1
    then show ?thesis using Waiting
      by (intro exI [of _ "[m]"]) (simp add: c' process_take_def in_service_def detach_def)
  qed (use Waiting in \<open>intro exI [of _ "[]"]; simp add: c' process_take_def in_service_def detach_def\<close>)+
qed

lemma run_effect:
  "\<exists>ms. invoked (http_thread (client_run curl waiting n c)) = invoked (http_thread c) @ ms \<and>
    serve_all curl waiting (in_service (http_thread (client_run curl waiting n c))) (detach (client_run curl waiting n c))
    = serve_all curl waiting (in_service (http_thread c) @ ms) (detach c)"
proof (induction n arbitrary: c)
  case (Suc n)
  define d where "d = client_pass curl waiting c"
  obtain ms where ms: "invoked (http_thread d) = invoked (http_thread c) @ ms"
    "serve_all curl waiting (in_service (http_thread d)) (detach d)
     = serve_all curl waiting (in_service (http_thread c) @ ms) (detach c)"
    using pass_effect [OF d_def] by blast
  obtain ns where ns: "invoked (http_thread (client_run curl waiting n d)) = invoked (http_thread d) @ ns"
    "serve_all curl waiting (in_service (http_thread (client_run curl waiting n d))) (detach (client_run curl waiting n d))
     = serve_all curl waiting (in_service (http_thread d) @ ns) (detach d)"
    using Suc.IH [of d] by blast
  show ?case
    by (rule exI [of _ "ms @ ns"])
      (use ms ns in \<open>simp add: d_def [symmetric] serve_all_append\<close>)
qed (auto intro: exI [of _ "[]"])

section \<open>Stopping a running client\<close>

lemma post_task_dispatch:
  assumes "busy (http_thread c)" and "\<not> queue_full (http_thread c)"
  shows "post_task task c = (Accepted, c\<lparr>http_thread := dispatch (DelegateMsg task NORMAL) (http_thread c)\<rparr>)"
  using assms by (auto simp: post_task_def dispatch_def dispatch_enter_def dispatch_locked_def
      dispatch_push_def queue_full_def GetQueueSize_def busy_def Let_def)

lemma stop_client_effect:
  assumes "reachable (http_thread c)" and "\<not> faulted (http_thread c)" and "busy (http_thread c)"
    and "\<not> queue_full (http_thread c)" and "2 * MAX_QUEUE_SIZE (http_thread c) + 2 \<le> n2"
  shows "detach (stop_client curl waiting k n1 n2 c)
      = (serve_all curl waiting (in_service (http_thread c) @ queued (http_thread c) @ [DelegateMsg (Cleanup k) NORMAL])
          (detach c))\<lparr>m_running := False\<rparr>"
    and "process (http_thread (stop_client curl waiting k n1 n2 c)) = Returned"
proof -
  let ?m = "DelegateMsg (Cleanup k) NORMAL"
  define t1 where "t1 = dispatch ?m (http_thread c)"
  define c1 where "c1 = c\<lparr>http_thread := t1\<rparr>"
  define c2 where "c2 = client_run curl waiting n1 c1"
  define c2e where "c2e = c2\<lparr>http_thread := ExitThread_begin DRAIN (http_thread c2)\<rparr>"
  define c3 where "c3 = client_run curl waiting n2 c2e"
  have stop: "stop_client curl waiting k n1 n2 c = c3\<lparr>http_thread := ExitThread_finish (http_thread c3), m_running := False\<rparr>"
    by (simp add: stop_client_def post_task_dispatch [OF assms(3,4)] c3_def c2e_def c2_def c1_def t1_def Let_def)
  note d = dispatch_normal [OF assms(3,4), of "Cleanup k"]
  have t1: "busy t1" "queued t1 = queued (http_thread c) @ [?m]" "invoked t1 = invoked (http_thread c)"
    "in_service t1 = in_service (http_thread c)" "MAX_QUEUE_SIZE t1 = MAX_QUEUE_SIZE (http_thread c)" "\<not> faulted t1"
    using d assms(2) by (simp_all add: t1_def in_service_def)
  have r1: "reachable t1"
    unfolding t1_def by (rule reachable_dispatch) (use assms in \<open>simp_all add: busy_def\<close>)
  have t2: "http_thread c2 = process_run n1 t1" by (simp add: c2_def c1_def client_thread)
  have b2: "busy (http_thread c2)"
    and o2: "invoked (http_thread c2) @ queued (http_thread c2) = invoked t1 @ queued t1"
    using run_order [OF t1(1), of n1] by (simp_all add: t2)
  have "reachable (http_thread c2)"
    unfolding t2 by (rule reachable_run [OF r1 t1(6)]) (use t1(1) in \<open>simp add: busy_def\<close>)
  from drain_order [OF this b2, of n2] assms(5)
  have t3: "process (http_thread c3) = Returned"
    "invoked (http_thread c3) = invoked (http_thread c2) @ queued (http_thread c2)"
    by (simp_all add: c3_def c2e_def client_thread t2 run_size t1(5))
  have e: "in_service (http_thread c2e) = in_service (http_thread c2)" "detach c2e = detach c2"
    "invoked (http_thread c2e) = invoked (http_thread c2)"
    by (simp_all add: c2e_def in_service_def detach_def ExitThread_begin_def Let_def)
  obtain ms where ms: "invoked (http_thread c2) = invoked t1 @ ms"
    "serve_all curl waiting (in_service (http_thread c2)) (detach c2) = serve_all curl waiting (in_service t1 @ ms) (detach c1)"
    using run_effect [of curl waiting n1 c1] by (auto simp: c2_def [symmetric]) (simp add: c1_def)
  obtain ns where ns: "invoked (http_thread c3) = invoked (http_thread c2) @ ns"
    "serve_all curl waiting (in_service (http_thread c3)) (detach c3) = serve_all curl waiting (in_service (http_thread c2) @ ns) (detach c2)"
    using run_effect [of curl waiting n2 c2e] by (auto simp: c3_def [symmetric] e)
  have "ms @ ns = queued t1" using ms(1) ns(1) t3(2) o2 by simp
  moreover have "detach c1 = detach c" by (simp add: c1_def detach_def)
  moreover have "detach c3 = serve_all curl waiting (in_service t1 @ ms @ ns) (detach c1)"
    using ms(2) ns(2) t3(1) by (simp add: serve_all_append) (simp add: in_service_def serve_all_def)
  ultimately have "detach c3 = serve_all curl waiting (in_service (http_thread c) @ queued (http_thread c) @ [?m]) (detach c)"
    using t1(2,4) by simp
  moreover have "detach (stop_client curl waiting k n1 n2 c) = (detach c3)\<lparr>m_running := False\<rparr>"
    unfolding stop by (simp add: detach_def)
  ultimately show "detach (stop_client curl waiting k n1 n2 c)
      = (serve_all curl waiting (in_service (http_thread c) @ queued (http_thread c) @ [?m]) (detach c))\<lparr>m_running := False\<rparr>"
    by simp
  show "process (http_thread (stop_client curl waiting k n1 n2 c)) = Returned"
    unfolding stop using t3(1) by (simp add: ExitThread_finish_def cancel_queue_def)
qed

text \<open>The responses of a list of requests made one after the other on a handle.\<close>

fun responses :: "'h curl_api \<Rightarrow> http_task list \<Rightarrow> 'h option \<Rightarrow> (receiver \<times> HttpResponse) list" where
  "responses curl [] h = []"
| "responses curl (Cleanup k # ts) h = responses curl ts None"
| "responses curl (Request r rc # ts) h =
     (let (resp, h') = HttpCall curl r h in
      (case rc of None \<Rightarrow> [] | Some x \<Rightarrow> [(x, resp)]) @ responses curl ts h')"

lemma serve_all_responses:
  assumes "\<forall>m \<in> set ms. still_wanted waiting (payload m)"
  shows "delivered (serve_all curl waiting ms c) = delivered c @ responses curl (map payload ms) (m_curl c)
    \<and> m_running (serve_all curl waiting ms c) = m_running c"
  using assms
proof (induction ms arbitrary: c)
  case (Cons m ms)
  have "delivered (serve_all curl waiting ms (run_task curl (payload m) c))
      = delivered (run_task curl (payload m) c) @ responses curl (map payload ms) (m_curl (run_task curl (payload m) c))
    \<and> m_running (serve_all curl waiting ms (run_task curl (payload m) c)) = m_running (run_task curl (payload m) c)"
    using Cons by simp
  then show ?case
    using Cons.prems
    by (cases "payload m") (simp_all add: serve_all_def serve_def perform_request_def HttpCleanup_def split: prod.splits)
qed (simp add: serve_all_def)

section \<open>The options of a request\<close>

fun request_options :: "http_request \<Rightarrow> curl_option list" where
  "request_options (GET url) =
     [CURLOPT_URL (c_str url), CURLOPT_HTTPGET, CURLOPT_WRITEFUNCTION, CURLOPT_WRITEDATA,
      CURLOPT_FOLLOWLOCATION, CURLOPT_TIMEOUT 10]"
| "request_options (POST url b ct) =
     [CURLOPT_URL (c_str url), CURLOPT_POST, CURLOPT_POSTFIELDS b, CURLOPT_POSTFIELDSIZE (int (length b)),
      CURLOPT_HTTPHEADER [c_str (''Content-Type: '' @ ct)], CURLOPT_WRITEFUNCTION, CURLOPT_WRITEDATA,
      CURLOPT_FOLLOWLOCATION, CURLOPT_TIMEOUT 10]"

lemma receive_concat: "receive cs = concat cs"
proof -
  have "foldl (\<lambda>b c. snd (WriteCallback c 1 (length c) b)) b0 cs = b0 @ concat cs" for b0
    by (induction cs arbitrary: b0) (simp_all add: WriteCallback_def)
  then show ?thesis by (simp add: receive_def)
qed

lemma status_narrow: "0 \<le> x \<Longrightarrow> x < 2 ^ 31 \<Longrightarrow> sint (word_of_int x :: u32) = x"
  by (simp add: sint_sbintrunc' signed_take_bit_int_eq_self)

lemma options_in_force:
  assumes "curl_laws curl options"
  shows "\<exists>h'. options h' = request_options r \<and>
    HttpCall curl r (Some h) = (respond curl (fst (easy_perform curl h')), Some (snd (easy_perform curl h')))"
proof -
  have laws: "options (easy_reset curl x) = []" "options (easy_setopt curl opt x) = options x @ [opt]" for x opt
    using assms by (simp_all add: curl_laws_def)
  show ?thesis
  proof (cases r)
    case (GET url)
    then show ?thesis
      by (intro exI [of _ "easy_setopt curl (CURLOPT_TIMEOUT 10) (easy_setopt curl CURLOPT_FOLLOWLOCATION
          (easy_setopt curl CURLOPT_WRITEDATA (easy_setopt curl CURLOPT_WRITEFUNCTION
          (easy_setopt curl CURLOPT_HTTPGET (easy_setopt curl (CURLOPT_URL (c_str url)) (easy_reset curl h))))))"])
        (simp add: HttpGet_def laws Let_def split: prod.splits)
  next
    case (POST url b ct)
    then show ?thesis
      by (intro exI [of _ "easy_setopt curl (CURLOPT_TIMEOUT 10) (easy_setopt curl CURLOPT_FOLLOWLOCATION
          (easy_setopt curl CURLOPT_WRITEDATA (easy_setopt curl CURLOPT_WRITEFUNCTION
          (easy_setopt curl (CURLOPT_HTTPHEADER [c_str (''Content-Type: '' @ ct)])
          (easy_setopt curl (CURLOPT_POSTFIELDSIZE (int (length b))) (easy_setopt curl (CURLOPT_POSTFIELDS b)
          (easy_setopt curl CURLOPT_POST (easy_setopt curl (CURLOPT_URL (c_str url)) (easy_reset curl h)))))))))"])
        (simp add: HttpPost_def laws Let_def split: prod.splits)
  qed
qed

section \<open>Several clients in a process\<close>

text \<open>Clients created, started and stopped in any order, \<^verbatim>\<open>shutdown\<close> being called only on
  running ones and \<^verbatim>\<open>curl_easy_init\<close> not failing; every other operation of a client leaves
  \<^verbatim>\<open>m_running\<close> alone.\<close>

inductive http_process :: "curl_global \<Rightarrow> (nat \<Rightarrow> 'h AsyncHttp) \<Rightarrow> bool" where
  start: "http_process \<lparr>g_curlRefCount = 0, global_ready = False\<rparr> (\<lambda>_. AsyncHttp)"
| init: "http_process g cs \<Longrightarrow> init res (Some h) (g, cs i) = (r, g', c') \<Longrightarrow> http_process g' (cs(i := c'))"
| shutdown: "http_process g cs \<Longrightarrow> m_running (cs i) \<Longrightarrow>
    shutdown curl waiting k n1 n2 (g, cs i) = (r, g', c') \<Longrightarrow> http_process g' (cs(i := c'))"
| other: "http_process g cs \<Longrightarrow> m_running c' = m_running (cs i) \<Longrightarrow> http_process g (cs(i := c'))"

lemma running_upd: "{j. m_running ((cs(i := c')) j)}
    = (if m_running c' then insert i {j. m_running (cs j)} else {j. m_running (cs j)} - {i})"
  by auto

lemma stop_running: "\<not> m_running (stop_client curl waiting k n1 n2 c)"
  by (simp add: stop_client_def Let_def)

lemma process_count:
  assumes "http_process g cs"
  shows "finite {i. m_running (cs i)} \<and> g_curlRefCount g = int (card {i. m_running (cs i)})
    \<and> global_ready g = ({i. m_running (cs i)} \<noteq> {})"
  using assms
proof (induction rule: http_process.induct)
  case start
  then show ?case by (simp add: AsyncHttp_def)
next
  case (init g cs res h i r g' c')
  show ?case
  proof (cases "m_running (cs i) \<or> g_curlRefCount g = 0 \<and> res \<noteq> 0")
    case True
    then have "g' = g \<and> c' = cs i"
      using init.hyps(2) by (auto simp: init_def curl_global_addref_def split: if_splits)
    then show ?thesis using init.IH by simp
  next
    case False
    then have "m_running c'" "g_curlRefCount g' = g_curlRefCount g + 1"
      "global_ready g' = (global_ready g \<or> g_curlRefCount g = 0)"
      using init.hyps(2) by (auto simp: init_def curl_global_addref_def split: if_splits)
    with init.IH False show ?thesis unfolding running_upd by auto
  qed
next
  case (shutdown g cs i curl waiting k n1 n2 r g' c')
  then have c': "\<not> m_running c'" "g' = curl_global_release g"
    by (auto simp: shutdown_def stop_running)
  have pos: "0 < card {i. m_running (cs i)}" using shutdown by (auto simp: card_gt_0_iff)
  have card: "card ({j. m_running (cs j)} - {i}) = card {j. m_running (cs j)} - 1"
    using shutdown by (simp add: card_Diff_singleton)
  have empty: "({j. m_running (cs j)} - {i} = {}) = (card {j. m_running (cs j)} = 1)"
    using shutdown.IH pos card by (metis Suc_pred' card_0_eq diff_Suc_1 finite_Diff One_nat_def)
  show ?case unfolding running_upd using c' shutdown.IH pos card empty
    by (auto simp: curl_global_release_def Let_def of_nat_diff)
next
  case (other g cs c' i)
  have "{j. m_running ((cs(i := c')) j)} = {j. m_running (cs j)}" using other.hyps(2) by auto
  then show ?case using other.IH by (simp only:)
qed

section \<open>A client used to show that the hypotheses can hold\<close>

text \<open>A library that answers every transfer with status 200 and the body \<^verbatim>\<open>ab\<close> in two chunks.\<close>

definition test_curl :: "curl_option list curl_api" where
  "test_curl = \<lparr>easy_reset = (\<lambda>_. []), easy_setopt = (\<lambda>opt h. h @ [opt]),
     easy_perform = (\<lambda>h. (\<lparr>result_code = 0, chunks = [''a'', ''b''], response_code = 200\<rparr>, h)),
     easy_strerror = (\<lambda>_. ''failed'')\<rparr>"

definition no_curl :: curl_global where
  "no_curl = \<lparr>g_curlRefCount = 0, global_ready = False\<rparr>"

definition client :: "curl_option list AsyncHttp" where
  "client = snd (snd (init 0 (Some []) (no_curl, AsyncHttp)))"

definition client_asked :: "curl_option list AsyncHttp" where
  "client_asked = snd (Get ''u'' (Some 1) client)"

lemma test_laws: "curl_laws test_curl (\<lambda>h. h)"
  by (simp add: curl_laws_def test_curl_def)

lemma client_eq: "client = AsyncHttp\<lparr>m_curl := Some [], http_thread := CreateThread (StdlibThread 0 FAULT), m_running := True\<rparr>"
  by (simp add: client_def init_def no_curl_def curl_global_addref_def AsyncHttp_def)

lemma client_thread_ready:
  "reachable (http_thread client)" "busy (http_thread client)" "\<not> queue_full (http_thread client)"
  "\<not> faulted (http_thread client)" "MAX_QUEUE_SIZE (http_thread client) = 1000"
  "in_service (http_thread client) = []" "queued (http_thread client) = []"
proof -
  show "reachable (http_thread client)"
    by (rule reachable.step [OF reachable.start [of 0 FAULT]])
      (simp add: client_eq thread_step.create StdlibThread_def)
qed (simp_all add: client_eq busy_def queue_full_def GetQueueSize_def CreateThread_def StdlibThread_def
    THREAD_DESKTOP_QUEUE_SIZE_def no_messages_def queue_size_def waiting_eq in_service_def queued_def)

lemma client_queue: "queue (http_thread client) = no_messages"
  by (simp add: client_eq CreateThread_def StdlibThread_def)

lemma client_asked_eq:
  "client_asked = client\<lparr>http_thread := dispatch (DelegateMsg (Request (GET ''u'') (Some (Callback 1))) NORMAL) (http_thread client)\<rparr>"
  by (simp add: client_asked_def Get_def post_task_dispatch client_thread_ready)

lemma client_asked_ready:
  "reachable (http_thread client_asked)" "busy (http_thread client_asked)" "\<not> queue_full (http_thread client_asked)"
  "\<not> faulted (http_thread client_asked)" "MAX_QUEUE_SIZE (http_thread client_asked) = 1000"
  "in_service (http_thread client_asked) = []"
  "queued (http_thread client_asked) = [DelegateMsg (Request (GET ''u'') (Some (Callback 1))) NORMAL]"
proof -
  note d = dispatch_normal [OF client_thread_ready(2,3)]
  show "reachable (http_thread client_asked)"
    unfolding client_asked_eq
    by (simp, rule reachable_dispatch) (use client_thread_ready in \<open>simp_all add: busy_def\<close>)
  show "\<not> queue_full (http_thread client_asked)"
    using client_thread_ready(5) client_queue
    by (simp add: client_asked_eq d(1) queue_full_def GetQueueSize_def queue_size_def push_back_def no_messages_def)
  show "busy (http_thread client_asked)" by (simp add: client_asked_eq d(2))
  show "queued (http_thread client_asked) = [DelegateMsg (Request (GET ''u'') (Some (Callback 1))) NORMAL]"
    by (simp add: client_asked_eq d(3) client_thread_ready(7))
  show "\<not> faulted (http_thread client_asked)" "MAX_QUEUE_SIZE (http_thread client_asked) = 1000"
    "in_service (http_thread client_asked) = []"
    using client_thread_ready(4-6) by (simp_all add: client_asked_eq d(1) in_service_def)
qed

section \<open>Properties\<close>

text \<open>
  A request is performed with exactly its own options, whatever the handle was used for
  before, and the response reflects the transfer: on success the status code and the
  concatenation of the received chunks, otherwise the error text and a response that is not ok.
\<close>

theorem request_isolated:
  assumes "curl_laws curl options"
  shows "\<exists>h'. options h' = request_options r \<and>
    (let (t, h'') = easy_perform curl h'; (resp, h2) = HttpCall curl r (Some h) in
     h2 = Some h'' \<and>
     (if result_code t = 0
      then error resp = '''' \<and> body resp = concat (chunks t)
        \<and> (statusCode resp = response_code t \<or> response_code t < 0 \<or> 2 ^ 31 \<le> response_code t)
      else error resp = easy_strerror curl (result_code t) \<and> body resp = '''' \<and> \<not> ok resp))"
proof -
  obtain h' where h': "options h' = request_options r"
    "HttpCall curl r (Some h) = (respond curl (fst (easy_perform curl h')), Some (snd (easy_perform curl h')))"
    using options_in_force [OF assms] by blast
  have code: "sint (word_of_int x :: u32) = x \<or> x < 0 \<or> 2 ^ 31 \<le> x" for x
    using status_narrow [of x] by linarith
  show ?thesis
    by (rule exI [of _ h'])
      (use code in \<open>simp add: h' respond_def empty_response_def ok_def receive_concat split: prod.split\<close>)
qed

lemma request_isolated_witness:
  "\<exists>h'. h' = request_options (POST ''u'' ''x'' ''t'') \<and>
    (let (t, h'') = easy_perform test_curl h';
         (resp, h2) = HttpCall test_curl (POST ''u'' ''x'' ''t'') (Some (request_options (GET ''v''))) in
     h2 = Some h'' \<and>
     (if result_code t = 0
      then error resp = '''' \<and> body resp = concat (chunks t)
        \<and> (statusCode resp = response_code t \<or> response_code t < 0 \<or> 2 ^ 31 \<le> response_code t)
      else error resp = easy_strerror test_curl (result_code t) \<and> body resp = '''' \<and> \<not> ok resp))"
  by (rule request_isolated [OF test_laws])



text \<open>
  \<^verbatim>\<open>GetWait\<close> and \<^verbatim>\<open>PostWait\<close> called from another thread return the response of the
  request when the blocking call succeeds and the timeout response whenever it does not; called
  on the worker itself they perform the request directly, without waiting for themselves.
\<close>

theorem wait_calls_result:
  fixes dflt :: HttpResponse
  assumes "call_after n (fresh_message st forever (Returns (fst (HttpCall curl r h)))) call"
    and "caller call = Call_returned success" and "m_thread (http_thread c)" and "tid \<noteq> current"
  defines "retVal \<equiv> AsyncInvoke (async_wait_finish success call dflt (ResetResult st))"
    and "expected \<equiv> (if success then fst (HttpCall curl r h) else timed_out_response)"
  shows "(case r of GET url \<Rightarrow> GetWait curl url tid current retVal c = Inr expected
        \<and> GetWait curl url tid tid retVal c = Inr (fst (HttpCall curl r (m_curl c)))
    | POST url b ct \<Rightarrow> PostWait curl url b ct tid current retVal c = Inr expected
        \<and> PostWait curl url b ct tid tid retVal c = Inr (fst (HttpCall curl r (m_curl c))))"
proof -
  have "retVal = (if success then Some (fst (HttpCall curl r h)) else None)"
    unfolding retVal_def using call_value [OF assms(1,2)] by simp
  with assms(3,4) show ?thesis
    by (simp add: expected_def GetWait_def PostWait_def GetThreadId_def split: http_request.split)
qed

definition seen :: "HttpResponse message" where
  "seen = send Refused (fresh_message \<lparr>dest_thread = Some 1, dest_priority = NORMAL, call_timeout = 5,
     m_success = False, m_retVal = None\<rparr> False (Returns (fst (HttpCall test_curl (GET ''u'') None))))"

lemma wait_calls_result_witness:
  "GetWait test_curl ''u'' 1 2 (AsyncInvoke (async_wait_finish False (caller_finish False seen) empty_response
     (ResetResult \<lparr>dest_thread = Some 1, dest_priority = NORMAL, call_timeout = 5, m_success = False, m_retVal = None\<rparr>))) client
     = Inr timed_out_response"
proof -
  let ?st = "\<lparr>dest_thread = Some 1, dest_priority = NORMAL, call_timeout = 5, m_success = False, m_retVal = None\<rparr>"
  have "call_after (Suc (Suc 0)) (fresh_message ?st False (Returns (fst (HttpCall test_curl (GET ''u'') None)))) (caller_finish False seen)"
    unfolding seen_def
    by (rule after_Suc [OF after_Suc [OF after_0 call_step.send] call_step.return])
      (simp_all add: fresh_message_def DelegateAsyncWaitMsg_def send_def ResetResult_def Let_def)
  from wait_calls_result [OF this, of False client 1 2 empty_response] show ?thesis
    using client_thread_ready(2) by (simp add: caller_finish_def busy_def)
qed

text \<open>
  On a client whose thread does not exist, before \<^verbatim>\<open>init\<close> or after \<^verbatim>\<open>shutdown\<close>, the
  blocking calls and the futures throw instead of returning an error response, and a
  fire-and-forget request throws before the first start but is dropped silently after a stop;
  none of them is ever queued.
\<close>

theorem stopped_client_calls:
  assumes "\<not> m_thread (http_thread c)"
  shows "GetWait curl url tid current retVal c = Inl Thread_pointer_is_null
    \<and> PostWait curl url b ct tid current retVal c = Inl Thread_pointer_is_null
    \<and> Get_future tid k url c = (Inl Thread_pointer_is_null, c)
    \<and> Post_future tid k url b ct c = (Inl Thread_pointer_is_null, c)
    \<and> Get url cb c = (if m_exit (http_thread c) then Refused else Invalid_argument, c)
    \<and> Post url b ct cb c = (if m_exit (http_thread c) then Refused else Invalid_argument, c)"
  using assms
  by (simp add: GetWait_def PostWait_def GetThreadId_def Get_future_def Post_future_def
      AsyncInvokeFuture_def Get_def Post_def post_task_def dispatch_enter_def)

lemma stopped_client_calls_witness:
  "GetWait test_curl ''u'' 1 2 None AsyncHttp = Inl Thread_pointer_is_null
   \<and> Get ''u'' (Some 1) (AsyncHttp :: curl_option list AsyncHttp) = (Invalid_argument, AsyncHttp)"
  using stopped_client_calls [of "AsyncHttp :: curl_option list AsyncHttp" test_curl "''u''" 1 2 None "''b''" "''t''" 3 "Some 1"]
  by (simp add: AsyncHttp_def StdlibThread_def)

text \<open>
  C23: as long as \<^verbatim>\<open>shutdown\<close> is called on running clients only and no handle creation fails,
  the reference count is the number of running clients and libcurl stays initialised exactly
  while there is one.
\<close>

theorem refcount_counts_running:
  assumes "http_process g cs"
  shows "g_curlRefCount g = int (card {i. m_running (cs i)})
    \<and> global_ready g = (\<exists>i. m_running (cs i))"
  using process_count [OF assms] by simp

definition two_clients :: "nat \<Rightarrow> curl_option list AsyncHttp" where
  "two_clients = (\<lambda>_. AsyncHttp)(1 := client)"

lemma two_clients_process: "http_process \<lparr>g_curlRefCount = 1, global_ready = True\<rparr> two_clients"
  unfolding two_clients_def
  by (rule http_process.init [OF http_process.start, where res = 0 and r = 0 and h = "[]"])
    (simp add: client_def init_def no_curl_def curl_global_addref_def AsyncHttp_def)

lemma refcount_counts_running_witness:
  "(1::int) = int (card {i. m_running (two_clients i)}) \<and> True = (\<exists>i. m_running (two_clients i))"
  using refcount_counts_running [OF two_clients_process] by simp

text \<open>
  \<^verbatim>\<open>shutdown\<close> called on a client that is not running (never started, or stopped already)
  takes the reference of the only running client: libcurl is cleaned up under it.
\<close>

theorem idle_shutdown_steals_reference:
  assumes "http_process g cs" and "{i. m_running (cs i)} = {j}" and "i \<noteq> j"
    and "shutdown curl waiting k n1 n2 (g, cs i) = (r, g', c')"
  shows "\<not> global_ready g' \<and> m_running ((cs(i := c')) j)"
proof -
  have "\<not> m_running (cs i)" "m_running (cs j)" using assms(2,3) by auto
  moreover have "g_curlRefCount g = 1" using process_count [OF assms(1)] assms(2) by simp
  ultimately show ?thesis
    using assms(3,4) by (auto simp: shutdown_def curl_global_release_def Let_def)
qed

lemma idle_shutdown_steals_reference_witness:
  "\<not> global_ready \<lparr>g_curlRefCount = 0, global_ready = False\<rparr> \<and> m_running ((two_clients(0 := AsyncHttp)) 1)"
  by (rule idle_shutdown_steals_reference [OF two_clients_process, where curl = test_curl and r = 0])
    (auto simp: two_clients_def client_eq AsyncHttp_def shutdown_def curl_global_release_def Let_def)

end
