(* ===== verification/Guards.thy ===== *)
theory Guards
  imports Prelude
begin

text \<open>
  \<^verbatim>\<open>extras/util/MonotonicGuard.h\<close>: a filter that lets only messages pass that are newer than
  the last one it let pass. The template parameter is the width of the word.
\<close>

record 't MonotonicGuard =
  m_lastTimestamp :: 't
  m_first :: bool

definition MonotonicGuard :: "'a::len word MonotonicGuard" where
  "MonotonicGuard = \<lparr>m_lastTimestamp = 0, m_first = True\<rparr>"

text \<open>Types of at most 32 bits are compared through the signed difference, which is the wrapping
  one of the type; wider ones directly.\<close>

definition IsNewer :: "'a::len word \<Rightarrow> 'a word MonotonicGuard \<Rightarrow> bool \<times> 'a word MonotonicGuard" where
  "IsNewer timestamp g =
     (if m_first g then (True, \<lparr>m_lastTimestamp = timestamp, m_first = False\<rparr>)
      else if LENGTH('a) \<le> 32 then
        (if 0 < sint (timestamp - m_lastTimestamp g) then (True, g\<lparr>m_lastTimestamp := timestamp\<rparr>)
         else (False, g))
      else
        (if m_lastTimestamp g < timestamp then (True, g\<lparr>m_lastTimestamp := timestamp\<rparr>)
         else (False, g)))"

definition Reset :: "'a::len word MonotonicGuard \<Rightarrow> 'a word MonotonicGuard" where
  "Reset g = g\<lparr>m_first := True, m_lastTimestamp := 0\<rparr>"

text \<open>The time stamps a guard lets pass.\<close>

fun filter_newer :: "'a::len word list \<Rightarrow> 'a word MonotonicGuard \<Rightarrow> 'a word list" where
  "filter_newer [] g = []"
| "filter_newer (t # ts) g =
     (let (newer, g') = IsNewer t g in if newer then t # filter_newer ts g' else filter_newer ts g')"

text \<open>The reference: of the time stamps as they would be without wrapping, those greater than
  every earlier one.\<close>

fun records :: "nat \<Rightarrow> nat list \<Rightarrow> nat list" where
  "records m [] = []"
| "records m (t # ts) = (if m < t then t # records t ts else records m ts)"

text \<open>No stamp is half the range or more away from the newest one before it.\<close>

fun within_half :: "nat \<Rightarrow> nat \<Rightarrow> nat list \<Rightarrow> bool" where
  "within_half w m [] \<longleftrightarrow> True"
| "within_half w m (t # ts) \<longleftrightarrow> t < m + 2 ^ (w - 1) \<and> m < t + 2 ^ (w - 1) \<and> within_half w (max m t) ts"

lemma signed_difference:
  fixes t m :: nat
  assumes "t < m + 2 ^ (LENGTH('a::len) - 1)" and "m < t + 2 ^ (LENGTH('a) - 1)"
  shows "sint (of_nat t - of_nat m :: 'a word) = int t - int m"
proof -
  have "of_nat t - of_nat m = (word_of_int (int t - int m) :: 'a word)" by simp
  moreover have "signed_take_bit (LENGTH('a) - 1) (int t - int m) = int t - int m"
  proof (rule signed_take_bit_int_eq_self)
    have "int t < int (m + 2 ^ (LENGTH('a) - 1))" "int m < int (t + 2 ^ (LENGTH('a) - 1))"
      using assms by (simp_all only: of_nat_less_iff)
    then show "- (2 ^ (LENGTH('a) - 1)) \<le> int t - int m" and "int t - int m < 2 ^ (LENGTH('a) - 1)"
      by simp_all
  qed
  ultimately show ?thesis by (simp only: sint_sbintrunc')
qed

lemma newer_iff:
  assumes "LENGTH('a::len) \<le> 32" and "t < m + 2 ^ (LENGTH('a) - 1)" and "m < t + 2 ^ (LENGTH('a) - 1)"
  shows "IsNewer (of_nat t) \<lparr>m_lastTimestamp = of_nat m :: 'a word, m_first = False\<rparr>
    = (if m < t then (True, \<lparr>m_lastTimestamp = of_nat t, m_first = False\<rparr>)
       else (False, \<lparr>m_lastTimestamp = of_nat m, m_first = False\<rparr>))"
  using assms(1) by (simp add: IsNewer_def signed_difference [OF assms(2,3)])

lemma filter_records:
  assumes "LENGTH('a::len) \<le> 32" and "within_half (LENGTH('a)) m ts"
  shows "filter_newer (map of_nat ts) \<lparr>m_lastTimestamp = of_nat m :: 'a word, m_first = False\<rparr> = map of_nat (records m ts)"
  using assms(2) by (induction ts arbitrary: m) (auto simp: newer_iff [OF assms(1)] max_def)

text \<open>
  As long as no message is half the range of the time stamps late or early, the guard lets
  exactly those messages pass that are newer than all before them, however often the stamps wrap
  around.
\<close>

theorem guard_passes_records:
  assumes "LENGTH('a::len) \<le> 32" and "within_half (LENGTH('a)) t ts"
  shows "filter_newer (map of_nat (t # ts)) (MonotonicGuard :: 'a word MonotonicGuard) = map of_nat (t # records t ts)"
  using filter_records [OF assms] by (simp add: MonotonicGuard_def IsNewer_def)

lemma guard_passes_records_witness:
  "filter_newer (map of_nat (250 # [255, 253, 260, 300, 290, 400, 524])) (MonotonicGuard :: 8 word MonotonicGuard)
   = map of_nat (250 # records 250 [255, 253, 260, 300, 290, 400, 524])"
  by (rule guard_passes_records) simp_all

end
