(* ===== verification/StdMap.thy ===== *)
theory StdMap
  imports Prelude
begin

text \<open>
  \<^verbatim>\<open>std::map\<close>: an ordered dictionary. The contract its users rely on is the locale
  \<open>dictionary\<close>; the model is an association list with strictly increasing keys, so that an
  iteration visits the entries in the order of the library.
\<close>

section \<open>The contract\<close>

locale dictionary =
  fixes wf :: "'m \<Rightarrow> bool"
    and lookup :: "'m \<Rightarrow> 'k \<Rightarrow> 'v option"
    and assign :: "'k \<Rightarrow> 'v \<Rightarrow> 'm \<Rightarrow> 'm"
    and remove :: "'k \<Rightarrow> 'm \<Rightarrow> 'm"
    and entries :: "'m \<Rightarrow> ('k \<times> 'v) list"
  assumes wf_assign: "wf m \<Longrightarrow> wf (assign k v m)"
    and wf_remove: "wf m \<Longrightarrow> wf (remove k m)"
    and lookup_assign: "wf m \<Longrightarrow> lookup (assign k v m) = (lookup m)(k \<mapsto> v)"
    and lookup_remove: "wf m \<Longrightarrow> lookup (remove k m) = (lookup m)(k := None)"
    and entries_lookup: "wf m \<Longrightarrow> distinct (map fst (entries m)) \<and> map_of (entries m) = lookup m"
begin

lemma keys_lookup: "wf m \<Longrightarrow> fst ` set (entries m) = dom (lookup m)"
  using entries_lookup [of m] by (metis dom_map_of_conv_image_fst)

lemma count_lookup: "wf m \<Longrightarrow> length (entries m) = card (dom (lookup m))"
  using entries_lookup [of m] keys_lookup [of m] by (metis distinct_card length_map list.set_map)

lemma finite_dom: "wf m \<Longrightarrow> finite (dom (lookup m))"
  using keys_lookup [of m] by (metis finite_imageI List.finite_set)

lemma count_assign:
  "wf m \<Longrightarrow> length (entries (assign k v m)) = (if lookup m k = None then Suc else id) (length (entries m))"
  using finite_dom [of m] by (auto simp: count_lookup wf_assign lookup_assign insert_absorb domIff)

lemma count_remove:
  "wf m \<Longrightarrow> length (entries (remove k m)) = length (entries m) - (if lookup m k = None then 0 else 1)"
  using finite_dom [of m] by (auto simp: count_lookup wf_remove lookup_remove card_Diff_singleton_if domIff)

end

section \<open>Sorted association lists\<close>

definition sorted_map :: "('k::linorder \<times> 'v) list \<Rightarrow> bool" where
  "sorted_map xs \<longleftrightarrow> sorted_wrt (<) (map fst xs)"

fun put :: "'k::linorder \<Rightarrow> 'v \<Rightarrow> ('k \<times> 'v) list \<Rightarrow> ('k \<times> 'v) list" where
  "put k v [] = [(k, v)]"
| "put k v ((a, b) # xs) =
     (if k < a then (k, v) # (a, b) # xs
      else if k = a then (k, v) # xs
      else (a, b) # put k v xs)"

definition erase :: "'k \<Rightarrow> ('k \<times> 'v) list \<Rightarrow> ('k \<times> 'v) list" where
  "erase k xs = filter (\<lambda>x. fst x \<noteq> k) xs"

lemma keys_put: "fst ` set (put k v xs) = insert k (fst ` set xs)"
  by (induction k v xs rule: put.induct) auto

lemma put_lookup: "map_of (put k v xs) = (map_of xs)(k \<mapsto> v)"
  by (induction k v xs rule: put.induct) auto

lemma put_sorted: "sorted_map xs \<Longrightarrow> sorted_map (put k v xs)"
proof (induction k v xs rule: put.induct)
  case (2 k v a b xs)
  have "fst ` set (put k v xs) = insert k (fst ` set xs)" by (rule keys_put)
  with 2 show ?case by (fastforce simp: sorted_map_def)
qed (simp add: sorted_map_def)

lemma erase_lookup: "map_of (erase k xs) = (map_of xs)(k := None)"
  by (induction xs) (auto simp: erase_def)

lemma filter_sorted_map: "sorted_map xs \<Longrightarrow> sorted_map (filter P xs)"
  by (induction xs) (auto simp: sorted_map_def)

lemma sorted_map_distinct: "sorted_map xs \<Longrightarrow> distinct (map fst xs)"
  by (induction xs) (auto simp: sorted_map_def)

lemma erase_sorted: "sorted_map xs \<Longrightarrow> sorted_map (erase k xs)"
  by (simp add: erase_def filter_sorted_map)

interpretation smap: dictionary sorted_map map_of put erase "\<lambda>xs. xs"
  by unfold_locales (simp_all add: put_sorted put_lookup erase_lookup erase_sorted sorted_map_distinct)

lemma sorted_map_Nil [simp]: "sorted_map []"
  by (simp add: sorted_map_def)

lemma sorted_map_Cons: "sorted_map ((k, v) # xs) \<Longrightarrow> sorted_map xs \<and> k \<notin> fst ` set xs"
  by (auto simp: sorted_map_def)

end
