(* ===== verification/Reliability.thy ===== *)
theory Reliability
  imports StdMap "HOL-Library.Multiset"
begin

text \<open>
  \<^verbatim>\<open>extras/util/TransportMonitor.h\<close>, \<^verbatim>\<open>RetryMonitor.h\<close> and \<^verbatim>\<open>ReliableTransport.h\<close>: messages that
  are not acknowledged in time are sent again until their retries are used up. The two monitors
  are one state here: the retry monitor is connected to the signal of the transport monitor, so
  every status the latter determines is handled by \<open>OnStatusChanged\<close> at once. The physical
  transport is a parameter \<open>tx\<close>: the result of the \<open>n\<close>-th transmission, 0 for success. \<open>sent\<close>,
  \<open>statuses\<close>, \<open>failures\<close>, \<open>cap_exceeded\<close> and \<open>pending_exceeded\<close> record the transmissions and
  the signals emitted. A call sees one reading of the clock.
\<close>

unbundle bit_operations_syntax

section \<open>Headers and keys\<close>

definition MARKER :: u16 where "MARKER = 0xAA55"

record DmqHeader =
  m_marker :: u16
  m_id :: u16
  m_seqNum :: u16
  m_length :: u16

definition DmqHeader :: "u16 \<Rightarrow> u16 \<Rightarrow> u16 \<Rightarrow> DmqHeader" where
  "DmqHeader i s len = \<lparr>m_marker = MARKER, m_id = i, m_seqNum = s, m_length = len\<rparr>"

definition message_key :: "u16 \<Rightarrow> u16 \<Rightarrow> u32" where
  "message_key remoteId seqNum = (push_bit 16 (ucast remoteId) :: u32) OR ucast seqNum"

lemma message_key_parts:
  "ucast (message_key i s) = s" "ucast (drop_bit 16 (message_key i s)) = i"
proof -
  show "ucast (message_key i s) = s"
    by (rule bit_word_eqI) (auto simp: message_key_def bit_simps)
  show "ucast (drop_bit 16 (message_key i s)) = i"
    by (rule bit_word_eqI) (auto simp: message_key_def bit_simps dest: bit_imp_le_length)
qed

lemma message_key_eq: "message_key i s = message_key i' s' \<longleftrightarrow> i = i' \<and> s = s'"
  using message_key_parts by metis

section \<open>State\<close>

datatype Status = SUCCESS | TIMEOUT

record TimeoutData =
  td_remoteId :: u16
  td_seqNum :: u16
  td_timeStamp :: time_point

record RetryEntry =
  packetData :: "byte list"
  entry_header :: DmqHeader
  attemptsRemaining :: int
  isSent :: bool

text \<open>A timeout is not negative.\<close>

record monitors =
  m_pending :: "(u32 \<times> TimeoutData) list"
  TRANSPORT_TIMEOUT :: nat
  m_retryStore :: "(u32 \<times> RetryEntry) list"
  m_maxRetries :: int
  sent :: "(DmqHeader \<times> byte list) list"
  statuses :: "(u16 \<times> u16 \<times> Status) list"
  failures :: "(u16 \<times> u16) list"
  cap_exceeded :: "nat list"
  pending_exceeded :: "nat list"

definition MAX_TRANSPORT_MONITOR_PENDING :: nat where "MAX_TRANSPORT_MONITOR_PENDING = 100"

definition monitors_init :: "nat \<Rightarrow> int \<Rightarrow> monitors" where
  "monitors_init timeout maxRetries =
     \<lparr>m_pending = [], TRANSPORT_TIMEOUT = timeout, m_retryStore = [], m_maxRetries = maxRetries,
      sent = [], statuses = [], failures = [], cap_exceeded = [], pending_exceeded = []\<rparr>"

section \<open>TransportMonitor: tracking a message\<close>

definition Add :: "time_point \<Rightarrow> u16 \<Rightarrow> u16 \<Rightarrow> monitors \<Rightarrow> bool \<times> monitors" where
  "Add now seqNum remoteId s =
     (let key = message_key remoteId seqNum in
      if MAX_TRANSPORT_MONITOR_PENDING \<le> length (m_pending s) then
        (False, s\<lparr>cap_exceeded := cap_exceeded s @ [length (m_pending s)]\<rparr>)
      else if map_of (m_pending s) key \<noteq> None then (False, s)
      else (True, s\<lparr>m_pending := put key \<lparr>td_remoteId = remoteId, td_seqNum = seqNum, td_timeStamp = now\<rparr>
                      (m_pending s)\<rparr>))"

definition Cancel_pending :: "u16 \<Rightarrow> u16 \<Rightarrow> monitors \<Rightarrow> bool \<times> monitors" where
  "Cancel_pending seqNum remoteId s =
     (let key = message_key remoteId seqNum in
      case map_of (m_pending s) key of
        None \<Rightarrow> (False, s)
      | Some d \<Rightarrow> (True, s\<lparr>m_pending := erase key (m_pending s)\<rparr>))"

section \<open>RetryMonitor\<close>

text \<open>\<open>ITransport::Send\<close> of the physical transport.\<close>

definition transmit :: "(nat \<Rightarrow> int) \<Rightarrow> DmqHeader \<Rightarrow> byte list \<Rightarrow> monitors \<Rightarrow> int \<times> monitors" where
  "transmit tx header os s = (tx (length (sent s)), s\<lparr>sent := sent s @ [(header, os)]\<rparr>)"

definition delivery_failed :: "u32 \<Rightarrow> u16 \<Rightarrow> u16 \<Rightarrow> monitors \<Rightarrow> monitors" where
  "delivery_failed key remoteId seqNum s =
     s\<lparr>m_retryStore := erase key (m_retryStore s), failures := failures s @ [(remoteId, seqNum)]\<rparr>"

text \<open>\<^verbatim>\<open>SendWithRetry\<close> up to the transmission, and from its result on. In between, with no lock
  held, other threads may call the monitors.\<close>

definition send_start :: "time_point \<Rightarrow> DmqHeader \<Rightarrow> byte list \<Rightarrow> monitors \<Rightarrow> bool \<times> monitors" where
  "send_start now header os s =
     (let key = message_key (m_id header) (m_seqNum header);
          entry = \<lparr>packetData = os, entry_header = header, attemptsRemaining = m_maxRetries s, isSent = False\<rparr>;
          s1 = s\<lparr>m_retryStore := put key entry (m_retryStore s)\<rparr>;
          (added, s2) = Add now (m_seqNum header) (m_id header) s1
      in if \<not> added then (False, delivery_failed key (m_id header) (m_seqNum header) s2)
         else (True, s2))"

definition send_end :: "int \<Rightarrow> DmqHeader \<Rightarrow> monitors \<Rightarrow> monitors" where
  "send_end result header s =
     (let key = message_key (m_id header) (m_seqNum header) in
      if result \<noteq> 0 then
        (let s1 = snd (Cancel_pending (m_seqNum header) (m_id header) s)
         in delivery_failed key (m_id header) (m_seqNum header) s1)
      else (case map_of (m_retryStore s) key of
              None \<Rightarrow> s
            | Some e \<Rightarrow> s\<lparr>m_retryStore := put key (e\<lparr>isSent := True\<rparr>) (m_retryStore s)\<rparr>))"

definition SendWithRetry ::
  "(nat \<Rightarrow> int) \<Rightarrow> time_point \<Rightarrow> DmqHeader \<Rightarrow> byte list \<Rightarrow> monitors \<Rightarrow> int \<times> monitors" where
  "SendWithRetry tx now header os s =
     (let (added, s1) = send_start now header os s in
      if \<not> added then (-1, s1)
      else let (result, s2) = transmit tx header os s1 in (result, send_end result header s2))"

text \<open>\<^verbatim>\<open>ReliableTransport::Send\<close> and \<^verbatim>\<open>Receive\<close>; what the physical transport received is given.\<close>

definition ReliableTransport_Send ::
  "(nat \<Rightarrow> int) \<Rightarrow> time_point \<Rightarrow> DmqHeader \<Rightarrow> byte list \<Rightarrow> monitors \<Rightarrow> int \<times> monitors" where
  "ReliableTransport_Send tx now header os s = SendWithRetry tx now header os s"

text \<open>The handler of a status. A timeout of a message that is still being sent for the first time
  only starts its monitoring again.\<close>

definition resend :: "(nat \<Rightarrow> int) \<Rightarrow> time_point \<Rightarrow> u16 \<Rightarrow> u16 \<Rightarrow> RetryEntry \<Rightarrow> monitors \<Rightarrow> monitors" where
  "resend tx now remoteId seqNum e s =
     (let key = message_key remoteId seqNum;
          header = entry_header e;
          (added, s1) = Add now (m_seqNum header) (m_id header) s
      in if added then
           (let (result, s2) = transmit tx header (packetData e) s1 in
            if result \<noteq> 0
            then delivery_failed key remoteId seqNum (snd (Cancel_pending (m_seqNum header) (m_id header) s2))
            else s2)
         else delivery_failed key remoteId seqNum s1)"

definition OnStatusChanged ::
  "(nat \<Rightarrow> int) \<Rightarrow> time_point \<Rightarrow> u16 \<Rightarrow> u16 \<Rightarrow> Status \<Rightarrow> monitors \<Rightarrow> monitors" where
  "OnStatusChanged tx now remoteId seqNum status s =
     (let key = message_key remoteId seqNum in
      case map_of (m_retryStore s) key of
        None \<Rightarrow> s
      | Some e \<Rightarrow>
          (case status of
             SUCCESS \<Rightarrow> s\<lparr>m_retryStore := erase key (m_retryStore s)\<rparr>
           | TIMEOUT \<Rightarrow>
               if attemptsRemaining e > 0 \<and> isSent e then
                 resend tx now remoteId seqNum e
                   (s\<lparr>m_retryStore := put key (e\<lparr>attemptsRemaining := attemptsRemaining e - 1\<rparr>) (m_retryStore s)\<rparr>)
               else if attemptsRemaining e > 0 then
                 snd (Add now (m_seqNum (entry_header e)) (m_id (entry_header e)) s)
               else delivery_failed key remoteId seqNum s))"

section \<open>TransportMonitor: statuses\<close>

definition OnSendStatus :: "(nat \<Rightarrow> int) \<Rightarrow> time_point \<Rightarrow> u16 \<Rightarrow> u16 \<Rightarrow> Status \<Rightarrow> monitors \<Rightarrow> monitors" where
  "OnSendStatus tx now remoteId seqNum status s =
     OnStatusChanged tx now remoteId seqNum status
       (s\<lparr>statuses := statuses s @ [(remoteId, seqNum, status)]\<rparr>)"

text \<open>\<^verbatim>\<open>Remove\<close>: the acknowledged message, looked up by its key or, when the remote id is 0, as
  the first one with the sequence number.\<close>

definition Remove :: "(nat \<Rightarrow> int) \<Rightarrow> time_point \<Rightarrow> u16 \<Rightarrow> u16 \<Rightarrow> monitors \<Rightarrow> monitors" where
  "Remove tx now seqNum remoteId s =
     (let hit = (if remoteId \<noteq> 0
                 then map_option (Pair (message_key remoteId seqNum))
                        (map_of (m_pending s) (message_key remoteId seqNum))
                 else find (\<lambda>(k, d). td_seqNum d = seqNum) (m_pending s))
      in case hit of
           None \<Rightarrow> s
         | Some (k, d) \<Rightarrow>
             OnSendStatus tx now (td_remoteId d) seqNum SUCCESS (s\<lparr>m_pending := erase k (m_pending s)\<rparr>))"

text \<open>The scan of one pass of \<^verbatim>\<open>Process\<close>, with room for \<open>n\<close> more expired items: the expired
  messages, the entries that stay, and whether the scan stopped for lack of room.\<close>

definition expired :: "time_point \<Rightarrow> nat \<Rightarrow> TimeoutData \<Rightarrow> bool" where
  "expired now timeout d \<longleftrightarrow> now - td_timeStamp d > int timeout"

fun scan :: "time_point \<Rightarrow> nat \<Rightarrow> nat \<Rightarrow> (u32 \<times> TimeoutData) list
    \<Rightarrow> TimeoutData list \<times> (u32 \<times> TimeoutData) list \<times> bool" where
  "scan now timeout n [] = ([], [], False)"
| "scan now timeout n ((k, d) # xs) =
     (if expired now timeout d then
        (case n of
           0 \<Rightarrow> ([], (k, d) # xs, True)
         | Suc m \<Rightarrow> let (es, ks, full) = scan now timeout m xs in (d # es, ks, full))
      else let (es, ks, full) = scan now timeout n xs in (es, (k, d) # ks, full))"

definition report_timeouts :: "(nat \<Rightarrow> int) \<Rightarrow> time_point \<Rightarrow> TimeoutData list \<Rightarrow> monitors \<Rightarrow> monitors" where
  "report_timeouts tx now es s =
     fold (\<lambda>d. OnSendStatus tx now (td_remoteId d) (td_seqNum d) TIMEOUT) es s"

definition Process_pass :: "(nat \<Rightarrow> int) \<Rightarrow> time_point \<Rightarrow> monitors \<Rightarrow> nat \<times> monitors" where
  "Process_pass tx now s =
     (let (es, ks, full) = scan now (TRANSPORT_TIMEOUT s) MAX_TIMER_EXPIRED (m_pending s);
          s1 = report_timeouts tx now es (s\<lparr>m_pending := ks\<rparr>);
          s2 = (if full then s1\<lparr>pending_exceeded := pending_exceeded s1 @ [length ks]\<rparr> else s1)
      in (length es, s2))"

section \<open>Process terminates\<close>

text \<open>The expired entries; handling a status never adds to them, because a message that is
  monitored again gets the present time.\<close>

definition overdue :: "time_point \<Rightarrow> monitors \<Rightarrow> (u32 \<times> TimeoutData) list" where
  "overdue now s = filter (\<lambda>x. expired now (TRANSPORT_TIMEOUT s) (snd x)) (m_pending s)"

lemma filter_put_new:
  "k \<notin> fst ` set xs \<Longrightarrow> \<not> P (k, v) \<Longrightarrow> filter P (put k v xs) = filter P xs"
  by (induction k v xs rule: put.induct) auto

lemma erase_put_new: "k \<notin> fst ` set xs \<Longrightarrow> erase k (put k v xs) = xs"
  by (induction k v xs rule: put.induct) (auto simp: erase_def intro: filter_True)

lemma not_expired_now: "\<not> expired now t \<lparr>td_remoteId = i, td_seqNum = q, td_timeStamp = now\<rparr>"
  by (simp add: expired_def)

lemma Add_cases:
  obtains (full) "Add now q i s = (False, s\<lparr>cap_exceeded := cap_exceeded s @ [length (m_pending s)]\<rparr>)"
      "MAX_TRANSPORT_MONITOR_PENDING \<le> length (m_pending s)"
    | (taken) d where "Add now q i s = (False, s)" "map_of (m_pending s) (message_key i q) = Some d"
    | (added) "Add now q i s = (True, s\<lparr>m_pending := put (message_key i q)
          \<lparr>td_remoteId = i, td_seqNum = q, td_timeStamp = now\<rparr> (m_pending s)\<rparr>)"
        "message_key i q \<notin> fst ` set (m_pending s)" "length (m_pending s) < MAX_TRANSPORT_MONITOR_PENDING"
proof (cases "MAX_TRANSPORT_MONITOR_PENDING \<le> length (m_pending s)")
  case True
  then show ?thesis using full by (simp add: Add_def)
next
  case room: False
  show ?thesis
  proof (cases "map_of (m_pending s) (message_key i q)")
    case None
    then have "message_key i q \<notin> fst ` set (m_pending s)" by (simp add: map_of_eq_None_iff)
    then show ?thesis using added None room by (simp add: Add_def Let_def del: map_of_eq_None_iff)
  next
    case (Some d)
    then show ?thesis using taken room by (simp add: Add_def Let_def del: map_of_eq_None_iff)
  qed
qed

lemma Add_overdue: "overdue now (snd (Add now q i s)) = overdue now s"
  by (rule Add_cases [of now q i s])
    (auto simp: overdue_def filter_put_new not_expired_now)

lemma Add_frame:
  "m_retryStore (snd (Add now q i s)) = m_retryStore s" "statuses (snd (Add now q i s)) = statuses s"
  "TRANSPORT_TIMEOUT (snd (Add now q i s)) = TRANSPORT_TIMEOUT s" "sent (snd (Add now q i s)) = sent s"
  "failures (snd (Add now q i s)) = failures s"
  by (rule Add_cases [of now q i s]; simp)+

lemma failed_frame:
  "m_pending (delivery_failed k i q s) = m_pending s" "statuses (delivery_failed k i q s) = statuses s"
  "TRANSPORT_TIMEOUT (delivery_failed k i q s) = TRANSPORT_TIMEOUT s" "sent (delivery_failed k i q s) = sent s"
  by (simp_all add: delivery_failed_def)

text \<open>What a repeated transmission does: it is monitored again, or given up with the pending map
  as before.\<close>

lemma resend_cases:
  fixes e now s
  defines "q \<equiv> m_seqNum (entry_header e)" and "i \<equiv> m_id (entry_header e)"
  obtains (again) "fst (Add now q i s)"
      "resend tx now rid sq e s = (snd (Add now q i s))\<lparr>sent := sent s @ [(entry_header e, packetData e)]\<rparr>"
      "tx (length (sent s)) = 0"
    | (lost) s1 where "resend tx now rid sq e s = delivery_failed (message_key rid sq) rid sq s1"
      "m_pending s1 = m_pending s" "m_retryStore s1 = m_retryStore s" "statuses s1 = statuses s"
      "TRANSPORT_TIMEOUT s1 = TRANSPORT_TIMEOUT s"
proof (cases rule: Add_cases [of now q i s])
  case full
  then show ?thesis using lost by (auto simp: resend_def q_def i_def Let_def)
next
  case taken
  then show ?thesis using lost by (auto simp: resend_def q_def i_def Let_def)
next
  case added
  show ?thesis
  proof (cases "tx (length (sent s)) = 0")
    case True
    then show ?thesis using again added by (auto simp: resend_def transmit_def q_def i_def Let_def)
  next
    case False
    have "message_key i q \<in> fst ` set (put (message_key i q) d (m_pending s))" for d
      by (simp add: keys_put)
    then show ?thesis using lost False added
      by (auto simp: resend_def transmit_def Cancel_pending_def put_lookup erase_put_new q_def i_def Let_def)
  qed
qed

lemma OnStatusChanged_frame:
  "overdue now (OnStatusChanged tx now i q st s) = overdue now s"
  "statuses (OnStatusChanged tx now i q st s) = statuses s"
  "TRANSPORT_TIMEOUT (OnStatusChanged tx now i q st s) = TRANSPORT_TIMEOUT s"
proof -
  have r: "overdue now (resend tx now i q e s') = overdue now s' \<and> statuses (resend tx now i q e s') = statuses s'
    \<and> TRANSPORT_TIMEOUT (resend tx now i q e s') = TRANSPORT_TIMEOUT s'" for e s'
  proof (cases rule: resend_cases [of now e s' tx i q])
    case again
    have "overdue now (t\<lparr>sent := x\<rparr>) = overdue now t" for t x by (simp add: overdue_def)
    with again show ?thesis by (simp add: Add_overdue Add_frame)
  next
    case (lost s1)
    then show ?thesis by (simp add: overdue_def failed_frame)
  qed
  have "overdue now (t\<lparr>m_retryStore := x\<rparr>) = overdue now t"
    "overdue now (delivery_failed k i q t) = overdue now t" for t x k
    by (simp_all add: overdue_def failed_frame)
  then show "overdue now (OnStatusChanged tx now i q st s) = overdue now s"
    "statuses (OnStatusChanged tx now i q st s) = statuses s"
    "TRANSPORT_TIMEOUT (OnStatusChanged tx now i q st s) = TRANSPORT_TIMEOUT s"
    using r by (auto simp: OnStatusChanged_def Let_def Add_overdue Add_frame failed_frame
        split: option.split Status.split)
qed

lemma report_frame:
  "overdue now (report_timeouts tx now es s) = overdue now s \<and>
   statuses (report_timeouts tx now es s)
     = statuses s @ map (\<lambda>d. (td_remoteId d, td_seqNum d, TIMEOUT)) es \<and>
   TRANSPORT_TIMEOUT (report_timeouts tx now es s) = TRANSPORT_TIMEOUT s"
proof (induction es arbitrary: s)
  case (Cons d es)
  have "overdue now (s\<lparr>statuses := x\<rparr>) = overdue now s" for x by (simp add: overdue_def)
  then show ?case
    using Cons.IH [of "OnSendStatus tx now (td_remoteId d) (td_seqNum d) TIMEOUT s"]
    by (simp add: report_timeouts_def OnSendStatus_def OnStatusChanged_frame)
qed (simp add: report_timeouts_def)

lemma scan_spec:
  assumes "scan now t n xs = (es, ks, full)"
  shows "map snd (filter (\<lambda>x. expired now t (snd x)) xs) = es @ map snd (filter (\<lambda>x. expired now t (snd x)) ks)
    \<and> length es \<le> n \<and> (if full then length es = n else filter (\<lambda>x. expired now t (snd x)) ks = [])"
  using assms
  by (induction now t n xs arbitrary: es ks full rule: scan.induct)
    (auto split: nat.splits prod.splits if_splits)

lemma pass_spec:
  assumes "Process_pass tx now s = (n, s')"
  shows "TRANSPORT_TIMEOUT s' = TRANSPORT_TIMEOUT s"
    and "\<exists>es. n = length es \<and> map snd (overdue now s) = es @ map snd (overdue now s')
      \<and> statuses s' = statuses s @ map (\<lambda>d. (td_remoteId d, td_seqNum d, TIMEOUT)) es"
    and "n = MAX_TIMER_EXPIRED \<or> overdue now s' = []"
proof -
  obtain es ks full where sc: "scan now (TRANSPORT_TIMEOUT s) MAX_TIMER_EXPIRED (m_pending s) = (es, ks, full)"
    using prod_cases3 by blast
  define s1 where "s1 = report_timeouts tx now es (s\<lparr>m_pending := ks\<rparr>)"
  have s': "n = length es" "s' = (if full then s1\<lparr>pending_exceeded := pending_exceeded s1 @ [length ks]\<rparr> else s1)"
    using assms by (auto simp: Process_pass_def sc s1_def Let_def)
  have f: "overdue now s1 = filter (\<lambda>x. expired now (TRANSPORT_TIMEOUT s) (snd x)) ks"
    "statuses s1 = statuses s @ map (\<lambda>d. (td_remoteId d, td_seqNum d, TIMEOUT)) es"
    "TRANSPORT_TIMEOUT s1 = TRANSPORT_TIMEOUT s"
    using report_frame [of now tx es "s\<lparr>m_pending := ks\<rparr>"] unfolding s1_def
    by (simp_all add: overdue_def [of now "s\<lparr>m_pending := ks\<rparr>"])
  have o: "overdue now s' = overdue now s1" "statuses s' = statuses s1" "TRANSPORT_TIMEOUT s' = TRANSPORT_TIMEOUT s1"
    by (simp_all add: s' overdue_def)
  note sp = scan_spec [OF sc]
  show "TRANSPORT_TIMEOUT s' = TRANSPORT_TIMEOUT s" using o f by simp
  show "\<exists>es. n = length es \<and> map snd (overdue now s) = es @ map snd (overdue now s')
      \<and> statuses s' = statuses s @ map (\<lambda>d. (td_remoteId d, td_seqNum d, TIMEOUT)) es"
    by (rule exI [of _ es]) (use sp f o s'(1) in \<open>simp add: overdue_def [of now s]\<close>)
  show "n = MAX_TIMER_EXPIRED \<or> overdue now s' = []"
    using sp f o s'(1) by (cases full) simp_all
qed

function Process :: "(nat \<Rightarrow> int) \<Rightarrow> time_point \<Rightarrow> monitors \<Rightarrow> monitors" where
  "Process tx now s =
     (if m_pending s = [] then s
      else let (expiredCount, s') = Process_pass tx now s in
           if expiredCount = MAX_TIMER_EXPIRED then Process tx now s' else s')"
  by pat_completeness auto

termination
proof (relation "measure (\<lambda>(tx, now, s). length (overdue now s))")
  fix tx now s x n s'
  assume "x = Process_pass tx now s" "(n, s') = x" "n = MAX_TIMER_EXPIRED"
  then have p: "Process_pass tx now s = (n, s')" "n = 16" by (simp_all add: MAX_TIMER_EXPIRED_def)
  obtain es where "n = length es" "map snd (overdue now s) = es @ map snd (overdue now s')"
    using pass_spec(2) [OF p(1)] by blast
  then have "length (overdue now s) = n + length (overdue now s')"
    by (metis length_append length_map)
  then show "((tx, now, s'), (tx, now, s)) \<in> measure (\<lambda>(tx, now, s). length (overdue now s))"
    using p(2) by simp
qed simp

declare Process.simps [simp del]

lemma Process_drains:
  "overdue now (Process tx now s) = [] \<and>
   statuses (Process tx now s) = statuses s @ map (\<lambda>(k, d). (td_remoteId d, td_seqNum d, TIMEOUT)) (overdue now s)"
proof (induction tx now s rule: Process.induct)
  case (1 tx now s)
  have pairs: "map (\<lambda>(k, d). (td_remoteId d, td_seqNum d, TIMEOUT)) xs
      = map (\<lambda>d. (td_remoteId d, td_seqNum d, TIMEOUT)) (map snd xs)" for xs :: "(u32 \<times> TimeoutData) list"
    by (induction xs) auto
  show ?case
  proof (cases "m_pending s = []")
    case True
    then show ?thesis by (simp add: Process.simps overdue_def)
  next
    case False
    obtain n s' where p: "Process_pass tx now s = (n, s')" by fastforce
    obtain es where es: "map snd (overdue now s) = es @ map snd (overdue now s')"
      "statuses s' = statuses s @ map (\<lambda>d. (td_remoteId d, td_seqNum d, TIMEOUT)) es"
      using pass_spec(2) [OF p] by blast
    show ?thesis
    proof (cases "n = MAX_TIMER_EXPIRED")
      case True
      then have "Process tx now s = Process tx now s'" using False p by (subst Process.simps) simp
      with 1 [OF False p [symmetric] refl True] es show ?thesis by (simp add: pairs)
    next
      case n: False
      then have "Process tx now s = s'" using False p by (subst Process.simps) simp
      with pass_spec(3) [OF p] n es show ?thesis by (simp add: pairs)
    qed
  qed
qed

section \<open>No message is forgotten\<close>

text \<open>Every stored message is monitored, or (during \<^verbatim>\<open>Process\<close>) among the messages \<open>es\<close> whose
  timeout has still to be reported.\<close>

definition data_key :: "TimeoutData \<Rightarrow> u32" where
  "data_key d = message_key (td_remoteId d) (td_seqNum d)"

definition entry_key :: "RetryEntry \<Rightarrow> u32" where
  "entry_key e = message_key (m_id (entry_header e)) (m_seqNum (entry_header e))"

definition keyed :: "monitors \<Rightarrow> bool" where
  "keyed s \<longleftrightarrow> sorted_map (m_pending s) \<and> sorted_map (m_retryStore s)
     \<and> (\<forall>k d. map_of (m_pending s) k = Some d \<longrightarrow> k = data_key d)
     \<and> (\<forall>k e. map_of (m_retryStore s) k = Some e \<longrightarrow> k = entry_key e)"

definition owing :: "TimeoutData list \<Rightarrow> monitors \<Rightarrow> bool" where
  "owing es s \<longleftrightarrow>
     dom (map_of (m_retryStore s)) \<subseteq> dom (map_of (m_pending s)) \<union> data_key ` set es
     \<and> distinct (map data_key es) \<and> data_key ` set es \<inter> dom (map_of (m_pending s)) = {}
     \<and> length (m_pending s) + length es \<le> MAX_TRANSPORT_MONITOR_PENDING"

definition monitored :: "monitors \<Rightarrow> bool" where
  "monitored s \<longleftrightarrow> keyed s \<and> owing [] s"

lemma keyed_entry:
  assumes "keyed s" and "map_of (m_retryStore s) (message_key i q) = Some e"
  shows "m_id (entry_header e) = i" and "m_seqNum (entry_header e) = q"
proof -
  have "message_key i q = entry_key e" using assms by (simp add: keyed_def)
  then show "m_id (entry_header e) = i" "m_seqNum (entry_header e) = q"
    by (simp_all add: entry_key_def message_key_eq)
qed

lemma keyed_frame [frame]:
  "keyed (s\<lparr>sent := x\<rparr>) = keyed s" "keyed (s\<lparr>statuses := y\<rparr>) = keyed s"
  "keyed (s\<lparr>failures := z\<rparr>) = keyed s" "keyed (s\<lparr>cap_exceeded := w\<rparr>) = keyed s"
  "keyed (s\<lparr>pending_exceeded := w\<rparr>) = keyed s"
  by (simp_all add: keyed_def)

lemma owing_frame [frame]:
  "owing es (s\<lparr>sent := x\<rparr>) = owing es s" "owing es (s\<lparr>statuses := y\<rparr>) = owing es s"
  "owing es (s\<lparr>failures := z\<rparr>) = owing es s" "owing es (s\<lparr>cap_exceeded := w\<rparr>) = owing es s"
  "owing es (s\<lparr>pending_exceeded := w\<rparr>) = owing es s"
  by (simp_all add: owing_def)

lemma keyed_Add: "keyed s \<Longrightarrow> keyed (snd (Add now q i s))"
  by (rule Add_cases [of now q i s])
    (auto simp: keyed_def put_sorted put_lookup data_key_def)

lemma keyed_store:
  "keyed s \<Longrightarrow> keyed (s\<lparr>m_retryStore := erase k (m_retryStore s)\<rparr>)"
  "keyed s \<Longrightarrow> k = entry_key e \<Longrightarrow> keyed (s\<lparr>m_retryStore := put k e (m_retryStore s)\<rparr>)"
  "keyed s \<Longrightarrow> keyed (s\<lparr>m_pending := erase k (m_pending s)\<rparr>)"
  by (auto simp: keyed_def erase_sorted erase_lookup put_sorted put_lookup)

lemma failed_eq: "delivery_failed k i q s = (s\<lparr>m_retryStore := erase k (m_retryStore s)\<rparr>)\<lparr>failures := failures s @ [(i, q)]\<rparr>"
  by (simp add: delivery_failed_def)

lemma keyed_failed: "keyed s \<Longrightarrow> keyed (delivery_failed k i q s)"
  unfolding failed_eq by (simp add: frame keyed_store)

lemma length_put: "sorted_map xs \<Longrightarrow> k \<notin> fst ` set xs \<Longrightarrow> length (put k v xs) = Suc (length xs)"
  using smap.count_assign [of xs k v] by (simp add: map_of_eq_None_iff del: map_of_eq_None_iff) (metis map_of_eq_None_iff)

lemma erase_absent: "map_of xs k = None \<Longrightarrow> erase k xs = xs"
  by (induction xs) (auto simp: erase_def split: if_splits)

lemma length_erase: "length (erase k xs) \<le> length xs"
  by (simp add: erase_def)

text \<open>Handling the timeout of the first message still owed settles it.\<close>

lemma owing_settled_failed:
  assumes "owing (d # es) s" and "m_pending s1 = m_pending s" and "m_retryStore s1 = m_retryStore s"
  shows "owing es (delivery_failed (data_key d) i q s1)"
  using assms by (auto simp: owing_def delivery_failed_def erase_lookup)

lemma owing_settled_added:
  assumes "owing (d # es) s" and "keyed s" and "i = td_remoteId d" and "q = td_seqNum d"
  shows "fst (Add now q i s)" and "owing es (snd (Add now q i s))"
proof -
  have key: "message_key i q = data_key d" using assms(3,4) by (simp add: data_key_def)
  have free: "map_of (m_pending s) (message_key i q) = None" "length (m_pending s) < MAX_TRANSPORT_MONITOR_PENDING"
    using assms(1) by (auto simp: owing_def key)
  then have a: "Add now q i s = (True, s\<lparr>m_pending := put (message_key i q)
          \<lparr>td_remoteId = i, td_seqNum = q, td_timeStamp = now\<rparr> (m_pending s)\<rparr>)"
    by (simp add: Add_def Let_def del: map_of_eq_None_iff)
  have "length (put (message_key i q) v (m_pending s)) = Suc (length (m_pending s))" for v
    using free(1) assms(2) by (intro length_put) (auto simp: keyed_def map_of_eq_None_iff)
  with assms(1) free show "fst (Add now q i s)" and "owing es (snd (Add now q i s))"
    by (auto simp: a owing_def put_lookup key)
qed

lemma notify_settles:
  assumes "owing (d # es) s" and "keyed s"
  shows "owing es (OnSendStatus tx now (td_remoteId d) (td_seqNum d) TIMEOUT s)
    \<and> keyed (OnSendStatus tx now (td_remoteId d) (td_seqNum d) TIMEOUT s)"
proof -
  define t where "t = s\<lparr>statuses := statuses s @ [(td_remoteId d, td_seqNum d, TIMEOUT)]\<rparr>"
  let ?k = "message_key (td_remoteId d) (td_seqNum d)"
  have k: "?k = data_key d" by (simp add: data_key_def)
  have t: "owing (d # es) t" "keyed t" "m_pending t = m_pending s" "m_retryStore t = m_retryStore s"
    using assms by (simp_all add: t_def frame)
  have "owing es (OnStatusChanged tx now (td_remoteId d) (td_seqNum d) TIMEOUT t)
    \<and> keyed (OnStatusChanged tx now (td_remoteId d) (td_seqNum d) TIMEOUT t)"
  proof (cases "map_of (m_retryStore t) ?k")
    case None
    then have "owing es t" using t(1) by (auto simp: owing_def k)
    with None t show ?thesis by (simp add: OnStatusChanged_def Let_def)
  next
    case (Some e)
    note e = keyed_entry [OF t(2) Some]
    define u where "u = t\<lparr>m_retryStore := put ?k (e\<lparr>attemptsRemaining := attemptsRemaining e - 1\<rparr>) (m_retryStore t)\<rparr>"
    have ku: "keyed u" unfolding u_def using t(2) e by (intro keyed_store) (auto simp: entry_key_def)
    have ou: "owing (d # es) u" using t(1) Some by (auto simp: owing_def u_def put_lookup)
    consider "attemptsRemaining e > 0" "isSent e" | "attemptsRemaining e > 0" "\<not> isSent e" | "\<not> attemptsRemaining e > 0"
      by blast
    then show ?thesis
    proof cases
      case 1
      then have s: "OnStatusChanged tx now (td_remoteId d) (td_seqNum d) TIMEOUT t
          = resend tx now (td_remoteId d) (td_seqNum d) e u"
        using Some by (simp add: OnStatusChanged_def u_def Let_def)
      show ?thesis unfolding s
      proof (cases rule: resend_cases [of now e u tx "td_remoteId d" "td_seqNum d"])
        case again
        then show "owing es (resend tx now (td_remoteId d) (td_seqNum d) e u)
            \<and> keyed (resend tx now (td_remoteId d) (td_seqNum d) e u)"
          using owing_settled_added [OF ou ku refl refl, of now] keyed_Add [OF ku] e by (simp add: frame)
      next
        case (lost s1)
        have "keyed s1" using ku lost(2,3) by (simp add: keyed_def)
        then show "owing es (resend tx now (td_remoteId d) (td_seqNum d) e u)
            \<and> keyed (resend tx now (td_remoteId d) (td_seqNum d) e u)"
          using owing_settled_failed [OF ou lost(2,3)] keyed_failed lost(1) by (simp add: k)
      qed
    next
      case 2
      then show ?thesis
        using Some owing_settled_added [OF t(1,2) refl refl, of now] keyed_Add [OF t(2)] e
        by (simp add: OnStatusChanged_def Let_def)
    next
      case 3
      then show ?thesis
        using Some owing_settled_failed [OF t(1) refl refl] keyed_failed [OF t(2)]
        by (simp add: OnStatusChanged_def Let_def k)
    qed
  qed
  then show ?thesis by (simp add: OnSendStatus_def t_def)
qed

lemma report_settles:
  "owing es s \<Longrightarrow> keyed s \<Longrightarrow> monitored (report_timeouts tx now es s)"
proof (induction es arbitrary: s)
  case (Cons d es)
  then show ?case
    using notify_settles [OF Cons.prems, of tx now] Cons.IH by (simp add: report_timeouts_def)
qed (simp add: report_timeouts_def monitored_def)

lemma scan_split:
  "scan now t n xs = (es, ks, full) \<Longrightarrow> \<exists>fs. map snd fs = es \<and> mset xs = mset fs + mset ks"
proof (induction now t n xs arbitrary: es ks full rule: scan.induct)
  case (2 now t n k d xs)
  consider (room) m where "expired now t d" "n = Suc m" | (stop) "expired now t d" "n = 0" | (keep) "\<not> expired now t d"
    by (cases n) auto
  then show ?case
  proof cases
    case room
    obtain es' ks' f where r: "scan now t m xs = (es', ks', f)" using prod_cases3 by blast
    obtain fs where "map snd fs = es'" "mset xs = mset fs + mset ks'" using 2(1) [OF room(1,2) r] by blast
    then show ?thesis using 2(3) room r by (intro exI [of _ "(k, d) # fs"]) simp
  next
    case stop
    then show ?thesis using 2(3) by (intro exI [of _ "[]"]) simp
  next
    case keep
    obtain es' ks' f where r: "scan now t n xs = (es', ks', f)" using prod_cases3 by blast
    obtain fs where "map snd fs = es'" "mset xs = mset fs + mset ks'" using 2(2) [OF keep r] by blast
    then show ?thesis using 2(3) keep r by (intro exI [of _ fs]) auto
  qed
qed simp

lemma scan_sorted:
  "scan now t n xs = (es, ks, full) \<Longrightarrow> sorted_map xs \<Longrightarrow> sorted_map ks \<and> set ks \<subseteq> set xs"
proof (induction now t n xs arbitrary: es ks full rule: scan.induct)
  case (2 now t n k d xs)
  have s: "sorted_map xs" "\<forall>x \<in> set xs. k < fst x" using 2(4) by (simp_all add: sorted_map_def)
  consider (room) m where "expired now t d" "n = Suc m" | (stop) "expired now t d" "n = 0" | (keep) "\<not> expired now t d"
    by (cases n) auto
  then show ?case
  proof cases
    case room
    obtain es' ks' f where r: "scan now t m xs = (es', ks', f)" using prod_cases3 by blast
    have "sorted_map ks' \<and> set ks' \<subseteq> set xs" by (rule 2(1) [OF room r s(1)])
    then show ?thesis using 2(3) room r by auto
  next
    case stop
    then show ?thesis using 2(3,4) by auto
  next
    case keep
    obtain es' ks' f where r: "scan now t n xs = (es', ks', f)" using prod_cases3 by blast
    have ks: "sorted_map ks' \<and> set ks' \<subseteq> set xs" by (rule 2(2) [OF keep r s(1)])
    have "ks = (k, d) # ks'" using 2(3) keep r by simp
    moreover have "\<forall>x \<in> set ks'. k < fst x" using ks s(2) by blast
    ultimately show ?thesis using ks by (auto simp: sorted_map_def)
  qed
qed simp

lemma pass_monitored:
  assumes "monitored s"
  shows "monitored (snd (Process_pass tx now s))"
proof -
  obtain es ks full where sc: "scan now (TRANSPORT_TIMEOUT s) MAX_TIMER_EXPIRED (m_pending s) = (es, ks, full)"
    using prod_cases3 by blast
  have k: "keyed s" "owing [] s" using assms by (simp_all add: monitored_def)
  have srt: "sorted_map (m_pending s)" using k(1) by (simp add: keyed_def)
  have sk: "sorted_map ks" "set ks \<subseteq> set (m_pending s)" using scan_sorted [OF sc srt] by simp_all
  obtain fs where fs: "map snd fs = es" "mset (m_pending s) = mset fs + mset ks"
    using scan_split [OF sc] by blast
  have all: "set (m_pending s) = set fs \<union> set ks" using fs(2) by (metis set_mset_mset set_mset_union)
  have len: "length (m_pending s) = length fs + length ks" using fs(2) by (metis size_mset size_union)
  have "mset (map fst (m_pending s)) = mset (map fst (fs @ ks))" using fs(2) by simp
  then have dist: "distinct (map fst (fs @ ks))"
    using sorted_map_distinct [OF srt] mset_eq_imp_distinct_iff by blast
  have dk: "data_key (snd x) = fst x" if "x \<in> set (m_pending s)" for x
  proof -
    have "map_of (m_pending s) (fst x) = Some (snd x)" using that sorted_map_distinct [OF srt] by simp
    then show ?thesis using k(1) unfolding keyed_def by metis
  qed
  have "\<forall>x \<in> set fs. data_key (snd x) = fst x" using dk all by blast
  then have "map data_key (map snd fs) = map fst fs" by (induction fs) auto
  then have keys: "map data_key es = map fst fs" by (simp add: fs(1))
  have img: "data_key ` set es = fst ` set fs" using arg_cong [OF keys, of set] by simp
  let ?s = "s\<lparr>m_pending := ks\<rparr>"
  have memk: "x \<in> set ks" if "map_of ks (fst x) = Some (snd x)" for x
    using map_of_SomeD [OF that] by simp
  have "\<forall>a b. map_of ks a = Some b \<longrightarrow> a = data_key b"
  proof (intro allI impI)
    fix a b assume "map_of ks a = Some b"
    then have "(a, b) \<in> set (m_pending s)" using sk(2) map_of_SomeD by fast
    from dk [OF this] show "a = data_key b" by simp
  qed
  then have "keyed ?s" using k(1) sk(1) by (simp add: keyed_def)
  moreover have "owing es ?s"
  proof -
    have "dom (map_of (m_pending s)) = dom (map_of ks) \<union> data_key ` set es"
      by (simp add: dom_map_of_conv_image_fst img all image_Un Un_commute)
    moreover have "data_key ` set es \<inter> dom (map_of ks) = {}"
      using dist by (simp add: dom_map_of_conv_image_fst img)
    moreover have "length ks + length es \<le> MAX_TRANSPORT_MONITOR_PENDING"
      using k(2) len fs(1) by (auto simp: owing_def)
    ultimately show ?thesis using k(2) keys dist by (simp add: owing_def)
  qed
  ultimately have "monitored (report_timeouts tx now es ?s)" using report_settles by blast
  then show ?thesis by (simp add: Process_pass_def sc Let_def monitored_def frame)
qed

lemma Process_monitored: "monitored s \<Longrightarrow> monitored (Process tx now s)"
proof (induction tx now s rule: Process.induct)
  case (1 tx now s)
  obtain n s' where p: "Process_pass tx now s = (n, s')" by fastforce
  then have "monitored s'" using pass_monitored [OF 1(2), of tx now] by simp
  then show ?case using 1(1) [OF _ p [symmetric] refl] 1(2) p by (subst Process.simps) auto
qed

lemma send_start_monitored:
  assumes "monitored s"
  shows "monitored (snd (send_start now header os s))"
proof -
  let ?k = "message_key (m_id header) (m_seqNum header)"
  define s1 where "s1 = s\<lparr>m_retryStore := put ?k \<lparr>packetData = os, entry_header = header,
    attemptsRemaining = m_maxRetries s, isSent = False\<rparr> (m_retryStore s)\<rparr>"
  have s1: "keyed s1" unfolding s1_def
    using assms by (intro keyed_store) (simp_all add: monitored_def entry_key_def)
  have o: "owing [] s" using assms by (simp add: monitored_def)
  have eq: "snd (send_start now header os s) =
    (if fst (Add now (m_seqNum header) (m_id header) s1) then snd (Add now (m_seqNum header) (m_id header) s1)
     else delivery_failed ?k (m_id header) (m_seqNum header) (snd (Add now (m_seqNum header) (m_id header) s1)))"
    by (simp add: send_start_def s1_def Let_def split: prod.split)
  note k2 = keyed_Add [OF s1, of now "m_seqNum header" "m_id header"]
  have "owing [] (snd (send_start now header os s))"
  proof (cases rule: Add_cases [of now "m_seqNum header" "m_id header" s1])
    case full
    then show ?thesis using o by (auto simp: eq owing_def delivery_failed_def erase_lookup s1_def put_lookup)
  next
    case taken
    then show ?thesis using o by (auto simp: eq owing_def delivery_failed_def erase_lookup s1_def put_lookup)
  next
    case added
    have "length (put ?k v (m_pending s1)) = Suc (length (m_pending s1))" for v
      using added(2) s1 by (intro length_put) (simp_all add: keyed_def)
    with added o show ?thesis by (auto simp: eq owing_def put_lookup s1_def)
  qed
  moreover have "keyed (snd (send_start now header os s))" unfolding eq using k2 keyed_failed by simp
  ultimately show ?thesis by (simp add: monitored_def)
qed

lemma send_end_monitored:
  assumes "monitored s"
  shows "monitored (send_end result header s)"
proof -
  let ?k = "message_key (m_id header) (m_seqNum header)"
  have ko: "keyed s" "owing [] s" using assms by (simp_all add: monitored_def)
  show ?thesis
  proof (cases "result = 0")
    case False
    have c: "m_retryStore (snd (Cancel_pending (m_seqNum header) (m_id header) s)) = m_retryStore s"
      "m_pending (snd (Cancel_pending (m_seqNum header) (m_id header) s)) = erase ?k (m_pending s)"
      by (simp_all add: Cancel_pending_def Let_def erase_absent split: option.split)
    have "keyed (snd (Cancel_pending (m_seqNum header) (m_id header) s))"
      using keyed_store(3) [OF ko(1), of ?k] c by (simp add: keyed_def)
    moreover have "owing [] (delivery_failed ?k (m_id header) (m_seqNum header)
        (snd (Cancel_pending (m_seqNum header) (m_id header) s)))"
      using ko(2) c length_erase [of ?k "m_pending s"] by (auto simp: owing_def delivery_failed_def erase_lookup)
    ultimately show ?thesis
      using False keyed_failed by (simp add: send_end_def monitored_def Let_def)
  next
    case True
    show ?thesis
    proof (cases "map_of (m_retryStore s) ?k")
      case None
      then show ?thesis using True assms by (simp add: send_end_def Let_def)
    next
      case (Some e)
      have "keyed (s\<lparr>m_retryStore := put ?k (e\<lparr>isSent := True\<rparr>) (m_retryStore s)\<rparr>)"
        using keyed_entry [OF ko(1) Some] by (intro keyed_store ko) (simp add: entry_key_def)
      then show ?thesis
        using True Some ko(2) by (auto simp: send_end_def monitored_def owing_def put_lookup Let_def)
    qed
  qed
qed

lemma Remove_monitored:
  assumes "monitored s"
  shows "monitored (Remove tx now seqNum remoteId s)"
proof -
  have ko: "keyed s" "owing [] s" using assms by (simp_all add: monitored_def)
  define hit where "hit = (if remoteId \<noteq> 0
                 then map_option (Pair (message_key remoteId seqNum))
                        (map_of (m_pending s) (message_key remoteId seqNum))
                 else find (\<lambda>(k, d). td_seqNum d = seqNum) (m_pending s))"
  show ?thesis
  proof (cases hit)
    case None
    then show ?thesis using assms by (simp add: Remove_def hit_def [symmetric])
  next
    case (Some x)
    obtain k d where x: "x = (k, d)" by fastforce
    have mem: "map_of (m_pending s) k = Some d" "td_seqNum d = seqNum"
    proof -
      have "map_of (m_pending s) k = Some d \<and> (remoteId = 0 \<longrightarrow> td_seqNum d = seqNum) \<and> (remoteId \<noteq> 0 \<longrightarrow> k = message_key remoteId seqNum)"
        using Some x sorted_map_distinct [of "m_pending s"] ko(1)
        by (auto simp: hit_def keyed_def find_Some_iff split: if_splits dest: nth_mem)
      moreover from this have "k = data_key d" using ko(1) by (simp add: keyed_def)
      ultimately show "map_of (m_pending s) k = Some d" "td_seqNum d = seqNum"
        by (auto simp: data_key_def message_key_eq)
    qed
    then have k: "k = message_key (td_remoteId d) seqNum" using ko(1) by (auto simp: keyed_def data_key_def)
    define t where "t = s\<lparr>m_pending := erase k (m_pending s), statuses := statuses s @ [(td_remoteId d, seqNum, SUCCESS)]\<rparr>"
    have "keyed t" unfolding t_def using keyed_store(3) [OF ko(1), of k] by (simp add: frame)
    moreover have "Remove tx now seqNum remoteId s = (case map_of (m_retryStore s) k of None \<Rightarrow> t
        | Some e \<Rightarrow> t\<lparr>m_retryStore := erase k (m_retryStore t)\<rparr>)"
      using Some x by (simp add: Remove_def hit_def [symmetric] OnSendStatus_def OnStatusChanged_def Let_def t_def k
          split: option.split)
    moreover have "dom (map_of (m_retryStore s)) - {k} \<subseteq> dom (map_of (m_pending t))"
      using ko(2) by (auto simp: owing_def t_def erase_lookup)
    moreover have "length (m_pending t) \<le> MAX_TRANSPORT_MONITOR_PENDING"
      using ko(2) length_erase [of k "m_pending s"] by (simp add: owing_def t_def)
    ultimately show ?thesis
      using keyed_store(1) [of t k] ko(2)
      by (auto simp: monitored_def owing_def erase_lookup t_def split: option.split)
  qed
qed

section \<open>Interleavings\<close>

text \<open>Calls of the monitors by any number of threads. A call of \<^verbatim>\<open>SendWithRetry\<close> is three steps,
  anything may happen between them.\<close>

inductive reliable :: "monitors \<Rightarrow> bool" where
  init: "reliable (monitors_init timeout retries)"
| begin_send: "reliable s \<Longrightarrow> reliable (snd (send_start now header os s))"
| transmit: "reliable s \<Longrightarrow> reliable (snd (transmit tx header os s))"
| end_send: "reliable s \<Longrightarrow> reliable (send_end result header s)"
| acknowledge: "reliable s \<Longrightarrow> reliable (Remove tx now seqNum remoteId s)"
| process: "reliable s \<Longrightarrow> reliable (Process tx now s)"

lemma reliable_monitored: "reliable s \<Longrightarrow> monitored s"
proof (induction rule: reliable.induct)
  case (init timeout retries)
  then show ?case by (simp add: monitors_init_def monitored_def keyed_def owing_def)
next
  case (transmit s tx header os)
  then show ?case by (simp add: transmit_def monitored_def frame)
qed (simp_all add: send_start_monitored send_end_monitored Remove_monitored Process_monitored)

text \<open>What \<^verbatim>\<open>Process\<close> does with one entry whose time is up.\<close>

definition lapse :: "(nat \<Rightarrow> int) \<Rightarrow> time_point \<Rightarrow> u16 \<Rightarrow> u16 \<Rightarrow> monitors \<Rightarrow> monitors" where
  "lapse tx now i q s =
     OnSendStatus tx now i q TIMEOUT (s\<lparr>m_pending := erase (message_key i q) (m_pending s)\<rparr>)"

lemma lapse_monitored:
  assumes "monitored s"
  shows "monitored (lapse tx now i q s)"
proof -
  let ?d = "\<lparr>td_remoteId = i, td_seqNum = q, td_timeStamp = 0\<rparr>"
  let ?s = "s\<lparr>m_pending := erase (message_key i q) (m_pending s)\<rparr>"
  have k: "data_key ?d = message_key i q" by (simp add: data_key_def)
  have ks: "keyed ?s" using assms keyed_store(3) by (simp add: monitored_def)
  show ?thesis
  proof (cases "map_of (m_pending s) (message_key i q)")
    case None
    then have s: "?s = s" by (simp add: erase_absent)
    have "map_of (m_retryStore s) (message_key i q) = None"
      using None assms by (auto simp: monitored_def owing_def)
    then show ?thesis
      using assms by (simp add: lapse_def s OnSendStatus_def OnStatusChanged_def Let_def monitored_def frame)
  next
    case (Some d)
    have "sorted_map (m_pending s)" using assms by (simp add: monitored_def keyed_def)
    then have "length (erase (message_key i q) (m_pending s)) = length (m_pending s) - 1"
      using smap.count_remove [of "m_pending s" "message_key i q"] Some by simp
    moreover have "0 < length (m_pending s)" using Some by (cases "m_pending s") auto
    ultimately have "owing [?d] ?s"
      using assms by (auto simp: monitored_def owing_def k erase_lookup)
    from notify_settles [OF this ks, of tx now] show ?thesis
      by (simp add: lapse_def monitored_def)
  qed
qed

lemma lapse_retry:
  assumes "monitored s" and "map_of (m_retryStore s) (message_key i q) = Some e" and "isSent e"
    and "attemptsRemaining e > 0" and "\<And>n. tx n = 0"
  shows "sent (lapse tx now i q s) = sent s @ [(entry_header e, packetData e)]
    \<and> failures (lapse tx now i q s) = failures s
    \<and> map_of (m_retryStore (lapse tx now i q s)) (message_key i q)
      = Some (e\<lparr>attemptsRemaining := attemptsRemaining e - 1\<rparr>)"
proof -
  have ke: "keyed s" using assms(1) by (simp add: monitored_def)
  note e = keyed_entry [OF ke assms(2)]
  define u where "u = s\<lparr>m_pending := erase (message_key i q) (m_pending s),
    statuses := statuses s @ [(i, q, TIMEOUT)],
    m_retryStore := put (message_key i q) (e\<lparr>attemptsRemaining := attemptsRemaining e - 1\<rparr>) (m_retryStore s)\<rparr>"
  have l: "lapse tx now i q s = resend tx now i q e u"
    using assms(2-4) by (simp add: lapse_def OnSendStatus_def OnStatusChanged_def u_def Let_def)
  have "length (m_pending u) < MAX_TRANSPORT_MONITOR_PENDING"
  proof -
    have "sorted_map (m_pending s)" using ke by (simp add: keyed_def)
    then have "length (m_pending u) = length (m_pending s) - 1"
      using smap.count_remove [of "m_pending s" "message_key i q"] assms(1,2)
      by (auto simp: u_def monitored_def owing_def split: if_splits)
    then show ?thesis using assms(1) by (auto simp: monitored_def owing_def MAX_TRANSPORT_MONITOR_PENDING_def)
  qed
  moreover have "map_of (m_pending u) (message_key i q) = None" by (simp add: u_def erase_lookup)
  ultimately have a: "Add now q i u = (True, u\<lparr>m_pending := put (message_key i q)
      \<lparr>td_remoteId = i, td_seqNum = q, td_timeStamp = now\<rparr> (m_pending u)\<rparr>)"
    by (simp add: Add_def Let_def del: map_of_eq_None_iff)
  show ?thesis
    unfolding l by (simp add: resend_def transmit_def a e assms(5)) (simp add: u_def put_lookup)
qed

lemma lapse_given_up:
  assumes "map_of (m_retryStore s) (message_key i q) = Some e" and "attemptsRemaining e \<le> 0"
  shows "lapse tx now i q s = (delivery_failed (message_key i q) i q
    (s\<lparr>m_pending := erase (message_key i q) (m_pending s), statuses := statuses s @ [(i, q, TIMEOUT)]\<rparr>))"
  using assms by (simp add: lapse_def OnSendStatus_def OnStatusChanged_def Let_def)

lemma lapse_unknown:
  assumes "map_of (m_retryStore s) (message_key i q) = None"
  shows "lapse tx now i q s = s\<lparr>m_pending := erase (message_key i q) (m_pending s), statuses := statuses s @ [(i, q, TIMEOUT)]\<rparr>"
  using assms by (simp add: lapse_def OnSendStatus_def OnStatusChanged_def Let_def)

lemma lapses:
  fixes nows :: "time_point list"
  assumes "monitored s" and "map_of (m_retryStore s) (message_key i q) = Some e" and "isSent e"
    and "0 \<le> attemptsRemaining e" and "\<And>n. tx n = 0"
  defines "s' \<equiv> \<lambda>nows. fold (\<lambda>now. lapse tx now i q) nows s"
    and "n \<equiv> length nows"
  shows "monitored (s' nows) \<and> sent (s' nows) = sent s @ replicate (min n (nat (attemptsRemaining e))) (entry_header e, packetData e)
    \<and> (if int n \<le> attemptsRemaining e
       then failures (s' nows) = failures s \<and> map_of (m_retryStore (s' nows)) (message_key i q)
         = Some (e\<lparr>attemptsRemaining := attemptsRemaining e - int n\<rparr>)
       else failures (s' nows) = failures s @ [(i, q)] \<and> map_of (m_retryStore (s' nows)) (message_key i q) = None)"
  unfolding n_def
proof (induction nows rule: rev_induct)
  case Nil
  then show ?case using assms(1,2,4) by (simp add: s'_def)
next
  case (snoc now nows)
  define n where "n = length nows"
  note IH = snoc.IH [folded n_def]
  have step: "s' (nows @ [now]) = lapse tx now i q (s' nows)" by (simp add: s'_def)
  have m: "monitored (s' (nows @ [now]))" unfolding step using lapse_monitored IH by blast
  consider "int (Suc n) \<le> attemptsRemaining e" | "int n = attemptsRemaining e" | "attemptsRemaining e < int n"
    by linarith
  then show ?case
  proof cases
    case 1
    let ?e = "e\<lparr>attemptsRemaining := attemptsRemaining e - int n\<rparr>"
    have "map_of (m_retryStore (s' nows)) (message_key i q) = Some ?e" using IH 1 by simp
    from lapse_retry [OF conjunct1 [OF IH] this, where tx = tx and now = now] 1 assms(3,5) IH m show ?thesis
      by (simp add: step min_def le_nat_iff replicate_append_same [symmetric] algebra_simps n_def [symmetric])
  next
    case 2
    then have "map_of (m_retryStore (s' nows)) (message_key i q) = Some (e\<lparr>attemptsRemaining := 0\<rparr>)" "nat (attemptsRemaining e) = n"
      using IH nat_int [of n] by simp_all
    with lapse_given_up [OF this(1), of tx now] 2 IH m show ?thesis
      by (simp add: step delivery_failed_def erase_lookup n_def [symmetric])
  next
    case 3
    then have "map_of (m_retryStore (s' nows)) (message_key i q) = None" "\<not> n \<le> nat (attemptsRemaining e)"
      using IH assms(4) by (simp, linarith)
    with lapse_unknown [OF this(1), of tx now] 3 IH m show ?thesis
      by (simp add: step min_def n_def [symmetric])
  qed
qed

section \<open>A message in flight\<close>

definition always_ok :: "nat \<Rightarrow> int" where "always_ok n = 0"

definition hello :: DmqHeader where "hello = DmqHeader 7 1 2"

definition in_flight :: monitors where
  "in_flight = send_end 0 hello (snd (transmit always_ok hello [1, 2] (snd (send_start 0 hello [1, 2] (monitors_init 5 3)))))"

definition hello_entry :: RetryEntry where
  "hello_entry = \<lparr>packetData = [1, 2], entry_header = hello, attemptsRemaining = 3, isSent = True\<rparr>"

lemma in_flight_reliable: "reliable in_flight"
  unfolding in_flight_def by (intro reliable.intros)

lemma in_flight_eq:
  "in_flight = (monitors_init 5 3)\<lparr>m_pending := [(message_key 7 1, \<lparr>td_remoteId = 7, td_seqNum = 1, td_timeStamp = 0\<rparr>)],
     m_retryStore := [(message_key 7 1, hello_entry)], sent := [(hello, [1, 2])]\<rparr>"
  by (simp add: in_flight_def send_end_def send_start_def transmit_def Add_def monitors_init_def hello_def
      DmqHeader_def hello_entry_def MAX_TRANSPORT_MONITOR_PENDING_def Let_def)

section \<open>Properties\<close>

text \<open>
  One call of \<^verbatim>\<open>Process\<close> terminates, leaves no message that has waited longer than the
  timeout unless it was sent again just now, and reports each overdue message exactly once, in
  key order, however many passes of sixteen it takes.
\<close>

theorem process_reports_overdue:
  "overdue now (Process tx now s) = [] \<and>
   statuses (Process tx now s)
     = statuses s @ map (\<lambda>(k, d). (td_remoteId d, td_seqNum d, TIMEOUT)) (overdue now s)"
  by (rule Process_drains)



text \<open>
  A message that is never acknowledged is sent again once per timeout, unchanged and under
  its original sequence number, until its retries are used up; the next timeout gives it up and
  reports the failure exactly once.
\<close>

theorem retry_budget:
  fixes nows :: "time_point list"
  assumes "reliable s" and "map_of (m_retryStore s) (message_key i q) = Some e" and "isSent e"
    and "0 \<le> attemptsRemaining e" and "\<And>n. tx n = 0"
  defines "s' \<equiv> fold (\<lambda>now. lapse tx now i q) nows s"
  shows "sent s' = sent s @ replicate (min (length nows) (nat (attemptsRemaining e))) (entry_header e, packetData e)
    \<and> failures s' = failures s @ (if int (length nows) \<le> attemptsRemaining e then [] else [(i, q)])
    \<and> (map_of (m_retryStore s') (message_key i q) = None) = (attemptsRemaining e < int (length nows))"
  using lapses [OF reliable_monitored [OF assms(1)] assms(2-5), where nows = nows]
  by (simp add: s'_def split: if_splits)

lemma retry_budget_witness:
  "sent (fold (\<lambda>now. lapse always_ok now 7 1) [6, 12, 18, 24, 30] in_flight)
     = [(hello, [1, 2]), (hello, [1, 2]), (hello, [1, 2]), (hello, [1, 2])]
   \<and> failures (fold (\<lambda>now. lapse always_ok now 7 1) [6, 12, 18, 24, 30] in_flight) = [(7, 1)]"
  using retry_budget [OF in_flight_reliable, where i = 7 and q = 1 and e = hello_entry and tx = always_ok
      and nows = "[6, 12, 18, 24, 30]"]
  by (simp add: in_flight_eq hello_entry_def always_ok_def monitors_init_def numeral_eq_Suc)

text \<open>
  Sending a message whose key is still in use is refused, but it takes the stored copy of
  the earlier message with it: that one is still monitored, yet its timeout neither sends it
  again nor reports it as failed.
\<close>

theorem key_collision_loses_message:
  fixes os :: "byte list" and now :: time_point and tx :: "nat \<Rightarrow> int"
  assumes "map_of (m_pending s) (message_key (m_id header) (m_seqNum header)) \<noteq> None"
  defines "s' \<equiv> snd (SendWithRetry tx now header os s)"
  shows "fst (SendWithRetry tx now header os s) = -1
    \<and> map_of (m_pending s') = map_of (m_pending s)
    \<and> map_of (m_retryStore s') (message_key (m_id header) (m_seqNum header)) = None
    \<and> sent (lapse tx2 now2 (m_id header) (m_seqNum header) s') = sent s
    \<and> failures (lapse tx2 now2 (m_id header) (m_seqNum header) s') = failures s'"
proof -
  let ?k = "message_key (m_id header) (m_seqNum header)"
  have r: "fst (SendWithRetry tx now header os s) = -1" "m_pending s' = m_pending s" "sent s' = sent s"
    "map_of (m_retryStore s') ?k = None"
    using assms(1) by (auto simp: s'_def SendWithRetry_def send_start_def Add_def delivery_failed_def erase_lookup Let_def)
  then show ?thesis using lapse_unknown [OF r(4), of tx2 now2] by simp
qed

lemma key_collision_loses_message_witness:
  "fst (SendWithRetry always_ok 1 hello [3] in_flight) = -1
    \<and> map_of (m_pending (snd (SendWithRetry always_ok 1 hello [3] in_flight))) = map_of (m_pending in_flight)
    \<and> map_of (m_retryStore (snd (SendWithRetry always_ok 1 hello [3] in_flight))) (message_key (m_id hello) (m_seqNum hello)) = None
    \<and> sent (lapse always_ok 6 (m_id hello) (m_seqNum hello) (snd (SendWithRetry always_ok 1 hello [3] in_flight))) = sent in_flight
    \<and> failures (lapse always_ok 6 (m_id hello) (m_seqNum hello) (snd (SendWithRetry always_ok 1 hello [3] in_flight)))
      = failures (snd (SendWithRetry always_ok 1 hello [3] in_flight))"
  by (rule key_collision_loses_message) (simp add: in_flight_eq hello_def DmqHeader_def)

end
