(* ===== verification/Timers.thy ===== *)
theory Timers
  imports IntrusiveList "HOL-Library.Multiset"
begin

text \<open>
  \<^verbatim>\<open>extras/util/Timer.{h,cpp}\<close> and \<^verbatim>\<open>extras/util/TimerDelegate.h\<close>: software timers in an
  intrusive list, the function that services them, and the gate that keeps a periodic timer from
  flooding the queue of a slow thread. A timer object is identified by a number. A call of
  \<^verbatim>\<open>ProcessTimers\<close> sees one reading of the clock; the callbacks it makes are the list of timers
  it returns, in order.
\<close>

section \<open>Timers\<close>

type_synonym timer_id = nat

record timers =
  timersHead :: "timer_id option"
  timersNext :: "timer_id \<Rightarrow> timer_id option"
  m_timeout :: "timer_id \<Rightarrow> duration"
  m_expireTime :: "timer_id \<Rightarrow> time_point"
  m_enabled :: "timer_id \<Rightarrow> bool"
  m_once :: "timer_id \<Rightarrow> bool"
  m_timerStopped :: bool


definition timer_links :: "timers \<Rightarrow> timer_id links" where
  "timer_links s = (timersHead s, timersNext s)"

definition set_timer_links :: "timer_id links \<Rightarrow> timers \<Rightarrow> timers" where
  "set_timer_links l s = s\<lparr>timersHead := fst l, timersNext := snd l\<rparr>"

definition no_timers :: timers where
  "no_timers = \<lparr>timersHead = None, timersNext = (\<lambda>_. None), m_timeout = (\<lambda>_. 0), m_expireTime = (\<lambda>_. 0),
     m_enabled = (\<lambda>_. False), m_once = (\<lambda>_. False), m_timerStopped = False\<rparr>"

text \<open>The constructor, the destructor, and \<^verbatim>\<open>Start\<close>, which throws for a timeout that is not
  positive.\<close>

definition Timer :: "timer_id \<Rightarrow> timers \<Rightarrow> timers" where
  "Timer t s = s\<lparr>m_enabled := (m_enabled s)(t := False), m_timeout := (m_timeout s)(t := 0),
     m_once := (m_once s)(t := False), timersNext := (timersNext s)(t := None)\<rparr>"

definition timer_destroy :: "nat \<Rightarrow> timer_id \<Rightarrow> timers \<Rightarrow> timers" where
  "timer_destroy n t s = set_timer_links (unlink n None t (timer_links s)) s"

definition Start :: "nat \<Rightarrow> time_point \<Rightarrow> duration \<Rightarrow> bool \<Rightarrow> timer_id \<Rightarrow> timers \<Rightarrow> timers option" where
  "Start n now timeout once t s =
     (if timeout \<le> 0 then None
      else let s1 = s\<lparr>m_timeout := (m_timeout s)(t := timeout), m_once := (m_once s)(t := once),
                      m_expireTime := (m_expireTime s)(t := now + timeout), m_enabled := (m_enabled s)(t := True)\<rparr>
           in Some (set_timer_links (link_front n t (timer_links s1)) s1))"

definition Stop :: "timer_id \<Rightarrow> timers \<Rightarrow> timers" where
  "Stop t s = s\<lparr>m_enabled := (m_enabled s)(t := False), m_timerStopped := True\<rparr>"

definition CheckExpired :: "time_point \<Rightarrow> timer_id \<Rightarrow> timers \<Rightarrow> bool \<times> timers" where
  "CheckExpired now t s =
     (if \<not> m_enabled s t then (False, s)
      else if now < m_expireTime s t then (False, s)
      else if m_once s t then
        (True, s\<lparr>m_enabled := (m_enabled s)(t := False), m_timerStopped := True\<rparr>)
      else let e = m_expireTime s t + m_timeout s t in
           (True, s\<lparr>m_expireTime := (m_expireTime s)(t := if now > e then now else e)\<rparr>))"

section \<open>ProcessTimers\<close>

definition remove_stopped :: "nat \<Rightarrow> timers \<Rightarrow> timers" where
  "remove_stopped n s =
     (if m_timerStopped s
      then (set_timer_links (sweep n None (m_enabled s) (timer_links s)) s)\<lparr>m_timerStopped := False\<rparr>
      else s)"

text \<open>The walk over the timers with room for some more expired ones.\<close>

fun check_timers :: "time_point \<Rightarrow> nat \<Rightarrow> timer_id list \<Rightarrow> timers \<Rightarrow> timer_id list \<times> timers" where
  "check_timers now room [] s = ([], s)"
| "check_timers now 0 (t # ts) s = ([], s)"
| "check_timers now (Suc room) (t # ts) s =
     (let (isExpired, s1) = CheckExpired now t s in
      if isExpired then (let (fired, s2) = check_timers now room ts s1 in (t # fired, s2))
      else check_timers now (Suc room) ts s1)"

definition timer_pass :: "nat \<Rightarrow> time_point \<Rightarrow> timers \<Rightarrow> timer_id list \<times> timers" where
  "timer_pass n now s =
     (let s1 = remove_stopped n s
      in check_timers now MAX_TIMER_EXPIRED (walk (timersNext s1) (timersHead s1) n) s1)"

partial_function (option) ProcessTimers :: "nat \<Rightarrow> time_point \<Rightarrow> timers \<Rightarrow> (timer_id list \<times> timers) option" where
  "ProcessTimers n now s =
     (let (fired, s1) = timer_pass n now s in
      if length fired = MAX_TIMER_EXPIRED
      then Option.bind (ProcessTimers n now s1) (\<lambda>(more, s2). Some (fired @ more, s2))
      else Some (fired, s1))"

section \<open>What a pass does\<close>

definition due :: "time_point \<Rightarrow> timers \<Rightarrow> timer_id \<Rightarrow> bool" where
  "due now s t \<longleftrightarrow> m_enabled s t \<and> m_expireTime s t \<le> now"

text \<open>How often a timer can still expire at the present time: a periodic one that is behind by a
  whole period expires twice.\<close>

definition expirations :: "time_point \<Rightarrow> timers \<Rightarrow> timer_id \<Rightarrow> nat" where
  "expirations now s t =
     (if \<not> due now s t then 0
      else if m_once s t \<or> now < m_expireTime s t + m_timeout s t then 1 else 2)"

definition timers_ok :: "timer_id list \<Rightarrow> timers \<Rightarrow> bool" where
  "timers_ok ts s \<longleftrightarrow> linked (timer_links s) ts \<and> (\<forall>t \<in> set ts. m_enabled s t \<longrightarrow> 0 < m_timeout s t)"

definition same_timer :: "timers \<Rightarrow> timers \<Rightarrow> timer_id \<Rightarrow> bool" where
  "same_timer s s' t \<longleftrightarrow> m_enabled s' t = m_enabled s t \<and> m_expireTime s' t = m_expireTime s t"

text \<open>Each timer of \<open>F\<close> has expired once between two states, and nothing else has happened.\<close>

definition advance :: "time_point \<Rightarrow> timers \<Rightarrow> timer_id set \<Rightarrow> timers \<Rightarrow> bool" where
  "advance now s F s' \<longleftrightarrow>
     m_timeout s' = m_timeout s \<and> m_once s' = m_once s
     \<and> (\<forall>u. u \<notin> F \<longrightarrow> same_timer s s' u) \<and> (\<forall>u. m_enabled s' u \<longrightarrow> m_enabled s u)
     \<and> (\<forall>u \<in> F. due now s u \<and> Suc (expirations now s' u) = expirations now s u
           \<and> (m_once s u \<longrightarrow> \<not> m_enabled s' u))"

lemma advance_refl: "advance now s {} s"
  by (simp add: advance_def same_timer_def)

lemma advance_same:
  assumes "advance now s F s'" and "u \<notin> F"
  shows "due now s' u = due now s u" and "expirations now s' u = expirations now s u"
    and "m_enabled s' u = m_enabled s u"
  using assms by (simp_all add: advance_def same_timer_def due_def expirations_def)

lemma advance_trans:
  assumes "advance now s F s'" and "advance now s' G s''" and "F \<inter> G = {}"
  shows "advance now s (F \<union> G) s''"
proof -
  have 1: "same_timer s s'' u" if "u \<notin> F \<union> G" for u
    using that assms(1,2) by (simp add: advance_def same_timer_def)
  have 2: "due now s u \<and> Suc (expirations now s'' u) = expirations now s u \<and> (m_once s u \<longrightarrow> \<not> m_enabled s'' u)"
    if "u \<in> F" for u
  proof -
    have "u \<notin> G" using that assms(3) by auto
    from advance_same [OF assms(2) this] that assms(1) show ?thesis by (simp add: advance_def)
  qed
  have 3: "due now s u \<and> Suc (expirations now s'' u) = expirations now s u \<and> (m_once s u \<longrightarrow> \<not> m_enabled s'' u)"
    if "u \<in> G" for u
  proof -
    have "u \<notin> F" using that assms(3) by auto
    from advance_same [OF assms(1) this] that assms(1,2) show ?thesis by (simp add: advance_def)
  qed
  show ?thesis using assms(1,2) 1 2 3 by (auto simp: advance_def)
qed

lemma CheckExpired_spec:
  assumes "CheckExpired now t s = (b, s')" and "m_enabled s t \<longrightarrow> 0 < m_timeout s t"
  shows "b = due now s t" and "advance now s (if b then {t} else {}) s'" and "timer_links s' = timer_links s"
  using assms
  by (auto simp: CheckExpired_def advance_def due_def same_timer_def timer_links_def expirations_def Let_def
      split: if_splits)

lemma check_timers_spec:
  assumes "check_timers now room ts s = (fired, s')" and "distinct ts"
    and "\<forall>t \<in> set ts. m_enabled s t \<longrightarrow> 0 < m_timeout s t"
  shows "advance now s (set fired) s' \<and> timer_links s' = timer_links s \<and> set fired \<subseteq> set ts \<and> distinct fired \<and> length fired \<le> room
    \<and> (length fired < room \<longrightarrow> (\<forall>u \<in> set ts. due now s u \<longrightarrow> u \<in> set fired))"
  using assms
proof (induction now room ts s arbitrary: fired s' rule: check_timers.induct)
  case (3 now room t ts s)
  obtain b s1 where c: "CheckExpired now t s = (b, s1)" by fastforce
  have "m_enabled s t \<longrightarrow> 0 < m_timeout s t" using 3(5) by simp
  note C = CheckExpired_spec [OF c this]
  have pos1: "\<forall>u \<in> set ts. m_enabled s1 u \<longrightarrow> 0 < m_timeout s1 u" using 3(5) C(2) by (auto simp: advance_def)
  have "t \<notin> set ts" "distinct ts" using 3(4) by auto
  show ?case
  proof (cases b)
    case True
    obtain fs where r: "check_timers now room ts s1 = (fs, s')" and f: "fired = t # fs"
      using 3(3) c True by (auto split: prod.splits)
    note IH = 3(1) [OF c [symmetric] refl True r \<open>distinct ts\<close> pos1]
    have t: "t \<notin> set fs" using IH \<open>t \<notin> set ts\<close> by blast
    have "advance now s ({t} \<union> set fs) s'"
      by (rule advance_trans) (use C(2) True IH t in auto)
    moreover have "due now s1 u = due now s u" if "u \<in> set ts" for u
    proof -
      have "u \<notin> (if b then {t} else {})" using that \<open>t \<notin> set ts\<close> by auto
      then show ?thesis by (rule advance_same(1) [OF C(2)])
    qed
    ultimately show ?thesis using IH t C(3) by (auto simp: f)
  next
    case False
    have r: "check_timers now (Suc room) ts s1 = (fired, s')" using 3(3) c False by simp
    note IH = 3(2) [OF c [symmetric] refl False r \<open>distinct ts\<close> pos1]
    have "advance now s ({} \<union> set fired) s'"
      by (rule advance_trans) (use C(2) False IH in auto)
    moreover have "due now s1 u = due now s u" for u
      using advance_same(1) [OF C(2)] False by auto
    ultimately show ?thesis using IH C(1,3) False by auto
  qed
qed (simp_all add: advance_refl)

lemma remove_stopped_same:
  "m_timeout (remove_stopped n s) = m_timeout s" "m_once (remove_stopped n s) = m_once s"
  "m_enabled (remove_stopped n s) = m_enabled s" "m_expireTime (remove_stopped n s) = m_expireTime s"
  by (simp_all add: remove_stopped_def set_timer_links_def)

lemma timer_links_set [simp]:
  "timer_links (set_timer_links l s) = l" "timer_links (s\<lparr>m_timerStopped := b\<rparr>) = timer_links s"
  by (simp_all add: timer_links_def set_timer_links_def)

lemma remove_stopped_ok:
  assumes "timers_ok ts s" and "length ts \<le> n"
  shows "timers_ok (if m_timerStopped s then filter (m_enabled s) ts else ts) (remove_stopped n s)"
proof -
  have "timer_links (remove_stopped n s)
      = (if m_timerStopped s then sweep n None (m_enabled s) (timer_links s) else timer_links s)"
    by (simp add: remove_stopped_def)
  then show ?thesis
    using assms linked_sweep [of "timer_links s" ts n "m_enabled s"]
    by (auto simp: timers_ok_def remove_stopped_same)
qed

lemma timers_pass_spec:
  assumes "timers_ok ts s" and "length ts \<le> n" and "timer_pass n now s = (fired, s')"
  shows "advance now s (set fired) s'" and "set fired \<subseteq> set ts" and "distinct fired"
    and "length fired \<le> MAX_TIMER_EXPIRED"
    and "length fired < MAX_TIMER_EXPIRED \<Longrightarrow> \<forall>u \<in> set ts. due now s u \<longrightarrow> u \<in> set fired"
    and "\<exists>us. timers_ok us s' \<and> length us \<le> n \<and> set us \<subseteq> set ts \<and> {u \<in> set ts. m_enabled s u} \<subseteq> set us"
proof -
  define us where "us = (if m_timerStopped s then filter (m_enabled s) ts else ts)"
  define s1 where "s1 = remove_stopped n s"
  have ok: "timers_ok us s1" using remove_stopped_ok [OF assms(1,2)] by (simp add: us_def s1_def)
  have "length us \<le> length ts" by (simp add: us_def)
  then have len: "length us \<le> n" using assms(2) by simp
  have w: "walk (timersNext s1) (timersHead s1) n = us"
    using walk_linked [of "timer_links s1" us n] ok len by (simp add: timers_ok_def timer_links_def)
  have r: "check_timers now MAX_TIMER_EXPIRED us s1 = (fired, s')"
    using assms(3) by (simp add: timer_pass_def s1_def [symmetric] w)
  have C: "advance now s1 (set fired) s' \<and> timer_links s' = timer_links s1 \<and> set fired \<subseteq> set us \<and> distinct fired
    \<and> length fired \<le> MAX_TIMER_EXPIRED
    \<and> (length fired < MAX_TIMER_EXPIRED \<longrightarrow> (\<forall>u \<in> set us. due now s1 u \<longrightarrow> u \<in> set fired))"
    by (rule check_timers_spec [OF r]) (use ok in \<open>auto simp: timers_ok_def linked_def\<close>)
  have same: "due now s1 = due now s" "expirations now s1 = expirations now s" "same_timer s1 = same_timer s"
    "m_enabled s1 = m_enabled s" "m_once s1 = m_once s" "m_timeout s1 = m_timeout s"
    by (auto simp: s1_def due_def expirations_def same_timer_def remove_stopped_same fun_eq_iff)
  have sub: "set us \<subseteq> set ts" "{u \<in> set ts. m_enabled s u} \<subseteq> set us" by (auto simp: us_def)
  show "advance now s (set fired) s'" using C by (simp add: advance_def same)
  show "set fired \<subseteq> set ts" "distinct fired" "length fired \<le> MAX_TIMER_EXPIRED" using C sub by auto
  show "\<forall>u \<in> set ts. due now s u \<longrightarrow> u \<in> set fired" if "length fired < MAX_TIMER_EXPIRED"
    using C that sub(2) by (auto simp: same due_def)
  have "timers_ok us s'" using ok C by (auto simp: timers_ok_def advance_def)
  then show "\<exists>us. timers_ok us s' \<and> length us \<le> n \<and> set us \<subseteq> set ts \<and> {u \<in> set ts. m_enabled s u} \<subseteq> set us"
    using len sub by blast
qed

lemma count_distinct: "distinct xs \<Longrightarrow> count_list xs u = (if u \<in> set xs then 1 else 0)"
  by (induction xs) auto

lemma ProcessTimers_total:
  assumes "timers_ok ts s" and "length ts \<le> n"
  shows "\<exists>fs s'. ProcessTimers n now s = Some (fs, s') \<and> set fs \<subseteq> set ts
    \<and> (\<forall>u. count_list fs u + expirations now s' u = expirations now s u)
    \<and> (\<forall>u \<in> set ts. due now s u \<longrightarrow> u \<in> set fs)
    \<and> (\<forall>u \<in> set fs. m_once s u \<longrightarrow> \<not> m_enabled s' u) \<and> (\<forall>u. m_enabled s' u \<longrightarrow> m_enabled s u)"
  using assms
proof (induction "\<Sum>t\<in>set ts. expirations now s t" arbitrary: s ts rule: less_induct)
  case less
  obtain fired s1 where p: "timer_pass n now s = (fired, s1)" by fastforce
  note P = timers_pass_spec [OF less.prems p]
  have cnt: "count_list fired u + expirations now s1 u = expirations now s u" for u
    using P(1,3) advance_same(2) [OF P(1), of u] by (auto simp: count_distinct advance_def)
  show ?case
  proof (cases "length fired = MAX_TIMER_EXPIRED")
    case False
    then have "ProcessTimers n now s = Some (fired, s1)" by (subst ProcessTimers.simps) (simp add: p)
    moreover have "\<forall>u \<in> set ts. due now s u \<longrightarrow> u \<in> set fired" using P(4,5) False by linarith
    moreover have "\<forall>u \<in> set fired. m_once s u \<longrightarrow> \<not> m_enabled s1 u" "\<forall>u. m_enabled s1 u \<longrightarrow> m_enabled s u"
      using P(1) by (simp_all add: advance_def)
    ultimately show ?thesis using cnt P(2) by blast
  next
    case True
    obtain us where us: "timers_ok us s1" "length us \<le> n" "set us \<subseteq> set ts" "{u \<in> set ts. m_enabled s u} \<subseteq> set us"
      using P(6) by blast
    obtain t where t: "t \<in> set fired" using True by (cases fired) (auto simp: MAX_TIMER_EXPIRED_def)
    have le: "expirations now s1 u \<le> expirations now s u" for u using cnt [of u] by simp
    have lt: "expirations now s1 t < expirations now s t" using P(1) t by (auto simp: advance_def)
    have "(\<Sum>u\<in>set us. expirations now s1 u) \<le> (\<Sum>u\<in>set ts. expirations now s1 u)"
      by (rule sum_mono2) (use us in auto)
    also have "\<dots> < (\<Sum>u\<in>set ts. expirations now s u)"
      by (rule sum_strict_mono_ex1) (use le lt t P(2) in auto)
    finally obtain fs s' where r: "ProcessTimers n now s1 = Some (fs, s')" "set fs \<subseteq> set us"
      "\<forall>u. count_list fs u + expirations now s' u = expirations now s1 u"
      "\<forall>u \<in> set us. due now s1 u \<longrightarrow> u \<in> set fs"
      "\<forall>u \<in> set fs. m_once s1 u \<longrightarrow> \<not> m_enabled s' u" "\<forall>u. m_enabled s' u \<longrightarrow> m_enabled s1 u"
      using less.hyps [OF _ us(1,2)] by blast
    have "ProcessTimers n now s = Some (fired @ fs, s')"
      by (subst ProcessTimers.simps) (simp add: p True r(1))
    moreover have "count_list (fired @ fs) u + expirations now s' u = expirations now s u" for u
      using cnt [of u] r(3) by (metis add.assoc count_list_append)
    moreover have "u \<in> set (fired @ fs)" if "u \<in> set ts" "due now s u" for u
    proof (cases "u \<in> set fired")
      case False
      then have "due now s1 u" "u \<in> set us" using advance_same(1) [OF P(1) False] that us(4) by (auto simp: due_def)
      then show ?thesis using r(4) by simp
    qed simp
    moreover have "\<not> m_enabled s' u" if "u \<in> set (fired @ fs)" "m_once s u" for u
      using that r(5,6) P(1) by (auto simp: advance_def)
    ultimately show ?thesis using r(2,6) P(1,2) us(3) by (intro exI [of _ "fired @ fs"] exI [of _ s']) (auto simp: advance_def)
  qed
qed

section \<open>The schedule of one timer\<close>

text \<open>The times at which a timer expires when it is checked at the times \<open>ps\<close>.\<close>

fun poll :: "timer_id \<Rightarrow> time_point list \<Rightarrow> timers \<Rightarrow> time_point list \<times> timers" where
  "poll t [] s = ([], s)"
| "poll t (p # ps) s =
     (let (isExpired, s1) = CheckExpired p t s; (rest, s2) = poll t ps s1
      in (if isExpired then p # rest else rest, s2))"

text \<open>Checks in order, no two further apart than the period \<open>d\<close>.\<close>

fun polled_in_time :: "duration \<Rightarrow> time_point \<Rightarrow> time_point list \<Rightarrow> bool" where
  "polled_in_time d prev [] \<longleftrightarrow> True"
| "polled_in_time d prev (p # ps) \<longleftrightarrow> prev \<le> p \<and> p \<le> prev + d \<and> polled_in_time d p ps"

lemma poll_schedule:
  assumes "polled_in_time (m_timeout s t) prev ps" and "m_enabled s t" and "\<not> m_once s t"
    and "0 < m_timeout s t" and "prev \<le> m_expireTime s t" and "poll t ps s = (fired, s')"
  shows "m_expireTime s' t = m_expireTime s t + int (length fired) * m_timeout s t
    \<and> (\<forall>i < length fired. m_expireTime s t + int i * m_timeout s t \<le> fired ! i
          \<and> fired ! i \<le> m_expireTime s t + (int i + 1) * m_timeout s t)
    \<and> last (prev # ps) \<le> m_expireTime s' t"
  using assms
proof (induction ps arbitrary: prev s fired)
  case (Cons p ps)
  let ?d = "m_timeout s t" and ?e = "m_expireTime s t"
  have p: "prev \<le> p" "p \<le> prev + ?d" "polled_in_time ?d p ps" using Cons.prems(1) by simp_all
  show ?case
  proof (cases "p < ?e")
    case True
    then have "CheckExpired p t s = (False, s)" using Cons.prems(2) by (simp add: CheckExpired_def)
    then have "poll t ps s = (fired, s')" using Cons.prems(6) by (auto split: prod.splits)
    from Cons.IH [OF p(3) Cons.prems(2-4) _ this] True show ?thesis by simp
  next
    case False
    define s1 where "s1 = s\<lparr>m_expireTime := (m_expireTime s)(t := ?e + ?d)\<rparr>"
    have le: "p \<le> ?e + ?d" using p Cons.prems(5) by linarith
    then have c: "CheckExpired p t s = (True, s1)"
      using False Cons.prems(2,3) by (simp add: CheckExpired_def Let_def s1_def)
    obtain fs where r: "poll t ps s1 = (fs, s')" and f: "fired = p # fs"
      using Cons.prems(6) c by (auto split: prod.splits)
    have s1: "m_timeout s1 t = ?d" "m_expireTime s1 t = ?e + ?d" "m_enabled s1 t" "\<not> m_once s1 t"
      using Cons.prems by (simp_all add: s1_def)
    have IH: "m_expireTime s' t = ?e + ?d + int (length fs) * ?d
      \<and> (\<forall>i < length fs. ?e + ?d + int i * ?d \<le> fs ! i \<and> fs ! i \<le> ?e + ?d + (int i + 1) * ?d)
      \<and> last (p # ps) \<le> m_expireTime s' t"
      using Cons.IH [OF _ s1(3,4) _ _ r, of p] p(3) Cons.prems(4) le by (simp add: s1)
    have "?e + int i * ?d \<le> fired ! i \<and> fired ! i \<le> ?e + (int i + 1) * ?d" if "i < length fired" for i
    proof (cases i)
      case 0
      then show ?thesis using False le f by simp
    next
      case (Suc j)
      then have "?e + ?d + int j * ?d \<le> fs ! j \<and> fs ! j \<le> ?e + ?d + (int j + 1) * ?d" using IH that f by simp
      then show ?thesis using Suc f by (simp add: algebra_simps)
    qed
    then show ?thesis using IH by (simp add: f algebra_simps)
  qed
qed simp

section \<open>Paced dispatch\<close>

text \<open>
  \<^verbatim>\<open>PacedDispatch\<close>: \<open>in_flight\<close> tells whether the token handed out last is alive. A token lives in
  the message the timer dispatched, until the message has been invoked or discarded.
  \<open>TryFire\<close> gives whether it dispatched and whether it called the handler for a stuck thread.
\<close>

record PacedDispatch =
  in_flight :: bool
  m_dispatchTime :: time_point
  m_pending :: bool
  OnStuck :: bool

definition TryFire :: "time_point \<Rightarrow> duration \<Rightarrow> PacedDispatch \<Rightarrow> bool \<times> bool \<times> PacedDispatch" where
  "TryFire now stuckTimeout g =
     (if in_flight g
      then (False, 0 < stuckTimeout \<and> OnStuck g \<and> now - m_dispatchTime g > stuckTimeout, g\<lparr>m_pending := True\<rparr>)
      else (True, False, g\<lparr>m_pending := False, in_flight := True, m_dispatchTime := now\<rparr>))"

text \<open>\<^verbatim>\<open>TimerDelegate\<close> with its gate and the number of its messages queued or running on the
  thread. A tick dispatches a message the thread accepts or not; a message leaves the thread.\<close>

record TimerDelegate =
  m_gate :: PacedDispatch
  stuckTimeout :: duration
  on_thread :: nat

definition TimerDelegate :: "bool \<Rightarrow> duration \<Rightarrow> TimerDelegate" where
  "TimerDelegate onStuck timeout =
     \<lparr>m_gate = \<lparr>in_flight = False, m_dispatchTime = 0, m_pending = False, OnStuck = onStuck\<rparr>,
      stuckTimeout = timeout, on_thread = 0\<rparr>"

definition tick :: "time_point \<Rightarrow> bool \<Rightarrow> TimerDelegate \<Rightarrow> TimerDelegate" where
  "tick now accepted d =
     (let (fired, stuck, g) = TryFire now (stuckTimeout d) (m_gate d) in
      if fired \<and> accepted then d\<lparr>m_gate := g, on_thread := Suc (on_thread d)\<rparr>
      else if fired then d\<lparr>m_gate := g\<lparr>in_flight := False\<rparr>\<rparr>
      else d\<lparr>m_gate := g\<rparr>)"

definition message_gone :: "TimerDelegate \<Rightarrow> TimerDelegate" where
  "message_gone d = d\<lparr>m_gate := (m_gate d)\<lparr>in_flight := False\<rparr>, on_thread := on_thread d - 1\<rparr>"

inductive paced :: "TimerDelegate \<Rightarrow> bool" where
  start: "paced (TimerDelegate onStuck timeout)"
| tick: "paced d \<Longrightarrow> paced (tick now accepted d)"
| gone: "paced d \<Longrightarrow> 0 < on_thread d \<Longrightarrow> paced (message_gone d)"

lemma paced_inv: "paced d \<Longrightarrow> on_thread d = (if in_flight (m_gate d) then 1 else 0)"
  by (induction rule: paced.induct)
    (auto simp: TimerDelegate_def tick_def TryFire_def message_gone_def Let_def)

section \<open>Properties\<close>

text \<open>
  One call of \<^verbatim>\<open>ProcessTimers\<close> terminates however many timers have expired, calls every
  due timer and no other, a one-shot timer exactly once and disabling it, a periodic one exactly
  as often as it can expire, which is once, or twice if it is a whole period late.
\<close>

theorem process_timers_calls_due:
  assumes "timers_ok ts s" and "length ts \<le> n"
  shows "\<exists>fired s'. ProcessTimers n now s = Some (fired, s') \<and> set fired = {t \<in> set ts. due now s t}
    \<and> (\<forall>t. count_list fired t \<le> (if m_once s t \<or> now < m_expireTime s t + m_timeout s t then 1 else 2))
    \<and> \<not> (\<exists>t \<in> set fired. m_once s t \<and> m_enabled s' t)"
proof -
  obtain fs s' where r: "ProcessTimers n now s = Some (fs, s')" "set fs \<subseteq> set ts"
    "\<forall>u. count_list fs u + expirations now s' u = expirations now s u"
    "\<forall>u \<in> set ts. due now s u \<longrightarrow> u \<in> set fs" "\<forall>u \<in> set fs. m_once s u \<longrightarrow> \<not> m_enabled s' u"
    using ProcessTimers_total [OF assms] by blast
  have le: "count_list fs u \<le> expirations now s u" for u using r(3) by (metis le_add1)
  have "due now s u" if "u \<in> set fs" for u
  proof (rule ccontr)
    assume "\<not> due now s u"
    then have "count_list fs u = 0" using le [of u] by (simp add: expirations_def)
    then show False using that by (simp add: count_list_0_iff)
  qed
  then have "set fs = {t \<in> set ts. due now s t}" using r(2,4) by blast
  moreover have "count_list fs t \<le> (if m_once s t \<or> now < m_expireTime s t + m_timeout s t then 1 else 2)" for t
    using le [of t] by (auto simp: expirations_def split: if_splits)
  ultimately show ?thesis using r(1,5) by blast
qed

definition two_timers :: timers where
  "two_timers = the (Option.bind (Start 9 0 5 True 1 no_timers) (Start 9 0 3 False 2))"

lemma process_timers_calls_due_witness:
  "\<exists>fired s'. ProcessTimers 9 4 two_timers = Some (fired, s') \<and> set fired = {t \<in> set [2, 1]. due 4 two_timers t}
    \<and> (\<forall>t. count_list fired t \<le> (if m_once two_timers t \<or> 4 < m_expireTime two_timers t + m_timeout two_timers t then 1 else 2))
    \<and> \<not> (\<exists>t \<in> set fired. m_once two_timers t \<and> m_enabled s' t)"
  by (rule process_timers_calls_due)
    (simp_all add: two_timers_def Start_def no_timers_def timers_ok_def timer_links_def set_timer_links_def
      link_front_def linked_def Let_def numeral_eq_Suc)

text \<open>
  A periodic timer that is checked at least once per period does not drift: its \<open>i\<close>-th
  expiration is reported within a period of its due time, which is the start plus \<open>i\<close> periods
  however late the earlier ones were reported, and none is skipped.
\<close>

theorem periodic_timer_no_drift:
  assumes "Start n now d False t s0 = Some s" and "polled_in_time d now ps" and "poll t ps s = (fired, s')"
  shows "(\<forall>i < length fired. now + (int i + 1) * d \<le> fired ! i \<and> fired ! i \<le> now + (int i + 2) * d)
    \<and> last (now # ps) \<le> now + (int (length fired) + 1) * d"
proof -
  have s: "m_timeout s t = d" "m_enabled s t" "\<not> m_once s t" "0 < d" "m_expireTime s t = now + d"
    using assms(1) by (auto simp: Start_def set_timer_links_def Let_def split: if_splits)
  have "m_expireTime s' t = now + d + int (length fired) * d
    \<and> (\<forall>i < length fired. now + d + int i * d \<le> fired ! i \<and> fired ! i \<le> now + d + (int i + 1) * d)
    \<and> last (now # ps) \<le> m_expireTime s' t"
    using poll_schedule [OF _ s(2,3) _ _ assms(3), of now] assms(2) s by simp
  then show ?thesis by (simp add: algebra_simps)
qed

definition one_timer :: timers where "one_timer = the (Start 9 0 5 False 1 no_timers)"

lemma periodic_timer_no_drift_witness:
  "fst (poll 1 [4, 8, 12, 15, 20] one_timer) = [8, 12, 15, 20]
   \<and> last (0 # [4, 8, 12, 15, 20]) \<le> 0 + (int (length (fst (poll 1 [4, 8, 12, 15, 20] one_timer))) + 1) * (5 :: int)"
proof -
  have "Start 9 0 5 False 1 no_timers = Some one_timer"
    by (simp add: one_timer_def Start_def Let_def)
  from periodic_timer_no_drift [OF this, of "[4, 8, 12, 15, 20]" "fst (poll 1 [4, 8, 12, 15, 20] one_timer)"]
  show ?thesis
    by (simp add: one_timer_def Start_def no_timers_def CheckExpired_def link_front_def set_timer_links_def
        timer_links_def Let_def split: prod.splits)
qed

text \<open>
  A periodic timer that is checked more than a period late expires again at the next check
  that is not yet a period later, although no period has passed since its last expiration, and
  only then falls back into step.
\<close>

theorem late_timer_expires_twice:
  assumes "m_enabled s t" and "\<not> m_once s t" and "0 < m_timeout s t"
    and "m_expireTime s t + m_timeout s t < p1" and "p1 \<le> p2" and "p2 \<le> p3" and "p3 < p1 + m_timeout s t"
  shows "fst (poll t [p1, p2, p3] s) = [p1, p2]"
  using assms by (auto simp: CheckExpired_def Let_def)

lemma late_timer_expires_twice_witness: "fst (poll 1 [11, 12, 13] one_timer) = [11, 12]"
  by (rule late_timer_expires_twice)
    (simp_all add: one_timer_def Start_def no_timers_def set_timer_links_def Let_def)

text \<open>
  A paced timer delegate has at most one message on its thread at any time, whatever the
  ticks, the thread's refusals and its progress, and the next tick dispatches again as soon as
  the message is gone.
\<close>

theorem paced_one_in_flight:
  assumes "paced d"
  shows "on_thread d \<le> 1 \<and> on_thread (tick now True d) = 1"
  using paced_inv [OF assms] by (auto simp: tick_def TryFire_def Let_def)

lemma paced_one_in_flight_witness:
  "on_thread (tick 1 True (TimerDelegate False 0)) \<le> 1 \<and> on_thread (tick 2 True (tick 1 True (TimerDelegate False 0))) = 1"
  by (rule paced_one_in_flight) (intro paced.intros)

end
