(* ===== verification/ArgHeap.thy ===== *)
theory ArgHeap
  imports Prelude
begin

text \<open>
  \<^verbatim>\<open>delegate/make_tuple_heap.h\<close>: the copies an asynchronous call makes of its arguments, and
  their release. The caller's data and the copies live in one \<open>arg_memory\<close>, a map from addresses to
  cells. \<^verbatim>\<open>new\<close> hands out a fresh address until its \<open>budget\<close> is used up; freeing an address that
  is not allocated sets \<open>corrupt\<close>. The shared pointers and list nodes that hold the deleters take
  part in the budget, but are not cells.
\<close>

section \<open>Memory\<close>

type_synonym addr = nat

datatype 'v cell = Val 'v | Adr "addr option"

record 'v arg_memory =
  cells :: "addr \<rightharpoonup> 'v cell"
  fresh :: addr
  budget :: nat
  corrupt :: bool

definition xnew :: "'v cell \<Rightarrow> 'v arg_memory \<Rightarrow> (addr \<times> 'v arg_memory) option" where
  "xnew c m =
     (if budget m = 0 then None
      else Some (fresh m, m\<lparr>cells := (cells m)(fresh m \<mapsto> c), fresh := Suc (fresh m), budget := budget m - 1\<rparr>))"

definition xdelete :: "addr option \<Rightarrow> 'v arg_memory \<Rightarrow> 'v arg_memory" where
  "xdelete p m =
     (case p of
        None \<Rightarrow> m
      | Some a \<Rightarrow>
          (if cells m a = None then m\<lparr>corrupt := True\<rparr> else m\<lparr>cells := (cells m)(a := None)\<rparr>))"

text \<open>The allocation of a control block or a list node.\<close>

definition take_block :: "'v arg_memory \<Rightarrow> 'v arg_memory option" where
  "take_block m = (if budget m = 0 then None else Some (m\<lparr>budget := budget m - 1\<rparr>))"

definition load :: "'v arg_memory \<Rightarrow> addr \<Rightarrow> 'v" where
  "load m a = (case cells m a of Some (Val v) \<Rightarrow> v | _ \<Rightarrow> undefined)"

definition load_ptr :: "'v arg_memory \<Rightarrow> addr \<Rightarrow> addr option" where
  "load_ptr m a = (case cells m a of Some (Adr p) \<Rightarrow> p | _ \<Rightarrow> None)"

section \<open>Deleters\<close>

text \<open>\<^verbatim>\<open>heap_arg_deleter<T*>\<close> and \<^verbatim>\<open>heap_arg_deleter<T**>\<close>, the latter with the inner pointer
  it saw when it was made.\<close>

datatype heap_arg_deleter = Del_ptr "addr option" | Del_ptr_ptr addr "addr option"

definition deleter_ptr :: "addr option \<Rightarrow> 'v arg_memory \<Rightarrow> 'v arg_memory" where
  "deleter_ptr m_arg m = xdelete m_arg m"

definition deleter_ptr_ptr :: "addr \<Rightarrow> addr option \<Rightarrow> 'v arg_memory \<Rightarrow> 'v arg_memory" where
  "deleter_ptr_ptr m_arg m_inner m =
     (let m1 = (if load_ptr m m_arg \<noteq> m_inner then xdelete (load_ptr m m_arg) m else m);
          m2 = xdelete m_inner m1
      in xdelete (Some m_arg) m2)"

fun run_deleter :: "heap_arg_deleter \<Rightarrow> 'v arg_memory \<Rightarrow> 'v arg_memory" where
  "run_deleter (Del_ptr p) m = deleter_ptr p m"
| "run_deleter (Del_ptr_ptr a p) m = deleter_ptr_ptr a p m"

definition run_deleters :: "heap_arg_deleter list \<Rightarrow> 'v arg_memory \<Rightarrow> 'v arg_memory" where
  "run_deleters ds m = fold run_deleter ds m"

section \<open>Copying one argument\<close>

text \<open>What a call passes for a parameter of type \<^verbatim>\<open>T\<close>, \<^verbatim>\<open>T&\<close>, \<^verbatim>\<open>T*\<close> or \<^verbatim>\<open>T**\<close>, and the
  element of the message's tuple it becomes. The list of deleters and the memory are the state of
  the functions; their value is \<open>None\<close> if they throw \<^verbatim>\<open>std::bad_alloc\<close>.\<close>

datatype 'v arg = By_value 'v | By_ref addr | By_ptr "addr option" | By_ptr_ptr "addr option"

datatype 'v elem = Value 'v | Ref addr | Ptr "addr option" | Ptr_ptr addr

type_synonym 'v heap = "heap_arg_deleter list \<times> 'v arg_memory"

text \<open>Storing the deleter: \<^verbatim>\<open>std::make_shared\<close> throws before there is a deleter, \<^verbatim>\<open>push_back\<close> when
  there is one, which the local \<^verbatim>\<open>shared_ptr\<close> then runs.\<close>

definition store_deleter :: "heap_arg_deleter \<Rightarrow> 'b \<Rightarrow> 'v heap \<Rightarrow> 'b option \<times> 'v heap" where
  "store_deleter d x h =
     (let (heapArgs, m) = h in
      case take_block m of
        None \<Rightarrow> (None, heapArgs, m)
      | Some m1 \<Rightarrow>
          (case take_block m1 of
             None \<Rightarrow> (None, heapArgs, run_deleter d m1)
           | Some m2 \<Rightarrow> (Some x, heapArgs @ [d], m2)))"

definition append_ref :: "'v \<Rightarrow> 'v heap \<Rightarrow> addr option \<times> 'v heap" where
  "append_ref arg h =
     (let (heapArgs, m) = h in
      case xnew (Val arg) m of
        None \<Rightarrow> (None, h)
      | Some (heap_arg, m1) \<Rightarrow> store_deleter (Del_ptr (Some heap_arg)) heap_arg (heapArgs, m1))"

definition append_ptr :: "addr option \<Rightarrow> 'v heap \<Rightarrow> 'v elem option \<times> 'v heap" where
  "append_ptr arg h =
     (let (heapArgs, m) = h in
      case arg of
        None \<Rightarrow> store_deleter (Del_ptr None) (Ptr None) h
      | Some p \<Rightarrow>
          (case xnew (Val (load m p)) m of
             None \<Rightarrow> (None, h)
           | Some (heap_arg, m1) \<Rightarrow>
               store_deleter (Del_ptr (Some heap_arg)) (Ptr (Some heap_arg)) (heapArgs, m1)))"

definition append_ptr_ptr :: "addr option \<Rightarrow> 'v heap \<Rightarrow> 'v elem option \<times> 'v heap" where
  "append_ptr_ptr arg h =
     (let (heapArgs, m) = h in
      case Option.bind arg (load_ptr m) of
        Some p \<Rightarrow>
          (case xnew (Adr None) m of
             None \<Rightarrow> (None, h)
           | Some (heap_arg, m1) \<Rightarrow>
               (case xnew (Val (load m p)) m1 of
                  None \<Rightarrow> (None, heapArgs, xdelete (Some heap_arg) m1)
                | Some (inner, m2) \<Rightarrow>
                    store_deleter (Del_ptr_ptr heap_arg (Some inner)) (Ptr_ptr heap_arg)
                      (heapArgs, m2\<lparr>cells := (cells m2)(heap_arg \<mapsto> Adr (Some inner))\<rparr>)))
      | None \<Rightarrow>
          (case xnew (Adr None) m of
             None \<Rightarrow> (None, h)
           | Some (heap_arg, m1) \<Rightarrow>
               store_deleter (Del_ptr_ptr heap_arg None) (Ptr_ptr heap_arg) (heapArgs, m1)))"

text \<open>\<^verbatim>\<open>make_tuple_heap\<close> takes its arguments by value, so a reference parameter is read when the
  call is made; value and reference parameters use the same overload of \<^verbatim>\<open>tuple_append\<close>.\<close>

fun tuple_append :: "'v arg \<Rightarrow> 'v heap \<Rightarrow> 'v elem option \<times> 'v heap" where
  "tuple_append (By_value v) h = map_prod (map_option (\<lambda>_. Value v)) (\<lambda>h. h) (append_ref v h)"
| "tuple_append (By_ref p) h = map_prod (map_option Ref) (\<lambda>h. h) (append_ref (load (snd h) p) h)"
| "tuple_append (By_ptr p) h = append_ptr p h"
| "tuple_append (By_ptr_ptr p) h = append_ptr_ptr p h"

fun make_tuple_heap :: "'v arg list \<Rightarrow> 'v heap \<Rightarrow> 'v elem list option \<times> 'v heap" where
  "make_tuple_heap [] h = (Some [], h)"
| "make_tuple_heap (arg1 # args) h =
     (case tuple_append arg1 h of
        (None, h1) \<Rightarrow> (None, h1)
      | (Some e, h1) \<Rightarrow>
          (case make_tuple_heap args h1 of
             (None, h2) \<Rightarrow> (None, h2)
           | (Some es, h2) \<Rightarrow> (Some (e # es), h2)))"

section \<open>The message\<close>

text \<open>\<^verbatim>\<open>DelegateAsyncMsg\<close>: the tuple \<^verbatim>\<open>m_args\<close> and the list \<^verbatim>\<open>m_heapMem\<close>, which is destroyed with
  the message, and also when the construction of \<^verbatim>\<open>m_args\<close> throws.\<close>

record 'v async_args =
  m_args :: "'v elem list"
  m_heapMem :: "heap_arg_deleter list"

definition DelegateAsyncMsg :: "'v arg list \<Rightarrow> 'v arg_memory \<Rightarrow> 'v async_args option \<times> 'v arg_memory" where
  "DelegateAsyncMsg args m =
     (case make_tuple_heap args ([], m) of
        (None, ds, m1) \<Rightarrow> (None, run_deleters ds m1)
      | (Some es, ds, m1) \<Rightarrow> (Some \<lparr>m_args = es, m_heapMem = ds\<rparr>, m1))"

definition destroy_msg :: "'v async_args \<Rightarrow> 'v arg_memory \<Rightarrow> 'v arg_memory" where
  "destroy_msg msg m = run_deleters (m_heapMem msg) m"

section \<open>What the target sees\<close>

text \<open>What a function can read through its parameter: a value, or a pointer to a pointer that is
  null.\<close>

datatype 'v seen = Sees 'v | Sees_null | Sees_null_inner

definition seen_through :: "'v arg_memory \<Rightarrow> addr option \<Rightarrow> 'v seen" where
  "seen_through m p = (case p of None \<Rightarrow> Sees_null | Some a \<Rightarrow> Sees (load m a))"

definition seen_through2 :: "'v arg_memory \<Rightarrow> addr \<Rightarrow> 'v seen" where
  "seen_through2 m a = (case load_ptr m a of None \<Rightarrow> Sees_null_inner | Some b \<Rightarrow> Sees (load m b))"

fun seen_arg :: "'v arg_memory \<Rightarrow> 'v arg \<Rightarrow> 'v seen" where
  "seen_arg m (By_value v) = Sees v"
| "seen_arg m (By_ref a) = Sees (load m a)"
| "seen_arg m (By_ptr p) = seen_through m p"
| "seen_arg m (By_ptr_ptr p) = (case p of None \<Rightarrow> Sees_null | Some a \<Rightarrow> seen_through2 m a)"

fun seen_elem :: "'v arg_memory \<Rightarrow> 'v elem \<Rightarrow> 'v seen" where
  "seen_elem m (Value v) = Sees v"
| "seen_elem m (Ref a) = Sees (load m a)"
| "seen_elem m (Ptr p) = seen_through m p"
| "seen_elem m (Ptr_ptr a) = seen_through2 m a"

text \<open>A null pointer to a pointer arrives as a pointer to a null pointer.\<close>

definition arrives :: "'v arg_memory \<Rightarrow> 'v arg \<Rightarrow> 'v seen" where
  "arrives m a = (if a = By_ptr_ptr None then Sees_null_inner else seen_arg m a)"

text \<open>Memories whose fresh addresses are unused, and the cells a deleter is responsible for.\<close>

definition memory_ok :: "'v arg_memory \<Rightarrow> bool" where
  "memory_ok m \<longleftrightarrow> (\<forall>x \<ge> fresh m. cells m x = None)"

fun block_of :: "heap_arg_deleter \<Rightarrow> addr list" where
  "block_of (Del_ptr p) = (case p of None \<Rightarrow> [] | Some a \<Rightarrow> [a])"
| "block_of (Del_ptr_ptr a p) = a # (case p of None \<Rightarrow> [] | Some b \<Rightarrow> [b])"

definition blocks :: "heap_arg_deleter list \<Rightarrow> addr list" where
  "blocks ds = concat (map block_of ds)"

text \<open>One successful copy: what it adds lies behind the memory it found, belongs to its deleter,
  and lets the target see what the caller passed, whatever happens to other cells.\<close>

definition copied :: "'v arg \<Rightarrow> heap_arg_deleter list \<Rightarrow> 'v arg_memory \<Rightarrow> 'v elem \<Rightarrow> heap_arg_deleter \<Rightarrow> 'v arg_memory \<Rightarrow> bool" where
  "copied a ds m e d m' \<longleftrightarrow> tuple_append a (ds, m) = (Some e, ds @ [d], m')
     \<and> fresh m \<le> fresh m' \<and> budget m \<le> budget m' + 4 \<and> corrupt m' = corrupt m
     \<and> (\<forall>x < fresh m. cells m' x = cells m x)
     \<and> distinct (block_of d) \<and> set (block_of d) = {x. fresh m \<le> x \<and> cells m' x \<noteq> None}
     \<and> (\<forall>x \<ge> fresh m'. cells m' x = None)
     \<and> (\<forall>m''. (\<forall>x \<in> set (block_of d). cells m'' x = cells m' x) \<longrightarrow> seen_elem m'' e = arrives m a)"

lemmas append_defs = append_ref_def append_ptr_def append_ptr_ptr_def store_deleter_def
  xnew_def take_block_def Let_def

lemma tuple_append_spec:
  assumes "memory_ok m" and "4 \<le> budget m"
  shows "\<exists>e d m'. copied a ds m e d m'"
proof (cases a)
  case (By_value v)
  then show ?thesis using assms
    by (auto simp: copied_def append_defs memory_ok_def arrives_def)
next
  case (By_ref p)
  then show ?thesis using assms
    by (auto simp: copied_def append_defs memory_ok_def arrives_def load_def)
next
  case (By_ptr p)
  then show ?thesis using assms
    by (cases p) (auto simp: copied_def append_defs memory_ok_def arrives_def load_def seen_through_def)
next
  case (By_ptr_ptr p)
  show ?thesis
  proof (cases "Option.bind p (load_ptr m)")
    case None
    then show ?thesis using assms By_ptr_ptr
      by (cases p) (auto simp: copied_def append_defs memory_ok_def arrives_def load_def load_ptr_def seen_through2_def)
  next
    case (Some q)
    then show ?thesis using assms By_ptr_ptr
      by (cases p) (auto simp: copied_def append_defs memory_ok_def arrives_def load_def load_ptr_def seen_through2_def)
  qed
qed

text \<open>The caller's pointers point to its own data.\<close>

definition points :: "'v arg_memory \<Rightarrow> addr option \<Rightarrow> bool" where
  "points m p \<longleftrightarrow> (case p of None \<Rightarrow> True | Some a \<Rightarrow> cells m a \<noteq> None)"

fun valid_arg :: "'v arg_memory \<Rightarrow> 'v arg \<Rightarrow> bool" where
  "valid_arg m (By_value v) = True"
| "valid_arg m (By_ref a) = points m (Some a)"
| "valid_arg m (By_ptr p) = points m p"
| "valid_arg m (By_ptr_ptr p) = (points m p \<and> (case p of None \<Rightarrow> True | Some a \<Rightarrow> points m (load_ptr m a)))"

lemma allocated_below: "memory_ok m \<Longrightarrow> cells m x \<noteq> None \<Longrightarrow> x < fresh m"
  unfolding memory_ok_def by (meson not_less)

lemma arrives_frame:
  assumes "memory_ok m" and "\<forall>x < fresh m. cells m' x = cells m x" and "valid_arg m a"
  shows "arrives m' a = arrives m a" and "valid_arg m' a"
proof -
  have same: "cells m' x = cells m x" if "cells m x \<noteq> None" for x
    using assms(2) allocated_below [OF assms(1) that] by simp
  have "arrives m' a = arrives m a \<and> valid_arg m' a"
    using assms(3)
    by (cases a) (auto simp: arrives_def points_def load_def load_ptr_def seen_through_def seen_through2_def same
        split: option.splits cell.splits)
  then show "arrives m' a = arrives m a" "valid_arg m' a" by simp_all
qed

definition built :: "'v arg list \<Rightarrow> heap_arg_deleter list \<Rightarrow> 'v arg_memory \<Rightarrow> 'v elem list \<Rightarrow> heap_arg_deleter list \<Rightarrow> 'v arg_memory \<Rightarrow> bool" where
  "built args ds0 m es ds m' \<longleftrightarrow> make_tuple_heap args (ds0, m) = (Some es, ds0 @ ds, m')
     \<and> fresh m \<le> fresh m' \<and> corrupt m' = corrupt m \<and> memory_ok m'
     \<and> (\<forall>x < fresh m. cells m' x = cells m x)
     \<and> distinct (blocks ds) \<and> set (blocks ds) = {x. fresh m \<le> x \<and> cells m' x \<noteq> None}
     \<and> (\<forall>m''. (\<forall>x \<in> set (blocks ds). cells m'' x = cells m' x) \<longrightarrow> map (seen_elem m'') es = map (arrives m) args)"

lemma blocks_Cons [simp]: "blocks (d # ds) = block_of d @ blocks ds" and blocks_Nil [simp]: "blocks [] = []"
  by (simp_all add: blocks_def)

lemma make_tuple_heap_spec:
  assumes "memory_ok m" and "4 * length args \<le> budget m" and "\<forall>a \<in> set args. valid_arg m a"
  shows "\<exists>es ds m'. built args ds0 m es ds m'"
  using assms
proof (induction args arbitrary: m ds0)
  case Nil
  then show ?case by (auto simp: built_def memory_ok_def)
next
  case (Cons a args)
  obtain e d m1 where c: "copied a ds0 m e d m1"
    using tuple_append_spec [of m a ds0] Cons.prems(1,2) by auto
  have m1: "memory_ok m1" "fresh m \<le> fresh m1" "\<forall>x < fresh m. cells m1 x = cells m x"
    using c by (simp_all add: copied_def memory_ok_def)
  have args: "arrives m1 b = arrives m b" "valid_arg m1 b" if "b \<in> set args" for b
    using arrives_frame [OF Cons.prems(1) m1(3)] Cons.prems(3) that by auto
  have "4 * length args \<le> budget m1" using c Cons.prems(2) by (simp add: copied_def)
  then obtain es ds m2 where b: "built args (ds0 @ [d]) m1 es ds m2"
    using Cons.IH [OF m1(1)] args(2) by blast
  have m2: "\<forall>x < fresh m1. cells m2 x = cells m1 x" using b by (simp add: built_def)
  have dset: "set (block_of d) = {x. fresh m \<le> x \<and> cells m1 x \<noteq> None}" using c by (simp add: copied_def)
  have d_below: "x < fresh m1" if "x \<in> set (block_of d)" for x
    using that allocated_below [OF m1(1)] unfolding dset by simp
  have new: "set (block_of d @ blocks ds) = {x. fresh m \<le> x \<and> cells m2 x \<noteq> None}"
  proof -
    have "set (blocks ds) = {x. fresh m1 \<le> x \<and> cells m2 x \<noteq> None}" using b by (simp add: built_def)
    moreover have "set (block_of d) = {x. fresh m \<le> x \<and> x < fresh m1 \<and> cells m2 x \<noteq> None}"
      using d_below m2 unfolding dset by auto
    ultimately show ?thesis using m1(2) by auto
  qed
  have "map (seen_elem m'') (e # es) = map (arrives m) (a # args)"
    if "\<forall>x \<in> set (block_of d @ blocks ds). cells m'' x = cells m2 x" for m''
  proof -
    have "\<forall>x \<in> set (block_of d). cells m'' x = cells m1 x" using that d_below m2 by simp
    then have "seen_elem m'' e = arrives m a" using c by (simp add: copied_def)
    moreover have "map (seen_elem m'') es = map (arrives m1) args" using b that by (simp add: built_def)
    ultimately show ?thesis using args(1) by simp
  qed
  moreover have "distinct (block_of d @ blocks ds)"
    using c b d_below by (auto simp: copied_def built_def)
  moreover have "make_tuple_heap (a # args) (ds0, m) = (Some (e # es), ds0 @ d # ds, m2)"
    using c b by (simp add: copied_def built_def)
  moreover have "\<forall>x < fresh m. cells m2 x = cells m x" using m1(2,3) m2 by simp
  ultimately have "built (a # args) ds0 m (e # es) (d # ds) m2"
    using b c new unfolding built_def copied_def by auto
  then show ?case by blast
qed

text \<open>Running the deleters frees exactly their blocks, and what the target has put into a
  \<^verbatim>\<open>T**\<close> argument in place of the copy.\<close>

fun freed_by :: "'v arg_memory \<Rightarrow> heap_arg_deleter \<Rightarrow> addr list" where
  "freed_by m (Del_ptr p) = block_of (Del_ptr p)"
| "freed_by m (Del_ptr_ptr a p) =
     (if load_ptr m a = p then [] else case load_ptr m a of None \<Rightarrow> [] | Some q \<Rightarrow> [q]) @ block_of (Del_ptr_ptr a p)"

lemma run_deleter_frees:
  assumes "distinct (freed_by m d)" and "set (freed_by m d) \<subseteq> dom (cells m)"
  shows "run_deleter d m = m\<lparr>cells := cells m |` (- set (freed_by m d))\<rparr>"
proof (cases d)
  case (Del_ptr p)
  then show ?thesis using assms
    by (cases p) (auto simp: deleter_ptr_def xdelete_def restrict_map_def fun_eq_iff)
next
  case (Del_ptr_ptr a p)
  show ?thesis using assms
    by (cases p; cases "load_ptr m a")
      (auto simp: Del_ptr_ptr deleter_ptr_ptr_def xdelete_def restrict_map_def fun_eq_iff Let_def split: if_splits)
qed

lemma freed_by_frame:
  "\<forall>x \<in> set (block_of d). cells m' x = cells m x \<Longrightarrow> freed_by m' d = freed_by m d"
  by (cases d) (auto simp: load_ptr_def)

lemma block_freed: "set (block_of d) \<subseteq> set (freed_by m d)"
  by (cases d) auto

lemma run_deleters_free:
  assumes "distinct (concat (map (freed_by m) ds))" and "set (concat (map (freed_by m) ds)) \<subseteq> dom (cells m)"
  shows "run_deleters ds m = m\<lparr>cells := cells m |` (- set (concat (map (freed_by m) ds)))\<rparr>"
  using assms
proof (induction ds arbitrary: m)
  case Nil
  then show ?case by (simp add: run_deleters_def)
next
  case (Cons d ds)
  define m1 where "m1 = m\<lparr>cells := cells m |` (- set (freed_by m d))\<rparr>"
  have step: "run_deleter d m = m1"
    using run_deleter_frees [of m d] Cons.prems by (simp add: m1_def)
  have same: "freed_by m1 x = freed_by m x" if "x \<in> set ds" for x
  proof (rule freed_by_frame, rule ballI)
    fix y assume "y \<in> set (block_of x)"
    then have "y \<notin> set (freed_by m d)" using Cons.prems(1) that block_freed [of x m] by auto
    then show "cells m1 y = cells m y" by (simp add: m1_def)
  qed
  then have eq: "map (freed_by m1) ds = map (freed_by m) ds" by simp
  have "run_deleters ds m1 = m1\<lparr>cells := cells m1 |` (- set (concat (map (freed_by m1) ds)))\<rparr>"
  proof (rule Cons.IH)
    show "distinct (concat (map (freed_by m1) ds))" using Cons.prems(1) unfolding eq by simp
    show "set (concat (map (freed_by m1) ds)) \<subseteq> dom (cells m1)"
      using Cons.prems unfolding eq by (auto simp: m1_def)
  qed
  then show ?case
    unfolding eq by (simp add: run_deleters_def step m1_def Int_commute Un_commute)
qed

section \<open>Properties\<close>

text \<open>The caller writing to its own data: any cell of \<open>m\<close>, in the memory \<open>m'\<close>.\<close>

definition caller_writes :: "'v arg_memory \<Rightarrow> (addr \<Rightarrow> 'v cell) \<Rightarrow> 'v arg_memory \<Rightarrow> 'v arg_memory" where
  "caller_writes m w m' = m'\<lparr>cells := \<lambda>x. if cells m x = None then cells m' x else Some (w x)\<rparr>"


text \<open>One argument of each kind, and a caller that overwrites all its data.\<close>

definition caller_memory :: "nat arg_memory" where
  "caller_memory = \<lparr>cells = [0 \<mapsto> Val 10, 1 \<mapsto> Val 20, 2 \<mapsto> Adr (Some 1)], fresh = 3, budget = 30, corrupt = False\<rparr>"

definition five_args :: "nat arg list" where
  "five_args = [By_value 5, By_ref 0, By_ptr (Some 1), By_ptr_ptr (Some 2), By_ptr_ptr None]"

lemma caller_memory_ok: "memory_ok caller_memory" "4 * length five_args \<le> budget caller_memory"
  "\<forall>a \<in> set five_args. valid_arg caller_memory a"
  by (auto simp: memory_ok_def caller_memory_def five_args_def points_def load_ptr_def)


text \<open>The target at work: \<open>m2\<close> is the memory it leaves. It may write to every cell and may put
  newly allocated objects of its own into \<^verbatim>\<open>T**\<close> arguments; \<open>frees\<close> are those and the copies.\<close>

definition target_leaves :: "'v async_args \<Rightarrow> addr list \<Rightarrow> 'v arg_memory \<Rightarrow> 'v arg_memory \<Rightarrow> bool" where
  "target_leaves msg frees m1 m2 \<longleftrightarrow>
     concat (map (freed_by m2) (m_heapMem msg)) = frees
     \<and> distinct frees \<and> set frees \<inter> dom (cells m1) = set (blocks (m_heapMem msg))
     \<and> dom (cells m2) = dom (cells m1) \<union> set frees \<and> \<not> corrupt m2"

text \<open>
  When the message is destroyed after the target has run, everything the call allocated is
  freed exactly once, including what the target has put in place of the copies, and nothing else.
\<close>

theorem message_memory_released:
  assumes "memory_ok m" and "4 * length args \<le> budget m" and "\<forall>a \<in> set args. valid_arg m a"
    and "DelegateAsyncMsg args m = (Some msg, m1)" and "target_leaves msg frees m1 m2"
  shows "dom (cells (destroy_msg msg m2)) = dom (cells m) \<and> \<not> corrupt (destroy_msg msg m2)"
proof -
  obtain es ds m' where b: "built args [] m es ds m'" using make_tuple_heap_spec [OF assms(1-3)] by blast
  then have msg: "m_heapMem msg = ds" "m' = m1"
    using assms(4) by (auto simp: built_def DelegateAsyncMsg_def)
  have t: "concat (map (freed_by m2) ds) = frees" "distinct frees" "set frees \<inter> dom (cells m1) = set (blocks ds)"
    "dom (cells m2) = dom (cells m1) \<union> set frees" "\<not> corrupt m2"
    using assms(5) by (simp_all add: target_leaves_def msg)
  have "destroy_msg msg m2 = m2\<lparr>cells := cells m2 |` (- set frees)\<rparr>"
    unfolding destroy_msg_def msg using run_deleters_free [of m2 ds] t by auto
  moreover have "dom (cells m1) - set frees = dom (cells m)"
  proof -
    have "set (blocks ds) = {x. fresh m \<le> x \<and> cells m1 x \<noteq> None}" "\<forall>x < fresh m. cells m1 x = cells m x"
      using b by (simp_all add: built_def msg)
    then have "dom (cells m1) - set (blocks ds) = dom (cells m)"
      using allocated_below [OF assms(1)] by (auto simp: dom_def not_le) (metis not_le option.distinct(1))+
    then show ?thesis using t(3) by blast
  qed
  ultimately show ?thesis using t(4,5) by auto
qed

lemma message_memory_released_witness:
  "dom (cells (destroy_msg \<lparr>m_args = [Ptr_ptr 3], m_heapMem = [Del_ptr_ptr 3 (Some 4)]\<rparr>
     (caller_memory\<lparr>cells := (cells caller_memory)(3 \<mapsto> Adr (Some 7), 4 \<mapsto> Val 20, 7 \<mapsto> Val 1)\<rparr>))) = dom (cells caller_memory)
   \<and> \<not> corrupt (destroy_msg \<lparr>m_args = [Ptr_ptr 3], m_heapMem = [Del_ptr_ptr 3 (Some 4)]\<rparr>
     (caller_memory\<lparr>cells := (cells caller_memory)(3 \<mapsto> Adr (Some 7), 4 \<mapsto> Val 20, 7 \<mapsto> Val 1)\<rparr>))"
proof (rule message_memory_released [where args = "[By_ptr_ptr (Some 2)]" and frees = "[7, 3, 4]"])
  let ?m1 = "caller_memory\<lparr>cells := (cells caller_memory)(3 \<mapsto> Adr (Some 4), 4 \<mapsto> Val 20), fresh := 5, budget := 26\<rparr>"
  show "DelegateAsyncMsg [By_ptr_ptr (Some 2)] caller_memory
      = (Some \<lparr>m_args = [Ptr_ptr 3], m_heapMem = [Del_ptr_ptr 3 (Some 4)]\<rparr>, ?m1)"
    by (simp add: DelegateAsyncMsg_def append_defs caller_memory_def load_def load_ptr_def fun_upd_twist)
  show "target_leaves \<lparr>m_args = [Ptr_ptr 3], m_heapMem = [Del_ptr_ptr 3 (Some 4)]\<rparr> [7, 3, 4] ?m1
      (caller_memory\<lparr>cells := (cells caller_memory)(3 \<mapsto> Adr (Some 7), 4 \<mapsto> Val 20, 7 \<mapsto> Val 1)\<rparr>)"
    by (auto simp: target_leaves_def caller_memory_def load_ptr_def)
qed (simp_all add: caller_memory_def memory_ok_def points_def load_ptr_def)

text \<open>Running out of memory for the control block of the deleter leaks the copy: there is no
  deleter yet when \<^verbatim>\<open>make_shared\<close> throws, and the code's test for a null deleter is not reached.\<close>

lemma deleter_failure_leaks:
  assumes "memory_ok m" and "budget m = 1" and "cells m p \<noteq> None"
  shows "fst (DelegateAsyncMsg [By_ptr (Some p)] m) = None
    \<and> dom (cells (snd (DelegateAsyncMsg [By_ptr (Some p)] m))) = insert (fresh m) (dom (cells m))"
  using assms by (auto simp: DelegateAsyncMsg_def append_defs run_deleters_def split: if_splits)

end
