(* ===== verification/Delegates.thy ===== *)
theory Delegates
  imports AsyncCalls
begin

text \<open>
  The delegate classes of \<^verbatim>\<open>delegate/Delegate.h\<close> and what \<^verbatim>\<open>DelegateAsync.h\<close> and
  \<^verbatim>\<open>DelegateAsyncWait.h\<close> derive from them: binding, copying, clearing, comparing and calling.
  Each of the four kinds of target (free function, member of an object, member of a weakly held
  object, function object) is a record with its operations; the contract they share is the locale
  \<open>bound_target\<close>. The asynchronous classes repeat one text (\<^verbatim>\<open>common_code\<close>) on top of each of
  them: it is stated once, for a target with given operations, and instantiated per class.

  What a call does is told by its \<open>outcome\<close>: which function is called with which arguments.
  \<open>live\<close> is the set of objects that exist at the moment.
\<close>

section \<open>Targets\<close>

type_synonym object = nat
type_synonym func = nat

datatype shared_ptr = Null_ptr | Owning object | Borrowed object

text \<open>A raw pointer is wrapped into a shared pointer with an empty deleter: it is \<open>Borrowed\<close>.\<close>

fun get :: "shared_ptr \<Rightarrow> object option" where
  "get Null_ptr = None"
| "get (Owning x) = Some x"
| "get (Borrowed x) = Some x"

definition raw_ptr :: "object option \<Rightarrow> shared_ptr" where
  "raw_ptr p = (case p of None \<Rightarrow> Null_ptr | Some x \<Rightarrow> Borrowed x)"

definition lock :: "object set \<Rightarrow> object option \<Rightarrow> object option" where
  "lock live w = (case w of None \<Rightarrow> None | Some x \<Rightarrow> if x \<in> live then Some x else None)"

text \<open>A \<^verbatim>\<open>std::function\<close> shows the type of the function object it holds, not its identity.\<close>

datatype fun_object = Fun_object (target_type: nat) (captured: nat)

datatype callee = Free_function func | Member_function object func | Function_object fun_object

datatype 'a outcome = Default_value | Calls callee 'a | Undefined

locale bound_target =
  fixes empty_of :: "object set \<Rightarrow> 'd \<Rightarrow> bool"
    and clear :: "'d \<Rightarrow> 'd"
    and same :: "object set \<Rightarrow> 'd \<Rightarrow> 'd \<Rightarrow> bool"
    and call :: "object set \<Rightarrow> 'a \<Rightarrow> 'd \<Rightarrow> 'a outcome"
  assumes clear_empty: "empty_of live (clear d)"
    and same_refl: "same live d d"
    and same_sym: "same live d e \<Longrightarrow> same live e d"
    and same_trans: "same live d e \<Longrightarrow> same live e f \<Longrightarrow> same live d f"
    and same_empty: "same live d e \<Longrightarrow> empty_of live d = empty_of live e"
    and call_bound: "\<not> empty_of live d \<Longrightarrow> call live x d \<noteq> Default_value"

section \<open>Free functions\<close>

record DelegateFree =
  free_func :: "func option"

definition DelegateFree :: DelegateFree where
  "DelegateFree = \<lparr>free_func = None\<rparr>"

definition DelegateFree_Bind :: "func option \<Rightarrow> DelegateFree \<Rightarrow> DelegateFree" where
  "DelegateFree_Bind f d = d\<lparr>free_func := f\<rparr>"

definition DelegateFree_Assign :: "DelegateFree \<Rightarrow> DelegateFree \<Rightarrow> DelegateFree" where
  "DelegateFree_Assign rhs d = d\<lparr>free_func := free_func rhs\<rparr>"

definition DelegateFree_Clear :: "DelegateFree \<Rightarrow> DelegateFree" where
  "DelegateFree_Clear d = d\<lparr>free_func := None\<rparr>"

text \<open>Move construction and move assignment: the new value of the target and of the source.\<close>

definition DelegateFree_move :: "DelegateFree \<Rightarrow> DelegateFree \<times> DelegateFree" where
  "DelegateFree_move rhs = (\<lparr>free_func = free_func rhs\<rparr>, DelegateFree_Clear rhs)"

definition DelegateFree_Empty :: "DelegateFree \<Rightarrow> bool" where
  "DelegateFree_Empty d \<longleftrightarrow> free_func d = None"

definition DelegateFree_call :: "'a \<Rightarrow> DelegateFree \<Rightarrow> 'a outcome" where
  "DelegateFree_call args d =
     (if DelegateFree_Empty d then Default_value else Calls (Free_function (the (free_func d))) args)"

text \<open>\<^verbatim>\<open>Equal\<close> once the other delegate is known to be one of this class.\<close>

definition DelegateFree_Equal :: "DelegateFree \<Rightarrow> DelegateFree \<Rightarrow> bool" where
  "DelegateFree_Equal d rhs \<longleftrightarrow> free_func d = free_func rhs"

section \<open>Members of an object\<close>

record DelegateMember =
  member_object :: shared_ptr
  member_func :: "func option"

definition DelegateMember :: DelegateMember where
  "DelegateMember = \<lparr>member_object = Null_ptr, member_func = None\<rparr>"

definition DelegateMember_Bind :: "shared_ptr \<Rightarrow> func option \<Rightarrow> DelegateMember \<Rightarrow> DelegateMember" where
  "DelegateMember_Bind ob f d = d\<lparr>member_object := ob, member_func := f\<rparr>"

definition DelegateMember_Bind_raw :: "object option \<Rightarrow> func option \<Rightarrow> DelegateMember \<Rightarrow> DelegateMember" where
  "DelegateMember_Bind_raw ob f d = d\<lparr>member_object := raw_ptr ob, member_func := f\<rparr>"

definition DelegateMember_Assign :: "DelegateMember \<Rightarrow> DelegateMember \<Rightarrow> DelegateMember" where
  "DelegateMember_Assign rhs d = d\<lparr>member_object := member_object rhs, member_func := member_func rhs\<rparr>"

definition DelegateMember_Clear :: "DelegateMember \<Rightarrow> DelegateMember" where
  "DelegateMember_Clear d = d\<lparr>member_object := Null_ptr, member_func := None\<rparr>"

definition DelegateMember_move :: "DelegateMember \<Rightarrow> DelegateMember \<times> DelegateMember" where
  "DelegateMember_move rhs =
     (\<lparr>member_object = member_object rhs, member_func = member_func rhs\<rparr>, DelegateMember_Clear rhs)"

definition DelegateMember_Empty :: "DelegateMember \<Rightarrow> bool" where
  "DelegateMember_Empty d \<longleftrightarrow> \<not> (get (member_object d) \<noteq> None \<and> member_func d \<noteq> None)"

text \<open>An object behind a raw pointer that is gone cannot be called.\<close>

definition DelegateMember_call :: "object set \<Rightarrow> 'a \<Rightarrow> DelegateMember \<Rightarrow> 'a outcome" where
  "DelegateMember_call live args d =
     (if DelegateMember_Empty d then Default_value
      else case member_object d of
             Borrowed x \<Rightarrow> if x \<in> live then Calls (Member_function x (the (member_func d))) args else Undefined
           | p \<Rightarrow> Calls (Member_function (the (get p)) (the (member_func d))) args)"

definition DelegateMember_Equal :: "DelegateMember \<Rightarrow> DelegateMember \<Rightarrow> bool" where
  "DelegateMember_Equal d rhs \<longleftrightarrow>
     member_func d = member_func rhs \<and> get (member_object d) = get (member_object rhs)"

section \<open>Members of a weakly held object\<close>

record DelegateMemberSp =
  weak_object :: "object option"
  weak_func :: "func option"

definition DelegateMemberSp :: DelegateMemberSp where
  "DelegateMemberSp = \<lparr>weak_object = None, weak_func = None\<rparr>"

definition DelegateMemberSp_Bind :: "shared_ptr \<Rightarrow> func option \<Rightarrow> DelegateMemberSp \<Rightarrow> DelegateMemberSp" where
  "DelegateMemberSp_Bind ob f d = d\<lparr>weak_object := get ob, weak_func := f\<rparr>"

definition DelegateMemberSp_Assign :: "DelegateMemberSp \<Rightarrow> DelegateMemberSp \<Rightarrow> DelegateMemberSp" where
  "DelegateMemberSp_Assign rhs d = d\<lparr>weak_object := weak_object rhs, weak_func := weak_func rhs\<rparr>"

definition DelegateMemberSp_Clear :: "DelegateMemberSp \<Rightarrow> DelegateMemberSp" where
  "DelegateMemberSp_Clear d = d\<lparr>weak_object := None, weak_func := None\<rparr>"

definition DelegateMemberSp_move :: "DelegateMemberSp \<Rightarrow> DelegateMemberSp \<times> DelegateMemberSp" where
  "DelegateMemberSp_move rhs =
     (\<lparr>weak_object = weak_object rhs, weak_func = weak_func rhs\<rparr>, DelegateMemberSp_Clear rhs)"

definition DelegateMemberSp_Empty :: "object set \<Rightarrow> DelegateMemberSp \<Rightarrow> bool" where
  "DelegateMemberSp_Empty live d \<longleftrightarrow> lock live (weak_object d) = None \<or> weak_func d = None"

text \<open>Unlike the other classes, the call does not ask whether there is a function.\<close>

definition DelegateMemberSp_call :: "object set \<Rightarrow> 'a \<Rightarrow> DelegateMemberSp \<Rightarrow> 'a outcome" where
  "DelegateMemberSp_call live args d =
     (case lock live (weak_object d) of
        Some x \<Rightarrow> (case weak_func d of Some f \<Rightarrow> Calls (Member_function x f) args | None \<Rightarrow> Undefined)
      | None \<Rightarrow> Default_value)"

definition DelegateMemberSp_Equal :: "object set \<Rightarrow> DelegateMemberSp \<Rightarrow> DelegateMemberSp \<Rightarrow> bool" where
  "DelegateMemberSp_Equal live d rhs \<longleftrightarrow>
     lock live (weak_object d) = lock live (weak_object rhs) \<and> weak_func d = weak_func rhs"

section \<open>Function objects\<close>

record DelegateFunction =
  function_object :: "fun_object option"

definition DelegateFunction :: DelegateFunction where
  "DelegateFunction = \<lparr>function_object = None\<rparr>"

definition DelegateFunction_Bind :: "fun_object option \<Rightarrow> DelegateFunction \<Rightarrow> DelegateFunction" where
  "DelegateFunction_Bind f d = d\<lparr>function_object := f\<rparr>"

definition DelegateFunction_Assign :: "DelegateFunction \<Rightarrow> DelegateFunction \<Rightarrow> DelegateFunction" where
  "DelegateFunction_Assign rhs d = d\<lparr>function_object := function_object rhs\<rparr>"

definition DelegateFunction_Clear :: "DelegateFunction \<Rightarrow> DelegateFunction" where
  "DelegateFunction_Clear d = d\<lparr>function_object := None\<rparr>"

definition DelegateFunction_move :: "DelegateFunction \<Rightarrow> DelegateFunction \<times> DelegateFunction" where
  "DelegateFunction_move rhs = (\<lparr>function_object = function_object rhs\<rparr>, DelegateFunction_Clear rhs)"

definition DelegateFunction_Empty :: "DelegateFunction \<Rightarrow> bool" where
  "DelegateFunction_Empty d \<longleftrightarrow> function_object d = None"

definition DelegateFunction_call :: "'a \<Rightarrow> DelegateFunction \<Rightarrow> 'a outcome" where
  "DelegateFunction_call args d =
     (if DelegateFunction_Empty d then Default_value
      else Calls (Function_object (the (function_object d))) args)"

definition DelegateFunction_Equal :: "DelegateFunction \<Rightarrow> DelegateFunction \<Rightarrow> bool" where
  "DelegateFunction_Equal d rhs \<longleftrightarrow>
     (if DelegateFunction_Empty d \<and> DelegateFunction_Empty rhs then True
      else case (function_object d, function_object rhs) of
             (Some f, Some g) \<Rightarrow> target_type f = target_type g
           | _ \<Rightarrow> False)"

lemmas free_defs = DelegateFree_Empty_def DelegateFree_Clear_def DelegateFree_Equal_def DelegateFree_call_def
lemmas member_defs = DelegateMember_Empty_def DelegateMember_Clear_def DelegateMember_Equal_def DelegateMember_call_def
lemmas memberSp_defs = DelegateMemberSp_Empty_def DelegateMemberSp_Clear_def DelegateMemberSp_Equal_def
  DelegateMemberSp_call_def lock_def
lemmas function_defs = DelegateFunction_Empty_def DelegateFunction_Clear_def DelegateFunction_Equal_def
  DelegateFunction_call_def

interpretation free: bound_target "\<lambda>live. DelegateFree_Empty" DelegateFree_Clear
    "\<lambda>live. DelegateFree_Equal" "\<lambda>live. DelegateFree_call"
  by unfold_locales (auto simp: free_defs)

interpretation member: bound_target "\<lambda>live. DelegateMember_Empty" DelegateMember_Clear
    "\<lambda>live. DelegateMember_Equal" DelegateMember_call
  by unfold_locales (auto simp: member_defs split: shared_ptr.splits)

interpretation memberSp: bound_target DelegateMemberSp_Empty DelegateMemberSp_Clear
    DelegateMemberSp_Equal DelegateMemberSp_call
  by unfold_locales (auto simp: memberSp_defs split: option.splits if_splits)

interpretation func_object: bound_target "\<lambda>live. DelegateFunction_Empty" DelegateFunction_Clear
    "\<lambda>live. DelegateFunction_Equal" "\<lambda>live. DelegateFunction_call"
  by unfold_locales (auto simp: function_defs split: option.splits if_splits)

section \<open>Asynchronous delegates\<close>

text \<open>The part \<^verbatim>\<open>DelegateAsync.h\<close> adds to a target, and what its operations make of those of the
  target. \<open>m_sync\<close> is not copied.\<close>

record AsyncDispatchState =
  async_thread :: "nat option"
  async_priority :: Priority

definition AsyncDispatchState :: AsyncDispatchState where
  "AsyncDispatchState = \<lparr>async_thread = None, async_priority = NORMAL\<rparr>"

definition AsyncDispatchState_Equal :: "AsyncDispatchState \<Rightarrow> AsyncDispatchState \<Rightarrow> bool" where
  "AsyncDispatchState_Equal a b \<longleftrightarrow> async_thread a = async_thread b \<and> async_priority a = async_priority b"

record 'd Async =
  async_base :: 'd
  async_state :: AsyncDispatchState
  async_sync :: bool

definition Async_default :: "'d \<Rightarrow> 'd Async" where
  "Async_default b = \<lparr>async_base = b, async_state = AsyncDispatchState, async_sync = False\<rparr>"

definition Async_SetPriority :: "Priority \<Rightarrow> 'd Async \<Rightarrow> 'd Async" where
  "Async_SetPriority p d = d\<lparr>async_state := (async_state d)\<lparr>async_priority := p\<rparr>\<rparr>"

definition Async_Bind :: "('d \<Rightarrow> 'd) \<Rightarrow> nat \<Rightarrow> 'd Async \<Rightarrow> 'd Async" where
  "Async_Bind base_bind thread d =
     d\<lparr>async_state := (async_state d)\<lparr>async_thread := Some thread\<rparr>, async_base := base_bind (async_base d)\<rparr>"

definition Async_Assign :: "('d \<Rightarrow> 'd \<Rightarrow> 'd) \<Rightarrow> 'd Async \<Rightarrow> 'd Async \<Rightarrow> 'd Async" where
  "Async_Assign base_assign rhs d =
     d\<lparr>async_state := async_state rhs, async_base := base_assign (async_base rhs) (async_base d)\<rparr>"

definition Async_copy :: "'d Async \<Rightarrow> 'd Async" where
  "Async_copy rhs = \<lparr>async_base = async_base rhs, async_state = async_state rhs, async_sync = False\<rparr>"

definition Async_move :: "('d \<Rightarrow> 'd \<times> 'd) \<Rightarrow> ('d \<Rightarrow> 'd) \<Rightarrow> 'd Async \<Rightarrow> 'd Async \<times> 'd Async" where
  "Async_move base_move clear rhs =
     (let (b, r) = base_move (async_base rhs) in
      (\<lparr>async_base = b, async_state = async_state rhs, async_sync = False\<rparr>, rhs\<lparr>async_base := clear r\<rparr>))"

definition Async_Equal :: "('d \<Rightarrow> 'd \<Rightarrow> bool) \<Rightarrow> 'd Async \<Rightarrow> 'd Async \<Rightarrow> bool" where
  "Async_Equal base_equal d rhs \<longleftrightarrow>
     AsyncDispatchState_Equal (async_state d) (async_state rhs) \<and> base_equal (async_base d) (async_base rhs)"

text \<open>A call either has an outcome at once or sends a message to a thread, which holds a clone of
  the delegate and the arguments; without a thread the message is dropped.\<close>

type_synonym ('d, 'a) async_msg = "('d Async \<times> 'a) DelegateMsg"

datatype ('d, 'a) async_effect = Done "'a outcome" | Sent nat "('d, 'a) async_msg" | Not_sent

definition DispatchAsync :: "'d Async \<Rightarrow> nat option \<Rightarrow> Priority \<Rightarrow> 'a \<Rightarrow> ('d, 'a) async_effect" where
  "DispatchAsync invoker thread priority args =
     (case thread of
        None \<Rightarrow> Not_sent
      | Some t \<Rightarrow> Sent t (DelegateMsg (invoker, args) priority))"

definition Async_call ::
  "('d \<Rightarrow> bool) \<Rightarrow> ('a \<Rightarrow> 'd \<Rightarrow> 'a outcome) \<Rightarrow> 'a \<Rightarrow> 'd Async \<Rightarrow> ('d, 'a) async_effect" where
  "Async_call base_empty base_call args d =
     (if base_empty (async_base d) then Done Default_value
      else if async_sync d then Done (base_call args (async_base d))
      else DispatchAsync (Async_copy d) (async_thread (async_state d)) (async_priority (async_state d)) args)"

text \<open>\<^verbatim>\<open>Invoke\<close> on the destination thread; \<open>fits\<close> is the result of the cast of the message. The
  call through \<^verbatim>\<open>&BaseType::operator()\<close> is virtual: it is the operator of the class itself.\<close>

definition Async_Invoke ::
  "('d \<Rightarrow> bool) \<Rightarrow> ('a \<Rightarrow> 'd \<Rightarrow> 'a outcome) \<Rightarrow> bool \<Rightarrow> 'a \<Rightarrow> 'd Async
   \<Rightarrow> (bool \<times> ('d, 'a) async_effect) \<times> 'd Async" where
  "Async_Invoke base_empty base_call fits args d =
     (if \<not> fits then ((False, Not_sent), d)
      else let d1 = d\<lparr>async_sync := True\<rparr> in ((True, Async_call base_empty base_call args d1), d1))"

text \<open>The four classes.\<close>

definition DelegateFreeAsync_Bind :: "func option \<Rightarrow> nat \<Rightarrow> DelegateFree Async \<Rightarrow> DelegateFree Async" where
  "DelegateFreeAsync_Bind f = Async_Bind (DelegateFree_Bind f)"

definition DelegateFreeAsync_Assign :: "DelegateFree Async \<Rightarrow> DelegateFree Async \<Rightarrow> DelegateFree Async" where
  "DelegateFreeAsync_Assign = Async_Assign DelegateFree_Assign"

definition DelegateFreeAsync_move :: "DelegateFree Async \<Rightarrow> DelegateFree Async \<times> DelegateFree Async" where
  "DelegateFreeAsync_move = Async_move DelegateFree_move DelegateFree_Clear"

definition DelegateFreeAsync_Equal :: "DelegateFree Async \<Rightarrow> DelegateFree Async \<Rightarrow> bool" where
  "DelegateFreeAsync_Equal = Async_Equal DelegateFree_Equal"

definition DelegateFreeAsync_call :: "'a \<Rightarrow> DelegateFree Async \<Rightarrow> (DelegateFree, 'a) async_effect" where
  "DelegateFreeAsync_call = Async_call DelegateFree_Empty DelegateFree_call"

definition DelegateFreeAsync_Invoke ::
  "bool \<Rightarrow> 'a \<Rightarrow> DelegateFree Async \<Rightarrow> (bool \<times> (DelegateFree, 'a) async_effect) \<times> DelegateFree Async" where
  "DelegateFreeAsync_Invoke = Async_Invoke DelegateFree_Empty DelegateFree_call"

definition DelegateMemberAsync_Bind :: "shared_ptr \<Rightarrow> func option \<Rightarrow> nat \<Rightarrow> DelegateMember Async \<Rightarrow> DelegateMember Async" where
  "DelegateMemberAsync_Bind ob f = Async_Bind (DelegateMember_Bind ob f)"

definition DelegateMemberAsync_Bind_raw :: "object option \<Rightarrow> func option \<Rightarrow> nat \<Rightarrow> DelegateMember Async \<Rightarrow> DelegateMember Async" where
  "DelegateMemberAsync_Bind_raw ob f = Async_Bind (DelegateMember_Bind_raw ob f)"

definition DelegateMemberAsync_Assign :: "DelegateMember Async \<Rightarrow> DelegateMember Async \<Rightarrow> DelegateMember Async" where
  "DelegateMemberAsync_Assign = Async_Assign DelegateMember_Assign"

definition DelegateMemberAsync_move :: "DelegateMember Async \<Rightarrow> DelegateMember Async \<times> DelegateMember Async" where
  "DelegateMemberAsync_move = Async_move DelegateMember_move DelegateMember_Clear"

definition DelegateMemberAsync_Equal :: "DelegateMember Async \<Rightarrow> DelegateMember Async \<Rightarrow> bool" where
  "DelegateMemberAsync_Equal = Async_Equal DelegateMember_Equal"

definition DelegateMemberAsync_call :: "object set \<Rightarrow> 'a \<Rightarrow> DelegateMember Async \<Rightarrow> (DelegateMember, 'a) async_effect" where
  "DelegateMemberAsync_call live = Async_call DelegateMember_Empty (DelegateMember_call live)"

definition DelegateMemberAsync_Invoke ::
  "object set \<Rightarrow> bool \<Rightarrow> 'a \<Rightarrow> DelegateMember Async \<Rightarrow> (bool \<times> (DelegateMember, 'a) async_effect) \<times> DelegateMember Async" where
  "DelegateMemberAsync_Invoke live = Async_Invoke DelegateMember_Empty (DelegateMember_call live)"

definition DelegateMemberAsyncSp_Bind :: "shared_ptr \<Rightarrow> func option \<Rightarrow> nat \<Rightarrow> DelegateMemberSp Async \<Rightarrow> DelegateMemberSp Async" where
  "DelegateMemberAsyncSp_Bind ob f = Async_Bind (DelegateMemberSp_Bind ob f)"

definition DelegateMemberAsyncSp_Assign :: "DelegateMemberSp Async \<Rightarrow> DelegateMemberSp Async \<Rightarrow> DelegateMemberSp Async" where
  "DelegateMemberAsyncSp_Assign = Async_Assign DelegateMemberSp_Assign"

definition DelegateMemberAsyncSp_move :: "DelegateMemberSp Async \<Rightarrow> DelegateMemberSp Async \<times> DelegateMemberSp Async" where
  "DelegateMemberAsyncSp_move = Async_move DelegateMemberSp_move DelegateMemberSp_Clear"

definition DelegateMemberAsyncSp_Equal :: "object set \<Rightarrow> DelegateMemberSp Async \<Rightarrow> DelegateMemberSp Async \<Rightarrow> bool" where
  "DelegateMemberAsyncSp_Equal live = Async_Equal (DelegateMemberSp_Equal live)"

definition DelegateMemberAsyncSp_call :: "object set \<Rightarrow> 'a \<Rightarrow> DelegateMemberSp Async \<Rightarrow> (DelegateMemberSp, 'a) async_effect" where
  "DelegateMemberAsyncSp_call live = Async_call (DelegateMemberSp_Empty live) (DelegateMemberSp_call live)"

definition DelegateMemberAsyncSp_Invoke ::
  "object set \<Rightarrow> bool \<Rightarrow> 'a \<Rightarrow> DelegateMemberSp Async \<Rightarrow> (bool \<times> (DelegateMemberSp, 'a) async_effect) \<times> DelegateMemberSp Async" where
  "DelegateMemberAsyncSp_Invoke live = Async_Invoke (DelegateMemberSp_Empty live) (DelegateMemberSp_call live)"

definition DelegateFunctionAsync_Bind :: "fun_object option \<Rightarrow> nat \<Rightarrow> DelegateFunction Async \<Rightarrow> DelegateFunction Async" where
  "DelegateFunctionAsync_Bind f = Async_Bind (DelegateFunction_Bind f)"

definition DelegateFunctionAsync_Assign :: "DelegateFunction Async \<Rightarrow> DelegateFunction Async \<Rightarrow> DelegateFunction Async" where
  "DelegateFunctionAsync_Assign = Async_Assign DelegateFunction_Assign"

definition DelegateFunctionAsync_move :: "DelegateFunction Async \<Rightarrow> DelegateFunction Async \<times> DelegateFunction Async" where
  "DelegateFunctionAsync_move = Async_move DelegateFunction_move DelegateFunction_Clear"

definition DelegateFunctionAsync_Equal :: "DelegateFunction Async \<Rightarrow> DelegateFunction Async \<Rightarrow> bool" where
  "DelegateFunctionAsync_Equal = Async_Equal DelegateFunction_Equal"

definition DelegateFunctionAsync_call :: "'a \<Rightarrow> DelegateFunction Async \<Rightarrow> (DelegateFunction, 'a) async_effect" where
  "DelegateFunctionAsync_call = Async_call DelegateFunction_Empty DelegateFunction_call"

definition DelegateFunctionAsync_Invoke ::
  "bool \<Rightarrow> 'a \<Rightarrow> DelegateFunction Async \<Rightarrow> (bool \<times> (DelegateFunction, 'a) async_effect) \<times> DelegateFunction Async" where
  "DelegateFunctionAsync_Invoke = Async_Invoke DelegateFunction_Empty DelegateFunction_call"

section \<open>Blocking delegates\<close>

text \<open>The part \<^verbatim>\<open>DelegateAsyncWait.h\<close> adds. The call is split where the caller blocks, as in
  \<open>AsyncCalls\<close>; \<open>run\<close> tells what the called function does, \<open>dflt\<close> is the value of \<^verbatim>\<open>RetType()\<close>.\<close>

record ('d, 'r) AsyncWait =
  wait_base :: 'd
  wait_state :: "'r AsyncWaitDispatchState"
  wait_sync :: bool

definition Wait_Bind :: "('d \<Rightarrow> 'd) \<Rightarrow> nat \<Rightarrow> duration \<Rightarrow> ('d, 'r) AsyncWait \<Rightarrow> ('d, 'r) AsyncWait" where
  "Wait_Bind base_bind thread timeout d =
     d\<lparr>wait_state := (wait_state d)\<lparr>dest_thread := Some thread, call_timeout := timeout\<rparr>,
       wait_base := base_bind (wait_base d)\<rparr>"

definition Wait_copy :: "('d, 'r) AsyncWait \<Rightarrow> ('d, 'r) AsyncWait" where
  "Wait_copy rhs = \<lparr>wait_base = wait_base rhs, wait_state = wait_state rhs, wait_sync = False\<rparr>"

definition Wait_Equal :: "('d \<Rightarrow> 'd \<Rightarrow> bool) \<Rightarrow> ('d, 'r) AsyncWait \<Rightarrow> ('d, 'r) AsyncWait \<Rightarrow> bool" where
  "Wait_Equal base_equal d rhs \<longleftrightarrow>
     dispatch_state_Equal (wait_state d) (wait_state rhs) \<and> base_equal (wait_base d) (wait_base rhs)"

definition Wait_start ::
  "('d \<Rightarrow> bool) \<Rightarrow> ('a \<Rightarrow> 'd \<Rightarrow> 'a outcome) \<Rightarrow> ('a outcome \<Rightarrow> 'r target_result) \<Rightarrow> bool \<Rightarrow> 'r \<Rightarrow> 'a
   \<Rightarrow> ('d, 'r) AsyncWait \<Rightarrow> 'r operator_start \<times> ('d, 'r) AsyncWait" where
  "Wait_start base_empty base_call run forever dflt args d =
     (let (res, st) = async_wait_start (base_empty (wait_base d)) (wait_sync d) forever
                        (run (base_call args (wait_base d))) dflt (wait_state d)
      in (res, d\<lparr>wait_state := st\<rparr>))"

definition Wait_finish :: "bool \<Rightarrow> 'r message \<Rightarrow> 'r \<Rightarrow> ('d, 'r) AsyncWait \<Rightarrow> 'r \<times> ('d, 'r) AsyncWait" where
  "Wait_finish success c dflt d =
     (let (r, st) = async_wait_finish success c dflt (wait_state d) in (r, d\<lparr>wait_state := st\<rparr>))"

text \<open>The four classes.\<close>

definition DelegateFreeAsyncWait_Bind ::
  "func option \<Rightarrow> nat \<Rightarrow> duration \<Rightarrow> (DelegateFree, 'r) AsyncWait \<Rightarrow> (DelegateFree, 'r) AsyncWait" where
  "DelegateFreeAsyncWait_Bind f = Wait_Bind (DelegateFree_Bind f)"

definition DelegateFreeAsyncWait_Equal ::
  "(DelegateFree, 'r) AsyncWait \<Rightarrow> (DelegateFree, 'r) AsyncWait \<Rightarrow> bool" where
  "DelegateFreeAsyncWait_Equal = Wait_Equal DelegateFree_Equal"

definition DelegateMemberAsyncWait_Bind ::
  "shared_ptr \<Rightarrow> func option \<Rightarrow> nat \<Rightarrow> duration \<Rightarrow> (DelegateMember, 'r) AsyncWait \<Rightarrow> (DelegateMember, 'r) AsyncWait" where
  "DelegateMemberAsyncWait_Bind ob f = Wait_Bind (DelegateMember_Bind ob f)"

definition DelegateMemberAsyncWait_Equal ::
  "(DelegateMember, 'r) AsyncWait \<Rightarrow> (DelegateMember, 'r) AsyncWait \<Rightarrow> bool" where
  "DelegateMemberAsyncWait_Equal = Wait_Equal DelegateMember_Equal"

definition DelegateMemberAsyncWait_start ::
  "object set \<Rightarrow> ('a outcome \<Rightarrow> 'r target_result) \<Rightarrow> bool \<Rightarrow> 'r \<Rightarrow> 'a
   \<Rightarrow> (DelegateMember, 'r) AsyncWait \<Rightarrow> 'r operator_start \<times> (DelegateMember, 'r) AsyncWait" where
  "DelegateMemberAsyncWait_start live = Wait_start DelegateMember_Empty (DelegateMember_call live)"

definition DelegateMemberAsyncWait_finish ::
  "bool \<Rightarrow> 'r message \<Rightarrow> 'r \<Rightarrow> (DelegateMember, 'r) AsyncWait \<Rightarrow> 'r \<times> (DelegateMember, 'r) AsyncWait" where
  "DelegateMemberAsyncWait_finish = Wait_finish"

definition DelegateMemberAsyncWaitSp_Bind ::
  "shared_ptr \<Rightarrow> func option \<Rightarrow> nat \<Rightarrow> duration \<Rightarrow> (DelegateMemberSp, 'r) AsyncWait \<Rightarrow> (DelegateMemberSp, 'r) AsyncWait" where
  "DelegateMemberAsyncWaitSp_Bind ob f = Wait_Bind (DelegateMemberSp_Bind ob f)"

definition DelegateMemberAsyncWaitSp_Equal ::
  "object set \<Rightarrow> (DelegateMemberSp, 'r) AsyncWait \<Rightarrow> (DelegateMemberSp, 'r) AsyncWait \<Rightarrow> bool" where
  "DelegateMemberAsyncWaitSp_Equal live = Wait_Equal (DelegateMemberSp_Equal live)"

definition DelegateMemberAsyncWaitSp_start ::
  "object set \<Rightarrow> ('a outcome \<Rightarrow> 'r target_result) \<Rightarrow> bool \<Rightarrow> 'r \<Rightarrow> 'a
   \<Rightarrow> (DelegateMemberSp, 'r) AsyncWait \<Rightarrow> 'r operator_start \<times> (DelegateMemberSp, 'r) AsyncWait" where
  "DelegateMemberAsyncWaitSp_start live = Wait_start (DelegateMemberSp_Empty live) (DelegateMemberSp_call live)"

definition DelegateMemberAsyncWaitSp_finish ::
  "bool \<Rightarrow> 'r message \<Rightarrow> 'r \<Rightarrow> (DelegateMemberSp, 'r) AsyncWait \<Rightarrow> 'r \<times> (DelegateMemberSp, 'r) AsyncWait" where
  "DelegateMemberAsyncWaitSp_finish = Wait_finish"

definition DelegateFunctionAsyncWait_Bind ::
  "fun_object option \<Rightarrow> nat \<Rightarrow> duration \<Rightarrow> (DelegateFunction, 'r) AsyncWait \<Rightarrow> (DelegateFunction, 'r) AsyncWait" where
  "DelegateFunctionAsyncWait_Bind f = Wait_Bind (DelegateFunction_Bind f)"

definition DelegateFunctionAsyncWait_Equal ::
  "(DelegateFunction, 'r) AsyncWait \<Rightarrow> (DelegateFunction, 'r) AsyncWait \<Rightarrow> bool" where
  "DelegateFunctionAsyncWait_Equal = Wait_Equal DelegateFunction_Equal"

definition DelegateFunctionAsyncWait_start ::
  "('a outcome \<Rightarrow> 'r target_result) \<Rightarrow> bool \<Rightarrow> 'r \<Rightarrow> 'a
   \<Rightarrow> (DelegateFunction, 'r) AsyncWait \<Rightarrow> 'r operator_start \<times> (DelegateFunction, 'r) AsyncWait" where
  "DelegateFunctionAsyncWait_start = Wait_start DelegateFunction_Empty DelegateFunction_call"

definition DelegateFunctionAsyncWait_finish ::
  "bool \<Rightarrow> 'r message \<Rightarrow> 'r \<Rightarrow> (DelegateFunction, 'r) AsyncWait \<Rightarrow> 'r \<times> (DelegateFunction, 'r) AsyncWait" where
  "DelegateFunctionAsyncWait_finish = Wait_finish"

section \<open>The class hierarchy\<close>

text \<open>A delegate as \<^verbatim>\<open>DelegateBase\<close> sees it: an object of one of the classes, for one signature.
  The member classes carry their \<^verbatim>\<open>TClass\<close>.\<close>

datatype 'r delegate =
    Free DelegateFree
  | Member nat DelegateMember
  | MemberSp nat DelegateMemberSp
  | Func DelegateFunction
  | FreeAsync "DelegateFree Async"
  | MemberAsync nat "DelegateMember Async"
  | MemberAsyncSp nat "DelegateMemberSp Async"
  | FuncAsync "DelegateFunction Async"
  | FreeAsyncWait "(DelegateFree, 'r) AsyncWait"
  | MemberAsyncWait nat "(DelegateMember, 'r) AsyncWait"
  | MemberAsyncWaitSp nat "(DelegateMemberSp, 'r) AsyncWait"
  | FuncAsyncWait "(DelegateFunction, 'r) AsyncWait"

text \<open>\<^verbatim>\<open>dynamic_cast\<close> to one of the four base classes: an object of a derived class passes.\<close>

fun as_Free :: "'r delegate \<Rightarrow> DelegateFree option" where
  "as_Free (Free d) = Some d"
| "as_Free (FreeAsync d) = Some (async_base d)"
| "as_Free (FreeAsyncWait d) = Some (wait_base d)"
| "as_Free d = None"

fun as_Member :: "nat \<Rightarrow> 'r delegate \<Rightarrow> DelegateMember option" where
  "as_Member c (Member c' d) = (if c = c' then Some d else None)"
| "as_Member c (MemberAsync c' d) = (if c = c' then Some (async_base d) else None)"
| "as_Member c (MemberAsyncWait c' d) = (if c = c' then Some (wait_base d) else None)"
| "as_Member c d = None"

fun as_MemberSp :: "nat \<Rightarrow> 'r delegate \<Rightarrow> DelegateMemberSp option" where
  "as_MemberSp c (MemberSp c' d) = (if c = c' then Some d else None)"
| "as_MemberSp c (MemberAsyncSp c' d) = (if c = c' then Some (async_base d) else None)"
| "as_MemberSp c (MemberAsyncWaitSp c' d) = (if c = c' then Some (wait_base d) else None)"
| "as_MemberSp c d = None"

fun as_Func :: "'r delegate \<Rightarrow> DelegateFunction option" where
  "as_Func (Func d) = Some d"
| "as_Func (FuncAsync d) = Some (async_base d)"
| "as_Func (FuncAsyncWait d) = Some (wait_base d)"
| "as_Func d = None"

text \<open>\<^verbatim>\<open>operator==\<close> of \<^verbatim>\<open>DelegateBase\<close>: the virtual \<^verbatim>\<open>Equal\<close> of the left delegate.\<close>

fun Equal :: "object set \<Rightarrow> 'r delegate \<Rightarrow> 'r delegate \<Rightarrow> bool" where
  "Equal live (Free d) rhs = (case as_Free rhs of None \<Rightarrow> False | Some e \<Rightarrow> DelegateFree_Equal d e)"
| "Equal live (Member c d) rhs = (case as_Member c rhs of None \<Rightarrow> False | Some e \<Rightarrow> DelegateMember_Equal d e)"
| "Equal live (MemberSp c d) rhs = (case as_MemberSp c rhs of None \<Rightarrow> False | Some e \<Rightarrow> DelegateMemberSp_Equal live d e)"
| "Equal live (Func d) rhs = (case as_Func rhs of None \<Rightarrow> False | Some e \<Rightarrow> DelegateFunction_Equal d e)"
| "Equal live (FreeAsync d) rhs = (case rhs of FreeAsync e \<Rightarrow> DelegateFreeAsync_Equal d e | _ \<Rightarrow> False)"
| "Equal live (MemberAsync c d) rhs = (case rhs of MemberAsync c' e \<Rightarrow> c = c' \<and> DelegateMemberAsync_Equal d e | _ \<Rightarrow> False)"
| "Equal live (MemberAsyncSp c d) rhs = (case rhs of MemberAsyncSp c' e \<Rightarrow> c = c' \<and> DelegateMemberAsyncSp_Equal live d e | _ \<Rightarrow> False)"
| "Equal live (FuncAsync d) rhs = (case rhs of FuncAsync e \<Rightarrow> DelegateFunctionAsync_Equal d e | _ \<Rightarrow> False)"
| "Equal live (FreeAsyncWait d) rhs = (case rhs of FreeAsyncWait e \<Rightarrow> DelegateFreeAsyncWait_Equal d e | _ \<Rightarrow> False)"
| "Equal live (MemberAsyncWait c d) rhs = (case rhs of MemberAsyncWait c' e \<Rightarrow> c = c' \<and> DelegateMemberAsyncWait_Equal d e | _ \<Rightarrow> False)"
| "Equal live (MemberAsyncWaitSp c d) rhs = (case rhs of MemberAsyncWaitSp c' e \<Rightarrow> c = c' \<and> DelegateMemberAsyncWaitSp_Equal live d e | _ \<Rightarrow> False)"
| "Equal live (FuncAsyncWait d) rhs = (case rhs of FuncAsyncWait e \<Rightarrow> DelegateFunctionAsyncWait_Equal d e | _ \<Rightarrow> False)"

text \<open>\<^verbatim>\<open>Clone\<close>: the copy constructor of the class.\<close>

fun Clone :: "'r delegate \<Rightarrow> 'r delegate" where
  "Clone (Free d) = Free (DelegateFree_Assign d DelegateFree)"
| "Clone (Member c d) = Member c (DelegateMember_Assign d DelegateMember)"
| "Clone (MemberSp c d) = MemberSp c (DelegateMemberSp_Assign d DelegateMemberSp)"
| "Clone (Func d) = Func (DelegateFunction_Assign d DelegateFunction)"
| "Clone (FreeAsync d) = FreeAsync (Async_copy d)"
| "Clone (MemberAsync c d) = MemberAsync c (Async_copy d)"
| "Clone (MemberAsyncSp c d) = MemberAsyncSp c (Async_copy d)"
| "Clone (FuncAsync d) = FuncAsync (Async_copy d)"
| "Clone (FreeAsyncWait d) = FreeAsyncWait (Wait_copy d)"
| "Clone (MemberAsyncWait c d) = MemberAsyncWait c (Wait_copy d)"
| "Clone (MemberAsyncWaitSp c d) = MemberAsyncWaitSp c (Wait_copy d)"
| "Clone (FuncAsyncWait d) = FuncAsyncWait (Wait_copy d)"

text \<open>The function a delegate calls, at once or on its thread.\<close>

fun target_call :: "object set \<Rightarrow> 'a \<Rightarrow> 'r delegate \<Rightarrow> 'a outcome" where
  "target_call live x (Free d) = DelegateFree_call x d"
| "target_call live x (Member c d) = DelegateMember_call live x d"
| "target_call live x (MemberSp c d) = DelegateMemberSp_call live x d"
| "target_call live x (Func d) = DelegateFunction_call x d"
| "target_call live x (FreeAsync d) = DelegateFree_call x (async_base d)"
| "target_call live x (MemberAsync c d) = DelegateMember_call live x (async_base d)"
| "target_call live x (MemberAsyncSp c d) = DelegateMemberSp_call live x (async_base d)"
| "target_call live x (FuncAsync d) = DelegateFunction_call x (async_base d)"
| "target_call live x (FreeAsyncWait d) = DelegateFree_call x (wait_base d)"
| "target_call live x (MemberAsyncWait c d) = DelegateMember_call live x (wait_base d)"
| "target_call live x (MemberAsyncWaitSp c d) = DelegateMemberSp_call live x (wait_base d)"
| "target_call live x (FuncAsyncWait d) = DelegateFunction_call x (wait_base d)"

fun class_of :: "'r delegate \<Rightarrow> nat \<times> nat" where
  "class_of (Free d) = (0, 0)"
| "class_of (Member c d) = (1, c)"
| "class_of (MemberSp c d) = (2, c)"
| "class_of (Func d) = (3, 0)"
| "class_of (FreeAsync d) = (4, 0)"
| "class_of (MemberAsync c d) = (5, c)"
| "class_of (MemberAsyncSp c d) = (6, c)"
| "class_of (FuncAsync d) = (7, 0)"
| "class_of (FreeAsyncWait d) = (8, 0)"
| "class_of (MemberAsyncWait c d) = (9, c)"
| "class_of (MemberAsyncWaitSp c d) = (10, c)"
| "class_of (FuncAsyncWait d) = (11, 0)"

section \<open>Equality\<close>

context bound_target
begin

lemma async_same_refl: "Async_Equal (same live) d d"
  by (simp add: Async_Equal_def AsyncDispatchState_Equal_def same_refl)

lemma async_same_sym: "Async_Equal (same live) d e \<Longrightarrow> Async_Equal (same live) e d"
  by (simp add: Async_Equal_def AsyncDispatchState_Equal_def same_sym)

lemma async_same_trans: "Async_Equal (same live) d e \<Longrightarrow> Async_Equal (same live) e f \<Longrightarrow> Async_Equal (same live) d f"
  by (auto simp: Async_Equal_def AsyncDispatchState_Equal_def intro: same_trans)

lemma async_same_base: "Async_Equal (same live) d e \<Longrightarrow> same live (async_base d) (async_base e)"
  by (simp add: Async_Equal_def)

lemma wait_same_refl: "Wait_Equal (same live) d d"
  by (simp add: Wait_Equal_def dispatch_state_Equal_def same_refl)

lemma wait_same_sym: "Wait_Equal (same live) d e \<Longrightarrow> Wait_Equal (same live) e d"
  by (simp add: Wait_Equal_def dispatch_state_Equal_def same_sym)

lemma wait_same_trans: "Wait_Equal (same live) d e \<Longrightarrow> Wait_Equal (same live) e f \<Longrightarrow> Wait_Equal (same live) d f"
  by (auto simp: Wait_Equal_def dispatch_state_Equal_def intro: same_trans)

lemma wait_same_base: "Wait_Equal (same live) d e \<Longrightarrow> same live (wait_base d) (wait_base e)"
  by (simp add: Wait_Equal_def)

text \<open>Calling an asynchronous delegate has no effect but that of its target, now or on its thread.\<close>

lemma async_call_skips: "empty_of live (async_base d) \<Longrightarrow> Async_call (empty_of live) (call live) x d = Done Default_value"
  by (simp add: Async_call_def)

lemma async_Invoke_calls:
  "fst (Async_Invoke (empty_of live) (call live) True x d)
    = (True, Done (if empty_of live (async_base d) then Default_value else call live x (async_base d)))"
  by (simp add: Async_Invoke_def Async_call_def)

end

lemmas class_Equal_defs = DelegateFreeAsync_Equal_def DelegateMemberAsync_Equal_def DelegateMemberAsyncSp_Equal_def
  DelegateFunctionAsync_Equal_def DelegateFreeAsyncWait_Equal_def DelegateMemberAsyncWait_Equal_def
  DelegateMemberAsyncWaitSp_Equal_def DelegateFunctionAsyncWait_Equal_def

lemmas same_trans_rules = free.same_trans member.same_trans memberSp.same_trans func_object.same_trans
  free.async_same_trans member.async_same_trans memberSp.async_same_trans func_object.async_same_trans
  free.wait_same_trans member.wait_same_trans memberSp.wait_same_trans func_object.wait_same_trans

lemmas same_sym_rules = free.same_sym member.same_sym memberSp.same_sym func_object.same_sym
  free.async_same_sym member.async_same_sym memberSp.async_same_sym func_object.async_same_sym
  free.wait_same_sym member.wait_same_sym memberSp.wait_same_sym func_object.wait_same_sym

lemma Equal_refl: "Equal live d d"
  by (cases d)
    (simp_all add: class_Equal_defs free.same_refl member.same_refl memberSp.same_refl func_object.same_refl
      free.async_same_refl member.async_same_refl memberSp.async_same_refl func_object.async_same_refl
      free.wait_same_refl member.wait_same_refl memberSp.wait_same_refl func_object.wait_same_refl)

lemma Equal_sym: "Equal live a b \<Longrightarrow> Equal live b a = (class_of b = class_of a)"
  by (cases a; cases b) (auto simp: class_Equal_defs intro: same_sym_rules split: if_splits)

lemma Equal_as_Free:
  "Equal live b c \<Longrightarrow> as_Free b = Some d \<Longrightarrow> \<exists>e. as_Free c = Some e \<and> DelegateFree_Equal d e"
  by (cases b; cases c) (auto simp: class_Equal_defs Async_Equal_def Wait_Equal_def)

lemma Equal_as_Member:
  "Equal live b c \<Longrightarrow> as_Member k b = Some d \<Longrightarrow> \<exists>e. as_Member k c = Some e \<and> DelegateMember_Equal d e"
  by (cases b; cases c) (auto simp: class_Equal_defs Async_Equal_def Wait_Equal_def split: if_splits)

lemma Equal_as_MemberSp:
  "Equal live b c \<Longrightarrow> as_MemberSp k b = Some d \<Longrightarrow> \<exists>e. as_MemberSp k c = Some e \<and> DelegateMemberSp_Equal live d e"
  by (cases b; cases c) (auto simp: class_Equal_defs Async_Equal_def Wait_Equal_def split: if_splits)

lemma Equal_as_Func:
  "Equal live b c \<Longrightarrow> as_Func b = Some d \<Longrightarrow> \<exists>e. as_Func c = Some e \<and> DelegateFunction_Equal d e"
  by (cases b; cases c) (auto simp: class_Equal_defs Async_Equal_def Wait_Equal_def)

lemma Equal_trans:
  assumes "Equal live a b" and "Equal live b c"
  shows "Equal live a c"
proof (cases a)
  case (Free d)
  then obtain e where e: "as_Free b = Some e" "DelegateFree_Equal d e" using assms(1) by (auto split: option.splits)
  then show ?thesis using Equal_as_Free [OF assms(2) e(1)] Free by (auto intro: free.same_trans)
next
  case (Member k d)
  then obtain e where e: "as_Member k b = Some e" "DelegateMember_Equal d e" using assms(1) by (auto split: option.splits)
  then show ?thesis using Equal_as_Member [OF assms(2) e(1)] Member by (auto intro: member.same_trans)
next
  case (MemberSp k d)
  then obtain e where e: "as_MemberSp k b = Some e" "DelegateMemberSp_Equal live d e" using assms(1) by (auto split: option.splits)
  then show ?thesis using Equal_as_MemberSp [OF assms(2) e(1)] MemberSp by (auto intro: memberSp.same_trans)
next
  case (Func d)
  then obtain e where e: "as_Func b = Some e" "DelegateFunction_Equal d e" using assms(1) by (auto split: option.splits)
  then show ?thesis using Equal_as_Func [OF assms(2) e(1)] Func by (auto intro: func_object.same_trans)
qed (use assms in \<open>auto simp: class_Equal_defs split: delegate.splits intro: same_trans_rules\<close>)

lemma Equal_Clone: "Equal live a (Clone a)" and class_of_Clone [simp]: "class_of (Clone a) = class_of a"
  and target_call_Clone: "target_call live x (Clone a) = target_call live x a"
proof -
  have frees: "DelegateFree_Assign d DelegateFree = d" for d by (simp add: DelegateFree_Assign_def DelegateFree_def)
  have members: "DelegateMember_Assign d DelegateMember = d" for d
    by (simp add: DelegateMember_Assign_def DelegateMember_def)
  have sps: "DelegateMemberSp_Assign d DelegateMemberSp = d" for d
    by (simp add: DelegateMemberSp_Assign_def DelegateMemberSp_def)
  have funs: "DelegateFunction_Assign d DelegateFunction = d" for d
    by (simp add: DelegateFunction_Assign_def DelegateFunction_def)
  have copy: "Async_Equal q (Async_copy c) (Async_copy c) = Async_Equal q c (Async_copy c)" for q and c :: "'d Async"
    by (simp add: Async_Equal_def Async_copy_def)
  have wait: "Wait_Equal q (Wait_copy c) (Wait_copy c) = Wait_Equal q c (Wait_copy c)" for q and c :: "('d, 'r) AsyncWait"
    by (simp add: Wait_Equal_def Wait_copy_def)
  show "Equal live a (Clone a)"
    using Equal_refl [of live "Clone a"]
    by (cases a) (simp_all add: class_Equal_defs copy wait frees members sps funs)
  show "class_of (Clone a) = class_of a" by (cases a) simp_all
  show "target_call live x (Clone a) = target_call live x a"
    by (cases a) (simp_all add: Async_copy_def Wait_copy_def frees members sps funs)
qed

text \<open>The objects a delegate shares ownership of exist.\<close>

definition owner_alive :: "object set \<Rightarrow> shared_ptr \<Rightarrow> bool" where
  "owner_alive live p = (case p of Owning x \<Rightarrow> x \<in> live | _ \<Rightarrow> True)"

fun kept_alive :: "object set \<Rightarrow> 'r delegate \<Rightarrow> bool" where
  "kept_alive live (Member c d) = owner_alive live (member_object d)"
| "kept_alive live (MemberAsync c d) = owner_alive live (member_object (async_base d))"
| "kept_alive live (MemberAsyncWait c d) = owner_alive live (member_object (wait_base d))"
| "kept_alive live d = True"

lemma member_same_call:
  "DelegateMember_Equal d e \<Longrightarrow> owner_alive live (member_object d) \<Longrightarrow> owner_alive live (member_object e)
    \<Longrightarrow> DelegateMember_call live x d = DelegateMember_call live x e"
  by (cases "member_object d"; cases "member_object e") (auto simp: member_defs owner_alive_def)

lemma memberSp_same_call: "DelegateMemberSp_Equal live d e \<Longrightarrow> DelegateMemberSp_call live x d = DelegateMemberSp_call live x e"
  by (auto simp: DelegateMemberSp_Equal_def DelegateMemberSp_call_def split: option.split)

lemma free_same_call: "DelegateFree_Equal d e \<Longrightarrow> DelegateFree_call x d = DelegateFree_call x e"
  by (simp add: free_defs)

lemma Equal_same_call:
  assumes "Equal live a b" and "kept_alive live a" and "kept_alive live b" and "as_Func a = None"
  shows "target_call live x a = target_call live x b"
  using assms
  by (cases a; cases b)
    (auto simp: class_Equal_defs Async_Equal_def Wait_Equal_def split: if_splits
      intro: member_same_call memberSp_same_call free_same_call)

section \<open>Properties\<close>

text \<open>
  Equality of delegates is reflexive and transitive, a clone is equal to its original, and
  equal delegates (other than those of function objects, which are compared by type) call the same
  function on the same object. It is symmetric only between delegates of one class: a synchronous
  delegate is also equal to an asynchronous one of the same target, but not the other way round.
\<close>

theorem delegate_equality:
  assumes "Equal live a b" and "kept_alive live a" and "kept_alive live b" and "as_Func a = None"
    and "Equal live b c"
  shows "target_call live x a = target_call live x b
    \<and> Equal live b a = (class_of b = class_of a)
    \<and> Equal live a c \<and> Equal live a (Clone b) \<and> target_call live x (Clone b) = target_call live x a"
  using Equal_same_call [OF assms(1-4), of x] Equal_sym [OF assms(1)] Equal_trans [OF assms(1,5)]
    Equal_trans [OF assms(1) Equal_Clone] target_call_Clone [of live x b] by simp

definition sync_seven :: "nat delegate" where
  "sync_seven = Free (DelegateFree_Bind (Some 7) DelegateFree)"

definition async_seven :: "nat delegate" where
  "async_seven = FreeAsync (DelegateFreeAsync_Bind (Some 7) 1 (Async_default DelegateFree))"

lemma seven_equal: "Equal live sync_seven async_seven" "\<not> Equal live async_seven sync_seven"
  by (simp_all add: sync_seven_def async_seven_def DelegateFreeAsync_Bind_def Async_Bind_def DelegateFree_Bind_def
      DelegateFree_Equal_def Async_default_def)

lemma delegate_equality_witness:
  "target_call {} (0 :: nat) sync_seven = target_call {} 0 async_seven
    \<and> Equal {} async_seven sync_seven = (class_of async_seven = class_of sync_seven)
    \<and> Equal {} sync_seven async_seven \<and> Equal {} sync_seven (Clone async_seven)
    \<and> target_call {} (0 :: nat) (Clone async_seven) = target_call {} 0 sync_seven"
  by (rule delegate_equality [OF seven_equal(1) _ _ _ Equal_refl])
    (simp_all add: sync_seven_def async_seven_def)

text \<open>
  Two more calls of the code that the contract of the classes does not cover: function objects of
  one type are equal whatever they capture, and a weakly held member without a function is called.
\<close>

lemma function_objects_equal_by_type:
  "DelegateFunction_Equal \<lparr>function_object = Some (Fun_object t x)\<rparr> \<lparr>function_object = Some (Fun_object t y)\<rparr>"
  by (simp add: function_defs)

lemma null_member_function_called:
  "x \<in> live \<Longrightarrow> DelegateMemberSp_Empty live (DelegateMemberSp_Bind (Owning x) None d)
    \<and> DelegateMemberSp_call live args (DelegateMemberSp_Bind (Owning x) None d) = Undefined"
  by (simp add: DelegateMemberSp_Bind_def memberSp_defs)

end
