(* ===== verification/AsyncDelegates.thy ===== *)
theory AsyncDelegates
  imports Delegates
begin

text \<open>
  Asynchronous delegates on a worker thread: the messages \<open>DispatchAsync\<close> builds are the payloads
  of the thread of \<open>WorkerThread\<close>, and each invocation of the worker is \<open>Invoke\<close> of the clone in
  the message. The calls are those of a weakly held member, the class that has to cope with a
  target that is gone by the time its message is served.
\<close>

section \<open>Dispatching a sequence of calls\<close>

text \<open>The effect of a call on the thread \<open>t\<close>; what is sent to another thread does not touch it.\<close>

definition send_call ::
  "object set \<Rightarrow> nat \<Rightarrow> 'a \<times> DelegateMemberSp Async \<Rightarrow> (DelegateMemberSp Async \<times> 'a) thread_state
   \<Rightarrow> (DelegateMemberSp Async \<times> 'a) thread_state" where
  "send_call live t c s =
     (case DelegateMemberAsyncSp_call live (fst c) (snd c) of
        Sent t' m \<Rightarrow> if t' = t then dispatch m s else s
      | _ \<Rightarrow> s)"

text \<open>Serving one message, with the objects that exist by then.\<close>

definition serve_msg ::
  "object set \<Rightarrow> (DelegateMemberSp, 'a) async_msg \<Rightarrow> bool \<times> (DelegateMemberSp, 'a) async_effect" where
  "serve_msg live m = fst (DelegateMemberAsyncSp_Invoke live True (snd (payload m)) (fst (payload m)))"

text \<open>A call that will be sent: bound to the thread with NORMAL priority, its object alive.\<close>

definition sendable :: "object set \<Rightarrow> nat \<Rightarrow> DelegateMemberSp Async \<Rightarrow> bool" where
  "sendable live t d \<longleftrightarrow> \<not> DelegateMemberSp_Empty live (async_base d) \<and> \<not> async_sync d
     \<and> async_state d = \<lparr>async_thread = Some t, async_priority = NORMAL\<rparr>"

definition message_of :: "'a \<times> DelegateMemberSp Async \<Rightarrow> (DelegateMemberSp, 'a) async_msg" where
  "message_of c = DelegateMsg (Async_copy (snd c), fst c) NORMAL"

lemma send_call_dispatch:
  "sendable live t (snd c) \<Longrightarrow> send_call live t c s = dispatch (message_of c) s"
  by (simp add: send_call_def DelegateMemberAsyncSp_call_def Async_call_def DispatchAsync_def sendable_def message_of_def)

lemma send_calls:
  assumes "reachable s" and "busy s" and "\<not> faulted s" and "GetQueueSize s + length cs \<le> MAX_QUEUE_SIZE s"
    and "\<forall>c \<in> set cs. sendable live t (snd c)"
  shows "reachable (fold (send_call live t) cs s) \<and> busy (fold (send_call live t) cs s)
    \<and> queued (fold (send_call live t) cs s) = queued s @ map message_of cs
    \<and> invoked (fold (send_call live t) cs s) = invoked s
    \<and> MAX_QUEUE_SIZE (fold (send_call live t) cs s) = MAX_QUEUE_SIZE s"
  using assms
proof (induction cs arbitrary: s)
  case (Cons c cs)
  define s1 where "s1 = dispatch (message_of c) s"
  have first: "send_call live t c s = s1"
    using Cons.prems(5) send_call_dispatch [of live t c s] by (simp add: s1_def)
  have nf: "\<not> queue_full s" using Cons.prems(4) by (simp add: queue_full_def)
  note n = dispatch_normal [OF Cons.prems(2) nf, of "(Async_copy (snd c), fst c)", folded message_of_def]
  have s1: "busy s1" "queued s1 = queued s @ [message_of c]" "invoked s1 = invoked s"
    "MAX_QUEUE_SIZE s1 = MAX_QUEUE_SIZE s" "\<not> faulted s1" "GetQueueSize s1 = Suc (GetQueueSize s)"
    using n Cons.prems(3) by (simp_all add: s1_def GetQueueSize_def push_facts(3))
  have "reachable s1"
    unfolding s1_def using Cons.prems(1-3) by (intro reachable_dispatch) (simp_all add: busy_def)
  then show ?case using Cons.IH [of s1] Cons.prems(4,5) s1 first by simp
qed simp

lemma serve_message_of:
  "serve_msg live (message_of c)
    = (True, Done (if DelegateMemberSp_Empty live (async_base (snd c)) then Default_value
                   else DelegateMemberSp_call live (fst c) (async_base (snd c))))"
  by (simp add: serve_msg_def message_of_def DelegateMemberAsyncSp_Invoke_def memberSp.async_Invoke_calls Async_copy_def)

text \<open>What a call amounts to when its object is still alive, or is gone.\<close>

definition delivered_call :: "object set \<Rightarrow> 'a \<times> DelegateMemberSp Async \<Rightarrow> 'a outcome" where
  "delivered_call live c =
     (let d = async_base (snd c) in
      case lock live (weak_object d) of
        None \<Rightarrow> Default_value
      | Some x \<Rightarrow> Calls (Member_function x (the (weak_func d))) (fst c))"

lemma serve_sendable:
  "sendable live0 t (snd c) \<Longrightarrow> serve_msg live (message_of c) = (True, Done (delivered_call live c))"
  by (auto simp: serve_message_of delivered_call_def sendable_def DelegateMemberSp_Empty_def DelegateMemberSp_call_def
      split: option.splits)

section \<open>Properties\<close>

text \<open>
  C28: asynchronous calls of a weakly held member sent to a running thread are carried out on it,
  each exactly once, in the order of the calls and with their arguments, by the time the thread has
  been asked to exit and has drained its queue; a call whose object is gone when its turn comes is
  skipped, and no call touches an object that is gone.
\<close>

theorem async_calls_delivered:
  fixes s :: "(DelegateMemberSp Async \<times> 'a) thread_state"
  assumes "reachable s" and "busy s" and "\<not> faulted s" and "GetQueueSize s + length cs \<le> MAX_QUEUE_SIZE s"
    and "\<forall>c \<in> set cs. sendable live t (snd c)" and "2 * MAX_QUEUE_SIZE s + 2 \<le> n"
  defines "s' \<equiv> process_run n (ExitThread_begin DRAIN (fold (send_call live t) cs s))"
  shows "process s' = Returned \<and> take (length (invoked s @ queued s)) (invoked s') = invoked s @ queued s
    \<and> map (\<lambda>i. serve_msg (alive i) (drop (length (invoked s @ queued s)) (invoked s') ! i)) [0..<length cs]
      = map (\<lambda>i. (True, Done (delivered_call (alive i) (cs ! i)))) [0..<length cs]
    \<and> length (invoked s') = length (invoked s @ queued s) + length cs"
proof -
  note sent = send_calls [OF assms(1-5)]
  have "process s' = Returned \<and> invoked s' = invoked s @ queued s @ map message_of cs"
    using drain_order [of "fold (send_call live t) cs s" n] sent assms(6) by (simp add: s'_def)
  moreover have "serve_msg (alive i) (map message_of cs ! i) = (True, Done (delivered_call (alive i) (cs ! i)))"
    if "i < length cs" for i
    using that assms(5) serve_sendable [of live t "cs ! i"] by simp
  ultimately show ?thesis by simp
qed

text \<open>Two calls on a thread for two messages; the object of the first is destroyed in between.\<close>

definition weak_call :: "object \<Rightarrow> DelegateMemberSp Async" where
  "weak_call x = DelegateMemberAsyncSp_Bind (Owning x) (Some 3) 1 (Async_default DelegateMemberSp)"

lemma weak_call_sendable: "x \<in> live \<Longrightarrow> sendable live 1 (weak_call x)"
  by (simp add: sendable_def weak_call_def DelegateMemberAsyncSp_Bind_def Async_Bind_def Async_default_def
      DelegateMemberSp_Bind_def DelegateMemberSp_Empty_def lock_def AsyncDispatchState_def)

definition idle_thread :: "(DelegateMemberSp Async \<times> nat) thread_state" where
  "idle_thread = CreateThread (StdlibThread 2 FAULT)"

lemma idle_thread_facts: "reachable idle_thread" "busy idle_thread" "\<not> faulted idle_thread"
  "GetQueueSize idle_thread = 0" "MAX_QUEUE_SIZE idle_thread = 2" "invoked idle_thread = []" "queued idle_thread = []"
proof -
  show "reachable idle_thread" unfolding idle_thread_def
    by (rule reachable.step [OF reachable.start], rule thread_step.create) (simp_all add: StdlibThread_def)
qed (simp_all add: idle_thread_def StdlibThread_def CreateThread_def busy_def GetQueueSize_def queue_size_def
    no_messages_def waiting_eq queued_def)

lemma async_calls_delivered_witness:
  defines "s' \<equiv> process_run 6 (ExitThread_begin DRAIN (fold (send_call {4, 5} 1) [(10, weak_call 4), (20, weak_call 5)] idle_thread))"
  shows "process s' = Returned \<and> length (invoked s') = 2
    \<and> map (\<lambda>i. serve_msg {5} (invoked s' ! i)) [0..<2]
      = [(True, Done Default_value), (True, Done (Calls (Member_function 5 3) 20))]"
proof -
  have "delivered_call {5} (10 :: nat, weak_call 4) = Default_value"
    "delivered_call {5} (20, weak_call 5) = Calls (Member_function 5 3) (20 :: nat)"
    by (simp_all add: delivered_call_def weak_call_def DelegateMemberAsyncSp_Bind_def Async_Bind_def Async_default_def
        DelegateMemberSp_Bind_def lock_def)
  moreover have "\<forall>c \<in> set [(10, weak_call 4), (20, weak_call 5)]. sendable {4, 5} 1 (snd c)"
    by (simp add: weak_call_sendable del: One_nat_def)
  moreover have "[0..<2] = [0, Suc 0]" by (simp add: upt_rec)
  ultimately show ?thesis
    using async_calls_delivered [OF idle_thread_facts(1-3), of "[(10, weak_call 4), (20, weak_call 5)]" "{4, 5}" 1 6 "\<lambda>_. {5}"]
    by (simp add: idle_thread_facts s'_def del: One_nat_def)
qed

end
