(* ===== verification/Multicast.thy ===== *)
theory Multicast
  imports Delegates
begin

text \<open>
  \<^verbatim>\<open>delegate/MulticastDelegate.h\<close> and \<^verbatim>\<open>MulticastDelegateSafe.h\<close>: a container of delegates that
  are all called by one call of the container. A called delegate may change the container it is
  called from; the code then nulls entries instead of erasing them and purges them when the
  outermost call ends. An entry of the list is \<open>None\<close> for a null \<^verbatim>\<open>shared_ptr\<close>. Iterators of a
  \<^verbatim>\<open>std::list\<close> are positions here, which is right as long as no node is erased below them: that
  none is, is part of what is proved.
\<close>

section \<open>The container\<close>

record 'r multicast =
  m_delegates :: "'r delegate option list"
  m_broadcastCount :: nat
  m_cleanup :: bool

definition MulticastDelegate :: "'r multicast" where
  "MulticastDelegate = \<lparr>m_delegates = [], m_broadcastCount = 0, m_cleanup = False\<rparr>"

definition MulticastPushBack :: "'r delegate \<Rightarrow> 'r multicast \<Rightarrow> 'r multicast" where
  "MulticastPushBack d c = c\<lparr>m_delegates := m_delegates c @ [Some (Clone d)]\<rparr>"

fun find_if :: "('b \<Rightarrow> bool) \<Rightarrow> 'b list \<Rightarrow> nat option" where
  "find_if p [] = None"
| "find_if p (x # xs) = (if p x then Some 0 else map_option Suc (find_if p xs))"

definition matches :: "object set \<Rightarrow> 'r delegate \<Rightarrow> 'r delegate option \<Rightarrow> bool" where
  "matches live d item = (case item of None \<Rightarrow> False | Some x \<Rightarrow> Equal live x d)"

definition MulticastRemove :: "object set \<Rightarrow> 'r delegate \<Rightarrow> 'r multicast \<Rightarrow> 'r multicast" where
  "MulticastRemove live d c =
     (case find_if (matches live d) (m_delegates c) of
        None \<Rightarrow> c
      | Some i \<Rightarrow>
          if 0 < m_broadcastCount c
          then c\<lparr>m_delegates := (m_delegates c)[i := None], m_cleanup := True\<rparr>
          else c\<lparr>m_delegates := take i (m_delegates c) @ drop (Suc i) (m_delegates c)\<rparr>)"

definition MulticastClear :: "'r multicast \<Rightarrow> 'r multicast" where
  "MulticastClear c =
     (if 0 < m_broadcastCount c
      then c\<lparr>m_delegates := map (\<lambda>_. None) (m_delegates c), m_cleanup := True\<rparr>
      else c\<lparr>m_delegates := []\<rparr>)"

definition MulticastCopyFrom :: "'r delegate option list \<Rightarrow> 'r multicast \<Rightarrow> 'r multicast" where
  "MulticastCopyFrom src c =
     c\<lparr>m_delegates := m_delegates c @ map (\<lambda>d. Some (Clone (the d))) (filter (\<lambda>d. d \<noteq> None) src)\<rparr>"

definition MulticastAppendAndClear :: "'r delegate option list \<Rightarrow> 'r multicast \<Rightarrow> 'r multicast" where
  "MulticastAppendAndClear src c = c\<lparr>m_delegates := m_delegates c @ src\<rparr>"

definition copy_assign :: "'r multicast \<Rightarrow> 'r multicast \<Rightarrow> 'r multicast" where
  "copy_assign rhs c = MulticastCopyFrom (m_delegates rhs) (MulticastClear c)"

text \<open>Move assignment; the other container is left empty.\<close>

definition move_assign :: "'r multicast \<Rightarrow> 'r multicast \<Rightarrow> 'r multicast \<times> 'r multicast" where
  "move_assign rhs c =
     (if 0 < m_broadcastCount c
      then MulticastAppendAndClear (m_delegates rhs) (MulticastClear c)
      else (MulticastClear c)\<lparr>m_delegates := m_delegates rhs\<rparr>,
      rhs\<lparr>m_delegates := []\<rparr>)"

definition Multicast_Size :: "'r multicast \<Rightarrow> nat" where
  "Multicast_Size c = length (m_delegates c)"

definition guard_enter :: "'r multicast \<Rightarrow> 'r multicast" where
  "guard_enter c = c\<lparr>m_broadcastCount := Suc (m_broadcastCount c)\<rparr>"

definition guard_leave :: "'r multicast \<Rightarrow> 'r multicast" where
  "guard_leave c =
     (let c1 = c\<lparr>m_broadcastCount := m_broadcastCount c - 1\<rparr> in
      if m_broadcastCount c1 = 0 \<and> m_cleanup c1
      then c1\<lparr>m_delegates := filter (\<lambda>d. d \<noteq> None) (m_delegates c1), m_cleanup := False\<rparr>
      else c1)"

section \<open>The abstract container\<close>

text \<open>What the container promises: a list of delegates without holes.\<close>

definition subscribed :: "'r multicast \<Rightarrow> 'r delegate list" where
  "subscribed c = map the (filter (\<lambda>d. d \<noteq> None) (m_delegates c))"

fun remove_first :: "('b \<Rightarrow> bool) \<Rightarrow> 'b list \<Rightarrow> 'b list" where
  "remove_first p [] = []"
| "remove_first p (x # xs) = (if p x then xs else x # remove_first p xs)"

datatype 'r edit = Push "'r delegate" | Remove_equal "'r delegate" | Clear_all
  | Copy_from "'r multicast" | Move_from "'r multicast"

fun apply_edit :: "object set \<Rightarrow> 'r edit \<Rightarrow> 'r multicast \<Rightarrow> 'r multicast" where
  "apply_edit live (Push d) c = MulticastPushBack d c"
| "apply_edit live (Remove_equal d) c = MulticastRemove live d c"
| "apply_edit live Clear_all c = MulticastClear c"
| "apply_edit live (Copy_from rhs) c = copy_assign rhs c"
| "apply_edit live (Move_from rhs) c = fst (move_assign rhs c)"

fun abstract_edit :: "object set \<Rightarrow> 'r edit \<Rightarrow> 'r delegate list \<Rightarrow> 'r delegate list" where
  "abstract_edit live (Push d) ds = ds @ [Clone d]"
| "abstract_edit live (Remove_equal d) ds = remove_first (\<lambda>x. Equal live x d) ds"
| "abstract_edit live Clear_all ds = []"
| "abstract_edit live (Copy_from rhs) ds = map Clone (subscribed rhs)"
| "abstract_edit live (Move_from rhs) ds = subscribed rhs"

lemma find_if_Some: "find_if p xs = Some i \<Longrightarrow> i < length xs \<and> p (xs ! i)"
  by (induction xs arbitrary: i) (auto split: if_splits)

lemma remove_found:
  "find_if (matches live d) xs = Some i \<Longrightarrow>
    map the (filter (\<lambda>d. d \<noteq> None) (xs[i := None])) = remove_first (\<lambda>x. Equal live x d) (map the (filter (\<lambda>d. d \<noteq> None) xs))
    \<and> map the (filter (\<lambda>d. d \<noteq> None) (take i xs @ drop (Suc i) xs))
      = remove_first (\<lambda>x. Equal live x d) (map the (filter (\<lambda>d. d \<noteq> None) xs))"
  by (induction xs arbitrary: i) (auto simp: matches_def split: if_splits option.splits)

lemma remove_missing:
  "find_if (matches live d) xs = None \<Longrightarrow>
    remove_first (\<lambda>x. Equal live x d) (map the (filter (\<lambda>d. d \<noteq> None) xs)) = map the (filter (\<lambda>d. d \<noteq> None) xs)"
  by (induction xs) (auto simp: matches_def split: if_splits option.splits)

lemmas edit_defs = MulticastPushBack_def MulticastRemove_def MulticastClear_def copy_assign_def
  move_assign_def MulticastCopyFrom_def MulticastAppendAndClear_def

lemma edit_refines: "subscribed (apply_edit live op c) = abstract_edit live op (subscribed c)"
proof (cases op)
  case (Remove_equal d)
  then show ?thesis using remove_found [of live d "m_delegates c"] remove_missing [of live d "m_delegates c"]
    by (auto simp: subscribed_def MulticastRemove_def split: option.split)
qed (auto simp: subscribed_def edit_defs filter_empty_conv comp_def)

lemma guards_refine: "subscribed (guard_enter c) = subscribed c" "subscribed (guard_leave c) = subscribed c"
  by (simp_all add: subscribed_def guard_enter_def guard_leave_def Let_def)

section \<open>Calling the container\<close>

text \<open>
  One activation of \<^verbatim>\<open>operator()\<close>: the position of its iterator, whether it is inside a called
  delegate, and what it has called so far. \<open>broadcasting\<close> is the stack of activations, innermost
  first. The container is changed, or called again, only by a called delegate or when no
  activation is in progress.
\<close>

record 'r activation =
  it :: nat
  in_call :: bool
  called :: "(nat \<times> 'r delegate) list"

record 'r broadcasting =
  container :: "'r multicast"
  activations :: "'r activation list"

definition may_edit :: "'r activation list \<Rightarrow> bool" where
  "may_edit as \<longleftrightarrow> (case as of [] \<Rightarrow> True | a # _ \<Rightarrow> in_call a)"

definition broadcast_begin :: "'r broadcasting \<Rightarrow> 'r broadcasting" where
  "broadcast_begin s =
     s\<lparr>container := guard_enter (container s),
       activations := \<lparr>it = 0, in_call = False, called = []\<rparr> # activations s\<rparr>"

definition visit :: "'r multicast \<Rightarrow> 'r activation \<Rightarrow> 'r activation" where
  "visit c a =
     (case m_delegates c ! it a of
        Some d \<Rightarrow> a\<lparr>in_call := True, called := called a @ [(it a, d)]\<rparr>
      | None \<Rightarrow> a\<lparr>it := Suc (it a)\<rparr>)"

definition call_returned :: "'r activation \<Rightarrow> 'r activation" where
  "call_returned a = a\<lparr>it := Suc (it a), in_call := False\<rparr>"

text \<open>Containers assigned from are not themselves in the middle of a broadcast.\<close>

fun quiet :: "'r edit \<Rightarrow> bool" where
  "quiet (Copy_from rhs) = (None \<notin> set (m_delegates rhs))"
| "quiet (Move_from rhs) = (None \<notin> set (m_delegates rhs))"
| "quiet op = True"

inductive broadcast_step :: "object set \<Rightarrow> 'r broadcasting \<Rightarrow> 'r broadcasting \<Rightarrow> bool" for live where
  edits: "may_edit (activations s) \<Longrightarrow> quiet op \<Longrightarrow>
    broadcast_step live s (s\<lparr>container := apply_edit live op (container s)\<rparr>)"
| begins: "may_edit (activations s) \<Longrightarrow> broadcast_step live s (broadcast_begin s)"
| visits: "activations s = a # as \<Longrightarrow> \<not> in_call a \<Longrightarrow> it a < Multicast_Size (container s) \<Longrightarrow>
    broadcast_step live s (s\<lparr>activations := visit (container s) a # as\<rparr>)"
| returns: "activations s = a # as \<Longrightarrow> in_call a \<Longrightarrow> broadcast_step live s (s\<lparr>activations := call_returned a # as\<rparr>)"
| ends: "activations s = a # as \<Longrightarrow> \<not> in_call a \<Longrightarrow> it a = Multicast_Size (container s) \<Longrightarrow>
    broadcast_step live s (s\<lparr>container := guard_leave (container s), activations := as\<rparr>)"

inductive broadcast_reachable :: "object set \<Rightarrow> 'r broadcasting \<Rightarrow> bool" for live where
  fresh: "broadcast_reachable live \<lparr>container = MulticastDelegate, activations = []\<rparr>"
| step: "broadcast_reachable live s \<Longrightarrow> broadcast_step live s s' \<Longrightarrow> broadcast_reachable live s'"

text \<open>While a broadcast is in progress an edit keeps every node in place and at most nulls it.\<close>

definition kept :: "'r delegate option list \<Rightarrow> 'r delegate option list \<Rightarrow> bool" where
  "kept xs ys \<longleftrightarrow> length xs \<le> length ys \<and> (\<forall>i < length xs. ys ! i = xs ! i \<or> ys ! i = None)"

lemma kept_refl: "kept xs xs"
  by (simp add: kept_def)

lemma kept_null: "kept xs (xs[i := None])"
  by (cases "i < length xs") (auto simp: kept_def nth_list_update)

lemma edit_keeps:
  assumes "0 < m_broadcastCount c"
  shows "kept (m_delegates c) (m_delegates (apply_edit live op c))"
    and "m_broadcastCount (apply_edit live op c) = m_broadcastCount c"
proof -
  have "kept (m_delegates c) (m_delegates (apply_edit live op c))
    \<and> m_broadcastCount (apply_edit live op c) = m_broadcastCount c"
  proof (cases op)
    case (Remove_equal d)
    then show ?thesis using assms by (auto simp: MulticastRemove_def kept_null kept_refl split: option.split)
  qed (use assms in \<open>auto simp: kept_def edit_defs nth_append\<close>)
  then show "kept (m_delegates c) (m_delegates (apply_edit live op c))"
    "m_broadcastCount (apply_edit live op c) = m_broadcastCount c" by simp_all
qed

text \<open>Nulls are only there while a broadcast is in progress that will purge them.\<close>

definition nulls_ok :: "'r multicast \<Rightarrow> bool" where
  "nulls_ok c \<longleftrightarrow> (None \<in> set (m_delegates c) \<longrightarrow> 0 < m_broadcastCount c \<and> m_cleanup c)
     \<and> (m_cleanup c \<longrightarrow> 0 < m_broadcastCount c)"

lemma edit_nulls:
  assumes "nulls_ok c" and "quiet op"
  shows "nulls_ok (apply_edit live op c)"
proof (cases op)
  case (Remove_equal d)
  then show ?thesis using assms
    by (auto simp: nulls_ok_def MulticastRemove_def dest: set_update_subset_insert [THEN subsetD] in_set_takeD in_set_dropD
        split: option.split)
qed (use assms in \<open>auto simp: nulls_ok_def edit_defs\<close>)

text \<open>An activation has called each delegate it has passed unless it was nulled, in order and once.\<close>

definition reached :: "'r activation \<Rightarrow> nat" where
  "reached a = it a + (if in_call a then 1 else 0)"

definition activation_ok :: "'r delegate option list \<Rightarrow> 'r activation \<Rightarrow> bool" where
  "activation_ok xs a \<longleftrightarrow> reached a \<le> length xs \<and> sorted_wrt (<) (map fst (called a))
     \<and> (\<forall>j d. (j, d) \<in> set (called a) \<longrightarrow> j < reached a \<and> (xs ! j = Some d \<or> xs ! j = None))
     \<and> (\<forall>j < reached a. j \<notin> fst ` set (called a) \<longrightarrow> xs ! j = None)"

lemma activation_kept:
  assumes "activation_ok xs a" and "kept xs ys"
  shows "activation_ok ys a"
proof -
  have same: "ys ! j = xs ! j \<or> ys ! j = None" if "j < reached a" for j
    using that assms by (simp add: activation_ok_def kept_def)
  have "j < reached a \<and> (ys ! j = Some d \<or> ys ! j = None)" if "(j, d) \<in> set (called a)" for j d
    using that assms(1) same [of j] unfolding activation_ok_def by metis
  moreover have "ys ! j = None" if "j < reached a" "j \<notin> fst ` set (called a)" for j
    using that assms(1) same [of j] unfolding activation_ok_def by metis
  moreover have "reached a \<le> length ys" "sorted_wrt (<) (map fst (called a))"
    using assms by (simp_all add: activation_ok_def kept_def)
  ultimately show ?thesis by (simp add: activation_ok_def)
qed

lemma activation_fresh: "activation_ok xs \<lparr>it = 0, in_call = False, called = []\<rparr>"
  by (simp add: activation_ok_def reached_def)

lemma activation_visit:
  assumes "activation_ok (m_delegates c) a" and "\<not> in_call a" and "it a < length (m_delegates c)"
  shows "activation_ok (m_delegates c) (visit c a)"
proof (cases "m_delegates c ! it a")
  case None
  then show ?thesis using assms by (auto simp: activation_ok_def visit_def reached_def less_Suc_eq)
next
  case (Some d)
  have "\<forall>j \<in> fst ` set (called a). j < it a" using assms(1,2) by (auto simp: activation_ok_def reached_def)
  then show ?thesis using assms Some
    by (auto simp: activation_ok_def visit_def reached_def sorted_wrt_append less_Suc_eq)
qed

lemma activation_return: "activation_ok xs a \<Longrightarrow> in_call a \<Longrightarrow> activation_ok xs (call_returned a)"
  by (simp add: activation_ok_def call_returned_def reached_def)

definition broadcast_inv :: "'r broadcasting \<Rightarrow> bool" where
  "broadcast_inv s \<longleftrightarrow> m_broadcastCount (container s) = length (activations s)
     \<and> nulls_ok (container s)
     \<and> (\<forall>a \<in> set (activations s). activation_ok (m_delegates (container s)) a)
     \<and> (\<forall>a \<in> set (tl (activations s)). in_call a)"

lemma broadcast_inv_step:
  assumes "broadcast_step live s s'" and "broadcast_inv s"
  shows "broadcast_inv s'"
  using assms(1)
proof cases
  case (edits op)
  have n: "nulls_ok (apply_edit live op (container s))"
    using assms(2) edits(3) by (auto simp: broadcast_inv_def intro: edit_nulls)
  show ?thesis
  proof (cases "activations s")
    case Nil
    have "m_broadcastCount (apply_edit live op (container s)) = m_broadcastCount (container s)"
      by (cases op) (auto simp: edit_defs split: option.split)
    then show ?thesis using Nil n assms(2) edits(1) by (simp add: broadcast_inv_def)
  next
    case (Cons a as)
    then have pos: "0 < m_broadcastCount (container s)" using assms(2) by (simp add: broadcast_inv_def)
    show ?thesis
      using edit_keeps [OF pos, of live op] n assms(2) edits(1)
      by (auto simp: broadcast_inv_def intro: activation_kept)
  qed
next
  case begins
  then show ?thesis using assms(2)
    by (auto simp: broadcast_inv_def broadcast_begin_def guard_enter_def nulls_ok_def activation_fresh may_edit_def
        split: list.splits)
next
  case (visits a as)
  then show ?thesis using assms(2) by (auto simp: broadcast_inv_def Multicast_Size_def intro: activation_visit)
next
  case (returns a as)
  then show ?thesis using assms(2) by (auto simp: broadcast_inv_def intro: activation_return)
next
  case (ends a as)
  show ?thesis
  proof (cases as)
    case Nil
    then show ?thesis using ends assms(2)
      by (auto simp: broadcast_inv_def guard_leave_def nulls_ok_def Let_def)
  next
    case (Cons b bs)
    then show ?thesis using ends assms(2)
      by (auto simp: broadcast_inv_def guard_leave_def nulls_ok_def Let_def)
  qed
qed

lemma broadcast_reachable_inv: "broadcast_reachable live s \<Longrightarrow> broadcast_inv s"
proof (induction rule: broadcast_reachable.induct)
  case fresh
  then show ?case by (simp add: broadcast_inv_def MulticastDelegate_def nulls_ok_def)
qed (rule broadcast_inv_step)

section \<open>The thread-safe container\<close>

text \<open>\<^verbatim>\<open>MulticastDelegateSafe\<close> makes every operation one critical section and calls a copy of
  the list, taken under the lock: in the array of the stack frame if it is small enough.\<close>

definition SIGNAL_SBO_COUNT :: nat where "SIGNAL_SBO_COUNT = 8"

record 'd snapshot =
  snap_count :: nat
  small_buf :: "'d option list"
  large_buf :: "'d option list"

definition take_snapshot :: "'d option list \<Rightarrow> 'd snapshot" where
  "take_snapshot ds =
     (if length ds \<le> SIGNAL_SBO_COUNT
      then \<lparr>snap_count = length ds, small_buf = ds @ replicate (SIGNAL_SBO_COUNT - length ds) None, large_buf = []\<rparr>
      else \<lparr>snap_count = length ds, small_buf = replicate SIGNAL_SBO_COUNT None, large_buf = ds\<rparr>)"

definition call_snapshot :: "'d snapshot \<Rightarrow> 'd list" where
  "call_snapshot s =
     (if snap_count s \<le> SIGNAL_SBO_COUNT
      then map the (filter (\<lambda>d. d \<noteq> None) (take (snap_count s) (small_buf s)))
      else map the (filter (\<lambda>d. d \<noteq> None) (large_buf s)))"

definition Safe_call :: "'r multicast \<Rightarrow> 'r delegate list" where
  "Safe_call c = call_snapshot (take_snapshot (m_delegates c))"

lemma call_take_snapshot: "call_snapshot (take_snapshot ds) = map the (filter (\<lambda>d. d \<noteq> None) ds)"
  by (simp add: call_snapshot_def take_snapshot_def)

section \<open>Properties\<close>

text \<open>
  Whether or not it is being broadcast from, the container is a list of delegates: insertion
  appends a clone, removal takes out the first delegate equal to the given one, clearing and the
  assignments do what they say, the purge at the end of a broadcast is not observable, and the
  thread-safe container calls exactly the delegates of the list in their order.
\<close>

theorem multicast_refines_list:
  "subscribed (apply_edit live op c) = abstract_edit live op (subscribed c)
   \<and> subscribed (guard_enter c) = subscribed c \<and> subscribed (guard_leave c) = subscribed c
   \<and> Safe_call c = subscribed c"
  using edit_refines [of live op c] guards_refine [of c] by (simp add: Safe_call_def call_take_snapshot subscribed_def)

text \<open>
  Called delegates may change the container and call it again in any way: the nesting count is
  right, every iterator stays on the list, and when no broadcast is left no null entry remains.
\<close>

theorem multicast_reentrant_safe:
  assumes "broadcast_reachable live s"
  shows "m_broadcastCount (container s) = length (activations s)
    \<and> \<not> (\<exists>a \<in> set (activations s). Multicast_Size (container s) < reached a)
    \<and> (if activations s = [] then Multicast_Size (container s) = length (subscribed (container s)) else True)"
proof -
  have inv: "broadcast_inv s" using assms by (rule broadcast_reachable_inv)
  have "Multicast_Size (container s) = length (subscribed (container s))" if "activations s = []"
  proof -
    have "None \<notin> set (m_delegates (container s))" using inv that by (auto simp: broadcast_inv_def nulls_ok_def)
    then have "filter (\<lambda>d. d \<noteq> None) (m_delegates (container s)) = m_delegates (container s)"
      by (intro filter_eq_self) metis
    then show ?thesis by (simp add: Multicast_Size_def subscribed_def)
  qed
  moreover have "\<not> (\<exists>a \<in> set (activations s). Multicast_Size (container s) < reached a)"
    using inv by (auto simp: broadcast_inv_def activation_ok_def Multicast_Size_def not_less)
  ultimately show ?thesis using inv by (simp add: broadcast_inv_def)
qed

lemma subscribed_positions:
  "map the (filter (\<lambda>d. d \<noteq> None) xs) = map (\<lambda>j. the (xs ! j)) (filter (\<lambda>j. xs ! j \<noteq> None) [0..<length xs])"
proof -
  have "filter (\<lambda>d. d \<noteq> None) xs = map ((!) xs) (filter (\<lambda>j. xs ! j \<noteq> None) [0..<length xs])"
    by (subst map_nth [of xs, symmetric]) (simp only: filter_map comp_def)
  then show ?thesis by simp
qed

text \<open>
  C32: when a broadcast ends it has called no entry twice and the delegates subscribed by then, in
  their order, are those it has called less those removed since: nothing that stays subscribed is
  missed, even if the broadcast was changed from inside and nested.
\<close>

theorem broadcast_calls_each_once:
  assumes "broadcast_reachable live s" and "activations s = a # as" and "\<not> in_call a"
    and "it a = Multicast_Size (container s)"
  shows "distinct (map fst (called a))
    \<and> subscribed (container s) = map snd (filter (\<lambda>(j, d). m_delegates (container s) ! j \<noteq> None) (called a))"
proof -
  let ?xs = "m_delegates (container s)"
  have ok: "activation_ok ?xs a" "reached a = length ?xs"
    using broadcast_reachable_inv [OF assms(1)] assms(2-4) by (simp_all add: broadcast_inv_def reached_def Multicast_Size_def)
  have sorted: "sorted_wrt (<) (map fst (called a))" using ok(1) by (simp add: activation_ok_def)
  let ?f = "filter (\<lambda>j. ?xs ! j \<noteq> None)"
  have "set (?f (map fst (called a))) = set (?f [0..<length ?xs])"
    using ok unfolding activation_ok_def by fastforce
  then have "?f (map fst (called a)) = ?f [0..<length ?xs]"
    using sorted by (intro strict_sorted_equal sorted_wrt_filter) simp_all
  moreover have "map snd (filter (\<lambda>(j, d). ?xs ! j \<noteq> None) (called a)) = map (\<lambda>j. the (?xs ! j)) (?f (map fst (called a)))"
  proof -
    have "snd x = the (?xs ! fst x)" if x: "x \<in> set (filter (\<lambda>(j, d). ?xs ! j \<noteq> None) (called a))" for x
    proof -
      obtain j d where "x = (j, d)" "(j, d) \<in> set (called a)" "?xs ! j \<noteq> None" using x by auto
      then show ?thesis using ok(1) unfolding activation_ok_def by (metis fst_conv option.sel snd_conv)
    qed
    then have "map snd (filter (\<lambda>(j, d). ?xs ! j \<noteq> None) (called a))
        = map (\<lambda>x. the (?xs ! fst x)) (filter (\<lambda>(j, d). ?xs ! j \<noteq> None) (called a))" by simp
    then show ?thesis by (simp add: filter_map comp_def case_prod_unfold)
  qed
  ultimately have "subscribed (container s) = map snd (filter (\<lambda>(j, d). ?xs ! j \<noteq> None) (called a))"
    by (simp only: subscribed_def subscribed_positions)
  moreover have "distinct (map fst (called a))" using sorted by (simp add: strict_sorted_iff)
  ultimately show ?thesis by simp
qed

text \<open>A broadcast whose first delegate removes the second and subscribes a third.\<close>

definition to_func :: "nat \<Rightarrow> nat delegate" where
  "to_func k = Free \<lparr>free_func = Some k\<rparr>"

definition two_subscribed :: "nat broadcasting" where
  "two_subscribed = \<lparr>container = \<lparr>m_delegates = [Some (to_func 1), Some (to_func 2)], m_broadcastCount = 0,
     m_cleanup = False\<rparr>, activations = []\<rparr>"

definition first_called :: "nat broadcasting" where
  "first_called = \<lparr>container = \<lparr>m_delegates = [Some (to_func 1), None, Some (to_func 3)], m_broadcastCount = 1,
     m_cleanup = True\<rparr>, activations = [\<lparr>it = 0, in_call = True, called = [(0, to_func 1)]\<rparr>]\<rparr>"

definition about_to_end :: "nat broadcasting" where
  "about_to_end = \<lparr>container = \<lparr>m_delegates = [Some (to_func 1), None, Some (to_func 3)], m_broadcastCount = 1,
     m_cleanup = True\<rparr>, activations = [\<lparr>it = 3, in_call = False, called = [(0, to_func 1), (2, to_func 3)]\<rparr>]\<rparr>"

lemmas demo_defs = two_subscribed_def first_called_def about_to_end_def to_func_def broadcast_begin_def guard_enter_def
  visit_def call_returned_def edit_defs matches_def DelegateFree_Equal_def DelegateFree_Assign_def DelegateFree_def
  MulticastDelegate_def may_edit_def Multicast_Size_def numeral_eq_Suc

lemma two_subscribed_reachable: "broadcast_reachable live two_subscribed"
proof -
  have 1: "broadcast_reachable live ((\<lparr>container = MulticastDelegate, activations = []\<rparr> :: nat broadcasting)
      \<lparr>container := apply_edit live (Push (to_func 1)) MulticastDelegate\<rparr>)" (is "broadcast_reachable live ?s1")
    using broadcast_reachable.step [OF broadcast_reachable.fresh broadcast_step.edits [of _ "Push (to_func 1)"]]
    by (simp add: may_edit_def)
  have "broadcast_reachable live (?s1\<lparr>container := apply_edit live (Push (to_func 2)) (container ?s1)\<rparr>)"
    by (rule broadcast_reachable.step [OF 1 broadcast_step.edits]) (simp_all add: may_edit_def)
  also have "?s1\<lparr>container := apply_edit live (Push (to_func 2)) (container ?s1)\<rparr> = two_subscribed"
    by (simp add: demo_defs)
  finally show ?thesis .
qed

lemma first_called_reachable: "broadcast_reachable live first_called"
proof -
  let ?s1 = "broadcast_begin two_subscribed"
  let ?s2 = "?s1\<lparr>activations := visit (container ?s1) (hd (activations ?s1)) # tl (activations ?s1)\<rparr>"
  let ?s3 = "?s2\<lparr>container := apply_edit live (Remove_equal (to_func 2)) (container ?s2)\<rparr>"
  let ?s4 = "?s3\<lparr>container := apply_edit live (Push (to_func 3)) (container ?s3)\<rparr>"
  have "broadcast_reachable live ?s1"
    by (rule broadcast_reachable.step [OF two_subscribed_reachable broadcast_step.begins]) (simp add: demo_defs)
  then have "broadcast_reachable live ?s2"
    by (rule broadcast_reachable.step, intro broadcast_step.visits) (simp_all add: demo_defs)
  then have "broadcast_reachable live ?s3"
    by (rule broadcast_reachable.step, intro broadcast_step.edits) (simp_all add: demo_defs)
  then have "broadcast_reachable live ?s4"
    by (rule broadcast_reachable.step, intro broadcast_step.edits) (simp_all add: demo_defs)
  also have "?s4 = first_called" by (simp add: demo_defs)
  finally show ?thesis .
qed

lemma about_to_end_reachable: "broadcast_reachable live about_to_end"
proof -
  let ?s1 = "first_called\<lparr>activations := [call_returned (hd (activations first_called))]\<rparr>"
  let ?s2 = "?s1\<lparr>activations := [visit (container ?s1) (hd (activations ?s1))]\<rparr>"
  let ?s3 = "?s2\<lparr>activations := [visit (container ?s2) (hd (activations ?s2))]\<rparr>"
  let ?s4 = "?s3\<lparr>activations := [call_returned (hd (activations ?s3))]\<rparr>"
  have "broadcast_reachable live ?s1"
    by (rule broadcast_reachable.step [OF first_called_reachable], intro broadcast_step.returns)
      (simp_all add: demo_defs)
  then have "broadcast_reachable live ?s2"
    by (rule broadcast_reachable.step, intro broadcast_step.visits) (simp_all add: demo_defs)
  then have "broadcast_reachable live ?s3"
    by (rule broadcast_reachable.step, intro broadcast_step.visits) (simp_all add: demo_defs)
  then have "broadcast_reachable live ?s4"
    by (rule broadcast_reachable.step, intro broadcast_step.returns) (simp_all add: demo_defs)
  also have "?s4 = about_to_end" by (simp add: demo_defs)
  finally show ?thesis .
qed

lemma multicast_reentrant_safe_witness:
  "m_broadcastCount (container first_called) = length (activations first_called)
    \<and> \<not> (\<exists>a \<in> set (activations first_called). Multicast_Size (container first_called) < reached a)
    \<and> (if activations first_called = [] then Multicast_Size (container first_called) = length (subscribed (container first_called)) else True)"
  by (rule multicast_reentrant_safe [OF first_called_reachable])

lemma broadcast_calls_each_once_witness:
  "distinct (map fst (called (hd (activations about_to_end))))
    \<and> subscribed (container about_to_end) = map snd (filter (\<lambda>(j, d). m_delegates (container about_to_end) ! j \<noteq> None)
        (called (hd (activations about_to_end))))"
  by (rule broadcast_calls_each_once [OF about_to_end_reachable, where as = "[]"])
    (simp_all add: about_to_end_def Multicast_Size_def)

text \<open>
  Because a synchronous delegate is equal to an asynchronous one of the same function, removing
  the asynchronous subscription of a function that is also subscribed synchronously before it
  removes the synchronous one and keeps the other.
\<close>

theorem remove_async_takes_sync:
  fixes d a :: "'r delegate" and f :: "func option" and t :: nat
  defines "d \<equiv> Free (DelegateFree_Bind f DelegateFree)"
    and "a \<equiv> FreeAsync (DelegateFreeAsync_Bind f t (Async_default DelegateFree))"
  shows "subscribed (apply_edit live (Remove_equal a) (apply_edit live (Push a) (apply_edit live (Push d) MulticastDelegate))) = [a]"
  unfolding edit_refines abstract_edit.simps
  by (simp add: d_def a_def subscribed_def MulticastDelegate_def DelegateFreeAsync_Bind_def Async_Bind_def
      DelegateFree_Bind_def DelegateFree_Equal_def Async_default_def Async_copy_def DelegateFree_Assign_def DelegateFree_def)

text \<open>Move assignment asks whether its own container is being broadcast from, not whether the
  other one is: the iterator of the other container's broadcast is left without a list.\<close>

lemma move_from_broadcasting:
  "Multicast_Size (snd (move_assign (container first_called) MulticastDelegate)) < reached (hd (activations first_called))"
  by (simp add: move_assign_def Multicast_Size_def first_called_def reached_def)

end
