(* ===== verification/Signals.thy ===== *)
theory Signals
  imports Multicast
begin

text \<open>
  \<^verbatim>\<open>delegate/Signal.h\<close>: a signal, its subscribers and the connection handles its clients hold. The
  list of subscribers is in a shared state block that outlives the signal as long as a connection
  refers to it; a slot of the list is identified by the delegate copy made when it was connected,
  here by a number. \<open>signal_world\<close> holds the blocks, one signal and the handles of its clients.
\<close>

section \<open>Signal and connections\<close>

record 'd SignalState =
  alive :: bool
  slots :: "(nat \<times> 'd) list"

text \<open>A connection refers to a block and a slot (\<^verbatim>\<open>m_ctx1\<close>, \<^verbatim>\<open>m_ctx2\<close>).\<close>

record Connection =
  m_ctx :: "(nat \<times> nat) option"
  m_connected :: bool

record 'd signal_world =
  blocks_of :: "nat \<Rightarrow> 'd SignalState"
  m_state :: nat
  handles :: "nat \<Rightarrow> Connection"
  next_block :: nat
  next_slot :: nat

definition SignalState :: "'d SignalState" where
  "SignalState = \<lparr>alive = True, slots = []\<rparr>"

definition Connection :: Connection where
  "Connection = \<lparr>m_ctx = None, m_connected = False\<rparr>"

definition Signal_new :: "'d signal_world" where
  "Signal_new = \<lparr>blocks_of = \<lambda>_. SignalState, m_state = 0, handles = \<lambda>_. Connection, next_block = 1, next_slot = 0\<rparr>"

text \<open>\<^verbatim>\<open>SignalDisconnectImpl\<close> removes the slot from its block if that is still alive.\<close>

definition SignalDisconnectImpl :: "nat \<Rightarrow> nat \<Rightarrow> 'd signal_world \<Rightarrow> 'd signal_world" where
  "SignalDisconnectImpl b k w =
     (if alive (blocks_of w b)
      then w\<lparr>blocks_of := (blocks_of w)(b := (blocks_of w b)\<lparr>slots := filter (\<lambda>s. fst s \<noteq> k) (slots (blocks_of w b))\<rparr>)\<rparr>
      else w)"

definition Disconnect :: "Connection \<Rightarrow> 'd signal_world \<Rightarrow> Connection \<times> 'd signal_world" where
  "Disconnect c w =
     (if \<not> m_connected c then (c, w)
      else (Connection, case m_ctx c of None \<Rightarrow> w | Some (b, k) \<Rightarrow> SignalDisconnectImpl b k w))"

definition Connection_move :: "Connection \<Rightarrow> Connection \<times> Connection" where
  "Connection_move other = (other, other\<lparr>m_ctx := None, m_connected := False\<rparr>)"

text \<open>Move assignment to the handle \<open>h\<close>: its own connection is disconnected first.\<close>

definition Connection_move_assign :: "Connection \<Rightarrow> nat \<Rightarrow> 'd signal_world \<Rightarrow> Connection \<times> 'd signal_world" where
  "Connection_move_assign other h w =
     (let (_, w1) = Disconnect (handles w h) w;
          (new, old) = Connection_move other
      in (old, w1\<lparr>handles := (handles w1)(h := new)\<rparr>))"

definition SignalConnect :: "'d \<Rightarrow> 'd signal_world \<Rightarrow> Connection \<times> 'd signal_world" where
  "SignalConnect copy w =
     (let b = m_state w; k = next_slot w in
      (\<lparr>m_ctx = Some (b, k), m_connected = True\<rparr>,
       w\<lparr>blocks_of := (blocks_of w)(b := (blocks_of w b)\<lparr>slots := slots (blocks_of w b) @ [(k, copy)]\<rparr>),
         next_slot := Suc k\<rparr>))"

definition SignalGetSnapshot :: "'d signal_world \<Rightarrow> 'd snapshot" where
  "SignalGetSnapshot w = take_snapshot (map (\<lambda>s. Some (snd s)) (slots (blocks_of w (m_state w))))"

text \<open>Calling the signal: the delegates of a snapshot, called after the lock is released.\<close>

definition Signal_call :: "'d signal_world \<Rightarrow> 'd list" where
  "Signal_call w = call_snapshot (SignalGetSnapshot w)"

definition SignalSize :: "'d signal_world \<Rightarrow> nat" where
  "SignalSize w = length (slots (blocks_of w (m_state w)))"

definition SignalClear :: "'d signal_world \<Rightarrow> 'd signal_world" where
  "SignalClear w =
     (let oldState = m_state w;
          w1 = w\<lparr>m_state := next_block w, blocks_of := (blocks_of w)(next_block w := SignalState),
                next_block := Suc (next_block w)\<rparr>
      in w1\<lparr>blocks_of := (blocks_of w1)(oldState := \<lparr>alive = False, slots = []\<rparr>)\<rparr>)"

definition SignalMarkDead :: "'d signal_world \<Rightarrow> 'd signal_world" where
  "SignalMarkDead w = w\<lparr>blocks_of := (blocks_of w)(m_state w := \<lparr>alive = False, slots = []\<rparr>)\<rparr>"

section \<open>What clients do\<close>

text \<open>\<^verbatim>\<open>conn = signal.Connect(d)\<close> into the handle \<open>h\<close>, disconnecting or destroying a handle, moving
  one handle to another, clearing the signal. Destroying the signal is the last thing done to it;
  its clients' handles live on.\<close>

datatype 'd client_op = Connect_to nat 'd | Disconnect_handle nat | Move_handle nat nat | Clear_signal | Destroy_signal

fun client :: "'d client_op \<Rightarrow> 'd signal_world \<Rightarrow> 'd signal_world" where
  "client (Connect_to h d) w = (let (c, w1) = SignalConnect d w in snd (Connection_move_assign c h w1))"
| "client (Disconnect_handle h) w = (let (c, w1) = Disconnect (handles w h) w in w1\<lparr>handles := (handles w1)(h := c)\<rparr>)"
| "client (Move_handle g h) w =
     (if g = h then w
      else let (c, w1) = Connection_move_assign (handles w g) h w in w1\<lparr>handles := (handles w1)(g := c)\<rparr>)"
| "client Clear_signal w = SignalClear w"
| "client Destroy_signal w = SignalMarkDead w"

text \<open>The contract: subscriptions in the order they were made, each owned by the handle it was
  assigned to, ended with that handle.\<close>

record 'd subscriptions =
  subs :: "(nat \<times> 'd) list"
  owned :: "nat \<Rightarrow> nat option"
  next_sub :: nat

definition no_subscriptions :: "'d subscriptions" where
  "no_subscriptions = \<lparr>subs = [], owned = \<lambda>_. None, next_sub = 0\<rparr>"

definition unsubscribe :: "nat option \<Rightarrow> 'd subscriptions \<Rightarrow> 'd subscriptions" where
  "unsubscribe k a = a\<lparr>subs := filter (\<lambda>s. Some (fst s) \<noteq> k) (subs a)\<rparr>"

fun abstract_client :: "'d client_op \<Rightarrow> 'd subscriptions \<Rightarrow> 'd subscriptions" where
  "abstract_client (Connect_to h d) a =
     unsubscribe (owned a h) (a\<lparr>subs := subs a @ [(next_sub a, d)], owned := (owned a)(h \<mapsto> next_sub a),
       next_sub := Suc (next_sub a)\<rparr>)"
| "abstract_client (Disconnect_handle h) a = unsubscribe (owned a h) (a\<lparr>owned := (owned a)(h := None)\<rparr>)"
| "abstract_client (Move_handle g h) a =
     (if g = h then a
      else unsubscribe (owned a h) (a\<lparr>owned := (owned a)(h := owned a g, g := None)\<rparr>))"
| "abstract_client Clear_signal a = a\<lparr>subs := []\<rparr>"
| "abstract_client Destroy_signal a = a\<lparr>subs := []\<rparr>"

text \<open>A use of the signal: no connecting or clearing after it was destroyed.\<close>

fun orderly :: "bool \<Rightarrow> 'd client_op list \<Rightarrow> bool" where
  "orderly gone [] = True"
| "orderly gone (Connect_to h d # ops) = (\<not> gone \<and> orderly gone ops)"
| "orderly gone (Clear_signal # ops) = (\<not> gone \<and> orderly gone ops)"
| "orderly gone (Destroy_signal # ops) = (\<not> gone \<and> orderly True ops)"
| "orderly gone (op # ops) = orderly gone ops"

definition slot_ok :: "'d signal_world \<Rightarrow> 'd subscriptions \<Rightarrow> Connection \<Rightarrow> nat option \<Rightarrow> bool" where
  "slot_ok w a c owner \<longleftrightarrow>
     (if m_connected c
      then (case m_ctx c of
              None \<Rightarrow> False
            | Some (b, k) \<Rightarrow> owner = Some k \<and> b < next_block w \<and> k < next_sub a
                \<and> (b = m_state w \<or> \<not> alive (blocks_of w b) \<and> k \<notin> fst ` set (subs a)))
      else owner = None)"

definition handle_ok :: "'d signal_world \<Rightarrow> 'd subscriptions \<Rightarrow> nat \<Rightarrow> bool" where
  "handle_ok w a h \<longleftrightarrow> slot_ok w a (handles w h) (owned a h)"

lemma slot_ok_frame [simp]:
  "slot_ok (w\<lparr>handles := f\<rparr>) a c k = slot_ok w a c k" "slot_ok w (a\<lparr>owned := g\<rparr>) c k = slot_ok w a c k"
  by (simp_all add: slot_ok_def split: option.split)

definition simulates :: "bool \<Rightarrow> 'd signal_world \<Rightarrow> 'd subscriptions \<Rightarrow> bool" where
  "simulates gone w a \<longleftrightarrow>
     slots (blocks_of w (m_state w)) = subs a \<and> alive (blocks_of w (m_state w)) = (\<not> gone)
     \<and> (gone \<longrightarrow> subs a = []) \<and> m_state w < next_block w \<and> next_slot w = next_sub a
     \<and> (\<forall>s \<in> set (subs a). fst s < next_sub a) \<and> (\<forall>h. handle_ok w a h)"

lemma simulates_new: "simulates False Signal_new no_subscriptions"
  by (simp add: simulates_def Signal_new_def no_subscriptions_def SignalState_def handle_ok_def slot_ok_def Connection_def)

section \<open>Simulation\<close>

lemma simulates_disconnect:
  assumes "simulates gone w a"
  shows "simulates gone (snd (Disconnect (handles w h) w)) (unsubscribe (owned a h) a)"
    and "handles (snd (Disconnect (handles w h) w)) = handles w"
    and "m_state (snd (Disconnect (handles w h) w)) = m_state w"
    and "next_slot (snd (Disconnect (handles w h) w)) = next_slot w"
proof -
  have ok: "handle_ok w a h" using assms by (simp add: simulates_def)
  have none: "unsubscribe None a = a" by (simp add: unsubscribe_def)
  show "handles (snd (Disconnect (handles w h) w)) = handles w"
    "m_state (snd (Disconnect (handles w h) w)) = m_state w"
    "next_slot (snd (Disconnect (handles w h) w)) = next_slot w"
    by (auto simp: Disconnect_def SignalDisconnectImpl_def split: option.splits)
  show "simulates gone (snd (Disconnect (handles w h) w)) (unsubscribe (owned a h) a)"
  proof (cases "m_connected (handles w h)")
    case False
    then show ?thesis using ok assms none by (simp add: handle_ok_def slot_ok_def Disconnect_def)
  next
    case True
    then obtain b k where c: "m_ctx (handles w h) = Some (b, k)" "owned a h = Some k"
      "b = m_state w \<or> \<not> alive (blocks_of w b) \<and> k \<notin> fst ` set (subs a)"
      using ok by (auto simp: handle_ok_def slot_ok_def split: option.splits)
    let ?w = "SignalDisconnectImpl b k w" and ?a = "unsubscribe (Some k) a"
    have w: "snd (Disconnect (handles w h) w) = ?w" using True c(1) by (simp add: Disconnect_def)
    have alive: "alive (blocks_of ?w x) = alive (blocks_of w x)" for x by (simp add: SignalDisconnectImpl_def)
    have frame: "handles ?w = handles w" "next_block ?w = next_block w" "m_state ?w = m_state w" "next_slot ?w = next_slot w"
      "owned ?a = owned a" "next_sub ?a = next_sub a" "set (subs ?a) \<subseteq> set (subs a)"
      by (auto simp: SignalDisconnectImpl_def unsubscribe_def)
    have "slots (blocks_of ?w (m_state w)) = subs ?a"
    proof (cases "b = m_state w \<and> \<not> gone")
      case True
      then show ?thesis using assms by (auto simp: SignalDisconnectImpl_def unsubscribe_def simulates_def)
    next
      case False
      then have "filter (\<lambda>s. Some (fst s) \<noteq> Some k) (subs a) = subs a"
        using c(3) assms by (intro filter_eq_self) (auto simp: simulates_def)
      then show ?thesis using False c(3) assms by (auto simp: SignalDisconnectImpl_def unsubscribe_def simulates_def)
    qed
    moreover have "handle_ok ?w ?a x" for x
    proof -
      have "handle_ok w a x" using assms by (simp add: simulates_def)
      then show ?thesis using frame(7) unfolding handle_ok_def slot_ok_def frame(1-6) alive by (auto split: if_splits option.splits)
    qed
    moreover have "subs a = [] \<Longrightarrow> subs ?a = []" by (simp add: unsubscribe_def)
    ultimately show ?thesis using assms frame(7) unfolding w c(2) simulates_def frame(1-6) alive by blast
  qed
qed

lemma simulates_assign_handle:
  assumes "simulates gone w a" and "handle_ok (w\<lparr>handles := (handles w)(h := c)\<rparr>) (a\<lparr>owned := (owned a)(h := k)\<rparr>) h"
  shows "simulates gone (w\<lparr>handles := (handles w)(h := c)\<rparr>) (a\<lparr>owned := (owned a)(h := k)\<rparr>)"
proof -
  have "handle_ok (w\<lparr>handles := (handles w)(h := c)\<rparr>) (a\<lparr>owned := (owned a)(h := k)\<rparr>) x" for x
    using assms by (cases "x = h") (auto simp: simulates_def handle_ok_def)
  then show ?thesis using assms(1) by (simp add: simulates_def)
qed

lemma unsubscribe_owned: "unsubscribe k (a\<lparr>owned := f\<rparr>) = (unsubscribe k a)\<lparr>owned := f\<rparr>"
  by (simp add: unsubscribe_def)

lemma owned_unsubscribe [simp]: "owned (unsubscribe k a) = owned a"
  by (simp add: unsubscribe_def)

lemma simulates_forget:
  "simulates gone w a \<Longrightarrow> \<not> m_connected c \<Longrightarrow>
    simulates gone (w\<lparr>handles := (handles w)(h := c)\<rparr>) (a\<lparr>owned := (owned a)(h := None)\<rparr>)"
  by (rule simulates_assign_handle) (simp_all add: handle_ok_def slot_ok_def)

lemma simulates_connect:
  assumes "simulates False w a"
  shows "simulates False (snd (SignalConnect d w)) (a\<lparr>subs := subs a @ [(next_sub a, d)], next_sub := Suc (next_sub a)\<rparr>)"
proof -
  let ?w = "snd (SignalConnect d w)" and ?a = "a\<lparr>subs := subs a @ [(next_sub a, d)], next_sub := Suc (next_sub a)\<rparr>"
  have "handle_ok ?w ?a x" for x
  proof -
    have "handle_ok w a x" using assms by (simp add: simulates_def)
    then show ?thesis by (auto simp: handle_ok_def slot_ok_def SignalConnect_def Let_def split: if_splits option.splits)
  qed
  then show ?thesis using assms by (auto simp: simulates_def SignalConnect_def Let_def less_Suc_eq)
qed

lemma simulates_clear:
  assumes "simulates False w a"
  shows "simulates False (SignalClear w) (a\<lparr>subs := []\<rparr>)"
proof -
  have "handle_ok (SignalClear w) (a\<lparr>subs := []\<rparr>) x" for x
  proof -
    have "handle_ok w a x" "m_state w < next_block w" using assms by (simp_all add: simulates_def)
    then show ?thesis by (auto simp: handle_ok_def slot_ok_def SignalClear_def SignalState_def Let_def split: if_splits option.splits)
  qed
  then show ?thesis using assms by (auto simp: simulates_def SignalClear_def SignalState_def Let_def)
qed

lemma simulates_destroy:
  assumes "simulates False w a"
  shows "simulates True (SignalMarkDead w) (a\<lparr>subs := []\<rparr>)"
proof -
  have "handle_ok (SignalMarkDead w) (a\<lparr>subs := []\<rparr>) x" for x
  proof -
    have "handle_ok w a x" using assms by (simp add: simulates_def)
    then show ?thesis by (auto simp: handle_ok_def slot_ok_def SignalMarkDead_def split: if_splits option.splits)
  qed
  then show ?thesis using assms by (auto simp: simulates_def SignalMarkDead_def)
qed

lemma simulates_connect_to:
  assumes "simulates False w a"
  shows "simulates False (client (Connect_to h d) w) (abstract_client (Connect_to h d) a)"
proof -
  define a' where "a' = a\<lparr>subs := subs a @ [(next_sub a, d)], next_sub := Suc (next_sub a)\<rparr>"
  define w' where "w' = snd (SignalConnect d w)"
  define c where "c = fst (SignalConnect d w)"
  have "next_slot w = next_sub a" using assms by (simp add: simulates_def)
  then have w': "handles w' = handles w" "m_state w' = m_state w" "owned a' = owned a"
    "next_sub a' = Suc (next_sub a)" "m_connected c" "m_ctx c = Some (m_state w, next_sub a)"
    by (simp_all add: w'_def a'_def c_def SignalConnect_def Let_def)
  have sim: "simulates False w' a'" unfolding w'_def a'_def by (rule simulates_connect [OF assms])
  define w1 where "w1 = snd (Disconnect (handles w' h) w')"
  define a1 where "a1 = unsubscribe (owned a h) a'"
  have 1: "simulates False w1 a1" "handles w1 = handles w" "m_state w1 = m_state w" "owned a1 = owned a"
    "next_sub a1 = Suc (next_sub a)"
    using simulates_disconnect [OF sim, of h] w' by (simp_all add: w1_def a1_def unsubscribe_def)
  have "simulates False (w1\<lparr>handles := (handles w1)(h := c)\<rparr>) (a1\<lparr>owned := (owned a1)(h := Some (next_sub a))\<rparr>)"
    using 1 w'(5,6) by (intro simulates_assign_handle) (simp_all add: handle_ok_def slot_ok_def simulates_def)
  moreover have "client (Connect_to h d) w = w1\<lparr>handles := (handles w1)(h := c)\<rparr>"
    using w'(1) by (simp add: w1_def w'_def c_def Connection_move_assign_def Connection_move_def case_prod_unfold Let_def)
  moreover have "abstract_client (Connect_to h d) a = a1\<lparr>owned := (owned a1)(h := Some (next_sub a))\<rparr>"
    by (simp add: a1_def a'_def unsubscribe_def)
  ultimately show ?thesis by simp
qed

lemma simulates_move:
  assumes "simulates gone w a"
  shows "simulates gone (client (Move_handle g h) w) (abstract_client (Move_handle g h) a)"
proof (cases "g = h")
  case False
  define w1 where "w1 = snd (Disconnect (handles w h) w)"
  define a1 where "a1 = unsubscribe (owned a h) a"
  have 1: "simulates gone w1 a1" "handles w1 = handles w" "owned a1 = owned a"
    using simulates_disconnect [OF assms, of h] by (simp_all add: w1_def a1_def)
  define w2 where "w2 = w1\<lparr>handles := (handles w1)(h := handles w g)\<rparr>"
  define a2 where "a2 = a1\<lparr>owned := (owned a1)(h := owned a g)\<rparr>"
  have "handle_ok w1 a1 g" using 1(1) by (simp add: simulates_def)
  then have "simulates gone w2 a2"
    unfolding w2_def a2_def using 1(2,3) by (intro simulates_assign_handle [OF 1(1)]) (simp add: handle_ok_def)
  then have "simulates gone (w2\<lparr>handles := (handles w2)(g := (handles w g)\<lparr>m_ctx := None, m_connected := False\<rparr>)\<rparr>)
      (a2\<lparr>owned := (owned a2)(g := None)\<rparr>)"
    by (rule simulates_forget) simp
  moreover have "client (Move_handle g h) w
      = w2\<lparr>handles := (handles w2)(g := (handles w g)\<lparr>m_ctx := None, m_connected := False\<rparr>)\<rparr>"
    using False by (simp add: w2_def w1_def Connection_move_assign_def Connection_move_def case_prod_unfold Let_def)
  moreover have "abstract_client (Move_handle g h) a = a2\<lparr>owned := (owned a2)(g := None)\<rparr>"
    using False by (simp add: a2_def a1_def unsubscribe_def)
  ultimately show ?thesis by simp
qed (use assms in simp)

lemma simulates_disconnect_handle:
  assumes "simulates gone w a"
  shows "simulates gone (client (Disconnect_handle h) w) (abstract_client (Disconnect_handle h) a)"
proof -
  let ?w1 = "snd (Disconnect (handles w h) w)" and ?c = "fst (Disconnect (handles w h) w)"
  have "\<not> m_connected ?c" by (simp add: Disconnect_def Connection_def)
  from simulates_forget [OF simulates_disconnect(1) [OF assms] this, of h h]
  show ?thesis using simulates_disconnect(2) [OF assms, of h] by (simp add: case_prod_unfold Let_def unsubscribe_owned)
qed

lemma simulates_clients:
  "simulates gone w a \<Longrightarrow> orderly gone ops \<Longrightarrow> \<exists>gone'. simulates gone' (fold client ops w) (fold abstract_client ops a)"
proof (induction ops arbitrary: gone w a)
  case Nil
  then show ?case by auto
next
  case (Cons op ops)
  have "\<exists>gone1. orderly gone1 ops \<and> simulates gone1 (client op w) (abstract_client op a)"
  proof (cases op)
    case (Connect_to h d)
    then show ?thesis using Cons.prems simulates_connect_to [of w a h d] by auto
  next
    case (Disconnect_handle h)
    then show ?thesis using Cons.prems simulates_disconnect_handle [of gone w a h] by auto
  next
    case (Move_handle g h)
    then show ?thesis using Cons.prems simulates_move [of gone w a g h] by auto
  next
    case Clear_signal
    then show ?thesis using Cons.prems simulates_clear [of w a] by auto
  next
    case Destroy_signal
    then show ?thesis using Cons.prems simulates_destroy [of w a] by auto
  qed
  then show ?case using Cons.IH by (metis fold_simps(2))
qed

section \<open>Properties\<close>

text \<open>
  C33: whatever its clients do with their handles, connect, disconnect, destroy or move them, before
  or after the signal was cleared or destroyed, a call of the signal calls exactly the subscriptions
  still in force, each once, in the order they were made; a handle that outlives its subscription
  ends nobody else's.
\<close>

theorem signal_calls_subscriptions:
  assumes "orderly False ops"
  shows "Signal_call (fold client ops Signal_new) = map snd (subs (fold abstract_client ops no_subscriptions))
    \<and> SignalSize (fold client ops Signal_new) = length (subs (fold abstract_client ops no_subscriptions))"
proof -
  obtain gone where "simulates gone (fold client ops Signal_new) (fold abstract_client ops no_subscriptions)"
    using simulates_clients [OF simulates_new assms] by blast
  then show ?thesis
    by (simp add: simulates_def Signal_call_def SignalGetSnapshot_def SignalSize_def call_take_snapshot comp_def
        filter_map filter_eq_self)
qed

lemma signal_calls_subscriptions_witness:
  defines "ops \<equiv> [Connect_to 0 ''a'', Connect_to 1 ''b'', Move_handle 0 2, Clear_signal, Connect_to 0 ''c'',
     Connect_to 1 ''d'', Disconnect_handle 2, Disconnect_handle 0]"
  shows "Signal_call (fold client ops Signal_new) = [''d''] \<and> SignalSize (fold client ops Signal_new) = 1"
proof -
  have "subs (fold abstract_client ops no_subscriptions) = [(3, ''d'')]"
    by (simp add: ops_def no_subscriptions_def unsubscribe_def)
  with signal_calls_subscriptions [of ops] show ?thesis by (simp add: ops_def)
qed

end
