(* ===== verification/Unicast.thy ===== *)
theory Unicast
  imports Delegates
begin

text \<open>
  \<^verbatim>\<open>delegate/UnicastDelegate.h\<close> and \<^verbatim>\<open>UnicastDelegateSafe.h\<close>: containers of one delegate. A
  container holds a \<^verbatim>\<open>shared_ptr\<close>, so the model has the delegate objects with their owners'
  count; a list holds what each container points to. The thread-safe container copies the pointer
  before it calls (\<open>UnicastSafeGet\<close>): the calls in progress are owners too. The other operations of
  the thread-safe container are those of its base class under its lock.
\<close>

section \<open>Containers and delegate objects\<close>

record 'r unicasts =
  m_delegate :: "nat option list"
  objects :: "nat \<Rightarrow> 'r delegate option"
  use_count :: "nat \<Rightarrow> nat"
  fresh_object :: nat
  calling :: "nat option list"

definition unicasts_init :: "nat \<Rightarrow> 'r unicasts" where
  "unicasts_init n = \<lparr>m_delegate = replicate n None, objects = (\<lambda>_. None), use_count = (\<lambda>_. 0),
     fresh_object = 0, calling = []\<rparr>"

text \<open>The destructor of a \<^verbatim>\<open>shared_ptr\<close>: the last one destroys the object.\<close>

definition release :: "nat option \<Rightarrow> 'r unicasts \<Rightarrow> 'r unicasts" where
  "release p w =
     (case p of
        None \<Rightarrow> w
      | Some x \<Rightarrow>
          w\<lparr>use_count := (use_count w)(x := use_count w x - 1),
            objects := (if use_count w x = 1 then (objects w)(x := None) else objects w)\<rparr>)"

definition UnicastClone :: "'r delegate \<Rightarrow> 'r unicasts \<Rightarrow> nat \<times> 'r unicasts" where
  "UnicastClone d w =
     (let x = fresh_object w in
      (x, w\<lparr>objects := (objects w)(x := Some (Clone d)), use_count := (use_count w)(x := 1),
            fresh_object := Suc x\<rparr>))"

text \<open>Replacing the pointer of a container releases the old one.\<close>

definition set_delegate :: "nat \<Rightarrow> nat option \<Rightarrow> 'r unicasts \<Rightarrow> 'r unicasts" where
  "set_delegate c p w = release (m_delegate w ! c) (w\<lparr>m_delegate := (m_delegate w)[c := p]\<rparr>)"

definition bound_to :: "'r unicasts \<Rightarrow> nat \<Rightarrow> 'r delegate option" where
  "bound_to w c = (case m_delegate w ! c of None \<Rightarrow> None | Some x \<Rightarrow> objects w x)"

definition Unicast_assign :: "nat \<Rightarrow> 'r delegate \<Rightarrow> 'r unicasts \<Rightarrow> 'r unicasts" where
  "Unicast_assign c d w = (let (x, w1) = UnicastClone d w in set_delegate c (Some x) w1)"

definition Unicast_Clear :: "nat \<Rightarrow> 'r unicasts \<Rightarrow> 'r unicasts" where
  "Unicast_Clear c w = set_delegate c None w"

definition Unicast_copy_assign :: "nat \<Rightarrow> nat \<Rightarrow> 'r unicasts \<Rightarrow> 'r unicasts" where
  "Unicast_copy_assign c rhs w =
     (if c = rhs then w
      else case bound_to w rhs of
             None \<Rightarrow> set_delegate c None w
           | Some d \<Rightarrow> (let (x, w1) = UnicastClone d w in set_delegate c (Some x) w1))"

definition Unicast_move_assign :: "nat \<Rightarrow> nat \<Rightarrow> 'r unicasts \<Rightarrow> 'r unicasts" where
  "Unicast_move_assign c rhs w =
     (if c = rhs then w
      else let p = m_delegate w ! rhs in
           release (m_delegate w ! c) (w\<lparr>m_delegate := (m_delegate w)[rhs := None, c := p]\<rparr>))"

definition Unicast_Empty :: "nat \<Rightarrow> 'r unicasts \<Rightarrow> bool" where
  "Unicast_Empty c w \<longleftrightarrow> m_delegate w ! c = None"

definition Unicast_Size :: "nat \<Rightarrow> 'r unicasts \<Rightarrow> nat" where
  "Unicast_Size c w = (if m_delegate w ! c = None then 0 else 1)"

text \<open>A call of the thread-safe container: the copy of the pointer, the call, the end of the call.\<close>

definition UnicastSafeGet :: "nat \<Rightarrow> 'r unicasts \<Rightarrow> 'r unicasts" where
  "UnicastSafeGet c w =
     (let p = m_delegate w ! c in
      w\<lparr>calling := p # calling w,
        use_count := (case p of None \<Rightarrow> use_count w | Some x \<Rightarrow> (use_count w)(x := use_count w x + 1))\<rparr>)"

definition Unicast_target :: "object set \<Rightarrow> 'a \<Rightarrow> nat option \<Rightarrow> 'r unicasts \<Rightarrow> 'a outcome" where
  "Unicast_target live args p w =
     (case p of
        None \<Rightarrow> Default_value
      | Some x \<Rightarrow> (case objects w x of None \<Rightarrow> Undefined | Some d \<Rightarrow> target_call live args d))"

definition Unicast_return :: "nat \<Rightarrow> 'r unicasts \<Rightarrow> 'r unicasts" where
  "Unicast_return k w =
     (if k < length (calling w)
      then release (calling w ! k) (w\<lparr>calling := take k (calling w) @ drop (Suc k) (calling w)\<rparr>)
      else w)"

section \<open>Runs\<close>

text \<open>
  What threads and called targets do with the containers, in any order: an operation of any
  container, the begin of a call and the end of one of the calls in progress.
\<close>

datatype 'r unicast_op = Bind_to nat "'r delegate" | Reset nat | Copy nat nat | Move nat nat | Enter nat | Leave nat

fun unicast_step :: "'r unicast_op \<Rightarrow> 'r unicasts \<Rightarrow> 'r unicasts" where
  "unicast_step (Bind_to c d) w = Unicast_assign c d w"
| "unicast_step (Reset c) w = Unicast_Clear c w"
| "unicast_step (Copy c rhs) w = Unicast_copy_assign c rhs w"
| "unicast_step (Move c rhs) w = Unicast_move_assign c rhs w"
| "unicast_step (Enter c) w = UnicastSafeGet c w"
| "unicast_step (Leave k) w = Unicast_return k w"

fun names_container :: "nat \<Rightarrow> 'r unicast_op \<Rightarrow> bool" where
  "names_container n (Bind_to c d) = (c < n)"
| "names_container n (Reset c) = (c < n)"
| "names_container n (Copy c rhs) = (c < n \<and> rhs < n)"
| "names_container n (Move c rhs) = (c < n \<and> rhs < n)"
| "names_container n (Enter c) = (c < n)"
| "names_container n (Leave k) = True"

text \<open>The abstract containers: what each is bound to, and what is being called.\<close>

record 'r unicast_spec =
  bound :: "'r delegate option list"
  called :: "'r delegate option list"

fun spec_step :: "'r unicast_op \<Rightarrow> 'r unicast_spec \<Rightarrow> 'r unicast_spec" where
  "spec_step (Bind_to c d) s = s\<lparr>bound := (bound s)[c := Some (Clone d)]\<rparr>"
| "spec_step (Reset c) s = s\<lparr>bound := (bound s)[c := None]\<rparr>"
| "spec_step (Copy c rhs) s =
     (if c = rhs then s else s\<lparr>bound := (bound s)[c := map_option Clone (bound s ! rhs)]\<rparr>)"
| "spec_step (Move c rhs) s =
     (if c = rhs then s else s\<lparr>bound := (bound s)[rhs := None, c := bound s ! rhs]\<rparr>)"
| "spec_step (Enter c) s = s\<lparr>called := bound s ! c # called s\<rparr>"
| "spec_step (Leave k) s = s\<lparr>called := take k (called s) @ drop (Suc k) (called s)\<rparr>"

definition deref :: "'r unicasts \<Rightarrow> nat option \<Rightarrow> 'r delegate option" where
  "deref w p = (case p of None \<Rightarrow> None | Some x \<Rightarrow> objects w x)"

definition abs_unicasts :: "'r unicasts \<Rightarrow> 'r unicast_spec" where
  "abs_unicasts w = \<lparr>bound = map (deref w) (m_delegate w), called = map (deref w) (calling w)\<rparr>"

section \<open>Ownership\<close>

definition owners :: "'r unicasts \<Rightarrow> nat \<Rightarrow> nat" where
  "owners w x = count_list (m_delegate w) (Some x) + count_list (calling w) (Some x)"

text \<open>The counts are right while one more pointer \<open>r\<close> is in the hands of an operation.\<close>

definition held :: "nat option \<Rightarrow> 'r unicasts \<Rightarrow> bool" where
  "held r w \<longleftrightarrow>
     (\<forall>x. use_count w x = owners w x + (if r = Some x then 1 else 0))
     \<and> (\<forall>x. objects w x = None \<longleftrightarrow> use_count w x = 0)
     \<and> (\<forall>x. fresh_object w \<le> x \<longrightarrow> use_count w x = 0)"

lemma count_list_update:
  "c < length xs \<Longrightarrow>
    count_list (xs[c := p]) q + (if xs ! c = q then 1 else 0) = count_list xs q + (if p = q then 1 else 0)"
proof (induction xs arbitrary: c)
  case (Cons y ys)
  show ?case
  proof (cases c)
    case (Suc i)
    then show ?thesis using Cons.IH [of i] Cons.prems by (cases "p = q") (simp_all split: if_splits)
  qed simp
qed simp

lemma owners_pos: "Some x \<in> set (m_delegate w) \<union> set (calling w) \<Longrightarrow> 0 < owners w x"
  by (auto simp: owners_def count_list_0_iff neq0_conv [symmetric] simp del: neq0_conv)

lemma deref_cong: "objects w' = objects w \<Longrightarrow> deref w' = deref w"
  by (simp add: deref_def fun_eq_iff split: option.split)

lemma held_swap:
  assumes "held p w" and "\<And>x. owners w' x + (if q = Some x then 1 else 0) = owners w x + (if p = Some x then 1 else 0)"
    and "use_count w' = use_count w" and "objects w' = objects w" and "fresh_object w' = fresh_object w"
  shows "held q w'"
  using assms(1) unfolding held_def assms(2-) by metis

lemma release_held:
  assumes "held r w"
  shows "held None (release r w)" and "abs_unicasts (release r w) = abs_unicasts w"
proof -
  have frame: "m_delegate (release r w) = m_delegate w" "calling (release r w) = calling w"
    by (simp_all add: release_def split: option.split)
  then have "owners (release r w) x = owners w x" for x by (simp add: owners_def)
  with assms show "held None (release r w)"
    by (cases r) (auto simp: held_def release_def)
  have "deref (release r w) p = deref w p" if "p \<in> set (m_delegate w) \<union> set (calling w)" for p
    using assms that owners_pos [of "the p" w] by (cases r; cases p) (auto simp: held_def release_def deref_def)
  with frame show "abs_unicasts (release r w) = abs_unicasts w" by (simp add: abs_unicasts_def)
qed

lemma clone_held:
  assumes "held None w" and "UnicastClone d w = (x, w1)"
  shows "held (Some x) w1" and "abs_unicasts w1 = abs_unicasts w" and "deref w1 (Some x) = Some (Clone d)"
    and "m_delegate w1 = m_delegate w"
proof -
  have x: "x = fresh_object w" using assms by (simp add: UnicastClone_def Let_def)
  then have "use_count w x = 0" using assms(1) unfolding held_def by (metis order_refl)
  then have "owners w x = 0" using assms(1) by (simp add: held_def)
  have frame: "m_delegate w1 = m_delegate w" "calling w1 = calling w"
    and w1: "use_count w1 = (use_count w)(x := 1)" "objects w1 = (objects w)(x := Some (Clone d))"
      "fresh_object w1 = Suc x"
    using assms(2) by (auto simp: UnicastClone_def Let_def)
  have own: "owners w1 y = owners w y" for y by (simp add: owners_def frame)
  from \<open>owners w x = 0\<close> show "held (Some x) w1"
    using assms(1) x by (auto simp: held_def own w1)
  show "deref w1 (Some x) = Some (Clone d)" by (simp add: deref_def w1)
  have "deref w1 p = deref w p" if "p \<in> set (m_delegate w) \<union> set (calling w)" for p
    using \<open>owners w x = 0\<close> that owners_pos [of "the p" w] by (cases p) (auto simp: deref_def w1)
  with frame show "abs_unicasts w1 = abs_unicasts w" by (simp add: abs_unicasts_def)
  show "m_delegate w1 = m_delegate w" by (rule frame)
qed

lemma set_held:
  assumes "held p w" and "c < length (m_delegate w)"
  shows "held None (set_delegate c p w)"
    and "abs_unicasts (set_delegate c p w) = (abs_unicasts w)\<lparr>bound := (bound (abs_unicasts w))[c := deref w p]\<rparr>"
proof -
  let ?w = "w\<lparr>m_delegate := (m_delegate w)[c := p]\<rparr>"
  have "owners ?w x + (if m_delegate w ! c = Some x then 1 else 0) = owners w x + (if p = Some x then 1 else 0)" for x
    using count_list_update [OF assms(2), of p "Some x"] by (simp add: owners_def)
  with assms(1) have "held (m_delegate w ! c) ?w" by (rule held_swap) simp_all
  note r = release_held [OF this]
  show "held None (set_delegate c p w)" unfolding set_delegate_def by (rule r)
  have "deref ?w = deref w" by (rule deref_cong) simp
  then show "abs_unicasts (set_delegate c p w) = (abs_unicasts w)\<lparr>bound := (bound (abs_unicasts w))[c := deref w p]\<rparr>"
    using r(2) by (simp add: set_delegate_def abs_unicasts_def map_update)
qed

lemma assign_held:
  assumes "held None w" and "c < length (m_delegate w)"
  shows "held None (Unicast_assign c d w)"
    and "abs_unicasts (Unicast_assign c d w) = spec_step (Bind_to c d) (abs_unicasts w)"
proof -
  obtain x w1 where u: "UnicastClone d w = (x, w1)" by fastforce
  note cl = clone_held [OF assms(1) u]
  from assms(2) cl(4) have c: "c < length (m_delegate w1)" by simp
  show "held None (Unicast_assign c d w)" using set_held(1) [OF cl(1) c] by (simp add: Unicast_assign_def u)
  show "abs_unicasts (Unicast_assign c d w) = spec_step (Bind_to c d) (abs_unicasts w)"
    using set_held(2) [OF cl(1) c] cl(2,3) by (simp add: Unicast_assign_def u)
qed

lemma move_held:
  assumes "held None w" and "c < length (m_delegate w)" and "rhs < length (m_delegate w)"
  shows "held None (Unicast_move_assign c rhs w)"
    and "abs_unicasts (Unicast_move_assign c rhs w) = spec_step (Move c rhs) (abs_unicasts w)"
proof -
  let ?p = "m_delegate w ! rhs"
  let ?w1 = "w\<lparr>m_delegate := (m_delegate w)[rhs := None]\<rparr>"
  have "held ?p ?w1"
    by (rule held_swap [OF assms(1)])
      (use count_list_update [OF assms(3), of None] in \<open>simp_all add: owners_def\<close>)
  note r = set_held [OF this, of c]
  have eq: "c \<noteq> rhs \<Longrightarrow> Unicast_move_assign c rhs w = set_delegate c ?p ?w1"
    by (simp add: Unicast_move_assign_def set_delegate_def Let_def)
  show "held None (Unicast_move_assign c rhs w)"
    using r(1) eq assms by (cases "c = rhs") (simp_all add: Unicast_move_assign_def)
  have d: "deref ?w1 = deref w" "deref w None = None" by (rule deref_cong, simp, simp add: deref_def)
  have "abs_unicasts ?w1 = (abs_unicasts w)\<lparr>bound := (bound (abs_unicasts w))[rhs := None]\<rparr>"
    by (simp add: abs_unicasts_def map_update d)
  then show "abs_unicasts (Unicast_move_assign c rhs w) = spec_step (Move c rhs) (abs_unicasts w)"
    using r(2) eq assms
    by (cases "c = rhs") (simp_all add: Unicast_move_assign_def d, simp add: abs_unicasts_def)
qed

lemma enter_held:
  assumes "held None w" and "c < length (m_delegate w)"
  shows "held None (UnicastSafeGet c w)"
    and "abs_unicasts (UnicastSafeGet c w) = spec_step (Enter c) (abs_unicasts w)"
proof -
  have "owners w x > 0" if "m_delegate w ! c = Some x" for x
    using owners_pos [of x w] nth_mem [OF assms(2)] that by simp
  then show "held None (UnicastSafeGet c w)"
    using assms(1) by (fastforce simp: UnicastSafeGet_def held_def owners_def Let_def split: option.splits)
  have "deref (UnicastSafeGet c w) = deref w" by (rule deref_cong) (simp add: UnicastSafeGet_def Let_def)
  then show "abs_unicasts (UnicastSafeGet c w) = spec_step (Enter c) (abs_unicasts w)"
    using assms(2) by (simp add: abs_unicasts_def UnicastSafeGet_def Let_def)
qed

lemma leave_held:
  assumes "held None w"
  shows "held None (Unicast_return k w)"
    and "abs_unicasts (Unicast_return k w) = spec_step (Leave k) (abs_unicasts w)"
proof -
  let ?cs = "take k (calling w) @ drop (Suc k) (calling w)"
  have "held (calling w ! k) (w\<lparr>calling := ?cs\<rparr>)" if k: "k < length (calling w)"
    by (rule held_swap [OF assms])
      (use arg_cong [OF id_take_nth_drop [OF k], of "\<lambda>cs. count_list cs q" for q]
        in \<open>simp_all add: owners_def\<close>)
  note r = release_held [OF this]
  show "held None (Unicast_return k w)" using r(1) assms by (simp add: Unicast_return_def)
  have "deref (w\<lparr>calling := ?cs\<rparr>) = deref w" by (rule deref_cong) simp
  then show "abs_unicasts (Unicast_return k w) = spec_step (Leave k) (abs_unicasts w)"
    using r(2) by (simp add: Unicast_return_def abs_unicasts_def take_map drop_map)
qed

lemma step_held:
  assumes "held None w" and "names_container (length (m_delegate w)) op"
  shows "held None (unicast_step op w) \<and> abs_unicasts (unicast_step op w) = spec_step op (abs_unicasts w)"
proof (cases op)
  case (Bind_to c d)
  then show ?thesis using assms assign_held [OF assms(1), of c d] by simp
next
  case (Reset c)
  then show ?thesis using assms set_held [OF assms(1), of c] by (simp add: Unicast_Clear_def deref_def)
next
  case (Copy c rhs)
  have b: "bound_to w rhs = bound (abs_unicasts w) ! rhs" if "rhs < length (m_delegate w)"
    using that by (simp add: bound_to_def abs_unicasts_def deref_def)
  show ?thesis
    using Copy assms assign_held [OF assms(1), of c] set_held [OF assms(1), of c]
    by (cases "bound (abs_unicasts w) ! rhs")
      (simp_all add: Unicast_copy_assign_def b deref_def flip: Unicast_assign_def)
next
  case (Move c rhs)
  then show ?thesis using assms move_held [OF assms(1), of c rhs] by simp
next
  case (Enter c)
  then show ?thesis using assms enter_held [OF assms(1), of c] by simp
next
  case (Leave k)
  then show ?thesis using leave_held [OF assms(1), of k] by simp
qed

lemma step_length: "length (m_delegate (unicast_step op w)) = length (m_delegate w)"
  by (cases op)
    (auto simp: Unicast_assign_def Unicast_Clear_def Unicast_copy_assign_def Unicast_move_assign_def Unicast_return_def
      UnicastSafeGet_def set_delegate_def release_def UnicastClone_def Let_def split: option.split)

lemma init_held: "held None (unicasts_init n)"
  by (simp add: held_def unicasts_init_def owners_def count_list_0_iff)

lemma run_held:
  "held None w \<Longrightarrow> list_all (names_container (length (m_delegate w))) ops \<Longrightarrow>
    held None (fold unicast_step ops w) \<and> abs_unicasts (fold unicast_step ops w) = fold spec_step ops (abs_unicasts w)"
  by (induction ops arbitrary: w) (simp_all add: step_held step_length)

lemma held_alive: "held None w \<Longrightarrow> objects w x \<noteq> None \<longleftrightarrow> Some x \<in> set (m_delegate w @ calling w)"
  by (auto simp: held_def owners_def count_list_0_iff)

section \<open>Properties\<close>

text \<open>
  Whatever threads and called targets do with a set of containers, each container behaves as a
  variable holding the delegate last assigned to it, a call of the thread-safe container calls the
  delegate bound when it began even if the target rebinds or clears the container, and exactly the
  delegate objects that are bound or being called exist: none is destroyed under a call, none leaks.
\<close>

theorem unicast_calls_bound_delegate:
  assumes "list_all (names_container n) ops"
  defines "w \<equiv> fold unicast_step ops (unicasts_init n)"
  shows "abs_unicasts w = fold spec_step ops \<lparr>bound = replicate n None, called = []\<rparr>
    \<and> map (\<lambda>p. Unicast_target live args p w) (calling w)
      = map (\<lambda>d. case d of None \<Rightarrow> Default_value | Some d \<Rightarrow> target_call live args d) (called (abs_unicasts w))
    \<and> {x. objects w x \<noteq> None} = {x. Some x \<in> set (m_delegate w @ calling w)}"
proof -
  have run: "held None w" "abs_unicasts w = fold spec_step ops (abs_unicasts (unicasts_init n))"
    using run_held [OF init_held [of n], of ops] assms by (simp_all add: unicasts_init_def)
  have "Unicast_target live args p w = (case deref w p of None \<Rightarrow> Default_value | Some d \<Rightarrow> target_call live args d)"
    if "p \<in> set (calling w)" for p
    using held_alive [OF run(1)] that by (fastforce simp: Unicast_target_def deref_def split: option.split)
  then have "map (\<lambda>p. Unicast_target live args p w) (calling w)
      = map (\<lambda>d. case d of None \<Rightarrow> Default_value | Some d \<Rightarrow> target_call live args d) (called (abs_unicasts w))"
    by (simp add: abs_unicasts_def)
  with run held_alive [OF run(1)] show ?thesis
    by (simp add: abs_unicasts_def unicasts_init_def deref_def)
qed

lemma unicast_calls_bound_delegate_witness:
  "(let w = fold unicast_step [Bind_to 0 sync_seven, Enter 0, Reset 0] (unicasts_init 1) in
    abs_unicasts w = fold spec_step [Bind_to 0 sync_seven, Enter 0, Reset 0] \<lparr>bound = replicate 1 None, called = []\<rparr>
    \<and> map (\<lambda>p. Unicast_target {} (5 :: nat) p w) (calling w)
      = map (\<lambda>d. case d of None \<Rightarrow> Default_value | Some d \<Rightarrow> target_call {} 5 d) (called (abs_unicasts w))
    \<and> {x. objects w x \<noteq> None} = {x. Some x \<in> set (m_delegate w @ calling w)})"
  unfolding Let_def
  by (rule unicast_calls_bound_delegate [where n = 1 and ops = "[Bind_to 0 sync_seven, Enter 0, Reset 0]"]) simp

text \<open>
  \<^verbatim>\<open>UnicastDelegate::operator()\<close> calls through the pointer of the container without a copy: a target
  that clears the container it is called from destroys the delegate that is being called.
\<close>

lemma unsafe_call_destroyed:
  "let w = Unicast_assign 0 d (unicasts_init 1) in
   Unicast_target live args (m_delegate w ! 0) w = target_call live args (Clone d)
   \<and> Unicast_target live args (m_delegate w ! 0) (Unicast_Clear 0 w) = Undefined"
  by (simp add: Unicast_assign_def Unicast_Clear_def UnicastClone_def set_delegate_def release_def
      unicasts_init_def Unicast_target_def Let_def)

end
