(* ===== verification/PoolAllocator.thy ===== *)
theory PoolAllocator
  imports IntrusiveList
begin

text \<open>
  \<^verbatim>\<open>extras/allocator/Allocator.h\<close> and \<^verbatim>\<open>Allocator.cpp\<close>: the allocator of blocks of one size, from the
  heap or from a pool, with its list of free blocks. The link of a free block is the first word of
  the block, so the model has the words of memory by their address; a pointer has 8 bytes. The heap
  hands out addresses upwards and can run out. A block that is in use belongs to the client, who
  may overwrite all of it, the old link included.
\<close>

section \<open>Memory\<close>

type_synonym addr = nat

record memory =
  word_at :: "addr \<Rightarrow> addr option"
  heap_top :: addr
  heap_left :: nat

definition WORD :: nat where "WORD = 8"

definition heap_new :: "nat \<Rightarrow> memory \<Rightarrow> (addr \<times> memory) option" where
  "heap_new n m =
     (if n \<le> heap_left m then Some (heap_top m, m\<lparr>heap_top := heap_top m + n, heap_left := heap_left m - n\<rparr>)
      else None)"

section \<open>The allocator\<close>

datatype AllocatorMode = HEAP_BLOCKS | HEAP_POOL | STATIC_POOL

record Allocator =
  m_blockSize :: nat
  m_objectSize :: nat
  m_maxObjects :: u32
  m_allocatorMode :: AllocatorMode
  m_pHead :: "addr option"
  m_pPool :: addr
  m_poolIndex :: u32
  m_blockCnt :: u32
  m_blocksInUse :: u32
  m_allocations :: u32
  m_deallocations :: u32

definition Allocator :: "nat \<Rightarrow> u32 \<Rightarrow> addr option \<Rightarrow> memory \<Rightarrow> (Allocator \<times> memory) option" where
  "Allocator n objects memory m =
     (let bs = (if n < WORD then WORD else n);
          a = \<lparr>m_blockSize = bs, m_objectSize = n, m_maxObjects = objects, m_allocatorMode = HEAP_BLOCKS,
               m_pHead = None, m_pPool = 0, m_poolIndex = 0, m_blockCnt = 0, m_blocksInUse = 0,
               m_allocations = 0, m_deallocations = 0\<rparr>
      in if objects = 0 then Some (a, m)
         else case memory of
                Some p \<Rightarrow> Some (a\<lparr>m_pPool := p, m_allocatorMode := STATIC_POOL\<rparr>, m)
              | None \<Rightarrow> map_option (\<lambda>(p, m'). (a\<lparr>m_pPool := p, m_allocatorMode := HEAP_POOL\<rparr>, m'))
                          (heap_new (bs * unat objects) m))"

definition Push :: "addr \<Rightarrow> Allocator \<times> memory \<Rightarrow> Allocator \<times> memory" where
  "Push p am = (case am of (a, m) \<Rightarrow>
     (a\<lparr>m_pHead := Some p\<rparr>, m\<lparr>word_at := (word_at m)(p := m_pHead a)\<rparr>))"

definition Pop :: "Allocator \<times> memory \<Rightarrow> addr option \<times> Allocator \<times> memory" where
  "Pop am = (case am of (a, m) \<Rightarrow>
     (case m_pHead a of
        None \<Rightarrow> (None, a, m)
      | Some p \<Rightarrow> (Some p, a\<lparr>m_pHead := word_at m p\<rparr>, m)))"

definition AccountAlloc :: "bool \<Rightarrow> Allocator \<Rightarrow> Allocator" where
  "AccountAlloc newBlock a =
     a\<lparr>m_blockCnt := (if newBlock then m_blockCnt a + 1 else m_blockCnt a),
       m_blocksInUse := m_blocksInUse a + 1, m_allocations := m_allocations a + 1\<rparr>"

text \<open>An exhausted pool calls the new-handler of the program until a block is free; without one it
  throws. The handler may do anything to the allocator, and the loop need not end.\<close>

datatype alloc_result = Block addr | Bad_alloc | Assertion_failed

partial_function (option) call_new_handler ::
  "(Allocator \<times> memory \<Rightarrow> Allocator \<times> memory) option \<Rightarrow> Allocator \<times> memory
   \<Rightarrow> (alloc_result \<times> Allocator \<times> memory) option" where
  "call_new_handler handler am =
     (case handler of
        None \<Rightarrow> Some (Bad_alloc, am)
      | Some h \<Rightarrow>
          (case Pop (h am) of
             (Some p, am') \<Rightarrow> Some (Block p, am')
           | (None, am') \<Rightarrow> call_new_handler handler am'))"

definition obtain_block ::
  "(Allocator \<times> memory \<Rightarrow> Allocator \<times> memory) option \<Rightarrow> Allocator \<times> memory
   \<Rightarrow> (alloc_result \<times> Allocator \<times> memory) option" where
  "obtain_block handler am =
     (case Pop am of
        (Some p, am') \<Rightarrow> Some (Block p, am')
      | (None, a, m) \<Rightarrow>
          if m_maxObjects a \<noteq> 0 then
            (if m_poolIndex a < m_maxObjects a
             then Some (Block (m_pPool a + unat (m_poolIndex a) * m_blockSize a), a\<lparr>m_poolIndex := m_poolIndex a + 1\<rparr>, m)
             else call_new_handler handler (a, m))
          else (let a1 = a\<lparr>m_blockCnt := m_blockCnt a + 1\<rparr> in
                case heap_new (m_blockSize a1) m of
                  None \<Rightarrow> Some (Bad_alloc, a1, m)
                | Some (p, m') \<Rightarrow> Some (Block p, a1, m')))"

definition Allocate ::
  "(Allocator \<times> memory \<Rightarrow> Allocator \<times> memory) option \<Rightarrow> nat \<Rightarrow> Allocator \<times> memory
   \<Rightarrow> (alloc_result \<times> Allocator \<times> memory) option" where
  "Allocate handler n am =
     (if m_objectSize (fst am) < n then Some (Assertion_failed, am)
      else map_option (\<lambda>(r, a, m).
             (r, (case r of
                    Block p \<Rightarrow> a\<lparr>m_blocksInUse := m_blocksInUse a + 1, m_allocations := m_allocations a + 1\<rparr>
                  | _ \<Rightarrow> a), m))
           (obtain_block handler am))"

text \<open>\<open>guarded\<close> says whether the checks of \<^verbatim>\<open>DMQ_ALLOCATOR_SAFEGUARDS\<close> are compiled in.\<close>

definition Deallocate :: "bool \<Rightarrow> addr \<Rightarrow> Allocator \<times> memory \<Rightarrow> (Allocator \<times> memory) option" where
  "Deallocate guarded p am =
     (let a = fst am in
      if guarded \<and> m_allocatorMode a \<noteq> HEAP_BLOCKS
         \<and> \<not> (m_pPool a \<le> p \<and> p < m_pPool a + m_blockSize a * unat (m_maxObjects a)
              \<and> (p - m_pPool a) mod m_blockSize a = 0)
      then None
      else (case Push p am of (a', m') \<Rightarrow>
              Some (a'\<lparr>m_blocksInUse := m_blocksInUse a' - 1, m_deallocations := m_deallocations a' + 1\<rparr>, m')))"

section \<open>Clients\<close>

text \<open>A client allocates, writes words into blocks it holds and gives back blocks it holds.\<close>

record pool_client =
  pool :: "Allocator \<times> memory"
  in_use :: "addr list"
  failures :: nat

datatype pool_op = New nat | Delete addr | Write addr "addr option"

definition inside :: "nat \<Rightarrow> addr \<Rightarrow> addr \<Rightarrow> bool" where
  "inside bs a p \<longleftrightarrow> p \<le> a \<and> a + WORD \<le> p + bs"

fun pool_step :: "bool \<Rightarrow> pool_op \<Rightarrow> pool_client \<Rightarrow> pool_client" where
  "pool_step guarded (New n) c =
     (case Allocate None n (pool c) of
        Some (Block p, am) \<Rightarrow> c\<lparr>pool := am, in_use := p # in_use c\<rparr>
      | Some (_, am) \<Rightarrow> c\<lparr>pool := am, failures := Suc (failures c)\<rparr>
      | None \<Rightarrow> c)"
| "pool_step guarded (Delete p) c =
     (if p \<in> set (in_use c)
      then case Deallocate guarded p (pool c) of
             None \<Rightarrow> c\<lparr>failures := Suc (failures c)\<rparr>
           | Some am \<Rightarrow> c\<lparr>pool := am, in_use := remove1 p (in_use c)\<rparr>
      else c)"
| "pool_step guarded (Write a v) c =
     (if list_ex (inside (m_blockSize (fst (pool c))) a) (in_use c)
      then c\<lparr>pool := (fst (pool c), (snd (pool c))\<lparr>word_at := (word_at (snd (pool c)))(a := v)\<rparr>)\<rparr>
      else c)"

section \<open>The invariant\<close>

definition apart :: "nat \<Rightarrow> addr list \<Rightarrow> bool" where
  "apart bs ps \<longleftrightarrow> (\<forall>p \<in> set ps. \<forall>q \<in> set ps. p \<noteq> q \<longrightarrow> p + bs \<le> q \<or> q + bs \<le> p)"

definition located :: "Allocator \<times> memory \<Rightarrow> addr \<Rightarrow> bool" where
  "located am p \<longleftrightarrow>
     (if m_maxObjects (fst am) = 0 then p + m_blockSize (fst am) \<le> heap_top (snd am)
      else \<exists>i < unat (m_poolIndex (fst am)). p = m_pPool (fst am) + i * m_blockSize (fst am))"

definition blocks_inv :: "addr list \<Rightarrow> addr list \<Rightarrow> Allocator \<times> memory \<Rightarrow> bool" where
  "blocks_inv used free am \<longleftrightarrow>
     linked (m_pHead (fst am), word_at (snd am)) free \<and> distinct (used @ free)
     \<and> apart (m_blockSize (fst am)) (used @ free) \<and> list_all (located am) (used @ free)
     \<and> WORD \<le> m_blockSize (fst am) \<and> m_poolIndex (fst am) \<le> m_maxObjects (fst am)
     \<and> (m_maxObjects (fst am) = 0 \<or> length (used @ free) = unat (m_poolIndex (fst am)))"

text \<open>What the operations on blocks leave alone, besides the statistics.\<close>

definition same_shape :: "Allocator \<Rightarrow> Allocator \<Rightarrow> bool" where
  "same_shape a a' \<longleftrightarrow>
     m_blockSize a' = m_blockSize a \<and> m_maxObjects a' = m_maxObjects a \<and> m_pPool a' = m_pPool a
     \<and> m_objectSize a' = m_objectSize a \<and> m_allocatorMode a' = m_allocatorMode a \<and> m_blocksInUse a' = m_blocksInUse a"

lemma same_shape_refl [simp]: "same_shape a a"
  by (simp add: same_shape_def)

lemma linked_empty: "linked (h, f) [] \<longleftrightarrow> h = None"
  by (simp add: linked_def)

lemma linked_Cons: "linked (h, f) (p # ps) \<longleftrightarrow> h = Some p \<and> linked (f p, f) ps \<and> p \<notin> set ps"
  by (auto simp: linked_def)

lemma linked_None: "linked (None, f) ps \<longleftrightarrow> ps = []"
  by (cases ps) (simp_all add: linked_empty linked_Cons)

lemma linked_upd: "p \<notin> set ps \<Longrightarrow> linked (h, f(p := v)) ps = linked (h, f) ps"
  by (simp add: linked_def chain_upd)

lemma apart_perm: "set ps = set qs \<Longrightarrow> apart bs ps = apart bs qs"
  by (simp add: apart_def)

lemma blocks_inv_move:
  assumes "blocks_inv used free am" and "distinct (used' @ free')" and "set (used' @ free') = set (used @ free)"
    and "linked (m_pHead (fst am'), word_at (snd am')) free'" and "same_shape (fst am) (fst am')"
    and "m_poolIndex (fst am') = m_poolIndex (fst am)" and "heap_top (snd am') = heap_top (snd am)"
  shows "blocks_inv used' free' am'"
proof -
  have "length (used' @ free') = length (used @ free)"
    using assms(1-3) by (metis blocks_inv_def distinct_card)
  moreover have "located am' = located am" using assms(5-7) by (simp add: located_def same_shape_def fun_eq_iff)
  moreover have "apart bs (used' @ free') = apart bs (used @ free)" for bs by (rule apart_perm) (rule assms(3))
  ultimately show ?thesis using assms by (simp add: blocks_inv_def same_shape_def list_all_iff)
qed

lemma pop_none: "blocks_inv used free am \<Longrightarrow> Pop am = (None, am') \<Longrightarrow> am' = am \<and> free = []"
  by (cases am) (auto simp: Pop_def blocks_inv_def linked_None split: option.splits)

lemma pop_some:
  assumes "blocks_inv used free am" and "Pop am = (Some p, am')"
  obtains fs where "free = p # fs" and "blocks_inv (p # used) fs am'" and "same_shape (fst am) (fst am')"
proof -
  obtain a m where am: "am = (a, m)" by fastforce
  from assms am have h: "m_pHead a = Some p" and am': "am' = (a\<lparr>m_pHead := word_at m p\<rparr>, m)"
    by (auto simp: Pop_def split: option.splits)
  from assms(1) h am obtain fs where free: "free = p # fs"
    by (cases free) (auto simp: blocks_inv_def linked_empty linked_Cons)
  have "blocks_inv (p # used) fs am'"
    by (rule blocks_inv_move [OF assms(1)])
      (use assms(1) am am' free in \<open>auto simp: blocks_inv_def linked_Cons same_shape_def\<close>)
  with free that show thesis by (simp add: am am' same_shape_def)
qed

lemma push_blocks:
  assumes "blocks_inv used free am" and "p \<in> set used" and "Push p am = am'"
  shows "blocks_inv (remove1 p used) (p # free) am'" and "same_shape (fst am) (fst am')"
proof -
  obtain a m where am: "am = (a, m)" by fastforce
  with assms(3) have am': "am' = (a\<lparr>m_pHead := Some p\<rparr>, m\<lparr>word_at := (word_at m)(p := m_pHead a)\<rparr>)"
    by (simp add: Push_def)
  show "blocks_inv (remove1 p used) (p # free) am'"
    by (rule blocks_inv_move [OF assms(1)])
      (use assms(1,2) am am' in \<open>auto simp: blocks_inv_def linked_Cons same_shape_def intro: linked_upd [THEN iffD2]\<close>)
  show "same_shape (fst am) (fst am')" by (simp add: am am' same_shape_def)
qed

text \<open>A block that was not handed out before.\<close>

lemma blocks_inv_new:
  assumes "blocks_inv used [] am" and "located am' p" and "\<And>q. located am q \<Longrightarrow> located am' q"
    and "\<And>q. located am q \<Longrightarrow> q + m_blockSize (fst am) \<le> p"
    and "same_shape (fst am) (fst am')" and "m_pHead (fst am') = None"
    and "m_poolIndex (fst am') \<le> m_maxObjects (fst am')"
    and "m_maxObjects (fst am) = 0 \<or> unat (m_poolIndex (fst am')) = Suc (unat (m_poolIndex (fst am)))"
  shows "blocks_inv (p # used) [] am'"
proof -
  have "q + m_blockSize (fst am) \<le> p" if "q \<in> set used" for q
    using assms(1,4) that by (auto simp: blocks_inv_def list_all_iff)
  moreover have "0 < m_blockSize (fst am)" using assms(1) by (auto simp: blocks_inv_def WORD_def)
  ultimately have "p \<notin> set used" and "apart (m_blockSize (fst am)) (p # used)"
    using assms(1) by (fastforce simp: blocks_inv_def apart_def)+
  with assms show ?thesis
    by (auto simp: blocks_inv_def same_shape_def linked_empty list_all_iff)
qed

lemma obtain_block_blocks:
  assumes "blocks_inv used free am" and "obtain_block None am = Some (r, am')"
  shows "same_shape (fst am) (fst am') \<and>
    (case r of
       Block p \<Rightarrow> \<exists>free'. blocks_inv (p # used) free' am'
     | Bad_alloc \<Rightarrow> blocks_inv used [] am' \<and> (m_maxObjects (fst am) = 0 \<or> length used = unat (m_maxObjects (fst am)))
     | Assertion_failed \<Rightarrow> False)"
proof (cases "Pop am")
  case (fields q a m)
  show ?thesis
  proof (cases q)
    case (Some p)
    with fields have "Pop am = (Some p, a, m)" by simp
    then obtain fs where "blocks_inv (p # used) fs (a, m)" and "same_shape (fst am) a"
      by (rule pop_some [OF assms(1)]) simp
    with assms(2) fields Some show ?thesis by (auto simp: obtain_block_def)
  next
    case None
    with pop_none [OF assms(1), of "(a, m)"] fields have am: "am = (a, m)" and free: "free = []" by auto
    have inv: "blocks_inv used [] (a, m)" using assms(1) am free by simp
    have head: "m_pHead a = None" and dist: "distinct used"
      using inv by (simp_all add: blocks_inv_def linked_empty)
    show ?thesis
    proof (cases "m_maxObjects a = 0")
      case True
      let ?a = "a\<lparr>m_blockCnt := m_blockCnt a + 1\<rparr>"
      have stay: "blocks_inv used [] (?a, m)"
        by (rule blocks_inv_move [OF inv]) (simp_all add: dist head linked_empty same_shape_def)
      have "blocks_inv (heap_top m # used) [] (?a, m')" if "heap_new (m_blockSize a) m = Some (heap_top m, m')" for m'
        using that True head inv
        by (intro blocks_inv_new [OF inv])
          (auto simp: located_def same_shape_def heap_new_def blocks_inv_def split: if_splits)
      with stay show ?thesis
        using assms(2) None fields am True
        by (cases "m_blockSize a \<le> heap_left m")
          (fastforce simp: obtain_block_def heap_new_def same_shape_def Let_def)+
    next
      case False
      note pool = this
      show ?thesis
      proof (cases "m_poolIndex a < m_maxObjects a")
        case True
        have "unat (m_maxObjects a) < 2 ^ LENGTH(32)" by (rule unsigned_less)
        with True have up: "unat (m_poolIndex a + 1) = Suc (unat (m_poolIndex a))"
          by (simp add: unat_word_ariths word_less_nat_alt)
        have "m_poolIndex a + 1 \<le> m_maxObjects a" using True by (simp add: inc_le)
        moreover have "i * m_blockSize a + m_blockSize a \<le> unat (m_poolIndex a) * m_blockSize a"
          if "i < unat (m_poolIndex a)" for i
          using mult_le_mono1 [of "Suc i" "unat (m_poolIndex a)" "m_blockSize a"] that by simp
        ultimately have "blocks_inv ((m_pPool a + unat (m_poolIndex a) * m_blockSize a) # used) []
            (a\<lparr>m_poolIndex := m_poolIndex a + 1\<rparr>, m)"
          using pool up head by (intro blocks_inv_new [OF inv]) (auto simp: located_def same_shape_def intro: less_SucI)
        then show ?thesis
          using assms(2) None fields am pool True by (auto simp: obtain_block_def same_shape_def)
      next
        case False
        then have "m_poolIndex a = m_maxObjects a" using inv by (simp add: blocks_inv_def)
        with inv pool have "length used = unat (m_maxObjects a)" by (simp add: blocks_inv_def)
        then show ?thesis
          using assms(2) None fields am pool False inv by (auto simp: obtain_block_def call_new_handler.simps)
      qed
    qed
  qed
qed

definition pool_inv :: "Allocator \<Rightarrow> pool_client \<Rightarrow> bool" where
  "pool_inv a0 c \<longleftrightarrow>
     (\<exists>free. blocks_inv (in_use c) free (pool c))
     \<and> same_shape (a0\<lparr>m_blocksInUse := of_nat (length (in_use c))\<rparr>) (fst (pool c))"

lemma blocks_inv_cong:
  "blocks_inv used free (a, m) \<Longrightarrow> m_blockSize a' = m_blockSize a \<Longrightarrow> m_maxObjects a' = m_maxObjects a
    \<Longrightarrow> m_pPool a' = m_pPool a \<Longrightarrow> m_poolIndex a' = m_poolIndex a \<Longrightarrow> m_pHead a' = m_pHead a
    \<Longrightarrow> blocks_inv used free (a', m)"
proof -
  assume eq: "m_blockSize a' = m_blockSize a" "m_maxObjects a' = m_maxObjects a" "m_pPool a' = m_pPool a"
    "m_poolIndex a' = m_poolIndex a" "m_pHead a' = m_pHead a" and inv: "blocks_inv used free (a, m)"
  have "located (a', m) = located (a, m)" by (simp add: located_def eq fun_eq_iff)
  with inv show ?thesis by (simp add: blocks_inv_def eq)
qed

lemma new_inv:
  assumes "pool_inv a0 c"
  shows "pool_inv a0 (pool_step g (New n) c)"
proof -
  obtain a m where am: "pool c = (a, m)" by fastforce
  from assms obtain free where inv: "blocks_inv (in_use c) free (a, m)"
    and shape: "same_shape (a0\<lparr>m_blocksInUse := of_nat (length (in_use c))\<rparr>) a"
    by (auto simp: pool_inv_def am)
  show ?thesis
  proof (cases "obtain_block None (a, m)")
    case None
    then show ?thesis using assms by (auto simp: Allocate_def am pool_inv_def)
  next
    case (Some x)
    obtain r a' m' where x: "x = (r, a', m')" by (cases x) auto
    note ob = obtain_block_blocks [OF inv Some [unfolded x]]
    show ?thesis
    proof (cases r)
      case (Block p)
      with ob obtain free' where "blocks_inv (p # in_use c) free' (a', m')" by auto
      then have "blocks_inv (p # in_use c) free'
          (a'\<lparr>m_blocksInUse := m_blocksInUse a' + 1, m_allocations := m_allocations a' + 1\<rparr>, m')"
        by (rule blocks_inv_cong) simp_all
      then show ?thesis using ob shape Block assms
        by (auto simp: Allocate_def am Some x pool_inv_def same_shape_def)
    qed (use ob shape assms in \<open>auto simp: Allocate_def am Some x pool_inv_def same_shape_def\<close>)
  qed
qed

lemma guard_passes:
  assumes "blocks_inv used free (a, m)" and "p \<in> set used" and "m_maxObjects a \<noteq> 0"
  shows "m_pPool a \<le> p \<and> p < m_pPool a + m_blockSize a * unat (m_maxObjects a) \<and> (p - m_pPool a) mod m_blockSize a = 0"
proof -
  from assms obtain i where i: "i < unat (m_poolIndex a)" "p = m_pPool a + i * m_blockSize a"
    by (auto simp: blocks_inv_def located_def list_all_iff)
  have "i < unat (m_maxObjects a)" and "0 < m_blockSize a"
    using i(1) assms(1) by (auto simp: blocks_inv_def word_le_nat_alt WORD_def)
  then show ?thesis by (simp add: i(2) mult.commute)
qed

lemma delete_inv:
  assumes "pool_inv a0 c" and "m_maxObjects a0 = 0 \<longleftrightarrow> m_allocatorMode a0 = HEAP_BLOCKS"
  shows "pool_inv a0 (pool_step g (Delete p) c)"
proof -
  obtain a m where am: "pool c = (a, m)" by fastforce
  from assms obtain free where inv: "blocks_inv (in_use c) free (a, m)"
    and shape: "same_shape (a0\<lparr>m_blocksInUse := of_nat (length (in_use c))\<rparr>) a"
    by (auto simp: pool_inv_def am)
  show ?thesis
  proof (cases "p \<in> set (in_use c)")
    case True
    obtain a' m' where p: "Push p (a, m) = (a', m')" by fastforce
    note pb = push_blocks [OF inv True p]
    from pb(1) have "blocks_inv (remove1 p (in_use c)) (p # free)
        (a'\<lparr>m_blocksInUse := m_blocksInUse a' - 1, m_deallocations := m_deallocations a' + 1\<rparr>, m')"
      by (rule blocks_inv_cong) simp_all
    moreover have "of_nat (length (in_use c)) - 1 = (of_nat (length (remove1 p (in_use c))) :: u32)"
      using True length_pos_if_in_set [OF True] by (cases "length (in_use c)") (simp_all add: length_remove1)
    ultimately show ?thesis using pb(2) shape True assms p
      by (auto simp: Deallocate_def am pool_inv_def same_shape_def Let_def)
  qed (use assms in simp)
qed

lemma write_inv: "pool_inv a0 c \<Longrightarrow> pool_inv a0 (pool_step g (Write x v) c)"
proof (cases "list_ex (inside (m_blockSize (fst (pool c))) x) (in_use c)")
  case True
  assume inv: "pool_inv a0 c"
  obtain a m where am: "pool c = (a, m)" by fastforce
  from inv obtain free where bi: "blocks_inv (in_use c) free (a, m)" by (auto simp: pool_inv_def am)
  from True am obtain p where p: "p \<in> set (in_use c)" "inside (m_blockSize a) x p" by (auto simp: list_ex_iff)
  have "x \<noteq> q" if q: "q \<in> set free" for q
  proof -
    have ne: "p \<noteq> q" using bi p(1) q by (auto simp: blocks_inv_def)
    with bi p(1) q have "p + m_blockSize a \<le> q \<or> q + m_blockSize a \<le> p" and "WORD \<le> m_blockSize a"
      by (simp_all add: blocks_inv_def apart_def)
    then show ?thesis using p(2) by (auto simp: inside_def WORD_def)
  qed
  then have "x \<notin> set free" by blast
  with bi have "blocks_inv (in_use c) free (a, m\<lparr>word_at := (word_at m)(x := v)\<rparr>)"
    by (intro blocks_inv_move [OF bi]) (auto simp: blocks_inv_def linked_upd)
  with inv show ?thesis by (auto simp: pool_inv_def am True)
qed (simp add: pool_inv_def)

lemma run_inv:
  "pool_inv a0 c \<Longrightarrow> m_maxObjects a0 = 0 \<longleftrightarrow> m_allocatorMode a0 = HEAP_BLOCKS \<Longrightarrow>
    pool_inv a0 (fold (pool_step g) ops c)"
proof (induction ops arbitrary: c)
  case (Cons op ops)
  have "pool_inv a0 (pool_step g op c)"
    using Cons.prems by (cases op) (simp_all only: new_inv delete_inv write_inv)
  with Cons show ?case by simp
qed simp

lemma start_inv:
  assumes "Allocator n objects memory m = Some am"
  shows "pool_inv (fst am) \<lparr>pool = am, in_use = [], failures = 0\<rparr>"
    and "m_maxObjects (fst am) = 0 \<longleftrightarrow> m_allocatorMode (fst am) = HEAP_BLOCKS"
    and "m_maxObjects (fst am) = objects" and "m_objectSize (fst am) = n"
    and "m_blockSize (fst am) = max n WORD"
  using assms
  by (auto simp: Allocator_def Let_def pool_inv_def blocks_inv_def linked_None same_shape_def apart_def WORD_def
      split: if_splits option.splits)

definition start :: "Allocator \<times> memory \<Rightarrow> pool_client" where
  "start am = \<lparr>pool = am, in_use = [], failures = 0\<rparr>"

lemma obtain_block_total: "obtain_block None am \<noteq> None"
  by (auto simp: obtain_block_def call_new_handler.simps Let_def split: option.split prod.split)

lemma exhausted_iff:
  assumes "blocks_inv used free am" and "m_maxObjects (fst am) \<noteq> 0"
  shows "(case Allocate None (m_objectSize (fst am)) am of Some (Bad_alloc, _) \<Rightarrow> True | _ \<Rightarrow> False)
    = (length used = unat (m_maxObjects (fst am)))"
proof -
  obtain r a m where ob: "obtain_block None am = Some (r, a, m)" using obtain_block_total [of am] by (cases "obtain_block None am") auto
  note inv = obtain_block_blocks [OF assms(1) ob]
  show ?thesis
  proof (cases r)
    case (Block p)
    with inv obtain free' where "blocks_inv (p # used) free' (a, m)" and "same_shape (fst am) a" by auto
    then have "length (p # used @ free') = unat (m_poolIndex a)" and "m_poolIndex a \<le> m_maxObjects (fst am)"
      using assms(2) by (auto simp: blocks_inv_def same_shape_def)
    then have "length used < unat (m_maxObjects (fst am))" by (simp add: word_le_nat_alt)
    with Block show ?thesis by (simp add: Allocate_def ob)
  qed (use inv assms(2) in \<open>simp_all add: Allocate_def ob\<close>)
qed

lemma pool_located:
  "blocks_inv used free am \<Longrightarrow> m_maxObjects (fst am) \<noteq> 0 \<Longrightarrow> p \<in> set used \<Longrightarrow>
    p \<in> (\<lambda>i. m_pPool (fst am) + i * m_blockSize (fst am)) ` {0..<unat (m_maxObjects (fst am))}"
  by (fastforce simp: blocks_inv_def list_all_iff located_def word_le_nat_alt)

section \<open>Properties\<close>

text \<open>
  Whatever a client allocates, overwrites and frees of what it holds, the blocks it holds are
  pairwise disjoint areas of memory of at least the requested size, in pool mode all of them blocks
  of the pool, the count of blocks in use is right, and a pool reports exhaustion exactly if the
  client holds all of its blocks.
\<close>

theorem pool_blocks_disjoint:
  fixes guarded :: bool and ops :: "pool_op list"
  assumes "Allocator n objects memory m = Some am"
  defines "c \<equiv> fold (pool_step guarded) ops (start am)"
  shows "distinct (in_use c) \<and> apart (max n WORD) (in_use c) \<and> m_blocksInUse (fst (pool c)) = of_nat (length (in_use c))
    \<and> (if objects = 0 then True
       else in_use c = filter (\<lambda>p. p \<in> set (map (\<lambda>i. m_pPool (fst am) + i * max n WORD) [0..<unat objects])) (in_use c)
         \<and> (case Allocate None n (pool c) of Some (Bad_alloc, _) \<Rightarrow> True | _ \<Rightarrow> False) = (length (in_use c) = unat objects))"
proof -
  note st = start_inv [OF assms(1)]
  have "pool_inv (fst am) c" unfolding c_def start_def by (rule run_inv [OF st(1,2)])
  then obtain free where inv: "blocks_inv (in_use c) free (pool c)"
    and shape: "m_blockSize (fst (pool c)) = max n WORD" "m_maxObjects (fst (pool c)) = objects"
      "m_objectSize (fst (pool c)) = n" "m_pPool (fst (pool c)) = m_pPool (fst am)"
    and count: "m_blocksInUse (fst (pool c)) = of_nat (length (in_use c))"
    using st by (auto simp: pool_inv_def same_shape_def)
  have "distinct (in_use c)" and "apart (max n WORD) (in_use c)"
    using inv shape(1) by (auto simp: blocks_inv_def apart_def)
  moreover have "in_use c = filter (\<lambda>p. p \<in> set (map (\<lambda>i. m_pPool (fst am) + i * max n WORD) [0..<unat objects])) (in_use c)"
    if "objects \<noteq> 0"
    using pool_located [OF inv] that by (intro filter_eq_self [symmetric]) (simp add: shape)
  moreover have "(case Allocate None n (pool c) of Some (Bad_alloc, _) \<Rightarrow> True | _ \<Rightarrow> False) = (length (in_use c) = unat objects)"
    if "objects \<noteq> 0"
    using exhausted_iff [OF inv] that by (simp add: shape)
  ultimately show ?thesis using count by auto
qed

lemma pool_blocks_disjoint_witness:
  "\<exists>am. Allocator 24 2 None \<lparr>word_at = (\<lambda>_. None), heap_top = 1000, heap_left = 100\<rparr> = Some am
    \<and> (let c = fold (pool_step True) [New 24, Write 1000 (Some 7), New 24, Delete 1000, New 24] (start am) in
       distinct (in_use c) \<and> apart (max 24 WORD) (in_use c) \<and> m_blocksInUse (fst (pool c)) = of_nat (length (in_use c))
       \<and> (if (2 :: u32) = 0 then True
          else in_use c = filter (\<lambda>p. p \<in> set (map (\<lambda>i. m_pPool (fst am) + i * max 24 WORD) [0..<unat (2 :: u32)])) (in_use c)
            \<and> (case Allocate None 24 (pool c) of Some (Bad_alloc, _) \<Rightarrow> True | _ \<Rightarrow> False) = (length (in_use c) = unat (2 :: u32))))"
proof -
  obtain am where am: "Allocator 24 2 None \<lparr>word_at = (\<lambda>_. None), heap_top = 1000, heap_left = 100\<rparr> = Some am"
    by (simp add: Allocator_def heap_new_def WORD_def Let_def)
  show ?thesis
    using am pool_blocks_disjoint [OF am, of True "[New 24, Write 1000 (Some 7), New 24, Delete 1000, New 24]"]
    unfolding Let_def by (intro exI [of _ am]) (rule conjI)
qed

text \<open>
  \<^verbatim>\<open>AllocatorPool<T, Objects>\<close> provides \<^verbatim>\<open>sizeof(T) * Objects\<close> bytes, but a block has at least the
  size of a pointer: for a smaller \<^verbatim>\<open>T\<close> the blocks lie behind the memory provided.
\<close>

lemma small_objects_overrun_pool:
  "map_option (\<lambda>am. in_use (fold (pool_step True) [New 1, New 1, New 1] (start am)))
     (Allocator 1 3 (Some 1000) \<lparr>word_at = (\<lambda>_. None), heap_top = 2000, heap_left = 0\<rparr>) = Some [1016, 1008, 1000]"
  by (simp add: Allocator_def start_def Allocate_def obtain_block_def Pop_def WORD_def Let_def del: One_nat_def)

end
