(* ===== verification/XAllocator.thy ===== *)
theory XAllocator
  imports PoolAllocator
begin

unbundle bit_operations_syntax

text \<open>
  \<^verbatim>\<open>extras/allocator/xallocator.cpp\<close>: \<^verbatim>\<open>xmalloc\<close>, \<^verbatim>\<open>xfree\<close> and \<^verbatim>\<open>xrealloc\<close> on a table of block
  allocators, one for each power of two, built on demand. A block starts with a header that names
  its allocator; its first word is the link of the allocator's list while the block is free. The
  compile-time switch \<^verbatim>\<open>DMQ_ALLOCATOR_SAFEGUARDS\<close> is the argument \<open>guarded\<close>. Pointers have 64 bits;
  the configuration is that of heap blocks (\<^verbatim>\<open>STATIC_POOLS\<close> is off, as in the source).

  The functions are composed of what they do between taking and releasing the lock, so that the
  same pieces serve the calls of one thread and the interleaved calls of several.
\<close>

type_synonym size_t = "64 word"

section \<open>Sizes\<close>

definition smear :: "nat \<Rightarrow> size_t \<Rightarrow> size_t" where
  "smear i k = k OR drop_bit i k"

definition nexthigher :: "size_t \<Rightarrow> size_t" where
  "nexthigher k = fold smear [1, 2, 4, 8, 16, 32] (k - 1) + 1"

definition BLOCK_HEADER_SIZE :: nat where "BLOCK_HEADER_SIZE = 16"

definition BLOCK_FOOTER_SIZE :: "bool \<Rightarrow> nat" where
  "BLOCK_FOOTER_SIZE guarded = (if guarded then 4 else 0)"

definition MAX_ALLOCATORS :: nat where "MAX_ALLOCATORS = 15"

definition XALLOC_MAGIC :: u32 where "XALLOC_MAGIC = 0x414C4C4F"
definition XALLOC_FREED :: u32 where "XALLOC_FREED = 0xDEADBEEF"
definition XALLOC_CANARY :: u32 where "XALLOC_CANARY = 0xAA55AA55"

definition block_size_for :: "bool \<Rightarrow> size_t \<Rightarrow> nat" where
  "block_size_for guarded n =
     unat (nexthigher (n + of_nat BLOCK_HEADER_SIZE + of_nat (BLOCK_FOOTER_SIZE guarded)))"

section \<open>State\<close>

record xalloc =
  xmem :: memory
  magic_at :: "addr \<Rightarrow> u32"
  canary_at :: "addr \<Rightarrow> u32"
  data_at :: "addr \<Rightarrow> byte"
  allocs :: "nat \<Rightarrow> Allocator"
  allocators :: "nat list"
  fresh_alloc :: nat

text \<open>The table of allocators is searched up to its first empty slot.\<close>

definition find_allocator :: "nat \<Rightarrow> xalloc \<Rightarrow> nat option" where
  "find_allocator n s = find (\<lambda>a. m_blockSize (allocs s a) = n) (allocators s)"

definition insert_allocator :: "nat \<Rightarrow> xalloc \<Rightarrow> bool \<times> xalloc" where
  "insert_allocator a s =
     (if length (allocators s) < MAX_ALLOCATORS then (True, s\<lparr>allocators := allocators s @ [a]\<rparr>) else (False, s))"

text \<open>An operation of the allocator with number \<open>a\<close>.\<close>

definition on_alloc :: "nat \<Rightarrow> (Allocator \<times> memory \<Rightarrow> 'b \<times> Allocator \<times> memory) \<Rightarrow> xalloc \<Rightarrow> 'b \<times> xalloc" where
  "on_alloc a f s =
     (case f (allocs s a, xmem s) of (r, al, m) \<Rightarrow> (r, s\<lparr>allocs := (allocs s)(a := al), xmem := m\<rparr>))"

section \<open>Pieces\<close>

text \<open>The first critical section of \<^verbatim>\<open>xallocator_get_allocator\<close> is \<open>find_allocator\<close>; this is the rest: a new
  allocator, the second search, and the insertion. \<open>None\<close> is the failed assertion on a full table.\<close>

definition create_allocator :: "nat \<Rightarrow> xalloc \<Rightarrow> nat \<times> xalloc" where
  "create_allocator n s =
     (let a = fresh_alloc s in
      (a, s\<lparr>allocs := (allocs s)(a := fst (the (Allocator n 0 None (xmem s)))), fresh_alloc := Suc a\<rparr>))"

definition install_allocator :: "nat \<Rightarrow> nat \<Rightarrow> xalloc \<Rightarrow> nat option \<times> xalloc" where
  "install_allocator n a s =
     (case find_allocator n s of
        Some existing \<Rightarrow> (Some existing, s)
      | None \<Rightarrow> (case insert_allocator a s of (True, s') \<Rightarrow> (Some a, s') | (False, s') \<Rightarrow> (None, s')))"

definition xmalloc_pop :: "nat \<Rightarrow> xalloc \<Rightarrow> addr option \<times> xalloc" where
  "xmalloc_pop a s =
     on_alloc a (\<lambda>am. case Pop am of (p, al, m) \<Rightarrow> (p, if p = None then al else AccountAlloc False al, m)) s"

definition new_block :: "nat \<Rightarrow> xalloc \<Rightarrow> addr option \<times> xalloc" where
  "new_block a s =
     (case heap_new (m_blockSize (allocs s a)) (xmem s) of
        None \<Rightarrow> (None, s) | Some (p, m) \<Rightarrow> (Some p, s\<lparr>xmem := m\<rparr>))"

definition xmalloc_account :: "nat \<Rightarrow> xalloc \<Rightarrow> xalloc" where
  "xmalloc_account a s = snd (on_alloc a (\<lambda>(al, m). ((), AccountAlloc True al, m)) s)"

definition footer_address :: "bool \<Rightarrow> nat \<Rightarrow> addr \<Rightarrow> xalloc \<Rightarrow> addr" where
  "footer_address guarded a p s =
     p + BLOCK_HEADER_SIZE + (m_blockSize (allocs s a) - BLOCK_HEADER_SIZE - BLOCK_FOOTER_SIZE guarded)"

text \<open>Word, magic and canary of the header are at offsets 0, 8 and 12; a canary ends the block.\<close>

definition set_block_allocator :: "bool \<Rightarrow> nat \<Rightarrow> addr \<Rightarrow> xalloc \<Rightarrow> addr \<times> xalloc" where
  "set_block_allocator guarded a p s =
     (let s1 = s\<lparr>xmem := (xmem s)\<lparr>word_at := (word_at (xmem s))(p := Some a)\<rparr>\<rparr>;
          s2 = (if guarded
                then s1\<lparr>magic_at := (magic_at s1)(p + 8 := XALLOC_MAGIC),
                        canary_at := (canary_at s1)(p + 12 := XALLOC_CANARY, footer_address guarded a p s1 := XALLOC_CANARY)\<rparr>
                else s1)
      in (p + BLOCK_HEADER_SIZE, s2))"

text \<open>\<open>None\<close> is a failed assertion, or an allocator pointer that does not name an allocator.\<close>

definition get_block_allocator :: "bool \<Rightarrow> addr \<Rightarrow> xalloc \<Rightarrow> nat option" where
  "get_block_allocator guarded ptr s =
     (let p = ptr - BLOCK_HEADER_SIZE in
      case word_at (xmem s) p of
        None \<Rightarrow> None
      | Some a \<Rightarrow>
          if guarded \<and> \<not> (magic_at s (p + 8) \<noteq> XALLOC_FREED \<and> magic_at s (p + 8) = XALLOC_MAGIC
                            \<and> canary_at s (p + 12) = XALLOC_CANARY
                            \<and> canary_at s (footer_address guarded a p s) = XALLOC_CANARY)
          then None else Some a)"

definition get_block_ptr :: "addr \<Rightarrow> addr" where
  "get_block_ptr ptr = ptr - BLOCK_HEADER_SIZE"

definition xfree_begin :: "bool \<Rightarrow> addr \<Rightarrow> xalloc \<Rightarrow> (nat \<times> addr \<times> xalloc) option" where
  "xfree_begin guarded ptr s =
     (case get_block_allocator guarded ptr s of
        None \<Rightarrow> None
      | Some a \<Rightarrow>
          let p = get_block_ptr ptr in
          Some (a, p, if guarded then s\<lparr>magic_at := (magic_at s)(p + 8 := XALLOC_FREED)\<rparr> else s))"

definition xfree_push :: "bool \<Rightarrow> nat \<Rightarrow> addr \<Rightarrow> xalloc \<Rightarrow> xalloc" where
  "xfree_push guarded a p s = snd (on_alloc a (\<lambda>am. ((), the (Deallocate guarded p am))) s)"

section \<open>The functions\<close>

datatype xresult = Ptr addr | Throws | Aborts

definition xallocator_get_allocator :: "bool \<Rightarrow> size_t \<Rightarrow> xalloc \<Rightarrow> nat option \<times> xalloc" where
  "xallocator_get_allocator guarded n s =
     (let bs = block_size_for guarded n in
      case find_allocator bs s of
        Some a \<Rightarrow> (Some a, s)
      | None \<Rightarrow> (case create_allocator bs s of (a, s') \<Rightarrow> install_allocator bs a s'))"

definition xmalloc :: "bool \<Rightarrow> size_t \<Rightarrow> xalloc \<Rightarrow> xresult \<times> xalloc" where
  "xmalloc guarded n s =
     (case xallocator_get_allocator guarded n s of
        (None, s1) \<Rightarrow> (Aborts, s1)
      | (Some a, s1) \<Rightarrow>
          (case xmalloc_pop a s1 of
             (Some p, s2) \<Rightarrow> (case set_block_allocator guarded a p s2 of (u, s3) \<Rightarrow> (Ptr u, s3))
           | (None, s2) \<Rightarrow>
               (case new_block a s2 of
                  (None, s3) \<Rightarrow> (Throws, s3)
                | (Some p, s3) \<Rightarrow>
                    (case set_block_allocator guarded a p (xmalloc_account a s3) of (u, s4) \<Rightarrow> (Ptr u, s4)))))"

text \<open>A null pointer is address 0.\<close>

definition xfree :: "bool \<Rightarrow> addr \<Rightarrow> xalloc \<Rightarrow> xalloc option" where
  "xfree guarded ptr s =
     (if ptr = 0 then Some s
      else map_option (\<lambda>(a, p, s'). xfree_push guarded a p s') (xfree_begin guarded ptr s))"

definition memcpy :: "addr \<Rightarrow> addr \<Rightarrow> nat \<Rightarrow> xalloc \<Rightarrow> xalloc" where
  "memcpy dst src n s =
     s\<lparr>data_at := (\<lambda>x. if dst \<le> x \<and> x < dst + n then data_at s (src + (x - dst)) else data_at s x)\<rparr>"

definition xrealloc :: "bool \<Rightarrow> addr \<Rightarrow> size_t \<Rightarrow> xalloc \<Rightarrow> xresult \<times> xalloc" where
  "xrealloc guarded oldMem n s =
     (if oldMem = 0 then xmalloc guarded n s
      else if n = 0 then
        (case xfree guarded oldMem s of None \<Rightarrow> (Aborts, s) | Some s' \<Rightarrow> (Ptr 0, s'))
      else
        (case xmalloc guarded n s of
           (Ptr newMem, s1) \<Rightarrow>
             (case get_block_allocator guarded oldMem s1 of
                None \<Rightarrow> (Aborts, s1)
              | Some a \<Rightarrow>
                  let oldSize = m_blockSize (allocs s1 a) - BLOCK_HEADER_SIZE - BLOCK_FOOTER_SIZE guarded;
                      s2 = memcpy newMem oldMem (if oldSize < unat n then oldSize else unat n) s1
                  in case xfree guarded oldMem s2 of None \<Rightarrow> (Aborts, s2) | Some s3 \<Rightarrow> (Ptr newMem, s3))
         | (r, s1) \<Rightarrow> (r, s1)))"

section \<open>Rounding to powers of two\<close>

lemma smear_window:
  assumes "\<And>j. bit k j \<longleftrightarrow> (\<exists>m<w. bit k0 (j + m))"
  shows "bit (smear w k) j \<longleftrightarrow> (\<exists>m<2 * w. bit k0 (j + m))"
proof -
  have "(\<exists>m<2 * w. bit k0 (j + m)) \<longleftrightarrow> (\<exists>m<w. bit k0 (j + m)) \<or> (\<exists>m<w. bit k0 (w + j + m))"
  proof
    assume "\<exists>m<2 * w. bit k0 (j + m)"
    then obtain m where m: "m < 2 * w" "bit k0 (j + m)" by blast
    show "(\<exists>m<w. bit k0 (j + m)) \<or> (\<exists>m<w. bit k0 (w + j + m))"
    proof (cases "m < w")
      case False
      with m show ?thesis by (intro disjI2 exI [of _ "m - w"]) (simp add: ac_simps)
    qed (use m in blast)
  next
    assume "(\<exists>m<w. bit k0 (j + m)) \<or> (\<exists>m<w. bit k0 (w + j + m))"
    then show "\<exists>m<2 * w. bit k0 (j + m)"
    proof
      assume "\<exists>m<w. bit k0 (w + j + m)"
      then obtain m where "m < w" "bit k0 (w + j + m)" by blast
      then show ?thesis by (intro exI [of _ "w + m"]) (simp add: ac_simps)
    next
      assume "\<exists>m<w. bit k0 (j + m)"
      then obtain m where "m < w" "bit k0 (j + m)" by blast
      then show ?thesis by (intro exI [of _ m]) simp
    qed
  qed
  then show ?thesis by (simp add: smear_def bit_or_iff bit_drop_bit_eq assms)
qed

lemma bit_smeared: "bit (fold smear [1, 2, 4, 8, 16, 32] k) j \<longleftrightarrow> (\<exists>m<64. bit k (j + m))"
proof -
  have "bit (smear 1 k) j \<longleftrightarrow> (\<exists>m<2. bit k (j + m))" for j
    using smear_window [of k 1 k j] by simp
  from smear_window [of _ 2, OF this] have "bit (smear 2 (smear 1 k)) j \<longleftrightarrow> (\<exists>m<4. bit k (j + m))" for j by simp
  from smear_window [of _ 4, OF this] have "bit (smear 4 (smear 2 (smear 1 k))) j \<longleftrightarrow> (\<exists>m<8. bit k (j + m))" for j by simp
  from smear_window [of _ 8, OF this] have "bit (smear 8 (smear 4 (smear 2 (smear 1 k)))) j \<longleftrightarrow> (\<exists>m<16. bit k (j + m))" for j by simp
  from smear_window [of _ 16, OF this]
  have "bit (smear 16 (smear 8 (smear 4 (smear 2 (smear 1 k))))) j \<longleftrightarrow> (\<exists>m<32. bit k (j + m))" for j by simp
  from smear_window [of _ 32, OF this] show ?thesis by simp
qed

lemma bit_le_unat: "bit (k :: size_t) j \<Longrightarrow> 2 ^ j \<le> unat k"
proof -
  assume "bit k j"
  then have "bit (unat k) j" by (simp add: bit_unsigned_iff)
  then have "odd (unat k div 2 ^ j)" by (simp add: bit_iff_odd)
  then have "\<not> unat k < 2 ^ j" by (metis div_less even_zero)
  then show ?thesis by simp
qed

lemma bit_top:
  assumes "2 ^ n \<le> unat (k :: size_t)" and "unat k < 2 ^ Suc n"
  shows "bit k n"
proof -
  have "unat k div 2 ^ n = 1" using assms by (intro div_nat_eqI) simp_all
  then have "bit (unat k) n" by (simp add: bit_iff_odd)
  then show ?thesis by (simp add: bit_unsigned_iff)
qed

lemma nexthigher_power:
  assumes "0 < unat k" and "unat k \<le> 2 ^ 63"
  shows "\<exists>n. unat (nexthigher k) = 2 ^ n \<and> n \<le> 63 \<and> unat k \<le> 2 ^ n \<and> 2 ^ n < 2 * unat k"
proof -
  from assms(1) have "k \<noteq> 0" by auto
  then have k1: "unat (k - 1) = unat k - 1" by (simp add: unat_minus_one)
  show ?thesis
  proof (cases "unat k = 1")
    case True
    then have "k - 1 = 0" using k1 by (simp add: unat_eq_zero)
    then have "nexthigher k = 1" by (simp add: nexthigher_def smear_def)
    with True show ?thesis by (intro exI [of _ 0]) simp
  next
    case False
    with assms(1) k1 have "1 \<le> unat (k - 1)" by linarith
    from ex_power_ivl1 [OF _ this, of 2] obtain n where n: "2 ^ n \<le> unat (k - 1)" "unat (k - 1) < 2 ^ Suc n"
      by auto
    have "(2 :: nat) ^ n < 2 ^ 63" using n(1) k1 assms by linarith
    then have n63: "n < 63" by (rule power_less_imp_less_exp [rotated]) simp
    define r where "r = fold smear [1, 2, 4, 8, 16, 32] (k - 1)"
    have bits: "bit r j \<longleftrightarrow> (\<exists>m<64. bit (k - 1) (j + m))" for j unfolding r_def by (rule bit_smeared)
    have "bit r j \<longleftrightarrow> j \<le> n" for j
    proof
      assume "bit r j"
      then obtain m where "bit (k - 1) (j + m)" by (auto simp only: bits)
      then have "(2 :: nat) ^ (j + m) < 2 ^ Suc n" by (rule le_less_trans [OF bit_le_unat n(2)])
      then have "j + m < Suc n" by (rule power_less_imp_less_exp [rotated]) simp
      then show "j \<le> n" by simp
    next
      assume "j \<le> n"
      with bit_top [OF n] n63 show "bit r j"
        unfolding bits by (intro exI [of _ "n - j"]) simp
    qed
    then have "r = mask (Suc n)" using n63 by (intro bit_word_eqI) (simp add: bit_mask_iff less_Suc_eq_le)
    then have "nexthigher k = 2 ^ Suc n"
      unfolding nexthigher_def r_def [symmetric] by (simp add: mask_eq_exp_minus_1)
    then have "nexthigher k = of_nat (2 ^ Suc n)" by simp
    moreover have "(2 :: nat) ^ Suc n < 2 ^ 64" using n63 by (intro power_strict_increasing) simp_all
    ultimately have "unat (nexthigher k) = 2 ^ Suc n" by (simp only: unat_of_nat) simp
    with n n63 k1 assms show ?thesis by (intro exI [of _ "Suc n"]) auto
  qed
qed

section \<open>Threads\<close>

text \<open>
  Where a thread is in a call: between the critical sections. \<open>live\<close> tells which blocks clients hold
  and how many bytes they asked for. A client frees only what it holds and writes only into it.
\<close>

datatype xpc = Idle | Finding size_t | Installing size_t nat | Popping size_t nat | Newing size_t nat
  | Accounting size_t nat addr | Heading size_t nat addr | Pushing nat addr

record xworld =
  xstate :: xalloc
  pcs :: "nat \<Rightarrow> xpc"
  live :: "addr \<Rightarrow> nat option"
  aborted :: bool

datatype xevent = Malloc nat size_t | Free nat addr | Proceed nat | Poke addr "addr option" | Put addr byte

definition set_pc :: "nat \<Rightarrow> xpc \<Rightarrow> xworld \<Rightarrow> xworld" where
  "set_pc t c w = w\<lparr>pcs := (pcs w)(t := c)\<rparr>"

fun proceed :: "bool \<Rightarrow> nat \<Rightarrow> xpc \<Rightarrow> xworld \<Rightarrow> xworld" where
  "proceed g t Idle w = w"
| "proceed g t (Finding n) w =
     (case find_allocator (block_size_for g n) (xstate w) of
        Some a \<Rightarrow> set_pc t (Popping n a) w
      | None \<Rightarrow> (case create_allocator (block_size_for g n) (xstate w) of
                  (a, s) \<Rightarrow> set_pc t (Installing n a) (w\<lparr>xstate := s\<rparr>)))"
| "proceed g t (Installing n a) w =
     (case install_allocator (block_size_for g n) a (xstate w) of
        (None, s) \<Rightarrow> w\<lparr>xstate := s, aborted := True\<rparr>
      | (Some b, s) \<Rightarrow> set_pc t (Popping n b) (w\<lparr>xstate := s\<rparr>))"
| "proceed g t (Popping n a) w =
     (case xmalloc_pop a (xstate w) of
        (None, s) \<Rightarrow> set_pc t (Newing n a) (w\<lparr>xstate := s\<rparr>)
      | (Some p, s) \<Rightarrow> set_pc t (Heading n a p) (w\<lparr>xstate := s\<rparr>))"
| "proceed g t (Newing n a) w =
     (case new_block a (xstate w) of
        (None, s) \<Rightarrow> set_pc t Idle (w\<lparr>xstate := s\<rparr>)
      | (Some p, s) \<Rightarrow> set_pc t (Accounting n a p) (w\<lparr>xstate := s\<rparr>))"
| "proceed g t (Accounting n a p) w = set_pc t (Heading n a p) (w\<lparr>xstate := xmalloc_account a (xstate w)\<rparr>)"
| "proceed g t (Heading n a p) w =
     (case set_block_allocator g a p (xstate w) of
        (u, s) \<Rightarrow> set_pc t Idle (w\<lparr>xstate := s, live := (live w)(p := Some (unat n))\<rparr>))"
| "proceed g t (Pushing a p) w = set_pc t Idle (w\<lparr>xstate := xfree_push g a p (xstate w)\<rparr>)"

text \<open>The bytes a client may touch.\<close>

definition usable :: "xworld \<Rightarrow> addr \<Rightarrow> nat \<Rightarrow> bool" where
  "usable w x k \<longleftrightarrow> (\<exists>p n. live w p = Some n \<and> p + BLOCK_HEADER_SIZE \<le> x \<and> x + k \<le> p + BLOCK_HEADER_SIZE + n)"

definition xstep :: "bool \<Rightarrow> xevent \<Rightarrow> xworld \<Rightarrow> xworld" where
  "xstep g e w =
     (if aborted w then w
      else case e of
        Malloc t n \<Rightarrow> if pcs w t = Idle \<and> unat n + BLOCK_HEADER_SIZE + BLOCK_FOOTER_SIZE g \<le> 2 ^ 63
                      then set_pc t (Finding n) w else w
      | Free t ptr \<Rightarrow>
          if pcs w t = Idle \<and> BLOCK_HEADER_SIZE \<le> ptr \<and> live w (get_block_ptr ptr) \<noteq> None
          then (case xfree_begin g ptr (xstate w) of
                  None \<Rightarrow> w\<lparr>aborted := True\<rparr>
                | Some (a, p, s) \<Rightarrow> set_pc t (Pushing a p) (w\<lparr>xstate := s, live := (live w)(p := None)\<rparr>))
          else w
      | Proceed t \<Rightarrow> proceed g t (pcs w t) w
      | Poke x v \<Rightarrow> if usable w x WORD
                    then w\<lparr>xstate := (xstate w)\<lparr>xmem := (xmem (xstate w))\<lparr>word_at := (word_at (xmem (xstate w)))(x := v)\<rparr>\<rparr>\<rparr> else w
      | Put x b \<Rightarrow> if usable w x 1 then w\<lparr>xstate := (xstate w)\<lparr>data_at := (data_at (xstate w))(x := b)\<rparr>\<rparr> else w)"

definition xalloc_init :: "addr \<Rightarrow> nat \<Rightarrow> xalloc" where
  "xalloc_init base left =
     \<lparr>xmem = \<lparr>word_at = (\<lambda>_. None), heap_top = base, heap_left = left\<rparr>, magic_at = (\<lambda>_. 0), canary_at = (\<lambda>_. 0),
      data_at = (\<lambda>_. 0), allocs = (\<lambda>_. fst (the (Allocator 0 0 None undefined))), allocators = [], fresh_alloc = 0\<rparr>"

definition xworld_init :: "addr \<Rightarrow> nat \<Rightarrow> xworld" where
  "xworld_init base left = \<lparr>xstate = xalloc_init base left, pcs = (\<lambda>_. Idle), live = (\<lambda>_. None), aborted = False\<rparr>"

section \<open>The invariant\<close>

text \<open>
  Every block that was ever obtained is in one place: with a client, with a thread, or in the list of
  its allocator; \<open>pl\<close> says where, \<open>hm\<close> which allocator it belongs to, \<open>fs\<close> what the lists hold.
\<close>

datatype place = Live | With nat | Free_in nat

definition bs_of :: "xalloc \<Rightarrow> nat \<Rightarrow> nat" where
  "bs_of s a = m_blockSize (allocs s a)"

text \<open>The header of a block a client holds.\<close>

definition header_ok :: "bool \<Rightarrow> nat \<Rightarrow> addr \<Rightarrow> xalloc \<Rightarrow> bool" where
  "header_ok g a p s \<longleftrightarrow>
     word_at (xmem s) p = Some a
     \<and> (g \<longrightarrow> magic_at s (p + 8) = XALLOC_MAGIC \<and> canary_at s (p + 12) = XALLOC_CANARY
             \<and> canary_at s (footer_address g a p s) = XALLOC_CANARY)"

definition known :: "xalloc \<Rightarrow> nat \<Rightarrow> bool" where
  "known s a \<longleftrightarrow> a \<in> set (allocators s)"

definition fitting :: "bool \<Rightarrow> size_t \<Rightarrow> xalloc \<Rightarrow> nat \<Rightarrow> bool" where
  "fitting g n s a \<longleftrightarrow>
     unat n + BLOCK_HEADER_SIZE + BLOCK_FOOTER_SIZE g \<le> 2 ^ 63 \<and> known s a \<and> bs_of s a = block_size_for g n"

text \<open>An allocator that is not in the table yet: \<open>cr\<close> tells which thread has created it.\<close>

definition private_alloc :: "(nat \<Rightarrow> nat) \<Rightarrow> xalloc \<Rightarrow> nat \<Rightarrow> nat \<Rightarrow> bool" where
  "private_alloc cr s t a \<longleftrightarrow> a < fresh_alloc s \<and> \<not> known s a \<and> cr a = t"

fun pc_ok :: "bool \<Rightarrow> (addr \<Rightarrow> place option) \<Rightarrow> (addr \<Rightarrow> nat) \<Rightarrow> (nat \<Rightarrow> nat) \<Rightarrow> xalloc \<Rightarrow> nat \<Rightarrow> xpc \<Rightarrow> bool" where
  "pc_ok g pl hm cr s t Idle = True"
| "pc_ok g pl hm cr s t (Finding n) = (unat n + BLOCK_HEADER_SIZE + BLOCK_FOOTER_SIZE g \<le> 2 ^ 63)"
| "pc_ok g pl hm cr s t (Installing n a) =
     (unat n + BLOCK_HEADER_SIZE + BLOCK_FOOTER_SIZE g \<le> 2 ^ 63 \<and> private_alloc cr s t a
      \<and> m_pHead (allocs s a) = None \<and> m_maxObjects (allocs s a) = 0 \<and> m_allocatorMode (allocs s a) = HEAP_BLOCKS
      \<and> bs_of s a = block_size_for g n)"
| "pc_ok g pl hm cr s t (Popping n a) = fitting g n s a"
| "pc_ok g pl hm cr s t (Newing n a) = fitting g n s a"
| "pc_ok g pl hm cr s t (Accounting n a p) = (fitting g n s a \<and> pl p = Some (With t) \<and> hm p = a)"
| "pc_ok g pl hm cr s t (Heading n a p) = (fitting g n s a \<and> pl p = Some (With t) \<and> hm p = a)"
| "pc_ok g pl hm cr s t (Pushing a p) = (known s a \<and> pl p = Some (With t) \<and> hm p = a)"

text \<open>A guarded block has at least 32 bytes, an unguarded one 16.\<close>

definition least_block :: "bool \<Rightarrow> nat" where
  "least_block g = (if g then 32 else 16)"

definition table_ok :: "bool \<Rightarrow> xalloc \<Rightarrow> bool" where
  "table_ok g s \<longleftrightarrow>
     distinct (map (bs_of s) (allocators s)) \<and> length (allocators s) \<le> MAX_ALLOCATORS
     \<and> (\<forall>a. known s a \<longrightarrow> a < fresh_alloc s \<and> m_maxObjects (allocs s a) = 0
           \<and> m_allocatorMode (allocs s a) = HEAP_BLOCKS \<and> least_block g \<le> bs_of s a)"

definition lists_ok :: "(addr \<Rightarrow> place option) \<Rightarrow> (addr \<Rightarrow> nat) \<Rightarrow> (nat \<Rightarrow> addr list) \<Rightarrow> xalloc \<Rightarrow> bool" where
  "lists_ok pl hm fs s \<longleftrightarrow>
     (\<forall>a. known s a \<longrightarrow> linked (m_pHead (allocs s a), word_at (xmem s)) (fs a)
           \<and> (\<forall>p \<in> set (fs a). pl p = Some (Free_in a) \<and> hm p = a))"

definition blocks_ok :: "(addr \<Rightarrow> place option) \<Rightarrow> (addr \<Rightarrow> nat) \<Rightarrow> xalloc \<Rightarrow> bool" where
  "blocks_ok pl hm s \<longleftrightarrow>
     (\<forall>p. pl p \<noteq> None \<longrightarrow> known s (hm p) \<and> p + bs_of s (hm p) \<le> heap_top (xmem s))
     \<and> (\<forall>p q. pl p \<noteq> None \<and> pl q \<noteq> None \<and> p < q \<longrightarrow> p + bs_of s (hm p) \<le> q)"

definition live_ok :: "bool \<Rightarrow> (addr \<Rightarrow> place option) \<Rightarrow> (addr \<Rightarrow> nat) \<Rightarrow> xalloc \<Rightarrow> (addr \<Rightarrow> nat option) \<Rightarrow> bool" where
  "live_ok g pl hm s lv \<longleftrightarrow>
     (\<forall>p n. lv p = Some n \<longrightarrow> pl p = Some Live \<and> header_ok g (hm p) p s
        \<and> n + BLOCK_HEADER_SIZE + BLOCK_FOOTER_SIZE g \<le> bs_of s (hm p))"

definition xinv ::
  "bool \<Rightarrow> (addr \<Rightarrow> place option) \<Rightarrow> (addr \<Rightarrow> nat) \<Rightarrow> (nat \<Rightarrow> addr list) \<Rightarrow> (nat \<Rightarrow> nat) \<Rightarrow> xworld \<Rightarrow> bool" where
  "xinv g pl hm fs cr w \<longleftrightarrow>
     table_ok g (xstate w) \<and> lists_ok pl hm fs (xstate w) \<and> blocks_ok pl hm (xstate w)
     \<and> live_ok g pl hm (xstate w) (live w) \<and> (\<forall>t. pc_ok g pl hm cr (xstate w) t (pcs w t))
     \<and> (aborted w \<longrightarrow> length (allocators (xstate w)) = MAX_ALLOCATORS)"

section \<open>Frame facts\<close>

text \<open>What a step of thread \<open>t\<close> leaves to the other threads.\<close>

definition keeps ::
  "nat \<Rightarrow> (addr \<Rightarrow> place option) \<Rightarrow> (addr \<Rightarrow> nat) \<Rightarrow> (nat \<Rightarrow> nat) \<Rightarrow> xalloc
   \<Rightarrow> (addr \<Rightarrow> place option) \<Rightarrow> (addr \<Rightarrow> nat) \<Rightarrow> (nat \<Rightarrow> nat) \<Rightarrow> xalloc \<Rightarrow> bool" where
  "keeps t pl hm cr s pl' hm' cr' s' \<longleftrightarrow>
     (\<forall>t' p. t' \<noteq> t \<and> pl p = Some (With t') \<longrightarrow> pl' p = pl p \<and> hm' p = hm p)
     \<and> (\<forall>a. known s a \<longrightarrow> known s' a \<and> bs_of s' a = bs_of s a)
     \<and> (\<forall>t' a. t' \<noteq> t \<and> private_alloc cr s t' a \<longrightarrow> private_alloc cr' s' t' a \<and> allocs s' a = allocs s a)"

lemma pc_frame:
  assumes "pc_ok g pl hm cr s t' c" and "keeps t pl hm cr s pl' hm' cr' s'" and "t' \<noteq> t"
  shows "pc_ok g pl' hm' cr' s' t' c"
  using assms by (cases c) (auto simp: keeps_def fitting_def bs_of_def)

lemma keeps_refl: "keeps t pl hm cr s pl hm cr s"
  by (simp add: keeps_def)

text \<open>A step of thread \<open>t\<close> keeps the invariant if it keeps each part.\<close>

lemma xinv_step:
  assumes "xinv g pl hm fs cr w" and "keeps t pl hm cr (xstate w) pl' hm' cr' s"
    and "table_ok g s" and "lists_ok pl' hm' fs' s" and "blocks_ok pl' hm' s" and "live_ok g pl' hm' s lv"
    and "pc_ok g pl' hm' cr' s t c" and "ab \<longrightarrow> length (allocators s) = MAX_ALLOCATORS"
  shows "xinv g pl' hm' fs' cr' \<lparr>xstate = s, pcs = (pcs w)(t := c), live = lv, aborted = ab\<rparr>"
  using assms pc_frame [OF _ assms(2)] by (simp add: xinv_def)

text \<open>A change of one allocator that is in the table, which keeps its constant members.\<close>

definition tuned :: "nat \<Rightarrow> xalloc \<Rightarrow> xalloc \<Rightarrow> bool" where
  "tuned a s s' \<longleftrightarrow>
     allocators s' = allocators s \<and> fresh_alloc s' = fresh_alloc s \<and> (\<forall>b. b \<noteq> a \<longrightarrow> allocs s' b = allocs s b)
     \<and> same_shape ((allocs s a)\<lparr>m_blocksInUse := m_blocksInUse (allocs s' a)\<rparr>) (allocs s' a)"

lemma tuned_bs: "tuned a s s' \<Longrightarrow> bs_of s' = bs_of s"
  by (auto simp: tuned_def bs_of_def same_shape_def fun_eq_iff)

lemma tuned_known: "tuned a s s' \<Longrightarrow> known s' = known s"
  by (auto simp: tuned_def known_def fun_eq_iff)

lemma tuned_table: "tuned a s s' \<Longrightarrow> table_ok g s' = table_ok g s"
  using tuned_bs [of a s s'] tuned_known [of a s s']
  by (auto simp: table_ok_def tuned_def same_shape_def) metis+

lemma tuned_keeps:
  assumes "tuned a s s'" and "known s a" and "\<And>t' p. t' \<noteq> t \<Longrightarrow> pl p = Some (With t') \<Longrightarrow> pl' p = pl p \<and> hm' p = hm p"
  shows "keeps t pl hm cr s pl' hm' cr s'"
  using assms tuned_bs [OF assms(1)] tuned_known [OF assms(1)]
  by (auto simp: keeps_def private_alloc_def tuned_def) metis

text \<open>What is written when a block is handed out or taken back: its header and its footer.\<close>

definition touches :: "bool \<Rightarrow> nat \<Rightarrow> addr \<Rightarrow> xalloc \<Rightarrow> xalloc \<Rightarrow> bool" where
  "touches g a p s s' \<longleftrightarrow>
     (\<forall>x. x \<noteq> p \<longrightarrow> word_at (xmem s') x = word_at (xmem s) x)
     \<and> (\<forall>x. x \<noteq> p + 8 \<longrightarrow> magic_at s' x = magic_at s x)
     \<and> (\<forall>x. x \<noteq> p + 12 \<and> x \<noteq> footer_address g a p s \<longrightarrow> canary_at s' x = canary_at s x)"

lemma blocks_apart:
  "blocks_ok pl hm s \<Longrightarrow> pl p \<noteq> None \<Longrightarrow> pl q \<noteq> None \<Longrightarrow> p \<noteq> q \<Longrightarrow>
    p + bs_of s (hm p) \<le> q \<or> q + bs_of s (hm q) \<le> p"
  unfolding blocks_ok_def by (meson linorder_neqE_nat)

lemma block_known: "blocks_ok pl hm s \<Longrightarrow> pl p \<noteq> None \<Longrightarrow> known s (hm p)"
  by (simp add: blocks_ok_def)

lemma known_size: "table_ok g s \<Longrightarrow> known s a \<Longrightarrow> least_block g \<le> bs_of s a"
  by (simp add: table_ok_def)

lemma footer_in: "32 \<le> bs_of s a \<Longrightarrow> p + 12 \<le> footer_address True a p s - 4 \<and> footer_address True a p s + 4 = p + bs_of s a"
  by (simp add: footer_address_def bs_of_def BLOCK_HEADER_SIZE_def BLOCK_FOOTER_SIZE_def)

lemma header_frame:
  assumes "header_ok g (hm q) q s" and "touches g (hm p) p s s'" and "bs_of s' = bs_of s"
    and "table_ok g s" and "blocks_ok pl hm s" and "pl p \<noteq> None" and "pl q \<noteq> None" and "p \<noteq> q"
  shows "header_ok g (hm q) q s'"
proof -
  note sizes = known_size [OF assms(4) block_known [OF assms(5,6)]] known_size [OF assms(4) block_known [OF assms(5,7)]]
  have foot: "footer_address True (hm q) q s' = footer_address True (hm q) q s"
    using fun_cong [OF assms(3), of "hm q"] by (simp add: footer_address_def bs_of_def)
  show ?thesis
  proof (cases g)
    case True
    with sizes have "32 \<le> bs_of s (hm p)" "32 \<le> bs_of s (hm q)" by (simp_all add: least_block_def)
    then have "q + 12 \<noteq> p + 12" "q + 12 \<noteq> footer_address True (hm p) p s"
      "footer_address True (hm q) q s \<noteq> p + 12" "footer_address True (hm q) q s \<noteq> footer_address True (hm p) p s"
      using blocks_apart [OF assms(5-8)] footer_in [of s "hm p" p] footer_in [of s "hm q" q] assms(8) by auto
    then show ?thesis using assms(1,2,8) foot True by (simp add: header_ok_def touches_def)
  qed (use assms(1,2,8) in \<open>simp add: header_ok_def touches_def\<close>)
qed

lemma live_frame:
  assumes "live_ok g pl hm s lv" and "touches g (hm p) p s s'" and "bs_of s' = bs_of s"
    and "table_ok g s" and "blocks_ok pl hm s" and "pl p \<noteq> None" and "lv' = lv(p := None)" and "pl' = pl(p := x)"
  shows "live_ok g pl' hm s' lv'"
  using assms(1,3,7,8) header_frame [OF _ assms(2-6)] by (fastforce simp: live_ok_def)

lemma lists_frame:
  assumes "lists_ok pl hm fs s" and "tuned a s s'" and "\<And>x. x \<noteq> p \<Longrightarrow> word_at (xmem s') x = word_at (xmem s) x"
    and "\<And>b. known s b \<Longrightarrow> b \<noteq> a \<Longrightarrow> p \<notin> set (fs b)" and "pl' = pl(p := x)"
    and "linked (m_pHead (allocs s' a), word_at (xmem s')) fa" and "\<forall>q \<in> set fa. pl' q = Some (Free_in a) \<and> hm q = a"
  shows "lists_ok pl' hm (fs(a := fa)) s'"
proof -
  have "linked (m_pHead (allocs s' b), word_at (xmem s')) (fs b)" if "known s b" "b \<noteq> a" for b
  proof -
    have "linked (m_pHead (allocs s b), word_at (xmem s)) (fs b)" using assms(1) that by (simp add: lists_ok_def)
    moreover have "allocs s' b = allocs s b" using assms(2) that by (simp add: tuned_def)
    moreover have "chain (word_at (xmem s')) h (fs b) = chain (word_at (xmem s)) h (fs b)" for h
      by (rule chain_cong) (use assms(3,4) that in metis)
    ultimately show ?thesis by (simp add: linked_def)
  qed
  then show ?thesis
    using assms(1,4-7) tuned_known [OF assms(2)] by (fastforce simp: lists_ok_def)
qed

lemma not_in_other_list: "lists_ok pl hm fs s \<Longrightarrow> known s b \<Longrightarrow> pl p \<noteq> Some (Free_in b) \<Longrightarrow> p \<notin> set (fs b)"
  by (auto simp: lists_ok_def)

section \<open>Steps\<close>

text \<open>Only the statistics of an allocator, or nothing, have changed.\<close>

lemma xinv_quiet:
  assumes "xinv g pl hm fs cr w" and "tuned a (xstate w) s" and "known (xstate w) a"
    and "xmem s = xmem (xstate w)" and "magic_at s = magic_at (xstate w)" and "canary_at s = canary_at (xstate w)"
    and "m_pHead (allocs s a) = m_pHead (allocs (xstate w) a)" and "pc_ok g pl hm cr s t c"
  shows "xinv g pl hm fs cr \<lparr>xstate = s, pcs = (pcs w)(t := c), live = live w, aborted = aborted w\<rparr>"
proof (rule xinv_step [OF assms(1)])
  show "keeps t pl hm cr (xstate w) pl hm cr s" by (rule tuned_keeps [OF assms(2,3)]) simp
  show "table_ok g s" using assms(1) tuned_table [OF assms(2)] by (simp add: xinv_def)
  have "m_pHead (allocs s b) = m_pHead (allocs (xstate w) b)" for b
    using assms(2,7) by (cases "b = a") (simp_all add: tuned_def)
  then show "lists_ok pl hm fs s"
    using assms(1,4) tuned_known [OF assms(2)] by (simp add: xinv_def lists_ok_def)
  show "blocks_ok pl hm s"
    using assms(1,4) tuned_known [OF assms(2)] tuned_bs [OF assms(2)] by (simp add: xinv_def blocks_ok_def)
  have "footer_address h b p s = footer_address h b p (xstate w)" for h b p
    using fun_cong [OF tuned_bs [OF assms(2)], of b] by (simp add: footer_address_def bs_of_def)
  then show "live_ok g pl hm s (live w)"
    using assms(1,4-6) tuned_bs [OF assms(2)] by (simp add: xinv_def live_ok_def header_ok_def)
  show "aborted w \<longrightarrow> length (allocators s) = MAX_ALLOCATORS" using assms(1,2) by (simp add: xinv_def tuned_def)
qed (rule assms(8))

lemma set_pc_record:
  "set_pc t c (w\<lparr>xstate := s, live := lv\<rparr>)
    = \<lparr>xstate = s, pcs = (pcs w)(t := c), live = lv, aborted = aborted w\<rparr>"
  "set_pc t c (w\<lparr>xstate := s\<rparr>) = \<lparr>xstate = s, pcs = (pcs w)(t := c), live = live w, aborted = aborted w\<rparr>"
  by (cases w; simp add: set_pc_def)+

lemma tuned_refl: "tuned a s s"
  by (simp add: tuned_def same_shape_def)

lemma xinv_pc: "xinv g pl hm fs cr w \<Longrightarrow> pc_ok g pl hm cr (xstate w) t c \<Longrightarrow> xinv g pl hm fs cr (set_pc t c w)"
  using pc_frame [OF _ keeps_refl, of g pl hm cr "xstate w"] by (simp add: xinv_def set_pc_def)

lemma pc_okD: "xinv g pl hm fs cr w \<Longrightarrow> pcs w t = c \<Longrightarrow> pc_ok g pl hm cr (xstate w) t c"
  by (auto simp: xinv_def)

lemma find_known: "find_allocator n s = Some a \<Longrightarrow> known s a \<and> bs_of s a = n"
  by (auto simp: find_allocator_def find_Some_iff known_def bs_of_def)

lemma find_missing: "find_allocator n s = None \<Longrightarrow> known s a \<Longrightarrow> bs_of s a \<noteq> n"
  by (auto simp: find_allocator_def find_None_iff known_def bs_of_def)

lemma block_size_enough:
  assumes "unat n + BLOCK_HEADER_SIZE + BLOCK_FOOTER_SIZE g \<le> 2 ^ 63"
  shows "unat n + BLOCK_HEADER_SIZE + BLOCK_FOOTER_SIZE g \<le> block_size_for g n"
    and "least_block g \<le> block_size_for g n"
proof -
  let ?k = "n + of_nat BLOCK_HEADER_SIZE + of_nat (BLOCK_FOOTER_SIZE g)"
  have k: "unat ?k = unat n + BLOCK_HEADER_SIZE + BLOCK_FOOTER_SIZE g"
    using assms by (cases g) (simp_all add: unat_word_ariths BLOCK_HEADER_SIZE_def BLOCK_FOOTER_SIZE_def)
  obtain m where m: "block_size_for g n = 2 ^ m" "unat ?k \<le> 2 ^ m"
    using nexthigher_power [of ?k] assms k by (auto simp: block_size_for_def BLOCK_HEADER_SIZE_def)
  show "unat n + BLOCK_HEADER_SIZE + BLOCK_FOOTER_SIZE g \<le> block_size_for g n" using m k by simp
  show "least_block g \<le> block_size_for g n"
  proof (cases g)
    case True
    then have "2 ^ 4 < (2 :: nat) ^ m" using m k by (simp add: BLOCK_HEADER_SIZE_def BLOCK_FOOTER_SIZE_def)
    then have "4 < m" by (rule power_less_imp_less_exp [rotated]) simp
    then have "(2 :: nat) ^ 5 \<le> 2 ^ m" by (intro power_increasing) simp_all
    then show ?thesis using m True by (simp add: least_block_def)
  qed (use m k in \<open>simp add: least_block_def BLOCK_HEADER_SIZE_def\<close>)
qed

text \<open>The steps of \<^verbatim>\<open>xmalloc\<close>.\<close>

lemma step_find:
  assumes "xinv g pl hm fs cr w" and "pcs w t = Finding n"
  shows "\<exists>cr. xinv g pl hm fs cr (proceed g t (Finding n) w)"
proof (cases "find_allocator (block_size_for g n) (xstate w)")
  case (Some a)
  have "fitting g n (xstate w) a"
    using find_known [OF Some] pc_okD [OF assms] by (simp add: fitting_def)
  then show ?thesis using xinv_pc [OF assms(1), of t "Popping n a"] Some by auto
next
  case None
  let ?a = "fresh_alloc (xstate w)" and ?bs = "block_size_for g n"
  obtain s where s: "create_allocator ?bs (xstate w) = (?a, s)" by (simp add: create_allocator_def Let_def)
  then have mem: "xmem s = xmem (xstate w)" "magic_at s = magic_at (xstate w)" "canary_at s = canary_at (xstate w)"
    "allocators s = allocators (xstate w)" "fresh_alloc s = Suc ?a"
    and al: "\<And>b. b \<noteq> ?a \<Longrightarrow> allocs s b = allocs (xstate w) b" "allocs s ?a = fst (the (Allocator ?bs 0 None (xmem (xstate w))))"
    by (auto simp: create_allocator_def Let_def)
  have tab: "table_ok g (xstate w)" using assms(1) by (simp add: xinv_def)
  have known: "known s = known (xstate w)" by (simp add: known_def mem fun_eq_iff)
  have old: "allocs s b = allocs (xstate w) b" if "known (xstate w) b" for b
    using that tab al(1) by (auto simp: table_ok_def)
  then have bs: "bs_of s b = bs_of (xstate w) b" if "known (xstate w) b" for b using that by (simp add: bs_of_def)
  have foot: "footer_address h b p s = footer_address h b p (xstate w)" if "known (xstate w) b" for h b p
    using old [OF that] by (simp add: footer_address_def)
  have new: "m_pHead (allocs s ?a) = None" "m_maxObjects (allocs s ?a) = 0" "m_allocatorMode (allocs s ?a) = HEAP_BLOCKS"
    "bs_of s ?a = ?bs"
    using block_size_enough(2) [of n g] pc_okD [OF assms]
    by (auto simp: al(2) bs_of_def Allocator_def Let_def WORD_def least_block_def split: if_splits)
  have "keeps t pl hm cr (xstate w) pl hm (cr(?a := t)) s"
    using known bs al(1) by (auto simp: keeps_def private_alloc_def mem)
  then have "xinv g pl hm fs (cr(?a := t)) \<lparr>xstate = s, pcs = (pcs w)(t := Installing n ?a), live = live w, aborted = aborted w\<rparr>"
  proof (rule xinv_step [OF assms(1)])
    show "table_ok g s" using tab old bs by (simp add: table_ok_def known mem less_Suc_eq known_def cong: map_cong)
    show "lists_ok pl hm fs s" using assms(1) old by (simp add: xinv_def lists_ok_def known mem)
    have blk: "blocks_ok pl hm (xstate w)" using assms(1) by (simp add: xinv_def)
    then show "blocks_ok pl hm s" using bs by (simp add: blocks_ok_def known mem)
    show "live_ok g pl hm s (live w)"
      using assms(1) bs foot block_known [OF blk] by (simp add: xinv_def live_ok_def header_ok_def mem)
    have "\<not> known s ?a" using tab by (auto simp: known table_ok_def)
    then show "pc_ok g pl hm (cr(?a := t)) s t (Installing n ?a)"
      using new pc_okD [OF assms] by (simp add: private_alloc_def mem)
    show "aborted w \<longrightarrow> length (allocators s) = MAX_ALLOCATORS" using assms(1) by (simp add: xinv_def mem)
  qed
  then show ?thesis using None s by (auto simp: set_pc_record)
qed

lemma step_install:
  assumes "xinv g pl hm fs cr w" and "pcs w t = Installing n a" and "\<not> aborted w"
  shows "\<exists>fs. xinv g pl hm fs cr (proceed g t (Installing n a) w)"
proof (cases "find_allocator (block_size_for g n) (xstate w)")
  case (Some b)
  have "fitting g n (xstate w) b"
    using find_known [OF Some] pc_okD [OF assms(1,2)] by (simp add: fitting_def)
  then have "xinv g pl hm fs cr (set_pc t (Popping n b) w)" using assms(1) by (intro xinv_pc) simp_all
  then show ?thesis using Some by (auto simp: install_allocator_def)
next
  case None
  let ?s = "xstate w"
  show ?thesis
  proof (cases "length (allocators ?s) < MAX_ALLOCATORS")
    case False
    then have "length (allocators ?s) = MAX_ALLOCATORS" using assms(1) by (simp add: xinv_def table_ok_def)
    then have "xinv g pl hm fs cr (w\<lparr>xstate := ?s, aborted := True\<rparr>)" using assms(1) by (simp add: xinv_def)
    then show ?thesis using None False by (auto simp: install_allocator_def insert_allocator_def)
  next
    case True
    let ?s' = "?s\<lparr>allocators := allocators ?s @ [a]\<rparr>"
    note pc = pc_okD [OF assms(1,2), simplified]
    have known: "known ?s' b \<longleftrightarrow> known ?s b \<or> b = a" for b by (auto simp: known_def)
    have bs: "bs_of ?s' = bs_of ?s" by (simp add: bs_of_def fun_eq_iff)
    have new: "\<not> known ?s a" "a < fresh_alloc ?s" "cr a = t" using pc by (simp_all add: private_alloc_def)
    have "keeps t pl hm cr ?s pl hm cr ?s'"
      using new by (auto simp: keeps_def private_alloc_def known bs)
    then have "xinv g pl hm (fs(a := [])) cr \<lparr>xstate = ?s', pcs = (pcs w)(t := Popping n a), live = live w, aborted = aborted w\<rparr>"
    proof (rule xinv_step [OF assms(1)])
      have "\<forall>b. known ?s b \<longrightarrow> bs_of ?s b \<noteq> block_size_for g n" using find_missing [OF None] by blast
      then show "table_ok g ?s'"
        using assms(1) pc new True block_size_enough(2) [of n g]
        by (auto simp: xinv_def table_ok_def known bs known_def)
      show "lists_ok pl hm (fs(a := [])) ?s'"
        using assms(1) pc new by (auto simp: xinv_def lists_ok_def known linked_empty)
      show "blocks_ok pl hm ?s'" using assms(1) by (auto simp: xinv_def blocks_ok_def known bs)
      show "live_ok g pl hm ?s' (live w)"
        using assms(1) by (simp add: xinv_def live_ok_def header_ok_def footer_address_def bs)
      show "pc_ok g pl hm cr ?s' t (Popping n a)" using pc by (simp add: fitting_def known bs)
      show "aborted w \<longrightarrow> length (allocators ?s') = MAX_ALLOCATORS" using assms(3) by simp
    qed
    then show ?thesis using None True by (auto simp: install_allocator_def insert_allocator_def set_pc_record)
  qed
qed

lemma not_live: "xinv g pl hm fs cr w \<Longrightarrow> pl p \<noteq> Some Live \<Longrightarrow> live w p = None"
  by (cases "live w p") (auto simp: xinv_def live_ok_def)

lemma blocks_move:
  assumes "blocks_ok pl hm s" and "pl p \<noteq> None" and "bs_of s' = bs_of s" and "known s' = known s"
    and "heap_top (xmem s') = heap_top (xmem s)"
  shows "blocks_ok (pl(p := Some x)) hm s'"
proof -
  have "(pl(p := Some x)) q \<noteq> None \<longleftrightarrow> pl q \<noteq> None" for q using assms(2) by simp
  then show ?thesis using assms(1) by (simp only: blocks_ok_def assms(3-))
qed

lemma live_add:
  assumes "live_ok g pl hm s (lv(p := None))" and "pl p = Some Live" and "header_ok g (hm p) p s"
    and "n + BLOCK_HEADER_SIZE + BLOCK_FOOTER_SIZE g \<le> bs_of s (hm p)"
  shows "live_ok g pl hm s (lv(p := Some n))"
  unfolding live_ok_def
proof (intro allI impI)
  fix q k
  assume "(lv(p := Some n)) q = Some k"
  then show "pl q = Some Live \<and> header_ok g (hm q) q s
      \<and> k + BLOCK_HEADER_SIZE + BLOCK_FOOTER_SIZE g \<le> bs_of s (hm q)"
    using assms by (cases "q = p") (simp_all add: live_ok_def)
qed

lemma on_alloc_Pop:
  "xmalloc_pop a s =
    (case m_pHead (allocs s a) of
       None \<Rightarrow> (None, s\<lparr>allocs := (allocs s)(a := allocs s a)\<rparr>)
     | Some p \<Rightarrow> (Some p, s\<lparr>allocs := (allocs s)(a := AccountAlloc False ((allocs s a)\<lparr>m_pHead := word_at (xmem s) p\<rparr>))\<rparr>))"
  by (simp add: xmalloc_pop_def on_alloc_def Pop_def split: option.split)

lemma step_pop:
  assumes "xinv g pl hm fs cr w" and "pcs w t = Popping n a"
  shows "\<exists>pl fs. xinv g pl hm fs cr (proceed g t (Popping n a) w)"
proof (cases "m_pHead (allocs (xstate w) a)")
  case None
  have "xinv g pl hm fs cr (set_pc t (Newing n a) w)"
    using pc_okD [OF assms] by (intro xinv_pc [OF assms(1)]) simp
  then show ?thesis using None by (auto simp: on_alloc_Pop)
next
  case (Some p)
  let ?s = "xstate w"
  let ?s' = "?s\<lparr>allocs := (allocs ?s)(a := AccountAlloc False ((allocs ?s a)\<lparr>m_pHead := word_at (xmem ?s) p\<rparr>))\<rparr>"
  let ?pl = "pl(p := Some (With t))"
  have tab: "table_ok g ?s" and li: "lists_ok pl hm fs ?s" and blk: "blocks_ok pl hm ?s"
    using assms(1) by (simp_all add: xinv_def)
  have fit: "fitting g n ?s a" and known: "known ?s a" using pc_okD [OF assms] by (simp_all add: fitting_def)
  with li Some obtain ps where fsa: "fs a = p # ps" "linked (word_at (xmem ?s) p, word_at (xmem ?s)) ps" "p \<notin> set ps"
    by (cases "fs a") (auto simp: lists_ok_def linked_empty linked_Cons)
  with li known have p: "pl p = Some (Free_in a)" "hm p = a" by (auto simp: lists_ok_def)
  have tuned: "tuned a ?s ?s'" by (simp add: tuned_def same_shape_def AccountAlloc_def)
  have "keeps t pl hm cr ?s ?pl hm cr ?s'"
    by (rule tuned_keeps [OF tuned known]) (use p in auto)
  then have "xinv g ?pl hm (fs(a := ps)) cr
      \<lparr>xstate = ?s', pcs = (pcs w)(t := Heading n a p), live = live w, aborted = aborted w\<rparr>"
  proof (rule xinv_step [OF assms(1)])
    show "table_ok g ?s'" using tab tuned_table [OF tuned] by simp
    show "lists_ok ?pl hm (fs(a := ps)) ?s'"
    proof (rule lists_frame [OF li tuned _ _ refl])
      show "p \<notin> set (fs b)" if "known ?s b" "b \<noteq> a" for b
        by (rule not_in_other_list [OF li that(1)]) (use p that in simp)
      show "linked (m_pHead (allocs ?s' a), word_at (xmem ?s')) ps" using fsa by (simp add: AccountAlloc_def)
      show "\<forall>q \<in> set ps. ?pl q = Some (Free_in a) \<and> hm q = a" using li known fsa by (auto simp: lists_ok_def)
    qed simp
    show "blocks_ok ?pl hm ?s'"
      by (rule blocks_move [OF blk _ tuned_bs [OF tuned] tuned_known [OF tuned]]) (simp_all add: p)
    have "live w p = None" using not_live [OF assms(1)] p by simp
    then show "live_ok g ?pl hm ?s' (live w)"
      using assms(1) p by (intro live_frame [where lv = "live w", OF _ _ tuned_bs [OF tuned] tab blk _ _ refl])
        (simp_all add: xinv_def touches_def fun_upd_idem)
    show "pc_ok g ?pl hm cr ?s' t (Heading n a p)"
      using fit p tuned_bs [OF tuned] tuned_known [OF tuned] by (simp add: fitting_def)
    show "aborted w \<longrightarrow> length (allocators ?s') = MAX_ALLOCATORS" using assms(1) by (simp add: xinv_def)
  qed
  then show ?thesis using Some by (auto simp: on_alloc_Pop set_pc_record)
qed

lemma step_new:
  assumes "xinv g pl hm fs cr w" and "pcs w t = Newing n a"
  shows "\<exists>pl hm. xinv g pl hm fs cr (proceed g t (Newing n a) w)"
proof (cases "heap_new (m_blockSize (allocs (xstate w) a)) (xmem (xstate w))")
  case None
  have "xinv g pl hm fs cr (set_pc t Idle w)" by (intro xinv_pc [OF assms(1)]) simp
  then show ?thesis using None by (auto simp: new_block_def)
next
  case (Some pm)
  let ?s = "xstate w"
  let ?p = "heap_top (xmem ?s)"
  obtain m where pm: "pm = (?p, m)" and m: "word_at m = word_at (xmem ?s)" "heap_top m = ?p + bs_of ?s a"
    using Some by (cases pm) (auto simp: heap_new_def bs_of_def split: if_splits)
  let ?s' = "?s\<lparr>xmem := m\<rparr>"
  let ?pl = "pl(?p := Some (With t))" and ?hm = "hm(?p := a)"
  have tab: "table_ok g ?s" and li: "lists_ok pl hm fs ?s" and blk: "blocks_ok pl hm ?s"
    using assms(1) by (simp_all add: xinv_def)
  have fit: "fitting g n ?s a" and known: "known ?s a" using pc_okD [OF assms] by (simp_all add: fitting_def)
  have below: "q + bs_of ?s (hm q) \<le> ?p \<and> q < ?p" if "pl q \<noteq> None" for q
  proof -
    have "q + bs_of ?s (hm q) \<le> ?p" using blk that by (simp add: blocks_ok_def)
    moreover have "0 < bs_of ?s (hm q)"
      using known_size [OF tab block_known [OF blk that]] by (cases g) (simp_all add: least_block_def)
    ultimately show ?thesis by simp
  qed
  then have fresh: "pl ?p = None" by (cases "pl ?p") auto
  have same: "bs_of ?s' = bs_of ?s" "known ?s' = known ?s" by (simp_all add: bs_of_def known_def fun_eq_iff)
  have "keeps t pl hm cr ?s ?pl ?hm cr ?s'"
    using fresh by (auto simp: keeps_def private_alloc_def same)
  then have "xinv g ?pl ?hm fs cr
      \<lparr>xstate = ?s', pcs = (pcs w)(t := Accounting n a ?p), live = live w, aborted = aborted w\<rparr>"
  proof (rule xinv_step [OF assms(1)])
    show "table_ok g ?s'" using tab by (simp add: table_ok_def same)
    show "lists_ok ?pl ?hm fs ?s'" using li fresh by (fastforce simp: lists_ok_def same m)
    show "blocks_ok ?pl ?hm ?s'"
      unfolding blocks_ok_def
    proof (intro conjI allI impI)
      fix q assume "?pl q \<noteq> None"
      then show "known ?s' (?hm q)" and "q + bs_of ?s' (?hm q) \<le> heap_top (xmem ?s')"
        using known block_known [OF blk, of q] below [of q] by (cases "q = ?p"; simp add: same m)+
    next
      fix q q' assume "?pl q \<noteq> None \<and> ?pl q' \<noteq> None \<and> q < q'"
      then show "q + bs_of ?s' (?hm q) \<le> q'"
        using blk below [of q] below [of q'] by (cases "q = ?p"; cases "q' = ?p") (simp_all add: blocks_ok_def same)
    qed
    show "live_ok g ?pl ?hm ?s' (live w)"
      using assms(1) not_live [OF assms(1), of ?p] fresh
      by (auto simp: xinv_def live_ok_def header_ok_def same m footer_address_def)
    show "pc_ok g ?pl ?hm cr ?s' t (Accounting n a ?p)" using fit by (simp add: fitting_def same)
    show "aborted w \<longrightarrow> length (allocators ?s') = MAX_ALLOCATORS" using assms(1) by (simp add: xinv_def)
  qed
  then show ?thesis using Some pm by (auto simp: new_block_def set_pc_record)
qed

lemma step_account:
  assumes "xinv g pl hm fs cr w" and "pcs w t = Accounting n a p"
  shows "xinv g pl hm fs cr (proceed g t (Accounting n a p) w)"
proof -
  let ?s = "xmalloc_account a (xstate w)"
  have s: "?s = (xstate w)\<lparr>allocs := (allocs (xstate w))(a := AccountAlloc True (allocs (xstate w) a))\<rparr>"
    by (simp add: xmalloc_account_def on_alloc_def)
  have tuned: "tuned a (xstate w) ?s" by (simp add: s tuned_def same_shape_def AccountAlloc_def)
  have "xinv g pl hm fs cr \<lparr>xstate = ?s, pcs = (pcs w)(t := Heading n a p), live = live w, aborted = aborted w\<rparr>"
    using pc_okD [OF assms] tuned_bs [OF tuned] tuned_known [OF tuned]
    by (intro xinv_quiet [OF assms(1) tuned]) (simp_all add: s AccountAlloc_def fitting_def)
  then show ?thesis by (simp add: set_pc_record)
qed

lemma step_heading:
  assumes "xinv g pl hm fs cr w" and "pcs w t = Heading n a p"
  shows "\<exists>pl. xinv g pl hm fs cr (proceed g t (Heading n a p) w)"
proof -
  let ?s = "xstate w"
  obtain s' where s': "set_block_allocator g a p ?s = (p + BLOCK_HEADER_SIZE, s')"
    by (simp add: set_block_allocator_def Let_def)
  let ?pl = "pl(p := Some Live)"
  have tab: "table_ok g ?s" and li: "lists_ok pl hm fs ?s" and blk: "blocks_ok pl hm ?s"
    using assms(1) by (simp_all add: xinv_def)
  have fit: "fitting g n ?s a" and known: "known ?s a" and p: "pl p = Some (With t)" "hm p = a"
    using pc_okD [OF assms] by (simp_all add: fitting_def)
  have same: "allocs s' = allocs ?s" "allocators s' = allocators ?s" "fresh_alloc s' = fresh_alloc ?s"
    "heap_top (xmem s') = heap_top (xmem ?s)"
    using s' by (auto simp: set_block_allocator_def Let_def split: if_splits)
  have touch: "touches g a p ?s s'"
    using s' by (auto simp: set_block_allocator_def Let_def touches_def footer_address_def split: if_splits)
  have tuned: "tuned a ?s s'" by (simp add: tuned_def same same_shape_def)
  note eqs = tuned_bs [OF tuned] tuned_known [OF tuned]
  have "keeps t pl hm cr ?s ?pl hm cr s'" by (rule tuned_keeps [OF tuned known]) (use p in auto)
  then have "xinv g ?pl hm (fs(a := fs a)) cr
      \<lparr>xstate = s', pcs = (pcs w)(t := Idle), live = (live w)(p := Some (unat n)), aborted = aborted w\<rparr>"
  proof (rule xinv_step [OF assms(1)])
    show "table_ok g s'" using tab tuned_table [OF tuned] by simp
    have words: "\<And>x. x \<noteq> p \<Longrightarrow> word_at (xmem s') x = word_at (xmem ?s) x" using touch by (simp add: touches_def)
    have out: "p \<notin> set (fs b)" if "known ?s b" for b
      by (rule not_in_other_list [OF li that]) (use p in simp)
    show "lists_ok ?pl hm (fs(a := fs a)) s'"
    proof (rule lists_frame [OF li tuned words _ refl])
      have "chain (word_at (xmem s')) h (fs a) = chain (word_at (xmem ?s)) h (fs a)" for h
        by (rule chain_cong) (use out [OF known] words in metis)
      then show "linked (m_pHead (allocs s' a), word_at (xmem s')) (fs a)"
        using li known by (simp add: lists_ok_def linked_def same)
      show "\<forall>q \<in> set (fs a). ?pl q = Some (Free_in a) \<and> hm q = a" using li known out [OF known] by (auto simp: lists_ok_def)
    qed (use out in auto)
    show "blocks_ok ?pl hm s'" by (rule blocks_move [OF blk _ eqs same(4)]) (simp add: p)
    have "header_ok g a p s'"
    proof (cases g)
      case True
      then have "32 \<le> bs_of ?s a" using known_size [OF tab known] by (simp add: least_block_def)
      with True s' show ?thesis
        using footer_in [of ?s a p]
        by (auto simp: header_ok_def set_block_allocator_def Let_def footer_address_def)
    qed (use s' in \<open>auto simp: header_ok_def set_block_allocator_def Let_def\<close>)
    moreover have "live_ok g ?pl hm s' ((live w)(p := None))"
      by (rule live_frame [OF _ _ eqs(1) tab blk _ refl refl]) (use assms(1) touch p in \<open>auto simp: xinv_def\<close>)
    ultimately show "live_ok g ?pl hm s' ((live w)(p := Some (unat n)))"
      using fit p block_size_enough(1) [of n g] by (intro live_add) (simp_all add: eqs fitting_def)
    show "aborted w \<longrightarrow> length (allocators s') = MAX_ALLOCATORS" using assms(1) by (simp add: xinv_def same)
  qed simp
  then show ?thesis using s' by (auto simp: set_pc_record)
qed

lemma push_heap_blocks:
  assumes "m_allocatorMode (allocs s a) = HEAP_BLOCKS"
  shows "\<exists>al. xfree_push g a p s = s\<lparr>allocs := (allocs s)(a := al),
            xmem := (xmem s)\<lparr>word_at := (word_at (xmem s))(p := m_pHead (allocs s a))\<rparr>\<rparr>
          \<and> same_shape ((allocs s a)\<lparr>m_blocksInUse := m_blocksInUse al\<rparr>) al \<and> m_pHead al = Some p"
  using assms
  by (intro exI [of _ "(allocs s a)\<lparr>m_pHead := Some p, m_blocksInUse := m_blocksInUse (allocs s a) - 1,
        m_deallocations := m_deallocations (allocs s a) + 1\<rparr>"])
    (simp add: xfree_push_def on_alloc_def Deallocate_def Push_def Let_def same_shape_def)

lemma step_push:
  assumes "xinv g pl hm fs cr w" and "pcs w t = Pushing a p"
  shows "\<exists>pl fs. xinv g pl hm fs cr (proceed g t (Pushing a p) w)"
proof -
  let ?s = "xstate w"
  let ?pl = "pl(p := Some (Free_in a))"
  have tab: "table_ok g ?s" and li: "lists_ok pl hm fs ?s" and blk: "blocks_ok pl hm ?s"
    using assms(1) by (simp_all add: xinv_def)
  have known: "known ?s a" and p: "pl p = Some (With t)" "hm p = a"
    using pc_okD [OF assms] by simp_all
  have "m_allocatorMode (allocs ?s a) = HEAP_BLOCKS" using tab known by (simp add: table_ok_def)
  from push_heap_blocks [OF this, of g p] obtain s' al where s': "xfree_push g a p ?s = s'"
    and s'_def: "s' = ?s\<lparr>allocs := (allocs ?s)(a := al),
            xmem := (xmem ?s)\<lparr>word_at := (word_at (xmem ?s))(p := m_pHead (allocs ?s a))\<rparr>\<rparr>"
    and al: "same_shape ((allocs ?s a)\<lparr>m_blocksInUse := m_blocksInUse al\<rparr>) al" and head: "m_pHead al = Some p" by blast
  have tuned: "tuned a ?s s'" using al by (simp add: tuned_def s'_def same_shape_def)
  note eqs = tuned_bs [OF tuned] tuned_known [OF tuned]
  have out: "p \<notin> set (fs b)" if "known ?s b" for b
    by (rule not_in_other_list [OF li that]) (use p in simp)
  have "keeps t pl hm cr ?s ?pl hm cr s'" by (rule tuned_keeps [OF tuned known]) (use p in auto)
  then have "xinv g ?pl hm (fs(a := p # fs a)) cr
      \<lparr>xstate = s', pcs = (pcs w)(t := Idle), live = live w, aborted = aborted w\<rparr>"
  proof (rule xinv_step [OF assms(1)])
    show "table_ok g s'" using tab tuned_table [OF tuned] by simp
    show "lists_ok ?pl hm (fs(a := p # fs a)) s'"
    proof (rule lists_frame [OF li tuned _ _ refl])
      show "linked (m_pHead (allocs s' a), word_at (xmem s')) (p # fs a)"
        using li known out [OF known] by (simp add: s'_def head linked_Cons linked_upd lists_ok_def)
      show "\<forall>q \<in> set (p # fs a). ?pl q = Some (Free_in a) \<and> hm q = a"
        using li known p by (auto simp: lists_ok_def)
    qed (use out in \<open>auto simp: s'_def\<close>)
    show "blocks_ok ?pl hm s'" by (rule blocks_move [OF blk _ eqs]) (simp_all add: p s'_def)
    have "live w p = None" using not_live [OF assms(1)] p by simp
    then show "live_ok g ?pl hm s' (live w)"
      using assms(1) p by (intro live_frame [where lv = "live w", OF _ _ eqs(1) tab blk _ _ refl])
        (simp_all add: xinv_def touches_def fun_upd_idem s'_def)
    show "aborted w \<longrightarrow> length (allocators s') = MAX_ALLOCATORS" using assms(1) by (simp add: xinv_def s'_def)
  qed simp
  then show ?thesis using s' by (auto simp: set_pc_record)
qed

text \<open>A call of \<^verbatim>\<open>xfree\<close> on a block that is held never fails an assertion.\<close>

lemma held_header:
  assumes "live_ok g pl hm s lv" and "lv p = Some n"
  shows "get_block_allocator g (p + BLOCK_HEADER_SIZE) s = Some (hm p)"
  using assms by (cases g) (auto simp: live_ok_def header_ok_def get_block_allocator_def Let_def XALLOC_MAGIC_def XALLOC_FREED_def)

lemma step_free:
  assumes "xinv g pl hm fs cr w" and "live w p = Some n"
    and "xfree_begin g (p + BLOCK_HEADER_SIZE) (xstate w) = r"
  shows "\<exists>s. r = Some (hm p, p, s)
    \<and> xinv g (pl(p := Some (With t))) hm fs cr
       \<lparr>xstate = s, pcs = (pcs w)(t := Pushing (hm p) p), live = (live w)(p := None), aborted = aborted w\<rparr>"
proof -
  let ?s = "xstate w" and ?pl = "pl(p := Some (With t))"
  let ?s' = "if g then ?s\<lparr>magic_at := (magic_at ?s)(p + 8 := XALLOC_FREED)\<rparr> else ?s"
  have tab: "table_ok g ?s" and li: "lists_ok pl hm fs ?s" and blk: "blocks_ok pl hm ?s"
    and lv: "live_ok g pl hm ?s (live w)"
    using assms(1) by (simp_all add: xinv_def)
  have r: "r = Some (hm p, p, ?s')"
    using assms(3) held_header [OF lv assms(2)] by (auto simp: xfree_begin_def get_block_ptr_def Let_def)
  have p: "pl p = Some Live" using lv assms(2) by (simp add: live_ok_def)
  then have known: "known ?s (hm p)" using block_known [OF blk] by simp
  have same: "allocs ?s' = allocs ?s" "allocators ?s' = allocators ?s" "xmem ?s' = xmem ?s" "fresh_alloc ?s' = fresh_alloc ?s" by simp_all
  then have eqs: "bs_of ?s' = bs_of ?s" "known ?s' = known ?s" by (simp_all add: bs_of_def known_def fun_eq_iff)
  have "keeps t pl hm cr ?s ?pl hm cr ?s'" using p by (auto simp: keeps_def private_alloc_def eqs same)
  then have "xinv g ?pl hm fs cr
       \<lparr>xstate = ?s', pcs = (pcs w)(t := Pushing (hm p) p), live = (live w)(p := None), aborted = aborted w\<rparr>"
  proof (rule xinv_step [OF assms(1)])
    show "table_ok g ?s'" using tab by (simp add: table_ok_def eqs same)
    show "lists_ok ?pl hm fs ?s'" using li p by (fastforce simp: lists_ok_def eqs same)
    show "blocks_ok ?pl hm ?s'" by (rule blocks_move [OF blk _ eqs]) (simp_all add: p same)
    show "live_ok g ?pl hm ?s' ((live w)(p := None))"
      by (rule live_frame [OF lv _ eqs(1) tab blk _ refl refl]) (simp_all add: p touches_def)
    show "pc_ok g ?pl hm cr ?s' t (Pushing (hm p) p)" using known by (simp add: eqs)
    show "aborted w \<longrightarrow> length (allocators ?s') = MAX_ALLOCATORS" using assms(1) by (simp add: xinv_def same)
  qed
  with r show ?thesis by blast
qed

text \<open>Clients write into what they hold.\<close>

lemma held_fits:
  "xinv g pl hm fs cr w \<Longrightarrow> live w p = Some n \<Longrightarrow>
    pl p = Some Live \<and> n + BLOCK_HEADER_SIZE + BLOCK_FOOTER_SIZE g \<le> bs_of (xstate w) (hm p)"
  by (simp add: xinv_def live_ok_def)

lemma usable_apart:
  assumes "xinv g pl hm fs cr w" and "usable w x k" and "0 < k" and "pl q \<noteq> None"
  shows "x \<noteq> q"
proof -
  from assms(2) obtain p n where p: "live w p = Some n" "p + BLOCK_HEADER_SIZE \<le> x" "x + k \<le> p + BLOCK_HEADER_SIZE + n"
    by (auto simp: usable_def)
  have "pl p = Some Live" "n + BLOCK_HEADER_SIZE \<le> bs_of (xstate w) (hm p)" and blk: "blocks_ok pl hm (xstate w)"
    using held_fits [OF assms(1) p(1)] assms(1) by (simp_all add: xinv_def)
  then show ?thesis
    using blocks_apart [OF blk, of p q] assms(3,4) p by (cases "p = q") (auto simp: BLOCK_HEADER_SIZE_def)
qed

lemma step_poke:
  assumes "xinv g pl hm fs cr w" and "usable w x WORD"
  shows "xinv g pl hm fs cr
    (w\<lparr>xstate := (xstate w)\<lparr>xmem := (xmem (xstate w))\<lparr>word_at := (word_at (xmem (xstate w)))(x := v)\<rparr>\<rparr>\<rparr>)"
proof -
  let ?s = "xstate w"
  let ?s' = "?s\<lparr>xmem := (xmem ?s)\<lparr>word_at := (word_at (xmem ?s))(x := v)\<rparr>\<rparr>"
  have ne: "x \<noteq> q" if "pl q \<noteq> None" for q
    by (rule usable_apart [OF assms _ that]) (simp add: WORD_def)
  have eqs: "bs_of ?s' = bs_of ?s" "known ?s' = known ?s" by (simp_all add: bs_of_def known_def fun_eq_iff)
  have li: "lists_ok pl hm fs ?s" using assms(1) by (simp add: xinv_def)
  have "x \<notin> set (fs a)" if "known ?s a" for a using ne li that by (auto simp: lists_ok_def)
  with li have "lists_ok pl hm fs ?s'" by (simp add: lists_ok_def eqs linked_upd)
  moreover have "table_ok g ?s'" using assms(1) by (simp add: xinv_def table_ok_def eqs)
  moreover have "blocks_ok pl hm ?s'" using assms(1) by (simp add: xinv_def blocks_ok_def eqs)
  moreover have "live_ok g pl hm ?s' (live w)"
    using assms(1) ne by (fastforce simp: xinv_def live_ok_def header_ok_def eqs footer_address_def)
  moreover have "keeps t pl hm cr ?s pl hm cr ?s'" for t by (simp add: keeps_def private_alloc_def eqs)
  then have "pc_ok g pl hm cr ?s' t (pcs w t)" for t
    using pc_frame [of g pl hm cr ?s t "pcs w t" "Suc t"] pc_okD [OF assms(1) refl] by simp
  ultimately show ?thesis using assms(1) by (simp add: xinv_def)
qed

lemma xinv_data: "xinv g pl hm fs cr (w\<lparr>xstate := (xstate w)\<lparr>data_at := d\<rparr>\<rparr>) = xinv g pl hm fs cr w"
proof -
  let ?s' = "(xstate w)\<lparr>data_at := d\<rparr>"
  have eqs: "bs_of ?s' = bs_of (xstate w)" "known ?s' = known (xstate w)" by (simp_all add: bs_of_def known_def fun_eq_iff)
  have "pc_ok g pl hm cr ?s' t c = pc_ok g pl hm cr (xstate w) t c" for t c
    by (cases c) (simp_all add: fitting_def eqs private_alloc_def)
  then show ?thesis
    by (simp add: xinv_def table_ok_def lists_ok_def blocks_ok_def live_ok_def header_ok_def footer_address_def eqs)
qed

theorem step_xinv:
  assumes "\<exists>pl hm fs cr. xinv g pl hm fs cr w"
  shows "\<exists>pl hm fs cr. xinv g pl hm fs cr (xstep g e w)"
proof (cases "aborted w")
  case True
  then show ?thesis using assms by (simp add: xstep_def)
next
  case False
  from assms obtain pl hm fs cr where inv: "xinv g pl hm fs cr w" by blast
  show ?thesis
  proof (cases e)
    case (Malloc t n)
    then show ?thesis using inv xinv_pc [OF inv, of t "Finding n"] False by (auto simp: xstep_def)
  next
    case (Free t ptr)
    show ?thesis
    proof (cases "pcs w t = Idle \<and> BLOCK_HEADER_SIZE \<le> ptr \<and> live w (get_block_ptr ptr) \<noteq> None")
      case True
      then obtain n where n: "live w (get_block_ptr ptr) = Some n" by auto
      have "ptr = get_block_ptr ptr + BLOCK_HEADER_SIZE" using True by (simp add: get_block_ptr_def)
      with step_free [OF inv n refl, where t = t] obtain s where
        "xfree_begin g ptr (xstate w) = Some (hm (get_block_ptr ptr), get_block_ptr ptr, s)"
        "xinv g (pl(get_block_ptr ptr := Some (With t))) hm fs cr
         \<lparr>xstate = s, pcs = (pcs w)(t := Pushing (hm (get_block_ptr ptr)) (get_block_ptr ptr)),
          live = (live w)(get_block_ptr ptr := None), aborted = aborted w\<rparr>" by auto
      then show ?thesis using True False Free by (auto simp: xstep_def set_pc_record)
    qed (use Free False inv in \<open>auto simp: xstep_def\<close>)
  next
    case (Proceed t)
    have "\<exists>pl hm fs cr. xinv g pl hm fs cr (proceed g t (pcs w t) w)"
    proof (cases "pcs w t")
      case Idle
      then show ?thesis using inv by auto
    next
      case (Finding n)
      from step_find [OF inv Finding] show ?thesis unfolding Finding by blast
    next
      case (Installing n a)
      from step_install [OF inv Installing False] show ?thesis unfolding Installing by blast
    next
      case (Popping n a)
      from step_pop [OF inv Popping] show ?thesis unfolding Popping by blast
    next
      case (Newing n a)
      from step_new [OF inv Newing] show ?thesis unfolding Newing by blast
    next
      case (Accounting n a p)
      from step_account [OF inv Accounting] show ?thesis unfolding Accounting by blast
    next
      case (Heading n a p)
      from step_heading [OF inv Heading] show ?thesis unfolding Heading by blast
    next
      case (Pushing a p)
      from step_push [OF inv Pushing] show ?thesis unfolding Pushing by blast
    qed
    then show ?thesis using Proceed False by (simp add: xstep_def)
  next
    case (Poke x v)
    then show ?thesis using step_poke [OF inv, of x v] inv False by (auto simp: xstep_def)
  next
    case (Put x b)
    then show ?thesis using inv False by (auto simp: xstep_def xinv_data)
  qed
qed

lemma init_xinv: "\<exists>pl hm fs cr. xinv g pl hm fs cr (xworld_init base left)"
  by (rule exI [of _ "\<lambda>_. None"])
    (simp add: xinv_def xworld_init_def xalloc_init_def table_ok_def lists_ok_def blocks_ok_def live_ok_def known_def)

lemma run_xinv: "\<exists>pl hm fs cr. xinv g pl hm fs cr (fold (xstep g) es (xworld_init base left))"
proof (induction es rule: rev_induct)
  case Nil
  show ?case using init_xinv by simp
next
  case (snoc e es)
  then show ?case using step_xinv by simp
qed

section \<open>Properties\<close>


lemma block_size_24 [simp]: "block_size_for True 24 = 64" "block_size_for False 0x8000000000000000 = 0" "block_size_for True 8 = 32"
  by (simp_all add: block_size_for_def nexthigher_def smear_def BLOCK_HEADER_SIZE_def BLOCK_FOOTER_SIZE_def)

lemmas xalloc_eval = xstep_def set_pc_def xworld_init_def xalloc_init_def find_allocator_def insert_allocator_def
  create_allocator_def install_allocator_def on_alloc_Pop new_block_def heap_new_def xmalloc_account_def on_alloc_def
  set_block_allocator_def Allocator_def AccountAlloc_def get_block_allocator_def footer_address_def
  BLOCK_HEADER_SIZE_def BLOCK_FOOTER_SIZE_def MAX_ALLOCATORS_def WORD_def Let_def

definition two_threads :: "xevent list" where
  "two_threads = [Malloc 0 24, Malloc 1 24, Proceed 0, Proceed 1, Proceed 1, Proceed 0, Proceed 0, Proceed 1,
     Proceed 1, Proceed 0, Proceed 0, Proceed 1, Proceed 0, Proceed 1]"

lemma two_threads_held:
  "live (fold (xstep True) two_threads (xworld_init 4096 1000)) 4096 = Some 24
   \<and> live (fold (xstep True) two_threads (xworld_init 4096 1000)) 4160 = Some 24"
  by (simp add: two_threads_def xalloc_eval)


text \<open>
  A request of more than half of the address space overflows the rounding: it is served with a block
  of eight bytes, and the pointer returned lies behind that block.
\<close>

lemma huge_request_small_block:
  "case xmalloc False 0x8000000000000000 (xalloc_init 4096 1000) of
     (r, s) \<Rightarrow> r = Ptr 4112 \<and> heap_top (xmem s) = 4104"
  by (simp add: xmalloc_def xallocator_get_allocator_def xalloc_eval)

section \<open>The functions of one thread\<close>

text \<open>A thread that runs alone does what the functions say.\<close>

definition runs :: "bool \<Rightarrow> nat \<Rightarrow> xworld \<Rightarrow> xworld \<Rightarrow> bool" where
  "runs g t w w' \<longleftrightarrow> (\<exists>k. fold (xstep g) (replicate k (Proceed t)) w = w')"

lemma runs_refl: "runs g t w w"
  unfolding runs_def by (rule exI [of _ 0]) simp

lemma runs_step:
  assumes "\<not> aborted w" and "proceed g t (pcs w t) w = w1" and "runs g t w1 w'"
  shows "runs g t w w'"
proof -
  from assms(3) obtain k where "fold (xstep g) (replicate k (Proceed t)) w1 = w'"
    by (auto simp: runs_def)
  with assms(1,2) have "fold (xstep g) (replicate (Suc k) (Proceed t)) w = w'" by (simp add: xstep_def)
  then show ?thesis unfolding runs_def by blast
qed

text \<open>What follows the search for the allocator.\<close>

definition xmalloc_from :: "bool \<Rightarrow> nat \<Rightarrow> xalloc \<Rightarrow> xresult \<times> xalloc" where
  "xmalloc_from g a s1 =
     (case xmalloc_pop a s1 of
        (Some p, s2) \<Rightarrow> (case set_block_allocator g a p s2 of (u, s3) \<Rightarrow> (Ptr u, s3))
      | (None, s2) \<Rightarrow>
          (case new_block a s2 of
             (None, s3) \<Rightarrow> (Throws, s3)
           | (Some p, s3) \<Rightarrow> (case set_block_allocator g a p (xmalloc_account a s3) of (u, s4) \<Rightarrow> (Ptr u, s4))))"

lemma xmalloc_eq:
  "xmalloc g n s = (case xallocator_get_allocator g n s of
     (None, s1) \<Rightarrow> (Aborts, s1) | (Some a, s1) \<Rightarrow> xmalloc_from g a s1)"
  by (simp add: xmalloc_def xmalloc_from_def split: prod.split option.split)

abbreviation at_pc :: "(nat \<Rightarrow> xpc) \<Rightarrow> (addr \<Rightarrow> nat option) \<Rightarrow> nat \<Rightarrow> xpc \<Rightarrow> xalloc \<Rightarrow> xworld" where
  "at_pc c lv t pc s \<equiv> \<lparr>xstate = s, pcs = c(t := pc), live = lv, aborted = False\<rparr>"

lemma runs_popping:
  assumes "xmalloc_from g a s1 = (Ptr u, s)"
  shows "\<exists>p s2. set_block_allocator g a p s2 = (u, s)
    \<and> runs g t (at_pc c lv t (Popping n a) s1) (at_pc c lv t (Heading n a p) s2)"
proof -
  obtain r s2 where pop: "xmalloc_pop a s1 = (r, s2)" by fastforce
  show ?thesis
  proof (cases r)
    case (Some p)
    then have "set_block_allocator g a p s2 = (u, s)" using assms(1) pop by (auto simp: xmalloc_from_def split: prod.splits)
    moreover have "runs g t (at_pc c lv t (Popping n a) s1) (at_pc c lv t (Heading n a p) s2)"
      by (rule runs_step [OF _ _ runs_refl]) (simp_all add: pop Some set_pc_def)
    ultimately show ?thesis by blast
  next
    case None
    with assms(1) pop obtain p s3 where new: "new_block a s2 = (Some p, s3)"
      and set: "set_block_allocator g a p (xmalloc_account a s3) = (u, s)"
      by (auto simp: xmalloc_from_def split: prod.splits option.splits)
    have "runs g t (at_pc c lv t (Accounting n a p) s3) (at_pc c lv t (Heading n a p) (xmalloc_account a s3))"
      by (rule runs_step [OF _ _ runs_refl]) (simp_all add: set_pc_def)
    then have "runs g t (at_pc c lv t (Newing n a) s2) (at_pc c lv t (Heading n a p) (xmalloc_account a s3))"
      by (rule runs_step [rotated 2]) (simp_all add: new set_pc_def)
    then have "runs g t (at_pc c lv t (Popping n a) s1) (at_pc c lv t (Heading n a p) (xmalloc_account a s3))"
      by (rule runs_step [rotated 2]) (simp_all add: pop None set_pc_def)
    with set show ?thesis by blast
  qed
qed

text \<open>A call of \<^verbatim>\<open>xmalloc\<close> by a thread that is not interrupted: up to the writing of the header, and all of it.\<close>

lemma xmalloc_to_heading:
  assumes "\<not> aborted w" and "pcs w t = Idle" and "unat n + BLOCK_HEADER_SIZE + BLOCK_FOOTER_SIZE g \<le> 2 ^ 63"
    and "xmalloc g n (xstate w) = (Ptr u, s)"
  shows "\<exists>k a p s2. fold (xstep g) (Malloc t n # replicate k (Proceed t)) w = at_pc (pcs w) (live w) t (Heading n a p) s2
    \<and> set_block_allocator g a p s2 = (u, s)"
proof -
  obtain s0 c lv where w: "w = \<lparr>xstate = s0, pcs = c, live = lv, aborted = False\<rparr>"
    using assms(1) by (cases w) auto
  have "\<exists>a p s2. set_block_allocator g a p s2 = (u, s)
    \<and> runs g t (at_pc c lv t (Finding n) s0) (at_pc c lv t (Heading n a p) s2)"
  proof (cases "find_allocator (block_size_for g n) s0")
    case (Some a)
    then have "xmalloc_from g a s0 = (Ptr u, s)"
      using assms(4) w by (simp add: xmalloc_eq xallocator_get_allocator_def Let_def)
    from runs_popping [OF this] obtain p s2 where set: "set_block_allocator g a p s2 = (u, s)"
      and rest: "runs g t (at_pc c lv t (Popping n a) s0) (at_pc c lv t (Heading n a p) s2)" by blast
    from rest have "runs g t (at_pc c lv t (Finding n) s0) (at_pc c lv t (Heading n a p) s2)"
      by (rule runs_step [rotated 2]) (simp_all add: Some set_pc_def)
    with set show ?thesis by blast
  next
    case None
    obtain a s1 where cr: "create_allocator (block_size_for g n) s0 = (a, s1)" by fastforce
    from assms(4) w None cr obtain b s3 where ins: "install_allocator (block_size_for g n) a s1 = (Some b, s3)"
      and "xmalloc_from g b s3 = (Ptr u, s)"
      by (auto simp: xmalloc_eq xallocator_get_allocator_def Let_def split: prod.splits option.splits)
    from runs_popping [OF this(2)] obtain p s2 where set: "set_block_allocator g b p s2 = (u, s)"
      and rest: "runs g t (at_pc c lv t (Popping n b) s3) (at_pc c lv t (Heading n b p) s2)" by blast
    from rest have "runs g t (at_pc c lv t (Installing n a) s1) (at_pc c lv t (Heading n b p) s2)"
      by (rule runs_step [rotated 2]) (simp_all add: ins set_pc_def)
    then have "runs g t (at_pc c lv t (Finding n) s0) (at_pc c lv t (Heading n b p) s2)"
      by (rule runs_step [rotated 2]) (simp_all add: None cr set_pc_def)
    with set show ?thesis by blast
  qed
  moreover have "xstep g (Malloc t n) w = at_pc c lv t (Finding n) s0"
    using assms(2,3) by (simp add: w xstep_def set_pc_def)
  ultimately show ?thesis using w by (auto simp: runs_def)
qed

lemma xmalloc_steps:
  assumes "\<not> aborted w" and "pcs w t = Idle" and "unat n + BLOCK_HEADER_SIZE + BLOCK_FOOTER_SIZE g \<le> 2 ^ 63"
    and "xmalloc g n (xstate w) = (Ptr u, s)" and "\<exists>pl hm fs cr. xinv g pl hm fs cr w"
  shows "live w (get_block_ptr u) = None
    \<and> (\<exists>es. fold (xstep g) es w = w\<lparr>xstate := s, live := (live w)(get_block_ptr u := Some (unat n))\<rparr>)"
proof -
  from xmalloc_to_heading [OF assms(1-4)] obtain k a p s2
    where run: "fold (xstep g) (Malloc t n # replicate k (Proceed t)) w = at_pc (pcs w) (live w) t (Heading n a p) s2"
    and set: "set_block_allocator g a p s2 = (u, s)" by blast
  have u: "get_block_ptr u = p" using set by (auto simp: set_block_allocator_def Let_def get_block_ptr_def)
  have "\<exists>pl hm fs cr. xinv g pl hm fs cr (fold (xstep g) es w)" for es
    using assms(5) step_xinv by (induction es rule: rev_induct) simp_all
  from this [of "Malloc t n # replicate k (Proceed t)"] obtain pl hm fs cr where
    inv: "xinv g pl hm fs cr (at_pc (pcs w) (live w) t (Heading n a p) s2)" unfolding run by blast
  from pc_okD [OF inv, of t "Heading n a p"] have "pl p = Some (With t)" by simp
  with not_live [OF inv, of p] have "live w p = None" by simp
  moreover have "(pcs w)(t := Idle) = pcs w" using assms(2) by (auto simp: fun_upd_idem)
  then have "fold (xstep g) ((Malloc t n # replicate k (Proceed t)) @ [Proceed t]) w
    = w\<lparr>xstate := s, live := (live w)(get_block_ptr u := Some (unat n))\<rparr>"
    using assms(1) u set by (simp only: fold_append comp_apply run) (simp add: xstep_def set_pc_def)
  ultimately show ?thesis using u by blast
qed

lemma on_alloc_data: "data_at (snd (on_alloc a f s)) = data_at s"
  by (simp add: on_alloc_def split: prod.split)

lemma xfree_push_data [simp]: "data_at (xfree_push g a p s) = data_at s"
  by (simp add: xfree_push_def on_alloc_data)

lemma data_kept:
  "xmalloc g n s = (r, s') \<Longrightarrow> data_at s' = data_at s"
  "xfree g ptr s = Some s' \<Longrightarrow> data_at s' = data_at s"
  by (auto simp: xmalloc_def xallocator_get_allocator_def create_allocator_def install_allocator_def insert_allocator_def
      on_alloc_Pop new_block_def xmalloc_account_def on_alloc_data set_block_allocator_def Let_def
      split: prod.splits option.splits if_splits)
    (auto simp: xfree_def xfree_begin_def Let_def split: option.splits if_splits)

lemma xrealloc_cases:
  assumes "xrealloc g ptr n s = (Ptr u, s')" and "ptr \<noteq> 0" and "n \<noteq> 0"
  obtains s1 a where "xmalloc g n s = (Ptr u, s1)" and "get_block_allocator g ptr s1 = Some a"
    and "data_at s' = data_at (memcpy u ptr (min (m_blockSize (allocs s1 a) - BLOCK_HEADER_SIZE - BLOCK_FOOTER_SIZE g) (unat n)) s1)"
proof -
  from assms obtain s1 where 1: "xmalloc g n s = (Ptr u, s1)"
    by (auto simp: xrealloc_def Let_def split: prod.splits xresult.splits option.splits)
  with assms obtain a where 2: "get_block_allocator g ptr s1 = Some a"
    by (auto simp: xrealloc_def Let_def split: option.splits)
  from assms 1 2 have "xfree g ptr (memcpy u ptr (min (m_blockSize (allocs s1 a) - BLOCK_HEADER_SIZE - BLOCK_FOOTER_SIZE g) (unat n)) s1) = Some s'"
    by (auto simp: xrealloc_def Let_def min_def split: option.splits if_splits)
  from data_kept(2) [OF this] 1 2 that show thesis by blast
qed

text \<open>
  \<^verbatim>\<open>xrealloc\<close> of a block that is held moves its contents: the new block lies apart from the old one and
  starts with the bytes of the old one, as many as both were asked for.
\<close>

theorem xrealloc_moves_data:
  fixes es :: "xevent list" and base left :: nat and g :: bool
  defines "w \<equiv> fold (xstep g) es (xworld_init base left)"
  assumes "\<not> aborted w" and "pcs w t = Idle" and "live w p = Some k"
    and "n \<noteq> 0" and "unat n + BLOCK_HEADER_SIZE + BLOCK_FOOTER_SIZE g \<le> 2 ^ 63"
    and "xrealloc g (p + BLOCK_HEADER_SIZE) n (xstate w) = (Ptr u, s)"
  shows "map (\<lambda>i. data_at s (u + i)) [0..<min k (unat n)]
      = map (\<lambda>i. data_at (xstate w) (p + BLOCK_HEADER_SIZE + i)) [0..<min k (unat n)]"
proof -
  have "p + BLOCK_HEADER_SIZE \<noteq> 0" by (simp add: BLOCK_HEADER_SIZE_def)
  from xrealloc_cases [OF assms(7) this assms(5)] obtain s1 a where
    1: "xmalloc g n (xstate w) = (Ptr u, s1)" and 2: "get_block_allocator g (p + BLOCK_HEADER_SIZE) s1 = Some a"
    and 3: "data_at s = data_at (memcpy u (p + BLOCK_HEADER_SIZE)
      (min (m_blockSize (allocs s1 a) - BLOCK_HEADER_SIZE - BLOCK_FOOTER_SIZE g) (unat n)) s1)" by blast
  have "\<exists>pl hm fs cr. xinv g pl hm fs cr w" unfolding w_def by (rule run_xinv)
  from xmalloc_steps [OF assms(2,3,6) 1 this] obtain es' where fresh: "live w (get_block_ptr u) = None"
    and run: "fold (xstep g) es' w = w\<lparr>xstate := s1, live := (live w)(get_block_ptr u := Some (unat n))\<rparr>" by blast
  obtain pl hm fs cr where "xinv g pl hm fs cr (fold (xstep g) (es @ es') (xworld_init base left))"
    using run_xinv by blast
  then have inv: "xinv g pl hm fs cr (w\<lparr>xstate := s1, live := (live w)(get_block_ptr u := Some (unat n))\<rparr>)"
    by (simp add: run flip: w_def)
  have held: "live (w\<lparr>xstate := s1, live := (live w)(get_block_ptr u := Some (unat n))\<rparr>) p = Some k"
    using assms(4) fresh by auto
  have "live_ok g pl hm s1 ((live w)(get_block_ptr u := Some (unat n)))" using inv by (simp add: xinv_def)
  from held_header [OF this] held 2 have "a = hm p" by fastforce
  then have "k \<le> m_blockSize (allocs s1 a) - BLOCK_HEADER_SIZE - BLOCK_FOOTER_SIZE g"
    using held_fits [OF inv held] by (simp add: bs_of_def) arith
  then show ?thesis using data_kept(1) [OF 1] 3 by (auto simp: memcpy_def)
qed

definition one_thread :: "xevent list" where
  "one_thread = [Malloc 0 24, Proceed 0, Proceed 0, Proceed 0, Proceed 0, Proceed 0, Proceed 0, Put 4112 7]"

lemma one_thread_runs:
  "\<not> aborted (fold (xstep True) one_thread (xworld_init 4096 1000))"
  "pcs (fold (xstep True) one_thread (xworld_init 4096 1000)) 0 = Idle"
  "live (fold (xstep True) one_thread (xworld_init 4096 1000)) 4096 = Some 24"
  "fst (xrealloc True (4096 + BLOCK_HEADER_SIZE) 8 (xstate (fold (xstep True) one_thread (xworld_init 4096 1000)))) = Ptr 4176"
  by (simp_all add: one_thread_def xalloc_eval usable_def xrealloc_def xmalloc_def xallocator_get_allocator_def
      xfree_def xfree_begin_def xfree_push_def get_block_ptr_def memcpy_def Deallocate_def Push_def
      XALLOC_MAGIC_def XALLOC_FREED_def XALLOC_CANARY_def)

lemma xrealloc_moves_data_witness:
  "\<exists>s. xrealloc True (4096 + BLOCK_HEADER_SIZE) 8 (xstate (fold (xstep True) one_thread (xworld_init 4096 1000))) = (Ptr 4176, s)
    \<and> map (\<lambda>i. data_at s (4176 + i)) [0..<min 24 (unat (8 :: size_t))]
      = map (\<lambda>i. data_at (xstate (fold (xstep True) one_thread (xworld_init 4096 1000))) (4096 + BLOCK_HEADER_SIZE + i))
          [0..<min 24 (unat (8 :: size_t))]"
proof -
  obtain s where s: "xrealloc True (4096 + BLOCK_HEADER_SIZE) 8
      (xstate (fold (xstep True) one_thread (xworld_init 4096 1000))) = (Ptr 4176, s)"
    using one_thread_runs(4) by (metis prod.collapse)
  have "unat (8 :: size_t) + BLOCK_HEADER_SIZE + BLOCK_FOOTER_SIZE True \<le> 2 ^ 63"
    by (simp add: BLOCK_HEADER_SIZE_def BLOCK_FOOTER_SIZE_def)
  from xrealloc_moves_data [OF one_thread_runs(1-3) _ this s] s show ?thesis by simp
qed

end
