(* ===== verification/Remote.thy ===== *)
theory Remote
  imports Delegates Reliability SerializeProps
begin

text \<open>
  \<^verbatim>\<open>delegate/DelegateRemote.h\<close>, \<^verbatim>\<open>extras/dispatcher/Dispatcher.h\<close>, \<^verbatim>\<open>RemoteChannel.h\<close> and
  \<^verbatim>\<open>port/serialize/serialize/DmqSerializer.h\<close>: a call of a remote delegate serializes its arguments
  into a stream and hands them to a dispatcher, which numbers them and gives them to a transport;
  the receiver's delegate reads the arguments and calls its target. Errors are reported to a
  handler.

  Streams, dispatchers and transports are objects the delegates point to: they are numbered, and
  \<open>link\<close> has their state. Handlers and transports are parameters (\<open>environment\<close>): what a handler
  throws when it is called, and what the \<open>n\<close>-th \<^verbatim>\<open>Send\<close> of a transport returns or throws. The flag
  \<open>catching\<close> tells whether the library was built with its exception handling
  (\<^verbatim>\<open>__cpp_exceptions\<close> and not \<^verbatim>\<open>DMQ_ASSERTS\<close>).
\<close>

section \<open>Errors\<close>

datatype DelegateError = SUCCESS | ERR_STREAM_NOT_GOOD | ERR_NO_SERIALIZER | ERR_SERIALIZE
  | ERR_DESERIALIZE | ERR_DESERIALIZE_EXCEPTION | ERR_NO_DISPATCHER | ERR_DISPATCH
  | ERR_TYPE_MISMATCH | ERR_TRANSPORT_RECEIVE | ERR_CAPACITY_EXCEEDED

datatype exc = Std_exception | Other_exception

record 'h environment =
  catching :: bool
  handler_throws :: "'h \<Rightarrow> u16 \<Rightarrow> DelegateError \<Rightarrow> int \<Rightarrow> exc option"
  transport_send :: "nat \<Rightarrow> nat \<Rightarrow> exc + int"

record 'h link =
  streams :: "nat \<Rightarrow> writer"
  m_transport :: "nat \<Rightarrow> nat option"
  seq_counter :: u16
  packets :: "(nat \<times> DmqHeader \<times> byte list) list"
  reports :: "('h \<times> u16 \<times> DelegateError \<times> int) list"

section \<open>The dispatcher\<close>

text \<open>\<^verbatim>\<open>str("")\<close>, \<^verbatim>\<open>clear()\<close> and \<^verbatim>\<open>seekp(0)\<close>.\<close>

definition stream_reset :: "writer \<Rightarrow> writer" where
  "stream_reset os = os_seekp 0 (os\<lparr>outbuf := [], ppos := 0, wfail := False\<rparr>)"

definition SetTransport :: "nat \<Rightarrow> nat option \<Rightarrow> 'h link \<Rightarrow> 'h link" where
  "SetTransport d t w = w\<lparr>m_transport := (m_transport w)(d := t)\<rparr>"

lemma stream_reset_reset [simp]: "stream_reset (stream_reset os) = stream_reset os"
  by (simp add: stream_reset_def os_seekp_def)

text \<open>\<^verbatim>\<open>Dispatch\<close>: taking the number (an atomic counter all dispatchers share), and the rest. The
  result is an exception of the transport or the code returned.\<close>

definition fetch_seq :: "'h link \<Rightarrow> u16 \<times> 'h link" where
  "fetch_seq w = (seq_counter w, w\<lparr>seq_counter := seq_counter w + 1\<rparr>)"

definition send_packet :: "'h environment \<Rightarrow> nat \<Rightarrow> nat \<Rightarrow> u16 \<Rightarrow> u16 \<Rightarrow> 'h link \<Rightarrow> (exc + int) \<times> 'h link" where
  "send_packet env t os i seq w =
     (let header = DmqHeader i seq 0;
          result = transport_send env t (length (packets w));
          w1 = w\<lparr>packets := packets w @ [(t, header, outbuf (streams w os))]\<rparr>
      in case result of
           Inl x \<Rightarrow> (Inl x, w1)
         | Inr err \<Rightarrow> (Inr err, w1\<lparr>streams := (streams w1)(os := stream_reset (streams w1 os))\<rparr>))"

definition Dispatch :: "'h environment \<Rightarrow> nat \<Rightarrow> nat \<Rightarrow> u16 \<Rightarrow> u16 \<Rightarrow> 'h link \<Rightarrow> (exc + int) \<times> u16 \<times> 'h link" where
  "Dispatch env d os i outSeqNum w =
     (case m_transport w d of
        None \<Rightarrow> (Inr (-1), outSeqNum, w)
      | Some t \<Rightarrow>
          (let (seq, w1) = fetch_seq w; (result, w2) = send_packet env t os i seq w1
           in (result, seq, w2)))"

section \<open>The state of a remote delegate\<close>

record 'h RemoteDispatchState =
  rd_id :: u16
  rd_lastSeqNum :: u16
  rd_errorHandler :: "'h option"
  rd_dispatcher :: "nat option"
  rd_error :: DelegateError
  rd_stream :: "nat option"

definition INVALID_REMOTE_ID :: u16 where "INVALID_REMOTE_ID = -1"

definition RemoteDispatchState :: "'h RemoteDispatchState" where
  "RemoteDispatchState = \<lparr>rd_id = INVALID_REMOTE_ID, rd_lastSeqNum = 0, rd_errorHandler = None,
     rd_dispatcher = None, rd_error = SUCCESS, rd_stream = None\<rparr>"

text \<open>Assignment leaves the last error and the last number alone; construction is assignment to a
  fresh state. Moving takes the handler, the dispatcher and the stream away from the source.\<close>

definition state_assign :: "'h RemoteDispatchState \<Rightarrow> 'h RemoteDispatchState \<Rightarrow> 'h RemoteDispatchState" where
  "state_assign rhs s = s\<lparr>rd_id := rd_id rhs, rd_errorHandler := rd_errorHandler rhs,
     rd_dispatcher := rd_dispatcher rhs, rd_stream := rd_stream rhs\<rparr>"

definition state_copy :: "'h RemoteDispatchState \<Rightarrow> 'h RemoteDispatchState" where
  "state_copy rhs = \<lparr>rd_id = rd_id rhs, rd_lastSeqNum = 0, rd_errorHandler = rd_errorHandler rhs,
     rd_dispatcher = rd_dispatcher rhs, rd_error = SUCCESS, rd_stream = rd_stream rhs\<rparr>"

definition state_moved_from :: "'h RemoteDispatchState \<Rightarrow> 'h RemoteDispatchState" where
  "state_moved_from rhs = rhs\<lparr>rd_errorHandler := None, rd_dispatcher := None, rd_stream := None\<rparr>"

definition GetError :: "'h RemoteDispatchState \<Rightarrow> DelegateError \<times> 'h RemoteDispatchState" where
  "GetError s = (rd_error s, s\<lparr>rd_error := SUCCESS\<rparr>)"

definition state_Equal :: "'h RemoteDispatchState \<Rightarrow> 'h RemoteDispatchState \<Rightarrow> bool" where
  "state_Equal s rhs \<longleftrightarrow> rd_id s = rd_id rhs"

text \<open>The results below are the exception that leaves the function, if any, and the new state.\<close>

definition call_handler ::
  "'h environment \<Rightarrow> 'h \<Rightarrow> u16 \<Rightarrow> DelegateError \<Rightarrow> int \<Rightarrow> 'h link \<Rightarrow> exc option \<times> 'h link" where
  "call_handler env h i e aux w = (handler_throws env h i e aux, w\<lparr>reports := reports w @ [(h, i, e, aux)]\<rparr>)"

definition RaiseError ::
  "'h environment \<Rightarrow> DelegateError \<Rightarrow> int \<Rightarrow> 'h RemoteDispatchState \<times> 'h link
   \<Rightarrow> exc option \<times> 'h RemoteDispatchState \<times> 'h link" where
  "RaiseError env e aux sw =
     (case sw of (s, w) \<Rightarrow>
        let s1 = s\<lparr>rd_error := e\<rparr> in
        case rd_errorHandler s1 of
          Some h \<Rightarrow> (let (x, w1) = call_handler env h (rd_id s1) e aux w in (x, s1, w1))
        | None \<Rightarrow> (if catching env then Some Std_exception else None, s1, w))"

definition RaiseSuccess ::
  "'h environment \<Rightarrow> 'h RemoteDispatchState \<times> 'h link \<Rightarrow> exc option \<times> 'h RemoteDispatchState \<times> 'h link" where
  "RaiseSuccess env sw =
     (case sw of (s, w) \<Rightarrow>
        case rd_errorHandler s of
          Some h \<Rightarrow> (let (x, w1) = call_handler env h (rd_id s) SUCCESS 0 w in (x, s, w1))
        | None \<Rightarrow> (None, s, w))"

definition dispatch_stream ::
  "'h environment \<Rightarrow> nat \<Rightarrow> nat \<Rightarrow> 'h RemoteDispatchState \<times> 'h link
   \<Rightarrow> exc option \<times> 'h RemoteDispatchState \<times> 'h link" where
  "dispatch_stream env d os sw =
     (case sw of (s, w) \<Rightarrow>
        let (result, seq, w1) = Dispatch env d os (rd_id s) (rd_lastSeqNum s) w;
            s1 = s\<lparr>rd_lastSeqNum := seq\<rparr>
        in case result of
             Inl x \<Rightarrow> (Some x, s1, w1)
           | Inr err \<Rightarrow> if err \<noteq> 0 then RaiseError env ERR_DISPATCH err (s1, w1) else RaiseSuccess env (s1, w1))"

definition SendSerialized ::
  "'h environment \<Rightarrow> bool \<Rightarrow> 'h RemoteDispatchState \<times> 'h link
   \<Rightarrow> exc option \<times> 'h RemoteDispatchState \<times> 'h link" where
  "SendSerialized env writeFailed sw =
     (case sw of (s, w) \<Rightarrow>
        if writeFailed then (None, s, w)
        else case rd_stream s of
               None \<Rightarrow> RaiseError env ERR_STREAM_NOT_GOOD 0 (s, w)
             | Some os \<Rightarrow>
                 if \<not> wgood (streams w os) then RaiseError env ERR_STREAM_NOT_GOOD 0 (s, w)
                 else case rd_dispatcher s of
                        None \<Rightarrow> RaiseError env ERR_NO_DISPATCHER 0 (s, w)
                      | Some d \<Rightarrow>
                          (case dispatch_stream env d os (s, w) of
                             (x, sw1) \<Rightarrow>
                               if catching env \<and> x = Some Std_exception then RaiseError env ERR_DISPATCH 0 sw1
                               else (x, sw1)))"

section \<open>Serializers\<close>

text \<open>\<^verbatim>\<open>ISerializer\<close>: writing and reading all arguments of a signature; an exception may leave both.\<close>

record 'a ISerializer =
  Write :: "'a \<Rightarrow> writer \<Rightarrow> exc option \<times> writer"
  Read :: "'a \<Rightarrow> reader \<Rightarrow> exc option \<times> 'a \<times> reader"

text \<open>The serializer of \<^verbatim>\<open>DmqSerializer.h\<close>, on a host with byte order \<open>le\<close>; each call has its own
  \<^verbatim>\<open>serialize\<close> instance. The order \<open>lt\<close> and the byte \<open>t0\<close> are those of \<open>read_val\<close>.\<close>

definition Serializer_Write :: "bool \<Rightarrow> val list \<Rightarrow> writer \<Rightarrow> exc option \<times> writer" where
  "Serializer_Write le args os =
     (None, write_members le args ((os_seekp 0 os)\<lparr>outbuf := [], ppos := 0, wError := NONE\<rparr>))"

definition Serializer_Read ::
  "bool \<Rightarrow> (val \<Rightarrow> val \<Rightarrow> bool) \<Rightarrow> byte \<Rightarrow> val list \<Rightarrow> reader \<Rightarrow> exc option \<times> val list \<times> reader" where
  "Serializer_Read le lt t0 args is =
     (None, read_members le lt t0 args (is\<lparr>stops := [], lastError := NONE, faulted := False\<rparr>))"

definition Serializer :: "bool \<Rightarrow> (val \<Rightarrow> val \<Rightarrow> bool) \<Rightarrow> byte \<Rightarrow> val list ISerializer" where
  "Serializer le lt t0 = \<lparr>Write = Serializer_Write le, Read = Serializer_Read le lt t0\<rparr>"

section \<open>Remote delegates\<close>

text \<open>The three classes repeat one text (\<^verbatim>\<open>common_code\<close>) on top of their base class, as the
  asynchronous ones do: it is stated for a base with given operations.\<close>

record ('d, 'a, 'h) Remote =
  remote_base :: 'd
  remote_state :: "'h RemoteDispatchState"
  remote_serializer :: "'a ISerializer option"

definition Remote_default :: "'d \<Rightarrow> ('d, 'a, 'h) Remote" where
  "Remote_default b = \<lparr>remote_base = b, remote_state = RemoteDispatchState, remote_serializer = None\<rparr>"

definition Remote_SetRemoteId :: "u16 \<Rightarrow> ('d, 'a, 'h) Remote \<Rightarrow> ('d, 'a, 'h) Remote" where
  "Remote_SetRemoteId i d = d\<lparr>remote_state := (remote_state d)\<lparr>rd_id := i\<rparr>\<rparr>"

definition Remote_SetDispatcher :: "nat option \<Rightarrow> ('d, 'a, 'h) Remote \<Rightarrow> ('d, 'a, 'h) Remote" where
  "Remote_SetDispatcher p d = d\<lparr>remote_state := (remote_state d)\<lparr>rd_dispatcher := p\<rparr>\<rparr>"

definition Remote_SetSerializer :: "'a ISerializer option \<Rightarrow> ('d, 'a, 'h) Remote \<Rightarrow> ('d, 'a, 'h) Remote" where
  "Remote_SetSerializer p d = d\<lparr>remote_serializer := p\<rparr>"

definition Remote_SetStream :: "nat option \<Rightarrow> ('d, 'a, 'h) Remote \<Rightarrow> ('d, 'a, 'h) Remote" where
  "Remote_SetStream p d = d\<lparr>remote_state := (remote_state d)\<lparr>rd_stream := p\<rparr>\<rparr>"

definition Remote_SetErrorHandler :: "'h option \<Rightarrow> ('d, 'a, 'h) Remote \<Rightarrow> ('d, 'a, 'h) Remote" where
  "Remote_SetErrorHandler p d = d\<lparr>remote_state := (remote_state d)\<lparr>rd_errorHandler := p\<rparr>\<rparr>"

definition Remote_GetError :: "('d, 'a, 'h) Remote \<Rightarrow> DelegateError \<times> ('d, 'a, 'h) Remote" where
  "Remote_GetError d = (let (e, s) = GetError (remote_state d) in (e, d\<lparr>remote_state := s\<rparr>))"

definition Remote_Bind :: "('d \<Rightarrow> 'd) \<Rightarrow> u16 \<Rightarrow> ('d, 'a, 'h) Remote \<Rightarrow> ('d, 'a, 'h) Remote" where
  "Remote_Bind base_bind i d = (Remote_SetRemoteId i d)\<lparr>remote_base := base_bind (remote_base d)\<rparr>"

definition Remote_Assign :: "('d \<Rightarrow> 'd \<Rightarrow> 'd) \<Rightarrow> ('d, 'a, 'h) Remote \<Rightarrow> ('d, 'a, 'h) Remote \<Rightarrow> ('d, 'a, 'h) Remote" where
  "Remote_Assign base_assign rhs d =
     d\<lparr>remote_state := state_assign (remote_state rhs) (remote_state d),
       remote_serializer := remote_serializer rhs,
       remote_base := base_assign (remote_base rhs) (remote_base d)\<rparr>"

definition Remote_copy :: "('d, 'a, 'h) Remote \<Rightarrow> ('d, 'a, 'h) Remote" where
  "Remote_copy rhs = \<lparr>remote_base = remote_base rhs, remote_state = state_copy (remote_state rhs),
     remote_serializer = remote_serializer rhs\<rparr>"

text \<open>Move construction and move assignment: the new value of the target and of the source.\<close>

definition Remote_move ::
  "('d \<Rightarrow> 'd \<times> 'd) \<Rightarrow> ('d \<Rightarrow> 'd) \<Rightarrow> ('d, 'a, 'h) Remote \<Rightarrow> ('d, 'a, 'h) Remote \<times> ('d, 'a, 'h) Remote" where
  "Remote_move base_move clear rhs =
     (let (b, r) = base_move (remote_base rhs) in
      (\<lparr>remote_base = b, remote_state = state_copy (remote_state rhs), remote_serializer = remote_serializer rhs\<rparr>,
       \<lparr>remote_base = clear r, remote_state = state_moved_from (remote_state rhs), remote_serializer = None\<rparr>))"

definition Remote_move_assign ::
  "('d \<Rightarrow> 'd \<times> 'd) \<Rightarrow> ('d, 'a, 'h) Remote \<Rightarrow> ('d, 'a, 'h) Remote \<Rightarrow> ('d, 'a, 'h) Remote \<times> ('d, 'a, 'h) Remote" where
  "Remote_move_assign base_move rhs d =
     (let (b, r) = base_move (remote_base rhs) in
      (d\<lparr>remote_base := b, remote_state := state_assign (remote_state rhs) (remote_state d),
         remote_serializer := remote_serializer rhs\<rparr>,
       \<lparr>remote_base = r, remote_state = state_moved_from (remote_state rhs), remote_serializer = None\<rparr>))"

definition Remote_Equal :: "('d \<Rightarrow> 'd \<Rightarrow> bool) \<Rightarrow> ('d, 'a, 'h) Remote \<Rightarrow> ('d, 'a, 'h) Remote \<Rightarrow> bool" where
  "Remote_Equal base_equal d rhs \<longleftrightarrow>
     state_Equal (remote_state d) (remote_state rhs) \<and> base_equal (remote_base d) (remote_base rhs)"

text \<open>\<^verbatim>\<open>operator()\<close>: the base class is not called. The pair is the state of the delegate and the link.\<close>

definition state_call ::
  "'h environment \<Rightarrow> 'a ISerializer option \<Rightarrow> 'a \<Rightarrow> 'h RemoteDispatchState \<times> 'h link
   \<Rightarrow> exc option \<times> 'h RemoteDispatchState \<times> 'h link" where
  "state_call env ser args sw =
     (case (ser, rd_stream (fst sw)) of
        (Some z, Some os) \<Rightarrow>
          (let (s, w) = sw;
               (x, w1) = (let (x, stream) = Write z args (streams w os)
                          in (x, w\<lparr>streams := (streams w)(os := stream)\<rparr>))
           in case x of
                None \<Rightarrow> SendSerialized env False (s, w1)
              | Some Std_exception \<Rightarrow>
                  if catching env
                  then (case RaiseError env ERR_SERIALIZE 0 (s, w1) of
                          (None, sw2) \<Rightarrow> SendSerialized env True sw2
                        | (Some y, sw2) \<Rightarrow> (Some y, sw2))
                  else (Some Std_exception, s, w1)
              | Some Other_exception \<Rightarrow> (Some Other_exception, s, w1))
      | _ \<Rightarrow> RaiseError env ERR_NO_SERIALIZER 0 sw)"

definition Remote_call ::
  "'h environment \<Rightarrow> 'a \<Rightarrow> ('d, 'a, 'h) Remote \<times> 'h link \<Rightarrow> exc option \<times> ('d, 'a, 'h) Remote \<times> 'h link" where
  "Remote_call env args dw =
     (case dw of (d, w) \<Rightarrow>
        let (x, s, w1) = state_call env (remote_serializer d) args (remote_state d, w)
        in (x, d\<lparr>remote_state := s\<rparr>, w1))"

text \<open>
  \<^verbatim>\<open>Invoke\<close>: the exception or the value returned, and the call of the target, if it came to one.
  \<open>fresh\<close> are the default-initialized variables the arguments are read into (\<^verbatim>\<open>RemoteArg\<close>);
  \<open>argc\<close> is their number.
\<close>

definition Remote_Invoke ::
  "'h environment \<Rightarrow> ('a \<Rightarrow> 'd \<Rightarrow> 'a outcome) \<Rightarrow> nat \<Rightarrow> 'a \<Rightarrow> reader \<Rightarrow> ('d, 'a, 'h) Remote \<times> 'h link
   \<Rightarrow> (exc + bool) \<times> 'a outcome option \<times> reader \<times> ('d, 'a, 'h) Remote \<times> 'h link" where
  "Remote_Invoke env base_call argc fresh is dw =
     (let (d, w) = dw;
          report = (\<lambda>e is' ret. case RaiseError env e 0 (remote_state d, w) of
                      (x, s, w1) \<Rightarrow> ((case x of Some y \<Rightarrow> Inl y | None \<Rightarrow> Inr ret), None, is', d\<lparr>remote_state := s\<rparr>, w1))
      in case remote_serializer d of
           None \<Rightarrow> report ERR_NO_SERIALIZER is False
         | Some z \<Rightarrow>
             if \<not> good is then report ERR_STREAM_NOT_GOOD is False
             else if argc = 0 then (Inr True, Some (base_call fresh (remote_base d)), is, d, w)
             else (case Read z fresh is of
                     (None, args, is1) \<Rightarrow>
                       if \<not> failbit is1 then (Inr True, Some (base_call args (remote_base d)), is1, d, w)
                       else report ERR_DESERIALIZE is1 True
                   | (Some Std_exception, args, is1) \<Rightarrow>
                       if catching env then report ERR_DESERIALIZE_EXCEPTION is1 True
                       else (Inl Std_exception, None, is1, d, w)
                   | (Some Other_exception, args, is1) \<Rightarrow> (Inl Other_exception, None, is1, d, w)))"

text \<open>The three classes.\<close>

definition DelegateFreeRemote_Bind :: "func option \<Rightarrow> u16 \<Rightarrow> (DelegateFree, 'a, 'h) Remote \<Rightarrow> (DelegateFree, 'a, 'h) Remote" where
  "DelegateFreeRemote_Bind f = Remote_Bind (DelegateFree_Bind f)"

definition DelegateFreeRemote :: "func option \<Rightarrow> u16 \<Rightarrow> (DelegateFree, 'a, 'h) Remote" where
  "DelegateFreeRemote f i = DelegateFreeRemote_Bind f i (Remote_default DelegateFree)"

definition DelegateFreeRemote_Assign :: "(DelegateFree, 'a, 'h) Remote \<Rightarrow> (DelegateFree, 'a, 'h) Remote \<Rightarrow> (DelegateFree, 'a, 'h) Remote" where
  "DelegateFreeRemote_Assign = Remote_Assign DelegateFree_Assign"

definition DelegateFreeRemote_Clone :: "(DelegateFree, 'a, 'h) Remote \<Rightarrow> (DelegateFree, 'a, 'h) Remote" where
  "DelegateFreeRemote_Clone = Remote_copy"

definition DelegateFreeRemote_move :: "(DelegateFree, 'a, 'h) Remote \<Rightarrow> (DelegateFree, 'a, 'h) Remote \<times> (DelegateFree, 'a, 'h) Remote" where
  "DelegateFreeRemote_move = Remote_move DelegateFree_move DelegateFree_Clear"

definition DelegateFreeRemote_move_assign :: "(DelegateFree, 'a, 'h) Remote \<Rightarrow> (DelegateFree, 'a, 'h) Remote \<Rightarrow> (DelegateFree, 'a, 'h) Remote \<times> (DelegateFree, 'a, 'h) Remote" where
  "DelegateFreeRemote_move_assign = Remote_move_assign DelegateFree_move"

definition DelegateFreeRemote_Equal :: "(DelegateFree, 'a, 'h) Remote \<Rightarrow> (DelegateFree, 'a, 'h) Remote \<Rightarrow> bool" where
  "DelegateFreeRemote_Equal = Remote_Equal DelegateFree_Equal"

definition DelegateFreeRemote_call ::
  "'h environment \<Rightarrow> 'a \<Rightarrow> (DelegateFree, 'a, 'h) Remote \<times> 'h link
   \<Rightarrow> exc option \<times> (DelegateFree, 'a, 'h) Remote \<times> 'h link" where
  "DelegateFreeRemote_call = Remote_call"

definition DelegateFreeRemote_Invoke ::
  "'h environment \<Rightarrow> nat \<Rightarrow> 'a \<Rightarrow> reader \<Rightarrow> (DelegateFree, 'a, 'h) Remote \<times> 'h link
   \<Rightarrow> (exc + bool) \<times> 'a outcome option \<times> reader \<times> (DelegateFree, 'a, 'h) Remote \<times> 'h link" where
  "DelegateFreeRemote_Invoke env = Remote_Invoke env DelegateFree_call"

definition DelegateMemberRemote_Bind :: "shared_ptr \<Rightarrow> func option \<Rightarrow> u16 \<Rightarrow> (DelegateMember, 'a, 'h) Remote \<Rightarrow> (DelegateMember, 'a, 'h) Remote" where
  "DelegateMemberRemote_Bind ob f = Remote_Bind (DelegateMember_Bind ob f)"

definition DelegateMemberRemote_Bind_raw :: "object option \<Rightarrow> func option \<Rightarrow> u16 \<Rightarrow> (DelegateMember, 'a, 'h) Remote \<Rightarrow> (DelegateMember, 'a, 'h) Remote" where
  "DelegateMemberRemote_Bind_raw ob f = Remote_Bind (DelegateMember_Bind_raw ob f)"

definition DelegateMemberRemote :: "shared_ptr \<Rightarrow> func option \<Rightarrow> u16 \<Rightarrow> (DelegateMember, 'a, 'h) Remote" where
  "DelegateMemberRemote ob f i = DelegateMemberRemote_Bind ob f i (Remote_default DelegateMember)"

definition DelegateMemberRemote_Assign :: "(DelegateMember, 'a, 'h) Remote \<Rightarrow> (DelegateMember, 'a, 'h) Remote \<Rightarrow> (DelegateMember, 'a, 'h) Remote" where
  "DelegateMemberRemote_Assign = Remote_Assign DelegateMember_Assign"

definition DelegateMemberRemote_Clone :: "(DelegateMember, 'a, 'h) Remote \<Rightarrow> (DelegateMember, 'a, 'h) Remote" where
  "DelegateMemberRemote_Clone = Remote_copy"

definition DelegateMemberRemote_move :: "(DelegateMember, 'a, 'h) Remote \<Rightarrow> (DelegateMember, 'a, 'h) Remote \<times> (DelegateMember, 'a, 'h) Remote" where
  "DelegateMemberRemote_move = Remote_move DelegateMember_move DelegateMember_Clear"

definition DelegateMemberRemote_move_assign :: "(DelegateMember, 'a, 'h) Remote \<Rightarrow> (DelegateMember, 'a, 'h) Remote \<Rightarrow> (DelegateMember, 'a, 'h) Remote \<times> (DelegateMember, 'a, 'h) Remote" where
  "DelegateMemberRemote_move_assign = Remote_move_assign DelegateMember_move"

definition DelegateMemberRemote_Equal :: "(DelegateMember, 'a, 'h) Remote \<Rightarrow> (DelegateMember, 'a, 'h) Remote \<Rightarrow> bool" where
  "DelegateMemberRemote_Equal = Remote_Equal DelegateMember_Equal"

definition DelegateMemberRemote_call ::
  "'h environment \<Rightarrow> 'a \<Rightarrow> (DelegateMember, 'a, 'h) Remote \<times> 'h link
   \<Rightarrow> exc option \<times> (DelegateMember, 'a, 'h) Remote \<times> 'h link" where
  "DelegateMemberRemote_call = Remote_call"

definition DelegateMemberRemote_Invoke ::
  "object set \<Rightarrow> 'h environment \<Rightarrow> nat \<Rightarrow> 'a \<Rightarrow> reader \<Rightarrow> (DelegateMember, 'a, 'h) Remote \<times> 'h link
   \<Rightarrow> (exc + bool) \<times> 'a outcome option \<times> reader \<times> (DelegateMember, 'a, 'h) Remote \<times> 'h link" where
  "DelegateMemberRemote_Invoke live env = Remote_Invoke env (DelegateMember_call live)"

definition DelegateFunctionRemote_Bind :: "fun_object option \<Rightarrow> u16 \<Rightarrow> (DelegateFunction, 'a, 'h) Remote \<Rightarrow> (DelegateFunction, 'a, 'h) Remote" where
  "DelegateFunctionRemote_Bind f = Remote_Bind (DelegateFunction_Bind f)"

definition DelegateFunctionRemote :: "fun_object option \<Rightarrow> u16 \<Rightarrow> (DelegateFunction, 'a, 'h) Remote" where
  "DelegateFunctionRemote f i = DelegateFunctionRemote_Bind f i (Remote_default DelegateFunction)"

definition DelegateFunctionRemote_Assign :: "(DelegateFunction, 'a, 'h) Remote \<Rightarrow> (DelegateFunction, 'a, 'h) Remote \<Rightarrow> (DelegateFunction, 'a, 'h) Remote" where
  "DelegateFunctionRemote_Assign = Remote_Assign DelegateFunction_Assign"

definition DelegateFunctionRemote_Clone :: "(DelegateFunction, 'a, 'h) Remote \<Rightarrow> (DelegateFunction, 'a, 'h) Remote" where
  "DelegateFunctionRemote_Clone = Remote_copy"

definition DelegateFunctionRemote_move :: "(DelegateFunction, 'a, 'h) Remote \<Rightarrow> (DelegateFunction, 'a, 'h) Remote \<times> (DelegateFunction, 'a, 'h) Remote" where
  "DelegateFunctionRemote_move = Remote_move DelegateFunction_move DelegateFunction_Clear"

definition DelegateFunctionRemote_move_assign :: "(DelegateFunction, 'a, 'h) Remote \<Rightarrow> (DelegateFunction, 'a, 'h) Remote \<Rightarrow> (DelegateFunction, 'a, 'h) Remote \<times> (DelegateFunction, 'a, 'h) Remote" where
  "DelegateFunctionRemote_move_assign = Remote_move_assign DelegateFunction_move"

definition DelegateFunctionRemote_Equal :: "(DelegateFunction, 'a, 'h) Remote \<Rightarrow> (DelegateFunction, 'a, 'h) Remote \<Rightarrow> bool" where
  "DelegateFunctionRemote_Equal = Remote_Equal DelegateFunction_Equal"

definition DelegateFunctionRemote_call ::
  "'h environment \<Rightarrow> 'a \<Rightarrow> (DelegateFunction, 'a, 'h) Remote \<times> 'h link
   \<Rightarrow> exc option \<times> (DelegateFunction, 'a, 'h) Remote \<times> 'h link" where
  "DelegateFunctionRemote_call = Remote_call"

definition DelegateFunctionRemote_Invoke ::
  "'h environment \<Rightarrow> nat \<Rightarrow> 'a \<Rightarrow> reader \<Rightarrow> (DelegateFunction, 'a, 'h) Remote \<times> 'h link
   \<Rightarrow> (exc + bool) \<times> 'a outcome option \<times> reader \<times> (DelegateFunction, 'a, 'h) Remote \<times> 'h link" where
  "DelegateFunctionRemote_Invoke env = Remote_Invoke env DelegateFunction_call"

section \<open>Channels\<close>

text \<open>A channel owns a dispatcher and a stream, numbered \<open>ch_dispatcher\<close> and \<open>ch_stream\<close>, and a delegate
  that is wired to them. Its call operator holds \<^verbatim>\<open>m_sendMutex\<close>, so a call is one step.\<close>

record ('a, 'h) RemoteChannel =
  ch_dispatcher :: nat
  ch_stream :: nat
  ch_serializer :: "'a ISerializer"
  ch_delegate :: "(DelegateFunction, 'a, 'h) Remote"

definition ReconnectDelegate :: "('a, 'h) RemoteChannel \<Rightarrow> ('a, 'h) RemoteChannel" where
  "ReconnectDelegate c =
     c\<lparr>ch_delegate := Remote_SetStream (Some (ch_stream c)) (Remote_SetSerializer (Some (ch_serializer c))
          (Remote_SetDispatcher (Some (ch_dispatcher c)) (ch_delegate c)))\<rparr>"

definition RemoteChannel ::
  "nat \<Rightarrow> nat \<Rightarrow> nat \<Rightarrow> 'a ISerializer \<Rightarrow> u16 \<Rightarrow> 'h link \<Rightarrow> ('a, 'h) RemoteChannel \<times> 'h link" where
  "RemoteChannel disp strm transport ser i w =
     (ReconnectDelegate \<lparr>ch_dispatcher = disp, ch_stream = strm, ch_serializer = ser,
        ch_delegate = Remote_SetRemoteId i (Remote_default DelegateFunction)\<rparr>,
      SetTransport disp (Some transport) (w\<lparr>streams := (streams w)(strm := new_writer)\<rparr>))"

definition RemoteChannel_Bind :: "fun_object option \<Rightarrow> u16 \<Rightarrow> ('a, 'h) RemoteChannel \<Rightarrow> ('a, 'h) RemoteChannel" where
  "RemoteChannel_Bind f i c = ReconnectDelegate (c\<lparr>ch_delegate := DelegateFunctionRemote_Bind f i (ch_delegate c)\<rparr>)"

definition RemoteChannel_call ::
  "'h environment \<Rightarrow> 'a \<Rightarrow> ('a, 'h) RemoteChannel \<times> 'h link \<Rightarrow> exc option \<times> ('a, 'h) RemoteChannel \<times> 'h link" where
  "RemoteChannel_call env args cw =
     (let (x, d, w) = DelegateFunctionRemote_call env args (ch_delegate (fst cw), snd cw)
      in (x, (fst cw)\<lparr>ch_delegate := d\<rparr>, w))"

definition RemoteChannel_SetErrorHandler :: "'h option \<Rightarrow> ('a, 'h) RemoteChannel \<Rightarrow> ('a, 'h) RemoteChannel" where
  "RemoteChannel_SetErrorHandler h c = c\<lparr>ch_delegate := Remote_SetErrorHandler h (ch_delegate c)\<rparr>"

text \<open>\<^verbatim>\<open>MakeDelegate\<close> with a channel: a delegate of its own on the dispatcher and the stream of the channel.\<close>

definition MakeDelegate_channel :: "('d, 'a, 'h) Remote \<Rightarrow> ('a, 'h) RemoteChannel \<Rightarrow> ('d, 'a, 'h) Remote" where
  "MakeDelegate_channel d c =
     Remote_SetStream (Some (ch_stream c)) (Remote_SetSerializer (Some (ch_serializer c))
       (Remote_SetDispatcher (Some (ch_dispatcher c)) d))"

definition MakeDelegate_free ::
  "func option \<Rightarrow> u16 \<Rightarrow> ('a, 'h) RemoteChannel \<Rightarrow> (DelegateFree, 'a, 'h) Remote" where
  "MakeDelegate_free f i c = MakeDelegate_channel (DelegateFreeRemote f i) c"

definition MakeDelegate_member ::
  "shared_ptr \<Rightarrow> func option \<Rightarrow> u16 \<Rightarrow> ('a, 'h) RemoteChannel \<Rightarrow> (DelegateMember, 'a, 'h) Remote" where
  "MakeDelegate_member ob f i c = MakeDelegate_channel (DelegateMemberRemote ob f i) c"

definition MakeDelegate_function ::
  "fun_object option \<Rightarrow> u16 \<Rightarrow> ('a, 'h) RemoteChannel \<Rightarrow> (DelegateFunction, 'a, 'h) Remote" where
  "MakeDelegate_function f i c = MakeDelegate_channel (DelegateFunctionRemote f i) c"

section \<open>Reports\<close>

text \<open>How many of the packets the transports accepted, and how many successes were reported.\<close>

definition accepted :: "'h environment \<Rightarrow> 'h link \<Rightarrow> nat" where
  "accepted env w = length (filter (\<lambda>(k, t, header, payload). transport_send env t k = Inr 0) (enumerate 0 (packets w)))"

definition successes :: "'h link \<Rightarrow> nat" where
  "successes w = length (filter (\<lambda>(h, i, e, aux). e = SUCCESS) (reports w))"

fun remote_calls ::
  "'h environment \<Rightarrow> 'a list \<Rightarrow> ('d, 'a, 'h) Remote \<times> 'h link \<Rightarrow> exc option list \<times> ('d, 'a, 'h) Remote \<times> 'h link" where
  "remote_calls env [] dw = ([], dw)"
| "remote_calls env (args # argss) dw =
     (let (x, dw1) = Remote_call env args dw; (xs, dw2) = remote_calls env argss dw1 in (x # xs, dw2))"

definition quiet :: "'h environment \<Rightarrow> bool" where
  "quiet env \<longleftrightarrow> catching env \<and> (\<forall>h i e aux. handler_throws env h i e aux = None)
     \<and> (\<forall>t n. transport_send env t n \<noteq> Inl Other_exception)"

lemma not_Std_exception: "x \<noteq> Std_exception \<longleftrightarrow> x = Other_exception"
  by (cases x) simp_all

lemma accepted_snoc:
  "packets w1 = packets w @ [(t, p)] \<Longrightarrow>
   accepted env w1 = accepted env w + (if transport_send env t (length (packets w)) = Inr 0 then 1 else 0)"
  by (cases p) (simp add: accepted_def enumerate_append_eq)

lemma accepted_same: "packets w1 = packets w \<Longrightarrow> accepted env w1 = accepted env w"
  by (simp add: accepted_def)

lemma successes_snoc:
  "reports w1 = reports w @ [(h, i, e, aux)] \<Longrightarrow> successes w1 = successes w + (if e = SUCCESS then 1 else 0)"
  by (simp add: successes_def)

text \<open>What one call adds to the reports and the packets: exactly one report, and a success exactly
  when the packet was accepted.\<close>

definition one_report :: "'h environment \<Rightarrow> 'h \<Rightarrow> u16 \<Rightarrow> 'h link \<Rightarrow> 'h link \<Rightarrow> bool" where
  "one_report env h i w w1 \<longleftrightarrow>
     (\<exists>e aux. reports w1 = reports w @ [(h, i, e, aux)]
        \<and> (packets w1 = packets w \<and> e \<noteq> SUCCESS
           \<or> (\<exists>t q payload. packets w1 = packets w @ [(t, DmqHeader i q 0, payload)]
                \<and> (e = SUCCESS \<longleftrightarrow> transport_send env t (length (packets w)) = Inr 0))))"

lemma one_report_counts:
  assumes "one_report env h i w w1"
  shows "length (reports w1) = Suc (length (reports w))" "successes w1 + accepted env w = successes w + accepted env w1"
proof -
  obtain e aux where r: "reports w1 = reports w @ [(h, i, e, aux)]"
    and p: "packets w1 = packets w \<and> e \<noteq> SUCCESS
           \<or> (\<exists>t q payload. packets w1 = packets w @ [(t, DmqHeader i q 0, payload)]
                \<and> (e = SUCCESS \<longleftrightarrow> transport_send env t (length (packets w)) = Inr 0))"
    using assms unfolding one_report_def by (elim exE conjE) (rule that)
  show "length (reports w1) = Suc (length (reports w))" by (simp add: r)
  from p show "successes w1 + accepted env w = successes w + accepted env w1"
  proof (elim disjE exE conjE)
    assume same: "packets w1 = packets w" and "e \<noteq> SUCCESS"
    then show ?thesis by (simp add: successes_snoc [OF r] accepted_same [OF same])
  next
    fix t q payload
    assume new: "packets w1 = packets w @ [(t, DmqHeader i q 0, payload)]"
      and "e = SUCCESS \<longleftrightarrow> transport_send env t (length (packets w)) = Inr 0"
    then show ?thesis by (simp add: successes_snoc [OF r] accepted_snoc [OF new])
  qed
qed

lemma send_serialized_report:
  assumes "quiet env" and "rd_errorHandler s = Some h" and "SendSerialized env False (s, w) = (x, s1, w1)"
  shows "x = None \<and> rd_errorHandler s1 = Some h \<and> rd_id s1 = rd_id s \<and> one_report env h (rd_id s) w w1"
  using assms
  by (auto simp: SendSerialized_def dispatch_stream_def Dispatch_def fetch_seq_def send_packet_def RaiseError_def
      RaiseSuccess_def call_handler_def quiet_def one_report_def Let_def not_Std_exception
      split: option.splits prod.splits sum.splits if_splits)

definition tame :: "'a ISerializer option \<Rightarrow> bool" where
  "tame ser \<longleftrightarrow> (\<forall>z args os. ser = Some z \<longrightarrow> fst (Write z args os) \<noteq> Some Other_exception)"

lemma state_call_report:
  assumes "quiet env" and "tame ser" and "rd_errorHandler s = Some h"
    and call: "state_call env ser args (s, w) = (x, s1, w1)"
  shows "x = None \<and> rd_errorHandler s1 = Some h \<and> rd_id s1 = rd_id s \<and> one_report env h (rd_id s) w w1"
proof -
  note raise = RaiseError_def call_handler_def one_report_def quiet_def
  show ?thesis
  proof (cases "ser = None \<or> rd_stream s = None")
    case True
    with assms show ?thesis
      by (auto simp: state_call_def raise split: option.splits)
  next
    case False
    then obtain z os where z: "ser = Some z" "rd_stream s = Some os" by auto
    obtain y stream where wr: "Write z args (streams w os) = (y, stream)" by fastforce
    let ?w = "w\<lparr>streams := (streams w)(os := stream)\<rparr>"
    have y: "y \<noteq> Some Other_exception" using assms(2) z wr by (metis fst_conv tame_def)
    show ?thesis
    proof (cases y)
      case None
      then have "SendSerialized env False (s, ?w) = (x, s1, w1)"
        using call by (simp add: state_call_def z wr)
      from send_serialized_report [OF assms(1,3) this] show ?thesis
        by (simp add: one_report_def)
    next
      case (Some e)
      with y have "y = Some Std_exception" by (cases e) simp_all
      with assms z wr show ?thesis
        by (auto simp: state_call_def raise SendSerialized_def)
    qed
  qed
qed

lemma remote_calls_report:
  assumes "quiet env" and "tame (remote_serializer d)" and "rd_errorHandler (remote_state d) = Some h"
    and "remote_calls env argss (d, w) = (xs, d1, w1)"
  shows "xs = replicate (length argss) None
    \<and> length (reports w1) = length (reports w) + length argss
    \<and> successes w1 + accepted env w = successes w + accepted env w1
    \<and> remote_serializer d1 = remote_serializer d \<and> rd_errorHandler (remote_state d1) = Some h
    \<and> remote_base d1 = remote_base d"
  using assms
proof (induction argss arbitrary: d w xs)
  case (Cons args argss)
  obtain x s2 w2 where c: "state_call env (remote_serializer d) args (remote_state d, w) = (x, s2, w2)"
    using prod_cases3 by blast
  let ?d = "d\<lparr>remote_state := s2\<rparr>"
  note one = state_call_report [OF Cons.prems(1-3) c]
  obtain ys where rest: "remote_calls env argss (?d, w2) = (ys, d1, w1)" and xs: "xs = x # ys"
    using Cons.prems(4) by (auto simp: Remote_call_def c split: prod.splits)
  have ih: "ys = replicate (length argss) None
    \<and> length (reports w1) = length (reports w2) + length argss
    \<and> successes w1 + accepted env w2 = successes w2 + accepted env w1
    \<and> remote_serializer d1 = remote_serializer ?d \<and> rd_errorHandler (remote_state d1) = Some h
    \<and> remote_base d1 = remote_base ?d"
    by (rule Cons.IH [OF Cons.prems(1) _ _ rest]) (use Cons.prems one in simp_all)
  from one one_report_counts [of env h "rd_id (remote_state d)" w w2] ih show ?case
    by (auto simp: xs)
qed simp

section \<open>Sequence numbers\<close>

text \<open>
  Threads that send at the same time: each takes a number from the common counter and then hands
  its packet to its transport, and others may come in between. \<open>cfg\<close> gives the transport, the
  stream and the id of a thread, \<open>n\<close> counts the numbers taken.
\<close>

inductive sending ::
  "'h environment \<Rightarrow> (nat \<Rightarrow> nat \<times> nat \<times> u16) \<Rightarrow> 'h link \<Rightarrow> 'h link \<Rightarrow> (nat \<Rightarrow> u16 option) \<Rightarrow> nat \<Rightarrow> bool"
  for env cfg w0 where
  start: "sending env cfg w0 w0 (\<lambda>_. None) 0"
| take_number: "sending env cfg w0 w held n \<Longrightarrow> held t = None \<Longrightarrow> fetch_seq w = (q, w1) \<Longrightarrow>
    sending env cfg w0 w1 (held(t := Some q)) (Suc n)"
| hand_over: "sending env cfg w0 w held n \<Longrightarrow> held t = Some q \<Longrightarrow> cfg t = (tr, os, i) \<Longrightarrow>
    send_packet env tr os i q w = (result, w1) \<Longrightarrow> sending env cfg w0 w1 (held(t := None)) n"

definition numbers_inv :: "'h link \<Rightarrow> 'h link \<Rightarrow> (nat \<Rightarrow> u16 option) \<Rightarrow> nat \<Rightarrow> nat list \<Rightarrow> (nat \<Rightarrow> nat) \<Rightarrow> bool" where
  "numbers_inv w0 w held n ks ix \<longleftrightarrow>
     map (m_seqNum \<circ> fst \<circ> snd) (packets w)
       = map (m_seqNum \<circ> fst \<circ> snd) (packets w0) @ map (\<lambda>k. seq_counter w0 + of_nat k) ks
     \<and> distinct ks \<and> set ks \<union> ix ` dom held = {..<n} \<and> set ks \<inter> ix ` dom held = {}
     \<and> inj_on ix (dom held) \<and> (\<forall>t q. held t = Some q \<longrightarrow> q = seq_counter w0 + of_nat (ix t))
     \<and> seq_counter w = seq_counter w0 + of_nat n"

lemma numbers_take:
  assumes "numbers_inv w0 w held n ks ix" and "held t = None" and "fetch_seq w = (q, w1)"
  shows "numbers_inv w0 w1 (held(t := Some q)) (Suc n) ks (ix(t := n))"
proof -
  have dom: "t \<notin> dom held" and q: "q = seq_counter w" "w1 = w\<lparr>seq_counter := seq_counter w + 1\<rparr>"
    using assms(2,3) by (auto simp: fetch_seq_def)
  then have im: "(ix(t := n)) ` dom (held(t := Some q)) = insert n (ix ` dom held)"
    by (auto simp: image_iff)
  have small: "set ks \<union> ix ` dom held = {..<n}" using assms(1) by (simp add: numbers_inv_def)
  then have new: "n \<notin> set ks" "n \<notin> ix ` dom held" by auto
  have "inj_on (ix(t := n)) (dom (held(t := Some q)))"
    using assms(1) new dom by (auto simp: numbers_inv_def inj_on_def dom_def)
  moreover have "set ks \<union> (ix(t := n)) ` dom (held(t := Some q)) = {..<Suc n}"
    unfolding im lessThan_Suc small [symmetric] by simp
  moreover have "set ks \<inter> (ix(t := n)) ` dom (held(t := Some q)) = {}"
    using assms(1) new unfolding im numbers_inv_def by simp
  moreover have "\<forall>u p. (held(t := Some q)) u = Some p \<longrightarrow> p = seq_counter w0 + of_nat ((ix(t := n)) u)"
    using assms(1) by (simp add: numbers_inv_def q)
  ultimately show ?thesis
    using assms(1) unfolding numbers_inv_def by (simp add: q)
qed

lemma numbers_hand_over:
  assumes "numbers_inv w0 w held n ks ix" and "held t = Some q" and "send_packet env tr os i q w = (result, w1)"
  shows "numbers_inv w0 w1 (held(t := None)) n (ks @ [ix t]) ix"
proof -
  have w1: "packets w1 = packets w @ [(tr, DmqHeader i q 0, outbuf (streams w os))]" "seq_counter w1 = seq_counter w"
    using assms(3) by (auto simp: send_packet_def Let_def split: sum.splits)
  have t: "t \<in> dom held" using assms(2) by blast
  have dom: "dom (held(t := None)) = dom held - {t}" by auto
  have inj: "inj_on ix (dom held)" and dis: "set ks \<inter> ix ` dom held = {}"
    using assms(1) by (simp_all add: numbers_inv_def)
  then have im: "ix ` dom (held(t := None)) = ix ` dom held - {ix t}"
    using t by (auto simp: inj_on_def)
  have "q = seq_counter w0 + of_nat (ix t)" using assms(1,2) by (simp add: numbers_inv_def)
  moreover have "ix t \<notin> set ks" using dis t by auto
  moreover have "set (ks @ [ix t]) \<union> (ix ` dom held - {ix t}) = set ks \<union> ix ` dom held" using t by auto
  moreover have "set (ks @ [ix t]) \<inter> (ix ` dom held - {ix t}) = {}" using dis by auto
  moreover have "inj_on ix (dom (held(t := None)))" by (rule inj_on_subset [OF inj]) (simp add: dom)
  ultimately show ?thesis
    using assms(1) unfolding numbers_inv_def im by (simp add: w1 DmqHeader_def)
qed

lemma sending_numbers:
  "sending env cfg w0 w held n \<Longrightarrow> \<exists>ks ix. numbers_inv w0 w held n ks ix"
proof (induction rule: sending.induct)
  case start
  have "numbers_inv w0 w0 (\<lambda>_. None) 0 [] id" by (simp add: numbers_inv_def)
  then show ?case by blast
next
  case (take_number w held n t q w1)
  then show ?case using numbers_take by blast
next
  case (hand_over w held n t q tr os i result w1)
  then show ?case using numbers_hand_over by blast
qed

lemma distinct_offsets:
  fixes s :: u16
  assumes "distinct ks" and "set ks \<subseteq> {..<n}" and "n \<le> 65536"
  shows "distinct (map (\<lambda>k. s + of_nat k) ks)"
proof -
  have "k = j" if "k \<in> set ks" "j \<in> set ks" and eq: "(of_nat k :: u16) = of_nat j" for k j
  proof -
    have "k < 65536" "j < 65536" using that(1,2) assms(2,3) by auto
    moreover have "unat (of_nat k :: u16) = unat (of_nat j :: u16)" by (simp only: eq)
    ultimately show ?thesis by (simp add: unat_of_nat)
  qed
  then show ?thesis using assms(1) by (auto simp: distinct_map inj_on_def)
qed

lemma numbers_set:
  assumes inv: "numbers_inv w0 w held n ks ix" and n: "n \<le> 65536"
  defines "f \<equiv> \<lambda>k. seq_counter w0 + of_nat k"
  shows "distinct (map f ks) \<and> f ` set ks = f ` {..<n} - ran held"
proof
  have ks: "distinct ks" "set ks \<union> ix ` dom held = {..<n}" "set ks \<inter> ix ` dom held = {}"
    using inv by (simp_all add: numbers_inv_def)
  then have sub: "set ks \<subseteq> {..<n}" by auto
  show "distinct (map f ks)"
    unfolding f_def by (rule distinct_offsets [OF ks(1) sub n])
  have "distinct (map f [0..<n])"
    unfolding f_def by (rule distinct_offsets [OF _ _ n]) auto
  then have inj: "inj_on f {..<n}" by (simp add: distinct_map atLeast0LessThan)
  have "ran held = f ` ix ` dom held"
    using inv unfolding numbers_inv_def f_def ran_def image_def dom_def by fastforce
  moreover have "f ` {..<n} - f ` ix ` dom held = f ` ({..<n} - ix ` dom held)"
    by (rule inj_on_image_set_diff [symmetric, OF inj]) (use ks(2) in auto)
  moreover have "{..<n} - ix ` dom held = set ks" using ks(2,3) by blast
  ultimately show "f ` set ks = f ` {..<n} - ran held" by simp
qed

section \<open>Properties\<close>

text \<open>
  C15: calls of a remote delegate whose handler and transport behave (\<open>quiet\<close>: they throw nothing a
  \<^verbatim>\<open>catch (std::exception&)\<close> does not catch, and the handler throws nothing at all) never throw, report
  exactly one status each, and report as many successes as the transports have accepted packets.
\<close>

theorem remote_calls_reported:
  assumes "quiet env" and "tame (remote_serializer d)" and "rd_errorHandler (remote_state d) = Some h"
  shows "let (xs, d1, w1) = remote_calls env argss (d, w) in
    xs = replicate (length argss) None
    \<and> length (reports w1) = length (reports w) + length argss
    \<and> successes w1 + accepted env w = successes w + accepted env w1"
proof -
  obtain xs d1 w1 where run: "remote_calls env argss (d, w) = (xs, d1, w1)" by (metis prod_cases3)
  show ?thesis using remote_calls_report [OF assms run] by (simp add: run)
qed

definition flaky :: "nat environment" where
  "flaky = \<lparr>catching = True, handler_throws = (\<lambda>h i e aux. None),
     transport_send = (\<lambda>t n. if n = 1 then Inr (-1) else if n = 2 then Inl Std_exception else Inr 0)\<rparr>"

definition idle_link :: "nat link" where
  "idle_link = \<lparr>streams = (\<lambda>_. new_writer), m_transport = (\<lambda>_. Some 0), seq_counter = 65535, packets = [], reports = []\<rparr>"

definition sender :: "(DelegateFree, val list, nat) Remote" where
  "sender = Remote_SetErrorHandler (Some 9) (Remote_SetStream (Some 4) (Remote_SetDispatcher (Some 2)
     (Remote_SetSerializer (Some (Serializer True byte_lt 0)) (DelegateFreeRemote None 7))))"

lemmas sender_defs = sender_def Remote_SetErrorHandler_def Remote_SetStream_def Remote_SetDispatcher_def
  Remote_SetSerializer_def DelegateFreeRemote_def DelegateFreeRemote_Bind_def Remote_Bind_def
  Remote_SetRemoteId_def Remote_default_def RemoteDispatchState_def

lemma tame_Serializer: "tame (Some (Serializer le lt t0))"
  by (simp add: tame_def Serializer_def Serializer_Write_def)

lemma remote_calls_reported_witness:
  "let (xs, d1, w1) = remote_calls flaky [[Lit [1]], [Lit [2]], [Lit [3]]] (sender, idle_link) in
    xs = replicate (length [[Lit [1]], [Lit [2]], [Lit [3]]]) None
    \<and> length (reports w1) = length (reports idle_link) + length [[Lit [1]], [Lit [2]], [Lit [3]]]
    \<and> successes w1 + accepted flaky idle_link = successes idle_link + accepted flaky w1"
  by (rule remote_calls_reported [where h = 9])
    (simp_all add: quiet_def flaky_def sender_defs tame_Serializer)

text \<open>
  Whatever way the calls of several threads interleave, up to 65536 packets get distinct sequence
  numbers: the numbers of the packets sent are those following the counter, up to the \<open>n\<close>-th, less
  the ones taken by calls still under way.
\<close>

theorem concurrent_sequence_numbers:
  assumes "sending env cfg w0 w held n" and "n \<le> 65536"
  shows "let seqs = map (m_seqNum \<circ> fst \<circ> snd) (drop (length (packets w0)) (packets w)) in
    distinct seqs \<and> set seqs = (\<lambda>k. seq_counter w0 + of_nat k) ` {..<n} - ran held"
proof -
  obtain ks ix where inv: "numbers_inv w0 w held n ks ix"
    using sending_numbers [OF assms(1)] by blast
  then have "map (m_seqNum \<circ> fst \<circ> snd) (drop (length (packets w0)) (packets w))
      = map (\<lambda>k. seq_counter w0 + of_nat k) ks"
    unfolding numbers_inv_def drop_map [symmetric] by simp
  with numbers_set [OF inv assms(2)] show ?thesis by (simp add: Let_def)
qed

lemma two_senders:
  "sending flaky (\<lambda>t. (0, t, of_nat t)) idle_link
     (snd (send_packet flaky 0 2 2 0 (snd (fetch_seq (snd (fetch_seq idle_link)))))) [1 \<mapsto> 65535] 2"
proof -
  let ?w1 = "snd (fetch_seq idle_link)" and ?w2 = "snd (fetch_seq (snd (fetch_seq idle_link)))"
  have f: "fetch_seq idle_link = (65535, ?w1)" "fetch_seq ?w1 = (0, ?w2)"
    by (simp_all add: fetch_seq_def idle_link_def)
  have "sending flaky (\<lambda>t. (0, t, of_nat t)) idle_link ?w1 [1 \<mapsto> 65535] (Suc 0)"
    by (rule sending.take_number [OF sending.start _ f(1)]) simp
  then have "sending flaky (\<lambda>t. (0, t, of_nat t)) idle_link ?w2 [1 \<mapsto> 65535, 2 \<mapsto> 0] (Suc (Suc 0))"
    by (rule sending.take_number [OF _ _ f(2)]) simp
  from sending.hand_over [OF this, where t = 2 and q = 0 and tr = 0 and os = 2 and i = 2] show ?thesis
    by (simp add: fun_upd_twist prod_eq_iff numeral_2_eq_2)
qed

lemma concurrent_sequence_numbers_witness:
  "let seqs = map (m_seqNum \<circ> fst \<circ> snd) (drop (length (packets idle_link))
      (packets (snd (send_packet flaky 0 2 2 0 (snd (fetch_seq (snd (fetch_seq idle_link)))))))) in
    distinct seqs \<and> set seqs = (\<lambda>k. seq_counter idle_link + of_nat k) ` {..<2} - ran [1 \<mapsto> 65535]"
  using concurrent_sequence_numbers [OF two_senders] by simp

text \<open>What the serializer puts on the stream and gets out of it.\<close>

lemma Serializer_Write_put:
  assumes "\<forall>v \<in> set args. encodable lt d v" and "\<not> wfail os" and "wseekable os"
  shows "Serializer_Write le args os = (None, put (enc_members args) (os\<lparr>outbuf := [], ppos := 0, wError := NONE\<rparr>))"
proof -
  have "os_seekp 0 os = os\<lparr>ppos := 0\<rparr>" using assms(2,3) by (simp add: os_seekp_def)
  moreover have "write_members le args (os\<lparr>outbuf := [], ppos := 0, wError := NONE\<rparr>)
      = put (enc_members args) (os\<lparr>outbuf := [], ppos := 0, wError := NONE\<rparr>)"
    by (rule write_members_put) (use assms in \<open>auto intro: write_val_put simp: at_end_def\<close>)
  ultimately show ?thesis by (simp add: Serializer_Write_def)
qed

lemma Serializer_Read_enc:
  assumes "\<And>x y. lt x y \<Longrightarrow> \<not> lt y x" and "\<forall>v \<in> set args. encodable lt MAX_PARSE_STACK_DEPTH v"
    and "list_all2 shape fresh args"
  shows "Serializer_Read le lt t0 fresh (open_reader (enc_members args))
    = (None, args, adv (length (enc_members args)) (open_reader (enc_members args)))"
proof -
  have "list_all2 (\<lambda>f0 f. reads_as (read_val le lt t0 f0) (enc f) f MAX_PARSE_STACK_DEPTH) fresh args"
    using assms(3,2) by (induction rule: list_all2_induct) (auto intro: read_val_enc [OF assms(1)])
  from reads_asD [OF read_members_enc [OF this] ready_open [where rest = "[]"]]
  have "read_members le lt t0 fresh (open_reader (enc_members args))
      = (args, adv (length (enc_members args)) (open_reader (enc_members args)))" by simp
  moreover have "(open_reader bs)\<lparr>stops := [], lastError := NONE, faulted := False\<rparr> = open_reader bs" for bs
    by (simp add: open_reader_def)
  ultimately show ?thesis by (simp add: Serializer_Read_def)
qed

text \<open>The two halves of a remote call: the packet that is sent, and the call its payload makes.\<close>

lemma remote_call_sends:
  fixes d :: "('d, val list, 'h) Remote"
  assumes "\<forall>v \<in> set args. encodable lt MAX_PARSE_STACK_DEPTH v"
    and "remote_serializer d = Some (Serializer le1 lt t1)" and "rd_stream (remote_state d) = Some os"
    and "rd_dispatcher (remote_state d) = Some disp" and "m_transport w disp = Some t"
    and "\<not> wfail (streams w os)" and "wseekable (streams w os)"
    and "transport_send env t (length (packets w)) = Inr 0"
    and "rd_errorHandler (remote_state d) = None
      \<or> handler_throws env (the (rd_errorHandler (remote_state d))) (rd_id (remote_state d)) SUCCESS 0 = None"
  shows "\<exists>d1 w1. Remote_call env args (d, w) = (None, d1, w1)
    \<and> packets w1 = packets w @ [(t, DmqHeader (rd_id (remote_state d)) (seq_counter w) 0, enc_members args)]
    \<and> streams w1 os = stream_reset (streams w1 os)"
proof -
  let ?os = "(streams w os)\<lparr>outbuf := [], ppos := 0, wError := NONE\<rparr>"
  have wr: "Write (Serializer le1 lt t1) args (streams w os) = (None, put (enc_members args) ?os)"
    using Serializer_Write_put [OF assms(1,6,7)] by (simp add: Serializer_def)
  have good: "wgood (put (enc_members args) ?os)" "outbuf (put (enc_members args) ?os) = enc_members args"
    using assms(6) by (simp_all add: put_def wgood_def)
  obtain d1 w1 x where run: "Remote_call env args (d, w) = (x, d1, w1)" by (metis prod_cases3)
  then have "x = None
      \<and> packets w1 = packets w @ [(t, DmqHeader (rd_id (remote_state d)) (seq_counter w) 0, enc_members args)]
      \<and> streams w1 os = stream_reset (streams w1 os)"
    using assms(2-5,8,9) good
    by (auto simp: Remote_call_def state_call_def wr SendSerialized_def dispatch_stream_def Dispatch_def fetch_seq_def
        send_packet_def RaiseSuccess_def call_handler_def Let_def split: option.splits)
  with run show ?thesis by simp
qed

lemma remote_invoke_calls:
  fixes e :: "('e, val list, 'k) Remote"
  assumes "\<And>x y. lt x y \<Longrightarrow> \<not> lt y x" and "\<forall>v \<in> set args. encodable lt MAX_PARSE_STACK_DEPTH v"
    and "list_all2 shape fresh args" and "remote_serializer e = Some (Serializer le2 lt t2)"
  shows "\<exists>is. Remote_Invoke env' base_call (length args) fresh (open_reader (enc_members args)) (e, u)
      = (Inr True, Some (base_call args (remote_base e)), is, e, u)"
proof -
  let ?payload = "enc_members args"
  have len: "length fresh = length args" using assms(3) by (rule list_all2_lengthD)
  have rd: "Read (Serializer le2 lt t2) fresh (open_reader ?payload)
      = (None, args, adv (length ?payload) (open_reader ?payload))"
    using Serializer_Read_enc [OF assms(1-3)] by (simp add: Serializer_def)
  have ok: "\<not> failbit (adv (length ?payload) (open_reader ?payload))"
    by (simp add: open_reader_def)
  show ?thesis
    using assms(4) len ok by (cases "args = []") (auto simp: Remote_Invoke_def rd Let_def)
qed

text \<open>
  C9: a call of a wired remote delegate whose transport accepts the packet arrives: the packet has
  the delegate's id and the next number, and on any host a delegate of the signature that gets the payload in
  \<^verbatim>\<open>Invoke\<close> calls its target with the arguments of the call, whatever the byte orders of the two hosts.
\<close>

theorem remote_call_arrives:
  fixes d :: "('d, val list, 'h) Remote" and e :: "('e, val list, 'k) Remote"
  assumes "\<And>x y. lt x y \<Longrightarrow> \<not> lt y x" and "\<forall>v \<in> set args. encodable lt MAX_PARSE_STACK_DEPTH v"
    and "list_all2 shape fresh args"
    and "remote_serializer d = Some (Serializer le1 lt t1)" and "rd_stream (remote_state d) = Some os"
    and "rd_dispatcher (remote_state d) = Some disp" and "m_transport w disp = Some t"
    and "\<not> wfail (streams w os)" and "wseekable (streams w os)"
    and "transport_send env t (length (packets w)) = Inr 0"
    and "rd_errorHandler (remote_state d) = None
      \<or> handler_throws env (the (rd_errorHandler (remote_state d))) (rd_id (remote_state d)) SUCCESS 0 = None"
    and "remote_serializer e = Some (Serializer le2 lt t2)"
  shows "let (x, d1, w1) = Remote_call env args (d, w); (i, header, payload) = last (packets w1);
             (result, called, is, e1, u1) = Remote_Invoke env' base_call (length args) fresh (open_reader payload) (e, u)
    in x = None \<and> packets w1 = packets w @ [(t, DmqHeader (rd_id (remote_state d)) (seq_counter w) 0, payload)]
       \<and> streams w1 os = stream_reset (streams w1 os)
       \<and> result = Inr True \<and> called = Some (base_call args (remote_base e)) \<and> e1 = e \<and> u1 = u"
  using remote_call_sends [OF assms(2,4-11)] remote_invoke_calls [OF assms(1-3,12), of env' base_call u] by auto

definition receiver :: "(DelegateFree, val list, nat) Remote" where
  "receiver = Remote_SetSerializer (Some (Serializer False byte_lt 0)) (DelegateFreeRemote (Some 11) 7)"

definition greeting :: "val list" where
  "greeting = [Lit [1, 2, 3, 4], Str [104, 105]]"

lemma remote_call_arrives_witness:
  "let (x, d1, w1) = Remote_call flaky greeting (sender, idle_link); (i, header, payload) = last (packets w1);
       (result, called, is, e1, u1) = Remote_Invoke flaky DelegateFree_call (length greeting)
         [Lit [0, 0, 0, 0], Str []] (open_reader payload) (receiver, idle_link)
   in x = None \<and> packets w1 = packets idle_link
          @ [(0, DmqHeader (rd_id (remote_state sender)) (seq_counter idle_link) 0, payload)]
      \<and> streams w1 4 = stream_reset (streams w1 4)
      \<and> result = Inr True \<and> called = Some (DelegateFree_call greeting (remote_base receiver))
      \<and> e1 = receiver \<and> u1 = idle_link"
proof (rule remote_call_arrives [where disp = 2 and lt = byte_lt])
  show "remote_serializer receiver = Some (Serializer False byte_lt 0)"
    by (simp add: receiver_def sender_defs)
qed (simp_all add: byte_lt_asym greeting_def serialize_limits sender_defs flaky_def idle_link_def new_writer_def)

section \<open>What the code says and does not do\<close>

text \<open>
  A stream that failed stays failed: the serializer clears its contents but not its state, and the
  dispatcher, which would clear the state, is not reached. After one argument that cannot be written
  every later call of a delegate on the stream fails, whatever its arguments.
\<close>

lemma write_literal_failed: "wfail w \<Longrightarrow> wfail (write_literal le prependType m w)"
    "wfail w \<Longrightarrow> wfail (write_type le tag w)" "wfail w \<Longrightarrow> wfail (write_size le n w)"
  by (simp_all add: write_literal_def write_type_def write_size_def write_internal_def os_write_def wreject_def)

lemma write_container_failed: "wfail w \<Longrightarrow> wfail (write_container le tag item xs w)"
  by (simp add: write_container_def wcheck_stream_def wgood_def write_literal_failed wreject_def Let_def)

lemma write_val_failed: "wfail w \<Longrightarrow> wfail (write_val le v w)"
  by (cases v)
    (simp_all add: write_literal_failed write_container_failed write_string_def write_wstring_def write_cstring_def
      write_vector_bool_def write_vector_def write_list_def write_set_def write_map_def write_vector_ptr_def
      write_list_ptr_def write_map_ptr_def write_object_def wcheck_stream_def wgood_def wreject_def os_tellp_def
      Let_def split: option.split)

lemma failed_stream_sticks:
  assumes "remote_serializer d = Some (Serializer le lt t0)" and "rd_stream (remote_state d) = Some os"
    and "rd_errorHandler (remote_state d) = Some h" and "handler_throws env h (rd_id (remote_state d)) ERR_STREAM_NOT_GOOD 0 = None"
    and "wfail (streams w os)"
  shows "let (x, d1, w1) = Remote_call env args (d, w) in
    wfail (streams w1 os) \<and> packets w1 = packets w
    \<and> reports w1 = reports w @ [(h, rd_id (remote_state d), ERR_STREAM_NOT_GOOD, 0)]"
proof -
  have "wfail (write_members le args v)" if "wfail v" for v
    using that by (induction args arbitrary: v) (simp_all add: write_val_failed)
  then have "wfail (snd (Serializer_Write le args (streams w os)))" "fst (Serializer_Write le args (streams w os)) = None"
    using assms(5) by (simp_all add: Serializer_Write_def os_seekp_def)
  then show ?thesis
    using assms(1-4)
    by (simp add: Remote_call_def state_call_def Serializer_def split_beta Let_def SendSerialized_def
        wgood_def RaiseError_def call_handler_def)
qed

text \<open>A handler that throws when it is told of a success is told of a failure of the same call next,
  although the packet was sent.\<close>

lemma success_reported_as_failure:
  assumes "catching env" and "rd_errorHandler s = Some h" and "rd_stream s = Some os" and "rd_dispatcher s = Some disp"
    and "m_transport w disp = Some t" and "wgood (streams w os)" and "transport_send env t (length (packets w)) = Inr 0"
    and "handler_throws env h (rd_id s) SUCCESS 0 = Some Std_exception"
  shows "let (x, s1, w1) = SendSerialized env False (s, w) in
    reports w1 = reports w @ [(h, rd_id s, SUCCESS, 0), (h, rd_id s, ERR_DISPATCH, 0)]"
  using assms
  by (simp add: SendSerialized_def dispatch_stream_def Dispatch_def fetch_seq_def send_packet_def RaiseSuccess_def
      RaiseError_def call_handler_def Let_def split: prod.split)

text \<open>\<^verbatim>\<open>Invoke\<close> returns true also when the arguments could not be read and the target was not called.\<close>

lemma invoke_true_without_call:
  assumes "remote_serializer d = Some z" and "good is" and "argc \<noteq> 0"
    and "Read z fresh is = (None, args, is1)" and "failbit is1"
    and "rd_errorHandler (remote_state d) = Some h" and "handler_throws env h (rd_id (remote_state d)) ERR_DESERIALIZE 0 = None"
  shows "fst (Remote_Invoke env base_call argc fresh is (d, w)) = Inr True
    \<and> fst (snd (Remote_Invoke env base_call argc fresh is (d, w))) = None"
  using assms by (simp add: Remote_Invoke_def RaiseError_def call_handler_def Let_def)

end
