(* ===== verification/SerialFrames.thy ===== *)
theory SerialFrames
  imports Remote Checksum
begin

text \<open>
  \<^verbatim>\<open>port/transport/serial/SerialTransport.h\<close>: packets on a serial line, framed by a marker and a
  length and protected by a checksum. The library \<^verbatim>\<open>libserialport\<close> is the parameter \<open>sp\<close>, of which
  \<open>sp_laws\<close> states the documented behaviour; the state \<open>'p\<close> of an open port is abstract. Values of
  16 bits go through the memory of the host, whose byte order is \<open>le\<close>.
\<close>

unbundle bit_operations_syntax

section \<open>The port\<close>

text \<open>\<open>sp_blocking_read n timeout\<close> returns an error (\<open>None\<close>) or at most \<open>n\<close> bytes, none when the time is
  up before the first one arrives.\<close>

record 'p sp_api =
  sp_blocking_read :: "nat \<Rightarrow> nat \<Rightarrow> 'p \<Rightarrow> byte list option \<times> 'p"
  sp_blocking_write :: "byte list \<Rightarrow> nat \<Rightarrow> 'p \<Rightarrow> int \<times> 'p"

text \<open>A port that works, by the bytes that arrive in time (\<open>incoming\<close>) and those sent so far (\<open>outgoing\<close>):
  a read hands over the next bytes and fails only when none is coming, a write sends as many as it says.\<close>

definition sp_laws :: "'p sp_api \<Rightarrow> ('p \<Rightarrow> byte list) \<Rightarrow> ('p \<Rightarrow> byte list) \<Rightarrow> bool" where
  "sp_laws sp incoming outgoing \<longleftrightarrow>
     (\<forall>n timeout p. case sp_blocking_read sp n timeout p of
        (None, p1) \<Rightarrow> incoming p = []
      | (Some bs, p1) \<Rightarrow> length bs \<le> n \<and> incoming p = bs @ incoming p1 \<and> outgoing p1 = outgoing p
          \<and> (bs = [] \<longrightarrow> n = 0 \<or> incoming p = []))
     \<and> (\<forall>bs timeout p. case sp_blocking_write sp bs timeout p of (k, p1) \<Rightarrow>
          incoming p1 = incoming p \<and> k \<le> int (length bs) \<and> outgoing p1 = outgoing p @ take (nat k) bs)"

section \<open>Values in memory\<close>

definition swap16 :: "u16 \<Rightarrow> u16" where
  "swap16 v = push_bit 8 v OR drop_bit 8 v"

definition memory_of :: "bool \<Rightarrow> u16 \<Rightarrow> byte list" where
  "memory_of le v = image le (u16_bytes v)"

definition value_of :: "bool \<Rightarrow> byte list \<Rightarrow> u16" where
  "value_of le bs = bytes_u16 (image le bs)"

section \<open>The transport\<close>

definition HEADER_SIZE :: nat where "HEADER_SIZE = 8"
definition BUFFER_SIZE :: nat where "BUFFER_SIZE = 4096"

text \<open>The transports for sending and receiving are the object itself unless they are replaced. What
  another transport is asked to send and what the transport monitor is told are recorded.\<close>

datatype peer = Nobody | Itself | Another

record 'p SerialTransport =
  m_port :: "'p option"
  m_sendTransport :: peer
  m_recvTransport :: peer
  m_transportMonitor :: bool
  acks_elsewhere :: "DmqHeader list"
  acked :: "u16 list"

definition SerialTransport :: "'p SerialTransport" where
  "SerialTransport = \<lparr>m_port = None, m_sendTransport = Itself, m_recvTransport = Itself,
     m_transportMonitor = False, acks_elsewhere = [], acked = []\<rparr>"

definition header_bytes :: "bool \<Rightarrow> DmqHeader \<Rightarrow> byte list" where
  "header_bytes le h =
     memory_of le (swap16 (m_marker h)) @ memory_of le (swap16 (m_id h))
     @ memory_of le (swap16 (m_seqNum h)) @ memory_of le (swap16 (m_length h))"

definition frame :: "bool \<Rightarrow> DmqHeader \<Rightarrow> byte list \<Rightarrow> byte list" where
  "frame le header body =
     (let headerCopy = header\<lparr>m_length := of_nat (length body)\<rparr>;
          packetWithoutCrc = header_bytes le headerCopy @ body;
          crc = Crc16CalcBlock packetWithoutCrc 0xFFFF
      in packetWithoutCrc @ memory_of le crc)"

definition Send :: "'p sp_api \<Rightarrow> bool \<Rightarrow> byte list \<Rightarrow> DmqHeader \<Rightarrow> 'p SerialTransport \<Rightarrow> int \<times> 'p SerialTransport" where
  "Send sp le body header tr =
     (case m_port tr of
        None \<Rightarrow> (-1, tr)
      | Some p \<Rightarrow>
          if 65535 < length body then (-1, tr)
          else let packetData = frame le header body;
                   (result, p1) = sp_blocking_write sp packetData 1000 p
               in (if result \<noteq> int (length packetData) then -1 else 0, tr\<lparr>m_port := Some p1\<rparr>))"

text \<open>\<^verbatim>\<open>ReadExact\<close>: \<open>None\<close> when an error or a timeout comes before the last byte.\<close>

function ReadExact :: "'p sp_api \<Rightarrow> nat \<Rightarrow> nat \<Rightarrow> 'p \<Rightarrow> byte list option \<times> 'p" where
  "ReadExact sp n timeout p =
     (if n = 0 then (Some [], p)
      else case sp_blocking_read sp n timeout p of
             (None, p1) \<Rightarrow> (None, p1)
           | (Some [], p1) \<Rightarrow> (None, p1)
           | (Some (b # bs), p1) \<Rightarrow>
               (case ReadExact sp (n - length (b # bs)) timeout p1 of
                  (None, p2) \<Rightarrow> (None, p2)
                | (Some cs, p2) \<Rightarrow> (Some ((b # bs) @ cs), p2)))"
  by pat_completeness auto
termination by (relation "measure (\<lambda>(sp, n, timeout, p). n)") auto

declare ReadExact.simps [simp del]

text \<open>The loop that looks for the marker; on a line that never stops sending it need not end.\<close>

partial_function (option) sync_loop :: "'p sp_api \<Rightarrow> 'p \<Rightarrow> (bool \<times> 'p) option" where
  "sync_loop sp p =
     (case sp_blocking_read sp 1 10 p of
        (None, p1) \<Rightarrow> Some (False, p1)
      | (Some [], p1) \<Rightarrow> Some (False, p1)
      | (Some (b # bs), p1) \<Rightarrow>
          if b = 0xAA then
            (case sp_blocking_read sp 1 100 p1 of
               (Some (next_b # cs), p2) \<Rightarrow> if next_b = 0x55 then Some (True, p2) else sync_loop sp p2
             | (_, p2) \<Rightarrow> sync_loop sp p2)
          else sync_loop sp p1)"

definition read_header :: "bool \<Rightarrow> byte list \<Rightarrow> DmqHeader" where
  "read_header le headerBuf =
     \<lparr>m_marker = swap16 (value_of le (take 2 headerBuf)),
      m_id = swap16 (value_of le (take 2 (drop 2 headerBuf))),
      m_seqNum = swap16 (value_of le (take 2 (drop 4 headerBuf))),
      m_length = swap16 (value_of le (take 2 (drop 6 headerBuf)))\<rparr>"

definition acknowledge :: "'p sp_api \<Rightarrow> bool \<Rightarrow> DmqHeader \<Rightarrow> 'p SerialTransport \<Rightarrow> 'p SerialTransport" where
  "acknowledge sp le header tr =
     (if m_id header = ACK_REMOTE_ID
      then (if m_transportMonitor tr then tr\<lparr>acked := acked tr @ [m_seqNum header]\<rparr> else tr)
      else let ack = DmqHeader ACK_REMOTE_ID (m_seqNum header) 0 in
           case m_sendTransport tr of
             Nobody \<Rightarrow> tr
           | Itself \<Rightarrow> snd (Send sp le [] ack tr)
           | Another \<Rightarrow> tr\<lparr>acks_elsewhere := acks_elsewhere tr @ [ack]\<rparr>)"

text \<open>The payload and the checksum, once the header is known.\<close>

definition receive_body ::
  "'p sp_api \<Rightarrow> bool \<Rightarrow> byte list \<Rightarrow> DmqHeader \<Rightarrow> writer \<Rightarrow> 'p \<Rightarrow> 'p SerialTransport
   \<Rightarrow> int \<times> writer \<times> 'p SerialTransport" where
  "receive_body sp le headerBuf header is p tr =
     (let len = unat (m_length header) in
      if BUFFER_SIZE < len then (-1, is, tr\<lparr>m_port := Some p\<rparr>)
      else case (if 0 < len then ReadExact sp len 1000 p else (Some [], p)) of
             (None, p1) \<Rightarrow> (-1, is, tr\<lparr>m_port := Some p1\<rparr>)
           | (Some body, p1) \<Rightarrow>
               (let is1 = (if 0 < len then os_write body is else is) in
                case ReadExact sp 2 500 p1 of
                  (None, p2) \<Rightarrow> (-1, is1, tr\<lparr>m_port := Some p2\<rparr>)
                | (Some crc, p2) \<Rightarrow>
                    (let calcCrc = Crc16CalcBlock headerBuf 0xFFFF;
                         calcCrc1 = (if 0 < len then Crc16CalcBlock body calcCrc else calcCrc);
                         tr1 = tr\<lparr>m_port := Some p2\<rparr>
                     in if value_of le crc \<noteq> calcCrc1 then (-1, is1, tr1)
                        else (0, is1, acknowledge sp le header tr1))))"

definition Receive ::
  "'p sp_api \<Rightarrow> bool \<Rightarrow> writer \<Rightarrow> DmqHeader \<Rightarrow> 'p SerialTransport
   \<Rightarrow> (int \<times> writer \<times> DmqHeader \<times> 'p SerialTransport) option" where
  "Receive sp le is header tr =
     (case m_port tr of
        None \<Rightarrow> Some (-1, is, header, tr)
      | Some p \<Rightarrow>
          if m_recvTransport tr \<noteq> Itself then Some (-1, is, header, tr)
          else case sync_loop sp p of
                 None \<Rightarrow> None
               | Some (False, p1) \<Rightarrow> Some (-1, is, header, tr\<lparr>m_port := Some p1\<rparr>)
               | Some (True, p1) \<Rightarrow>
                   (case ReadExact sp (HEADER_SIZE - 2) 1000 p1 of
                      (None, p2) \<Rightarrow> Some (-1, is, header, tr\<lparr>m_port := Some p2\<rparr>)
                    | (Some rest, p2) \<Rightarrow>
                        (let headerBuf = [0xAA, 0x55] @ rest;
                             header1 = read_header le headerBuf
                         in if m_marker header1 \<noteq> MARKER then Some (-1, is, header1, tr\<lparr>m_port := Some p2\<rparr>)
                            else let (result, is1, tr1) = receive_body sp le headerBuf header1 is p2 tr
                                 in Some (result, is1, header1, tr1))))"

section \<open>Reading from a working line\<close>

lemma sp_read:
  assumes "sp_laws sp incoming outgoing" and "0 < n" and "incoming p \<noteq> []"
  obtains b bs p1 where "sp_blocking_read sp n timeout p = (Some (b # bs), p1)" "length (b # bs) \<le> n"
    "incoming p = b # bs @ incoming p1" "outgoing p1 = outgoing p"
proof -
  obtain r p1 where r: "sp_blocking_read sp n timeout p = (r, p1)" by fastforce
  have "case sp_blocking_read sp n timeout p of
        (None, p1) \<Rightarrow> incoming p = []
      | (Some bs, p1) \<Rightarrow> length bs \<le> n \<and> incoming p = bs @ incoming p1 \<and> outgoing p1 = outgoing p
          \<and> (bs = [] \<longrightarrow> n = 0 \<or> incoming p = [])"
    by (rule assms(1) [unfolded sp_laws_def, THEN conjunct1, rule_format])
  with r assms(2,3) obtain xs where xs: "r = Some xs" "length xs \<le> n" "incoming p = xs @ incoming p1"
    "outgoing p1 = outgoing p" "xs \<noteq> []"
    by (cases r) auto
  then obtain b bs where "xs = b # bs" by (cases xs) auto
  with r xs show thesis by (intro that [of b bs p1]) simp_all
qed

lemma sp_read_byte:
  assumes "sp_laws sp incoming outgoing" and "incoming p = b # bs"
  obtains p1 where "sp_blocking_read sp 1 timeout p = (Some [b], p1)" "incoming p1 = bs" "outgoing p1 = outgoing p"
proof -
  have "incoming p \<noteq> []" using assms(2) by simp
  then obtain c cs p1 where r: "sp_blocking_read sp 1 timeout p = (Some (c # cs), p1)" "length (c # cs) \<le> 1"
    "incoming p = c # cs @ incoming p1" "outgoing p1 = outgoing p"
    using sp_read [OF assms(1) zero_less_one] by blast
  with assms(2) show thesis by (intro that [of p1]) simp_all
qed

lemma sp_write:
  assumes "sp_laws sp incoming outgoing"
  obtains k p1 where "sp_blocking_write sp bs timeout p = (k, p1)" "incoming p1 = incoming p"
    "outgoing p1 = outgoing p @ take (nat k) bs" "k \<le> int (length bs)"
proof -
  obtain k p1 where r: "sp_blocking_write sp bs timeout p = (k, p1)" by fastforce
  have "case sp_blocking_write sp bs timeout p of (k, p1) \<Rightarrow>
          incoming p1 = incoming p \<and> k \<le> int (length bs) \<and> outgoing p1 = outgoing p @ take (nat k) bs"
    by (rule assms [unfolded sp_laws_def, THEN conjunct2, rule_format])
  with r show thesis by (intro that [of k p1]) simp_all
qed

lemma read_exact:
  assumes "sp_laws sp incoming outgoing" and "n \<le> length (incoming p)"
  shows "\<exists>p1. ReadExact sp n timeout p = (Some (take n (incoming p)), p1)
    \<and> incoming p1 = drop n (incoming p) \<and> outgoing p1 = outgoing p"
  using assms(2)
proof (induction n arbitrary: p rule: less_induct)
  case (less n)
  show ?case
  proof (cases "n = 0")
    case True
    then show ?thesis by (simp add: ReadExact.simps)
  next
    case False
    with less.prems have "incoming p \<noteq> []" by auto
    then obtain b bs p1 where r: "sp_blocking_read sp n timeout p = (Some (b # bs), p1)" "length (b # bs) \<le> n"
      "incoming p = b # bs @ incoming p1" "outgoing p1 = outgoing p"
      using sp_read [OF assms(1)] False by (metis neq0_conv)
    have "n - length (b # bs) < n" "n - length (b # bs) \<le> length (incoming p1)"
      using r less.prems False by simp_all
    from less.IH [OF this] obtain p2 where
      "ReadExact sp (n - length (b # bs)) timeout p1 = (Some (take (n - length (b # bs)) (incoming p1)), p2)"
      "incoming p2 = drop (n - length (b # bs)) (incoming p1)" "outgoing p2 = outgoing p1"
      by blast
    with r False show ?thesis
      by (subst ReadExact.simps) (cases n; simp)
  qed
qed

lemma sync_found:
  assumes "sp_laws sp incoming outgoing" and "incoming p = noise @ 0xAA # 0x55 # bs" and "0xAA \<notin> set noise"
  shows "\<exists>p1. sync_loop sp p = Some (True, p1) \<and> incoming p1 = bs \<and> outgoing p1 = outgoing p"
  using assms(2,3)
proof (induction noise arbitrary: p)
  case Nil
  obtain p1 where r1: "sp_blocking_read sp 1 10 p = (Some [0xAA], p1)" "incoming p1 = 0x55 # bs" "outgoing p1 = outgoing p"
    using sp_read_byte [OF assms(1)] Nil by (metis append_Nil)
  obtain p2 where "sp_blocking_read sp 1 100 p1 = (Some [0x55], p2)" "incoming p2 = bs" "outgoing p2 = outgoing p1"
    using sp_read_byte [OF assms(1) r1(2)] by metis
  with r1 show ?case by (subst sync_loop.simps) simp
next
  case (Cons b noise)
  obtain p1 where r1: "sp_blocking_read sp 1 10 p = (Some [b], p1)" "incoming p1 = noise @ 0xAA # 0x55 # bs"
    "outgoing p1 = outgoing p"
    using sp_read_byte [OF assms(1)] Cons.prems(1) by (metis append_Cons)
  with Cons.IH [OF r1(2)] Cons.prems show ?case by (subst sync_loop.simps) auto
qed

section \<open>Headers\<close>

lemma u16_bytes_value [simp]: "u16_bytes (bytes_u16 [lo, hi]) = [lo, hi]"
proof -
  have "ucast (bytes_u16 [lo, hi]) = lo"
    by (rule bit_word_eqI) (auto simp: bit_simps)
  moreover have "ucast (drop_bit 8 (bytes_u16 [lo, hi])) = hi"
    by (rule bit_word_eqI) (auto simp: bit_simps dest: bit_imp_le_length)
  ultimately show ?thesis by (simp add: u16_bytes_def del: bytes_u16.simps)
qed

lemma value_memory [simp]: "value_of le (memory_of le v) = v"
  by (simp add: value_of_def memory_of_def)

lemma length_memory [simp]: "length (memory_of le v) = 2"
  by (simp add: memory_of_def)

lemma swap16_swap16 [simp]: "swap16 (swap16 v) = v"
  by (rule bit_word_eqI) (auto simp: swap16_def bit_simps)

lemma memory_swap: "memory_of True (swap16 v) = [ucast (drop_bit 8 v), ucast v]"
proof -
  have "(ucast (swap16 v) :: byte) = ucast (drop_bit 8 v)"
    by (rule bit_word_eqI) (auto simp: swap16_def bit_simps)
  moreover have "(ucast (drop_bit 8 (swap16 v)) :: byte) = ucast v"
    by (rule bit_word_eqI) (auto simp: swap16_def bit_simps dest: bit_imp_le_length)
  ultimately show ?thesis by (simp add: memory_of_def image_def u16_bytes_def)
qed

lemma length_header [simp]: "length (header_bytes le h) = 8"
  by (simp add: header_bytes_def)

lemma read_header_bytes [simp]: "read_header le (header_bytes le h) = h"
  by (simp add: read_header_def header_bytes_def)

lemma marker_read: "m_marker (read_header True ([0xAA, 0x55] @ hdr)) = MARKER"
  by (simp add: read_header_def value_of_def image_def swap16_def MARKER_def)

lemma header_marker: "m_marker h = MARKER \<Longrightarrow> take 2 (header_bytes True h) = [0xAA, 0x55]"
  by (simp add: header_bytes_def memory_swap MARKER_def)

section \<open>Bursts\<close>

lemma value_of_eq: "value_of True [lo, hi] = v \<longleftrightarrow> [lo, hi] = u16_bytes v"
  by (metis bytes_u16_bytes image_def u16_bytes_value value_of_def)

lemma crc_burst:
  assumes sent: "xs @ a # b # ys = D @ memory_of True (Crc16CalcBlock D c)"
    and got: "xs @ a' # b' # ys = D' @ crc" and len: "length D' = length D" "length crc = 2"
    and "(a, b) \<noteq> (a', b')" and "length ys \<noteq> 1"
  shows "value_of True crc \<noteq> Crc16CalcBlock D' c"
proof -
  have mem: "memory_of True v = u16_bytes v" for v by (simp add: memory_of_def image_def)
  consider "ys = []" | zs y z where "ys = zs @ [y, z]"
    using assms(6) by (cases ys rule: rev_cases; cases "butlast ys" rule: rev_cases) auto
  then show ?thesis
  proof cases
    case 1
    have "length xs = length D" using arg_cong [OF sent, of length] 1 by simp
    with sent got len 1 have "[a, b] = u16_bytes (Crc16CalcBlock D c)" "D' = D" "crc = [a', b']"
      by (simp_all add: mem)
    with assms(5) show ?thesis by (metis list.inject prod.inject value_of_eq)
  next
    case (2 zs y z)
    have lD: "length (xs @ a # b # zs) = length D" using arg_cong [OF sent, of length] 2 by simp
    have "(xs @ a # b # zs) @ [y, z] = D @ u16_bytes (Crc16CalcBlock D c)" using sent 2 by (simp add: mem)
    with lD have D: "xs @ a # b # zs = D" "[y, z] = u16_bytes (Crc16CalcBlock D c)"
      by (simp_all only: append_eq_append_conv [OF disjI1 [OF lD]])
    have lD': "length (xs @ a' # b' # zs) = length D'" using lD len by simp
    have "(xs @ a' # b' # zs) @ [y, z] = D' @ crc" using got 2 by simp
    with lD' have D': "xs @ a' # b' # zs = D'" "[y, z] = crc"
      by (simp_all only: append_eq_append_conv [OF disjI1 [OF lD']])
    have "Crc16CalcBlock D c \<noteq> Crc16CalcBlock D' c"
      using two_steps_inj [of "Crc16CalcBlock xs c" a b a' b'] assms(5) unfolding D(1) [symmetric] D'(1) [symmetric]
      by (auto simp: calc_append calc_inj table_step_loop)
    moreover have "value_of True crc = Crc16CalcBlock D c" using D(2) D'(2) by (metis value_of_eq)
    ultimately show ?thesis by simp
  qed
qed

section \<open>Receiving a frame\<close>

lemma receive_body_frame:
  assumes laws: "sp_laws sp incoming outgoing" and p: "incoming p = body @ crc @ after" and len: "length crc = 2"
    and h: "unat (m_length header) = length body" "length body \<le> BUFFER_SIZE"
  shows "\<exists>p1. incoming p1 = after \<and> outgoing p1 = outgoing p
    \<and> receive_body sp le headerBuf header is p tr
      = (if value_of le crc = Crc16CalcBlock (headerBuf @ body) 0xFFFF
         then (0, if body = [] then is else os_write body is, acknowledge sp le header (tr\<lparr>m_port := Some p1\<rparr>))
         else (-1, if body = [] then is else os_write body is, tr\<lparr>m_port := Some p1\<rparr>))"
proof -
  obtain p1 where p1: "(if 0 < length body then ReadExact sp (length body) 1000 p else (Some [], p)) = (Some body, p1)"
    "incoming p1 = crc @ after" "outgoing p1 = outgoing p"
  proof (cases "body = []")
    case True
    with p that [of p] show thesis by simp
  next
    case False
    with p that read_exact [OF laws, of "length body" p 1000] show thesis by auto
  qed
  obtain p2 where p2: "ReadExact sp 2 500 p1 = (Some crc, p2)" "incoming p2 = after" "outgoing p2 = outgoing p1"
    using read_exact [OF laws, of 2 p1 500] p1(2) len by auto
  from p1 p2 h show ?thesis
    by (intro exI [of _ p2]) (simp add: receive_body_def Let_def calc_append)
qed

lemma receive_frame:
  assumes laws: "sp_laws sp incoming outgoing" and tr: "m_port tr = Some p" "m_recvTransport tr = Itself"
    and p: "incoming p = noise @ [0xAA, 0x55] @ hdr @ body @ crc @ after" and noise: "0xAA \<notin> set noise"
    and len: "length hdr = 6" "length crc = 2"
    and h: "m_marker (read_header le ([0xAA, 0x55] @ hdr)) = MARKER"
      "unat (m_length (read_header le ([0xAA, 0x55] @ hdr))) = length body" "length body \<le> BUFFER_SIZE"
  shows "\<exists>p1. incoming p1 = after \<and> outgoing p1 = outgoing p
    \<and> Receive sp le is header tr
      = (let is1 = (if body = [] then is else os_write body is);
             header1 = read_header le ([0xAA, 0x55] @ hdr)
         in if value_of le crc = Crc16CalcBlock ([0xAA, 0x55] @ hdr @ body) 0xFFFF
            then Some (0, is1, header1, acknowledge sp le header1 (tr\<lparr>m_port := Some p1\<rparr>))
            else Some (-1, is1, header1, tr\<lparr>m_port := Some p1\<rparr>))"
proof -
  obtain p1 where p1: "sync_loop sp p = Some (True, p1)" "incoming p1 = hdr @ body @ crc @ after" "outgoing p1 = outgoing p"
    using sync_found [OF laws, of p noise "hdr @ body @ crc @ after"] p noise by auto
  obtain p2 where p2: "ReadExact sp 6 1000 p1 = (Some hdr, p2)" "incoming p2 = body @ crc @ after" "outgoing p2 = outgoing p1"
    using read_exact [OF laws, of 6 p1 1000] p1(2) len(1) by auto
  obtain p3 where p3: "incoming p3 = after" "outgoing p3 = outgoing p2"
    "receive_body sp le ([0xAA, 0x55] @ hdr) (read_header le ([0xAA, 0x55] @ hdr)) is p2 tr
      = (if value_of le crc = Crc16CalcBlock (([0xAA, 0x55] @ hdr) @ body) 0xFFFF
         then (0, if body = [] then is else os_write body is,
               acknowledge sp le (read_header le ([0xAA, 0x55] @ hdr)) (tr\<lparr>m_port := Some p3\<rparr>))
         else (-1, if body = [] then is else os_write body is, tr\<lparr>m_port := Some p3\<rparr>))"
    using receive_body_frame [OF laws p2(2) len(2) h(2,3)] by blast
  show ?thesis
    by (rule exI [of _ p3])
      (use p1 p2 p3 h(1) tr in \<open>simp add: Receive_def HEADER_SIZE_def Let_def del: append_Cons\<close>)
qed

lemma frame_parts:
  assumes "m_marker header = MARKER" and "length body \<le> 65535"
  obtains hdr where "header_bytes True (header\<lparr>m_length := of_nat (length body)\<rparr>) = [0xAA, 0x55] @ hdr" "length hdr = 6"
    "frame True header body = [0xAA, 0x55] @ hdr @ body @ memory_of True (Crc16CalcBlock ([0xAA, 0x55] @ hdr @ body) 0xFFFF)"
    "read_header True ([0xAA, 0x55] @ hdr) = header\<lparr>m_length := of_nat (length body)\<rparr>"
proof -
  let ?h = "header\<lparr>m_length := of_nat (length body)\<rparr>" and ?hdr = "drop 2 (header_bytes True (header\<lparr>m_length := of_nat (length body)\<rparr>))"
  have "header_bytes True ?h = take 2 (header_bytes True ?h) @ ?hdr" by simp
  also have "take 2 (header_bytes True ?h) = [0xAA, 0x55]" by (rule header_marker) (simp add: assms(1))
  finally have e: "header_bytes True ?h = [0xAA, 0x55] @ ?hdr" .
  have "read_header True ([0xAA, 0x55] @ ?hdr) = ?h" by (simp only: e [symmetric] read_header_bytes)
  moreover have "frame True header body = [0xAA, 0x55] @ ?hdr @ body @ memory_of True (Crc16CalcBlock ([0xAA, 0x55] @ ?hdr @ body) 0xFFFF)"
    unfolding frame_def Let_def by (subst (1 2) e) simp
  ultimately show thesis using that [OF e] by simp
qed

lemma send_frame:
  assumes laws: "sp_laws sp incoming outgoing" and "m_port a = Some p" and "Send sp le body header a = (0, a1)"
    and "m_port a1 = Some p1"
  shows "outgoing p1 = outgoing p @ frame le header body \<and> length body \<le> 65535"
proof -
  obtain k q where "sp_blocking_write sp (frame le header body) 1000 p = (k, q)"
    "outgoing q = outgoing p @ take (nat k) (frame le header body)"
    using sp_write [OF laws] by metis
  with assms(2-4) show ?thesis by (auto simp: Send_def Let_def split: if_splits)
qed

text \<open>A packet cut at the ends of marker, header and payload, and what a change of two bytes leaves.\<close>

lemma cut_packet: "zs = take 2 zs @ take 6 (drop 2 zs) @ take n (drop 8 zs) @ drop (8 + n) zs"
  using append_take_drop_id [of 2 zs] append_take_drop_id [of 6 "drop 2 zs"] append_take_drop_id [of n "drop 8 zs"]
  by (simp add: add.commute)

lemma unchanged_header:
  assumes "2 \<le> length xs" and "length xs \<notin> {5, 6, 7}"
  shows "take 2 (xs @ c' # d' # ys) = take 2 (xs @ c # d # ys)"
    "take 2 (drop 6 (xs @ c' # d' # ys)) = take 2 (drop 6 (xs @ c # d # ys))"
proof -
  show "take 2 (xs @ c' # d' # ys) = take 2 (xs @ c # d # ys)" using assms(1) by simp
  consider "8 \<le> length xs" | "length xs \<le> 4" using assms(2) by fastforce
  then show "take 2 (drop 6 (xs @ c' # d' # ys)) = take 2 (drop 6 (xs @ c # d # ys))"
  proof cases
    case 2
    then have "6 - length xs = Suc (Suc (4 - length xs))" by simp
    with 2 show ?thesis by simp
  qed simp
qed

lemma read_length:
  assumes "length hdr = 6" and "length hdr' = 6"
    and "take 2 (drop 6 ([0xAA, 0x55] @ hdr @ us)) = take 2 (drop 6 ([0xAA, 0x55] @ hdr' @ vs))"
  shows "m_length (read_header le ([0xAA, 0x55] @ hdr)) = m_length (read_header le ([0xAA, 0x55] @ hdr'))"
  using assms by (simp add: read_header_def drop_Cons')

text \<open>The acknowledgement of a packet.\<close>

definition ack_of :: "DmqHeader \<Rightarrow> DmqHeader" where
  "ack_of header = DmqHeader ACK_REMOTE_ID (m_seqNum header) 0"

lemma acknowledge_effect:
  assumes laws: "sp_laws sp incoming outgoing" and "m_port tr = Some p"
  shows "\<exists>p1 k. m_port (acknowledge sp le header tr) = Some p1 \<and> incoming p1 = incoming p
    \<and> outgoing p1 = outgoing p @ (if m_id header \<noteq> ACK_REMOTE_ID \<and> m_sendTransport tr = Itself
                                  then take k (frame le (ack_of header) []) else [])
    \<and> acked (acknowledge sp le header tr)
        = acked tr @ (if m_id header = ACK_REMOTE_ID \<and> m_transportMonitor tr then [m_seqNum header] else [])
    \<and> acks_elsewhere (acknowledge sp le header tr)
        = acks_elsewhere tr @ (if m_id header \<noteq> ACK_REMOTE_ID \<and> m_sendTransport tr = Another then [ack_of header] else [])"
proof (cases "m_id header \<noteq> ACK_REMOTE_ID \<and> m_sendTransport tr = Itself")
  case True
  obtain k q where w: "sp_blocking_write sp (frame le (ack_of header) []) 1000 p = (k, q)" "incoming q = incoming p"
    "outgoing q = outgoing p @ take (nat k) (frame le (ack_of header) [])"
    using sp_write [OF laws] by metis
  then have "acknowledge sp le header tr = tr\<lparr>m_port := Some q\<rparr>"
    using True assms(2) by (simp add: acknowledge_def Send_def ack_of_def Let_def)
  with w True show ?thesis by auto
next
  case False
  with assms(2) show ?thesis
    by (cases "m_sendTransport tr") (auto simp: acknowledge_def Let_def ack_of_def)
qed

section \<open>Properties\<close>


text \<open>
  C38: a packet in which two neighbouring bytes were changed on the line is refused and not
  acknowledged, wherever they are behind the marker, except in the length and across the border of
  payload and checksum.
\<close>

theorem serial_corruption_refused:
  assumes "sp_laws sp incoming outgoing" and "m_marker header = MARKER" and "length body \<le> BUFFER_SIZE"
    and "frame True header body = xs @ c # d # ys" and "(c, d) \<noteq> (c', d')"
    and "2 \<le> length xs" and "length xs \<notin> {5, 6, 7}" and "length ys \<noteq> 1"
    and "m_port b = Some q" and "m_recvTransport b = Itself" and "0xAA \<notin> set noise"
    and "incoming q = noise @ (xs @ c' # d' # ys) @ after"
  shows "\<exists>is1 header1 q1. Receive sp True inp header0 b = Some (-1, is1, header1, b\<lparr>m_port := Some q1\<rparr>)
    \<and> incoming q1 = after \<and> outgoing q1 = outgoing q"
proof -
  let ?h = "header\<lparr>m_length := of_nat (length body)\<rparr>" and ?g = "xs @ c' # d' # ys"
  have len: "length body \<le> 65535" "unat (of_nat (length body) :: u16) = length body"
    using assms(3) by (simp_all add: BUFFER_SIZE_def unat_of_nat)
  obtain hdr where f: "length hdr = 6" "header_bytes True ?h = [0xAA, 0x55] @ hdr"
    "frame True header body = [0xAA, 0x55] @ hdr @ body @ memory_of True (Crc16CalcBlock ([0xAA, 0x55] @ hdr @ body) 0xFFFF)"
    using frame_parts [OF assms(2) len(1)] by metis
  define n where "n = length body"
  define hdr' where "hdr' = take 6 (drop 2 ?g)"
  define body' where "body' = take n (drop 8 ?g)"
  define crc' where "crc' = drop (8 + n) ?g"
  have size: "length ?g = 10 + n"
    using arg_cong [OF assms(4), of length] by (simp add: f n_def)
  have "take 2 ?g = take 2 (frame True header body)"
    unfolding assms(4) by (rule unchanged_header(1) [OF assms(6,7)])
  also have "\<dots> = [0xAA, 0x55]" by (simp add: f(3))
  finally have start: "take 2 ?g = [0xAA, 0x55]" .
  have g: "?g = [0xAA, 0x55] @ hdr' @ body' @ crc'"
    using cut_packet [of ?g n] unfolding start hdr'_def [symmetric] body'_def [symmetric] crc'_def [symmetric] .
  have l: "length hdr' = 6" "length body' = n" "length crc' = 2"
    unfolding hdr'_def body'_def crc'_def length_take length_drop size by simp_all
  have crc: "value_of True crc' \<noteq> Crc16CalcBlock ([0xAA, 0x55] @ hdr' @ body') 0xFFFF"
    by (rule crc_burst [of xs c d ys "[0xAA, 0x55] @ hdr @ body" _ c' d'])
      (use assms(4,5,8) f g l in \<open>simp_all add: n_def\<close>)
  have "take 2 (drop 6 ?g) = take 2 (drop 6 (frame True header body))"
    unfolding assms(4) by (rule unchanged_header(2) [OF assms(6,7)])
  then have "take 2 (drop 6 ([0xAA, 0x55] @ hdr' @ body' @ crc')) = take 2 (drop 6 ([0xAA, 0x55] @ hdr
      @ body @ memory_of True (Crc16CalcBlock ([0xAA, 0x55] @ hdr @ body) 0xFFFF)))"
    by (simp only: g f(3))
  from read_length [OF l(1) f(1) this]
  have "m_length (read_header True ([0xAA, 0x55] @ hdr')) = m_length (read_header True ([0xAA, 0x55] @ hdr))" .
  moreover have "read_header True ([0xAA, 0x55] @ hdr) = ?h"
    using read_header_bytes [of True ?h] by (simp only: f(2))
  ultimately have hl: "unat (m_length (read_header True ([0xAA, 0x55] @ hdr'))) = length body'"
    by (simp add: len(2) l n_def)
  have hm: "m_marker (read_header True ([0xAA, 0x55] @ hdr')) = MARKER" by (rule marker_read)
  have q: "incoming q = noise @ [0xAA, 0x55] @ hdr' @ body' @ crc' @ after"
    using assms(12) by (simp only: g append_assoc)
  have small: "length body' \<le> BUFFER_SIZE" using l(2) assms(3) by (simp add: n_def)
  from receive_frame [OF assms(1,9,10) q assms(11) l(1,3) hm hl small, of inp header0] crc
  obtain q1 where "incoming q1 = after" "outgoing q1 = outgoing q" and "Receive sp True inp header0 b
      = Some (-1, if body' = [] then inp else os_write body' inp, read_header True ([0xAA, 0x55] @ hdr'), b\<lparr>m_port := Some q1\<rparr>)"
    by (auto simp: Let_def simp del: append_Cons)
  then show ?thesis by blast
qed

text \<open>A line that hands over at most two bytes at a time, and a packet on it.\<close>

definition wire :: "(byte list \<times> byte list) sp_api" where
  "wire = \<lparr>sp_blocking_read = (\<lambda>n timeout (i, o'). (Some (take (min 2 n) i), drop (min 2 n) i, o')),
     sp_blocking_write = (\<lambda>bs timeout (i, o'). (int (length bs), i, o' @ bs))\<rparr>"

lemma wire_laws: "sp_laws wire fst snd"
  by (auto simp: sp_laws_def wire_def)

definition line_a :: "(byte list \<times> byte list) SerialTransport" where
  "line_a = SerialTransport\<lparr>m_port := Some ([], [])\<rparr>"

definition line_b :: "byte list \<Rightarrow> (byte list \<times> byte list) SerialTransport" where
  "line_b bs = SerialTransport\<lparr>m_port := Some (bs, [])\<rparr>"

lemma line_sends:
  "Send wire True [1, 2, 3] (DmqHeader 7 5 0) line_a
   = (0, line_a\<lparr>m_port := Some ([], frame True (DmqHeader 7 5 0) [1, 2, 3])\<rparr>)"
  by (simp add: Send_def line_a_def wire_def Let_def)


lemma flipped_frame: "frame True (DmqHeader 7 5 0) [1, 2, 3]
   = header_bytes True (DmqHeader 7 5 3) @ 1 # 2 # [3] @ memory_of True (Crc16CalcBlock (header_bytes True (DmqHeader 7 5 3) @ [1, 2, 3]) 0xFFFF)"
  by (simp add: frame_def DmqHeader_def Let_def)

lemma serial_corruption_refused_witness:
  "\<exists>is1 header1 q1. Receive wire True new_writer (DmqHeader 0 0 0)
       (line_b ([7] @ (header_bytes True (DmqHeader 7 5 3) @ 1 # 6 # [3] @ memory_of True
          (Crc16CalcBlock (header_bytes True (DmqHeader 7 5 3) @ [1, 2, 3]) 0xFFFF)) @ [9]))
      = Some (-1, is1, header1, (line_b ([7] @ (header_bytes True (DmqHeader 7 5 3) @ 1 # 6 # [3] @ memory_of True
          (Crc16CalcBlock (header_bytes True (DmqHeader 7 5 3) @ [1, 2, 3]) 0xFFFF)) @ [9]))\<lparr>m_port := Some q1\<rparr>)
    \<and> fst q1 = [9] \<and> snd q1 = []"
  using serial_corruption_refused [OF wire_laws _ _ flipped_frame, where c' = 1 and d' = 6 and noise = "[7]" and after = "[9]"
      and ?header0.0 = "DmqHeader 0 0 0" and inp = new_writer and q = "([7] @ (header_bytes True (DmqHeader 7 5 3) @ 1 # 6 # [3] @ memory_of True
          (Crc16CalcBlock (header_bytes True (DmqHeader 7 5 3) @ [1, 2, 3]) 0xFFFF)) @ [9], [])"
      and b = "line_b ([7] @ (header_bytes True (DmqHeader 7 5 3) @ 1 # 6 # [3] @ memory_of True
          (Crc16CalcBlock (header_bytes True (DmqHeader 7 5 3) @ [1, 2, 3]) 0xFFFF)) @ [9])"]
  by (simp add: DmqHeader_def BUFFER_SIZE_def line_b_def SerialTransport_def)

section \<open>Limits of the protocol\<close>

text \<open>A byte \<^verbatim>\<open>0xAA\<close> in front of a packet hides its marker: the loop drops the byte that follows it.\<close>

lemma stray_marker_byte_hides_packet:
  assumes laws: "sp_laws sp incoming outgoing" and "incoming p = 0xAA # 0xAA # 0x55 # bs"
  shows "\<exists>p1. sync_loop sp p = sync_loop sp p1 \<and> incoming p1 = bs"
proof -
  obtain p1 where r1: "sp_blocking_read sp 1 10 p = (Some [0xAA], p1)" "incoming p1 = 0xAA # 0x55 # bs"
    using sp_read_byte [OF laws assms(2)] by metis
  obtain p2 where r2: "sp_blocking_read sp 1 100 p1 = (Some [0xAA], p2)" "incoming p2 = 0x55 # bs"
    using sp_read_byte [OF laws r1(2)] by metis
  obtain p3 where r3: "sp_blocking_read sp 1 10 p2 = (Some [0x55], p3)" "incoming p3 = bs"
    using sp_read_byte [OF laws r2(2)] by metis
  have "sync_loop sp p = sync_loop sp p2" using r1(1) r2(1) by (subst sync_loop.simps) simp
  also have "\<dots> = sync_loop sp p3" using r3(1) by (subst sync_loop.simps) simp
  finally show ?thesis using r3(2) by blast
qed

text \<open>The checksum is sent low byte first: a change of the last byte of the payload together with the byte
  after it can pass.\<close>

lemma burst_across_border_passes:
  "Crc16CalcBlock (D @ [x XOR 0x89]) c = Crc16CalcBlock (D @ [x]) c XOR 0x00A1"
proof -
  have "crc16_table_step k (x XOR 0x89) = crc16_table_step k x XOR 0x00A1" for k
  proof -
    have "k XOR push_bit 8 (ucast (x XOR 0x89)) = (k XOR push_bit 8 (ucast x)) XOR 0x8900"
    proof -
      have "push_bit 8 (ucast (x XOR y)) = (push_bit 8 (ucast x) :: u16) XOR push_bit 8 (ucast y)" for y
        by (rule bit_word_eqI) (auto simp: bit_simps)
      then have "push_bit 8 (ucast (x XOR 0x89)) = (push_bit 8 (ucast x) :: u16) XOR push_bit 8 (ucast (0x89 :: byte))" .
      also have "push_bit 8 (ucast (0x89 :: byte)) = (0x8900 :: u16)" by simp
      finally show ?thesis by (simp add: xor.assoc)
    qed
    moreover have "(lfsr ^^ 8) 0x8900 = 0x00A1" by (simp add: funpow_8 lfsr_def)
    ultimately show ?thesis by (simp add: table_step_lfsr lfsr_pow_xor)
  qed
  then show ?thesis by (simp add: calc_append)
qed

text \<open>On a host of the other byte order the marker goes out reversed and nothing is ever received.\<close>

lemma big_endian_marker: "m_marker header = MARKER \<Longrightarrow> take 2 (frame False header body) = [0x55, 0xAA]"
  by (simp add: frame_def header_bytes_def memory_of_def image_def u16_bytes_def swap16_def MARKER_def Let_def)

lemma big_endian_receives_nothing:
  assumes "Receive sp False is header tr = Some (r, out)"
  shows "r = -1"
proof -
  have "m_marker (read_header False ([0xAA, 0x55] @ hdr)) \<noteq> MARKER" for hdr
    by (simp add: read_header_def value_of_def image_def swap16_def MARKER_def)
  with assms show ?thesis
    by (auto simp: Receive_def Let_def split: option.splits if_splits prod.splits bool.splits)
qed

text \<open>\<^verbatim>\<open>Send\<close> accepts packets that \<^verbatim>\<open>Receive\<close> refuses for their size, leaving the payload on the line.\<close>

lemma long_packet_refused:
  assumes "BUFFER_SIZE < unat (m_length header)"
  shows "receive_body sp le headerBuf header is p tr = (-1, is, tr\<lparr>m_port := Some p\<rparr>)"
  using assms by (simp add: receive_body_def Let_def)

end
