(* ===== verification/Participants.thy ===== *)
theory Participants
  imports Remote StdMap "HOL-Library.List_Lexorder" "HOL-Library.Char_ord"
begin

text \<open>
  \<^verbatim>\<open>extras/databus/Participant.h\<close>: a remote node of the data bus. A participant has one channel per
  remote id, for sending topics mapped to the id and for the handler of what arrives under it, drops
  duplicates of retransmitted messages, and reports each kind of error of a topic once. The
  channels are those of \<open>Remote\<close>; \<open>p_self\<close> is the participant's identity as their error handler, and a new channel is numbered by the
  address \<open>new\<close> it gets. A message type is a number (\<^verbatim>\<open>std::type_index\<close>).
\<close>

unbundle bit_operations_syntax

section \<open>Duplicate filtering\<close>

definition SEQ_HISTORY_SIZE :: nat where "SEQ_HISTORY_SIZE = 8"

record SeqHistory =
  buffer :: "u16 list"
  valid :: "bool list"
  head :: nat

definition SeqHistory :: SeqHistory where
  "SeqHistory = \<lparr>buffer = replicate SEQ_HISTORY_SIZE 0, valid = replicate SEQ_HISTORY_SIZE False, head = 0\<rparr>"

definition is_duplicate :: "u16 \<Rightarrow> SeqHistory \<Rightarrow> bool \<times> SeqHistory" where
  "is_duplicate s h =
     (if list_ex (\<lambda>i. valid h ! i \<and> buffer h ! i = s) [0..<SEQ_HISTORY_SIZE] then (True, h)
      else (False, \<lparr>buffer = (buffer h)[head h := s], valid = (valid h)[head h := True],
                    head = (head h + 1) mod SEQ_HISTORY_SIZE\<rparr>))"

section \<open>Participants\<close>

record 'a Participant =
  p_self :: nat
  p_transport :: nat
  m_sendThread :: "nat option"
  m_continuousErrors :: bool
  m_topicToRemoteId :: "(string \<times> u16) list"
  m_channels :: "u16 \<Rightarrow> ('a, nat) RemoteChannel option"
  m_channelTypes :: "u16 \<Rightarrow> nat option"
  m_reportedErrors :: "string \<Rightarrow> u16 option"
  m_history :: "u16 \<Rightarrow> SeqHistory option"
  error_signal :: "(string \<times> DelegateError) list"

definition Participant :: "nat \<Rightarrow> nat \<Rightarrow> 'a Participant" where
  "Participant self transport = \<lparr>p_self = self, p_transport = transport, m_sendThread = None,
     m_continuousErrors = False, m_topicToRemoteId = [], m_channels = (\<lambda>_. None), m_channelTypes = (\<lambda>_. None),
     m_reportedErrors = (\<lambda>_. None), m_history = (\<lambda>_. None), error_signal = []\<rparr>"

definition SetSendThread :: "nat option \<Rightarrow> 'a Participant \<Rightarrow> 'a Participant" where
  "SetSendThread t p = p\<lparr>m_sendThread := t\<rparr>"

definition AddRemoteTopic :: "string \<Rightarrow> u16 \<Rightarrow> 'a Participant \<Rightarrow> 'a Participant" where
  "AddRemoteTopic topic i p = p\<lparr>m_topicToRemoteId := StdMap.put topic i (m_topicToRemoteId p)\<rparr>"

definition EnableContinuousErrors :: "bool \<Rightarrow> 'a Participant \<Rightarrow> 'a Participant" where
  "EnableContinuousErrors enable p = p\<lparr>m_continuousErrors := enable\<rparr>"

definition ResetErrors :: "'a Participant \<Rightarrow> 'a Participant" where
  "ResetErrors p = p\<lparr>m_reportedErrors := (\<lambda>_. None)\<rparr>"

text \<open>The name of a topic in reports: the first topic mapped to the id, or a text with the number.\<close>

fun error_code :: "DelegateError \<Rightarrow> nat" where
  "error_code SUCCESS = 0"
| "error_code ERR_STREAM_NOT_GOOD = 1"
| "error_code ERR_NO_SERIALIZER = 2"
| "error_code ERR_SERIALIZE = 3"
| "error_code ERR_DESERIALIZE = 4"
| "error_code ERR_DESERIALIZE_EXCEPTION = 5"
| "error_code ERR_NO_DISPATCHER = 6"
| "error_code ERR_DISPATCH = 7"
| "error_code ERR_TYPE_MISMATCH = 8"
| "error_code ERR_TRANSPORT_RECEIVE = 9"
| "error_code ERR_CAPACITY_EXCEEDED = 10"

fun decimal :: "nat \<Rightarrow> string" where
  "decimal n = (if n < 10 then [char_of (48 + n)] else decimal (n div 10) @ [char_of (48 + n mod 10)])"

declare decimal.simps [simp del]

definition GetTopicName :: "u16 \<Rightarrow> (string \<times> u16) list \<Rightarrow> string" where
  "GetTopicName i topics = (case filter (\<lambda>(t, r). r = i) topics of [] \<Rightarrow> [] | (t, r) # _ \<Rightarrow> t)"

definition topic_name :: "u16 \<Rightarrow> 'a Participant \<Rightarrow> string" where
  "topic_name i p =
     (let t = GetTopicName i (m_topicToRemoteId p) in
      if t = [] then ''UnknownRemoteId:'' @ decimal (unat i) else t)"

text \<open>The latch of reported errors: one bit per error.\<close>

definition error_bit :: "DelegateError \<Rightarrow> u16" where
  "error_bit e = ucast (push_bit (error_code e) 1 :: u32)"

definition latch_error :: "bool \<Rightarrow> DelegateError \<Rightarrow> u16 \<Rightarrow> bool \<times> u16" where
  "latch_error continuous e bits =
     (if bits AND error_bit e = 0 then (True, bits OR error_bit e) else (continuous, bits))"

definition OnChannelError :: "u16 \<Rightarrow> DelegateError \<Rightarrow> 'a Participant \<Rightarrow> 'a Participant" where
  "OnChannelError i e p =
     (if e = SUCCESS then p
      else let topic = topic_name i p;
               bits = (case m_reportedErrors p topic of None \<Rightarrow> 0 | Some b \<Rightarrow> b);
               (shouldFire, bits1) = latch_error (m_continuousErrors p) e bits;
               p1 = p\<lparr>m_reportedErrors := (m_reportedErrors p)(topic \<mapsto> bits1)\<rparr>
           in if shouldFire then p1\<lparr>error_signal := error_signal p1 @ [(topic, e)]\<rparr> else p1)"

text \<open>\<^verbatim>\<open>GetOrCreateChannelLocked\<close>: whether the channel is there, and whether the types differ.\<close>

definition GetOrCreateChannelLocked ::
  "nat \<Rightarrow> nat \<Rightarrow> u16 \<Rightarrow> 'a ISerializer \<Rightarrow> 'a Participant \<Rightarrow> nat link
   \<Rightarrow> bool \<times> bool \<times> 'a Participant \<times> nat link" where
  "GetOrCreateChannelLocked new ty i ser p w =
     (case m_channels p i of
        Some c \<Rightarrow>
          (case m_channelTypes p i of
             Some ty' \<Rightarrow> if ty' \<noteq> ty then (False, True, p, w) else (True, False, p, w)
           | None \<Rightarrow> (True, False, p, w))
      | None \<Rightarrow>
          (let (c, w1) = RemoteChannel new new (p_transport p) ser INVALID_REMOTE_ID w;
               c1 = c\<lparr>ch_delegate := Remote_SetRemoteId i (ch_delegate c)\<rparr>;
               c2 = RemoteChannel_SetErrorHandler (Some (p_self p)) c1
           in (True, False,
               p\<lparr>m_channels := (m_channels p)(i \<mapsto> c2),
                 m_channelTypes := (case m_channelTypes p i of None \<Rightarrow> (m_channelTypes p)(i \<mapsto> ty) | Some _ \<Rightarrow> m_channelTypes p)\<rparr>,
               w1)))"

text \<open>What the handler does with the reports of a call.\<close>

definition handle_reports :: "(nat \<times> u16 \<times> DelegateError \<times> int) list \<Rightarrow> 'a Participant \<Rightarrow> 'a Participant" where
  "handle_reports rs p = fold (\<lambda>(h, i, e, aux). OnChannelError i e) rs p"

text \<open>A call of the channel of an id.\<close>

definition channel_send ::
  "nat environment \<Rightarrow> u16 \<Rightarrow> 'a \<Rightarrow> 'a Participant \<Rightarrow> nat link \<Rightarrow> exc option \<times> 'a Participant \<times> nat link" where
  "channel_send env i data p w =
     (case m_channels p i of
        None \<Rightarrow> (None, p, w)
      | Some c \<Rightarrow>
          (let (x, c1, w1) = RemoteChannel_call env data (c, w)
           in (x, handle_reports (drop (length (reports w)) (reports w1)) (p\<lparr>m_channels := (m_channels p)(i \<mapsto> c1)\<rparr>), w1)))"

definition AsyncSend ::
  "nat environment \<Rightarrow> u16 \<Rightarrow> 'a \<Rightarrow> 'a Participant \<Rightarrow> nat link \<Rightarrow> exc option \<times> 'a Participant \<times> nat link" where
  "AsyncSend env i data p w = channel_send env i data p w"

text \<open>\<^verbatim>\<open>DispatchIfInterested\<close>: whether the participant has the topic, the message posted to the send
  thread, if one is set, and the effects of sending at once otherwise.\<close>

definition DispatchIfInterested ::
  "nat environment \<Rightarrow> nat \<Rightarrow> nat \<Rightarrow> string \<Rightarrow> 'a \<Rightarrow> 'a ISerializer option \<Rightarrow> 'a Participant \<Rightarrow> nat link
   \<Rightarrow> (exc + bool) \<times> (nat \<times> u16 \<times> 'a) option \<times> 'a Participant \<times> nat link" where
  "DispatchIfInterested env new ty topic data serializer p w =
     (case map_of (m_topicToRemoteId p) topic of
        None \<Rightarrow> (Inr False, None, p, w)
      | Some i \<Rightarrow>
          (case serializer of
             None \<Rightarrow> (Inr True, None, p, w)
           | Some ser \<Rightarrow>
               (let (found, typeMismatch, p1, w1) = GetOrCreateChannelLocked new ty i ser p w in
                if typeMismatch then (Inr True, None, OnChannelError i ERR_TYPE_MISMATCH p1, w1)
                else if \<not> found then (Inr True, None, p1, w1)
                else case m_sendThread p1 of
                       Some t \<Rightarrow> (Inr True, Some (t, i, data), p1, w1)
                     | None \<Rightarrow>
                         (case channel_send env i data p1 w1 of
                            (None, p2, w2) \<Rightarrow> (Inr True, None, p2, w2)
                          | (Some x, p2, w2) \<Rightarrow> (Inl x, None, p2, w2)))))"

definition RegisterHandler ::
  "nat \<Rightarrow> nat \<Rightarrow> u16 \<Rightarrow> 'a ISerializer \<Rightarrow> fun_object \<Rightarrow> 'a Participant \<Rightarrow> nat link \<Rightarrow> 'a Participant \<times> nat link" where
  "RegisterHandler new ty i ser f p w =
     (let (found, typeMismatch, p1, w1) = GetOrCreateChannelLocked new ty i ser p w;
          p2 = (if found then p1\<lparr>m_channels := (m_channels p1)(i := map_option (RemoteChannel_Bind (Some f) i) (m_channels p1 i))\<rparr>
                else p1)
      in (if typeMismatch then OnChannelError i ERR_TYPE_MISMATCH p2 else p2, w1))"

text \<open>\<^verbatim>\<open>ProcessIncoming\<close>: \<open>received\<close> is what the transport's \<^verbatim>\<open>Receive\<close> gave, \<open>fresh\<close> the variable the
  argument of a type is read into.\<close>

definition seen_before :: "u16 \<Rightarrow> u16 \<Rightarrow> 'a Participant \<Rightarrow> bool \<times> 'a Participant" where
  "seen_before i s p =
     (if i = 0 then (False, p)
      else let (dup, h) = is_duplicate s (case m_history p i of None \<Rightarrow> SeqHistory | Some h \<Rightarrow> h)
           in (dup, p\<lparr>m_history := (m_history p)(i \<mapsto> h)\<rparr>))"

definition ProcessIncoming ::
  "nat environment \<Rightarrow> (nat option \<Rightarrow> 'a) \<Rightarrow> int \<times> DmqHeader \<times> reader \<Rightarrow> 'a Participant \<Rightarrow> nat link
   \<Rightarrow> (exc + int) \<times> 'a outcome option \<times> 'a Participant \<times> nat link" where
  "ProcessIncoming env fresh received p w =
     (case received of (result, header, is) \<Rightarrow>
        if result \<noteq> 0 then (Inr result, None, p, w)
        else if m_marker header \<noteq> MARKER
        then (Inr (-1), None, OnChannelError INVALID_REMOTE_ID ERR_TRANSPORT_RECEIVE p, w)
        else let i = m_id header in
             case m_channels p i of
               None \<Rightarrow> (Inr result, None, OnChannelError i ERR_NO_DISPATCHER p, w)
             | Some c \<Rightarrow>
                 (let (dup, p1) = seen_before i (m_seqNum header) p in
                  if dup then (Inr 0, None, p1, w)
                  else let (r, called, is1, d1, w1) =
                             DelegateFunctionRemote_Invoke env 1 (fresh (m_channelTypes p i)) is (ch_delegate c, w);
                           p2 = handle_reports (drop (length (reports w)) (reports w1))
                                  (p1\<lparr>m_channels := (m_channels p1)(i \<mapsto> c\<lparr>ch_delegate := d1\<rparr>)\<rparr>)
                       in (case r of Inl x \<Rightarrow> Inl x | Inr _ \<Rightarrow> Inr result, called, p2, w1)))"

section \<open>The history is the window of the last numbers\<close>

text \<open>Where the \<open>k\<close>-th newest number is.\<close>

definition slot :: "nat \<Rightarrow> nat \<Rightarrow> nat" where
  "slot pos k = (pos + 7 - k) mod 8"

definition hist_inv :: "SeqHistory \<Rightarrow> u16 list \<Rightarrow> bool" where
  "hist_inv h ws \<longleftrightarrow> length (buffer h) = 8 \<and> length (valid h) = 8 \<and> head h < 8 \<and> length ws \<le> 8
     \<and> (\<forall>k < 8. valid h ! slot (head h) k = (k < length ws))
     \<and> (\<forall>k < length ws. buffer h ! slot (head h) k = ws ! k)"

lemma slot_if: "pos < 8 \<Longrightarrow> k < 8 \<Longrightarrow> slot pos k = (if pos \<le> k then pos + 7 - k else pos - 1 - k)"
proof -
  assume "pos < 8" "k < 8"
  then have "(pos + 7 - k) mod 8 = pos + 7 - k" if "pos \<le> k" using that by simp
  moreover have "(pos + 7 - k) mod 8 = pos - 1 - k" if "\<not> pos \<le> k"
  proof -
    have "pos + 7 - k = 8 + (pos - 1 - k)" using that by simp
    then have "(pos + 7 - k) mod 8 = (8 + (pos - 1 - k)) mod 8" by (simp only:)
    also have "\<dots> = (pos - 1 - k) mod 8" by (rule mod_add_self1)
    finally show ?thesis using \<open>pos < 8\<close> by simp
  qed
  ultimately show ?thesis by (simp add: slot_def)
qed

lemma slot_facts:
  "slot pos k < 8"
  "pos < 8 \<Longrightarrow> slot ((pos + 1) mod 8) 0 = pos"
  "pos < 8 \<Longrightarrow> k < 7 \<Longrightarrow> slot ((pos + 1) mod 8) (Suc k) = slot pos k"
  "pos < 8 \<Longrightarrow> k < 7 \<Longrightarrow> slot pos k \<noteq> pos"
  "pos < 8 \<Longrightarrow> i < 8 \<Longrightarrow> \<exists>k < 8. slot pos k = i"
proof -
  show "slot pos k < 8" by (simp add: slot_def)
  have next_pos: "(pos + 1) mod 8 = (if pos = 7 then 0 else pos + 1)" if "pos < 8" using that by (cases "pos = 7") auto
  show "pos < 8 \<Longrightarrow> slot ((pos + 1) mod 8) 0 = pos" by (simp only: next_pos) (auto simp: slot_if)
  show "pos < 8 \<Longrightarrow> k < 7 \<Longrightarrow> slot ((pos + 1) mod 8) (Suc k) = slot pos k" by (simp only: next_pos) (auto simp: slot_if)
  show "pos < 8 \<Longrightarrow> k < 7 \<Longrightarrow> slot pos k \<noteq> pos" by (auto simp: slot_if)
  show "\<exists>k < 8. slot pos k = i" if "pos < 8" "i < 8"
    by (rule exI [of _ "if i < pos then pos - 1 - i else pos + 7 - i"]) (use that in \<open>auto simp: slot_if\<close>)
qed

lemma SeqHistory_inv: "hist_inv SeqHistory []"
  by (simp add: hist_inv_def SeqHistory_def SEQ_HISTORY_SIZE_def slot_facts)

lemma hist_member:
  assumes "hist_inv h ws"
  shows "list_ex (\<lambda>i. valid h ! i \<and> buffer h ! i = s) [0..<SEQ_HISTORY_SIZE] \<longleftrightarrow> s \<in> set ws"
proof
  assume "list_ex (\<lambda>i. valid h ! i \<and> buffer h ! i = s) [0..<SEQ_HISTORY_SIZE]"
  then obtain i where i: "i < 8" "valid h ! i" "buffer h ! i = s"
    by (auto simp: list_ex_iff SEQ_HISTORY_SIZE_def)
  obtain k where "k < 8" "slot (head h) k = i"
    using slot_facts(5) [OF _ i(1), of "head h"] assms by (auto simp: hist_inv_def)
  with i assms show "s \<in> set ws" by (auto simp: hist_inv_def)
next
  assume "s \<in> set ws"
  then obtain k where k: "k < length ws" "ws ! k = s" by (auto simp: in_set_conv_nth)
  with assms have "slot (head h) k \<in> set [0..<SEQ_HISTORY_SIZE]" "valid h ! slot (head h) k" "buffer h ! slot (head h) k = s"
    by (auto simp: hist_inv_def SEQ_HISTORY_SIZE_def slot_facts(1))
  then show "list_ex (\<lambda>i. valid h ! i \<and> buffer h ! i = s) [0..<SEQ_HISTORY_SIZE]"
    by (auto simp: list_ex_iff)
qed

lemma hist_add:
  assumes inv: "hist_inv h ws"
  shows "hist_inv \<lparr>buffer = (buffer h)[head h := s], valid = (valid h)[head h := True],
                    head = (head h + 1) mod 8\<rparr> (take 8 (s # ws))"
proof -
  let ?pos = "(head h + 1) mod 8"
  have h: "head h < 8" "length (buffer h) = 8" "length (valid h) = 8" "length ws \<le> 8" using inv by (simp_all add: hist_inv_def)
  have new: "(buffer h)[head h := s] ! slot ?pos 0 = s" "(valid h)[head h := True] ! slot ?pos 0"
    using h slot_facts(2) [OF h(1)] by simp_all
  have old: "(buffer h)[head h := s] ! slot ?pos (Suc k) = buffer h ! slot (head h) k"
    "(valid h)[head h := True] ! slot ?pos (Suc k) = valid h ! slot (head h) k" if "k < 7" for k
    using slot_facts(3,4) [OF h(1) that] by simp_all
  have v: "(valid h)[head h := True] ! slot ?pos k = (k < length (take 8 (s # ws)))" if "k < 8" for k
  proof (cases k)
    case (Suc j)
    with that inv old(2) [of j] show ?thesis by (auto simp: hist_inv_def)
  qed (use new in simp)
  have b: "(buffer h)[head h := s] ! slot ?pos k = take 8 (s # ws) ! k" if "k < length (take 8 (s # ws))" for k
  proof (cases k)
    case (Suc j)
    with that inv old(1) [of j] show ?thesis by (auto simp: hist_inv_def)
  qed (use new in simp)
  show ?thesis using h v b by (simp add: hist_inv_def)
qed

lemma is_duplicate_window:
  assumes "hist_inv h ws" and "is_duplicate s h = (dup, h1)"
  shows "dup \<longleftrightarrow> s \<in> set ws" "hist_inv h1 (if s \<in> set ws then ws else take 8 (s # ws))"
  using assms hist_member [OF assms(1), of s] hist_add [OF assms(1), of s]
  by (auto simp: is_duplicate_def SEQ_HISTORY_SIZE_def split: if_splits)

text \<open>Which of a sequence of messages are new: those whose number is not among the last eight new ones.\<close>

fun window_accepts :: "u16 list \<Rightarrow> u16 list \<Rightarrow> bool list" where
  "window_accepts ws [] = []"
| "window_accepts ws (s # ss) =
     (s \<notin> set ws) # window_accepts (if s \<in> set ws then ws else take 8 (s # ws)) ss"

section \<open>Error latching\<close>

fun firsts :: "'x list \<Rightarrow> 'x list \<Rightarrow> 'x list" where
  "firsts seen [] = []"
| "firsts seen (x # xs) = (if x \<in> set seen then firsts seen xs else x # firsts (x # seen) xs)"

lemma error_code_eq: "error_code e = error_code e' \<longleftrightarrow> e = e'"
  by (cases e; cases e'; simp)

lemma error_code_small: "error_code e < 16"
  by (cases e) simp_all

lemma bit_error_bit: "bit (error_bit e) n \<longleftrightarrow> n = error_code e"
proof -
  have "bit (error_bit e) n \<longleftrightarrow> n < 16 \<and> n = error_code e"
    using error_code_small [of e] unfolding error_bit_def
    by (auto simp: bit_simps)
  then show ?thesis using error_code_small [of e] by auto
qed

lemma error_bit_free: "bits AND error_bit e = 0 \<longleftrightarrow> \<not> bit bits (error_code e)"
proof -
  have "bits AND error_bit e = 0 \<longleftrightarrow> (\<forall>n. \<not> (bit bits n \<and> bit (error_bit e) n))"
  proof
    assume none: "bits AND error_bit e = 0"
    show "\<forall>n. \<not> (bit bits n \<and> bit (error_bit e) n)"
    proof (intro allI notI)
      fix n
      assume "bit bits n \<and> bit (error_bit e) n"
      then have "bit (bits AND error_bit e) n" by (simp add: bit_and_iff)
      then show False by (simp add: none)
    qed
  next
    assume "\<forall>n. \<not> (bit bits n \<and> bit (error_bit e) n)"
    then show "bits AND error_bit e = 0" by (intro bit_eqI) (simp add: bit_and_iff)
  qed
  then show ?thesis unfolding bit_error_bit by blast
qed

text \<open>The bits of a topic are the errors reported of it.\<close>

definition latched :: "'a Participant \<Rightarrow> (string \<times> DelegateError) list \<Rightarrow> bool" where
  "latched p seen \<longleftrightarrow> (\<forall>t e. e \<noteq> SUCCESS \<longrightarrow>
     ((t, e) \<in> set seen) = bit (case m_reportedErrors p t of None \<Rightarrow> 0 | Some b \<Rightarrow> b) (error_code e))"

lemma OnChannelError_frame [simp]:
  "m_topicToRemoteId (OnChannelError i e p) = m_topicToRemoteId p"
  "m_channels (OnChannelError i e p) = m_channels p" "m_channelTypes (OnChannelError i e p) = m_channelTypes p"
  "m_history (OnChannelError i e p) = m_history p" "m_sendThread (OnChannelError i e p) = m_sendThread p"
  "m_continuousErrors (OnChannelError i e p) = m_continuousErrors p" "p_self (OnChannelError i e p) = p_self p"
  "p_transport (OnChannelError i e p) = p_transport p"
  by (auto simp: OnChannelError_def Let_def split: prod.split)

lemma topic_name_cong: "m_topicToRemoteId p = m_topicToRemoteId q \<Longrightarrow> topic_name i p = topic_name i q"
  by (simp add: topic_name_def)

lemma OnChannelError_latched:
  fixes i :: u16
  assumes "latched p seen" and "e \<noteq> SUCCESS"
  defines "x \<equiv> (topic_name i p, e)"
  shows "latched (OnChannelError i e p) (x # seen)
    \<and> error_signal (OnChannelError i e p)
      = error_signal p @ (if x \<notin> set seen \<or> m_continuousErrors p then [x] else [])"
proof -
  let ?bits = "case m_reportedErrors p (topic_name i p) of None \<Rightarrow> 0 | Some b \<Rightarrow> b"
  have seen: "x \<in> set seen \<longleftrightarrow> bit ?bits (error_code e)"
    using assms(1,2) by (simp add: latched_def x_def)
  have "error_signal (OnChannelError i e p)
      = error_signal p @ (if x \<notin> set seen \<or> m_continuousErrors p then [x] else [])"
    using assms(2) seen by (auto simp: OnChannelError_def latch_error_def error_bit_free x_def Let_def)
  moreover have "m_reportedErrors (OnChannelError i e p) = (m_reportedErrors p)(topic_name i p \<mapsto> ?bits OR error_bit e)"
  proof -
    have "?bits OR error_bit e = ?bits" if "bit ?bits (error_code e)"
      by (rule bit_eqI) (use that in \<open>auto simp: bit_simps bit_error_bit\<close>)
    then show ?thesis
      using assms(2) by (auto simp: OnChannelError_def latch_error_def error_bit_free Let_def fun_eq_iff)
  qed
  ultimately show ?thesis
    using assms(1) by (auto simp: latched_def x_def bit_simps bit_error_bit error_code_eq split: option.split)
qed

lemma firsts_cong: "set seen = set seen' \<Longrightarrow> firsts seen xs = firsts seen' xs"
proof (induction xs arbitrary: seen seen')
  case (Cons x xs)
  have more: "set (x # seen) = set (x # seen')" using Cons.prems by simp
  show ?case by (simp add: Cons.IH [OF Cons.prems] Cons.IH [OF more] Cons.prems)
qed simp

lemma latched_cong: "set seen = set seen' \<Longrightarrow> latched p seen \<longleftrightarrow> latched p seen'"
  by (simp add: latched_def)

lemma errors_latched:
  assumes "latched p seen"
  shows "error_signal (fold (\<lambda>(i, e). OnChannelError i e) es p) = error_signal p @
    (let xs = map (\<lambda>(i, e). (topic_name i p, e)) (filter (\<lambda>(i, e). e \<noteq> SUCCESS) es)
     in if m_continuousErrors p then xs else firsts seen xs)"
  using assms
proof (induction es arbitrary: p seen)
  case (Cons x es)
  obtain i e where x: "x = (i, e)" by (cases x)
  show ?case
  proof (cases "e = SUCCESS")
    case True
    with Cons x show ?thesis by (simp add: OnChannelError_def)
  next
    case False
    let ?p = "OnChannelError i e p"
    have same: "topic_name j ?p = topic_name j p" for j by (rule topic_name_cong) simp
    have one: "latched ?p ((topic_name i p, e) # seen)"
      "error_signal ?p = error_signal p @ (if (topic_name i p, e) \<notin> set seen \<or> m_continuousErrors p then [(topic_name i p, e)] else [])"
      using OnChannelError_latched [OF Cons.prems False, of i] by simp_all
    have "firsts ((topic_name i p, e) # seen) ys = firsts seen ys" if "(topic_name i p, e) \<in> set seen" for ys
      by (rule firsts_cong) (use that in auto)
    with Cons.IH [OF one(1)] one(2) False show ?thesis
      by (auto simp: x same Let_def)
  qed
qed simp

section \<open>Receiving\<close>

text \<open>A run of packets: what each one called.\<close>

fun receive_all ::
  "nat environment \<Rightarrow> (nat option \<Rightarrow> 'a) \<Rightarrow> (int \<times> DmqHeader \<times> reader) list \<Rightarrow> 'a Participant \<Rightarrow> nat link
   \<Rightarrow> 'a outcome option list" where
  "receive_all env fresh [] p w = []"
| "receive_all env fresh (x # xs) p w =
     (case ProcessIncoming env fresh x p w of
        (r, called, p1, w1) \<Rightarrow> called # receive_all env fresh xs p1 w1)"

definition packet_for :: "u16 \<Rightarrow> int \<times> DmqHeader \<times> reader \<Rightarrow> bool" where
  "packet_for i x = (case x of (r, h, is) \<Rightarrow> r = 0 \<and> m_marker h = MARKER \<and> m_id h = i)"

definition packet_seq :: "int \<times> DmqHeader \<times> reader \<Rightarrow> u16" where
  "packet_seq x = m_seqNum (fst (snd x))"

definition decodes :: "'a ISerializer \<Rightarrow> 'a \<Rightarrow> reader \<Rightarrow> bool" where
  "decodes z v is \<longleftrightarrow> good is \<and> (case Read z v is of (x, args, is1) \<Rightarrow> x = None \<and> \<not> failbit is1)"

definition decoded :: "'a ISerializer \<Rightarrow> 'a \<Rightarrow> reader \<Rightarrow> 'a" where
  "decoded z v is = fst (snd (Read z v is))"

definition served :: "u16 \<Rightarrow> ('a, nat) RemoteChannel \<Rightarrow> nat option \<Rightarrow> u16 list \<Rightarrow> 'a Participant \<Rightarrow> bool" where
  "served i c ty ws p \<longleftrightarrow> m_channels p i = Some c \<and> m_channelTypes p i = ty
     \<and> hist_inv (case m_history p i of None \<Rightarrow> SeqHistory | Some h \<Rightarrow> h) ws"

lemma handle_reports_frame [simp]:
  "m_topicToRemoteId (handle_reports rs p) = m_topicToRemoteId p"
  "m_channels (handle_reports rs p) = m_channels p" "m_channelTypes (handle_reports rs p) = m_channelTypes p"
  "m_history (handle_reports rs p) = m_history p" "m_sendThread (handle_reports rs p) = m_sendThread p"
  "m_continuousErrors (handle_reports rs p) = m_continuousErrors p" "p_self (handle_reports rs p) = p_self p"
  "p_transport (handle_reports rs p) = p_transport p"
  unfolding handle_reports_def by (induction rs arbitrary: p) auto

lemma ProcessIncoming_other:
  assumes "\<not> packet_for i x" and "served i c ty ws p"
  shows "served i c ty ws (fst (snd (snd (ProcessIncoming env fresh x p w))))"
  using assms
  by (auto simp: packet_for_def served_def ProcessIncoming_def seen_before_def Let_def
      split: prod.split option.split sum.split)

lemma ProcessIncoming_served:
  assumes "packet_for i x" and "served i c ty ws p" and "i \<noteq> 0"
    and "remote_serializer (ch_delegate c) = Some z" and "decodes z (fresh ty) (snd (snd x))"
  shows "fst (snd (ProcessIncoming env fresh x p w))
      = (if packet_seq x \<notin> set ws
         then Some (DelegateFunction_call (decoded z (fresh ty) (snd (snd x))) (remote_base (ch_delegate c))) else None)
    \<and> served i c ty (if packet_seq x \<in> set ws then ws else take 8 (packet_seq x # ws))
        (fst (snd (snd (ProcessIncoming env fresh x p w))))"
proof -
  obtain r h rd where x: "x = (r, h, rd)" by (cases x)
  obtain dup h1 where d: "is_duplicate (m_seqNum h) (case m_history p i of None \<Rightarrow> SeqHistory | Some h \<Rightarrow> h) = (dup, h1)"
    by fastforce
  note inv = is_duplicate_window [OF _ d, of ws]
  show ?thesis
    using assms inv
    by (auto simp: x packet_for_def packet_seq_def served_def ProcessIncoming_def seen_before_def d decodes_def decoded_def
        DelegateFunctionRemote_Invoke_def Remote_Invoke_def Let_def handle_reports_def split: prod.splits option.splits)
qed

lemma receive_all_window:
  assumes "i \<noteq> 0" and "remote_serializer (ch_delegate c) = Some z"
    and "\<forall>x \<in> set (filter (packet_for i) xs). decodes z (fresh ty) (snd (snd x))"
    and "served i c ty ws p"
  shows "map snd (filter (packet_for i \<circ> fst) (zip xs (receive_all env fresh xs p w)))
    = map2 (\<lambda>new x. if new then Some (DelegateFunction_call (decoded z (fresh ty) (snd (snd x))) (remote_base (ch_delegate c)))
                     else None)
        (window_accepts ws (map packet_seq (filter (packet_for i) xs))) (filter (packet_for i) xs)"
  using assms(3,4)
proof (induction xs arbitrary: p w ws)
  case (Cons x xs)
  obtain r called p1 w1 where step: "ProcessIncoming env fresh x p w = (r, called, p1, w1)" by (metis prod_cases4)
  show ?case
  proof (cases "packet_for i x")
    case True
    have "decodes z (fresh ty) (snd (snd x))" using Cons.prems(1) True by simp
    from ProcessIncoming_served [where fresh = fresh and env = env and w = w, OF True Cons.prems(2) assms(1,2) this]
    have one: "called = (if packet_seq x \<notin> set ws
         then Some (DelegateFunction_call (decoded z (fresh ty) (snd (snd x))) (remote_base (ch_delegate c))) else None)"
      "served i c ty (if packet_seq x \<in> set ws then ws else take 8 (packet_seq x # ws)) p1"
      by (simp_all add: step)
    show ?thesis using Cons.IH [OF _ one(2)] Cons.prems(1) True one(1) by (simp add: step)
  next
    case False
    from ProcessIncoming_other [OF this Cons.prems(2), of env fresh w]
    have "served i c ty ws p1" by (simp add: step)
    with Cons.IH [OF _ this] Cons.prems(1) False show ?thesis by (simp add: step)
  qed
qed simp

section \<open>Channels stay wired\<close>

text \<open>What using a channel leaves of its delegate and of the dispatchers.\<close>

definition same_wiring :: "nat RemoteDispatchState \<times> nat link \<Rightarrow> nat RemoteDispatchState \<times> nat link \<Rightarrow> bool" where
  "same_wiring sw sw' \<longleftrightarrow> rd_id (fst sw') = rd_id (fst sw) \<and> rd_stream (fst sw') = rd_stream (fst sw)
     \<and> rd_dispatcher (fst sw') = rd_dispatcher (fst sw) \<and> rd_errorHandler (fst sw') = rd_errorHandler (fst sw)
     \<and> m_transport (snd sw') = m_transport (snd sw)"

lemma same_wiring_trans: "same_wiring a b \<Longrightarrow> same_wiring b c \<Longrightarrow> same_wiring a c"
  by (simp add: same_wiring_def)

lemma RaiseError_wiring: "same_wiring sw (snd (RaiseError env e aux sw))"
  by (auto simp: same_wiring_def RaiseError_def call_handler_def Let_def split: prod.split option.split)

lemma dispatch_stream_wiring: "same_wiring sw (snd (dispatch_stream env d os sw))"
proof -
  obtain s w where sw: "sw = (s, w)" by (cases sw)
  obtain result seq w1 where dsp: "Dispatch env d os (rd_id s) (rd_lastSeqNum s) w = (result, seq, w1)" by (metis prod_cases3)
  then have "m_transport w1 = m_transport w"
    by (auto simp: Dispatch_def fetch_seq_def send_packet_def Let_def split: if_splits option.splits sum.splits)
  then have s1: "same_wiring sw (s\<lparr>rd_lastSeqNum := seq\<rparr>, w1)" by (simp add: same_wiring_def sw)
  have r: "same_wiring (s\<lparr>rd_lastSeqNum := seq\<rparr>, w1) (snd (RaiseSuccess env (s\<lparr>rd_lastSeqNum := seq\<rparr>, w1)))"
    by (auto simp: same_wiring_def RaiseSuccess_def call_handler_def split: option.split)
  show ?thesis
    using same_wiring_trans [OF s1 r] same_wiring_trans [OF s1 RaiseError_wiring [of _ env ERR_DISPATCH "projr result"]] s1
    by (cases result) (auto simp: sw dispatch_stream_def dsp Let_def)
qed

lemma SendSerialized_wiring: "same_wiring sw (snd (SendSerialized env failed sw))"
proof -
  obtain s w where sw: "sw = (s, w)" by (cases sw)
  have refl: "same_wiring sw sw" by (simp add: same_wiring_def)
  have late: "same_wiring sw (snd (case dispatch_stream env d os sw of (x, sw1) \<Rightarrow>
      if catching env \<and> x = Some Std_exception then RaiseError env ERR_DISPATCH 0 sw1 else (x, sw1)))" for d os
  proof -
    obtain x sw1 where out: "dispatch_stream env d os sw = (x, sw1)" by (metis surj_pair)
    with dispatch_stream_wiring [of sw env d os] have s1: "same_wiring sw sw1" by simp
    then show ?thesis
      by (simp add: out same_wiring_trans [OF s1 RaiseError_wiring])
  qed
  show ?thesis
    using refl late RaiseError_wiring [of sw env] by (auto simp: SendSerialized_def sw split: option.split)
qed

lemma state_call_wiring: "same_wiring sw (snd (state_call env ser args sw))"
proof (cases "(ser, rd_stream (fst sw))")
  case (Pair z os)
  show ?thesis
  proof (cases "ser = None \<or> os = None")
    case True
    with Pair RaiseError_wiring [of sw env ERR_NO_SERIALIZER 0] show ?thesis
      by (auto simp: state_call_def split: option.split)
  next
    case False
    then obtain y o' where y: "ser = Some y" "rd_stream (fst sw) = Some o'" using Pair by auto
    obtain s w where sw: "sw = (s, w)" by (cases sw)
    obtain x stream where wr: "Write y args (streams w o') = (x, stream)" by (cases "Write y args (streams w o')")
    let ?sw1 = "(s, w\<lparr>streams := (streams w)(o' := stream)\<rparr>)"
    have s1: "same_wiring sw ?sw1" by (simp add: same_wiring_def sw)
    have s2: "same_wiring sw (snd (RaiseError env ERR_SERIALIZE 0 ?sw1))"
      by (rule same_wiring_trans [OF s1 RaiseError_wiring])
    have s3: "same_wiring sw (snd (SendSerialized env f q))" if "same_wiring sw q" for f q
      by (rule same_wiring_trans [OF that SendSerialized_wiring])
    show ?thesis
    proof (cases x)
      case None
      with y wr s3 [OF s1] show ?thesis by (simp add: state_call_def sw)
    next
      case (Some a)
      with y wr s1 s2 s3 show ?thesis
        by (cases a) (auto simp: state_call_def sw split: prod.split option.split)
    qed
  qed
qed

lemma Remote_Invoke_wiring:
  "(case Remote_Invoke env call argc fresh rd (d, w) of (r, called, is1, d1, w1) \<Rightarrow>
      same_wiring (remote_state d, w) (remote_state d1, w1) \<and> remote_serializer d1 = remote_serializer d)"
proof -
  have refl: "same_wiring sw sw" for sw by (simp add: same_wiring_def)
  have err: "same_wiring (remote_state d, w) (s, w1)"
    if "RaiseError env e 0 (remote_state d, w) = (x, s, w1)" for e x s w1
    using RaiseError_wiring [of "(remote_state d, w)" env e 0] that by simp
  show ?thesis
    by (auto simp: Remote_Invoke_def Let_def refl split: option.split prod.split exc.split dest!: err)
qed

definition channel_wired :: "'a Participant \<Rightarrow> nat link \<Rightarrow> u16 \<Rightarrow> ('a, nat) RemoteChannel \<Rightarrow> bool" where
  "channel_wired p w i c \<longleftrightarrow> (let s = remote_state (ch_delegate c) in
     rd_id s = i \<and> rd_stream s = Some (ch_stream c) \<and> rd_dispatcher s = Some (ch_dispatcher c)
     \<and> rd_errorHandler s = Some (p_self p) \<and> remote_serializer (ch_delegate c) = Some (ch_serializer c)
     \<and> m_transport w (ch_dispatcher c) = Some (p_transport p))"

definition channel_ok :: "'a Participant \<Rightarrow> nat link \<Rightarrow> u16 \<Rightarrow> bool" where
  "channel_ok p w i \<longleftrightarrow> (case m_channels p i of
       None \<Rightarrow> m_channelTypes p i = None
     | Some c \<Rightarrow> m_channelTypes p i \<noteq> None \<and> channel_wired p w i c)"

definition channel_kept :: "'a Participant \<Rightarrow> 'a Participant \<Rightarrow> u16 \<Rightarrow> bool" where
  "channel_kept p p' i \<longleftrightarrow> (case (m_channels p i, m_channels p' i) of
       (None, _) \<Rightarrow> True
     | (Some _, None) \<Rightarrow> False
     | (Some c, Some c') \<Rightarrow> ch_stream c' = ch_stream c \<and> ch_dispatcher c' = ch_dispatcher c
         \<and> ch_serializer c' = ch_serializer c \<and> m_channelTypes p' i = m_channelTypes p i)"

text \<open>The operations of a participant.\<close>

datatype 'a participant_op =
    Thread_op "nat option" | Topic_op string u16 | Continuous_op bool | Reset_op | Error_op u16 DelegateError
  | Register_op nat nat u16 "'a ISerializer" fun_object
  | Dispatch_op nat nat string 'a "'a ISerializer option" | Send_op u16 'a
  | Incoming_op "int \<times> DmqHeader \<times> reader"

fun participant_step ::
  "nat environment \<Rightarrow> (nat option \<Rightarrow> 'a) \<Rightarrow> 'a participant_op \<Rightarrow> 'a Participant \<times> nat link \<Rightarrow> 'a Participant \<times> nat link" where
  "participant_step env fresh (Thread_op t) (p, w) = (SetSendThread t p, w)"
| "participant_step env fresh (Topic_op t i) (p, w) = (AddRemoteTopic t i p, w)"
| "participant_step env fresh (Continuous_op b) (p, w) = (EnableContinuousErrors b p, w)"
| "participant_step env fresh Reset_op (p, w) = (ResetErrors p, w)"
| "participant_step env fresh (Error_op i e) (p, w) = (OnChannelError i e p, w)"
| "participant_step env fresh (Register_op new ty i ser f) (p, w) = RegisterHandler new ty i ser f p w"
| "participant_step env fresh (Dispatch_op new ty topic data ser) (p, w)
     = snd (snd (DispatchIfInterested env new ty topic data ser p w))"
| "participant_step env fresh (Send_op i data) (p, w) = snd (AsyncSend env i data p w)"
| "participant_step env fresh (Incoming_op x) (p, w) = snd (snd (ProcessIncoming env fresh x p w))"

definition wf_participant :: "'a Participant \<times> nat link \<Rightarrow> bool" where
  "wf_participant pw \<longleftrightarrow> (\<forall>i. channel_ok (fst pw) (snd pw) i)"

definition good_step :: "'a Participant \<times> nat link \<Rightarrow> 'a Participant \<times> nat link \<Rightarrow> bool" where
  "good_step a b \<longleftrightarrow> p_self (fst b) = p_self (fst a) \<and> p_transport (fst b) = p_transport (fst a)
     \<and> (\<forall>i. channel_ok (fst a) (snd a) i \<longrightarrow> channel_ok (fst b) (snd b) i \<and> channel_kept (fst a) (fst b) i)"

lemma channel_kept_refl: "channel_kept p p i"
  by (simp add: channel_kept_def split: option.split)

lemma channel_kept_trans: "channel_kept p q i \<Longrightarrow> channel_kept q r i \<Longrightarrow> channel_kept p r i"
  by (auto simp: channel_kept_def split: option.splits)

lemma good_step_refl: "good_step a a"
  by (simp add: good_step_def channel_kept_refl)

lemma good_step_trans: "good_step a b \<Longrightarrow> good_step b c \<Longrightarrow> good_step a c"
  unfolding good_step_def by (metis channel_kept_trans)

text \<open>Steps that leave the channels.\<close>

lemma good_step_same:
  assumes "m_channels p' = m_channels p" "m_channelTypes p' = m_channelTypes p"
    "p_self p' = p_self p" "p_transport p' = p_transport p" and "m_transport w' = m_transport w"
  shows "good_step (p, w) (p', w')"
  using assms by (simp add: good_step_def channel_ok_def channel_kept_def channel_wired_def Let_def split: option.split)

text \<open>Steps that use a channel.\<close>

lemma good_step_use:
  assumes c: "m_channels p i = Some c"
    and d: "same_wiring (remote_state (ch_delegate c), w) (remote_state d, w')"
      "remote_serializer d = remote_serializer (ch_delegate c)"
    and p': "m_channels p' = (m_channels p)(i \<mapsto> c\<lparr>ch_delegate := d\<rparr>)" "m_channelTypes p' = m_channelTypes p"
      "p_self p' = p_self p" "p_transport p' = p_transport p"
  shows "good_step (p, w) (p', w')"
proof -
  have "channel_ok p' w' j \<and> channel_kept p p' j" if ok: "channel_ok p w j" for j
  proof (cases "j = i")
    case True
    with ok c d p' show ?thesis
      by (simp add: channel_ok_def channel_kept_def channel_wired_def same_wiring_def Let_def)
  next
    case False
    with p' d(1) have "m_channels p' j = m_channels p j" "m_channelTypes p' j = m_channelTypes p j"
      "m_transport w' = m_transport w" by (simp_all add: same_wiring_def)
    with ok p' show ?thesis
      by (cases "m_channels p j") (simp_all add: channel_ok_def channel_kept_def channel_wired_def)
  qed
  with p' show ?thesis by (simp add: good_step_def)
qed

lemma GetOrCreateChannelLocked_good:
  assumes "GetOrCreateChannelLocked new ty i ser p w = (found, bad, p1, w1)"
  shows "good_step (p, w) (p1, w1)"
proof (cases "m_channels p i")
  case (Some c)
  with assms show ?thesis
    by (auto simp: GetOrCreateChannelLocked_def good_step_refl split: option.splits if_splits)
next
  case None
  have "channel_ok p1 w1 j \<and> channel_kept p p1 j" if ok: "channel_ok p w j" for j
  proof (cases "j = i")
    case True
    with ok None assms show ?thesis
      by (auto simp: GetOrCreateChannelLocked_def RemoteChannel_def channel_ok_def channel_kept_def
        channel_wired_def ReconnectDelegate_def Remote_SetRemoteId_def Remote_SetStream_def Remote_SetDispatcher_def
        Remote_SetSerializer_def Remote_SetErrorHandler_def RemoteChannel_SetErrorHandler_def SetTransport_def Let_def)
  next
    case False
    have "m_channels p1 j = m_channels p j" "m_channelTypes p1 j = m_channelTypes p j" "p_self p1 = p_self p"
      "p_transport p1 = p_transport p" "\<And>d. m_transport w1 d = (if d = new then Some (p_transport p) else m_transport w d)"
      using False None assms
      by (auto simp: GetOrCreateChannelLocked_def RemoteChannel_def SetTransport_def Let_def split: option.splits)
    with ok show ?thesis
      by (cases "m_channels p j") (simp_all add: channel_ok_def channel_kept_def channel_wired_def Let_def)
  qed
  moreover have "p_self p1 = p_self p" "p_transport p1 = p_transport p"
    using None assms by (auto simp: GetOrCreateChannelLocked_def Let_def split: prod.splits)
  ultimately show ?thesis by (simp add: good_step_def)
qed

lemma channel_send_good: "good_step (p, w) (snd (channel_send env i data p w))"
proof (cases "m_channels p i")
  case None
  then show ?thesis by (simp add: channel_send_def good_step_refl)
next
  case (Some c)
  obtain x s w1 where call: "state_call env (remote_serializer (ch_delegate c)) data (remote_state (ch_delegate c), w) = (x, s, w1)"
    by (metis prod_cases3)
  with state_call_wiring [of "(remote_state (ch_delegate c), w)" env "remote_serializer (ch_delegate c)" data]
  have "same_wiring (remote_state (ch_delegate c), w) (s, w1)" by simp
  then show ?thesis
    using Some call
    by (auto simp: channel_send_def RemoteChannel_call_def DelegateFunctionRemote_call_def Remote_call_def Let_def
        intro!: good_step_use [OF Some, where d = "(ch_delegate c)\<lparr>remote_state := s\<rparr>"])
qed

lemma RegisterHandler_good: "good_step (p, w) (RegisterHandler new ty i ser f p w)"
proof -
  obtain found bad p1 w1 where g: "GetOrCreateChannelLocked new ty i ser p w = (found, bad, p1, w1)" by (metis prod_cases4)
  let ?p2 = "if found then p1\<lparr>m_channels := (m_channels p1)(i := map_option (RemoteChannel_Bind (Some f) i) (m_channels p1 i))\<rparr>
             else p1"
  have "good_step (p1, w1) (?p2, w1)"
  proof -
    have "channel_ok ?p2 w1 j \<and> channel_kept p1 ?p2 j" if "channel_ok p1 w1 j" for j
      using that
      by (cases "m_channels p1 j"; cases "j = i")
        (simp_all add: channel_ok_def channel_kept_def channel_wired_def RemoteChannel_Bind_def ReconnectDelegate_def
          DelegateFunctionRemote_Bind_def Remote_Bind_def Remote_SetRemoteId_def Remote_SetStream_def
          Remote_SetDispatcher_def Remote_SetSerializer_def Let_def)
    then show ?thesis by (simp add: good_step_def)
  qed
  moreover have "good_step (?p2, w1) (RegisterHandler new ty i ser f p w)"
    using g by (auto simp: RegisterHandler_def Let_def intro: good_step_same)
  ultimately show ?thesis using GetOrCreateChannelLocked_good [OF g] good_step_trans by blast
qed

lemma DispatchIfInterested_good: "good_step (p, w) (snd (snd (DispatchIfInterested env new ty topic data ser p w)))"
proof (cases "map_of (m_topicToRemoteId p) topic")
  case None
  then show ?thesis by (simp add: DispatchIfInterested_def good_step_refl)
next
  case (Some i)
  show ?thesis
  proof (cases ser)
    case None
    with Some show ?thesis by (simp add: DispatchIfInterested_def good_step_refl)
  next
    case (Some z)
    obtain found bad p1 w1 where g: "GetOrCreateChannelLocked new ty i z p w = (found, bad, p1, w1)" by (metis prod_cases4)
    note s1 = GetOrCreateChannelLocked_good [OF g]
    have s2: "good_step (p, w) (snd (channel_send env i data p1 w1))"
      by (rule good_step_trans [OF s1 channel_send_good])
    have s3: "good_step (p, w) (OnChannelError i ERR_TYPE_MISMATCH p1, w1)"
      by (rule good_step_trans [OF s1 good_step_same]) simp_all
    show ?thesis
      using s1 s2 s3 Some \<open>map_of (m_topicToRemoteId p) topic = Some i\<close> g
      by (auto simp: DispatchIfInterested_def split: option.split prod.split)
  qed
qed

lemma ProcessIncoming_good: "good_step (p, w) (snd (snd (ProcessIncoming env fresh x p w)))"
proof -
  obtain r h rd where x: "x = (r, h, rd)" by (metis prod_cases3)
  have err: "good_step (p, w) (OnChannelError i e p, w)" for i e by (rule good_step_same) simp_all
  show ?thesis
  proof (cases "r = 0 \<and> m_marker h = MARKER \<and> m_channels p (m_id h) \<noteq> None")
    case False
    with err show ?thesis by (auto simp: ProcessIncoming_def x good_step_refl)
  next
    case True
    then obtain c where c: "r = 0" "m_marker h = MARKER" "m_channels p (m_id h) = Some c" by auto
    obtain dup p1 where dup: "seen_before (m_id h) (m_seqNum h) p = (dup, p1)" by fastforce
    then have p1: "m_channels p1 = m_channels p" "m_channelTypes p1 = m_channelTypes p" "p_self p1 = p_self p"
      "p_transport p1 = p_transport p"
      by (auto simp: seen_before_def split: if_splits prod.splits)
    then have s1: "good_step (p, w) (p1, w)" by (intro good_step_same) simp_all
    obtain r' called rd1 d1 w1 where inv: "DelegateFunctionRemote_Invoke env 1 (fresh (m_channelTypes p (m_id h))) rd (ch_delegate c, w)
        = (r', called, rd1, d1, w1)" by (metis prod_cases5)
    with Remote_Invoke_wiring [where env = env and call = DelegateFunction_call and argc = 1
        and fresh = "fresh (m_channelTypes p (m_id h))" and rd = rd and d = "ch_delegate c" and w = w]
    have wired: "same_wiring (remote_state (ch_delegate c), w) (remote_state d1, w1)"
      "remote_serializer d1 = remote_serializer (ch_delegate c)"
      by (simp_all add: DelegateFunctionRemote_Invoke_def)
    have "good_step (p1, w) (handle_reports (drop (length (reports w)) (reports w1))
        (p1\<lparr>m_channels := (m_channels p1)(m_id h \<mapsto> c\<lparr>ch_delegate := d1\<rparr>)\<rparr>), w1)"
      by (rule good_step_use [OF _ wired, where i = "m_id h"]) (simp_all add: p1 c)
    from good_step_trans [OF s1 this] s1 show ?thesis
      by (simp add: ProcessIncoming_def x c dup inv Let_def del: One_nat_def)
  qed
qed

lemma participant_step_good: "good_step a (participant_step env fresh op a)"
proof (cases a)
  case (Pair p w)
  then show ?thesis
    using RegisterHandler_good DispatchIfInterested_good ProcessIncoming_good channel_send_good
    by (cases op) (auto simp: SetSendThread_def AddRemoteTopic_def EnableContinuousErrors_def ResetErrors_def AsyncSend_def
        intro: good_step_same)
qed

lemma participant_run_good: "good_step a (fold (participant_step env fresh) ops a)"
proof (induction ops arbitrary: a)
  case (Cons op ops)
  show ?case using good_step_trans [OF participant_step_good Cons.IH] by simp
qed (simp add: good_step_refl)

section \<open>The properties\<close>


text \<open>
  Reported errors are latched: of any sequence of errors of any ids the error signal fires for
  the first of each topic and error, in order, \<open>SUCCESS\<close> never, and with continuous errors for every one.
\<close>

theorem errors_reported_once:
  assumes "m_reportedErrors p = (\<lambda>_. None)"
  shows "error_signal (fold (\<lambda>(i, e). OnChannelError i e) es p) = error_signal p @
    (let xs = map (\<lambda>(i, e). (topic_name i p, e)) (filter (\<lambda>(i, e). e \<noteq> SUCCESS) es)
     in if m_continuousErrors p then xs else firsts [] xs)"
  by (rule errors_latched) (simp add: latched_def assms)

text \<open>
  The channels of a participant are well formed after any sequence of operations, with errors
  and exceptions: each has a message type, its delegate has the id, the stream, the dispatcher and the
  serializer of the channel and reports to the participant, its dispatcher sends by the participant's transport, and a
  channel once there never changes its type, serializer, stream or dispatcher.
\<close>

theorem channels_keep_wiring:
  "let a = fold (participant_step env fresh) ops (Participant self transport, w);
       b = fold (participant_step env fresh) ops' a
   in channel_ok (fst a) (snd a) i \<and> channel_kept (fst a) (fst b) i"
proof -
  let ?a0 = "(Participant self transport, w)"
  have "channel_ok (fst ?a0) (snd ?a0) i" by (simp add: channel_ok_def Participant_def)
  then have "channel_ok (fst (fold (participant_step env fresh) ops ?a0)) (snd (fold (participant_step env fresh) ops ?a0)) i"
    using participant_run_good [of ?a0 env fresh ops] unfolding good_step_def by blast
  then show ?thesis
    using participant_run_good [of "fold (participant_step env fresh) ops ?a0" env fresh ops']
    by (simp add: good_step_def Let_def)
qed

section \<open>Instances\<close>

definition node_handler :: fun_object where
  "node_handler = Fun_object 3 9"

definition node :: "val list Participant" where
  "node = fst (RegisterHandler 50 1 7 (Serializer True byte_lt 0) node_handler
     (AddRemoteTopic ''temp'' 7 (Participant 100 0)) idle_link)"

definition fresh_lit :: "nat option \<Rightarrow> val list" where
  "fresh_lit t = [Lit [0, 0]]"

definition reading :: "u16 \<Rightarrow> u16 \<Rightarrow> int \<times> DmqHeader \<times> reader" where
  "reading i s = (0, DmqHeader i s 0, open_reader (enc_members [Lit [1, 2]]))"

lemmas channel_defs = node_def RegisterHandler_def GetOrCreateChannelLocked_def RemoteChannel_def ReconnectDelegate_def
  Remote_SetRemoteId_def Remote_SetStream_def Remote_SetDispatcher_def Remote_SetSerializer_def Remote_SetErrorHandler_def
  RemoteChannel_SetErrorHandler_def RemoteChannel_Bind_def DelegateFunctionRemote_Bind_def Remote_Bind_def
  AddRemoteTopic_def Participant_def Let_def

lemma node_channel:
  "\<exists>c. m_channels node 7 = Some c \<and> remote_serializer (ch_delegate c) = Some (Serializer True byte_lt 0)
     \<and> remote_base (ch_delegate c) = DelegateFunction_Bind (Some node_handler) DelegateFunction"
  "m_history node 7 = None" "m_reportedErrors node = (\<lambda>_. None)" "m_continuousErrors node = False"
  "m_topicToRemoteId node = [(''temp'', 7)]" "error_signal node = []"
  by (simp_all add: channel_defs Remote_default_def)

lemma reading_decodes: "decodes (Serializer True byte_lt 0) (fresh_lit t) (snd (snd (reading i s)))
    \<and> decoded (Serializer True byte_lt 0) (fresh_lit t) (snd (snd (reading i s))) = [Lit [1, 2]]"
proof -
  have "Serializer_Read True byte_lt 0 [Lit [0, 0]] (open_reader (enc_members [Lit [1, 2]]))
      = (None, [Lit [1, 2]], adv (length (enc_members [Lit [1, 2 :: byte]])) (open_reader (enc_members [Lit [1, 2]])))"
    by (rule Serializer_Read_enc) (simp_all add: byte_lt_asym serialize_limits)
  then show ?thesis
    by (simp add: decodes_def decoded_def reading_def fresh_lit_def Serializer_def open_reader_def good_def)
qed


lemma errors_reported_once_witness:
  "error_signal (fold (\<lambda>(i, e). OnChannelError i e)
      [(7, ERR_DISPATCH), (7, SUCCESS), (7, ERR_DISPATCH), (3, ERR_NO_DISPATCHER), (7, ERR_DESERIALIZE)] node)
   = [(''temp'', ERR_DISPATCH), (''UnknownRemoteId:3'', ERR_NO_DISPATCHER), (''temp'', ERR_DESERIALIZE)]"
  using errors_reported_once [of node "[(7, ERR_DISPATCH), (7, SUCCESS), (7, ERR_DISPATCH), (3, ERR_NO_DISPATCHER), (7, ERR_DESERIALIZE)]"]
  by (simp add: node_channel topic_name_def GetTopicName_def decimal.simps char_of_def bit_0)

section \<open>What the code says and does not do\<close>

text \<open>
  A sender that restarts numbers its packets from the start again, and a node with no more than eight
  packets since takes them for repetitions: what it sends first is dropped, as if it had been received.
\<close>

theorem restarted_sender_dropped:
  "map (\<lambda>called. called = None)
     (receive_all flaky fresh_lit [reading 7 0, reading 7 1, reading 7 0, reading 7 1, reading 7 2] node idle_link)
   = [False, False, True, True, False]"
proof -
  obtain c where c: "m_channels node 7 = Some c" "remote_serializer (ch_delegate c) = Some (Serializer True byte_lt 0)"
    using node_channel(1) by blast
  let ?xs = "[reading 7 0, reading 7 1, reading 7 0, reading 7 1, reading 7 2]"
  have mine: "packet_for 7 (reading 7 s)" for s by (simp add: packet_for_def reading_def DmqHeader_def)
  have seq: "packet_seq (reading i s) = s" for i s by (simp add: packet_seq_def reading_def DmqHeader_def)
  have served: "served 7 c (m_channelTypes node 7) [] node" by (simp add: served_def c node_channel SeqHistory_inv)
  have len: "length (receive_all flaky fresh_lit xs p w) = length xs" for xs p w
    by (induction xs arbitrary: p w) (simp_all split: prod.split)
  have all: "filter (packet_for 7 \<circ> fst) (zip ?xs ys) = zip ?xs ys" for ys :: "val list outcome option list"
    
  proof (rule filter_True, clarify)
    fix a b c d
    assume "((a, b, c), d) \<in> set (zip ?xs ys)"
    then have "(a, b, c) \<in> set ?xs" by (rule set_zip_leftD)
    then show "(packet_for 7 \<circ> fst) ((a, b, c), d)" by (auto simp: mine)
  qed
  have kept: "filter (packet_for 7) ?xs = ?xs" by (simp add: mine)
  have same: "map snd (zip ?xs (receive_all flaky fresh_lit ?xs node idle_link)) = receive_all flaky fresh_lit ?xs node idle_link"
    by (rule map_snd_zip) (simp only: len)
  have "receive_all flaky fresh_lit ?xs node idle_link
      = map2 (\<lambda>new x. if new then Some (DelegateFunction_call (decoded (Serializer True byte_lt 0)
          (fresh_lit (m_channelTypes node 7)) (snd (snd x))) (remote_base (ch_delegate c))) else None)
        (window_accepts [] (map packet_seq ?xs)) ?xs"
    using receive_all_window [where i = 7 and c = c and ws = "[]" and xs = ?xs and p = node and w = idle_link
        and env = flaky and fresh = fresh_lit and z = "Serializer True byte_lt 0" and ty = "m_channelTypes node 7",
        OF _ c(2) _ served, unfolded kept all same] reading_decodes
    by (simp del: receive_all.simps)
  then show ?thesis by (simp add: seq del: receive_all.simps)
qed

end
