(* ===== verification/DataBus.thy ===== *)
theory DataBus
  imports Participants
begin

text \<open>
  \<^verbatim>\<open>extras/databus/DataBus.h\<close> with \<^verbatim>\<open>DataBusQos.h\<close> and \<^verbatim>\<open>SpyPacket.h\<close>: the bus. A topic has the type of
  its first use; its signal is the list of its subscribers, by the contract of \<open>Signals\<close>; remote nodes
  are the participants of \<open>Participants\<close>, held in an array with a fixed capacity. The subscribers
  are numbered: their callbacks (\<open>subscriber\<close>) are shared objects, and what was posted
  to a thread runs later. An erased pointer carries the type it was made from, and \<open>bad_casts\<close> counts
  the casts to another type. \<^verbatim>\<open>DMQ_ASSERT\<close>, the application's fault handler, is taken to return.
\<close>

unbundle bit_operations_syntax

section \<open>Quality of service\<close>

record QoS =
  lastValueCache :: bool
  lifespan :: "duration option"
  minSeparation :: "duration option"

definition QoS :: QoS where
  "QoS = \<lparr>lastValueCache = False, lifespan = None, minSeparation = None\<rparr>"

text \<open>A duration in nanoseconds cast to milliseconds rounds towards zero.\<close>

definition to_ms :: "duration \<Rightarrow> int" where
  "to_ms d = (if d < 0 then - (- d div 1000000) else d div 1000000)"

record RateLimiter =
  m_minSepRep :: u32
  m_lastDeliveryRep :: u32

definition RateLimiter :: "u32 \<Rightarrow> RateLimiter" where
  "RateLimiter m = \<lparr>m_minSepRep = m, m_lastDeliveryRep = 0\<rparr>"

definition RateLimiter_Invoke :: "time_point \<Rightarrow> RateLimiter \<Rightarrow> bool \<times> RateLimiter" where
  "RateLimiter_Invoke now l =
     (let nowRep = of_int (to_ms now) in
      if m_minSepRep l \<le> nowRep - m_lastDeliveryRep l then (True, l\<lparr>m_lastDeliveryRep := nowRep\<rparr>) else (False, l))"

definition Filter_Invoke :: "('v \<Rightarrow> bool) \<Rightarrow> 'v \<Rightarrow> bool" where
  "Filter_Invoke predicate data = predicate data"

type_synonym u64 = "64 word"

record SpyPacket =
  spy_topic :: string
  spy_value :: string
  timestamp_us :: u64
  nodeId :: string

section \<open>The state\<close>

definition MAX_PARTICIPANTS :: nat where "MAX_PARTICIPANTS = 8"

type_synonym 'x erased = "nat \<times> 'x"

record 'v DataBus =
  b_continuousErrors :: bool
  b_reportedErrors :: "string \<Rightarrow> u16 option"
  m_signals :: "string \<Rightarrow> nat list erased option"
  m_typeIndices :: "string \<Rightarrow> nat option"
  m_participants :: "nat option list"
  m_participantCount :: nat
  m_serializers :: "string \<Rightarrow> 'v ISerializer erased option"
  m_lastValues :: "string \<Rightarrow> ('v erased \<times> time_point) option"
  m_topicQos :: "string \<Rightarrow> QoS option"
  m_stringifiers :: "string \<Rightarrow> ('v \<Rightarrow> string) erased option"
  m_monitorSignal :: "(nat \<times> nat option) list"
  m_unhandledSignal :: "nat list"
  m_errorSignal :: "nat list"
  m_participantErrorConnections :: "nat option list"

definition DataBus :: "'v DataBus" where
  "DataBus = \<lparr>b_continuousErrors = False, b_reportedErrors = (\<lambda>_. None), m_signals = (\<lambda>_. None), m_typeIndices = (\<lambda>_. None),
     m_participants = replicate MAX_PARTICIPANTS None, m_participantCount = 0, m_serializers = (\<lambda>_. None),
     m_lastValues = (\<lambda>_. None), m_topicQos = (\<lambda>_. None), m_stringifiers = (\<lambda>_. None), m_monitorSignal = [],
     m_unhandledSignal = [], m_errorSignal = [], m_participantErrorConnections = replicate MAX_PARTICIPANTS None\<rparr>"

text \<open>The callback of a subscription: the limiter around the filter around the function.\<close>

record 'v subscriber =
  s_thread :: "nat option"
  s_limiter :: "RateLimiter option"
  s_filter :: "('v \<Rightarrow> bool) option"

text \<open>What was posted to a thread: a delivery, a packet for a monitor, a remote send.\<close>

datatype 'v post = Post_delivery nat 'v | Post_monitor nat SpyPacket | Post_send nat u16 'v

text \<open>What users saw: a subscriber a value, a listener an unhandled topic, an error or a packet.\<close>

datatype 'v event =
    Delivered nat time_point 'v | Unhandled nat string | Error_fired nat string DelegateError | Monitored nat SpyPacket

record 'v world =
  bus :: "'v DataBus"
  subscribers :: "nat \<Rightarrow> 'v subscriber"
  next_subscriber :: nat
  nodes :: "nat \<Rightarrow> 'v Participant"
  wires :: "nat link"
  next_address :: nat
  posts :: "(nat \<times> 'v post) list"
  events :: "'v event list"
  bad_casts :: nat

definition static_cast :: "nat \<Rightarrow> 'x erased \<Rightarrow> 'v world \<Rightarrow> 'x \<times> 'v world" where
  "static_cast ty e w = (snd e, if fst e = ty then w else w\<lparr>bad_casts := Suc (bad_casts w)\<rparr>)"

definition emit :: "'v event list \<Rightarrow> 'v world \<Rightarrow> 'v world" where
  "emit es w = w\<lparr>events := events w @ es\<rparr>"

definition post_to :: "nat \<Rightarrow> 'v post \<Rightarrow> 'v world \<Rightarrow> 'v world" where
  "post_to t m w = w\<lparr>posts := posts w @ [(t, m)]\<rparr>"

section \<open>Errors and small helpers\<close>

definition InternalReportLatchedError :: "string \<Rightarrow> DelegateError \<Rightarrow> 'v world \<Rightarrow> 'v world" where
  "InternalReportLatchedError topic e w =
     (let b = bus w;
          bits = (case b_reportedErrors b topic of None \<Rightarrow> 0 | Some x \<Rightarrow> x);
          (shouldFire, bits1) = latch_error (b_continuousErrors b) e bits;
          w1 = w\<lparr>bus := b\<lparr>b_reportedErrors := (b_reportedErrors b)(topic \<mapsto> bits1)\<rparr>\<rparr>
      in if shouldFire then emit (map (\<lambda>n. Error_fired n topic e) (m_errorSignal b)) w1 else w1)"

definition InternalReportError :: "string \<Rightarrow> DelegateError \<Rightarrow> 'v world \<Rightarrow> 'v world" where
  "InternalReportError topic e w = emit (map (\<lambda>n. Error_fired n topic e) (m_errorSignal (bus w))) w"

text \<open>The bus is connected to the error signals of its participants.\<close>

definition forward_errors :: "nat \<Rightarrow> nat \<Rightarrow> 'v world \<Rightarrow> 'v world" where
  "forward_errors p old w =
     fold (\<lambda>(topic, e). InternalReportLatchedError topic e ^^ count_list (m_participantErrorConnections (bus w)) (Some p))
       (drop old (error_signal (nodes w p))) w"

definition InternalLastValueCache :: "string \<Rightarrow> bool \<Rightarrow> 'v DataBus \<Rightarrow> 'v DataBus" where
  "InternalLastValueCache topic enabled b =
     b\<lparr>m_topicQos := (m_topicQos b)(topic \<mapsto>
         (case m_topicQos b topic of None \<Rightarrow> QoS | Some q \<Rightarrow> q)\<lparr>lastValueCache := enabled\<rparr>)\<rparr>"

definition CheckOrEstablishType :: "string \<Rightarrow> nat \<Rightarrow> 'v DataBus \<Rightarrow> bool \<times> 'v DataBus" where
  "CheckOrEstablishType topic expected b =
     (case m_typeIndices b topic of
        Some ty \<Rightarrow> (ty \<noteq> expected, b)
      | None \<Rightarrow> (False, b\<lparr>m_typeIndices := (m_typeIndices b)(topic \<mapsto> expected)\<rparr>))"

definition IsLvcEnabledLocked :: "string \<Rightarrow> 'v DataBus \<Rightarrow> bool" where
  "IsLvcEnabledLocked topic b = (case m_topicQos b topic of None \<Rightarrow> False | Some q \<Rightarrow> lastValueCache q)"

definition FindLvcEntryLocked :: "string \<Rightarrow> 'v DataBus \<Rightarrow> ('v erased \<times> time_point) option" where
  "FindLvcEntryLocked topic b = m_lastValues b topic"

definition StoreLvcEntryLocked :: "string \<Rightarrow> 'v erased \<Rightarrow> time_point \<Rightarrow> 'v DataBus \<Rightarrow> 'v DataBus" where
  "StoreLvcEntryLocked topic v ts b = b\<lparr>m_lastValues := (m_lastValues b)(topic \<mapsto> (v, ts))\<rparr>"

definition HasMonitorLocked :: "'v DataBus \<Rightarrow> bool" where
  "HasMonitorLocked b \<longleftrightarrow> m_monitorSignal b \<noteq> []"

definition FindStringifierLocked :: "string \<Rightarrow> 'v DataBus \<Rightarrow> ('v \<Rightarrow> string) erased option" where
  "FindStringifierLocked topic b = m_stringifiers b topic"

definition FindSignalLocked :: "string \<Rightarrow> 'v DataBus \<Rightarrow> nat list erased option" where
  "FindSignalLocked topic b = m_signals b topic"

definition FindSerializerLocked :: "string \<Rightarrow> 'v DataBus \<Rightarrow> 'v ISerializer erased option" where
  "FindSerializerLocked topic b = m_serializers b topic"

text \<open>The array entries below the count; they are never null there.\<close>

definition SnapshotParticipantsLocked :: "'v DataBus \<Rightarrow> nat option list" where
  "SnapshotParticipantsLocked b = take (m_participantCount b) (m_participants b)"

definition DispatchMonitor :: "string \<Rightarrow> string \<Rightarrow> u64 \<Rightarrow> 'v world \<Rightarrow> 'v world" where
  "DispatchMonitor topic strVal timestamp w =
     (let packet = \<lparr>spy_topic = topic, spy_value = strVal, timestamp_us = timestamp, nodeId = []\<rparr> in
      fold (\<lambda>(n, t). case t of None \<Rightarrow> emit [Monitored n packet] | Some th \<Rightarrow> post_to th (Post_monitor n packet))
        (m_monitorSignal (bus w)) w)"

text \<open>\<^verbatim>\<open>GetOrCreateSignal\<close>: nothing on a type mismatch, else the subscribers of the topic.\<close>

definition GetOrCreateSignal :: "string \<Rightarrow> nat \<Rightarrow> 'v world \<Rightarrow> nat list option \<times> 'v world" where
  "GetOrCreateSignal topic ty w =
     (let (bad, b1) = CheckOrEstablishType topic ty (bus w); w1 = w\<lparr>bus := b1\<rparr> in
      if bad then (None, w1)
      else case FindSignalLocked topic b1 of
             Some sig \<Rightarrow> (let (subs, w2) = static_cast ty sig w1 in (Some subs, w2))
           | None \<Rightarrow> (Some [], w1\<lparr>bus := b1\<lparr>m_signals := (m_signals b1)(topic \<mapsto> (ty, []))\<rparr>\<rparr>))"

section \<open>Delivery\<close>

text \<open>A call of the callback of a subscription, on whatever thread it runs.\<close>

definition invoke_subscriber :: "time_point \<Rightarrow> nat \<Rightarrow> 'v \<Rightarrow> 'v world \<Rightarrow> 'v world" where
  "invoke_subscriber now n data w =
     (let s = subscribers w n;
          (pass, l1) = (case s_limiter s of
              None \<Rightarrow> (True, None)
            | Some l \<Rightarrow> (let (ok, l1) = RateLimiter_Invoke now l in (ok, Some l1)));
          w1 = w\<lparr>subscribers := (subscribers w)(n := s\<lparr>s_limiter := l1\<rparr>)\<rparr>
      in if pass \<and> (case s_filter s of None \<Rightarrow> True | Some predicate \<Rightarrow> Filter_Invoke predicate data)
         then emit [Delivered n now data] w1 else w1)"

text \<open>Calling the delegate of a subscription: at once, or posted to its thread.\<close>

definition deliver :: "time_point \<Rightarrow> 'v \<Rightarrow> nat \<Rightarrow> 'v world \<Rightarrow> 'v world" where
  "deliver now data n w =
     (case s_thread (subscribers w n) of
        None \<Rightarrow> invoke_subscriber now n data w
      | Some t \<Rightarrow> post_to t (Post_delivery n data) w)"

section \<open>Subscribing\<close>

text \<open>\<^verbatim>\<open>Connect\<close>: the number of the connection and the signal with it at the end.\<close>

definition connect_subscriber :: "string \<Rightarrow> 'v subscriber \<Rightarrow> 'v world \<Rightarrow> nat \<times> 'v world" where
  "connect_subscriber topic s w =
     (let n = next_subscriber w in
      (n, w\<lparr>subscribers := (subscribers w)(n := s), next_subscriber := Suc n,
            bus := (bus w)\<lparr>m_signals := (m_signals (bus w))(topic :=
              map_option (\<lambda>(tag, subs). (tag, subs @ [n])) (m_signals (bus w) topic))\<rparr>\<rparr>))"

definition lvc_delivery :: "time_point \<Rightarrow> string \<Rightarrow> nat \<Rightarrow> QoS \<Rightarrow> 'v world \<Rightarrow> 'v option \<times> 'v world" where
  "lvc_delivery now topic ty qos w =
     (if lastValueCache qos
      then case m_lastValues (bus w) topic of
             None \<Rightarrow> (None, w)
           | Some (e, ts) \<Rightarrow>
               if (case lifespan qos of None \<Rightarrow> False | Some l \<Rightarrow> l < now - ts) then (None, w)
               else (let (v, w1) = static_cast ty e w in (Some v, w1))
      else (None, w))"

definition InternalSubscribe ::
  "time_point \<Rightarrow> string \<Rightarrow> nat \<Rightarrow> ('v \<Rightarrow> bool) option \<Rightarrow> nat option \<Rightarrow> QoS \<Rightarrow> 'v world \<Rightarrow> nat option \<times> 'v world" where
  "InternalSubscribe now topic ty predicate thread qos w =
     (let s = \<lparr>s_thread = thread, s_limiter = map_option (\<lambda>d. RateLimiter (of_int (to_ms d))) (minSeparation qos),
               s_filter = predicate\<rparr>;
          w1 = (if lastValueCache qos then w\<lparr>bus := InternalLastValueCache topic True (bus w)\<rparr> else w);
          (sig, w2) = GetOrCreateSignal topic ty w1
      in case sig of
           None \<Rightarrow> (None, InternalReportLatchedError topic ERR_TYPE_MISMATCH w2)
         | Some _ \<Rightarrow>
             (let (n, w3) = connect_subscriber topic s w2;
                  (cached, w4) = lvc_delivery now topic ty qos w3
              in (Some n, case cached of None \<Rightarrow> w4 | Some v \<Rightarrow> deliver now v n w4)))"

text \<open>A connection that is disconnected leaves the signal; the callback stays for what is posted.\<close>

definition disconnect :: "nat \<Rightarrow> 'v world \<Rightarrow> 'v world" where
  "disconnect n w =
     w\<lparr>bus := (bus w)\<lparr>m_signals := (\<lambda>topic. map_option (\<lambda>(ty, subs). (ty, removeAll n subs)) (m_signals (bus w) topic))\<rparr>\<rparr>"

section \<open>Publishing\<close>

definition update_lvc :: "time_point \<Rightarrow> string \<Rightarrow> nat \<Rightarrow> 'v \<Rightarrow> 'v world \<Rightarrow> 'v world" where
  "update_lvc now topic ty data w =
     (if IsLvcEnabledLocked topic (bus w)
      then case FindLvcEntryLocked topic (bus w) of
             Some (e, ts) \<Rightarrow>
               (let (_, w1) = static_cast ty e w in w1\<lparr>bus := StoreLvcEntryLocked topic (fst e, data) now (bus w1)\<rparr>)
           | None \<Rightarrow> w\<lparr>bus := StoreLvcEntryLocked topic (ty, data) now (bus w)\<rparr>
      else w)"

definition monitor_text :: "string \<Rightarrow> nat \<Rightarrow> 'v \<Rightarrow> 'v world \<Rightarrow> string \<times> 'v world" where
  "monitor_text topic ty data w =
     (if HasMonitorLocked (bus w)
      then case FindStringifierLocked topic (bus w) of
             Some strf \<Rightarrow> (let (f, w1) = static_cast ty strf w in (f data, w1))
           | None \<Rightarrow> (''?'', w)
      else (''?'', w))"

text \<open>Handing the message to one participant; its errors reach the bus.\<close>

definition dispatch_one ::
  "nat environment \<Rightarrow> string \<Rightarrow> nat \<Rightarrow> 'v \<Rightarrow> 'v ISerializer option \<Rightarrow> nat \<Rightarrow> 'v world \<Rightarrow> (exc + bool) \<times> 'v world" where
  "dispatch_one env topic ty data ser p w =
     (let old = length (error_signal (nodes w p));
          (r, send, node, l) = DispatchIfInterested env (next_address w) ty topic data ser (nodes w p) (wires w);
          w1 = w\<lparr>nodes := (nodes w)(p := node), wires := l, next_address := Suc (next_address w)\<rparr>;
          w2 = (case send of None \<Rightarrow> w1 | Some (t, i, v) \<Rightarrow> post_to t (Post_send p i v) w1)
      in (r, forward_errors p old w2))"

fun dispatch_all ::
  "nat environment \<Rightarrow> string \<Rightarrow> nat \<Rightarrow> 'v \<Rightarrow> 'v ISerializer option \<Rightarrow> nat list \<Rightarrow> bool \<Rightarrow> 'v world
   \<Rightarrow> (exc + bool) \<times> 'v world" where
  "dispatch_all env topic ty data ser [] anyInterested w = (Inr anyInterested, w)"
| "dispatch_all env topic ty data ser (p # ps) anyInterested w =
     (case dispatch_one env topic ty data ser p w of
        (Inl x, w1) \<Rightarrow> (Inl x, w1)
      | (Inr b, w1) \<Rightarrow> dispatch_all env topic ty data ser ps (anyInterested \<or> b) w1)"

definition publish_remote ::
  "nat environment \<Rightarrow> string \<Rightarrow> nat \<Rightarrow> 'v \<Rightarrow> 'v ISerializer option \<Rightarrow> nat option list \<Rightarrow> bool \<Rightarrow> 'v world
   \<Rightarrow> (exc + bool) \<times> 'v world" where
  "publish_remote env topic ty data ser snapshot handled w =
     (case dispatch_all env topic ty data ser (map the snapshot) False w of
        (Inl x, w1) \<Rightarrow> (Inl x, w1)
      | (Inr anyInterested, w1) \<Rightarrow>
          (Inr (handled \<or> anyInterested),
           if anyInterested \<and> ser = None then InternalReportLatchedError topic ERR_NO_SERIALIZER w1 else w1))"

definition find_serializer :: "string \<Rightarrow> nat \<Rightarrow> 'v world \<Rightarrow> 'v ISerializer option \<times> 'v world" where
  "find_serializer topic ty w =
     (case FindSerializerLocked topic (bus w) of
        None \<Rightarrow> (None, w)
      | Some e \<Rightarrow> (let (z, w1) = static_cast ty e w in (Some z, w1)))"

definition publish_local :: "time_point \<Rightarrow> nat \<Rightarrow> 'v \<Rightarrow> nat list erased option \<Rightarrow> 'v world \<Rightarrow> bool \<times> 'v world" where
  "publish_local now ty data signalVoid w =
     (case signalVoid of
        None \<Rightarrow> (False, w)
      | Some sig \<Rightarrow> (let (subs, w1) = static_cast ty sig w in (True, fold (deliver now data) subs w1)))"

definition InternalPublish ::
  "nat environment \<Rightarrow> time_point \<Rightarrow> string \<Rightarrow> nat \<Rightarrow> 'v \<Rightarrow> bool \<Rightarrow> 'v world \<Rightarrow> exc option \<times> 'v world" where
  "InternalPublish env now topic ty data localOnly w =
     (let timestamp = of_int (now div 1000);
          (typeMismatch, b1) = CheckOrEstablishType topic ty (bus w);
          w1 = w\<lparr>bus := b1\<rparr>
      in if typeMismatch then (None, InternalReportLatchedError topic ERR_TYPE_MISMATCH w1)
         else let w2 = update_lvc now topic ty data w1;
                  hasMonitor = HasMonitorLocked (bus w2);
                  (strVal, w3) = monitor_text topic ty data w2;
                  signalVoid = FindSignalLocked topic (bus w3);
                  (serializer, w4) = find_serializer topic ty w3;
                  snapshot = SnapshotParticipantsLocked (bus w4);
                  w5 = (if hasMonitor then DispatchMonitor topic strVal timestamp w4 else w4);
                  (handled, w6) = publish_local now ty data signalVoid w5;
                  (r, w7) = (if localOnly then (Inr handled, w6)
                             else publish_remote env topic ty data serializer snapshot handled w6)
              in case r of
                   Inl x \<Rightarrow> (Some x, w7)
                 | Inr handled1 \<Rightarrow>
                     (None, if handled1 then w7 else emit (map (\<lambda>n. Unhandled n topic) (m_unhandledSignal (bus w7))) w7))"

section \<open>Participants, serializers, stringifiers\<close>

fun shift_down :: "nat \<Rightarrow> nat \<Rightarrow> 'x option list \<Rightarrow> 'x option list" where
  "shift_down i 0 xs = xs"
| "shift_down i (Suc k) xs = shift_down (Suc i) k (xs[i := xs ! Suc i, Suc i := None])"

fun find_participant :: "nat \<Rightarrow> nat \<Rightarrow> nat \<Rightarrow> nat option list \<Rightarrow> nat option" where
  "find_participant p i 0 xs = None"
| "find_participant p i (Suc k) xs = (if xs ! i = Some p then Some i else find_participant p (Suc i) k xs)"

definition InternalRemoveParticipant :: "nat \<Rightarrow> 'v DataBus \<Rightarrow> 'v DataBus" where
  "InternalRemoveParticipant p b =
     (case find_participant p 0 (m_participantCount b) (m_participants b) of
        None \<Rightarrow> b
      | Some i \<Rightarrow>
          (let k = m_participantCount b - 1 - i;
               conns = shift_down i k ((m_participantErrorConnections b)[i := None]);
               ps = shift_down i k (m_participants b)
           in b\<lparr>m_participants := ps[m_participantCount b - 1 := None], m_participantErrorConnections := conns,
                m_participantCount := m_participantCount b - 1\<rparr>))"

definition InternalAddParticipant :: "nat \<Rightarrow> 'v world \<Rightarrow> 'v world" where
  "InternalAddParticipant p w =
     (let b = bus w in
      if MAX_PARTICIPANTS \<le> m_participantCount b
      then InternalReportLatchedError ''<AddParticipant>'' ERR_CAPACITY_EXCEEDED w
      else w\<lparr>bus := b\<lparr>m_participantErrorConnections := (m_participantErrorConnections b)[m_participantCount b := Some p],
                      m_participants := (m_participants b)[m_participantCount b := Some p],
                      m_participantCount := Suc (m_participantCount b)\<rparr>,
             nodes := (nodes w)(p := EnableContinuousErrors (b_continuousErrors b) (nodes w p))\<rparr>)"

definition InternalRegisterSerializer :: "string \<Rightarrow> nat \<Rightarrow> 'v ISerializer \<Rightarrow> 'v world \<Rightarrow> 'v world" where
  "InternalRegisterSerializer topic ty z w =
     (let (bad, b1) = CheckOrEstablishType topic ty (bus w) in
      if bad then InternalReportLatchedError topic ERR_TYPE_MISMATCH (w\<lparr>bus := b1\<rparr>)
      else w\<lparr>bus := b1\<lparr>m_serializers := (m_serializers b1)(topic \<mapsto> (ty, z))\<rparr>\<rparr>)"

definition InternalRegisterStringifier :: "string \<Rightarrow> nat \<Rightarrow> ('v \<Rightarrow> string) \<Rightarrow> 'v world \<Rightarrow> 'v world" where
  "InternalRegisterStringifier topic ty f w =
     (let (bad, b1) = CheckOrEstablishType topic ty (bus w) in
      if bad then InternalReportLatchedError topic ERR_TYPE_MISMATCH (w\<lparr>bus := b1\<rparr>)
      else w\<lparr>bus := b1\<lparr>m_stringifiers := (m_stringifiers b1)(topic \<mapsto> (ty, f))\<rparr>\<rparr>)"

definition InternalEnableContinuousErrors :: "bool \<Rightarrow> 'v world \<Rightarrow> 'v world" where
  "InternalEnableContinuousErrors enable w =
     w\<lparr>bus := (bus w)\<lparr>b_continuousErrors := enable\<rparr>,
       nodes := fold (\<lambda>p f. case p of None \<Rightarrow> f | Some q \<Rightarrow> f(q := EnableContinuousErrors enable (f q)))
         (take (m_participantCount (bus w)) (m_participants (bus w))) (nodes w)\<rparr>"

definition InternalReset :: "'v world \<Rightarrow> 'v world" where
  "InternalReset w =
     (let b = bus w; k = m_participantCount b in
      w\<lparr>bus := b\<lparr>m_signals := (\<lambda>_. None),
                  m_participants := map (\<lambda>i. if i < k then None else m_participants b ! i) [0..<length (m_participants b)],
                  m_participantErrorConnections :=
                    map (\<lambda>i. if i < k then None else m_participantErrorConnections b ! i)
                      [0..<length (m_participantErrorConnections b)],
                  m_participantCount := 0, m_serializers := (\<lambda>_. None), m_lastValues := (\<lambda>_. None),
                  m_topicQos := (\<lambda>_. None), m_stringifiers := (\<lambda>_. None), m_typeIndices := (\<lambda>_. None),
                  m_monitorSignal := [], m_unhandledSignal := [], m_errorSignal := [], b_reportedErrors := (\<lambda>_. None)\<rparr>,
        nodes := fold (\<lambda>p f. case p of None \<Rightarrow> f | Some q \<Rightarrow> f(q := ResetErrors (f q)))
          (take k (m_participants b)) (nodes w)\<rparr>)"

text \<open>Listeners of the other signals.\<close>

definition Monitor :: "nat \<Rightarrow> nat option \<Rightarrow> 'v DataBus \<Rightarrow> 'v DataBus" where
  "Monitor n thread b = b\<lparr>m_monitorSignal := m_monitorSignal b @ [(n, thread)]\<rparr>"

definition SubscribeUnhandled :: "nat \<Rightarrow> 'v DataBus \<Rightarrow> 'v DataBus" where
  "SubscribeUnhandled n b = b\<lparr>m_unhandledSignal := m_unhandledSignal b @ [n]\<rparr>"

definition SubscribeError :: "nat \<Rightarrow> 'v DataBus \<Rightarrow> 'v DataBus" where
  "SubscribeError n b = b\<lparr>m_errorSignal := m_errorSignal b @ [n]\<rparr>"

section \<open>Threads\<close>

text \<open>A thread takes its oldest message.\<close>

fun take_post :: "nat \<Rightarrow> (nat \<times> 'v post) list \<Rightarrow> ('v post \<times> (nat \<times> 'v post) list) option" where
  "take_post t [] = None"
| "take_post t ((u, m) # ms) =
     (if u = t then Some (m, ms) else map_option (\<lambda>(m', ms'). (m', (u, m) # ms')) (take_post t ms))"

definition send_posted :: "nat environment \<Rightarrow> nat \<Rightarrow> u16 \<Rightarrow> 'v \<Rightarrow> 'v world \<Rightarrow> 'v world" where
  "send_posted env p i v w =
     (let old = length (error_signal (nodes w p));
          (x, node, l) = AsyncSend env i v (nodes w p) (wires w)
      in forward_errors p old (w\<lparr>nodes := (nodes w)(p := node), wires := l\<rparr>))"

definition run_thread :: "nat environment \<Rightarrow> time_point \<Rightarrow> nat \<Rightarrow> 'v world \<Rightarrow> 'v world" where
  "run_thread env now t w =
     (case take_post t (posts w) of
        None \<Rightarrow> w
      | Some (m, ms) \<Rightarrow>
          (let w1 = w\<lparr>posts := ms\<rparr> in
           case m of
             Post_delivery n v \<Rightarrow> invoke_subscriber now n v w1
           | Post_monitor n packet \<Rightarrow> emit [Monitored n packet] w1
           | Post_send p i v \<Rightarrow> send_posted env p i v w1))"

section \<open>Runs\<close>

datatype 'v bus_op =
    Subscribe_op string nat "('v \<Rightarrow> bool) option" "nat option" QoS | Disconnect_op nat
  | Publish_op string nat 'v bool | Add_op nat | Remove_op nat
  | Serializer_op string nat "'v ISerializer" | Stringifier_op string nat "'v \<Rightarrow> string"
  | Cache_op string bool | Continuous_errors_op bool | Reset_bus_op
  | Monitor_op nat "nat option" | Unhandled_op nat | Errors_op nat | Run_op nat

fun bus_step :: "nat environment \<Rightarrow> time_point \<times> 'v bus_op \<Rightarrow> 'v world \<Rightarrow> 'v world" where
  "bus_step env (now, Subscribe_op topic ty predicate thread qos) w = snd (InternalSubscribe now topic ty predicate thread qos w)"
| "bus_step env (now, Disconnect_op n) w = disconnect n w"
| "bus_step env (now, Publish_op topic ty data localOnly) w = snd (InternalPublish env now topic ty data localOnly w)"
| "bus_step env (now, Add_op p) w = InternalAddParticipant p w"
| "bus_step env (now, Remove_op p) w = w\<lparr>bus := InternalRemoveParticipant p (bus w)\<rparr>"
| "bus_step env (now, Serializer_op topic ty z) w = InternalRegisterSerializer topic ty z w"
| "bus_step env (now, Stringifier_op topic ty f) w = InternalRegisterStringifier topic ty f w"
| "bus_step env (now, Cache_op topic enabled) w = w\<lparr>bus := InternalLastValueCache topic enabled (bus w)\<rparr>"
| "bus_step env (now, Continuous_errors_op enable) w = InternalEnableContinuousErrors enable w"
| "bus_step env (now, Reset_bus_op) w = InternalReset w"
| "bus_step env (now, Monitor_op n thread) w = w\<lparr>bus := Monitor n thread (bus w)\<rparr>"
| "bus_step env (now, Unhandled_op n) w = w\<lparr>bus := SubscribeUnhandled n (bus w)\<rparr>"
| "bus_step env (now, Errors_op n) w = w\<lparr>bus := SubscribeError n (bus w)\<rparr>"
| "bus_step env (now, Run_op t) w = run_thread env now t w"

definition bus_run :: "nat environment \<Rightarrow> (time_point \<times> 'v bus_op) list \<Rightarrow> 'v world \<Rightarrow> 'v world" where
  "bus_run env ops w = fold (bus_step env) ops w"

text \<open>A fresh bus; the nodes and the links are given.\<close>

definition fresh_world :: "(nat \<Rightarrow> 'v Participant) \<Rightarrow> nat link \<Rightarrow> nat \<Rightarrow> 'v world" where
  "fresh_world ps l a = \<lparr>bus = DataBus, subscribers = (\<lambda>_. \<lparr>s_thread = None, s_limiter = None, s_filter = None\<rparr>),
     next_subscriber = 0, nodes = ps, wires = l, next_address = a, posts = [], events = [], bad_casts = 0\<rparr>"

section \<open>What steps leave alone\<close>

text \<open>What a subscriber got, with the times, and what waits for it, with the threads.\<close>

definition delivered :: "nat \<Rightarrow> 'v world \<Rightarrow> (time_point \<times> 'v) list" where
  "delivered n w = concat (map (\<lambda>e. case e of Delivered k t v \<Rightarrow> if k = n then [(t, v)] else [] | _ \<Rightarrow> []) (events w))"

definition pending :: "nat \<Rightarrow> 'v world \<Rightarrow> (nat \<times> 'v) list" where
  "pending n w = concat (map (\<lambda>(t, m). case m of Post_delivery k v \<Rightarrow> if k = n then [(t, v)] else [] | _ \<Rightarrow> []) (posts w))"

text \<open>A step that only reports, sends and monitors.\<close>

definition quiet_step :: "'v world \<Rightarrow> 'v world \<Rightarrow> bool" where
  "quiet_step w w' \<longleftrightarrow> (\<exists>r. bus w' = (bus w)\<lparr>b_reportedErrors := r\<rparr>) \<and> subscribers w' = subscribers w
     \<and> next_subscriber w' = next_subscriber w \<and> bad_casts w' = bad_casts w
     \<and> (\<forall>n. delivered n w' = delivered n w \<and> pending n w' = pending n w)"

lemma quiet_step_refl: "quiet_step w w"
  by (auto simp: quiet_step_def intro: exI [of _ "b_reportedErrors (bus w)"])

lemma quiet_step_trans: "quiet_step u v \<Longrightarrow> quiet_step v w \<Longrightarrow> quiet_step u w"
  by (auto simp: quiet_step_def)

lemma quiet_emit:
  assumes "\<forall>e \<in> set es. \<forall>n t v. e \<noteq> Delivered n t v"
  shows "quiet_step w (emit es w)"
proof -
  have "concat (map (\<lambda>e. case e of Delivered k t v \<Rightarrow> if k = n then [(t, v)] else [] | _ \<Rightarrow> []) es) = []" for n
    using assms by (auto split: event.split)
  then show ?thesis
    by (auto simp: quiet_step_def emit_def delivered_def pending_def intro: exI [of _ "b_reportedErrors (bus w)"])
qed

lemma quiet_post:
  assumes "\<forall>n v. m \<noteq> Post_delivery n v"
  shows "quiet_step w (post_to t m w)"
  using assms
  by (auto simp: quiet_step_def post_to_def delivered_def pending_def split: post.split
      intro: exI [of _ "b_reportedErrors (bus w)"])

lemma quiet_errors: "quiet_step w (w\<lparr>bus := (bus w)\<lparr>b_reportedErrors := r\<rparr>\<rparr>)"
  by (auto simp: quiet_step_def delivered_def pending_def)

lemma quiet_nodes: "quiet_step w (w\<lparr>nodes := ns, wires := l, next_address := a\<rparr>)" "quiet_step w (w\<lparr>nodes := ns, wires := l\<rparr>)"
  "quiet_step w (w\<lparr>nodes := ns\<rparr>)"
  by (auto simp: quiet_step_def delivered_def pending_def intro: exI [of _ "b_reportedErrors (bus w)"])

lemma quiet_fold: "(\<And>x w. x \<in> set xs \<Longrightarrow> quiet_step w (f x w)) \<Longrightarrow> quiet_step w (fold f xs w)"
proof (induction xs arbitrary: w)
  case (Cons x xs)
  have "quiet_step w (f x w)" by (rule Cons.prems) simp
  moreover have "quiet_step (f x w) (fold f xs (f x w))" by (rule Cons.IH) (simp add: Cons.prems)
  ultimately show ?case by (simp add: quiet_step_trans)
qed (simp add: quiet_step_refl)

lemma quiet_report: "quiet_step w (InternalReportLatchedError topic e w)"
proof -
  have "quiet_step (w\<lparr>bus := (bus w)\<lparr>b_reportedErrors := r\<rparr>\<rparr>) (emit (map (\<lambda>n. Error_fired n topic e) ns)
      (w\<lparr>bus := (bus w)\<lparr>b_reportedErrors := r\<rparr>\<rparr>))" for r ns
    by (rule quiet_emit) auto
  with quiet_errors have "quiet_step w (emit (map (\<lambda>n. Error_fired n topic e) ns)
      (w\<lparr>bus := (bus w)\<lparr>b_reportedErrors := r\<rparr>\<rparr>))" for r ns
    by (rule quiet_step_trans)
  with quiet_errors show ?thesis
    by (auto simp: InternalReportLatchedError_def Let_def split: prod.split)
qed

lemma quiet_forward: "quiet_step w (forward_errors p old w)"
proof -
  have times: "quiet_step w ((InternalReportLatchedError topic e ^^ k) w)" for topic e k and w :: "'b world"
  proof (induction k)
    case (Suc k)
    then show ?case using quiet_step_trans [OF Suc quiet_report] by simp
  qed (simp add: quiet_step_refl)
  show ?thesis unfolding forward_errors_def
    by (rule quiet_fold) (auto intro: times split: prod.split)
qed

lemma quiet_monitor: "quiet_step w (DispatchMonitor topic str ts w)"
  unfolding DispatchMonitor_def Let_def
  by (rule quiet_fold) (auto intro!: quiet_emit quiet_post split: option.split)

lemma quiet_dispatch_one: "quiet_step w (snd (dispatch_one env topic ty data ser p w))"
proof -
  obtain r send node l where d: "DispatchIfInterested env (next_address w) ty topic data ser (nodes w p) (wires w) = (r, send, node, l)"
    by (metis prod_cases4)
  let ?w1 = "w\<lparr>nodes := (nodes w)(p := node), wires := l, next_address := Suc (next_address w)\<rparr>"
  let ?w2 = "case send of None \<Rightarrow> ?w1 | Some (t, i, v) \<Rightarrow> post_to t (Post_send p i v) ?w1"
  have "quiet_step ?w1 ?w2" by (auto intro: quiet_post quiet_step_refl split: option.split)
  with quiet_nodes(1) have "quiet_step w ?w2" by (rule quiet_step_trans)
  from quiet_step_trans [OF this quiet_forward] show ?thesis by (simp add: dispatch_one_def d Let_def)
qed

lemma quiet_dispatch_all: "quiet_step w (snd (dispatch_all env topic ty data ser ps any w))"
proof (induction ps arbitrary: any w)
  case (Cons p ps)
  obtain r w1 where d: "dispatch_one env topic ty data ser p w = (r, w1)" by (metis surj_pair)
  with quiet_dispatch_one [of w env topic ty data ser p] have "quiet_step w w1" by simp
  with quiet_step_trans [OF this Cons.IH] d show ?case by (auto split: sum.split)
qed (simp add: quiet_step_refl)

lemma quiet_publish_remote: "quiet_step w (snd (publish_remote env topic ty data ser snapshot handled w))"
proof -
  obtain r w1 where d: "dispatch_all env topic ty data ser (map the snapshot) False w = (r, w1)" by (metis surj_pair)
  with quiet_dispatch_all [of w env topic ty data ser "map the snapshot" False] have q: "quiet_step w w1" by simp
  with quiet_step_trans [OF q quiet_report] d show ?thesis
    by (auto simp: publish_remote_def split: sum.split)
qed

lemma quiet_send_posted: "quiet_step w (send_posted env p i v w)"
  using quiet_step_trans [OF quiet_nodes(2) quiet_forward]
  by (auto simp: send_posted_def Let_def split: prod.split)

section \<open>Types\<close>

text \<open>All that a topic has is of the type of the topic.\<close>

definition typed :: "'v DataBus \<Rightarrow> bool" where
  "typed b \<longleftrightarrow> (\<forall>topic. pred_option (\<lambda>x. m_typeIndices b topic = Some (fst x)) (m_signals b topic)
     \<and> pred_option (\<lambda>x. m_typeIndices b topic = Some (fst x)) (m_serializers b topic)
     \<and> pred_option (\<lambda>x. m_typeIndices b topic = Some (fst x)) (m_stringifiers b topic)
     \<and> pred_option (\<lambda>x. m_typeIndices b topic = Some (fst (fst x))) (m_lastValues b topic))"

definition type_safe :: "'v world \<Rightarrow> bool" where
  "type_safe w \<longleftrightarrow> typed (bus w) \<and> bad_casts w = 0"

lemma type_safe_quiet: "quiet_step w w' \<Longrightarrow> type_safe w \<Longrightarrow> type_safe w'"
  by (auto simp: quiet_step_def type_safe_def typed_def)

lemma CheckOrEstablishType_typed:
  assumes "typed b" and "CheckOrEstablishType topic ty b = (bad, b1)"
  shows "typed b1" "\<not> bad \<Longrightarrow> m_typeIndices b1 topic = Some ty"
    "m_signals b1 = m_signals b" "m_serializers b1 = m_serializers b" "m_lastValues b1 = m_lastValues b"
    "m_topicQos b1 = m_topicQos b"
  using assms
  by (auto simp: CheckOrEstablishType_def typed_def pred_option_def elim!: option.set_cases split: option.splits)

lemma typed_cast:
  assumes "typed b" and "m_typeIndices b topic = Some ty"
  shows "m_signals b topic = Some x \<Longrightarrow> fst x = ty" "m_serializers b topic = Some z \<Longrightarrow> fst z = ty"
    "m_stringifiers b topic = Some f \<Longrightarrow> fst f = ty" "m_lastValues b topic = Some (e, ts) \<Longrightarrow> fst e = ty"
proof -
  note at = assms(1) [unfolded typed_def, rule_format, of topic]
  show "m_signals b topic = Some x \<Longrightarrow> fst x = ty" "m_serializers b topic = Some z \<Longrightarrow> fst z = ty"
    "m_stringifiers b topic = Some f \<Longrightarrow> fst f = ty" "m_lastValues b topic = Some (e, ts) \<Longrightarrow> fst e = ty"
    using at assms(2) by auto
qed

lemma static_cast_ok: "fst e = ty \<Longrightarrow> static_cast ty e w = (snd e, w)"
  by (simp add: static_cast_def)

text \<open>Deliveries.\<close>

lemma invoke_subscriber_frame [simp]:
  "bus (invoke_subscriber now n v w) = bus w" "bad_casts (invoke_subscriber now n v w) = bad_casts w"
  "next_subscriber (invoke_subscriber now n v w) = next_subscriber w" "posts (invoke_subscriber now n v w) = posts w"
  by (simp_all add: invoke_subscriber_def emit_def Let_def split: prod.split)

lemma deliver_frame [simp]:
  "bus (deliver now v n w) = bus w" "bad_casts (deliver now v n w) = bad_casts w"
  "next_subscriber (deliver now v n w) = next_subscriber w"
  by (simp_all add: deliver_def post_to_def split: option.split)

lemma deliver_all_frame [simp]:
  "bus (fold (deliver now v) ns w) = bus w" "bad_casts (fold (deliver now v) ns w) = bad_casts w"
  "next_subscriber (fold (deliver now v) ns w) = next_subscriber w"
  by (induction ns arbitrary: w) simp_all

text \<open>What the parts of publishing and subscribing do on a well typed bus.\<close>

lemma update_lvc_typed:
  assumes "typed (bus w)" and "m_typeIndices (bus w) topic = Some ty"
  shows "update_lvc now topic ty v w = (if IsLvcEnabledLocked topic (bus w)
    then w\<lparr>bus := StoreLvcEntryLocked topic (ty, v) now (bus w)\<rparr> else w)"
  using typed_cast(4) [OF assms]
  by (auto simp: update_lvc_def FindLvcEntryLocked_def static_cast_ok split: option.split)

lemma StoreLvcEntryLocked_typed:
  "typed b \<Longrightarrow> m_typeIndices b topic = Some ty \<Longrightarrow> typed (StoreLvcEntryLocked topic (ty, v) now b)"
  by (simp add: typed_def StoreLvcEntryLocked_def)

lemma monitor_text_typed:
  "typed (bus w) \<Longrightarrow> m_typeIndices (bus w) topic = Some ty \<Longrightarrow> \<exists>str. monitor_text topic ty v w = (str, w)"
  using typed_cast(3) [of "bus w" topic ty]
  by (auto simp: monitor_text_def FindStringifierLocked_def static_cast_ok split: option.split)

lemma find_serializer_typed:
  "typed (bus w) \<Longrightarrow> m_typeIndices (bus w) topic = Some ty \<Longrightarrow>
     find_serializer topic ty w = (map_option snd (m_serializers (bus w) topic), w)"
  using typed_cast(2) [of "bus w" topic ty]
  by (auto simp: find_serializer_def FindSerializerLocked_def static_cast_ok split: option.split)

lemma publish_local_typed:
  "typed b \<Longrightarrow> m_typeIndices b topic = Some ty \<Longrightarrow>
     publish_local now ty v (m_signals b topic) w
     = (case m_signals b topic of None \<Rightarrow> (False, w) | Some sig \<Rightarrow> (True, fold (deliver now v) (snd sig) w))"
  using typed_cast(1) [of b topic ty]
  by (auto simp: publish_local_def static_cast_ok split: option.split)

text \<open>
  Publishing a message of the right type: the bus with the new cached value, quiet steps,
  the deliveries to the subscribers of the topic, and quiet steps again.
\<close>

abbreviation subs_of :: "string \<Rightarrow> 'v DataBus \<Rightarrow> nat list" where
  "subs_of topic b \<equiv> (case m_signals b topic of None \<Rightarrow> [] | Some sig \<Rightarrow> snd sig)"

abbreviation published_bus :: "time_point \<Rightarrow> string \<Rightarrow> nat \<Rightarrow> 'v \<Rightarrow> 'v world \<Rightarrow> 'v DataBus" where
  "published_bus now topic ty v w \<equiv>
     (let b1 = snd (CheckOrEstablishType topic ty (bus w))
      in if IsLvcEnabledLocked topic b1 then StoreLvcEntryLocked topic (ty, v) now b1 else b1)"

lemma InternalPublish_cases:
  assumes "typed (bus w)"
  obtains (mismatch) ty' where "m_typeIndices (bus w) topic = Some ty'" "ty' \<noteq> ty"
      "quiet_step w (snd (InternalPublish env now topic ty v localOnly w))"
  | (sent) b w1 w2 where "m_typeIndices (bus w) topic = None \<or> m_typeIndices (bus w) topic = Some ty"
      "b = published_bus now topic ty v w"
      "typed b" "quiet_step (w\<lparr>bus := b\<rparr>) w1"
      "w2 = fold (deliver now v) (subs_of topic (bus w)) w1"
      "quiet_step w2 (snd (InternalPublish env now topic ty v localOnly w))"
proof -
  obtain bad b1 where c: "CheckOrEstablishType topic ty (bus w) = (bad, b1)" by (metis surj_pair)
  note c' = CheckOrEstablishType_typed [OF assms c]
  show thesis
  proof (cases bad)
    case True
    with c obtain ty' where ty': "m_typeIndices (bus w) topic = Some ty'" "ty' \<noteq> ty" "b1 = bus w"
      by (auto simp: CheckOrEstablishType_def split: option.splits)
    have "quiet_step w (snd (InternalPublish env now topic ty v localOnly w))"
      using quiet_report [of w topic ERR_TYPE_MISMATCH] by (simp add: InternalPublish_def c True ty')
    with ty' show thesis by (intro mismatch)
  next
    case False
    define b where "b = (if IsLvcEnabledLocked topic b1 then StoreLvcEntryLocked topic (ty, v) now b1 else b1)"
    have b: "typed b" "m_typeIndices b topic = Some ty" "m_signals b = m_signals (bus w)"
      using c'(1-3) False by (auto simp: b_def StoreLvcEntryLocked_typed) (simp_all add: StoreLvcEntryLocked_def)
    let ?w2 = "w\<lparr>bus := b\<rparr>"
    have up: "update_lvc now topic ty v (w\<lparr>bus := b1\<rparr>) = ?w2"
      using update_lvc_typed [of "w\<lparr>bus := b1\<rparr>" topic ty now v] c' False by (simp add: b_def)
    obtain str where str: "monitor_text topic ty v ?w2 = (str, ?w2)"
      using monitor_text_typed [of ?w2 topic ty v] b(1,2) by auto
    obtain ser where ser: "find_serializer topic ty ?w2 = (ser, ?w2)"
      using find_serializer_typed [of ?w2 topic ty] b(1,2) by simp
    define w5 where "w5 = (if HasMonitorLocked b then DispatchMonitor topic str (of_int (now div 1000)) ?w2 else ?w2)"
    have q5: "quiet_step ?w2 w5" by (simp add: w5_def quiet_monitor quiet_step_refl)
    define w6 where "w6 = fold (deliver now v) (subs_of topic (bus w)) w5"
    obtain handled where loc: "publish_local now ty v (m_signals b topic) w5 = (handled, w6)"
      using publish_local_typed [OF b(1,2), of now v w5] by (cases "m_signals (bus w) topic") (auto simp: b(3) w6_def)
    define rw7 where "rw7 = (if localOnly then (Inr handled, w6)
        else publish_remote env topic ty v ser (SnapshotParticipantsLocked b) handled w6)"
    have q7: "quiet_step w6 (snd rw7)" by (simp add: rw7_def quiet_step_refl quiet_publish_remote)
    obtain r w7 where rw7: "rw7 = (r, w7)" by (metis surj_pair)
    have fin: "snd (InternalPublish env now topic ty v localOnly w) = (case r of Inl x \<Rightarrow> w7
        | Inr h \<Rightarrow> if h then w7 else emit (map (\<lambda>n. Unhandled n topic) (m_unhandledSignal (bus w7))) w7)"
      using loc rw7 unfolding w5_def rw7_def
      by (cases r; cases "HasMonitorLocked b"; cases localOnly)
        (simp_all add: InternalPublish_def c False up str ser FindSignalLocked_def Let_def)
    have "quiet_step w7 (emit (map (\<lambda>n. Unhandled n topic) (m_unhandledSignal (bus w7))) w7)"
      by (rule quiet_emit) auto
    with q7 rw7 quiet_step_trans have q: "quiet_step w6 (snd (InternalPublish env now topic ty v localOnly w))"
      by (auto simp: fin split: sum.split)
    have "m_typeIndices (bus w) topic = None \<or> m_typeIndices (bus w) topic = Some ty"
      using c False by (auto simp: CheckOrEstablishType_def split: option.splits)
    from sent [OF this _ b(1) q5 w6_def q] show thesis by (simp add: c b_def Let_def)
  qed
qed

text \<open>Subscribing to a topic of the right type: the new subscriber, and its cached value if there is one.\<close>

definition new_subscriber :: "('v \<Rightarrow> bool) option \<Rightarrow> nat option \<Rightarrow> QoS \<Rightarrow> 'v subscriber" where
  "new_subscriber predicate thread qos = \<lparr>s_thread = thread,
     s_limiter = map_option (\<lambda>d. RateLimiter (of_int (to_ms d))) (minSeparation qos), s_filter = predicate\<rparr>"

definition cached_value :: "time_point \<Rightarrow> string \<Rightarrow> QoS \<Rightarrow> 'v DataBus \<Rightarrow> 'v option" where
  "cached_value now topic qos b =
     (case m_lastValues b topic of
        None \<Rightarrow> None
      | Some (e, ts) \<Rightarrow>
          if lastValueCache qos \<and> (case lifespan qos of None \<Rightarrow> True | Some l \<Rightarrow> now - ts \<le> l) then Some (snd e) else None)"

lemma InternalLastValueCache_frame [simp]:
  "m_signals (InternalLastValueCache topic enabled b) = m_signals b"
  "m_typeIndices (InternalLastValueCache topic enabled b) = m_typeIndices b"
  "m_serializers (InternalLastValueCache topic enabled b) = m_serializers b"
  "m_stringifiers (InternalLastValueCache topic enabled b) = m_stringifiers b"
  "m_lastValues (InternalLastValueCache topic enabled b) = m_lastValues b"
  "typed (InternalLastValueCache topic enabled b) = typed b"
  by (simp_all add: InternalLastValueCache_def typed_def)

abbreviation last_value_bus :: "string \<Rightarrow> QoS \<Rightarrow> 'v world \<Rightarrow> 'v DataBus" where
  "last_value_bus topic qos w \<equiv> (if lastValueCache qos then InternalLastValueCache topic True (bus w) else bus w)"

abbreviation subscribed_bus :: "string \<Rightarrow> nat \<Rightarrow> QoS \<Rightarrow> 'v world \<Rightarrow> 'v DataBus" where
  "subscribed_bus topic ty qos w \<equiv>
     (let b1 = snd (CheckOrEstablishType topic ty (last_value_bus topic qos w))
      in b1\<lparr>m_signals := (m_signals b1)(topic \<mapsto> (ty, subs_of topic (bus w) @ [next_subscriber w]))\<rparr>)"

abbreviation subscribed_world ::
  "('v \<Rightarrow> bool) option \<Rightarrow> nat option \<Rightarrow> QoS \<Rightarrow> 'v DataBus \<Rightarrow> 'v world \<Rightarrow> 'v world" where
  "subscribed_world predicate thread qos b w \<equiv>
     w\<lparr>bus := b, subscribers := (subscribers w)(next_subscriber w := new_subscriber predicate thread qos),
       next_subscriber := Suc (next_subscriber w)\<rparr>"

lemma InternalSubscribe_cases:
  assumes "typed (bus w)"
  obtains (mismatch) ty' b where "m_typeIndices (bus w) topic = Some ty'" "ty' \<noteq> ty"
      "b = last_value_bus topic qos w"
      "quiet_step (w\<lparr>bus := b\<rparr>) (snd (InternalSubscribe now topic ty predicate thread qos w))"
      "fst (InternalSubscribe now topic ty predicate thread qos w) = None"
  | (connected) b w1 where "m_typeIndices (bus w) topic = None \<or> m_typeIndices (bus w) topic = Some ty"
      "b = subscribed_bus topic ty qos w"
      "typed b"
      "w1 = subscribed_world predicate thread qos b w"
      "snd (InternalSubscribe now topic ty predicate thread qos w)
       = (case cached_value now topic qos (bus w) of None \<Rightarrow> w1 | Some v \<Rightarrow> deliver now v (next_subscriber w) w1)"
      "fst (InternalSubscribe now topic ty predicate thread qos w) = Some (next_subscriber w)"
proof -
  define b0 where "b0 = last_value_bus topic qos w"
  have b0: "typed b0" "m_typeIndices b0 = m_typeIndices (bus w)" "m_signals b0 = m_signals (bus w)"
    "m_lastValues b0 = m_lastValues (bus w)"
    using assms by (simp_all add: b0_def)
  obtain bad b1 where c: "CheckOrEstablishType topic ty b0 = (bad, b1)" by (metis surj_pair)
  note c' = CheckOrEstablishType_typed [OF b0(1) c]
  have first: "(if lastValueCache qos then w\<lparr>bus := InternalLastValueCache topic True (bus w)\<rparr> else w) = w\<lparr>bus := b0\<rparr>"
    by (simp add: b0_def)
  show thesis
  proof (cases bad)
    case True
    with c b0 obtain ty' where ty': "m_typeIndices (bus w) topic = Some ty'" "ty' \<noteq> ty" "b1 = b0"
      by (auto simp: CheckOrEstablishType_def split: option.splits)
    have r: "InternalSubscribe now topic ty predicate thread qos w
        = (None, InternalReportLatchedError topic ERR_TYPE_MISMATCH (w\<lparr>bus := b0\<rparr>))"
      unfolding InternalSubscribe_def first GetOrCreateSignal_def by (simp add: c True ty'(3) Let_def)
    show thesis
      by (rule mismatch [OF ty'(1,2) b0_def]) (simp_all add: r quiet_report)
  next
    case False
    define b where "b = b1\<lparr>m_signals := (m_signals b1)(topic \<mapsto>
        (ty, (subs_of topic (bus w)) @ [next_subscriber w]))\<rparr>"
    define w1 where "w1 = subscribed_world predicate thread qos b w"
    have ty: "m_typeIndices b1 topic = Some ty" using c'(2) False by simp
    have tb: "typed b" using c'(1) ty by (simp add: b_def typed_def)
    have sig: "\<exists>subs w2. GetOrCreateSignal topic ty (w\<lparr>bus := b0\<rparr>) = (Some subs, w2)
        \<and> connect_subscriber topic (new_subscriber predicate thread qos) w2 = (next_subscriber w, w1)"
      using typed_cast(1) [OF c'(1) ty] c'(3) b0(3)
      by (cases "m_signals (bus w) topic")
        (auto simp: GetOrCreateSignal_def FindSignalLocked_def c False static_cast_ok connect_subscriber_def w1_def b_def Let_def)
    have lv: "lvc_delivery now topic ty qos w1 = (cached_value now topic qos (bus w), w1)"
      using typed_cast(4) [OF c'(1) ty] c'(5) b0(4)
      by (auto simp: lvc_delivery_def cached_value_def w1_def b_def static_cast_ok split: option.split)
    have r: "InternalSubscribe now topic ty predicate thread qos w
        = (Some (next_subscriber w), case cached_value now topic qos (bus w) of None \<Rightarrow> w1
             | Some v \<Rightarrow> deliver now v (next_subscriber w) w1)"
      using sig lv unfolding InternalSubscribe_def first new_subscriber_def by (auto simp: Let_def)
    have "m_typeIndices (bus w) topic = None \<or> m_typeIndices (bus w) topic = Some ty"
      using c False b0 by (auto simp: CheckOrEstablishType_def split: option.splits)
    moreover have "b = subscribed_bus topic ty qos w"
      by (simp add: b_def c flip: b0_def)
    ultimately show thesis
      using connected [OF _ _ tb w1_def] r by simp
  qed
qed

lemma InternalReset_typed: "typed (bus (InternalReset w)) \<and> bad_casts (InternalReset w) = bad_casts w"
  by (simp add: InternalReset_def typed_def Let_def)

lemma typed_disconnect: "typed (bus w) \<Longrightarrow> typed (bus (disconnect n w))"
  by (auto simp: disconnect_def typed_def pred_option_def elim!: option.set_cases split: prod.splits)

lemma run_thread_type_safe:
  assumes "type_safe w"
  shows "type_safe (run_thread env now t w)"
proof (cases "take_post t (posts w)")
  case (Some x)
  obtain m ms where x: "x = (m, ms)" by (cases x)
  have w1: "type_safe (w\<lparr>posts := ms\<rparr>)" using assms by (simp add: type_safe_def)
  then have "type_safe (send_posted env p i v (w\<lparr>posts := ms\<rparr>))" for p i v
    by (rule type_safe_quiet [OF quiet_send_posted])
  moreover have "type_safe (emit [Monitored n packet] (w\<lparr>posts := ms\<rparr>))" for n packet
    by (rule type_safe_quiet [OF quiet_emit w1]) simp
  ultimately show ?thesis using w1 by (cases m) (simp_all add: run_thread_def Some x type_safe_def)
qed (use assms in \<open>simp add: run_thread_def\<close>)

lemma subscribe_type_safe:
  assumes "type_safe w"
  shows "type_safe (snd (InternalSubscribe now topic ty predicate thread qos w))"
proof (rule InternalSubscribe_cases [where w = w and now = now and topic = topic and ty = ty and predicate = predicate
      and thread = thread and qos = qos])
  show "typed (bus w)" using assms by (simp add: type_safe_def)
next
  fix ty' b
  assume "b = last_value_bus topic qos w"
    and q: "quiet_step (w\<lparr>bus := b\<rparr>) (snd (InternalSubscribe now topic ty predicate thread qos w))"
  then have "type_safe (w\<lparr>bus := b\<rparr>)" using assms by (simp add: type_safe_def)
  with q show ?thesis by (rule type_safe_quiet)
qed (use assms in \<open>auto simp: type_safe_def split: option.split\<close>)

lemma publish_type_safe:
  assumes "type_safe w"
  shows "type_safe (snd (InternalPublish env now topic ty v localOnly w))"
proof (rule InternalPublish_cases [where w = w and env = env and now = now and topic = topic and ty = ty and v = v
      and localOnly = localOnly])
  show "typed (bus w)" using assms by (simp add: type_safe_def)
next
  fix b w1 w2
  assume "typed b" and q: "quiet_step (w\<lparr>bus := b\<rparr>) w1"
    and w2: "w2 = fold (deliver now v) (subs_of topic (bus w)) w1"
    and q2: "quiet_step w2 (snd (InternalPublish env now topic ty v localOnly w))"
  then have "type_safe (w\<lparr>bus := b\<rparr>)" using assms by (simp add: type_safe_def)
  with q have "type_safe w1" by (rule type_safe_quiet)
  then have "type_safe w2" by (simp add: type_safe_def w2)
  with q2 show ?thesis by (rule type_safe_quiet)
qed (use assms type_safe_quiet in auto)

lemma register_type_safe:
  assumes "type_safe w"
  shows "type_safe (InternalRegisterSerializer topic ty z w)" and "type_safe (InternalRegisterStringifier topic ty f w)"
proof -
  have t: "typed (bus w)" "bad_casts w = 0" using assms by (simp_all add: type_safe_def)
  obtain bad b1 where c: "CheckOrEstablishType topic ty (bus w) = (bad, b1)" by (metis surj_pair)
  note c' = CheckOrEstablishType_typed [OF t(1) c]
  have "type_safe (w\<lparr>bus := b1\<rparr>)" using c'(1) t by (simp add: type_safe_def)
  from type_safe_quiet [OF quiet_report this] c' t
  show "type_safe (InternalRegisterSerializer topic ty z w)" "type_safe (InternalRegisterStringifier topic ty f w)"
    by (cases bad; simp add: InternalRegisterSerializer_def InternalRegisterStringifier_def c type_safe_def typed_def)+
qed

lemma add_type_safe:
  assumes "type_safe w"
  shows "type_safe (InternalAddParticipant p w)"
proof -
  have t: "typed (bus w)" "bad_casts w = 0" using assms by (simp_all add: type_safe_def)
  have "type_safe (w\<lparr>bus := b, nodes := ns\<rparr>)" if "typed b" for b ns
    using that t by (simp add: type_safe_def)
  with assms show ?thesis
    using t(1) by (auto simp: InternalAddParticipant_def Let_def typed_def intro: type_safe_quiet [OF quiet_report])
qed

lemma bus_step_type_safe:
  assumes "type_safe w"
  shows "type_safe (bus_step env x w)"
proof -
  obtain now op where x: "x = (now, op)" by (cases x)
  have t: "typed (bus w)" "bad_casts w = 0" using assms by (simp_all add: type_safe_def)
  show ?thesis
  proof (cases op)
    case (Disconnect_op n)
    with t typed_disconnect show ?thesis by (simp add: x type_safe_def) (simp add: disconnect_def)
  next
    case (Remove_op p)
    with t show ?thesis
      by (auto simp: x type_safe_def InternalRemoveParticipant_def typed_def Let_def split: option.split)
  next
    case Reset_bus_op
    with t InternalReset_typed [of w] show ?thesis by (simp add: x type_safe_def)
  qed (use t assms subscribe_type_safe [OF assms] publish_type_safe [OF assms] register_type_safe [OF assms]
      add_type_safe [OF assms] run_thread_type_safe [OF assms] in
      \<open>simp_all add: x, auto simp: type_safe_def InternalEnableContinuousErrors_def Monitor_def SubscribeUnhandled_def
        SubscribeError_def typed_def\<close>)
qed

lemma bus_run_type_safe: "type_safe w \<Longrightarrow> type_safe (bus_run env ops w)"
  unfolding bus_run_def
  by (induction ops arbitrary: w) (simp_all add: bus_step_type_safe)

lemma fresh_world_type_safe: "type_safe (fresh_world ps l a)"
  by (simp add: type_safe_def typed_def fresh_world_def DataBus_def)

end
