(* ===== verification/BusLaws.thy ===== *)
theory BusLaws
  imports DataBus
begin

text \<open>
  What the data bus promises: what a subscriber gets, the last value for late subscribers,
  rate limits, type safety and the array of participants, each for any sequence of operations of \<open>DataBus\<close>
  from a fresh bus.
\<close>

section \<open>One subscriber\<close>

definition same_for :: "nat \<Rightarrow> 'v world \<Rightarrow> 'v world \<Rightarrow> bool" where
  "same_for n w w' \<longleftrightarrow> delivered n w' = delivered n w \<and> pending n w' = pending n w \<and> subscribers w' n = subscribers w n"

lemma same_for_refl: "same_for n w w"
  by (simp add: same_for_def)

lemma same_for_trans: "same_for n u v \<Longrightarrow> same_for n v w \<Longrightarrow> same_for n u w"
  by (simp add: same_for_def)

lemma same_for_quiet: "quiet_step w w' \<Longrightarrow> same_for n w w'"
  by (auto simp: quiet_step_def same_for_def)

lemma same_for_fields: "events w' = events w \<Longrightarrow> posts w' = posts w \<Longrightarrow> subscribers w' n = subscribers w n \<Longrightarrow> same_for n w w'"
  by (simp add: same_for_def delivered_def pending_def)

text \<open>What a call and a post add.\<close>

definition limiter_passes :: "time_point \<Rightarrow> 'v subscriber \<Rightarrow> bool" where
  "limiter_passes now s = (case s_limiter s of None \<Rightarrow> True | Some l \<Rightarrow> fst (RateLimiter_Invoke now l))"

definition accepts :: "('v \<Rightarrow> bool) option \<Rightarrow> 'v \<Rightarrow> bool" where
  "accepts predicate v = (case predicate of None \<Rightarrow> True | Some f \<Rightarrow> f v)"

lemma invoke_subscriber_effect:
  "delivered n (invoke_subscriber now k v w) = delivered n w
     @ (if k = n \<and> limiter_passes now (subscribers w n) \<and> accepts (s_filter (subscribers w n)) v then [(now, v)] else [])"
  "pending n (invoke_subscriber now k v w) = pending n w"
  "subscribers (invoke_subscriber now k v w) n
     = (if k = n then (subscribers w n)\<lparr>s_limiter := map_option (\<lambda>l. snd (RateLimiter_Invoke now l)) (s_limiter (subscribers w n))\<rparr>
        else subscribers w n)"
  by (auto simp: invoke_subscriber_def delivered_def pending_def emit_def limiter_passes_def accepts_def Filter_Invoke_def Let_def
      split: option.split prod.split)

lemma post_delivery_effect:
  "delivered n (post_to t (Post_delivery k v) w) = delivered n w"
  "pending n (post_to t (Post_delivery k v) w) = pending n w @ (if k = n then [(t, v)] else [])"
  "subscribers (post_to t (Post_delivery k v) w) n = subscribers w n"
  by (simp_all add: post_to_def delivered_def pending_def)

lemma deliver_other: "k \<noteq> n \<Longrightarrow> same_for n w (deliver now v k w)"
  by (simp add: same_for_def deliver_def invoke_subscriber_effect post_delivery_effect split: option.split)

lemma deliver_others: "n \<notin> set ks \<Longrightarrow> same_for n w (fold (deliver now v) ks w)"
proof (induction ks arbitrary: w)
  case (Cons k ks)
  then show ?case using same_for_trans [OF deliver_other [of k n w now v] Cons.IH] by simp
qed (simp add: same_for_refl)

text \<open>A subscriber that is once in a list is reached once.\<close>

lemma deliver_once:
  assumes "count_list ks n = 1"
  obtains w1 where "same_for n w w1" "same_for n (deliver now v n w1) (fold (deliver now v) ks w)"
proof -
  have "n \<in> set ks" using assms by (metis count_notin zero_neq_one)
  then obtain xs ys where ks: "ks = xs @ n # ys" "n \<notin> set xs" by (metis split_list_first)
  with assms have "count_list ys n = 0" by (simp add: count_notin)
  then have "n \<notin> set ys" by (simp add: count_list_0_iff)
  with ks that [of "fold (deliver now v) xs w"] show thesis by (simp add: deliver_others)
qed

lemma count_removeAll_other: "k \<noteq> n \<Longrightarrow> count_list (removeAll k xs) n = count_list xs n"
  by (induction xs) auto

text \<open>The oldest message of a thread.\<close>

lemma take_post_split:
  "take_post t ps = Some (m, ms) \<Longrightarrow> \<exists>xs ys. ps = xs @ (t, m) # ys \<and> ms = xs @ ys \<and> t \<notin> fst ` set xs"
proof (induction ps arbitrary: ms)
  case (Cons x ps)
  obtain u m' where x: "x = (u, m')" by (cases x)
  show ?case
  proof (cases "u = t")
    case True
    with Cons.prems x have "x # ps = [] @ (t, m) # ps \<and> ms = [] @ ps \<and> t \<notin> fst ` set []" by simp
    then show ?thesis by blast
  next
    case False
    with Cons.prems obtain ms' where ms': "take_post t ps = Some (m, ms')" "ms = x # ms'" by (auto simp: x)
    then obtain xs ys where "ps = xs @ (t, m) # ys" "ms' = xs @ ys" "t \<notin> fst ` set xs" using Cons.IH by blast
    with ms' False x have "x # ps = (x # xs) @ (t, m) # ys \<and> ms = (x # xs) @ ys \<and> t \<notin> fst ` set (x # xs)" by simp
    then show ?thesis by blast
  qed
qed simp

text \<open>Running a thread either is quiet or calls one subscriber with what waited longest.\<close>

lemma run_thread_cases:
  obtains (call) n v xs ys w1 where "pending n w = xs @ (t, v) # ys" "pending n w1 = xs @ ys" "t \<notin> fst ` set xs"
      "\<And>k. k \<noteq> n \<Longrightarrow> same_for k w w1" "delivered n w1 = delivered n w" "subscribers w1 = subscribers w"
      "bus w1 = bus w" "next_subscriber w1 = next_subscriber w" "run_thread env now t w = invoke_subscriber now n v w1"
  | (other) "quiet_step w (run_thread env now t w)"
proof (cases "take_post t (posts w)")
  case None
  then show thesis using other by (simp add: run_thread_def quiet_step_refl)
next
  case (Some x)
  obtain m ms where x: "x = (m, ms)" by (cases x)
  obtain xs ys where split: "posts w = xs @ (t, m) # ys" "ms = xs @ ys" "t \<notin> fst ` set xs"
    using take_post_split [OF Some [unfolded x]] by blast
  let ?w1 = "w\<lparr>posts := ms\<rparr>"
  have run: "run_thread env now t w = (case m of Post_delivery n v \<Rightarrow> invoke_subscriber now n v ?w1
      | Post_monitor n packet \<Rightarrow> emit [Monitored n packet] ?w1 | Post_send p i v \<Rightarrow> send_posted env p i v ?w1)"
    by (simp add: run_thread_def Some x Let_def)
  show thesis
  proof (cases m)
    case (Post_delivery n v)
    let ?pend = "\<lambda>ps. concat (map (\<lambda>(t, m). case m of Post_delivery k v \<Rightarrow> if k = n then [(t, v)] else [] | _ \<Rightarrow> []) ps)"
    have away: "t \<notin> fst ` set (?pend xs)"
      using split(3) by (force split: post.splits if_splits)
    show thesis
      by (rule call [of n "?pend xs" v "?pend ys" ?w1])
        (use away in \<open>simp_all add: pending_def split Post_delivery same_for_def delivered_def run\<close>)
  next
    case (Post_monitor n packet)
    have "quiet_step w ?w1"
      by (auto simp: quiet_step_def delivered_def pending_def split Post_monitor intro: exI [of _ "b_reportedErrors (bus w)"])
    from quiet_step_trans [OF this quiet_emit] show thesis
      by (intro other) (simp add: run Post_monitor)
  next
    case (Post_send p i v)
    have "quiet_step w ?w1"
      by (auto simp: quiet_step_def delivered_def pending_def split Post_send intro: exI [of _ "b_reportedErrors (bus w)"])
    from quiet_step_trans [OF this quiet_send_posted] show thesis
      by (intro other) (simp add: run Post_send)
  qed
qed

text \<open>Steps that leave subscriptions alone.\<close>

definition calm :: "'v world \<Rightarrow> 'v world \<Rightarrow> bool" where
  "calm w w' \<longleftrightarrow> m_signals (bus w') = m_signals (bus w) \<and> subscribers w' = subscribers w
     \<and> next_subscriber w' = next_subscriber w \<and> (\<forall>n. delivered n w' = delivered n w \<and> pending n w' = pending n w)"

lemma calm_quiet: "quiet_step w w' \<Longrightarrow> calm w w'"
  by (auto simp: quiet_step_def calm_def)

lemma calm_trans: "calm u v \<Longrightarrow> calm v w \<Longrightarrow> calm u w"
  by (simp add: calm_def)

lemma calm_fields:
  "m_signals (bus w') = m_signals (bus w) \<Longrightarrow> subscribers w' = subscribers w \<Longrightarrow> next_subscriber w' = next_subscriber w
   \<Longrightarrow> events w' = events w \<Longrightarrow> posts w' = posts w \<Longrightarrow> calm w w'"
  by (simp add: calm_def delivered_def pending_def)

lemma calm_same: "calm w w' \<Longrightarrow> same_for n w w'"
  by (simp add: calm_def same_for_def)

lemma CheckOrEstablishType_signals: "m_signals (snd (CheckOrEstablishType topic ty b)) = m_signals b"
  by (simp add: CheckOrEstablishType_def split: option.split)

lemma StoreLvcEntryLocked_signals [simp]: "m_signals (StoreLvcEntryLocked topic e ts b) = m_signals b"
  by (simp add: StoreLvcEntryLocked_def)

lemma calm_report: "m_signals b = m_signals (bus w) \<Longrightarrow> calm w (InternalReportLatchedError topic e (w\<lparr>bus := b\<rparr>))"
  by (rule calm_trans [OF calm_fields calm_quiet [OF quiet_report]]) simp_all

definition subscription_op :: "'v bus_op \<Rightarrow> bool" where
  "subscription_op op = (case op of Subscribe_op _ _ _ _ _ \<Rightarrow> True | Publish_op _ _ _ _ \<Rightarrow> True | Run_op _ \<Rightarrow> True
     | Disconnect_op _ \<Rightarrow> True | Reset_bus_op \<Rightarrow> True | _ \<Rightarrow> False)"

lemma bus_step_calm:
  assumes "\<not> subscription_op op"
  shows "calm w (bus_step env (now, op) w)"
proof (cases op)
  case (Add_op p)
  then show ?thesis
    by (cases "MAX_PARTICIPANTS \<le> m_participantCount (bus w)")
      (simp_all add: InternalAddParticipant_def Let_def calm_quiet quiet_report calm_fields)
next
  case (Serializer_op topic ty z)
  obtain bad b1 where c: "CheckOrEstablishType topic ty (bus w) = (bad, b1)" by (metis surj_pair)
  have "m_signals b1 = m_signals (bus w)" using CheckOrEstablishType_signals [of topic ty "bus w"] c by simp
  then show ?thesis
    by (cases bad) (simp_all add: Serializer_op InternalRegisterSerializer_def c calm_report calm_fields)
next
  case (Stringifier_op topic ty f)
  obtain bad b1 where c: "CheckOrEstablishType topic ty (bus w) = (bad, b1)" by (metis surj_pair)
  have "m_signals b1 = m_signals (bus w)" using CheckOrEstablishType_signals [of topic ty "bus w"] c by simp
  then show ?thesis
    by (cases bad) (simp_all add: Stringifier_op InternalRegisterStringifier_def c calm_report calm_fields)
qed (use assms in \<open>simp_all add: subscription_op_def InternalEnableContinuousErrors_def Monitor_def SubscribeUnhandled_def
    SubscribeError_def InternalRemoveParticipant_def Let_def calm_fields split: option.split\<close>)

section \<open>Connections have numbers\<close>

definition numbered :: "'v world \<Rightarrow> bool" where
  "numbered w \<longleftrightarrow> (\<forall>topic sig k. m_signals (bus w) topic = Some sig \<longrightarrow> k \<in> set (snd sig) \<longrightarrow> k < next_subscriber w)
     \<and> (\<forall>k \<ge> next_subscriber w. delivered k w = [] \<and> pending k w = [])"

lemma numbered_sub: "numbered w \<Longrightarrow> m_signals (bus w) topic = Some sig \<Longrightarrow> k \<in> set (snd sig) \<Longrightarrow> k < next_subscriber w"
  by (simp add: numbered_def del: split_paired_All)

lemma numbered_calm: "calm w w' \<Longrightarrow> numbered w \<Longrightarrow> numbered w'"
  by (simp add: calm_def numbered_def)

lemma numbered_quiet: "quiet_step w w' \<Longrightarrow> numbered w \<Longrightarrow> numbered w'"
  by (rule numbered_calm [OF calm_quiet])

lemma numbered_deliver:
  assumes "numbered w" and "k < next_subscriber w"
  shows "numbered (deliver now v k w)"
proof -
  have "same_for n w (deliver now v k w)" if "n \<ge> next_subscriber w" for n
    by (rule deliver_other) (use that assms(2) in simp)
  with assms(1) show ?thesis by (simp add: numbered_def same_for_def)
qed

lemma numbered_deliver_all:
  "numbered w \<Longrightarrow> \<forall>k \<in> set ks. k < next_subscriber w \<Longrightarrow> numbered (fold (deliver now v) ks w)"
  by (induction ks arbitrary: w) (simp_all add: numbered_deliver)

lemma numbered_fields:
  assumes "numbered w" and "\<And>topic. m_signals (bus w') topic = m_signals (bus w) topic \<or> m_signals (bus w') topic = None"
    and "next_subscriber w' = next_subscriber w" "events w' = events w" "posts w' = posts w"
  shows "numbered w'"
  unfolding numbered_def
proof (intro conjI allI impI)
  fix topic sig k
  assume "m_signals (bus w') topic = Some sig" "k \<in> set (snd sig)"
  with assms(2) [of topic] numbered_sub [OF assms(1), of topic sig k] assms(3) show "k < next_subscriber w'" by simp
qed (use assms in \<open>simp_all add: numbered_def delivered_def pending_def\<close>)

lemma run_thread_numbered:
  assumes "numbered w"
  shows "numbered (run_thread env now t w)"
proof (rule run_thread_cases [where env = env and now = now and t = t and w = w])
  fix n v xs ys w1
  assume c: "pending n w = xs @ (t, v) # ys" "pending n w1 = xs @ ys" "\<And>k. k \<noteq> n \<Longrightarrow> same_for k w w1"
    "delivered n w1 = delivered n w" "bus w1 = bus w" "next_subscriber w1 = next_subscriber w"
    "run_thread env now t w = invoke_subscriber now n v w1"
  from c(1) assms have n: "n < next_subscriber w" by (auto simp: numbered_def not_less [symmetric])
  with c(3) assms have "delivered k w1 = [] \<and> pending k w1 = []" if "k \<ge> next_subscriber w" for k
    using that by (auto simp: numbered_def same_for_def)
  with n c assms show ?thesis by (auto simp: numbered_def invoke_subscriber_effect)
qed (use assms numbered_quiet in auto)

lemma numbered_subscribe:
  assumes t: "typed (bus w)" and num: "numbered w"
  shows "numbered (snd (InternalSubscribe now topic ty predicate thread qos w))"
proof (rule InternalSubscribe_cases [OF t, where now = now and topic = topic and ty = ty and predicate = predicate
      and thread = thread and qos = qos])
  fix ty' b
  assume b: "b = last_value_bus topic qos w"
    and q: "quiet_step (w\<lparr>bus := b\<rparr>) (snd (InternalSubscribe now topic ty predicate thread qos w))"
  have "numbered (w\<lparr>bus := b\<rparr>)" by (rule numbered_fields [OF num]) (simp_all add: b)
  with q show ?thesis by (rule numbered_quiet)
next
  fix b w1
  assume b: "b = subscribed_bus topic ty qos w"
    and w1: "w1 = subscribed_world predicate thread qos b w"
    and r: "snd (InternalSubscribe now topic ty predicate thread qos w)
       = (case cached_value now topic qos (bus w) of None \<Rightarrow> w1 | Some v \<Rightarrow> deliver now v (next_subscriber w) w1)"
  have "m_signals b = (m_signals (bus w))(topic \<mapsto> (ty, subs_of topic (bus w) @ [next_subscriber w]))"
    by (simp add: b Let_def CheckOrEstablishType_signals)
  with num have "numbered w1"
    by (auto simp: w1 numbered_def delivered_def pending_def less_Suc_eq split: if_splits option.splits)
  then show ?thesis by (auto simp: r w1 intro: numbered_deliver split: option.split)
qed

lemma numbered_publish:
  assumes t: "typed (bus w)" and num: "numbered w"
  shows "numbered (snd (InternalPublish env now topic ty v localOnly w))"
proof (rule InternalPublish_cases [OF t, where env = env and now = now and topic = topic and ty = ty and v = v
      and localOnly = localOnly])
  fix b w1 w2
  assume b: "b = published_bus now topic ty v w" and q: "quiet_step (w\<lparr>bus := b\<rparr>) w1"
    and w2: "w2 = fold (deliver now v) (subs_of topic (bus w)) w1"
    and q2: "quiet_step w2 (snd (InternalPublish env now topic ty v localOnly w))"
  have "numbered (w\<lparr>bus := b\<rparr>)"
    by (rule numbered_fields [OF num]) (simp_all add: b Let_def CheckOrEstablishType_signals)
  with q have n1: "numbered w1" by (rule numbered_quiet)
  have "next_subscriber w1 = next_subscriber w" using q by (auto simp: quiet_step_def)
  with num have "numbered w2"
    unfolding w2 by (cases "m_signals (bus w) topic") (auto simp: n1 intro!: numbered_deliver_all dest: numbered_sub)
  with q2 show ?thesis by (rule numbered_quiet)
qed (use num numbered_quiet in auto)

lemma bus_step_numbered:
  assumes "type_safe w" and num: "numbered w"
  shows "numbered (bus_step env x w)"
proof -
  obtain now op where x: "x = (now, op)" by (cases x)
  have t: "typed (bus w)" using assms(1) by (simp add: type_safe_def)
  show ?thesis
  proof (cases op)
    case (Disconnect_op n)
    with num show ?thesis
      by (auto simp: x disconnect_def numbered_def delivered_def pending_def)
  next
    case Reset_bus_op
    show ?thesis
      by (rule numbered_fields [OF num]) (simp_all add: x Reset_bus_op InternalReset_def Let_def)
  next
    case (Run_op t)
    with num run_thread_numbered show ?thesis by (simp add: x)
  qed (use numbered_subscribe [OF t num] numbered_publish [OF t num] in
      \<open>auto simp: x subscription_op_def simp del: bus_step.simps(4-) intro!: numbered_calm [OF bus_step_calm num]\<close>)
qed

lemma bus_run_good:
  "type_safe w \<Longrightarrow> numbered w \<Longrightarrow> type_safe (bus_run env ops w) \<and> numbered (bus_run env ops w)"
  unfolding bus_run_def
  by (induction ops arbitrary: w) (simp_all add: bus_step_type_safe bus_step_numbered)

lemma fresh_world_numbered: "numbered (fresh_world ps l a)"
  by (simp add: numbered_def fresh_world_def DataBus_def delivered_def pending_def)

lemma bus_run_fresh: "type_safe (bus_run env ops (fresh_world ps l a)) \<and> numbered (bus_run env ops (fresh_world ps l a))"
  by (rule bus_run_good [OF fresh_world_type_safe fresh_world_numbered])

section \<open>What a connected subscriber gets\<close>

text \<open>A connected subscriber without a rate limit, and what has reached it: what it was given and what
  waits on its thread, both as far as its filter accepts.\<close>

definition attached :: "nat \<Rightarrow> string \<Rightarrow> nat \<Rightarrow> ('v \<Rightarrow> bool) option \<Rightarrow> nat option \<Rightarrow> 'v world \<Rightarrow> bool" where
  "attached n topic ty predicate thread w \<longleftrightarrow>
     pred_option (\<lambda>sig. fst sig = ty \<and> count_list (snd sig) n = 1) (m_signals (bus w) topic) \<and> m_signals (bus w) topic \<noteq> None
     \<and> (\<forall>topic'. topic' \<noteq> topic \<longrightarrow> pred_option (\<lambda>sig. n \<notin> set (snd sig)) (m_signals (bus w) topic'))
     \<and> subscribers w n = \<lparr>s_thread = thread, s_limiter = None, s_filter = predicate\<rparr>
     \<and> (\<forall>x \<in> set (pending n w). thread = Some (fst x)) \<and> n < next_subscriber w"

definition reached :: "('v \<Rightarrow> bool) option \<Rightarrow> nat \<Rightarrow> 'v world \<Rightarrow> 'v list" where
  "reached predicate n w = map snd (delivered n w) @ filter (accepts predicate) (map snd (pending n w))"

definition published_on :: "string \<Rightarrow> nat \<Rightarrow> 'v bus_op \<Rightarrow> 'v list" where
  "published_on topic ty op = (case op of Publish_op topic' ty' v l \<Rightarrow> if topic' = topic \<and> ty' = ty then [v] else [] | _ \<Rightarrow> [])"

definition keeps_connected :: "nat \<Rightarrow> 'v bus_op \<Rightarrow> bool" where
  "keeps_connected n op \<longleftrightarrow> op \<noteq> Reset_bus_op \<and> op \<noteq> Disconnect_op n"

lemma reached_same: "same_for n w w' \<Longrightarrow> reached predicate n w' = reached predicate n w"
  by (simp add: reached_def same_for_def)

lemma attached_same:
  assumes "attached n topic ty predicate thread w" and "same_for n w w'"
    and "m_signals (bus w') = m_signals (bus w)" "next_subscriber w' = next_subscriber w"
  shows "attached n topic ty predicate thread w'"
  using assms by (simp add: attached_def same_for_def)

lemma attached_quiet:
  assumes "attached n topic ty predicate thread w" and "quiet_step w w'"
  shows "attached n topic ty predicate thread w' \<and> reached predicate n w' = reached predicate n w"
proof -
  have s: "same_for n w w'" by (rule same_for_quiet [OF assms(2)])
  have "attached n topic ty predicate thread w'"
    by (rule attached_same [OF assms(1) s]) (use assms(2) in \<open>auto simp: quiet_step_def\<close>)
  with reached_same [OF s] show ?thesis by simp
qed

lemma attached_deliver:
  assumes "attached n topic ty predicate thread w"
  shows "attached n topic ty predicate thread (deliver now v n w)
    \<and> reached predicate n (deliver now v n w) = reached predicate n w @ filter (accepts predicate) [v]"
proof -
  have s: "subscribers w n = \<lparr>s_thread = thread, s_limiter = None, s_filter = predicate\<rparr>"
    using assms by (simp add: attached_def)
  show ?thesis
  proof (cases thread)
    case None
    with assms have "pending n w = []" by (cases "pending n w") (auto simp: attached_def)
    with assms s None show ?thesis
      by (simp add: attached_def reached_def deliver_def invoke_subscriber_effect limiter_passes_def)
  next
    case (Some t)
    have "bus (post_to t m w) = bus w" "next_subscriber (post_to t m w) = next_subscriber w" for m
      by (simp_all add: post_to_def)
    with assms s Some show ?thesis
      by (auto simp: attached_def reached_def deliver_def post_delivery_effect)
  qed
qed

lemma attached_deliver_all:
  assumes at: "attached n topic ty predicate thread w" and "count_list ks n = 1"
  shows "attached n topic ty predicate thread (fold (deliver now v) ks w)
    \<and> reached predicate n (fold (deliver now v) ks w) = reached predicate n w @ filter (accepts predicate) [v]"
proof -
  have "n \<in> set ks" using assms(2) by (metis count_notin zero_neq_one)
  then obtain xs ys where ks: "ks = xs @ n # ys" "n \<notin> set xs" by (metis split_list_first)
  with assms(2) have ys: "n \<notin> set ys" by (simp add: count_notin count_list_0_iff)
  let ?w1 = "fold (deliver now v) xs w"
  let ?w2 = "deliver now v n ?w1"
  have s1: "same_for n w ?w1" by (rule deliver_others [OF ks(2)])
  have a1: "attached n topic ty predicate thread ?w1" by (rule attached_same [OF at s1]) simp_all
  note a2 = attached_deliver [OF a1, of now v]
  have s3: "same_for n ?w2 (fold (deliver now v) ys ?w2)" by (rule deliver_others [OF ys])
  have "attached n topic ty predicate thread (fold (deliver now v) ys ?w2)"
    by (rule attached_same [OF a2 [THEN conjunct1] s3]) simp_all
  then show ?thesis using a2 reached_same [OF s3] reached_same [OF s1] by (simp add: ks(1))
qed

lemma run_thread_attached:
  assumes at: "attached n topic ty predicate thread w"
  shows "attached n topic ty predicate thread (run_thread env now t w)
    \<and> reached predicate n (run_thread env now t w) = reached predicate n w"
proof (rule run_thread_cases [where env = env and now = now and t = t and w = w])
  fix k v xs ys w1
  assume c: "pending k w = xs @ (t, v) # ys" "pending k w1 = xs @ ys" "t \<notin> fst ` set xs"
    "\<And>j. j \<noteq> k \<Longrightarrow> same_for j w w1" "delivered k w1 = delivered k w" "subscribers w1 = subscribers w"
    "bus w1 = bus w" "next_subscriber w1 = next_subscriber w" "run_thread env now t w = invoke_subscriber now k v w1"
  show ?thesis
  proof (cases "k = n")
    case True
    then have "thread = Some t" "\<forall>x \<in> set xs. thread = Some (fst x)" using at c(1) by (auto simp: attached_def)
    with c(3) have xs: "xs = []" by (cases xs) auto
    have s: "subscribers w n = \<lparr>s_thread = thread, s_limiter = None, s_filter = predicate\<rparr>"
      using at by (simp add: attached_def)
    have "attached n topic ty predicate thread (invoke_subscriber now n v w1)"
      using at c True \<open>thread = Some t\<close> by (auto simp: attached_def invoke_subscriber_effect)
    moreover have "reached predicate n (invoke_subscriber now n v w1) = reached predicate n w"
      using c True s by (simp add: reached_def invoke_subscriber_effect xs limiter_passes_def)
    ultimately show ?thesis using c(9) True by simp
  next
    case False
    then have "same_for n w1 (invoke_subscriber now k v w1)" by (simp add: same_for_def invoke_subscriber_effect)
    with c(4) [of n] False have s: "same_for n w (run_thread env now t w)"
      unfolding c(9) using same_for_trans by blast
    have "attached n topic ty predicate thread (run_thread env now t w)"
      by (rule attached_same [OF at s]) (simp_all add: c(7,8,9))
    with reached_same [OF s] show ?thesis by simp
  qed
next
  assume "quiet_step w (run_thread env now t w)"
  with attached_quiet [OF at] show ?thesis by blast
qed

lemma attached_world:
  assumes "attached n topic ty predicate thread w" and "m_signals (bus w') = m_signals (bus w)"
    and "subscribers w' = subscribers w" "next_subscriber w' = next_subscriber w" "events w' = events w" "posts w' = posts w"
  shows "attached n topic ty predicate thread w' \<and> reached predicate n w' = reached predicate n w"
proof -
  have s: "same_for n w w'" by (rule same_for_fields) (use assms in simp_all)
  from attached_same [OF assms(1) s assms(2,4)] reached_same [OF s] show ?thesis by simp
qed

text \<open>What is kept of a subscriber by an operation: it stays attached, and it is reached by nothing but \<open>vs\<close>.\<close>

definition keeps_attached ::
  "nat \<Rightarrow> string \<Rightarrow> nat \<Rightarrow> ('v \<Rightarrow> bool) option \<Rightarrow> nat option \<Rightarrow> 'v list \<Rightarrow> 'v world \<Rightarrow> 'v world \<Rightarrow> bool" where
  "keeps_attached n topic ty predicate thread vs w w' \<longleftrightarrow> attached n topic ty predicate thread w'
     \<and> reached predicate n w' = reached predicate n w @ filter (accepts predicate) vs"

lemma keeps_same:
  assumes "attached n topic ty predicate thread w" and "same_for n w w'" and "m_signals (bus w') = m_signals (bus w)"
    and "next_subscriber w' = next_subscriber w"
  shows "keeps_attached n topic ty predicate thread [] w w'"
  using attached_same [OF assms] reached_same [OF assms(2)] by (simp add: keeps_attached_def)

lemma keeps_quiet:
  assumes "keeps_attached n topic ty predicate thread vs w w1" and "quiet_step w1 w2"
  shows "keeps_attached n topic ty predicate thread vs w w2"
  using assms attached_quiet [of n topic ty predicate thread w1 w2] by (simp add: keeps_attached_def)

lemma keeps_bus:
  assumes "attached n topic ty predicate thread w" and "m_signals b = m_signals (bus w)"
  shows "keeps_attached n topic ty predicate thread [] w (w\<lparr>bus := b\<rparr>)"
  using attached_world [OF assms(1), of "w\<lparr>bus := b\<rparr>"] assms(2) by (simp add: keeps_attached_def)

lemma attached_subscribe:
  assumes at: "attached n topic ty predicate thread w" and t: "typed (bus w)"
  shows "keeps_attached n topic ty predicate thread [] w (snd (InternalSubscribe now topic' ty1 predicate' thread' qos w))"
proof (rule InternalSubscribe_cases [OF t, where now = now and topic = topic' and ty = ty1 and predicate = predicate'
      and thread = thread' and qos = qos])
  fix ty' b
  assume b: "b = last_value_bus topic' qos w"
    and q: "quiet_step (w\<lparr>bus := b\<rparr>) (snd (InternalSubscribe now topic' ty1 predicate' thread' qos w))"
  show ?thesis by (rule keeps_quiet [OF keeps_bus [OF at] q]) (simp add: b)
next
  fix b w1
  assume b: "b = subscribed_bus topic' ty1 qos w"
    and tb: "m_typeIndices (bus w) topic' = None \<or> m_typeIndices (bus w) topic' = Some ty1"
    and w1: "w1 = subscribed_world predicate' thread' qos b w"
    and r: "snd (InternalSubscribe now topic' ty1 predicate' thread' qos w)
       = (case cached_value now topic' qos (bus w) of None \<Rightarrow> w1 | Some v \<Rightarrow> deliver now v (next_subscriber w) w1)"
  from at obtain subs where sig: "m_signals (bus w) topic = Some (ty, subs)" by (auto simp: attached_def)
  with t have ty: "m_typeIndices (bus w) topic = Some ty" by (fastforce simp: typed_def dest: spec [of _ topic])
  have n: "n \<noteq> next_subscriber w" "n < next_subscriber w" using at by (auto simp: attached_def)
  have sigs: "m_signals b = (m_signals (bus w))(topic' \<mapsto> (ty1, subs_of topic' (bus w) @ [next_subscriber w]))"
    by (simp add: b Let_def CheckOrEstablishType_signals)
  have s: "same_for n w w1" by (simp add: same_for_def w1 delivered_def pending_def n)
  have a1: "attached n topic ty predicate thread w1"
    using at n sig ty tb by (cases "m_signals (bus w) topic'") (auto simp: attached_def w1 sigs pending_def)
  then have k1: "keeps_attached n topic ty predicate thread [] w w1"
    using reached_same [OF s] by (simp add: keeps_attached_def)
  have "keeps_attached n topic ty predicate thread [] w1 (deliver now v (next_subscriber w) w1)" for v
    by (rule keeps_same [OF a1 deliver_other]) (use n in simp_all)
  with k1 show ?thesis by (auto simp: r keeps_attached_def split: option.split)
qed

lemma attached_publish:
  assumes at: "attached n topic ty predicate thread w" and t: "typed (bus w)"
  shows "keeps_attached n topic ty predicate thread (if topic' = topic \<and> ty' = ty then [v] else []) w
    (snd (InternalPublish env now topic' ty' v localOnly w))"
proof (rule InternalPublish_cases [OF t, where env = env and now = now and topic = topic' and ty = ty' and v = v
      and localOnly = localOnly])
  from at obtain subs where sig: "m_signals (bus w) topic = Some (ty, subs)" "count_list subs n = 1"
    by (auto simp: attached_def)
  with t have ty: "m_typeIndices (bus w) topic = Some ty" by (fastforce simp: typed_def dest: spec [of _ topic])
  {
    fix ty2
    assume "m_typeIndices (bus w) topic' = Some ty2" "ty2 \<noteq> ty'"
      "quiet_step w (snd (InternalPublish env now topic' ty' v localOnly w))"
    with attached_quiet [OF at] ty show ?thesis by (auto simp: keeps_attached_def)
  next
    fix b w1 w2
    assume tys: "m_typeIndices (bus w) topic' = None \<or> m_typeIndices (bus w) topic' = Some ty'"
      and b: "b = published_bus now topic' ty' v w" and q: "quiet_step (w\<lparr>bus := b\<rparr>) w1"
      and w2: "w2 = fold (deliver now v) (subs_of topic' (bus w)) w1"
      and q2: "quiet_step w2 (snd (InternalPublish env now topic' ty' v localOnly w))"
    have "m_signals b = m_signals (bus w)" by (simp add: b Let_def CheckOrEstablishType_signals)
    from keeps_quiet [OF keeps_bus [OF at this] q] have a1: "attached n topic ty predicate thread w1"
      "reached predicate n w1 = reached predicate n w"
      by (simp_all add: keeps_attached_def)
    have "keeps_attached n topic ty predicate thread (if topic' = topic \<and> ty' = ty then [v] else []) w w2"
    proof (cases "topic' = topic")
      case True
      with attached_deliver_all [OF a1(1) sig(2), of now v] a1(2) sig(1) ty tys
      show ?thesis by (simp add: w2 keeps_attached_def)
    next
      case False
      then have "n \<notin> set (subs_of topic' (bus w))"
        using at by (cases "m_signals (bus w) topic'") (auto simp: attached_def)
      then have "same_for n w1 w2" unfolding w2 by (rule deliver_others)
      from keeps_same [OF a1(1) this] a1(2) False show ?thesis by (simp add: keeps_attached_def w2)
    qed
    then show ?thesis using q2 by (rule keeps_quiet)
  }
qed

lemma attached_disconnect:
  assumes at: "attached n topic ty predicate thread w" and k: "k \<noteq> n"
  shows "keeps_attached n topic ty predicate thread [] w (disconnect k w)"
proof -
  have same: "same_for n w (disconnect k w)" by (rule same_for_fields) (simp_all add: disconnect_def)
  have "pred_option (\<lambda>sig. P (snd sig)) (map_option (\<lambda>(tag, subs). (tag, removeAll k subs)) x)"
    if "pred_option (\<lambda>sig. P (snd sig)) x" "\<And>subs. P subs \<Longrightarrow> P (removeAll k subs)"
    for P and x :: "nat list erased option"
    using that by (cases x) auto
  note gone = this [where P = "\<lambda>subs. n \<notin> set subs"]
  from at obtain subs where "m_signals (bus w) topic = Some (ty, subs)" "count_list subs n = 1"
    by (auto simp: attached_def)
  then have "attached n topic ty predicate thread (disconnect k w)"
    using at k gone same
    by (simp add: attached_def same_for_def) (simp add: disconnect_def count_removeAll_other)
  with reached_same [OF same] show ?thesis by (simp add: keeps_attached_def)
qed

lemma bus_step_attached:
  assumes at: "attached n topic ty predicate thread w" and safe: "type_safe w" and keep: "keeps_connected n op"
  shows "attached n topic ty predicate thread (bus_step env (now, op) w)
    \<and> reached predicate n (bus_step env (now, op) w)
      = reached predicate n w @ filter (accepts predicate) (published_on topic ty op)"
proof -
  have t: "typed (bus w)" using safe by (simp add: type_safe_def)
  have calm: "keeps_attached n topic ty predicate thread [] w (bus_step env (now, op) w)" if "\<not> subscription_op op"
    using keeps_same [OF at calm_same [OF bus_step_calm [OF that]]] bus_step_calm [OF that, of w env now]
    by (simp add: calm_def)
  have "keeps_attached n topic ty predicate thread (published_on topic ty op) w (bus_step env (now, op) w)"
  proof (cases op)
    case (Run_op t)
    with run_thread_attached [OF at] show ?thesis by (simp add: published_on_def keeps_attached_def)
  qed (use calm attached_subscribe [OF at t] attached_publish [OF at t] attached_disconnect [OF at] keep in
      \<open>simp_all add: published_on_def subscription_op_def keeps_connected_def del: bus_step.simps(4-)\<close>)
  then show ?thesis by (simp add: keeps_attached_def)
qed

lemma subscribe_start:
  assumes good: "type_safe w" "numbered w"
    and "InternalSubscribe now topic ty predicate thread qos w = (Some n, w1)" and "minSeparation qos = None"
  shows "attached n topic ty predicate thread w1 \<and> type_safe w1 \<and> reached predicate n w1
      = filter (accepts predicate) (case cached_value now topic qos (bus w) of None \<Rightarrow> [] | Some v \<Rightarrow> [v])"
proof (rule InternalSubscribe_cases [where w = w and now = now and topic = topic and ty = ty and predicate = predicate
      and thread = thread and qos = qos])
  show "typed (bus w)" using good by (simp add: type_safe_def)
next
  fix b u
  assume tys: "m_typeIndices (bus w) topic = None \<or> m_typeIndices (bus w) topic = Some ty"
    and b: "b = subscribed_bus topic ty qos w"
    and tb: "typed b"
    and u: "u = subscribed_world predicate thread qos b w"
    and r: "snd (InternalSubscribe now topic ty predicate thread qos w)
       = (case cached_value now topic qos (bus w) of None \<Rightarrow> u | Some v \<Rightarrow> deliver now v (next_subscriber w) u)"
    and n: "fst (InternalSubscribe now topic ty predicate thread qos w) = Some (next_subscriber w)"
  have n': "n = next_subscriber w" using n assms(3) by simp
  have fresh: "n \<notin> set (subs_of topic' (bus w))" for topic'
    using numbered_sub [OF good(2), of topic' _ n] n' by (cases "m_signals (bus w) topic'") auto
  have sigs: "m_signals b = (m_signals (bus w))(topic \<mapsto>
      (ty, (subs_of topic (bus w)) @ [n]))"
    by (simp add: b Let_def CheckOrEstablishType_signals n')
  have others: "pred_option (\<lambda>sig. n \<notin> set (snd sig)) (m_signals (bus w) topic')" for topic'
    using fresh [of topic'] by (cases "m_signals (bus w) topic'") auto
  have none: "delivered n u = [] \<and> pending n u = []"
    using good(2) n' by (simp add: numbered_def u delivered_def pending_def)
  have at: "attached n topic ty predicate thread u"
    using fresh [of topic] others none assms(4)
    by (simp add: attached_def u sigs n' new_subscriber_def count_list_0_iff)
  have "type_safe u" using tb good(1) by (simp add: type_safe_def u)
  with at none attached_deliver [OF at, of now] r n' assms(3) show ?thesis
    by (auto simp: reached_def type_safe_def split: option.splits)
qed (use assms(3) in simp)


text \<open>
  C29: the bus never casts an erased pointer to a type it was not made from, after any sequence of
  operations, with publishers and subscribers of any types: signals, serializers, stringifiers and cached values of a
  topic are all of the type the topic has.
\<close>

theorem bus_type_safe: "bad_casts (bus_run env ops (fresh_world ps l a)) = 0"
  by (simp add: bus_run_fresh [unfolded type_safe_def])

section \<open>The last value\<close>

definition keeps_cache :: "string \<Rightarrow> 'v bus_op \<Rightarrow> bool" where
  "keeps_cache topic op \<longleftrightarrow> op \<noteq> Reset_bus_op \<and> op \<noteq> Cache_op topic False"

definition caching :: "string \<Rightarrow> nat \<Rightarrow> 'v DataBus \<Rightarrow> bool" where
  "caching topic ty b \<longleftrightarrow> IsLvcEnabledLocked topic b \<and> m_typeIndices b topic = Some ty"

definition same_cache :: "string \<Rightarrow> 'v DataBus \<Rightarrow> 'v DataBus \<Rightarrow> bool" where
  "same_cache topic b b' \<longleftrightarrow> m_lastValues b' topic = m_lastValues b topic
     \<and> (\<forall>ty. caching topic ty b \<longrightarrow> caching topic ty b')"

lemma same_cache_refl: "same_cache topic b b"
  by (simp add: same_cache_def)

lemma same_cache_trans: "same_cache topic a b \<Longrightarrow> same_cache topic b c \<Longrightarrow> same_cache topic a c"
  by (simp add: same_cache_def)

lemma same_cache_fields:
  "m_lastValues b' = m_lastValues b \<Longrightarrow> m_topicQos b' = m_topicQos b \<Longrightarrow> m_typeIndices b' = m_typeIndices b
   \<Longrightarrow> same_cache topic b b'"
  by (simp add: same_cache_def caching_def IsLvcEnabledLocked_def)

lemma same_cache_quiet: "quiet_step w w' \<Longrightarrow> same_cache topic (bus w) (bus w')"
  by (auto simp: quiet_step_def intro: same_cache_fields)

lemma same_cache_type: "same_cache topic b (snd (CheckOrEstablishType topic' ty b))"
  by (auto simp: CheckOrEstablishType_def same_cache_def caching_def IsLvcEnabledLocked_def split: option.split)

lemma same_cache_enable: "enabled \<or> topic' \<noteq> topic \<Longrightarrow> same_cache topic b (InternalLastValueCache topic' enabled b)"
  by (auto simp: InternalLastValueCache_def same_cache_def caching_def IsLvcEnabledLocked_def split: option.split)

lemma same_cache_report: "same_cache topic b b' \<Longrightarrow> same_cache topic b (bus (InternalReportLatchedError t e (w\<lparr>bus := b'\<rparr>)))"
  using same_cache_trans [OF _ same_cache_quiet [OF quiet_report [of "w\<lparr>bus := b'\<rparr>" t e]], of topic b] by simp

lemma cache_subscribe:
  assumes t: "typed (bus w)"
  shows "same_cache topic (bus w) (bus (snd (InternalSubscribe now topic' ty1 predicate' thread' qos w)))"
proof (rule InternalSubscribe_cases [OF t, where now = now and topic = topic' and ty = ty1 and predicate = predicate'
      and thread = thread' and qos = qos])
  have b0: "same_cache topic (bus w) (last_value_bus topic' qos w)" by (simp add: same_cache_enable same_cache_refl)
  {
    fix b
    assume "b = last_value_bus topic' qos w"
      and q: "quiet_step (w\<lparr>bus := b\<rparr>) (snd (InternalSubscribe now topic' ty1 predicate' thread' qos w))"
    with b0 same_cache_trans [OF _ same_cache_quiet [OF q], of topic "bus w"] show ?thesis by simp
  next
    fix b w1
    assume b: "b = subscribed_bus topic' ty1 qos w" and w1: "w1 = subscribed_world predicate' thread' qos b w"
      and r: "snd (InternalSubscribe now topic' ty1 predicate' thread' qos w)
         = (case cached_value now topic' qos (bus w) of None \<Rightarrow> w1 | Some v \<Rightarrow> deliver now v (next_subscriber w) w1)"
    have "same_cache topic (snd (CheckOrEstablishType topic' ty1 (last_value_bus topic' qos w))) b"
      by (rule same_cache_fields) (simp_all add: b Let_def)
    with b0 same_cache_type same_cache_trans have "same_cache topic (bus w) b" by blast
    then show ?thesis by (simp add: r w1 split: option.split)
  }
qed

lemma cache_publish:
  assumes t: "typed (bus w)" and cache: "caching topic ty (bus w)"
  shows "caching topic ty (bus (snd (InternalPublish env now topic' ty' v localOnly w)))
    \<and> m_lastValues (bus (snd (InternalPublish env now topic' ty' v localOnly w))) topic
      = (if topic' = topic \<and> ty' = ty then Some ((ty, v), now) else m_lastValues (bus w) topic)"
proof (rule InternalPublish_cases [OF t, where env = env and now = now and topic = topic' and ty = ty' and v = v
      and localOnly = localOnly])
  fix ty2
  assume "m_typeIndices (bus w) topic' = Some ty2" "ty2 \<noteq> ty'"
    and q: "quiet_step w (snd (InternalPublish env now topic' ty' v localOnly w))"
  then show ?thesis using cache same_cache_quiet [OF q, of topic] by (auto simp: caching_def same_cache_def)
next
  fix b w1 w2
  assume tys: "m_typeIndices (bus w) topic' = None \<or> m_typeIndices (bus w) topic' = Some ty'"
    and b: "b = published_bus now topic' ty' v w" and q: "quiet_step (w\<lparr>bus := b\<rparr>) w1"
    and w2: "w2 = fold (deliver now v) (subs_of topic' (bus w)) w1"
    and q2: "quiet_step w2 (snd (InternalPublish env now topic' ty' v localOnly w))"
  have fin: "same_cache topic b (bus (snd (InternalPublish env now topic' ty' v localOnly w)))"
    using same_cache_trans [OF same_cache_quiet [OF q, of topic] _] same_cache_quiet [OF q2, of topic]
    by (simp add: w2)
  let ?b1 = "snd (CheckOrEstablishType topic' ty' (bus w))"
  have b1: "caching topic ty ?b1" "m_lastValues ?b1 topic = m_lastValues (bus w) topic"
    using same_cache_type [of topic "bus w" topic' ty'] cache by (simp_all add: same_cache_def)
  show ?thesis
  proof (cases "topic' = topic")
    case True
    with b1(1) tys cache have "ty' = ty" "IsLvcEnabledLocked topic ?b1" by (auto simp: caching_def)
    with True b1(1) have "caching topic ty b \<and> m_lastValues b topic = Some ((ty, v), now)"
      by (simp add: b Let_def StoreLvcEntryLocked_def caching_def IsLvcEnabledLocked_def)
    with fin True \<open>ty' = ty\<close> show ?thesis by (simp add: same_cache_def)
  next
    case False
    with b1 have "caching topic ty b \<and> m_lastValues b topic = m_lastValues (bus w) topic"
      by (simp add: b Let_def StoreLvcEntryLocked_def caching_def IsLvcEnabledLocked_def)
    with fin False show ?thesis by (simp add: same_cache_def)
  qed
qed

text \<open>Registering a serializer or a stringifier, adding a participant, running a thread.\<close>

lemma cache_register:
  "same_cache topic (bus w) (bus (InternalRegisterSerializer topic' ty' z w))"
  "same_cache topic (bus w) (bus (InternalRegisterStringifier topic' ty' f w))"
proof -
  obtain bad b1 where c: "CheckOrEstablishType topic' ty' (bus w) = (bad, b1)" by (metis surj_pair)
  have c1: "same_cache topic (bus w) b1" using same_cache_type [of topic "bus w" topic' ty'] c by simp
  have c2: "same_cache topic b1 (b1\<lparr>m_serializers := x\<rparr>)" "same_cache topic b1 (b1\<lparr>m_stringifiers := y\<rparr>)" for x y
    by (rule same_cache_fields; simp)+
  show "same_cache topic (bus w) (bus (InternalRegisterSerializer topic' ty' z w))"
    "same_cache topic (bus w) (bus (InternalRegisterStringifier topic' ty' f w))"
    by (cases bad; simp add: InternalRegisterSerializer_def InternalRegisterStringifier_def c same_cache_report [OF c1]
        same_cache_trans [OF c1 c2(1)] same_cache_trans [OF c1 c2(2)])+
qed

lemma cache_participant: "same_cache topic (bus w) (bus (InternalAddParticipant p w))"
  by (auto simp: InternalAddParticipant_def Let_def intro: same_cache_quiet [OF quiet_report] same_cache_fields)

lemma cache_small:
  "same_cache topic (bus w) (bus (disconnect n w))" "same_cache topic b (InternalRemoveParticipant p b)"
  "same_cache topic (bus w) (bus (InternalEnableContinuousErrors enable w))" "same_cache topic b (Monitor n thread b)"
  "same_cache topic b (SubscribeUnhandled n b)" "same_cache topic b (SubscribeError n b)"
  by (rule same_cache_fields; simp add: disconnect_def InternalRemoveParticipant_def InternalEnableContinuousErrors_def
      Monitor_def SubscribeUnhandled_def SubscribeError_def Let_def split: option.split)+

lemma cache_run: "same_cache topic (bus w) (bus (run_thread env now t w))"
proof (rule run_thread_cases [where env = env and now = now and t = t and w = w])
  assume "quiet_step w (run_thread env now t w)"
  then show ?thesis by (rule same_cache_quiet)
qed (simp add: same_cache_refl)

lemma bus_step_cache:
  assumes safe: "type_safe w" and cache: "caching topic ty (bus w)" and keep: "keeps_cache topic op"
  shows "caching topic ty (bus (bus_step env (now, op) w))
    \<and> m_lastValues (bus (bus_step env (now, op) w)) topic
      = (case published_on topic ty op of [] \<Rightarrow> m_lastValues (bus w) topic | v # _ \<Rightarrow> Some ((ty, v), now))"
proof -
  have t: "typed (bus w)" using safe by (simp add: type_safe_def)
  have same: ?thesis if "same_cache topic (bus w) (bus (bus_step env (now, op) w))" "published_on topic ty op = []"
    using that cache by (simp add: same_cache_def)
  show ?thesis
  proof (cases op)
    case (Publish_op topic' ty' v localOnly)
    with cache_publish [OF t cache] show ?thesis by (simp add: published_on_def)
  next
    case (Cache_op topic' enabled)
    with keep show ?thesis
      by (intro same) (auto simp: published_on_def keeps_cache_def intro: same_cache_enable)
  next
    case Reset_bus_op
    with keep show ?thesis by (simp add: keeps_cache_def)
  qed (rule same; simp add: published_on_def cache_subscribe [OF t] cache_register cache_participant cache_run cache_small)+
qed

text \<open>
  C30: a late subscriber that asks for the last value gets it: once a topic is cached, a new subscriber
  is first given the value published last, if that is no older than its lifespan, and nothing else, whatever happened since the
  topic was cached and since that value was published, as long as caching was not switched off and the bus not reset.
\<close>

theorem late_subscriber_last_value:
  fixes ops0 ops1 ops2 :: "(time_point \<times> 'v bus_op) list"
  assumes w_def: "w = bus_run env ops0 (fresh_world ps l a)" and "IsLvcEnabledLocked topic (bus w)"
    and "m_typeIndices (bus w) topic = Some ty"
    and "\<forall>op \<in> snd ` set (ops1 @ ops2). keeps_cache topic op"
    and "\<forall>op \<in> snd ` set ops2. published_on topic ty op = []"
    and "InternalSubscribe now topic ty predicate thread qos
      (bus_run env (ops1 @ (t, Publish_op topic ty v localOnly) # ops2) w) = (Some n, w1)"
    and "lastValueCache qos" "minSeparation qos = None"
  shows "reached predicate n w1
    = (if (case lifespan qos of None \<Rightarrow> True | Some lim \<Rightarrow> now - t \<le> lim) then filter (accepts predicate) [v] else [])"
proof -
  let ?u = "bus_run env (ops1 @ (t, Publish_op topic ty v localOnly) # ops2) w"
  have good: "type_safe w" "numbered w" by (simp_all add: w_def bus_run_fresh)
  have run: "caching topic ty (bus (bus_run env ops x)) \<and> type_safe (bus_run env ops x)
      \<and> (list_all (\<lambda>y. published_on topic ty (snd y) = []) ops
          \<longrightarrow> m_lastValues (bus (bus_run env ops x)) topic = m_lastValues (bus x) topic)"
    if "caching topic ty (bus x)" "type_safe x" "list_all (\<lambda>y. keeps_cache topic (snd y)) ops" for ops x
    using that
  proof (induction ops arbitrary: x)
    case (Cons y ops)
    obtain s op where y: "y = (s, op)" by (cases y)
    with Cons.prems have "keeps_cache topic op" by simp
    note step = bus_step_cache [OF Cons.prems(2,1) this, of env s]
    from Cons.IH [of "bus_step env y x"] step bus_step_type_safe [OF Cons.prems(2), of env y] Cons.prems(3) y
    show ?case by (auto simp: bus_run_def)
  qed (simp add: bus_run_def)
  have keep: "list_all (\<lambda>y. keeps_cache topic (snd y)) ops1" "list_all (\<lambda>y. keeps_cache topic (snd y)) ops2"
    "list_all (\<lambda>y. published_on topic ty (snd y) = []) ops2"
    using assms(4,5) by (auto simp: list_all_iff)
  let ?x = "bus_run env ops1 w"
  let ?y = "bus_step env (t, Publish_op topic ty v localOnly) ?x"
  have x: "caching topic ty (bus ?x)" "type_safe ?x"
    using run [OF _ good(1) keep(1)] assms(2,3) by (simp_all add: caching_def)
  have y: "caching topic ty (bus ?y) \<and> m_lastValues (bus ?y) topic = Some ((ty, v), t)"
    using bus_step_cache [OF x(2,1), of "Publish_op topic ty v localOnly" env t]
    by (simp add: keeps_cache_def published_on_def del: bus_step.simps)
  have last: "m_lastValues (bus ?u) topic = Some ((ty, v), t)"
    using run [OF conjunct1 [OF y] bus_step_type_safe [OF x(2)] keep(2)] keep(3) y by (simp add: bus_run_def del: bus_step.simps)
  have "cached_value now topic qos (bus ?u)
      = (if (case lifespan qos of None \<Rightarrow> True | Some lim \<Rightarrow> now - t \<le> lim) then Some v else None)"
    using assms(7) by (simp add: cached_value_def last)
  with subscribe_start [OF _ _ assms(6,8)] bus_run_good [OF good, of env] show ?thesis by simp
qed

section \<open>Rate limits\<close>

text \<open>A property of the deliveries to one subscriber and of its state, which a call at the time \<open>now\<close> keeps: every
  step of the bus at that time keeps it.\<close>

locale subscriber_view =
  fixes n :: nat and now :: time_point and P :: "'v world \<Rightarrow> bool"
  assumes view: "P w \<Longrightarrow> delivered n w' = delivered n w \<Longrightarrow> subscribers w' n = subscribers w n \<Longrightarrow> P w'"
    and calls: "P w \<Longrightarrow> P (invoke_subscriber now n v w)"
begin

lemma view_same: "P w \<Longrightarrow> same_for n w w' \<Longrightarrow> P w'"
  by (rule view) (simp_all add: same_for_def)

lemma view_bus: "P w \<Longrightarrow> P (w\<lparr>bus := b\<rparr>)"
  by (rule view) (simp_all add: delivered_def)

lemma view_quiet: "P w \<Longrightarrow> quiet_step w w' \<Longrightarrow> P w' \<and> next_subscriber w' = next_subscriber w"
  using view_same [OF _ same_for_quiet] by (auto simp: quiet_step_def)

lemma view_deliver: "P w \<Longrightarrow> P (deliver now v k w)"
proof (cases "k = n")
  case True
  assume P: "P w"
  show ?thesis
  proof (cases "s_thread (subscribers w n)")
    case None
    with True calls [OF P] show ?thesis by (simp add: deliver_def)
  next
    case (Some t)
    with True show ?thesis by (intro view [OF P]) (simp_all add: deliver_def post_delivery_effect)
  qed
qed (rule view_same [OF _ deliver_other], simp_all)

lemma view_deliver_all: "P w \<Longrightarrow> P (fold (deliver now v) ks w)"
  by (induction ks arbitrary: w) (simp_all add: view_deliver)

lemma view_subscribe:
  assumes P: "P w" and t: "typed (bus w)" and n: "n < next_subscriber w"
  shows "P (snd (InternalSubscribe now topic ty predicate thread qos w))
    \<and> n < next_subscriber (snd (InternalSubscribe now topic ty predicate thread qos w))"
proof (rule InternalSubscribe_cases [OF t, where now = now and topic = topic and ty = ty and predicate = predicate
      and thread = thread and qos = qos])
  fix b
  assume "quiet_step (w\<lparr>bus := b\<rparr>) (snd (InternalSubscribe now topic ty predicate thread qos w))"
  from view_quiet [OF view_bus [OF P] this] n show ?thesis by simp
next
  fix b w1
  assume w1: "w1 = subscribed_world predicate thread qos b w"
    and r: "snd (InternalSubscribe now topic ty predicate thread qos w)
       = (case cached_value now topic qos (bus w) of None \<Rightarrow> w1 | Some v \<Rightarrow> deliver now v (next_subscriber w) w1)"
  have "P w1" by (rule view [OF P]) (use n in \<open>simp_all add: w1 delivered_def\<close>)
  with view_deliver n show ?thesis by (auto simp: r w1 split: option.split)
qed

lemma view_publish:
  assumes P: "P w" and t: "typed (bus w)" and n: "n < next_subscriber w"
  shows "P (snd (InternalPublish env now topic ty v localOnly w))
    \<and> n < next_subscriber (snd (InternalPublish env now topic ty v localOnly w))"
proof (rule InternalPublish_cases [OF t, where env = env and now = now and topic = topic and ty = ty and v = v
      and localOnly = localOnly])
  assume "quiet_step w (snd (InternalPublish env now topic ty v localOnly w))"
  from view_quiet [OF P this] n show ?thesis by simp
next
  fix b w1 w2
  assume q: "quiet_step (w\<lparr>bus := b\<rparr>) w1" and w2: "w2 = fold (deliver now v) (subs_of topic (bus w)) w1"
    and q2: "quiet_step w2 (snd (InternalPublish env now topic ty v localOnly w))"
  have w1: "P w1 \<and> next_subscriber w1 = next_subscriber w" using view_quiet [OF view_bus [OF P] q] by simp
  then have "P w2" by (simp add: w2 view_deliver_all)
  from view_quiet [OF this q2] w1 n show ?thesis by (simp add: w2)
qed

lemma view_run:
  assumes P: "P w" and n: "n < next_subscriber w"
  shows "P (run_thread env now t w) \<and> n < next_subscriber (run_thread env now t w)"
proof (rule run_thread_cases [where env = env and now = now and t = t and w = w])
  fix k v w1
  assume c: "\<And>j. j \<noteq> k \<Longrightarrow> same_for j w w1" "delivered k w1 = delivered k w" "subscribers w1 = subscribers w"
    "next_subscriber w1 = next_subscriber w" "run_thread env now t w = invoke_subscriber now k v w1"
  have w1: "P w1" by (rule view [OF P]) (use c(1) [of n] c(2,3) in \<open>auto simp: same_for_def\<close>)
  have "P (invoke_subscriber now k v w1)"
    by (cases "k = n") (simp add: calls w1, rule view [OF w1], simp_all add: invoke_subscriber_effect)
  with c(4,5) n show ?thesis by simp
next
  assume "quiet_step w (run_thread env now t w)"
  from view_quiet [OF P this] n show ?thesis by simp
qed

lemma view_step:
  assumes safe: "type_safe w" and n: "n < next_subscriber w" and P: "P w"
  shows "P (bus_step env (now, op) w) \<and> n < next_subscriber (bus_step env (now, op) w)"
proof (cases op)
  case (Disconnect_op k)
  have "P (disconnect k w)" by (rule view [OF P]) (simp_all add: disconnect_def delivered_def)
  with n show ?thesis by (simp add: Disconnect_op) (simp add: disconnect_def)
next
  case Reset_bus_op
  have "P (InternalReset w)" by (rule view [OF P]) (simp_all add: InternalReset_def Let_def delivered_def)
  with n show ?thesis by (simp add: Reset_bus_op) (simp add: InternalReset_def Let_def)
next
  case (Run_op t)
  with view_run [OF P n] show ?thesis by simp
qed (use safe view_subscribe [OF P _ n] view_publish [OF P _ n] view_same [OF P calm_same, of "bus_step env (now, op) w"]
      bus_step_calm [of op w env now] n
    in \<open>simp_all add: type_safe_def subscription_op_def calm_def del: bus_step.simps(4-)\<close>)

end

text \<open>The limiter and the deliveries: the limiter holds the time of a call no earlier than the last delivery.\<close>

definition paced :: "int \<Rightarrow> nat \<Rightarrow> time_point \<Rightarrow> 'v world \<Rightarrow> bool" where
  "paced m n bound w \<longleftrightarrow> (\<exists>l. s_limiter (subscribers w n) = Some l \<and> m_minSepRep l = of_int m
     \<and> sorted_wrt (\<lambda>t u. m \<le> to_ms u - to_ms t) (map fst (delivered n w))
     \<and> (delivered n w = [] \<or> (\<exists>last. m_lastDeliveryRep l = of_int (to_ms last) \<and> last \<le> bound
          \<and> (\<forall>x \<in> set (delivered n w). to_ms (fst x) \<le> to_ms last))))"

lemma to_ms_mono: "t \<le> u \<Longrightarrow> to_ms t \<le> to_ms u"
proof -
  assume "t \<le> u"
  then have "- u div 1000000 \<le> - t div 1000000" "t div 1000000 \<le> u div 1000000" by (simp_all add: zdiv_mono1)
  moreover have "- t div 1000000 \<ge> 0" if "t < 0" using that by simp
  ultimately show ?thesis using \<open>t \<le> u\<close> by (auto simp: to_ms_def)
qed

lemma word_distance:
  assumes "0 \<le> m" "m < 2 ^ 32" and "t \<le> u" and "(of_int m :: u32) \<le> of_int u - of_int t"
  shows "m \<le> u - t"
proof -
  have "uint (of_int m :: u32) \<le> uint (of_int (u - t) :: u32)"
    using assms(4) by (simp add: word_le_def)
  then have "m \<le> (u - t) mod 2 ^ 32"
    using assms(1,2) by (simp only: uint_word_of_int) simp
  also have "\<dots> \<le> u - t" using assms(3) by (intro zmod_le_nonneg_dividend) simp
  finally show ?thesis .
qed

lemma paced_call:
  assumes "paced m n bound w" and "bound \<le> now" and m: "0 \<le> m" "m < 2 ^ 32"
  shows "paced m n now (invoke_subscriber now n v w)"
proof -
  obtain l where l: "s_limiter (subscribers w n) = Some l" "m_minSepRep l = of_int m"
    "sorted_wrt (\<lambda>t u. m \<le> to_ms u - to_ms t) (map fst (delivered n w))"
    "delivered n w = [] \<or> (\<exists>last. m_lastDeliveryRep l = of_int (to_ms last) \<and> last \<le> bound
        \<and> (\<forall>x \<in> set (delivered n w). to_ms (fst x) \<le> to_ms last))"
    using assms(1) by (auto simp: paced_def)
  show ?thesis
  proof (cases "fst (RateLimiter_Invoke now l)")
    case False
    then have "snd (RateLimiter_Invoke now l) = l" by (auto simp: RateLimiter_Invoke_def Let_def split: if_splits)
    with False l assms(2) show ?thesis
      by (auto simp: paced_def invoke_subscriber_effect limiter_passes_def intro: order_trans)
  next
    case True
    then have l1: "snd (RateLimiter_Invoke now l) = l\<lparr>m_lastDeliveryRep := of_int (to_ms now)\<rparr>"
      and le: "of_int m \<le> of_int (to_ms now) - m_lastDeliveryRep l"
      using l(2) by (auto simp: RateLimiter_Invoke_def Let_def split: if_splits)
    have far: "m \<le> to_ms now - to_ms (fst x) \<and> to_ms (fst x) \<le> to_ms now" if x: "x \<in> set (delivered n w)" for x
    proof -
      from x l(4) obtain last where last: "m_lastDeliveryRep l = of_int (to_ms last)" "last \<le> bound"
        "to_ms (fst x) \<le> to_ms last" by auto
      have "to_ms last \<le> to_ms now" using last(2) assms(2) by (intro to_ms_mono) simp
      with word_distance [OF m this] le last(1,3) show ?thesis by fastforce
    qed
    have "sorted_wrt (\<lambda>t u. m \<le> to_ms u - to_ms t) (map fst (delivered n w @ (if b then [(now, v)] else [])))" for b
      using l(3) far by (auto simp: sorted_wrt_append)
    moreover have "\<forall>x \<in> set (delivered n w @ (if b then [(now, v)] else [])). to_ms (fst x) \<le> to_ms now" for b
      using far by auto
    ultimately show ?thesis
      using l(1,2) by (simp add: paced_def invoke_subscriber_effect l1) blast
  qed
qed

lemma paced_later: "paced m n bound w \<Longrightarrow> bound \<le> s \<Longrightarrow> paced m n s w"
  unfolding paced_def by (meson order_trans)

interpretation paced_view: subscriber_view n now "\<lambda>w. 0 \<le> m \<and> m < 2 ^ 32 \<longrightarrow> paced m n now w" for m n now
  by unfold_locales (simp add: paced_def, blast intro: paced_call [OF _ order_refl])


section \<open>The array of participants\<close>

fun registered :: "'v bus_op \<Rightarrow> nat list \<Rightarrow> nat list" where
  "registered (Add_op p) xs = (if length xs < MAX_PARTICIPANTS then xs @ [p] else xs)"
| "registered (Remove_op p) xs = remove1 p xs"
| "registered Reset_bus_op xs = []"
| "registered _ xs = xs"

definition slots_of :: "nat list \<Rightarrow> nat option list" where
  "slots_of xs = map Some xs @ replicate (MAX_PARTICIPANTS - length xs) None"

definition array_is :: "nat list \<Rightarrow> 'v DataBus \<Rightarrow> bool" where
  "array_is xs b \<longleftrightarrow> length xs \<le> MAX_PARTICIPANTS \<and> m_participants b = slots_of xs
     \<and> m_participantErrorConnections b = slots_of xs \<and> m_participantCount b = length xs"

lemma shift_down_list:
  "length us = i \<Longrightarrow> shift_down i (length zs) (us @ x # zs @ rest) = us @ zs @ (if zs = [] then x else None) # rest"
proof (induction zs arbitrary: us i x)
  case (Cons z zs)
  have "shift_down i (length (z # zs)) (us @ x # (z # zs) @ rest) = shift_down (Suc i) (length zs) ((us @ [z]) @ None # zs @ rest)"
    using Cons.prems by (simp add: list_update_append nth_append)
  also have "\<dots> = (us @ [z]) @ zs @ (if zs = [] then None else None) # rest"
    by (rule Cons.IH) (simp add: Cons.prems)
  finally show ?case by simp
qed simp

lemma find_participant_absent:
  "p \<notin> set zs \<Longrightarrow> length us = i \<Longrightarrow> find_participant p i (length zs) (us @ map Some zs @ rest) = None"
proof (induction zs arbitrary: us i)
  case (Cons z zs)
  then show ?case using Cons.IH [of "us @ [Some z]" "Suc i"] by (simp add: nth_append)
qed simp

lemma find_participant_first:
  "p \<notin> set as \<Longrightarrow> length us = i \<Longrightarrow>
     find_participant p i (length (as @ p # bs)) (us @ map Some (as @ p # bs) @ rest) = Some (i + length as)"
proof (induction as arbitrary: us i)
  case (Cons z as)
  then show ?case using Cons.IH [of "us @ [Some z]" "Suc i"] by (simp add: nth_append)
qed (simp add: nth_append)

lemma remove_array:
  assumes "array_is xs b"
  shows "array_is (remove1 p xs) (InternalRemoveParticipant p b)"
proof (cases "p \<in> set xs")
  case False
  with assms find_participant_absent [OF False, of "[]" 0] show ?thesis
    by (simp add: InternalRemoveParticipant_def array_is_def slots_of_def remove1_idem)
next
  case True
  then obtain as bs where xs: "xs = as @ p # bs" "p \<notin> set as" by (metis split_list_first)
  let ?free = "replicate (MAX_PARTICIPANTS - length xs) (None :: nat option)"
  let ?i = "length as"
  have arr: "slots_of xs = map Some as @ Some p # map Some bs @ ?free" by (simp add: slots_of_def xs(1))
  have len: "MAX_PARTICIPANTS - length (as @ bs) = Suc (MAX_PARTICIPANTS - length xs)"
    using assms by (simp add: array_is_def xs(1) Suc_diff_Suc)
  have found: "find_participant p 0 (length xs) (slots_of xs) = Some ?i"
    using find_participant_first [OF xs(2), of "[]" 0 bs ?free] by (simp add: slots_of_def xs(1))
  have k: "length (as @ bs) - ?i = length bs" "length xs - 1 = length (as @ bs)" by (simp_all add: xs(1))
  have ps: "shift_down ?i (length bs) (slots_of xs) = map Some as @ map Some bs @ (if bs = [] then Some p else None) # ?free"
    using shift_down_list [of "map Some as" ?i "map Some bs" "Some p" ?free] by (simp add: arr)
  have conns: "shift_down ?i (length bs) ((slots_of xs)[?i := None]) = map Some as @ map Some bs @ None # ?free"
    using shift_down_list [of "map Some as" ?i "map Some bs" None ?free] by (simp add: arr list_update_append split: if_splits)
  have last: "(map Some as @ map Some bs @ (if bs = [] then Some p else None) # ?free)[length xs - 1 := None]
      = map Some as @ map Some bs @ None # ?free"
    by (simp add: list_update_append xs(1))
  have new: "slots_of (as @ bs) = map Some as @ map Some bs @ None # ?free"
    unfolding slots_of_def len by simp
  have "remove1 p xs = as @ bs" using xs by (simp add: remove1_append)
  moreover have "length (as @ bs) \<le> MAX_PARTICIPANTS" using assms by (simp add: array_is_def xs(1))
  ultimately show ?thesis
    using assms found last
    by (simp add: InternalRemoveParticipant_def array_is_def Let_def k ps conns new del: length_append One_nat_def)
qed

lemma array_fields:
  "array_is xs b \<Longrightarrow> m_participants b' = m_participants b \<Longrightarrow> m_participantCount b' = m_participantCount b
   \<Longrightarrow> m_participantErrorConnections b' = m_participantErrorConnections b \<Longrightarrow> array_is xs b'"
  by (simp add: array_is_def)

lemma array_quiet: "quiet_step w w' \<Longrightarrow> array_is xs (bus w) \<Longrightarrow> array_is xs (bus w')"
  by (auto simp: quiet_step_def array_is_def)

lemma array_type: "array_is xs (snd (CheckOrEstablishType topic ty b)) = array_is xs b"
  by (auto simp: CheckOrEstablishType_def array_is_def split: option.split)

lemma array_small [simp]:
  "array_is xs (InternalLastValueCache topic enabled b) = array_is xs b"
  "array_is xs (StoreLvcEntryLocked topic e ts b) = array_is xs b"
  by (simp_all add: InternalLastValueCache_def StoreLvcEntryLocked_def array_is_def)

lemma array_report: "array_is xs b \<Longrightarrow> array_is xs (bus (InternalReportLatchedError topic e (w\<lparr>bus := b\<rparr>)))"
  by (rule array_quiet [OF quiet_report]) simp

lemma array_subscribe:
  assumes t: "typed (bus w)" and arr: "array_is xs (bus w)"
  shows "array_is xs (bus (snd (InternalSubscribe now topic ty predicate thread qos w)))"
proof (rule InternalSubscribe_cases [OF t, where now = now and topic = topic and ty = ty and predicate = predicate
      and thread = thread and qos = qos])
  fix b
  assume b: "b = last_value_bus topic qos w"
    and q: "quiet_step (w\<lparr>bus := b\<rparr>) (snd (InternalSubscribe now topic ty predicate thread qos w))"
  from array_quiet [OF q] arr show ?thesis by (simp add: b)
next
  fix b w1
  assume b: "b = subscribed_bus topic ty qos w" and w1: "w1 = subscribed_world predicate thread qos b w"
    and r: "snd (InternalSubscribe now topic ty predicate thread qos w)
       = (case cached_value now topic qos (bus w) of None \<Rightarrow> w1 | Some v \<Rightarrow> deliver now v (next_subscriber w) w1)"
  have "array_is xs (snd (CheckOrEstablishType topic ty (last_value_bus topic qos w)))" using arr by (simp add: array_type)
  then have "array_is xs b" by (rule array_fields) (simp_all add: b Let_def)
  then show ?thesis by (simp add: r w1 split: option.split)
qed

lemma array_publish:
  assumes t: "typed (bus w)" and arr: "array_is xs (bus w)"
  shows "array_is xs (bus (snd (InternalPublish env now topic ty v localOnly w)))"
proof (rule InternalPublish_cases [OF t, where env = env and now = now and topic = topic and ty = ty and v = v
      and localOnly = localOnly])
  assume q: "quiet_step w (snd (InternalPublish env now topic ty v localOnly w))"
  show ?thesis by (rule array_quiet [OF q arr])
next
  fix b w1 w2
  assume b: "b = published_bus now topic ty v w" and q: "quiet_step (w\<lparr>bus := b\<rparr>) w1"
    and w2: "w2 = fold (deliver now v) (subs_of topic (bus w)) w1"
    and q2: "quiet_step w2 (snd (InternalPublish env now topic ty v localOnly w))"
  have "array_is xs b" using arr by (simp add: b Let_def array_type)
  with array_quiet [OF q] have "array_is xs (bus w2)" by (simp add: w2)
  then show ?thesis by (rule array_quiet [OF q2])
qed

lemma array_run:
  assumes "array_is xs (bus w)"
  shows "array_is xs (bus (run_thread env now t w))"
proof (rule run_thread_cases [where env = env and now = now and t = t and w = w])
  assume "quiet_step w (run_thread env now t w)"
  then show ?thesis using assms by (rule array_quiet)
qed (simp add: assms)

lemma array_add:
  assumes arr: "array_is xs (bus w)"
  shows "array_is (registered (Add_op p) xs) (bus (InternalAddParticipant p w))"
proof (cases "length xs < MAX_PARTICIPANTS")
  case True
  then have "MAX_PARTICIPANTS - length xs = Suc (MAX_PARTICIPANTS - length (xs @ [p]))" by simp
  then have "slots_of xs = map Some xs @ None # replicate (MAX_PARTICIPANTS - length (xs @ [p])) None"
    by (simp only: slots_of_def replicate.simps)
  then have "(slots_of xs)[length xs := Some p] = slots_of (xs @ [p])"
    by (simp add: slots_of_def list_update_append)
  with True arr show ?thesis by (simp add: InternalAddParticipant_def array_is_def Let_def)
next
  case False
  with arr array_quiet [OF quiet_report arr] show ?thesis
    by (simp add: InternalAddParticipant_def Let_def) (simp add: array_is_def)
qed

lemma array_reset: "array_is xs (bus w) \<Longrightarrow> array_is [] (bus (InternalReset w))"
proof -
  assume arr: "array_is xs (bus w)"
  have "map (\<lambda>i. if i < length xs then None else slots_of xs ! i) [0..<length (slots_of xs)] = slots_of []"
    by (rule nth_equalityI) (use arr in \<open>auto simp: slots_of_def nth_append array_is_def\<close>)
  with arr show ?thesis by (simp add: InternalReset_def array_is_def Let_def cong: if_cong)
qed

lemma array_register:
  assumes arr: "array_is xs (bus w)"
  shows "array_is xs (bus (InternalRegisterSerializer topic ty z w))"
    and "array_is xs (bus (InternalRegisterStringifier topic ty f w))"
proof -
  obtain bad b1 where c: "CheckOrEstablishType topic ty (bus w) = (bad, b1)" by (metis surj_pair)
  with arr array_type [of xs topic ty "bus w"] have "array_is xs b1" by simp
  with array_report [OF this] show "array_is xs (bus (InternalRegisterSerializer topic ty z w))"
    "array_is xs (bus (InternalRegisterStringifier topic ty f w))"
    by (cases bad; simp add: InternalRegisterSerializer_def InternalRegisterStringifier_def c array_fields)+
qed

lemma bus_step_array:
  assumes safe: "type_safe w" and arr: "array_is xs (bus w)"
  shows "array_is (registered op xs) (bus (bus_step env (now, op) w))"
proof -
  have t: "typed (bus w)" using safe by (simp add: type_safe_def)
  show ?thesis
  proof (cases op)
    case (Add_op p)
    with array_add [OF arr] show ?thesis by (simp del: registered.simps)
  qed (use arr array_subscribe [OF t arr] array_publish [OF t arr] array_run [OF arr] array_reset [OF arr]
        array_register [OF arr] remove_array [OF arr] in
      \<open>simp_all add: disconnect_def InternalEnableContinuousErrors_def Monitor_def SubscribeUnhandled_def
        SubscribeError_def InternalLastValueCache_def array_is_def\<close>)
qed

text \<open>
  The array of participants is a list of at most eight: adding appends, at the capacity it
  changes nothing, removing takes out the first occurrence, resetting all of them; the entries from the count on are
  empty, and the bus is connected to the errors of exactly the participants it holds, after any
  sequence of operations.
\<close>

theorem participants_refine_list:
  fixes ops :: "(time_point \<times> 'v bus_op) list"
  shows "let b = bus (bus_run env ops (fresh_world ps l a)); xs = fold (registered \<circ> snd) ops []
    in m_participantCount b = length xs \<and> length xs \<le> MAX_PARTICIPANTS
     \<and> SnapshotParticipantsLocked b = map Some xs
     \<and> m_participants b = map Some xs @ replicate (MAX_PARTICIPANTS - length xs) None
     \<and> m_participantErrorConnections b = m_participants b"
proof -
  have "array_is (fold (registered \<circ> snd) ops xs) (bus (bus_run env ops w))" if "type_safe w" "array_is xs (bus w)" for w xs
    using that
  proof (induction ops arbitrary: w xs)
    case (Cons x ops)
    obtain t op where x: "x = (t, op)" by (cases x)
    from Cons.IH [OF bus_step_type_safe [OF Cons.prems(1), of env "(t, op)"] bus_step_array [OF Cons.prems, of op env t]]
    show ?case by (simp add: bus_run_def x)
  qed (simp add: bus_run_def)
  moreover have "array_is [] (bus (fresh_world ps l a :: 'v world))"
    by (simp add: array_is_def fresh_world_def DataBus_def slots_of_def)
  ultimately have "array_is (fold (registered \<circ> snd) ops []) (bus (bus_run env ops (fresh_world ps l a)))"
    using fresh_world_type_safe by blast
  then show ?thesis by (simp add: array_is_def slots_of_def SnapshotParticipantsLocked_def Let_def)
qed

section \<open>What a rate limit lets through\<close>

fun limiter_run :: "RateLimiter \<Rightarrow> time_point list \<Rightarrow> bool list" where
  "limiter_run l [] = []"
| "limiter_run l (t # ts) = (let (pass, l1) = RateLimiter_Invoke t l in pass # limiter_run l1 ts)"

text \<open>The reference: a message passes if the minimum separation has gone by since the last that passed.\<close>

fun separated :: "int \<Rightarrow> int \<Rightarrow> time_point list \<Rightarrow> bool list" where
  "separated m prev [] = []"
| "separated m prev (t # ts) =
     (if m \<le> to_ms t - prev then True # separated m (to_ms t) ts else False # separated m prev ts)"

lemma word_distance_iff:
  assumes "0 \<le> m" "m < 2 ^ 32" and "0 \<le> t" "t \<le> u" "u < 2 ^ 32"
  shows "(of_int m :: u32) \<le> of_int u - of_int t \<longleftrightarrow> m \<le> u - t"
proof -
  have "uint (of_int (u - t) :: u32) = u - t" "uint (of_int m :: u32) = m"
    using assms by (simp_all only: uint_word_of_int) (simp_all add: mod_pos_pos_trivial)
  moreover have "(of_int u :: u32) - of_int t = of_int (u - t)" by simp
  ultimately show ?thesis by (simp only: word_le_def)
qed

text \<open>
  The rate limiter, which works on 32 bit millisecond counts, lets through exactly the messages
  that come at least the minimum separation after the last one it let through, or after the zero of the clock for the first,
  for clocks below 49.7 days.
\<close>

theorem rate_limiter_separates:
  assumes "0 \<le> m" "m < 2 ^ 32" and "sorted ts" and "\<forall>t \<in> set ts. 0 \<le> t \<and> to_ms t < 2 ^ 32"
  shows "limiter_run (RateLimiter (of_int m)) ts = separated m 0 ts"
proof -
  have all: "limiter_run \<lparr>m_minSepRep = of_int m, m_lastDeliveryRep = of_int prev\<rparr> ts = separated m prev ts"
    if "0 \<le> prev" "\<forall>t \<in> set ts. prev \<le> to_ms t" for prev
    using assms(3,4) that
  proof (induction ts arbitrary: prev)
    case (Cons t ts)
    have le: "\<forall>u \<in> set ts. to_ms t \<le> to_ms u" using Cons.prems(1) by (auto intro: to_ms_mono)
    have pass: "of_int m \<le> (of_int (to_ms t) :: u32) - of_int prev \<longleftrightarrow> m \<le> to_ms t - prev"
      by (rule word_distance_iff) (use assms(1,2) Cons.prems in auto)
    show ?case
    proof (cases "m \<le> to_ms t - prev")
      case True
      have "limiter_run \<lparr>m_minSepRep = of_int m, m_lastDeliveryRep = of_int (to_ms t)\<rparr> ts = separated m (to_ms t) ts"
        by (rule Cons.IH) (use Cons.prems le in auto)
      with True pass show ?thesis by (simp add: RateLimiter_Invoke_def Let_def)
    next
      case False
      have "limiter_run \<lparr>m_minSepRep = of_int m, m_lastDeliveryRep = of_int prev\<rparr> ts = separated m prev ts"
        by (rule Cons.IH) (use Cons.prems in auto)
      with False pass show ?thesis by (simp add: RateLimiter_Invoke_def Let_def)
    qed
  qed simp
  have "0 \<le> to_ms t" if "0 \<le> t" for t using that by (simp add: to_ms_def pos_imp_zdiv_nonneg_iff)
  with assms(4) have "\<forall>t \<in> set ts. 0 \<le> to_ms t" by blast
  from all [OF order_refl this] show ?thesis by (simp add: RateLimiter_def)
qed

lemma rate_limiter_separates_witness:
  "limiter_run (RateLimiter (of_int 5)) [1000000, 7000000, 11999999, 12000000] = [False, True, False, True]"
  using rate_limiter_separates [of 5 "[1000000, 7000000, 11999999, 12000000]"] by (simp add: to_ms_def)

section \<open>Instances\<close>

definition quiet_bus :: "nat world" where
  "quiet_bus = fresh_world (\<lambda>_. Participant 0 0) idle_link 0"

lemmas bus_defs = fresh_world_def DataBus_def QoS_def InternalSubscribe_def GetOrCreateSignal_def
  CheckOrEstablishType_def FindSignalLocked_def connect_subscriber_def lvc_delivery_def InternalLastValueCache_def
  IsLvcEnabledLocked_def bus_run_def static_cast_def Let_def

lemmas publish_defs = InternalPublish_def update_lvc_def monitor_text_def find_serializer_def publish_local_def
  publish_remote_def HasMonitorLocked_def FindLvcEntryLocked_def FindSerializerLocked_def StoreLvcEntryLocked_def
  SnapshotParticipantsLocked_def deliver_def invoke_subscriber_def emit_def Filter_Invoke_def disconnect_def


definition cached_bus :: "nat world" where
  "cached_bus = bus_run flaky [(1, Subscribe_op ''t'' 1 None None (QoS\<lparr>lastValueCache := True\<rparr>))] quiet_bus"

definition late_qos :: QoS where
  "late_qos = QoS\<lparr>lastValueCache := True, lifespan := Some 50\<rparr>"

definition late_bus :: "nat world" where
  "late_bus = bus_run flaky ([] @ (20, Publish_op ''t'' 1 7 False) # [(21, Disconnect_op 0)]) cached_bus"

lemma late_bus_subscribe: "fst (InternalSubscribe 30 ''t'' 1 None None late_qos late_bus) = Some 1"
  by (simp add: bus_defs publish_defs late_bus_def cached_bus_def quiet_bus_def late_qos_def)

lemma late_subscriber_last_value_witness:
  "reached None 1 (snd (InternalSubscribe 30 ''t'' 1 None None late_qos late_bus)) = [7]"
proof -
  have start: "cached_bus = bus_run flaky [(1, Subscribe_op ''t'' 1 None None (QoS\<lparr>lastValueCache := True\<rparr>))]
      (fresh_world (\<lambda>_. Participant 0 0) idle_link 0)"
    by (simp add: cached_bus_def quiet_bus_def)
  have on: "IsLvcEnabledLocked ''t'' (bus cached_bus)" "m_typeIndices (bus cached_bus) ''t'' = Some 1"
    by (simp_all add: bus_defs cached_bus_def quiet_bus_def)
  have sub: "InternalSubscribe 30 ''t'' 1 None None late_qos
      (bus_run flaky ([] @ (20, Publish_op ''t'' 1 7 False) # [(21, Disconnect_op 0)]) cached_bus)
      = (Some 1, snd (InternalSubscribe 30 ''t'' 1 None None late_qos late_bus))"
    using late_bus_subscribe by (simp only: late_bus_def prod_eq_iff fst_conv snd_conv)
  have "lastValueCache late_qos" "minSeparation late_qos = None" "lifespan late_qos = Some 50"
    by (simp_all add: late_qos_def QoS_def)
  with late_subscriber_last_value [OF start on _ _ sub] show ?thesis
    by (simp add: keeps_cache_def published_on_def accepts_def)
qed


section \<open>What the code says and does not do\<close>

text \<open>A limiter starts as if it had delivered at the zero of the clock: it drops what comes earlier than
  the minimum separation after that, although nothing was delivered before.\<close>

theorem limiter_drops_first:
  assumes "0 \<le> to_ms now" "to_ms now < m" "m < 2 ^ 32"
  shows "\<not> fst (RateLimiter_Invoke now (RateLimiter (of_int m)))"
  using word_distance_iff [of m 0 "to_ms now"] assms by (auto simp: RateLimiter_Invoke_def RateLimiter_def Let_def)

text \<open>The count of milliseconds wraps: a message 49.7 days after the last one is dropped.\<close>

theorem limiter_drops_after_gap:
  "let (first, l) = RateLimiter_Invoke (1000 * 10 ^ 6) (RateLimiter 1000)
   in first \<and> \<not> fst (RateLimiter_Invoke ((2 ^ 32 + 1500) * 10 ^ 6) l)"
  by (simp add: RateLimiter_Invoke_def RateLimiter_def to_ms_def)

text \<open>A separation below a millisecond is none.\<close>

theorem no_limit_below_millisecond: "fst (RateLimiter_Invoke now (RateLimiter (of_int (to_ms 999999))))"
  by (simp add: RateLimiter_Invoke_def RateLimiter_def to_ms_def Let_def)

text \<open>The limiter is asked before the filter: a message the filter rejects uses up the time of the next
  one, which the filter would accept.\<close>

theorem rejected_message_uses_limit:
  "let q = QoS\<lparr>minSeparation := Some (1000 * 10 ^ 6)\<rparr>;
       w1 = snd (InternalSubscribe 0 ''t'' 1 (Some (\<lambda>v. v = 4)) None q quiet_bus);
       w2 = bus_run flaky [(1000 * 10 ^ 6, Publish_op ''t'' 1 3 False), (1500 * 10 ^ 6, Publish_op ''t'' 1 4 False)] w1
   in delivered 0 w2 = []"
  by (simp add: bus_defs publish_defs quiet_bus_def delivered_def RateLimiter_Invoke_def RateLimiter_def to_ms_def)

text \<open>A topic that once had a subscriber is never reported as unhandled again.\<close>

theorem unhandled_not_reported:
  "events (bus_run flaky [(1, Unhandled_op 9), (2, Subscribe_op ''t'' 1 None None QoS), (3, Disconnect_op 0),
     (4, Publish_op ''t'' 1 5 False)] quiet_bus) = []"
  by (simp add: bus_defs publish_defs quiet_bus_def SubscribeUnhandled_def)

text \<open>Caching that is switched off and on again still has the old value.\<close>

theorem stale_value_after_cache_off:
  "let w1 = bus_run flaky [(20, Publish_op ''t'' 1 7 False), (21, Cache_op ''t'' False), (22, Publish_op ''t'' 1 8 False)] cached_bus
   in reached None 1 (snd (InternalSubscribe 30 ''t'' 1 None None late_qos w1)) = [7]"
  by (simp add: bus_defs publish_defs cached_bus_def quiet_bus_def late_qos_def reached_def delivered_def pending_def)

end
