(* ===== verification/NetworkNode.thy ===== *)
theory NetworkNode
  imports BusLaws
begin

text \<open>
  \<^verbatim>\<open>extras/databus/NetworkNode.h\<close>: a node of a network of data buses. It has one participant for
  all that arrives, two participants for each peer (reliable and unreliable), and the topics it sends and receives,
  which are applied to participants made later. Receiving a message publishes it on the local bus. A transport is
  a number; whether its \<^verbatim>\<open>Create\<close> succeeds and what its \<^verbatim>\<open>Receive\<close> gives are arguments. The
  participants are numbered in the order they are made.
\<close>

section \<open>The state\<close>

datatype tier = UNRELIABLE | RELIABLE
datatype Delivery = LOCAL | RELAY

definition NETWORK_NODE_MAX_PEERS :: nat where "NETWORK_NODE_MAX_PEERS = 4"
definition NETWORK_NODE_MAX_TOPICS :: nat where "NETWORK_NODE_MAX_TOPICS = 16"
definition NETWORK_NODE_MAX_WORK :: nat where "NETWORK_NODE_MAX_WORK = 20"

record RemoteNode =
  peer_name :: string
  reliableParticipant :: nat
  unreliableParticipant :: nat
  peer_active :: bool

record 'v IncomingTopic =
  in_topic :: string
  in_remoteId :: u16
  in_type :: nat
  in_serializer :: "'v ISerializer"
  in_delivery :: Delivery

record OutgoingTopic =
  out_topic :: string
  out_remoteId :: u16
  out_reliability :: tier

record 'v NetworkNode =
  m_running :: bool
  m_recvParticipant :: "nat option"
  m_peers :: "RemoteNode list"
  m_inTopics :: "'v IncomingTopic list"
  m_outTopics :: "OutgoingTopic list"
  m_thread :: "nat option"

text \<open>The node with the bus it is on. A function object made for an incoming topic is numbered: it
  publishes on the topic with the type, by \<^verbatim>\<open>Publish\<close> or \<^verbatim>\<open>PublishLocal\<close>.\<close>

record 'v net =
  net_node :: "'v NetworkNode"
  net_world :: "'v world"
  handlers :: "(string \<times> nat \<times> Delivery) list"
  next_participant :: nat

definition NetworkNode :: "'v NetworkNode" where
  "NetworkNode = \<lparr>m_running = False, m_recvParticipant = None, m_peers = [], m_inTopics = [], m_outTopics = [], m_thread = None\<rparr>"

section \<open>Operations\<close>

text \<open>\<^verbatim>\<open>AddIncomingTopic\<close> and \<^verbatim>\<open>AddRelayTopic\<close> register a function object with a participant.\<close>

definition AddReceivedTopic :: "'v IncomingTopic \<Rightarrow> nat \<Rightarrow> 'v net \<Rightarrow> 'v net" where
  "AddReceivedTopic x p n =
     (let w = net_world n;
          old = length (error_signal (nodes w p));
          f = Fun_object (in_type x) (length (handlers n));
          (q, l) = RegisterHandler (next_address w) (in_type x) (in_remoteId x) (in_serializer x) f (nodes w p) (wires w);
          w1 = w\<lparr>nodes := (nodes w)(p := q), wires := l, next_address := Suc (next_address w)\<rparr>
      in n\<lparr>net_world := forward_errors p old w1, handlers := handlers n @ [(in_topic x, in_type x, in_delivery x)]\<rparr>)"

definition Start_node :: "bool \<Rightarrow> nat \<Rightarrow> nat \<Rightarrow> 'v net \<Rightarrow> bool \<times> 'v net" where
  "Start_node created transport thread n =
     (let nn = net_node n in
      if m_running nn then (True, n)
      else if \<not> created then (False, n)
      else let p = next_participant n;
               w = net_world n;
               n1 = n\<lparr>net_world := w\<lparr>nodes := (nodes w)(p := Participant p transport)\<rparr>, next_participant := Suc p\<rparr>;
               n2 = fold (\<lambda>x. AddReceivedTopic x p) (m_inTopics nn) n1
           in (True, n2\<lparr>net_node := nn\<lparr>m_running := True, m_recvParticipant := Some p, m_thread := Some thread\<rparr>\<rparr>))"

definition with_node :: "nat \<Rightarrow> ('v Participant \<Rightarrow> 'v Participant) \<Rightarrow> 'v world \<Rightarrow> 'v world" where
  "with_node p f w = w\<lparr>nodes := (nodes w)(p := f (nodes w p))\<rparr>"

definition stop_peer :: "RemoteNode \<Rightarrow> 'v world \<Rightarrow> 'v world" where
  "stop_peer r w =
     (if \<not> peer_active r then w
      else with_node (unreliableParticipant r) (SetSendThread None) (with_node (reliableParticipant r) (SetSendThread None)
             (w\<lparr>bus := InternalRemoveParticipant (unreliableParticipant r)
                (InternalRemoveParticipant (reliableParticipant r) (bus w))\<rparr>)))"

definition Stop_node :: "'v net \<Rightarrow> 'v net" where
  "Stop_node n =
     (if \<not> m_running (net_node n) then n
      else n\<lparr>net_world := fold stop_peer (rev (m_peers (net_node n))) (net_world n),
              net_node := (net_node n)\<lparr>m_running := False, m_peers := []\<rparr>\<rparr>)"

definition apply_outgoing :: "OutgoingTopic \<Rightarrow> RemoteNode \<Rightarrow> 'v world \<Rightarrow> 'v world" where
  "apply_outgoing x r w =
     with_node (if out_reliability x = RELIABLE then reliableParticipant r else unreliableParticipant r)
       (AddRemoteTopic (out_topic x) (out_remoteId x)) w"

text \<open>\<^verbatim>\<open>AddPeer\<close>, \<^verbatim>\<open>Send\<close> and \<^verbatim>\<open>Receive\<close>: nothing if a table is full.\<close>

definition AddPeer :: "bool \<Rightarrow> string \<Rightarrow> nat \<Rightarrow> nat \<Rightarrow> 'v net \<Rightarrow> 'v net option" where
  "AddPeer created peer reliableTransport rawTransport n =
     (let nn = net_node n in
      if \<not> length (m_peers nn) < NETWORK_NODE_MAX_PEERS then None
      else if \<not> created then Some n
      else let p = next_participant n;
               w = net_world n;
               r = \<lparr>peer_name = take 47 peer, reliableParticipant = p, unreliableParticipant = Suc p, peer_active = True\<rparr>;
               w1 = w\<lparr>nodes := (nodes w)(p := Participant p reliableTransport, Suc p := Participant (Suc p) rawTransport)\<rparr>;
               w2 = (case m_thread nn of None \<Rightarrow> w1
                     | Some t \<Rightarrow> with_node (Suc p) (SetSendThread (Some t)) (with_node p (SetSendThread (Some t)) w1));
               w3 = InternalAddParticipant (Suc p) (InternalAddParticipant p w2);
               w4 = fold (\<lambda>x. apply_outgoing x r) (m_outTopics nn) w3
           in Some (n\<lparr>net_world := w4, next_participant := Suc (Suc p), net_node := nn\<lparr>m_peers := m_peers nn @ [r]\<rparr>\<rparr>))"

definition Send_topic :: "string \<Rightarrow> u16 \<Rightarrow> nat \<Rightarrow> 'v ISerializer \<Rightarrow> tier \<Rightarrow> 'v net \<Rightarrow> 'v net option" where
  "Send_topic topic i ty z rel n =
     (let nn = net_node n; x = \<lparr>out_topic = topic, out_remoteId = i, out_reliability = rel\<rparr> in
      if \<not> length (m_outTopics nn) < NETWORK_NODE_MAX_TOPICS then None
      else let w1 = InternalRegisterSerializer topic ty z (net_world n);
               w2 = fold (\<lambda>r w. if peer_active r then apply_outgoing x r w else w) (m_peers nn) w1
           in Some (n\<lparr>net_world := w2, net_node := nn\<lparr>m_outTopics := m_outTopics nn @ [x]\<rparr>\<rparr>))"

definition Receive_topic :: "string \<Rightarrow> u16 \<Rightarrow> nat \<Rightarrow> 'v ISerializer \<Rightarrow> Delivery \<Rightarrow> 'v net \<Rightarrow> 'v net option" where
  "Receive_topic topic i ty z delivery n =
     (let nn = net_node n;
          x = \<lparr>in_topic = topic, in_remoteId = i, in_type = ty, in_serializer = z, in_delivery = delivery\<rparr>
      in if \<not> length (m_inTopics nn) < NETWORK_NODE_MAX_TOPICS then None
         else let n1 = n\<lparr>net_node := nn\<lparr>m_inTopics := m_inTopics nn @ [x]\<rparr>\<rparr>
              in Some (case m_recvParticipant nn of None \<Rightarrow> n1 | Some p \<Rightarrow> AddReceivedTopic x p n1))"

section \<open>Receiving\<close>

text \<open>\<^verbatim>\<open>ProcessIncoming\<close> of a participant with the function object it calls.\<close>

definition incoming ::
  "nat environment \<Rightarrow> (nat option \<Rightarrow> 'v) \<Rightarrow> time_point \<Rightarrow> nat \<Rightarrow> int \<times> DmqHeader \<times> reader \<Rightarrow> 'v net
   \<Rightarrow> (exc + int) \<times> 'v net" where
  "incoming env fresh now p x n =
     (let w = net_world n;
          old = length (error_signal (nodes w p));
          (r, called, q, l) = ProcessIncoming env fresh x (nodes w p) (wires w);
          w1 = forward_errors p old (w\<lparr>nodes := (nodes w)(p := q), wires := l\<rparr>)
      in case called of
           Some (Calls (Function_object f) v) \<Rightarrow>
             (case handlers n ! captured f of (topic, ty, delivery) \<Rightarrow>
                (let (e, w2) = InternalPublish env now topic ty v (delivery = LOCAL) w1
                 in ((case e of None \<Rightarrow> r | Some y \<Rightarrow> Inl y), n\<lparr>net_world := w2\<rparr>)))
         | _ \<Rightarrow> (r, n\<lparr>net_world := w1\<rparr>))"

text \<open>The work of a tick of the receive thread: at most so many packets, up to the first that gives another
  result than zero; \<open>xs\<close> is what the transport gives.\<close>

fun receive_work ::
  "nat \<Rightarrow> nat environment \<Rightarrow> (nat option \<Rightarrow> 'v) \<Rightarrow> time_point \<Rightarrow> nat \<Rightarrow> (int \<times> DmqHeader \<times> reader) list \<Rightarrow> 'v net
   \<Rightarrow> exc option \<times> 'v net" where
  "receive_work 0 env fresh now p xs n = (None, n)"
| "receive_work (Suc k) env fresh now p [] n = (None, n)"
| "receive_work (Suc k) env fresh now p (x # xs) n =
     (case incoming env fresh now p x n of
        (Inl e, n1) \<Rightarrow> (Some e, n1)
      | (Inr r, n1) \<Rightarrow> if r \<noteq> 0 then (None, n1) else receive_work k env fresh now p xs n1)"

definition ReceiverThread ::
  "nat environment \<Rightarrow> (nat option \<Rightarrow> 'v) \<Rightarrow> time_point \<Rightarrow> (int \<times> DmqHeader \<times> reader) list \<Rightarrow> 'v net
   \<Rightarrow> exc option \<times> 'v net" where
  "ReceiverThread env fresh now xs n =
     (case m_recvParticipant (net_node n) of
        None \<Rightarrow> (None, n)
      | Some p \<Rightarrow> receive_work NETWORK_NODE_MAX_WORK env fresh now p xs n)"

section \<open>What the bus leaves of the participants\<close>

text \<open>The topics of a participant, and that its channels stay.\<close>

definition same_topics :: "'v Participant \<Rightarrow> 'v Participant \<Rightarrow> bool" where
  "same_topics p q \<longleftrightarrow> m_topicToRemoteId q = m_topicToRemoteId p \<and> (\<forall>i. m_channels p i \<noteq> None \<longrightarrow> m_channels q i \<noteq> None)"

definition nodes_kept :: "'v world \<Rightarrow> 'v world \<Rightarrow> bool" where
  "nodes_kept w w' \<longleftrightarrow> (\<forall>p. same_topics (nodes w p) (nodes w' p))"

lemma same_topics_refl: "same_topics p p"
  by (simp add: same_topics_def)

lemma same_topics_trans: "same_topics p q \<Longrightarrow> same_topics q r \<Longrightarrow> same_topics p r"
  by (simp add: same_topics_def)

lemma nodes_kept_refl: "nodes_kept w w"
  by (simp add: nodes_kept_def same_topics_refl)

lemma nodes_kept_trans: "nodes_kept u v \<Longrightarrow> nodes_kept v w \<Longrightarrow> nodes_kept u w"
  unfolding nodes_kept_def by (meson same_topics_trans)

lemma nodes_kept_eq: "nodes w' = nodes w \<Longrightarrow> nodes_kept w w'"
  by (simp add: nodes_kept_def same_topics_refl)

lemma nodes_kept_update:
  "nodes w' = (nodes w)(p := q) \<Longrightarrow> same_topics (nodes w p) q \<Longrightarrow> nodes_kept w w'"
  by (simp add: nodes_kept_def same_topics_refl)

lemma same_topics_error: "same_topics p (OnChannelError i e p)"
  by (simp add: same_topics_def)

lemma same_topics_send: "same_topics p (fst (snd (channel_send env i v p w)))"
  by (auto simp: same_topics_def channel_send_def Let_def split: option.split prod.split)

lemma same_topics_channel:
  "GetOrCreateChannelLocked new ty i z p w = (found, bad, q, l) \<Longrightarrow> same_topics p q"
  by (auto simp: same_topics_def GetOrCreateChannelLocked_def Let_def split: option.splits if_splits prod.splits)

lemma same_topics_dispatch: "same_topics p (fst (snd (snd (DispatchIfInterested env new ty topic v ser p w))))"
proof (cases "map_of (m_topicToRemoteId p) topic")
  case None
  then show ?thesis by (simp add: DispatchIfInterested_def same_topics_refl)
next
  case (Some i)
  show ?thesis
  proof (cases ser)
    case None
    with Some show ?thesis by (simp add: DispatchIfInterested_def same_topics_refl)
  next
    case (Some z)
    obtain found bad q l where g: "GetOrCreateChannelLocked new ty i z p w = (found, bad, q, l)" by (metis prod_cases4)
    note s1 = same_topics_channel [OF g]
    have s2: "same_topics p (fst (snd (channel_send env i v q l)))" by (rule same_topics_trans [OF s1 same_topics_send])
    have s3: "same_topics p (OnChannelError i ERR_TYPE_MISMATCH q)" by (rule same_topics_trans [OF s1 same_topics_error])
    obtain y q2 l2 where snd: "channel_send env i v q l = (y, q2, l2)" by (metis prod_cases3)
    show ?thesis
      using s1 s2 s3 Some \<open>map_of (m_topicToRemoteId p) topic = Some i\<close> g snd
      by (cases bad; cases found; cases "m_sendThread q"; cases y) (simp_all add: DispatchIfInterested_def)
  qed
qed

lemma same_topics_register: "same_topics p (fst (RegisterHandler new ty i z f p w))"
proof -
  obtain found bad q l where g: "GetOrCreateChannelLocked new ty i z p w = (found, bad, q, l)" by (metis prod_cases4)
  let ?q = "if found then q\<lparr>m_channels := (m_channels q)(i := map_option (RemoteChannel_Bind (Some f) i) (m_channels q i))\<rparr> else q"
  have "same_topics q ?q" by (simp add: same_topics_def)
  from same_topics_trans [OF same_topics_channel [OF g] this]
    same_topics_trans [OF same_topics_trans [OF same_topics_channel [OF g] this] same_topics_error]
  show ?thesis by (simp add: RegisterHandler_def g Let_def)
qed

lemma RegisterHandler_channel: "m_channels (fst (RegisterHandler new ty i z f p w)) i \<noteq> None"
proof -
  obtain found bad q l where g: "GetOrCreateChannelLocked new ty i z p w = (found, bad, q, l)" by (metis prod_cases4)
  then have "m_channels q i \<noteq> None"
    by (auto simp: GetOrCreateChannelLocked_def Let_def split: option.splits if_splits prod.splits)
  then show ?thesis by (auto simp: RegisterHandler_def g Let_def)
qed

lemma same_topics_incoming: "same_topics p (fst (snd (snd (ProcessIncoming env fresh x p w))))"
  by (auto simp: same_topics_def ProcessIncoming_def seen_before_def Let_def split: prod.split option.split sum.split)

text \<open>The operations of the bus.\<close>

lemma report_nodes [simp]: "nodes (InternalReportLatchedError topic e w) = nodes w"
  by (simp add: InternalReportLatchedError_def emit_def Let_def split: prod.split)

lemma forward_nodes [simp]: "nodes (forward_errors p old w) = nodes w"
proof -
  have times: "nodes ((InternalReportLatchedError topic e ^^ k) w) = nodes w" for topic e k and w :: "'b world"
    by (induction k) simp_all
  have "nodes (fold (\<lambda>(topic, e). InternalReportLatchedError topic e ^^ k) es w) = nodes w" for es k and w :: "'b world"
    by (induction es arbitrary: w) (auto simp: times)
  then show ?thesis by (simp add: forward_errors_def)
qed

lemma dispatch_one_nodes: "nodes_kept w (snd (dispatch_one env topic ty v ser p w))"
proof -
  obtain r send q l where d: "DispatchIfInterested env (next_address w) ty topic v ser (nodes w p) (wires w) = (r, send, q, l)"
    by (metis prod_cases4)
  with same_topics_dispatch [of "nodes w p" env "next_address w" ty topic v ser "wires w"] have "same_topics (nodes w p) q" by simp
  then show ?thesis
    by (intro nodes_kept_update [of _ _ p q]) (auto simp: dispatch_one_def d post_to_def Let_def split: option.split)
qed

lemma dispatch_all_nodes: "nodes_kept w (snd (dispatch_all env topic ty v ser ps any w))"
proof (induction ps arbitrary: any w)
  case (Cons p ps)
  obtain r w1 where d: "dispatch_one env topic ty v ser p w = (r, w1)" by (metis surj_pair)
  with dispatch_one_nodes [of w env topic ty v ser p] have k: "nodes_kept w w1" by simp
  from nodes_kept_trans [OF k Cons.IH] k d show ?case by (cases r) simp_all
qed (simp add: nodes_kept_refl)

lemma publish_remote_nodes: "nodes_kept w (snd (publish_remote env topic ty v ser snapshot handled w))"
proof -
  obtain r w1 where d: "dispatch_all env topic ty v ser (map the snapshot) False w = (r, w1)" by (metis surj_pair)
  with dispatch_all_nodes [of w env topic ty v ser "map the snapshot" False] have k: "nodes_kept w w1" by simp
  have "nodes_kept w (InternalReportLatchedError topic ERR_NO_SERIALIZER w1)"
    by (rule nodes_kept_trans [OF k nodes_kept_eq]) simp
  with k d show ?thesis by (cases r) (simp_all add: publish_remote_def)
qed

lemma static_cast_nodes [simp]: "nodes (snd (static_cast ty e w)) = nodes w"
  by (simp add: static_cast_def)

lemma emit_nodes [simp]: "nodes (emit es w) = nodes w" "nodes (post_to t m w) = nodes w"
  by (simp_all add: emit_def post_to_def)

lemma invoke_nodes [simp]: "nodes (invoke_subscriber now k v w) = nodes w"
  by (simp add: invoke_subscriber_def Let_def split: prod.split)

lemma deliver_nodes [simp]: "nodes (deliver now v k w) = nodes w"
  by (simp add: deliver_def split: option.split)

lemma deliver_all_nodes [simp]: "nodes (fold (deliver now v) ks w) = nodes w"
  by (induction ks arbitrary: w) simp_all

lemma InternalPublish_nodes: "nodes_kept w (snd (InternalPublish env now topic ty v localOnly w))"
proof -
  obtain bad b1 where c: "CheckOrEstablishType topic ty (bus w) = (bad, b1)" by (metis surj_pair)
  show ?thesis
  proof (cases bad)
    case True
    then show ?thesis by (intro nodes_kept_eq) (simp add: InternalPublish_def c)
  next
    case False
    define w2 where "w2 = update_lvc now topic ty v (w\<lparr>bus := b1\<rparr>)"
    obtain str w3 where w3: "monitor_text topic ty v w2 = (str, w3)" by (metis surj_pair)
    obtain ser w4 where w4: "find_serializer topic ty w3 = (ser, w4)" by (metis surj_pair)
    define w5 where "w5 = (if HasMonitorLocked (bus w2) then DispatchMonitor topic str (of_int (now div 1000)) w4 else w4)"
    obtain handled w6 where w6: "publish_local now ty v (FindSignalLocked topic (bus w3)) w5 = (handled, w6)" by (metis surj_pair)
    obtain r w7 where w7: "(if localOnly then (Inr handled, w6)
        else publish_remote env topic ty v ser (SnapshotParticipantsLocked (bus w4)) handled w6) = (r, w7)" by (metis surj_pair)
    have n2: "nodes w2 = nodes w"
      by (auto simp: w2_def update_lvc_def static_cast_def Let_def split: option.split prod.split)
    have n3: "nodes w3 = nodes w2" using w3
      by (auto simp: monitor_text_def static_cast_def split: if_splits option.splits)
    have n4: "nodes w4 = nodes w3" using w4
      by (auto simp: find_serializer_def static_cast_def split: if_splits option.splits)
    have mon: "nodes (fold (\<lambda>(n, t). case t of None \<Rightarrow> emit [Monitored n packet] | Some th \<Rightarrow> post_to th (Post_monitor n packet)) ms u)
        = nodes u" for packet ms and u :: "'a world"
      by (induction ms arbitrary: u) (auto split: option.split prod.split)
    have n5: "nodes w5 = nodes w4" by (simp add: w5_def DispatchMonitor_def mon Let_def)
    have n6: "nodes w6 = nodes w5" using w6
      by (auto simp: publish_local_def static_cast_def split: option.splits if_splits)
    have "nodes_kept w6 w7"
      using w7 publish_remote_nodes [of w6 env topic ty v ser "SnapshotParticipantsLocked (bus w4)" handled]
      by (cases localOnly) (auto simp: nodes_kept_refl)
    then have k: "nodes_kept w w7" by (simp add: nodes_kept_def n2 n3 n4 n5 n6)
    have "nodes_kept w (emit es w7)" for es by (rule nodes_kept_trans [OF k nodes_kept_eq]) simp
    moreover have "snd (InternalPublish env now topic ty v localOnly w) = (case r of Inl x \<Rightarrow> w7
        | Inr h \<Rightarrow> if h then w7 else emit (map (\<lambda>n. Unhandled n topic) (m_unhandledSignal (bus w7))) w7)"
      using w3 w4 w6 w7 unfolding w2_def w5_def
      by (cases r) (simp_all add: InternalPublish_def c False Let_def)
    ultimately show ?thesis using k by (simp split: sum.split)
  qed
qed

lemma fold_update_nodes:
  assumes "\<And>p. same_topics p (g p)"
  shows "same_topics (f q) (fold (\<lambda>p f. case p of None \<Rightarrow> f | Some r \<Rightarrow> f(r := g (f r))) ps f q)"
proof (induction ps arbitrary: f)
  case (Cons p ps)
  have "same_topics (f q) ((case p of None \<Rightarrow> f | Some r \<Rightarrow> f(r := g (f r))) q)"
    using assms by (auto simp: same_topics_refl split: option.split)
  from same_topics_trans [OF this Cons.IH [of "case p of None \<Rightarrow> f | Some r \<Rightarrow> f(r := g (f r))"]] show ?case by simp
qed (simp add: same_topics_refl)

lemma InternalSubscribe_nodes: "nodes (snd (InternalSubscribe now topic ty predicate thread qos w)) = nodes w"
proof -
  obtain sig w2 where sig: "GetOrCreateSignal topic ty (if lastValueCache qos
      then w\<lparr>bus := InternalLastValueCache topic True (bus w)\<rparr> else w) = (sig, w2)" by (metis surj_pair)
  then have n2: "nodes w2 = nodes w"
    by (auto simp: GetOrCreateSignal_def static_cast_def Let_def split: if_splits option.splits prod.splits)
  have con: "nodes u' = nodes u" if "connect_subscriber topic s u = (k, u')" for s k and u u' :: "'a world"
    using that by (auto simp: connect_subscriber_def Let_def)
  have lvc: "nodes u' = nodes u" if "lvc_delivery now topic ty qos u = (x, u')" for x and u u' :: "'a world"
    using that by (auto simp: lvc_delivery_def static_cast_def split: if_splits option.splits prod.splits)
  show ?thesis
    using n2 by (cases sig) (auto simp: InternalSubscribe_def sig Let_def dest!: con lvc split: prod.split option.split)
qed

lemma bus_step_nodes: "nodes_kept w (bus_step env (now, op) w)"
proof (cases op)
  case (Subscribe_op topic ty predicate thread qos)
  then show ?thesis by (intro nodes_kept_eq) (simp add: InternalSubscribe_nodes)
next
  case (Publish_op topic ty v localOnly)
  with InternalPublish_nodes show ?thesis by simp
next
  case (Add_op p)
  then show ?thesis
    by (cases "MAX_PARTICIPANTS \<le> m_participantCount (bus w)")
      (simp_all add: InternalAddParticipant_def Let_def nodes_kept_def same_topics_def EnableContinuousErrors_def)
next
  case (Continuous_errors_op enable)
  have "same_topics p (EnableContinuousErrors enable p)" for p :: "'a Participant"
    by (simp add: same_topics_def EnableContinuousErrors_def)
  from fold_update_nodes [OF this, of "nodes w"] Continuous_errors_op show ?thesis
    by (simp add: InternalEnableContinuousErrors_def nodes_kept_def)
next
  case Reset_bus_op
  have "same_topics p (ResetErrors p)" for p :: "'a Participant"
    by (simp add: same_topics_def ResetErrors_def)
  from fold_update_nodes [OF this, of "nodes w"] Reset_bus_op show ?thesis
    by (simp add: InternalReset_def nodes_kept_def Let_def)
next
  case (Run_op t)
  show ?thesis
  proof (cases "take_post t (posts w)")
    case (Some x)
    obtain m ms where x: "x = (m, ms)" by (cases x)
    have "nodes_kept w (send_posted env p i v (w\<lparr>posts := ms\<rparr>))" for p i v
    proof -
      obtain y q l where send: "AsyncSend env i v (nodes w p) (wires w) = (y, q, l)" by (metis prod_cases3)
      with same_topics_send [of "nodes w p" env i v "wires w"] have "same_topics (nodes w p) q" by (simp add: AsyncSend_def)
      then show ?thesis by (intro nodes_kept_update [of _ _ p q]) (simp_all add: send_posted_def send)
    qed
    then show ?thesis by (cases m) (simp_all add: Run_op run_thread_def Some x nodes_kept_eq)
  qed (simp add: Run_op run_thread_def nodes_kept_refl)
qed (auto intro!: nodes_kept_eq simp: disconnect_def InternalRegisterSerializer_def InternalRegisterStringifier_def split: prod.split)

section \<open>Runs of a node\<close>

datatype 'v net_op =
    Start_op bool nat nat | Stop_op | AddPeer_op bool string nat nat | Send_topic_op string u16 nat "'v ISerializer" tier
  | Receive_op string u16 nat "'v ISerializer" Delivery | Tick_op time_point "(int \<times> DmqHeader \<times> reader) list"
  | Bus_op "time_point \<times> 'v bus_op"

fun net_step :: "nat environment \<Rightarrow> (nat option \<Rightarrow> 'v) \<Rightarrow> 'v net_op \<Rightarrow> 'v net \<Rightarrow> 'v net option" where
  "net_step env fresh (Start_op created transport thread) n = Some (snd (Start_node created transport thread n))"
| "net_step env fresh Stop_op n = Some (Stop_node n)"
| "net_step env fresh (AddPeer_op created peer t1 t2) n = AddPeer created peer t1 t2 n"
| "net_step env fresh (Send_topic_op topic i ty z rel) n = Send_topic topic i ty z rel n"
| "net_step env fresh (Receive_op topic i ty z delivery) n = Receive_topic topic i ty z delivery n"
| "net_step env fresh (Tick_op now xs) n = Some (snd (ReceiverThread env fresh now xs n))"
| "net_step env fresh (Bus_op x) n = Some (n\<lparr>net_world := bus_step env x (net_world n)\<rparr>)"

fun net_run :: "nat environment \<Rightarrow> (nat option \<Rightarrow> 'v) \<Rightarrow> 'v net_op list \<Rightarrow> 'v net \<Rightarrow> 'v net option" where
  "net_run env fresh [] n = Some n"
| "net_run env fresh (op # ops) n = (case net_step env fresh op n of None \<Rightarrow> None | Some n1 \<Rightarrow> net_run env fresh ops n1)"

definition fresh_net :: "(nat \<Rightarrow> 'v Participant) \<Rightarrow> nat link \<Rightarrow> nat \<Rightarrow> 'v net" where
  "fresh_net ps l a = \<lparr>net_node = NetworkNode, net_world = fresh_world ps l a, handlers = [], next_participant = 0\<rparr>"

text \<open>The topics a participant of a tier should have.\<close>

definition topics_of :: "tier \<Rightarrow> OutgoingTopic list \<Rightarrow> (string \<times> u16) list" where
  "topics_of rel xs = fold (\<lambda>x m. if (out_reliability x = RELIABLE) = (rel = RELIABLE) then StdMap.put (out_topic x) (out_remoteId x) m else m) xs []"

definition ids :: "RemoteNode \<Rightarrow> nat list" where
  "ids r = [reliableParticipant r, unreliableParticipant r]"

definition net_ok :: "'v net \<Rightarrow> bool" where
  "net_ok n \<longleftrightarrow> (let nn = net_node n; ns = nodes (net_world n) in
     distinct (concat (map ids (m_peers nn))) \<and> (\<forall>p \<in> set (concat (map ids (m_peers nn))). p < next_participant n)
     \<and> (\<forall>r \<in> set (m_peers nn). peer_active r
          \<and> m_topicToRemoteId (ns (reliableParticipant r)) = topics_of RELIABLE (m_outTopics nn)
          \<and> m_topicToRemoteId (ns (unreliableParticipant r)) = topics_of UNRELIABLE (m_outTopics nn))
     \<and> (\<forall>p. m_recvParticipant nn = Some p \<longrightarrow> p < next_participant n
          \<and> (\<forall>x \<in> set (m_inTopics nn). m_channels (ns p) (in_remoteId x) \<noteq> None)))"

lemma net_ok_kept:
  assumes "net_ok n" and "nodes_kept (net_world n) (net_world n')"
    and "net_node n' = net_node n" "next_participant n \<le> next_participant n'"
  shows "net_ok n'"
proof -
  have "m_topicToRemoteId (nodes (net_world n') p) = m_topicToRemoteId (nodes (net_world n) p)"
    "m_channels (nodes (net_world n) p) i \<noteq> None \<Longrightarrow> m_channels (nodes (net_world n') p) i \<noteq> None" for p i
    using assms(2) by (simp_all add: nodes_kept_def same_topics_def)
  with assms(1,3,4) show ?thesis unfolding net_ok_def Let_def by fastforce
qed

lemma AddReceivedTopic_kept:
  "nodes_kept (net_world n) (net_world (AddReceivedTopic x p n))" "net_node (AddReceivedTopic x p n) = net_node n"
  "next_participant (AddReceivedTopic x p n) = next_participant n"
  "m_channels (nodes (net_world (AddReceivedTopic x p n)) p) (in_remoteId x) \<noteq> None"
proof -
  obtain q l where r: "RegisterHandler (next_address (net_world n)) (in_type x) (in_remoteId x) (in_serializer x)
      (Fun_object (in_type x) (length (handlers n))) (nodes (net_world n) p) (wires (net_world n)) = (q, l)" by (metis surj_pair)
  have new: "nodes (net_world (AddReceivedTopic x p n)) = (nodes (net_world n))(p := q)"
    using r by (simp add: AddReceivedTopic_def Let_def)
  show "nodes_kept (net_world n) (net_world (AddReceivedTopic x p n))"
    by (rule nodes_kept_update [OF new]) (use same_topics_register r in \<open>metis fst_conv\<close>)
  show "m_channels (nodes (net_world (AddReceivedTopic x p n)) p) (in_remoteId x) \<noteq> None"
    using RegisterHandler_channel [of "next_address (net_world n)" "in_type x" "in_remoteId x" "in_serializer x"
        "Fun_object (in_type x) (length (handlers n))" "nodes (net_world n) p" "wires (net_world n)"] r new by simp
qed (simp_all add: AddReceivedTopic_def Let_def split: prod.split)

lemma apply_received:
  "nodes_kept (net_world n) (net_world (fold (\<lambda>x. AddReceivedTopic x p) xs n))
   \<and> net_node (fold (\<lambda>x. AddReceivedTopic x p) xs n) = net_node n
   \<and> next_participant (fold (\<lambda>x. AddReceivedTopic x p) xs n) = next_participant n
   \<and> (\<forall>x \<in> set xs. m_channels (nodes (net_world (fold (\<lambda>x. AddReceivedTopic x p) xs n)) p) (in_remoteId x) \<noteq> None)"
proof (induction xs arbitrary: n)
  case (Cons x xs)
  note one = AddReceivedTopic_kept [where x = x and p = p and n = n]
  note rest = Cons.IH [of "AddReceivedTopic x p n"]
  have "m_channels (nodes (net_world (fold (\<lambda>x. AddReceivedTopic x p) xs (AddReceivedTopic x p n))) p) (in_remoteId x) \<noteq> None"
    using rest one(4) by (simp add: nodes_kept_def same_topics_def)
  with one rest nodes_kept_trans show ?case by fastforce
qed (simp add: nodes_kept_refl)

lemma incoming_kept:
  "nodes_kept (net_world n) (net_world (snd (incoming env fresh now p x n)))
   \<and> net_node (snd (incoming env fresh now p x n)) = net_node n
   \<and> next_participant (snd (incoming env fresh now p x n)) = next_participant n"
proof -
  let ?w = "net_world n"
  obtain r called q l where inc: "ProcessIncoming env fresh x (nodes ?w p) (wires ?w) = (r, called, q, l)" by (metis prod_cases4)
  define w1 where "w1 = forward_errors p (length (error_signal (nodes ?w p))) (?w\<lparr>nodes := (nodes ?w)(p := q), wires := l\<rparr>)"
  have q: "same_topics (nodes ?w p) q" using same_topics_incoming [of "nodes ?w p" env fresh x "wires ?w"] inc by simp
  have k1: "nodes_kept ?w w1" by (rule nodes_kept_update [of _ _ p q]) (simp_all add: w1_def q)
  have pub: "nodes_kept ?w u" if "InternalPublish env now topic ty v b w1 = (e, u)" for topic ty v b e u
    using nodes_kept_trans [OF k1 InternalPublish_nodes, of env now topic ty v b] that by simp
  show ?thesis
    using k1 pub
    by (auto simp: incoming_def inc w1_def [symmetric] Let_def split: option.split outcome.split callee.split prod.split)
qed

lemma receive_work_kept:
  "nodes_kept (net_world n) (net_world (snd (receive_work k env fresh now p xs n)))
   \<and> net_node (snd (receive_work k env fresh now p xs n)) = net_node n
   \<and> next_participant (snd (receive_work k env fresh now p xs n)) = next_participant n"
proof (induction k arbitrary: xs n)
  case (Suc k)
  show ?case
  proof (cases xs)
    case (Cons x ys)
    obtain r n1 where inc: "incoming env fresh now p x n = (r, n1)" by (metis surj_pair)
    with incoming_kept [of n env fresh now p x] have one: "nodes_kept (net_world n) (net_world n1)" "net_node n1 = net_node n"
      "next_participant n1 = next_participant n" by simp_all
    show ?thesis
      using one Suc.IH [of n1 ys] nodes_kept_trans [OF one(1)]
      by (cases r) (simp_all add: Cons inc)
  qed (simp add: nodes_kept_refl)
qed (simp add: nodes_kept_refl)

lemma topics_of_snoc:
  "topics_of rel (xs @ [x]) = (if (out_reliability x = RELIABLE) = (rel = RELIABLE)
     then StdMap.put (out_topic x) (out_remoteId x) (topics_of rel xs) else topics_of rel xs)"
  by (simp add: topics_of_def)

text \<open>Applying an outgoing topic to all peers, and all outgoing topics to a new one.\<close>

lemma apply_outgoing_other: "p \<notin> set (ids r) \<Longrightarrow> nodes (apply_outgoing x r w) p = nodes w p"
  by (auto simp: apply_outgoing_def with_node_def ids_def)

lemma apply_outgoing_own:
  "reliableParticipant r \<noteq> unreliableParticipant r \<Longrightarrow>
     m_topicToRemoteId (nodes (apply_outgoing x r w) (reliableParticipant r))
       = (if out_reliability x = RELIABLE
          then StdMap.put (out_topic x) (out_remoteId x) (m_topicToRemoteId (nodes w (reliableParticipant r)))
          else m_topicToRemoteId (nodes w (reliableParticipant r)))
     \<and> m_topicToRemoteId (nodes (apply_outgoing x r w) (unreliableParticipant r))
       = (if out_reliability x = RELIABLE then m_topicToRemoteId (nodes w (unreliableParticipant r))
          else StdMap.put (out_topic x) (out_remoteId x) (m_topicToRemoteId (nodes w (unreliableParticipant r))))"
  by (simp add: apply_outgoing_def with_node_def AddRemoteTopic_def)

lemma apply_to_new_peer:
  assumes "reliableParticipant r \<noteq> unreliableParticipant r"
    and "m_topicToRemoteId (nodes w (reliableParticipant r)) = []" "m_topicToRemoteId (nodes w (unreliableParticipant r)) = []"
  shows "m_topicToRemoteId (nodes (fold (\<lambda>x. apply_outgoing x r) xs w) (reliableParticipant r)) = topics_of RELIABLE xs
    \<and> m_topicToRemoteId (nodes (fold (\<lambda>x. apply_outgoing x r) xs w) (unreliableParticipant r)) = topics_of UNRELIABLE xs
    \<and> (\<forall>p. p \<notin> set (ids r) \<longrightarrow> nodes (fold (\<lambda>x. apply_outgoing x r) xs w) p = nodes w p)"
proof (induction xs rule: rev_induct)
  case (snoc x xs)
  then show ?case
    by (simp add: topics_of_snoc apply_outgoing_own [OF assms(1)] apply_outgoing_other)
qed (use assms in \<open>simp add: topics_of_def\<close>)

lemma apply_to_peers_other:
  "p \<notin> set (concat (map ids rs)) \<Longrightarrow>
     nodes (fold (\<lambda>r w. if peer_active r then apply_outgoing x r w else w) rs w) p = nodes w p"
proof (induction rs arbitrary: w)
  case (Cons r rs)
  then show ?case by (simp add: apply_outgoing_other)
qed simp

lemma apply_to_peers:
  assumes "distinct (concat (map ids rs))" and "\<forall>r \<in> set rs. peer_active r" and "r \<in> set rs"
  shows "m_topicToRemoteId (nodes (fold (\<lambda>r w. if peer_active r then apply_outgoing x r w else w) rs w) p)
    = m_topicToRemoteId (nodes (if p \<in> set (ids r) then apply_outgoing x r w
        else fold (\<lambda>r w. if peer_active r then apply_outgoing x r w else w) rs w) p)"
proof (cases "p \<in> set (ids r)")
  case True
  from assms(3) obtain as bs where rs: "rs = as @ r # bs" by (metis split_list)
  with assms(1) True have away: "p \<notin> set (concat (map ids as))" "p \<notin> set (concat (map ids bs))" by auto
  let ?u = "fold (\<lambda>r w. if peer_active r then apply_outgoing x r w else w) as w"
  have "nodes ?u p = nodes w p" by (rule apply_to_peers_other [OF away(1)])
  then have "nodes (apply_outgoing x r ?u) p = nodes (apply_outgoing x r w) p"
    by (auto simp: apply_outgoing_def with_node_def)
  moreover have "peer_active r" using assms(2,3) by blast
  ultimately show ?thesis
    using True by (simp add: rs apply_to_peers_other [OF away(2)])
qed simp

lemma peers_kept_channels:
  "m_channels (nodes (fold (\<lambda>r w. if peer_active r then apply_outgoing x r w else w) rs w) p) = m_channels (nodes w p)"
  by (induction rs arbitrary: w) (simp_all add: apply_outgoing_def with_node_def AddRemoteTopic_def)

lemma net_ok_peer:
  assumes "net_ok n" and "r \<in> set (m_peers (net_node n))"
  shows "peer_active r" "reliableParticipant r \<noteq> unreliableParticipant r" "p \<in> set (ids r) \<Longrightarrow> p < next_participant n"
    "m_topicToRemoteId (nodes (net_world n) (reliableParticipant r)) = topics_of RELIABLE (m_outTopics (net_node n))"
    "m_topicToRemoteId (nodes (net_world n) (unreliableParticipant r)) = topics_of UNRELIABLE (m_outTopics (net_node n))"
proof -
  have "distinct (ids r)" using assms by (auto simp: net_ok_def Let_def distinct_concat_iff)
  then show "reliableParticipant r \<noteq> unreliableParticipant r" by (simp add: ids_def)
qed (use assms in \<open>auto simp: net_ok_def Let_def\<close>)

lemma Send_ok:
  assumes ok: "net_ok n" and sent: "Send_topic topic i ty z rel n = Some n1"
  shows "net_ok n1"
proof -
  let ?nn = "net_node n"
  define x where "x = \<lparr>out_topic = topic, out_remoteId = i, out_reliability = rel\<rparr>"
  define w1 where "w1 = InternalRegisterSerializer topic ty z (net_world n)"
  define w2 where "w2 = fold (\<lambda>r w. if peer_active r then apply_outgoing x r w else w) (m_peers ?nn) w1"
  have n1: "n1 = n\<lparr>net_world := w2, net_node := ?nn\<lparr>m_outTopics := m_outTopics ?nn @ [x]\<rparr>\<rparr>"
    using sent unfolding Send_topic_def w2_def w1_def x_def by (auto simp: Let_def split: if_splits)
  have nodes1: "nodes w1 = nodes (net_world n)"
    by (simp add: w1_def InternalRegisterSerializer_def split: prod.split)
  have dist: "distinct (concat (map ids (m_peers ?nn)))" and act: "\<forall>r \<in> set (m_peers ?nn). peer_active r"
    using ok by (simp_all add: net_ok_def Let_def)
  have peers: "m_topicToRemoteId (nodes w2 (reliableParticipant r)) = topics_of RELIABLE (m_outTopics ?nn @ [x])
      \<and> m_topicToRemoteId (nodes w2 (unreliableParticipant r)) = topics_of UNRELIABLE (m_outTopics ?nn @ [x])"
    if r: "r \<in> set (m_peers ?nn)" for r
  proof -
    note own = apply_outgoing_own [OF net_ok_peer(2) [OF ok r], of x w1]
    have "m_topicToRemoteId (nodes w2 p) = m_topicToRemoteId (nodes (apply_outgoing x r w1) p)" if "p \<in> set (ids r)" for p
      using apply_to_peers [OF dist act r, of x w1 p] that by (simp add: w2_def)
    with own net_ok_peer(4,5) [OF ok r] nodes1 show ?thesis
      by (simp add: ids_def topics_of_snoc)
  qed
  have chan: "m_channels (nodes w2 p) = m_channels (nodes (net_world n) p)" for p
    by (simp add: w2_def peers_kept_channels nodes1)
  show ?thesis
    unfolding net_ok_def Let_def
  proof (intro conjI)
    show "\<forall>r \<in> set (m_peers (net_node n1)). peer_active r
        \<and> m_topicToRemoteId (nodes (net_world n1) (reliableParticipant r)) = topics_of RELIABLE (m_outTopics (net_node n1))
        \<and> m_topicToRemoteId (nodes (net_world n1) (unreliableParticipant r)) = topics_of UNRELIABLE (m_outTopics (net_node n1))"
      using peers act by (simp add: n1)
  qed (use ok in \<open>simp_all add: net_ok_def n1 chan Let_def\<close>)
qed

lemma AddPeer_ok:
  assumes ok: "net_ok n" and added: "AddPeer created peer t1 t2 n = Some n1"
  shows "net_ok n1"
proof (cases created)
  case False
  with assms show ?thesis by (auto simp: AddPeer_def Let_def split: if_splits)
next
  case True
  let ?nn = "net_node n" and ?w = "net_world n" and ?p = "next_participant n"
  define r where "r = \<lparr>peer_name = take 47 peer, reliableParticipant = ?p, unreliableParticipant = Suc ?p, peer_active = True\<rparr>"
  define w1 where "w1 = ?w\<lparr>nodes := (nodes ?w)(?p := Participant ?p t1, Suc ?p := Participant (Suc ?p) t2)\<rparr>"
  define w2 where "w2 = (case m_thread ?nn of None \<Rightarrow> w1
      | Some t \<Rightarrow> with_node (Suc ?p) (SetSendThread (Some t)) (with_node ?p (SetSendThread (Some t)) w1))"
  define w3 where "w3 = InternalAddParticipant (Suc ?p) (InternalAddParticipant ?p w2)"
  define w4 where "w4 = fold (\<lambda>x. apply_outgoing x r) (m_outTopics ?nn) w3"
  have n1: "n1 = n\<lparr>net_world := w4, next_participant := Suc (Suc ?p), net_node := ?nn\<lparr>m_peers := m_peers ?nn @ [r]\<rparr>\<rparr>"
    using added True unfolding AddPeer_def w4_def w3_def w2_def w1_def r_def by (simp add: Let_def split: if_splits)
  have k2: "nodes_kept w1 w2"
    by (auto simp: w2_def nodes_kept_def with_node_def same_topics_def SetSendThread_def split: option.split)
  have k3: "nodes_kept w2 w3"
    using nodes_kept_trans [OF bus_step_nodes [where op = "Add_op ?p"] bus_step_nodes [where op = "Add_op (Suc ?p)"]]
    by (simp add: w3_def)
  have k: "nodes_kept w1 w3" by (rule nodes_kept_trans [OF k2 k3])
  have new: "m_topicToRemoteId (nodes w3 ?p) = []" "m_topicToRemoteId (nodes w3 (Suc ?p)) = []"
    using k by (simp_all add: nodes_kept_def same_topics_def w1_def Participant_def)
  have old: "same_topics (nodes ?w q) (nodes w3 q)" if "q < ?p" for q
    using k that by (auto simp: nodes_kept_def w1_def dest: spec [of _ q])
  have r: "reliableParticipant r = ?p" "unreliableParticipant r = Suc ?p" "ids r = [?p, Suc ?p]" "peer_active r"
    by (simp_all add: r_def ids_def)
  have all: "m_topicToRemoteId (nodes w4 ?p) = topics_of RELIABLE (m_outTopics ?nn)"
    "m_topicToRemoteId (nodes w4 (Suc ?p)) = topics_of UNRELIABLE (m_outTopics ?nn)"
    "q < ?p \<Longrightarrow> nodes w4 q = nodes w3 q" for q
    using apply_to_new_peer [where r = r and w = w3 and xs = "m_outTopics ?nn"] new by (auto simp: r w4_def)
  have before: "q \<in> set (ids s) \<Longrightarrow> q < ?p" if "s \<in> set (m_peers ?nn)" for q s
    using net_ok_peer(3) [OF ok that] .
  have kept: "m_topicToRemoteId (nodes w4 q) = m_topicToRemoteId (nodes ?w q)"
    "m_channels (nodes ?w q) i \<noteq> None \<Longrightarrow> m_channels (nodes w4 q) i \<noteq> None" if "q < ?p" for q i
    using old [OF that] all(3) [OF that] by (simp_all add: same_topics_def)
  show ?thesis
    unfolding net_ok_def Let_def
  proof (intro conjI)
    show "distinct (concat (map ids (m_peers (net_node n1))))"
      using ok before by (fastforce simp: n1 net_ok_def r Let_def)
    show "\<forall>q \<in> set (concat (map ids (m_peers (net_node n1)))). q < next_participant n1"
      using before by (fastforce simp: n1 r)
    show "\<forall>s \<in> set (m_peers (net_node n1)). peer_active s
        \<and> m_topicToRemoteId (nodes (net_world n1) (reliableParticipant s)) = topics_of RELIABLE (m_outTopics (net_node n1))
        \<and> m_topicToRemoteId (nodes (net_world n1) (unreliableParticipant s)) = topics_of UNRELIABLE (m_outTopics (net_node n1))"
    proof
      fix s
      assume "s \<in> set (m_peers (net_node n1))"
      then consider "s = r" | "s \<in> set (m_peers ?nn)" by (auto simp: n1)
      then show "peer_active s
        \<and> m_topicToRemoteId (nodes (net_world n1) (reliableParticipant s)) = topics_of RELIABLE (m_outTopics (net_node n1))
        \<and> m_topicToRemoteId (nodes (net_world n1) (unreliableParticipant s)) = topics_of UNRELIABLE (m_outTopics (net_node n1))"
      proof cases
        case 1
        then show ?thesis by (simp add: n1 r all)
      next
        case 2
        with before [OF 2] kept net_ok_peer [OF ok 2] show ?thesis by (simp add: n1 ids_def)
      qed
    qed
    show "\<forall>q. m_recvParticipant (net_node n1) = Some q \<longrightarrow> q < next_participant n1
        \<and> (\<forall>x \<in> set (m_inTopics (net_node n1)). m_channels (nodes (net_world n1) q) (in_remoteId x) \<noteq> None)"
      using ok kept(2) by (auto simp: n1 net_ok_def Let_def less_Suc_eq)
  qed
qed

lemma Start_node_ok:
  assumes ok: "net_ok n" and step: "snd (Start_node created transport thread n) = n1"
  shows "net_ok n1"
proof -
  let ?nn = "net_node n" and ?w = "net_world n" and ?p = "next_participant n"
  show ?thesis
  proof (cases "m_running ?nn \<or> \<not> created")
    case True
    with ok step show ?thesis by (auto simp: Start_node_def Let_def)
  next
    case False
    define n2 where "n2 = n\<lparr>net_world := ?w\<lparr>nodes := (nodes ?w)(?p := Participant ?p transport)\<rparr>, next_participant := Suc ?p\<rparr>"
    define n3 where "n3 = fold (\<lambda>x. AddReceivedTopic x ?p) (m_inTopics ?nn) n2"
    have n1: "n1 = n3\<lparr>net_node := ?nn\<lparr>m_running := True, m_recvParticipant := Some ?p, m_thread := Some thread\<rparr>\<rparr>"
      using step False by (simp add: Start_node_def n3_def n2_def Let_def)
    have k: "nodes_kept (net_world n2) (net_world n3)" "next_participant n3 = Suc ?p"
      "\<forall>x \<in> set (m_inTopics ?nn). m_channels (nodes (net_world n3) ?p) (in_remoteId x) \<noteq> None"
      using apply_received [of n2 ?p "m_inTopics ?nn"] by (simp_all add: n3_def) (simp add: n2_def)
    have "m_topicToRemoteId (nodes (net_world n3) q) = m_topicToRemoteId (nodes ?w q)" if "q \<noteq> ?p" for q
      using k(1) that by (simp add: nodes_kept_def same_topics_def n2_def)
    moreover have "reliableParticipant r \<noteq> ?p" "unreliableParticipant r \<noteq> ?p" if "r \<in> set (m_peers ?nn)" for r
      using net_ok_peer(3) [OF ok that] by (force simp: ids_def)+
    ultimately show ?thesis
      using ok k(2,3) by (auto simp: net_ok_def n1 Let_def less_Suc_eq)
  qed
qed

lemma Stop_node_ok:
  assumes ok: "net_ok n" and step: "Stop_node n = n1"
  shows "net_ok n1"
proof -
  have "nodes_kept w (stop_peer r w)" for r and w :: "'a world"
    by (simp add: stop_peer_def nodes_kept_def with_node_def same_topics_def SetSendThread_def)
  then have "nodes_kept w (fold stop_peer rs w)" for rs and w :: "'a world"
    by (induction rs arbitrary: w) (auto simp: nodes_kept_refl intro: nodes_kept_trans)
  then have "nodes_kept (net_world n) (fold stop_peer (rev (m_peers (net_node n))) (net_world n))" .
  then have "m_channels (nodes (net_world n) p) i \<noteq> None
      \<Longrightarrow> m_channels (nodes (fold stop_peer (rev (m_peers (net_node n))) (net_world n)) p) i \<noteq> None" for p i
    by (simp add: nodes_kept_def same_topics_def)
  with ok step show ?thesis by (cases "m_running (net_node n)") (auto simp: Stop_node_def net_ok_def Let_def)
qed

lemma Receive_topic_ok:
  assumes ok: "net_ok n" and step: "Receive_topic topic i ty z delivery n = Some n1"
  shows "net_ok n1"
proof -
  let ?nn = "net_node n"
  define x where "x = \<lparr>in_topic = topic, in_remoteId = i, in_type = ty, in_serializer = z, in_delivery = delivery\<rparr>"
  let ?n2 = "n\<lparr>net_node := ?nn\<lparr>m_inTopics := m_inTopics ?nn @ [x]\<rparr>\<rparr>"
  show ?thesis
  proof (cases "m_recvParticipant ?nn")
    case None
    then have "n1 = ?n2" using step by (simp add: Receive_topic_def x_def Let_def split: if_splits)
    with ok None show ?thesis by (simp add: net_ok_def Let_def)
  next
    case (Some p)
    then have n1: "n1 = AddReceivedTopic x p ?n2"
      using step by (simp add: Receive_topic_def x_def Let_def split: if_splits)
    note a = AddReceivedTopic_kept [where x = x and p = p and n = ?n2]
    have k: "m_topicToRemoteId (nodes (net_world n1) q) = m_topicToRemoteId (nodes (net_world n) q)"
      "m_channels (nodes (net_world n) q) j \<noteq> None \<Longrightarrow> m_channels (nodes (net_world n1) q) j \<noteq> None" for q j
      using a(1) by (simp_all add: n1 nodes_kept_def same_topics_def)
    have "m_channels (nodes (net_world n1) p) (in_remoteId x) \<noteq> None" using a(4) by (simp add: n1)
    moreover have "net_node n1 = ?nn\<lparr>m_inTopics := m_inTopics ?nn @ [x]\<rparr>" "next_participant n1 = next_participant n"
      using a(2,3) by (simp_all add: n1)
    ultimately show ?thesis
      using ok k Some by (simp add: net_ok_def Let_def)
  qed
qed

lemma net_step_ok:
  assumes ok: "net_ok n" and step: "net_step env fresh op n = Some n1"
  shows "net_ok n1"
proof (cases op)
  case (Start_op created transport thread)
  with Start_node_ok [OF ok] step show ?thesis by auto
next
  case Stop_op
  with Stop_node_ok [OF ok] step show ?thesis by auto
next
  case (AddPeer_op created peer t1 t2)
  with AddPeer_ok [OF ok] step show ?thesis by simp
next
  case (Send_topic_op topic i ty z rel)
  with Send_ok [OF ok] step show ?thesis by simp
next
  case (Receive_op topic i ty z delivery)
  with Receive_topic_ok [OF ok] step show ?thesis by simp
next
  case (Tick_op now xs)
  have "nodes_kept (net_world n) (net_world n1) \<and> net_node n1 = net_node n \<and> next_participant n1 = next_participant n"
    using step receive_work_kept [of n NETWORK_NODE_MAX_WORK env fresh now _ xs] by (auto simp: Tick_op ReceiverThread_def nodes_kept_refl split: option.splits)
  with net_ok_kept [OF ok] show ?thesis by simp
next
  case (Bus_op x)
  obtain now bop where x: "x = (now, bop)" by (cases x)
  have "n1 = n\<lparr>net_world := bus_step env (now, bop) (net_world n)\<rparr>" using step by (simp add: Bus_op x)
  with net_ok_kept [OF ok, of n1] bus_step_nodes [of "net_world n" env now bop] show ?thesis by simp
qed

lemma net_run_ok: "net_run env fresh ops n = Some n1 \<Longrightarrow> net_ok n \<Longrightarrow> net_ok n1"
  by (induction ops arbitrary: n) (auto split: option.splits intro: net_step_ok)


section \<open>A message from node to node\<close>

text \<open>A participant that can send a topic: it has the topic, no send thread, and no channel yet or one that is
  wired, typed and in order; its transport takes the next packet and its handler does not throw.\<close>

definition link_ready :: "nat environment \<Rightarrow> string \<Rightarrow> u16 \<Rightarrow> nat \<Rightarrow> 'v ISerializer \<Rightarrow> nat \<Rightarrow> 'v world \<Rightarrow> bool" where
  "link_ready env topic i ty z p w \<longleftrightarrow> (let q = nodes w p; l = wires w in
     map_of (m_topicToRemoteId q) topic = Some i \<and> m_sendThread q = None
     \<and> (case m_channels q i of None \<Rightarrow> True
        | Some c \<Rightarrow> m_channelTypes q i = Some ty \<and> channel_wired q l i c \<and> ch_serializer c = z
            \<and> \<not> wfail (streams l (ch_stream c)) \<and> wseekable (streams l (ch_stream c)))
     \<and> transport_send env (p_transport q) (length (packets l)) = Inr 0
     \<and> handler_throws env (p_self q) i DelegateError.SUCCESS 0 = None)"

text \<open>A participant that receives an id for a topic, with the number of its handler.\<close>

definition receives :: "u16 \<Rightarrow> string \<Rightarrow> nat \<Rightarrow> Delivery \<Rightarrow> 'v ISerializer \<Rightarrow> nat \<Rightarrow> 'v net \<Rightarrow> bool" where
  "receives i topic ty delivery z p n \<longleftrightarrow> (case m_channels (nodes (net_world n) p) i of None \<Rightarrow> False
     | Some c \<Rightarrow> remote_serializer (ch_delegate c) = Some z
         \<and> (case function_object (remote_base (ch_delegate c)) of None \<Rightarrow> False
            | Some f \<Rightarrow> handlers n ! captured f = (topic, ty, delivery)))"

lemma channel_for_link:
  assumes "link_ready env topic i ty z p w"
  shows "\<exists>q1 l1 c. GetOrCreateChannelLocked (next_address w) ty i z (nodes w p) (wires w) = (True, False, q1, l1)
    \<and> m_channels q1 i = Some c \<and> channel_wired q1 l1 i c \<and> ch_serializer c = z
    \<and> \<not> wfail (streams l1 (ch_stream c)) \<and> wseekable (streams l1 (ch_stream c))
    \<and> p_self q1 = p_self (nodes w p) \<and> p_transport q1 = p_transport (nodes w p) \<and> m_sendThread q1 = None
    \<and> packets l1 = packets (wires w) \<and> seq_counter l1 = seq_counter (wires w)"
proof -
  let ?q = "nodes w p" and ?l = "wires w" and ?z = z and ?new = "next_address w"
  have top: "m_sendThread ?q = None" using assms by (simp add: link_ready_def Let_def)
  show ?thesis
  proof (cases "m_channels ?q i")
    case (Some c)
    then have at: "m_channelTypes ?q i = Some ty" "channel_wired ?q ?l i c" "ch_serializer c = ?z"
        "\<not> wfail (streams ?l (ch_stream c))" "wseekable (streams ?l (ch_stream c))"
      using assms(1) by (simp_all add: link_ready_def Let_def)
    with Some have "GetOrCreateChannelLocked ?new ty i ?z ?q ?l = (True, False, ?q, ?l)"
      by (simp add: GetOrCreateChannelLocked_def)
    with Some at(2-5) top show ?thesis by simp
  next
    case None
    obtain found bad q1 l1 where g: "GetOrCreateChannelLocked ?new ty i ?z ?q ?l = (found, bad, q1, l1)" by (metis prod_cases4)
    with None have "found" "\<not> bad" "\<exists>c. m_channels q1 i = Some c \<and> channel_wired q1 l1 i c \<and> ch_serializer c = ?z
        \<and> \<not> wfail (streams l1 (ch_stream c)) \<and> wseekable (streams l1 (ch_stream c))"
      "p_self q1 = p_self ?q" "p_transport q1 = p_transport ?q" "m_sendThread q1 = m_sendThread ?q"
      "packets l1 = packets ?l" "seq_counter l1 = seq_counter ?l"
      by (auto simp: GetOrCreateChannelLocked_def RemoteChannel_def channel_wired_def ReconnectDelegate_def
        Remote_SetRemoteId_def Remote_SetStream_def Remote_SetDispatcher_def Remote_SetSerializer_def
        Remote_SetErrorHandler_def RemoteChannel_SetErrorHandler_def SetTransport_def new_writer_def Let_def)
    with g top show ?thesis by auto
  qed
qed

lemma forward_errors_wires: "wires (forward_errors p old u) = wires u" for old and u :: "'v world"
proof -
  have one: "wires (InternalReportLatchedError t e u) = wires u" for t e and u :: "'v world"
    by (simp add: InternalReportLatchedError_def emit_def Let_def split: prod.split)
  have times: "wires ((InternalReportLatchedError t e ^^ k) u) = wires u" for t e k and u :: "'v world"
    by (induction k) (simp_all add: one)
  have "wires (fold (\<lambda>(t, e). InternalReportLatchedError t e ^^ k) es u) = wires u" for es k and u :: "'v world"
    by (induction es arbitrary: u) (auto simp: times)
  then show ?thesis by (simp add: forward_errors_def)
qed

lemma dispatch_sends:
  fixes w :: "val list world"
  assumes "link_ready env topic i ty (Serializer le lt t0) p w" and "\<forall>v \<in> set args. encodable lt MAX_PARSE_STACK_DEPTH v"
  shows "\<exists>w1. dispatch_one env topic ty args (Some (Serializer le lt t0)) p w = (Inr True, w1)
    \<and> packets (wires w1) = packets (wires w)
        @ [(p_transport (nodes w p), DmqHeader i (seq_counter (wires w)) 0, enc_members args)]"
proof -
  let ?q = "nodes w p" and ?l = "wires w" and ?z = "Serializer le lt t0" and ?new = "next_address w"
  have top: "map_of (m_topicToRemoteId ?q) topic = Some i" "m_sendThread ?q = None"
    and env: "transport_send env (p_transport ?q) (length (packets ?l)) = Inr 0"
      "handler_throws env (p_self ?q) i DelegateError.SUCCESS 0 = None"
    using assms(1) by (simp_all add: link_ready_def Let_def)
  obtain q1 l1 c where get: "GetOrCreateChannelLocked ?new ty i ?z ?q ?l = (True, False, q1, l1)"
    and c: "m_channels q1 i = Some c" "channel_wired q1 l1 i c" "ch_serializer c = ?z"
      "\<not> wfail (streams l1 (ch_stream c))" "wseekable (streams l1 (ch_stream c))"
    and same: "p_self q1 = p_self ?q" "p_transport q1 = p_transport ?q" "m_sendThread q1 = None"
      "packets l1 = packets ?l" "seq_counter l1 = seq_counter ?l"
    using channel_for_link [OF assms(1)] by blast
  let ?d = "ch_delegate c" and ?s = "remote_state (ch_delegate c)"
  have d: "remote_serializer ?d = Some ?z" "rd_stream ?s = Some (ch_stream c)" "rd_dispatcher ?s = Some (ch_dispatcher c)"
    "m_transport l1 (ch_dispatcher c) = Some (p_transport ?q)" "rd_id ?s = i" "rd_errorHandler ?s = Some (p_self ?q)"
    using c(2,3) same by (simp_all add: channel_wired_def Let_def)
  have handler: "rd_errorHandler ?s = None
      \<or> handler_throws env (the (rd_errorHandler ?s)) (rd_id ?s) DelegateError.SUCCESS 0 = None"
    using d(5,6) env(2) by simp
  have trans: "transport_send env (p_transport ?q) (length (packets l1)) = Inr 0" using env(1) same(4) by simp
  obtain d1 l2 where call: "Remote_call env args (?d, l1) = (None, d1, l2)"
    and pk: "packets l2 = packets l1 @ [(p_transport ?q, DmqHeader i (seq_counter l1) 0, enc_members args)]"
    using remote_call_sends [OF assms(2) d(1-4) c(4,5) trans handler] by (auto simp: d(5))
  have send: "\<exists>q2. channel_send env i args q1 l1 = (None, q2, l2)"
    by (simp add: channel_send_def c(1) RemoteChannel_call_def DelegateFunctionRemote_call_def call Let_def)
  then obtain q2 where q2: "channel_send env i args q1 l1 = (None, q2, l2)" by blast
  have "DispatchIfInterested env ?new ty topic args (Some ?z) ?q ?l = (Inr True, None, q2, l2)"
    by (simp add: DispatchIfInterested_def top(1) get same(3) q2)
  then show ?thesis
    using pk same(4,5) by (simp add: dispatch_one_def forward_errors_wires Let_def)
qed

lemma incoming_delivers:
  fixes n :: "val list net"
  assumes "\<And>x y. lt x y \<Longrightarrow> \<not> lt y x" and "encodable lt MAX_PARSE_STACK_DEPTH v" and "shape v0 v"
    and "receives i topic ty delivery (Serializer le lt t0) p n"
    and "fresh (m_channelTypes (nodes (net_world n) p) i) = [v0]"
    and new: "\<not> fst (seen_before i seq (nodes (net_world n) p))"
    and safe: "type_safe (net_world n)" and at: "attached s topic ty predicate thread (net_world n)"
  shows "attached s topic ty predicate thread
      (net_world (snd (incoming env fresh now p (0, DmqHeader i seq 0, open_reader (enc_members [v])) n)))
    \<and> reached predicate s (net_world (snd (incoming env fresh now p (0, DmqHeader i seq 0, open_reader (enc_members [v])) n)))
      = reached predicate s (net_world n) @ filter (accepts predicate) [[v]]"
proof -
  let ?w = "net_world n" and ?q = "nodes (net_world n) p" and ?z = "Serializer le lt t0"
  let ?x = "(0, DmqHeader i seq 0, open_reader (enc_members [v]))"
  obtain c f where c: "m_channels ?q i = Some c" "remote_serializer (ch_delegate c) = Some ?z"
    "function_object (remote_base (ch_delegate c)) = Some f" "handlers n ! captured f = (topic, ty, delivery)"
    using assms(4) by (auto simp: receives_def split: option.splits)
  obtain q1 where dup: "seen_before i seq ?q = (False, q1)" using new by (cases "seen_before i seq ?q") simp
  have "list_all2 shape [v0] [v]" "\<forall>u \<in> set [v]. encodable lt MAX_PARSE_STACK_DEPTH u" using assms(2,3) by simp_all
  from remote_invoke_calls [where fresh = "[v0]" and args = "[v]" and env' = env and u = "wires ?w" and lt = lt,
      OF assms(1) this(2,1) c(2), of DelegateFunction_call]
  obtain rd where inv: "DelegateFunctionRemote_Invoke env 1 [v0] (open_reader (enc_members [v])) (ch_delegate c, wires ?w)
      = (Inr True, Some (Calls (Function_object f) [v]), rd, ch_delegate c, wires ?w)"
    by (auto simp: DelegateFunctionRemote_Invoke_def DelegateFunction_call_def DelegateFunction_Empty_def c(3))
  have "\<exists>q2. ProcessIncoming env fresh ?x ?q (wires ?w) = (Inr 0, Some (Calls (Function_object f) [v]), q2, wires ?w)"
    using inv by (simp add: ProcessIncoming_def DmqHeader_def c(1) dup assms(5) Let_def)
  then obtain q2 where pi: "ProcessIncoming env fresh ?x ?q (wires ?w)
      = (Inr 0, Some (Calls (Function_object f) [v]), q2, wires ?w)" by blast
  define w1 where "w1 = forward_errors p (length (error_signal ?q)) (?w\<lparr>nodes := (nodes ?w)(p := q2), wires := wires ?w\<rparr>)"
  have quiet: "quiet_step ?w w1" unfolding w1_def by (rule quiet_step_trans [OF quiet_nodes(2) quiet_forward])
  have a1: "attached s topic ty predicate thread w1" "reached predicate s w1 = reached predicate s ?w"
    using attached_quiet [OF at quiet] by simp_all
  have s1: "type_safe w1" by (rule type_safe_quiet [OF quiet safe])
  have "keeps_connected s (Publish_op topic ty [v] (delivery = LOCAL))" by (simp add: keeps_connected_def)
  from bus_step_attached [OF a1(1) s1 this, of env now] a1(2)
  have "attached s topic ty predicate thread (snd (InternalPublish env now topic ty [v] (delivery = LOCAL) w1))
    \<and> reached predicate s (snd (InternalPublish env now topic ty [v] (delivery = LOCAL) w1))
      = reached predicate s ?w @ filter (accepts predicate) [[v]]"
    by (simp add: published_on_def)
  moreover have "net_world (snd (incoming env fresh now p ?x n)) = snd (InternalPublish env now topic ty [v] (delivery = LOCAL) w1)"
    unfolding incoming_def Let_def pi by (simp add: w1_def c(4) split: prod.split)
  ultimately show ?thesis by simp
qed


section \<open>Instances\<close>

lemmas net_defs = Start_node_def Stop_node_def AddPeer_def Send_topic_def Receive_topic_def AddReceivedTopic_def apply_outgoing_def
  with_node_def fresh_net_def NetworkNode_def InternalAddParticipant_def InternalRegisterSerializer_def SetSendThread_def
  EnableContinuousErrors_def forward_errors_def NETWORK_NODE_MAX_PEERS_def NETWORK_NODE_MAX_TOPICS_def
  MAX_PARTICIPANTS_def

definition sending_net :: "val list net" where
  "sending_net = the (net_run flaky fresh_lit
     [Send_topic_op ''mode'' 8 1 (Serializer True byte_lt 0) RELIABLE, AddPeer_op True ''gui'' 5 6,
      Send_topic_op ''temp'' 7 1 (Serializer True byte_lt 0) UNRELIABLE] (fresh_net (\<lambda>_. Participant 0 0) idle_link 0))"

definition receiving_net :: "val list net" where
  "receiving_net = the (net_run flaky fresh_lit
     [Receive_op ''temp'' 7 1 (Serializer False byte_lt 0) LOCAL, Start_op True 3 4,
      Bus_op (0, Subscribe_op ''temp'' 1 None None QoS)] (fresh_net (\<lambda>_. Participant 0 0) idle_link 0))"

lemma sending_run:
  "net_run flaky fresh_lit
     [Send_topic_op ''mode'' 8 1 (Serializer True byte_lt 0) RELIABLE, AddPeer_op True ''gui'' 5 6,
      Send_topic_op ''temp'' 7 1 (Serializer True byte_lt 0) UNRELIABLE] (fresh_net (\<lambda>_. Participant 0 0) idle_link 0)
   = Some sending_net"
  by (simp add: sending_net_def net_defs bus_defs)

lemma sending_peers:
  "m_peers (net_node sending_net) = [\<lparr>peer_name = ''gui'', reliableParticipant = 0, unreliableParticipant = 1, peer_active = True\<rparr>]"
  "m_outTopics (net_node sending_net) = [\<lparr>out_topic = ''mode'', out_remoteId = 8, out_reliability = RELIABLE\<rparr>,
     \<lparr>out_topic = ''temp'', out_remoteId = 7, out_reliability = UNRELIABLE\<rparr>]"
  "m_recvParticipant (net_node sending_net) = None"
  by (simp_all add: sending_net_def net_defs bus_defs)


lemma sending_parts:
  "p_self (nodes (net_world sending_net) 1) = 1" "p_transport (nodes (net_world sending_net) 1) = 6"
  "m_sendThread (nodes (net_world sending_net) 1) = None" "m_channels (nodes (net_world sending_net) 1) = (\<lambda>_. None)"
  "wires (net_world sending_net) = idle_link"
  by (simp_all add: sending_net_def net_defs bus_defs Participant_def AddRemoteTopic_def)

lemma sending_topics: "m_topicToRemoteId (nodes (net_world sending_net) 1) = [(''temp'', 7)]"
  by (simp add: sending_net_def net_defs bus_defs Participant_def AddRemoteTopic_def)

lemma sending_ready: "link_ready flaky ''temp'' 7 1 (Serializer True byte_lt 0) 1 (net_world sending_net)"
  by (simp add: link_ready_def sending_topics sending_parts del: One_nat_def) (simp add: flaky_def idle_link_def)

lemma receiving_parts:
  "bus (net_world receiving_net) = (DataBus :: val list DataBus)\<lparr>m_signals := [''temp'' \<mapsto> (1, [0])], m_typeIndices := [''temp'' \<mapsto> 1]\<rparr>"
  "handlers receiving_net = [(''temp'', 1, LOCAL)]" "next_subscriber (net_world receiving_net) = 1"
  "subscribers (net_world receiving_net) 0 = \<lparr>s_thread = None, s_limiter = None, s_filter = None\<rparr>"
  "posts (net_world receiving_net) = []" "events (net_world receiving_net) = []" "bad_casts (net_world receiving_net) = 0"
  "m_history (nodes (net_world receiving_net) 0) = (\<lambda>_. None)"
  by (simp_all add: receiving_net_def net_defs bus_defs channel_defs)

lemma receiving_channel: "\<exists>c. m_channels (nodes (net_world receiving_net) 0) 7 = Some c
    \<and> remote_serializer (ch_delegate c) = Some (Serializer False byte_lt 0)
    \<and> function_object (remote_base (ch_delegate c)) = Some (Fun_object 1 0)"
  by (simp add: receiving_net_def net_defs bus_defs channel_defs Remote_default_def DelegateFunction_Bind_def)

lemma receiving_ready:
  "receives 7 ''temp'' 1 LOCAL (Serializer False byte_lt 0) 0 receiving_net"
  "\<not> fst (seen_before 7 s (nodes (net_world receiving_net) 0))"
  "type_safe (net_world receiving_net)" "attached 0 ''temp'' 1 None None (net_world receiving_net)"
  "reached None 0 (net_world receiving_net) = []"
proof -
  show "receives 7 ''temp'' 1 LOCAL (Serializer False byte_lt 0) 0 receiving_net"
    using receiving_channel by (auto simp: receives_def receiving_parts)
  show "\<not> fst (seen_before 7 s (nodes (net_world receiving_net) 0))"
    by (simp add: seen_before_def receiving_parts is_duplicate_def SeqHistory_def list_ex_iff Let_def)
  show "type_safe (net_world receiving_net)"
    by (simp add: type_safe_def typed_def receiving_parts DataBus_def)
  show "attached 0 ''temp'' 1 None None (net_world receiving_net)"
    by (simp add: attached_def receiving_parts DataBus_def pending_def)
  show "reached None 0 (net_world receiving_net) = []"
    by (simp add: reached_def receiving_parts delivered_def pending_def)
qed


section \<open>What the code says and does not do\<close>

text \<open>\<^verbatim>\<open>Stop()\<close>, which the destructor calls, does nothing for a node that was never started: the
  participants of its peers, which refer to transports inside the node, stay registered with the bus.\<close>

theorem stop_leaves_participants:
  "SnapshotParticipantsLocked (bus (net_world (Stop_node sending_net))) = [Some 0, Some 1]"
  by (simp add: sending_net_def net_defs bus_defs SnapshotParticipantsLocked_def numeral_eq_Suc)

text \<open>A peer added before the node starts sends on the thread that publishes, one added after it on the
  thread of the node.\<close>

theorem early_peer_without_thread:
  "map_option (\<lambda>n. m_sendThread (nodes (net_world n) 0)) (net_run flaky fresh_lit
      [AddPeer_op True ''gui'' 5 6, Start_op True 3 4] (fresh_net (\<lambda>_. Participant 0 0) idle_link 0)) = Some None"
  "map_option (\<lambda>n. m_sendThread (nodes (net_world n) 1)) (net_run flaky fresh_lit
      [Start_op True 3 4, AddPeer_op True ''gui'' 5 6] (fresh_net (\<lambda>_. Participant 0 0) idle_link 0)) = Some (Some 4)"
  by (simp_all add: net_defs bus_defs Participant_def)

end
