(* ===== verification/RemoteCalls.thy ===== *)
theory RemoteCalls
  imports Participants AsyncCalls
begin

text \<open>
  \<^verbatim>\<open>extras/rpc/RemoteDispatcher.h\<close> and \<^verbatim>\<open>.cpp\<close>: calls of a remote function that wait until the remote
  side has acknowledged them. Callers on any threads post the sending to the network thread, which also handles the
  messages received; the transport monitor reports the status of a message from other threads. The steps of
  all of them are interleaved freely. Channels (\<open>Remote\<close>) are numbered; they are used on the network thread only.
\<close>

section \<open>State\<close>

record InvokeWaitState =
  complete :: bool
  iw_success :: bool
  seqSet :: bool
  expectedSeq :: u16
  early :: "(u16 \<times> Status) list"
  sem :: Semaphore

definition InvokeWaitState :: InvokeWaitState where
  "InvokeWaitState = \<lparr>complete = False, iw_success = False, seqSet = False, expectedSeq = 0, early = [],
     sem = \<lparr>m_signaled = False\<rparr>\<rparr>"

text \<open>A call: the channel, the arguments and the variables of \<^verbatim>\<open>RemoteInvokeWaitInternal\<close>, with the place it stands
  at. \<open>before\<close> and \<open>after\<close> record the statuses of its remote id that reached it before and after its
  sequence number was known, up to its return; \<open>start\<close> is how many statuses were reported before it.\<close>

datatype phase = Unused | Connected | Posted | Sending | Answered | Waited | Returned bool

record 'a rpc_call =
  c_target :: nat
  c_args :: 'a
  remoteId :: u16
  state :: InvokeWaitState
  retVal :: "bool option"
  phase :: phase
  before :: "(u16 \<times> Status) list"
  after :: "(u16 \<times> Status) list"
  start :: nat

datatype work = Send_call nat | Incoming_message DmqHeader "byte list"

text \<open>The members of the class and the threads: the channels, the registered endpoints, the queue of the network
  thread, the call whose number is not yet recorded, the slots of the status signal, the callbacks that are
  still to run, and what was reported, invoked and signalled as an error.\<close>

record 'a rpc =
  m_txTransport :: "nat option"
  m_rxTransport :: "nat option"
  m_receiveIdMap :: "(u16 \<times> nat option) list"
  m_recvThreadExit :: bool
  m_recvThreadCreated :: bool
  m_timeoutTimer_on :: bool
  targets :: "nat \<Rightarrow> ('a, nat) RemoteChannel"
  rpc_link :: "nat link"
  calls :: "nat \<Rightarrow> 'a rpc_call"
  work_queue :: "work list"
  sending_call :: "nat option"
  slots :: "nat list"
  callbacks :: "(nat \<times> u16 \<times> u16 \<times> Status) list"
  reported :: "(u16 \<times> u16 \<times> Status) list"
  invoked :: "(nat \<times> 'a outcome) list"
  OnError :: "(u16 \<times> DelegateError \<times> int) list"

section \<open>The wait state\<close>

text \<open>The status callback, and the record of the sequence number by the send lambda. The semaphore is signalled
  in the same step: nothing but the wait of the caller reads it.\<close>

definition statusCbFunc :: "u16 \<Rightarrow> u16 \<times> u16 \<times> Status \<Rightarrow> InvokeWaitState \<Rightarrow> InvokeWaitState" where
  "statusCbFunc own x st =
     (case x of (i, seq, status) \<Rightarrow>
        if i \<noteq> own then st
        else if \<not> seqSet st then st\<lparr>early := StdMap.put seq status (early st)\<rparr>
        else if \<not> complete st \<and> seq = expectedSeq st
        then st\<lparr>complete := True, iw_success := (status = Status.SUCCESS), sem := Signal (sem st)\<rparr>
        else st)"

definition record_seq :: "u16 \<Rightarrow> InvokeWaitState \<Rightarrow> InvokeWaitState" where
  "record_seq seq st =
     (let st1 = st\<lparr>expectedSeq := seq, seqSet := True\<rparr> in
      case map_of (early st1) seq of
        None \<Rightarrow> st1\<lparr>early := []\<rparr>
      | Some status \<Rightarrow> st1\<lparr>complete := True, iw_success := (status = Status.SUCCESS), early := [], sem := Signal (sem st1)\<rparr>)"

section \<open>Attaching, starting and stopping\<close>

definition Attach :: "nat \<Rightarrow> nat \<Rightarrow> 'a rpc \<Rightarrow> 'a rpc option" where
  "Attach tx rx w =
     (if m_txTransport w = None \<and> m_rxTransport w = None
      then Some (w\<lparr>m_txTransport := Some tx, m_rxTransport := Some rx\<rparr>) else None)"

definition GetSendTransport :: "'a rpc \<Rightarrow> nat option" where
  "GetSendTransport w = m_txTransport w"

text \<open>\<^verbatim>\<open>Start\<close>, \<^verbatim>\<open>RegisterEndpoint\<close> and the second half of \<^verbatim>\<open>Stop\<close> are carried out on the network thread;
  \<open>taken\<close> tells whether its queue has taken the call, which is dropped when the queue is full.\<close>

definition Start_dispatcher :: "bool \<Rightarrow> 'a rpc \<Rightarrow> 'a rpc option" where
  "Start_dispatcher taken w =
     (if \<not> taken then Some w
      else if m_txTransport w \<noteq> None \<and> m_rxTransport w \<noteq> None
      then Some (w\<lparr>m_recvThreadCreated := True, m_timeoutTimer_on := True\<rparr>) else None)"

definition Stop_dispatcher :: "bool \<Rightarrow> 'a rpc \<Rightarrow> 'a rpc" where
  "Stop_dispatcher taken w =
     (if m_recvThreadExit w then w
      else let w1 = w\<lparr>m_recvThreadExit := True\<rparr> in if taken then w1\<lparr>m_timeoutTimer_on := False\<rparr> else w1)"

definition RegisterEndpoint :: "bool \<Rightarrow> u16 \<Rightarrow> nat option \<Rightarrow> 'a rpc \<Rightarrow> 'a rpc" where
  "RegisterEndpoint taken i endpoint w =
     (if taken then w\<lparr>m_receiveIdMap := StdMap.put i endpoint (m_receiveIdMap w)\<rparr> else w)"

text \<open>The overload for a channel first sets its error handler to \<^verbatim>\<open>InternalErrorHandler\<close>, numbered \<open>h\<close>.\<close>

definition set_handler :: "nat \<Rightarrow> nat \<Rightarrow> 'a rpc \<Rightarrow> 'a rpc" where
  "set_handler h t w = w\<lparr>targets := (targets w)(t := RemoteChannel_SetErrorHandler (Some h) (targets w t))\<rparr>"

definition RegisterEndpoint_channel :: "nat \<Rightarrow> bool \<Rightarrow> u16 \<Rightarrow> nat \<Rightarrow> 'a rpc \<Rightarrow> 'a rpc" where
  "RegisterEndpoint_channel h taken i t w = RegisterEndpoint taken i (Some t) (set_handler h t w)"

section \<open>Receiving\<close>

text \<open>One turn of \<^verbatim>\<open>RecvThread\<close> with what the transport gave, and whether the network thread takes the
  message; and \<^verbatim>\<open>Incoming\<close> on the network thread. \<open>argc\<close> and \<open>fresh\<close> are the number of arguments of a
  channel's signature and the variables they are read into.\<close>

definition RecvThread :: "bool \<Rightarrow> int \<times> DmqHeader \<times> byte list \<Rightarrow> 'a rpc \<Rightarrow> 'a rpc" where
  "RecvThread taken x w =
     (case x of (error, header, arg_data) \<Rightarrow>
        if \<not> m_recvThreadCreated w \<or> m_recvThreadExit w then w
        else if error = 0 \<and> arg_data \<noteq> []
        then (if taken then w\<lparr>work_queue := work_queue w @ [Incoming_message header arg_data]\<rparr> else w)
        else if error \<noteq> 0 then w\<lparr>OnError := OnError w @ [(INVALID_REMOTE_ID, ERR_TRANSPORT_RECEIVE, error)]\<rparr>
        else w)"

definition Incoming :: "nat environment \<Rightarrow> (nat \<Rightarrow> nat) \<Rightarrow> (nat \<Rightarrow> 'a) \<Rightarrow> DmqHeader \<Rightarrow> byte list \<Rightarrow> 'a rpc \<Rightarrow> 'a rpc" where
  "Incoming env argc fresh header arg_data w =
     (if m_id header = ACK_REMOTE_ID then w
      else case map_of (m_receiveIdMap w) (m_id header) of
             Some (Some t) \<Rightarrow>
               (let (r, called, is, d, l) =
                      DelegateFunctionRemote_Invoke env (argc t) (fresh t) (open_reader arg_data) (ch_delegate (targets w t), rpc_link w)
                in w\<lparr>targets := (targets w)(t := (targets w t)\<lparr>ch_delegate := d\<rparr>), rpc_link := l,
                     invoked := invoked w @ (case called of None \<Rightarrow> [] | Some c \<Rightarrow> [(t, c)])\<rparr>)
           | _ \<Rightarrow> w)"

section \<open>A call that waits\<close>

text \<open>On the network thread the channel is called at once.\<close>

definition invoke_on_network_thread ::
  "nat environment \<Rightarrow> nat \<Rightarrow> 'a \<Rightarrow> 'a rpc \<Rightarrow> (exc + bool) \<times> 'a rpc" where
  "invoke_on_network_thread env t args w =
     (let (x, c, l) = RemoteChannel_call env args (targets w t, rpc_link w) in
      case x of
        Some e \<Rightarrow> (Inl e, w\<lparr>targets := (targets w)(t := c), rpc_link := l\<rparr>)
      | None \<Rightarrow> (let (e, d) = Remote_GetError (ch_delegate c)
                 in (Inr (e = DelegateError.SUCCESS), w\<lparr>targets := (targets w)(t := c\<lparr>ch_delegate := d\<rparr>), rpc_link := l\<rparr>)))"

definition set_call :: "nat \<Rightarrow> 'a rpc_call \<Rightarrow> 'a rpc \<Rightarrow> 'a rpc" where
  "set_call k c w = w\<lparr>calls := (calls w)(k := c)\<rparr>"

text \<open>On another thread: the state is made and the callback connected, the lambda is dispatched.\<close>

definition begin_call :: "nat \<Rightarrow> nat \<Rightarrow> 'a \<Rightarrow> 'a rpc \<Rightarrow> 'a rpc" where
  "begin_call k t args w =
     set_call k \<lparr>c_target = t, c_args = args, remoteId = rd_id (remote_state (ch_delegate (targets w t))),
        state = InvokeWaitState, retVal = None, phase = Connected, before = [], after = [], start = length (reported w)\<rparr>
       (w\<lparr>slots := slots w @ [k]\<rparr>)"

definition post_call :: "nat \<Rightarrow> bool \<Rightarrow> 'a rpc \<Rightarrow> 'a rpc" where
  "post_call k taken w =
     (if taken then set_call k ((calls w k)\<lparr>phase := Posted\<rparr>) (w\<lparr>work_queue := work_queue w @ [Send_call k]\<rparr>)
      else set_call k ((calls w k)\<lparr>phase := Answered\<rparr>) w)"

text \<open>The lambda on the network thread: the call of the channel, which may throw, and the rest.\<close>

definition send_remote_call :: "nat environment \<Rightarrow> nat \<Rightarrow> 'a rpc \<Rightarrow> 'a rpc" where
  "send_remote_call env k w =
     (let c = calls w k;
          (x, t, l) = RemoteChannel_call env (c_args c) (targets w (c_target c), rpc_link w);
          w1 = w\<lparr>targets := (targets w)(c_target c := t), rpc_link := l\<rparr>
      in case x of
           Some e \<Rightarrow> set_call k (c\<lparr>phase := Answered\<rparr>) w1
         | None \<Rightarrow> set_call k (c\<lparr>phase := Sending\<rparr>) (w1\<lparr>sending_call := Some k\<rparr>))"

definition finish_send :: "nat \<Rightarrow> 'a rpc \<Rightarrow> 'a rpc" where
  "finish_send k w =
     (let c = calls w k;
          t = targets w (c_target c);
          st = record_seq (rd_lastSeqNum (remote_state (ch_delegate t))) (state c);
          (e, d) = Remote_GetError (ch_delegate t)
      in set_call k (c\<lparr>state := st, retVal := Some (e = DelegateError.SUCCESS), phase := Answered\<rparr>)
           (w\<lparr>targets := (targets w)(c_target c := t\<lparr>ch_delegate := d\<rparr>), sending_call := None\<rparr>))"

text \<open>The signal of the transport monitor, one callback of it, and the end of a call. The callback of a call may
  run after the call has returned, when the signal has taken its slots before.\<close>

definition report_status :: "u16 \<times> u16 \<times> Status \<Rightarrow> 'a rpc \<Rightarrow> 'a rpc" where
  "report_status x w = w\<lparr>reported := reported w @ [x], callbacks := callbacks w @ map (\<lambda>k. (k, x)) (slots w)\<rparr>"

definition run_callback :: "nat \<times> u16 \<times> u16 \<times> Status \<Rightarrow> 'a rpc \<Rightarrow> 'a rpc" where
  "run_callback kx w =
     (case kx of (k, i, seq, status) \<Rightarrow>
        let c = calls w k;
            c1 = c\<lparr>state := statusCbFunc (remoteId c) (i, seq, status) (state c)\<rparr>;
            own = (i = remoteId c \<and> (\<forall>b. phase c \<noteq> Returned b))
        in set_call k (if \<not> own then c1 else if seqSet (state c) then c1\<lparr>after := after c @ [(seq, status)]\<rparr>
             else c1\<lparr>before := before c @ [(seq, status)]\<rparr>) (w\<lparr>callbacks := remove1 kx (callbacks w)\<rparr>))"

definition wait_call :: "nat \<Rightarrow> bool \<Rightarrow> 'a rpc \<Rightarrow> 'a rpc option" where
  "wait_call k time_is_up w =
     (let c = calls w k in
      case Wait False time_is_up (sem (state c)) of
        None \<Rightarrow> None
      | Some (b, s) \<Rightarrow> Some (set_call k (c\<lparr>state := (state c)\<lparr>sem := s\<rparr>, phase := Waited\<rparr>) w))"

definition return_call :: "nat \<Rightarrow> 'a rpc \<Rightarrow> 'a rpc" where
  "return_call k w =
     (let c = calls w k
      in set_call k (c\<lparr>phase := Returned (iw_success (state c))\<rparr>) (w\<lparr>slots := remove1 k (slots w)\<rparr>))"

section \<open>Steps\<close>

datatype 'a rpc_op =
    Attach_op nat nat | Start_op bool | Stop_op bool | Register_op bool u16 "nat option" | Handler_op nat nat
  | Begin_op nat nat 'a | Post_op nat bool | Network_op | Finish_op | Direct_op nat 'a | Cancel_op work
  | Report_op "u16 \<times> u16 \<times> Status" | Callback_op "nat \<times> u16 \<times> u16 \<times> Status" | Wait_op nat bool | Return_op nat
  | Receive_op bool "int \<times> DmqHeader \<times> byte list"

text \<open>A message that waits in the queue is taken away when the thread exits or, if it is one received, when the receive
  thread no longer waits for it.\<close>

definition cancel_work :: "work \<Rightarrow> 'a rpc \<Rightarrow> 'a rpc" where
  "cancel_work x w =
     (let w1 = w\<lparr>work_queue := remove1 x (work_queue w)\<rparr> in
      case x of Send_call k \<Rightarrow> set_call k ((calls w k)\<lparr>phase := Answered\<rparr>) w1 | Incoming_message h os \<Rightarrow> w1)"

definition network_step :: "nat environment \<Rightarrow> (nat \<Rightarrow> nat) \<Rightarrow> (nat \<Rightarrow> 'a) \<Rightarrow> 'a rpc \<Rightarrow> 'a rpc option" where
  "network_step env argc fresh w =
     (case work_queue w of
        [] \<Rightarrow> None
      | Send_call k # xs \<Rightarrow> Some (send_remote_call env k (w\<lparr>work_queue := xs\<rparr>))
      | Incoming_message header os # xs \<Rightarrow> Some (Incoming env argc fresh header os (w\<lparr>work_queue := xs\<rparr>)))"

fun rpc_step :: "nat environment \<Rightarrow> (nat \<Rightarrow> nat) \<Rightarrow> (nat \<Rightarrow> 'a) \<Rightarrow> 'a rpc_op \<Rightarrow> 'a rpc \<Rightarrow> 'a rpc option" where
  "rpc_step env argc fresh (Attach_op tx rx) w = Attach tx rx w"
| "rpc_step env argc fresh (Start_op taken) w = (if sending_call w = None then Start_dispatcher taken w else None)"
| "rpc_step env argc fresh (Stop_op taken) w = (if sending_call w = None then Some (Stop_dispatcher taken w) else None)"
| "rpc_step env argc fresh (Register_op taken i e) w =
     (if sending_call w = None then Some (RegisterEndpoint taken i e w) else None)"
| "rpc_step env argc fresh (Handler_op h t) w = Some (set_handler h t w)"
| "rpc_step env argc fresh (Begin_op k t args) w = (if phase (calls w k) = Unused then Some (begin_call k t args w) else None)"
| "rpc_step env argc fresh (Post_op k taken) w = (if phase (calls w k) = Connected then Some (post_call k taken w) else None)"
| "rpc_step env argc fresh Network_op w = (if sending_call w = None then network_step env argc fresh w else None)"
| "rpc_step env argc fresh Finish_op w = (case sending_call w of None \<Rightarrow> None | Some k \<Rightarrow> Some (finish_send k w))"
| "rpc_step env argc fresh (Direct_op t args) w =
     (if sending_call w = None then Some (snd (invoke_on_network_thread env t args w)) else None)"
| "rpc_step env argc fresh (Cancel_op x) w = (if x \<in> set (work_queue w) then Some (cancel_work x w) else None)"
| "rpc_step env argc fresh (Report_op x) w = Some (report_status x w)"
| "rpc_step env argc fresh (Callback_op x) w = (if x \<in> set (callbacks w) then Some (run_callback x w) else None)"
| "rpc_step env argc fresh (Wait_op k time_is_up) w =
     (if phase (calls w k) = Answered \<and> retVal (calls w k) = Some True then wait_call k time_is_up w else None)"
| "rpc_step env argc fresh (Return_op k) w =
     (if phase (calls w k) = Waited \<or> phase (calls w k) = Answered \<and> retVal (calls w k) \<noteq> Some True
      then Some (return_call k w) else None)"
| "rpc_step env argc fresh (Receive_op taken x) w = Some (RecvThread taken x w)"

fun rpc_run :: "nat environment \<Rightarrow> (nat \<Rightarrow> nat) \<Rightarrow> (nat \<Rightarrow> 'a) \<Rightarrow> 'a rpc_op list \<Rightarrow> 'a rpc \<Rightarrow> 'a rpc option" where
  "rpc_run env argc fresh [] w = Some w"
| "rpc_run env argc fresh (op # ops) w =
     (case rpc_step env argc fresh op w of None \<Rightarrow> None | Some w1 \<Rightarrow> rpc_run env argc fresh ops w1)"

definition RemoteDispatcher :: "(nat \<Rightarrow> ('a, nat) RemoteChannel) \<Rightarrow> nat link \<Rightarrow> 'a \<Rightarrow> 'a rpc" where
  "RemoteDispatcher chs l x =
     \<lparr>m_txTransport = None, m_rxTransport = None, m_receiveIdMap = [], m_recvThreadExit = False,
      m_recvThreadCreated = False, m_timeoutTimer_on = False, targets = chs, rpc_link = l,
      calls = (\<lambda>_. \<lparr>c_target = 0, c_args = x, remoteId = 0, state = InvokeWaitState, retVal = None, phase = Unused,
        before = [], after = [], start = 0\<rparr>),
      work_queue = [], sending_call = None, slots = [], callbacks = [], reported = [], invoked = [], OnError = []\<rparr>"

section \<open>What the channel does\<close>

text \<open>Nothing but a successful dispatch leaves the error of a channel at success; packets are only added, and the
  remote id stays.\<close>

definition link_grows :: "'h RemoteDispatchState \<times> 'h link \<Rightarrow> 'h RemoteDispatchState \<times> 'h link \<Rightarrow> bool" where
  "link_grows a b \<longleftrightarrow> rd_id (fst b) = rd_id (fst a) \<and> (\<exists>ps. packets (snd b) = packets (snd a) @ ps)"

definition sent_last :: "'h RemoteDispatchState \<times> 'h link \<Rightarrow> bool" where
  "sent_last b \<longleftrightarrow> DmqHeader (rd_id (fst b)) (rd_lastSeqNum (fst b)) 0 \<in> set (map (\<lambda>p. fst (snd p)) (packets (snd b)))"

lemma link_grows_refl: "link_grows a a"
  by (simp add: link_grows_def)

lemma link_grows_trans: "link_grows a b \<Longrightarrow> link_grows b c \<Longrightarrow> link_grows a c"
  by (auto simp: link_grows_def)

lemma RaiseError_link:
  "link_grows sw (snd (RaiseError env e aux sw))" "rd_error (fst (snd (RaiseError env e aux sw))) = e"
  by (auto simp: link_grows_def RaiseError_def call_handler_def Let_def split: prod.split option.split)

lemma RaiseSuccess_link:
  "link_grows sw (snd (RaiseSuccess env sw))" "sent_last sw \<Longrightarrow> sent_last (snd (RaiseSuccess env sw))"
  by (cases sw; cases "rd_errorHandler (fst sw)";
      simp add: link_grows_def sent_last_def RaiseSuccess_def call_handler_def Let_def)+

lemma dispatch_stream_link:
  assumes "dispatch_stream env d os sw = (x, sw')"
  shows "link_grows sw sw'" and "x = None \<Longrightarrow> rd_error (fst sw') = DelegateError.SUCCESS \<Longrightarrow> sent_last sw'"
proof -
  obtain s w where sw: "sw = (s, w)" by (cases sw)
  obtain result seq w1 where dsp: "Dispatch env d os (rd_id s) (rd_lastSeqNum s) w = (result, seq, w1)" by (metis prod_cases3)
  have one: "link_grows sw (s\<lparr>rd_lastSeqNum := seq\<rparr>, w1)"
    "result = Inr 0 \<Longrightarrow> sent_last (s\<lparr>rd_lastSeqNum := seq\<rparr>, w1)"
    using dsp by (auto simp: sw link_grows_def sent_last_def Dispatch_def fetch_seq_def send_packet_def Let_def
        split: option.splits sum.splits)
  note grow = link_grows_trans [OF one(1)]
  show "link_grows sw sw'"
  proof (cases result)
    case (Inl y)
    with assms one(1) show ?thesis by (simp add: sw dispatch_stream_def dsp)
  next
    case (Inr err)
    with assms have "sw' = (if err = 0 then snd (RaiseSuccess env (s\<lparr>rd_lastSeqNum := seq\<rparr>, w1))
        else snd (RaiseError env ERR_DISPATCH err (s\<lparr>rd_lastSeqNum := seq\<rparr>, w1)))"
      by (simp add: sw dispatch_stream_def dsp Let_def split: if_splits)
    with grow [OF RaiseError_link(1)] grow [OF RaiseSuccess_link(1)] show ?thesis by simp
  qed
  show "sent_last sw'" if "x = None" "rd_error (fst sw') = DelegateError.SUCCESS"
  proof (cases result)
    case (Inl y)
    with assms that show ?thesis by (simp add: sw dispatch_stream_def dsp)
  next
    case (Inr err)
    show ?thesis
    proof (cases "err = 0")
      case True
      with assms Inr RaiseSuccess_link(2) [OF one(2), of env] show ?thesis
        by (simp add: sw dispatch_stream_def dsp)
    next
      case False
      with assms Inr have "sw' = snd (RaiseError env ERR_DISPATCH err (s\<lparr>rd_lastSeqNum := seq\<rparr>, w1))"
        by (simp add: sw dispatch_stream_def dsp)
      with that show ?thesis by (simp add: RaiseError_link(2))
    qed
  qed
qed

lemma SendSerialized_link:
  assumes "SendSerialized env failed sw = (x, sw')"
  shows "link_grows sw sw'"
    and "x = None \<Longrightarrow> rd_error (fst sw') = DelegateError.SUCCESS \<Longrightarrow> \<not> failed \<Longrightarrow> sent_last sw'"
    and "failed \<Longrightarrow> sw' = sw"
proof -
  obtain s w where sw: "sw = (s, w)" by (cases sw)
  have err: "link_grows sw sw' \<and> (rd_error (fst sw') = DelegateError.SUCCESS \<longrightarrow> sent_last sw')"
    if "e \<noteq> DelegateError.SUCCESS" "(x, sw') = RaiseError env e 0 q" "link_grows sw q" for e q
    using RaiseError_link [where sw = q and env = env and e = e and aux = 0] that link_grows_trans [OF that(3)] by (metis snd_conv)
  have "failed \<or> (link_grows sw sw' \<and> (x = None \<longrightarrow> rd_error (fst sw') = DelegateError.SUCCESS \<longrightarrow> sent_last sw'))"
  proof (cases "rd_stream s")
    case None
    with assms err [of ERR_STREAM_NOT_GOOD sw] show ?thesis by (auto simp: SendSerialized_def sw link_grows_refl)
  next
    case (Some os)
    show ?thesis
    proof (cases "rd_dispatcher s")
      case None
      with Some assms err [of ERR_STREAM_NOT_GOOD sw] err [of ERR_NO_DISPATCHER sw] show ?thesis
        by (cases "wgood (streams w os)") (auto simp: SendSerialized_def sw link_grows_refl)
    next
      case (Some d)
      obtain y q where out: "dispatch_stream env d os sw = (y, q)" by (metis surj_pair)
      note ds = dispatch_stream_link [OF out]
      with Some \<open>rd_stream s = Some os\<close> assms out err [of ERR_STREAM_NOT_GOOD sw] err [of ERR_DISPATCH q] show ?thesis
        by (cases "wgood (streams w os)") (auto simp: SendSerialized_def sw link_grows_refl split: if_splits)
    qed
  qed
  moreover show "failed \<Longrightarrow> sw' = sw" using assms by (simp add: SendSerialized_def sw)
  ultimately show "link_grows sw sw'"
    and "x = None \<Longrightarrow> rd_error (fst sw') = DelegateError.SUCCESS \<Longrightarrow> \<not> failed \<Longrightarrow> sent_last sw'"
    by (auto simp: link_grows_refl)
qed

lemma state_call_link:
  assumes "state_call env ser args sw = (x, sw')"
  shows "link_grows sw sw'" and "x = None \<Longrightarrow> rd_error (fst sw') = DelegateError.SUCCESS \<Longrightarrow> sent_last sw'"
proof -
  have "link_grows sw sw' \<and> (x = None \<longrightarrow> rd_error (fst sw') = DelegateError.SUCCESS \<longrightarrow> sent_last sw')"
  proof (cases "ser = None \<or> rd_stream (fst sw) = None")
    case True
    then have "(x, sw') = RaiseError env ERR_NO_SERIALIZER 0 sw"
      using assms by (auto simp: state_call_def split: option.splits)
    with RaiseError_link [where sw = sw and env = env and e = ERR_NO_SERIALIZER and aux = 0] show ?thesis by (metis snd_conv DelegateError.distinct(3))
  next
    case False
    then obtain z os where z: "ser = Some z" "rd_stream (fst sw) = Some os" by auto
    obtain s w where sw: "sw = (s, w)" by (cases sw)
    obtain y stream where wr: "Write z args (streams w os) = (y, stream)" by (metis surj_pair)
    let ?q = "(s, w\<lparr>streams := (streams w)(os := stream)\<rparr>)"
    have one: "link_grows sw ?q" by (simp add: link_grows_def sw)
    consider "y = None" | "y = Some Std_exception" | "y = Some Other_exception" by (metis exc.exhaust option.exhaust)
    then show ?thesis
    proof cases
      case 1
      then have "SendSerialized env False ?q = (x, sw')" using assms z wr by (simp add: state_call_def sw)
      from SendSerialized_link [OF this] one show ?thesis by (auto intro: link_grows_trans)
    next
      case 2
      obtain v r where re: "RaiseError env ERR_SERIALIZE 0 ?q = (v, r)" by (metis surj_pair)
      with RaiseError_link [where sw = ?q and env = env and e = ERR_SERIALIZE and aux = 0] one have r: "link_grows sw r" "rd_error (fst r) = ERR_SERIALIZE"
        by (auto intro: link_grows_trans)
      from 2 assms z wr re one r show ?thesis
        by (cases v; cases "catching env") (auto simp: state_call_def sw SendSerialized_def split: prod.splits)
    next
      case 3
      with assms z wr one show ?thesis by (auto simp: state_call_def sw)
    qed
  qed
  then show "link_grows sw sw'" "x = None \<Longrightarrow> rd_error (fst sw') = DelegateError.SUCCESS \<Longrightarrow> sent_last sw'" by auto
qed

text \<open>The same of a channel.\<close>

abbreviation channel_state :: "('a, 'h) RemoteChannel \<Rightarrow> 'h RemoteDispatchState" where
  "channel_state c \<equiv> remote_state (ch_delegate c)"

lemma RemoteChannel_call_link:
  assumes "RemoteChannel_call env args (c, l) = (x, c', l')"
  shows "rd_id (channel_state c') = rd_id (channel_state c)" "\<exists>ps. packets l' = packets l @ ps"
    and "x = None \<Longrightarrow> rd_error (channel_state c') = DelegateError.SUCCESS \<Longrightarrow> sent_last (channel_state c', l')"
proof -
  obtain y s u where call: "state_call env (remote_serializer (ch_delegate c)) args (channel_state c, l) = (y, s, u)"
    by (metis prod_cases3)
  with assms have eq: "x = y" "channel_state c' = s" "l' = u"
    by (auto simp: RemoteChannel_call_def DelegateFunctionRemote_call_def Remote_call_def)
  from state_call_link [OF call] show "rd_id (channel_state c') = rd_id (channel_state c)" "\<exists>ps. packets l' = packets l @ ps"
    "x = None \<Longrightarrow> rd_error (channel_state c') = DelegateError.SUCCESS \<Longrightarrow> sent_last (channel_state c', l')"
    by (simp_all add: link_grows_def eq)
qed

lemma Invoke_link:
  assumes "DelegateFunctionRemote_Invoke env argc fresh is (d, l) = (r, called, is', d', l')"
  shows "rd_id (remote_state d') = rd_id (remote_state d)" "\<exists>ps. packets l' = packets l @ ps"
proof -
  have err: "link_grows (remote_state d, l) (snd (RaiseError env e 0 (remote_state d, l)))" for e
    by (rule RaiseError_link)
  have "link_grows (remote_state d, l) (remote_state d', l')"
    using assms err [of ERR_NO_SERIALIZER] err [of ERR_STREAM_NOT_GOOD] err [of ERR_DESERIALIZE] err [of ERR_DESERIALIZE_EXCEPTION]
    by (auto simp: DelegateFunctionRemote_Invoke_def Remote_Invoke_def Let_def link_grows_refl
        split: option.splits if_splits prod.splits exc.splits)
  then show "rd_id (remote_state d') = rd_id (remote_state d)" "\<exists>ps. packets l' = packets l @ ps"
    by (simp_all add: link_grows_def)
qed
section \<open>What a call answers\<close>

text \<open>The statuses of a sequence number; the verdict on a call: the last of them that came before the number was known,
  or else the first that came after.\<close>

definition matching :: "u16 \<Rightarrow> (u16 \<times> Status) list \<Rightarrow> Status list" where
  "matching s xs = map snd (filter (\<lambda>x. fst x = s) xs)"

definition verdict :: "u16 \<Rightarrow> (u16 \<times> Status) list \<Rightarrow> (u16 \<times> Status) list \<Rightarrow> bool" where
  "verdict s xs ys = (case rev (matching s xs) of
     x # _ \<Rightarrow> x = Status.SUCCESS
   | [] \<Rightarrow> (case matching s ys of x # _ \<Rightarrow> x = Status.SUCCESS | [] \<Rightarrow> False))"

definition live :: "phase \<Rightarrow> bool" where
  "live p \<longleftrightarrow> p \<notin> {Unused, Returned True, Returned False}"

definition state_says :: "'a rpc_call \<Rightarrow> bool" where
  "state_says c \<longleftrightarrow> (let st = state c in
     if seqSet st
     then complete st = (matching (expectedSeq st) (before c) \<noteq> [] \<or> matching (expectedSeq st) (after c) \<noteq> [])
       \<and> iw_success st = verdict (expectedSeq st) (before c) (after c)
     else \<not> complete st \<and> \<not> iw_success st \<and> after c = []
       \<and> (\<forall>s. map_of (early st) s = (if matching s (before c) = [] then None else Some (last (matching s (before c))))))"

definition call_ok :: "'a rpc_call \<Rightarrow> bool" where
  "call_ok c \<longleftrightarrow> (retVal c \<noteq> None \<longleftrightarrow> seqSet (state c))
     \<and> (phase c \<in> {Unused, Connected, Posted, Sending} \<longrightarrow> \<not> seqSet (state c))
     \<and> (phase c = Waited \<longrightarrow> retVal c = Some True)
     \<and> (live (phase c) \<longrightarrow> state_says c)
     \<and> (\<forall>b. phase c = Returned b \<longrightarrow> b = (seqSet (state c) \<and> verdict (expectedSeq (state c)) (before c) (after c)))"

lemma matching_simps [simp]:
  "matching s [] = []" "matching s (xs @ ys) = matching s xs @ matching s ys"
  "matching s ((s', x) # xs) = (if s' = s then x # matching s xs else matching s xs)"
  by (simp_all add: matching_def)

lemma verdict_snoc: "verdict s xs (ys @ [(s', x)]) =
    (if matching s xs = [] \<and> matching s ys = [] then s' = s \<and> x = Status.SUCCESS else verdict s xs ys)"
  by (simp add: verdict_def split: list.split)

lemma verdict_start: "verdict s xs [] = (matching s xs \<noteq> [] \<and> last (matching s xs) = Status.SUCCESS)"
  by (cases "matching s xs" rule: rev_cases) (simp_all add: verdict_def)

lemma verdict_none: "matching s xs = [] \<Longrightarrow> matching s ys = [] \<Longrightarrow> \<not> verdict s xs ys"
  by (simp add: verdict_def)

lemma callback_says:
  assumes "state_says c" and "st = statusCbFunc (remoteId c) (i, s, x) (state c)"
  shows "state_says (if i \<noteq> remoteId c then c\<lparr>state := st\<rparr>
      else if seqSet (state c) then c\<lparr>state := st, after := after c @ [(s, x)]\<rparr>
      else c\<lparr>state := st, before := before c @ [(s, x)]\<rparr>)"
  using assms by (auto simp: state_says_def statusCbFunc_def verdict_snoc verdict_none put_lookup Let_def split: if_splits)

lemma callback_seq: "seqSet (statusCbFunc own x st) = seqSet st" "expectedSeq (statusCbFunc own x st) = expectedSeq st"
  by (simp_all add: statusCbFunc_def split: prod.split)

lemma record_says:
  assumes "state_says c" and "\<not> seqSet (state c)"
  shows "state_says (c\<lparr>state := record_seq s (state c), retVal := r, phase := p\<rparr>)"
proof (cases "map_of (early (state c)) s")
  case None
  with assms show ?thesis by (auto simp: state_says_def record_seq_def verdict_start Let_def split: if_splits)
next
  case (Some x)
  with assms show ?thesis by (auto simp: state_says_def record_seq_def verdict_start Let_def split: if_splits)
qed

lemma record_seq_set: "seqSet (record_seq s st)" "expectedSeq (record_seq s st) = s"
  by (simp_all add: record_seq_def Let_def split: option.split)

section \<open>The invariant\<close>

definition numbered_packet :: "u16 \<Rightarrow> u16 \<Rightarrow> 'a rpc \<Rightarrow> bool" where
  "numbered_packet i s w \<longleftrightarrow> DmqHeader i s 0 \<in> set (map (\<lambda>p. fst (snd p)) (packets (rpc_link w)))"

definition target_of :: "nat \<Rightarrow> 'a rpc \<Rightarrow> nat RemoteDispatchState" where
  "target_of k w = channel_state (targets w (c_target (calls w k)))"

definition placed :: "nat \<Rightarrow> 'a rpc \<Rightarrow> bool" where
  "placed k w \<longleftrightarrow> count (mset (work_queue w)) (Send_call k) = (if phase (calls w k) = Posted then 1 else 0)
     \<and> (sending_call w = Some k \<longleftrightarrow> phase (calls w k) = Sending)
     \<and> count (mset (slots w)) k = (if live (phase (calls w k)) then 1 else 0)"

definition informed :: "nat \<Rightarrow> 'a rpc \<Rightarrow> bool" where
  "informed k w \<longleftrightarrow> (let c = calls w k in
     (phase c \<noteq> Unused \<longrightarrow> start c \<le> length (reported w))
     \<and> (\<forall>x \<in> set (before c @ after c). (remoteId c, fst x, snd x) \<in> set (drop (start c) (reported w)))
     \<and> (\<forall>x. (k, x) \<in> set (callbacks w) \<longrightarrow> phase c \<noteq> Unused \<and> x \<in> set (drop (start c) (reported w))))"

definition on_the_link :: "nat \<Rightarrow> 'a rpc \<Rightarrow> bool" where
  "on_the_link k w \<longleftrightarrow> (let c = calls w k in
     (phase c \<noteq> Unused \<longrightarrow> remoteId c = rd_id (target_of k w))
     \<and> (retVal c = Some True \<longrightarrow> numbered_packet (remoteId c) (expectedSeq (state c)) w)
     \<and> (phase c = Sending \<and> rd_error (target_of k w) = DelegateError.SUCCESS
          \<longrightarrow> numbered_packet (remoteId c) (rd_lastSeqNum (target_of k w)) w))"

definition good :: "nat \<Rightarrow> 'a rpc \<Rightarrow> bool" where
  "good k w \<longleftrightarrow> call_ok (calls w k) \<and> placed k w \<and> informed k w \<and> on_the_link k w"

text \<open>What a step leaves of the calls it is not about.\<close>

definition same_places :: "nat \<Rightarrow> 'a rpc \<Rightarrow> 'a rpc \<Rightarrow> bool" where
  "same_places k w w' \<longleftrightarrow> calls w' k = calls w k
     \<and> count (mset (work_queue w')) (Send_call k) = count (mset (work_queue w)) (Send_call k)
     \<and> (sending_call w' = Some k \<longleftrightarrow> sending_call w = Some k) \<and> count (mset (slots w')) k = count (mset (slots w)) k"

definition same_news :: "nat \<Rightarrow> 'a rpc \<Rightarrow> 'a rpc \<Rightarrow> bool" where
  "same_news k w w' \<longleftrightarrow> reported w' = reported w \<and> (\<forall>x. (k, x) \<in> set (callbacks w') \<longrightarrow> (k, x) \<in> set (callbacks w))"

definition same_channels :: "'a rpc \<Rightarrow> 'a rpc \<Rightarrow> bool" where
  "same_channels w w' \<longleftrightarrow> (\<forall>t. rd_id (channel_state (targets w' t)) = rd_id (channel_state (targets w t)))
     \<and> (\<exists>ps. packets (rpc_link w') = packets (rpc_link w) @ ps)"

definition same_target :: "'a rpc \<Rightarrow> 'a rpc \<Rightarrow> bool" where
  "same_target w w' \<longleftrightarrow> (\<forall>t. rd_error (channel_state (targets w' t)) = rd_error (channel_state (targets w t))
     \<and> rd_lastSeqNum (channel_state (targets w' t)) = rd_lastSeqNum (channel_state (targets w t)))"

lemma numbered_grows: "same_channels w w' \<Longrightarrow> numbered_packet i s w \<Longrightarrow> numbered_packet i s w'"
  by (auto simp: same_channels_def numbered_packet_def)

lemma on_the_link_kept:
  assumes "same_channels w w'" and "calls w' k = calls w k" and "phase (calls w k) = Sending \<Longrightarrow> same_target w w'"
    and "on_the_link k w"
  shows "on_the_link k w'"
  using assms numbered_grows [OF assms(1)]
  by (auto simp: on_the_link_def target_of_def same_target_def Let_def) (simp_all add: same_channels_def)

lemma good_kept:
  assumes "good k w" and "same_places k w w'" and "same_news k w w'" and "same_channels w w'"
    and "sending_call w = Some k \<Longrightarrow> same_target w w'"
  shows "good k w'"
proof -
  have "phase (calls w k) = Sending \<Longrightarrow> same_target w w'" using assms(1,5) by (simp add: good_def placed_def)
  from on_the_link_kept [OF assms(4) _ this] assms show ?thesis
    by (auto simp: good_def same_places_def same_news_def placed_def informed_def Let_def)
qed

lemma same_channels_refl:
  "targets w' = targets w \<Longrightarrow> rpc_link w' = rpc_link w \<Longrightarrow> same_channels w w'"
  "targets w' = targets w \<Longrightarrow> same_target w w'"
  by (simp_all add: same_channels_def same_target_def)
section \<open>Every step keeps it\<close>

lemma good_all:
  assumes "\<forall>j. good j w" and "good k w'" and "\<And>j. j \<noteq> k \<Longrightarrow> same_places j w w' \<and> same_news j w w'"
    and "same_channels w w'" and "\<And>j. j \<noteq> k \<Longrightarrow> sending_call w = Some j \<Longrightarrow> same_target w w'"
  shows "\<forall>j. good j w'"
proof
  fix j
  show "good j w'"
    using assms good_kept [of j w w'] by (cases "j = k") blast+
qed

lemmas call_parts = call_ok_def live_def
lemmas place_defs = placed_def same_places_def same_news_def informed_def set_call_def live_def Let_def

lemma begin_good:
  assumes "\<forall>j. good j w" and "phase (calls w k) = Unused"
  shows "\<forall>j. good j (begin_call k t args w)"
proof (rule good_all [OF assms(1), where k = k])
  have k: "placed k w" "informed k w" "call_ok (calls w k)" using assms(1) by (simp_all add: good_def)
  show "good k (begin_call k t args w)"
    using k assms(2) by (auto simp: good_def place_defs begin_call_def call_ok_def state_says_def InvokeWaitState_def
        on_the_link_def target_of_def)
qed (auto simp: place_defs begin_call_def intro: same_channels_refl)

lemma numbered_link: "rpc_link w' = rpc_link w \<Longrightarrow> numbered_packet i s w' = numbered_packet i s w"
  by (simp add: numbered_packet_def)

lemma on_the_link_same:
  assumes "on_the_link k w" and "phase (calls w k) \<noteq> Unused" and "targets w' = targets w" and "rpc_link w' = rpc_link w"
    and "remoteId (calls w' k) = remoteId (calls w k)" "c_target (calls w' k) = c_target (calls w k)"
    and "retVal (calls w' k) = retVal (calls w k)" "expectedSeq (state (calls w' k)) = expectedSeq (state (calls w k))"
    and "phase (calls w' k) = Sending \<Longrightarrow> phase (calls w k) = Sending"
  shows "on_the_link k w'"
proof -
  have "target_of k w' = target_of k w" using assms(3,6) by (simp add: target_of_def)
  with assms(1,2,5,7-9) numbered_link [OF assms(4)] show ?thesis
    unfolding on_the_link_def Let_def by metis
qed

lemma state_says_phase [simp]: "state_says (c\<lparr>phase := p\<rparr>) = state_says c"
  unfolding state_says_def by simp

lemma remove_callback: "y \<in> set (remove1 x ys) \<Longrightarrow> y \<in> set ys"
  using set_remove1_subset by fast

lemma phase_good:
  assumes "good k w" and "live (phase (calls w k))" and "live p"
    and "phase (calls w k) = Waited \<Longrightarrow> p = Waited"
    and "p = Waited \<Longrightarrow> retVal (calls w k) = Some True" "p \<noteq> Sending" "p \<in> {Connected, Posted} \<Longrightarrow> \<not> seqSet (state (calls w k))"
    and w': "w' = set_call k ((calls w k)\<lparr>phase := p\<rparr>) (w\<lparr>work_queue := q, sending_call := s\<rparr>)" and "s \<noteq> Some k"
    and "count (mset q) (Send_call k) = (if p = Posted then 1 else 0)"
  shows "good k w'"
proof -
  have k: "call_ok (calls w k)" "placed k w" "informed k w" "on_the_link k w" using assms(1) by (simp_all add: good_def)
  have p: "phase (calls w k) \<noteq> Unused" "p \<noteq> Unused" "p \<noteq> Returned b" for b
    using assms(2,3) by (cases b; auto simp: live_def)+
  have new: "calls w' k = (calls w k)\<lparr>phase := p\<rparr>" "work_queue w' = q" "sending_call w' = s" "slots w' = slots w"
    "reported w' = reported w" "callbacks w' = callbacks w" "targets w' = targets w" "rpc_link w' = rpc_link w"
    by (simp_all add: w' set_call_def)
  have "state_says (calls w k)" using k(1) assms(2) by (simp add: call_ok_def)
  then have "call_ok (calls w' k)"
    using k(1) assms(5-7) p by (auto simp: call_ok_def new)
  moreover have "placed k w'" using k(2) assms(2,3,6,9,10) by (simp add: placed_def new)
  moreover have "informed k w'" using k(3) p by (simp add: informed_def new Let_def)
  moreover have "on_the_link k w'"
    by (rule on_the_link_same [OF k(4) p(1)]) (use assms(6) in \<open>simp_all add: new\<close>)
  ultimately show ?thesis by (simp add: good_def)
qed

lemma post_good:
  assumes "\<forall>j. good j w" and "phase (calls w k) = Connected"
  shows "\<forall>j. good j (post_call k taken w)"
proof (rule good_all [OF assms(1), where k = k])
  have k: "good k w" using assms(1) by blast
  with assms(2) have no: "\<not> seqSet (state (calls w k))" "count (mset (work_queue w)) (Send_call k) = 0" "sending_call w \<noteq> Some k"
    by (auto simp: good_def placed_def call_ok_def)
  show "good k (post_call k taken w)"
    using assms(2) no
    by (intro phase_good [OF k, where p = "if taken then Posted else Answered"
          and q = "if taken then work_queue w @ [Send_call k] else work_queue w" and s = "sending_call w"])
      (cases taken; simp add: post_call_def live_def set_call_def)+
qed (auto simp: place_defs post_call_def intro: same_channels_refl)

lemma cancel_good:
  assumes "\<forall>j. good j w" and "x \<in> set (work_queue w)"
  shows "\<forall>j. good j (cancel_work x w)"
proof (cases x)
  case (Send_call k)
  have k: "good k w" using assms(1) by blast
  with assms(2) Send_call have p: "phase (calls w k) = Posted" "count (mset (work_queue w)) (Send_call k) = 1"
    by (auto simp: good_def placed_def split: if_splits)
  with k have no: "\<not> seqSet (state (calls w k))" "sending_call w \<noteq> Some k" by (auto simp: good_def placed_def call_ok_def)
  show ?thesis
  proof (rule good_all [OF assms(1), where k = k])
    show "good k (cancel_work x w)"
      using p no by (intro phase_good [OF k, where p = Answered and q = "remove1 x (work_queue w)" and s = "sending_call w"])
        (auto simp: cancel_work_def live_def set_call_def Send_call)
  qed (auto simp: place_defs cancel_work_def Send_call intro: same_channels_refl)
next
  case (Incoming_message h os)
  show ?thesis
    by (intro allI good_kept [OF spec [OF assms(1)]])
      (auto simp: place_defs cancel_work_def Incoming_message intro: same_channels_refl)
qed

lemma report_good:
  assumes "\<forall>j. good j w"
  shows "\<forall>j. good j (report_status x w)"
proof
  fix j
  let ?w' = "report_status x w"
  have j: "call_ok (calls w j)" "placed j w" "informed j w" "on_the_link j w" using assms by (simp_all add: good_def)
  have new: "calls ?w' = calls w" "work_queue ?w' = work_queue w" "sending_call ?w' = sending_call w" "slots ?w' = slots w"
    "reported ?w' = reported w @ [x]" "callbacks ?w' = callbacks w @ map (\<lambda>k. (k, x)) (slots w)" "targets ?w' = targets w"
    "rpc_link ?w' = rpc_link w"
    by (simp_all add: report_status_def)
  have "phase (calls w j) \<noteq> Unused" if "j \<in> set (slots w)"
    using j(2) that by (auto simp: placed_def live_def split: if_splits)
  with j(3) have "informed j ?w'" by (auto simp: informed_def new Let_def)
  moreover have "placed j ?w'" using j(2) by (simp add: placed_def new)
  moreover have "on_the_link j ?w'" using j(4) by (simp add: on_the_link_def target_of_def new numbered_link [OF new(8)])
  ultimately show "good j ?w'" using j(1) by (simp add: good_def new)
qed

lemma callback_good:
  assumes "\<forall>j. good j w" and "kx \<in> set (callbacks w)"
  shows "\<forall>j. good j (run_callback kx w)"
proof -
  obtain k i s x where kx: "kx = (k, i, s, x)" by (metis prod_cases4)
  have k: "good k w" using assms(1) by blast
  let ?c = "calls w k" and ?w' = "run_callback kx w"
  let ?st = "statusCbFunc (remoteId ?c) (i, s, x) (state ?c)"
  have news: "phase ?c \<noteq> Unused" "(i, s, x) \<in> set (drop (start ?c) (reported w))"
    using k assms(2) by (auto simp: good_def informed_def kx Let_def)
  have says: "live (phase ?c) \<Longrightarrow> state_says ?c" using k by (simp add: good_def call_ok_def)
  have new: "calls ?w' k = (if i \<noteq> remoteId ?c \<or> \<not> live (phase ?c) then ?c\<lparr>state := ?st\<rparr>
      else if seqSet (state ?c) then ?c\<lparr>state := ?st, after := after ?c @ [(s, x)]\<rparr>
      else ?c\<lparr>state := ?st, before := before ?c @ [(s, x)]\<rparr>)"
    using news(1) by (auto simp: run_callback_def kx set_call_def live_def Let_def)
  have parts: "retVal (calls ?w' k) = retVal ?c" "phase (calls ?w' k) = phase ?c" "seqSet (state (calls ?w' k)) = seqSet (state ?c)"
    "expectedSeq (state (calls ?w' k)) = expectedSeq (state ?c)" "remoteId (calls ?w' k) = remoteId ?c"
    "c_target (calls ?w' k) = c_target ?c" "start (calls ?w' k) = start ?c"
    "\<not> live (phase ?c) \<Longrightarrow> before (calls ?w' k) = before ?c \<and> after (calls ?w' k) = after ?c"
    "set (before (calls ?w' k) @ after (calls ?w' k)) \<subseteq> insert (s, x) (set (before ?c @ after ?c))"
    "i \<noteq> remoteId ?c \<Longrightarrow> before (calls ?w' k) = before ?c \<and> after (calls ?w' k) = after ?c"
    by (simp_all add: new callback_seq) auto
  have says': "live (phase ?c) \<Longrightarrow> state_says (calls ?w' k)"
    using callback_says [OF says refl, of i s x] by (auto simp: new split: if_splits)
  have fields: "work_queue ?w' = work_queue w" "sending_call ?w' = sending_call w" "slots ?w' = slots w" "reported ?w' = reported w"
    "targets ?w' = targets w" "rpc_link ?w' = rpc_link w" "callbacks ?w' = remove1 kx (callbacks w)"
    "j \<noteq> k \<Longrightarrow> calls ?w' j = calls w j" for j
    by (simp_all add: run_callback_def kx set_call_def Let_def)
  show ?thesis
  proof (rule good_all [OF assms(1), where k = k])
    have ok: "call_ok (calls ?w' k)"
      using k says' parts(8) by (auto simp: good_def call_ok_def parts(1-4) live_def)
    have informed: "informed k ?w'"
      using k news parts(9,10)
      by (cases "i = remoteId ?c") (auto simp: good_def informed_def fields parts(2,5,7) Let_def dest: remove_callback)
    have "placed k ?w'" using k by (simp add: good_def placed_def fields parts(1-7))
    moreover have "on_the_link k w" using k by (simp add: good_def)
    then have "on_the_link k ?w'"
      by (rule on_the_link_same [OF _ news(1) fields(5,6) parts(5,6,1,4)]) (simp add: parts(2))
    ultimately show "good k ?w'" using ok informed by (simp add: good_def)
    show "same_places j w ?w' \<and> same_news j w ?w'" if "j \<noteq> k" for j
      using that by (auto simp: same_places_def same_news_def fields dest: remove_callback)
    show "same_channels w ?w'" by (rule same_channels_refl) (simp_all add: fields)
    show "same_target w ?w'" by (rule same_channels_refl) (simp add: fields)
  qed
qed
lemma wait_good:
  assumes "\<forall>j. good j w" and "phase (calls w k) = Answered" and "retVal (calls w k) = Some True"
    and "wait_call k time_is_up w = Some w'"
  shows "\<forall>j. good j w'"
proof -
  obtain s where w': "w' = set_call k ((calls w k)\<lparr>state := (state (calls w k))\<lparr>sem := s\<rparr>, phase := Waited\<rparr>) w"
    using assms(4) by (auto simp: wait_call_def Let_def split: option.splits)
  have k: "good k w" using assms(1) by blast
  define w1 where "w1 = set_call k ((calls w k)\<lparr>state := (state (calls w k))\<lparr>sem := s\<rparr>\<rparr>) w"
  have says: "state_says ((calls w k)\<lparr>state := (state (calls w k))\<lparr>sem := s\<rparr>\<rparr>)"
    using k assms(2) unfolding good_def call_ok_def state_says_def live_def by (simp add: Let_def)
  have new: "calls w1 k = (calls w k)\<lparr>state := (state (calls w k))\<lparr>sem := s\<rparr>\<rparr>" "targets w1 = targets w" "rpc_link w1 = rpc_link w"
    by (simp_all add: w1_def set_call_def)
  have "on_the_link k w1"
    using k assms(2) by (intro on_the_link_same [where w = w and w' = w1 and k = k]) (simp_all add: good_def new)
  then have k1: "good k w1"
    using k says assms(2) by (auto simp: good_def call_ok_def w1_def set_call_def placed_def informed_def live_def Let_def)
  show ?thesis
  proof (rule good_all [OF assms(1), where k = k])
    show "good k w'"
      by (rule phase_good [OF k1, where p = Waited and q = "work_queue w" and s = "sending_call w"])
        (use k assms(2,3) in \<open>auto simp: w' w1_def set_call_def live_def good_def placed_def\<close>)
  qed (auto simp: place_defs w' intro: same_channels_refl)
qed

lemma return_good:
  assumes "\<forall>j. good j w" and "phase (calls w k) = Waited \<or> phase (calls w k) = Answered"
  shows "\<forall>j. good j (return_call k w)"
proof (rule good_all [OF assms(1), where k = k])
  let ?c = "calls w k" and ?w' = "return_call k w"
  have k: "call_ok ?c" "placed k w" "informed k w" "on_the_link k w" using assms(1) by (simp_all add: good_def)
  have p: "live (phase ?c)" "phase ?c \<noteq> Unused" using assms(2) by (auto simp: live_def)
  have new: "calls ?w' k = ?c\<lparr>phase := Returned (iw_success (state ?c))\<rparr>" "work_queue ?w' = work_queue w"
    "sending_call ?w' = sending_call w" "slots ?w' = remove1 k (slots w)" "reported ?w' = reported w"
    "callbacks ?w' = callbacks w" "targets ?w' = targets w" "rpc_link ?w' = rpc_link w"
    by (simp_all add: return_call_def set_call_def Let_def)
  have says: "state_says ?c" using k(1) p(1) by (simp add: call_ok_def)
  have "\<not> live (Returned b)" for b by (cases b) (simp_all add: live_def)
  moreover have "iw_success (state ?c) = (seqSet (state ?c) \<and> verdict (expectedSeq (state ?c)) (before ?c) (after ?c))"
    using says by (simp add: state_says_def Let_def split: if_splits)
  ultimately have "call_ok (calls ?w' k)" using k(1) assms(2) by (auto simp: call_ok_def new)
  moreover have "placed k ?w'"
    using k(2) assms(2) p(1) \<open>\<And>b. \<not> live (Returned b)\<close> by (auto simp: placed_def new)
  moreover have "informed k ?w'" using k(3) p(2) by (simp add: informed_def new Let_def)
  moreover have "on_the_link k ?w'"
    by (rule on_the_link_same [OF k(4) p(2)]) (simp_all add: new)
  ultimately show "good k ?w'" by (simp add: good_def)
qed (auto simp: place_defs return_call_def intro: same_channels_refl)

text \<open>The steps of the network thread change channels, while no call has a number to record.\<close>

lemma channels_good:
  assumes "\<forall>j. good j w" and "sending_call w = None" and "same_channels w w'" and "calls w' = calls w"
    and "work_queue w' = work_queue w \<or> (\<exists>h os. work_queue w = Incoming_message h os # work_queue w')
      \<or> (\<exists>h os. work_queue w' = work_queue w @ [Incoming_message h os])"
    and "sending_call w' = None" "slots w' = slots w" "reported w' = reported w" "callbacks w' = callbacks w"
  shows "\<forall>j. good j w'"
proof
  fix j
  have "same_places j w w'" "same_news j w w'" using assms(2,4-9) by (auto simp: same_places_def same_news_def)
  with good_kept [OF spec [OF assms(1)]] assms(2,3) show "good j w'" by simp
qed

lemma direct_good:
  assumes "\<forall>j. good j w" and "sending_call w = None"
  shows "\<forall>j. good j (snd (invoke_on_network_thread env t args w))"
proof -
  obtain x c l where call: "RemoteChannel_call env args (targets w t, rpc_link w) = (x, c, l)" by (metis prod_cases3)
  note grows = RemoteChannel_call_link(1,2) [OF call]
  show ?thesis
    by (rule channels_good [OF assms])
      (use grows assms(2) in \<open>auto simp: invoke_on_network_thread_def call same_channels_def Remote_GetError_def GetError_def Let_def
        split: option.split\<close>)
qed

lemma incoming_good:
  assumes "\<forall>j. good j w" and "sending_call w = None" and "work_queue w = Incoming_message header os # xs"
  shows "\<forall>j. good j (Incoming env argc fresh header os (w\<lparr>work_queue := xs\<rparr>))"
proof -
  let ?w' = "Incoming env argc fresh header os (w\<lparr>work_queue := xs\<rparr>)"
  have "same_channels w ?w' \<and> calls ?w' = calls w \<and> work_queue ?w' = xs \<and> sending_call ?w' = None \<and> slots ?w' = slots w
      \<and> reported ?w' = reported w \<and> callbacks ?w' = callbacks w"
  proof (cases "m_id header = ACK_REMOTE_ID")
    case True
    with assms(2) show ?thesis by (simp add: Incoming_def same_channels_def)
  next
    case False
    show ?thesis
    proof (cases "map_of (m_receiveIdMap w) (m_id header)")
      case None
      with False assms(2) show ?thesis by (simp add: Incoming_def same_channels_def)
    next
      case (Some e)
      show ?thesis
      proof (cases e)
        case None
        with Some False assms(2) show ?thesis by (simp add: Incoming_def same_channels_def)
      next
        fix t
        assume t: "e = Some t"
        obtain r called rd d l where inv: "DelegateFunctionRemote_Invoke env (argc t) (fresh t) (open_reader os)
            (ch_delegate (targets w t), rpc_link w) = (r, called, rd, d, l)" by (metis prod_cases5)
        from Invoke_link [OF inv] show ?thesis
          using Some False assms(2) by (simp add: Incoming_def t inv same_channels_def)
      qed
    qed
  qed
  with channels_good [OF assms(1,2), of ?w'] assms(3) show ?thesis by simp
qed

lemma send_good:
  assumes "\<forall>j. good j w" and "sending_call w = None" and "work_queue w = Send_call k # xs"
  shows "\<forall>j. good j (send_remote_call env k (w\<lparr>work_queue := xs\<rparr>))"
proof -
  let ?c = "calls w k" and ?w' = "send_remote_call env k (w\<lparr>work_queue := xs\<rparr>)"
  obtain x t l where call: "RemoteChannel_call env (c_args ?c) (targets w (c_target ?c), rpc_link w) = (x, t, l)"
    by (metis prod_cases3)
  note link = RemoteChannel_call_link [OF call]
  have k: "call_ok ?c" "placed k w" "informed k w" "on_the_link k w" using assms(1) by (simp_all add: good_def)
  then have p: "phase ?c = Posted" using assms(3) by (auto simp: placed_def split: if_splits)
  define q where "q = (if x = None then Sending else Answered)"
  have new: "calls ?w' = (calls w)(k := ?c\<lparr>phase := q\<rparr>)" "work_queue ?w' = xs"
    "sending_call ?w' = (if x = None then Some k else None)" "slots ?w' = slots w"
    "reported ?w' = reported w" "callbacks ?w' = callbacks w" "targets ?w' = (targets w)(c_target ?c := t)" "rpc_link ?w' = l"
    using assms(2) by (simp_all add: send_remote_call_def call set_call_def q_def Let_def split: option.split)
  have q: "live q" "q \<noteq> Unused" "q \<noteq> Posted" "q \<noteq> Waited" "q \<noteq> Returned b" "q = Sending \<longleftrightarrow> x = None" for b
    by (simp_all add: q_def live_def)
  have chan: "same_channels w ?w'" using link(1,2) by (auto simp: same_channels_def new)
  show ?thesis
  proof (rule good_all [OF assms(1), where k = k])
    have set: "\<not> seqSet (state ?c)" using k(1) p by (simp add: call_ok_def)
    have "state_says ?c" using k(1) p by (simp add: call_ok_def live_def)
    then have "call_ok (calls ?w' k)" using k(1) p q set by (auto simp: call_ok_def new)
    moreover have "placed k ?w'" using k(2) p q by (auto simp: placed_def new assms(3) live_def)
    moreover have "informed k ?w'" using k(3) p q by (simp add: informed_def new Let_def)
    moreover have "on_the_link k ?w'"
      using k(1,4) p q link set by (auto simp: on_the_link_def target_of_def numbered_packet_def sent_last_def new call_ok_def Let_def)
    ultimately show "good k ?w'" by (simp add: good_def)
    show "same_places j w ?w' \<and> same_news j w ?w'" if "j \<noteq> k" for j
      using that assms(2,3) by (auto simp: same_places_def same_news_def new)
  qed (simp_all add: chan assms(2))
qed

lemma finish_good:
  assumes "\<forall>j. good j w" and "sending_call w = Some k"
  shows "\<forall>j. good j (finish_send k w)"
proof -
  let ?c = "calls w k" and ?w' = "finish_send k w"
  let ?t = "targets w (c_target ?c)"
  let ?seq = "rd_lastSeqNum (channel_state ?t)" and ?e = "rd_error (channel_state ?t)"
  have k: "call_ok ?c" "placed k w" "informed k w" "on_the_link k w" using assms(1) by (simp_all add: good_def)
  then have p: "phase ?c = Sending" using assms(2) by (simp add: placed_def)
  have new: "calls ?w' = (calls w)(k := ?c\<lparr>state := record_seq ?seq (state ?c), retVal := Some (?e = DelegateError.SUCCESS), phase := Answered\<rparr>)"
    "work_queue ?w' = work_queue w" "sending_call ?w' = None" "slots ?w' = slots w" "reported ?w' = reported w"
    "callbacks ?w' = callbacks w" "rpc_link ?w' = rpc_link w"
    "rd_id (channel_state (targets ?w' i)) = rd_id (channel_state (targets w i))" for i
    by (simp_all add: finish_send_def Remote_GetError_def GetError_def set_call_def Let_def)
  have chan: "same_channels w ?w'" by (simp add: same_channels_def new)
  show ?thesis
  proof (rule good_all [OF assms(1), where k = k])
    have set: "\<not> seqSet (state ?c)" and "state_says ?c" using k(1) p by (simp_all add: call_ok_def live_def)
    from record_says [OF this(2,1)] have "call_ok (calls ?w' k)"
      by (auto simp: call_ok_def new record_seq_set)
    moreover have "placed k ?w'" using k(2) p by (simp add: placed_def new live_def)
    moreover have "informed k ?w'" using k(3) p by (simp add: informed_def new Let_def)
    moreover have "on_the_link k ?w'"
      using k(4) p by (auto simp: on_the_link_def target_of_def numbered_link [OF new(7)] new record_seq_set Let_def)
    ultimately show "good k ?w'" by (simp add: good_def)
    show "same_places j w ?w' \<and> same_news j w ?w'" if "j \<noteq> k" for j
      using that assms(2) by (auto simp: same_places_def same_news_def new)
  qed (use chan assms(2) in simp_all)
qed

lemma rpc_step_good:
  assumes "\<forall>j. good j w" and "rpc_step env argc fresh op w = Some w'"
  shows "\<forall>j. good j w'"
proof -
  have other: "\<forall>j. good j w'" if "same_channels w w'" "same_target w w'" "calls w' = calls w" "sending_call w' = sending_call w"
    "slots w' = slots w" "reported w' = reported w" "callbacks w' = callbacks w"
    "work_queue w' = work_queue w \<or> (\<exists>h os. work_queue w' = work_queue w @ [Incoming_message h os])"
    using that by (intro allI good_kept [OF spec [OF assms(1)]]) (auto simp: same_places_def same_news_def)
  show ?thesis
  proof (cases op)
    case (Network_op)
    with assms send_good [OF assms(1)] incoming_good [OF assms(1)] show ?thesis
      by (auto simp: network_step_def split: if_splits list.splits work.splits)
  next
    case (Handler_op h t)
    with assms(2) show ?thesis
      by (intro other) (auto simp: set_handler_def RemoteChannel_SetErrorHandler_def Remote_SetErrorHandler_def
          same_channels_def same_target_def)
  next
    case (Wait_op k time_is_up)
    with assms wait_good [OF assms(1)] show ?thesis by (auto split: if_splits)
  next
    case (Begin_op k t args)
    with assms begin_good [OF assms(1)] show ?thesis by (auto split: if_splits)
  next
    case (Post_op k taken)
    with assms post_good [OF assms(1)] show ?thesis by (auto split: if_splits)
  next
    case Finish_op
    with assms finish_good [OF assms(1)] show ?thesis by (auto split: option.splits)
  next
    case (Direct_op t args)
    with assms direct_good [OF assms(1)] show ?thesis by (auto split: if_splits)
  next
    case (Cancel_op x)
    with assms cancel_good [OF assms(1)] show ?thesis by (auto split: if_splits)
  next
    case (Report_op x)
    with assms(2) report_good [OF assms(1), of x] show ?thesis by simp
  next
    case (Callback_op x)
    with assms(2) callback_good [OF assms(1), of x] show ?thesis by (simp split: if_splits)
  next
    case (Return_op k)
    with assms return_good [OF assms(1), of k] show ?thesis by (auto split: if_splits)
  qed (use assms(2) in \<open>intro other; auto simp: Attach_def Start_dispatcher_def Stop_dispatcher_def RegisterEndpoint_def RecvThread_def
        same_channels_def same_target_def Let_def split: if_splits prod.splits\<close>)+
qed

lemma rpc_run_good: "rpc_run env argc fresh ops w = Some w' \<Longrightarrow> \<forall>j. good j w \<Longrightarrow> \<forall>j. good j w'"
proof (induction ops arbitrary: w)
  case (Cons op ops)
  then obtain w1 where "rpc_step env argc fresh op w = Some w1" "rpc_run env argc fresh ops w1 = Some w'"
    by (auto split: option.splits)
  with Cons.IH rpc_step_good [OF Cons.prems(2)] show ?case by blast
qed simp

lemma RemoteDispatcher_good: "\<forall>j. good j (RemoteDispatcher chs l x)"
  by (simp add: good_def call_ok_def placed_def informed_def on_the_link_def RemoteDispatcher_def InvokeWaitState_def live_def Let_def)
section \<open>Every call can return\<close>

definition can_return :: "nat environment \<Rightarrow> (nat \<Rightarrow> nat) \<Rightarrow> (nat \<Rightarrow> 'a) \<Rightarrow> nat \<Rightarrow> nat \<Rightarrow> 'a rpc \<Rightarrow> bool" where
  "can_return env argc fresh k n w \<longleftrightarrow> (\<exists>ops w'. set ops \<subseteq> {Network_op, Finish_op, Post_op k True, Wait_op k True, Return_op k}
     \<and> length ops \<le> n \<and> rpc_run env argc fresh ops w = Some w' \<and> (\<exists>b. phase (calls w' k) = Returned b))"

lemma can_step:
  assumes "can_return env argc fresh k n w1" and "rpc_step env argc fresh op w = Some w1"
    and "op \<in> {Network_op, Finish_op, Post_op k True, Wait_op k True, Return_op k}"
  shows "can_return env argc fresh k (Suc n) w"
proof -
  obtain ops w' where ops: "set ops \<subseteq> {Network_op, Finish_op, Post_op k True, Wait_op k True, Return_op k}" "length ops \<le> n"
    "rpc_run env argc fresh ops w1 = Some w'" "\<exists>b. phase (calls w' k) = Returned b"
    using assms(1) by (auto simp: can_return_def)
  with assms(2,3) show ?thesis unfolding can_return_def by (intro exI [of _ "op # ops"] exI [of _ w']) auto
qed

lemma can_mono: "can_return env argc fresh k n w \<Longrightarrow> n \<le> m \<Longrightarrow> can_return env argc fresh k m w"
  unfolding can_return_def by (meson le_trans)

lemma returned_can: "phase (calls w k) = Returned b \<Longrightarrow> can_return env argc fresh k n w"
  unfolding can_return_def by (intro exI [of _ "[]"] exI [of _ w]) simp

lemma waited_can: "phase (calls w k) = Waited \<Longrightarrow> can_return env argc fresh k 1 w"
  unfolding One_nat_def
  by (rule can_step [where op = "Return_op k" and ?w1.0 = "return_call k w",
        OF returned_can [where b = "iw_success (state (calls w k))"]])
    (simp_all add: return_call_def set_call_def Let_def)

lemma answered_can:
  assumes "phase (calls w k) = Answered"
  shows "can_return env argc fresh k 2 w"
proof (cases "retVal (calls w k) = Some True")
  case True
  obtain b s where s: "Wait False True (sem (state (calls w k))) = Some (b, s)"
    by (cases "m_signaled (sem (state (calls w k)))") (auto simp: Wait_def)
  then obtain w1 where w1: "wait_call k True w = Some w1" by (simp add: wait_call_def Let_def)
  with s have "phase (calls w1 k) = Waited" by (auto simp: wait_call_def set_call_def Let_def)
  from can_step [OF waited_can [OF this], where op = "Wait_op k True" and w = w] w1 True assms show ?thesis
    by (simp add: numeral_2_eq_2)
next
  case False
  have "phase (calls (return_call k w) k) = Returned (iw_success (state (calls w k)))"
    by (simp add: return_call_def set_call_def Let_def)
  from can_step [OF returned_can [OF this, where n = 1], where op = "Return_op k" and w = w] False assms show ?thesis
    by (simp add: numeral_2_eq_2)
qed

lemma sending_can:
  assumes "sending_call w = Some k"
  shows "can_return env argc fresh k 3 w"
proof -
  have "phase (calls (finish_send k w) k) = Answered"
    by (simp add: finish_send_def set_call_def Let_def split: prod.split)
  from can_step [OF answered_can [OF this], where op = Finish_op and w = w] assms show ?thesis
    by (simp add: numeral_3_eq_3 numeral_2_eq_2)
qed

lemma network_queue:
  "work_queue (send_remote_call env j w) = work_queue w" "sending_call w = None \<Longrightarrow> sending_call (send_remote_call env j w) \<in> {None, Some j}"
  "phase (calls (send_remote_call env j w) j) \<in> {Answered, Sending}"
  "phase (calls (send_remote_call env j w) j) = Sending \<Longrightarrow> sending_call (send_remote_call env j w) = Some j"
  "work_queue (Incoming env argc fresh h os w) = work_queue w" "sending_call (Incoming env argc fresh h os w) = sending_call w"
  by (auto simp: send_remote_call_def set_call_def Incoming_def Let_def split: prod.splits option.splits)

lemma finish_queue: "work_queue (finish_send j w) = work_queue w" "sending_call (finish_send j w) = None"
  by (simp_all add: finish_send_def set_call_def Let_def split: prod.split)

lemma posted_can:
  assumes "\<forall>j. good j w" and "sending_call w = None" and "phase (calls w k) = Posted"
  shows "can_return env argc fresh k (2 * length (work_queue w) + 2) w"
  using assms
proof (induction "length (work_queue w)" arbitrary: w)
  case 0
  then have "placed k w" by (simp add: good_def)
  with 0 show ?case by (simp add: placed_def)
next
  case (Suc n)
  have placed: "placed k u" if "\<forall>j. good j u" for u :: "'a rpc" using that by (simp add: good_def)
  obtain x xs where q: "work_queue w = x # xs" using Suc(2) by (cases "work_queue w") auto
  have len: "length xs = n" using Suc(2) q by simp
  obtain w1 where step: "rpc_step env argc fresh Network_op w = Some w1" and w1: "work_queue w1 = xs"
    and cases: "x = Send_call k \<Longrightarrow> phase (calls w1 k) = Answered \<or> sending_call w1 = Some k"
      "x \<noteq> Send_call k \<Longrightarrow> sending_call w1 \<noteq> Some k"
  proof (cases x)
    case (Send_call j)
    let ?w1 = "send_remote_call env j (w\<lparr>work_queue := xs\<rparr>)"
    have "phase (calls ?w1 j) = Answered \<or> sending_call ?w1 = Some j" "sending_call ?w1 \<in> {None, Some j}"
      using network_queue(2-4) [where env = env and j = j and w = "w\<lparr>work_queue := xs\<rparr>"] Suc.prems(2) by auto
    then show ?thesis
      by (intro that [of ?w1]) (use Suc.prems(2) in \<open>auto simp: network_step_def q Send_call network_queue(1)\<close>)
  next
    case (Incoming_message h os)
    with that [of "Incoming env argc fresh h os (w\<lparr>work_queue := xs\<rparr>)"] Suc.prems(2) show ?thesis
      by (auto simp: network_step_def q network_queue(5,6))
  qed
  have g1: "\<forall>j. good j w1" by (rule rpc_step_good [OF Suc.prems(1) step])
  show ?case
  proof (cases "x = Send_call k")
    case True
    from cases(1) [OF this] have "can_return env argc fresh k 3 w1"
      using answered_can [of w1 k] sending_can [of w1 k] can_mono [of env argc fresh k 2 w1 3] by auto
    from can_step [OF this step] show ?thesis by (rule can_mono) (simp_all add: q)
  next
    case False
    have count: "count (mset xs) (Send_call k) = 1" using placed [OF Suc.prems(1)] Suc.prems(3) False by (simp add: placed_def q)
    have rest: "can_return env argc fresh k (2 * n + 2) u"
      if "\<forall>j. good j u" "work_queue u = xs" "sending_call u = None" for u
    proof -
      have "placed k u" by (rule placed [OF that(1)])
      then have "count (mset xs) (Send_call k) = (if phase (calls u k) = Posted then 1 else 0)"
        unfolding placed_def that(2) by (rule conjunct1)
      with count have "phase (calls u k) = Posted" by (metis zero_neq_one)
      moreover have "n = length (work_queue u)" by (simp add: that(2) len)
      ultimately have "can_return env argc fresh k (2 * length (work_queue u) + 2) u" using Suc.hyps(1) that(1,3) by blast
      then show ?thesis by (simp add: that(2) len)
    qed
    show ?thesis
    proof (cases "sending_call w1")
      case None
      from can_step [OF rest [OF g1 w1 None] step] show ?thesis by (rule can_mono) (simp_all add: q len)
    next
      case (Some j)
      then have fin: "rpc_step env argc fresh Finish_op w1 = Some (finish_send j w1)" by simp
      have "can_return env argc fresh k (2 * n + 2) (finish_send j w1)"
        by (rule rest [OF rpc_step_good [OF g1 fin]]) (simp_all add: finish_queue w1)
      from can_step [OF can_step [OF this fin] step] show ?thesis by (rule can_mono) (simp_all add: q len)
    qed
  qed
qed

lemma posted_can_any:
  assumes "\<forall>j. good j w" and "phase (calls w k) = Posted"
  shows "can_return env argc fresh k (2 * length (work_queue w) + 3) w"
proof (cases "sending_call w")
  case None
  from posted_can [OF assms(1) this assms(2)] show ?thesis by (rule can_mono) simp
next
  case (Some j)
  then have fin: "rpc_step env argc fresh Finish_op w = Some (finish_send j w)" by simp
  have g: "\<forall>j. good j (finish_send j' w)" if "sending_call w = Some j'" for j'
    using finish_good [OF assms(1) that] .
  have q: "count (mset (work_queue w)) (Send_call k) = 1" using assms by (simp add: good_def placed_def)
  have "placed k (finish_send j w)" using g [OF Some] by (simp add: good_def)
  with q have "phase (calls (finish_send j w) k) = Posted" by (simp add: placed_def finish_queue split: if_splits)
  from can_step [OF posted_can [OF g [OF Some] finish_queue(2) this] fin] show ?thesis
    by (rule can_mono) (simp_all add: finish_queue)
qed

lemma live_can:
  assumes "\<forall>j. good j w" and "phase (calls w k) \<noteq> Unused"
  shows "can_return env argc fresh k (2 * length (work_queue w) + 6) w"
proof (cases "phase (calls w k)")
  case Connected
  let ?w1 = "post_call k True w"
  have step: "rpc_step env argc fresh (Post_op k True) w = Some ?w1" using Connected by simp
  have "phase (calls ?w1 k) = Posted" "length (work_queue ?w1) = Suc (length (work_queue w))"
    by (simp_all add: post_call_def set_call_def)
  with posted_can_any [OF rpc_step_good [OF assms(1) step] this(1), of env argc fresh]
  have "can_return env argc fresh k (2 * length (work_queue w) + 5) ?w1" by (simp add: algebra_simps)
  from can_step [OF this step] show ?thesis by (rule can_mono) simp_all
next
  case Posted
  from posted_can_any [OF assms(1) this] show ?thesis by (rule can_mono) simp
next
  case Sending
  with assms(1) have "sending_call w = Some k" by (simp add: good_def placed_def)
  from sending_can [OF this] show ?thesis by (rule can_mono) simp
next
  case Answered
  from answered_can [OF this] show ?thesis by (rule can_mono) simp
next
  case Waited
  from waited_can [OF this] show ?thesis by (rule can_mono) simp
next
  case (Returned b)
  then show ?thesis by (rule returned_can)
qed (use assms(2) in simp)

section \<open>What the calls guarantee\<close>


text \<open>
  C24: a call whose sending succeeded returns true only if its message was put on the link with its id and
  the sequence number the call waited for, and the transport monitor reported the acknowledgement of that id and number
  after the call had begun.
\<close>

theorem remote_invoke_acknowledged:
  assumes "rpc_run env argc fresh ops (RemoteDispatcher chs l x) = Some w" and "phase (calls w k) = Returned True"
    and "retVal (calls w k) = Some True"
  shows "let c = calls w k; s = expectedSeq (state c) in
    DmqHeader (remoteId c) s 0 \<in> set (map (\<lambda>p. fst (snd p)) (packets (rpc_link w)))
    \<and> (remoteId c, s, Status.SUCCESS) \<in> set (drop (start c) (reported w))"
proof -
  let ?c = "calls w k"
  let ?s = "expectedSeq (state ?c)"
  have g: "good k w" using rpc_run_good [OF assms(1) RemoteDispatcher_good] by blast
  then have "verdict ?s (before ?c) (after ?c)" using assms(2) by (auto simp: good_def call_ok_def)
  then have "Status.SUCCESS \<in> set (matching ?s (before ?c) @ matching ?s (after ?c))"
    by (auto simp: verdict_def split: list.splits)
  then have "(?s, Status.SUCCESS) \<in> set (before ?c @ after ?c)" by (auto simp: matching_def)
  with g assms(3) show ?thesis by (auto simp: good_def informed_def on_the_link_def numbered_packet_def Let_def)
qed

text \<open>
  C27: no call waits for ever: from any state the threads can reach, the network thread and the caller alone bring
  a call that has begun to its return, in a number of steps bounded by the length of the queue, whatever happened
  to the message and whatever other calls there are.
\<close>

theorem remote_invoke_returns:
  assumes "rpc_run env argc fresh ops (RemoteDispatcher chs l x) = Some w" and "phase (calls w k) \<noteq> Unused"
  shows "\<exists>ops w'. set ops \<subseteq> {Network_op, Finish_op, Post_op k True, Wait_op k True, Return_op k}
    \<and> length ops \<le> 2 * length (work_queue w) + 6 \<and> rpc_run env argc fresh ops w = Some w'
    \<and> (\<exists>b. phase (calls w' k) = Returned b)"
  using live_can [OF rpc_run_good [OF assms(1) RemoteDispatcher_good] assms(2), of env argc fresh]
  by (simp add: can_return_def)
section \<open>Instances\<close>

text \<open>A serializer of one byte that refuses zero, and a channel with an error handler.\<close>

definition picky :: "nat ISerializer" where
  "picky = \<lparr>Write = (\<lambda>n os. if n = 0 then (Some Std_exception, os) else (None, Streams.put [of_nat n] os)),
     Read = (\<lambda>n is. if n = 0 then (Some Std_exception, n, is) else (None, n, is))\<rparr>"

definition rpc_channel :: "(nat, nat) RemoteChannel" where
  "rpc_channel = RemoteChannel_SetErrorHandler (Some 3) (fst (RemoteChannel 2 4 0 picky 7 idle_link))"

definition network :: "nat rpc" where
  "network = RemoteDispatcher (\<lambda>_. rpc_channel) idle_link 0"

lemmas rpc_defs = network_def RemoteDispatcher_def Attach_def Start_dispatcher_def RegisterEndpoint_def RecvThread_def begin_call_def
  post_call_def network_step_def send_remote_call_def finish_send_def report_status_def run_callback_def wait_call_def Wait_def
  return_call_def set_call_def statusCbFunc_def record_seq_def Signal_def InvokeWaitState_def Remote_GetError_def GetError_def
  invoke_on_network_thread_def Incoming_def ACK_REMOTE_ID_def Let_def

lemmas rpc_channel_defs = rpc_channel_def RemoteChannel_SetErrorHandler_def RemoteChannel_def ReconnectDelegate_def
  Remote_SetErrorHandler_def Remote_SetRemoteId_def Remote_SetDispatcher_def Remote_SetSerializer_def Remote_SetStream_def
  Remote_default_def RemoteDispatchState_def RemoteChannel_call_def DelegateFunctionRemote_call_def Remote_call_def state_call_def
  SendSerialized_def dispatch_stream_def Dispatch_def fetch_seq_def send_packet_def RaiseSuccess_def RaiseError_def
  call_handler_def picky_def flaky_def idle_link_def new_writer_def wgood_def Streams.put_def stream_reset_def os_seekp_def

definition early_ack :: "nat rpc_op list" where
  "early_ack = [Begin_op 1 0 5, Post_op 1 True, Network_op, Report_op (7, 9, TIMEOUT), Report_op (7, 65535, Status.SUCCESS),
     Callback_op (1, 7, 65535, Status.SUCCESS), Finish_op, Callback_op (1, 7, 9, TIMEOUT), Wait_op 1 False, Return_op 1]"

definition acknowledged :: "nat rpc" where
  "acknowledged = the (rpc_run flaky (\<lambda>_. 1) (\<lambda>_. 0) early_ack network)"

lemma early_ack_run:
  "rpc_run flaky (\<lambda>_. 1) (\<lambda>_. 0) early_ack network = Some acknowledged"
  "phase (calls acknowledged 1) = Returned True" "retVal (calls acknowledged 1) = Some True"
  "remoteId (calls acknowledged 1) = 7" "expectedSeq (state (calls acknowledged 1)) = 65535"
  "before (calls acknowledged 1) = [(65535, Status.SUCCESS)]" "after (calls acknowledged 1) = [(9, TIMEOUT)]"
  "start (calls acknowledged 1) = 0" "work_queue acknowledged = []"
  by (simp_all add: acknowledged_def early_ack_def rpc_defs rpc_channel_defs)

lemma remote_invoke_acknowledged_witness:
  "DmqHeader 7 65535 0 \<in> set (map (\<lambda>p. fst (snd p)) (packets (rpc_link acknowledged)))
    \<and> (7, 65535, Status.SUCCESS) \<in> set (drop 0 (reported acknowledged))"
  using remote_invoke_acknowledged [OF early_ack_run(1)[unfolded network_def] early_ack_run(2,3)]
  by (simp only: early_ack_run(4,5,8) Let_def)

lemma remote_invoke_returns_witness:
  "\<exists>ops w'. set ops \<subseteq> {Network_op, Finish_op, Post_op 1 True, Wait_op 1 True, Return_op 1}
    \<and> length ops \<le> 8 \<and> rpc_run flaky (\<lambda>_. 1) (\<lambda>_. 0) ops
      (the (rpc_run flaky (\<lambda>_. 1) (\<lambda>_. 0) [Begin_op 1 0 5, Post_op 1 True] network)) = Some w'
    \<and> (\<exists>b. phase (calls w' 1) = Returned b)"
proof -
  have run: "rpc_run flaky (\<lambda>_. 1) (\<lambda>_. 0) [Begin_op 1 0 5, Post_op 1 True] network
      = Some (the (rpc_run flaky (\<lambda>_. 1) (\<lambda>_. 0) [Begin_op 1 0 5, Post_op 1 True] network))"
    and phase: "phase (calls (the (rpc_run flaky (\<lambda>_. 1) (\<lambda>_. 0) [Begin_op 1 0 5, Post_op 1 True] network)) 1) \<noteq> Unused"
    and len: "2 * length (work_queue (the (rpc_run flaky (\<lambda>_. 1) (\<lambda>_. 0) [Begin_op 1 0 5, Post_op 1 True] network))) + 6 = 8"
    by (simp_all add: rpc_defs)
  from remote_invoke_returns [OF run[unfolded network_def] phase[unfolded network_def]]
  show ?thesis by (simp only: len network_def [symmetric])
qed

section \<open>What the code says and does not do\<close>

text \<open>When the sending fails before a number is taken, the number of the channel's previous message is recorded. If
  that message is acknowledged between the connection of the callback and the failed sending, the call returns true,
  though nothing was sent.\<close>

theorem failed_send_acknowledged:
  "map_option (\<lambda>w. (phase (calls w 1), retVal (calls w 1), length (packets (rpc_link w))))
     (rpc_run flaky (\<lambda>_. 1) (\<lambda>_. 0) [Direct_op 0 5, Begin_op 1 0 0, Report_op (7, 65535, Status.SUCCESS),
        Callback_op (1, 7, 65535, Status.SUCCESS), Post_op 1 True, Network_op, Finish_op, Return_op 1] network)
   = Some (Returned True, Some False, 1)"
  by (simp add: rpc_defs rpc_channel_defs)

text \<open>The error a channel keeps is not cleared by a successful call. After a message that could not be read, the next
  call sends its message, finds the old error and returns false at once, without waiting for the acknowledgement.\<close>

theorem old_error_fails_call:
  "map_option (\<lambda>w. (phase (calls w 1), map (\<lambda>p. m_id (fst (snd p))) (packets (rpc_link w)), OnError w))
     (rpc_run flaky (\<lambda>_. 1) (\<lambda>_. 0) [Attach_op 0 0, Start_op True, Register_op True 7 (Some 0),
        Receive_op True (0, DmqHeader 7 3 0, [1]), Network_op,
        Begin_op 1 0 5, Post_op 1 True, Network_op, Finish_op, Return_op 1] network)
   = Some (Returned False, [7], [])"
  by (simp add: rpc_defs rpc_channel_defs DelegateFunctionRemote_Invoke_def Remote_Invoke_def open_reader_def good_def DmqHeader_def)

text \<open>A timeout that the monitor reports while the message is still retried ends the wait: the call returns false
  though the acknowledgement arrives before it reads the result.\<close>

theorem timeout_ends_wait:
  "map_option (\<lambda>w. phase (calls w 1))
     (rpc_run flaky (\<lambda>_. 1) (\<lambda>_. 0) [Begin_op 1 0 5, Post_op 1 True, Network_op, Finish_op,
        Report_op (7, 65535, TIMEOUT), Report_op (7, 65535, Status.SUCCESS), Callback_op (1, 7, 65535, TIMEOUT),
        Callback_op (1, 7, 65535, Status.SUCCESS), Wait_op 1 False, Return_op 1] network) = Some (Returned False)"
  by (simp add: rpc_defs rpc_channel_defs)

text \<open>The message of a call without arguments has no payload, and \<^verbatim>\<open>RecvThread\<close> takes no message without one: the
  call is acknowledged by the transport but its target is never invoked.\<close>

theorem no_arguments_never_invoked: "RecvThread taken (0, DmqHeader i s 0, enc_members []) w = w"
  by (simp add: RecvThread_def)

end
