(* ===== verification/SocketFrames.thy ===== *)
theory SocketFrames
  imports SerialFrames
begin

text \<open>
  \<^verbatim>\<open>port/transport/linux-tcp/LinuxTcpTransport.h\<close> and \<^verbatim>\<open>linux-udp/LinuxUdpTransport.h\<close>: packets on a TCP stream, which
  the network may cut anywhere, and in UDP datagrams. The sockets of the operating system are the parameter
  \<open>api\<close>; \<open>tcp_laws\<close> states the documented behaviour of a connection that works. What the transport monitor is told is
  recorded. \<open>le\<close> is the byte order of the host.
\<close>

section \<open>Headers in network byte order\<close>

definition htons :: "bool \<Rightarrow> u16 \<Rightarrow> u16" where
  "htons le v = (if le then swap16 v else v)"

definition net_header :: "bool \<Rightarrow> DmqHeader \<Rightarrow> byte list" where
  "net_header le h = memory_of le (htons le (m_marker h)) @ memory_of le (htons le (m_id h))
     @ memory_of le (htons le (m_seqNum h)) @ memory_of le (htons le (m_length h))"

definition parse_header :: "bool \<Rightarrow> byte list \<Rightarrow> DmqHeader" where
  "parse_header le buf =
     \<lparr>m_marker = htons le (value_of le (take 2 buf)), m_id = htons le (value_of le (take 2 (drop 2 buf))),
      m_seqNum = htons le (value_of le (take 2 (drop 4 buf))), m_length = htons le (value_of le (take 2 (drop 6 buf)))\<rparr>"

text \<open>The packet of a message, with the length of the payload in its header.\<close>

definition packet :: "bool \<Rightarrow> DmqHeader \<Rightarrow> byte list \<Rightarrow> byte list" where
  "packet le h body = net_header le (h\<lparr>m_length := of_nat (length body)\<rparr>) @ body"

definition ack_packet :: "bool \<Rightarrow> u16 \<Rightarrow> byte list" where
  "ack_packet le seqNum = net_header le (DmqHeader ACK_REMOTE_ID seqNum 0)"

section \<open>TCP\<close>

text \<open>\<open>sock_select\<close> tells whether a connection is readable; \<open>sock_read\<close> gives at most so many bytes, none on an
  error, a timeout or the end; \<open>sock_write\<close> gives the number of bytes written or a negative number.\<close>

record 's socket_api =
  sock_select :: "'s \<Rightarrow> bool"
  sock_read :: "nat \<Rightarrow> 's \<Rightarrow> byte list \<times> 's"
  sock_write :: "byte list \<Rightarrow> 's \<Rightarrow> int \<times> 's"

definition tcp_laws :: "'s socket_api \<Rightarrow> ('s \<Rightarrow> byte list) \<Rightarrow> ('s \<Rightarrow> byte list) \<Rightarrow> bool" where
  "tcp_laws api incoming outgoing \<longleftrightarrow>
     (\<forall>s. incoming s \<noteq> [] \<longrightarrow> sock_select api s)
     \<and> (\<forall>n s. length (fst (sock_read api n s)) \<le> n \<and> incoming s = fst (sock_read api n s) @ incoming (snd (sock_read api n s))
          \<and> outgoing (snd (sock_read api n s)) = outgoing s \<and> (fst (sock_read api n s) = [] \<longrightarrow> n = 0 \<or> incoming s = []))
     \<and> (\<forall>bs s. incoming (snd (sock_write api bs s)) = incoming s \<and> fst (sock_write api bs s) \<le> int (length bs)
          \<and> outgoing (snd (sock_write api bs s)) = outgoing s @ take (nat (fst (sock_write api bs s))) bs)"

datatype tcp_type = SERVER | CLIENT

record 's TcpTransport =
  tcp_type :: tcp_type
  m_connFd :: "nat option"
  m_serverClients :: "nat list"
  conns :: "nat \<Rightarrow> 's"
  tcp_sends :: bool
  tcp_monitor :: bool
  tcp_acked :: "u16 list"

definition SendToSocket :: "'s socket_api \<Rightarrow> bool \<Rightarrow> nat option \<Rightarrow> byte list \<Rightarrow> DmqHeader \<Rightarrow> 's TcpTransport \<Rightarrow> int \<times> 's TcpTransport" where
  "SendToSocket api le fd body header tr =
     (case fd of
        None \<Rightarrow> (-1, tr)
      | Some f \<Rightarrow>
          if BUFFER_SIZE - HEADER_SIZE < length body then (-1, tr)
          else let bs = packet le header body;
                   (sent, s) = sock_write api bs (conns tr f)
               in (if sent \<noteq> int (length bs) then -1 else 0, tr\<lparr>conns := (conns tr)(f := s)\<rparr>))"

fun send_to_clients :: "'s socket_api \<Rightarrow> bool \<Rightarrow> nat list \<Rightarrow> byte list \<Rightarrow> DmqHeader \<Rightarrow> int \<times> 's TcpTransport \<Rightarrow> int \<times> 's TcpTransport" where
  "send_to_clients api le [] body header (lastErr, tr) = (lastErr, tr)"
| "send_to_clients api le (f # fs) body header (lastErr, tr) =
     (case SendToSocket api le (Some f) body header tr of
        (r, tr1) \<Rightarrow> send_to_clients api le fs body header (if r \<noteq> 0 then -1 else lastErr, tr1))"

definition Tcp_Send :: "'s socket_api \<Rightarrow> bool \<Rightarrow> byte list \<Rightarrow> DmqHeader \<Rightarrow> 's TcpTransport \<Rightarrow> int \<times> 's TcpTransport" where
  "Tcp_Send api le body header tr =
     (case tcp_type tr of
        CLIENT \<Rightarrow> SendToSocket api le (m_connFd tr) body header tr
      | SERVER \<Rightarrow> send_to_clients api le (m_serverClients tr) body header (0, tr))"

function Tcp_ReadExact :: "'s socket_api \<Rightarrow> nat \<Rightarrow> 's \<Rightarrow> byte list option \<times> 's" where
  "Tcp_ReadExact api n s =
     (if n = 0 then (Some [], s)
      else case sock_read api n s of
             ([], s1) \<Rightarrow> (None, s1)
           | (b # bs, s1) \<Rightarrow>
               (case Tcp_ReadExact api (n - length (b # bs)) s1 of
                  (None, s2) \<Rightarrow> (None, s2)
                | (Some cs, s2) \<Rightarrow> (Some ((b # bs) @ cs), s2)))"
  by pat_completeness auto
termination by (relation "measure (\<lambda>(api, n, s). n)") auto

declare Tcp_ReadExact.simps [simp del]

definition tcp_acknowledge :: "'s socket_api \<Rightarrow> bool \<Rightarrow> nat \<Rightarrow> DmqHeader \<Rightarrow> 's TcpTransport \<Rightarrow> 's TcpTransport" where
  "tcp_acknowledge api le fd header tr =
     (if m_id header = ACK_REMOTE_ID
      then (if tcp_monitor tr then tr\<lparr>tcp_acked := tcp_acked tr @ [m_seqNum header]\<rparr> else tr)
      else if tcp_sends tr
      then tr\<lparr>conns := (conns tr)(fd := snd (sock_write api (ack_packet le (m_seqNum header)) (conns tr fd)))\<rparr>
      else tr)"

definition ReceiveSocket ::
  "'s socket_api \<Rightarrow> bool \<Rightarrow> nat option \<Rightarrow> writer \<Rightarrow> DmqHeader \<Rightarrow> 's TcpTransport \<Rightarrow> int \<times> writer \<times> DmqHeader \<times> 's TcpTransport" where
  "ReceiveSocket api le fd is header tr =
     (case fd of
        None \<Rightarrow> (-1, is, header, tr)
      | Some f \<Rightarrow>
          if \<not> sock_select api (conns tr f) then (-1, is, header, tr)
          else (case Tcp_ReadExact api HEADER_SIZE (conns tr f) of
                  (None, s) \<Rightarrow> (-2, is, header, tr\<lparr>conns := (conns tr)(f := s)\<rparr>)
                | (Some headerBuf, s) \<Rightarrow>
                    (let h = parse_header le headerBuf; size = unat (m_length h); tr1 = tr\<lparr>conns := (conns tr)(f := s)\<rparr> in
                     if m_marker h \<noteq> MARKER then (-1, is, h, tr1)
                     else if size = 0 then (0, is, h, tcp_acknowledge api le f h tr1)
                     else if BUFFER_SIZE < size then (-1, is, h, tr1)
                     else (case Tcp_ReadExact api size s of
                             (None, s2) \<Rightarrow> (-2, is, h, tr\<lparr>conns := (conns tr)(f := s2)\<rparr>)
                           | (Some bs, s2) \<Rightarrow>
                               (0, os_write bs is, h, tcp_acknowledge api le f h (tr\<lparr>conns := (conns tr)(f := s2)\<rparr>))))))"

text \<open>\<^verbatim>\<open>ReceiveServer\<close>: a client that connects is taken first. Then the clients are polled, those found readable
  by one call of \<open>select\<close>; a client that is gone is dropped and the next one is tried, else its result is
  the result.\<close>

fun poll_clients ::
  "'s socket_api \<Rightarrow> bool \<Rightarrow> (nat \<Rightarrow> bool) \<Rightarrow> nat list \<Rightarrow> writer \<Rightarrow> DmqHeader \<Rightarrow> 's TcpTransport
   \<Rightarrow> int \<times> writer \<times> DmqHeader \<times> 's TcpTransport" where
  "poll_clients api le readfds [] is header tr = (-1, is, header, tr)"
| "poll_clients api le readfds (f # fs) is header tr =
     (if \<not> readfds f then poll_clients api le readfds fs is header tr
      else case ReceiveSocket api le (Some f) is header tr of
             (result, is1, header1, tr1) \<Rightarrow>
               if result = -2
               then poll_clients api le readfds fs is1 header1 (tr1\<lparr>m_serverClients := remove1 f (m_serverClients tr1)\<rparr>)
               else (result, is1, header1, tr1))"

definition ReceiveServer ::
  "'s socket_api \<Rightarrow> bool \<Rightarrow> nat option \<Rightarrow> writer \<Rightarrow> DmqHeader \<Rightarrow> 's TcpTransport \<Rightarrow> int \<times> writer \<times> DmqHeader \<times> 's TcpTransport" where
  "ReceiveServer api le taken is header tr =
     (let tr1 = (case taken of None \<Rightarrow> tr | Some f \<Rightarrow> tr\<lparr>m_serverClients := m_serverClients tr @ [f]\<rparr>) in
      if m_serverClients tr1 = [] then (-1, is, header, tr1)
      else poll_clients api le (\<lambda>f. sock_select api (conns tr1 f)) (m_serverClients tr1) is header tr1)"

definition Tcp_Receive ::
  "'s socket_api \<Rightarrow> bool \<Rightarrow> nat option \<Rightarrow> writer \<Rightarrow> DmqHeader \<Rightarrow> 's TcpTransport \<Rightarrow> int \<times> writer \<times> DmqHeader \<times> 's TcpTransport" where
  "Tcp_Receive api le taken is header tr =
     (case tcp_type tr of
        SERVER \<Rightarrow> ReceiveServer api le taken is header tr
      | CLIENT \<Rightarrow> ReceiveSocket api le (m_connFd tr) is header tr)"

section \<open>UDP\<close>

text \<open>A datagram socket by what it has sent, with the addresses. \<open>taken\<close> are the results of \<open>sendto\<close>;
  \<open>arrived\<close> is what \<open>recvfrom\<close> takes, cut to the size of the buffer, or nothing on an error or a timeout.\<close>

datatype udp_type = PUB | SUB

record UdpTransport =
  udp_type :: udp_type
  m_addr :: nat
  udp_sendTransport :: peer
  udp_recvTransport :: peer
  udp_monitor :: bool
  datagrams :: "(nat \<times> byte list) list"
  udp_acked :: "u16 list"

definition Udp_Send :: "(nat \<Rightarrow> bool) \<Rightarrow> bool \<Rightarrow> byte list \<Rightarrow> DmqHeader \<Rightarrow> UdpTransport \<Rightarrow> int \<times> UdpTransport" where
  "Udp_Send taken le body header tr =
     (if udp_type tr = SUB \<and> m_id header \<noteq> ACK_REMOTE_ID then (-1, tr)
      else if udp_sendTransport tr \<noteq> Itself then (-1, tr)
      else if BUFFER_SIZE - HEADER_SIZE < length body then (-1, tr)
      else if \<not> taken (length (datagrams tr)) then (-1, tr)
      else (0, tr\<lparr>datagrams := datagrams tr @ [(m_addr tr, packet le header body)]\<rparr>))"

definition udp_acknowledge :: "(nat \<Rightarrow> bool) \<Rightarrow> bool \<Rightarrow> nat \<Rightarrow> DmqHeader \<Rightarrow> UdpTransport \<Rightarrow> UdpTransport" where
  "udp_acknowledge taken le fromAddr header tr =
     (if m_id header = ACK_REMOTE_ID
      then (if udp_monitor tr then tr\<lparr>udp_acked := udp_acked tr @ [m_seqNum header]\<rparr> else tr)
      else if udp_sendTransport tr \<noteq> Nobody \<and> udp_type tr = SUB \<and> taken (length (datagrams tr))
      then tr\<lparr>datagrams := datagrams tr @ [(fromAddr, ack_packet le (m_seqNum header))]\<rparr>
      else tr)"

definition Udp_Receive ::
  "(nat \<Rightarrow> bool) \<Rightarrow> bool \<Rightarrow> (nat \<times> byte list) option \<Rightarrow> writer \<Rightarrow> DmqHeader \<Rightarrow> UdpTransport
   \<Rightarrow> int \<times> writer \<times> DmqHeader \<times> UdpTransport" where
  "Udp_Receive taken le arrived is header tr =
     (if udp_recvTransport tr \<noteq> Itself then (-1, is, header, tr)
      else case arrived of
             None \<Rightarrow> (-1, is, header, tr)
           | Some (fromAddr, datagram) \<Rightarrow>
               (let buf = take BUFFER_SIZE datagram in
                if length buf < HEADER_SIZE then (-1, is, header, tr)
                else let h = parse_header le buf in
                     if m_marker h \<noteq> MARKER then (-1, is, h, tr)
                     else let size = min (unat (m_length h)) (length buf - HEADER_SIZE);
                              is1 = (if 0 < size then os_write (take size (drop HEADER_SIZE buf)) is else is)
                          in (0, is1, h, udp_acknowledge taken le fromAddr h tr)))"

section \<open>Headers\<close>

lemma memory_big: "memory_of False v = memory_of True (swap16 v)"
  by (simp add: memory_swap) (simp add: memory_of_def image_def u16_bytes_def)

lemma htons_htons [simp]: "htons le (htons le v) = v"
  by (simp add: htons_def)

text \<open>The bytes of a header do not depend on the host.\<close>

lemma net_header_bytes: "net_header le h = header_bytes True h"
  by (cases le) (simp_all add: net_header_def header_bytes_def htons_def memory_big)

lemma length_net_header [simp]: "length (net_header le h) = HEADER_SIZE"
  by (simp add: net_header_def HEADER_SIZE_def)

lemma parse_net_header: "parse_header le' (net_header le h @ rest) = h"
proof -
  have "parse_header le' (net_header le' h @ rest) = h"
    by (simp add: parse_header_def net_header_def)
  then show ?thesis by (simp only: net_header_bytes)
qed

lemma packet_length: "length (packet le h body) = HEADER_SIZE + length body"
  by (simp add: packet_def)

section \<open>Reading a stream\<close>

lemma tcp_read_law:
  assumes "tcp_laws api incoming outgoing"
  shows "length (fst (sock_read api n s)) \<le> n" "incoming s = fst (sock_read api n s) @ incoming (snd (sock_read api n s))"
    "outgoing (snd (sock_read api n s)) = outgoing s" "fst (sock_read api n s) = [] \<Longrightarrow> n = 0 \<or> incoming s = []"
  using assms unfolding tcp_laws_def by blast+

lemma tcp_write_law:
  assumes "tcp_laws api incoming outgoing"
  shows "incoming (snd (sock_write api bs s)) = incoming s" "fst (sock_write api bs s) \<le> int (length bs)"
    "outgoing (snd (sock_write api bs s)) = outgoing s @ take (nat (fst (sock_write api bs s))) bs"
  using assms unfolding tcp_laws_def by blast+

lemma tcp_read_exact:
  assumes "tcp_laws api incoming outgoing" and "n \<le> length (incoming s)"
  shows "\<exists>s1. Tcp_ReadExact api n s = (Some (take n (incoming s)), s1)
    \<and> incoming s1 = drop n (incoming s) \<and> outgoing s1 = outgoing s"
  using assms(2)
proof (induction n arbitrary: s rule: less_induct)
  case (less n)
  show ?case
  proof (cases "n = 0")
    case True
    then show ?thesis by (simp add: Tcp_ReadExact.simps)
  next
    case False
    obtain bs s1 where r: "sock_read api n s = (bs, s1)" by (metis surj_pair)
    from r False less.prems have bs: "length bs \<le> n" "incoming s = bs @ incoming s1" "outgoing s1 = outgoing s" "bs \<noteq> []"
      using tcp_read_law [where n = n and s = s, OF assms(1)] by auto
    then have "n - length bs < n" "n - length bs \<le> length (incoming s1)" using less.prems False by simp_all
    from less.IH [OF this] obtain s2 where
      "Tcp_ReadExact api (n - length bs) s1 = (Some (take (n - length bs) (incoming s1)), s2)"
      "incoming s2 = drop (n - length bs) (incoming s1)" "outgoing s2 = outgoing s1"
      by blast
    with r False bs show ?thesis
      by (subst Tcp_ReadExact.simps) (cases bs; cases n; simp)
  qed
qed

lemma receive_packet:
  assumes laws: "tcp_laws api incoming outgoing" and "m_marker h = MARKER" and "length body \<le> BUFFER_SIZE"
    and inc: "incoming (conns tr f) = packet le h body @ rest"
  shows "\<exists>tr1. ReceiveSocket api le' (Some f) is h0 tr
      = (0, if body = [] then is else os_write body is, h\<lparr>m_length := of_nat (length body)\<rparr>, tr1)
    \<and> incoming (conns tr1 f) = rest"
proof -
  let ?h = "h\<lparr>m_length := of_nat (length body)\<rparr>" and ?s = "conns tr f"
  have "incoming ?s \<noteq> []" using packet_length [of le h body] by (auto simp: inc HEADER_SIZE_def)
  with laws have sel: "sock_select api ?s" unfolding tcp_laws_def by blast
  have "HEADER_SIZE \<le> length (incoming ?s)" by (simp add: inc packet_length)
  from tcp_read_exact [OF laws this] obtain s1 where s1: "Tcp_ReadExact api HEADER_SIZE ?s = (Some (net_header le ?h), s1)"
    "incoming s1 = body @ rest"
    by (auto simp: inc packet_def)
  have h: "parse_header le' (net_header le ?h) = ?h" using parse_net_header [of le' le ?h "[]"] by simp
  have size: "unat (m_length ?h) = length body"
    using assms(3) by (simp add: BUFFER_SIZE_def unat_of_nat)
  have ack: "incoming (conns (tcp_acknowledge api le' f h' u) f) = incoming (conns u f)" for h' u
    by (simp add: tcp_acknowledge_def tcp_write_law(1) [OF laws])
  show ?thesis
  proof (cases "body = []")
    case True
    with s1 sel h assms(2) show ?thesis by (simp add: ReceiveSocket_def Let_def ack)
  next
    case False
    have "length body \<le> length (incoming s1)" by (simp add: s1)
    from tcp_read_exact [OF laws this] obtain s2 where
      "Tcp_ReadExact api (length body) s1 = (Some body, s2)" "incoming s2 = rest"
      by (auto simp: s1)
    with False s1(1) sel h assms(2,3) size show ?thesis by (simp add: ReceiveSocket_def Let_def ack)
  qed
qed

text \<open>A run of messages over one connection.\<close>

fun tcp_send_all ::
  "'s socket_api \<Rightarrow> bool \<Rightarrow> nat option \<Rightarrow> (DmqHeader \<times> byte list) list \<Rightarrow> 's TcpTransport \<Rightarrow> int list \<times> 's TcpTransport" where
  "tcp_send_all api le fd [] tr = ([], tr)"
| "tcp_send_all api le fd ((h, body) # ms) tr =
     (case SendToSocket api le fd body h tr of
        (r, tr1) \<Rightarrow> (case tcp_send_all api le fd ms tr1 of (rs, tr2) \<Rightarrow> (r # rs, tr2)))"

fun tcp_receive_all ::
  "'s socket_api \<Rightarrow> bool \<Rightarrow> nat option \<Rightarrow> nat \<Rightarrow> 's TcpTransport \<Rightarrow> (int \<times> DmqHeader \<times> byte list) list \<times> 's TcpTransport" where
  "tcp_receive_all api le fd 0 tr = ([], tr)"
| "tcp_receive_all api le fd (Suc n) tr =
     (case ReceiveSocket api le fd new_writer (DmqHeader 0 0 0) tr of
        (r, is, h, tr1) \<Rightarrow> (case tcp_receive_all api le fd n tr1 of (xs, tr2) \<Rightarrow> ((r, h, outbuf is) # xs, tr2)))"

lemma tcp_sent:
  assumes laws: "tcp_laws api incoming outgoing" and "tcp_send_all api le (Some f) ms tr = (rs, tr1)" and "\<forall>r \<in> set rs. r = 0"
  shows "outgoing (conns tr1 f) = outgoing (conns tr f) @ concat (map (\<lambda>(h, body). packet le h body) ms)
    \<and> (\<forall>(h, body) \<in> set ms. length body \<le> BUFFER_SIZE)"
  using assms(2,3)
proof (induction ms arbitrary: tr rs)
  case (Cons m ms)
  obtain h body where m: "m = (h, body)" by (cases m)
  obtain r u where one: "SendToSocket api le (Some f) body h tr = (r, u)" by (metis surj_pair)
  obtain rs' where rest: "tcp_send_all api le (Some f) ms u = (rs', tr1)" "rs = r # rs'"
    using Cons.prems(1) by (auto simp: m one split: prod.splits)
  have "r = 0" "\<forall>r \<in> set rs'. r = 0" using Cons.prems(2) rest(2) by auto
  note ih = Cons.IH [OF rest(1) this(2)]
  obtain k s where w: "sock_write api (packet le h body) (conns tr f) = (k, s)" by (metis surj_pair)
  have "\<not> BUFFER_SIZE - HEADER_SIZE < length body" "k = int (length (packet le h body))" "u = tr\<lparr>conns := (conns tr)(f := s)\<rparr>"
    using one \<open>r = 0\<close> by (auto simp: SendToSocket_def w Let_def split: if_splits)
  with ih tcp_write_law(3) [OF laws, of "packet le h body" "conns tr f"] w show ?case
    by (auto simp: m BUFFER_SIZE_def HEADER_SIZE_def)
qed simp

lemma tcp_received:
  assumes laws: "tcp_laws api incoming outgoing"
    and "\<forall>(h, body) \<in> set ms. m_marker h = MARKER \<and> length body \<le> BUFFER_SIZE"
    and "incoming (conns tr f) = concat (map (\<lambda>(h, body). packet le h body) ms) @ rest"
  shows "\<exists>tr1. tcp_receive_all api le' (Some f) (length ms) tr
      = (map (\<lambda>(h, body). (0, h\<lparr>m_length := of_nat (length body)\<rparr>, body)) ms, tr1) \<and> incoming (conns tr1 f) = rest"
  using assms(2,3)
proof (induction ms arbitrary: tr)
  case (Cons m ms)
  obtain h body where m: "m = (h, body)" by (cases m)
  have "m_marker h = MARKER" "length body \<le> BUFFER_SIZE"
    "incoming (conns tr f) = packet le h body @ concat (map (\<lambda>(h, body). packet le h body) ms) @ rest"
    using Cons.prems by (simp_all add: m)
  from receive_packet [OF laws this] obtain u where u: "ReceiveSocket api le' (Some f) new_writer (DmqHeader 0 0 0) tr
      = (0, if body = [] then new_writer else os_write body new_writer, h\<lparr>m_length := of_nat (length body)\<rparr>, u)"
    "incoming (conns u f) = concat (map (\<lambda>(h, body). packet le h body) ms) @ rest"
    by blast
  have out: "outbuf (if body = [] then new_writer else os_write body new_writer) = body"
    by (simp add: os_write_def new_writer_def)
  from Cons.IH [OF _ u(2)] Cons.prems(1) obtain tr1 where
    "tcp_receive_all api le' (Some f) (length ms) u = (map (\<lambda>(h, body). (0, h\<lparr>m_length := of_nat (length body)\<rparr>, body)) ms, tr1)"
    "incoming (conns tr1 f) = rest"
    by auto
  with u(1) out show ?case by (simp add: m)
qed simp

text \<open>
  C17: the messages a TCP transport has sent over a connection are received at its other end one by one, in order, with their
  headers and payloads, wherever the network cuts the stream, and whatever the byte orders of the hosts;
  nothing of the stream is left over.
\<close>

theorem tcp_messages_received:
  assumes "tcp_laws api_a in_a out_a" and "tcp_laws api_b in_b out_b"
    and "out_a (conns a f) = []" and "tcp_send_all api_a le_a (Some f) ms a = (rs, a1)" and "\<forall>r \<in> set rs. r = 0"
    and "\<forall>(h, body) \<in> set ms. m_marker h = MARKER" and "in_b (conns b g) = out_a (conns a1 f)"
  shows "\<exists>b1. tcp_receive_all api_b le_b (Some g) (length ms) b
      = (map (\<lambda>(h, body). (0, h\<lparr>m_length := of_nat (length body)\<rparr>, body)) ms, b1) \<and> in_b (conns b1 g) = []"
proof -
  note sent = tcp_sent [OF assms(1,4,5)]
  have "\<forall>(h, body) \<in> set ms. m_marker h = MARKER \<and> length body \<le> BUFFER_SIZE" using assms(6) sent by fast
  from tcp_received [OF assms(2) this, of b g le_a "[]"] sent assms(3,7) show ?thesis by simp
qed

section \<open>Datagrams\<close>

text \<open>
  C18: a message a UDP publisher has sent is received from its datagram with header and payload, and
  the subscriber answers with an acknowledgement of its number to the address it came from; the publisher tells
  that number to its monitor when it receives the acknowledgement.
\<close>

theorem udp_message_acknowledged:
  assumes "m_marker h = MARKER" and "m_id h \<noteq> ACK_REMOTE_ID" and "Udp_Send takes_a le_a body h a = (0, a1)"
    and "udp_type b = SUB" "udp_recvTransport b = Itself" "udp_sendTransport b = Itself" "takes_b (length (datagrams b))"
    and "udp_recvTransport a1 = Itself" "udp_monitor a1"
  shows "let datagram = snd (last (datagrams a1));
             (r, is, h1, b1) = Udp_Receive takes_b le_b (Some (from, datagram)) new_writer (DmqHeader 0 0 0) b;
             (to, answer) = last (datagrams b1);
             (r', is', h2, a2) = Udp_Receive takes_a' le_a (Some (to', answer)) new_writer (DmqHeader 0 0 0) a1
    in r = 0 \<and> h1 = h\<lparr>m_length := of_nat (length body)\<rparr> \<and> outbuf is = body \<and> to = from
       \<and> r' = 0 \<and> udp_acked a2 = udp_acked a1 @ [m_seqNum h] \<and> datagrams a2 = datagrams a1"
proof -
  let ?h = "h\<lparr>m_length := of_nat (length body)\<rparr>"
  have size: "length body \<le> 4088" and a1: "last (datagrams a1) = (m_addr a, packet le_a h body)"
    using assms(3) by (auto simp: Udp_Send_def BUFFER_SIZE_def HEADER_SIZE_def split: if_splits)
  have len: "length (packet le_a h body) = 8 + length body" by (simp add: packet_length HEADER_SIZE_def)
  have head: "parse_header le (packet le' h body) = ?h" for le le' by (simp add: packet_def parse_net_header)
  have tail: "drop 8 (packet le_a h body) = body" by (simp add: packet_def HEADER_SIZE_def)
  have unat: "unat (of_nat (length body) :: u16) = length body" using size by (simp add: unat_of_nat)
  have out: "outbuf (os_write body new_writer) = body" "outbuf new_writer = []"
    by (simp_all add: os_write_def new_writer_def)
  define b1 where "b1 = b\<lparr>datagrams := datagrams b @ [(from, ack_packet le_b (m_seqNum h))]\<rparr>"
  have one: "Udp_Receive takes_b le_b (Some (from, packet le_a h body)) new_writer (DmqHeader 0 0 0) b
      = (0, if 0 < length body then os_write body new_writer else new_writer, ?h, b1)"
    using assms(1,2,4-7) size
    by (simp add: Udp_Receive_def udp_acknowledge_def len head tail unat BUFFER_SIZE_def HEADER_SIZE_def b1_def Let_def)
  have ack: "length (ack_packet le_b (m_seqNum h)) = 8" "parse_header le_a (ack_packet le_b (m_seqNum h)) = DmqHeader ACK_REMOTE_ID (m_seqNum h) 0"
    using parse_net_header [of le_a le_b "DmqHeader ACK_REMOTE_ID (m_seqNum h) 0" "[]"] by (simp_all add: ack_packet_def HEADER_SIZE_def)
  have two: "Udp_Receive takes_a' le_a (Some (to', ack_packet le_b (m_seqNum h))) new_writer (DmqHeader 0 0 0) a1
      = (0, new_writer, DmqHeader ACK_REMOTE_ID (m_seqNum h) 0, a1\<lparr>udp_acked := udp_acked a1 @ [m_seqNum h]\<rparr>)"
    using assms(8,9) by (simp add: Udp_Receive_def udp_acknowledge_def ack BUFFER_SIZE_def HEADER_SIZE_def DmqHeader_def Let_def)
  show ?thesis by (simp add: a1 one two b1_def out)
qed

section \<open>Instances\<close>

text \<open>A connection that hands over at most three bytes at a time and takes at most \<open>k\<close>.\<close>

definition chunky :: "nat \<Rightarrow> (byte list \<times> byte list) socket_api" where
  "chunky k = \<lparr>sock_select = (\<lambda>(i, o'). i \<noteq> []), sock_read = (\<lambda>n (i, o'). (take (min 3 n) i, drop (min 3 n) i, o')),
     sock_write = (\<lambda>bs (i, o'). (int (min k (length bs)), i, o' @ take k bs))\<rparr>"

lemma chunky_laws: "tcp_laws (chunky k) fst snd"
  by (auto simp: tcp_laws_def chunky_def min_def)

definition tcp_client :: "byte list \<Rightarrow> (byte list \<times> byte list) TcpTransport" where
  "tcp_client bs = \<lparr>tcp_type = CLIENT, m_connFd = Some 4, m_serverClients = [], conns = (\<lambda>_. (bs, [])), tcp_sends = True,
     tcp_monitor = False, tcp_acked = []\<rparr>"

definition two_messages :: "(DmqHeader \<times> byte list) list" where
  "two_messages = [(DmqHeader 7 1 0, [1, 2, 3]), (DmqHeader 8 2 0, [])]"

definition after_sending :: "nat \<Rightarrow> (byte list \<times> byte list) TcpTransport" where
  "after_sending k = snd (tcp_send_all (chunky k) True (Some 4) two_messages (tcp_client []))"

lemma two_sent: "tcp_send_all (chunky 100) True (Some 4) two_messages (tcp_client []) = ([0, 0], after_sending 100)"
  by (simp add: after_sending_def two_messages_def tcp_client_def SendToSocket_def chunky_def packet_length HEADER_SIZE_def
      BUFFER_SIZE_def Let_def)

lemma tcp_messages_received_witness:
  "\<exists>b1. tcp_receive_all (chunky 100) False (Some 4) 2 (tcp_client (snd (conns (after_sending 100) 4)))
      = ([(0, (DmqHeader 7 1 0)\<lparr>m_length := 3\<rparr>, [1, 2, 3]), (0, DmqHeader 8 2 0, [])], b1) \<and> fst (conns b1 4) = []"
proof -
  have "\<forall>(h, body) \<in> set two_messages. m_marker h = MARKER" "snd (conns (tcp_client []) 4) = []"
    "fst (conns (tcp_client (snd (conns (after_sending 100) 4))) 4) = snd (conns (after_sending 100) 4)" "length two_messages = 2"
    "map (\<lambda>(h, body). (0 :: int, h\<lparr>m_length := of_nat (length body)\<rparr>, body)) two_messages
      = [(0, (DmqHeader 7 1 0)\<lparr>m_length := 3\<rparr>, [1, 2, 3]), (0, DmqHeader 8 2 0, [])]"
    by (simp_all add: two_messages_def DmqHeader_def tcp_client_def)
  with tcp_messages_received [OF chunky_laws chunky_laws, where a = "tcp_client []" and f = 4 and g = 4 and le_b = False
      and b = "tcp_client (snd (conns (after_sending 100) 4))", OF _ two_sent]
  show ?thesis by simp
qed

definition publisher :: UdpTransport where
  "publisher = \<lparr>udp_type = PUB, m_addr = 1, udp_sendTransport = Itself, udp_recvTransport = Itself, udp_monitor = True,
     datagrams = [], udp_acked = []\<rparr>"

definition subscriber :: UdpTransport where
  "subscriber = publisher\<lparr>udp_type := SUB, udp_monitor := False\<rparr>"

lemma udp_message_acknowledged_witness:
  "let a1 = publisher\<lparr>datagrams := [(1, packet True (DmqHeader 7 5 0) [1, 2])]\<rparr>;
       datagram = snd (last (datagrams a1));
       (r, is, h1, b1) = Udp_Receive (\<lambda>_. True) False (Some (9, datagram)) new_writer (DmqHeader 0 0 0) subscriber;
       (to, answer) = last (datagrams b1);
       (r', is', h2, a2) = Udp_Receive (\<lambda>_. True) True (Some (2, answer)) new_writer (DmqHeader 0 0 0) a1
    in r = 0 \<and> h1 = (DmqHeader 7 5 0)\<lparr>m_length := of_nat (length [1, 2 :: byte])\<rparr> \<and> outbuf is = [1, 2] \<and> to = 9
       \<and> r' = 0 \<and> udp_acked a2 = udp_acked a1 @ [m_seqNum (DmqHeader 7 5 0)] \<and> datagrams a2 = datagrams a1"
  unfolding Let_def [of "publisher\<lparr>datagrams := [(1, packet True (DmqHeader 7 5 0) [1, 2])]\<rparr>"]
  by (rule udp_message_acknowledged [where takes_a = "\<lambda>_. True" and a = publisher and body = "[1, 2]"])
    (simp_all add: Udp_Send_def publisher_def subscriber_def DmqHeader_def ACK_REMOTE_ID_def BUFFER_SIZE_def HEADER_SIZE_def)

section \<open>What the transports do not guarantee\<close>

text \<open>When the system takes only a part of a packet, sending reports the failure but goes on with the next packet. The
  receiver completes the first message with bytes of the second and hands it over, and loses the second.\<close>

theorem short_write_corrupts:
  "fst (tcp_send_all (chunky 10) True (Some 4) two_messages (tcp_client [])) = [-1, 0]"
  "map (\<lambda>(r, h, body). (r, body)) (fst (tcp_receive_all (chunky 100) True (Some 4) 2 (tcp_client (snd (conns (after_sending 10) 4)))))
    = [(0, [1, 2, 0xAA]), (-2, [])]"
  by code_simp+

text \<open>A timeout within a packet loses what was read of it; the rest is then taken for the next packet.\<close>

definition stalling :: "byte list list socket_api" where
  "stalling = \<lparr>sock_select = (\<lambda>cs. cs \<noteq> []),
     sock_read = (\<lambda>n cs. case cs of [] \<Rightarrow> ([], []) | c # cs' \<Rightarrow> if length c \<le> n then (c, cs') else (take n c, drop n c # cs')),
     sock_write = (\<lambda>bs cs. (int (length bs), cs))\<rparr>"

theorem timeout_loses_packets:
  "map (\<lambda>(r, h, body). (r, body)) (fst (tcp_receive_all stalling True (Some 4) 2
      \<lparr>tcp_type = CLIENT, m_connFd = Some 4, m_serverClients = [],
       conns = (\<lambda>_. [take 3 (packet True (DmqHeader 7 1 0) [1, 2, 3]), [], drop 3 (packet True (DmqHeader 7 1 0) [1, 2, 3])]),
       tcp_sends = True, tcp_monitor = False, tcp_acked = []\<rparr>)) = [(-2, []), (-1, [])]"
  by code_simp

text \<open>A datagram that is shorter than its header says is accepted as a shorter message and acknowledged.\<close>

theorem truncated_datagram_accepted:
  assumes "udp_recvTransport tr = Itself" and "m_marker h = MARKER" and "length body < unat (m_length h)"
    and "length body \<le> BUFFER_SIZE - HEADER_SIZE"
  shows "\<exists>is1 tr1. Udp_Receive takes le (Some (from, net_header le h @ body)) new_writer h0 tr = (0, is1, h, tr1) \<and> outbuf is1 = body"
proof -
  have "parse_header le (net_header le h @ body) = h" "drop 8 (net_header le h @ body) = body" "length (net_header le h) = 8"
    using parse_net_header length_net_header [of le h] by (simp_all add: HEADER_SIZE_def)
  with assms show ?thesis
    by (cases "body = []") (simp_all add: Udp_Receive_def BUFFER_SIZE_def HEADER_SIZE_def os_write_def new_writer_def Let_def)
qed

end
