(* ===== verification/RtosQueue.thy ===== *)
theory RtosQueue
  imports LaneQueue "HOL-Library.Multiset"
begin

text \<open>
  The message queues of the ports to real-time kernels: \<^verbatim>\<open>FreeRTOSDelegateQueue.h\<close> and
  \<^verbatim>\<open>ThreadXDelegateQueue.h\<close>. Both keep one native queue for each priority and a counting
  semaphore, the doorbell, that is given once for every message: a receiver waits for the
  doorbell and then takes a message without waiting, from the HIGH lane first. What they rely on
  in each other's steps is the locale \<open>doorbell_lanes\<close>; the classes are its interpretations.

  The kernels are not under \<^verbatim>\<open>src\<close>. Their functions are the records \<open>freertos\<close> and \<open>threadx\<close>, arguments
  of the definitions; \<open>freertos_laws\<close> and \<open>threadx_laws\<close> state what their manuals say of them, over what
  a queue holds and a semaphore counts.
\<close>

section \<open>Kernel calls\<close>

text \<open>The outcome of a call on a handle: the handle is null, so that the behaviour is undefined;
  the call fails, as a queue is full or empty or a semaphore has no count; or it succeeds.\<close>

datatype 'x kernel_result = Null_handle | Failed | Done 'x

definition on_handle :: "('h \<Rightarrow> 'x option) \<Rightarrow> 'h option \<Rightarrow> 'x kernel_result" where
  "on_handle call h =
     (case h of None \<Rightarrow> Null_handle | Some x \<Rightarrow> (case call x of None \<Rightarrow> Failed | Some y \<Rightarrow> Done y))"

definition map_done :: "('x \<Rightarrow> 'y) \<Rightarrow> 'x kernel_result \<Rightarrow> 'y kernel_result" where
  "map_done f r = (case r of Null_handle \<Rightarrow> Null_handle | Failed \<Rightarrow> Failed | Done x \<Rightarrow> Done (f x))"

lemma on_handle_simps [simp]:
  "on_handle call None = Null_handle"
  "on_handle call (Some x) = (case call x of None \<Rightarrow> Failed | Some y \<Rightarrow> Done y)"
  by (simp_all add: on_handle_def)

lemma map_done_simps [simp]:
  "map_done f Null_handle = Null_handle" "map_done f Failed = Failed" "map_done f (Done x) = Done (f x)"
  by (simp_all add: map_done_def)

text \<open>What a native queue holds and has room for, and what a counting semaphore counts and counts
  to. The model never computes with it; the laws are stated over it.\<close>

record ('q, 's, 'm) kernel_view =
  items :: "'q \<Rightarrow> 'm list"
  room :: "'q \<Rightarrow> nat"
  bells :: "'s \<Rightarrow> nat"

definition queue_laws ::
  "('q, 's, 'm) kernel_view \<Rightarrow> (nat \<Rightarrow> 'q option) \<Rightarrow> ('q \<Rightarrow> 'm \<Rightarrow> 'q option) \<Rightarrow> ('q \<Rightarrow> ('m \<times> 'q) option)
   \<Rightarrow> ('q \<Rightarrow> nat) \<Rightarrow> bool" where
  "queue_laws V create send receive depth \<longleftrightarrow>
     (\<forall>n q. create n = Some q \<longrightarrow> items V q = [] \<and> room V q = n)
     \<and> (\<forall>q m. length (items V q) < room V q \<longrightarrow>
          (\<exists>q'. send q m = Some q' \<and> items V q' = items V q @ [m] \<and> room V q' = room V q))
     \<and> (\<forall>q m. room V q \<le> length (items V q) \<longrightarrow> send q m = None)
     \<and> (\<forall>q. items V q = [] \<longrightarrow> receive q = None)
     \<and> (\<forall>q m ms. items V q = m # ms \<longrightarrow>
          (\<exists>q'. receive q = Some (m, q') \<and> items V q' = ms \<and> room V q' = room V q))
     \<and> (\<forall>q. depth q = length (items V q))"

lemma queue_create: "queue_laws V create send receive depth \<Longrightarrow> create n = Some q \<Longrightarrow> items V q = [] \<and> room V q = n"
  unfolding queue_laws_def by blast

lemma queue_send:
  assumes "queue_laws V create send receive depth"
  shows "send q m = Some q' \<Longrightarrow> items V q' = items V q @ [m] \<and> room V q' = room V q \<and> length (items V q) < room V q"
    and "length (items V q) < room V q \<Longrightarrow> \<exists>q'. send q m = Some q'"
    and "send q m = None \<longleftrightarrow> room V q \<le> length (items V q)"
proof -
  have full: "room V q \<le> length (items V q) \<Longrightarrow> send q m = None"
    and free: "length (items V q) < room V q \<Longrightarrow>
      \<exists>q'. send q m = Some q' \<and> items V q' = items V q @ [m] \<and> room V q' = room V q"
    using assms unfolding queue_laws_def by blast+
  show "send q m = Some q' \<Longrightarrow> items V q' = items V q @ [m] \<and> room V q' = room V q \<and> length (items V q) < room V q"
    using full free by (cases "length (items V q) < room V q") auto
  show "length (items V q) < room V q \<Longrightarrow> \<exists>q'. send q m = Some q'" using free by blast
  show "send q m = None \<longleftrightarrow> room V q \<le> length (items V q)"
    using full free by (cases "length (items V q) < room V q") auto
qed

lemma queue_receive:
  assumes "queue_laws V create send receive depth"
  shows "receive q = None \<longleftrightarrow> items V q = []"
    and "receive q = Some (m, q') \<Longrightarrow> items V q = m # items V q' \<and> room V q' = room V q"
    and "items V q = m # ms \<Longrightarrow> \<exists>q'. receive q = Some (m, q')"
proof -
  have empty: "items V q = [] \<Longrightarrow> receive q = None"
    and full: "items V q = x # xs \<Longrightarrow> \<exists>q'. receive q = Some (x, q') \<and> items V q' = xs \<and> room V q' = room V q" for x xs
    using assms unfolding queue_laws_def by blast+
  show "receive q = None \<longleftrightarrow> items V q = []"
    using empty full by (cases "items V q") auto
  show "receive q = Some (m, q') \<Longrightarrow> items V q = m # items V q' \<and> room V q' = room V q"
    using empty full by (cases "items V q") auto
  show "items V q = m # ms \<Longrightarrow> \<exists>q'. receive q = Some (m, q')" using full by blast
qed

text \<open>The loop that empties a native queue without waiting. It ends when the queue does.\<close>

partial_function (option) drain_lane :: "('q \<Rightarrow> ('m \<times> 'q) option) \<Rightarrow> 'q \<Rightarrow> ('m list \<times> 'q) option" where
  "drain_lane receive q =
     (case receive q of
        None \<Rightarrow> Some ([], q)
      | Some (m, q1) \<Rightarrow>
          Option.bind (drain_lane receive q1) (\<lambda>(ms, q2). Some (m # ms, q2)))"

declare drain_lane.simps [code]

lemma drain_lane_all:
  assumes "queue_laws V create send receive depth"
  shows "\<exists>q'. drain_lane receive q = Some (items V q, q') \<and> items V q' = [] \<and> room V q' = room V q"
proof (induction "items V q" arbitrary: q)
  case Nil
  then have "receive q = None" using queue_receive(1) [OF assms, of q] by simp
  then have "drain_lane receive q = Some ([], q)" by (subst drain_lane.simps) simp
  then show ?case using Nil by simp
next
  case (Cons m ms)
  then obtain q1 where r: "receive q = Some (m, q1)" using queue_receive(3) [OF assms, of q m ms] by auto
  then have q1: "items V q = m # items V q1" "room V q1 = room V q"
    using queue_receive(2) [OF assms r] by simp_all
  then have "ms = items V q1" using Cons(2) by simp
  from Cons(1) [OF this] obtain q2
    where "drain_lane receive q1 = Some (ms, q2)" "items V q2 = []" "room V q2 = room V q1"
    using \<open>ms = items V q1\<close> by auto
  then show ?case using Cons(2) q1 by (subst drain_lane.simps) (simp add: r)
qed

section \<open>The contract\<close>

text \<open>
  What the users of a queue with a doorbell rely on, at each of the kernel calls between which other
  threads may run: a message is put into its lane, the doorbell is given, taken, and a message is
  taken off the lanes. \<open>usable\<close> holds of a queue that has been created, on a kernel that keeps its laws.
\<close>

locale doorbell_lanes =
  fixes usable :: "'d \<Rightarrow> bool"
    and lane :: "Priority \<Rightarrow> 'd \<Rightarrow> 'm list"
    and capacity :: "'d \<Rightarrow> nat"
    and tally :: "'d \<Rightarrow> nat"
    and put :: "'m \<Rightarrow> Priority \<Rightarrow> 'd \<Rightarrow> 'd kernel_result"
    and ring :: "'d \<Rightarrow> 'd kernel_result"
    and await :: "'d \<Rightarrow> 'd kernel_result"
    and pop :: "'d \<Rightarrow> ('m \<times> 'd) kernel_result"
  assumes bounded: "usable d \<Longrightarrow> length (lane p d) \<le> capacity d"
    and put_full: "usable d \<Longrightarrow> put m p d = Failed \<longleftrightarrow> length (lane p d) = capacity d"
    and put_usable: "usable d \<Longrightarrow> put m p d \<noteq> Null_handle"
    and put_done: "usable d \<Longrightarrow> put m p d = Done d' \<Longrightarrow>
      usable d' \<and> lane r d' = lane r d @ (if r = p then [m] else []) \<and> tally d' = tally d \<and> capacity d' = capacity d"
    and ring_room: "usable d \<Longrightarrow> tally d < 2 * capacity d \<Longrightarrow> ring d \<noteq> Failed"
    and ring_done: "usable d \<Longrightarrow> ring d = Done d' \<Longrightarrow>
      usable d' \<and> lane r d' = lane r d \<and> tally d' = Suc (tally d) \<and> capacity d' = capacity d"
    and ring_usable: "usable d \<Longrightarrow> ring d \<noteq> Null_handle"
    and await_fails: "usable d \<Longrightarrow> await d = Failed \<longleftrightarrow> tally d = 0"
    and await_usable: "usable d \<Longrightarrow> await d \<noteq> Null_handle"
    and await_done: "usable d \<Longrightarrow> await d = Done d' \<Longrightarrow>
      usable d' \<and> lane r d' = lane r d \<and> tally d = Suc (tally d') \<and> capacity d' = capacity d"
    and pop_usable: "usable d \<Longrightarrow> pop d \<noteq> Null_handle"
    and pop_fails: "usable d \<Longrightarrow> pop d = Failed \<longleftrightarrow> lane HIGH d = [] \<and> lane NORMAL d = []"
    and pop_done: "usable d \<Longrightarrow> pop d = Done (m, d') \<Longrightarrow>
      usable d' \<and> tally d' = tally d \<and> capacity d' = capacity d
      \<and> (case lane HIGH d of
           x # xs \<Rightarrow> m = x \<and> lane HIGH d' = xs \<and> lane NORMAL d' = lane NORMAL d
         | [] \<Rightarrow> lane HIGH d' = [] \<and> lane NORMAL d = m # lane NORMAL d')"
begin

definition waiting :: "'d \<Rightarrow> 'm list" where
  "waiting d = lane HIGH d @ lane NORMAL d"

text \<open>\<open>k\<close> messages wait for which the doorbell has not been given yet or has been taken already.\<close>

definition balanced :: "nat \<Rightarrow> 'd \<Rightarrow> bool" where
  "balanced k d \<longleftrightarrow> usable d \<and> length (waiting d) = tally d + k"

lemma balanced_usable: "balanced k d \<Longrightarrow> usable d"
  by (simp add: balanced_def)

lemma waiting_bounded: "usable d \<Longrightarrow> length (waiting d) \<le> 2 * capacity d"
  using bounded [of d HIGH] bounded [of d NORMAL] by (simp add: waiting_def)

lemma put_waiting:
  assumes "usable d" and "put m p d = Done d'"
  shows "mset (waiting d') = add_mset m (mset (waiting d))" and "length (waiting d') = Suc (length (waiting d))"
proof -
  have lanes: "lane HIGH d' = lane HIGH d @ (if HIGH = p then [m] else [])"
    "lane NORMAL d' = lane NORMAL d @ (if NORMAL = p then [m] else [])"
    using put_done [OF assms] by blast+
  show "mset (waiting d') = add_mset m (mset (waiting d))"
    by (cases p) (simp_all add: waiting_def lanes)
  show "length (waiting d') = Suc (length (waiting d))"
    by (cases p) (simp_all add: waiting_def lanes)
qed

lemma put_balanced:
  assumes "balanced k d" and "put m p d = Done d'"
  shows "balanced (Suc k) d'"
proof -
  have u: "usable d" using assms(1) by (rule balanced_usable)
  show ?thesis
    using assms(1) put_waiting(2) [OF u assms(2)] put_done [OF u assms(2), of p] by (simp add: balanced_def)
qed

text \<open>A doorbell that is due can always be given: the count stays below the combined capacity.\<close>

lemma ring_balanced:
  assumes "balanced (Suc k) d"
  shows "\<exists>d'. ring d = Done d' \<and> balanced k d' \<and> (\<forall>r. lane r d' = lane r d)"
proof -
  have u: "usable d" and n: "length (waiting d) = tally d + Suc k" using assms by (simp_all add: balanced_def)
  then have "ring d \<noteq> Failed" using waiting_bounded [OF u] ring_room [OF u] by simp
  then obtain d' where d': "ring d = Done d'" using ring_usable [OF u] by (cases "ring d") auto
  have same: "lane r d' = lane r d" for r using ring_done [OF u d'] by blast
  then show ?thesis using d' n ring_done [OF u d', of HIGH] by (auto simp: balanced_def waiting_def)
qed

text \<open>Whoever has taken the doorbell finds a message.\<close>

lemma await_balanced:
  assumes "balanced k d" and "await d = Done d'"
  shows "balanced (Suc k) d'" and "\<And>r. lane r d' = lane r d"
proof -
  have u: "usable d" using assms(1) by (rule balanced_usable)
  show same: "lane r d' = lane r d" for r using await_done [OF u assms(2)] by blast
  show "balanced (Suc k) d'"
    using assms(1) await_done [OF u assms(2), of HIGH] same by (simp add: balanced_def waiting_def)
qed

lemma pop_waiting:
  assumes "usable d" and "pop d = Done (m, d')"
  shows "waiting d = m # waiting d'" and "usable d'" and "tally d' = tally d"
  using pop_done [OF assms] by (auto simp: waiting_def split: list.splits)

lemma pop_balanced:
  assumes "balanced (Suc k) d"
  shows "\<exists>m d'. pop d = Done (m, d') \<and> balanced k d' \<and> waiting d = m # waiting d'"
proof -
  have u: "usable d" and n: "length (waiting d) = tally d + Suc k" using assms by (simp_all add: balanced_def)
  then have "pop d \<noteq> Failed" using pop_fails [OF u] by (auto simp: waiting_def)
  then obtain m d' where "pop d = Done (m, d')" using pop_usable [OF u] by (cases "pop d") auto
  then show ?thesis using pop_waiting [OF u] n by (auto simp: balanced_def)
qed

end

section \<open>FreeRTOS\<close>

text \<open>The calls of FreeRTOS the class makes. A call that may wait is here the attempt that succeeds, or
  the one that fails when the time is up.\<close>

record ('q, 's, 'm) freertos =
  xQueueCreate :: "nat \<Rightarrow> 'q option"
  xQueueSendToBack :: "'q \<Rightarrow> 'm \<Rightarrow> 'q option"
  xQueueReceive :: "'q \<Rightarrow> ('m \<times> 'q) option"
  uxQueueMessagesWaiting :: "'q \<Rightarrow> nat"
  xSemaphoreCreateCounting :: "nat \<Rightarrow> nat \<Rightarrow> 's option"
  xSemaphoreGive :: "'s \<Rightarrow> 's option"
  xSemaphoreTake :: "'s \<Rightarrow> 's option"

text \<open>A counting semaphore of FreeRTOS has a maximum, given when it is created: \<open>limit\<close>.\<close>

definition freertos_laws ::
  "('q, 's, 'm) freertos \<Rightarrow> ('q, 's, 'm) kernel_view \<Rightarrow> ('s \<Rightarrow> nat) \<Rightarrow> bool" where
  "freertos_laws K V limit \<longleftrightarrow>
     queue_laws V (xQueueCreate K) (xQueueSendToBack K) (xQueueReceive K) (uxQueueMessagesWaiting K)
     \<and> (\<forall>n i s. xSemaphoreCreateCounting K n i = Some s \<longrightarrow> bells V s = i \<and> limit s = n)
     \<and> (\<forall>s. bells V s < limit s \<longrightarrow>
          (\<exists>s'. xSemaphoreGive K s = Some s' \<and> bells V s' = Suc (bells V s) \<and> limit s' = limit s))
     \<and> (\<forall>s. limit s \<le> bells V s \<longrightarrow> xSemaphoreGive K s = None)
     \<and> (\<forall>s. bells V s = 0 \<longrightarrow> xSemaphoreTake K s = None)
     \<and> (\<forall>s. 0 < bells V s \<longrightarrow>
          (\<exists>s'. xSemaphoreTake K s = Some s' \<and> bells V s = Suc (bells V s') \<and> limit s' = limit s))"

record ('q, 's) FreeRTOSDelegateQueue =
  frt_highQueue :: "'q option"
  frt_normalQueue :: "'q option"
  frt_countSem :: "'s option"

definition frt_Destroy :: "('q, 's) FreeRTOSDelegateQueue \<Rightarrow> ('q, 's) FreeRTOSDelegateQueue" where
  "frt_Destroy d = \<lparr>frt_highQueue = None, frt_normalQueue = None, frt_countSem = None\<rparr>"

definition frt_IsCreated :: "('q, 's) FreeRTOSDelegateQueue \<Rightarrow> bool" where
  "frt_IsCreated d \<longleftrightarrow> frt_highQueue d \<noteq> None \<and> frt_normalQueue d \<noteq> None \<and> frt_countSem d \<noteq> None"

definition or_create :: "'h option \<Rightarrow> 'h option \<Rightarrow> 'h option" where
  "or_create h new = (case h of None \<Rightarrow> new | Some x \<Rightarrow> Some x)"

definition frt_Create ::
  "('q, 's, 'm) freertos \<Rightarrow> nat \<Rightarrow> ('q, 's) FreeRTOSDelegateQueue \<Rightarrow> bool \<times> ('q, 's) FreeRTOSDelegateQueue" where
  "frt_Create K cap d =
     (if frt_IsCreated d then (True, d)
      else let d1 = \<lparr>frt_highQueue = or_create (frt_highQueue d) (xQueueCreate K cap),
                     frt_normalQueue = or_create (frt_normalQueue d) (xQueueCreate K cap),
                     frt_countSem = or_create (frt_countSem d) (xSemaphoreCreateCounting K (cap * 2) 0)\<rparr>
           in if frt_IsCreated d1 then (True, d1) else (False, frt_Destroy d1))"

text \<open>\<^verbatim>\<open>Send\<close>: the message goes to the back of its lane, then the doorbell is given, whose result the
  code does not look at.\<close>

definition frt_put ::
  "('q, 's, 'm) freertos \<Rightarrow> 'm \<Rightarrow> Priority \<Rightarrow> ('q, 's) FreeRTOSDelegateQueue
   \<Rightarrow> ('q, 's) FreeRTOSDelegateQueue kernel_result" where
  "frt_put K m p d =
     (if p = HIGH
      then map_done (\<lambda>q. d\<lparr>frt_highQueue := Some q\<rparr>) (on_handle (\<lambda>q. xQueueSendToBack K q m) (frt_highQueue d))
      else map_done (\<lambda>q. d\<lparr>frt_normalQueue := Some q\<rparr>) (on_handle (\<lambda>q. xQueueSendToBack K q m) (frt_normalQueue d)))"

definition frt_ring ::
  "('q, 's, 'm) freertos \<Rightarrow> ('q, 's) FreeRTOSDelegateQueue \<Rightarrow> ('q, 's) FreeRTOSDelegateQueue kernel_result" where
  "frt_ring K d = map_done (\<lambda>s. d\<lparr>frt_countSem := Some s\<rparr>) (on_handle (xSemaphoreGive K) (frt_countSem d))"

text \<open>\<^verbatim>\<open>Receive\<close>: the doorbell is taken, then a message, from the HIGH lane if it has one.\<close>

definition frt_await ::
  "('q, 's, 'm) freertos \<Rightarrow> ('q, 's) FreeRTOSDelegateQueue \<Rightarrow> ('q, 's) FreeRTOSDelegateQueue kernel_result" where
  "frt_await K d = map_done (\<lambda>s. d\<lparr>frt_countSem := Some s\<rparr>) (on_handle (xSemaphoreTake K) (frt_countSem d))"

definition frt_pop ::
  "('q, 's, 'm) freertos \<Rightarrow> ('q, 's) FreeRTOSDelegateQueue
   \<Rightarrow> ('m \<times> ('q, 's) FreeRTOSDelegateQueue) kernel_result" where
  "frt_pop K d =
     (case on_handle (xQueueReceive K) (frt_highQueue d) of
        Failed \<Rightarrow> map_done (\<lambda>(m, q). (m, d\<lparr>frt_normalQueue := Some q\<rparr>))
                    (on_handle (xQueueReceive K) (frt_normalQueue d))
      | r \<Rightarrow> map_done (\<lambda>(m, q). (m, d\<lparr>frt_highQueue := Some q\<rparr>)) r)"

definition frt_Size :: "('q, 's, 'm) freertos \<Rightarrow> ('q, 's) FreeRTOSDelegateQueue \<Rightarrow> nat" where
  "frt_Size K d =
     (case (frt_highQueue d, frt_normalQueue d) of
        (Some h, Some n) \<Rightarrow> uxQueueMessagesWaiting K h + uxQueueMessagesWaiting K n
      | _ \<Rightarrow> 0)"

text \<open>\<^verbatim>\<open>DrainAndDelete\<close>: the messages in the order they are cancelled.\<close>

definition frt_DrainAndDelete ::
  "('q, 's, 'm) freertos \<Rightarrow> ('q, 's) FreeRTOSDelegateQueue
   \<Rightarrow> ('m list \<times> ('q, 's) FreeRTOSDelegateQueue) option" where
  "frt_DrainAndDelete K d =
     (case (frt_highQueue d, frt_normalQueue d) of
        (Some h, Some n) \<Rightarrow>
          Option.bind (drain_lane (xQueueReceive K) h) (\<lambda>(xs, h1).
          Option.bind (drain_lane (xQueueReceive K) n) (\<lambda>(ys, n1).
            Some (xs @ ys, d\<lparr>frt_highQueue := Some h1, frt_normalQueue := Some n1\<rparr>)))
      | _ \<Rightarrow> None)"

subsection \<open>The contract holds\<close>

definition handle_items :: "('q, 's, 'm) kernel_view \<Rightarrow> 'q option \<Rightarrow> 'm list" where
  "handle_items V h = (case h of None \<Rightarrow> [] | Some q \<Rightarrow> items V q)"

definition frt_lane :: "('q, 's, 'm) kernel_view \<Rightarrow> Priority \<Rightarrow> ('q, 's) FreeRTOSDelegateQueue \<Rightarrow> 'm list" where
  "frt_lane V p d = handle_items V (if p = HIGH then frt_highQueue d else frt_normalQueue d)"

definition frt_capacity :: "('q, 's, 'm) kernel_view \<Rightarrow> ('q, 's) FreeRTOSDelegateQueue \<Rightarrow> nat" where
  "frt_capacity V d = (case frt_highQueue d of None \<Rightarrow> 0 | Some q \<Rightarrow> room V q)"

definition frt_tally :: "('q, 's, 'm) kernel_view \<Rightarrow> ('q, 's) FreeRTOSDelegateQueue \<Rightarrow> nat" where
  "frt_tally V d = (case frt_countSem d of None \<Rightarrow> 0 | Some s \<Rightarrow> bells V s)"

definition frt_usable ::
  "('q, 's, 'm) freertos \<Rightarrow> ('q, 's, 'm) kernel_view \<Rightarrow> ('s \<Rightarrow> nat) \<Rightarrow> ('q, 's) FreeRTOSDelegateQueue \<Rightarrow> bool" where
  "frt_usable K V limit d \<longleftrightarrow> freertos_laws K V limit
     \<and> (\<exists>h n s. d = \<lparr>frt_highQueue = Some h, frt_normalQueue = Some n, frt_countSem = Some s\<rparr>
          \<and> room V n = room V h \<and> 2 * room V h \<le> limit s
          \<and> length (items V h) \<le> room V h \<and> length (items V n) \<le> room V h)"

lemma freertos_queue:
  "freertos_laws K V limit \<Longrightarrow>
   queue_laws V (xQueueCreate K) (xQueueSendToBack K) (xQueueReceive K) (uxQueueMessagesWaiting K)"
  by (simp add: freertos_laws_def)

lemma freertos_semaphore:
  assumes "freertos_laws K V limit"
  shows "xSemaphoreCreateCounting K n i = Some s \<Longrightarrow> bells V s = i \<and> limit s = n"
    and "xSemaphoreGive K s = None \<longleftrightarrow> limit s \<le> bells V s"
    and "xSemaphoreGive K s = Some s' \<Longrightarrow> bells V s' = Suc (bells V s) \<and> limit s' = limit s"
    and "xSemaphoreTake K s = None \<longleftrightarrow> bells V s = 0"
    and "xSemaphoreTake K s = Some s' \<Longrightarrow> bells V s = Suc (bells V s') \<and> limit s' = limit s"
proof -
  show "xSemaphoreCreateCounting K n i = Some s \<Longrightarrow> bells V s = i \<and> limit s = n"
    using assms unfolding freertos_laws_def by blast
  have room: "bells V s < limit s \<Longrightarrow>
      \<exists>s'. xSemaphoreGive K s = Some s' \<and> bells V s' = Suc (bells V s) \<and> limit s' = limit s"
    and full: "limit s \<le> bells V s \<Longrightarrow> xSemaphoreGive K s = None"
    using assms unfolding freertos_laws_def by blast+
  show "xSemaphoreGive K s = None \<longleftrightarrow> limit s \<le> bells V s"
    using room full by (cases "bells V s < limit s") auto
  show "xSemaphoreGive K s = Some s' \<Longrightarrow> bells V s' = Suc (bells V s) \<and> limit s' = limit s"
    using room full by (cases "bells V s < limit s") auto
  have none: "bells V s = 0 \<Longrightarrow> xSemaphoreTake K s = None"
    and some: "0 < bells V s \<Longrightarrow>
      \<exists>s'. xSemaphoreTake K s = Some s' \<and> bells V s = Suc (bells V s') \<and> limit s' = limit s"
    using assms unfolding freertos_laws_def by blast+
  show "xSemaphoreTake K s = None \<longleftrightarrow> bells V s = 0"
    using none some by (cases "bells V s = 0") auto
  show "xSemaphoreTake K s = Some s' \<Longrightarrow> bells V s = Suc (bells V s') \<and> limit s' = limit s"
    using none some by (cases "bells V s = 0") auto
qed

lemma frt_usableE:
  assumes "frt_usable K V limit d"
  obtains h n s where "d = \<lparr>frt_highQueue = Some h, frt_normalQueue = Some n, frt_countSem = Some s\<rparr>"
    and "room V n = room V h" and "2 * room V h \<le> limit s"
    and "length (items V h) \<le> room V h" and "length (items V n) \<le> room V h"
    and "freertos_laws K V limit"
  using assms unfolding frt_usable_def by blast

lemmas frt_view_defs = frt_lane_def frt_capacity_def frt_tally_def handle_items_def

lemma frt_put_done:
  assumes "frt_usable K V limit d"
  shows "frt_put K m p d = Failed \<longleftrightarrow> length (frt_lane V p d) = frt_capacity V d"
    and "frt_put K m p d \<noteq> Null_handle"
    and "frt_put K m p d = Done d' \<Longrightarrow> frt_usable K V limit d'
      \<and> frt_lane V r d' = frt_lane V r d @ (if r = p then [m] else [])
      \<and> frt_tally V d' = frt_tally V d \<and> frt_capacity V d' = frt_capacity V d"
proof -
  obtain h n s where d: "d = \<lparr>frt_highQueue = Some h, frt_normalQueue = Some n, frt_countSem = Some s\<rparr>"
    and ok: "room V n = room V h" "2 * room V h \<le> limit s" "length (items V h) \<le> room V h"
      "length (items V n) \<le> room V h" and laws: "freertos_laws K V limit"
    using assms by (rule frt_usableE)
  note send = queue_send [OF freertos_queue [OF laws]]
  show "frt_put K m p d = Failed \<longleftrightarrow> length (frt_lane V p d) = frt_capacity V d"
  proof (cases p)
    case HIGH
    then have "frt_put K m p d = Failed \<longleftrightarrow> xQueueSendToBack K h m = None"
      by (simp add: frt_put_def d split: option.split)
    with HIGH ok(3) send(3) [of h m] show ?thesis by (simp add: frt_view_defs d) linarith
  next
    case NORMAL
    then have "frt_put K m p d = Failed \<longleftrightarrow> xQueueSendToBack K n m = None"
      by (simp add: frt_put_def d split: option.split)
    with NORMAL ok(1,4) send(3) [of n m] show ?thesis by (simp add: frt_view_defs d) linarith
  qed
  show "frt_put K m p d \<noteq> Null_handle"
    by (cases p) (simp_all add: frt_put_def d split: option.split)
  assume put: "frt_put K m p d = Done d'"
  show "frt_usable K V limit d'
      \<and> frt_lane V r d' = frt_lane V r d @ (if r = p then [m] else [])
      \<and> frt_tally V d' = frt_tally V d \<and> frt_capacity V d' = frt_capacity V d"
  proof (cases p)
    case HIGH
    with put obtain q where "xQueueSendToBack K h m = Some q" "d' = d\<lparr>frt_highQueue := Some q\<rparr>"
      by (auto simp: frt_put_def d split: option.splits)
    with send(1) [of h m q] ok laws HIGH show ?thesis
      by (cases r) (simp_all add: frt_view_defs frt_usable_def d)
  next
    case NORMAL
    with put obtain q where "xQueueSendToBack K n m = Some q" "d' = d\<lparr>frt_normalQueue := Some q\<rparr>"
      by (auto simp: frt_put_def d split: option.splits)
    with send(1) [of n m q] ok laws NORMAL show ?thesis
      by (cases r) (simp_all add: frt_view_defs frt_usable_def d)
  qed
qed

lemma frt_ring_done:
  assumes "frt_usable K V limit d"
  shows "frt_ring K d \<noteq> Null_handle"
    and "frt_tally V d < 2 * frt_capacity V d \<Longrightarrow> frt_ring K d \<noteq> Failed"
    and "frt_ring K d = Done d' \<Longrightarrow> frt_usable K V limit d' \<and> frt_lane V r d' = frt_lane V r d
        \<and> frt_tally V d' = Suc (frt_tally V d) \<and> frt_capacity V d' = frt_capacity V d"
proof -
  obtain h n s where d: "d = \<lparr>frt_highQueue = Some h, frt_normalQueue = Some n, frt_countSem = Some s\<rparr>"
    and ok: "room V n = room V h" "2 * room V h \<le> limit s" "length (items V h) \<le> room V h"
      "length (items V n) \<le> room V h" and laws: "freertos_laws K V limit"
    using assms by (rule frt_usableE)
  note sem = freertos_semaphore(2,3) [OF laws, of s]
  show "frt_ring K d \<noteq> Null_handle" by (simp add: frt_ring_def d split: option.split)
  show "frt_tally V d < 2 * frt_capacity V d \<Longrightarrow> frt_ring K d \<noteq> Failed"
    using sem(1) ok(2) by (auto simp: frt_ring_def frt_view_defs d split: option.split)
  assume "frt_ring K d = Done d'"
  then show "frt_usable K V limit d' \<and> frt_lane V r d' = frt_lane V r d
        \<and> frt_tally V d' = Suc (frt_tally V d) \<and> frt_capacity V d' = frt_capacity V d"
    using sem(2) ok laws by (auto simp: frt_ring_def frt_view_defs frt_usable_def d split: option.splits)
qed

lemma frt_await_done:
  assumes "frt_usable K V limit d"
  shows "frt_await K d = Failed \<longleftrightarrow> frt_tally V d = 0"
    and "frt_await K d \<noteq> Null_handle"
    and "frt_await K d = Done d' \<Longrightarrow> frt_usable K V limit d' \<and> frt_lane V r d' = frt_lane V r d
      \<and> frt_tally V d = Suc (frt_tally V d') \<and> frt_capacity V d' = frt_capacity V d"
proof -
  obtain h n s where d: "d = \<lparr>frt_highQueue = Some h, frt_normalQueue = Some n, frt_countSem = Some s\<rparr>"
    and ok: "room V n = room V h" "2 * room V h \<le> limit s" "length (items V h) \<le> room V h"
      "length (items V n) \<le> room V h" and laws: "freertos_laws K V limit"
    using assms by (rule frt_usableE)
  note sem = freertos_semaphore(4,5) [OF laws, of s]
  show "frt_await K d = Failed \<longleftrightarrow> frt_tally V d = 0"
    using sem(1) by (auto simp: frt_await_def frt_view_defs d split: option.split)
  show "frt_await K d \<noteq> Null_handle" by (simp add: frt_await_def d split: option.split)
  assume "frt_await K d = Done d'"
  then show "frt_usable K V limit d' \<and> frt_lane V r d' = frt_lane V r d
      \<and> frt_tally V d = Suc (frt_tally V d') \<and> frt_capacity V d' = frt_capacity V d"
    using sem(2) ok laws
    by (auto simp: frt_await_def frt_view_defs frt_usable_def d split: option.splits)
qed

lemma frt_pop_done:
  assumes "frt_usable K V limit d"
  shows "frt_pop K d \<noteq> Null_handle"
    and "frt_pop K d = Failed \<longleftrightarrow> frt_lane V HIGH d = [] \<and> frt_lane V NORMAL d = []"
    and "frt_pop K d = Done (m, d') \<Longrightarrow> frt_usable K V limit d' \<and> frt_tally V d' = frt_tally V d
      \<and> frt_capacity V d' = frt_capacity V d
      \<and> (case frt_lane V HIGH d of
           x # xs \<Rightarrow> m = x \<and> frt_lane V HIGH d' = xs \<and> frt_lane V NORMAL d' = frt_lane V NORMAL d
         | [] \<Rightarrow> frt_lane V HIGH d' = [] \<and> frt_lane V NORMAL d = m # frt_lane V NORMAL d')"
proof -
  obtain h n s where d: "d = \<lparr>frt_highQueue = Some h, frt_normalQueue = Some n, frt_countSem = Some s\<rparr>"
    and ok: "room V n = room V h" "2 * room V h \<le> limit s" "length (items V h) \<le> room V h"
      "length (items V n) \<le> room V h" and laws: "freertos_laws K V limit"
    using assms by (rule frt_usableE)
  note receive = queue_receive [OF freertos_queue [OF laws]]
  show "frt_pop K d \<noteq> Null_handle" by (auto simp: frt_pop_def d split: option.split)
  show "frt_pop K d = Failed \<longleftrightarrow> frt_lane V HIGH d = [] \<and> frt_lane V NORMAL d = []"
    using receive(1) [of h] receive(1) [of n]
    by (auto simp: frt_pop_def frt_view_defs d split: option.split)
  assume pop: "frt_pop K d = Done (m, d')"
  show "frt_usable K V limit d' \<and> frt_tally V d' = frt_tally V d
      \<and> frt_capacity V d' = frt_capacity V d
      \<and> (case frt_lane V HIGH d of
           x # xs \<Rightarrow> m = x \<and> frt_lane V HIGH d' = xs \<and> frt_lane V NORMAL d' = frt_lane V NORMAL d
         | [] \<Rightarrow> frt_lane V HIGH d' = [] \<and> frt_lane V NORMAL d = m # frt_lane V NORMAL d')"
  proof (cases "xQueueReceive K h")
    case None
    then obtain n' where "xQueueReceive K n = Some (m, n')" "d' = d\<lparr>frt_normalQueue := Some n'\<rparr>"
      using pop by (auto simp: frt_pop_def d split: option.splits)
    then show ?thesis using receive(1) [of h] receive(2) [of n m n'] None ok laws
      by (auto simp: frt_view_defs frt_usable_def d)
  next
    case (Some x)
    then obtain h' where "xQueueReceive K h = Some (m, h')" "d' = d\<lparr>frt_highQueue := Some h'\<rparr>"
      using pop by (cases x) (auto simp: frt_pop_def d)
    then show ?thesis using receive(2) [of h m h'] ok laws
      by (auto simp: frt_view_defs frt_usable_def d)
  qed
qed

lemma frt_bounded: "frt_usable K V limit d \<Longrightarrow> length (frt_lane V p d) \<le> frt_capacity V d"
  by (erule frt_usableE, cases p) (simp_all add: frt_view_defs)

interpretation frt: doorbell_lanes "frt_usable K V limit" "frt_lane V" "frt_capacity V" "frt_tally V"
    "frt_put K" "frt_ring K" "frt_await K" "frt_pop K"
  for K :: "('q, 's, 'm) freertos" and V limit
  by unfold_locales (fact frt_bounded frt_put_done frt_ring_done frt_await_done frt_pop_done)+


abbreviation frt_balanced ::
  "('q, 's, 'm) freertos \<Rightarrow> ('q, 's, 'm) kernel_view \<Rightarrow> ('s \<Rightarrow> nat) \<Rightarrow> nat \<Rightarrow> ('q, 's) FreeRTOSDelegateQueue \<Rightarrow> bool" where
  "frt_balanced K V limit \<equiv> doorbell_lanes.balanced (frt_usable K V limit) (frt_lane V) (frt_tally V)"

text \<open>A new queue is empty, of the capacity asked for, and usable; if an object of the kernel cannot be
  created nothing is left over.\<close>

lemma frt_IsCreated_Destroy [simp]: "\<not> frt_IsCreated (frt_Destroy d)"
  by (simp add: frt_IsCreated_def frt_Destroy_def)

lemma frt_usable_created: "frt_usable K V limit d \<Longrightarrow> frt_IsCreated d"
  by (auto simp: frt_usable_def frt_IsCreated_def)

lemma frt_Create_fails: "frt_Create K cap d = (False, d') \<Longrightarrow> d' = frt_Destroy d"
  by (auto simp: frt_Create_def frt_Destroy_def Let_def split: if_splits)

lemma frt_Create_empty:
  assumes "freertos_laws K V limit" and "frt_Create K cap (frt_Destroy d) = (True, d')"
  shows "frt_balanced K V limit 0 d'" and "frt.waiting V d' = []" and "frt_capacity V d' = cap"
proof -
  obtain h n s where new: "xQueueCreate K cap = Some h" "xQueueCreate K cap = Some n"
      "xSemaphoreCreateCounting K (cap * 2) 0 = Some s"
    and d': "d' = \<lparr>frt_highQueue = Some h, frt_normalQueue = Some n, frt_countSem = Some s\<rparr>"
    using assms(2)
    by (auto simp: frt_Create_def frt_Destroy_def frt_IsCreated_def or_create_def Let_def split: if_splits)
  have q: "items V h = []" "room V h = cap" "items V n = []" "room V n = cap"
    using queue_create [OF freertos_queue [OF assms(1)]] new by blast+
  have s: "bells V s = 0" "limit s = cap * 2"
    using freertos_semaphore(1) [OF assms(1) new(3)] by simp_all
  have u: "frt_usable K V limit d'" using q s assms(1) by (auto simp: frt_usable_def d')
  show "frt.waiting V d' = []" "frt_capacity V d' = cap"
    using q by (simp_all add: frt.waiting_def frt_view_defs d')
  then show "frt_balanced K V limit 0 d'" using u q s by (simp add: frt.balanced_def frt_tally_def d')
qed

lemma frt_DrainAndDelete_all:
  assumes "frt_usable K V limit d"
  shows "\<exists>d'. frt_DrainAndDelete K d = Some (frt.waiting V d, d') \<and> frt_usable K V limit d' \<and> frt.waiting V d' = []"
proof -
  obtain h n s where d: "d = \<lparr>frt_highQueue = Some h, frt_normalQueue = Some n, frt_countSem = Some s\<rparr>"
    and ok: "room V n = room V h" "2 * room V h \<le> limit s" "length (items V h) \<le> room V h"
      "length (items V n) \<le> room V h" and laws: "freertos_laws K V limit"
    using assms by (rule frt_usableE)
  obtain h' where h: "drain_lane (xQueueReceive K) h = Some (items V h, h')" "items V h' = []" "room V h' = room V h"
    using drain_lane_all [OF freertos_queue [OF laws], of h] by blast
  obtain n' where n: "drain_lane (xQueueReceive K) n = Some (items V n, n')" "items V n' = []" "room V n' = room V n"
    using drain_lane_all [OF freertos_queue [OF laws], of n] by blast
  show ?thesis using h n ok laws
    by (auto simp: frt_DrainAndDelete_def frt.waiting_def frt_view_defs frt_usable_def d)
qed

lemma frt_Size_waiting: "frt_usable K V limit d \<Longrightarrow> frt_Size K d = length (frt.waiting V d)"
  by (erule frt_usableE) (auto simp: frt_Size_def frt.waiting_def frt_view_defs freertos_laws_def queue_laws_def)

section \<open>A kernel\<close>

text \<open>Queues and semaphores as one would write them, to have a kernel the laws hold of.\<close>

type_synonym 'm list_queue = "'m list \<times> nat"

definition list_send :: "'m list_queue \<Rightarrow> 'm \<Rightarrow> 'm list_queue option" where
  "list_send q m = (if length (fst q) < snd q then Some (fst q @ [m], snd q) else None)"

definition list_receive :: "'m list_queue \<Rightarrow> ('m \<times> 'm list_queue) option" where
  "list_receive q = (case fst q of [] \<Rightarrow> None | m # ms \<Rightarrow> Some (m, (ms, snd q)))"

definition list_kernel :: "('m list_queue, nat \<times> nat, 'm) freertos" where
  "list_kernel =
     \<lparr>xQueueCreate = \<lambda>n. Some ([], n), xQueueSendToBack = list_send, xQueueReceive = list_receive,
      uxQueueMessagesWaiting = \<lambda>q. length (fst q),
      xSemaphoreCreateCounting = \<lambda>n i. Some (i, n),
      xSemaphoreGive = \<lambda>s. if fst s < snd s then Some (Suc (fst s), snd s) else None,
      xSemaphoreTake = \<lambda>s. case fst s of 0 \<Rightarrow> None | Suc k \<Rightarrow> Some (k, snd s)\<rparr>"

definition list_view :: "('m list_queue, nat \<times> nat, 'm) kernel_view" where
  "list_view = \<lparr>items = fst, room = snd, bells = fst\<rparr>"

lemma list_kernel_laws: "freertos_laws list_kernel list_view snd"
  unfolding freertos_laws_def queue_laws_def list_kernel_def list_view_def list_send_def list_receive_def
  by (auto split: list.split nat.split)

end
