(* ===== verification/ThreadXQueue.thy ===== *)
theory ThreadXQueue
  imports RtosQueue
begin

text \<open>
  \<^verbatim>\<open>port/os/threadx/ThreadXDelegateQueue.h\<close>: the same design on ThreadX, the second provider of the contract
  \<open>doorbell_lanes\<close>. ThreadX objects live in control blocks of the class, zero until they are created, on
  memory the class allocates; its semaphores have no maximum but that of their counter.
\<close>

section \<open>Kernel calls\<close>

text \<open>The calls that create take the control block as it is, \<open>None\<close> for one that is zero. Capacities count
  messages.\<close>

record ('q, 's, 'm) threadx =
  tx_queue_create :: "'q option \<Rightarrow> nat \<Rightarrow> 'q option"
  tx_queue_send :: "'q \<Rightarrow> 'm \<Rightarrow> 'q option"
  tx_queue_receive :: "'q \<Rightarrow> ('m \<times> 'q) option"
  tx_queue_enqueued :: "'q \<Rightarrow> nat"
  tx_semaphore_create :: "'s option \<Rightarrow> nat \<Rightarrow> 's option"
  tx_semaphore_put :: "'s \<Rightarrow> 's option"
  tx_semaphore_get :: "'s \<Rightarrow> 's option"

definition TX_COUNT_MAX :: nat where
  "TX_COUNT_MAX = 2 ^ 32 - 1"

definition threadx_laws :: "('q, 's, 'm) threadx \<Rightarrow> ('q, 's, 'm) kernel_view \<Rightarrow> bool" where
  "threadx_laws T V \<longleftrightarrow>
     queue_laws V (tx_queue_create T None) (tx_queue_send T) (tx_queue_receive T) (tx_queue_enqueued T)
     \<and> (\<forall>q n. tx_queue_create T (Some q) n = None)
     \<and> (\<forall>s n. tx_semaphore_create T (Some s) n = None)
     \<and> (\<forall>n s. tx_semaphore_create T None n = Some s \<longrightarrow> bells V s = n)
     \<and> (\<forall>s. bells V s < TX_COUNT_MAX \<longrightarrow>
          (\<exists>s'. tx_semaphore_put T s = Some s' \<and> bells V s' = Suc (bells V s)))
     \<and> (\<forall>s. TX_COUNT_MAX \<le> bells V s \<longrightarrow> tx_semaphore_put T s = None)
     \<and> (\<forall>s. bells V s = 0 \<longrightarrow> tx_semaphore_get T s = None)
     \<and> (\<forall>s. 0 < bells V s \<longrightarrow> (\<exists>s'. tx_semaphore_get T s = Some s' \<and> bells V s = Suc (bells V s')))"

section \<open>The class\<close>

text \<open>\<open>txd_dangling\<close>: the memory of a created queue has been freed.\<close>

record ('q, 's) ThreadXDelegateQueue =
  txd_highQueue :: "'q option"
  txd_normalQueue :: "'q option"
  txd_countSem :: "'s option"
  txd_dangling :: bool

definition txd_IsCreated :: "('q, 's) ThreadXDelegateQueue \<Rightarrow> bool" where
  "txd_IsCreated d \<longleftrightarrow> txd_highQueue d \<noteq> None \<and> txd_normalQueue d \<noteq> None \<and> txd_countSem d \<noteq> None"

text \<open>\<^verbatim>\<open>Create\<close>; \<open>alloc\<close> tells whether both buffers can be allocated. They replace the ones there are before
  anything is created on them.\<close>

definition txd_Create ::
  "('q, 's, 'm) threadx \<Rightarrow> bool \<Rightarrow> nat \<Rightarrow> ('q, 's) ThreadXDelegateQueue \<Rightarrow> bool \<times> ('q, 's) ThreadXDelegateQueue" where
  "txd_Create T alloc cap d =
     (if txd_IsCreated d then (True, d)
      else let d0 = d\<lparr>txd_dangling := (txd_dangling d \<or> txd_highQueue d \<noteq> None \<or> txd_normalQueue d \<noteq> None)\<rparr>
           in if \<not> alloc then (False, d0)
              else (case tx_queue_create T (txd_highQueue d0) cap of
                      None \<Rightarrow> (False, d0)
                    | Some h \<Rightarrow>
                        let d1 = d0\<lparr>txd_highQueue := Some h\<rparr> in
                        (case tx_queue_create T (txd_normalQueue d1) cap of
                           None \<Rightarrow> (False, d1)
                         | Some n \<Rightarrow>
                             let d2 = d1\<lparr>txd_normalQueue := Some n\<rparr> in
                             (case tx_semaphore_create T (txd_countSem d2) 0 of
                                None \<Rightarrow> (False, d2)
                              | Some s \<Rightarrow> (True, d2\<lparr>txd_countSem := Some s\<rparr>)))))"

definition txd_put ::
  "('q, 's, 'm) threadx \<Rightarrow> 'm \<Rightarrow> Priority \<Rightarrow> ('q, 's) ThreadXDelegateQueue \<Rightarrow> ('q, 's) ThreadXDelegateQueue kernel_result" where
  "txd_put T m p d =
     (if p = HIGH
      then map_done (\<lambda>q. d\<lparr>txd_highQueue := Some q\<rparr>) (on_handle (\<lambda>q. tx_queue_send T q m) (txd_highQueue d))
      else map_done (\<lambda>q. d\<lparr>txd_normalQueue := Some q\<rparr>) (on_handle (\<lambda>q. tx_queue_send T q m) (txd_normalQueue d)))"

definition txd_ring :: "('q, 's, 'm) threadx \<Rightarrow> ('q, 's) ThreadXDelegateQueue \<Rightarrow> ('q, 's) ThreadXDelegateQueue kernel_result" where
  "txd_ring T d = map_done (\<lambda>s. d\<lparr>txd_countSem := Some s\<rparr>) (on_handle (tx_semaphore_put T) (txd_countSem d))"

definition txd_await :: "('q, 's, 'm) threadx \<Rightarrow> ('q, 's) ThreadXDelegateQueue \<Rightarrow> ('q, 's) ThreadXDelegateQueue kernel_result" where
  "txd_await T d = map_done (\<lambda>s. d\<lparr>txd_countSem := Some s\<rparr>) (on_handle (tx_semaphore_get T) (txd_countSem d))"

definition txd_pop ::
  "('q, 's, 'm) threadx \<Rightarrow> ('q, 's) ThreadXDelegateQueue \<Rightarrow> ('m \<times> ('q, 's) ThreadXDelegateQueue) kernel_result" where
  "txd_pop T d =
     (case on_handle (tx_queue_receive T) (txd_highQueue d) of
        Failed \<Rightarrow> map_done (\<lambda>(m, q). (m, d\<lparr>txd_normalQueue := Some q\<rparr>))
                    (on_handle (tx_queue_receive T) (txd_normalQueue d))
      | r \<Rightarrow> map_done (\<lambda>(m, q). (m, d\<lparr>txd_highQueue := Some q\<rparr>)) r)"

definition txd_Size :: "('q, 's, 'm) threadx \<Rightarrow> ('q, 's) ThreadXDelegateQueue \<Rightarrow> nat" where
  "txd_Size T d =
     (case (txd_highQueue d, txd_normalQueue d) of
        (Some h, Some n) \<Rightarrow> tx_queue_enqueued T h + tx_queue_enqueued T n
      | _ \<Rightarrow> 0)"

definition txd_DrainAndDelete ::
  "('q, 's, 'm) threadx \<Rightarrow> ('q, 's) ThreadXDelegateQueue \<Rightarrow> ('m list \<times> ('q, 's) ThreadXDelegateQueue) option" where
  "txd_DrainAndDelete T d =
     (case (txd_highQueue d, txd_normalQueue d) of
        (Some h, Some n) \<Rightarrow>
          Option.bind (drain_lane (tx_queue_receive T) h) (\<lambda>(xs, h1).
          Option.bind (drain_lane (tx_queue_receive T) n) (\<lambda>(ys, n1).
            Some (xs @ ys, d\<lparr>txd_highQueue := Some h1, txd_normalQueue := Some n1\<rparr>)))
      | _ \<Rightarrow> None)"

definition txd_Destroy :: "('q, 's) ThreadXDelegateQueue \<Rightarrow> ('q, 's) ThreadXDelegateQueue" where
  "txd_Destroy d = \<lparr>txd_highQueue = None, txd_normalQueue = None, txd_countSem = None, txd_dangling = False\<rparr>"

section \<open>The contract holds\<close>

text \<open>Once they have been created, the objects of ThreadX are used as those of FreeRTOS are: the operations are
  those of \<open>RtosQueue\<close> on a kernel with ThreadX's calls, and their facts carry over.\<close>

definition as_freertos :: "('q, 's, 'm) threadx \<Rightarrow> ('q, 's, 'm) freertos" where
  "as_freertos T =
     \<lparr>xQueueCreate = tx_queue_create T None, xQueueSendToBack = tx_queue_send T,
      xQueueReceive = tx_queue_receive T, uxQueueMessagesWaiting = tx_queue_enqueued T,
      xSemaphoreCreateCounting = \<lambda>n i. None,
      xSemaphoreGive = tx_semaphore_put T, xSemaphoreTake = tx_semaphore_get T\<rparr>"

definition as_frt :: "('q, 's) ThreadXDelegateQueue \<Rightarrow> ('q, 's) FreeRTOSDelegateQueue" where
  "as_frt d = \<lparr>frt_highQueue = txd_highQueue d, frt_normalQueue = txd_normalQueue d, frt_countSem = txd_countSem d\<rparr>"

definition txd_lane :: "('q, 's, 'm) kernel_view \<Rightarrow> Priority \<Rightarrow> ('q, 's) ThreadXDelegateQueue \<Rightarrow> 'm list" where
  "txd_lane V p d = frt_lane V p (as_frt d)"

definition txd_capacity :: "('q, 's, 'm) kernel_view \<Rightarrow> ('q, 's) ThreadXDelegateQueue \<Rightarrow> nat" where
  "txd_capacity V d = frt_capacity V (as_frt d)"

definition txd_tally :: "('q, 's, 'm) kernel_view \<Rightarrow> ('q, 's) ThreadXDelegateQueue \<Rightarrow> nat" where
  "txd_tally V d = frt_tally V (as_frt d)"

definition txd_usable :: "('q, 's, 'm) threadx \<Rightarrow> ('q, 's, 'm) kernel_view \<Rightarrow> ('q, 's) ThreadXDelegateQueue \<Rightarrow> bool" where
  "txd_usable T V d \<longleftrightarrow> threadx_laws T V \<and> \<not> txd_dangling d
     \<and> frt_usable (as_freertos T) V (\<lambda>s. TX_COUNT_MAX) (as_frt d)"

lemmas txd_view_defs = txd_lane_def txd_capacity_def txd_tally_def txd_usable_def

lemma as_freertos_laws: "threadx_laws T V \<Longrightarrow> freertos_laws (as_freertos T) V (\<lambda>s. TX_COUNT_MAX)"
  by (simp add: threadx_laws_def freertos_laws_def as_freertos_def)

definition from_frt :: "('q, 's) ThreadXDelegateQueue \<Rightarrow> ('q, 's) FreeRTOSDelegateQueue \<Rightarrow> ('q, 's) ThreadXDelegateQueue" where
  "from_frt d f = \<lparr>txd_highQueue = frt_highQueue f, txd_normalQueue = frt_normalQueue f,
     txd_countSem = frt_countSem f, txd_dangling = txd_dangling d\<rparr>"

lemma as_frt_from [simp]: "as_frt (from_frt d f) = f" "txd_dangling (from_frt d f) = txd_dangling d"
  by (simp_all add: as_frt_def from_frt_def)

lemma txd_as_frt:
  "txd_put T m p d = map_done (from_frt d) (frt_put (as_freertos T) m p (as_frt d))"
  "txd_ring T d = map_done (from_frt d) (frt_ring (as_freertos T) (as_frt d))"
  "txd_await T d = map_done (from_frt d) (frt_await (as_freertos T) (as_frt d))"
  "txd_pop T d = map_done (\<lambda>(m, f). (m, from_frt d f)) (frt_pop (as_freertos T) (as_frt d))"
  by (simp_all add: txd_put_def frt_put_def txd_ring_def frt_ring_def txd_await_def frt_await_def txd_pop_def
      frt_pop_def as_frt_def as_freertos_def from_frt_def on_handle_def map_done_def
      split: option.split kernel_result.split prod.split)

lemma map_done_cases:
  "map_done f r = Failed \<longleftrightarrow> r = Failed" "map_done f r = Null_handle \<longleftrightarrow> r = Null_handle"
  "map_done f r = Done y \<longleftrightarrow> (\<exists>x. r = Done x \<and> y = f x)"
  by (cases r; auto)+

interpretation txd: doorbell_lanes "txd_usable T V" "txd_lane V" "txd_capacity V" "txd_tally V"
    "txd_put T" "txd_ring T" "txd_await T" "txd_pop T"
  for T :: "('q, 's, 'm) threadx" and V
proof
  fix d d' :: "('q, 's) ThreadXDelegateQueue" and p r m
  assume "txd_usable T V d"
  then have u: "frt_usable (as_freertos T) V (\<lambda>s. TX_COUNT_MAX) (as_frt d)" and rest: "threadx_laws T V" "\<not> txd_dangling d"
    by (simp_all add: txd_usable_def)
  note facts = txd_as_frt txd_view_defs map_done_cases rest
  show "length (txd_lane V p d) \<le> txd_capacity V d"
    using frt.bounded [OF u] by (simp add: facts)
  show "txd_put T m p d = Failed \<longleftrightarrow> length (txd_lane V p d) = txd_capacity V d"
    using frt.put_full [OF u] by (simp add: facts)
  show "txd_put T m p d \<noteq> Null_handle" using frt.put_usable [OF u] by (simp add: facts)
  show "txd_usable T V d' \<and> txd_lane V r d' = txd_lane V r d @ (if r = p then [m] else [])
      \<and> txd_tally V d' = txd_tally V d \<and> txd_capacity V d' = txd_capacity V d" if "txd_put T m p d = Done d'"
    using that frt.put_done [OF u] by (auto simp: facts)
  show "txd_ring T d \<noteq> Failed" if "txd_tally V d < 2 * txd_capacity V d"
    using that frt.ring_room [OF u] by (simp add: facts)
  show "txd_usable T V d' \<and> txd_lane V r d' = txd_lane V r d \<and> txd_tally V d' = Suc (txd_tally V d)
      \<and> txd_capacity V d' = txd_capacity V d" if "txd_ring T d = Done d'"
    using that frt.ring_done [OF u] by (auto simp: facts)
  show "txd_ring T d \<noteq> Null_handle" using frt.ring_usable [OF u] by (simp add: facts)
  show "txd_await T d = Failed \<longleftrightarrow> txd_tally V d = 0" using frt.await_fails [OF u] by (simp add: facts)
  show "txd_await T d \<noteq> Null_handle" using frt.await_usable [OF u] by (simp add: facts)
  show "txd_usable T V d' \<and> txd_lane V r d' = txd_lane V r d \<and> txd_tally V d = Suc (txd_tally V d')
      \<and> txd_capacity V d' = txd_capacity V d" if "txd_await T d = Done d'"
    using that frt.await_done [OF u] by (auto simp: facts)
  show "txd_pop T d \<noteq> Null_handle" using frt.pop_usable [OF u] by (simp add: facts)
  show "txd_pop T d = Failed \<longleftrightarrow> txd_lane V HIGH d = [] \<and> txd_lane V NORMAL d = []"
    using frt.pop_fails [OF u] by (simp add: facts)
  show "txd_usable T V d' \<and> txd_tally V d' = txd_tally V d \<and> txd_capacity V d' = txd_capacity V d
      \<and> (case txd_lane V HIGH d of
           x # xs \<Rightarrow> m = x \<and> txd_lane V HIGH d' = xs \<and> txd_lane V NORMAL d' = txd_lane V NORMAL d
         | [] \<Rightarrow> txd_lane V HIGH d' = [] \<and> txd_lane V NORMAL d = m # txd_lane V NORMAL d')"
    if "txd_pop T d = Done (m, d')"
    using that frt.pop_done [OF u]
    by (cases "frt_lane V HIGH (as_frt d)") (auto simp: facts)
qed

abbreviation txd_balanced ::
  "('q, 's, 'm) threadx \<Rightarrow> ('q, 's, 'm) kernel_view \<Rightarrow> nat \<Rightarrow> ('q, 's) ThreadXDelegateQueue \<Rightarrow> bool" where
  "txd_balanced T V \<equiv> doorbell_lanes.balanced (txd_usable T V) (txd_lane V) (txd_tally V)"

section \<open>Creation\<close>

lemma txd_Create_empty:
  assumes "threadx_laws T V" and "2 * cap \<le> TX_COUNT_MAX" and "txd_Create T alloc cap (txd_Destroy d) = (True, d')"
  shows "txd_balanced T V 0 d'" and "txd.waiting V d' = []" and "txd_capacity V d' = cap"
proof -
  obtain h n s where new: "tx_queue_create T None cap = Some h" "tx_queue_create T None cap = Some n"
      "tx_semaphore_create T None 0 = Some s"
    and d': "d' = \<lparr>txd_highQueue = Some h, txd_normalQueue = Some n, txd_countSem = Some s, txd_dangling = False\<rparr>"
    using assms(3)
    by (auto simp: txd_Create_def txd_Destroy_def txd_IsCreated_def Let_def split: if_splits option.splits)
  have "queue_laws V (tx_queue_create T None) (tx_queue_send T) (tx_queue_receive T) (tx_queue_enqueued T)"
    using assms(1) by (simp add: threadx_laws_def)
  from queue_create [OF this] have q: "items V h = []" "room V h = cap" "items V n = []" "room V n = cap"
    using new by blast+
  have s: "bells V s = 0" using assms(1) new(3) by (simp add: threadx_laws_def)
  have u: "txd_usable T V d'"
    using q s assms(1,2) as_freertos_laws [OF assms(1)] by (auto simp: txd_usable_def frt_usable_def as_frt_def d')
  show "txd.waiting V d' = []" "txd_capacity V d' = cap"
    using q by (simp_all add: txd.waiting_def txd_view_defs frt_view_defs as_frt_def d')
  then show "txd_balanced T V 0 d'"
    using u s by (simp add: txd.balanced_def txd_tally_def frt_tally_def as_frt_def d')
qed

text \<open>A \<^verbatim>\<open>Create\<close> that fails after the first queue leaves it behind. It can then not succeed any more, for the kernel
  refuses a control block that is in use, and each attempt frees the memory the queue in it works on.\<close>

theorem create_never_recovers:
  assumes "threadx_laws T V" and "txd_highQueue d = Some h" and "\<not> txd_IsCreated d"
  shows "fst (txd_Create T alloc cap d) = False" and "txd_dangling (snd (txd_Create T alloc cap d))"
  using assms by (simp_all add: txd_Create_def threadx_laws_def Let_def)

end
