(* ===== verification/RtosThread.thy ===== *)
theory RtosThread
  imports RtosQueue WorkerThread "HOL-Library.Word"
begin

text \<open>
  The worker thread of the FreeRTOS port, \<^verbatim>\<open>port/os/freertos/FreeRTOSThread.cpp\<close>. It promises what
  \<open>WorkerThread\<close> does, but has no lock: callers, the task and \<^verbatim>\<open>ExitThread\<close> meet only in the calls
  of the kernel, so each operation is cut at every such call. The kernel is the argument \<open>K\<close>; the queue
  is that of \<open>RtosQueue\<close>.

  The relation \<open>rtos_step\<close> covers any number of concurrent calls of \<^verbatim>\<open>DispatchDelegate\<close>. It keeps to the
  limits of use the class states or takes for granted: one call of \<^verbatim>\<open>ExitThread\<close> at a time, a self-exit
  from a message handler, and a thread that is created again only when its task has ended and no call
  is under way. What happens beyond them is shown at the end.
\<close>

section \<open>State\<close>

text \<open>Where the task stands in \<^verbatim>\<open>Run\<close>, and where a call of \<^verbatim>\<open>ExitThread\<close> stands.\<close>

datatype 'a task_pc =
    No_task | Starting | Awaiting | Awake | Timed_out | Idle_handler | Handling "'a DelegateMsg" | Leaving

datatype exit_pc = No_exit | Sending_exit | Ringing_exit | Joining | Draining | Destroying

record ('q, 's, 'a) rtos =
  rt_queue :: "('q, 's) FreeRTOSDelegateQueue"
  rt_queueSize :: nat
  rt_policy :: FullPolicy
  rt_finite_wait :: bool
  rt_exit :: bool
  rt_discard :: bool
  rt_selfExit :: bool
  rt_created :: bool
  rt_exitSem :: bool
  rt_task :: "'a task_pc"
  rt_exiter :: exit_pc
  rt_sending :: "'a DelegateMsg list"
  rt_ringing :: nat
  rt_crashed :: bool
  rt_faulted :: bool
  rt_accepted :: "'a DelegateMsg list"
  rt_invoked :: "'a DelegateMsg list"
  rt_cancelled :: "'a DelegateMsg list"
  rt_lost :: "'a DelegateMsg list"
  rt_dropped :: "nat list"

text \<open>
  \<open>rt_created\<close> tells whether \<^verbatim>\<open>m_thread\<close> is set, \<open>rt_finite_wait\<close> whether a watchdog or an idle handler
  bounds the wait for a message. \<open>rt_sending\<close> and \<open>rt_ringing\<close> are the calls of \<^verbatim>\<open>DispatchDelegate\<close> that are
  about to put their message and to give the doorbell. \<open>rt_crashed\<close>: a null handle has been handed to
  the kernel; \<open>rt_faulted\<close>: an assertion has failed. The last five fields record what became of the messages;
  \<open>rt_lost\<close> are those whose queue was deleted with them.
\<close>

definition FRT_DEFAULT_QUEUE_SIZE :: nat where
  "FRT_DEFAULT_QUEUE_SIZE = 20"

definition FreeRTOSThread :: "nat \<Rightarrow> FullPolicy \<Rightarrow> bool \<Rightarrow> ('q, 's, 'a) rtos" where
  "FreeRTOSThread maxQueueSize policy finite_wait =
     \<lparr>rt_queue = \<lparr>frt_highQueue = None, frt_normalQueue = None, frt_countSem = None\<rparr>,
      rt_queueSize = (if maxQueueSize = 0 then FRT_DEFAULT_QUEUE_SIZE else maxQueueSize),
      rt_policy = policy, rt_finite_wait = finite_wait, rt_exit = False, rt_discard = False,
      rt_selfExit = False, rt_created = False, rt_exitSem = False, rt_task = No_task, rt_exiter = No_exit,
      rt_sending = [], rt_ringing = 0, rt_crashed = False, rt_faulted = False, rt_accepted = [],
      rt_invoked = [], rt_cancelled = [], rt_lost = [], rt_dropped = []\<rparr>"

text \<open>\<^verbatim>\<open>CreateThread\<close>; \<open>task_ok\<close> tells whether the kernel can create the task. The task runs the start
  handler first.\<close>

definition rt_CreateThread ::
  "('q, 's, 'a ThreadMsg) freertos \<Rightarrow> bool \<Rightarrow> ('q, 's, 'a) rtos \<Rightarrow> bool \<times> ('q, 's, 'a) rtos" where
  "rt_CreateThread K task_ok s =
     (if rt_created s then (True, s)
      else let s1 = s\<lparr>rt_exit := False, rt_discard := False\<rparr>;
               (ok, q) = (if frt_IsCreated (rt_queue s) then (True, rt_queue s)
                          else frt_Create K (rt_queueSize s) (rt_queue s));
               s2 = s1\<lparr>rt_queue := q\<rparr>
           in if \<not> ok \<or> \<not> task_ok then (False, s2)
              else (True, s2\<lparr>rt_created := True, rt_selfExit := False, rt_task := Starting\<rparr>))"

section \<open>DispatchDelegate\<close>

text \<open>The check of the queue and the allocation of the thread message.\<close>

definition rt_dispatch_enter :: "bool \<Rightarrow> 'a DelegateMsg \<Rightarrow> ('q, 's, 'a) rtos \<Rightarrow> dispatch_result \<times> ('q, 's, 'a) rtos" where
  "rt_dispatch_enter alloc m s =
     (if \<not> frt_IsCreated (rt_queue s) then (Refused, s)
      else if \<not> alloc then (Refused, s)
      else (Pending, s\<lparr>rt_sending := m # rt_sending s\<rparr>))"

text \<open>\<^verbatim>\<open>Send\<close> puts the message into its lane; with a full lane it fails, at once or when the time is
  up.\<close>

definition rt_dispatch_failed :: "('q, 's, 'a ThreadMsg) freertos \<Rightarrow> ('q, 's, 'a) rtos \<Rightarrow> dispatch_result \<times> ('q, 's, 'a) rtos" where
  "rt_dispatch_failed K s =
     (case rt_policy s of
        FAULT \<Rightarrow> (Refused, s\<lparr>rt_faulted := True\<rparr>)
      | _ \<Rightarrow> (Refused, s\<lparr>rt_dropped := rt_dropped s @ [frt_Size K (rt_queue s)]\<rparr>))"

definition rt_dispatch_put ::
  "('q, 's, 'a ThreadMsg) freertos \<Rightarrow> 'a DelegateMsg \<Rightarrow> ('q, 's, 'a) rtos \<Rightarrow> dispatch_result \<times> ('q, 's, 'a) rtos" where
  "rt_dispatch_put K m s =
     (let s1 = s\<lparr>rt_sending := remove1 m (rt_sending s)\<rparr> in
      case frt_put K (MSG_DISPATCH_DELEGATE m) (msg_priority m) (rt_queue s) of
        Null_handle \<Rightarrow> (Pending, s1\<lparr>rt_crashed := True\<rparr>)
      | Failed \<Rightarrow> rt_dispatch_failed K s1
      | Done q \<Rightarrow> (Pending, s1\<lparr>rt_queue := q, rt_ringing := Suc (rt_ringing s),
                              rt_accepted := rt_accepted s @ [m]\<rparr>))"

definition rt_give_doorbell :: "('q, 's, 'a ThreadMsg) freertos \<Rightarrow> ('q, 's, 'a) rtos \<Rightarrow> ('q, 's, 'a) rtos" where
  "rt_give_doorbell K s =
     (case frt_ring K (rt_queue s) of
        Null_handle \<Rightarrow> s\<lparr>rt_crashed := True\<rparr>
      | Failed \<Rightarrow> s
      | Done q \<Rightarrow> s\<lparr>rt_queue := q\<rparr>)"

definition rt_dispatch_ring :: "('q, 's, 'a ThreadMsg) freertos \<Rightarrow> ('q, 's, 'a) rtos \<Rightarrow> dispatch_result \<times> ('q, 's, 'a) rtos" where
  "rt_dispatch_ring K s = (Accepted, (rt_give_doorbell K s)\<lparr>rt_ringing := rt_ringing s - 1\<rparr>)"

section \<open>ExitThread\<close>

definition rt_ExitThread :: "ExitPolicy \<Rightarrow> bool \<Rightarrow> ('q, 's, 'a) rtos \<Rightarrow> ('q, 's, 'a) rtos" where
  "rt_ExitThread policy on_task s =
     (if \<not> frt_IsCreated (rt_queue s) then s
      else let s1 = s\<lparr>rt_discard := (policy = DISCARD), rt_exit := True\<rparr>
           in if on_task then s1\<lparr>rt_selfExit := True, rt_exiter := Draining\<rparr>
              else s1\<lparr>rt_exiter := Sending_exit\<rparr>)"

text \<open>The exit message goes into the NORMAL lane, waiting for room as long as it takes: while the lane
  is full there is no step. If it cannot be allocated the function goes on to wait for the task.\<close>

definition rt_exit_send ::
  "('q, 's, 'a ThreadMsg) freertos \<Rightarrow> bool \<Rightarrow> ('q, 's, 'a) rtos \<Rightarrow> ('q, 's, 'a) rtos option" where
  "rt_exit_send K alloc s =
     (if \<not> alloc then Some (s\<lparr>rt_exiter := Joining\<rparr>)
      else case frt_put K MSG_EXIT_THREAD NORMAL (rt_queue s) of
             Null_handle \<Rightarrow> Some (s\<lparr>rt_crashed := True\<rparr>)
           | Failed \<Rightarrow> None
           | Done q \<Rightarrow> Some (s\<lparr>rt_queue := q, rt_exiter := Ringing_exit\<rparr>))"

definition rt_exit_ring :: "('q, 's, 'a ThreadMsg) freertos \<Rightarrow> ('q, 's, 'a) rtos \<Rightarrow> ('q, 's, 'a) rtos" where
  "rt_exit_ring K s = (rt_give_doorbell K s)\<lparr>rt_exiter := Joining\<rparr>"

definition rt_exit_join :: "('q, 's, 'a) rtos \<Rightarrow> ('q, 's, 'a) rtos" where
  "rt_exit_join s = s\<lparr>rt_exitSem := False, rt_exiter := Draining\<rparr>"

definition rt_exit_drain :: "('q, 's, 'a ThreadMsg) freertos \<Rightarrow> ('q, 's, 'a) rtos \<Rightarrow> ('q, 's, 'a) rtos option" where
  "rt_exit_drain K s =
     (case frt_DrainAndDelete K (rt_queue s) of
        None \<Rightarrow> None
      | Some (ms, q) \<Rightarrow>
          Some (s\<lparr>rt_queue := q, rt_cancelled := rt_cancelled s @ CancelAll ms, rt_exiter := Destroying\<rparr>))"

text \<open>\<^verbatim>\<open>Destroy\<close> deletes the kernel objects with whatever has been put since into the lanes.\<close>

definition rt_leftover :: "('q, 's, 'a ThreadMsg) freertos \<Rightarrow> ('q, 's, 'a) rtos \<Rightarrow> 'a DelegateMsg list" where
  "rt_leftover K s = (case frt_DrainAndDelete K (rt_queue s) of None \<Rightarrow> [] | Some (ms, q) \<Rightarrow> delegates ms)"

definition rt_exit_destroy :: "('q, 's, 'a ThreadMsg) freertos \<Rightarrow> ('q, 's, 'a) rtos \<Rightarrow> ('q, 's, 'a) rtos" where
  "rt_exit_destroy K s =
     s\<lparr>rt_lost := rt_lost s @ rt_leftover K s, rt_queue := frt_Destroy (rt_queue s),
       rt_created := False, rt_exiter := No_exit\<rparr>"

section \<open>Run\<close>

definition rt_run_start :: "('q, 's, 'a) rtos \<Rightarrow> ('q, 's, 'a) rtos" where
  "rt_run_start s = s\<lparr>rt_task := (if rt_selfExit s then Leaving else Awaiting)\<rparr>"

text \<open>\<^verbatim>\<open>Receive\<close>, in its two parts. A wait that is not bounded has no step while the doorbell has not
  been given.\<close>

definition rt_run_await :: "('q, 's, 'a ThreadMsg) freertos \<Rightarrow> ('q, 's, 'a) rtos \<Rightarrow> ('q, 's, 'a) rtos option" where
  "rt_run_await K s =
     (case frt_await K (rt_queue s) of
        Null_handle \<Rightarrow> Some (s\<lparr>rt_crashed := True\<rparr>)
      | Failed \<Rightarrow> if rt_finite_wait s then Some (s\<lparr>rt_task := Timed_out\<rparr>) else None
      | Done q \<Rightarrow> Some (s\<lparr>rt_queue := q, rt_task := Awake\<rparr>))"

definition rt_handle :: "'a ThreadMsg \<Rightarrow> ('q, 's, 'a) rtos \<Rightarrow> ('q, 's, 'a) rtos" where
  "rt_handle x s =
     (case x of
        MSG_DISPATCH_DELEGATE m \<Rightarrow>
          if rt_discard s then s\<lparr>rt_cancelled := rt_cancelled s @ [m], rt_task := Awaiting\<rparr>
          else s\<lparr>rt_invoked := rt_invoked s @ [m], rt_task := Handling m\<rparr>
      | MSG_EXIT_THREAD \<Rightarrow> s\<lparr>rt_task := Leaving\<rparr>)"

definition rt_run_pop :: "('q, 's, 'a ThreadMsg) freertos \<Rightarrow> ('q, 's, 'a) rtos \<Rightarrow> ('q, 's, 'a) rtos" where
  "rt_run_pop K s =
     (case frt_pop K (rt_queue s) of
        Null_handle \<Rightarrow> s\<lparr>rt_crashed := True\<rparr>
      | Failed \<Rightarrow> s\<lparr>rt_task := Timed_out\<rparr>
      | Done (x, q) \<Rightarrow> rt_handle x (s\<lparr>rt_queue := q\<rparr>))"

text \<open>No message: the loop is left if the exit is requested, or the idle handler may be due.\<close>

definition rt_run_no_message :: "bool \<Rightarrow> ('q, 's, 'a) rtos \<Rightarrow> ('q, 's, 'a) rtos" where
  "rt_run_no_message due s =
     s\<lparr>rt_task := (if rt_exit s then Leaving else if due then Idle_handler else Awaiting)\<rparr>"

definition rt_run_idle_done :: "('q, 's, 'a) rtos \<Rightarrow> ('q, 's, 'a) rtos" where
  "rt_run_idle_done s = s\<lparr>rt_task := (if rt_selfExit s then Leaving else Awaiting)\<rparr>"

text \<open>The target function has returned; after a self-exit the task ends without a signal. Otherwise a failure,
  such as an exception that reaches the loop, is an assertion that fails.\<close>

definition rt_run_handled :: "bool \<Rightarrow> ('q, 's, 'a) rtos \<Rightarrow> ('q, 's, 'a) rtos" where
  "rt_run_handled success s =
     (if rt_selfExit s then s\<lparr>rt_task := No_task\<rparr>
      else if \<not> success then s\<lparr>rt_faulted := True\<rparr>
      else s\<lparr>rt_task := Awaiting\<rparr>)"

text \<open>The end of \<^verbatim>\<open>Run\<close>: the exit handler, and the signal for \<^verbatim>\<open>ExitThread\<close>.\<close>

definition rt_run_leave :: "('q, 's, 'a) rtos \<Rightarrow> ('q, 's, 'a) rtos" where
  "rt_run_leave s = s\<lparr>rt_exitSem := True, rt_task := No_task\<rparr>"

section \<open>Interleaving\<close>

definition rt_alive :: "('q, 's, 'a) rtos \<Rightarrow> bool" where
  "rt_alive s \<longleftrightarrow> \<not> rt_crashed s \<and> \<not> rt_faulted s"

inductive rtos_step :: "('q, 's, 'a ThreadMsg) freertos \<Rightarrow> ('q, 's, 'a) rtos \<Rightarrow> ('q, 's, 'a) rtos \<Rightarrow> bool"
  for K where
  create: "rt_alive s \<Longrightarrow> rt_task s = No_task \<Longrightarrow> rt_exiter s = No_exit \<Longrightarrow> rt_sending s = [] \<Longrightarrow>
    rt_ringing s = 0 \<Longrightarrow> rtos_step K s (snd (rt_CreateThread K task_ok s))"
| enter: "rt_alive s \<Longrightarrow> rtos_step K s (snd (rt_dispatch_enter alloc m s))"
| put: "rt_alive s \<Longrightarrow> m \<in> set (rt_sending s) \<Longrightarrow> rtos_step K s (snd (rt_dispatch_put K m s))"
| ring: "rt_alive s \<Longrightarrow> 0 < rt_ringing s \<Longrightarrow> rtos_step K s (snd (rt_dispatch_ring K s))"
| exit: "rt_alive s \<Longrightarrow> rt_exiter s = No_exit \<Longrightarrow> rtos_step K s (rt_ExitThread policy False s)"
| exit_self: "rt_alive s \<Longrightarrow> rt_exiter s = No_exit \<Longrightarrow> rt_task s = Handling m \<Longrightarrow>
    rtos_step K s (rt_ExitThread policy True s)"
| exit_send: "rt_alive s \<Longrightarrow> rt_exiter s = Sending_exit \<Longrightarrow> rt_exit_send K alloc s = Some s' \<Longrightarrow> rtos_step K s s'"
| exit_ring: "rt_alive s \<Longrightarrow> rt_exiter s = Ringing_exit \<Longrightarrow> rtos_step K s (rt_exit_ring K s)"
| exit_join: "rt_alive s \<Longrightarrow> rt_exiter s = Joining \<Longrightarrow> rt_exitSem s \<Longrightarrow> rtos_step K s (rt_exit_join s)"
| exit_drain: "rt_alive s \<Longrightarrow> rt_exiter s = Draining \<Longrightarrow> rt_exit_drain K s = Some s' \<Longrightarrow> rtos_step K s s'"
| exit_destroy: "rt_alive s \<Longrightarrow> rt_exiter s = Destroying \<Longrightarrow> rtos_step K s (rt_exit_destroy K s)"
| start: "rt_alive s \<Longrightarrow> rt_task s = Starting \<Longrightarrow> rtos_step K s (rt_run_start s)"
| await: "rt_alive s \<Longrightarrow> rt_task s = Awaiting \<Longrightarrow> rt_run_await K s = Some s' \<Longrightarrow> rtos_step K s s'"
| pop: "rt_alive s \<Longrightarrow> rt_task s = Awake \<Longrightarrow> rtos_step K s (rt_run_pop K s)"
| no_message: "rt_alive s \<Longrightarrow> rt_task s = Timed_out \<Longrightarrow> rtos_step K s (rt_run_no_message due s)"
| idle_done: "rt_alive s \<Longrightarrow> rt_task s = Idle_handler \<Longrightarrow> rtos_step K s (rt_run_idle_done s)"
| handled: "rt_alive s \<Longrightarrow> rt_task s = Handling m \<Longrightarrow> rt_selfExit s \<longrightarrow> rt_exiter s = No_exit \<Longrightarrow>
    rtos_step K s (rt_run_handled success s)"
| leave: "rt_alive s \<Longrightarrow> rt_task s = Leaving \<Longrightarrow> rtos_step K s (rt_run_leave s)"

inductive rtos_reachable :: "('q, 's, 'a ThreadMsg) freertos \<Rightarrow> ('q, 's, 'a) rtos \<Rightarrow> bool" for K where
  fresh: "rtos_reachable K (FreeRTOSThread maxQueueSize policy finite_wait)"
| step: "rtos_reachable K s \<Longrightarrow> rtos_step K s s' \<Longrightarrow> rtos_reachable K s'"

section \<open>Invariant\<close>

text \<open>The messages that wait, and the doorbells due for them: a caller or \<^verbatim>\<open>ExitThread\<close> has yet to give
  one, the task has taken one and not yet the message.\<close>

definition rt_waiting :: "('q, 's, 'a ThreadMsg) kernel_view \<Rightarrow> ('q, 's, 'a) rtos \<Rightarrow> 'a ThreadMsg list" where
  "rt_waiting V s = frt.waiting V (rt_queue s)"

definition lane_messages :: "('q, 's, 'a ThreadMsg) kernel_view \<Rightarrow> Priority \<Rightarrow> ('q, 's) FreeRTOSDelegateQueue \<Rightarrow> 'a DelegateMsg list" where
  "lane_messages V p d = delegates (frt_lane V p d)"

definition rt_due :: "('q, 's, 'a) rtos \<Rightarrow> nat" where
  "rt_due s = rt_ringing s + (if rt_exiter s = Ringing_exit then 1 else 0) + (if rt_task s = Awake then 1 else 0)"

definition sorted_lanes :: "('q, 's, 'a ThreadMsg) kernel_view \<Rightarrow> ('q, 's) FreeRTOSDelegateQueue \<Rightarrow> bool" where
  "sorted_lanes V d \<longleftrightarrow> (\<forall>p. \<forall>x \<in> set (frt_lane V p d). GetPriority x = p)"

definition history_ok ::
  "('q, 's, 'a ThreadMsg) kernel_view \<Rightarrow> ('q, 's) FreeRTOSDelegateQueue \<Rightarrow> 'a DelegateMsg list \<Rightarrow> 'a DelegateMsg list
   \<Rightarrow> 'a DelegateMsg list \<Rightarrow> 'a DelegateMsg list \<Rightarrow> bool" where
  "history_ok V d acc ivk canc lst \<longleftrightarrow> sorted_lanes V d
     \<and> (\<forall>p. subseq (of_priority p ivk @ lane_messages V p d) (of_priority p acc))
     \<and> mset acc = mset ivk + mset canc + mset lst
         + mset (lane_messages V HIGH d) + mset (lane_messages V NORMAL d)"

abbreviation rt_history :: "('q, 's, 'a ThreadMsg) kernel_view \<Rightarrow> ('q, 's, 'a) rtos \<Rightarrow> bool" where
  "rt_history V s \<equiv> history_ok V (rt_queue s) (rt_accepted s) (rt_invoked s) (rt_cancelled s) (rt_lost s)"

definition doorbell_ok ::
  "('q, 's, 'a ThreadMsg) freertos \<Rightarrow> ('q, 's, 'a ThreadMsg) kernel_view \<Rightarrow> ('s \<Rightarrow> nat)
   \<Rightarrow> ('q, 's) FreeRTOSDelegateQueue \<Rightarrow> exit_pc \<Rightarrow> nat \<Rightarrow> bool" where
  "doorbell_ok K V limit d e due \<longleftrightarrow>
     (if e = Destroying then frt_usable K V limit d
      else d = frt_Destroy d \<or> frt_balanced K V limit due d)"

abbreviation rt_doorbell ::
  "('q, 's, 'a ThreadMsg) freertos \<Rightarrow> ('q, 's, 'a ThreadMsg) kernel_view \<Rightarrow> ('s \<Rightarrow> nat) \<Rightarrow> ('q, 's, 'a) rtos \<Rightarrow> bool" where
  "rt_doorbell K V limit s \<equiv> doorbell_ok K V limit (rt_queue s) (rt_exiter s) (rt_due s)"

text \<open>The phases of the object: \<^verbatim>\<open>ExitThread\<close> is not running, it waits for the task, or it takes the queue
  apart.\<close>

definition control_ok ::
  "('q, 's, 'a ThreadMsg) kernel_view \<Rightarrow> ('q, 's) FreeRTOSDelegateQueue \<Rightarrow> exit_pc \<Rightarrow> 'a task_pc
   \<Rightarrow> bool \<Rightarrow> bool \<Rightarrow> bool \<Rightarrow> bool" where
  "control_ok V d e task signalled self exit_set \<longleftrightarrow> (case e of
       No_exit \<Rightarrow> \<not> signalled \<and> MSG_EXIT_THREAD \<notin> set (frt.waiting V d)
         \<and> (task = No_task
            \<or> self \<and> (\<exists>m. task = Handling m) \<and> \<not> frt_IsCreated d
            \<or> \<not> self \<and> \<not> exit_set \<and> task \<noteq> Leaving \<and> frt_IsCreated d)
     | Draining \<Rightarrow> \<not> signalled \<and> frt_IsCreated d \<and> (task = No_task \<or> self \<and> (\<exists>m. task = Handling m))
     | Destroying \<Rightarrow> \<not> signalled \<and> frt_IsCreated d \<and> (task = No_task \<or> self \<and> (\<exists>m. task = Handling m))
     | _ \<Rightarrow> frt_IsCreated d \<and> (signalled \<longrightarrow> task = No_task) \<and> (self \<longrightarrow> task = No_task))"

abbreviation rt_control :: "('q, 's, 'a ThreadMsg) kernel_view \<Rightarrow> ('q, 's, 'a) rtos \<Rightarrow> bool" where
  "rt_control V s \<equiv>
     control_ok V (rt_queue s) (rt_exiter s) (rt_task s) (rt_exitSem s) (rt_selfExit s) (rt_exit s)"

definition rt_inv ::
  "('q, 's, 'a ThreadMsg) freertos \<Rightarrow> ('q, 's, 'a ThreadMsg) kernel_view \<Rightarrow> ('s \<Rightarrow> nat) \<Rightarrow> ('q, 's, 'a) rtos \<Rightarrow> bool" where
  "rt_inv K V limit s \<longleftrightarrow> rt_history V s \<and> (\<not> rt_crashed s \<longrightarrow> rt_doorbell K V limit s \<and> rt_control V s)"

lemmas rt_parts = rt_inv_def rt_due_def doorbell_ok_def control_ok_def

subsection \<open>What the calls of the queue do to the history\<close>

lemma destroyed_lane [simp]: "frt_lane V p (frt_Destroy d) = []"
  by (simp add: frt_Destroy_def frt_lane_def handle_items_def)

lemma destroyed_waiting [simp]: "frt.waiting V (frt_Destroy d) = []"
  by (simp add: frt.waiting_def)

lemma destroyed_sorted [simp]: "sorted_lanes V (frt_Destroy d)"
  by (simp add: sorted_lanes_def)

lemma destroyed_put [simp]: "frt_put K x p (frt_Destroy d) = Null_handle"
  by (simp add: frt_Destroy_def frt_put_def)

lemma destroyed_ring [simp]: "frt_ring K (frt_Destroy d) = Null_handle"
  by (simp add: frt_Destroy_def frt_ring_def)

lemma destroyed_await [simp]: "frt_await K (frt_Destroy d) = Null_handle"
  by (simp add: frt_Destroy_def frt_await_def)

lemma destroyed_pop [simp]: "frt_pop K (frt_Destroy d) = Null_handle"
  by (simp add: frt_Destroy_def frt_pop_def)

lemma destroyed_twice [simp]: "frt_Destroy (frt_Destroy d) = frt_Destroy d"
  by (simp add: frt_Destroy_def)

lemma not_created_usable: "frt_usable K V limit d \<Longrightarrow> d \<noteq> frt_Destroy d"
  using frt_usable_created frt_IsCreated_Destroy by metis

lemma lane_put:
  assumes "frt_usable K V limit d" and "frt_put K x (GetPriority x) d = Done d'"
  shows "frt_lane V p d' = frt_lane V p d @ (if p = GetPriority x then [x] else [])"
    and "sorted_lanes V d \<Longrightarrow> sorted_lanes V d'"
proof -
  have lanes: "frt_lane V r d' = frt_lane V r d @ (if r = GetPriority x then [x] else [])" for r
    using frt.put_done [OF assms] by blast
  then show "frt_lane V p d' = frt_lane V p d @ (if p = GetPriority x then [x] else [])" .
  assume old: "sorted_lanes V d"
  have "GetPriority y = r" if "y \<in> set (frt_lane V r d')" for r y
    using that old by (cases "r = GetPriority x") (auto simp: lanes sorted_lanes_def)
  then show "sorted_lanes V d'" by (simp add: sorted_lanes_def)
qed

lemma lane_pop:
  assumes "frt_usable K V limit d" and "frt_pop K d = Done (x, d')" and "sorted_lanes V d"
  shows "frt_lane V p d = (if p = GetPriority x then [x] else []) @ frt_lane V p d'"
    and "sorted_lanes V d'"
proof -
  note pop = frt.pop_done [OF assms(1,2)]
  have prio: "y \<in> set (frt_lane V r d) \<Longrightarrow> GetPriority y = r" for r y
    using assms(3) by (simp add: sorted_lanes_def)
  have lanes: "frt_lane V r d = (if r = GetPriority x then [x] else []) @ frt_lane V r d'" for r
  proof (cases "frt_lane V HIGH d")
    case Nil
    with pop prio [of x NORMAL] show ?thesis by (cases r) simp_all
  next
    case (Cons y ys)
    with pop prio [of x HIGH] show ?thesis by (cases r) simp_all
  qed
  then show "frt_lane V p d = (if p = GetPriority x then [x] else []) @ frt_lane V p d'" .
  show "sorted_lanes V d'"
    unfolding sorted_lanes_def using prio lanes by (metis Un_iff set_append)
qed

lemma history_put:
  assumes "history_ok V d acc ivk canc lst" and "frt_usable K V limit d"
    and "frt_put K x (GetPriority x) d = Done d'"
  shows "history_ok V d' (acc @ delegates [x]) ivk canc lst"
proof -
  note lane = lane_put [OF assms(2,3)]
  have new: "lane_messages V p d' = lane_messages V p d @ of_priority p (delegates [x])" for p
    by (cases x) (auto simp: lane lane_messages_def of_priority_def)
  have "mset (lane_messages V HIGH d') + mset (lane_messages V NORMAL d')
      = mset (lane_messages V HIGH d) + mset (lane_messages V NORMAL d) + mset (delegates [x])"
    by (cases "GetPriority x") (simp_all add: lane lane_messages_def)
  then show ?thesis
    using assms(1) lane(2) new by (auto simp: history_ok_def simp flip: append_assoc)
qed

lemma history_pop:
  assumes "history_ok V d acc ivk canc lst" and "frt_usable K V limit d"
    and "frt_pop K d = Done (x, d')"
  shows "history_ok V d' acc (ivk @ delegates [x]) canc lst"
    and "history_ok V d' acc ivk (canc @ delegates [x]) lst"
proof -
  have "sorted_lanes V d" using assms(1) by (simp add: history_ok_def)
  note lane = lane_pop [OF assms(2,3) this]
  have old: "lane_messages V p d = of_priority p (delegates [x]) @ lane_messages V p d'" for p
    by (cases x) (auto simp: lane(1) lane_messages_def of_priority_def)
  have all: "mset (lane_messages V HIGH d) + mset (lane_messages V NORMAL d)
      = mset (delegates [x]) + (mset (lane_messages V HIGH d') + mset (lane_messages V NORMAL d'))"
    by (cases "GetPriority x"; cases x) (simp_all add: lane(1) lane_messages_def)
  have less: "subseq (of_priority p ivk @ lane_messages V p d') (of_priority p acc)" for p
  proof -
    have "subseq (of_priority p ivk @ lane_messages V p d') (of_priority p ivk @ lane_messages V p d)"
      unfolding old by (simp add: subseq_append' list_emb_append2)
    then show ?thesis using assms(1) subseq_order.trans unfolding history_ok_def by blast
  qed
  show "history_ok V d' acc (ivk @ delegates [x]) canc lst"
    using assms(1) lane(2) old all by (simp add: history_ok_def)
  show "history_ok V d' acc ivk (canc @ delegates [x]) lst"
    using assms(1) lane(2) all less by (simp add: history_ok_def)
qed

lemma history_same_lanes:
  "(\<And>r. frt_lane V r d' = frt_lane V r d) \<Longrightarrow>
   history_ok V d' acc ivk canc lst = history_ok V d acc ivk canc lst"
  by (simp add: history_ok_def lane_messages_def sorted_lanes_def)

lemma waiting_nil: "frt.waiting V d = [] \<longleftrightarrow> (\<forall>p. frt_lane V p d = [])"
proof
  show "frt.waiting V d = [] \<Longrightarrow> \<forall>p. frt_lane V p d = []"
    by (intro allI, rename_tac p, case_tac p) (simp_all add: frt.waiting_def)
qed (simp add: frt.waiting_def)

lemma history_empty:
  assumes "history_ok V d acc ivk canc lst" and "frt.waiting V d' = []"
  shows "history_ok V d' acc ivk (canc @ delegates (frt.waiting V d)) lst"
    and "history_ok V d' acc ivk canc (lst @ delegates (frt.waiting V d))"
proof -
  have d': "frt_lane V p d' = []" for p using assms(2) by (simp add: waiting_nil)
  have w: "mset (delegates (frt.waiting V d)) = mset (lane_messages V HIGH d) + mset (lane_messages V NORMAL d)"
    by (simp add: frt.waiting_def lane_messages_def)
  have "subseq (of_priority p ivk) (of_priority p acc)" for p
    using assms(1) subseq_left subseq_order.trans unfolding history_ok_def by blast
  then show "history_ok V d' acc ivk (canc @ delegates (frt.waiting V d)) lst"
    and "history_ok V d' acc ivk canc (lst @ delegates (frt.waiting V d))"
    using assms(1) w by (auto simp: history_ok_def lane_messages_def sorted_lanes_def d')
qed

subsection \<open>Every step keeps it\<close>

lemma usable_cases:
  assumes "rt_inv K V limit s" and "rt_alive s"
  obtains "rt_queue s = frt_Destroy (rt_queue s)" and "rt_exiter s \<noteq> Destroying" and "\<not> frt_IsCreated (rt_queue s)"
  | "frt_usable K V limit (rt_queue s)" and "frt_IsCreated (rt_queue s)"
    and "rt_exiter s \<noteq> Destroying \<Longrightarrow> frt_balanced K V limit (rt_due s) (rt_queue s)"
proof -
  have d: "rt_doorbell K V limit s" using assms by (simp add: rt_inv_def rt_alive_def)
  show thesis
  proof (cases "rt_exiter s \<noteq> Destroying \<and> rt_queue s = frt_Destroy (rt_queue s)")
    case True
    then show thesis using that(1) frt_IsCreated_Destroy [of "rt_queue s"] by simp
  next
    case False
    then have "frt_usable K V limit (rt_queue s)"
      and "rt_exiter s \<noteq> Destroying \<Longrightarrow> frt_balanced K V limit (rt_due s) (rt_queue s)"
      using d frt.balanced_usable unfolding doorbell_ok_def by (auto split: if_splits)
    then show thesis using that(2) frt_usable_created by blast
  qed
qed

lemma created_usable:
  assumes "rt_inv K V limit s" and "rt_alive s" and "frt_IsCreated (rt_queue s)"
  shows "frt_usable K V limit (rt_queue s)"
    and "rt_exiter s \<noteq> Destroying \<Longrightarrow> frt_balanced K V limit (rt_due s) (rt_queue s)"
  by (rule usable_cases [OF assms(1,2)]; simp add: assms(3))+

lemma inv_create:
  assumes "rt_inv K V limit s" and "rt_alive s" and "freertos_laws K V limit"
    and "rt_task s = No_task" "rt_exiter s = No_exit" "rt_ringing s = 0"
  shows "rt_inv K V limit (snd (rt_CreateThread K task_ok s))"
proof (cases "rt_created s")
  case True
  then show ?thesis using assms(1) by (simp add: rt_CreateThread_def)
next
  case False
  obtain ok q where q: "(if frt_IsCreated (rt_queue s) then (True, rt_queue s)
      else frt_Create K (rt_queueSize s) (rt_queue s)) = (ok, q)" by (metis surj_pair)
  have due: "rt_due s = 0" using assms(4-6) by (simp add: rt_due_def)
  have s: "rt_history V s" "rt_control V s" using assms(1,2) by (simp_all add: rt_inv_def rt_alive_def)
  have "frt_lane V r q = frt_lane V r (rt_queue s) \<and> (if ok then frt_balanced K V limit 0 q else q = frt_Destroy q)" for r
    using assms(1,2)
  proof (cases rule: usable_cases)
    case 1
    show ?thesis
    proof (cases ok)
      case True
      then have "frt_Create K (rt_queueSize s) (frt_Destroy (rt_queue s)) = (True, q)" using q 1 by simp
      from frt_Create_empty [OF assms(3) this] show ?thesis using True 1(1) destroyed_lane waiting_nil by metis
    next
      case False
      then have "frt_Create K (rt_queueSize s) (rt_queue s) = (False, q)" using q 1 by simp
      then have "q = rt_queue s" using frt_Create_fails 1(1) by metis
      then show ?thesis using False 1(1) by simp
    qed
  next
    case 2
    then show ?thesis using q assms(5) due by auto
  qed
  then have lanes: "\<And>r. frt_lane V r q = frt_lane V r (rt_queue s)"
    and bell: "if ok then frt_balanced K V limit 0 q else q = frt_Destroy q" by blast+
  have created: "ok \<Longrightarrow> frt_IsCreated q" using bell frt.balanced_usable frt_usable_created by metis
  have no_exit_msg: "MSG_EXIT_THREAD \<notin> set (frt.waiting V q)"
    using s(2) assms(5) lanes by (simp add: control_ok_def frt.waiting_def)
  have "snd (rt_CreateThread K task_ok s) =
      (let s2 = s\<lparr>rt_exit := False, rt_discard := False, rt_queue := q\<rparr> in
       if \<not> ok \<or> \<not> task_ok then s2 else s2\<lparr>rt_created := True, rt_selfExit := False, rt_task := Starting\<rparr>)"
    using False q by (simp add: rt_CreateThread_def Let_def split: prod.split)
  moreover have "rt_history V (s\<lparr>rt_queue := q\<rparr>)"
    using s(1) history_same_lanes [OF lanes] by simp
  ultimately show ?thesis
    using s(2) assms(4-6) bell created no_exit_msg
    by (cases ok) (auto simp: rt_parts Let_def)
qed

lemma control_queue:
  assumes "control_ok V d e task sg self ex" and "frt_IsCreated d' = frt_IsCreated d"
    and "e = No_exit \<Longrightarrow> MSG_EXIT_THREAD \<in> set (frt.waiting V d') \<Longrightarrow> MSG_EXIT_THREAD \<in> set (frt.waiting V d)"
  shows "control_ok V d' e task sg self ex"
  using assms by (cases e) (auto simp: control_ok_def)

lemma put_set:
  assumes "frt_usable K V limit d" and "frt_put K x p d = Done d'"
  shows "set (frt.waiting V d') = insert x (set (frt.waiting V d))"
proof -
  have "set_mset (mset (frt.waiting V d')) = insert x (set_mset (mset (frt.waiting V d)))"
    by (simp only: frt.put_waiting(1) [OF assms] set_mset_add_mset_insert)
  then show ?thesis by simp
qed

lemma inv_enter: "rt_inv K V limit s \<Longrightarrow> rt_inv K V limit (snd (rt_dispatch_enter alloc m s))"
  by (simp add: rt_dispatch_enter_def rt_inv_def rt_due_def)

lemma inv_put:
  assumes "rt_inv K V limit s" and "rt_alive s"
  shows "rt_inv K V limit (snd (rt_dispatch_put K m s))"
  using assms
proof (cases rule: usable_cases)
  case 1
  then have "frt_put K (MSG_DISPATCH_DELEGATE m) (msg_priority m) (rt_queue s) = Null_handle"
    by (metis destroyed_put)
  then show ?thesis using assms(1) by (simp add: rt_dispatch_put_def rt_inv_def)
next
  case 2
  have s: "rt_history V s" "rt_control V s" using assms by (simp_all add: rt_inv_def rt_alive_def)
  show ?thesis
  proof (cases "frt_put K (MSG_DISPATCH_DELEGATE m) (msg_priority m) (rt_queue s)")
    case Null_handle
    then show ?thesis using frt.put_usable [OF 2(1)] by blast
  next
    case Failed
    then show ?thesis using assms(1)
      by (cases "rt_policy s") (simp_all add: rt_dispatch_put_def rt_dispatch_failed_def rt_inv_def rt_due_def)
  next
    case (Done q)
    then have put: "frt_put K (MSG_DISPATCH_DELEGATE m) (GetPriority (MSG_DISPATCH_DELEGATE m)) (rt_queue s) = Done q"
      by simp
    have usable: "frt_usable K V limit q" using frt.put_done [OF 2(1) Done] by blast
    have "rt_control V (s\<lparr>rt_queue := q\<rparr>)"
      using control_queue [OF s(2), of q] put_set [OF 2(1) Done] frt_usable_created [OF usable] 2(2) by simp
    moreover have "rt_exiter s \<noteq> Destroying \<Longrightarrow> frt_balanced K V limit (Suc (rt_due s)) q"
      using frt.put_balanced [OF 2(3) Done] .
    ultimately show ?thesis
      using history_put [OF s(1) 2(1) put] usable
      by (simp add: rt_dispatch_put_def Done rt_inv_def doorbell_ok_def rt_due_def)
  qed
qed

text \<open>Giving the doorbell, by a caller or by \<^verbatim>\<open>ExitThread\<close>.\<close>

lemma give_doorbell:
  assumes "rt_inv K V limit s" and "rt_alive s" and "rt_due s = Suc k"
  obtains (crash) "rt_give_doorbell K s = s\<lparr>rt_crashed := True\<rparr>" and "\<not> frt_IsCreated (rt_queue s)"
  | (rung) q where "rt_give_doorbell K s = s\<lparr>rt_queue := q\<rparr>" and "\<And>r. frt_lane V r q = frt_lane V r (rt_queue s)"
    and "frt_usable K V limit q" and "frt_IsCreated (rt_queue s)"
    and "rt_exiter s \<noteq> Destroying \<Longrightarrow> frt_balanced K V limit k q"
  | (full) "rt_give_doorbell K s = s" and "rt_exiter s = Destroying" and "frt_IsCreated (rt_queue s)"
  using assms(1,2)
proof (cases rule: usable_cases)
  case 1
  then have "frt_ring K (rt_queue s) = Null_handle" by (metis destroyed_ring)
  then show thesis using crash 1(3) by (simp add: rt_give_doorbell_def)
next
  case 2
  show thesis
  proof (cases "rt_exiter s = Destroying")
    case False
    then have "frt_balanced K V limit (Suc k) (rt_queue s)" using 2(3) assms(3) by simp
    from frt.ring_balanced [OF this] show thesis
      using rung 2(2) frt.balanced_usable by (force simp: rt_give_doorbell_def)
  next
    case True
    show thesis
    proof (cases "frt_ring K (rt_queue s)")
      case Null_handle
      then show thesis using frt.ring_usable [OF 2(1)] by blast
    next
      case Failed
      then show thesis using full True 2(2) by (simp add: rt_give_doorbell_def)
    next
      case (Done q)
      show thesis
      proof (rule rung)
        show "rt_give_doorbell K s = s\<lparr>rt_queue := q\<rparr>" by (simp add: rt_give_doorbell_def Done)
        show "frt_lane V r q = frt_lane V r (rt_queue s)" for r
          using frt.ring_done [OF 2(1) Done] by blast
        show "frt_usable K V limit q" using frt.ring_done [OF 2(1) Done] by blast
      qed (simp_all add: 2(2) True)
    qed
  qed
qed

lemma same_lanes_waiting: "(\<And>r. frt_lane V r d' = frt_lane V r d) \<Longrightarrow> frt.waiting V d' = frt.waiting V d"
  by (simp add: frt.waiting_def)

lemma inv_ring:
  assumes "rt_inv K V limit s" and "rt_alive s" and "0 < rt_ringing s"
  shows "rt_inv K V limit (snd (rt_dispatch_ring K s))"
proof -
  have s: "rt_history V s" "rt_control V s" "rt_doorbell K V limit s"
    using assms by (simp_all add: rt_inv_def rt_alive_def)
  obtain k where k: "rt_due s = Suc k" using assms(3) by (cases "rt_due s") (auto simp: rt_due_def)
  have due: "rt_due (s\<lparr>rt_queue := q, rt_ringing := rt_ringing s - 1\<rparr>) = k" for q
    using k assms(3) by (auto simp: rt_due_def)
  show ?thesis
    using assms(1,2) k
  proof (cases rule: give_doorbell)
    case crash
    then show ?thesis using s(1) by (simp add: rt_dispatch_ring_def rt_inv_def)
  next
    case (rung q)
    have "rt_control V (s\<lparr>rt_queue := q\<rparr>)"
      using control_queue [OF s(2), of q] same_lanes_waiting [OF rung(2)] rung(4) frt_usable_created [OF rung(3)]
      by simp
    then show ?thesis
      using s(1) rung due history_same_lanes [OF rung(2)]
      by (simp add: rt_dispatch_ring_def rt_inv_def doorbell_ok_def)
  next
    case full
    then show ?thesis using s by (simp add: rt_dispatch_ring_def rt_inv_def doorbell_ok_def)
  qed
qed

subsubsection \<open>ExitThread\<close>

lemma doorbell_exiter:
  "doorbell_ok K V limit d e n \<Longrightarrow> e \<noteq> Destroying \<Longrightarrow> e' \<noteq> Destroying \<Longrightarrow> doorbell_ok K V limit d e' n"
  by (simp add: doorbell_ok_def)

lemma inv_exit:
  assumes "rt_inv K V limit s" and "rt_alive s" and "rt_exiter s = No_exit"
    and "on_task \<Longrightarrow> \<exists>m. rt_task s = Handling m"
  shows "rt_inv K V limit (rt_ExitThread policy on_task s)"
proof (cases "frt_IsCreated (rt_queue s)")
  case False
  then show ?thesis using assms(1) by (simp add: rt_ExitThread_def)
next
  case True
  have s: "rt_history V s" "rt_control V s" "rt_doorbell K V limit s"
    using assms by (simp_all add: rt_inv_def rt_alive_def)
  have bell: "e \<noteq> Destroying \<Longrightarrow> doorbell_ok K V limit (rt_queue s) e (rt_due s)" for e
    using doorbell_exiter [OF s(3)] assms(3) by simp
  have due: "rt_due (s\<lparr>rt_discard := x, rt_exit := True, rt_exiter := Sending_exit\<rparr>) = rt_due s"
    "rt_due (s\<lparr>rt_discard := x, rt_exit := True, rt_selfExit := True, rt_exiter := Draining\<rparr>) = rt_due s" for x
    using assms(3) by (simp_all add: rt_due_def)
  show ?thesis
  proof (cases on_task)
    case on: True
    then obtain m where "rt_task s = Handling m" using assms(4) by blast
    then show ?thesis using s(1,2) True assms(3) on
      by (simp add: rt_ExitThread_def rt_inv_def control_ok_def Let_def due bell)
  next
    case False
    then show ?thesis using s(1,2) True assms(3)
      by (auto simp: rt_ExitThread_def rt_inv_def control_ok_def Let_def due bell)
  qed
qed

lemma inv_exit_send:
  fixes s :: "('q, 's, 'a) rtos"
  assumes "rt_inv K V limit s" and "rt_alive s" and "rt_exiter s = Sending_exit"
    and "rt_exit_send K alloc s = Some s'"
  shows "rt_inv K V limit s'"
proof (cases alloc)
  case False
  then show ?thesis using assms by (auto simp: rt_exit_send_def rt_parts rt_alive_def)
next
  case True
  have s: "rt_history V s" "rt_control V s" using assms by (simp_all add: rt_inv_def rt_alive_def)
  then have created: "frt_IsCreated (rt_queue s)" using assms(3) by (simp add: control_ok_def)
  have usable: "frt_usable K V limit (rt_queue s)"
    and bell: "frt_balanced K V limit (rt_due s) (rt_queue s)"
    using created_usable [OF assms(1,2) created] assms(3) by simp_all
  obtain q where put: "frt_put K MSG_EXIT_THREAD (GetPriority (MSG_EXIT_THREAD :: 'a ThreadMsg)) (rt_queue s) = Done q"
    and s': "s' = s\<lparr>rt_queue := q, rt_exiter := Ringing_exit\<rparr>"
    using assms(4) True frt.put_usable [OF usable] by (auto simp: rt_exit_send_def split: kernel_result.splits)
  have "frt_IsCreated q" using frt.put_done [OF usable put] frt_usable_created by blast
  then have "rt_control V s'" using s(2) assms(3) created by (simp add: s' control_ok_def)
  moreover have "rt_due s' = Suc (rt_due s)" using assms(3) by (simp add: s' rt_due_def)
  ultimately show ?thesis
    using history_put [OF s(1) usable put] frt.put_balanced [OF bell put]
    by (simp add: s' rt_inv_def doorbell_ok_def)
qed

lemma inv_exit_ring:
  assumes "rt_inv K V limit s" and "rt_alive s" and "rt_exiter s = Ringing_exit"
  shows "rt_inv K V limit (rt_exit_ring K s)"
proof -
  have s: "rt_history V s" "rt_control V s" using assms by (simp_all add: rt_inv_def rt_alive_def)
  then have created: "frt_IsCreated (rt_queue s)" using assms(3) by (simp add: control_ok_def)
  obtain k where k: "rt_due s = Suc k" using assms(3) by (simp add: rt_due_def)
  have due: "rt_due (s\<lparr>rt_queue := q, rt_exiter := Joining\<rparr>) = k" for q
    using k assms(3) by (auto simp: rt_due_def)
  show ?thesis
    using assms(1,2) k
  proof (cases rule: give_doorbell)
    case crash
    then show ?thesis using created by blast
  next
    case (rung q)
    have "frt_IsCreated q" by (rule frt_usable_created [OF rung(3)])
    then have "rt_control V (s\<lparr>rt_queue := q, rt_exiter := Joining\<rparr>)"
      using s(2) assms(3) by (simp add: control_ok_def)
    then show ?thesis
      using s(1) rung due history_same_lanes [OF rung(2)] assms(3)
      by (simp add: rt_exit_ring_def rt_inv_def doorbell_ok_def)
  next
    case full
    then show ?thesis using assms(3) by simp
  qed
qed

lemma inv_exit_join:
  assumes "rt_inv K V limit s" and "rt_alive s" and "rt_exiter s = Joining" and "rt_exitSem s"
  shows "rt_inv K V limit (rt_exit_join s)"
  using assms by (auto simp: rt_exit_join_def rt_parts rt_alive_def)

lemma inv_exit_drain:
  assumes "rt_inv K V limit s" and "rt_alive s" and "rt_exiter s = Draining"
    and "rt_exit_drain K s = Some s'"
  shows "rt_inv K V limit s'"
proof -
  have s: "rt_history V s" "rt_control V s" using assms by (simp_all add: rt_inv_def rt_alive_def)
  then have "frt_IsCreated (rt_queue s)" using assms(3) by (simp add: control_ok_def)
  then have usable: "frt_usable K V limit (rt_queue s)" by (rule created_usable(1) [OF assms(1,2)])
  obtain q where q: "frt_DrainAndDelete K (rt_queue s) = Some (frt.waiting V (rt_queue s), q)"
    "frt_usable K V limit q" "frt.waiting V q = []"
    using frt_DrainAndDelete_all [OF usable] by blast
  then have s': "s' = s\<lparr>rt_queue := q, rt_cancelled := rt_cancelled s @ delegates (frt.waiting V (rt_queue s)),
      rt_exiter := Destroying\<rparr>"
    using assms(4) by (simp add: rt_exit_drain_def CancelAll_def)
  have "rt_control V s'" using s(2) assms(3) frt_usable_created [OF q(2)] by (simp add: s' control_ok_def)
  then show ?thesis using history_empty(1) [OF s(1) q(3)] q(2) by (simp add: s' rt_inv_def doorbell_ok_def)
qed

lemma inv_exit_destroy:
  assumes "rt_inv K V limit s" and "rt_alive s" and "rt_exiter s = Destroying"
  shows "rt_inv K V limit (rt_exit_destroy K s)"
proof -
  have s: "rt_history V s" "rt_control V s" "frt_usable K V limit (rt_queue s)"
    using assms by (simp_all add: rt_inv_def rt_alive_def doorbell_ok_def)
  obtain q where "frt_DrainAndDelete K (rt_queue s) = Some (frt.waiting V (rt_queue s), q)"
    using frt_DrainAndDelete_all [OF s(3)] by blast
  then have "rt_leftover K s = delegates (frt.waiting V (rt_queue s))" by (simp add: rt_leftover_def)
  then show ?thesis
    using history_empty(2) [OF s(1) destroyed_waiting, of "rt_queue s"] s(2) assms(3)
    by (auto simp: rt_exit_destroy_def rt_inv_def doorbell_ok_def control_ok_def)
qed

subsubsection \<open>The task\<close>

text \<open>While the task runs and has not exited itself the queue is there, unless a call of \<^verbatim>\<open>ExitThread\<close> has
  seen it end.\<close>

lemma running_created:
  assumes "rt_inv K V limit s" and "rt_alive s" and "rt_task s \<noteq> No_task" and "\<not> (\<exists>m. rt_task s = Handling m)"
  shows "frt_IsCreated (rt_queue s)" and "\<not> rt_selfExit s" and "\<not> rt_exitSem s"
    and "rt_exiter s \<noteq> Draining" and "rt_exiter s \<noteq> Destroying"
  using assms by (cases "rt_exiter s"; auto simp: rt_inv_def rt_alive_def control_ok_def)+

text \<open>Steps between two waits of the task that touch nothing else.\<close>

lemma inv_task:
  assumes "rt_inv K V limit s" and "rt_alive s" and "rt_task s \<noteq> No_task" and "rt_task s \<noteq> Awake"
    and "\<not> (\<exists>m. rt_task s = Handling m) \<or> \<not> rt_selfExit s"
    and "t = Leaving \<Longrightarrow> rt_exit s" and "t \<noteq> No_task" and "t \<noteq> Awake"
  shows "rt_inv K V limit (s\<lparr>rt_task := t\<rparr>)"
proof -
  have s: "rt_history V s" "rt_control V s" "rt_doorbell K V limit s"
    using assms by (simp_all add: rt_inv_def rt_alive_def)
  have "rt_due (s\<lparr>rt_task := t\<rparr>) = rt_due s" using assms(4,8) by (simp add: rt_due_def)
  moreover have "control_ok V (rt_queue s) (rt_exiter s) t (rt_exitSem s) (rt_selfExit s) (rt_exit s)"
    using s(2) assms(3,5,6,7) by (cases "rt_exiter s") (auto simp: control_ok_def)
  ultimately show ?thesis using s(1,3) by (simp add: rt_inv_def)
qed

lemma inv_await:
  assumes "rt_inv K V limit s" and "rt_alive s" and "rt_task s = Awaiting" and "rt_run_await K s = Some s'"
  shows "rt_inv K V limit s'"
proof -
  have s: "rt_history V s" "rt_control V s" using assms by (simp_all add: rt_inv_def rt_alive_def)
  have run: "frt_IsCreated (rt_queue s)" "rt_exiter s \<noteq> Destroying"
    using running_created [OF assms(1,2)] assms(3) by simp_all
  note q = created_usable(1) [OF assms(1,2) run(1)] created_usable(2) [OF assms(1,2) run]
  show ?thesis
  proof (cases "frt_await K (rt_queue s)")
    case Null_handle
    then show ?thesis using frt.await_usable [OF q(1)] by blast
  next
    case Failed
    then have "s' = s\<lparr>rt_task := Timed_out\<rparr>" using assms(4) by (simp add: rt_run_await_def split: if_splits)
    then show ?thesis using inv_task [OF assms(1,2), of Timed_out] assms(3) by simp
  next
    case (Done d)
    then have s': "s' = s\<lparr>rt_queue := d, rt_task := Awake\<rparr>" using assms(4) by (simp add: rt_run_await_def)
    have bell: "frt_balanced K V limit (Suc (rt_due s)) d" and lanes: "\<And>r. frt_lane V r d = frt_lane V r (rt_queue s)"
      using frt.await_balanced [OF q(2) Done] by simp_all
    have "frt_IsCreated d" using frt_usable_created [OF frt.balanced_usable [OF bell]] .
    then have "control_ok V d (rt_exiter s) Awake (rt_exitSem s) (rt_selfExit s) (rt_exit s)"
      using s(2) assms(3) same_lanes_waiting [OF lanes] run(1)
      by (cases "rt_exiter s") (simp_all add: control_ok_def)
    moreover have "rt_due s' = Suc (rt_due s)" using assms(3) by (simp add: s' rt_due_def)
    ultimately show ?thesis
      using bell s(1) history_same_lanes [OF lanes] run(2) by (simp add: s' rt_inv_def doorbell_ok_def)
  qed
qed

text \<open>The heart of the queue: a task that has taken the doorbell finds a message.\<close>

lemma pop_finds:
  assumes "rt_inv K V limit s" and "rt_alive s" and "rt_task s = Awake"
  obtains x d where "frt_pop K (rt_queue s) = Done (x, d)" and "frt.waiting V (rt_queue s) = x # frt.waiting V d"
    and "frt_balanced K V limit (rt_due s - 1) d" and "frt_usable K V limit (rt_queue s)"
proof -
  have run: "frt_IsCreated (rt_queue s)" "rt_exiter s \<noteq> Destroying"
    using running_created [OF assms(1,2)] assms(3) by simp_all
  have "rt_due s = Suc (rt_due s - 1)" using assms(3) by (simp add: rt_due_def)
  then have "frt_balanced K V limit (Suc (rt_due s - 1)) (rt_queue s)"
    using created_usable(2) [OF assms(1,2) run] by simp
  from frt.pop_balanced [OF this] show thesis
    using that created_usable(1) [OF assms(1,2) run(1)] by blast
qed

lemma inv_pop:
  assumes "rt_inv K V limit s" and "rt_alive s" and "rt_task s = Awake"
  shows "rt_inv K V limit (rt_run_pop K s)"
proof -
  have s: "rt_history V s" "rt_control V s" using assms by (simp_all add: rt_inv_def rt_alive_def)
  have run: "frt_IsCreated (rt_queue s)" "rt_exiter s \<noteq> Destroying" "rt_exiter s \<noteq> Draining"
    "\<not> rt_selfExit s" "\<not> rt_exitSem s"
    using running_created [OF assms(1,2)] assms(3) by simp_all
  obtain x d where pop: "frt_pop K (rt_queue s) = Done (x, d)" "frt.waiting V (rt_queue s) = x # frt.waiting V d"
    "frt_balanced K V limit (rt_due s - 1) d" "frt_usable K V limit (rt_queue s)"
    using pop_finds [OF assms] by blast
  have created: "frt_IsCreated d" using frt_usable_created [OF frt.balanced_usable [OF pop(3)]] .
  have hist: "history_ok V d (rt_accepted s) (rt_invoked s @ delegates [x]) (rt_cancelled s) (rt_lost s)"
    "history_ok V d (rt_accepted s) (rt_invoked s) (rt_cancelled s @ delegates [x]) (rt_lost s)"
    by (rule history_pop [OF s(1) pop(4,1)])+
  have control: "control_ok V d (rt_exiter s) Awaiting False False (rt_exit s)"
    "control_ok V d (rt_exiter s) (Handling m) False False (rt_exit s)"
    "x = MSG_EXIT_THREAD \<Longrightarrow> control_ok V d (rt_exiter s) Leaving False False (rt_exit s)" for m
    using s(2) run created pop(2) assms(3) by (cases "rt_exiter s"; auto simp: control_ok_def)+
  have due: "rt_due (rt_run_pop K s) = rt_due s - 1"
    using assms(3) by (cases x) (simp_all add: rt_run_pop_def pop(1) rt_handle_def rt_due_def)
  show ?thesis
    using hist control due run(2,4,5) pop(3)
    by (cases x) (simp_all add: rt_run_pop_def pop(1) rt_handle_def rt_inv_def doorbell_ok_def)
qed

lemma inv_handled:
  assumes "rt_inv K V limit s" and "rt_alive s" and "rt_task s = Handling m"
    and "rt_selfExit s \<Longrightarrow> rt_exiter s = No_exit"
  shows "rt_inv K V limit (rt_run_handled success s)"
proof (cases "rt_selfExit s")
  case False
  then show ?thesis
    using assms inv_task [OF assms(1,2), of Awaiting]
    by (simp add: rt_run_handled_def rt_inv_def rt_due_def)
next
  case True
  then show ?thesis
    using assms by (simp add: rt_run_handled_def rt_inv_def rt_due_def rt_alive_def control_ok_def)
qed

lemma inv_leave:
  assumes "rt_inv K V limit s" and "rt_alive s" and "rt_task s = Leaving"
  shows "rt_inv K V limit (rt_run_leave s)"
proof -
  have "rt_due (rt_run_leave s) = rt_due s" using assms(3) by (simp add: rt_run_leave_def rt_due_def)
  moreover have "rt_control V (rt_run_leave s)"
    using assms by (cases "rt_exiter s") (auto simp: rt_run_leave_def rt_inv_def rt_alive_def control_ok_def)
  ultimately show ?thesis
    using assms(1,2) by (simp add: rt_run_leave_def rt_inv_def rt_alive_def)
qed

subsection \<open>The invariant\<close>

lemma inv_fresh: "rt_inv K V limit (FreeRTOSThread n policy finite_wait)"
proof -
  have none: "\<lparr>frt_highQueue = None, frt_normalQueue = None, frt_countSem = None\<rparr> = frt_Destroy d" for d
    by (simp add: frt_Destroy_def)
  show ?thesis
    by (simp add: FreeRTOSThread_def none [of undefined] rt_inv_def history_ok_def lane_messages_def of_priority_def
        doorbell_ok_def control_ok_def)
qed

lemma inv_rtos_step:
  assumes "rtos_step K s s'" and "freertos_laws K V limit" and "rt_inv K V limit s"
  shows "rt_inv K V limit s'"
  using assms
proof (induction rule: rtos_step.induct)
  case (start s)
  then have "\<not> rt_selfExit s" using running_created [of K V limit s] by simp
  with start show ?case using inv_task [of K V limit s Awaiting] by (simp add: rt_run_start_def)
next
  case (no_message s due)
  show ?case unfolding rt_run_no_message_def
    by (rule inv_task) (use no_message in \<open>auto split: if_splits\<close>)
next
  case (idle_done s)
  then have "\<not> rt_selfExit s" using running_created [of K V limit s] by simp
  with idle_done show ?case using inv_task [of K V limit s Awaiting] by (simp add: rt_run_idle_done_def)
qed (auto intro: inv_create inv_enter inv_put inv_ring inv_exit inv_exit_send inv_exit_ring inv_exit_join
    inv_exit_drain inv_exit_destroy inv_await inv_pop inv_handled inv_leave)

lemma rtos_inv: "rtos_reachable K s \<Longrightarrow> freertos_laws K V limit \<Longrightarrow> rt_inv K V limit s"
  by (induction rule: rtos_reachable.induct) (auto intro: inv_fresh inv_rtos_step)

section \<open>Exit\<close>

text \<open>The task by itself, with target functions that succeed, and the rest of \<^verbatim>\<open>ExitThread\<close> once the task
  has signalled its end.\<close>

definition rt_task_step :: "('q, 's, 'a ThreadMsg) freertos \<Rightarrow> ('q, 's, 'a) rtos \<Rightarrow> ('q, 's, 'a) rtos" where
  "rt_task_step K s = (case rt_task s of
       No_task \<Rightarrow> s
     | Starting \<Rightarrow> rt_run_start s
     | Awaiting \<Rightarrow> (case rt_run_await K s of None \<Rightarrow> s | Some s' \<Rightarrow> s')
     | Awake \<Rightarrow> rt_run_pop K s
     | Timed_out \<Rightarrow> rt_run_no_message False s
     | Idle_handler \<Rightarrow> rt_run_idle_done s
     | Handling m \<Rightarrow> rt_run_handled True s
     | Leaving \<Rightarrow> rt_run_leave s)"

fun rt_run :: "('q, 's, 'a ThreadMsg) freertos \<Rightarrow> nat \<Rightarrow> ('q, 's, 'a) rtos \<Rightarrow> ('q, 's, 'a) rtos" where
  "rt_run K 0 s = s"
| "rt_run K (Suc n) s = rt_run K n (rt_task_step K s)"

definition rt_exit_rest :: "('q, 's, 'a ThreadMsg) freertos \<Rightarrow> ('q, 's, 'a) rtos \<Rightarrow> ('q, 's, 'a) rtos" where
  "rt_exit_rest K s =
     (case rt_exit_drain K (rt_exit_join s) of None \<Rightarrow> s | Some s' \<Rightarrow> rt_exit_destroy K s')"

lemma rt_run_add: "rt_run K (m + n) s = rt_run K n (rt_run K m s)"
  by (induction m arbitrary: s) simp_all

text \<open>\<^verbatim>\<open>ExitThread\<close> waits for the task, which is about to take the next message: the messages \<open>xs\<close> come before
  the exit message and \<open>ys\<close> after it.\<close>

definition joining ::
  "('q, 's, 'a ThreadMsg) freertos \<Rightarrow> ('q, 's, 'a ThreadMsg) kernel_view \<Rightarrow> ('s \<Rightarrow> nat)
   \<Rightarrow> 'a DelegateMsg list \<Rightarrow> 'a ThreadMsg list \<Rightarrow> ('q, 's, 'a) rtos \<Rightarrow> bool" where
  "joining K V limit xs ys s \<longleftrightarrow> rt_inv K V limit s \<and> rt_alive s \<and> rt_exiter s = Joining \<and> rt_ringing s = 0
     \<and> rt_task s = Awaiting
     \<and> rt_waiting V s = map MSG_DISPATCH_DELEGATE xs @ MSG_EXIT_THREAD # ys"

lemma joining_pop:
  assumes "joining K V limit xs ys s" and "freertos_laws K V limit"
    and "rt_waiting V s = x # rest"
  shows "\<exists>d. rt_run K 2 s = rt_handle x (s\<lparr>rt_task := Awake, rt_queue := d\<rparr>) \<and> frt.waiting V d = rest
    \<and> rt_inv K V limit (rt_run K 2 s)"
proof -
  have s: "rt_inv K V limit s" "rt_alive s" "rt_exiter s = Joining" "rt_ringing s = 0" "rt_task s = Awaiting"
    using assms(1) by (simp_all add: joining_def)
  have q: "frt_IsCreated (rt_queue s)" using running_created(1) [OF s(1,2)] s(5) by simp
  have bell: "frt_balanced K V limit 0 (rt_queue s)"
    using created_usable(2) [OF s(1,2) q] s(3-5) by (simp add: rt_due_def)
  have usable: "frt_usable K V limit (rt_queue s)" by (rule frt.balanced_usable [OF bell])
  have "frt_tally V (rt_queue s) \<noteq> 0"
    using bell assms(3) by (auto simp: frt.balanced_def rt_waiting_def)
  then have "frt_await K (rt_queue s) \<noteq> Failed" using frt.await_fails [OF usable] by simp
  then obtain d where d: "frt_await K (rt_queue s) = Done d"
    using frt.await_usable [OF usable] by (cases "frt_await K (rt_queue s)") auto
  let ?t = "s\<lparr>rt_queue := d, rt_task := Awake\<rparr>"
  have await: "rt_run_await K s = Some ?t" by (simp add: rt_run_await_def d)
  have t: "rt_inv K V limit ?t" by (rule inv_await [OF s(1,2,5) await])
  have alive: "rt_alive ?t" using s(2) by (simp add: rt_alive_def)
  have waiting: "frt.waiting V d = x # rest"
    using same_lanes_waiting frt.await_balanced(2) [OF bell d] assms(3) by (metis rt_waiting_def)
  have "\<exists>y d'. frt_pop K d = Done (y, d') \<and> frt.waiting V d = y # frt.waiting V d'"
    by (rule pop_finds [OF t alive]) auto
  then obtain y d' where pop: "frt_pop K d = Done (y, d')" "frt.waiting V d = y # frt.waiting V d'" by blast
  then have y: "y = x" "frt.waiting V d' = rest" using waiting by simp_all
  have "rt_run K 2 s = rt_run_pop K ?t"
    by (simp add: numeral_2_eq_2 rt_task_step_def s(5) await)
  moreover have "rt_run_pop K ?t = rt_handle x (s\<lparr>rt_task := Awake, rt_queue := d'\<rparr>)"
    using pop(1) y(1) by (simp add: rt_run_pop_def)
  moreover have "rt_inv K V limit (rt_run_pop K ?t)" by (rule inv_pop [OF t alive]) simp
  ultimately show ?thesis using y(2) by metis
qed

lemma joining_message:
  assumes "joining K V limit (m # xs) ys s" and "freertos_laws K V limit"
  shows "\<exists>n \<le> 3. joining K V limit xs ys (rt_run K n s)
    \<and> rt_discard (rt_run K n s) = rt_discard s
    \<and> rt_invoked (rt_run K n s) = rt_invoked s @ (if rt_discard s then [] else [m])
    \<and> rt_cancelled (rt_run K n s) = rt_cancelled s @ (if rt_discard s then [m] else [])"
proof -
  have s: "rt_inv K V limit s" "rt_alive s" "rt_exiter s = Joining" "rt_ringing s = 0" "rt_task s = Awaiting"
    "rt_waiting V s = MSG_DISPATCH_DELEGATE m # map MSG_DISPATCH_DELEGATE xs @ MSG_EXIT_THREAD # ys"
    using assms(1) by (simp_all add: joining_def)
  then have self: "\<not> rt_selfExit s" using running_created(2) [OF s(1,2)] by simp
  obtain d where d: "rt_run K 2 s = rt_handle (MSG_DISPATCH_DELEGATE m) (s\<lparr>rt_task := Awake, rt_queue := d\<rparr>)"
    "frt.waiting V d = map MSG_DISPATCH_DELEGATE xs @ MSG_EXIT_THREAD # ys" and inv: "rt_inv K V limit (rt_run K 2 s)"
    using joining_pop [OF assms s(6)] by blast
  show ?thesis
  proof (cases "rt_discard s")
    case True
    then have "joining K V limit xs ys (rt_run K 2 s)"
      using inv s d by (simp add: joining_def rt_handle_def rt_alive_def rt_waiting_def)
    with True d(1) show ?thesis by (intro exI [of _ 2]) (simp add: rt_handle_def)
  next
    case False
    have three: "rt_run K 3 s = rt_run_handled True (rt_run K 2 s)"
      using rt_run_add [of K 2 1 s] d(1) False by (simp add: rt_task_step_def rt_handle_def)
    have "rt_alive (rt_run K 2 s)" "rt_task (rt_run K 2 s) = Handling m" "\<not> rt_selfExit (rt_run K 2 s)"
      using s(2) d(1) False self by (simp_all add: rt_handle_def rt_alive_def)
    then have "rt_inv K V limit (rt_run K 3 s)"
      unfolding three by (intro inv_handled [OF inv]) simp_all
    then have "joining K V limit xs ys (rt_run K 3 s)"
      using three d s self False by (simp add: joining_def rt_handle_def rt_run_handled_def rt_alive_def rt_waiting_def)
    with False d(1) three self show ?thesis
      by (intro exI [of _ 3]) (simp add: rt_handle_def rt_run_handled_def)
  qed
qed

lemma joining_exit:
  assumes "joining K V limit [] ys s" and "freertos_laws K V limit"
  shows "rt_task (rt_run K 3 s) = No_task" and "rt_exitSem (rt_run K 3 s)" and "rt_inv K V limit (rt_run K 3 s)"
    and "rt_alive (rt_run K 3 s)" and "rt_exiter (rt_run K 3 s) = Joining" and "rt_waiting V (rt_run K 3 s) = ys"
    and "rt_invoked (rt_run K 3 s) = rt_invoked s" and "rt_cancelled (rt_run K 3 s) = rt_cancelled s"
    and "rt_lost (rt_run K 3 s) = rt_lost s"
proof -
  have s: "rt_alive s" "rt_exiter s = Joining" "rt_waiting V s = MSG_EXIT_THREAD # ys"
    using assms(1) by (simp_all add: joining_def)
  obtain d where d: "rt_run K 2 s = rt_handle MSG_EXIT_THREAD (s\<lparr>rt_task := Awake, rt_queue := d\<rparr>)"
    "frt.waiting V d = ys" and inv: "rt_inv K V limit (rt_run K 2 s)"
    using joining_pop [OF assms s(3)] by blast
  have three: "rt_run K 3 s = rt_run_leave (rt_run K 2 s)"
    using rt_run_add [of K 2 1 s] d(1) by (simp add: rt_task_step_def rt_handle_def)
  show "rt_inv K V limit (rt_run K 3 s)"
    unfolding three using d(1) s(1) by (intro inv_leave [OF inv]) (simp_all add: rt_handle_def rt_alive_def)
  show "rt_task (rt_run K 3 s) = No_task" "rt_exitSem (rt_run K 3 s)" "rt_alive (rt_run K 3 s)"
    "rt_exiter (rt_run K 3 s) = Joining" "rt_waiting V (rt_run K 3 s) = ys"
    "rt_invoked (rt_run K 3 s) = rt_invoked s" "rt_cancelled (rt_run K 3 s) = rt_cancelled s"
    "rt_lost (rt_run K 3 s) = rt_lost s"
    using three d s(1,2) by (simp_all add: rt_handle_def rt_run_leave_def rt_alive_def rt_waiting_def)
qed

lemma joining_finishes:
  assumes "joining K V limit xs ys s" and "freertos_laws K V limit"
  shows "\<exists>n \<le> 3 * length xs + 3. rt_task (rt_run K n s) = No_task \<and> rt_exitSem (rt_run K n s)
    \<and> rt_inv K V limit (rt_run K n s) \<and> rt_alive (rt_run K n s) \<and> rt_exiter (rt_run K n s) = Joining
    \<and> rt_waiting V (rt_run K n s) = ys
    \<and> rt_invoked (rt_run K n s) = rt_invoked s @ (if rt_discard s then [] else xs)
    \<and> rt_cancelled (rt_run K n s) = rt_cancelled s @ (if rt_discard s then xs else [])"
  using assms(1)
proof (induction xs arbitrary: s)
  case Nil
  show ?case using joining_exit [OF Nil assms(2)] by (intro exI [of _ 3]) simp
next
  case (Cons m xs)
  obtain k where k: "k \<le> 3" "joining K V limit xs ys (rt_run K k s)" "rt_discard (rt_run K k s) = rt_discard s"
    "rt_invoked (rt_run K k s) = rt_invoked s @ (if rt_discard s then [] else [m])"
    "rt_cancelled (rt_run K k s) = rt_cancelled s @ (if rt_discard s then [m] else [])"
    using joining_message [OF Cons.prems assms(2)] by blast
  from Cons.IH [OF k(2)] obtain n where "n \<le> 3 * length xs + 3"
    and n: "rt_task (rt_run K n (rt_run K k s)) = No_task" "rt_exitSem (rt_run K n (rt_run K k s))"
      "rt_inv K V limit (rt_run K n (rt_run K k s))" "rt_alive (rt_run K n (rt_run K k s))"
      "rt_exiter (rt_run K n (rt_run K k s)) = Joining" "rt_waiting V (rt_run K n (rt_run K k s)) = ys"
      "rt_invoked (rt_run K n (rt_run K k s)) = rt_invoked (rt_run K k s) @ (if rt_discard (rt_run K k s) then [] else xs)"
      "rt_cancelled (rt_run K n (rt_run K k s)) = rt_cancelled (rt_run K k s) @ (if rt_discard (rt_run K k s) then xs else [])"
    by blast
  then show ?case using k by (intro exI [of _ "k + n"]) (simp add: rt_run_add)
qed

lemma exit_rest:
  assumes "rt_inv K V limit s" and "rt_alive s" and "rt_exiter s = Joining" and "rt_exitSem s"
  shows "rt_exiter (rt_exit_rest K s) = No_exit" and "\<not> frt_IsCreated (rt_queue (rt_exit_rest K s))"
    and "rt_invoked (rt_exit_rest K s) = rt_invoked s"
    and "rt_cancelled (rt_exit_rest K s) = rt_cancelled s @ delegates (rt_waiting V s)"
    and "rt_lost (rt_exit_rest K s) = rt_lost s"
proof -
  have created: "frt_IsCreated (rt_queue s)" using assms by (simp add: rt_inv_def rt_alive_def control_ok_def)
  obtain d where d: "frt_DrainAndDelete K (rt_queue s) = Some (frt.waiting V (rt_queue s), d)"
    "frt_usable K V limit d" "frt.waiting V d = []"
    using frt_DrainAndDelete_all [OF created_usable(1) [OF assms(1,2) created]] by blast
  obtain d2 where "frt_DrainAndDelete K d = Some ([], d2)"
    using frt_DrainAndDelete_all [OF d(2)] d(3) by auto
  then have "rt_exit_rest K s = s\<lparr>rt_exitSem := False, rt_queue := frt_Destroy d,
      rt_cancelled := rt_cancelled s @ delegates (rt_waiting V s), rt_created := False, rt_exiter := No_exit\<rparr>"
    using d(1) by (simp add: rt_exit_rest_def rt_exit_join_def rt_exit_drain_def rt_exit_destroy_def rt_leftover_def
        CancelAll_def rt_waiting_def)
  then show "rt_exiter (rt_exit_rest K s) = No_exit" "\<not> frt_IsCreated (rt_queue (rt_exit_rest K s))"
    "rt_invoked (rt_exit_rest K s) = rt_invoked s"
    "rt_cancelled (rt_exit_rest K s) = rt_cancelled s @ delegates (rt_waiting V s)"
    "rt_lost (rt_exit_rest K s) = rt_lost s"
    by simp_all
qed

section \<open>An interpreter\<close>

text \<open>The steps as actions, to run the model on a schedule.\<close>

datatype 'a rtos_action =
    A_create bool | A_enter bool "'a DelegateMsg" | A_put "'a DelegateMsg" | A_ring | A_exit ExitPolicy
  | A_exit_self ExitPolicy | A_exit_send bool | A_exit_ring | A_exit_join | A_exit_drain | A_exit_destroy
  | A_task bool

text \<open>\<open>A_task\<close> is a step of the task; its flag tells whether an idle handler is due, and whether the target
  function succeeded.\<close>

definition rtos_task :: "('q, 's, 'a ThreadMsg) freertos \<Rightarrow> bool \<Rightarrow> ('q, 's, 'a) rtos \<Rightarrow> ('q, 's, 'a) rtos option" where
  "rtos_task K flag s = (case rt_task s of
       No_task \<Rightarrow> None
     | Starting \<Rightarrow> Some (rt_run_start s)
     | Awaiting \<Rightarrow> rt_run_await K s
     | Awake \<Rightarrow> Some (rt_run_pop K s)
     | Timed_out \<Rightarrow> Some (rt_run_no_message flag s)
     | Idle_handler \<Rightarrow> Some (rt_run_idle_done s)
     | Handling m \<Rightarrow> if rt_selfExit s \<and> rt_exiter s \<noteq> No_exit then None else Some (rt_run_handled flag s)
     | Leaving \<Rightarrow> Some (rt_run_leave s))"

definition is_handling :: "'a task_pc \<Rightarrow> bool" where
  "is_handling t = (case t of Handling m \<Rightarrow> True | _ \<Rightarrow> False)"

fun rtos_do :: "('q, 's, 'a ThreadMsg) freertos \<Rightarrow> 'a rtos_action \<Rightarrow> ('q, 's, 'a) rtos \<Rightarrow> ('q, 's, 'a) rtos option" where
  "rtos_do K (A_create ok) s =
     (if rt_task s = No_task \<and> rt_exiter s = No_exit \<and> rt_sending s = [] \<and> rt_ringing s = 0
      then Some (snd (rt_CreateThread K ok s)) else None)"
| "rtos_do K (A_enter alloc m) s = Some (snd (rt_dispatch_enter alloc m s))"
| "rtos_do K (A_put m) s = (if m \<in> set (rt_sending s) then Some (snd (rt_dispatch_put K m s)) else None)"
| "rtos_do K A_ring s = (if 0 < rt_ringing s then Some (snd (rt_dispatch_ring K s)) else None)"
| "rtos_do K (A_exit policy) s = (if rt_exiter s = No_exit then Some (rt_ExitThread policy False s) else None)"
| "rtos_do K (A_exit_self policy) s =
     (if rt_exiter s = No_exit \<and> is_handling (rt_task s) then Some (rt_ExitThread policy True s) else None)"
| "rtos_do K (A_exit_send alloc) s = (if rt_exiter s = Sending_exit then rt_exit_send K alloc s else None)"
| "rtos_do K A_exit_ring s = (if rt_exiter s = Ringing_exit then Some (rt_exit_ring K s) else None)"
| "rtos_do K A_exit_join s = (if rt_exiter s = Joining \<and> rt_exitSem s then Some (rt_exit_join s) else None)"
| "rtos_do K A_exit_drain s = (if rt_exiter s = Draining then rt_exit_drain K s else None)"
| "rtos_do K A_exit_destroy s = (if rt_exiter s = Destroying then Some (rt_exit_destroy K s) else None)"
| "rtos_do K (A_task flag) s = rtos_task K flag s"

fun rtos_trace :: "('q, 's, 'a ThreadMsg) freertos \<Rightarrow> 'a rtos_action list \<Rightarrow> ('q, 's, 'a) rtos \<Rightarrow> ('q, 's, 'a) rtos option" where
  "rtos_trace K [] s = Some s"
| "rtos_trace K (a # as) s =
     (if rt_alive s then Option.bind (rtos_do K a s) (rtos_trace K as) else None)"

lemma rtos_do_step: "rtos_do K a s = Some s' \<Longrightarrow> rt_alive s \<Longrightarrow> rtos_step K s s'"
proof (cases a)
  case (A_task flag)
  assume "rtos_do K a s = Some s'" and "rt_alive s"
  with A_task show ?thesis
    by (cases "rt_task s") (auto simp: rtos_task_def intro: rtos_step.intros split: if_splits)
qed (auto simp: is_handling_def split: if_splits task_pc.splits intro: rtos_step.intros)

lemma rtos_trace_reachable: "rtos_trace K as s = Some s' \<Longrightarrow> rtos_reachable K s \<Longrightarrow> rtos_reachable K s'"
proof (induction as arbitrary: s)
  case (Cons a as)
  then obtain s1 where "rt_alive s" "rtos_do K a s = Some s1" "rtos_trace K as s1 = Some s'"
    by (auto split: if_splits bind_splits)
  then show ?case using Cons.IH [of s1] Cons.prems(2) rtos_do_step rtos_reachable.step by metis
qed simp

section \<open>Watchdog\<close>

text \<open>The port keeps times in 32 bits: a thread is late if more ticks than its timeout have passed, across
  the wrap-around of the counter too. \<open>now\<close> is read first, \<open>lastAlive\<close> after it.\<close>

definition rt_WatchdogCheck :: "32 word \<Rightarrow> 32 word \<Rightarrow> 32 word \<Rightarrow> bool" where
  "rt_WatchdogCheck now lastAlive timeout \<longleftrightarrow> 0 < timeout \<and> timeout < now - lastAlive"

lemma watchdog_wraps:
  assumes "elapsed < 2 ^ 32"
  shows "rt_WatchdogCheck (lastAlive + of_nat elapsed) lastAlive timeout
    \<longleftrightarrow> 0 < unat timeout \<and> unat timeout < elapsed"
proof -
  have "unat (of_nat elapsed :: 32 word) = elapsed"
    using assms by (simp add: unat_of_nat take_bit_nat_eq_self)
  then show ?thesis by (simp add: rt_WatchdogCheck_def word_less_nat_alt)
qed

section \<open>Properties\<close>

text \<open>A schedule: a thread of ten messages is given a NORMAL and a HIGH one and asked to exit.\<close>

definition normal_message :: "nat DelegateMsg" where
  "normal_message = DelegateMsg 1 NORMAL"

definition high_message :: "nat DelegateMsg" where
  "high_message = DelegateMsg 2 HIGH"

definition rtos_fresh :: "nat \<Rightarrow> bool \<Rightarrow> (nat ThreadMsg list_queue, nat \<times> nat, nat) rtos" where
  "rtos_fresh n finite_wait = FreeRTOSThread n DROP finite_wait"

definition dispatch_actions :: "nat DelegateMsg \<Rightarrow> nat rtos_action list" where
  "dispatch_actions m = [A_enter True m, A_put m, A_ring]"

definition exit_actions :: "nat rtos_action list" where
  "exit_actions = [A_exit DRAIN, A_exit_send True, A_exit_ring]"

definition rtos_after :: "nat \<Rightarrow> bool \<Rightarrow> nat rtos_action list \<Rightarrow> (nat ThreadMsg list_queue, nat \<times> nat, nat) rtos" where
  "rtos_after n finite_wait as = the (rtos_trace list_kernel as (rtos_fresh n finite_wait))"

definition two_dispatched :: "(nat ThreadMsg list_queue, nat \<times> nat, nat) rtos" where
  "two_dispatched = rtos_after 10 False
     ([A_create True, A_task True] @ dispatch_actions normal_message @ dispatch_actions high_message)"

definition asked_to_exit :: "(nat ThreadMsg list_queue, nat \<times> nat, nat) rtos" where
  "asked_to_exit = rtos_after 10 False
     ([A_create True, A_task True] @ dispatch_actions normal_message @ dispatch_actions high_message @ exit_actions)"

lemma after_reachable:
  assumes "rtos_trace list_kernel as (rtos_fresh n finite_wait) \<noteq> None"
  shows "rtos_reachable list_kernel (rtos_after n finite_wait as)"
proof -
  obtain s where "rtos_trace list_kernel as (rtos_fresh n finite_wait) = Some s" using assms by blast
  moreover have "rtos_reachable list_kernel (rtos_fresh n finite_wait)"
    unfolding rtos_fresh_def by (rule rtos_reachable.fresh)
  ultimately show ?thesis using rtos_trace_reachable by (simp add: rtos_after_def)
qed

lemma two_dispatched_reachable: "rtos_reachable list_kernel two_dispatched"
  unfolding two_dispatched_def by (rule after_reachable) code_simp

lemma asked_to_exit_reachable: "rtos_reachable list_kernel asked_to_exit"
  unfolding asked_to_exit_def by (rule after_reachable) code_simp

text \<open>
  C11: on FreeRTOS too every message \<^verbatim>\<open>DispatchDelegate\<close> has accepted is invoked once, cancelled once, still
  waiting, or was deleted with its queue, and messages of one priority are invoked in the order in
  which they were accepted, however callers, task and \<^verbatim>\<open>ExitThread\<close> interleave at the calls of the kernel.
\<close>

theorem rtos_messages_once:
  assumes "freertos_laws K V limit" and "rtos_reachable K s"
  shows "mset (rt_accepted s) = mset (rt_invoked s) + mset (rt_cancelled s) + mset (rt_lost s)
      + mset (delegates (rt_waiting V s))
    \<and> subseq (of_priority p (rt_invoked s)) (of_priority p (rt_accepted s))"
proof -
  have h: "rt_history V s" using rtos_inv [OF assms(2,1)] by (simp add: rt_inv_def)
  have "subseq (of_priority p (rt_invoked s)) (of_priority p (rt_accepted s))"
    using h subseq_left subseq_order.trans unfolding history_ok_def by blast
  with h show ?thesis by (simp add: history_ok_def lane_messages_def rt_waiting_def frt.waiting_def)
qed

lemma rtos_messages_once_witness:
  "mset (rt_accepted two_dispatched) = mset (rt_invoked two_dispatched) + mset (rt_cancelled two_dispatched)
     + mset (rt_lost two_dispatched) + mset (delegates (rt_waiting list_view two_dispatched))
   \<and> subseq (of_priority HIGH (rt_invoked two_dispatched)) (of_priority HIGH (rt_accepted two_dispatched))"
  by (rule rtos_messages_once [OF list_kernel_laws two_dispatched_reachable])


definition doorbell_taken :: "(nat ThreadMsg list_queue, nat \<times> nat, nat) rtos" where
  "doorbell_taken = rtos_after 10 False
     ([A_create True, A_task True] @ dispatch_actions normal_message @ [A_task True] @ dispatch_actions high_message)"




section \<open>Beyond the contract\<close>

text \<open>A call of \<^verbatim>\<open>DispatchDelegate\<close> that has checked the queue when \<^verbatim>\<open>ExitThread\<close> deletes it hands a null handle
  to the kernel.\<close>

definition ended :: "nat rtos_action list" where
  "ended = [A_task True, A_task True, A_task True, A_exit_join, A_exit_drain, A_exit_destroy]"

theorem dispatch_races_exit:
  "\<exists>s. rtos_reachable list_kernel s \<and> rt_crashed s \<and> rt_faulted s = False
     \<and> rt_exiter s = No_exit \<and> (s :: (nat ThreadMsg list_queue, nat \<times> nat, nat) rtos) = rtos_after 10 False
         ([A_create True, A_task True, A_enter True normal_message] @ exit_actions @ ended @ [A_put normal_message])"
proof (intro exI conjI)
  let ?as = "[A_create True, A_task True, A_enter True normal_message] @ exit_actions @ ended @ [A_put normal_message]"
  show "rtos_reachable list_kernel (rtos_after 10 False ?as)" by (rule after_reachable) code_simp
  show "rt_crashed (rtos_after 10 False ?as)" by code_simp
  show "rt_faulted (rtos_after 10 False ?as) = False" by code_simp
  show "rt_exiter (rtos_after 10 False ?as) = No_exit" by code_simp
qed (rule refl)

text \<open>If it puts its message between the draining and the deletion, it is told that the message is accepted,
  but the message is neither invoked nor cancelled: a caller that waits for it is not released.\<close>

theorem message_lost_in_exit:
  "rt_lost (rtos_after 10 False
     ([A_create True, A_task True, A_enter True normal_message] @ exit_actions
      @ [A_task True, A_task True, A_task True, A_exit_join, A_exit_drain, A_put normal_message, A_ring, A_exit_destroy]))
   = [normal_message]"
  by code_simp

text \<open>With a watchdog or an idle handler the wait is bounded. A task whose wait has just ended without a message
  leaves the loop when it sees that the exit is requested; a message accepted in between, before \<^verbatim>\<open>ExitThread\<close>
  was called with \<^verbatim>\<open>DRAIN\<close>, is cancelled.\<close>

theorem drain_cancels_accepted:
  "rt_cancelled (rtos_after 10 True
     ([A_create True, A_task True, A_task True] @ dispatch_actions normal_message @ [A_exit DRAIN, A_task False, A_task True,
      A_exit_send True, A_exit_ring, A_exit_join, A_exit_drain]))
   = [normal_message]"
  by code_simp

text \<open>After the task has left that way nobody makes room for the exit message: with a full NORMAL lane \<^verbatim>\<open>ExitThread\<close>
  waits for ever.\<close>

theorem exit_waits_for_room:
  "let s = rtos_after 1 True
     ([A_create True, A_task True, A_task True, A_exit DRAIN, A_task False, A_task True] @ dispatch_actions normal_message)
   in rt_exiter s = Sending_exit \<and> rt_task s = No_task \<and> rt_exit_send list_kernel True s = None"
  unfolding Let_def by code_simp

text \<open>If the kernel cannot create the task, \<^verbatim>\<open>CreateThread\<close> returns false and leaves the queue behind. The
  destructor's \<^verbatim>\<open>ExitThread\<close> then waits for a task that is not there, whatever happens afterwards.\<close>

lemma never_joined:
  assumes "rtos_step K s s'" and "rt_exiter s = Joining" and "rt_task s = No_task" and "\<not> rt_exitSem s"
  shows "rt_exiter s' = Joining \<and> rt_task s' = No_task \<and> \<not> rt_exitSem s'"
  using assms
  by (induction rule: rtos_step.induct)
    (auto simp: rt_dispatch_enter_def rt_dispatch_put_def rt_dispatch_failed_def rt_dispatch_ring_def
      rt_give_doorbell_def Let_def split: kernel_result.splits FullPolicy.splits)

theorem failed_creation_hangs_exit:
  "let s = rtos_after 10 False ([A_create False] @ exit_actions)
   in rt_created s = False \<and> rt_exiter s = Joining \<and> rt_task s = No_task \<and> rt_exitSem s = False"
  unfolding Let_def by code_simp

text \<open>A thread that exits itself from its idle handler gives the exit semaphore, for which nobody waits. When the
  thread has been created again, \<^verbatim>\<open>ExitThread\<close> takes it at once and deletes the queue under the running task.\<close>

definition idle_self_exit :: "(nat ThreadMsg list_queue, nat \<times> nat, nat) rtos \<Rightarrow> (nat ThreadMsg list_queue, nat \<times> nat, nat) rtos" where
  "idle_self_exit s =
     rt_run_leave (rt_run_idle_done (rt_exit_destroy list_kernel
       (the (rt_exit_drain list_kernel (rt_ExitThread DRAIN True s)))))"

theorem stale_exit_semaphore:
  "let idle = rtos_after 10 True [A_create True, A_task True, A_task True, A_task True];
       s = the (rtos_trace list_kernel ([A_create True, A_task True] @ exit_actions @ [A_exit_join, A_exit_drain,
             A_exit_destroy]) (idle_self_exit idle))
   in rt_task s = Awaiting \<and> frt_IsCreated (rt_queue s) = False \<and> rt_crashed (rt_task_step list_kernel s)"
  unfolding Let_def by code_simp

text \<open>A task that reports itself alive between the two reads of the watchdog is taken for late: the difference
  wraps around.\<close>

theorem watchdog_false_alarm:
  "rt_WatchdogCheck 1000 1001 500"
  by (simp add: rt_WatchdogCheck_def)

end
