(* ===== verification/BlockingDelegates.thy ===== *)
theory BlockingDelegates
  imports AsyncDelegates
begin

text \<open>
  The rest of the blocking delegates of \<^verbatim>\<open>delegate/DelegateAsyncWait.h\<close>: assignment and moves,
  \<^verbatim>\<open>Invoke\<close> on the destination thread, \<^verbatim>\<open>AsyncInvoke\<close> and what a call amounts to when the two
  sides are put together, on a thread of \<open>WorkerThread\<close>; with the helpers of
  \<^verbatim>\<open>extras/util/AsyncInvoke.h\<close>. As in \<open>Delegates\<close> the text the four classes repeat is stated once
  and instantiated per class; \<open>AsyncCalls\<close> has the interleaving of the two sides.
\<close>

section \<open>Copying and moving\<close>

definition WAIT_INFINITE :: duration where
  "WAIT_INFINITE = 1000 * 3600 * 1000000000"

text \<open>The members of a delegate made by the default constructor.\<close>

definition Wait_default :: "'d \<Rightarrow> ('d, 'r) AsyncWait" where
  "Wait_default b =
     \<lparr>wait_base = b,
      wait_state = \<lparr>dest_thread = None, dest_priority = NORMAL, call_timeout = WAIT_INFINITE,
        m_success = False, m_retVal = None\<rparr>,
      wait_sync = False\<rparr>"

definition Wait_Assign :: "('d \<Rightarrow> 'd \<Rightarrow> 'd) \<Rightarrow> ('d, 'r) AsyncWait \<Rightarrow> ('d, 'r) AsyncWait \<Rightarrow> ('d, 'r) AsyncWait" where
  "Wait_Assign base_assign rhs d =
     d\<lparr>wait_state := wait_state rhs, wait_base := base_assign (wait_base rhs) (wait_base d)\<rparr>"

text \<open>The two assignment operators; \<open>itself\<close> is their test of the addresses. The second gives the new
  values of both delegates.\<close>

definition Wait_copy_assign ::
  "bool \<Rightarrow> ('d \<Rightarrow> 'd \<Rightarrow> 'd) \<Rightarrow> ('d, 'r) AsyncWait \<Rightarrow> ('d, 'r) AsyncWait \<Rightarrow> ('d, 'r) AsyncWait" where
  "Wait_copy_assign itself base_assign rhs d =
     (if itself then d
      else Wait_Assign base_assign rhs (d\<lparr>wait_base := base_assign (wait_base rhs) (wait_base d)\<rparr>))"

definition Wait_move ::
  "('d \<Rightarrow> 'd \<times> 'd) \<Rightarrow> ('d \<Rightarrow> 'd) \<Rightarrow> ('d, 'r) AsyncWait \<Rightarrow> ('d, 'r) AsyncWait \<times> ('d, 'r) AsyncWait" where
  "Wait_move base_move clear rhs =
     (let (b, r) = base_move (wait_base rhs) in
      (\<lparr>wait_base = b, wait_state = wait_state rhs, wait_sync = False\<rparr>, rhs\<lparr>wait_base := clear r\<rparr>))"

definition Wait_move_assign ::
  "bool \<Rightarrow> ('d \<Rightarrow> 'd \<times> 'd) \<Rightarrow> ('d \<Rightarrow> 'd) \<Rightarrow> ('d, 'r) AsyncWait \<Rightarrow> ('d, 'r) AsyncWait
   \<Rightarrow> ('d, 'r) AsyncWait \<times> ('d, 'r) AsyncWait" where
  "Wait_move_assign itself base_move clear rhs d =
     (if itself then (d, d)
      else let (b, r) = base_move (wait_base rhs) in
        (d\<lparr>wait_base := b, wait_state := wait_state rhs\<rparr>, rhs\<lparr>wait_base := clear r\<rparr>))"

section \<open>The result of a call\<close>

definition IsSuccess :: "('d, 'r) AsyncWait \<Rightarrow> bool" where
  "IsSuccess d = m_success (wait_state d)"

definition GetRetVal :: "'r \<Rightarrow> ('d, 'r) AsyncWait \<Rightarrow> 'r" where
  "GetRetVal dflt d = (case m_retVal (wait_state d) of Some r \<Rightarrow> r | None \<Rightarrow> dflt)"

text \<open>\<^verbatim>\<open>AsyncInvoke\<close>, given what its call of \<^verbatim>\<open>operator()\<close> returned and left in the delegate. A
  \<^verbatim>\<open>void\<close> function is one whose result is the value of \<open>unit\<close>.\<close>

definition Wait_AsyncInvoke :: "'r \<times> ('d, 'r) AsyncWait \<Rightarrow> 'r option \<times> ('d, 'r) AsyncWait" where
  "Wait_AsyncInvoke result =
     (let (retVal, d) = result in (if IsSuccess d then Some retVal else None, d))"

section \<open>Invoke\<close>

text \<open>
  \<^verbatim>\<open>Invoke\<close> of the clone \<open>d\<close> for the message \<open>c\<close>, from the cast of the message to the release of its
  lock; \<open>fits\<close> is the result of the cast. The operator that is called is that of the class
  itself (\<open>Wait_start\<close>), with \<^verbatim>\<open>m_sync\<close> set. The guard signals the semaphore on both ways out; an
  exception of the target leaves the function. What \<open>Invoke\<close> writes into the clone's dispatch
  state is also seen through the message.
\<close>

datatype invoke_result = Invoke_returned bool | Invoke_raised

definition Wait_Invoke ::
  "('d \<Rightarrow> bool) \<Rightarrow> ('a \<Rightarrow> 'd \<Rightarrow> 'a outcome) \<Rightarrow> ('a outcome \<Rightarrow> 'r target_result) \<Rightarrow> 'r \<Rightarrow> bool \<Rightarrow> 'a
   \<Rightarrow> 'r message \<Rightarrow> ('d, 'r) AsyncWait \<Rightarrow> invoke_result \<times> 'r message \<times> ('d, 'r) AsyncWait" where
  "Wait_Invoke base_empty base_call run dflt fits args c d =
     (if \<not> fits then (Invoke_returned False, c, d)
      else if \<not> m_invokerWaiting c then (Invoke_returned True, c, d)
      else
        case Wait_start base_empty base_call run (wait_forever c) dflt args (d\<lparr>wait_sync := True\<rparr>) of
          (Answered r, d1) \<Rightarrow>
            (let d2 = d1\<lparr>wait_state := (wait_state d1)\<lparr>m_retVal := Some r\<rparr>\<rparr> in
             (Invoke_returned True,
              c\<lparr>clone := wait_state d2, m_invokeSucceeded := True, m_sema := Signal (m_sema c)\<rparr>, d2))
        | (_, d1) \<Rightarrow> (Invoke_raised, c\<lparr>clone := wait_state d1, m_sema := Signal (m_sema c)\<rparr>, d1))"

text \<open>What the target does when it is called at once: an empty delegate calls nothing.\<close>

definition direct_call ::
  "('d \<Rightarrow> bool) \<Rightarrow> ('a \<Rightarrow> 'd \<Rightarrow> 'a outcome) \<Rightarrow> ('a outcome \<Rightarrow> 'r target_result) \<Rightarrow> 'r \<Rightarrow> 'a \<Rightarrow> 'd \<Rightarrow> 'r target_result" where
  "direct_call base_empty base_call run dflt args b =
     (if base_empty b then Returns dflt else run (base_call args b))"

lemmas wait_defs = Wait_Invoke_def Wait_start_def Wait_finish_def async_wait_start_def async_wait_finish_def
  ResetResult_def SetResult_def Signal_def direct_call_def Let_def

text \<open>\<open>Invoke\<close> is the worker's side of the protocol of \<open>AsyncCalls\<close>: the shared fields of the message
  are those after its three steps, with the direct call as the target.\<close>

definition shared_view :: "'r message \<Rightarrow> Semaphore \<times> bool \<times> bool \<times> 'r AsyncWaitDispatchState \<times> bool" where
  "shared_view c = (m_sema c, m_invokerWaiting c, m_invokeSucceeded c, clone c, lock_held c)"

lemma Wait_Invoke_is_worker:
  assumes "wait_state d = clone c" and "\<not> lock_held c" and "m_invokerWaiting c"
    and "target c = direct_call base_empty base_call run dflt args (wait_base d)"
  shows "shared_view (fst (snd (Wait_Invoke base_empty base_call run dflt True args c d)))
      = shared_view (Invoke_leave (Invoke_target dflt (Invoke_enter c)))"
  using assms
  by (auto simp: wait_defs shared_view_def Invoke_leave_def Invoke_target_def Invoke_enter_def
      split: target_result.splits)

lemma Wait_Invoke_late: "\<not> m_invokerWaiting c \<Longrightarrow>
    Wait_Invoke base_empty base_call run dflt True args c d = (Invoke_returned True, c, d)
    \<and> shared_view (Invoke_leave (Invoke_enter c)) = shared_view (c\<lparr>lock_held := False\<rparr>)"
  by (simp add: Wait_Invoke_def shared_view_def Invoke_enter_def Invoke_leave_def)

section \<open>The four classes\<close>

definition DelegateFreeAsyncWait ::
  "func option \<Rightarrow> nat \<Rightarrow> duration \<Rightarrow> (DelegateFree, 'r) AsyncWait" where
  "DelegateFreeAsyncWait f thread timeout =
     DelegateFreeAsyncWait_Bind f thread timeout (Wait_default (DelegateFree_Bind f DelegateFree))"

definition DelegateFreeAsyncWait_Assign ::
  "(DelegateFree, 'r) AsyncWait \<Rightarrow> (DelegateFree, 'r) AsyncWait \<Rightarrow> (DelegateFree, 'r) AsyncWait" where
  "DelegateFreeAsyncWait_Assign = Wait_Assign DelegateFree_Assign"

definition DelegateFreeAsyncWait_start ::
  "('a outcome \<Rightarrow> 'r target_result) \<Rightarrow> bool \<Rightarrow> 'r \<Rightarrow> 'a
   \<Rightarrow> (DelegateFree, 'r) AsyncWait \<Rightarrow> 'r operator_start \<times> (DelegateFree, 'r) AsyncWait" where
  "DelegateFreeAsyncWait_start = Wait_start DelegateFree_Empty DelegateFree_call"

definition DelegateFreeAsyncWait_Invoke ::
  "('a outcome \<Rightarrow> 'r target_result) \<Rightarrow> 'r \<Rightarrow> bool \<Rightarrow> 'a \<Rightarrow> 'r message
   \<Rightarrow> (DelegateFree, 'r) AsyncWait \<Rightarrow> invoke_result \<times> 'r message \<times> (DelegateFree, 'r) AsyncWait" where
  "DelegateFreeAsyncWait_Invoke = Wait_Invoke DelegateFree_Empty DelegateFree_call"

text \<open>A member of an object, bound by a shared pointer or, below, by a raw one.\<close>

definition DelegateMemberAsyncWait ::
  "shared_ptr \<Rightarrow> func option \<Rightarrow> nat \<Rightarrow> duration \<Rightarrow> (DelegateMember, 'r) AsyncWait" where
  "DelegateMemberAsyncWait ob f thread timeout =
     DelegateMemberAsyncWait_Bind ob f thread timeout (Wait_default (DelegateMember_Bind ob f DelegateMember))"

definition DelegateMemberAsyncWait_Bind_raw ::
  "object option \<Rightarrow> func option \<Rightarrow> nat \<Rightarrow> duration \<Rightarrow> (DelegateMember, 'r) AsyncWait \<Rightarrow> (DelegateMember, 'r) AsyncWait" where
  "DelegateMemberAsyncWait_Bind_raw ob f = Wait_Bind (DelegateMember_Bind_raw ob f)"

definition DelegateMemberAsyncWait_raw ::
  "object option \<Rightarrow> func option \<Rightarrow> nat \<Rightarrow> duration \<Rightarrow> (DelegateMember, 'r) AsyncWait" where
  "DelegateMemberAsyncWait_raw ob f thread timeout =
     DelegateMemberAsyncWait_Bind_raw ob f thread timeout (Wait_default (DelegateMember_Bind_raw ob f DelegateMember))"

definition DelegateMemberAsyncWait_copy_assign ::
  "bool \<Rightarrow> (DelegateMember, 'r) AsyncWait \<Rightarrow> (DelegateMember, 'r) AsyncWait \<Rightarrow> (DelegateMember, 'r) AsyncWait" where
  "DelegateMemberAsyncWait_copy_assign itself = Wait_copy_assign itself DelegateMember_Assign"

definition DelegateMemberAsyncWait_move ::
  "(DelegateMember, 'r) AsyncWait \<Rightarrow> (DelegateMember, 'r) AsyncWait \<times> (DelegateMember, 'r) AsyncWait" where
  "DelegateMemberAsyncWait_move = Wait_move DelegateMember_move DelegateMember_Clear"

definition DelegateMemberAsyncWait_move_assign ::
  "bool \<Rightarrow> (DelegateMember, 'r) AsyncWait \<Rightarrow> (DelegateMember, 'r) AsyncWait
   \<Rightarrow> (DelegateMember, 'r) AsyncWait \<times> (DelegateMember, 'r) AsyncWait" where
  "DelegateMemberAsyncWait_move_assign itself = Wait_move_assign itself DelegateMember_move DelegateMember_Clear"

definition DelegateMemberAsyncWait_Invoke ::
  "object set \<Rightarrow> ('a outcome \<Rightarrow> 'r target_result) \<Rightarrow> 'r \<Rightarrow> bool \<Rightarrow> 'a \<Rightarrow> 'r message
   \<Rightarrow> (DelegateMember, 'r) AsyncWait \<Rightarrow> invoke_result \<times> 'r message \<times> (DelegateMember, 'r) AsyncWait" where
  "DelegateMemberAsyncWait_Invoke live = Wait_Invoke DelegateMember_Empty (DelegateMember_call live)"

definition DelegateMemberAsyncWaitSp ::
  "shared_ptr \<Rightarrow> func option \<Rightarrow> nat \<Rightarrow> duration \<Rightarrow> (DelegateMemberSp, 'r) AsyncWait" where
  "DelegateMemberAsyncWaitSp ob f thread timeout =
     DelegateMemberAsyncWaitSp_Bind ob f thread timeout (Wait_default (DelegateMemberSp_Bind ob f DelegateMemberSp))"

definition DelegateMemberAsyncWaitSp_copy_assign ::
  "bool \<Rightarrow> (DelegateMemberSp, 'r) AsyncWait \<Rightarrow> (DelegateMemberSp, 'r) AsyncWait \<Rightarrow> (DelegateMemberSp, 'r) AsyncWait" where
  "DelegateMemberAsyncWaitSp_copy_assign itself = Wait_copy_assign itself DelegateMemberSp_Assign"

definition DelegateMemberAsyncWaitSp_move ::
  "(DelegateMemberSp, 'r) AsyncWait \<Rightarrow> (DelegateMemberSp, 'r) AsyncWait \<times> (DelegateMemberSp, 'r) AsyncWait" where
  "DelegateMemberAsyncWaitSp_move = Wait_move DelegateMemberSp_move DelegateMemberSp_Clear"

definition DelegateMemberAsyncWaitSp_move_assign ::
  "bool \<Rightarrow> (DelegateMemberSp, 'r) AsyncWait \<Rightarrow> (DelegateMemberSp, 'r) AsyncWait
   \<Rightarrow> (DelegateMemberSp, 'r) AsyncWait \<times> (DelegateMemberSp, 'r) AsyncWait" where
  "DelegateMemberAsyncWaitSp_move_assign itself = Wait_move_assign itself DelegateMemberSp_move DelegateMemberSp_Clear"

definition DelegateMemberAsyncWaitSp_Invoke ::
  "object set \<Rightarrow> ('a outcome \<Rightarrow> 'r target_result) \<Rightarrow> 'r \<Rightarrow> bool \<Rightarrow> 'a \<Rightarrow> 'r message
   \<Rightarrow> (DelegateMemberSp, 'r) AsyncWait \<Rightarrow> invoke_result \<times> 'r message \<times> (DelegateMemberSp, 'r) AsyncWait" where
  "DelegateMemberAsyncWaitSp_Invoke live = Wait_Invoke (DelegateMemberSp_Empty live) (DelegateMemberSp_call live)"

definition DelegateFunctionAsyncWait ::
  "fun_object option \<Rightarrow> nat \<Rightarrow> duration \<Rightarrow> (DelegateFunction, 'r) AsyncWait" where
  "DelegateFunctionAsyncWait f thread timeout =
     DelegateFunctionAsyncWait_Bind f thread timeout (Wait_default (DelegateFunction_Bind f DelegateFunction))"

definition DelegateFunctionAsyncWait_copy_assign ::
  "bool \<Rightarrow> (DelegateFunction, 'r) AsyncWait \<Rightarrow> (DelegateFunction, 'r) AsyncWait \<Rightarrow> (DelegateFunction, 'r) AsyncWait" where
  "DelegateFunctionAsyncWait_copy_assign itself = Wait_copy_assign itself DelegateFunction_Assign"

definition DelegateFunctionAsyncWait_move ::
  "(DelegateFunction, 'r) AsyncWait \<Rightarrow> (DelegateFunction, 'r) AsyncWait \<times> (DelegateFunction, 'r) AsyncWait" where
  "DelegateFunctionAsyncWait_move = Wait_move DelegateFunction_move DelegateFunction_Clear"

definition DelegateFunctionAsyncWait_move_assign ::
  "bool \<Rightarrow> (DelegateFunction, 'r) AsyncWait \<Rightarrow> (DelegateFunction, 'r) AsyncWait
   \<Rightarrow> (DelegateFunction, 'r) AsyncWait \<times> (DelegateFunction, 'r) AsyncWait" where
  "DelegateFunctionAsyncWait_move_assign itself = Wait_move_assign itself DelegateFunction_move DelegateFunction_Clear"

definition DelegateFunctionAsyncWait_Invoke ::
  "('a outcome \<Rightarrow> 'r target_result) \<Rightarrow> 'r \<Rightarrow> bool \<Rightarrow> 'a \<Rightarrow> 'r message
   \<Rightarrow> (DelegateFunction, 'r) AsyncWait \<Rightarrow> invoke_result \<times> 'r message \<times> (DelegateFunction, 'r) AsyncWait" where
  "DelegateFunctionAsyncWait_Invoke = Wait_Invoke DelegateFunction_Empty DelegateFunction_call"

text \<open>A copy has everything of its source but \<^verbatim>\<open>m_sync\<close>; a moved delegate passes it on and is empty.\<close>

definition assigns_all :: "('d \<Rightarrow> 'd \<Rightarrow> 'd) \<Rightarrow> bool" where
  "assigns_all base_assign \<longleftrightarrow> (\<forall>rhs d. base_assign rhs d = rhs)"

lemma assigns_all_classes:
  "assigns_all DelegateFree_Assign" "assigns_all DelegateMember_Assign"
  "assigns_all DelegateMemberSp_Assign" "assigns_all DelegateFunction_Assign"
  by (simp_all add: assigns_all_def DelegateFree_Assign_def DelegateMember_Assign_def DelegateMemberSp_Assign_def
      DelegateFunction_Assign_def)

lemma copy_assign_copies:
  "assigns_all base_assign \<Longrightarrow>
    Wait_copy_assign itself base_assign rhs d = (if itself then d else (Wait_copy rhs)\<lparr>wait_sync := wait_sync d\<rparr>)"
  by (cases d; cases rhs) (simp add: assigns_all_def Wait_copy_assign_def Wait_Assign_def Wait_copy_def)

definition moves_all :: "('d \<Rightarrow> 'd \<times> 'd) \<Rightarrow> bool" where
  "moves_all base_move \<longleftrightarrow> (\<forall>rhs. fst (base_move rhs) = rhs)"

lemma moves_all_classes:
  "moves_all DelegateFree_move" "moves_all DelegateMember_move"
  "moves_all DelegateMemberSp_move" "moves_all DelegateFunction_move"
  by (simp_all add: moves_all_def DelegateFree_move_def DelegateMember_move_def DelegateMemberSp_move_def
      DelegateFunction_move_def)

context bound_target
begin

lemma move_passes_on:
  assumes "moves_all base_move"
  shows "fst (Wait_move base_move clear rhs) = Wait_copy rhs"
    and "empty_of live (wait_base (snd (Wait_move base_move clear rhs)))"
    and "fst (Wait_move_assign False base_move clear rhs d) = (Wait_copy rhs)\<lparr>wait_sync := wait_sync d\<rparr>"
    and "empty_of live (wait_base (snd (Wait_move_assign False base_move clear rhs d)))"
  using assms
  by (auto simp: moves_all_def Wait_move_def Wait_move_assign_def Wait_copy_def clear_empty Let_def
      split: prod.split dest: spec [of _ "wait_base rhs"])

end

section \<open>A whole call\<close>

text \<open>
  \<^verbatim>\<open>operator()\<close> from its start to its return, with the worker's part in between. \<open>live\<close> are the
  objects that exist when the call is made, \<open>live'\<close> those at the worker's turn; the destination
  thread accepts the message or not, and then gets to it while the caller waits (\<open>Served\<close>),
  discards it (\<open>Discarded\<close>) or does neither before the timeout (\<open>Too_late\<close>). \<open>None\<close> is a call that
  does not return: it raises, or waits without a timeout for what never comes.
\<close>

datatype service = Served | Discarded | Too_late

definition worker_side ::
  "('d \<Rightarrow> bool) \<Rightarrow> ('a \<Rightarrow> 'd \<Rightarrow> 'a outcome) \<Rightarrow> ('a outcome \<Rightarrow> 'r target_result) \<Rightarrow> 'r \<Rightarrow> service \<Rightarrow> 'a
   \<Rightarrow> ('d, 'r) AsyncWait \<Rightarrow> 'r message \<Rightarrow> 'r message" where
  "worker_side base_empty base_call run dflt service args d c =
     (case service of
        Served \<Rightarrow> fst (snd (Wait_Invoke base_empty base_call run dflt True args c (Wait_copy d)))
      | Discarded \<Rightarrow> Cancel c
      | Too_late \<Rightarrow> c)"

definition caller_end :: "bool \<Rightarrow> 'r message \<Rightarrow> 'r \<Rightarrow> ('d, 'r) AsyncWait \<Rightarrow> 'r \<times> ('d, 'r) AsyncWait" where
  "caller_end waited c dflt d =
     (let c1 = caller_finish waited c in Wait_finish (caller c1 = Call_returned True) c1 dflt d)"

definition Wait_call ::
  "(object set \<Rightarrow> 'd \<Rightarrow> bool) \<Rightarrow> (object set \<Rightarrow> 'a \<Rightarrow> 'd \<Rightarrow> 'a outcome) \<Rightarrow> object set \<Rightarrow> object set
   \<Rightarrow> ('a outcome \<Rightarrow> 'r target_result) \<Rightarrow> 'r \<Rightarrow> bool \<Rightarrow> dispatch_result \<Rightarrow> service \<Rightarrow> 'a
   \<Rightarrow> ('d, 'r) AsyncWait \<Rightarrow> ('r \<times> ('d, 'r) AsyncWait) option" where
  "Wait_call empty_of call live live' run dflt forever result service args d =
     (case Wait_start (empty_of live) (call live) run forever dflt args d of
        (Answered r, d1) \<Rightarrow> Some (r, d1)
      | (Raised, d1) \<Rightarrow> None
      | (Dispatching c, d1) \<Rightarrow>
          (let c1 = send result c in
           case caller c1 of
             Locking waited \<Rightarrow> Some (caller_end waited c1 dflt d1)
           | In_Wait \<Rightarrow>
               (case caller_wait True (worker_side (empty_of live') (call live') run dflt service args d1 c1) of
                  Some c2 \<Rightarrow> Some (caller_end (caller c2 = Locking True) c2 dflt d1)
                | None \<Rightarrow> None)
           | _ \<Rightarrow> None))"

text \<open>What \<^verbatim>\<open>operator()\<close> and \<^verbatim>\<open>AsyncInvoke\<close> give their callers, if they return.\<close>

definition call_result :: "('r \<times> ('d, 'r) AsyncWait) option \<Rightarrow> ('r \<times> 'r option) option" where
  "call_result returned = map_option (\<lambda>result. (fst result, fst (Wait_AsyncInvoke result))) returned"

text \<open>A delegate that can be called from its owner: bound, to a thread.\<close>

definition callable :: "('d \<Rightarrow> bool) \<Rightarrow> ('d, 'r) AsyncWait \<Rightarrow> bool" where
  "callable base_empty d \<longleftrightarrow> \<not> base_empty (wait_base d) \<and> \<not> wait_sync d \<and> dest_thread (wait_state d) \<noteq> None"

lemmas whole_call_defs = Wait_call_def call_result_def callable_def worker_side_def caller_end_def Wait_AsyncInvoke_def
  IsSuccess_def Wait_copy_def caller_wait_def Wait_def caller_finish_def send_def Cancel_def DelegateAsyncWaitMsg_def wait_defs

context bound_target
begin

text \<open>A call that is served gives what the target gives when it is called directly at the worker's turn. A
  target that throws is a failed call.\<close>

lemma served_call:
  assumes "callable (empty_of live) d"
  shows "call_result (Wait_call empty_of call live live' run dflt forever Accepted Served args d)
    = Some (case direct_call (empty_of live') (call live') run dflt args (wait_base d) of
        Returns r \<Rightarrow> (r, Some r)
      | Throws \<Rightarrow> (dflt, None))"
proof (cases "direct_call (empty_of live') (call live') run dflt args (wait_base d)")
  case (Returns r)
  then show ?thesis using assms
    by (cases "empty_of live' (wait_base d)") (auto simp: whole_call_defs)
next
  case Throws
  then show ?thesis using assms
    by (cases "empty_of live' (wait_base d)") (auto simp: whole_call_defs)
qed

text \<open>A call that is not served gives the default value and no result; without a timeout it does not return
  unless the message is refused or discarded.\<close>

lemma unserved_call:
  assumes "callable (empty_of live) d"
  shows "call_result (Wait_call empty_of call live live' run dflt forever Refused service args d) = Some (dflt, None)"
    and "call_result (Wait_call empty_of call live live' run dflt forever Accepted Discarded args d) = Some (dflt, None)"
    and "call_result (Wait_call empty_of call live live' run dflt forever Accepted Too_late args d)
      = (if forever then None else Some (dflt, None))"
  using assms by (auto simp: whole_call_defs)

lemma empty_call:
  "empty_of live (wait_base d) \<Longrightarrow>
    call_result (Wait_call empty_of call live live' run dflt forever result service args d) = Some (dflt, None)"
  by (simp add: whole_call_defs)

text \<open>Without a thread, or with a thread that refuses, the delegate fails at once.\<close>

lemma unbound_call:
  "dest_thread (wait_state d) = None \<Longrightarrow> \<not> wait_sync d \<Longrightarrow>
    call_result (Wait_call empty_of call live live' run dflt forever result service args d) = Some (dflt, None)"
  by (auto simp: whole_call_defs)

end

section \<open>On a worker thread\<close>

text \<open>The message of a blocking call for a thread of \<open>WorkerThread\<close>, and what has become of it when the thread
  has made some steps: \<open>k\<close> messages had been invoked when it was dispatched.\<close>

definition wait_message ::
  "'a \<Rightarrow> ('d, 'r) AsyncWait \<Rightarrow> (('d, 'r) AsyncWait \<times> 'a) DelegateMsg" where
  "wait_message args d =
     DelegateMsg (Wait_copy (d\<lparr>wait_state := ResetResult (wait_state d)\<rparr>), args) (dest_priority (wait_state d))"

definition service_of :: "nat \<Rightarrow> 'p DelegateMsg \<Rightarrow> 'p thread_state \<Rightarrow> service" where
  "service_of k m s =
     (if m \<in> set (drop k (invoked s)) then Served else if m \<in> set (cancelled s) then Discarded else Too_late)"

text \<open>A blocking call of a weakly held member on the thread in state \<open>s\<close>, which afterwards exits with
  the given policy.\<close>

definition blocking_call ::
  "ExitPolicy \<Rightarrow> nat \<Rightarrow> object set \<Rightarrow> object set \<Rightarrow> ('a outcome \<Rightarrow> 'r target_result) \<Rightarrow> 'r \<Rightarrow> bool \<Rightarrow> 'a
   \<Rightarrow> (DelegateMemberSp, 'r) AsyncWait \<Rightarrow> ((DelegateMemberSp, 'r) AsyncWait \<times> 'a) thread_state
   \<Rightarrow> ('r \<times> 'r option) option" where
  "blocking_call policy n live live' run dflt forever args d s =
     (let m = wait_message args d;
          (entered_result, s1) = dispatch_enter m s;
          (result, s2) = (if entered_result = Pending then dispatch_locked m s1 else (entered_result, s1));
          s3 = process_run n (ExitThread_begin policy s2)
      in call_result (Wait_call DelegateMemberSp_Empty DelegateMemberSp_call live live' run dflt forever result
           (service_of (length (invoked s)) m s3) args d))"

lemma dispatch_accepted:
  fixes m :: "'p DelegateMsg"
  assumes "reachable s" and "busy s" and "\<not> faulted s" and "\<not> queue_full s"
  defines "s1 \<equiv> s\<lparr>entered := m # entered s\<rparr>" and "s2 \<equiv> dispatch m s"
  shows "dispatch_enter m s = (Pending, s1)" and "dispatch_locked m s1 = (Accepted, s2)"
    and "reachable s2" and "busy s2" and "m \<in> set (queued s2)" and "invoked s2 = invoked s"
    and "MAX_QUEUE_SIZE s2 = MAX_QUEUE_SIZE s"
proof -
  have run: "m_thread s" "\<not> m_exit s" using assms(2) by (simp_all add: busy_def)
  then show enter: "dispatch_enter m s = (Pending, s1)" by (simp add: dispatch_enter_def s1_def)
  have eq: "dispatch_locked m s1
      = (Accepted, s\<lparr>queue := push_back (MSG_DISPATCH_DELEGATE m) (queue s), accepted := accepted s @ [m]\<rparr>)"
    using assms(4) run
    by (auto simp: s1_def dispatch_locked_def dispatch_push_def queue_full_def GetQueueSize_def Let_def)
  with enter have s2: "s2 = s\<lparr>queue := push_back (MSG_DISPATCH_DELEGATE m) (queue s), accepted := accepted s @ [m]\<rparr>"
    by (simp add: s2_def dispatch_def)
  show "dispatch_locked m s1 = (Accepted, s2)" by (simp add: eq s2)
  show "reachable s2" unfolding s2_def using assms(1,3) run by (intro reachable_dispatch)
  show "busy s2" "invoked s2 = invoked s" "MAX_QUEUE_SIZE s2 = MAX_QUEUE_SIZE s"
    using assms(2) by (auto simp: s2 busy_def waiting_eq push_back_def)
  show "m \<in> set (queued s2)"
    by (simp add: s2 queued_def waiting_eq push_back_def)
qed

lemma queued_of_priority: "m \<in> set (queued s) \<Longrightarrow> m \<in> set (of_priority HIGH (queued s) @ of_priority NORMAL (queued s))"
  by (cases "msg_priority m") (auto simp: of_priority_def)

lemma accepted_service:
  assumes "reachable s" and "busy s" and "\<not> faulted s" and "\<not> queue_full s" and "2 * MAX_QUEUE_SIZE s + 2 \<le> n"
  shows "service_of (length (invoked s)) m (process_run n (ExitThread_begin DRAIN (dispatch m s))) = Served"
    and "service_of (length (invoked s)) m (process_run n (ExitThread_begin DISCARD (dispatch m s))) = Discarded"
proof -
  note d = dispatch_accepted [OF assms(1-4), of m]
  have "2 * MAX_QUEUE_SIZE (dispatch m s) + 2 \<le> n" using assms(5) d(7) by simp
  from drain_order [OF d(3,4) this] d(5,6)
  show "service_of (length (invoked s)) m (process_run n (ExitThread_begin DRAIN (dispatch m s))) = Served"
    by (simp add: service_of_def)
  have "m_thread (dispatch m s)" "\<not> m_exit (dispatch m s)" "2 \<le> n" using d(4) assms(5) by (simp_all add: busy_def)
  from exit_discard_cancels_all [OF d(3) this] queued_of_priority [OF d(5)] d(6)
  show "service_of (length (invoked s)) m (process_run n (ExitThread_begin DISCARD (dispatch m s))) = Discarded"
    by (auto simp: service_of_def)
qed

section \<open>A call on the caller's own thread\<close>

text \<open>When the caller runs on the destination thread, the worker takes no step before the call has returned:
  the steps of the caller alone.\<close>

inductive own_step :: "'r message \<Rightarrow> 'r message \<Rightarrow> bool" where
  own_send: "caller c = Calling \<Longrightarrow> result \<noteq> Pending \<Longrightarrow> own_step c (send result c)"
| own_wait: "caller c = In_Wait \<Longrightarrow> caller_wait time_is_up c = Some c' \<Longrightarrow> own_step c c'"
| own_return: "caller c = Locking waited \<Longrightarrow> \<not> lock_held c \<Longrightarrow> own_step c (caller_finish waited c)"

inductive_cases own_stepE: "own_step c c'"

lemma own_step_call: "own_step c c' \<Longrightarrow> call_step c c'"
  by (auto elim!: own_stepE intro: call_step.intros)

lemma own_step_worker: "own_step c c' \<Longrightarrow> worker c \<in> {Not_queued, In_queue} \<Longrightarrow> worker c' \<in> {Not_queued, In_queue}"
  by (erule own_stepE)
    (auto simp: send_def caller_wait_def Wait_def caller_finish_def Let_def split: option.splits dispatch_result.splits if_splits)

lemma own_steps:
  assumes "(own_step ^^ n) (fresh_message st forever f) c"
  shows "call_after n (fresh_message st forever f) c \<and> worker c \<in> {Not_queued, In_queue}"
  using assms
proof (induction n arbitrary: c)
  case (Suc n)
  then obtain b where "(own_step ^^ n) (fresh_message st forever f) b" "own_step b c" by auto
  with Suc.IH [of b] own_step_call [of b c] own_step_worker [of b c] show ?case by (auto simp: call_after_def)
qed (simp add: call_after_def fresh_message_def DelegateAsyncWaitMsg_def)

text \<open>Such a call never succeeds, and never runs its target: it fails when the timeout is over, and without
  a timeout it does not return once the message is queued.\<close>

lemma own_thread_call:
  assumes "(own_step ^^ n) (fresh_message st forever f) c"
  shows "caller c \<noteq> Call_returned True" and "runs c = 0"
    and "caller c = In_Wait \<Longrightarrow> forever \<Longrightarrow> \<not> own_step c c'"
proof -
  note after = own_steps [OF assms]
  have inv: "call_inv c" using fresh_reached(1) after by blast
  have const: "wait_forever c = forever" using after after_const
    by (fastforce simp: fresh_message_def DelegateAsyncWaitMsg_def)
  show "caller c \<noteq> Call_returned True" "runs c = 0"
    using inv after by (auto simp: call_inv_def phase_ok_def)
  assume "caller c = In_Wait" "forever"
  moreover from this have "\<not> m_signaled (m_sema c)" using inv after by (auto simp: call_inv_def phase_ok_def)
  ultimately show "\<not> own_step c c'" using const by (auto elim!: own_stepE simp: caller_wait_def Wait_def)
qed

section \<open>The helpers of \<^verbatim>\<open>AsyncInvoke.h\<close>\<close>

text \<open>The value of \<^verbatim>\<open>delegate.AsyncInvoke\<close>, or the default one, unless the helper runs on the thread
  itself: then the function is called at once. \<open>None\<close> is an exception or a call that does not
  return. The three overloads differ in the delegate they make and in what they call.\<close>

definition value_or_default :: "'r \<Rightarrow> ('r \<times> 'r option) option \<Rightarrow> 'r option" where
  "value_or_default dflt res = map_option (\<lambda>(_, retVal). case retVal of Some r \<Rightarrow> r | None \<Rightarrow> dflt) res"

fun returned_value :: "'r target_result \<Rightarrow> 'r option" where
  "returned_value (Returns r) = Some r"
| "returned_value Throws = None"

definition util_AsyncInvoke_function ::
  "bool \<Rightarrow> ('a outcome \<Rightarrow> 'r target_result) \<Rightarrow> 'r \<Rightarrow> bool \<Rightarrow> dispatch_result \<Rightarrow> service
   \<Rightarrow> fun_object \<Rightarrow> nat \<Rightarrow> duration \<Rightarrow> 'a \<Rightarrow> 'r option" where
  "util_AsyncInvoke_function on_thread run dflt forever result service f thread timeout args =
     (if \<not> on_thread then
        value_or_default dflt (call_result (Wait_call (\<lambda>_. DelegateFunction_Empty) (\<lambda>_. DelegateFunction_call) {} {}
          run dflt forever result service args (DelegateFunctionAsyncWait (Some f) thread timeout)))
      else returned_value (run (Calls (Function_object f) args)))"

definition util_AsyncInvoke_member ::
  "bool \<Rightarrow> object set \<Rightarrow> object set \<Rightarrow> ('a outcome \<Rightarrow> 'r target_result) \<Rightarrow> 'r \<Rightarrow> bool \<Rightarrow> dispatch_result \<Rightarrow> service
   \<Rightarrow> object \<Rightarrow> func \<Rightarrow> nat \<Rightarrow> duration \<Rightarrow> 'a \<Rightarrow> 'r option" where
  "util_AsyncInvoke_member on_thread live live' run dflt forever result service x f thread timeout args =
     (if \<not> on_thread then
        value_or_default dflt (call_result (Wait_call (\<lambda>_. DelegateMember_Empty) DelegateMember_call live live'
          run dflt forever result service args (DelegateMemberAsyncWait_raw (Some x) (Some f) thread timeout)))
      else returned_value (run (if x \<in> live then Calls (Member_function x f) args else Undefined)))"

text \<open>The caller's shared pointer keeps the object alive, for the whole call.\<close>

definition util_AsyncInvoke_member_sp ::
  "bool \<Rightarrow> ('a outcome \<Rightarrow> 'r target_result) \<Rightarrow> 'r \<Rightarrow> bool \<Rightarrow> dispatch_result \<Rightarrow> service
   \<Rightarrow> object \<Rightarrow> func \<Rightarrow> nat \<Rightarrow> duration \<Rightarrow> 'a \<Rightarrow> 'r option" where
  "util_AsyncInvoke_member_sp on_thread run dflt forever result service x f thread timeout args =
     (if \<not> on_thread then
        value_or_default dflt (call_result (Wait_call DelegateMemberSp_Empty DelegateMemberSp_call {x} {x}
          run dflt forever result service args (DelegateMemberAsyncWaitSp (Owning x) (Some f) thread timeout)))
      else returned_value (run (Calls (Member_function x f) args)))"

lemmas make_wait_defs = DelegateFunctionAsyncWait_def DelegateFunctionAsyncWait_Bind_def DelegateFunction_Bind_def
  DelegateMemberAsyncWait_raw_def DelegateMemberAsyncWait_Bind_raw_def DelegateMember_Bind_raw_def raw_ptr_def
  DelegateMemberAsyncWaitSp_def DelegateMemberAsyncWaitSp_Bind_def DelegateMemberSp_Bind_def Wait_Bind_def Wait_default_def
  DelegateFunction_def DelegateMember_def DelegateMemberSp_def

lemma made_callable:
  "callable DelegateFunction_Empty (DelegateFunctionAsyncWait (Some f) thread timeout)"
  "callable DelegateMember_Empty (DelegateMemberAsyncWait_raw (Some x) (Some g) thread timeout)"
  "x \<in> live \<Longrightarrow> callable (DelegateMemberSp_Empty live) (DelegateMemberAsyncWaitSp (Owning x) (Some g) thread timeout)"
  by (simp_all add: callable_def make_wait_defs DelegateFunction_Empty_def DelegateMember_Empty_def
      DelegateMemberSp_Empty_def lock_def)

text \<open>Served in time, a helper gives the same value on every thread, except that elsewhere an exception of
  the function becomes the default value.\<close>

lemma util_function_served:
  "util_AsyncInvoke_function on_thread run dflt forever Accepted Served f thread timeout args
    = (case run (Calls (Function_object f) args) of
        Returns r \<Rightarrow> Some r
      | Throws \<Rightarrow> if on_thread then None else Some dflt)"
  unfolding util_AsyncInvoke_function_def func_object.served_call [OF made_callable(1)]
  by (simp add: value_or_default_def direct_call_def make_wait_defs function_defs split: target_result.split)

lemma util_member_sp_served:
  "util_AsyncInvoke_member_sp on_thread run dflt forever Accepted Served x f thread timeout args
    = (case run (Calls (Member_function x f) args) of
        Returns r \<Rightarrow> Some r
      | Throws \<Rightarrow> if on_thread then None else Some dflt)"
  unfolding util_AsyncInvoke_member_sp_def memberSp.served_call [OF made_callable(3) [of x "{x}", simplified]]
  by (simp add: value_or_default_def direct_call_def make_wait_defs memberSp_defs split: target_result.split)

lemma util_member_served:
  assumes "x \<in> live" and "x \<in> live'"
  shows "util_AsyncInvoke_member on_thread live live' run dflt forever Accepted Served x f thread timeout args
    = (case run (Calls (Member_function x f) args) of
        Returns r \<Rightarrow> Some r
      | Throws \<Rightarrow> if on_thread then None else Some dflt)"
  using assms
  unfolding util_AsyncInvoke_member_def member.served_call [OF made_callable(2)]
  by (simp add: value_or_default_def direct_call_def make_wait_defs member_defs split: target_result.split)

text \<open>Not served, a helper gives the default value, which its caller cannot tell from a result.\<close>

lemma util_function_unserved:
  "service \<noteq> Served \<Longrightarrow>
    util_AsyncInvoke_function False run dflt False Accepted service f thread timeout args = Some dflt"
  unfolding util_AsyncInvoke_function_def
  by (cases service) (simp_all add: func_object.unserved_call [OF made_callable(1)] value_or_default_def)

section \<open>A target that is gone\<close>

text \<open>When the weakly held object is gone at the worker's turn nothing is called, and yet the call is a
  success: the caller gets the default value as if the function had returned it.\<close>

lemma expired_target_succeeds:
  assumes "callable (DelegateMemberSp_Empty live) d" and "lock live' (weak_object (wait_base d)) = None"
  shows "call_result (Wait_call DelegateMemberSp_Empty DelegateMemberSp_call live live' run dflt forever Accepted Served args d)
    = Some (dflt, Some dflt)"
  by (simp add: memberSp.served_call [OF assms(1)] direct_call_def DelegateMemberSp_Empty_def assms(2))

section \<open>Properties\<close>


text \<open>Object 4 has the function 3; the thread is the one of \<open>AsyncDelegates\<close>. A function gives its argument
  back.\<close>

definition echo :: "nat outcome \<Rightarrow> nat target_result" where
  "echo oc = (case oc of Calls _ x \<Rightarrow> Returns x | _ \<Rightarrow> Throws)"

definition waiting_call :: "(DelegateMemberSp, nat) AsyncWait" where
  "waiting_call = DelegateMemberAsyncWaitSp (Owning 4) (Some 3) 1 WAIT_INFINITE"

definition blocking_thread :: "((DelegateMemberSp, nat) AsyncWait \<times> nat) thread_state" where
  "blocking_thread = CreateThread (StdlibThread 2 FAULT)"

lemma blocking_thread_facts: "reachable blocking_thread" "busy blocking_thread" "\<not> faulted blocking_thread"
  "\<not> queue_full blocking_thread" "MAX_QUEUE_SIZE blocking_thread = 2"
proof -
  show "reachable blocking_thread" unfolding blocking_thread_def
    by (rule reachable.step [OF reachable.start], rule thread_step.create) (simp_all add: StdlibThread_def)
qed (simp_all add: blocking_thread_def StdlibThread_def CreateThread_def busy_def GetQueueSize_def queue_size_def
    no_messages_def waiting_eq queue_full_def)

lemma waiting_call_facts: "callable (DelegateMemberSp_Empty {4}) waiting_call"
  "wait_base waiting_call = \<lparr>weak_object = Some 4, weak_func = Some 3\<rparr>"
  by (simp_all add: waiting_call_def DelegateMemberAsyncWaitSp_def DelegateMemberAsyncWaitSp_Bind_def Wait_Bind_def
      Wait_default_def DelegateMemberSp_Bind_def DelegateMemberSp_def callable_def DelegateMemberSp_Empty_def lock_def)



end
