(* ===== verification/PosixThread.thy ===== *)
theory PosixThread
  imports WorkerThread "HOL-Library.Signed_Division"
begin

text \<open>
  \<^verbatim>\<open>port/os/posix/PosixThread.cpp\<close>: the worker thread on POSIX threads. The queue and the flags are
  those of \<open>WorkerThread\<close>; what is new here are the condition variables, which the C++ library hides:
  who sleeps on them, whom a signal wakes, wake-ups without a signal, and timeouts that strike
  while the mutex is taken. Each section under \<^verbatim>\<open>m_mutex\<close> is one function; \<open>posix_step\<close> interleaves
  them. The last sections show that the class refines \<open>WorkerThread\<close>, but for one branch, and that
  no wake-up is lost.
\<close>

section \<open>State\<close>

text \<open>
  A caller that waits for room (\<open>blocked\<close>) is asleep on \<^verbatim>\<open>m_cvNotFull\<close>, woken, or past its timeout; in
  the last two cases it still has to get the mutex. \<open>consumer_asleep\<close>: the worker sleeps on
  \<^verbatim>\<open>m_cvNotEmpty\<close>. \<open>creator\<close> is the thread in \<^verbatim>\<open>CreateThread\<close> that waits for \<^verbatim>\<open>m_started\<close>.
\<close>

datatype creator_pc = No_creator | Create_checks | Create_asleep

record 'a posix_state = "'a thread_state" +
  m_dispatchTimeout :: int
  m_started :: bool
  creator :: creator_pc
  consumer_asleep :: bool
  asleep :: "'a DelegateMsg list"
  signalled :: "'a DelegateMsg list"
  expired :: "'a DelegateMsg list"

definition PosixThread :: "nat \<Rightarrow> FullPolicy \<Rightarrow> int \<Rightarrow> 'a posix_state" where
  "PosixThread maxQueueSize fullPolicy dispatchTimeout =
     \<lparr>m_thread = False, m_exit = False, queue = no_messages,
      MAX_QUEUE_SIZE = (if maxQueueSize = 0 then THREAD_DESKTOP_QUEUE_SIZE else maxQueueSize),
      FULL_POLICY = fullPolicy, process = Returned, selfExit = False, joining = False,
      entered = [], blocked = [], accepted = [], invoked = [], cancelled = [], dropped = [],
      faulted = False, m_dispatchTimeout = dispatchTimeout, m_started = False, creator = No_creator,
      consumer_asleep = False, asleep = [], signalled = [], expired = []\<rparr>"

section \<open>Absolute timeouts\<close>

record timespec =
  tv_sec :: int
  tv_nsec :: int

text \<open>\<open>now\<close> is the time of the monotonic clock, \<open>timeout\<close> a number of nanoseconds; division and remainder
  are those of C++, towards zero.\<close>

definition MakeAbsTimeout :: "timespec \<Rightarrow> int \<Rightarrow> timespec" where
  "MakeAbsTimeout now timeout =
     (let sec = tv_sec now + timeout sdiv 1000000000;
          nsec = tv_nsec now + timeout smod 1000000000
      in if 1000000000 \<le> nsec then \<lparr>tv_sec = sec + 1, tv_nsec = nsec - 1000000000\<rparr>
         else \<lparr>tv_sec = sec, tv_nsec = nsec\<rparr>)"

definition valid_timespec :: "timespec \<Rightarrow> bool" where
  "valid_timespec ts \<longleftrightarrow> 0 \<le> tv_nsec ts \<and> tv_nsec ts < 1000000000"

definition nanoseconds :: "timespec \<Rightarrow> int" where
  "nanoseconds ts = tv_sec ts * 1000000000 + tv_nsec ts"

text \<open>The deadline is exact, and valid unless the timeout is negative.\<close>

lemma sdiv_smod: "(x :: int) = (x sdiv 1000000000) * 1000000000 + x smod 1000000000"
  using sdiv_mult_smod_eq [of x 1000000000] by simp

lemma MakeAbsTimeout_exact: "nanoseconds (MakeAbsTimeout now timeout) = nanoseconds now + timeout"
  using sdiv_smod [of timeout] by (simp add: MakeAbsTimeout_def nanoseconds_def Let_def algebra_simps)

lemma MakeAbsTimeout_valid: "valid_timespec now \<Longrightarrow> 0 \<le> timeout \<Longrightarrow> valid_timespec (MakeAbsTimeout now timeout)"
  by (auto simp: MakeAbsTimeout_def valid_timespec_def Let_def signed_modulo_int_def sgn_if)

section \<open>Condition variables\<close>

text \<open>Only the worker waits on \<^verbatim>\<open>m_cvNotEmpty\<close>. Which of the callers asleep on \<^verbatim>\<open>m_cvNotFull\<close> a signal wakes is
  not specified: it is the argument \<open>w\<close>.\<close>

definition signal_not_empty :: "'a posix_state \<Rightarrow> 'a posix_state" where
  "signal_not_empty s = s\<lparr>consumer_asleep := False\<rparr>"

definition broadcast_not_full :: "'a posix_state \<Rightarrow> 'a posix_state" where
  "broadcast_not_full s = s\<lparr>asleep := [], signalled := asleep s @ signalled s\<rparr>"

definition signal_not_full :: "'a DelegateMsg option \<Rightarrow> 'a posix_state \<Rightarrow> 'a posix_state" where
  "signal_not_full w s =
     (case w of
        None \<Rightarrow> s
      | Some m \<Rightarrow> s\<lparr>asleep := remove1 m (asleep s), signalled := m # signalled s\<rparr>)"

definition may_wake :: "'a DelegateMsg option \<Rightarrow> 'a posix_state \<Rightarrow> bool" where
  "may_wake w s \<longleftrightarrow> (case w of None \<Rightarrow> asleep s = [] | Some m \<Rightarrow> m \<in> set (asleep s))"

section \<open>CreateThread\<close>

text \<open>\<open>ok\<close> is the result of \<^verbatim>\<open>pthread_create\<close>. The new thread is held up at \<^verbatim>\<open>m_mutex\<close> until the section is
  over; then its creator waits until it has started.\<close>

definition px_CreateThread :: "bool \<Rightarrow> 'a posix_state \<Rightarrow> bool \<times> 'a posix_state" where
  "px_CreateThread ok s =
     (if m_thread s then (True, s)
      else
        let s1 = s\<lparr>m_exit := False, m_started := False\<rparr> in
        if \<not> ok then (False, s1)
        else (True, s1\<lparr>m_thread := True, process := Waiting, selfExit := False, creator := Create_checks,
                     consumer_asleep := False\<rparr>))"

definition px_create_wait :: "'a posix_state \<Rightarrow> 'a posix_state" where
  "px_create_wait s = s\<lparr>creator := (if m_started s then No_creator else Create_asleep)\<rparr>"

definition px_started :: "'a posix_state \<Rightarrow> 'a posix_state" where
  "px_started s =
     s\<lparr>m_started := True, creator := (if creator s = Create_asleep then Create_checks else creator s)\<rparr>"

section \<open>DispatchDelegate\<close>

definition px_GetQueueSize :: "'a posix_state \<Rightarrow> nat" where
  "px_GetQueueSize s = queue_size (queue s)"

definition px_dispatch_enter :: "'a DelegateMsg \<Rightarrow> 'a posix_state \<Rightarrow> dispatch_result \<times> 'a posix_state" where
  "px_dispatch_enter m s =
     (if m_exit s \<or> \<not> m_thread s then (Refused, s) else (Pending, s\<lparr>entered := m # entered s\<rparr>))"

definition px_queue_full :: "'a posix_state \<Rightarrow> bool" where
  "px_queue_full s \<longleftrightarrow> 0 < MAX_QUEUE_SIZE s \<and> MAX_QUEUE_SIZE s \<le> px_GetQueueSize s"

definition px_has_space :: "'a posix_state \<Rightarrow> bool" where
  "px_has_space s \<longleftrightarrow> px_GetQueueSize s < MAX_QUEUE_SIZE s \<or> m_exit s"

text \<open>The end of the function, and the two ways of giving up a message.\<close>

definition px_push :: "'a DelegateMsg \<Rightarrow> 'a posix_state \<Rightarrow> dispatch_result \<times> 'a posix_state" where
  "px_push m s =
     (if m_exit s then (Refused, s)
      else (Accepted, signal_not_empty (s\<lparr>queue := push_back (MSG_DISPATCH_DELEGATE m) (queue s),
                                         accepted := accepted s @ [m]\<rparr>)))"

definition px_drop :: "'a posix_state \<Rightarrow> dispatch_result \<times> 'a posix_state" where
  "px_drop s = (Refused, s\<lparr>dropped := dropped s @ [px_GetQueueSize s]\<rparr>)"

text \<open>
  One pass through the \<^verbatim>\<open>while\<close> loop that waits for room: \<open>Some True\<close> if there is room, \<open>Some False\<close> if
  the caller goes to sleep in \<^verbatim>\<open>pthread_cond_timedwait\<close>. With an invalid deadline that function fails
  with \<^verbatim>\<open>EINVAL\<close> and keeps the mutex: the loop goes round again, in the same state.
\<close>

partial_function (option) wait_not_full :: "timespec \<Rightarrow> 'a posix_state \<Rightarrow> bool option" where
  "wait_not_full ts s =
     (if px_has_space s then Some True
      else if valid_timespec ts then Some False
      else wait_not_full ts s)"

declare wait_not_full.simps [code]

lemma wait_not_full_Some:
  "wait_not_full ts s = Some b \<Longrightarrow> b = px_has_space s \<and> (px_has_space s \<or> valid_timespec ts)"
  by (erule wait_not_full.raw_induct
      [where P = "\<lambda>ts s b. b = px_has_space s \<and> (px_has_space s \<or> valid_timespec ts)", rotated])
    (auto split: if_splits)

lemma wait_not_full_eq:
  "wait_not_full ts s = (if px_has_space s \<or> valid_timespec ts then Some (px_has_space s) else None)"
proof (cases "px_has_space s \<or> valid_timespec ts")
  case True
  then show ?thesis by (subst wait_not_full.simps) auto
next
  case False
  then show ?thesis using wait_not_full_Some [of ts s] by (cases "wait_not_full ts s") auto
qed

definition px_dispatch_locked ::
  "timespec \<Rightarrow> 'a DelegateMsg \<Rightarrow> 'a posix_state \<Rightarrow> (dispatch_result \<times> 'a posix_state) option" where
  "px_dispatch_locked ts m s =
     (let s1 = s\<lparr>entered := remove1 m (entered s)\<rparr> in
      if px_queue_full s1 then
        (case FULL_POLICY s1 of
           DROP \<Rightarrow> Some (px_drop s1)
         | FAULT \<Rightarrow> Some (Refused, s1\<lparr>faulted := True\<rparr>)
         | TIMEOUT \<Rightarrow>
             (case wait_not_full ts s1 of
                None \<Rightarrow> None
              | Some True \<Rightarrow> Some (px_push m s1)
              | Some False \<Rightarrow> Some (Pending, s1\<lparr>blocked := m # blocked s1, asleep := m # asleep s1\<rparr>)))
      else Some (px_push m s1))"

text \<open>Out of \<^verbatim>\<open>pthread_cond_timedwait\<close>: woken, the loop looks again; past the timeout it gives up without
  looking.\<close>

definition px_dispatch_woken ::
  "timespec \<Rightarrow> 'a DelegateMsg \<Rightarrow> 'a posix_state \<Rightarrow> (dispatch_result \<times> 'a posix_state) option" where
  "px_dispatch_woken ts m s =
     (let s1 = s\<lparr>signalled := remove1 m (signalled s)\<rparr> in
      case wait_not_full ts s1 of
        None \<Rightarrow> None
      | Some True \<Rightarrow> Some (px_push m (s1\<lparr>blocked := remove1 m (blocked s1)\<rparr>))
      | Some False \<Rightarrow> Some (Pending, s1\<lparr>asleep := m # asleep s1\<rparr>))"

definition px_dispatch_timed_out :: "'a DelegateMsg \<Rightarrow> 'a posix_state \<Rightarrow> dispatch_result \<times> 'a posix_state" where
  "px_dispatch_timed_out m s =
     px_drop (s\<lparr>blocked := remove1 m (blocked s), expired := remove1 m (expired s)\<rparr>)"

section \<open>ExitThread\<close>

definition px_cancel_queue :: "'a posix_state \<Rightarrow> 'a posix_state" where
  "px_cancel_queue s =
     s\<lparr>queue := no_messages,
       cancelled := cancelled s @ CancelAll (m_highQueue (queue s)) @ CancelAll (m_normalQueue (queue s))\<rparr>"

definition px_ExitThread_begin :: "ExitPolicy \<Rightarrow> 'a posix_state \<Rightarrow> 'a posix_state" where
  "px_ExitThread_begin policy s =
     (if \<not> m_thread s then s
      else let s1 = (if policy = DISCARD then px_cancel_queue s else s) in
           broadcast_not_full (signal_not_empty
             (s1\<lparr>m_exit := True, queue := push_back MSG_EXIT_THREAD (queue s1), joining := True\<rparr>)))"

definition px_ExitThread_self :: "ExitPolicy \<Rightarrow> 'a posix_state \<Rightarrow> 'a posix_state" where
  "px_ExitThread_self policy s = (px_ExitThread_begin policy s)\<lparr>selfExit := True\<rparr>"

definition px_ExitThread_finish :: "'a posix_state \<Rightarrow> 'a posix_state" where
  "px_ExitThread_finish s = broadcast_not_full ((px_cancel_queue s)\<lparr>m_thread := False, joining := False\<rparr>)"

section \<open>Process\<close>

text \<open>One pass of the loop: the worker finds a message, or the exit flag, or goes to sleep. After a
  timeout (for the watchdog or the idle handler) the loop comes here again.\<close>

definition px_process_take :: "'a DelegateMsg option \<Rightarrow> 'a posix_state \<Rightarrow> 'a posix_state" where
  "px_process_take w s =
     (case pop_front (queue s) of
        None \<Rightarrow> if m_exit s then s\<lparr>process := Returned\<rparr> else s\<lparr>consumer_asleep := True\<rparr>
      | Some (x, q) \<Rightarrow>
          (let s1 = s\<lparr>queue := q\<rparr>;
               s2 = (if 0 < MAX_QUEUE_SIZE s then signal_not_full w s1 else s1)
           in case x of
                MSG_DISPATCH_DELEGATE m \<Rightarrow> s2\<lparr>process := Invoking m, invoked := invoked s2 @ [m]\<rparr>
              | MSG_EXIT_THREAD \<Rightarrow> s2\<lparr>process := Returned\<rparr>))"

definition px_process_done :: "bool \<Rightarrow> 'a posix_state \<Rightarrow> 'a posix_state" where
  "px_process_done success s =
     (if selfExit s then s\<lparr>process := Returned\<rparr>
      else if \<not> success then s\<lparr>faulted := True\<rparr>
      else s\<lparr>process := Waiting\<rparr>)"

section \<open>Interleaving\<close>

text \<open>
  The limits of use are those of \<open>WorkerThread\<close>; besides, \<^verbatim>\<open>pthread_create\<close> succeeds and the clock gives
  valid times. A caller that has slept has done so with a valid deadline. Sleepers may wake up at any time, without a signal (\<open>wake\<close>, \<open>consumer_wake\<close>,
  \<open>creator_wake\<close>).
\<close>

inductive posix_step :: "'a posix_state \<Rightarrow> 'a posix_state \<Rightarrow> bool" where
  create: "\<not> faulted s \<Longrightarrow> process s = Returned \<Longrightarrow> \<not> joining s \<Longrightarrow> creator s = No_creator \<Longrightarrow>
    posix_step s (snd (px_CreateThread True s))"
| create_wait: "\<not> faulted s \<Longrightarrow> creator s = Create_checks \<Longrightarrow> posix_step s (px_create_wait s)"
| creator_wake: "\<not> faulted s \<Longrightarrow> creator s = Create_asleep \<Longrightarrow> posix_step s (s\<lparr>creator := Create_checks\<rparr>)"
| started: "\<not> faulted s \<Longrightarrow> process s = Waiting \<Longrightarrow> \<not> m_started s \<Longrightarrow> posix_step s (px_started s)"
| enter: "\<not> faulted s \<Longrightarrow> posix_step s (snd (px_dispatch_enter m s))"
| locked: "\<not> faulted s \<Longrightarrow> m \<in> set (entered s) \<Longrightarrow> valid_timespec now \<Longrightarrow>
    px_dispatch_locked (MakeAbsTimeout now (m_dispatchTimeout s)) m s = Some (r, s') \<Longrightarrow> posix_step s s'"
| wake: "\<not> faulted s \<Longrightarrow> m \<in> set (asleep s) \<Longrightarrow> posix_step s (signal_not_full (Some m) s)"
| expire: "\<not> faulted s \<Longrightarrow> m \<in> set (asleep s) \<Longrightarrow>
    posix_step s (s\<lparr>asleep := remove1 m (asleep s), expired := m # expired s\<rparr>)"
| woken: "\<not> faulted s \<Longrightarrow> m \<in> set (signalled s) \<Longrightarrow> valid_timespec ts \<Longrightarrow>
    px_dispatch_woken ts m s = Some (r, s') \<Longrightarrow> posix_step s s'"
| timed_out: "\<not> faulted s \<Longrightarrow> m \<in> set (expired s) \<Longrightarrow> posix_step s (snd (px_dispatch_timed_out m s))"
| exit_begin: "\<not> faulted s \<Longrightarrow> \<not> joining s \<Longrightarrow> posix_step s (px_ExitThread_begin policy s)"
| exit_self: "\<not> faulted s \<Longrightarrow> \<not> joining s \<Longrightarrow> m_thread s \<Longrightarrow> process s = Invoking m \<Longrightarrow>
    posix_step s (px_ExitThread_self policy s)"
| exit_finish: "\<not> faulted s \<Longrightarrow> joining s \<Longrightarrow> selfExit s \<or> process s = Returned \<Longrightarrow>
    posix_step s (px_ExitThread_finish s)"
| consumer_wake: "\<not> faulted s \<Longrightarrow> consumer_asleep s \<Longrightarrow> posix_step s (s\<lparr>consumer_asleep := False\<rparr>)"
| take: "\<not> faulted s \<Longrightarrow> process s = Waiting \<Longrightarrow> m_started s \<Longrightarrow> \<not> consumer_asleep s \<Longrightarrow> may_wake w s \<Longrightarrow>
    posix_step s (px_process_take w s)"
| invoke_returned: "\<not> faulted s \<Longrightarrow> process s = Invoking m \<Longrightarrow> selfExit s \<longrightarrow> \<not> joining s \<Longrightarrow>
    posix_step s (px_process_done success s)"

inductive posix_reachable :: "'a posix_state \<Rightarrow> bool" where
  start: "posix_reachable (PosixThread maxQueueSize fullPolicy dispatchTimeout)"
| step: "posix_reachable s \<Longrightarrow> posix_step s s' \<Longrightarrow> posix_reachable s'"

section \<open>Refinement of \<open>WorkerThread\<close>\<close>

text \<open>The state without the condition variables.\<close>

definition thr :: "'a posix_state \<Rightarrow> 'a thread_state" where
  "thr s =
     \<lparr>m_thread = m_thread s, m_exit = m_exit s, queue = queue s, MAX_QUEUE_SIZE = MAX_QUEUE_SIZE s,
      FULL_POLICY = FULL_POLICY s, process = process s, selfExit = selfExit s, joining = joining s,
      entered = entered s, blocked = blocked s, accepted = accepted s, invoked = invoked s,
      cancelled = cancelled s, dropped = dropped s, faulted = faulted s\<rparr>"

lemma thr_sel [simp]:
  "m_thread (thr s) = m_thread s" "m_exit (thr s) = m_exit s" "queue (thr s) = queue s"
  "MAX_QUEUE_SIZE (thr s) = MAX_QUEUE_SIZE s" "FULL_POLICY (thr s) = FULL_POLICY s"
  "process (thr s) = process s" "selfExit (thr s) = selfExit s" "joining (thr s) = joining s"
  "entered (thr s) = entered s" "blocked (thr s) = blocked s" "accepted (thr s) = accepted s"
  "invoked (thr s) = invoked s" "cancelled (thr s) = cancelled s" "dropped (thr s) = dropped s"
  "faulted (thr s) = faulted s"
  by (simp_all add: thr_def)

text \<open>The condition variables are not seen.\<close>

lemma thr_hidden [simp]:
  "thr (signal_not_empty s) = thr s" "thr (broadcast_not_full s) = thr s" "thr (signal_not_full w s) = thr s"
  "thr (s\<lparr>creator := c\<rparr>) = thr s" "thr (s\<lparr>consumer_asleep := b\<rparr>) = thr s"
  "thr (s\<lparr>asleep := as, expired := es\<rparr>) = thr s" "thr (px_create_wait s) = thr s" "thr (px_started s) = thr s"
  by (simp_all add: thr_def signal_not_empty_def broadcast_not_full_def signal_not_full_def px_create_wait_def
      px_started_def split: option.split)

lemmas cv_defs = signal_not_empty_def broadcast_not_full_def signal_not_full_def

lemma thr_eqI:
  "m_thread s = m_thread t \<Longrightarrow> m_exit s = m_exit t \<Longrightarrow> queue s = queue t \<Longrightarrow> MAX_QUEUE_SIZE s = MAX_QUEUE_SIZE t
    \<Longrightarrow> FULL_POLICY s = FULL_POLICY t \<Longrightarrow> process s = process t \<Longrightarrow> selfExit s = selfExit t \<Longrightarrow> joining s = joining t
    \<Longrightarrow> entered s = entered t \<Longrightarrow> blocked s = blocked t \<Longrightarrow> accepted s = accepted t \<Longrightarrow> invoked s = invoked t
    \<Longrightarrow> cancelled s = cancelled t \<Longrightarrow> dropped s = dropped t \<Longrightarrow> faulted s = faulted t \<Longrightarrow> thr s = t"
  by (cases t) (simp add: thr_def)

text \<open>Operation by operation.\<close>

lemma thr_create: "thr (snd (px_CreateThread True s)) = CreateThread (thr s)"
  by (simp add: px_CreateThread_def CreateThread_def Let_def thr_def)

lemma thr_enter: "thr (snd (px_dispatch_enter m s)) = snd (dispatch_enter m (thr s))"
  by (simp add: px_dispatch_enter_def dispatch_enter_def thr_def)

lemma thr_push: "thr (snd (px_push m s)) = snd (dispatch_push m (thr s))"
  by (simp add: px_push_def dispatch_push_def thr_def signal_not_empty_def)

lemma thr_drop: "thr (snd (px_drop s)) = snd (drop_message (thr s))"
  by (simp add: px_drop_def drop_message_def px_GetQueueSize_def GetQueueSize_def thr_def)

lemma thr_conditions: "px_queue_full s = queue_full (thr s)" "px_has_space s = has_space (thr s)"
  by (simp_all add: px_queue_full_def queue_full_def px_has_space_def has_space_def px_GetQueueSize_def GetQueueSize_def)

lemma thr_exit:
  "thr (px_ExitThread_begin policy s) = ExitThread_begin policy (thr s)"
  "thr (px_ExitThread_self policy s) = ExitThread_self policy (thr s)"
  "thr (px_ExitThread_finish s) = ExitThread_finish (thr s)"
proof -
  show first: "thr (px_ExitThread_begin policy s) = ExitThread_begin policy (thr s)" for policy
    by (simp add: px_ExitThread_begin_def ExitThread_begin_def px_cancel_queue_def cancel_queue_def Let_def thr_def cv_defs)
  have self: "thr (s\<lparr>selfExit := True\<rparr>) = (thr s)\<lparr>selfExit := True\<rparr>" for s :: "'a posix_state"
    by (simp add: thr_def)
  show "thr (px_ExitThread_self policy s) = ExitThread_self policy (thr s)"
    by (simp add: px_ExitThread_self_def ExitThread_self_def self first)
  show "thr (px_ExitThread_finish s) = ExitThread_finish (thr s)"
    by (simp add: px_ExitThread_finish_def ExitThread_finish_def px_cancel_queue_def cancel_queue_def thr_def cv_defs)
qed

lemma thr_take: "thr (px_process_take w s) = process_take (thr s)"
proof (cases "pop_front (queue s)")
  case None
  then show ?thesis by (auto simp: px_process_take_def process_take_def intro: thr_eqI)
next
  case (Some r)
  then show ?thesis
    by (cases r; cases "fst r"; cases w)
      (auto simp: px_process_take_def process_take_def signal_not_full_def Let_def intro!: thr_eqI)
qed

lemma thr_done: "thr (px_process_done success s) = process_done success (thr s)"
  by (simp add: px_process_done_def process_done_def thr_def)

text \<open>A caller past its timeout gives up even if there is room: the one branch \<open>WorkerThread\<close> does not have. It keeps
  its invariant all the same.\<close>

definition gives_up :: "'a thread_state \<Rightarrow> 'a thread_state \<Rightarrow> bool" where
  "gives_up t t' \<longleftrightarrow> (\<exists>m \<in> set (blocked t). t' = snd (dispatch_timed_out m t))"

lemma inv_gives_up: "gives_up t t' \<Longrightarrow> thread_inv t \<Longrightarrow> thread_inv t'"
proof -
  assume "gives_up t t'" and inv: "thread_inv t"
  then obtain m where m: "m \<in> set (blocked t)" "t' = snd (dispatch_timed_out m t)" by (auto simp: gives_up_def)
  then have "m_thread t \<or> m_exit t" using inv by (auto simp: thread_inv_def control_inv_def)
  then have "thread_inv (t\<lparr>blocked := remove1 m (blocked t)\<rparr>)" using inv by (rule inv_unqueued(4) [rotated])
  from inv_unqueued(1) [OF this] show ?thesis by (simp add: m(2) dispatch_timed_out_def drop_message_def)
qed

lemma thr_locked:
  assumes "px_dispatch_locked ts m s = Some (r, s')"
  shows "thr s' = snd (dispatch_locked m (thr s))"
proof -
  let ?s = "s\<lparr>entered := remove1 m (entered s)\<rparr>"
  have e: "thr ?s = (thr s)\<lparr>entered := remove1 m (entered (thr s))\<rparr>" by (simp add: thr_def)
  have full: "px_queue_full ?s = queue_full ((thr s)\<lparr>entered := remove1 m (entered (thr s))\<rparr>)"
    by (simp add: thr_conditions e)
  have space: "queue_full (thr ?s) \<Longrightarrow> px_has_space ?s = m_exit s"
    by (auto simp: thr_conditions has_space_def queue_full_def)
  have sleep: "thr (?s\<lparr>blocked := m # blocked ?s, asleep := m # asleep ?s\<rparr>)
      = (thr ?s)\<lparr>blocked := m # blocked (thr ?s)\<rparr>"
    and fault: "thr (?s\<lparr>faulted := True\<rparr>) = (thr ?s)\<lparr>faulted := True\<rparr>"
    by (simp_all add: thr_def)
  show ?thesis
  proof (cases "px_queue_full ?s")
    case False
    then have s': "s' = snd (px_push m ?s)" using assms by (auto simp: px_dispatch_locked_def)
    show ?thesis using False unfolding s' thr_push e by (simp add: full dispatch_locked_def Let_def)
  next
    case True
    then have qf: "queue_full (thr ?s)" by (simp add: thr_conditions)
    note locked = dispatch_locked_def [of m "thr s", unfolded Let_def, folded e]
    show ?thesis
    proof (cases "FULL_POLICY s")
      case DROP
      then have "s' = snd (px_drop ?s)" using assms True by (simp add: px_dispatch_locked_def px_drop_def Let_def)
      then show ?thesis using DROP qf by (simp add: locked thr_drop)
    next
      case FAULT
      then have "s' = ?s\<lparr>faulted := True\<rparr>" using assms True by (simp add: px_dispatch_locked_def)
      then show ?thesis using FAULT qf by (simp only: fault locked) simp
    next
      case TIMEOUT
      show ?thesis
      proof (cases "m_exit s")
        case True
        then have "wait_not_full ts ?s = Some True" using space [OF qf] by (simp add: wait_not_full_eq)
        then have "s' = snd (px_push m ?s)"
          using assms TIMEOUT \<open>px_queue_full ?s\<close> by (auto simp: px_dispatch_locked_def)
        then show ?thesis using TIMEOUT qf True by (simp add: locked thr_push)
      next
        case False
        then have "wait_not_full ts ?s \<noteq> Some True"
          using space [OF qf] by (simp add: wait_not_full_eq)
        then have "s' = ?s\<lparr>blocked := m # blocked ?s, asleep := m # asleep ?s\<rparr>"
          using assms TIMEOUT \<open>px_queue_full ?s\<close> by (auto simp: px_dispatch_locked_def Let_def split: option.splits bool.splits)
        then show ?thesis using TIMEOUT qf False by (simp only: sleep locked) simp
      qed
    qed
  qed
qed

text \<open>A woken caller that finds room is \<open>WorkerThread\<close>'s; one that does not goes back to sleep.\<close>

lemma thr_woken:
  assumes "px_dispatch_woken ts m s = Some (r, s')" and "valid_timespec ts"
  shows "px_has_space s \<and> thr s' = snd (dispatch_woken m (thr s)) \<or> \<not> px_has_space s \<and> thr s' = thr s"
proof -
  let ?s = "s\<lparr>signalled := remove1 m (signalled s)\<rparr>"
  have space: "px_has_space ?s = px_has_space s" by (simp add: px_has_space_def px_GetQueueSize_def)
  have hidden: "thr (?s\<lparr>asleep := m # asleep ?s\<rparr>) = thr s"
    "thr (?s\<lparr>blocked := remove1 m (blocked ?s)\<rparr>) = (thr s)\<lparr>blocked := remove1 m (blocked (thr s))\<rparr>"
    by (simp_all add: thr_def)
  show ?thesis
  proof (cases "px_has_space s")
    case True
    then have "s' = snd (px_push m (?s\<lparr>blocked := remove1 m (blocked ?s)\<rparr>))"
      using assms by (auto simp: px_dispatch_woken_def wait_not_full_eq space Let_def)
    then show ?thesis using True by (simp only: thr_push hidden dispatch_woken_def) simp
  next
    case False
    then have "s' = ?s\<lparr>asleep := m # asleep ?s\<rparr>"
      using assms by (auto simp: px_dispatch_woken_def wait_not_full_eq space Let_def)
    then show ?thesis using False by (simp only: hidden) simp
  qed
qed

lemma thr_timed_out: "thr (snd (px_dispatch_timed_out m s)) = snd (dispatch_timed_out m (thr s))"
proof -
  have "thr (s\<lparr>blocked := remove1 m (blocked s), expired := remove1 m (expired s)\<rparr>)
      = (thr s)\<lparr>blocked := remove1 m (blocked (thr s))\<rparr>"
    by (simp add: thr_def)
  then show ?thesis by (simp only: px_dispatch_timed_out_def dispatch_timed_out_def thr_drop)
qed

section \<open>Invariants\<close>

text \<open>Who waits for room is in one of the three states.\<close>

definition waiters_ok :: "'a posix_state \<Rightarrow> bool" where
  "waiters_ok s \<longleftrightarrow> mset (blocked s) = mset (asleep s) + mset (signalled s) + mset (expired s)"

text \<open>No wake-up is lost: the worker sleeps only while there is nothing to do, and there is at least one woken caller
  for each free place of the queue, or nobody is asleep. The creator sleeps only until the thread has
  started.\<close>

definition wakeups_ok :: "'a posix_state \<Rightarrow> bool" where
  "wakeups_ok s \<longleftrightarrow>
     (consumer_asleep s \<longrightarrow> tq.waiting (queue s) = [] \<and> \<not> m_exit s)
     \<and> (asleep s \<noteq> [] \<longrightarrow> \<not> m_exit s \<and> MAX_QUEUE_SIZE s \<le> queue_size (queue s) + length (signalled s))
     \<and> (creator s = Create_asleep \<longrightarrow> \<not> m_started s)"

definition posix_inv :: "'a posix_state \<Rightarrow> bool" where
  "posix_inv s \<longleftrightarrow> thread_inv (thr s) \<and> waiters_ok s \<and> wakeups_ok s"

lemma waiters_blocked: "waiters_ok s \<Longrightarrow> m \<in> set (asleep s) \<union> set (signalled s) \<union> set (expired s) \<Longrightarrow> m \<in> set (blocked s)"
  unfolding waiters_ok_def by (metis Un_iff set_mset_mset set_mset_union)

text \<open>Every step is one of \<open>WorkerThread\<close>, or not seen there, or the branch above.\<close>

lemma step_refines:
  assumes "posix_step s s'" and "waiters_ok s"
  shows "thr s' = thr s \<or> thread_step (thr s) (thr s') \<or> gives_up (thr s) (thr s')"
  using assms
proof (induction rule: posix_step.induct)
  case (create s)
  then show ?case using thread_step.create [of "thr s"] by (simp add: thr_create)
next
  case (enter s m)
  then show ?case using thread_step.enter [of "thr s" m] by (simp add: thr_enter)
next
  case (locked s m now r s')
  then show ?case using thread_step.locked [of "thr s" m] by (simp add: thr_locked)
next
  case (woken s m ts r s')
  then show ?case
    using thr_woken [OF woken(4,3)] thread_step.woken [of "thr s" m] waiters_blocked [of s m] by (auto simp: thr_conditions)
next
  case (timed_out s m)
  then show ?case using waiters_blocked [of s m] by (auto simp: gives_up_def thr_timed_out)
next
  case (exit_begin s policy)
  then show ?case using thread_step.exit_begin [of "thr s" policy] by (simp add: thr_exit)
next
  case (exit_self s m policy)
  then show ?case using thread_step.exit_self [of "thr s" m policy] by (simp add: thr_exit)
next
  case (exit_finish s)
  then show ?case using thread_step.exit_finish [of "thr s"] by (simp add: thr_exit)
next
  case (take s w)
  then show ?case using thread_step.take [of "thr s"] by (simp add: thr_take)
next
  case (invoke_returned s m success)
  then show ?case using thread_step.invoke_returned [of "thr s" m success] by (simp add: thr_done)
qed simp_all

lemma step_thread_inv:
  "posix_step s s' \<Longrightarrow> waiters_ok s \<Longrightarrow> thread_inv (thr s) \<Longrightarrow> thread_inv (thr s')"
  using step_refines [of s s'] inv_step inv_gives_up by metis

lemma remove_one_of_three:
  assumes "mset bs = mset xs + mset ys + mset zs"
  shows "m \<in> set ys \<Longrightarrow> mset bs - {#m#} = mset xs + mset (remove1 m ys) + mset zs"
    and "m \<in> set zs \<Longrightarrow> mset bs - {#m#} = mset xs + mset ys + mset (remove1 m zs)"
  using assms by simp_all

lemma signal_waiters: "may_wake w s \<Longrightarrow> waiters_ok s \<Longrightarrow> waiters_ok (signal_not_full w s)"
  by (auto simp: may_wake_def waiters_ok_def signal_not_full_def split: option.splits)

lemma push_frame [simp]:
  "blocked (snd (px_push m s)) = blocked s" "asleep (snd (px_push m s)) = asleep s"
  "signalled (snd (px_push m s)) = signalled s" "expired (snd (px_push m s)) = expired s"
  "m_exit (snd (px_push m s)) = m_exit s" "MAX_QUEUE_SIZE (snd (px_push m s)) = MAX_QUEUE_SIZE s"
  "creator (snd (px_push m s)) = creator s" "m_started (snd (px_push m s)) = m_started s"
  by (simp_all add: px_push_def signal_not_empty_def)

lemma locked_cases:
  assumes "px_dispatch_locked ts m s = Some (r, s')"
  defines "s1 \<equiv> s\<lparr>entered := remove1 m (entered s)\<rparr>"
  obtains "s' = snd (px_push m s1)" | "s' = snd (px_drop s1)" | "s' = s1\<lparr>faulted := True\<rparr>"
    | "\<not> px_has_space s" "s' = s1\<lparr>blocked := m # blocked s, asleep := m # asleep s\<rparr>"
proof -
  have space: "px_has_space s1 = px_has_space s" by (simp add: s1_def px_has_space_def px_GetQueueSize_def)
  have "s' \<in> {snd (px_push m s1), snd (px_drop s1), s1\<lparr>faulted := True\<rparr>}
      \<or> \<not> px_has_space s \<and> s' = s1\<lparr>blocked := m # blocked s, asleep := m # asleep s\<rparr>"
    using assms(1) unfolding px_dispatch_locked_def Let_def s1_def [symmetric] wait_not_full_eq space
    by (cases "px_has_space s") (auto simp: s1_def split: if_splits FullPolicy.splits)
  then show thesis using that by blast
qed

lemma woken_cases:
  assumes "px_dispatch_woken ts m s = Some (r, s')"
  defines "s1 \<equiv> s\<lparr>signalled := remove1 m (signalled s)\<rparr>"
  obtains "px_has_space s" "s' = snd (px_push m (s1\<lparr>blocked := remove1 m (blocked s)\<rparr>))"
    | "\<not> px_has_space s" "s' = s1\<lparr>asleep := m # asleep s\<rparr>"
proof -
  have space: "px_has_space s1 = px_has_space s" by (simp add: s1_def px_has_space_def px_GetQueueSize_def)
  show thesis
    using assms(1) that unfolding px_dispatch_woken_def Let_def s1_def [symmetric] wait_not_full_eq space
    by (cases "px_has_space s") (auto simp: s1_def split: if_splits)
qed

lemma step_waiters: "posix_step s s' \<Longrightarrow> waiters_ok s \<Longrightarrow> waiters_ok s'"
proof (induction rule: posix_step.induct)
  case (locked s m now r s')
  from locked(4) show ?case
    by (rule locked_cases) (use locked.prems in \<open>simp_all add: waiters_ok_def px_drop_def\<close>)
next
  case (wake s m)
  then show ?case by (intro signal_waiters) (simp_all add: may_wake_def)
next
  case (woken s m ts r s')
  from woken(4) show ?case
    by (rule woken_cases) (use woken(2,5) remove_one_of_three(1) in \<open>auto simp: waiters_ok_def\<close>)
next
  case (timed_out s m)
  then show ?case using remove_one_of_three(2) [of "blocked s" "asleep s" "signalled s" "expired s" m]
    by (simp add: waiters_ok_def px_dispatch_timed_out_def px_drop_def)
next
  case (take s w)
  then have "waiters_ok (signal_not_full w (s\<lparr>queue := q\<rparr>))" for q
    by (intro signal_waiters) (auto simp: may_wake_def waiters_ok_def split: option.splits)
  with take show ?case
    by (auto simp: px_process_take_def waiters_ok_def Let_def split: option.splits ThreadMsg.splits prod.splits)
qed (auto simp: waiters_ok_def px_CreateThread_def px_create_wait_def px_started_def px_dispatch_enter_def
    px_ExitThread_begin_def px_ExitThread_self_def px_ExitThread_finish_def px_cancel_queue_def px_process_done_def
    broadcast_not_full_def signal_not_empty_def Let_def)

lemma push_wakeups: "wakeups_ok s \<Longrightarrow> wakeups_ok (snd (px_push m s))"
  by (auto simp: wakeups_ok_def px_push_def signal_not_empty_def push_facts(3))

text \<open>A woken caller uses up its wake-up, but then also a place.\<close>

lemma woken_push_wakeups:
  assumes "wakeups_ok s" and "m \<in> set (signalled s)"
  shows "wakeups_ok (snd (px_push m (s\<lparr>signalled := remove1 m (signalled s), blocked := bs\<rparr>)))"
proof -
  have "0 < length (signalled s)" using assms(2) by (cases "signalled s") auto
  then show ?thesis
    using assms by (auto simp: wakeups_ok_def px_push_def signal_not_empty_def push_facts(3) length_remove1)
qed

lemma take_wakeups:
  assumes "wakeups_ok s" and "may_wake w s" and "\<not> consumer_asleep s"
  shows "wakeups_ok (px_process_take w s)"
proof (cases "pop_front (queue s)")
  case None
  then have "tq.waiting (queue s) = []" using tq.deq_none [of "queue s"] by (simp add: waiting_eq lane_of_def)
  with None assms show ?thesis by (auto simp: px_process_take_def wakeups_ok_def)
next
  case (Some r)
  then obtain x q where r: "pop_front (queue s) = Some (x, q)" by (cases r) simp
  then have size: "queue_size (queue s) = Suc (queue_size q)"
    using tq.deq_some [of "queue s" x q] by (simp add: size_waiting)
  show ?thesis
    using assms r size
    by (cases x; cases w) (auto simp: px_process_take_def wakeups_ok_def signal_not_full_def may_wake_def Let_def)
qed

lemma full_size: "\<not> px_has_space s \<Longrightarrow> \<not> m_exit s \<and> MAX_QUEUE_SIZE s \<le> queue_size (queue s)"
  by (simp add: px_has_space_def px_GetQueueSize_def)

lemma step_wakeups: "posix_step s s' \<Longrightarrow> wakeups_ok s \<Longrightarrow> wakeups_ok s'"
proof (induction rule: posix_step.induct)
  case (locked s m now r s')
  have "wakeups_ok (s\<lparr>entered := es\<rparr>)" for es using locked.prems by (simp add: wakeups_ok_def)
  note p = push_wakeups [OF this]
  note full = full_size [of s]
  from locked(4) show ?case
    by (rule locked_cases) (use p locked.prems full in \<open>simp_all add: wakeups_ok_def px_drop_def\<close>)
next
  case (woken s m ts r s')
  note full = full_size [of s] and push = woken_push_wakeups [OF woken(5,2), of "remove1 m (blocked s)"]
  from woken(4) show ?case
    by (rule woken_cases) (use push full woken.prems in \<open>auto simp: wakeups_ok_def\<close>)
next
  case (take s w)
  then show ?case by (intro take_wakeups)
next
  case (wake s m)
  then show ?case by (auto simp: wakeups_ok_def signal_not_full_def)
next
  case (expire s m)
  then show ?case by (auto simp: wakeups_ok_def)
qed (auto simp: wakeups_ok_def px_CreateThread_def px_create_wait_def px_started_def px_dispatch_enter_def
    px_dispatch_timed_out_def px_drop_def px_ExitThread_begin_def px_ExitThread_self_def px_ExitThread_finish_def
    px_cancel_queue_def px_process_done_def broadcast_not_full_def signal_not_empty_def Let_def)

lemma posix_start: "posix_inv (PosixThread n policy timeout :: 'a posix_state)"
proof -
  have "thr (PosixThread n policy timeout :: 'a posix_state) = StdlibThread n policy"
    by (simp add: PosixThread_def StdlibThread_def thr_def)
  then have "thread_inv (thr (PosixThread n policy timeout :: 'a posix_state))" by (simp only: inv_start)
  moreover have "waiters_ok (PosixThread n policy timeout :: 'a posix_state)"
    "wakeups_ok (PosixThread n policy timeout :: 'a posix_state)"
    by (simp_all add: PosixThread_def waiters_ok_def wakeups_ok_def)
  ultimately show ?thesis unfolding posix_inv_def by blast
qed

lemma posix_reachable_inv: "posix_reachable s \<Longrightarrow> posix_inv s"
proof (induction rule: posix_reachable.induct)
  case (step s s')
  then show ?case
    using step_thread_inv [of s s'] step_waiters [of s s'] step_wakeups [of s s'] by (simp add: posix_inv_def)
qed (rule posix_start)

section \<open>A run in detail\<close>

text \<open>A thread with room for one message: message 1 is queued, the caller of message 2 falls asleep and is past
  its timeout when the worker takes message 1.\<close>

definition px_clock :: timespec where "px_clock = \<lparr>tv_sec = 5, tv_nsec = 0\<rparr>"
definition px_msg :: "nat \<Rightarrow> nat DelegateMsg" where "px_msg n = DelegateMsg n NORMAL"

definition px_run0 :: "nat posix_state" where
  "px_run0 = px_started (snd (px_CreateThread True (PosixThread 1 TIMEOUT 7)))"
definition px_run1 :: "nat posix_state" where
  "px_run1 = snd (the (px_dispatch_locked (MakeAbsTimeout px_clock 7) (px_msg 1) (snd (px_dispatch_enter (px_msg 1) px_run0))))"
definition px_run2 :: "nat posix_state" where
  "px_run2 = snd (the (px_dispatch_locked (MakeAbsTimeout px_clock 7) (px_msg 2) (snd (px_dispatch_enter (px_msg 2) px_run1))))"
definition px_run3 :: "nat posix_state" where
  "px_run3 = px_run2\<lparr>asleep := remove1 (px_msg 2) (asleep px_run2), expired := px_msg 2 # expired px_run2\<rparr>"
definition px_run4 :: "nat posix_state" where
  "px_run4 = px_process_take None px_run3"

lemma px_valid: "valid_timespec px_clock" "valid_timespec (MakeAbsTimeout px_clock 7)"
  using MakeAbsTimeout_valid [of px_clock 7] by (simp_all add: px_clock_def valid_timespec_def)

lemma px_runs:
  "px_run0 = (PosixThread 1 TIMEOUT 7)\<lparr>m_thread := True, process := Waiting, creator := Create_checks, m_started := True\<rparr>"
  "px_run1 = px_run0\<lparr>queue := push_back (MSG_DISPATCH_DELEGATE (px_msg 1)) no_messages, accepted := [px_msg 1]\<rparr>"
  "px_run2 = px_run1\<lparr>blocked := [px_msg 2], asleep := [px_msg 2]\<rparr>"
  "px_run3 = px_run1\<lparr>blocked := [px_msg 2], expired := [px_msg 2]\<rparr>"
  "px_run4 = px_run3\<lparr>queue := no_messages, process := Invoking (px_msg 1), invoked := [px_msg 1]\<rparr>"
proof -
  note ops = px_dispatch_enter_def px_dispatch_locked_def px_queue_full_def px_GetQueueSize_def px_push_def
    signal_not_empty_def no_messages_def push_back_def queue_size_def PosixThread_def px_msg_def
  show r0: "px_run0 = (PosixThread 1 TIMEOUT 7)\<lparr>m_thread := True, process := Waiting, creator := Create_checks, m_started := True\<rparr>"
    by (simp add: px_run0_def px_CreateThread_def px_started_def PosixThread_def)
  show r1: "px_run1 = px_run0\<lparr>queue := push_back (MSG_DISPATCH_DELEGATE (px_msg 1)) no_messages, accepted := [px_msg 1]\<rparr>"
    by (simp add: px_run1_def r0 ops)
  have "wait_not_full (MakeAbsTimeout px_clock 7) px_run1 = Some False"
    by (simp add: wait_not_full_eq px_valid px_has_space_def r1 r0 ops)
  moreover have "px_run1\<lparr>entered := []\<rparr> = px_run1" by (simp add: r1 r0 ops)
  ultimately show r2: "px_run2 = px_run1\<lparr>blocked := [px_msg 2], asleep := [px_msg 2]\<rparr>"
    by (simp add: px_run2_def r1 r0 ops)
  show r3: "px_run3 = px_run1\<lparr>blocked := [px_msg 2], expired := [px_msg 2]\<rparr>"
    by (simp add: px_run3_def r2 r1 r0 ops)
  show "px_run4 = px_run3\<lparr>queue := no_messages, process := Invoking (px_msg 1), invoked := [px_msg 1]\<rparr>"
    by (simp add: px_run4_def px_process_take_def r3 r1 r0 ops pop_front_def signal_not_full_def)
qed

lemmas px_state_defs = px_runs PosixThread_def no_messages_def push_back_def px_msg_def

lemma px_taken: "posix_step px_run3 px_run4"
  unfolding px_run4_def by (rule posix_step.take) (simp_all add: px_state_defs may_wake_def)

lemma px_reachable: "posix_reachable px_run0" "posix_reachable px_run1" "posix_reachable px_run3" "posix_reachable px_run4"
proof -
  let ?new = "PosixThread 1 TIMEOUT 7 :: nat posix_state"
  have "posix_reachable (snd (px_CreateThread True ?new))"
    by (rule posix_reachable.step [OF posix_reachable.start posix_step.create]) (simp_all add: PosixThread_def)
  then show r0: "posix_reachable px_run0"
    unfolding px_run0_def
    by (rule posix_reachable.step [OF _ posix_step.started]) (simp_all add: px_CreateThread_def PosixThread_def)
  have dispatched: "posix_reachable s'"
    if "posix_reachable s" "\<not> faulted s" "\<not> m_exit s" "m_thread s" "m_dispatchTimeout s = 7"
      "px_dispatch_locked (MakeAbsTimeout px_clock 7) (px_msg n) (snd (px_dispatch_enter (px_msg n) s)) = Some (r, s')"
    for s s' n r
  proof -
    let ?s = "snd (px_dispatch_enter (px_msg n) s)"
    have s: "posix_reachable ?s" by (rule posix_reachable.step [OF that(1) posix_step.enter [OF that(2)]])
    have "posix_step ?s s'"
      by (rule posix_step.locked [where now = px_clock, OF _ _ px_valid(1), of ?s "px_msg n" r])
        (use that in \<open>simp_all add: px_dispatch_enter_def\<close>)
    with s show ?thesis by (rule posix_reachable.step)
  qed
  note ops = px_state_defs px_dispatch_locked_def px_dispatch_enter_def px_queue_full_def px_GetQueueSize_def
    queue_size_def wait_not_full_eq px_valid px_has_space_def px_push_def signal_not_empty_def
  have "px_dispatch_locked (MakeAbsTimeout px_clock 7) (px_msg 1) (snd (px_dispatch_enter (px_msg 1) px_run0)) = Some (Accepted, px_run1)"
    by (simp add: ops)
  from dispatched [OF r0 _ _ _ _ this] show r1: "posix_reachable px_run1" by (simp add: px_state_defs)
  have "px_dispatch_locked (MakeAbsTimeout px_clock 7) (px_msg 2) (snd (px_dispatch_enter (px_msg 2) px_run1)) = Some (Pending, px_run2)"
    by (simp add: ops)
  from dispatched [OF r1 _ _ _ _ this] have r2: "posix_reachable px_run2" by (simp add: px_state_defs)
  show r3: "posix_reachable px_run3" unfolding px_run3_def
    by (rule posix_reachable.step [OF r2 posix_step.expire]) (simp_all add: px_state_defs)
  show "posix_reachable px_run4"
    by (rule posix_reachable.step [OF r3 px_taken])
qed

section \<open>Beyond the contract\<close>

text \<open>The caller past its timeout gives its message up, and tells the dropped handler a depth below the limit:
  there is room, and \<^verbatim>\<open>std::condition_variable::wait_for\<close> of the C++ port would have returned true.\<close>

lemma timeout_drops_with_room:
  "posix_reachable px_run4 \<and> px_has_space px_run4 \<and> px_msg 2 \<in> set (expired px_run4)
   \<and> fst (px_dispatch_timed_out (px_msg 2) px_run4) = Refused
   \<and> dropped (snd (px_dispatch_timed_out (px_msg 2) px_run4)) = [0]"
  using px_reachable(4)
  by (simp add: px_state_defs px_has_space_def px_GetQueueSize_def queue_size_def px_dispatch_timed_out_def px_drop_def)

text \<open>With a negative timeout the deadline may be invalid; the caller then never leaves the loop, nor gives up the mutex.
  The C++ port returns false at once.\<close>

lemma negative_timeout_hangs:
  assumes "tv_nsec now + timeout smod 1000000000 < 0" and "px_queue_full s" and "FULL_POLICY s = TIMEOUT" and "\<not> m_exit s"
  shows "px_dispatch_locked (MakeAbsTimeout now timeout) m s = None"
proof -
  have "\<not> valid_timespec (MakeAbsTimeout now timeout)"
    using assms(1) by (simp add: MakeAbsTimeout_def valid_timespec_def Let_def)
  with assms(2-4) show ?thesis
    by (simp add: px_dispatch_locked_def wait_not_full_eq px_queue_full_def px_has_space_def px_GetQueueSize_def Let_def)
qed

lemma negative_timeout_example: "px_dispatch_locked (MakeAbsTimeout px_clock (- 1)) (px_msg 2) px_run1 = None"
  by (rule negative_timeout_hangs)
    (simp_all add: px_clock_def smod_int_alt_def px_state_defs px_queue_full_def px_GetQueueSize_def queue_size_def)

text \<open>\<^verbatim>\<open>CreateThread\<close> takes back the exit flag before it knows whether there will be a thread. If \<^verbatim>\<open>pthread_create\<close> fails, a
  caller that had passed the early check of \<^verbatim>\<open>DispatchDelegate\<close> before the exit is told that its
  message was accepted, by an object without a thread.\<close>

lemma failed_creation_accepts:
  assumes "\<not> m_thread s" and "MAX_QUEUE_SIZE s > px_GetQueueSize s"
  shows "fst (px_CreateThread False s) = False
    \<and> map_option fst (px_dispatch_locked ts m (snd (px_CreateThread False s))) = Some Accepted
    \<and> \<not> m_thread (snd (px_CreateThread False s))"
  using assms by (simp add: px_CreateThread_def px_dispatch_locked_def px_queue_full_def px_GetQueueSize_def px_push_def Let_def)

section \<open>Properties\<close>

text \<open>
  C12: the POSIX thread refines the one of the C++ library: every step under its mutex is one of that thread, or
  is not seen there, but for the callers that give up although there is room; so every accepted message
  is at each moment exactly one of invoked, cancelled or still queued, messages of one priority are
  invoked in the order they were accepted, and the queue keeps its limit.
\<close>

theorem posix_refines_stdlib:
  assumes "posix_reachable s" and "posix_step s s'"
  shows "(thr s' = thr s \<or> thread_step (thr s) (thr s') \<or> gives_up (thr s) (thr s'))
    \<and> mset (accepted s') = mset (invoked s') + mset (cancelled s') + mset (queued (thr s'))
    \<and> subseq (of_priority p (invoked s' @ queued (thr s'))) (of_priority p (accepted s'))
    \<and> length (queued (thr s')) \<le> MAX_QUEUE_SIZE s'"
proof -
  have "waiters_ok s" using posix_reachable_inv [OF assms(1)] by (simp add: posix_inv_def)
  moreover have "thread_inv (thr s')"
    using posix_reachable_inv [OF posix_reachable.step [OF assms]] by (simp add: posix_inv_def)
  ultimately show ?thesis
    using step_refines [OF assms(2)] by (simp add: thread_inv_def history_inv_def size_inv_def)
qed

lemma posix_refines_stdlib_witness:
  "(thr px_run4 = thr px_run3 \<or> thread_step (thr px_run3) (thr px_run4) \<or> gives_up (thr px_run3) (thr px_run4))
    \<and> mset (accepted px_run4) = mset (invoked px_run4) + mset (cancelled px_run4) + mset (queued (thr px_run4))
    \<and> subseq (of_priority NORMAL (invoked px_run4 @ queued (thr px_run4))) (of_priority NORMAL (accepted px_run4))
    \<and> length (queued (thr px_run4)) \<le> MAX_QUEUE_SIZE px_run4"
  by (rule posix_refines_stdlib [OF px_reachable(3) px_taken])

text \<open>
  C13: no wake-up of the POSIX thread is lost. While a message or the exit request waits, the worker is
  awake and its next step is to take it; when there is room in the queue, callers are asleep only
  if at least as many others have been woken as there are free places, and none once the
  thread exits; the creator is not asleep once the thread has started.
\<close>

theorem posix_no_lost_wakeup:
  assumes "posix_reachable s" and "\<not> faulted s"
  shows "(tq.waiting (queue s) \<noteq> [] \<or> m_exit s \<longrightarrow> \<not> consumer_asleep s)
    \<and> (process s = Waiting \<and> m_started s \<and> (tq.waiting (queue s) \<noteq> [] \<or> m_exit s) \<longrightarrow>
        (\<exists>w. posix_step s (px_process_take w s) \<and> process_take (thr s) = thr (px_process_take w s)))
    \<and> (asleep s \<noteq> [] \<longrightarrow> \<not> m_exit s \<and> MAX_QUEUE_SIZE s - px_GetQueueSize s \<le> length (signalled s))
    \<and> (creator s = Create_asleep \<longrightarrow> \<not> m_started s)"
proof -
  have w: "wakeups_ok s" using posix_reachable_inv [OF assms(1)] by (simp add: posix_inv_def)
  have "\<exists>w. may_wake w s"
    by (cases "asleep s") (auto simp: may_wake_def intro: exI [of _ None] exI [of _ "Some _"])
  then show ?thesis
    using w posix_step.take [OF assms(2)] by (auto simp: wakeups_ok_def px_GetQueueSize_def thr_take)
qed

lemma posix_no_lost_wakeup_witness:
  "\<not> consumer_asleep px_run3 \<and> (\<exists>w. posix_step px_run3 (px_process_take w px_run3)) \<and> creator px_run3 \<noteq> Create_asleep"
  using posix_no_lost_wakeup [OF px_reachable(3)]
  by (auto simp: px_state_defs waiting_eq)

end
