(* ===== verification/DeadlineWatch.thy ===== *)
theory DeadlineWatch
  imports BusLaws Timers
begin

text \<open>
  \<^verbatim>\<open>extras/databus/DeadlineSubscription.h\<close>: a subscription of the data bus together with a timer
  that every delivery starts again, and whose expiry reports that the topic has been silent. The state
  has the bus and its threads (\<open>DataBus\<close>), the table of software timers (\<open>Timers\<close>) and the members of
  the object. A delivery to its subscriber is a call of \<^verbatim>\<open>OnDataReceived\<close>, on the publisher's
  thread or on the thread of the subscription; an expiry found by \<^verbatim>\<open>ProcessTimers\<close> is a call of
  \<^verbatim>\<open>OnTimerExpired\<close> at once, or a message to that thread through the gate of
  \<^verbatim>\<open>MakeTimerDelegate\<close>. The bound \<open>N\<close> is the fuel of the walks over the timers, whose numbers are
  below it.
\<close>

section \<open>The object\<close>

record 'v watch =
  watch_world :: "'v world"
  watch_timers :: timers
  m_deadline :: duration
  m_timer :: timer_id
  m_conn :: "nat option"
  watch_thread :: "nat option"
  m_timerConn :: TimerDelegate
  handled :: "(time_point \<times> 'v) list"
  missed :: "time_point list"

text \<open>The constructor: \<open>None\<close> if \<^verbatim>\<open>Timer::Start\<close> throws. The topic may have another type, then
  there is no connection.\<close>

definition DeadlineSubscription ::
  "nat \<Rightarrow> time_point \<Rightarrow> string \<Rightarrow> nat \<Rightarrow> duration \<Rightarrow> nat option \<Rightarrow> timer_id \<Rightarrow> timers \<Rightarrow> 'v world \<Rightarrow> 'v watch option" where
  "DeadlineSubscription N now topic ty deadline thread t ts w =
     (case Start N now deadline False t (Timer t ts) of
        None \<Rightarrow> None
      | Some ts1 \<Rightarrow>
          (let (conn, w1) = InternalSubscribe now topic ty None thread QoS w in
           Some \<lparr>watch_world = w1, watch_timers = ts1, m_deadline = deadline, m_timer = t, m_conn = conn,
                 watch_thread = thread, m_timerConn = TimerDelegate False 0, handled = [], missed = []\<rparr>))"

definition OnDataReceived :: "nat \<Rightarrow> time_point \<Rightarrow> 'v \<Rightarrow> 'v watch \<Rightarrow> 'v watch" where
  "OnDataReceived N now data s =
     (case Start N now (m_deadline s) False (m_timer s) (watch_timers s) of
        None \<Rightarrow> s
      | Some ts \<Rightarrow> s\<lparr>watch_timers := ts, handled := handled s @ [(now, data)]\<rparr>)"

definition OnTimerExpired :: "time_point \<Rightarrow> 'v watch \<Rightarrow> 'v watch" where
  "OnTimerExpired now s = s\<lparr>missed := missed s @ [now]\<rparr>"

text \<open>The signal \<^verbatim>\<open>OnExpired\<close> of the timer; \<open>taken\<close> tells whether the thread takes the message.\<close>

definition OnExpired :: "time_point \<Rightarrow> bool \<Rightarrow> 'v watch \<Rightarrow> 'v watch" where
  "OnExpired now taken s =
     (case watch_thread s of
        None \<Rightarrow> OnTimerExpired now s
      | Some _ \<Rightarrow> s\<lparr>m_timerConn := tick now taken (m_timerConn s)\<rparr>)"

text \<open>The destructor: the connection to the bus goes first, the timer last.\<close>

definition watch_destroy :: "nat \<Rightarrow> 'v watch \<Rightarrow> timers \<times> 'v world" where
  "watch_destroy N s =
     (timer_destroy N (m_timer s) (watch_timers s),
      case m_conn s of None \<Rightarrow> watch_world s | Some n \<Rightarrow> disconnect n (watch_world s))"

section \<open>Runs\<close>

datatype 'v watch_op =
    Bus_op "'v bus_op"                        \<comment> \<open>anything on the bus, also a turn of a thread\<close>
  | Process_op bool                           \<comment> \<open>\<^verbatim>\<open>ProcessTimers\<close>\<close>
  | Expiry_op                                 \<comment> \<open>the thread takes a message of the expired timer\<close>
  | Other_start_op timer_id duration bool           \<comment> \<open>other timers\<close>
  | Other_stop_op timer_id

definition new_deliveries :: "nat option \<Rightarrow> 'v world \<Rightarrow> 'v world \<Rightarrow> (time_point \<times> 'v) list" where
  "new_deliveries conn w w' =
     (case conn of None \<Rightarrow> [] | Some n \<Rightarrow> drop (length (delivered n w)) (delivered n w'))"

fun watch_step :: "nat environment \<Rightarrow> nat \<Rightarrow> time_point \<times> 'v watch_op \<Rightarrow> 'v watch \<Rightarrow> 'v watch option" where
  "watch_step env N (now, Bus_op op) s =
     (let w' = bus_step env (now, op) (watch_world s)
      in Some (fold (\<lambda>(t, v). OnDataReceived N t v) (new_deliveries (m_conn s) (watch_world s) w')
           (s\<lparr>watch_world := w'\<rparr>)))"
| "watch_step env N (now, Process_op taken) s =
     (case ProcessTimers N now (watch_timers s) of
        None \<Rightarrow> None
      | Some (fired, ts) \<Rightarrow>
          Some (fold (\<lambda>u s. if u = m_timer s then OnExpired now taken s else s) fired (s\<lparr>watch_timers := ts\<rparr>)))"
| "watch_step env N (now, Expiry_op) s =
     Some (if 0 < on_thread (m_timerConn s)
           then OnTimerExpired now (s\<lparr>m_timerConn := message_gone (m_timerConn s)\<rparr>) else s)"
| "watch_step env N (now, Other_start_op u timeout once) s =
     Some (case Start N now timeout once u (watch_timers s) of None \<Rightarrow> s | Some ts \<Rightarrow> s\<lparr>watch_timers := ts\<rparr>)"
| "watch_step env N (now, Other_stop_op u) s = Some (s\<lparr>watch_timers := Stop u (watch_timers s)\<rparr>)"

fun watch_run :: "nat environment \<Rightarrow> nat \<Rightarrow> (time_point \<times> 'v watch_op) list \<Rightarrow> 'v watch \<Rightarrow> 'v watch option" where
  "watch_run env N [] s = Some s"
| "watch_run env N (x # xs) s = Option.bind (watch_step env N x s) (watch_run env N xs)"

text \<open>What is published on a topic, with the times.\<close>

definition published_at :: "string \<Rightarrow> nat \<Rightarrow> time_point \<times> 'v watch_op \<Rightarrow> (time_point \<times> 'v) list" where
  "published_at topic ty x =
     (case x of (now, Bus_op op) \<Rightarrow> map (Pair now) (published_on topic ty op) | _ \<Rightarrow> [])"

text \<open>Operations that leave the object alone: it is not disconnected, its timer is its own.\<close>

definition leaves_watch :: "nat \<Rightarrow> nat option \<Rightarrow> timer_id \<Rightarrow> 'v watch_op \<Rightarrow> bool" where
  "leaves_watch N conn t op =
     (case op of Bus_op b \<Rightarrow> (case conn of None \<Rightarrow> True | Some n \<Rightarrow> keeps_connected n b)
      | Other_start_op u _ _ \<Rightarrow> u \<noteq> t \<and> u < N | Other_stop_op u \<Rightarrow> u \<noteq> t | _ \<Rightarrow> True)"

section \<open>The timer\<close>

definition armed :: "nat \<Rightarrow> duration \<Rightarrow> timer_id \<Rightarrow> timers \<Rightarrow> bool" where
  "armed N d t s \<longleftrightarrow> (\<exists>us. timers_ok us s \<and> set us \<subseteq> {..<N} \<and> t \<in> set us)
     \<and> m_enabled s t \<and> \<not> m_once s t \<and> m_timeout s t = d"

lemma listed_length: "timers_ok us s \<Longrightarrow> set us \<subseteq> {..<N} \<Longrightarrow> length us \<le> N"
  using card_mono [of "{..<N}" "set us"] by (simp add: timers_ok_def linked_def distinct_card)

lemma Start_listed:
  assumes "timers_ok us s" and "set us \<subseteq> {..<N}" and "u < N" and "Start N now d once u s = Some s'"
  shows "\<exists>vs. timers_ok vs s' \<and> set vs = insert u (set us) \<and> set vs \<subseteq> {..<N}"
proof -
  have len: "length us \<le> N" using assms(1,2) by (rule listed_length)
  have "linked (timer_links s') (if u \<in> set us then us else u # us)"
    using assms(1,4) linked_front [OF _ len, of "timer_links s" u]
    by (auto simp: Start_def timers_ok_def Let_def timer_links_def set_timer_links_def split: if_splits)
  moreover have "\<forall>v \<in> insert u (set us). m_enabled s' v \<longrightarrow> 0 < m_timeout s' v"
    using assms(1,4) by (auto simp: Start_def timers_ok_def Let_def set_timer_links_def split: if_splits)
  ultimately show ?thesis
    using assms(2,3) by (intro exI [of _ "if u \<in> set us then us else u # us"]) (auto simp: timers_ok_def)
qed

lemma Start_self:
  assumes "timers_ok us s" and "set us \<subseteq> {..<N}" and "t < N" and "0 < d"
  shows "\<exists>s'. Start N now d False t s = Some s' \<and> armed N d t s' \<and> m_expireTime s' t = now + d"
proof -
  obtain s' where s': "Start N now d False t s = Some s'" using assms(4) by (simp add: Start_def Let_def)
  from Start_listed [OF assms(1-3) s'] s' show ?thesis
    by (force simp: armed_def Start_def Let_def set_timer_links_def split: if_splits)
qed

lemma Start_other:
  assumes "armed N d t s" and "u \<noteq> t" and "u < N" and "Start N now d' once u s = Some s'"
  shows "armed N d t s' \<and> m_expireTime s' t = m_expireTime s t"
proof -
  obtain us where us: "timers_ok us s" "set us \<subseteq> {..<N}" "t \<in> set us" using assms(1) by (auto simp: armed_def)
  from Start_listed [OF us(1,2) assms(3,4)] us(3) have "\<exists>vs. timers_ok vs s' \<and> set vs \<subseteq> {..<N} \<and> t \<in> set vs" by blast
  with assms show ?thesis by (auto simp: armed_def Start_def Let_def set_timer_links_def split: if_splits)
qed

lemma Stop_other:
  assumes "armed N d t s" and "u \<noteq> t"
  shows "armed N d t (Stop u s) \<and> m_expireTime (Stop u s) t = m_expireTime s t"
  using assms by (fastforce simp: armed_def Stop_def timers_ok_def timer_links_def)

text \<open>A periodic timer stays enabled, and its due time moves only when it expires, and only ahead.\<close>

lemma check_timers_periodic:
  assumes "check_timers now room ts s = (fired, s')" and "\<not> m_once s t" and "0 < m_timeout s t"
  shows "m_enabled s' t = m_enabled s t \<and> m_expireTime s t \<le> m_expireTime s' t"
  using assms
proof (induction now room ts s arbitrary: fired s' rule: check_timers.induct)
  case (3 now room u ts s)
  obtain b s1 where c: "CheckExpired now u s = (b, s1)" by fastforce
  have s1: "\<not> m_once s1 t" "0 < m_timeout s1 t" "m_enabled s1 t = m_enabled s t" "m_expireTime s t \<le> m_expireTime s1 t"
    using c 3(4,5) by (auto simp: CheckExpired_def Let_def split: if_splits)
  show ?case
  proof (cases b)
    case True
    then obtain fs where "check_timers now room ts s1 = (fs, s')" using 3(3) c by (auto split: prod.splits)
    from 3(1) [OF c [symmetric] refl True this s1(1,2)] s1(3,4) show ?thesis by simp
  next
    case False
    then have "check_timers now (Suc room) ts s1 = (fired, s')" using 3(3) c by simp
    from 3(2) [OF c [symmetric] refl False this s1(1,2)] s1(3,4) show ?thesis by simp
  qed
qed simp_all

lemma timer_pass_armed:
  assumes "armed N d t s" and "timer_pass N now s = (fired, s')"
  shows "armed N d t s' \<and> m_expireTime s t \<le> m_expireTime s' t
    \<and> (t \<notin> set fired \<longrightarrow> m_expireTime s' t = m_expireTime s t)"
proof -
  obtain us where us: "timers_ok us s" "set us \<subseteq> {..<N}" "t \<in> set us" and t: "m_enabled s t" "\<not> m_once s t" "m_timeout s t = d"
    using assms(1) by (auto simp: armed_def)
  note pass = timers_pass_spec [OF us(1) listed_length [OF us(1,2)] assms(2)]
  have "0 < m_timeout s t" using us(1,3) t(1) by (simp add: timers_ok_def)
  then have kept: "m_enabled s' t = m_enabled s t \<and> m_expireTime s t \<le> m_expireTime s' t"
    using assms(2) check_timers_periodic [of now _ _ "remove_stopped N s" fired s' t] t
    by (auto simp: timer_pass_def Let_def remove_stopped_same)
  from pass(6) us(2,3) t(1) have "\<exists>vs. timers_ok vs s' \<and> set vs \<subseteq> {..<N} \<and> t \<in> set vs" by blast
  with kept pass(1) t show ?thesis by (auto simp: armed_def advance_def same_timer_def)
qed

lemma ProcessTimers_keeps:
  assumes "ProcessTimers N now s = Some (fs, s')" and "armed N d t s"
  shows "armed N d t s' \<and> m_expireTime s t \<le> m_expireTime s' t \<and> (t \<notin> set fs \<longrightarrow> m_expireTime s' t = m_expireTime s t)"
proof -
  have "armed N d t s \<longrightarrow> armed N d t (snd y) \<and> m_expireTime s t \<le> m_expireTime (snd y) t
      \<and> (t \<notin> set (fst y) \<longrightarrow> m_expireTime (snd y) t = m_expireTime s t)"
    if "ProcessTimers N now s = Some y" for y
    using that
  proof (rule ProcessTimers.raw_induct [where P = "\<lambda>N now s y. armed N d t s \<longrightarrow> armed N d t (snd y)
      \<and> m_expireTime s t \<le> m_expireTime (snd y) t \<and> (t \<notin> set (fst y) \<longrightarrow> m_expireTime (snd y) t = m_expireTime s t)", rotated])
    fix f N now s y
    assume IH: "\<And>N now s y. f N now s = Some y \<Longrightarrow> armed N d t s \<longrightarrow> armed N d t (snd y)
        \<and> m_expireTime s t \<le> m_expireTime (snd y) t \<and> (t \<notin> set (fst y) \<longrightarrow> m_expireTime (snd y) t = m_expireTime s t)"
      and y: "(let (fired, s1) = timer_pass N now s in
        if length fired = MAX_TIMER_EXPIRED
        then Option.bind (f N now s1) (\<lambda>(more, s2). Some (fired @ more, s2))
        else Some (fired, s1)) = Some y"
    obtain fired s1 where p: "timer_pass N now s = (fired, s1)" by fastforce
    show "armed N d t s \<longrightarrow> armed N d t (snd y)
        \<and> m_expireTime s t \<le> m_expireTime (snd y) t \<and> (t \<notin> set (fst y) \<longrightarrow> m_expireTime (snd y) t = m_expireTime s t)"
    proof
      assume "armed N d t s"
      note pass = timer_pass_armed [OF this p]
      from y p consider "y = (fired, s1)" | more s2 where "f N now s1 = Some (more, s2)" "y = (fired @ more, s2)"
        by (auto split: if_splits Option.bind_splits)
      then show "armed N d t (snd y)
          \<and> m_expireTime s t \<le> m_expireTime (snd y) t \<and> (t \<notin> set (fst y) \<longrightarrow> m_expireTime (snd y) t = m_expireTime s t)"
      proof cases
        case 1
        with pass show ?thesis by simp
      next
        case 2
        with IH [OF 2(1)] pass show ?thesis by auto
      qed
    qed
  qed
  from this [OF assms(1)] assms(2) show ?thesis by simp
qed

lemma ProcessTimers_armed:
  assumes "armed N d t s"
  obtains fs s' where "ProcessTimers N now s = Some (fs, s')" "armed N d t s'" "m_expireTime s t \<le> m_expireTime s' t"
    "t \<in> set fs \<longleftrightarrow> m_expireTime s t \<le> now" "t \<notin> set fs \<Longrightarrow> m_expireTime s' t = m_expireTime s t"
proof -
  obtain us where us: "timers_ok us s" "set us \<subseteq> {..<N}" "t \<in> set us" using assms by (auto simp: armed_def)
  obtain fs s' where r: "ProcessTimers N now s = Some (fs, s')" "set fs = {t \<in> set us. due now s t}"
    using process_timers_calls_due [OF us(1) listed_length [OF us(1,2)]] by blast
  moreover have "t \<in> set fs \<longleftrightarrow> m_expireTime s t \<le> now"
    using us(3) assms by (simp add: r(2) due_def armed_def)
  ultimately show thesis using ProcessTimers_keeps [OF r(1) assms] that by blast
qed

section \<open>The bus\<close>

text \<open>What one step gives a subscriber has the time of the step.\<close>

definition given_now :: "nat \<Rightarrow> (time_point \<times> 'v) list \<Rightarrow> time_point \<Rightarrow> 'v world \<Rightarrow> bool" where
  "given_now n xs now w \<longleftrightarrow> (\<exists>vs. delivered n w = xs @ map (Pair now) vs)"

interpretation given: subscriber_view n now "given_now n xs now" for n now
    and xs :: "(time_point \<times> 'v) list"
proof unfold_locales
  fix w :: "'v world" and v
  assume "given_now n xs now w"
  then obtain vs where "delivered n w = xs @ map (Pair now) vs" by (auto simp: given_now_def)
  then have "delivered n (invoke_subscriber now n v w) = xs @ map (Pair now) (vs
      @ (if limiter_passes now (subscribers w n) \<and> accepts (s_filter (subscribers w n)) v then [v] else []))"
    by (simp add: invoke_subscriber_effect)
  then show "given_now n xs now (invoke_subscriber now n v w)" unfolding given_now_def by blast
qed (simp add: given_now_def)

lemma attached_direct: "attached n topic ty predicate None w \<Longrightarrow> pending n w = []"
  by (cases "pending n w") (auto simp: attached_def)

lemma step_deliveries:
  assumes at: "attached n topic ty None None w" and safe: "type_safe w" and keep: "keeps_connected n op"
  shows "new_deliveries (Some n) w (bus_step env (now, op) w) = map (Pair now) (published_on topic ty op)"
proof -
  let ?w' = "bus_step env (now, op) w"
  have "given_now n (delivered n w) now w" by (simp add: given_now_def)
  with given.view_step [OF safe] at have "given_now n (delivered n w) now ?w'" by (simp add: attached_def)
  then obtain vs where vs: "delivered n ?w' = delivered n w @ map (Pair now) vs" by (auto simp: given_now_def)
  note step = bus_step_attached [OF at safe keep, of env now]
  have "pending n w = []" "pending n ?w' = []"
    using at step attached_direct by blast+
  with step have "map snd (delivered n ?w') = map snd (delivered n w) @ published_on topic ty op"
    by (simp add: reached_def accepts_def)
  with vs have "vs = published_on topic ty op" by (simp add: comp_def)
  with vs show ?thesis by (simp add: new_deliveries_def)
qed

lemma published_on_once: "published_on topic ty op = [] \<or> (\<exists>v. published_on topic ty op = [v])"
  by (cases op) (auto simp: published_on_def)

section \<open>The watch\<close>

text \<open>The state of a watch with direct callbacks, up to the time \<open>now\<close>: \<open>r\<close> is the time of its last
  message or of its construction.\<close>

definition watching :: "nat \<Rightarrow> string \<Rightarrow> nat \<Rightarrow> duration \<Rightarrow> nat \<Rightarrow> timer_id \<Rightarrow> time_point \<Rightarrow> time_point \<Rightarrow> 'v watch \<Rightarrow> bool" where
  "watching N topic ty d n t r now s \<longleftrightarrow>
     m_timer s = t \<and> m_deadline s = d \<and> m_conn s = Some n \<and> watch_thread s = None \<and> on_thread (m_timerConn s) = 0
     \<and> attached n topic ty None None (watch_world s) \<and> type_safe (watch_world s)
     \<and> armed N d t (watch_timers s) \<and> t < N \<and> 0 < d
     \<and> r \<le> now \<and> r + d \<le> m_expireTime (watch_timers s) t \<and> (\<forall>m \<in> set (missed s). m \<le> now)
     \<and> (m_expireTime (watch_timers s) t = r + d \<or> (\<exists>m \<in> set (missed s). r + d \<le> m))"

text \<open>What is to be shown of the calls of \<open>m_onMissed\<close> at the times \<open>ms\<close>, with messages (and the
  construction) at the times \<open>rs\<close> and the timers processed at the times \<open>ps\<close>: none during the
  deadline after a message, and one for every silence that outlasts it.\<close>

definition watched :: "duration \<Rightarrow> time_point list \<Rightarrow> time_point list \<Rightarrow> time_point list \<Rightarrow> bool" where
  "watched d rs ps ms \<longleftrightarrow>
     (\<forall>m \<in> set ms. \<forall>r \<in> set rs. m \<le> r \<or> r + d \<le> m)
     \<and> (\<forall>p \<in> set ps. \<forall>r \<in> set rs. r + d \<le> p \<and> (\<forall>r' \<in> set rs. r' \<le> r \<or> p < r')
          \<longrightarrow> (\<exists>m \<in> set ms. r + d \<le> m \<and> m \<le> p))"

definition processed_at :: "(time_point \<times> 'v watch_op) list \<Rightarrow> time_point list" where
  "processed_at xs = concat (map (\<lambda>(now, op). case op of Process_op _ \<Rightarrow> [now] | _ \<Rightarrow> []) xs)"

text \<open>The times of the messages and of the construction, the latest of them.\<close>

definition heard :: "time_point \<Rightarrow> 'v watch \<Rightarrow> time_point list" where
  "heard t0 s = t0 # map fst (handled s)"

definition latest :: "time_point list \<Rightarrow> time_point \<Rightarrow> bool" where
  "latest rs r \<longleftrightarrow> r \<in> set rs \<and> (\<forall>r' \<in> set rs. r' \<le> r)"

lemma heard_same: "handled s' = handled s \<Longrightarrow> heard t0 s' = heard t0 s"
  and heard_message: "handled s' = handled s @ [(now, v)] \<Longrightarrow> heard t0 s' = heard t0 s @ [now]"
  by (simp_all add: heard_def)

lemma latest_message: "latest rs r \<Longrightarrow> r \<le> now \<Longrightarrow> latest (rs @ [now]) now"
  by (auto simp: latest_def)

lemma watched_message:
  assumes "watched d rs ps ms" and "\<forall>m \<in> set ms. m \<le> now" and "\<forall>p \<in> set ps. p \<le> now" and "0 < d"
  shows "watched d (rs @ [now]) ps ms"
proof -
  have "\<not> now + d \<le> p" if "p \<in> set ps" for p
    using assms(3,4) that by force
  with assms(1,2) show ?thesis by (simp add: watched_def)
qed

lemma watched_pass:
  assumes "watched d rs ps ms" and "latest rs r" and "r \<le> now"
    and "set ms' \<subseteq> insert now (set ms)" and "set ms \<subseteq> set ms'" and "now \<in> set ms' \<longrightarrow> now \<in> set ms \<or> r + d \<le> now"
    and "r + d \<le> now \<Longrightarrow> \<exists>m \<in> set ms'. r + d \<le> m \<and> m \<le> now"
  shows "watched d rs (ps @ [now]) ms'"
proof -
  have "m \<le> r' \<or> r' + d \<le> m" if "m \<in> set ms'" "r' \<in> set rs" for m r'
  proof (cases "m \<in> set ms")
    case True
    with assms(1) that(2) show ?thesis by (auto simp: watched_def)
  next
    case False
    with that(1) assms(4,6) have "m = now" "r + d \<le> now" by auto
    with assms(2) that(2) show ?thesis by (force simp: latest_def)
  qed
  moreover have "\<exists>m \<in> set ms'. r' + d \<le> m \<and> m \<le> p"
    if p: "p \<in> set (ps @ [now])" and r': "r' \<in> set rs" "r' + d \<le> p" "\<forall>q \<in> set rs. q \<le> r' \<or> p < q" for p r'
  proof (cases "p \<in> set ps")
    case True
    with r' assms(1) have "\<exists>m \<in> set ms. r' + d \<le> m \<and> m \<le> p" by (auto simp: watched_def)
    with assms(5) show ?thesis by blast
  next
    case False
    with p have "p = now" by simp
    with r' assms(2,3) have "r' = r" by (force simp: latest_def)
    with assms(7) r'(2) \<open>p = now\<close> show ?thesis by simp
  qed
  ultimately show ?thesis by (auto simp: watched_def)
qed

lemma OnDataReceived_watching:
  assumes "watching N topic ty d n t r now s"
  shows "watching N topic ty d n t now now (OnDataReceived N now v s)
    \<and> handled (OnDataReceived N now v s) = handled s @ [(now, v)] \<and> missed (OnDataReceived N now v s) = missed s"
proof -
  obtain us where us: "timers_ok us (watch_timers s)" "set us \<subseteq> {..<N}"
    using assms by (auto simp: watching_def armed_def)
  have s: "m_timer s = t" "m_deadline s = d" "t < N" "0 < d" using assms by (simp_all add: watching_def)
  obtain ts where ts: "Start N now d False t (watch_timers s) = Some ts" "armed N d t ts" "m_expireTime ts t = now + d"
    using Start_self [OF us s(3,4)] by blast
  have "OnDataReceived N now v s = s\<lparr>watch_timers := ts, handled := handled s @ [(now, v)]\<rparr>"
    by (simp add: OnDataReceived_def s ts(1))
  with assms ts(2,3) show ?thesis by (simp add: watching_def)
qed

lemma expired_fold:
  "watch_thread s = None \<Longrightarrow>
   fold (\<lambda>u s. if u = m_timer s then OnExpired now taken s else s) fs s
     = s\<lparr>missed := missed s @ replicate (count_list fs (m_timer s)) now\<rparr>"
proof (induction fs arbitrary: s)
  case (Cons u fs)
  have shift: "missed s @ now # xs = missed (s\<lparr>missed := missed s @ [now]\<rparr>) @ xs" for xs by simp
  show ?case
    using Cons.IH [of "s\<lparr>missed := missed s @ [now]\<rparr>"] Cons.IH [of s] Cons.prems
    by (auto simp: OnExpired_def OnTimerExpired_def)
qed simp

definition watch_ok ::
  "nat \<Rightarrow> string \<Rightarrow> nat \<Rightarrow> duration \<Rightarrow> nat \<Rightarrow> timer_id \<Rightarrow> time_point \<Rightarrow> (time_point \<times> 'v watch_op) list \<Rightarrow> time_point
    \<Rightarrow> 'v watch \<Rightarrow> bool" where
  "watch_ok N topic ty d n t t0 past now s \<longleftrightarrow>
     (\<exists>r. watching N topic ty d n t r now s \<and> latest (heard t0 s) r)
     \<and> handled s = concat (map (published_at topic ty) past) \<and> (\<forall>p \<in> set (processed_at past). p \<le> now)
     \<and> watched d (heard t0 s) (processed_at past) (missed s)"

lemma past_simps [simp]:
  "processed_at (past @ [(now, Bus_op op)]) = processed_at past"
  "processed_at (past @ [(now, Process_op b)]) = processed_at past @ [now]"
  "processed_at (past @ [(now, Expiry_op)]) = processed_at past"
  "processed_at (past @ [(now, Other_start_op u d once)]) = processed_at past"
  "processed_at (past @ [(now, Other_stop_op u)]) = processed_at past"
  by (simp_all add: processed_at_def)

lemma published_at_simps [simp]:
  "published_at topic ty (now, Bus_op op) = map (Pair now) (published_on topic ty op)"
  "published_at topic ty (now, Process_op b) = []" "published_at topic ty (now, Expiry_op) = []"
  "published_at topic ty (now, Other_start_op u d once) = []" "published_at topic ty (now, Other_stop_op u) = []"
  by (simp_all add: published_at_def)

text \<open>A step that calls nothing.\<close>

lemma watch_ok_quiet:
  assumes "watch_ok N topic ty d n t t0 past now0 s" and "now0 \<le> now"
    and "\<And>r. watching N topic ty d n t r now0 s \<Longrightarrow> watching N topic ty d n t r now s'"
    and "handled s' = handled s" and "missed s' = missed s"
    and "published_at topic ty x = []" and "processed_at (past @ [x]) = processed_at past"
  shows "watch_ok N topic ty d n t t0 (past @ [x]) now s'"
proof -
  have "heard t0 s' = heard t0 s" by (rule heard_same [OF assms(4)])
  with assms show ?thesis by (force simp: watch_ok_def)
qed

lemma watch_bus_step:
  assumes ok: "watch_ok N topic ty d n t t0 past now0 s" and "now0 \<le> now" and keep: "keeps_connected n op"
  shows "\<exists>s'. watch_step env N (now, Bus_op op) s = Some s' \<and> watch_ok N topic ty d n t t0 (past @ [(now, Bus_op op)]) now s'"
proof -
  let ?w' = "bus_step env (now, op) (watch_world s)" and ?s1 = "s\<lparr>watch_world := bus_step env (now, op) (watch_world s)\<rparr>"
  obtain r where r: "watching N topic ty d n t r now0 s" "latest (heard t0 s) r" using ok unfolding watch_ok_def by blast
  have at: "attached n topic ty None None (watch_world s)" "type_safe (watch_world s)" "m_conn s = Some n"
    using r(1) by (simp_all add: watching_def)
  have at': "attached n topic ty None None ?w'" "type_safe ?w'"
    using bus_step_attached [OF at(1,2) keep] bus_step_type_safe [OF at(2)] by blast+
  have s1: "watching N topic ty d n t r now ?s1" if "watching N topic ty d n t r now0 s" for r
    using that at' assms(2) by (fastforce simp: watching_def)
  note new = step_deliveries [OF at(1,2) keep, of env now]
  consider (none) "published_on topic ty op = []" | (one) v where "published_on topic ty op = [v]"
    using published_on_once by blast
  then show ?thesis
  proof cases
    case none
    have "watch_step env N (now, Bus_op op) s = Some ?s1"
      using new by (simp add: at(3) none del: bus_step.simps)
    moreover have "watch_ok N topic ty d n t t0 (past @ [(now, Bus_op op)]) now ?s1"
      by (rule watch_ok_quiet [OF ok assms(2) s1]) (simp_all add: none)
    ultimately show ?thesis by blast
  next
    case one
    have step: "watch_step env N (now, Bus_op op) s = Some (OnDataReceived N now v ?s1)"
      using new by (simp add: at(3) one del: bus_step.simps)
    note got = OnDataReceived_watching [OF s1 [OF r(1)], of v]
    have "\<forall>m \<in> set (missed s). m \<le> now" "\<forall>p \<in> set (processed_at past). p \<le> now" "0 < d" "r \<le> now"
      using r(1) ok assms(2) by (auto simp: watching_def watch_ok_def)
    with ok got have "watched d (heard t0 s @ [now]) (processed_at past) (missed s)"
      "handled (OnDataReceived N now v ?s1) = concat (map (published_at topic ty) (past @ [(now, Bus_op op)]))"
      by (simp_all add: watch_ok_def watched_message one)
    moreover have "heard t0 (OnDataReceived N now v ?s1) = heard t0 s @ [now]"
      using got by (intro heard_message) simp
    ultimately have "watch_ok N topic ty d n t t0 (past @ [(now, Bus_op op)]) now (OnDataReceived N now v ?s1)"
      using got latest_message [OF r(2) \<open>r \<le> now\<close>] \<open>\<forall>p \<in> set (processed_at past). p \<le> now\<close>
      unfolding watch_ok_def by auto
    with step show ?thesis by blast
  qed
qed

lemma watch_process_step:
  assumes ok: "watch_ok N topic ty d n t t0 past now0 s" and "now0 \<le> now"
  shows "\<exists>s'. watch_step env N (now, Process_op b) s = Some s' \<and> watch_ok N topic ty d n t t0 (past @ [(now, Process_op b)]) now s'"
proof -
  obtain r where r: "watching N topic ty d n t r now0 s" "latest (heard t0 s) r" using ok unfolding watch_ok_def by blast
  have s: "armed N d t (watch_timers s)" "m_timer s = t" "watch_thread s = None" "r \<le> now"
    "r + d \<le> m_expireTime (watch_timers s) t" "\<forall>m \<in> set (missed s). m \<le> now"
    "m_expireTime (watch_timers s) t = r + d \<or> (\<exists>m \<in> set (missed s). r + d \<le> m)"
    using r(1) assms(2) by (auto simp: watching_def)
  obtain fs ts where p: "ProcessTimers N now (watch_timers s) = Some (fs, ts)" "armed N d t ts"
    "m_expireTime (watch_timers s) t \<le> m_expireTime ts t" "t \<in> set fs \<longleftrightarrow> m_expireTime (watch_timers s) t \<le> now"
    "t \<notin> set fs \<Longrightarrow> m_expireTime ts t = m_expireTime (watch_timers s) t"
    using ProcessTimers_armed [OF s(1), of now] by blast
  define ms where "ms = missed s @ replicate (count_list fs t) now"
  let ?s' = "s\<lparr>watch_timers := ts, missed := ms\<rparr>"
  have step: "watch_step env N (now, Process_op b) s = Some ?s'"
    using expired_fold [of "s\<lparr>watch_timers := ts\<rparr>" now b fs] s(2,3) by (simp add: p(1) ms_def)
  have set_ms: "set ms = (if t \<in> set fs then insert now (set (missed s)) else set (missed s))"
    by (auto simp: ms_def count_list_0_iff)
  have "watching N topic ty d n t r now ?s'"
    using r(1) p(2-5) s assms(2) set_ms by (auto simp: watching_def)
  moreover have "watched d (heard t0 s) (processed_at past @ [now]) ms"
  proof (rule watched_pass [OF _ r(2) s(4)])
    show "watched d (heard t0 s) (processed_at past) (missed s)" using ok by (simp add: watch_ok_def)
    show "\<exists>m \<in> set ms. r + d \<le> m \<and> m \<le> now" if "r + d \<le> now"
      using that s(6,7) p(4) set_ms by auto
  qed (use set_ms p(4) s(5) in auto)
  moreover have "\<forall>p \<in> set (processed_at past). p \<le> now" using ok assms(2) by (auto simp: watch_ok_def)
  moreover have "heard t0 ?s' = heard t0 s" by (rule heard_same) simp
  ultimately have "watch_ok N topic ty d n t t0 (past @ [(now, Process_op b)]) now ?s'"
    using ok r(2) by (auto simp: watch_ok_def)
  with step show ?thesis by blast
qed

lemma watch_step_ok:
  assumes ok: "watch_ok N topic ty d n t t0 past now0 s" and "now0 \<le> now" and leaves: "leaves_watch N (Some n) t op"
  shows "\<exists>s'. watch_step env N (now, op) s = Some s' \<and> watch_ok N topic ty d n t t0 (past @ [(now, op)]) now s'"
proof (cases op)
  case (Bus_op b)
  with watch_bus_step [OF ok assms(2)] leaves show ?thesis by (simp add: leaves_watch_def)
next
  case (Process_op b)
  with watch_process_step [OF ok assms(2)] show ?thesis by simp
next
  case Expiry_op
  have "on_thread (m_timerConn s) = 0" using ok by (auto simp: watch_ok_def watching_def)
  moreover have "watch_ok N topic ty d n t t0 (past @ [(now, Expiry_op)]) now s"
    by (rule watch_ok_quiet [OF ok assms(2)]) (use assms(2) in \<open>fastforce simp: watching_def\<close>, simp_all)
  ultimately show ?thesis by (simp add: Expiry_op)
next
  case (Other_start_op u d' once)
  let ?s' = "case Start N now d' once u (watch_timers s) of None \<Rightarrow> s | Some ts \<Rightarrow> s\<lparr>watch_timers := ts\<rparr>"
  have "watch_ok N topic ty d n t t0 (past @ [(now, op)]) now ?s'"
  proof (rule watch_ok_quiet [OF ok assms(2)])
    show "watching N topic ty d n t r now ?s'" if "watching N topic ty d n t r now0 s" for r
      using that assms(2) leaves Start_other [of N d t "watch_timers s" u now d' once]
      by (fastforce simp: watching_def leaves_watch_def Other_start_op split: option.split)
  qed (auto simp: Other_start_op split: option.split)
  then show ?thesis by (simp add: Other_start_op)
next
  case (Other_stop_op u)
  have "watch_ok N topic ty d n t t0 (past @ [(now, op)]) now (s\<lparr>watch_timers := Stop u (watch_timers s)\<rparr>)"
  proof (rule watch_ok_quiet [OF ok assms(2)])
    show "watching N topic ty d n t r now (s\<lparr>watch_timers := Stop u (watch_timers s)\<rparr>)"
      if "watching N topic ty d n t r now0 s" for r
      using that assms(2) leaves Stop_other [of N d t "watch_timers s" u]
      by (fastforce simp: watching_def leaves_watch_def Other_stop_op)
  qed (simp_all add: Other_stop_op)
  then show ?thesis by (simp add: Other_stop_op)
qed

lemma watch_run_ok:
  assumes "watch_ok N topic ty d n t t0 past now s" and "sorted_wrt (\<le>) (now # map fst ops)"
    and "\<forall>op \<in> snd ` set ops. leaves_watch N (Some n) t op"
  shows "\<exists>s' now'. watch_run env N ops s = Some s' \<and> watch_ok N topic ty d n t t0 (past @ ops) now' s'"
  using assms
proof (induction ops arbitrary: past now s)
  case (Cons x ops)
  obtain u op where x: "x = (u, op)" by (cases x)
  obtain s1 where s1: "watch_step env N x s = Some s1" "watch_ok N topic ty d n t t0 (past @ [x]) u s1"
    using watch_step_ok [OF Cons.prems(1), of u op env] Cons.prems(2,3) by (auto simp: x)
  with Cons.IH [OF s1(2)] Cons.prems(2,3) show ?case by (auto simp: x)
qed auto

section \<open>Properties\<close>


definition quiet_watch :: "nat option \<Rightarrow> nat watch" where
  "quiet_watch thread = the (DeadlineSubscription 4 0 ''t'' 1 10 thread 2 one_timer quiet_bus)"

lemma quiet_watch_conn:
  "DeadlineSubscription 4 0 ''t'' 1 10 thread 2 one_timer quiet_bus = Some (quiet_watch thread)"
  "m_conn (quiet_watch thread) = Some 0"
  by (simp_all add: quiet_watch_def DeadlineSubscription_def Start_def bus_defs quiet_bus_def)


text \<open>
  With a thread the deadline is about the calls of the handler, not about the messages: one that arrived
  in time and waited for its thread is reported as missed, even after it was handled, since starting the timer
  again does not take back the message of the expired timer.
\<close>

theorem late_thread_reports_silence:
  "map_option (\<lambda>s. (handled s, missed s)) (watch_run flaky 4
     [(5, Bus_op (Publish_op ''t'' 1 7 False)), (10, Process_op True), (11, Bus_op (Run_op 3)), (12, Expiry_op)]
     (quiet_watch (Some 3))) = Some ([(11, 7)], [12])"
  by (simp add: quiet_watch_def DeadlineSubscription_def bus_defs publish_defs quiet_bus_def one_timer_def no_timers_def
      Start_def Timer_def set_timer_links_def timer_links_def link_front_def new_deliveries_def delivered_def post_to_def
      run_thread_def ProcessTimers.simps timer_pass_def remove_stopped_def CheckExpired_def MAX_TIMER_EXPIRED_def
      OnExpired_def OnTimerExpired_def OnDataReceived_def TimerDelegate_def tick_def TryFire_def message_gone_def
      numeral_eq_Suc)

text \<open>A destroyed object is forgotten: its timer never expires again and no signal has its connection.\<close>

theorem destroyed_watch_forgotten:
  assumes "timers_ok us (watch_timers s)" and "length us \<le> N" and "m_conn s = Some n"
    and "ProcessTimers N now (fst (watch_destroy N s)) = Some (fired, ts)"
  shows "m_timer s \<notin> set fired \<and> n \<notin> set (subs_of topic (bus (snd (watch_destroy N s))))"
proof -
  let ?ts = "fst (watch_destroy N s)"
  have "linked (timer_links ?ts) (remove1 (m_timer s) us)"
    using assms(1,2) by (simp add: watch_destroy_def timer_destroy_def timers_ok_def linked_unlink)
  moreover have "m_enabled ?ts = m_enabled (watch_timers s)" "m_timeout ?ts = m_timeout (watch_timers s)"
    by (simp_all add: watch_destroy_def timer_destroy_def set_timer_links_def)
  moreover have "set (remove1 (m_timer s) us) \<subseteq> set us" by (rule set_remove1_subset)
  ultimately have ok: "timers_ok (remove1 (m_timer s) us) ?ts" using assms(1) by (auto simp: timers_ok_def)
  have "length (remove1 (m_timer s) us) \<le> N" using assms(2) by (auto simp: length_remove1)
  from process_timers_calls_due [OF ok this, of now] assms(4)
  have "set fired \<subseteq> set (remove1 (m_timer s) us)" by auto
  moreover have "m_timer s \<notin> set (remove1 (m_timer s) us)"
    using assms(1) by (simp add: timers_ok_def linked_def)
  ultimately have "m_timer s \<notin> set fired" by blast
  moreover have "n \<notin> set (subs_of topic (bus (snd (watch_destroy N s))))"
    using assms(3) by (simp add: watch_destroy_def disconnect_def split: option.split)
  ultimately show ?thesis by blast
qed

end
