(* ===== verification/KernelSemaphores.thy ===== *)
theory KernelSemaphores
  imports AsyncCalls "HOL-Library.Signed_Division"
begin

text \<open>
  \<^verbatim>\<open>dmq::Semaphore\<close> on the embedded ports. \<^verbatim>\<open>delegate/Semaphore.h\<close> needs a condition variable;
  \<^verbatim>\<open>FreeRTOSConditionVariable.h\<close> and \<^verbatim>\<open>ThreadXConditionVariable.h\<close> make one from a kernel semaphore,
  which keeps a notification that nobody waits for. Any number of threads wait and signal. A step is
  what happens under the mutex of \<^verbatim>\<open>Semaphore\<close>, or one call of the kernel. On Zephyr, CMSIS-RTOS2 and
  NuttX \<^verbatim>\<open>dmq::Semaphore\<close> is the kernel's own.

  Of the kernels only this is used: a semaphore is a number of tokens, taking one from an empty semaphore
  blocks for as many ticks as are given, or without limit for one special number (\<open>forever\<close>), and the
  counter of ticks has 32 bits.
\<close>

section \<open>One pass of the waiting loop\<close>

text \<open>The head of the loop of \<^verbatim>\<open>wait_for\<close>, with the mutex held: a result, or the ticks to block.\<close>

definition fr_wait_for_pass :: "bool \<Rightarrow> u32 \<Rightarrow> u32 \<Rightarrow> u32 \<Rightarrow> bool + u32" where
  "fr_wait_for_pass pred now start timeoutTicks =
     (if pred then Inl True
      else let elapsed = now - start in
           if timeoutTicks \<le> elapsed then Inl pred
           else Inr (timeoutTicks - elapsed))"

definition tx_wait_for_pass :: "bool \<Rightarrow> u32 \<Rightarrow> u32 \<Rightarrow> u32 \<Rightarrow> bool + u32" where
  "tx_wait_for_pass pred now startTick timeoutTicks =
     (if pred then Inl True
      else let elapsed = now - startTick in
           if timeoutTicks \<le> elapsed then Inl pred
           else let remaining = timeoutTicks - elapsed in Inr remaining)"

text \<open>The tokens after \<^verbatim>\<open>notify_one\<close>: a binary semaphore, a counting one.\<close>

definition fr_notify_one :: "nat \<Rightarrow> nat" where "fr_notify_one tokens = 1"
definition tx_notify_one :: "nat \<Rightarrow> nat" where "tx_notify_one tokens = Suc tokens"

text \<open>The conversion of the timeout on ThreadX, which FreeRTOS leaves to a macro of the kernel.\<close>

definition tx_timeout_ticks :: "u32 \<Rightarrow> int \<Rightarrow> u32" where
  "tx_timeout_ticks ticksPerSec ms =
     (let totalTicks = (of_int ms * ucast ticksPerSec :: 64 word) div 1000;
          totalTicks = (if totalTicks = 0 \<and> 0 < ms then 1 else totalTicks)
      in if 0xFFFFFFFF < totalTicks then 0xFFFFFFFF else ucast totalTicks)"

section \<open>Waiting and signalling\<close>

text \<open>Where a thread is: about to look at the predicate, blocked in the kernel until a tick or without
  limit, back from the kernel without a token, returned.\<close>

datatype wait_state = Elsewhere | At_check | Asleep "nat option" | Gave_up | Returned bool

record cv =
  sema :: Semaphore
  tokens :: nat
  unnotified :: nat
  ticks :: nat
  waiter :: "nat \<Rightarrow> wait_state"
  begun :: "nat \<Rightarrow> nat"
  timeout :: "nat \<Rightarrow> u32 option"
  signals :: nat
  consumed :: nat

definition cv_start :: cv where
  "cv_start = \<lparr>sema = \<lparr>m_signaled = False\<rparr>, tokens = 0, unnotified = 0, ticks = 0, waiter = (\<lambda>_. Elsewhere),
     begun = (\<lambda>_. 0), timeout = (\<lambda>_. None), signals = 0, consumed = 0\<rparr>"

definition move :: "nat \<Rightarrow> wait_state \<Rightarrow> cv \<Rightarrow> cv" where
  "move i x s = s\<lparr>waiter := (waiter s)(i := x)\<rparr>"

text \<open>\<^verbatim>\<open>Semaphore::Wait\<close> after the condition variable has returned: the signal is taken.\<close>

definition wait_end :: "nat \<Rightarrow> bool \<Rightarrow> cv \<Rightarrow> cv" where
  "wait_end i satisfied s =
     (if satisfied \<and> m_signaled (sema s)
      then (move i (Returned True) s)\<lparr>sema := \<lparr>m_signaled = False\<rparr>, consumed := Suc (consumed s)\<rparr>
      else move i (Returned False) s)"

text \<open>Entering with the ticks of the timeout, or without for \<^verbatim>\<open>wait\<close>.\<close>

definition cv_enter :: "nat \<Rightarrow> u32 option \<Rightarrow> cv \<Rightarrow> cv" where
  "cv_enter i k s = (move i At_check s)\<lparr>begun := (begun s)(i := ticks s), timeout := (timeout s)(i := k)\<rparr>"

definition blocked_until :: "u32 \<Rightarrow> nat \<Rightarrow> u32 \<Rightarrow> nat option" where
  "blocked_until forever now k = (if k = forever then None else Some (now + unat k))"

type_synonym pass = "bool \<Rightarrow> u32 \<Rightarrow> u32 \<Rightarrow> u32 \<Rightarrow> bool + u32"

definition cv_check :: "pass \<Rightarrow> u32 \<Rightarrow> nat \<Rightarrow> cv \<Rightarrow> cv" where
  "cv_check pass forever i s =
     (case timeout s i of
        None \<Rightarrow> if m_signaled (sema s) then wait_end i True s else move i (Asleep None) s
      | Some k \<Rightarrow>
          (case pass (m_signaled (sema s)) (of_nat (ticks s)) (of_nat (begun s i)) k of
             Inl satisfied \<Rightarrow> wait_end i satisfied s
           | Inr remaining \<Rightarrow> move i (Asleep (blocked_until forever (ticks s) remaining)) s))"

text \<open>\<^verbatim>\<open>Semaphore::Signal\<close>: the flag under the mutex, then the notification.\<close>

definition cv_signal :: "cv \<Rightarrow> cv" where
  "cv_signal s = s\<lparr>sema := Signal (sema s), unnotified := Suc (unnotified s), signals := Suc (signals s)\<rparr>"

definition cv_notify :: "(nat \<Rightarrow> nat) \<Rightarrow> cv \<Rightarrow> cv" where
  "cv_notify notify s = s\<lparr>tokens := notify (tokens s), unnotified := unnotified s - 1\<rparr>"

inductive cv_step :: "(nat \<Rightarrow> nat) \<Rightarrow> pass \<Rightarrow> u32 \<Rightarrow> cv \<Rightarrow> cv \<Rightarrow> bool"
  for notify :: "nat \<Rightarrow> nat" and pass :: pass and forever :: u32
where
  enter: "waiter s i \<in> {Elsewhere, Returned False, Returned True} \<Longrightarrow> cv_step notify pass forever s (cv_enter i k s)"
| check: "waiter s i = At_check \<Longrightarrow> cv_step notify pass forever s (cv_check pass forever i s)"
| take: "waiter s i = Asleep u \<Longrightarrow> 0 < tokens s \<Longrightarrow>
     cv_step notify pass forever s ((move i At_check s)\<lparr>tokens := tokens s - 1\<rparr>)"
| give_up: "waiter s i = Asleep (Some u) \<Longrightarrow> u \<le> ticks s \<Longrightarrow> cv_step notify pass forever s (move i Gave_up s)"
| relock: "waiter s i = Gave_up \<Longrightarrow> cv_step notify pass forever s (wait_end i (m_signaled (sema s)) s)"
| signal: "cv_step notify pass forever s (cv_signal s)"
| notify: "0 < unnotified s \<Longrightarrow> cv_step notify pass forever s (cv_notify notify s)"
| tick: "cv_step notify pass forever s (s\<lparr>ticks := Suc (ticks s)\<rparr>)"

inductive cv_reach :: "(nat \<Rightarrow> nat) \<Rightarrow> pass \<Rightarrow> u32 \<Rightarrow> cv \<Rightarrow> bool"
  for notify :: "nat \<Rightarrow> nat" and pass :: pass and forever :: u32
where
  init: "cv_reach notify pass forever cv_start"
| step: "cv_reach notify pass forever s \<Longrightarrow> cv_step notify pass forever s s' \<Longrightarrow> cv_reach notify pass forever s'"

section \<open>What a condition variable made from a semaphore promises\<close>

text \<open>A timeout that has passed: \<open>n\<close> ticks or more since the waiter came.\<close>

definition waiter_ok :: "nat \<Rightarrow> nat \<Rightarrow> u32 option \<Rightarrow> wait_state \<Rightarrow> bool" where
  "waiter_ok now since k x \<longleftrightarrow> since \<le> now \<and>
     (case x of
        Asleep (Some u) \<Rightarrow> \<exists>t m. k = Some t \<and> u = since + unat t + m * 2 ^ 32 \<and> since + m * 2 ^ 32 \<le> now
      | Gave_up \<Rightarrow> \<exists>t. k = Some t \<and> since + unat t \<le> now
      | Returned False \<Rightarrow> \<exists>t. k = Some t \<and> since + unat t \<le> now
      | _ \<Rightarrow> True)"

definition awake :: "wait_state \<Rightarrow> bool" where
  "awake x \<longleftrightarrow> x = At_check \<or> x = Gave_up"

definition cv_inv :: "cv \<Rightarrow> bool" where
  "cv_inv s \<longleftrightarrow>
     (\<forall>i. waiter s i \<noteq> Elsewhere \<longrightarrow> waiter_ok (ticks s) (begun s i) (timeout s i) (waiter s i))
     \<and> (m_signaled (sema s) \<longrightarrow> 0 < tokens s \<or> 0 < unnotified s \<or> (\<exists>i. awake (waiter s i)) \<or> (\<forall>i u. waiter s i \<noteq> Asleep u))
     \<and> consumed s + (if m_signaled (sema s) then 1 else 0) \<le> signals s"

lemma waiter_ok_later: "waiter_ok now since k x \<Longrightarrow> now \<le> now' \<Longrightarrow> waiter_ok now' since k x"
  by (cases x) (fastforce simp: waiter_ok_def split: option.splits bool.splits)+

text \<open>The arithmetic of the loop: what is left of the timeout ends with it, but for whole turns of the
  counter of ticks.\<close>

lemma tick_difference: "unat (of_nat (a + e) - of_nat a :: u32) = e mod 2 ^ 32"
  by (simp add: unat_of_nat)

lemma word_sub_unat: "a \<le> b \<Longrightarrow> unat (b - a) = unat b - unat a" for a b :: u32
  by (rule unat_sub)

lemma remaining_ticks:
  fixes k :: u32
  assumes "since \<le> now" and "\<not> k \<le> of_nat now - of_nat since"
  shows "\<exists>m. now + unat (k - (of_nat now - of_nat since)) = since + unat k + m * 2 ^ 32 \<and> since + m * 2 ^ 32 \<le> now"
proof -
  define e where "e = now - since"
  have now: "now = since + e" using assms(1) by (simp add: e_def)
  let ?d = "of_nat now - of_nat since :: u32"
  have d: "unat ?d = e mod 2 ^ 32" unfolding now by (rule tick_difference)
  have le: "?d \<le> k" using assms(2) by simp
  then have "unat (k - ?d) = unat k - e mod 2 ^ 32" "e mod 2 ^ 32 \<le> unat k"
    using word_sub_unat [OF le] by (simp_all add: d word_le_nat_alt)
  moreover have "e = e mod 2 ^ 32 + e div 2 ^ 32 * 2 ^ 32" by presburger
  ultimately have "now + unat (k - ?d) = since + unat k + (e div 2 ^ 32) * 2 ^ 32" "since + (e div 2 ^ 32) * 2 ^ 32 \<le> now"
    unfolding now by linarith+
  then show ?thesis by blast
qed

lemma elapsed_ticks:
  fixes k :: u32
  assumes "since \<le> now" and "k \<le> of_nat now - of_nat since"
  shows "since + unat k \<le> now"
proof -
  have "unat k \<le> (now - since) mod 2 ^ 32"
    using assms tick_difference [of since "now - since"] by (simp add: word_le_nat_alt)
  also have "\<dots> \<le> now - since" by simp
  finally show ?thesis using assms(1) by linarith
qed

text \<open>What the two classes have in common.\<close>

locale condition_variable =
  fixes notify :: "nat \<Rightarrow> nat" and pass :: pass
  assumes notify_gives: "0 < notify n"
    and pass_is: "pass p now since k
      = (if p then Inl True else if k \<le> now - since then Inl False else Inr (k - (now - since)))"
begin

lemma check_ok:
  assumes "waiter_ok (ticks s) (begun s i) (timeout s i) (waiter s i)"
  shows "waiter_ok (ticks s) (begun s i) (timeout s i) (waiter (cv_check pass forever i s) i)
    \<and> (m_signaled (sema s) \<longrightarrow> \<not> m_signaled (sema (cv_check pass forever i s)))"
proof (cases "m_signaled (sema s)")
  case True
  with assms show ?thesis
    by (auto simp: cv_check_def pass_is wait_end_def move_def waiter_ok_def split: option.split)
next
  case False
  show ?thesis
  proof (cases "timeout s i")
    case None
    with False assms show ?thesis by (simp add: cv_check_def move_def waiter_ok_def)
  next
    case (Some k)
    have since: "begun s i \<le> ticks s" using assms by (simp add: waiter_ok_def)
    show ?thesis
      using False Some since elapsed_ticks [OF since] remaining_ticks [OF since]
      by (simp add: cv_check_def pass_is wait_end_def move_def waiter_ok_def blocked_until_def)
  qed
qed

lemma others:
  "j \<noteq> i \<Longrightarrow> waiter (cv_check pass forever i s) j = waiter s j"
  "j \<noteq> i \<Longrightarrow> waiter (wait_end i b s) j = waiter s j"
  "ticks (cv_check pass forever i s) = ticks s" "begun (cv_check pass forever i s) = begun s"
  "timeout (cv_check pass forever i s) = timeout s" "signals (cv_check pass forever i s) = signals s"
  "ticks (wait_end i b s) = ticks s" "begun (wait_end i b s) = begun s" "timeout (wait_end i b s) = timeout s"
  "signals (wait_end i b s) = signals s"
  by (auto simp: cv_check_def wait_end_def move_def pass_is split: option.split)

lemma ends_count:
  "consumed (wait_end i b s) + (if m_signaled (sema (wait_end i b s)) then 1 else 0)
     = consumed s + (if m_signaled (sema s) then 1 else 0)"
  "consumed (cv_check pass forever i s) + (if m_signaled (sema (cv_check pass forever i s)) then 1 else 0)
     = consumed s + (if m_signaled (sema s) then 1 else 0)"
  by (auto simp: cv_check_def wait_end_def move_def pass_is split: option.split)

lemma waiters_step:
  assumes "cv_step notify pass forever s s'"
    and "\<forall>i. waiter s i \<noteq> Elsewhere \<longrightarrow> waiter_ok (ticks s) (begun s i) (timeout s i) (waiter s i)"
  shows "waiter s' j \<noteq> Elsewhere \<longrightarrow> waiter_ok (ticks s') (begun s' j) (timeout s' j) (waiter s' j)"
  using assms
proof (induction rule: cv_step.induct)
  case (enter s i k)
  then show ?case by (cases "j = i") (auto simp: cv_enter_def move_def waiter_ok_def)
next
  case (check s i)
  then have "waiter s i \<noteq> Elsewhere" by simp
  with check.prems have "waiter_ok (ticks s) (begun s i) (timeout s i) (waiter s i)" by blast
  from check_ok [OF this] check.prems show ?case by (cases "j = i") (simp_all add: others)
next
  case (take s i u)
  then have "waiter_ok (ticks s) (begun s i) (timeout s i) (Asleep u)" by (metis wait_state.distinct(3))
  then have "begun s i \<le> ticks s" by (simp add: waiter_ok_def)
  with take show ?case by (cases "j = i") (auto simp: move_def waiter_ok_def)
next
  case (give_up s i u)
  then have "waiter_ok (ticks s) (begun s i) (timeout s i) (Asleep (Some u))" by (metis wait_state.distinct(3))
  with give_up show ?case by (cases "j = i") (auto simp: move_def waiter_ok_def)
next
  case (relock s i)
  then have "waiter_ok (ticks s) (begun s i) (timeout s i) Gave_up" by (metis wait_state.distinct(5))
  with relock show ?case
    by (cases "j = i") (auto simp: others, auto simp: wait_end_def move_def waiter_ok_def)
next
  case (signal s)
  then show ?case by (simp add: cv_signal_def)
next
  case (notify s)
  then show ?case by (simp add: cv_notify_def)
next
  case (tick s)
  then show ?case by (auto intro: waiter_ok_later)
qed

lemma wakeup_step:
  assumes "cv_step notify pass forever s s'" and "cv_inv s" and "m_signaled (sema s')"
  shows "0 < tokens s' \<or> 0 < unnotified s' \<or> (\<exists>i. awake (waiter s' i)) \<or> (\<forall>i u. waiter s' i \<noteq> Asleep u)"
  using assms
proof (induction rule: cv_step.induct)
  case (enter s i k)
  have "awake (waiter (cv_enter i k s) i)" by (simp add: cv_enter_def move_def awake_def)
  then show ?case by blast
next
  case (check s i)
  have "\<not> m_signaled (sema (cv_check pass forever i s))"
  proof (cases "m_signaled (sema s)")
    case True
    have "waiter s i \<noteq> Elsewhere" using check.hyps by simp
    with check.prems(1) have "waiter_ok (ticks s) (begun s i) (timeout s i) (waiter s i)"
      unfolding cv_inv_def by blast
    with check_ok True show ?thesis by blast
  next
    case False
    then show ?thesis by (auto simp: cv_check_def pass_is wait_end_def move_def split: option.split)
  qed
  with check.prems show ?case by simp
next
  case (take s i u)
  have "awake (waiter ((move i At_check s)\<lparr>tokens := tokens s - 1\<rparr>) i)" by (simp add: move_def awake_def)
  then show ?case by blast
next
  case (give_up s i u)
  have "awake (waiter (move i Gave_up s) i)" by (simp add: move_def awake_def)
  then show ?case by blast
next
  case (relock s i)
  then show ?case by (simp add: wait_end_def move_def split: if_splits)
next
  case (signal s)
  then show ?case by (simp add: cv_signal_def)
next
  case (notify s)
  then show ?case by (simp add: cv_notify_def notify_gives)
next
  case (tick s)
  then show ?case by (auto simp: cv_inv_def)
qed

lemma count_step:
  assumes "cv_step notify pass forever s s'" and "consumed s + (if m_signaled (sema s) then 1 else 0) \<le> signals s"
  shows "consumed s' + (if m_signaled (sema s') then 1 else 0) \<le> signals s'"
  using assms
proof (induction rule: cv_step.induct)
  case (signal s)
  then show ?case by (auto simp: cv_signal_def Signal_def split: if_splits)
qed (simp_all only: others ends_count, auto simp: cv_enter_def move_def cv_notify_def)

lemma reach_inv: "cv_reach notify pass forever s \<Longrightarrow> cv_inv s"
proof (induction rule: cv_reach.induct)
  case init
  show ?case by (simp add: cv_inv_def cv_start_def)
next
  case (step s s')
  note inv = step.IH [unfolded cv_inv_def]
  show ?case
    unfolding cv_inv_def
    using waiters_step [OF step.hyps(2) conjunct1 [OF inv]] wakeup_step [OF step.hyps(2) step.IH]
      count_step [OF step.hyps(2) conjunct2 [OF conjunct2 [OF inv]]] by blast
qed

end

interpretation freertos_cv: condition_variable fr_notify_one fr_wait_for_pass
  by unfold_locales (simp_all add: fr_notify_one_def fr_wait_for_pass_def Let_def)

interpretation threadx_cv: condition_variable tx_notify_one tx_wait_for_pass
  by unfold_locales (simp_all add: tx_notify_one_def tx_wait_for_pass_def Let_def)

section \<open>The semaphores of Zephyr, CMSIS-RTOS2 and NuttX\<close>

text \<open>Binary kernel semaphores: \<open>None\<close> while the call blocks.\<close>

definition k_sem_take :: "bool \<Rightarrow> bool \<Rightarrow> nat \<Rightarrow> (bool \<times> nat) option" where
  "k_sem_take forever time_is_up n =
     (if 0 < n then Some (True, n - 1) else if time_is_up \<and> \<not> forever then Some (False, n) else None)"

definition zephyr_Wait :: "bool \<Rightarrow> bool \<Rightarrow> nat \<Rightarrow> (bool \<times> nat) option" where
  "zephyr_Wait is_max time_is_up n = (if is_max then k_sem_take True time_is_up n else k_sem_take False time_is_up n)"

definition zephyr_Signal :: "nat \<Rightarrow> nat" where "zephyr_Signal n = min 1 (Suc n)"

text \<open>The timeout of \<^verbatim>\<open>osSemaphoreAcquire\<close>, of which the largest is \<^verbatim>\<open>osWaitForever\<close>.\<close>

definition cmsis_ticks :: "bool \<Rightarrow> int \<Rightarrow> u32" where
  "cmsis_ticks is_max ms = (if is_max then 0xFFFFFFFF else of_int ms)"

definition cmsis_Wait :: "bool \<Rightarrow> int \<Rightarrow> bool \<Rightarrow> nat \<Rightarrow> (bool \<times> nat) option" where
  "cmsis_Wait is_max ms time_is_up n = k_sem_take (cmsis_ticks is_max ms = 0xFFFFFFFF) time_is_up n"

definition cmsis_Signal :: "nat \<Rightarrow> nat" where "cmsis_Signal n = min 1 (Suc n)"

text \<open>On NuttX \<^verbatim>\<open>Signal\<close> reads the value, then posts: two steps of which other threads may come in between. The
  kernel's semaphore has no maximum.\<close>

definition nuttx_getvalue :: "nat \<Rightarrow> bool" where "nuttx_getvalue n \<longleftrightarrow> n = 0"

definition nuttx_post :: "bool \<Rightarrow> nat \<Rightarrow> nat" where
  "nuttx_post val_le_0 n = (if val_le_0 then Suc n else n)"

definition nuttx_Signal :: "nat \<Rightarrow> nat" where
  "nuttx_Signal n = nuttx_post (nuttx_getvalue n) n"

text \<open>The absolute deadline of \<^verbatim>\<open>sem_timedwait\<close>, seconds and nanoseconds.\<close>

definition nuttx_deadline :: "int \<Rightarrow> int \<Rightarrow> int \<Rightarrow> int \<times> int" where
  "nuttx_deadline sec nsec ns =
     (let sec = sec + ns sdiv 1000000000; nsec = nsec + ns smod 1000000000
      in if 1000000000 \<le> nsec then (sec + 1, nsec - 1000000000) else (sec, nsec))"

definition nuttx_Wait :: "bool \<Rightarrow> bool \<Rightarrow> nat \<Rightarrow> (bool \<times> nat) option" where
  "nuttx_Wait is_max time_is_up n = k_sem_take is_max time_is_up n"

text \<open>They agree with \<open>Semaphore\<close>, as far as \<^verbatim>\<open>Signal\<close> is one step.\<close>

definition token_of :: "Semaphore \<Rightarrow> nat" where
  "token_of s = (if m_signaled s then 1 else 0)"

lemma kernel_wait_is_wait:
  "k_sem_take forever time_is_up (token_of s) = map_option (map_prod id token_of) (Wait forever time_is_up s)"
  by (simp add: k_sem_take_def Wait_def token_of_def)

lemma nuttx_deadline_spec:
  assumes "0 \<le> nsec" "nsec < 1000000000" "0 \<le> ns" and "nuttx_deadline sec nsec ns = (sec', nsec')"
  shows "sec' * 1000000000 + nsec' = sec * 1000000000 + nsec + ns \<and> 0 \<le> nsec' \<and> nsec' < 1000000000"
proof -
  have "ns sdiv 1000000000 = ns div 1000000000" "ns smod 1000000000 = ns mod 1000000000"
    using assms(3) by (simp_all add: signed_divide_int_def signed_modulo_int_def sgn_if)
  with assms show ?thesis by (auto simp: nuttx_deadline_def Let_def split: if_splits)
qed

section \<open>Properties\<close>


definition one_waiting :: cv where
  "one_waiting = cv_signal (cv_check fr_wait_for_pass 0xFFFFFFFF 0 (cv_enter 0 (Some 5) cv_start))"

lemma one_waiting_reach: "cv_reach fr_notify_one fr_wait_for_pass 0xFFFFFFFF one_waiting"
  unfolding one_waiting_def
  by (intro cv_reach.step [OF _ cv_step.signal] cv_reach.step [OF _ cv_step.check] cv_reach.step [OF _ cv_step.enter]
      cv_reach.init) (simp_all add: cv_start_def cv_enter_def move_def)

lemma one_waiting_state: "m_signaled (sema one_waiting)" "waiter one_waiting 0 = Asleep (Some 5)" "tokens one_waiting = 0"
  "waiter one_waiting j = (if j = 0 then Asleep (Some 5) else Elsewhere)"
  by (simp_all add: one_waiting_def cv_signal_def cv_check_def cv_enter_def cv_start_def move_def fr_wait_for_pass_def
      Signal_def blocked_until_def)


text \<open>The conversion of ThreadX: exact up to the fraction of a tick, which is cut off, unless that leaves nothing.\<close>

theorem threadx_ticks:
  fixes t :: u32
  assumes "0 < ms" and "ms * int (unat t) < 2 ^ 64" and "ms * int (unat t) div 1000 < 2 ^ 32 - 1"
  shows "int (unat (tx_timeout_ticks t ms)) = max 1 (ms * int (unat t) div 1000)"
proof -
  define x where "x = ms * int (unat t)"
  have x: "0 \<le> x" "x < 2 ^ 64" "x div 1000 < 2 ^ 32 - 1" using assms by (simp_all add: x_def)
  have "uint t < 2 ^ 64" using uint_lt2p [of t] by simp
  then have "take_bit 64 (uint t) = uint t" by (simp add: take_bit_int_eq_self)
  then have "uint (of_int ms * ucast t :: 64 word) = x mod 2 ^ 64"
    by (simp add: x_def uint_word_ariths unsigned_ucast_eq uint_word_of_int mod_simps flip: of_int_mult)
  then have q: "uint (of_int ms * ucast t :: 64 word) = x" using x by simp
  then have d: "uint ((of_int ms * ucast t :: 64 word) div 1000) = x div 1000" by (simp add: uint_div)
  let ?total = "(of_int ms * ucast t :: 64 word) div 1000"
  have zero: "?total = 0 \<longleftrightarrow> x div 1000 = 0" using d by (metis uint_0_iff)
  show ?thesis
  proof (cases "x div 1000 = 0")
    case True
    with zero assms(1) show ?thesis by (simp add: tx_timeout_ticks_def x_def)
  next
    case False
    have small: "\<not> 0xFFFFFFFF < ?total" using d x(3) by (simp add: word_less_def)
    have "uint (ucast ?total :: u32) = x div 1000"
      using d x(1,3) by (simp add: unsigned_ucast_eq take_bit_int_eq_self pos_imp_zdiv_nonneg_iff)
    moreover have "tx_timeout_ticks t ms = ucast ?total" using False zero small by (simp add: tx_timeout_ticks_def)
    moreover have "max 1 (x div 1000) = x div 1000" using False x(1) by (simp add: max_def)
    ultimately show ?thesis by (simp add: x_def)
  qed
qed

text \<open>A negative timeout becomes the number that means for ever: \<^verbatim>\<open>wait_for\<close> blocks without limit, where
  \<^verbatim>\<open>std::condition_variable\<close> would return at once.\<close>

theorem threadx_negative_timeout_blocks:
  "waiter (cv_check tx_wait_for_pass 0xFFFFFFFF 0 (cv_enter 0 (Some (tx_timeout_ticks 1000 (- 1))) cv_start)) 0
    = Asleep None"
  by (simp add: tx_timeout_ticks_def tx_wait_for_pass_def cv_check_def cv_enter_def cv_start_def move_def blocked_until_def)

text \<open>Likewise on CMSIS-RTOS2; and a timeout of \<open>2 ^ 32\<close> milliseconds there is none at all.\<close>

theorem cmsis_timeout_narrowed:
  "cmsis_Wait False (- 1) True 0 = None" "cmsis_ticks False (2 ^ 32) = 0"
  by (simp_all add: cmsis_Wait_def cmsis_ticks_def k_sem_take_def)

text \<open>
  A signal and a wait of the semaphores of Zephyr, CMSIS-RTOS2 and NuttX are those of \<^verbatim>\<open>delegate/Semaphore.h\<close>,
  for timeouts in the range of the kernel's.
\<close>

theorem native_semaphores:
  "zephyr_Signal (token_of s) = token_of (Signal s)"
  "cmsis_Signal (token_of s) = token_of (Signal s)"
  "nuttx_Signal (token_of s) = token_of (Signal s)"
  "zephyr_Wait is_max up (token_of s) = map_option (map_prod id token_of) (Wait is_max up s)"
  "nuttx_Wait is_max up (token_of s) = map_option (map_prod id token_of) (Wait is_max up s)"
  "0 \<le> ms \<Longrightarrow> ms < 2 ^ 32 - 1 \<Longrightarrow>
     cmsis_Wait is_max ms up (token_of s) = map_option (map_prod id token_of) (Wait is_max up s)"
proof -
  show "cmsis_Wait is_max ms up (token_of s) = map_option (map_prod id token_of) (Wait is_max up s)"
    if ms: "0 \<le> ms" "ms < 2 ^ 32 - 1"
  proof -
    have "uint (of_int ms :: u32) = ms" using ms by (simp add: uint_word_of_int)
    then have "(of_int ms :: u32) \<noteq> 0xFFFFFFFF" using ms by auto
    then show ?thesis by (simp add: cmsis_Wait_def cmsis_ticks_def kernel_wait_is_wait)
  qed
  show "zephyr_Wait is_max up (token_of s) = map_option (map_prod id token_of) (Wait is_max up s)"
    "nuttx_Wait is_max up (token_of s) = map_option (map_prod id token_of) (Wait is_max up s)"
    by (simp_all add: zephyr_Wait_def nuttx_Wait_def kernel_wait_is_wait)
qed (simp_all add: zephyr_Signal_def cmsis_Signal_def nuttx_Signal_def nuttx_post_def nuttx_getvalue_def token_of_def
    Signal_def)

text \<open>On NuttX two signals at the same time leave two tokens: a later wait succeeds without a signal.\<close>

theorem nuttx_signals_race:
  "let n = 0; first = nuttx_getvalue n; second = nuttx_getvalue n; n = nuttx_post second (nuttx_post first n)
   in n = 2 \<and> nuttx_Wait False True (n - 1) = Some (True, 0)"
  by (simp add: nuttx_getvalue_def nuttx_post_def nuttx_Wait_def k_sem_take_def)

end
