(* ===== verification/PortQueues.thy ===== *)
theory PortQueues
  imports RtosQueue
begin

text \<open>
  The message queues of the other ports: \<^verbatim>\<open>CmsisRtos2DelegateQueue.h\<close> and \<^verbatim>\<open>NuttXDelegateQueue.h\<close>, one kernel
  queue that orders by priority itself, and \<^verbatim>\<open>ZephyrDelegateQueue.h\<close>, two kernel queues of which the HIGH one is
  looked at first. The kernels are parameters with the laws \<open>prio_mq_laws\<close> and \<open>queue_laws\<close>; calls are given
  as they return without waiting, or when their wait is over. The locale \<open>bounded_lanes\<close> is what a thread relies on.
\<close>

section \<open>The contract\<close>

locale bounded_lanes =
  fixes usable :: "'d \<Rightarrow> bool"
    and lane :: "Priority \<Rightarrow> 'd \<Rightarrow> 'm list"
    and full :: "Priority \<Rightarrow> 'd \<Rightarrow> bool"
    and put :: "'m \<Rightarrow> Priority \<Rightarrow> 'd \<Rightarrow> 'd option"
    and pop :: "'d \<Rightarrow> ('m \<times> 'd) option"
  assumes put_fails: "usable d \<Longrightarrow> put m p d = None \<longleftrightarrow> full p d"
    and put_done: "usable d \<Longrightarrow> put m p d = Some d' \<Longrightarrow>
      usable d' \<and> lane r d' = lane r d @ (if r = p then [m] else [])"
    and pop_fails: "usable d \<Longrightarrow> pop d = None \<longleftrightarrow> lane HIGH d = [] \<and> lane NORMAL d = []"
    and pop_done: "usable d \<Longrightarrow> pop d = Some (m, d') \<Longrightarrow> usable d'
      \<and> (case lane HIGH d of
           x # xs \<Rightarrow> m = x \<and> lane HIGH d' = xs \<and> lane NORMAL d' = lane NORMAL d
         | [] \<Rightarrow> lane HIGH d' = [] \<and> lane NORMAL d = m # lane NORMAL d')"
begin

text \<open>Emptying the queue by taking messages off ends and gives every message, HIGH first.\<close>

lemma drained:
  "usable d \<Longrightarrow> \<exists>d'. drain_lane pop d = Some (lane HIGH d @ lane NORMAL d, d') \<and> usable d'
     \<and> lane HIGH d' = [] \<and> lane NORMAL d' = []"
proof (induction "length (lane HIGH d) + length (lane NORMAL d)" arbitrary: d)
  case 0
  then have "pop d = None" by (simp add: pop_fails)
  with 0 show ?case by (subst drain_lane.simps) simp
next
  case (Suc k)
  then have "pop d \<noteq> None" using pop_fails [OF Suc.prems] by auto
  then obtain m d1 where r: "pop d = Some (m, d1)" by auto
  note taken = pop_done [OF Suc.prems r]
  have len: "k = length (lane HIGH d1) + length (lane NORMAL d1)"
    and all: "lane HIGH d @ lane NORMAL d = m # lane HIGH d1 @ lane NORMAL d1"
    using Suc.hyps(2) taken by (auto split: list.splits)
  from Suc.hyps(1) [OF len] taken obtain d' where "drain_lane pop d1 = Some (lane HIGH d1 @ lane NORMAL d1, d')"
    "usable d'" "lane HIGH d' = []" "lane NORMAL d' = []" by blast
  with all show ?case by (subst drain_lane.simps) (simp add: r)
qed

text \<open>Sends (of messages of their priority) and receives in any order: what was accepted and received.\<close>

fun traffic :: "('m \<Rightarrow> Priority) \<Rightarrow> 'm option list \<Rightarrow> 'd \<Rightarrow> 'm list \<times> 'm list \<times> 'd" where
  "traffic prio [] d = ([], [], d)"
| "traffic prio (Some m # ops) d =
     (case put m (prio m) d of
        None \<Rightarrow> traffic prio ops d
      | Some d1 \<Rightarrow> (let (xs, ys, d2) = traffic prio ops d1 in (m # xs, ys, d2)))"
| "traffic prio (None # ops) d =
     (case pop d of
        None \<Rightarrow> traffic prio ops d
      | Some (m, d1) \<Rightarrow> (let (xs, ys, d2) = traffic prio ops d1 in (xs, m # ys, d2)))"

lemma delivered_once_in_order:
  assumes "usable d" and "\<forall>r. \<forall>m \<in> set (lane r d). prio m = r" and "traffic prio ops d = (accepted, received, d')"
  shows "usable d' \<and> lane p d @ filter (\<lambda>m. prio m = p) accepted = filter (\<lambda>m. prio m = p) received @ lane p d'"
  using assms
proof (induction ops arbitrary: d accepted received)
  case (Cons op ops)
  note prems = Cons.prems and IH = Cons.IH
  consider (refused) m where "op = Some m" "put m (prio m) d = None"
    | (sent) m d1 where "op = Some m" "put m (prio m) d = Some d1"
    | (nothing) "op = None" "pop d = None" | (got) m d1 where "op = None" "pop d = Some (m, d1)"
    by (cases op) force+
  then show ?case
  proof cases
    case (refused m)
    then have "traffic prio ops d = (accepted, received, d')" using prems(3) by simp
    from IH [OF prems(1,2) this] show ?thesis .
  next
    case nothing
    then have "traffic prio ops d = (accepted, received, d')" using prems(3) by simp
    from IH [OF prems(1,2) this] show ?thesis .
  next
    case (sent m d1)
    then obtain xs where t: "traffic prio ops d1 = (xs, received, d')" "accepted = m # xs"
      using prems(3) by (auto split: prod.splits)
    note put = put_done [OF prems(1) sent(2)]
    have "\<forall>r. \<forall>x \<in> set (lane r d1). prio x = r" using put prems(2) by auto
    from IH [OF conjunct1 [OF put] this t(1)] put t(2) show ?thesis by (auto split: if_splits)
  next
    case (got m d1)
    then obtain ys where t: "traffic prio ops d1 = (accepted, ys, d')" "received = m # ys"
      using prems(3) by (auto split: prod.splits)
    note pop = pop_done [OF prems(1) got(2)]
    have lanes: "lane r d = (if prio m = r then [m] else []) @ lane r d1" for r
    proof (cases "lane HIGH d")
      case Nil
      then have n: "lane HIGH d1 = []" "lane NORMAL d = m # lane NORMAL d1" using pop by simp_all
      then have "prio m = NORMAL" using prems(2) by simp
      with Nil n show ?thesis by (cases r) simp_all
    next
      case (Cons x xs)
      then have h: "m = x" "lane HIGH d1 = xs" "lane NORMAL d1 = lane NORMAL d" using pop by simp_all
      have "prio x = HIGH" using prems(2) Cons by simp
      with Cons h show ?thesis by (cases r) simp_all
    qed
    have "prio x = r" if "x \<in> set (lane r d1)" for r x
    proof -
      have "x \<in> set (lane r d)" unfolding lanes [of r] using that by simp
      with prems(2) show ?thesis by blast
    qed
    then have "\<forall>r. \<forall>x \<in> set (lane r d1). prio x = r" by blast
    from IH [OF conjunct1 [OF pop] this t(1)] lanes [of p] t(2) show ?thesis by (auto split: if_splits)
  qed
qed simp

end

section \<open>One queue with priorities\<close>

text \<open>A kernel queue whose messages have a priority: create, put, get, count, and what is in it.\<close>

record ('q, 'm) prio_mq =
  mq_new :: "nat \<Rightarrow> 'q option"
  mq_put :: "'q \<Rightarrow> 'm \<Rightarrow> nat \<Rightarrow> 'q option"
  mq_get :: "'q \<Rightarrow> ('m \<times> 'q) option"
  mq_count :: "'q \<Rightarrow> nat"

record ('q, 'm) mq_view =
  of_prio :: "nat \<Rightarrow> 'q \<Rightarrow> 'm list"
  space :: "'q \<Rightarrow> nat"

definition prio_mq_laws :: "('q, 'm) prio_mq \<Rightarrow> ('q, 'm) mq_view \<Rightarrow> bool" where
  "prio_mq_laws K V \<longleftrightarrow>
     (\<forall>n q. mq_new K n = Some q \<longrightarrow> of_prio V 0 q = [] \<and> of_prio V 1 q = [] \<and> space V q = n)
     \<and> (\<forall>q. mq_count K q = length (of_prio V 0 q) + length (of_prio V 1 q))
     \<and> (\<forall>q m k. mq_put K q m k = None \<longleftrightarrow> space V q \<le> mq_count K q)
     \<and> (\<forall>q m k q'. mq_put K q m k = Some q' \<longrightarrow>
          space V q' = space V q \<and> (\<forall>j. of_prio V j q' = of_prio V j q @ (if j = k then [m] else [])))
     \<and> (\<forall>q. mq_get K q = None \<longleftrightarrow> mq_count K q = 0)
     \<and> (\<forall>q m q'. mq_get K q = Some (m, q') \<longrightarrow> space V q' = space V q
          \<and> (case of_prio V 1 q of
               x # xs \<Rightarrow> m = x \<and> of_prio V 1 q' = xs \<and> of_prio V 0 q' = of_prio V 0 q
             | [] \<Rightarrow> of_prio V 1 q' = [] \<and> of_prio V 0 q = m # of_prio V 0 q'))"

text \<open>\<^verbatim>\<open>CmsisRtos2DelegateQueue\<close>; a call on a null queue returns an error.\<close>

record 'q CmsisRtos2DelegateQueue =
  m_msgq :: "'q option"

definition cq_Create :: "('q, 'm) prio_mq \<Rightarrow> nat \<Rightarrow> 'q CmsisRtos2DelegateQueue \<Rightarrow> bool \<times> 'q CmsisRtos2DelegateQueue" where
  "cq_Create K capacity d =
     (let d1 = (if m_msgq d = None then d\<lparr>m_msgq := mq_new K capacity\<rparr> else d) in (m_msgq d1 \<noteq> None, d1))"

definition cq_Send :: "('q, 'm) prio_mq \<Rightarrow> 'm \<Rightarrow> Priority \<Rightarrow> 'q CmsisRtos2DelegateQueue \<Rightarrow> 'q CmsisRtos2DelegateQueue option" where
  "cq_Send K m p d =
     (let msg_prio = (if p = HIGH then 1 else 0) in
      case m_msgq d of None \<Rightarrow> None
      | Some q \<Rightarrow> map_option (\<lambda>q'. d\<lparr>m_msgq := Some q'\<rparr>) (mq_put K q m msg_prio))"

definition cq_Receive :: "('q, 'm) prio_mq \<Rightarrow> 'q CmsisRtos2DelegateQueue \<Rightarrow> ('m \<times> 'q CmsisRtos2DelegateQueue) option" where
  "cq_Receive K d =
     (case m_msgq d of None \<Rightarrow> None
      | Some q \<Rightarrow> map_option (\<lambda>(m, q'). (m, d\<lparr>m_msgq := Some q'\<rparr>)) (mq_get K q))"

definition cq_Size :: "('q, 'm) prio_mq \<Rightarrow> 'q CmsisRtos2DelegateQueue \<Rightarrow> nat" where
  "cq_Size K d = (case m_msgq d of None \<Rightarrow> 0 | Some q \<Rightarrow> mq_count K q)"

definition cq_DrainAndDelete ::
  "('q, 'm) prio_mq \<Rightarrow> 'q CmsisRtos2DelegateQueue \<Rightarrow> ('m list \<times> 'q CmsisRtos2DelegateQueue) option" where
  "cq_DrainAndDelete K d = drain_lane (cq_Receive K) d"

definition cq_Destroy :: "'q CmsisRtos2DelegateQueue \<Rightarrow> 'q CmsisRtos2DelegateQueue" where
  "cq_Destroy d = d\<lparr>m_msgq := None\<rparr>"

text \<open>\<^verbatim>\<open>NuttXDelegateQueue\<close>: a POSIX message queue, invalid until it is created.\<close>

record 'q NuttXDelegateQueue =
  m_mqd :: "'q option"

definition nq_Create :: "('q, 'm) prio_mq \<Rightarrow> nat \<Rightarrow> 'q NuttXDelegateQueue \<Rightarrow> bool \<times> 'q NuttXDelegateQueue" where
  "nq_Create K capacity d =
     (if m_mqd d \<noteq> None then (True, d)
      else let d1 = d\<lparr>m_mqd := mq_new K capacity\<rparr> in (m_mqd d1 \<noteq> None, d1))"

definition nq_Send :: "('q, 'm) prio_mq \<Rightarrow> 'm \<Rightarrow> Priority \<Rightarrow> 'q NuttXDelegateQueue \<Rightarrow> 'q NuttXDelegateQueue option" where
  "nq_Send K m p d =
     (let prio = (if p = HIGH then 1 else 0) in
      case m_mqd d of None \<Rightarrow> None
      | Some q \<Rightarrow> map_option (\<lambda>q'. d\<lparr>m_mqd := Some q'\<rparr>) (mq_put K q m prio))"

definition nq_Receive :: "('q, 'm) prio_mq \<Rightarrow> 'q NuttXDelegateQueue \<Rightarrow> ('m \<times> 'q NuttXDelegateQueue) option" where
  "nq_Receive K d =
     (case m_mqd d of None \<Rightarrow> None
      | Some q \<Rightarrow> map_option (\<lambda>(m, q'). (m, d\<lparr>m_mqd := Some q'\<rparr>)) (mq_get K q))"

definition nq_Size :: "('q, 'm) prio_mq \<Rightarrow> 'q NuttXDelegateQueue \<Rightarrow> nat" where
  "nq_Size K d = (case m_mqd d of None \<Rightarrow> 0 | Some q \<Rightarrow> mq_count K q)"

definition nq_DrainAndDelete ::
  "('q, 'm) prio_mq \<Rightarrow> 'q NuttXDelegateQueue \<Rightarrow> ('m list \<times> 'q NuttXDelegateQueue) option" where
  "nq_DrainAndDelete K d = drain_lane (nq_Receive K) d"

definition nq_Destroy :: "'q NuttXDelegateQueue \<Rightarrow> 'q NuttXDelegateQueue" where
  "nq_Destroy d = (if m_mqd d \<noteq> None then d\<lparr>m_mqd := None\<rparr> else d)"

section \<open>Two queues\<close>

text \<open>\<^verbatim>\<open>ZephyrDelegateQueue\<close>: a queue that was never initialised is zero and takes nothing. A queue works on its buffer,
  which may be freed before it.\<close>

record ('q, 'm) k_msgq =
  k_msgq_init :: "nat \<Rightarrow> 'q"
  k_msgq_put :: "'q \<Rightarrow> 'm \<Rightarrow> 'q option"
  k_msgq_get :: "'q \<Rightarrow> ('m \<times> 'q) option"
  k_msgq_num_used_get :: "'q \<Rightarrow> nat"

record 'q ZephyrDelegateQueue =
  m_highMsgq :: "'q option"
  m_normalMsgq :: "'q option"
  m_highBuffer :: bool
  m_normalBuffer :: bool
  m_created :: bool

text \<open>\<open>alloc\<close> tells which of the buffers can be allocated.\<close>

definition zq_Create ::
  "('q, 'm) k_msgq \<Rightarrow> (Priority \<Rightarrow> bool) \<Rightarrow> nat \<Rightarrow> 'q ZephyrDelegateQueue \<Rightarrow> bool \<times> 'q ZephyrDelegateQueue" where
  "zq_Create K alloc capacity d =
     (if m_created d then (True, d)
      else if \<not> alloc HIGH then (False, d)
      else let d1 = d\<lparr>m_highBuffer := True, m_highMsgq := Some (k_msgq_init K capacity)\<rparr> in
           if \<not> alloc NORMAL then (False, d1\<lparr>m_highBuffer := False\<rparr>)
           else (True, d1\<lparr>m_normalBuffer := True, m_normalMsgq := Some (k_msgq_init K capacity), m_created := True\<rparr>))"

definition zq_empty :: "'q ZephyrDelegateQueue" where
  "zq_empty = \<lparr>m_highMsgq = None, m_normalMsgq = None, m_highBuffer = False, m_normalBuffer = False, m_created = False\<rparr>"

definition zq_Send :: "('q, 'm) k_msgq \<Rightarrow> 'm \<Rightarrow> Priority \<Rightarrow> 'q ZephyrDelegateQueue \<Rightarrow> 'q ZephyrDelegateQueue option" where
  "zq_Send K m p d =
     (if p = HIGH
      then (case m_highMsgq d of None \<Rightarrow> None
            | Some q \<Rightarrow> map_option (\<lambda>q'. d\<lparr>m_highMsgq := Some q'\<rparr>) (k_msgq_put K q m))
      else (case m_normalMsgq d of None \<Rightarrow> None
            | Some q \<Rightarrow> map_option (\<lambda>q'. d\<lparr>m_normalMsgq := Some q'\<rparr>) (k_msgq_put K q m)))"

definition zq_get :: "('q, 'm) k_msgq \<Rightarrow> Priority \<Rightarrow> 'q ZephyrDelegateQueue \<Rightarrow> ('m \<times> 'q ZephyrDelegateQueue) option" where
  "zq_get K p d =
     (case (if p = HIGH then m_highMsgq d else m_normalMsgq d) of None \<Rightarrow> None
      | Some q \<Rightarrow> map_option (\<lambda>(m, q'). (m, if p = HIGH then d\<lparr>m_highMsgq := Some q'\<rparr> else d\<lparr>m_normalMsgq := Some q'\<rparr>))
          (k_msgq_get K q))"

text \<open>One look at both queues, then \<^verbatim>\<open>Receive\<close>: \<open>others\<close> is what other threads do between two calls of the
  kernel, \<open>waited\<close> what they do during \<^verbatim>\<open>k_poll\<close>, \<open>None\<close> if it times out.\<close>

definition zq_look ::
  "('q, 'm) k_msgq \<Rightarrow> ('q ZephyrDelegateQueue \<Rightarrow> 'q ZephyrDelegateQueue) \<Rightarrow> 'q ZephyrDelegateQueue
   \<Rightarrow> 'm option \<times> 'q ZephyrDelegateQueue" where
  "zq_look K others d =
     (case zq_get K HIGH d of
        Some (m, d1) \<Rightarrow> (Some m, d1)
      | None \<Rightarrow>
          let d1 = others d in
          (case zq_get K NORMAL d1 of Some (m, d2) \<Rightarrow> (Some m, d2) | None \<Rightarrow> (None, d1)))"

definition zq_Receive ::
  "('q, 'm) k_msgq \<Rightarrow> bool \<Rightarrow> ('q ZephyrDelegateQueue \<Rightarrow> 'q ZephyrDelegateQueue)
   \<Rightarrow> ('q ZephyrDelegateQueue \<Rightarrow> 'q ZephyrDelegateQueue option) \<Rightarrow> 'q ZephyrDelegateQueue
   \<Rightarrow> 'm option \<times> 'q ZephyrDelegateQueue" where
  "zq_Receive K no_wait others waited d =
     (case zq_look K others d of
        (Some m, d1) \<Rightarrow> (Some m, d1)
      | (None, d1) \<Rightarrow>
          if no_wait then (None, d1)
          else (case waited d1 of None \<Rightarrow> (None, d1) | Some d2 \<Rightarrow> zq_look K others d2))"

definition zq_pop :: "('q, 'm) k_msgq \<Rightarrow> 'q ZephyrDelegateQueue \<Rightarrow> ('m \<times> 'q ZephyrDelegateQueue) option" where
  "zq_pop K d = (case zq_Receive K True id (\<lambda>_. None) d of (None, _) \<Rightarrow> None | (Some m, d') \<Rightarrow> Some (m, d'))"

definition zq_Size :: "('q, 'm) k_msgq \<Rightarrow> 'q ZephyrDelegateQueue \<Rightarrow> nat" where
  "zq_Size K d =
     (if m_created d
      then (case m_highMsgq d of None \<Rightarrow> 0 | Some q \<Rightarrow> k_msgq_num_used_get K q)
         + (case m_normalMsgq d of None \<Rightarrow> 0 | Some q \<Rightarrow> k_msgq_num_used_get K q)
      else 0)"

definition zq_DrainAndDelete ::
  "('q, 'm) k_msgq \<Rightarrow> 'q ZephyrDelegateQueue \<Rightarrow> ('m list \<times> 'q ZephyrDelegateQueue) option" where
  "zq_DrainAndDelete K d =
     Option.bind (drain_lane (zq_get K HIGH) d) (\<lambda>(xs, d1).
     Option.bind (drain_lane (zq_get K NORMAL) d1) (\<lambda>(ys, d2). Some (xs @ ys, d2)))"

definition zq_Destroy :: "'q ZephyrDelegateQueue \<Rightarrow> 'q ZephyrDelegateQueue" where
  "zq_Destroy d = d\<lparr>m_highBuffer := False, m_normalBuffer := False, m_created := False\<rparr>"

text \<open>A queue that is initialised and whose buffer has been freed.\<close>

definition zq_dangling :: "'q ZephyrDelegateQueue \<Rightarrow> bool" where
  "zq_dangling d \<longleftrightarrow> (m_highMsgq d \<noteq> None \<and> \<not> m_highBuffer d) \<or> (m_normalMsgq d \<noteq> None \<and> \<not> m_normalBuffer d)"

section \<open>The contract holds\<close>

definition mq_lane :: "('q, 'm) mq_view \<Rightarrow> Priority \<Rightarrow> 'q option \<Rightarrow> 'm list" where
  "mq_lane V p h = (case h of None \<Rightarrow> [] | Some q \<Rightarrow> of_prio V (if p = HIGH then 1 else 0) q)"

definition mq_full :: "('q, 'm) mq_view \<Rightarrow> Priority \<Rightarrow> 'q option \<Rightarrow> bool" where
  "mq_full V p h \<longleftrightarrow> (case h of None \<Rightarrow> True | Some q \<Rightarrow> space V q \<le> length (of_prio V 0 q) + length (of_prio V 1 q))"

lemma prio_mq_count: "prio_mq_laws K V \<Longrightarrow> mq_count K q = length (of_prio V 0 q) + length (of_prio V 1 q)"
  and prio_mq_put_none: "prio_mq_laws K V \<Longrightarrow> mq_put K q m k = None \<longleftrightarrow> space V q \<le> mq_count K q"
  and prio_mq_put: "prio_mq_laws K V \<Longrightarrow> mq_put K q m k = Some q' \<Longrightarrow>
    of_prio V j q' = of_prio V j q @ (if j = k then [m] else [])"
  and prio_mq_get_none: "prio_mq_laws K V \<Longrightarrow> mq_get K q = None \<longleftrightarrow> mq_count K q = 0"
  and prio_mq_get: "prio_mq_laws K V \<Longrightarrow> mq_get K q = Some (m, q') \<Longrightarrow>
    (case of_prio V 1 q of
       x # xs \<Rightarrow> m = x \<and> of_prio V 1 q' = xs \<and> of_prio V 0 q' = of_prio V 0 q
     | [] \<Rightarrow> of_prio V 1 q' = [] \<and> of_prio V 0 q = m # of_prio V 0 q')"
  unfolding prio_mq_laws_def by blast+

lemmas prio_mq_facts = prio_mq_count prio_mq_put_none prio_mq_get_none

interpretation cq: bounded_lanes "\<lambda>d. prio_mq_laws K V \<and> m_msgq d \<noteq> None" "\<lambda>p d. mq_lane V p (m_msgq d)"
  "\<lambda>p d. mq_full V p (m_msgq d)" "cq_Send K" "cq_Receive K" for K :: "('q, 'm) prio_mq" and V
proof
  fix d d' :: "'q CmsisRtos2DelegateQueue" and m p r
  assume d: "prio_mq_laws K V \<and> m_msgq d \<noteq> None"
  then obtain q where q: "m_msgq d = Some q" and K: "prio_mq_laws K V" by auto
  note facts = prio_mq_facts [OF K] mq_lane_def mq_full_def cq_Send_def cq_Receive_def q Let_def
  show "cq_Send K m p d = None \<longleftrightarrow> mq_full V p (m_msgq d)" by (simp add: facts)
  show "(prio_mq_laws K V \<and> m_msgq d' \<noteq> None)
      \<and> mq_lane V r (m_msgq d') = mq_lane V r (m_msgq d) @ (if r = p then [m] else [])"
    if "cq_Send K m p d = Some d'"
    using that prio_mq_put [OF K] K by (cases p; cases r) (auto simp: facts)
  show "cq_Receive K d = None \<longleftrightarrow> mq_lane V HIGH (m_msgq d) = [] \<and> mq_lane V NORMAL (m_msgq d) = []"
    by (auto simp: facts)
  show "(prio_mq_laws K V \<and> m_msgq d' \<noteq> None)
      \<and> (case mq_lane V HIGH (m_msgq d) of
           x # xs \<Rightarrow> m = x \<and> mq_lane V HIGH (m_msgq d') = xs \<and> mq_lane V NORMAL (m_msgq d') = mq_lane V NORMAL (m_msgq d)
         | [] \<Rightarrow> mq_lane V HIGH (m_msgq d') = [] \<and> mq_lane V NORMAL (m_msgq d) = m # mq_lane V NORMAL (m_msgq d'))"
    if "cq_Receive K d = Some (m, d')"
  proof -
    from that obtain q' where get: "mq_get K q = Some (m, q')" and d': "d' = d\<lparr>m_msgq := Some q'\<rparr>"
      by (auto simp: cq_Receive_def q)
    from prio_mq_get [OF K get] K show ?thesis by (cases "of_prio V 1 q") (simp_all add: d' mq_lane_def q)
  qed
qed

interpretation nq: bounded_lanes "\<lambda>d. prio_mq_laws K V \<and> m_mqd d \<noteq> None" "\<lambda>p d. mq_lane V p (m_mqd d)"
  "\<lambda>p d. mq_full V p (m_mqd d)" "nq_Send K" "nq_Receive K" for K :: "('q, 'm) prio_mq" and V
proof
  fix d d' :: "'q NuttXDelegateQueue" and m p r
  assume d: "prio_mq_laws K V \<and> m_mqd d \<noteq> None"
  then obtain q where q: "m_mqd d = Some q" and K: "prio_mq_laws K V" by auto
  note facts = prio_mq_facts [OF K] mq_lane_def mq_full_def nq_Send_def nq_Receive_def q Let_def
  show "nq_Send K m p d = None \<longleftrightarrow> mq_full V p (m_mqd d)" by (simp add: facts)
  show "(prio_mq_laws K V \<and> m_mqd d' \<noteq> None)
      \<and> mq_lane V r (m_mqd d') = mq_lane V r (m_mqd d) @ (if r = p then [m] else [])"
    if "nq_Send K m p d = Some d'"
    using that prio_mq_put [OF K] K by (cases p; cases r) (auto simp: facts)
  show "nq_Receive K d = None \<longleftrightarrow> mq_lane V HIGH (m_mqd d) = [] \<and> mq_lane V NORMAL (m_mqd d) = []"
    by (auto simp: facts)
  show "(prio_mq_laws K V \<and> m_mqd d' \<noteq> None)
      \<and> (case mq_lane V HIGH (m_mqd d) of
           x # xs \<Rightarrow> m = x \<and> mq_lane V HIGH (m_mqd d') = xs \<and> mq_lane V NORMAL (m_mqd d') = mq_lane V NORMAL (m_mqd d)
         | [] \<Rightarrow> mq_lane V HIGH (m_mqd d') = [] \<and> mq_lane V NORMAL (m_mqd d) = m # mq_lane V NORMAL (m_mqd d'))"
    if "nq_Receive K d = Some (m, d')"
  proof -
    from that obtain q' where get: "mq_get K q = Some (m, q')" and d': "d' = d\<lparr>m_mqd := Some q'\<rparr>"
      by (auto simp: nq_Receive_def q)
    from prio_mq_get [OF K get] K show ?thesis by (cases "of_prio V 1 q") (simp_all add: d' mq_lane_def q)
  qed
qed

definition zq_lane :: "('q, 's, 'm) kernel_view \<Rightarrow> Priority \<Rightarrow> 'q ZephyrDelegateQueue \<Rightarrow> 'm list" where
  "zq_lane V p d = handle_items V (if p = HIGH then m_highMsgq d else m_normalMsgq d)"

definition zq_full :: "('q, 's, 'm) kernel_view \<Rightarrow> Priority \<Rightarrow> 'q ZephyrDelegateQueue \<Rightarrow> bool" where
  "zq_full V p d \<longleftrightarrow> (case (if p = HIGH then m_highMsgq d else m_normalMsgq d) of
      None \<Rightarrow> True | Some q \<Rightarrow> room V q \<le> length (items V q))"

definition zq_usable :: "('q, 'm) k_msgq \<Rightarrow> ('q, 's, 'm) kernel_view \<Rightarrow> 'q ZephyrDelegateQueue \<Rightarrow> bool" where
  "zq_usable K V d \<longleftrightarrow> queue_laws V (\<lambda>n. Some (k_msgq_init K n)) (k_msgq_put K) (k_msgq_get K) (k_msgq_num_used_get K)
     \<and> m_highMsgq d \<noteq> None \<and> m_normalMsgq d \<noteq> None \<and> m_created d \<and> \<not> zq_dangling d"

lemmas zq_view_defs = zq_lane_def zq_full_def handle_items_def

lemma zq_pop_eq: "zq_pop K d = (case zq_get K HIGH d of None \<Rightarrow> zq_get K NORMAL d | r \<Rightarrow> r)"
  by (auto simp: zq_pop_def zq_Receive_def zq_look_def split: option.split)

lemma zq_usableE:
  assumes "zq_usable K V d"
  obtains h n where "m_highMsgq d = Some h" "m_normalMsgq d = Some n"
    "queue_laws V (\<lambda>n. Some (k_msgq_init K n)) (k_msgq_put K) (k_msgq_get K) (k_msgq_num_used_get K)"
  using assms by (auto simp: zq_usable_def)

lemma zq_get_done:
  assumes "zq_usable K V d" and "zq_get K p d = Some (m, d')"
  shows "zq_usable K V d' \<and> zq_lane V p d = m # zq_lane V p d' \<and> (\<forall>r. r \<noteq> p \<longrightarrow> zq_lane V r d' = zq_lane V r d)"
proof -
  obtain h n where q: "m_highMsgq d = Some h" "m_normalMsgq d = Some n"
    and laws: "queue_laws V (\<lambda>n. Some (k_msgq_init K n)) (k_msgq_put K) (k_msgq_get K) (k_msgq_num_used_get K)"
    using assms(1) by (rule zq_usableE)
  show ?thesis
    using assms queue_receive(2) [OF laws] priority_cases
    by (cases p) (auto simp: zq_get_def q zq_view_defs zq_usable_def zq_dangling_def)
qed

lemma zq_get_none: "zq_usable K V d \<Longrightarrow> zq_get K p d = None \<longleftrightarrow> zq_lane V p d = []"
  by (erule zq_usableE) (cases p; simp add: zq_get_def zq_view_defs queue_receive(1))

interpretation zq: bounded_lanes "zq_usable K V" "zq_lane V" "zq_full V" "zq_Send K" "zq_pop K"
  for K :: "('q, 'm) k_msgq" and V :: "('q, 's, 'm) kernel_view"
proof
  fix d d' :: "'q ZephyrDelegateQueue" and m p r
  assume u: "zq_usable K V d"
  then obtain h n where q: "m_highMsgq d = Some h" "m_normalMsgq d = Some n"
    and laws: "queue_laws V (\<lambda>n. Some (k_msgq_init K n)) (k_msgq_put K) (k_msgq_get K) (k_msgq_num_used_get K)"
    by (rule zq_usableE)
  show "zq_Send K m p d = None \<longleftrightarrow> zq_full V p d"
    by (simp add: zq_Send_def zq_full_def q queue_send(3) [OF laws])
  show "zq_usable K V d' \<and> zq_lane V r d' = zq_lane V r d @ (if r = p then [m] else [])" if "zq_Send K m p d = Some d'"
    using that u queue_send(1) [OF laws]
    by (cases p; cases r) (auto simp: zq_Send_def zq_view_defs q zq_usable_def zq_dangling_def)
  show "zq_pop K d = None \<longleftrightarrow> zq_lane V HIGH d = [] \<and> zq_lane V NORMAL d = []"
    using zq_get_none [OF u, of HIGH] zq_get_none [OF u, of NORMAL]
    by (cases "zq_get K HIGH d") (auto simp: zq_pop_eq)
  show "zq_usable K V d' \<and> (case zq_lane V HIGH d of
           x # xs \<Rightarrow> m = x \<and> zq_lane V HIGH d' = xs \<and> zq_lane V NORMAL d' = zq_lane V NORMAL d
         | [] \<Rightarrow> zq_lane V HIGH d' = [] \<and> zq_lane V NORMAL d = m # zq_lane V NORMAL d')"
    if pop: "zq_pop K d = Some (m, d')"
  proof (cases "zq_get K HIGH d")
    case None
    with pop have "zq_get K NORMAL d = Some (m, d')" by (simp add: zq_pop_eq)
    from zq_get_done [OF u this] None zq_get_none [OF u, of HIGH] show ?thesis by simp
  next
    case (Some x)
    with pop have "zq_get K HIGH d = Some (m, d')" by (simp add: zq_pop_eq)
    from zq_get_done [OF u this] show ?thesis by simp
  qed
qed

section \<open>Properties\<close>

text \<open>On each of the three kernels a fresh queue takes and gives messages so that, per priority, what was accepted is what
  was received, in order, followed by what waits; and deleting what waits ends and cancels all of it.\<close>

theorem cmsis_queue_delivers:
  assumes "prio_mq_laws K V" and "cq_Create K capacity (cq_Destroy d0) = (True, d)"
    and "cq.traffic K prio ops d = (accepted, received, d')"
  shows "filter (\<lambda>m. prio m = p) accepted = filter (\<lambda>m. prio m = p) received @ mq_lane V p (m_msgq d')"
    and "\<exists>d''. cq_DrainAndDelete K d' = Some (mq_lane V HIGH (m_msgq d') @ mq_lane V NORMAL (m_msgq d'), d'')"
proof -
  obtain q where q: "m_msgq d = Some q" "mq_new K capacity = Some q"
    using assms(2) by (auto simp: cq_Create_def cq_Destroy_def Let_def)
  then have empty: "mq_lane V r (m_msgq d) = []" for r
    using assms(1) by (simp add: mq_lane_def prio_mq_laws_def)
  note run = cq.delivered_once_in_order [where V = V, OF _ _ assms(3)]
  show "filter (\<lambda>m. prio m = p) accepted = filter (\<lambda>m. prio m = p) received @ mq_lane V p (m_msgq d')"
    using run [of p] assms(1) q(1) empty by simp
  show "\<exists>d''. cq_DrainAndDelete K d' = Some (mq_lane V HIGH (m_msgq d') @ mq_lane V NORMAL (m_msgq d'), d'')"
    unfolding cq_DrainAndDelete_def
    using run [of p] assms(1) q(1) empty cq.drained [of K V d'] by auto
qed

theorem nuttx_queue_delivers:
  assumes "prio_mq_laws K V" and "nq_Create K capacity (nq_Destroy d0) = (True, d)"
    and "nq.traffic K prio ops d = (accepted, received, d')"
  shows "filter (\<lambda>m. prio m = p) accepted = filter (\<lambda>m. prio m = p) received @ mq_lane V p (m_mqd d')"
    and "\<exists>d''. nq_DrainAndDelete K d' = Some (mq_lane V HIGH (m_mqd d') @ mq_lane V NORMAL (m_mqd d'), d'')"
proof -
  obtain q where q: "m_mqd d = Some q" "mq_new K capacity = Some q"
    using assms(2) by (auto simp: nq_Create_def nq_Destroy_def Let_def split: if_splits)
  then have empty: "mq_lane V r (m_mqd d) = []" for r
    using assms(1) by (simp add: mq_lane_def prio_mq_laws_def)
  note run = nq.delivered_once_in_order [where V = V, OF _ _ assms(3)]
  show "filter (\<lambda>m. prio m = p) accepted = filter (\<lambda>m. prio m = p) received @ mq_lane V p (m_mqd d')"
    using run [of p] assms(1) q(1) empty by simp
  show "\<exists>d''. nq_DrainAndDelete K d' = Some (mq_lane V HIGH (m_mqd d') @ mq_lane V NORMAL (m_mqd d'), d'')"
    unfolding nq_DrainAndDelete_def
    using run [of p] assms(1) q(1) empty nq.drained [of K V d'] by auto
qed

lemma zq_drain:
  "zq_usable K V d \<Longrightarrow> \<exists>d'. drain_lane (zq_get K p) d = Some (zq_lane V p d, d') \<and> zq_usable K V d'
     \<and> (\<forall>r. zq_lane V r d' = (if r = p then [] else zq_lane V r d))"
proof (induction "zq_lane V p d" arbitrary: d)
  case Nil
  then have "zq_get K p d = None" using zq_get_none [OF Nil.prems, of p] by simp
  with Nil show ?case by (subst drain_lane.simps) auto
next
  case (Cons m ms)
  have "zq_get K p d \<noteq> None" using zq_get_none [OF Cons.prems, of p] Cons.hyps(2) by (metis list.distinct(1))
  then obtain m' d1 where r: "zq_get K p d = Some (m', d1)" by auto
  note got = zq_get_done [OF Cons.prems r]
  then have ms: "m' = m" "ms = zq_lane V p d1" using Cons.hyps(2) by simp_all
  from Cons.hyps(1) [OF ms(2)] got obtain d' where d': "drain_lane (zq_get K p) d1 = Some (zq_lane V p d1, d')"
    "zq_usable K V d'" "\<forall>r. zq_lane V r d' = (if r = p then [] else zq_lane V r d1)" by blast
  have "drain_lane (zq_get K p) d = Some (zq_lane V p d, d')"
    using d'(1) got ms(1) by (subst drain_lane.simps) (simp add: r)
  with d'(2,3) got show ?case by auto
qed

theorem zephyr_queue_delivers:
  assumes "queue_laws V (\<lambda>n. Some (k_msgq_init K n)) (k_msgq_put K) (k_msgq_get K) (k_msgq_num_used_get K)"
    and "zq_Create K alloc capacity zq_empty = (True, d)" and "zq.traffic K prio ops d = (accepted, received, d')"
  shows "filter (\<lambda>m. prio m = p) accepted = filter (\<lambda>m. prio m = p) received @ zq_lane V p d'"
    and "\<exists>d''. zq_DrainAndDelete K d' = Some (zq_lane V HIGH d' @ zq_lane V NORMAL d', d'')"
proof -
  have d: "m_highMsgq d = Some (k_msgq_init K capacity)" "m_normalMsgq d = Some (k_msgq_init K capacity)"
    "m_created d" "m_highBuffer d" "m_normalBuffer d"
    using assms(2) by (auto simp: zq_Create_def zq_empty_def Let_def split: if_splits)
  have u: "zq_usable K V d" using assms(1) d by (simp add: zq_usable_def zq_dangling_def)
  have empty: "zq_lane V r d = []" for r
    using d queue_create [OF assms(1), of capacity] by (simp add: zq_view_defs)
  note run = zq.delivered_once_in_order [OF u _ assms(3)]
  show "filter (\<lambda>m. prio m = p) accepted = filter (\<lambda>m. prio m = p) received @ zq_lane V p d'"
    using run [of p] empty by simp
  have "zq_usable K V d'" using run empty by simp
  from zq_drain [OF this, of HIGH] obtain d1 where d1: "drain_lane (zq_get K HIGH) d' = Some (zq_lane V HIGH d', d1)"
    "zq_usable K V d1" "zq_lane V NORMAL d1 = zq_lane V NORMAL d'" by auto
  from zq_drain [OF d1(2), of NORMAL] d1 show "\<exists>d''. zq_DrainAndDelete K d' = Some (zq_lane V HIGH d' @ zq_lane V NORMAL d', d'')"
    by (auto simp: zq_DrainAndDelete_def)
qed

text \<open>While \<^verbatim>\<open>Receive\<close> waits, others only send: when the wait ends with a message there, it is returned.\<close>

theorem zephyr_receive_wakes:
  assumes "zq_usable K V d2" and "zq_lane V HIGH d2 \<noteq> [] \<or> zq_lane V NORMAL d2 \<noteq> []"
    and "zq_look K id d = (None, d1)" and "waited d1 = Some d2"
  shows "fst (zq_Receive K False id waited d) \<noteq> None"
proof -
  have "zq_get K HIGH d2 \<noteq> None \<or> zq_get K NORMAL d2 \<noteq> None"
    using zq_get_none [OF assms(1)] assms(2) by blast
  then show ?thesis using assms(3,4) by (auto simp: zq_Receive_def zq_look_def split: option.splits)
qed

text \<open>A \<^verbatim>\<open>Create\<close> that fails at the second buffer, and \<^verbatim>\<open>Destroy\<close>, free a buffer the kernel's queue still
  uses, and \<^verbatim>\<open>Send\<close> does not look at \<^verbatim>\<open>m_created\<close>.\<close>

theorem zephyr_queue_dangles:
  assumes "\<not> m_created d" and "alloc HIGH" and "\<not> alloc NORMAL"
  shows "fst (zq_Create K alloc capacity d) = False" and "zq_dangling (snd (zq_Create K alloc capacity d))"
    and "zq_usable K V d' \<Longrightarrow> zq_dangling (zq_Destroy d') \<and> (zq_Send K m p (zq_Destroy d') = None \<longleftrightarrow> zq_full V p d')"
proof -
  show "fst (zq_Create K alloc capacity d) = False" "zq_dangling (snd (zq_Create K alloc capacity d))"
    using assms by (simp_all add: zq_Create_def zq_dangling_def Let_def)
  assume u: "zq_usable K V d'"
  have "zq_Send K m p (zq_Destroy d') = None \<longleftrightarrow> zq_Send K m p d' = None"
    by (auto simp: zq_Send_def zq_Destroy_def split: option.splits)
  with zq.put_fails [OF u] u show "zq_dangling (zq_Destroy d') \<and> (zq_Send K m p (zq_Destroy d') = None \<longleftrightarrow> zq_full V p d')"
    by (auto simp: zq_dangling_def zq_Destroy_def zq_usable_def)
qed

end
