(* ===== verification/Spec2Isabelle.thy ===== *)
theory Spec2Isabelle
  imports Prelude Checksum Streams Serialize SerializeLaws SerializeValues SerializeProps
    SerializeSafety LaneQueue WorkerThread IntrusiveList Watchdog AsyncCalls AsyncHttp
    Guards StdMap Reliability Timers ArgHeap Delegates AsyncDelegates Multicast Signals
    Unicast PoolAllocator XAllocator Remote SerialFrames Participants DataBus BusLaws NetworkNode RemoteCalls SocketFrames
    RtosQueue ThreadXQueue RtosThread BlockingDelegates PosixThread DeadlineWatch KernelSemaphores PortQueues
begin

text \<open>
  DelegateMQ and its Async-HTTP client: a verification library.

  \<^bold>\<open>The program.\<close> DelegateMQ (\<^verbatim>\<open>src/DelegateMQ\<close>) is a header-oriented C++ library: a delegate is a
  value that names a function and can be called; an asynchronous delegate, when called, copies its
  arguments, wraps them into a message and posts it to the queue of a worker thread, which unpacks
  it and calls the function; the blocking variant waits for the result, with a timeout. Containers
  (unicast, multicast, signals) hold delegates and call them all. Around this core there are
  timers, a binary serializer, reliable delivery of messages over lossy transports, a thread
  watchdog and a fixed block allocator. \<^verbatim>\<open>src/HTTP\<close> is an HTTP client built on it: each instance has
  a worker thread on which it runs libcurl.

  \<^bold>\<open>Theories and what they model.\<close> Names follow the code; a class \<^verbatim>\<open>C\<close> is a record of its members,
  a method a function that takes and returns that record.

  \<^item> \<open>Prelude\<close>: types shared by all (machine words, time in integers), the
    collections \<open>inv_defs\<close>, \<open>step_defs\<close>, and generic lemmas on lists and words.
  \<^item> \<open>LaneQueue\<close>: the locale \<open>lane_queue\<close> states what a worker relies on in its queue of messages with
    two priorities; the two deques of \<^verbatim>\<open>StdlibThread\<close> are its interpretation.
    \<open>WorkerThread\<close>: \<^verbatim>\<open>port/os/stdlib/StdlibThread.cpp\<close>: \<^verbatim>\<open>DispatchDelegate\<close> cut where it gives up the
    lock, \<^verbatim>\<open>Process\<close>, \<^verbatim>\<open>ExitThread\<close>, with the overflow policies, as an \<open>inductive\<close> step relation.
    Lemmas: exactly-once delivery, order, priorities, the bound of the queue, exit.
    \<open>PosixThread\<close>: \<^verbatim>\<open>port/os/posix/PosixThread.cpp\<close>, the same class with its condition variables made
    explicit (who sleeps, whom a signal wakes, wake-ups without a signal, timeouts); it refines
    \<open>WorkerThread\<close> through \<open>thr\<close>, and no wake-up is lost.
    \<open>Watchdog\<close>: the watchdog registry and the hooks (\<^verbatim>\<open>common/ThreadHooks.h\<close>).
  \<^item> \<open>RtosQueue\<close>, \<open>ThreadXQueue\<close>: the message queues \<^verbatim>\<open>port/os/freertos/FreeRTOSDelegateQueue.h\<close> and
    \<^verbatim>\<open>port/os/threadx/ThreadXDelegateQueue.h\<close>: one native queue per priority and a counting semaphore as
    their common doorbell. The kernels are parameters with the laws \<open>freertos_laws\<close> and \<open>threadx_laws\<close>; the
    locale \<open>doorbell_lanes\<close> has both queues as interpretations. \<open>PortQueues\<close>: the queues of CMSIS-RTOS2, NuttX
    and Zephyr, which need no doorbell, as interpretations of \<open>bounded_lanes\<close>. \<open>RtosThread\<close>:
    \<^verbatim>\<open>port/os/freertos/FreeRTOSThread.cpp\<close> on such a queue, one step per call of the kernel, as it holds
    no lock in between.
  \<^item> \<open>ArgHeap\<close>: \<^verbatim>\<open>delegate/make_tuple_heap.h\<close> on an explicit store. \<open>AsyncCalls\<close>:
    \<^verbatim>\<open>DelegateAsyncWait.h\<close> and \<^verbatim>\<open>Semaphore.h\<close>, caller and worker as two threads whose steps interleave.
    \<open>Delegates\<close>: the classes of \<^verbatim>\<open>Delegate.h\<close> and their asynchronous variants: binding, cloning,
    equality, the call. \<open>AsyncDelegates\<close> puts delegates on the worker thread, \<open>BlockingDelegates\<close>
    does so for the blocking ones: their four classes, \<^verbatim>\<open>Invoke\<close>, a whole call, the call on the
    caller's own thread, and the helpers of \<^verbatim>\<open>extras/util/AsyncInvoke.h\<close>.
    \<open>KernelSemaphores\<close>: \<^verbatim>\<open>dmq::Semaphore\<close> on the embedded ports, over the condition variables of FreeRTOS
    and ThreadX (interpretations of the locale \<open>condition_variable\<close>) or a native semaphore.
  \<^item> \<open>Unicast\<close>, \<open>Multicast\<close>, \<open>Signals\<close>: \<^verbatim>\<open>UnicastDelegate(Safe).h\<close>, \<^verbatim>\<open>MulticastDelegate(Safe).h\<close>,
    \<^verbatim>\<open>Signal.h\<close>: the containers, with what callbacks do to the container that calls them.
  \<^item> \<open>AsyncHttp\<close>: \<^verbatim>\<open>src/HTTP/async_http.{h,cpp}\<close> on top of \<open>WorkerThread\<close>; libcurl is the parameter
    \<open>curl\<close> with its documented behaviour \<open>curl_laws\<close>.
  \<^item> \<open>Streams\<close>, \<open>Serialize\<close>, \<open>SerializeLaws\<close>, \<open>SerializeValues\<close>, \<open>SerializeProps\<close>, \<open>SerializeSafety\<close>:
    \<^verbatim>\<open>port/serialize/serialize/msg_serialize.h\<close>: string streams, the overloads of \<^verbatim>\<open>read\<close> and \<^verbatim>\<open>write\<close>,
    whole values, round trips and versions, arbitrary input.
  \<^item> \<open>Checksum\<close>: \<^verbatim>\<open>extras/util/crc16.h\<close>. \<open>Guards\<close>: \<^verbatim>\<open>MonotonicGuard.h\<close>. \<open>StdMap\<close>: \<^verbatim>\<open>std::map\<close> as a sorted
    association list. \<open>Reliability\<close>: \<^verbatim>\<open>TransportMonitor.h\<close>, \<^verbatim>\<open>RetryMonitor.h\<close>, \<^verbatim>\<open>ReliableTransport.h\<close>.
    \<open>IntrusiveList\<close>: lists linked through their elements; \<open>Timers\<close>: \<^verbatim>\<open>Timer.h\<close>, \<^verbatim>\<open>Timer.cpp\<close>,
    \<^verbatim>\<open>TimerDelegate.h\<close>.
  \<^item> \<open>Remote\<close>: \<^verbatim>\<open>DelegateRemote.h\<close>, \<^verbatim>\<open>Dispatcher.h\<close>, \<^verbatim>\<open>RemoteChannel.h\<close>: a call is serialized, sent
    with an id and a number, and invoked at the other end; serializer and transport are parameters.
    \<open>RemoteCalls\<close>: \<^verbatim>\<open>extras/rpc/RemoteDispatcher.{h,cpp}\<close>: calls that wait for their acknowledgement,
    with the network thread and any number of callers interleaved.
  \<^item> \<open>SerialFrames\<close>: \<^verbatim>\<open>SerialTransport.h\<close>, frames with a checksum on a byte stream that may be corrupted.
    \<open>SocketFrames\<close>: \<^verbatim>\<open>LinuxTcpTransport.h\<close> and \<^verbatim>\<open>LinuxUdpTransport.h\<close>; what the kernel reads and writes
    are the parameters of \<open>tcp_laws\<close>.
  \<^item> \<open>Participants\<close>: \<^verbatim>\<open>extras/databus/Participant.h\<close>. \<open>DataBus\<close>, \<open>BusLaws\<close>: \<^verbatim>\<open>DataBus.h\<close>, its operations
    and what subscribers may rely on. \<open>NetworkNode\<close>: \<^verbatim>\<open>NetworkNode.h\<close>, which joins the buses of several
    processes. \<open>DeadlineWatch\<close>: \<^verbatim>\<open>DeadlineSubscription.h\<close>, a subscription and a timer that every message
    starts again, on the models of both.
  \<^item> \<open>PoolAllocator\<close>, \<open>XAllocator\<close>: \<^verbatim>\<open>extras/allocator/Allocator.cpp\<close> and \<^verbatim>\<open>xallocator.cpp\<close> on words of
    memory, with several threads interleaved at the sections of the global lock.

  \<^bold>\<open>Bounds and fuel.\<close> Walks over lists linked through memory take the number \<open>n\<close> of objects as
  bound: a list without cycle is not longer (\<open>linked\<close> with \<open>distinct\<close>). \<open>process_run\<close> (the loop of
  \<^verbatim>\<open>Process\<close> in \<open>WorkerThread\<close>) takes fuel; twice the limit of the queue plus two is enough to drain it
  (\<open>drain_order\<close>). \<open>ProcessTimers\<close>, the new-handler loop of the allocator, \<open>drain_lane\<close> of \<open>RtosQueue\<close> and
  \<open>wait_not_full\<close> of \<open>PosixThread\<close> are \<open>partial_function (option)\<close>: the first and the third are proved to
  return, the second need not, and the last does unless its deadline is invalid. The batches
  of 16 expired items, the table of 100 pending messages and the 15 allocators are the constants of
  the code.

  \<^bold>\<open>Concurrency.\<close> What a lock protects is one step; where the code gives up a lock or touches shared
  data without one, the operation is cut into steps, and the properties hold for every
  interleaving of them. The memory model is sequentially consistent.

  \<^bold>\<open>Not modelled.\<close> Opening, closing and configuring sockets and serial ports, and the transports over
  other libraries (message brokers, Windows, embedded network stacks), which repeat the protocol
  of the modelled ones; the ports to other operating systems (Win32 and Qt, which mirror the C++ and
  POSIX threads, ThreadX, Zephyr, CMSIS-RTOS2 and NuttX, which mirror the FreeRTOS one, but for their queues and semaphores); adapters to third-party serializers, whose formats are
  not under \<^verbatim>\<open>src\<close>; thread statistics, debug prints, compile-time configuration and assertions that only
  abort. Exceptions of memory allocation are modelled where the code handles them (\<open>ArgHeap\<close>,
  \<open>XAllocator\<close>).
\<close>

end
